(* ===== verification/Prelude.thy ===== *)
theory Prelude
  imports Main "HOL-Library.Multiset" "HOL-Library.AList"
begin

text \<open>
  What every component of the development shares: Python's exceptions as values and the
  chaining of fallible calls, Python's dictionaries as insertion-ordered association lists,
  list indexing and slicing with Python's conventions for negative and out-of-range indices,
  and the stable sorts of the standard library.  The facts are collected in
  \<open>res_simps\<close> (results), \<open>dict_simps\<close> (dictionaries) and \<open>seq_simps\<close> (lists).
\<close>

named_theorems res_simps
named_theorems dict_simps
named_theorems seq_simps

section \<open>Exceptions as values\<close>

text \<open>The exceptions the modelled code raises, and a call that may raise one.\<close>

datatype py_error =
    AssertionError | IndexError | KeyError | ValueError | RuntimeError | TypeError
  | NotImplementedError | ZeroDivisionError | AttributeError | TimeoutError | ConnectionError

type_synonym 'a result = "py_error + 'a"

definition bind_res :: "'a result \<Rightarrow> ('a \<Rightarrow> 'b result) \<Rightarrow> 'b result" where
  "bind_res m f = (case m of Inl e \<Rightarrow> Inl e | Inr x \<Rightarrow> f x)"

text \<open>\<open>assert b\<close>, followed by the rest of the body.\<close>

definition asserting :: "bool \<Rightarrow> 'a result \<Rightarrow> 'a result" where
  "asserting b k = (if b then k else Inl AssertionError)"

lemma bind_res_simps [simp, res_simps]:
  "bind_res (Inl e) f = Inl e" "bind_res (Inr x) f = f x"
  by (simp_all add: bind_res_def)

lemma bind_res_Inr_iff [res_simps]:
  "bind_res m f = Inr y \<longleftrightarrow> (\<exists>x. m = Inr x \<and> f x = Inr y)"
  by (cases m) simp_all

lemma bind_res_Inl_iff [res_simps]:
  "bind_res m f = Inl e \<longleftrightarrow> m = Inl e \<or> (\<exists>x. m = Inr x \<and> f x = Inl e)"
  by (cases m) auto

lemma asserting_simps [simp, res_simps]:
  "asserting True k = k" "asserting False k = Inl AssertionError"
  by (simp_all add: asserting_def)

lemma asserting_Inr_iff [simp, res_simps]: "asserting b k = Inr y \<longleftrightarrow> b \<and> k = Inr y"
  by (simp add: asserting_def)

lemma bind_asserting [simp, res_simps]: "bind_res (asserting b m) f = asserting b (bind_res m f)"
  by (simp add: asserting_def)

text \<open>A loop whose body may raise: the first exception ends it.\<close>

fun fold_res :: "('s \<Rightarrow> 'a \<Rightarrow> 's result) \<Rightarrow> 's \<Rightarrow> 'a list \<Rightarrow> 's result" where
  "fold_res f s [] = Inr s"
| "fold_res f s (x # xs) = bind_res (f s x) (\<lambda>s'. fold_res f s' xs)"

fun map_res :: "('a \<Rightarrow> 'b result) \<Rightarrow> 'a list \<Rightarrow> 'b list result" where
  "map_res f [] = Inr []"
| "map_res f (x # xs) = bind_res (f x) (\<lambda>y. bind_res (map_res f xs) (\<lambda>ys. Inr (y # ys)))"

lemma fold_res_append [res_simps]:
  "fold_res f s (xs @ ys) = bind_res (fold_res f s xs) (\<lambda>s'. fold_res f s' ys)"
  by (induction xs arbitrary: s) (auto simp: bind_res_def split: sum.splits)

lemma fold_res_invariant:
  assumes "fold_res f s xs = Inr t" and "P s"
    and "\<And>s x s'. x \<in> set xs \<Longrightarrow> P s \<Longrightarrow> f s x = Inr s' \<Longrightarrow> P s'"
  shows "P t"
  using assms by (induction xs arbitrary: s) (auto simp: bind_res_Inr_iff)

lemma map_res_length [res_simps]: "map_res f xs = Inr ys \<Longrightarrow> length ys = length xs"
  by (induction xs arbitrary: ys) (auto simp: bind_res_Inr_iff)

lemma map_res_all_ok [res_simps]:
  "(\<And>x. x \<in> set xs \<Longrightarrow> f x = Inr (g x)) \<Longrightarrow> map_res f xs = Inr (map g xs)"
  by (induction xs) auto

lemma map_res_append [res_simps]:
  "map_res f (xs @ ys) = bind_res (map_res f xs) (\<lambda>us. bind_res (map_res f ys) (\<lambda>vs. Inr (us @ vs)))"
  by (induction xs) (auto simp: bind_res_def split: sum.splits)

lemma map_res_map:
  "(\<And>x. x \<in> set xs \<Longrightarrow> f (g x) = Inr (h x)) \<Longrightarrow> map_res f (map g xs) = Inr (map h xs)"
  by (induction xs) auto

lemma map_res_total:
  "(\<And>x. x \<in> set xs \<Longrightarrow> \<exists>y. f x = Inr y) \<Longrightarrow> \<exists>ys. map_res f xs = Inr ys"
  by (induction xs) fastforce+

lemma map_res_nth:
  "map_res f xs = Inr ys \<Longrightarrow> i < length xs \<Longrightarrow> f (xs ! i) = Inr (ys ! i)"
  by (induction xs arbitrary: ys i) (auto simp: bind_res_Inr_iff nth_Cons split: nat.splits)

lemma map_resI:
  "length ys = length xs \<Longrightarrow> (\<And>i. i < length xs \<Longrightarrow> f (xs ! i) = Inr (ys ! i)) \<Longrightarrow> map_res f xs = Inr ys"
proof (induction xs arbitrary: ys)
  case (Cons x xs)
  then obtain y ys' where ys: "ys = y # ys'" "length ys' = length xs" by (cases ys) auto
  have "f x = Inr y" using Cons.prems(2)[of 0] ys by simp
  moreover have "map_res f xs = Inr ys'" using Cons.prems(2)[of "Suc i" for i] ys by (intro Cons.IH) force+
  ultimately show ?case by (simp add: ys)
qed simp

section \<open>Dictionaries\<close>

text \<open>
  A \<open>dict\<close> is an association list in insertion order: assigning to a key that is present
  keeps its position, a new key goes to the end, and this is what \<open>AList.update\<close> does.
\<close>

type_synonym ('k, 'v) dict = "('k \<times> 'v) list"

definition dict_get :: "('k, 'v) dict \<Rightarrow> 'k \<Rightarrow> 'v option" where
  "dict_get d k = map_of d k"

definition dict_index :: "('k, 'v) dict \<Rightarrow> 'k \<Rightarrow> 'v result" where
  "dict_index d k = (case map_of d k of None \<Rightarrow> Inl KeyError | Some v \<Rightarrow> Inr v)"

definition dict_keys :: "('k, 'v) dict \<Rightarrow> 'k list" where
  "dict_keys d = map fst d"

definition dict_ok :: "('k, 'v) dict \<Rightarrow> bool" where
  "dict_ok d \<longleftrightarrow> distinct (map fst d)"

lemma dict_index_Inr_iff [dict_simps]: "dict_index d k = Inr v \<longleftrightarrow> map_of d k = Some v"
  by (simp add: dict_index_def split: option.splits)

lemma map_of_update [simp, dict_simps]:
  "map_of (AList.update k v d) k' = (if k' = k then Some v else map_of d k')"
  by (simp add: update_conv')

lemma map_of_delete [simp, dict_simps]:
  "map_of (AList.delete k d) k' = (if k' = k then None else map_of d k')"
  by (simp add: delete_conv')

lemma dict_ok_update [intro, dict_simps]: "dict_ok d \<Longrightarrow> dict_ok (AList.update k v d)"
  by (simp add: dict_ok_def distinct_update)

lemma dict_ok_delete [intro, dict_simps]: "dict_ok d \<Longrightarrow> dict_ok (AList.delete k d)"
  by (simp add: dict_ok_def distinct_delete)

lemma update_fresh: "k \<notin> fst ` set al \<Longrightarrow> AList.update k v al = al @ [(k, v)]"
  by (induction al) auto

lemma set_keys_update [dict_simps]:
  "fst ` set (AList.update k v d) = insert k (fst ` set d)"
  using dom_update[of k v d] by (simp add: dom_map_of_conv_image_fst)

section \<open>Lists\<close>

text \<open>\<open>xs[i]\<close> with Python's negative indices and \<open>IndexError\<close>.\<close>

definition py_index :: "'a list \<Rightarrow> int \<Rightarrow> 'a result" where
  "py_index xs i =
     (let j = (if i < 0 then i + int (length xs) else i)
      in if 0 \<le> j \<and> j < int (length xs) then Inr (xs ! nat j) else Inl IndexError)"

text \<open>
  A slice bound: \<open>None\<close> takes the default, a negative bound counts from the end, and both
  are clipped to the list.  \<open>py_slice xs a b\<close> is \<open>xs[a:b]\<close>.
\<close>

definition slice_bound :: "nat \<Rightarrow> int \<Rightarrow> nat" where
  "slice_bound n i = (if i < 0 then nat (i + int n) else min (nat i) n)"

definition py_slice :: "'a list \<Rightarrow> int option \<Rightarrow> int option \<Rightarrow> 'a list" where
  "py_slice xs a b =
     (let n = length xs;
          lo = (case a of None \<Rightarrow> 0 | Some i \<Rightarrow> slice_bound n i);
          hi = (case b of None \<Rightarrow> n | Some i \<Rightarrow> slice_bound n i)
      in take (hi - lo) (drop lo xs))"

lemma py_index_nat [seq_simps]:
  "i < length xs \<Longrightarrow> py_index xs (int i) = Inr (xs ! i)"
  by (simp add: py_index_def)

lemma slice_bound_of_nat [simp, seq_simps]: "slice_bound n (int i) = min i n"
  by (simp add: slice_bound_def)

lemma slice_bound_neg [simp, seq_simps]: "0 < i \<Longrightarrow> slice_bound n (- int i) = n - i"
  by (simp add: slice_bound_def nat_diff_distrib' flip: nat_int_comparison)

lemma py_slice_upto [seq_simps]: "py_slice xs None (Some (int n)) = take n xs"
  by (simp add: py_slice_def Let_def min_def)

lemma py_slice_from [seq_simps]: "py_slice xs (Some (int n)) None = drop n xs"
  by (simp add: py_slice_def Let_def min_def)

lemma py_slice_last [seq_simps]:
  "0 < n \<Longrightarrow> py_slice xs (Some (- int n)) None = drop (length xs - n) xs"
  by (simp add: py_slice_def Let_def)

lemma py_slice_minus_zero [seq_simps]: "py_slice xs (Some (- int 0)) None = xs"
  by (simp add: py_slice_def slice_bound_def)

lemma py_slice_but_last [seq_simps]:
  "0 < n \<Longrightarrow> py_slice xs None (Some (- int n)) = take (length xs - n) xs"
  by (simp add: py_slice_def Let_def)

text \<open>
  \<open>sorted(xs, reverse=True)\<close> for a class that defines \<open>__lt__\<close>: descending, and equal
  elements keep their order.
\<close>

fun insert_desc :: "('a \<Rightarrow> 'a \<Rightarrow> bool) \<Rightarrow> 'a \<Rightarrow> 'a list \<Rightarrow> 'a list" where
  "insert_desc lt x [] = [x]"
| "insert_desc lt x (y # ys) = (if lt x y then y # insert_desc lt x ys else x # y # ys)"

definition sorted_desc :: "('a \<Rightarrow> 'a \<Rightarrow> bool) \<Rightarrow> 'a list \<Rightarrow> 'a list" where
  "sorted_desc lt xs = foldr (insert_desc lt) xs []"

lemma mset_insert_desc [simp]: "mset (insert_desc lt x ys) = add_mset x (mset ys)"
  by (induction ys) auto

lemma mset_sorted_desc [simp, seq_simps]: "mset (sorted_desc lt xs) = mset xs"
  by (induction xs) (simp_all add: sorted_desc_def)

lemma length_sorted_desc [simp, seq_simps]: "length (sorted_desc lt xs) = length xs"
  by (metis mset_sorted_desc size_mset)

lemma set_sorted_desc [simp, seq_simps]: "set (sorted_desc lt xs) = set xs"
  by (metis mset_sorted_desc set_mset_mset)

text \<open>
  If the order refines a numeric key, the result is descending in the key.
\<close>

lemma insert_desc_key:
  assumes "\<And>a b. key a < key b \<Longrightarrow> lt a b" and "\<And>a b. lt a b \<Longrightarrow> key a \<le> key b"
    and "sorted_wrt (\<lambda>a b. key b \<le> (key a :: 'k :: linorder)) ys"
  shows "sorted_wrt (\<lambda>a b. key b \<le> key a) (insert_desc lt x ys)"
  using assms(3)
proof (induction ys)
  case Nil
  then show ?case by simp
next
  case (Cons y ys)
  have set_ins: "set (insert_desc lt x ys) = insert x (set ys)"
    by (metis mset_insert_desc set_mset_add_mset_insert set_mset_mset)
  show ?case
  proof (cases "lt x y")
    case True
    with Cons show ?thesis by (auto simp: set_ins dest: assms(2))
  next
    case False
    then have "key y \<le> key x" using assms(1) by (meson not_le)
    with False Cons.prems show ?thesis by auto
  qed
qed

lemma sorted_desc_key:
  assumes "\<And>a b. key a < key b \<Longrightarrow> lt a b" and "\<And>a b. lt a b \<Longrightarrow> key a \<le> key b"
  shows "sorted_wrt (\<lambda>a b. key b \<le> (key a :: 'k :: linorder)) (sorted_desc lt xs)"
  by (induction xs)
     (auto simp: sorted_desc_def intro!: insert_desc_key assms)

lemma sum_list_mset_eq: "mset xs = mset ys \<Longrightarrow> sum_list xs = sum_list (ys :: int list)"
  by (metis sum_mset_sum_list)

end
