(* ===== verification/PyStrings.thy ===== *)
theory PyStrings
  imports Prelude
begin

text \<open>
  Python's \<open>str\<close> methods on character lists, for the ASCII range: \<open>upper\<close>, \<open>startswith\<close>,
  \<open>endswith\<close>, \<open>in\<close>, \<open>find\<close>, \<open>rfind\<close>, \<open>split\<close> by a separator, \<open>join\<close>, \<open>replace\<close> and
  \<open>strip\<close>, with the facts about them that the components share.
\<close>

named_theorems str_simps

type_synonym str = string

definition upper_char :: "char \<Rightarrow> char" where
  "upper_char c = (let n = of_char c :: nat in if 97 \<le> n \<and> n \<le> 122 then char_of (n - 32) else c)"

definition upper :: "str \<Rightarrow> str" where
  "upper s = map upper_char s"

definition is_digit :: "char \<Rightarrow> bool" where
  "is_digit c = (let n = of_char c :: nat in 48 \<le> n \<and> n \<le> 57)"

text \<open>Decimal digits: their value, and \<open>str\<close> of an integer.\<close>

definition digit_val :: "char \<Rightarrow> nat" where
  "digit_val c = of_char c - 48"

definition nat_of_digits :: "str \<Rightarrow> nat option" where
  "nat_of_digits s =
     (if s \<noteq> [] \<and> list_all is_digit s then Some (foldl (\<lambda>n c. 10 * n + digit_val c) 0 s) else None)"

fun str_of_nat :: "nat \<Rightarrow> str" where
  "str_of_nat n =
     (if n < 10 then [char_of (48 + n)] else str_of_nat (n div 10) @ [char_of (48 + n mod 10)])"

declare str_of_nat.simps [simp del]

definition str_of_int :: "int \<Rightarrow> str" where
  "str_of_int i = (if i < 0 then ''-'' @ str_of_nat (nat (- i)) else str_of_nat (nat i))"

fun starts_with :: "'a list \<Rightarrow> 'a list \<Rightarrow> bool" where
  "starts_with s [] = True"
| "starts_with [] (c # cs) = False"
| "starts_with (x # xs) (c # cs) = (x = c \<and> starts_with xs cs)"

lemma starts_with_iff [str_simps]: "starts_with s p \<longleftrightarrow> (\<exists>t. s = p @ t)"
  by (induction s p rule: starts_with.induct) auto

lemma starts_with_append [simp]: "starts_with (p @ t) p"
  by (simp add: starts_with_iff)

lemma starts_with_length: "starts_with s p \<Longrightarrow> length p \<le> length s"
  by (auto simp: starts_with_iff)

text \<open>\<open>s.find(p)\<close> and \<open>s.rfind(p)\<close> with \<open>None\<close> for -1, and \<open>p in s\<close>.\<close>

fun find_sub :: "'a list \<Rightarrow> 'a list \<Rightarrow> nat option" where
  "find_sub [] p = (if p = [] then Some 0 else None)"
| "find_sub (x # xs) p =
     (if starts_with (x # xs) p then Some 0 else map_option Suc (find_sub xs p))"

fun rfind_sub :: "'a list \<Rightarrow> 'a list \<Rightarrow> nat option" where
  "rfind_sub [] p = (if p = [] then Some 0 else None)"
| "rfind_sub (x # xs) p =
     (case rfind_sub xs p of
        Some i \<Rightarrow> Some (Suc i)
      | None \<Rightarrow> if starts_with (x # xs) p then Some 0 else None)"

definition contains :: "'a list \<Rightarrow> 'a list \<Rightarrow> bool" where
  "contains s p = (find_sub s p \<noteq> None)"

definition ends_with :: "'a list \<Rightarrow> 'a list \<Rightarrow> bool" where
  "ends_with s p = starts_with (rev s) (rev p)"

lemma ends_with_iff [str_simps]: "ends_with s p \<longleftrightarrow> (\<exists>t. s = t @ p)"
proof
  assume "ends_with s p"
  then obtain t where "rev s = rev p @ t" by (auto simp: ends_with_def starts_with_iff)
  then have "s = rev t @ p" by (metis rev_append rev_rev_ident)
  then show "\<exists>t. s = t @ p" ..
qed (auto simp: ends_with_def starts_with_iff)

lemma find_sub_Some: "find_sub s p = Some i \<Longrightarrow> i \<le> length s \<and> starts_with (drop i s) p"
  by (induction s arbitrary: i) (auto split: if_splits)

lemma find_sub_least: "find_sub s p = Some i \<Longrightarrow> j < i \<Longrightarrow> \<not> starts_with (drop j s) p"
proof (induction s arbitrary: i j)
  case (Cons x xs)
  then show ?case by (cases j) (auto split: if_splits)
qed (simp split: if_splits)

lemma find_sub_None: "find_sub s p = None \<longleftrightarrow> (\<forall>j \<le> length s. \<not> starts_with (drop j s) p)"
proof (induction s)
  case Nil
  then show ?case by (cases p) auto
next
  case (Cons x xs)
  show ?case
  proof (cases "starts_with (x # xs) p")
    case True
    then show ?thesis by (auto intro!: exI[of _ 0])
  next
    case False
    have "(\<forall>j \<le> length (x # xs). \<not> starts_with (drop j (x # xs)) p) \<longleftrightarrow>
      (\<forall>j \<le> length xs. \<not> starts_with (drop j xs) p)" (is "?A \<longleftrightarrow> ?B")
    proof
      assume ?A
      then show ?B by (metis Suc_le_mono drop_Suc_Cons length_Cons)
    next
      assume ?B
      then show ?A using False by (metis Suc_le_mono drop0 drop_Suc_Cons length_Cons not0_implies_Suc)
    qed
    with Cons False show ?thesis by simp
  qed
qed

lemma contains_iff [str_simps]: "contains s p \<longleftrightarrow> (\<exists>u v. s = u @ p @ v)"
proof
  assume "contains s p"
  then obtain i where "find_sub s p = Some i" by (auto simp: contains_def)
  then have "starts_with (drop i s) p" by (rule find_sub_Some[THEN conjunct2])
  then obtain v where "drop i s = p @ v" by (auto simp: starts_with_iff)
  then have "s = take i s @ p @ v" by (metis append_take_drop_id)
  then show "\<exists>u v. s = u @ p @ v" by blast
next
  assume "\<exists>u v. s = u @ p @ v"
  then obtain u v where "s = u @ p @ v" by blast
  then have "length u \<le> length s" "starts_with (drop (length u) s) p" by simp_all
  then show "contains s p" unfolding contains_def using find_sub_None by blast
qed

lemma rfind_sub_Some: "rfind_sub s p = Some i \<Longrightarrow> i \<le> length s \<and> starts_with (drop i s) p"
  by (induction s arbitrary: i) (auto split: if_splits option.splits)

text \<open>\<open>s.split(sep)\<close> for a non-empty separator, \<open>sep.join(parts)\<close> and \<open>s.replace(a, b)\<close>.\<close>

function split_on :: "'a list \<Rightarrow> 'a list \<Rightarrow> 'a list list" where
  "split_on sep s =
     (case find_sub s sep of
        None \<Rightarrow> [s]
      | Some i \<Rightarrow> if sep = [] then [s]
                  else take i s # split_on sep (drop (i + length sep) s))"
  by auto
termination
proof (relation "measure (\<lambda>(sep, s). length s)")
  fix sep s :: "'a list" and i
  assume "find_sub s sep = Some i" and ne: "sep \<noteq> []"
  then have i: "i \<le> length s" "starts_with (drop i s) sep" using find_sub_Some by blast+
  with starts_with_length[OF i(2)] ne show "((sep, drop (i + length sep) s), sep, s) \<in> measure (\<lambda>(sep, s). length s)"
    by (cases sep) auto
qed simp

declare split_on.simps [simp del]

fun join :: "'a list \<Rightarrow> 'a list list \<Rightarrow> 'a list" where
  "join sep [] = []"
| "join sep [x] = x"
| "join sep (x # y # ys) = x @ sep @ join sep (y # ys)"

definition replace :: "'a list \<Rightarrow> 'a list \<Rightarrow> 'a list \<Rightarrow> 'a list" where
  "replace old new s = join new (split_on old s)"

lemma split_on_not_Nil [simp]: "split_on sep s \<noteq> []"
  by (subst split_on.simps) (simp split: option.split)

lemma join_Cons: "xs \<noteq> [] \<Longrightarrow> join sep (x # xs) = x @ sep @ join sep xs"
  by (cases xs) simp_all

lemma join_split [simp, str_simps]: "join sep (split_on sep s) = s"
proof (induction sep s rule: split_on.induct)
  case (1 sep s)
  show ?case
  proof (cases "find_sub s sep")
    case None
    then show ?thesis by (subst split_on.simps) simp
  next
    case (Some i)
    show ?thesis
    proof (cases "sep = []")
      case True
      with Some show ?thesis by (subst split_on.simps) simp
    next
      case False
      from Some obtain t where t: "drop i s = sep @ t"
        using find_sub_Some[OF Some] by (auto simp: starts_with_iff)
      have "drop (i + length sep) s = t"
        using t by (metis add.commute append_eq_conv_conj drop_drop)
      with 1[OF Some False] have "join sep (split_on sep t) = t" by simp
      moreover have "s = take i s @ sep @ t" using t by (metis append_take_drop_id)
      ultimately show ?thesis using Some False \<open>drop (i + length sep) s = t\<close>
        by (subst split_on.simps) (simp add: join_Cons)
    qed
  qed
qed

lemma split_on_absent: "\<not> contains s sep \<Longrightarrow> split_on sep s = [s]"
  by (subst split_on.simps) (simp add: contains_def)

lemma replace_absent [str_simps]: "\<not> contains s old \<Longrightarrow> replace old new s = s"
  by (simp add: replace_def split_on_absent)

lemma replace_same [str_simps]: "replace x x s = s"
  by (simp add: replace_def)

lemma split_on_parts:
  "sep \<noteq> [] \<Longrightarrow> p \<in> set (split_on sep s) \<Longrightarrow> \<not> contains p sep"
proof (induction sep s rule: split_on.induct)
  case (1 sep s)
  show ?case
  proof (cases "find_sub s sep")
    case None
    with "1.prems" show ?thesis by (subst (asm) split_on.simps) (simp add: contains_def)
  next
    case (Some i)
    have least: "\<not> starts_with (drop j s) sep" if "j < i" for j using find_sub_least[OF Some that] .
    have "i \<le> length s" using find_sub_Some[OF Some] by simp
    have "\<not> contains (take i s) sep"
    proof
      assume "contains (take i s) sep"
      then obtain u v where uv: "take i s = u @ sep @ v" by (auto simp: contains_iff)
      have s: "s = u @ sep @ v @ drop i s" using uv by (metis append.assoc append_take_drop_id)
      have "starts_with (drop (length u) s) sep" by (subst s) (simp add: starts_with_iff)
      moreover have "length u < i"
        using arg_cong[OF uv, of length] \<open>i \<le> length s\<close> "1.prems"(1) by (cases sep) auto
      ultimately show False using least by blast
    qed
    with Some "1.prems" "1.IH" show ?thesis by (subst (asm) split_on.simps) auto
  qed
qed

text \<open>\<open>s.strip()\<close>: the ASCII white space Python strips.\<close>

definition is_space :: "char \<Rightarrow> bool" where
  "is_space c = (let n = of_char c :: nat in (9 \<le> n \<and> n \<le> 13) \<or> (28 \<le> n \<and> n \<le> 32))"

definition strip :: "str \<Rightarrow> str" where
  "strip s = rev (dropWhile is_space (rev (dropWhile is_space s)))"

lemma strip_no_outer_space:
  "strip s \<noteq> [] \<Longrightarrow> \<not> is_space (hd (strip s)) \<and> \<not> is_space (last (strip s))"
proof -
  assume ne: "strip s \<noteq> []"
  let ?t = "dropWhile is_space s"
  have last: "\<not> is_space (last (strip s))"
  proof -
    let ?d = "dropWhile is_space (rev ?t)"
    have d: "?d \<noteq> []" using ne unfolding strip_def by blast
    show ?thesis unfolding strip_def last_rev by (rule hd_dropWhile[OF d])
  qed
  have "?t \<noteq> []"
  proof
    assume "?t = []"
    then have "strip s = []" by (simp only: strip_def rev.simps dropWhile.simps)
    with ne show False ..
  qed
  then have hd: "\<not> is_space (hd ?t)" by (rule hd_dropWhile)
  obtain u where "rev ?t = u @ dropWhile is_space (rev ?t)"
    by (metis takeWhile_dropWhile_id)
  then have "?t = strip s @ rev u" by (metis rev_append rev_rev_ident strip_def)
  with ne hd have "\<not> is_space (hd (strip s))" by (metis hd_append2)
  with last show ?thesis by simp
qed

lemma strip_id: "s \<noteq> [] \<Longrightarrow> \<not> is_space (hd s) \<Longrightarrow> \<not> is_space (last s) \<Longrightarrow> strip s = s"
proof -
  assume s: "s \<noteq> []" "\<not> is_space (hd s)" "\<not> is_space (last s)"
  have "dropWhile is_space s = s" using s by (cases s) simp_all
  moreover have "dropWhile is_space (rev s) = rev s" using s
    by (metis Nil_is_rev_conv dropWhile_eq_self_iff hd_rev)
  ultimately show ?thesis by (simp add: strip_def)
qed

lemma strip_Nil [simp]: "strip [] = []"
  by (simp add: strip_def)

lemma strip_idem [str_simps]: "strip (strip s) = strip s"
  using strip_no_outer_space strip_id by (cases "strip s = []") auto

end
