(* ===== verification/PyFunctional.thy ===== *)
theory PyFunctional
  imports Prelude PyStrings
begin

text \<open>
  \<open>verl/utils/py_functional.py\<close>: the values kept in \<open>meta_info\<close> dictionaries with Python's
  equality and truth value, the unions and rewritings of dictionaries the protocol uses, the
  dynamic enumerations, and the temporary environment variable.
\<close>

section \<open>Python values\<close>

text \<open>
  The values found in meta data.  Floats are left out (no operation here computes with them);
  a numpy array is a list that \<open>convert_nested_value_to_list_recursive\<close> still has to convert.
\<close>

datatype pyval =
    PNone
  | PBool bool
  | PInt int
  | PStr str
  | PList "pyval list"
  | PTuple "pyval list"
  | PArray "pyval list"
  | PDict "(str \<times> pyval) list"

text \<open>\<open>bool(v)\<close>, as \<open>a or b\<close> and \<open>if v\<close> use it; the truth value of an array of two or more
  elements is a \<open>ValueError\<close> in numpy, and no code here asks for it.\<close>

fun truthy :: "pyval \<Rightarrow> bool" where
  "truthy PNone = False"
| "truthy (PBool b) = b"
| "truthy (PInt i) = (i \<noteq> 0)"
| "truthy (PStr s) = (s \<noteq> [])"
| "truthy (PList xs) = (xs \<noteq> [])"
| "truthy (PTuple xs) = (xs \<noteq> [])"
| "truthy (PArray xs) = (xs \<noteq> [])"
| "truthy (PDict d) = (d \<noteq> [])"

text \<open>
  \<open>a == b\<close>: booleans compare as the integers 0 and 1, sequences element by element, and
  dictionaries regardless of their order.
\<close>

fun as_int :: "pyval \<Rightarrow> int option" where
  "as_int (PBool b) = Some (if b then 1 else 0)"
| "as_int (PInt i) = Some i"
| "as_int _ = None"

lemma size_dict_val [termination_simp]:
  "map_of d k = Some v \<Longrightarrow> size v < Suc (size_list (size_prod (\<lambda>x. 0) size) d)"
proof -
  assume "map_of d k = Some v"
  then have "(k, v) \<in> set d" by (rule map_of_SomeD)
  then have "size_prod (\<lambda>x. 0) size (k, v) \<le> size_list (size_prod (\<lambda>x. 0) size) d"
    by (rule size_list_estimation') simp
  then show ?thesis by simp
qed

lemma size_pair_mem [termination_simp]:
  "(k, v) \<in> set d \<Longrightarrow> size v < Suc (size_list (size_prod (\<lambda>x. 0) size) d)"
proof -
  assume "(k, v) \<in> set d"
  then have "size_prod (\<lambda>x. 0) size (k, v) \<le> size_list (size_prod (\<lambda>x. 0) size) d"
    by (rule size_list_estimation') simp
  then show ?thesis by simp
qed

fun py_eq :: "pyval \<Rightarrow> pyval \<Rightarrow> bool" where
  "py_eq PNone b = (b = PNone)"
| "py_eq (PStr s) b = (b = PStr s)"
| "py_eq (PBool p) b = (as_int b = Some (if p then 1 else 0))"
| "py_eq (PInt i) b = (as_int b = Some i)"
| "py_eq (PList xs) (PList ys) = list_all2 py_eq xs ys"
| "py_eq (PTuple xs) (PTuple ys) = list_all2 py_eq xs ys"
| "py_eq (PArray xs) (PArray ys) = list_all2 py_eq xs ys"
| "py_eq (PDict d) (PDict e) =
     (length d = length e \<and>
      list_all (\<lambda>(k, v). case map_of e k of None \<Rightarrow> False | Some w \<Rightarrow> py_eq v w) d)"
| "py_eq (PList xs) _ = False"
| "py_eq (PTuple xs) _ = False"
| "py_eq (PArray xs) _ = False"
| "py_eq (PDict d) _ = False"

text \<open>A value all of whose dictionaries have distinct keys, as every Python dictionary has.\<close>

fun pyval_ok :: "pyval \<Rightarrow> bool" where
  "pyval_ok (PList xs) = list_all pyval_ok xs"
| "pyval_ok (PTuple xs) = list_all pyval_ok xs"
| "pyval_ok (PArray xs) = list_all pyval_ok xs"
| "pyval_ok (PDict d) = (dict_ok d \<and> list_all (\<lambda>(k, v). pyval_ok v) d)"
| "pyval_ok _ = True"

lemma py_eq_refl [simp]: "pyval_ok v \<Longrightarrow> py_eq v v"
proof (induction v rule: pyval_ok.induct)
  case (4 d)
  have "case map_of d k of None \<Rightarrow> False | Some w \<Rightarrow> py_eq v w" if "(k, v) \<in> set d" for k v
  proof -
    have "map_of d k = Some v" using 4 that by (simp add: dict_ok_def)
    moreover have "py_eq v v" using 4 that by (auto simp: list_all_iff)
    ultimately show ?thesis by simp
  qed
  then show ?case by (auto simp: list_all_iff)
qed (auto simp: list_all_iff intro!: list.rel_refl_strong)

section \<open>Dictionaries\<close>

type_synonym meta_dict = "(str, pyval) dict"

definition meta_ok :: "meta_dict \<Rightarrow> bool" where
  "meta_ok d \<longleftrightarrow> pyval_ok (PDict d)"

lemma meta_okD: "meta_ok d \<Longrightarrow> (k, v) \<in> set d \<Longrightarrow> pyval_ok v"
  by (auto simp: meta_ok_def list_all_iff)

lemma meta_ok_map_of: "meta_ok d \<Longrightarrow> map_of d k = Some v \<Longrightarrow> pyval_ok v"
  using meta_okD map_of_SomeD by fast

definition union_two_dict :: "meta_dict \<Rightarrow> meta_dict \<Rightarrow> meta_dict result" where
  "union_two_dict dict1 dict2 =
     fold_res (\<lambda>d (key, val).
        case map_of d key of
          None \<Rightarrow> Inr (AList.update key val d)
        | Some w \<Rightarrow> asserting (py_eq val w) (Inr (AList.update key val d)))
       dict1 dict2"

definition prefixed :: "str \<Rightarrow> str \<Rightarrow> str" where
  "prefixed prefix key = (if \<not> starts_with key prefix then prefix @ key else key)"

definition rename_dict :: "(str, 'v) dict \<Rightarrow> str \<Rightarrow> (str, 'v) dict" where
  "rename_dict data prefix =
     foldl (\<lambda>new_data (key, val). AList.update (prefixed prefix key) val new_data) [] data"

text \<open>
  \<open>append_to_dict\<close>: \<open>data\<close> maps keys to lists; a list is spliced in, any other value appended.
  (A \<open>Metric\<close> value would start its own list type instead of a plain one.)
\<close>

definition append_to_dict :: "(str, pyval list) dict \<Rightarrow> meta_dict \<Rightarrow> str \<Rightarrow> (str, pyval list) dict" where
  "append_to_dict data new_data prefix =
     foldl (\<lambda>d (key, val).
        let new_key = prefixed prefix key;
            old = (case map_of d new_key of None \<Rightarrow> [] | Some xs \<Rightarrow> xs)
        in AList.update new_key (case val of PList xs \<Rightarrow> old @ xs | v \<Rightarrow> old @ [v]) d) data new_data"

text \<open>\<open>list_of_dict_to_dict_of_list\<close>: the keys are those of the first dictionary.\<close>

definition collect_item :: "(str, 'a list) dict \<Rightarrow> str \<times> 'a \<Rightarrow> (str, 'a list) dict result" where
  "collect_item output = (\<lambda>(key, item).
     case map_of output key of
       None \<Rightarrow> Inl AssertionError
     | Some xs \<Rightarrow> Inr (AList.update key (xs @ [item]) output))"

definition list_of_dict_to_dict_of_list ::
  "(str, 'a) dict list \<Rightarrow> (str, 'a list) dict result" where
  "list_of_dict_to_dict_of_list list_of_dict =
     (case list_of_dict of
        [] \<Rightarrow> Inr []
      | first # _ \<Rightarrow>
          fold_res (\<lambda>output data. fold_res collect_item output data)
            (map (\<lambda>(key, v). (key, [])) first) list_of_dict)"

fun convert_nested_value_to_list_recursive :: "pyval \<Rightarrow> pyval" where
  "convert_nested_value_to_list_recursive (PDict d) =
     PDict (map (\<lambda>(k, v). (k, convert_nested_value_to_list_recursive v)) d)"
| "convert_nested_value_to_list_recursive (PList xs) =
     PList (map convert_nested_value_to_list_recursive xs)"
| "convert_nested_value_to_list_recursive (PArray xs) =
     PList (map convert_nested_value_to_list_recursive xs)"
| "convert_nested_value_to_list_recursive v = v"

section \<open>Dynamic enumerations\<close>

record member =
  mem_name :: str
  mem_value :: nat

record dynamic_enum =
  registry :: "(str, member) dict"
  next_value :: nat

definition empty_enum :: dynamic_enum where
  "empty_enum = \<lparr> registry = [], next_value = 0 \<rparr>"

definition enum_register :: "str \<Rightarrow> dynamic_enum \<Rightarrow> (member \<times> dynamic_enum) result" where
  "enum_register name cls =
     (let key = upper name
      in if map_of (registry cls) key \<noteq> None then Inl ValueError
         else let m = \<lparr> mem_name = key, mem_value = next_value cls \<rparr>
              in Inr (m, cls\<lparr> registry := AList.update key m (registry cls),
                            next_value := next_value cls + 1 \<rparr>))"

definition enum_remove :: "str \<Rightarrow> dynamic_enum \<Rightarrow> (member \<times> dynamic_enum) result" where
  "enum_remove name cls =
     (let key = upper name
      in bind_res (dict_index (registry cls) key) (\<lambda>m.
           Inr (m, cls\<lparr> registry := AList.delete key (registry cls) \<rparr>)))"

definition enum_from_name :: "str \<Rightarrow> dynamic_enum \<Rightarrow> member option" where
  "enum_from_name name cls = dict_get (registry cls) (upper name)"

definition enum_getitem :: "str \<Rightarrow> dynamic_enum \<Rightarrow> member result" where
  "enum_getitem name cls = dict_index (registry cls) name"

definition enum_contains_name :: "str \<Rightarrow> dynamic_enum \<Rightarrow> bool" where
  "enum_contains_name name cls = (map_of (registry cls) name \<noteq> None)"

definition enum_names :: "dynamic_enum \<Rightarrow> str list" where
  "enum_names cls = dict_keys (registry cls)"

definition enum_values :: "dynamic_enum \<Rightarrow> member list" where
  "enum_values cls = map snd (registry cls)"

text \<open>Any number of calls of \<open>register\<close> and \<open>remove\<close>, in any order.\<close>

inductive enum_step :: "dynamic_enum \<Rightarrow> dynamic_enum \<Rightarrow> bool" where
  step_register: "enum_register name cls = Inr (m, cls') \<Longrightarrow> enum_step cls cls'"
| step_remove: "enum_remove name cls = Inr (m, cls') \<Longrightarrow> enum_step cls cls'"

inductive_cases enum_stepE: "enum_step cls cls'"

section \<open>A temporary environment variable\<close>

text \<open>
  \<open>with temp_env_var(key, value): body\<close>.  The body gets the environment and returns the
  environment it leaves and its outcome, a value or an exception; \<open>finally\<close> restores the
  variable in both cases.
\<close>

definition temp_env_var ::
  "str \<Rightarrow> str \<Rightarrow> ((str, str) dict \<Rightarrow> (str, str) dict \<times> 'a result) \<Rightarrow>
   (str, str) dict \<Rightarrow> (str, str) dict \<times> 'a result" where
  "temp_env_var key val body env =
     (let original = map_of env key;
          (env', outcome) = body (AList.update key val env)
      in (case original of
            None \<Rightarrow> AList.delete key env'
          | Some v \<Rightarrow> AList.update key v env', outcome))"

end
