(* ===== verification/Heapq.thy ===== *)
theory Heapq
  imports Prelude
begin

text \<open>
  The priority queue of Python's standard library, \<open>heapq\<close>, which
  \<open>src/verl_new/verl/utils/seqlen_balancing.py\<close> uses with objects that define
  \<open>__lt__\<close>.  The interface a client relies on is the locale \<open>priority_queue\<close>; the
  operations \<open>heappush\<close> and \<open>heappop\<close> are CPython's (\<open>_siftdown\<close> and \<open>_siftup\<close> on a
  list), so that the order in which equal elements leave the queue is the code's.
\<close>

section \<open>The interface\<close>

locale priority_queue =
  fixes push :: "'a list \<Rightarrow> 'a \<Rightarrow> 'a list" and pop :: "'a list \<Rightarrow> 'a \<times> 'a list"
  assumes mset_push: "mset (push q x) = add_mset x (mset q)"
    and mset_pop: "q \<noteq> [] \<Longrightarrow> add_mset (fst (pop q)) (mset (snd (pop q))) = mset q"
begin

lemma length_push: "length (push q x) = Suc (length q)"
  using mset_push[of q x] by (metis size_add_mset size_mset)

lemma set_push: "set (push q x) = insert x (set q)"
  using mset_push[of q x] by (metis set_mset_add_mset_insert set_mset_mset)

lemma length_pop: "q \<noteq> [] \<Longrightarrow> Suc (length (snd (pop q))) = length q"
  using mset_pop[of q] by (metis size_add_mset size_mset)

lemma pop_in: "q \<noteq> [] \<Longrightarrow> fst (pop q) \<in> set q"
  using mset_pop[of q] by (metis set_mset_mset union_single_eq_member)

lemma pop_rest: "q \<noteq> [] \<Longrightarrow> x \<in> set (snd (pop q)) \<Longrightarrow> x \<in> set q"
  using mset_pop[of q] by (metis insert_iff set_mset_add_mset_insert set_mset_mset)

text \<open>Pushing a list of elements, one after the other.\<close>

lemma mset_foldl_push: "mset (foldl push q xs) = mset q + mset xs"
  by (induction xs arbitrary: q) (simp_all add: mset_push)

text \<open>Popping twice and pushing one element: the step of a merging loop.\<close>

lemma pop_pop:
  assumes "2 \<le> length q"
  shows "add_mset (fst (pop q)) (add_mset (fst (pop (snd (pop q)))) (mset (snd (pop (snd (pop q))))))
           = mset q"
proof -
  from assms have ne: "q \<noteq> []" by auto
  with assms length_pop[OF ne] have "snd (pop q) \<noteq> []" by auto
  from mset_pop[OF this] mset_pop[OF ne] show ?thesis by simp
qed

lemma length_pop_pop_push:
  "2 \<le> length q \<Longrightarrow> length (push (snd (pop (snd (pop q)))) x) = length q - 1"
  using pop_pop[of q] length_push[of "snd (pop (snd (pop q)))" x]
  by (metis Suc_eq_plus1 diff_Suc_1 size_add_mset size_mset)

end

section \<open>CPython's heap operations\<close>

text \<open>
  \<open>_siftdown(heap, startpos, pos)\<close>: the new item (the one at \<open>pos\<close>) moves towards the
  root while it is smaller than its parent.
\<close>

function siftdown :: "('a \<Rightarrow> 'a \<Rightarrow> bool) \<Rightarrow> 'a list \<Rightarrow> nat \<Rightarrow> nat \<Rightarrow> 'a \<Rightarrow> 'a list" where
  "siftdown lt heap startpos pos newitem =
     (if startpos < pos \<and> lt newitem (heap ! ((pos - 1) div 2))
      then siftdown lt (heap[pos := heap ! ((pos - 1) div 2)]) startpos ((pos - 1) div 2) newitem
      else heap[pos := newitem])"
  by pat_completeness auto
termination
  by (relation "measure (\<lambda>(lt, heap, startpos, pos, newitem). pos)") auto

declare siftdown.simps [simp del]

text \<open>
  The loop of \<open>_siftup(heap, pos)\<close>: the smaller child moves up until a leaf is reached; the
  result is the heap and the position that is free now.
\<close>

definition smaller_child :: "('a \<Rightarrow> 'a \<Rightarrow> bool) \<Rightarrow> 'a list \<Rightarrow> nat \<Rightarrow> nat" where
  "smaller_child lt heap pos =
     (let child = 2 * pos + 1
      in if child + 1 < length heap \<and> \<not> lt (heap ! child) (heap ! (child + 1))
         then child + 1 else child)"

lemma smaller_child_bounds:
  "2 * pos + 1 < length heap \<Longrightarrow> pos < smaller_child lt heap pos \<and> smaller_child lt heap pos < length heap"
  by (auto simp: smaller_child_def Let_def)

function siftup_loop :: "('a \<Rightarrow> 'a \<Rightarrow> bool) \<Rightarrow> 'a list \<Rightarrow> nat \<Rightarrow> 'a list \<times> nat" where
  "siftup_loop lt heap pos =
     (if 2 * pos + 1 < length heap
      then siftup_loop lt (heap[pos := heap ! smaller_child lt heap pos]) (smaller_child lt heap pos)
      else (heap, pos))"
  by pat_completeness auto
termination
  by (relation "measure (\<lambda>(lt, heap, pos). length heap - pos)")
     (auto simp: smaller_child_def Let_def intro!: diff_less_mono2)

declare siftup_loop.simps [simp del]

definition siftup :: "('a \<Rightarrow> 'a \<Rightarrow> bool) \<Rightarrow> 'a list \<Rightarrow> nat \<Rightarrow> 'a list" where
  "siftup lt heap pos =
     (let newitem = heap ! pos; (heap', p) = siftup_loop lt heap pos
      in siftdown lt heap' pos p newitem)"

definition heappush :: "('a \<Rightarrow> 'a \<Rightarrow> bool) \<Rightarrow> 'a list \<Rightarrow> 'a \<Rightarrow> 'a list" where
  "heappush lt heap item = siftdown lt (heap @ [item]) 0 (length heap) item"

definition heappop :: "('a \<Rightarrow> 'a \<Rightarrow> bool) \<Rightarrow> 'a list \<Rightarrow> 'a \<times> 'a list" where
  "heappop lt heap =
     (let lastelt = last heap; rest = butlast heap
      in if rest = [] then (lastelt, [])
         else (hd rest, siftup lt (rest[0 := lastelt]) 0))"

section \<open>The operations keep the elements\<close>

lemma mset_move:
  "p < length h \<Longrightarrow> q < length h \<Longrightarrow> mset ((h[q := h ! p])[p := x]) = mset (h[q := x])"
  by (cases "p = q") (simp_all add: mset_update nth_list_update multiset_eq_iff)

lemma mset_siftdown:
  "pos < length heap \<Longrightarrow> mset (siftdown lt heap startpos pos x) = mset (heap[pos := x])"
proof (induction lt heap startpos pos x rule: siftdown.induct)
  case (1 lt heap startpos pos x)
  let ?p = "(pos - 1) div 2"
  show ?case
  proof (cases "startpos < pos \<and> lt x (heap ! ?p)")
    case True
    have "?p < length heap" using "1.prems" by auto
    with True "1.IH" "1.prems" show ?thesis
      by (simp add: siftdown.simps[of lt heap startpos pos x] mset_move)
  next
    case False
    then show ?thesis by (auto simp: siftdown.simps[of lt heap startpos pos x])
  qed
qed

lemma siftup_loop_props:
  assumes "siftup_loop lt heap pos = (heap', p)" and "pos < length heap"
  shows "p < length heap' \<and> mset (heap'[p := x]) = mset (heap[pos := x])"
  using assms
proof (induction lt heap pos arbitrary: heap' p rule: siftup_loop.induct)
  case (1 lt heap pos)
  let ?c = "smaller_child lt heap pos"
  show ?case
  proof (cases "2 * pos + 1 < length heap")
    case True
    then have c: "?c < length heap" by (simp add: smaller_child_bounds)
    from True "1.prems" have "siftup_loop lt (heap[pos := heap ! ?c]) ?c = (heap', p)"
      by (simp add: siftup_loop.simps[of lt heap pos])
    from "1.IH"[OF True this] c "1.prems"(2) show ?thesis
      by (simp add: mset_move)
  next
    case False
    with "1.prems" show ?thesis by (simp add: siftup_loop.simps[of lt heap pos])
  qed
qed

lemma mset_siftup: "pos < length heap \<Longrightarrow> mset (siftup lt heap pos) = mset heap"
  by (auto simp: siftup_def Let_def mset_siftdown dest: siftup_loop_props[where x = "heap ! pos"]
           split: prod.splits)

lemma mset_heappush: "mset (heappush lt heap x) = add_mset x (mset heap)"
  by (simp add: heappush_def mset_siftdown)

lemma mset_heappop:
  assumes "heap \<noteq> []"
  shows "add_mset (fst (heappop lt heap)) (mset (snd (heappop lt heap))) = mset heap"
proof -
  obtain rest l where heap: "heap = rest @ [l]" using assms by (metis append_butlast_last_id)
  show ?thesis
  proof (cases rest)
    case Nil
    with heap show ?thesis by (simp add: heappop_def)
  next
    case (Cons r rs)
    with heap show ?thesis by (simp add: heappop_def Let_def mset_siftup add_mset_commute)
  qed
qed

interpretation heapq: priority_queue "heappush lt" "heappop lt" for lt
  by unfold_locales (simp_all add: mset_heappush mset_heappop)

lemmas heapq_facts =
  heapq.mset_push heapq.mset_pop heapq.length_push heapq.set_push heapq.length_pop
  heapq.pop_in heapq.mset_foldl_push heapq.pop_pop

end
