(* ===== verification/LoadBalancer.thy ===== *)
theory LoadBalancer
  imports PyFunctional "HOL-Library.Multiset"
begin

text \<open>
  \<open>verl/workers/rollout/llm_server.py\<close>: the load balancer with sticky sessions, the client
  that acquires a server, generates and releases it in \<open>finally\<close>, and the client that resumes
  an aborted generation.  The LRU cache of the sessions is a third-party object, so its
  operations are a parameter; \<open>cache_laws\<close> states what its documentation promises.
\<close>

section \<open>The load balancer\<close>

record 'c cache_ops =
  c_get :: "str \<Rightarrow> 'c \<Rightarrow> str option"
  c_touch :: "str \<Rightarrow> 'c \<Rightarrow> 'c"
  c_put :: "str \<Rightarrow> str \<Rightarrow> 'c \<Rightarrow> 'c"
  c_del :: "str \<Rightarrow> 'c \<Rightarrow> 'c"

text \<open>
  A bounded cache: reading an entry keeps all of them, an entry just written is present, and
  writing or deleting one entry may evict others but never changes what they map to.
\<close>

definition cache_laws :: "'c cache_ops \<Rightarrow> bool" where
  "cache_laws ops \<longleftrightarrow>
     (\<forall>k k' c. c_get ops k' (c_touch ops k c) = c_get ops k' c) \<and>
     (\<forall>k v c. c_get ops k (c_put ops k v c) = Some v) \<and>
     (\<forall>k k' v c. k' \<noteq> k \<longrightarrow> c_get ops k' (c_put ops k v c) \<in> {None, c_get ops k' c}) \<and>
     (\<forall>k c. c_get ops k (c_del ops k c) = None) \<and>
     (\<forall>k k' c. k' \<noteq> k \<longrightarrow> c_get ops k' (c_del ops k c) = c_get ops k' c)"

record ('c, 'h) balancer =
  servers :: "(str, 'h) dict"
  inflight_requests :: "(str, int) dict"
  request_id_to_server :: 'c

definition balancer_init :: "(str, 'h) dict \<Rightarrow> 'c \<Rightarrow> ('c, 'h) balancer result" where
  "balancer_init srv cache =
     (if srv = [] then Inl ValueError
      else Inr \<lparr> servers = srv, inflight_requests = map (\<lambda>(sid, h). (sid, 0)) srv,
                 request_id_to_server = cache \<rparr>)"

text \<open>\<open>min(d, key=d.get)\<close>: the first key with the least value.\<close>

definition least_loaded :: "(str, int) dict \<Rightarrow> str" where
  "least_loaded d = fst (foldl (\<lambda>b p. if snd p < snd b then p else b) (hd d) (tl d))"

text \<open>The end of both paths: count the request and return the server's id and handle.\<close>

definition take_server :: "str \<Rightarrow> ('c, 'h) balancer \<Rightarrow> ('c, 'h) balancer \<times> (str \<times> 'h) result" where
  "take_server server_id lb =
     (case map_of (inflight_requests lb) server_id of
        None \<Rightarrow> (lb, Inl KeyError)
      | Some n \<Rightarrow>
          (lb\<lparr> inflight_requests := AList.update server_id (n + 1) (inflight_requests lb) \<rparr>,
           bind_res (dict_index (servers lb) server_id) (\<lambda>h. Inr (server_id, h))))"

definition select_server ::
  "'c cache_ops \<Rightarrow> str \<Rightarrow> ('c, 'h) balancer \<Rightarrow> ('c, 'h) balancer \<times> (str \<times> 'h) result" where
  "select_server ops request_id lb =
     (if inflight_requests lb = [] then (lb, Inl RuntimeError)
      else let server_id = least_loaded (inflight_requests lb)
           in take_server server_id
                (lb\<lparr> request_id_to_server := c_put ops request_id server_id (request_id_to_server lb) \<rparr>))"

definition acquire_server ::
  "'c cache_ops \<Rightarrow> str \<Rightarrow> ('c, 'h) balancer \<Rightarrow> ('c, 'h) balancer \<times> (str \<times> 'h) result" where
  "acquire_server ops request_id lb =
     (case c_get ops request_id (request_id_to_server lb) of
        Some server_id \<Rightarrow>
          (let lb1 = lb\<lparr> request_id_to_server := c_touch ops request_id (request_id_to_server lb) \<rparr>
           in if map_of (inflight_requests lb1) server_id \<noteq> None then take_server server_id lb1
              else select_server ops request_id
                     (lb1\<lparr> request_id_to_server := c_del ops request_id (request_id_to_server lb1) \<rparr>))
      | None \<Rightarrow> select_server ops request_id lb)"

definition release_server :: "str \<Rightarrow> ('c, 'h) balancer \<Rightarrow> ('c, 'h) balancer" where
  "release_server server_id lb =
     (case map_of (inflight_requests lb) server_id of
        None \<Rightarrow> lb
      | Some n \<Rightarrow> if n > 0 then lb\<lparr> inflight_requests := AList.update server_id (n - 1) (inflight_requests lb) \<rparr>
                  else lb)"

definition add_servers :: "(str, 'h) dict \<Rightarrow> ('c, 'h) balancer \<Rightarrow> ('c, 'h) balancer" where
  "add_servers srv lb =
     foldl (\<lambda>lb (sid, handle). lb\<lparr> inflight_requests := AList.update sid 0 (inflight_requests lb),
                                 servers := AList.update sid handle (servers lb) \<rparr>) lb srv"

definition remove_servers :: "str list \<Rightarrow> ('c, 'h) balancer \<Rightarrow> ('c, 'h) balancer" where
  "remove_servers server_ids lb =
     foldl (\<lambda>lb sid. lb\<lparr> inflight_requests := AList.delete sid (inflight_requests lb),
                        servers := AList.delete sid (servers lb) \<rparr>) lb server_ids"

definition get_inflight_count :: "str \<Rightarrow> ('c, 'h) balancer \<Rightarrow> int" where
  "get_inflight_count server_id lb = (case map_of (inflight_requests lb) server_id of None \<Rightarrow> 0 | Some n \<Rightarrow> n)"

definition get_all_servers :: "('c, 'h) balancer \<Rightarrow> str list" where
  "get_all_servers lb = dict_keys (inflight_requests lb)"

record balancer_status =
  st_servers :: "(str, int) dict"
  st_total_inflight :: int
  st_active_servers :: nat
  st_registered_handles :: "str list"

definition get_status :: "('c, 'h) balancer \<Rightarrow> balancer_status" where
  "get_status lb =
     \<lparr> st_servers = inflight_requests lb, st_total_inflight = sum_list (map snd (inflight_requests lb)),
       st_active_servers = length (inflight_requests lb), st_registered_handles = dict_keys (servers lb) \<rparr>"

section \<open>The client\<close>

record token_output =
  token_ids :: "int list"
  log_probs :: "int list option"
  routed_experts :: "int list option"
  stop_reason :: "str option"
  num_preempted :: "int option"
  global_steps :: "int option"
  min_global_steps :: "int option"
  max_global_steps :: "int option"

text \<open>
  \<open>try: ... finally: release\<close>: the body runs between acquire and release; other requests may
  change the shared state meanwhile, which the body's state transformer covers.
\<close>

definition with_server ::
  "('s \<Rightarrow> 's \<times> ('id \<times> 'h) result) \<Rightarrow> ('id \<Rightarrow> 's \<Rightarrow> 's) \<Rightarrow> ('h \<Rightarrow> 's \<Rightarrow> 's \<times> 'a result) \<Rightarrow>
   's \<Rightarrow> 's \<times> 'a result" where
  "with_server acquire release body s =
     (case acquire s of
        (s1, Inl e) \<Rightarrow> (s1, Inl e)
      | (s1, Inr (server_id, server)) \<Rightarrow>
          (case body server s1 of (s2, r) \<Rightarrow> (release server_id s2, r)))"

text \<open>\<open>setdefault\<close> of the two step fields after the server answered.\<close>

definition set_steps :: "token_output \<Rightarrow> token_output" where
  "set_steps output =
     output\<lparr> min_global_steps := (case min_global_steps output of None \<Rightarrow> global_steps output | s \<Rightarrow> s),
            max_global_steps := (case max_global_steps output of None \<Rightarrow> global_steps output | s \<Rightarrow> s) \<rparr>"

definition client_generate ::
  "'c cache_ops \<Rightarrow> ('h \<Rightarrow> ('c, 'h) balancer \<Rightarrow> ('c, 'h) balancer \<times> token_output result) \<Rightarrow> str \<Rightarrow>
   ('c, 'h) balancer \<Rightarrow> ('c, 'h) balancer \<times> token_output result" where
  "client_generate ops call_server request_id =
     with_server (acquire_server ops request_id) release_server
       (\<lambda>server lb. case call_server server lb of (lb', r) \<Rightarrow> (lb', bind_res r (\<lambda>o1. Inr (set_steps o1))))"

section \<open>Resuming an aborted generation\<close>

definition last_rows :: "nat \<Rightarrow> int list \<Rightarrow> int list" where
  "last_rows n xs = py_slice xs (Some (- int n)) None"

text \<open>Step 2 of the loop: merge one output into the final one.\<close>

definition merge_output :: "token_output \<Rightarrow> token_output \<Rightarrow> token_output" where
  "merge_output final o1 =
     final\<lparr> token_ids := token_ids final @ token_ids o1,
           log_probs := (case (log_probs final, log_probs o1) of
                           (Some a, Some b) \<Rightarrow> Some (a @ b) | (a, _) \<Rightarrow> a),
           routed_experts :=
             (case routed_experts o1 of
                None \<Rightarrow> routed_experts final
              | Some r \<Rightarrow>
                  if length (token_ids o1) > 0 then
                    (case routed_experts final of
                       None \<Rightarrow> Some r
                     | Some f \<Rightarrow> Some (f @ last_rows (length (token_ids o1)) r))
                  else routed_experts final),
           num_preempted := (case (num_preempted final, num_preempted o1) of
                               (Some a, Some b) \<Rightarrow> Some (a + b) | (a, _) \<Rightarrow> a),
           stop_reason := stop_reason o1 \<rparr>"

definition fresh_output :: token_output where
  "fresh_output = \<lparr> token_ids = [], log_probs = Some [], routed_experts = None, stop_reason = None,
     num_preempted = Some 0, global_steps = None, min_global_steps = None, max_global_steps = None \<rparr>"

text \<open>
  The state of the loop: the limit in the caller's \<open>sampling_params\<close>, the final output, the first
  seen model version, and the loop itself with fuel; \<open>generate i prompt limit\<close> is the answer of
  call \<open>i\<close>.  \<open>None\<close> means that the fuel did not suffice.
\<close>

record resume_state =
  rs_limit :: "int option"
  rs_final :: token_output
  rs_min_steps :: "int option"

definition resume_init :: "int option \<Rightarrow> resume_state" where
  "resume_init limit = \<lparr> rs_limit = limit, rs_final = fresh_output, rs_min_steps = None \<rparr>"

definition resume_step ::
  "int option \<Rightarrow> token_output \<Rightarrow> resume_state \<Rightarrow> resume_state \<times> bool" where
  "resume_step original_max_tokens o1 st =
     (let merged = merge_output (rs_final st) o1;
          final = merged\<lparr> global_steps := global_steps o1,
                          min_global_steps := (case rs_min_steps st of None \<Rightarrow> global_steps o1 | s \<Rightarrow> s),
                          max_global_steps := global_steps o1 \<rparr>;
          st1 = st\<lparr> rs_final := final, rs_min_steps := min_global_steps final \<rparr>
      in case original_max_tokens of
           Some m \<Rightarrow>
             (let used = int (length (token_ids final));
                  st2 = st1\<lparr> rs_limit := Some (m - used) \<rparr>
              in if used \<ge> m then (st2\<lparr> rs_final := final\<lparr> stop_reason := Some ''length'' \<rparr> \<rparr>, True)
                 else (st2, stop_reason o1 \<notin> {Some ''aborted'', Some ''abort''}))
         | None \<Rightarrow> (st1, stop_reason o1 \<notin> {Some ''aborted'', Some ''abort''}))"

fun resume_loop ::
  "(nat \<Rightarrow> int list \<Rightarrow> int option \<Rightarrow> token_output result) \<Rightarrow> int list \<Rightarrow> int option \<Rightarrow>
   nat \<Rightarrow> nat \<Rightarrow> resume_state \<Rightarrow> resume_state result option" where
  "resume_loop generate prompt_ids original_max_tokens 0 i st = None"
| "resume_loop generate prompt_ids original_max_tokens (Suc fuel) i st =
     (case generate i (prompt_ids @ token_ids (rs_final st)) (rs_limit st) of
        Inl e \<Rightarrow> Some (Inl e)
      | Inr o1 \<Rightarrow>
          (case resume_step original_max_tokens o1 st of
             (st', stop) \<Rightarrow> if stop then Some (Inr st')
                            else resume_loop generate prompt_ids original_max_tokens fuel (Suc i) st'))"

definition resume_generate ::
  "(nat \<Rightarrow> int list \<Rightarrow> int option \<Rightarrow> token_output result) \<Rightarrow> int list \<Rightarrow> int option \<Rightarrow>
   nat \<Rightarrow> (token_output \<times> int option) result option" where
  "resume_generate generate prompt_ids limit fuel =
     map_option (\<lambda>r. bind_res r (\<lambda>st. Inr (rs_final st, rs_limit st)))
       (resume_loop generate prompt_ids limit fuel 0 (resume_init limit))"

section \<open>The contract of a request pool\<close>

text \<open>
  What the client relies on: acquiring counts one request on the server it returns, a failed
  acquire counts none, and releasing an active server with a positive count takes one off.
\<close>

locale request_pool =
  fixes inv :: "'s \<Rightarrow> bool" and active :: "'s \<Rightarrow> 'id \<Rightarrow> bool" and requests :: "'s \<Rightarrow> 'id \<Rightarrow> int"
    and acquire :: "'s \<Rightarrow> 's \<times> ('id \<times> 'h) result" and release :: "'id \<Rightarrow> 's \<Rightarrow> 's"
  assumes acquire_counts: "inv s \<Longrightarrow> acquire s = (s', Inr (i, h)) \<Longrightarrow>
      inv s' \<and> active s' = active s \<and> active s i \<and> requests s' = (requests s)(i := requests s i + 1)"
    and acquire_fails: "inv s \<Longrightarrow> acquire s = (s', Inl e) \<Longrightarrow> inv s' \<and> active s' = active s \<and> requests s' = requests s"
    and release_counts: "inv s \<Longrightarrow> active s i \<Longrightarrow> 0 < requests s i \<Longrightarrow>
      inv (release i s) \<and> active (release i s) = active s \<and>
      requests (release i s) = (requests s)(i := requests s i - 1)"
    and release_inactive: "inv s \<Longrightarrow> \<not> active s i \<Longrightarrow> release i s = s"
begin

text \<open>
  Whatever other requests do to the pool while the body runs, as long as they keep the
  invariant and this request stays counted: the call has no net effect of its own on the
  counts, whether the body returns or raises.
\<close>

lemma with_server_counts:
  assumes inv: "inv s" and run: "with_server acquire release body s = (s', r)"
    and body: "\<And>i server s1 s2 a. inv s1 \<Longrightarrow> active s1 i \<Longrightarrow> 0 < requests s1 i \<Longrightarrow> body server s1 = (s2, a) \<Longrightarrow>
      inv s2 \<and> active s2 i \<and> 0 < requests s2 i"
    and nonneg: "\<And>i. 0 \<le> requests s i"
  shows "(\<exists>e. acquire s = (s', Inl e) \<and> r = Inl e \<and> requests s' = requests s) \<or>
    (\<exists>i h s1 s2. acquire s = (s1, Inr (i, h)) \<and> body h s1 = (s2, r) \<and> inv s' \<and>
      (\<forall>j. requests s' j - requests s j = requests s2 j - requests s1 j))"
proof (cases "acquire s")
  case (Pair s1 a)
  show ?thesis
  proof (cases a)
    case (Inl e)
    with Pair run have "s' = s1" "r = Inl e" by (simp_all add: with_server_def)
    with acquire_fails[OF inv] Pair Inl show ?thesis by simp
  next
    case (Inr p)
    obtain i h where p: "p = (i, h)" by force
    obtain s2 b where s2: "body h s1 = (s2, b)" by force
    have s1: "inv s1" "active s1 i" "requests s1 = (requests s)(i := requests s i + 1)"
      using acquire_counts[OF inv, of s1 i h] Pair Inr p by auto
    have "0 < requests s1 i" using s1(3) nonneg[of i] by simp
    then have b: "inv s2" "active s2 i" "0 < requests s2 i" using body[OF s1(1,2) _ s2] by auto
    have s': "s' = release i s2" "r = b" using run Pair Inr p s2 by (simp_all add: with_server_def)
    have "inv s' \<and> requests s' = (requests s2)(i := requests s2 i - 1)"
      using release_counts[OF b] s' by simp
    then have "inv s' \<and> (\<forall>j. requests s' j - requests s j = requests s2 j - requests s1 j)" using s1(3) by auto
    with Pair Inr p s2 s' show ?thesis by blast
  qed
qed

end

section \<open>The balancer provides it\<close>

definition balancer_ok :: "('c, 'h) balancer \<Rightarrow> bool" where
  "balancer_ok lb \<longleftrightarrow> dict_ok (inflight_requests lb) \<and>
     fst ` set (servers lb) = fst ` set (inflight_requests lb) \<and>
     (\<forall>sid n. map_of (inflight_requests lb) sid = Some n \<longrightarrow> 0 \<le> n)"

definition in_pool :: "('c, 'h) balancer \<Rightarrow> str \<Rightarrow> bool" where
  "in_pool lb sid \<longleftrightarrow> map_of (inflight_requests lb) sid \<noteq> None"

definition load_of :: "('c, 'h) balancer \<Rightarrow> str \<Rightarrow> int" where
  "load_of lb sid = get_inflight_count sid lb"

lemma balancer_ok_routing [simp]: "balancer_ok (lb\<lparr> request_id_to_server := c \<rparr>) = balancer_ok lb"
  by (simp add: balancer_ok_def)

lemma in_pool_routing [simp]: "in_pool (lb\<lparr> request_id_to_server := c \<rparr>) = in_pool lb"
  by (simp add: in_pool_def fun_eq_iff)

lemma load_of_routing [simp]: "load_of (lb\<lparr> request_id_to_server := c \<rparr>) = load_of lb"
  by (simp add: load_of_def get_inflight_count_def fun_eq_iff)

lemma load_of_nonneg: "balancer_ok lb \<Longrightarrow> 0 \<le> load_of lb sid"
  by (auto simp: balancer_ok_def load_of_def get_inflight_count_def split: option.split)

lemma server_handle:
  assumes "balancer_ok lb" and "in_pool lb sid"
  shows "\<exists>h. dict_index (servers lb) sid = Inr h \<and> map_of (servers lb) sid = Some h"
proof -
  have "sid \<in> fst ` set (inflight_requests lb)"
    using assms(2) by (auto simp: in_pool_def) (metis domI dom_map_of_conv_image_fst)
  then have "sid \<in> fst ` set (servers lb)" using assms(1) by (simp add: balancer_ok_def)
  then obtain h where "map_of (servers lb) sid = Some h" by (metis domD dom_map_of_conv_image_fst)
  then show ?thesis by (auto simp: dict_index_def)
qed

lemma take_server_ok:
  assumes "balancer_ok lb" and "in_pool lb sid"
  shows "\<exists>lb' h. take_server sid lb = (lb', Inr (sid, h)) \<and> balancer_ok lb' \<and> in_pool lb' = in_pool lb \<and>
    load_of lb' = (load_of lb)(sid := load_of lb sid + 1) \<and> map_of (servers lb) sid = Some h \<and>
    servers lb' = servers lb \<and> request_id_to_server lb' = request_id_to_server lb"
proof -
  obtain n where n: "map_of (inflight_requests lb) sid = Some n" using assms(2) by (auto simp: in_pool_def)
  obtain h where h: "dict_index (servers lb) sid = Inr h" "map_of (servers lb) sid = Some h"
    using server_handle[OF assms] by blast
  have "sid \<in> fst ` set (inflight_requests lb)" using n by (metis domI dom_map_of_conv_image_fst)
  then show ?thesis
    using assms n h
    by (auto simp: take_server_def balancer_ok_def in_pool_def load_of_def get_inflight_count_def fun_eq_iff
        dict_ok_update set_keys_update insert_absorb split: option.splits)
qed

lemma least_loaded_fold:
  "foldl (\<lambda>b p. if snd p < snd b then p else b) b d \<in> insert b (set d) \<and>
   (\<forall>p \<in> insert b (set d). snd (foldl (\<lambda>b p. if snd p < snd b then p else b) b d) \<le> (snd p :: int))"
proof (induction d arbitrary: b)
  case (Cons p d)
  from Cons[of "if snd p < snd b then p else b"] show ?case by (auto split: if_splits)
qed simp

lemma least_loaded_spec:
  assumes "inflight_requests lb \<noteq> []" and "dict_ok (inflight_requests lb)"
  shows "in_pool lb (least_loaded (inflight_requests lb)) \<and>
    (\<forall>sid. in_pool lb sid \<longrightarrow> load_of lb (least_loaded (inflight_requests lb)) \<le> load_of lb sid)"
proof -
  let ?d = "inflight_requests lb"
  let ?m = "foldl (\<lambda>b p. if snd p < snd b then p else b) (hd ?d) (tl ?d)"
  have d: "insert (hd ?d) (set (tl ?d)) = set ?d" using assms(1) by (metis list.exhaust_sel list.simps(15))
  have m: "?m \<in> set ?d" "\<forall>p \<in> set ?d. snd ?m \<le> snd p"
    using least_loaded_fold[of "hd ?d" "tl ?d"] unfolding d by blast+
  have at_m: "map_of ?d (fst ?m) = Some (snd ?m)" using m(1) assms(2) by (simp add: dict_ok_def)
  have "snd ?m \<le> n" if "map_of ?d sid = Some n" for sid n using m(2) map_of_SomeD[OF that] by force
  with at_m show ?thesis
    by (auto simp: least_loaded_def in_pool_def load_of_def get_inflight_count_def split: option.splits)
qed

lemma select_server_ok:
  assumes "balancer_ok lb"
  shows "if inflight_requests lb = [] then select_server ops rid lb = (lb, Inl RuntimeError)
    else \<exists>lb' h. let sid = least_loaded (inflight_requests lb) in
      select_server ops rid lb = (lb', Inr (sid, h)) \<and> balancer_ok lb' \<and> in_pool lb' = in_pool lb \<and>
      load_of lb' = (load_of lb)(sid := load_of lb sid + 1) \<and> map_of (servers lb) sid = Some h \<and>
      servers lb' = servers lb \<and> request_id_to_server lb' = c_put ops rid sid (request_id_to_server lb)"
proof (cases "inflight_requests lb = []")
  case False
  let ?sid = "least_loaded (inflight_requests lb)"
  let ?lb = "lb\<lparr> request_id_to_server := c_put ops rid ?sid (request_id_to_server lb) \<rparr>"
  have "in_pool ?lb ?sid" using least_loaded_spec[OF False] assms by (simp add: balancer_ok_def)
  from take_server_ok[OF _ this] assms False show ?thesis by (simp add: select_server_def Let_def)
qed (simp add: select_server_def)

text \<open>One statement for both paths of \<open>acquire_server\<close>.\<close>

lemma acquire_server_cases:
  assumes "balancer_ok lb"
  obtains (fails) lb' where "acquire_server ops rid lb = (lb', Inl RuntimeError)" "inflight_requests lb = []"
      "balancer_ok lb'" "in_pool lb' = in_pool lb" "load_of lb' = load_of lb" "servers lb' = servers lb"
  | (sticky) sid lb' h where "c_get ops rid (request_id_to_server lb) = Some sid" "in_pool lb sid"
      "acquire_server ops rid lb = (lb', Inr (sid, h))" "balancer_ok lb'" "in_pool lb' = in_pool lb"
      "load_of lb' = (load_of lb)(sid := load_of lb sid + 1)" "map_of (servers lb) sid = Some h"
      "request_id_to_server lb' = c_touch ops rid (request_id_to_server lb)"
  | (selected) sid lb' h c where "\<forall>sid'. c_get ops rid (request_id_to_server lb) = Some sid' \<longrightarrow> \<not> in_pool lb sid'"
      "sid = least_loaded (inflight_requests lb)" "in_pool lb sid"
      "acquire_server ops rid lb = (lb', Inr (sid, h))" "balancer_ok lb'" "in_pool lb' = in_pool lb"
      "load_of lb' = (load_of lb)(sid := load_of lb sid + 1)" "map_of (servers lb) sid = Some h"
      "request_id_to_server lb' = c_put ops rid sid c"
proof (cases "c_get ops rid (request_id_to_server lb)")
  case None
  note s = select_server_ok[OF assms, of ops rid]
  show thesis
  proof (cases "inflight_requests lb = []")
    case True
    with s None assms show thesis by (intro fails[of lb]) (simp_all add: acquire_server_def)
  next
    case False
    with s obtain lb' h where "select_server ops rid lb = (lb', Inr (least_loaded (inflight_requests lb), h))"
      "balancer_ok lb'" "in_pool lb' = in_pool lb"
      "load_of lb' = (load_of lb)(least_loaded (inflight_requests lb) := load_of lb (least_loaded (inflight_requests lb)) + 1)"
      "map_of (servers lb) (least_loaded (inflight_requests lb)) = Some h"
      "request_id_to_server lb' = c_put ops rid (least_loaded (inflight_requests lb)) (request_id_to_server lb)"
      by (auto simp: Let_def)
    moreover have "in_pool lb (least_loaded (inflight_requests lb))"
      using least_loaded_spec[OF False] assms by (simp add: balancer_ok_def)
    ultimately show thesis using None
      by (intro selected[of "least_loaded (inflight_requests lb)" lb' h "request_id_to_server lb"])
         (simp_all add: acquire_server_def)
  qed
next
  case (Some sid)
  let ?lb1 = "lb\<lparr> request_id_to_server := c_touch ops rid (request_id_to_server lb) \<rparr>"
  show thesis
  proof (cases "in_pool lb sid")
    case True
    obtain lb' h where t: "take_server sid ?lb1 = (lb', Inr (sid, h))" "balancer_ok lb'" "in_pool lb' = in_pool lb"
      "load_of lb' = (load_of lb)(sid := load_of lb sid + 1)" "map_of (servers lb) sid = Some h"
      "request_id_to_server lb' = c_touch ops rid (request_id_to_server lb)"
      using take_server_ok[of ?lb1 sid] assms True by auto
    have "acquire_server ops rid lb = take_server sid ?lb1"
      using Some True by (simp add: acquire_server_def in_pool_def Let_def)
    with t Some True show thesis by (intro sticky[of sid lb' h]) simp_all
  next
    case False
    let ?c = "c_del ops rid (c_touch ops rid (request_id_to_server lb))"
    let ?lb2 = "lb\<lparr> request_id_to_server := ?c \<rparr>"
    have eq: "acquire_server ops rid lb = select_server ops rid ?lb2"
      using Some False by (simp add: acquire_server_def in_pool_def Let_def)
    have ok2: "balancer_ok ?lb2" using assms by simp
    note s = select_server_ok[OF ok2, of ops rid]
    show thesis
    proof (cases "inflight_requests lb = []")
      case True
      with s eq assms show thesis by (intro fails[of ?lb2]) simp_all
    next
      case nonempty: False
      with s obtain lb' h where "select_server ops rid ?lb2 = (lb', Inr (least_loaded (inflight_requests lb), h))"
        "balancer_ok lb'" "in_pool lb' = in_pool lb"
        "load_of lb' = (load_of lb)(least_loaded (inflight_requests lb) := load_of lb (least_loaded (inflight_requests lb)) + 1)"
        "map_of (servers lb) (least_loaded (inflight_requests lb)) = Some h"
        "request_id_to_server lb' = c_put ops rid (least_loaded (inflight_requests lb)) ?c"
        by (auto simp: Let_def)
      moreover have "in_pool lb (least_loaded (inflight_requests lb))"
        using least_loaded_spec[OF nonempty] assms by (simp add: balancer_ok_def)
      ultimately show thesis using Some False eq
        by (intro selected[of "least_loaded (inflight_requests lb)" lb' h ?c]) simp_all
    qed
  qed
qed

lemma release_server_ok:
  assumes "balancer_ok lb"
  shows "balancer_ok (release_server sid lb) \<and> in_pool (release_server sid lb) = in_pool lb \<and>
    (in_pool lb sid \<and> 0 < load_of lb sid \<longrightarrow>
      load_of (release_server sid lb) = (load_of lb)(sid := load_of lb sid - 1)) \<and>
    (\<not> in_pool lb sid \<or> load_of lb sid = 0 \<longrightarrow> release_server sid lb = lb)"
proof (cases "map_of (inflight_requests lb) sid")
  case None
  then show ?thesis using assms by (simp add: release_server_def in_pool_def)
next
  case (Some n)
  then have "sid \<in> fst ` set (inflight_requests lb)" by (metis domI dom_map_of_conv_image_fst)
  then show ?thesis using assms Some
    by (auto simp: release_server_def balancer_ok_def in_pool_def load_of_def get_inflight_count_def fun_eq_iff
        dict_ok_update set_keys_update insert_absorb split: option.splits)
qed

interpretation lb_pool: request_pool balancer_ok in_pool load_of
  "acquire_server ops rid :: ('c, 'h) balancer \<Rightarrow> _" release_server for ops rid
proof
  fix s s' :: "('c, 'h) balancer" and i h
  assume ok: "balancer_ok s" and acq: "acquire_server ops rid s = (s', Inr (i, h))"
  show "balancer_ok s' \<and> in_pool s' = in_pool s \<and> in_pool s i \<and> load_of s' = (load_of s)(i := load_of s i + 1)"
    by (rule acquire_server_cases[OF ok, of ops rid]) (use acq in auto)
next
  fix s s' :: "('c, 'h) balancer" and e
  assume ok: "balancer_ok s" and acq: "acquire_server ops rid s = (s', Inl e)"
  show "balancer_ok s' \<and> in_pool s' = in_pool s \<and> load_of s' = load_of s"
    by (rule acquire_server_cases[OF ok, of ops rid]) (use acq in auto)
next
  fix s :: "('c, 'h) balancer" and i
  assume "balancer_ok s" "in_pool s i" "0 < load_of s i"
  then show "balancer_ok (release_server i s) \<and> in_pool (release_server i s) = in_pool s \<and>
      load_of (release_server i s) = (load_of s)(i := load_of s i - 1)"
    using release_server_ok by blast
next
  fix s :: "('c, 'h) balancer" and i
  assume "balancer_ok s" "\<not> in_pool s i"
  then show "release_server i s = s" using release_server_ok by blast
qed

section \<open>Requests in flight\<close>

lemma set_keys_delete: "fst ` set (AList.delete k d) = fst ` set d - {k}"
  by (force simp: AList.delete_eq)

lemma add_one_server:
  assumes "balancer_ok lb"
  shows "balancer_ok (lb\<lparr> inflight_requests := AList.update sid 0 (inflight_requests lb),
      servers := AList.update sid h (servers lb) \<rparr>)"
  using assms by (auto simp: balancer_ok_def dict_ok_update set_keys_update)

lemma add_servers_ok:
  "balancer_ok lb \<Longrightarrow> balancer_ok (add_servers srv lb) \<and>
    (\<forall>s. in_pool (add_servers srv lb) s \<longleftrightarrow> in_pool lb s \<or> s \<in> fst ` set srv) \<and>
    (\<forall>s. load_of (add_servers srv lb) s = (if s \<in> fst ` set srv then 0 else load_of lb s))"
proof (induction srv arbitrary: lb)
  case (Cons p srv)
  obtain sid h where p: "p = (sid, h)" by force
  let ?lb = "lb\<lparr> inflight_requests := AList.update sid 0 (inflight_requests lb), servers := AList.update sid h (servers lb) \<rparr>"
  have "in_pool ?lb s \<longleftrightarrow> in_pool lb s \<or> s = sid" "load_of ?lb s = (if s = sid then 0 else load_of lb s)" for s
    by (auto simp: in_pool_def load_of_def get_inflight_count_def)
  with Cons.IH[OF add_one_server[OF Cons.prems, of sid h]] show ?case
    by (auto simp: p add_servers_def)
qed (simp add: add_servers_def)

lemma remove_servers_ok:
  "balancer_ok lb \<Longrightarrow> balancer_ok (remove_servers sids lb) \<and>
    (\<forall>s. in_pool (remove_servers sids lb) s \<longleftrightarrow> in_pool lb s \<and> s \<notin> set sids) \<and>
    (\<forall>s. s \<notin> set sids \<longrightarrow> load_of (remove_servers sids lb) s = load_of lb s)"
proof (induction sids arbitrary: lb)
  case (Cons sid sids)
  let ?lb = "lb\<lparr> inflight_requests := AList.delete sid (inflight_requests lb), servers := AList.delete sid (servers lb) \<rparr>"
  have ok: "balancer_ok ?lb"
    using Cons.prems unfolding balancer_ok_def
    by (simp add: set_keys_delete) (simp add: dict_ok_delete)
  have "in_pool ?lb s \<longleftrightarrow> in_pool lb s \<and> s \<noteq> sid" "s \<noteq> sid \<Longrightarrow> load_of ?lb s = load_of lb s" for s
    by (auto simp: in_pool_def load_of_def get_inflight_count_def)
  with Cons.IH[OF ok] show ?case by (auto simp: remove_servers_def)
qed (simp add: remove_servers_def)

text \<open>
  The balancer with the servers of the requests that were acquired and not yet released, and with the servers whose count is
  uncertain: those that were added while requests of theirs were in flight, until all of these are back.  Servers are added and
  removed at any time, also ones that are in the pool already, as the trainers do when they switch the hybrid replicas.
\<close>

inductive pool_step ::
  "'c cache_ops \<Rightarrow> ('c, 'h) balancer \<times> str list \<times> str set \<Rightarrow> ('c, 'h) balancer \<times> str list \<times> str set \<Rightarrow> bool" for ops where
  pool_acquire: "acquire_server ops rid lb = (lb', Inr (sid, h)) \<Longrightarrow> pool_step ops (lb, out, lost) (lb', sid # out, lost)"
| pool_refused: "acquire_server ops rid lb = (lb', Inl e) \<Longrightarrow> pool_step ops (lb, out, lost) (lb', out, lost)"
| pool_release: "sid \<in> set out \<Longrightarrow>
    pool_step ops (lb, out, lost) (release_server sid lb, remove1 sid out, lost \<inter> set (remove1 sid out))"
| pool_add: "pool_step ops (lb, out, lost) (add_servers srv lb, out, lost \<union> (fst ` set srv \<inter> set out))"
| pool_remove: "pool_step ops (lb, out, lost) (remove_servers sids lb, out, lost)"

inductive_cases pool_stepE: "pool_step ops (lb, out, lost) (lb', out', lost')"

definition pool_inv :: "('c, 'h) balancer \<times> str list \<times> str set \<Rightarrow> bool" where
  "pool_inv st \<longleftrightarrow> (case st of (lb, out, lost) \<Rightarrow> balancer_ok lb \<and>
     (\<forall>sid. in_pool lb sid \<longrightarrow> 0 \<le> load_of lb sid \<and> load_of lb sid \<le> int (count_list out sid) \<and>
       (sid \<notin> lost \<longrightarrow> load_of lb sid = int (count_list out sid))))"

lemma count_list_remove1: "count_list (remove1 x xs) y = (if x = y \<and> x \<in> set xs then count_list xs y - 1 else count_list xs y)"
  by (induction xs) (auto simp: count_list_0_iff)

lemma count_list_pos: "x \<in> set xs \<longleftrightarrow> 0 < count_list xs x"
  using count_list_0_iff[of xs x] by auto

lemma pool_inv_step: "pool_step ops st st' \<Longrightarrow> pool_inv st \<Longrightarrow> pool_inv st'"
proof (induction rule: pool_step.induct)
  case (pool_acquire rid lb lb' sid h out lost)
  then show ?case using lb_pool.acquire_counts[of lb ops rid lb' sid h] by (auto simp: pool_inv_def)
next
  case (pool_refused rid lb lb' e out lost)
  then show ?case using lb_pool.acquire_fails[of lb ops rid lb' e] by (auto simp: pool_inv_def)
next
  case (pool_release sid out lb lost)
  have ok: "balancer_ok lb" using pool_release by (simp add: pool_inv_def)
  note rel = release_server_ok[OF ok, of sid]
  have pos: "0 < count_list out sid" using pool_release(1) count_list_pos by metis
  have "0 \<le> load_of (release_server sid lb) s \<and> load_of (release_server sid lb) s \<le> int (count_list (remove1 sid out) s) \<and>
      (s \<notin> lost \<inter> set (remove1 sid out) \<longrightarrow> load_of (release_server sid lb) s = int (count_list (remove1 sid out) s))"
    if "in_pool lb s" for s
  proof -
    have s: "0 \<le> load_of lb s" "load_of lb s \<le> int (count_list out s)" "s \<notin> lost \<Longrightarrow> load_of lb s = int (count_list out s)"
      using pool_release(2) that by (auto simp: pool_inv_def)
    have load: "load_of (release_server sid lb) s = (if s = sid \<and> 0 < load_of lb s then load_of lb s - 1 else load_of lb s)"
    proof (cases "in_pool lb sid \<and> 0 < load_of lb sid")
      case True
      then have "load_of (release_server sid lb) = (load_of lb)(sid := load_of lb sid - 1)" using rel by blast
      then show ?thesis using True by simp
    next
      case False
      moreover have "0 \<le> load_of lb sid" if "in_pool lb sid" using pool_release(2) that by (simp add: pool_inv_def)
      ultimately have "\<not> in_pool lb sid \<or> load_of lb sid = 0" by force
      then have "release_server sid lb = lb" using rel by blast
      then show ?thesis using False that by auto
    qed
    have count: "int (count_list (remove1 sid out) s) = (if s = sid then int (count_list out s) - 1 else int (count_list out s))"
      using pool_release(1) pos by (simp add: count_list_remove1 of_nat_diff)
    have none: "s \<notin> set (remove1 sid out) \<Longrightarrow> int (count_list (remove1 sid out) s) = 0" by (metis count_list_0_iff of_nat_0)
    have bounds: "0 \<le> load_of (release_server sid lb) s \<and> load_of (release_server sid lb) s \<le> int (count_list (remove1 sid out) s)"
      using s(1,2) pos unfolding load count by auto
    show ?thesis
    proof (cases "s \<in> lost")
      case True
      then show ?thesis using bounds none by auto
    next
      case False
      then show ?thesis using s(3) pos bounds unfolding load count by auto
    qed
  qed
  then show ?case using rel by (simp add: pool_inv_def)
next
  case (pool_add lb out lost srv)
  then have ok: "balancer_ok lb" by (simp add: pool_inv_def)
  have "count_list out sid = 0" if "sid \<notin> set out" for sid using that by (simp add: count_list_0_iff)
  with add_servers_ok[OF ok, of srv] pool_add show ?case by (auto simp: pool_inv_def)
next
  case (pool_remove lb out lost sids)
  then have ok: "balancer_ok lb" by (simp add: pool_inv_def)
  with remove_servers_ok[OF ok, of sids] pool_remove show ?case by (auto simp: pool_inv_def)
qed

lemma pool_inv_init: "balancer_init srv cache = Inr lb \<Longrightarrow> dict_ok srv \<Longrightarrow> pool_inv (lb, [], {})"
proof -
  assume i: "balancer_init srv cache = Inr lb" "dict_ok srv"
  have lb: "lb = \<lparr> servers = srv, inflight_requests = map (\<lambda>(sid, h). (sid, 0)) srv, request_id_to_server = cache \<rparr>"
    using i(1) by (simp add: balancer_init_def split: if_splits)
  have zero: "map_of (map (\<lambda>(sid, h). (sid, 0)) srv) sid = Some n \<Longrightarrow> n = (0 :: int)" for sid n
    by (induction srv) (auto split: if_splits)
  have keys: "map fst (map (\<lambda>(sid, h). (sid, 0 :: int)) srv) = map fst srv" by auto
  have "dict_ok (map (\<lambda>(sid, h). (sid, 0 :: int)) srv)" unfolding dict_ok_def keys using i(2) by (simp add: dict_ok_def)
  moreover have "fst ` set (map (\<lambda>(sid, h). (sid, 0 :: int)) srv) = fst ` set srv" by force
  moreover have "\<forall>sid n. map_of (map (\<lambda>(sid, h). (sid, 0)) srv) sid = Some n \<longrightarrow> (0 :: int) \<le> n" using zero by force
  ultimately have "balancer_ok lb" unfolding balancer_ok_def lb by simp
  moreover have "load_of lb sid = 0" for sid
    unfolding load_of_def get_inflight_count_def lb using zero by (auto split: option.split)
  ultimately show ?thesis by (simp add: pool_inv_def)
qed

lemma pool_inv_reach: "(pool_step ops)\<^sup>*\<^sup>* st st' \<Longrightarrow> pool_inv st \<Longrightarrow> pool_inv st'"
  by (induction rule: rtranclp_induct) (auto intro: pool_inv_step)

section \<open>The resuming client\<close>

definition left_of :: "int option \<Rightarrow> token_output list \<Rightarrow> int option" where
  "left_of limit os =
     (if os = [] then limit else map_option (\<lambda>m. m - int (length (concat (map token_ids os)))) limit)"

definition aborted :: "token_output \<Rightarrow> bool" where
  "aborted o1 \<longleftrightarrow> stop_reason o1 \<in> {Some ''aborted'', Some ''abort''}"

text \<open>The answers of the calls so far, each asked for with what came before it.\<close>

definition answers ::
  "(nat \<Rightarrow> int list \<Rightarrow> int option \<Rightarrow> token_output result) \<Rightarrow> int list \<Rightarrow> int option \<Rightarrow> token_output list \<Rightarrow> bool" where
  "answers generate prompt_ids limit os \<longleftrightarrow>
     (\<forall>i < length os. generate i (prompt_ids @ concat (map token_ids (take i os))) (left_of limit (take i os)) = Inr (os ! i))"

lemma answers_snoc:
  "answers g p l os \<Longrightarrow> g (length os) (p @ concat (map token_ids os)) (left_of l os) = Inr o1 \<Longrightarrow>
   answers g p l (os @ [o1])"
  by (auto simp: answers_def nth_append less_Suc_eq)

definition finished :: "int option \<Rightarrow> token_output list \<Rightarrow> token_output \<Rightarrow> bool" where
  "finished limit os final \<longleftrightarrow>
     (case limit of
        Some m \<Rightarrow> if int (length (concat (map token_ids os))) \<ge> m then stop_reason final = Some ''length''
                  else \<not> aborted (last os) \<and> stop_reason final = stop_reason (last os)
      | None \<Rightarrow> \<not> aborted (last os) \<and> stop_reason final = stop_reason (last os))"

lemma token_ids_merge [simp]: "token_ids (merge_output f o1) = token_ids f @ token_ids o1"
  "stop_reason (merge_output f o1) = stop_reason o1"
  by (simp_all add: merge_output_def)

lemma resume_step_facts:
  assumes "resume_step limit o1 st = (st', stop)" and "token_ids (rs_final st) = concat (map token_ids os)"
  shows "token_ids (rs_final st') = concat (map token_ids (os @ [o1]))"
    and "rs_limit st = left_of limit os \<Longrightarrow> rs_limit st' = left_of limit (os @ [o1])"
    and "stop \<Longrightarrow> finished limit (os @ [o1]) (rs_final st')"
    and "\<not> stop \<Longrightarrow> aborted o1 \<and> (\<forall>m. limit = Some m \<longrightarrow> int (length (concat (map token_ids (os @ [o1])))) < m)"
  using assms
  by (auto simp: resume_step_def Let_def left_of_def finished_def aborted_def split: option.splits if_splits)

lemma resume_loop_sound:
  assumes "resume_loop g p l fuel (length os) st = Some (Inr st')" and "answers g p l os"
    and "token_ids (rs_final st) = concat (map token_ids os)" and "rs_limit st = left_of l os"
    and "\<forall>o1 \<in> set os. aborted o1" and "\<forall>m. l = Some m \<and> os \<noteq> [] \<longrightarrow> int (length (concat (map token_ids os))) < m"
  shows "\<exists>os'. os' \<noteq> [] \<and> answers g p l os' \<and> token_ids (rs_final st') = concat (map token_ids os') \<and>
    rs_limit st' = left_of l os' \<and> (\<forall>o1 \<in> set (butlast os'). aborted o1) \<and> finished l os' (rs_final st') \<and>
    (\<forall>m. l = Some m \<and> butlast os' \<noteq> [] \<longrightarrow> int (length (concat (map token_ids (butlast os')))) < m)"
  using assms
proof (induction fuel arbitrary: os st)
  case (Suc fuel)
  let ?r = "g (length os) (p @ token_ids (rs_final st)) (rs_limit st)"
  obtain o1 where o1: "?r = Inr o1" using Suc.prems(1) by (cases ?r) auto
  obtain st1 stop where s: "resume_step l o1 st = (st1, stop)" by force
  have ans: "answers g p l (os @ [o1])" using answers_snoc[OF Suc.prems(2)] o1 Suc.prems(3,4) by simp
  note f = resume_step_facts[OF s Suc.prems(3)]
  show ?case
  proof (cases stop)
    case True
    then have "st' = st1" using Suc.prems(1) o1 s by simp
    then show ?thesis using ans f(1) f(2)[OF Suc.prems(4)] f(3)[OF True] Suc.prems(5,6)
      by (intro exI[of _ "os @ [o1]"]) simp
  next
    case False
    then have run: "resume_loop g p l fuel (length (os @ [o1])) st1 = Some (Inr st')"
      using Suc.prems(1) o1 s by simp
    have ab: "\<forall>o2 \<in> set (os @ [o1]). aborted o2" using f(4)[OF False] Suc.prems(5) by auto
    have bound: "\<forall>m. l = Some m \<and> os @ [o1] \<noteq> [] \<longrightarrow> int (length (concat (map token_ids (os @ [o1])))) < m"
      using f(4)[OF False] by blast
    show ?thesis by (rule Suc.IH[OF run ans f(1) f(2)[OF Suc.prems(4)] ab bound])
  qed
qed simp

lemma resume_generate_sound:
  assumes "resume_generate g p l fuel = Some (Inr (final, left))"
  shows "\<exists>os. os \<noteq> [] \<and> answers g p l os \<and> token_ids final = concat (map token_ids os) \<and>
    left = left_of l os \<and> (\<forall>o1 \<in> set (butlast os). aborted o1) \<and> finished l os final \<and>
    (\<forall>m. l = Some m \<and> butlast os \<noteq> [] \<longrightarrow> int (length (concat (map token_ids (butlast os)))) < m)"
proof -
  obtain st where st: "resume_loop g p l fuel (length ([] :: token_output list)) (resume_init l) = Some (Inr st)"
    "final = rs_final st" "left = rs_limit st"
    using assms by (auto simp: resume_generate_def bind_res_Inr_iff)
  have "token_ids (rs_final (resume_init l)) = concat (map token_ids [])" "rs_limit (resume_init l) = left_of l []"
    by (simp_all add: resume_init_def fresh_output_def left_of_def)
  from resume_loop_sound[OF st(1) _ this] show ?thesis unfolding st(2,3) by (simp add: answers_def)
qed

lemma respects_bound:
  assumes ans: "answers g p (Some m) os" and ne: "os \<noteq> []" and m: "0 < m"
    and but: "butlast os \<noteq> [] \<longrightarrow> int (length (concat (map token_ids (butlast os)))) < m"
    and g: "\<forall>i q k o1. 0 < k \<and> g i q (Some k) = Inr o1 \<longrightarrow> int (length (token_ids o1)) \<le> k"
  shows "int (length (concat (map token_ids os))) \<le> m"
proof -
  let ?b = "butlast os" let ?n = "length (butlast os)"
  have os: "os = ?b @ [last os]" using ne by simp
  have take: "take ?n os = ?b" by (simp add: butlast_conv_take)
  have len: "?n < length os" using ne by simp
  have nth: "os ! ?n = last os" using ne by (simp add: last_conv_nth)
  have call: "g ?n (p @ concat (map token_ids ?b)) (left_of (Some m) ?b) = Inr (last os)"
    using ans[unfolded answers_def, rule_format, OF len] unfolding take nth .
  have "length (concat (map token_ids os)) = length (concat (map token_ids ?b)) + length (token_ids (last os))"
    by (subst os) simp
  moreover have "int (length (concat (map token_ids ?b))) + int (length (token_ids (last os))) \<le> m"
  proof (cases "?b = []")
    case True
    then show ?thesis using call g m by (simp add: left_of_def)
  next
    case False
    let ?k = "m - int (length (concat (map token_ids ?b)))"
    have "0 < ?k" using but False by simp
    moreover have "left_of (Some m) ?b = Some ?k" using False by (simp add: left_of_def)
    ultimately have "int (length (token_ids (last os))) \<le> ?k" using call g by metis
    then show ?thesis by simp
  qed
  ultimately show ?thesis by simp
qed

lemma resume_loop_returns:
  assumes "\<forall>q k o1. g n q k = Inr o1 \<longrightarrow> \<not> aborted o1" and "i \<le> n" and "n < i + fuel"
  shows "\<exists>r. resume_loop g p l fuel i st = Some r"
  using assms(2,3)
proof (induction fuel arbitrary: i st)
  case (Suc fuel)
  let ?r = "g i (p @ token_ids (rs_final st)) (rs_limit st)"
  show ?case
  proof (cases ?r)
    case (Inr o1)
    obtain st1 stop where s: "resume_step l o1 st = (st1, stop)" by force
    show ?thesis
    proof (cases stop)
      case False
      have "aborted o1" using False s
        by (auto simp: resume_step_def Let_def aborted_def split: option.splits if_splits)
      then have "i \<noteq> n" using assms(1) Inr by metis
      then have "\<exists>r. resume_loop g p l fuel (Suc i) st1 = Some r" using Suc by simp
      then show ?thesis using Inr s False by simp
    qed (use Inr s in simp)
  qed simp
qed simp

section \<open>Properties\<close>


text \<open>An LRU cache of two entries, most recent first.\<close>

definition lru2 :: "(str \<times> str) list cache_ops" where
  "lru2 = \<lparr> c_get = \<lambda>k c. map_of c k,
     c_touch = \<lambda>k c. (case map_of c k of None \<Rightarrow> c | Some v \<Rightarrow> (k, v) # AList.delete k c),
     c_put = \<lambda>k v c. take 2 ((k, v) # AList.delete k c),
     c_del = \<lambda>k c. AList.delete k c \<rparr>"

lemma map_of_take: "map_of (take n d) k \<in> {None, map_of d k}"
proof (induction d arbitrary: n)
  case (Cons p d)
  then show ?case by (cases n) auto
qed simp

lemma lru2_laws: "cache_laws lru2"
proof -
  have "c_get lru2 k' (c_put lru2 k v c) \<in> {None, c_get lru2 k' c}" if "k' \<noteq> k" for k k' v c
  proof -
    have "map_of (take 2 ((k, v) # AList.delete k c)) k' \<in> {None, map_of ((k, v) # AList.delete k c) k'}"
      by (rule map_of_take)
    moreover have "map_of ((k, v) # AList.delete k c) k' = map_of c k'" using that by simp
    ultimately show ?thesis unfolding lru2_def cache_ops.select_convs by (simp only:)
  qed
  then have put: "\<forall>k k' v c. k' \<noteq> k \<longrightarrow> c_get lru2 k' (c_put lru2 k v c) \<in> {None, c_get lru2 k' c}" by blast
  show ?thesis unfolding cache_laws_def
    by (intro conjI put) (auto simp: lru2_def split: option.splits)
qed


text \<open>
  \<open>acquire_server\<close> fails only on an empty pool; otherwise it returns a server of the pool
  with its handle and counts one request on it and on no other.  A session whose server is
  still in the pool keeps it, any other goes to a server with the least load, and the cache
  remembers the choice.
\<close>

theorem acquire_server_correct:
  assumes "balancer_ok lb" and "cache_laws ops"
  shows "case acquire_server ops rid lb of
      (lb', Inl e) \<Rightarrow> e = RuntimeError \<and> get_all_servers lb = []
    | (lb', Inr (sid, h)) \<Rightarrow>
        sid \<in> set (get_all_servers lb) \<and> map_of (servers lb) sid = Some h \<and> balancer_ok lb' \<and>
        (\<forall>s. get_inflight_count s lb' = get_inflight_count s lb + (if s = sid then 1 else 0)) \<and>
        c_get ops rid (request_id_to_server lb') = Some sid \<and>
        (case c_get ops rid (request_id_to_server lb) of
           Some s \<Rightarrow> s \<in> set (get_all_servers lb) \<longrightarrow> sid = s | None \<Rightarrow> True) \<and>
        (c_get ops rid (request_id_to_server lb) = Some sid \<or>
          (\<forall>s \<in> set (get_all_servers lb). get_inflight_count sid lb \<le> get_inflight_count s lb))"
proof -
  have pool: "in_pool lb s \<longleftrightarrow> s \<in> set (get_all_servers lb)" for s
    by (auto simp: get_all_servers_def dict_keys_def in_pool_def map_of_eq_None_iff)
  have dict: "dict_ok (inflight_requests lb)" using assms(1) by (simp add: balancer_ok_def)
  have laws: "c_get ops k (c_touch ops k c) = c_get ops k c" "c_get ops k (c_put ops k v c) = Some v" for k v c
    using assms(2) by (simp_all add: cache_laws_def)
  note load = load_of_def[symmetric]
  show ?thesis
    using assms(1)
  proof (cases rule: acquire_server_cases[where ops = ops and rid = rid])
    case (fails lb')
    then show ?thesis by (simp add: get_all_servers_def dict_keys_def)
  next
    case (sticky sid lb' h)
    then show ?thesis unfolding load by (simp add: pool laws)
  next
    case (selected sid lb' h c)
    then have "inflight_requests lb \<noteq> []" by (auto simp: in_pool_def)
    from least_loaded_spec[OF this dict] selected show ?thesis
      unfolding load by (auto simp: pool laws split: option.splits)
  qed
qed

theorem acquire_server_correct_witness:
  "case acquire_server lru2 ''r'' \<lparr> servers = [(''s1'', 1 :: nat), (''s2'', 2)],
        inflight_requests = [(''s1'', 3), (''s2'', 1)], request_id_to_server = [(''r'', ''gone'')] \<rparr> of
      (lb', Inl e) \<Rightarrow> False
    | (lb', Inr (sid, h)) \<Rightarrow> get_inflight_count sid lb' =
        get_inflight_count sid \<lparr> servers = [(''s1'', 1 :: nat), (''s2'', 2)],
          inflight_requests = [(''s1'', 3), (''s2'', 1)], request_id_to_server = [(''r'', ''gone'')] \<rparr> + 1"
proof -
  let ?lb = "\<lparr> servers = [(''s1'', 1 :: nat), (''s2'', 2)],
    inflight_requests = [(''s1'', 3), (''s2'', 1)], request_id_to_server = [(''r'', ''gone'')] \<rparr>"
  have "balancer_ok ?lb" by (auto simp: balancer_ok_def dict_ok_def split: if_splits)
  from acquire_server_correct[OF this lru2_laws, of "''r''"] show ?thesis
    by (auto simp: get_all_servers_def dict_keys_def split: prod.splits sum.splits)
qed

text \<open>
  Adding a server that is already in the pool forgets its requests in flight, and the
  releases of those requests are then lost at zero.
\<close>

theorem add_servers_resets_inflight:
  "let lb = \<lparr> servers = [(''s1'', 1 :: nat)], inflight_requests = [(''s1'', 2)], request_id_to_server = [] :: (str \<times> str) list \<rparr>;
       lb1 = add_servers [(''s1'', 1)] lb
   in get_inflight_count ''s1'' lb = 2 \<and> get_inflight_count ''s1'' lb1 = 0 \<and>
      get_inflight_count ''s1'' (release_server ''s1'' lb1) = 0 \<and>
      (case acquire_server lru2 ''r'' lb1 of (lb2, _) \<Rightarrow>
         get_inflight_count ''s1'' (release_server ''s1'' lb2) = 0)"
  by code_simp

text \<open>
  A client's \<open>generate\<close> releases what it acquired, whether the server answers or raises: the
  counts change exactly by what other requests did while it was waiting.
\<close>

theorem client_generate_releases:
  assumes "balancer_ok lb" and "client_generate ops call_server rid lb = (lb', r)"
    and "\<forall>sid server lb1 lb2 a. balancer_ok lb1 \<longrightarrow> in_pool lb1 sid \<longrightarrow> 0 < load_of lb1 sid \<longrightarrow>
      call_server server lb1 = (lb2, a) \<longrightarrow> balancer_ok lb2 \<and> in_pool lb2 sid \<and> 0 < load_of lb2 sid"
  shows "(\<exists>e. acquire_server ops rid lb = (lb', Inl e) \<and> r = Inl e \<and> load_of lb' = load_of lb) \<or>
    (\<exists>sid server lb1 lb2 a. acquire_server ops rid lb = (lb1, Inr (sid, server)) \<and>
      call_server server lb1 = (lb2, a) \<and> r = bind_res a (\<lambda>o1. Inr (set_steps o1)) \<and> balancer_ok lb' \<and>
      (\<forall>j. load_of lb' j - load_of lb j = load_of lb2 j - load_of lb1 j))"
proof -
  let ?body = "\<lambda>server lb. case call_server server lb of (lb', r) \<Rightarrow> (lb', bind_res r (\<lambda>o1. Inr (set_steps o1)))"
  have run: "with_server (acquire_server ops rid) release_server ?body lb = (lb', r)"
    using assms(2) by (simp add: client_generate_def)
  have body: "balancer_ok s2 \<and> in_pool s2 i \<and> 0 < load_of s2 i"
    if "balancer_ok s1" "in_pool s1 i" "0 < load_of s1 i" "?body server s1 = (s2, a)" for i server s1 s2 a
  proof -
    obtain lb2 a' where call: "call_server server s1 = (lb2, a')" by force
    then have "s2 = lb2" using that(4) by simp
    with assms(3)[rule_format, OF that(1-3) call] show ?thesis by simp
  qed
  have nonneg: "0 \<le> load_of lb i" for i by (rule load_of_nonneg[OF assms(1)])
  have counts: "(\<exists>e. acquire_server ops rid lb = (lb', Inl e) \<and> r = Inl e \<and> load_of lb' = load_of lb) \<or>
    (\<exists>i h s1 s2. acquire_server ops rid lb = (s1, Inr (i, h)) \<and> ?body h s1 = (s2, r) \<and> balancer_ok lb' \<and>
      (\<forall>j. load_of lb' j - load_of lb j = load_of s2 j - load_of s1 j))"
    by (rule lb_pool.with_server_counts[where body = ?body, OF assms(1) run _ nonneg]) (rule body)
  consider (failed) e where "acquire_server ops rid lb = (lb', Inl e)" "r = Inl e" "load_of lb' = load_of lb"
    | (ran) sid server lb1 lb2 where "acquire_server ops rid lb = (lb1, Inr (sid, server))"
      "?body server lb1 = (lb2, r)" "balancer_ok lb'"
      "\<forall>j. load_of lb' j - load_of lb j = load_of lb2 j - load_of lb1 j"
    using counts by (elim disjE exE conjE) metis+
  then show ?thesis
  proof cases
    case ran
    obtain lb2' a where a: "call_server server lb1 = (lb2', a)" by force
    with ran(2) have "lb2' = lb2" "r = bind_res a (\<lambda>o1. Inr (set_steps o1))" by simp_all
    with ran a show ?thesis by blast
  qed blast
qed

theorem client_generate_releases_witness:
  "\<exists>lb r lb'. client_generate lru2 (\<lambda>server lb. (lb, Inl ValueError)) ''r'' lb = (lb', r) \<and>
    lb = \<lparr> servers = [(''s1'', 1 :: nat)], inflight_requests = [(''s1'', 2)], request_id_to_server = [] \<rparr> \<and>
    ((\<exists>e. acquire_server lru2 ''r'' lb = (lb', Inl e) \<and> r = Inl e \<and> load_of lb' = load_of lb) \<or>
     (\<exists>sid server lb1 lb2 a. acquire_server lru2 ''r'' lb = (lb1, Inr (sid, server)) \<and>
      (lb1, Inl ValueError) = (lb2, a) \<and> r = bind_res a (\<lambda>o1. Inr (set_steps o1)) \<and> balancer_ok lb' \<and>
      (\<forall>j. load_of lb' j - load_of lb j = load_of lb2 j - load_of lb1 j)))"
proof -
  let ?lb = "\<lparr> servers = [(''s1'', 1 :: nat)], inflight_requests = [(''s1'', 2)], request_id_to_server = [] \<rparr>"
  obtain lb' r where run: "client_generate lru2 (\<lambda>server lb. (lb, Inl ValueError)) ''r'' ?lb = (lb', r)" by force
  have "balancer_ok ?lb" by (auto simp: balancer_ok_def dict_ok_def split: if_splits)
  from client_generate_releases[OF this run] run show ?thesis by blast
qed

text \<open>
  C32: when the resuming client returns, its tokens are those of a sequence of answers, each but
  the last aborted and each asked for with the prompt extended by all tokens so far and the
  limit reduced by them; it stops at the first answer that is not aborted or when the limit is
  used up (stop reason \<open>length\<close>), leaves the reduced limit in the caller's parameters, and stays
  within a positive limit if every single answer does.
\<close>

theorem resume_generate_correct:
  assumes "resume_generate generate prompt_ids limit fuel = Some (Inr (final, left))"
  shows "\<exists>os. os \<noteq> [] \<and> answers generate prompt_ids limit os \<and> token_ids final = concat (map token_ids os) \<and>
    left = left_of limit os \<and> (\<forall>o1 \<in> set (butlast os). aborted o1) \<and> finished limit os final \<and>
    (\<forall>m. limit = Some m \<and> 0 < m \<and>
       (\<forall>i q k o1. 0 < k \<and> generate i q (Some k) = Inr o1 \<longrightarrow> int (length (token_ids o1)) \<le> k) \<longrightarrow>
       int (length (token_ids final)) \<le> m)"
proof -
  from resume_generate_sound[OF assms] obtain os where os: "os \<noteq> []" "answers generate prompt_ids limit os"
    "token_ids final = concat (map token_ids os)" "left = left_of limit os"
    "\<forall>o1 \<in> set (butlast os). aborted o1" "finished limit os final"
    "\<forall>m. limit = Some m \<and> butlast os \<noteq> [] \<longrightarrow> int (length (concat (map token_ids (butlast os)))) < m" by blast
  have "int (length (token_ids final)) \<le> m" if "limit = Some m" "0 < m"
    "\<forall>i q k o1. 0 < k \<and> generate i q (Some k) = Inr o1 \<longrightarrow> int (length (token_ids o1)) \<le> k" for m
    using respects_bound[of generate prompt_ids m os] os(1,2,3,7) that by simp
  with os show ?thesis by blast
qed

definition example_answer :: "nat \<Rightarrow> int list \<Rightarrow> int option \<Rightarrow> token_output result" where
  "example_answer i q k =
     Inr (fresh_output\<lparr> token_ids := [int i, int (length q)], stop_reason := (if i < 1 then Some ''aborted'' else Some ''completed'') \<rparr>)"

theorem resume_generate_correct_witness:
  "\<exists>os final left. resume_generate example_answer [7] (Some 9) 5 = Some (Inr (final, left)) \<and>
    os \<noteq> [] \<and> answers example_answer [7] (Some 9) os \<and> token_ids final = concat (map token_ids os) \<and>
    left = left_of (Some 9) os"
proof -
  have "case resume_generate example_answer [7] (Some 9) 5 of Some (Inr (final, left)) \<Rightarrow> True | _ \<Rightarrow> False"
    by code_simp
  then obtain final left where r: "resume_generate example_answer [7] (Some 9) 5 = Some (Inr (final, left))"
    by (auto split: option.splits sum.splits)
  from resume_generate_correct[OF r] r show ?thesis by blast
qed

text \<open>
  The resuming client returns (a result or the server's error) as soon as some call does not
  answer with an aborted output.
\<close>

theorem resume_generate_terminates:
  assumes "\<forall>q k o1. generate n q k = Inr o1 \<longrightarrow> \<not> aborted o1" and "n < fuel"
  shows "\<exists>r. resume_generate generate prompt_ids limit fuel = Some r"
proof -
  have "\<exists>r. resume_loop generate prompt_ids limit fuel 0 (resume_init limit) = Some r"
    by (rule resume_loop_returns[where g = generate, OF assms(1)]) (use assms(2) in simp_all)
  then show ?thesis by (auto simp: resume_generate_def)
qed

theorem resume_generate_terminates_witness:
  "\<exists>r. resume_generate example_answer [7] None 2 = Some r"
  by (rule resume_generate_terminates[of _ 1]) (auto simp: example_answer_def aborted_def)

end
