(* ===== verification/OpdRollout.thy ===== *)
theory OpdRollout
  imports Prelude
begin

text \<open>
  \<open>src/CLightMLLM_new/src/method/rollout.py\<close> and the rollout half of \<open>vllm_student.py\<close>: how the
  sequences of an on-policy rollout are put together, which of their tokens are responses, and
  the token lists that are sent to the vLLM engines.  A tensor is the list of its rows; the
  engine's completions are an argument.
\<close>

named_theorems rollout_simps

section \<open>Which tokens of a rollout count\<close>

text \<open>\<open>completion_ids.eq(eos).cumsum(dim=1).bool()\<close>: has the end of the sequence been seen?\<close>

fun eos_seen :: "bool \<Rightarrow> int \<Rightarrow> int list \<Rightarrow> bool list" where
  "eos_seen b e [] = []"
| "eos_seen b e (t # ts) = (b \<or> t = e) # eos_seen (b \<or> t = e) e ts"

definition before_or_at_first_eos :: "int \<Rightarrow> int list \<Rightarrow> bool list" where
  "before_or_at_first_eos e completion_ids =
     map (\<lambda>_. True) (take 1 completion_ids) @ map Not (butlast (eos_seen False e completion_ids))"

definition completion_mask_row :: "int \<Rightarrow> int option \<Rightarrow> int list \<Rightarrow> bool list" where
  "completion_mask_row pad eos completion_ids =
     (let msk = map (\<lambda>t. t \<noteq> pad) completion_ids
      in case eos of
           None \<Rightarrow> msk
         | Some e \<Rightarrow> map2 (\<and>) msk (before_or_at_first_eos e completion_ids))"

definition completion_mask :: "int \<Rightarrow> int option \<Rightarrow> int list list \<Rightarrow> nat \<Rightarrow> bool list list" where
  "completion_mask pad eos sequences prompt_width =
     map (\<lambda>row. completion_mask_row pad eos (drop prompt_width row)) sequences"

definition sequence_attention_mask :: "bool list list \<Rightarrow> int list list \<Rightarrow> bool list list \<Rightarrow> bool list list" where
  "sequence_attention_mask prompt_attention_mask sequences cmask =
     map2 (\<lambda>pm (row, cm). take (length row) (take (length row - length cm) pm @ cm))
       prompt_attention_mask (zip sequences cmask)"

text \<open>
  \<open>shift_completion_mask\<close>: the mask of the positions that predict completion tokens.  Assigning
  a slice of another width raises, unless the assigned width is one.
\<close>

definition shift_mask_row :: "nat \<Rightarrow> bool list \<Rightarrow> nat \<Rightarrow> bool list result" where
  "shift_mask_row n cm prompt_width =
     (let start = prompt_width - 1;
          available = n - start;
          src = take available cm
      in if available = 0 then Inr (replicate n False)
         else if length src = available then Inr (replicate start False @ src)
         else if length src = 1 then Inr (replicate start False @ replicate available (hd src))
         else Inl RuntimeError)"

definition shift_completion_mask :: "nat \<Rightarrow> bool list list \<Rightarrow> nat \<Rightarrow> bool list list result" where
  "shift_completion_mask n cmask prompt_width = map_res (\<lambda>cm. shift_mask_row n cm prompt_width) cmask"

section \<open>Token types of multimodal prompts\<close>

record mm_batch =
  prompt_mm_token_type_ids :: "int list list option"
  prompt_token_type_ids :: "int list list option"
  mm_token_type_ids :: "int list list option"
  token_type_ids :: "int list list option"

definition same_shape :: "int list list \<Rightarrow> int list list \<Rightarrow> bool" where
  "same_shape a b \<longleftrightarrow> map length a = map length b"

definition mm_source :: "mm_batch \<Rightarrow> int list list \<Rightarrow> int list list option" where
  "mm_source batch input_ids =
     (case prompt_mm_token_type_ids batch of
        Some s \<Rightarrow> Some s
      | None \<Rightarrow> (case prompt_token_type_ids batch of
          Some s \<Rightarrow> Some s
        | None \<Rightarrow> (case mm_token_type_ids batch of
            Some s \<Rightarrow> if same_shape s input_ids then Some s
                      else (case token_type_ids batch of
                              Some s' \<Rightarrow> if same_shape s' input_ids then Some s' else None | None \<Rightarrow> None)
          | None \<Rightarrow> (case token_type_ids batch of
                       Some s' \<Rightarrow> if same_shape s' input_ids then Some s' else None | None \<Rightarrow> None))))"

definition extend_token_types :: "nat option \<Rightarrow> int list \<Rightarrow> int list \<Rightarrow> int list" where
  "extend_token_types prompt_width source_row ids =
     (if length source_row = length ids then source_row
      else
        let pw = (case prompt_width of None \<Rightarrow> min (length source_row) (length ids) | Some w \<Rightarrow> w);
            src = take pw source_row;
            padded = (if length src < pw then src @ replicate (pw - length src) 0 else src)
        in if pw < length ids then padded @ replicate (length ids - pw) 0
           else take (length ids) padded)"

definition fallback_token_types :: "int option \<Rightarrow> int option \<Rightarrow> int list \<Rightarrow> int list" where
  "fallback_token_types image_token_id video_token_id ids =
     map (\<lambda>t. if video_token_id = Some t then 2 else if image_token_id = Some t then 1 else 0) ids"

definition build_mm_token_type_ids ::
  "int option \<Rightarrow> int option \<Rightarrow> mm_batch \<Rightarrow> int list list \<Rightarrow> nat option \<Rightarrow> int list list" where
  "build_mm_token_type_ids image_token_id video_token_id batch input_ids prompt_width =
     (case mm_source batch input_ids of
        Some source \<Rightarrow> map2 (extend_token_types prompt_width) source input_ids
      | None \<Rightarrow> map (fallback_token_types image_token_id video_token_id) input_ids)"

section \<open>Prompts for the engines\<close>

text \<open>
  \<open>_dedup_consecutive_mm_tokens\<close>: of a run of image or video tokens the first is kept; the
  teacher also keeps the positions.
\<close>

fun dedup_from :: "int set \<Rightarrow> bool \<Rightarrow> nat \<Rightarrow> int list \<Rightarrow> (int \<times> nat) list" where
  "dedup_from mm prev i [] = []"
| "dedup_from mm prev i (t # ts) =
     (if t \<in> mm \<and> prev then dedup_from mm True (Suc i) ts
      else (t, i) # dedup_from mm (t \<in> mm) (Suc i) ts)"

definition dedup_consecutive_mm_tokens ::
  "int list \<Rightarrow> int option \<Rightarrow> int option \<Rightarrow> int list \<times> nat list" where
  "dedup_consecutive_mm_tokens token_ids image_token_id video_token_id =
     (if image_token_id = None \<and> video_token_id = None then (token_ids, [0..<length token_ids])
      else let kept = dedup_from (set_option image_token_id \<union> set_option video_token_id) False 0 token_ids
           in (map fst kept, map snd kept))"

fun first_active_index :: "bool list \<Rightarrow> nat" where
  "first_active_index [] = 0"
| "first_active_index (b # bs) = (if b then 0 else Suc (first_active_index bs))"

definition active_span :: "bool list \<Rightarrow> nat \<times> nat" where
  "active_span msk =
     (if True \<notin> set msk then (length msk, length msk)
      else (first_active_index msk, length msk - first_active_index (rev msk)))"

section \<open>The vLLM student's rollout\<close>

record 'img gen_batch =
  prompt_input_ids :: "int list list"
  prompt_attention_mask :: "bool list list"
  vllm_images :: "'img list list option"

definition student_prompts ::
  "int option \<Rightarrow> int option \<Rightarrow> 'img gen_batch \<Rightarrow> (int list \<times> 'img list) list result" where
  "student_prompts image_token_id video_token_id batch =
     (let images = (case vllm_images batch of
                      None \<Rightarrow> replicate (length (prompt_input_ids batch)) []
                    | Some [] \<Rightarrow> replicate (length (prompt_input_ids batch)) []
                    | Some xs \<Rightarrow> xs)
      in map_res (\<lambda>(i, ids, msk).
           bind_res (py_index images (int i)) (\<lambda>imgs.
             Inr (fst (dedup_consecutive_mm_tokens (drop (first_active_index msk) ids) image_token_id video_token_id), imgs)))
         (zip [0..<length (prompt_input_ids batch)] (zip (prompt_input_ids batch) (prompt_attention_mask batch))))"

definition pad_completion :: "int \<Rightarrow> nat \<Rightarrow> int list \<Rightarrow> int list" where
  "pad_completion pad n token_ids = take n token_ids @ replicate (n - length (take n token_ids)) pad"

definition completion_width :: "nat \<Rightarrow> int list list \<Rightarrow> nat" where
  "completion_width max_new_tokens completions = min (foldl max 0 (map length completions)) max_new_tokens"

definition assemble_rollout :: "int \<Rightarrow> nat \<Rightarrow> int list list \<Rightarrow> int list list \<Rightarrow> int list list result" where
  "assemble_rollout pad max_new_tokens prompt_ids completions =
     (let n = completion_width max_new_tokens completions;
          missing = replicate (length prompt_ids - length completions) []
      in if n = 0 then Inr prompt_ids
         else if list_ex (\<lambda>c. c \<noteq> []) (drop (length prompt_ids) completions) then Inl IndexError
         else Inr (map2 (\<lambda>p c. p @ pad_completion pad n c) prompt_ids (completions @ missing)))"

text \<open>The engine answers a list of prompts with one completion each (\<open>outputs[0].token_ids\<close>).\<close>

definition student_generate ::
  "((int list \<times> 'img list) list \<Rightarrow> int list list) \<Rightarrow> int option \<Rightarrow> int option \<Rightarrow> int \<Rightarrow> nat \<Rightarrow>
   'img gen_batch \<Rightarrow> int list list result" where
  "student_generate engine image_token_id video_token_id pad max_new_tokens batch =
     bind_res (student_prompts image_token_id video_token_id batch) (\<lambda>prompts.
       assemble_rollout pad max_new_tokens (prompt_input_ids batch) (engine prompts))"

section \<open>The response mask marks the completion\<close>

lemma length_eos_seen [simp]: "length (eos_seen b e ts) = length ts"
  by (induction ts arbitrary: b) auto

lemma eos_seen_nth: "j < length ts \<Longrightarrow> eos_seen b e ts ! j \<longleftrightarrow> b \<or> e \<in> set (take (Suc j) ts)"
  by (induction ts arbitrary: b j) (auto simp: nth_Cons split: nat.splits)

lemma length_before_or_at_first_eos [simp]: "length (before_or_at_first_eos e ids) = length ids"
  by (cases "length ids") (simp_all add: before_or_at_first_eos_def)

lemma before_or_at_first_eos_nth:
  assumes "i < length ids"
  shows "before_or_at_first_eos e ids ! i \<longleftrightarrow> e \<notin> set (take i ids)"
proof (cases i)
  case 0
  with assms show ?thesis by (simp add: before_or_at_first_eos_def nth_append)
next
  case (Suc j)
  with assms have "before_or_at_first_eos e ids ! i \<longleftrightarrow> \<not> eos_seen False e ids ! j"
    by (simp add: before_or_at_first_eos_def nth_append nth_butlast min_def)
  with assms Suc show ?thesis by (simp add: eos_seen_nth)
qed

lemma length_completion_mask_row [simp]: "length (completion_mask_row pad eos ids) = length ids"
  by (simp add: completion_mask_row_def Let_def split: option.splits)

lemma completion_mask_row_nth:
  assumes "i < length ids"
  shows "completion_mask_row pad eos ids ! i \<longleftrightarrow>
     ids ! i \<noteq> pad \<and> (case eos of None \<Rightarrow> True | Some e \<Rightarrow> e \<notin> set (take i ids))"
  using assms
  by (simp add: completion_mask_row_def Let_def before_or_at_first_eos_nth split: option.splits)

text \<open>
  What an engine returns that stops at the end-of-sequence token: no padding inside, and the
  end of the sequence, if it was reached, last.
\<close>

definition well_stopped :: "int \<Rightarrow> int option \<Rightarrow> int list \<Rightarrow> bool" where
  "well_stopped pad eos c \<longleftrightarrow>
     pad \<notin> set c \<and> (case eos of None \<Rightarrow> True | Some e \<Rightarrow> e \<notin> set (butlast c))"

lemma well_stopped_take:
  assumes "well_stopped pad eos c"
  shows "well_stopped pad eos (take n c)"
proof -
  have "set (take (length (take n c) - 1) (take n c)) \<subseteq> set (take (length c - 1) c)"
    unfolding take_take by (rule set_take_subset_set_take) (auto simp: min_def)
  with assms show ?thesis
    by (auto simp: well_stopped_def butlast_conv_take dest: in_set_takeD split: option.splits)
qed

lemma completion_mask_row_stopped [rollout_simps]:
  assumes "well_stopped pad eos c"
  shows "completion_mask_row pad eos (c @ replicate k pad) = replicate (length c) True @ replicate k False"
proof (rule nth_equalityI)
  fix i assume i: "i < length (completion_mask_row pad eos (c @ replicate k pad))"
  show "completion_mask_row pad eos (c @ replicate k pad) ! i = (replicate (length c) True @ replicate k False) ! i"
  proof (cases "i < length c")
    case True
    have "c ! i \<noteq> pad" using assms True by (auto simp: well_stopped_def)
    moreover have "e \<notin> set (take i c)" if "eos = Some e" for e
    proof -
      have "set (take i c) \<subseteq> set (butlast c)"
        unfolding butlast_conv_take using True by (intro set_take_subset_set_take) simp
      then show ?thesis using assms that by (auto simp: well_stopped_def)
    qed
    ultimately show ?thesis
      using True by (simp add: completion_mask_row_nth nth_append split: option.splits)
  next
    case False
    then show ?thesis using i by (simp add: completion_mask_row_nth nth_append)
  qed
qed simp

lemma shift_mask_row_rollout [rollout_simps]:
  assumes "0 < prompt_width" and "length cm = m"
  shows "shift_mask_row (prompt_width + m - 1) cm prompt_width = Inr (replicate (prompt_width - 1) False @ cm)"
proof -
  have "prompt_width + m - 1 - (prompt_width - 1) = m" using assms(1) by simp
  then show ?thesis using assms by (cases "m = 0") (simp_all add: shift_mask_row_def Let_def)
qed

lemma length_pad_completion [simp]: "length (pad_completion pad n c) = n"
  by (simp add: pad_completion_def)

text \<open>
  The rows of a rollout and of its response mask: prompt, completion cut to \<open>m\<close> tokens, padding.
\<close>

definition rollout_rows :: "int \<Rightarrow> nat \<Rightarrow> int list list \<Rightarrow> int list list \<Rightarrow> int list list" where
  "rollout_rows pad m prompts completions =
     map2 (\<lambda>p c. p @ take m c @ replicate (m - length c) pad) prompts completions"

definition completion_rows :: "nat \<Rightarrow> int list list \<Rightarrow> bool list list" where
  "completion_rows m completions = map (\<lambda>c. replicate (min m (length c)) True @ replicate (m - length c) False) completions"

definition response_rows :: "nat \<Rightarrow> nat \<Rightarrow> int list list \<Rightarrow> bool list list" where
  "response_rows prompt_width m completions =
     map (\<lambda>c. replicate (prompt_width - 1) False @ replicate (min m (length c)) True @ replicate (m - length c) False)
       completions"

lemma rollout_rows_nth [rollout_simps]:
  "length completions = length prompts \<Longrightarrow> i < length prompts \<Longrightarrow>
   rollout_rows pad m prompts completions ! i =
     prompts ! i @ take m (completions ! i) @ replicate (m - length (completions ! i)) pad"
  by (simp add: rollout_rows_def)

lemma length_rollout_rows [rollout_simps]:
  "length completions = length prompts \<Longrightarrow> length (rollout_rows pad m prompts completions) = length prompts"
  by (simp add: rollout_rows_def)

lemma assemble_rollout_rows:
  assumes "length completions = length prompts" and "m = completion_width max_new_tokens completions" and "0 < m"
  shows "assemble_rollout pad max_new_tokens prompts completions = Inr (rollout_rows pad m prompts completions)"
proof -
  have "pad_completion pad m c = take m c @ replicate (m - length c) pad" for c
    by (auto simp: pad_completion_def min_def)
  then show ?thesis
    using assms(1,3) by (simp add: assemble_rollout_def Let_def rollout_rows_def flip: assms(2))
qed

lemma completion_mask_rows:
  assumes "\<And>p. p \<in> set prompts \<Longrightarrow> length p = prompt_width"
    and "length completions = length prompts" and "\<And>c. c \<in> set completions \<Longrightarrow> well_stopped pad eos c"
  shows "completion_mask pad eos (rollout_rows pad m prompts completions) prompt_width = completion_rows m completions"
proof (rule nth_equalityI)
  show "length (completion_mask pad eos (rollout_rows pad m prompts completions) prompt_width) =
      length (completion_rows m completions)"
    using assms(2) by (simp add: completion_mask_def completion_rows_def rollout_simps)
  fix i assume "i < length (completion_mask pad eos (rollout_rows pad m prompts completions) prompt_width)"
  then have i: "i < length prompts" "i < length completions"
    using assms(2) by (simp_all add: completion_mask_def rollout_simps)
  have "drop prompt_width (rollout_rows pad m prompts completions ! i) =
      take m (completions ! i) @ replicate (m - length (completions ! i)) pad"
    using i assms(1)[of "prompts ! i"] assms(2) by (simp add: rollout_simps)
  moreover have "well_stopped pad eos (take m (completions ! i))"
    using i assms(3) by (simp add: well_stopped_take)
  ultimately show "completion_mask pad eos (rollout_rows pad m prompts completions) prompt_width ! i =
      completion_rows m completions ! i"
    using i assms(2)
    by (simp add: completion_mask_def completion_rows_def rollout_simps min.commute)
qed

lemma shift_completion_rows:
  assumes "0 < prompt_width"
  shows "shift_completion_mask (prompt_width + m - 1) (completion_rows m completions) prompt_width =
         Inr (response_rows prompt_width m completions)"
proof -
  have "map_res (\<lambda>cm. shift_mask_row (prompt_width + m - 1) cm prompt_width) (completion_rows m completions) =
      Inr (map (\<lambda>cm. replicate (prompt_width - 1) False @ cm) (completion_rows m completions))"
    by (rule map_res_all_ok)
       (auto simp: completion_rows_def simp del: One_nat_def intro!: shift_mask_row_rollout[OF assms])
  then show ?thesis
    by (simp add: shift_completion_mask_def completion_rows_def response_rows_def)
qed

text \<open>
  C18: the response mask of a rollout of the vLLM student marks exactly the completions: for
  prompts of one width and completions that stop at the end-of-sequence token, the assembled
  rows are prompt, completion (cut to the common width) and padding, and the shifted mask is true
  exactly at the positions whose next token is a token of the completion.
\<close>

theorem rollout_response_mask_correct:
  assumes "\<And>p. p \<in> set prompts \<Longrightarrow> length p = prompt_width" and "0 < prompt_width"
    and "length completions = length prompts" and "\<And>c. c \<in> set completions \<Longrightarrow> well_stopped pad eos c"
    and "m = completion_width max_new_tokens completions" and "0 < m"
  shows "\<exists>sequences. assemble_rollout pad max_new_tokens prompts completions = Inr sequences
    \<and> sequences = map2 (\<lambda>p c. p @ take m c @ replicate (m - length c) pad) prompts completions
    \<and> shift_completion_mask (prompt_width + m - 1) (completion_mask pad eos sequences prompt_width) prompt_width =
        Inr (map (\<lambda>c. replicate (prompt_width - 1) False @ replicate (min m (length c)) True @
                        replicate (m - length c) False) completions)"
  using assemble_rollout_rows[OF assms(3,5,6), of pad]
    completion_mask_rows[OF assms(1,3,4), of m] shift_completion_rows[OF assms(2), of m completions]
  by (simp add: rollout_rows_def response_rows_def)

corollary rollout_response_mask_correct_witness:
  "\<exists>sequences. assemble_rollout 0 8 [[0, 5], [4, 6]] [[7, 2], [9]] = Inr sequences
    \<and> sequences = map2 (\<lambda>p c. p @ take 2 c @ replicate (2 - length c) 0) [[0, 5], [4, 6]] [[7, 2], [9]]
    \<and> shift_completion_mask (2 + 2 - 1) (completion_mask 0 (Some 2) sequences 2) 2 =
        Inr (map (\<lambda>c. replicate (2 - 1) False @ replicate (min 2 (length c)) True @
                        replicate (2 - length c) False) [[7, 2], [9 :: int]])"
  by (rule rollout_response_mask_correct) (auto simp: well_stopped_def completion_width_def)

text \<open>
  With the same token for padding and for the end of the sequence (the tokenizer set-up
  falls back to this) the end-of-sequence token the student generated is never a response token.
\<close>

theorem eos_as_pad_is_masked:
  assumes "pad \<notin> set c"
  shows "completion_mask_row pad (Some pad) (c @ [pad] @ rest) =
         replicate (length c) True @ replicate (Suc (length rest)) False"
proof (rule nth_equalityI)
  fix i assume i: "i < length (completion_mask_row pad (Some pad) (c @ [pad] @ rest))"
  have "set (take i c) \<subseteq> set c" by (rule set_take_subset)
  moreover have "c ! i \<noteq> pad" if "i < length c" using assms that by auto
  moreover have "pad \<in> set (take i (c @ [pad] @ rest)) \<or> (c @ [pad] @ rest) ! i = pad" if "\<not> i < length c"
    using that by (cases "i - length c") (auto simp: nth_append)
  ultimately show "completion_mask_row pad (Some pad) (c @ [pad] @ rest) ! i =
      (replicate (length c) True @ replicate (Suc (length rest)) False) ! i"
    using i assms by (cases "i < length c") (auto simp: completion_mask_row_nth nth_append simp del: replicate_Suc)
qed simp

corollary eos_as_pad_is_masked_witness:
  "completion_mask_row 2 (Some 2) [7, 8, 2, 2] = [True, True, False, False]"
  using eos_as_pad_is_masked[of 2 "[7, 8]" "[2]"] by (simp add: numeral_2_eq_2)

end
