(* ===== verification/OpdTeacher.thy ===== *)
theory OpdTeacher
  imports OpdRollout PyStrings Complex_Main
begin

text \<open>
  \<open>VLLMTeacherScorer\<close> of \<open>src/CLightMLLM_new/src/method/vllm_teacher.py\<close>: the top-\<open>k\<close> log-probabilities
  of a teacher engine, read out of vLLM's \<open>prompt_logprobs\<close> and put back at the shifted positions of
  the training sequences.  The engine is an argument: it answers a list of prompts with
  one \<open>prompt_logprobs\<close> per prompt (absent, or one entry per prompt token, the first one empty).
\<close>

section \<open>Reading the top-k entries\<close>

text \<open>An item of an entry: the token, its rank (if any) and its log-probability.\<close>

type_synonym logprob_item = "int \<times> nat option \<times> real"
type_synonym logprob_entry = "logprob_item list option"
type_synonym prompt_logprobs = "logprob_entry list option"
type_synonym topk_row = "real list \<times> int list"

text \<open>\<open>ids[rank - 1] = ...\<close>: rank 0 would address the last element, as in Python.\<close>

definition rank_slot :: "nat \<Rightarrow> nat \<Rightarrow> nat result" where
  "rank_slot topk rank = (if rank = 0 then (if topk = 0 then Inl IndexError else Inr (topk - 1)) else Inr (rank - 1))"

definition place_item ::
  "nat \<Rightarrow> (int option list \<times> real option list) \<Rightarrow> logprob_item \<Rightarrow> (int option list \<times> real option list) result" where
  "place_item topk st item =
     (case item of (token_id, rank, logprob) \<Rightarrow>
        case rank of
          None \<Rightarrow> Inr st
        | Some r \<Rightarrow>
            if topk < r then Inr st
            else bind_res (rank_slot topk r) (\<lambda>j. Inr ((fst st)[j := Some token_id], (snd st)[j := Some logprob])))"

definition extract_entry :: "nat \<Rightarrow> logprob_entry \<Rightarrow> topk_row result" where
  "extract_entry topk entry =
     (case entry of
        None \<Rightarrow> Inl RuntimeError
      | Some items \<Rightarrow>
          bind_res (fold_res (place_item topk) (replicate topk None, replicate topk None) items) (\<lambda>(ids, logps).
            if None \<in> set ids \<or> None \<in> set logps then Inl RuntimeError
            else Inr (map the logps, map the ids)))"

definition extract_topk :: "nat \<Rightarrow> logprob_entry list \<Rightarrow> nat \<Rightarrow> topk_row list result" where
  "extract_topk topk prompt_lps expected_len =
     (let entries = tl prompt_lps
      in if length entries \<noteq> expected_len then Inl RuntimeError
         else map_res (extract_entry topk) entries)"

section \<open>Building the prompts\<close>

record ('img, 'kw) teacher_prompt =
  prompt_token_ids :: "int list"
  prompt_mm_data :: "(str, 'img list) dict"
  prompt_mm_kwargs :: "'kw option"

definition pick_modality :: "str \<Rightarrow> str \<Rightarrow> (str, 'img list) dict \<Rightarrow> (str, 'img list) dict" where
  "pick_modality name plural d =
     (case map_of d name of
        Some v \<Rightarrow> [(name, v)]
      | None \<Rightarrow> (case map_of d plural of Some v \<Rightarrow> [(name, v)] | None \<Rightarrow> []))"

definition kept_tokens :: "bool \<Rightarrow> int list \<Rightarrow> int option \<Rightarrow> int option \<Rightarrow> int list \<times> nat list" where
  "kept_tokens dedup_mm_tokens token_ids image_token_id video_token_id =
     (if dedup_mm_tokens then dedup_consecutive_mm_tokens token_ids image_token_id video_token_id
      else (token_ids, [0..<length token_ids]))"

text \<open>Empty processor arguments are falsy and are left out, like absent ones.\<close>

definition build_prompt ::
  "bool \<Rightarrow> int option \<Rightarrow> int option \<Rightarrow> 'img list \<Rightarrow> ('k list) option \<Rightarrow> (str, 'img list) dict option \<Rightarrow>
   int list \<Rightarrow> ('img, 'k list) teacher_prompt" where
  "build_prompt dedup_mm_tokens image_token_id video_token_id images mm_processor_kwargs multi_modal_data token_ids =
     \<lparr> prompt_token_ids = fst (kept_tokens dedup_mm_tokens token_ids image_token_id video_token_id),
       prompt_mm_data =
         (case multi_modal_data of
            Some d \<Rightarrow> pick_modality ''image'' ''images'' d @ pick_modality ''video'' ''videos'' d @
                      pick_modality ''audio'' ''audios'' d
          | None \<Rightarrow> if images \<noteq> [] then [(''image'', images)] else []),
       prompt_mm_kwargs = (case mm_processor_kwargs of Some [] \<Rightarrow> None | k \<Rightarrow> k) \<rparr>"

section \<open>Scoring a batch\<close>

definition or_fill :: "'a \<Rightarrow> nat \<Rightarrow> 'a list option \<Rightarrow> 'a list" where
  "or_fill fill n given = (case given of None \<Rightarrow> replicate n fill | Some xs \<Rightarrow> xs @ replicate (n - length xs) fill)"

definition response_shift_start :: "nat \<Rightarrow> nat \<Rightarrow> bool list list option \<Rightarrow> nat option result" where
  "response_shift_start batch_size seq_len response_mask =
     (case response_mask of
        None \<Rightarrow> Inr None
      | Some rm \<Rightarrow>
          if length rm \<noteq> batch_size then Inl RuntimeError
          else let width = (case rm of [] \<Rightarrow> 0 | row # _ \<Rightarrow> length row)
               in if seq_len < width + 1 then Inl RuntimeError else Inr (Some (seq_len - width - 1)))"

definition response_shift_indices :: "nat \<Rightarrow> nat \<Rightarrow> bool list \<Rightarrow> nat list" where
  "response_shift_indices n start row =
     filter (\<lambda>i. i < n) (map (\<lambda>p. start + p) (filter (\<lambda>p. row ! p) [0..<length row]))"

record score_span =
  span_start :: nat
  span_len :: nat
  span_kept :: "nat list"
  span_response :: "nat list option"

definition assign_rows :: "topk_row list \<Rightarrow> nat list \<Rightarrow> topk_row list \<Rightarrow> topk_row list" where
  "assign_rows full idx rows = foldl (\<lambda>f (i, r). f[i := r]) full (zip idx rows)"

text \<open>What the scorer writes into one row of the result.\<close>

definition place_output :: "nat \<Rightarrow> topk_row list \<Rightarrow> prompt_logprobs \<Rightarrow> score_span \<Rightarrow> topk_row list result" where
  "place_output topk full out sp =
     (case out of
        None \<Rightarrow> Inl RuntimeError
      | Some [] \<Rightarrow> Inl RuntimeError
      | Some (e # es) \<Rightarrow>
          let output_len = length es;
              expanded_len = span_len sp - 1;
              dedup_len = length (span_kept sp) - 1
          in bind_res (extract_topk topk (e # es) output_len) (\<lambda>rows.
             case span_response sp of
               Some idx \<Rightarrow>
                 if idx = [] then Inr full
                 else if output_len < length idx then Inl RuntimeError
                 else Inr (assign_rows full idx (drop (output_len - length idx) rows))
             | None \<Rightarrow>
                 if output_len = expanded_len then Inr (assign_rows full [span_start sp..<span_start sp + expanded_len] rows)
                 else if output_len = dedup_len
                 then Inr (assign_rows full (map (\<lambda>k. span_start sp + k - 1) (tl (span_kept sp))) rows)
                 else Inl RuntimeError))"

definition blank_row :: "nat \<Rightarrow> nat \<Rightarrow> int \<Rightarrow> topk_row list" where
  "blank_row n topk pad = replicate n (replicate topk 0, replicate topk pad)"

definition teacher_score ::
  "(('img, 'k list) teacher_prompt list \<Rightarrow> prompt_logprobs list) \<Rightarrow> nat \<Rightarrow> bool \<Rightarrow> int option \<Rightarrow> int option \<Rightarrow> int \<Rightarrow>
   int list list \<Rightarrow> bool list list \<Rightarrow> 'img list list option \<Rightarrow> 'k list option list option \<Rightarrow>
   (str, 'img list) dict option list option \<Rightarrow> bool list list option \<Rightarrow> topk_row list list result" where
  "teacher_score engine topk dedup_mm_tokens image_token_id video_token_id pad sequences attention_mask
      images_per_sample mm_kwargs_per_sample mm_data_per_sample response_mask =
     (let batch_size = length sequences;
          seq_len = (case sequences of [] \<Rightarrow> 0 | row # _ \<Rightarrow> length row);
          n = seq_len - 1
      in if seq_len \<le> 1 then Inr (replicate batch_size (blank_row n topk pad))
         else bind_res (response_shift_start batch_size seq_len response_mask) (\<lambda>start.
           let images = or_fill [] batch_size images_per_sample;
               kwargs = or_fill None batch_size mm_kwargs_per_sample;
               mm_data = or_fill None batch_size mm_data_per_sample;
               token_ids = (\<lambda>i. let (a, b) = active_span (attention_mask ! i) in take (b - a) (drop a (sequences ! i)));
               prompts = map (\<lambda>i. build_prompt dedup_mm_tokens image_token_id video_token_id
                                    (images ! i) (kwargs ! i) (mm_data ! i) (token_ids i)) [0..<batch_size];
               spans = map (\<lambda>i. \<lparr> span_start = fst (active_span (attention_mask ! i)), span_len = length (token_ids i),
                                   span_kept = snd (kept_tokens dedup_mm_tokens (token_ids i) image_token_id video_token_id),
                                   span_response = map_option (\<lambda>s. response_shift_indices n s (the response_mask ! i)) start \<rparr>)
                         [0..<batch_size];
               outputs = engine prompts
           in if length outputs \<noteq> batch_size then Inl RuntimeError
              else map_res (\<lambda>(out, sp). place_output topk (blank_row n topk pad) out sp) (zip outputs spans)))"

section \<open>Spans, kept tokens and response positions\<close>

lemma first_active_index_append:
  "first_active_index (xs @ ys) = (if True \<in> set xs then first_active_index xs else length xs + first_active_index ys)"
  by (induction xs) auto

lemma first_active_index_le: "first_active_index xs \<le> length xs"
  by (induction xs) auto

lemma first_active_lt: "True \<in> set xs \<Longrightarrow> first_active_index xs < length xs"
  by (induction xs) auto

lemma first_active_index_none: "True \<notin> set xs \<Longrightarrow> first_active_index xs = length xs"
  by (induction xs) auto

lemma first_active_index_replicate [simp]: "first_active_index (replicate k False) = k"
  by (induction k) auto

lemma first_active_index_true: "0 < c \<Longrightarrow> first_active_index (replicate c True @ xs) = 0"
  by (cases c) simp_all

lemma active_span_rollout:
  assumes "0 < c"
  shows "active_span (pm @ replicate c True @ replicate k False) = (first_active_index pm, length pm + c)"
proof -
  have "first_active_index (rev (pm @ replicate c True @ replicate k False)) = k"
    using assms by (simp add: first_active_index_append first_active_index_true first_active_index_true[where xs = "[]", simplified])
  moreover have "first_active_index (pm @ replicate c True @ replicate k False) = first_active_index pm"
    using assms by (cases c) (auto simp: first_active_index_append first_active_index_none)
  ultimately show ?thesis using assms by (auto simp: active_span_def)
qed

lemma dedup_from_append:
  "dedup_from mm prev i (xs @ ys) =
     dedup_from mm prev i xs @ dedup_from mm (if xs = [] then prev else last xs \<in> mm) (i + length xs) ys"
  by (induction xs arbitrary: prev i) auto

lemma dedup_from_text: "set ys \<inter> mm = {} \<Longrightarrow> dedup_from mm prev i ys = zip ys [i..<i + length ys]"
  by (induction ys arbitrary: prev i) (auto simp: upt_conv_Cons simp del: upt_Suc)

definition mm_ids :: "int option \<Rightarrow> int option \<Rightarrow> int set" where
  "mm_ids image_token_id video_token_id = set_option image_token_id \<union> set_option video_token_id"

lemma kept_tokens_append:
  assumes "set ys \<inter> mm_ids image_token_id video_token_id = {}"
  shows "fst (kept_tokens dedup (xs @ ys) image_token_id video_token_id) =
         fst (kept_tokens dedup xs image_token_id video_token_id) @ ys"
  using assms
  by (auto simp: kept_tokens_def dedup_consecutive_mm_tokens_def Let_def dedup_from_append
      dedup_from_text mm_ids_def)

text \<open>What is kept is a subsequence of the tokens, at the recorded positions.\<close>

lemma dedup_from_positions:
  "(t, j) \<in> set (dedup_from mm prev i ts) \<Longrightarrow> i \<le> j \<and> j < i + length ts \<and> t = ts ! (j - i)"
  by (induction ts arbitrary: prev i) (fastforce split: if_splits simp: nth_Cons')+

lemma kept_tokens_positions:
  "fst (kept_tokens dedup ts image_token_id video_token_id) =
   map (\<lambda>j. ts ! j) (snd (kept_tokens dedup ts image_token_id video_token_id))"
  by (auto simp: kept_tokens_def dedup_consecutive_mm_tokens_def Let_def map_nth dest: dedup_from_positions)

lemma response_shift_indices_block:
  "response_shift_indices (a + c + k) 0 (replicate a False @ replicate c True @ replicate k False) = [a..<a + c]"
proof -
  let ?row = "replicate a False @ replicate c True @ replicate k False"
  have "[0..<a + c + k] = [0..<a] @ [a..<a + c] @ [a + c..<a + c + k]"
    by (metis append.assoc le0 le_add1 upt_add_eq_append add_0)
  moreover have "filter (\<lambda>p. ?row ! p) [0..<a] = []"
    by (simp add: filter_empty_conv nth_append)
  moreover have "filter (\<lambda>p. ?row ! p) [a..<a + c] = [a..<a + c]"
    by (rule filter_True) (auto simp: nth_append)
  moreover have "filter (\<lambda>p. ?row ! p) [a + c..<a + c + k] = []"
    by (auto simp: filter_empty_conv nth_append)
  ultimately have "filter (\<lambda>p. ?row ! p) [0..<a + c + k] = [a..<a + c]"
    by simp
  then show ?thesis
    by (simp add: response_shift_indices_def add.assoc filter_id_conv)
qed

lemma assign_rows_block:
  assumes "length rows = c" and "a + c \<le> length full"
  shows "length (assign_rows full [a..<a + c] rows) = length full \<and>
    (\<forall>t < length full. assign_rows full [a..<a + c] rows ! t = (if a \<le> t \<and> t < a + c then rows ! (t - a) else full ! t))"
  using assms
proof (induction rows arbitrary: a c full)
  case Nil
  then show ?case by (auto simp: assign_rows_def)
next
  case (Cons r rows)
  from Cons.prems obtain c' where c: "c = Suc c'" "length rows = c'" by (cases c) auto
  have step: "assign_rows full [a..<a + c] (r # rows) = assign_rows (full[a := r]) [Suc a..<Suc a + c'] rows"
    by (simp add: assign_rows_def c(1) upt_conv_Cons del: upt_Suc)
  have len: "a < length full" "Suc a + c' \<le> length (full[a := r])" using Cons.prems c by simp_all
  show ?case
    unfolding step using Cons.IH[OF c(2) len(2)] len(1) c
    by (auto simp del: upt_Suc simp: nth_list_update nth_Cons' Suc_diff_Suc)
qed


section \<open>The scores stand at the tokens they belong to\<close>

text \<open>
  What is relied on of the engine: it answers every prompt, every entry holds the whole top-\<open>k\<close>,
  and, although it may expand the image tokens at the front by itself, the entries of the text
  at the end of a prompt are the last ones, each for its token after everything before it.
\<close>

definition engine_scores ::
  "(('img, 'kw) teacher_prompt \<Rightarrow> topk_row) \<Rightarrow> nat \<Rightarrow> int set \<Rightarrow>
   (('img, 'kw) teacher_prompt list \<Rightarrow> prompt_logprobs list) \<Rightarrow> bool" where
  "engine_scores teacher topk mm engine \<longleftrightarrow>
     (\<forall>ps. length (engine ps) = length ps \<and>
       (\<forall>i < length ps. \<exists>e es rows. engine ps ! i = Some (e # es) \<and>
          extract_topk topk (e # es) (length es) = Inr rows \<and>
          (\<forall>xs ys. prompt_token_ids (ps ! i) = xs @ ys \<and> xs \<noteq> [] \<and> set ys \<inter> mm = {} \<longrightarrow>
             length ys \<le> length rows \<and>
             (\<forall>j < length ys. rows ! (length rows - length ys + j) =
                teacher ((ps ! i) \<lparr> prompt_token_ids := xs @ take j ys \<rparr>)))))"

lemma engine_scoresD:
  assumes "engine_scores teacher topk mm engine" and "i < length ps"
  shows "\<exists>e es rows. engine ps ! i = Some (e # es) \<and> extract_topk topk (e # es) (length es) = Inr rows \<and>
    (\<forall>xs ys. prompt_token_ids (ps ! i) = xs @ ys \<and> xs \<noteq> [] \<and> set ys \<inter> mm = {} \<longrightarrow>
       length ys \<le> length rows \<and>
       (\<forall>j < length ys. rows ! (length rows - length ys + j) = teacher ((ps ! i) \<lparr> prompt_token_ids := xs @ take j ys \<rparr>)))"
  using assms unfolding engine_scores_def by metis

lemma extract_topk_length: "extract_topk topk lps n = Inr rows \<Longrightarrow> length rows = n"
  by (auto simp: extract_topk_def Let_def map_res_length split: if_splits)

lemma kept_tokens_nonempty: "xs \<noteq> [] \<Longrightarrow> fst (kept_tokens dedup xs image_token_id video_token_id) \<noteq> []"
  by (cases xs) (auto simp: kept_tokens_def dedup_consecutive_mm_tokens_def Let_def)

lemma build_prompt_tokens [simp]:
  "prompt_token_ids (build_prompt dd img vid images kw mmd ts) = fst (kept_tokens dd ts img vid)"
  by (simp add: build_prompt_def)

lemma build_prompt_cut:
  assumes "set ys \<inter> mm_ids img vid = {}"
  shows "(build_prompt dd img vid images kw mmd (xs @ ys)) \<lparr> prompt_token_ids := fst (kept_tokens dd xs img vid) @ take j ys \<rparr> =
         build_prompt dd img vid images kw mmd (xs @ take j ys)"
proof -
  have "set (take j ys) \<inter> mm_ids img vid = {}" using assms by (auto dest: in_set_takeD)
  then show ?thesis by (simp add: build_prompt_def kept_tokens_append[of "take j ys"])
qed

lemma place_output_response:
  assumes "extract_topk topk (e # es) (length es) = Inr rows" and "span_response sp = Some [a..<a + c]"
    and "c \<le> length rows" and "a + c \<le> length full"
  shows "\<exists>row. place_output topk full (Some (e # es)) sp = Inr row \<and> length row = length full \<and>
     (\<forall>t < length full. row ! t = (if a \<le> t \<and> t < a + c then rows ! (length rows - c + (t - a)) else full ! t))"
proof (cases "c = 0")
  case True
  with assms show ?thesis by (auto simp: place_output_def)
next
  case False
  have len: "length rows = length es" using assms(1) by (rule extract_topk_length)
  have cut: "length (drop (length es - c) rows) = c" using assms(3) len by simp
  have "place_output topk full (Some (e # es)) sp = Inr (assign_rows full [a..<a + c] (drop (length es - c) rows))"
    using assms False len by (simp add: place_output_def Let_def del: upt_Suc)
  then show ?thesis
    using assign_rows_block[OF cut assms(4)] assms(3) len by (auto simp: add.commute)
qed

text \<open>One row: the last entries of the answer are those of the completion, and they are placed at its block.\<close>

lemma engine_response_rows:
  assumes engine: "engine_scores teacher topk (mm_ids img vid) engine" and i: "i < length ps"
    and p: "ps ! i = build_prompt dd img vid images kw mmd (act @ ys)"
    and act: "act \<noteq> []" and mm: "set ys \<inter> mm_ids img vid = {}"
  shows "\<exists>e es rows. engine ps ! i = Some (e # es) \<and> extract_topk topk (e # es) (length es) = Inr rows \<and>
    length ys \<le> length rows \<and>
    (\<forall>j < length ys. rows ! (length rows - length ys + j) = teacher (build_prompt dd img vid images kw mmd (act @ take j ys)))"
proof -
  have tokens: "prompt_token_ids (ps ! i) = fst (kept_tokens dd act img vid) @ ys"
    by (simp add: p kept_tokens_append[OF mm])
  obtain e es rows where eng: "engine ps ! i = Some (e # es)" "extract_topk topk (e # es) (length es) = Inr rows"
    and tail: "\<forall>xs ys. prompt_token_ids (ps ! i) = xs @ ys \<and> xs \<noteq> [] \<and> set ys \<inter> mm_ids img vid = {} \<longrightarrow>
         length ys \<le> length rows \<and>
         (\<forall>j < length ys. rows ! (length rows - length ys + j) = teacher ((ps ! i) \<lparr> prompt_token_ids := xs @ take j ys \<rparr>))"
    using engine_scoresD[OF engine i] by metis
  from tail tokens kept_tokens_nonempty[OF act, of dd img vid] mm
  have "length ys \<le> length rows \<and> (\<forall>j < length ys. rows ! (length rows - length ys + j) =
      teacher ((ps ! i) \<lparr> prompt_token_ids := fst (kept_tokens dd act img vid) @ take j ys \<rparr>))"
    by metis
  then show ?thesis
    using eng unfolding p build_prompt_cut[OF mm] by blast
qed

lemma place_response_row:
  assumes engine: "engine_scores teacher topk (mm_ids img vid) engine" and i: "i < length ps"
    and p: "ys \<noteq> [] \<Longrightarrow> ps ! i = build_prompt dd img vid images kw mmd (act @ ys)"
    and act: "act \<noteq> []" and mm: "set ys \<inter> mm_ids img vid = {}"
    and sp: "span_response sp = Some [a..<a + length ys]" and fit: "a + length ys \<le> n"
  shows "\<exists>row. place_output topk (blank_row n topk pad) (engine ps ! i) sp = Inr row \<and>
    (\<forall>t < n. row ! t = (if a \<le> t \<and> t < a + length ys
       then teacher (build_prompt dd img vid images kw mmd (act @ take (t - a) ys))
       else (replicate topk 0, replicate topk pad)))"
proof -
  obtain e es rows where eng: "engine ps ! i = Some (e # es)" "extract_topk topk (e # es) (length es) = Inr rows"
      "length ys \<le> length rows"
    and scored: "\<forall>j < length ys. rows ! (length rows - length ys + j) =
      teacher (build_prompt dd img vid images kw mmd (act @ take j ys))"
  proof (cases "ys = []")
    case True
    with that engine_scoresD[OF engine i] show thesis by force
  next
    case False
    with that engine_response_rows[OF engine i p[OF False] act mm] show thesis by blast
  qed
  have blank: "length (blank_row n topk pad) = n" by (simp add: blank_row_def)
  obtain row where row: "place_output topk (blank_row n topk pad) (Some (e # es)) sp = Inr row"
    and at: "\<forall>t < n. row ! t = (if a \<le> t \<and> t < a + length ys
       then rows ! (length rows - length ys + (t - a)) else blank_row n topk pad ! t)"
    using place_output_response[OF eng(2) sp eng(3), of "blank_row n topk pad"] fit unfolding blank by blast
  have "row ! t = (if a \<le> t \<and> t < a + length ys
       then teacher (build_prompt dd img vid images kw mmd (act @ take (t - a) ys))
       else (replicate topk 0, replicate topk pad))" if "t < n" for t
    using at[rule_format, OF that] scored[rule_format, of "t - a"] that by (auto simp: blank_row_def)
  with row show ?thesis unfolding eng(1) by blast
qed

text \<open>The scorer as a whole is one \<open>place_output\<close> per row.\<close>

definition span_of ::
  "bool \<Rightarrow> int option \<Rightarrow> int option \<Rightarrow> int list list \<Rightarrow> bool list list \<Rightarrow> bool list list \<Rightarrow> nat \<Rightarrow> nat \<Rightarrow> int list \<times> score_span" where
  "span_of dd img vid sequences attention_mask response_mask n i =
     (let (a, b) = active_span (attention_mask ! i); tokens = take (b - a) (drop a (sequences ! i))
      in (tokens, \<lparr> span_start = a, span_len = length tokens, span_kept = snd (kept_tokens dd tokens img vid),
                    span_response = Some (response_shift_indices n 0 (response_mask ! i)) \<rparr>))"

definition row_prompt ::
  "bool \<Rightarrow> int option \<Rightarrow> int option \<Rightarrow> 'img list list option \<Rightarrow> 'k list option list option \<Rightarrow>
   (str, 'img list) dict option list option \<Rightarrow> nat \<Rightarrow> nat \<Rightarrow> int list \<Rightarrow> ('img, 'k list) teacher_prompt" where
  "row_prompt dd img vid images kwargs mm_data batch_size i =
     build_prompt dd img vid (or_fill [] batch_size images ! i) (or_fill None batch_size kwargs ! i)
       (or_fill None batch_size mm_data ! i)"

lemma teacher_score_rows:
  fixes engine :: "('img, 'k list) teacher_prompt list \<Rightarrow> prompt_logprobs list"
  assumes shape: "sequences \<noteq> []" "length (hd sequences) = Suc n" "0 < n"
      "length response_mask = length sequences" "length (hd response_mask) = n"
    and engine: "\<And>ps. length (engine ps) = length ps"
    and ps: "ps = map (\<lambda>i. row_prompt dd img vid images kwargs mm_data (length sequences) i (fst (sp i))) [0..<length sequences]"
    and sp: "sp = span_of dd img vid sequences attention_mask response_mask n"
    and rows: "\<And>i. i < length sequences \<Longrightarrow>
      \<exists>row. place_output topk (blank_row n topk pad) (engine ps ! i) (snd (sp i)) = Inr row \<and> good i row"
  shows "\<exists>scores. teacher_score engine topk dd img vid pad sequences attention_mask images kwargs mm_data (Some response_mask) = Inr scores
     \<and> length scores = length sequences \<and> (\<forall>i < length sequences. good i (scores ! i))"
proof -
  let ?B = "length sequences" and ?f = "\<lambda>(out, sp). place_output topk (blank_row n topk pad) out sp"
  have start: "response_shift_start ?B (Suc n) (Some response_mask) = Inr (Some 0)"
    using shape by (cases response_mask) (auto simp: response_shift_start_def)
  have seq_len: "(case sequences of [] \<Rightarrow> 0 | row # _ \<Rightarrow> length row) = Suc n"
    using shape by (cases sequences) auto
  let ?zip = "zip (engine ps) (map (\<lambda>i. snd (sp i)) [0..<?B])"
  have len: "length (engine ps) = ?B" by (simp add: engine ps)
  have score: "teacher_score engine topk dd img vid pad sequences attention_mask images kwargs mm_data (Some response_mask) =
      map_res ?f ?zip"
    using len shape(3) unfolding teacher_score_def ps sp span_of_def row_prompt_def
    by (simp add: Let_def seq_len start case_prod_beta)
  have "\<exists>scores. map_res ?f ?zip = Inr scores"
    by (rule map_res_total) (use rows len in \<open>fastforce simp: in_set_zip\<close>)
  then obtain scores where scores: "map_res ?f ?zip = Inr scores" ..
  have "good i (scores ! i)" if "i < ?B" for i
    using map_res_nth[OF scores, of i] rows[OF that] that len by auto
  then show ?thesis
    using score scores map_res_length[OF scores] len by auto
qed

text \<open>
  C1: the vLLM teacher's scores stand at the tokens they were computed for, on a rollout whose
  completions have no padding token, no image or video token and the end-of-sequence token, if at
  all, last (\<open>well_stopped\<close>), and whose prompts are of one length with at least one real token.
  With the masks the learner builds and an engine that scores every position of its prompt, row \<open>i\<close>
  of the result holds, at the position before response token \<open>j\<close>, the teacher's top-\<open>k\<close> after the
  prompt (its image tokens folded) and the first \<open>j\<close> tokens of the completion, and the neutral
  filling everywhere else, even though the engine returns more entries than there are prompt tokens.
  \<open>teacher_scores_shift_at_padding\<close> below shows that a padding token inside a completion breaks this.
\<close>

theorem teacher_scores_aligned:
  assumes rollout: "assemble_rollout pad max_new_tokens prompts completions = Inr sequences"
    and m: "m = completion_width max_new_tokens completions" "0 < m"
    and cmask: "cmask = completion_mask pad eos sequences pw"
    and amask: "attention_mask = sequence_attention_mask prompt_masks sequences cmask"
    and rmask: "shift_completion_mask (pw + m - 1) cmask pw = Inr response_mask"
    and prompts: "\<And>p. p \<in> set prompts \<Longrightarrow> length p = pw" "0 < pw" "prompts \<noteq> []"
    and pmasks: "length prompt_masks = length prompts" "\<And>q. q \<in> set prompt_masks \<Longrightarrow> length q = pw \<and> True \<in> set q"
    and comps: "length completions = length prompts"
      "\<And>c. c \<in> set completions \<Longrightarrow> well_stopped pad eos c \<and> set c \<inter> mm_ids img vid = {}"
    and engine: "engine_scores teacher topk (mm_ids img vid) engine"
  shows "\<exists>scores. teacher_score engine topk dd img vid pad sequences attention_mask images kwargs mm_data (Some response_mask) = Inr scores
     \<and> length scores = length prompts
     \<and> (\<forall>i < length prompts. \<forall>t < pw + m - 1. scores ! i ! t =
         (if pw - 1 \<le> t \<and> t < pw - 1 + min m (length (completions ! i))
          then teacher (build_prompt dd img vid (or_fill [] (length prompts) images ! i)
                 (or_fill None (length prompts) kwargs ! i) (or_fill None (length prompts) mm_data ! i)
                 (drop (first_active_index (prompt_masks ! i)) (prompts ! i) @ take (t - (pw - 1)) (completions ! i)))
          else (replicate topk 0, replicate topk pad)))"
proof -
  let ?B = "length prompts" and ?ys = "\<lambda>i. take m (completions ! i)"
  let ?k = "\<lambda>i. m - length (completions ! i)"
  let ?act = "\<lambda>i. drop (first_active_index (prompt_masks ! i)) (prompts ! i)"
  have seqs: "sequences = rollout_rows pad m prompts completions"
    using rollout assemble_rollout_rows[OF comps(1) m, of pad] by simp
  have cm: "cmask = completion_rows m completions"
    unfolding cmask seqs by (rule completion_mask_rows[OF prompts(1) comps(1) conjunct1[OF comps(2)]])
  have rm: "response_mask = response_rows pw m completions"
    using rmask shift_completion_rows[OF prompts(2), of m completions] by (simp add: cm)
  have len: "length sequences = ?B" "length response_mask = ?B"
    using comps(1) by (simp_all add: seqs rm response_rows_def rollout_simps)
  have row: "length (prompts ! i) = pw" "length (prompt_masks ! i) = pw" "True \<in> set (prompt_masks ! i)"
      "sequences ! i = prompts ! i @ ?ys i @ replicate (?k i) pad"
      "response_mask ! i = replicate (pw - 1) False @ replicate (length (?ys i)) True @ replicate (?k i) False"
      "cmask ! i = replicate (length (?ys i)) True @ replicate (?k i) False" if "i < ?B" for i
    using that comps(1) prompts(1) pmasks by (simp_all add: seqs rm cm response_rows_def completion_rows_def rollout_simps min.commute)
  have amask_i: "attention_mask ! i = prompt_masks ! i @ replicate (length (?ys i)) True @ replicate (?k i) False"
    if "i < ?B" for i
    using that comps(1) pmasks(1) len row[OF that] by (simp add: amask sequence_attention_mask_def cm completion_rows_def)
  let ?sp = "span_of dd img vid sequences attention_mask response_mask (pw + m - 1)"
  have tokens: "fst (?sp i) = ?act i @ ?ys i" if i: "i < ?B" and y: "?ys i \<noteq> []" for i
    using active_span_rollout[of "length (?ys i)" "prompt_masks ! i" "?k i"] y row[OF i] amask_i[OF i]
      first_active_index_le[of "prompt_masks ! i"] by (auto simp: span_of_def Let_def min_def)
  have width: "pw + m - 1 = pw - 1 + length (?ys i) + ?k i" for i using prompts(2) by simp
  have fit: "pw - 1 + length (?ys i) \<le> pw + m - 1" for i using prompts(2) by simp
  have span: "span_response (snd (?sp i)) = Some [pw - 1..<pw - 1 + length (?ys i)]" if "i < ?B" for i
    using response_shift_indices_block[of "pw - 1" "length (?ys i)" "?k i"] row(5)[OF that]
    by (simp add: span_of_def case_prod_beta Let_def width[of i] del: One_nat_def)
  have act: "?act i \<noteq> []" if "i < ?B" for i
    using row[OF that] first_active_lt[of "prompt_masks ! i"] by simp
  have mm: "set (?ys i) \<inter> mm_ids img vid = {}" if "i < ?B" for i
    using comps(2)[of "completions ! i"] comps(1) that by (auto dest: in_set_takeD)
  have hd: "hd sequences = sequences ! 0" "hd response_mask = response_mask ! 0"
    using len prompts(3) by (auto intro!: hd_conv_nth)
  have shape: "sequences \<noteq> []" "length (hd sequences) = Suc (pw + m - 1)" "0 < pw + m - 1"
      "length response_mask = length sequences" "length (hd response_mask) = pw + m - 1"
    using len prompts(2,3) m(2) row[of 0] unfolding hd by auto
  have placed: "\<exists>scores. teacher_score engine topk dd img vid pad sequences attention_mask images kwargs mm_data (Some response_mask) = Inr scores
     \<and> length scores = length sequences \<and> (\<forall>i < length sequences. \<forall>t < pw + m - 1. scores ! i ! t =
         (if pw - 1 \<le> t \<and> t < pw - 1 + length (?ys i)
          then teacher (build_prompt dd img vid (or_fill [] ?B images ! i) (or_fill None ?B kwargs ! i) (or_fill None ?B mm_data ! i)
                 (?act i @ take (t - (pw - 1)) (?ys i)))
          else (replicate topk 0, replicate topk pad)))"
  proof (rule teacher_score_rows[OF shape _ refl refl])
    show "length (engine ps) = length ps" for ps using engine by (simp add: engine_scores_def)
  qed (unfold len, rule place_response_row[OF engine],
      use tokens span act mm fit in \<open>simp_all add: row_prompt_def del: length_take One_nat_def\<close>)
  have cut: "(if pw - 1 \<le> t \<and> t < pw - 1 + length (?ys i)
        then teacher (build_prompt dd img vid a b c (?act i @ take (t - (pw - 1)) (?ys i))) else z) =
      (if pw - 1 \<le> t \<and> t < pw - 1 + min m (length (completions ! i))
        then teacher (build_prompt dd img vid a b c (?act i @ take (t - (pw - 1)) (completions ! i))) else z)"
    for t i a b c and z :: topk_row
    by (auto simp: min_def)
  show ?thesis
    using placed unfolding cut len .
qed

text \<open>An engine that answers each position with its own number, to try the scorer on.\<close>

definition probe_engine :: "(nat, nat list) teacher_prompt list \<Rightarrow> prompt_logprobs list" where
  "probe_engine ps =
     map (\<lambda>p. Some (None # map (\<lambda>t. Some [(int t, Some 1, 0)]) [1..<length (prompt_token_ids p)])) ps"

lemma probe_engine_scores:
  "engine_scores (\<lambda>p. ([0], [int (length (prompt_token_ids p))])) 1 mm probe_engine"
proof -
  have entry: "extract_entry 1 (Some [(int t, Some 1, 0)]) = Inr ([0], [int t])" for t
    by (simp add: extract_entry_def place_item_def rank_slot_def)
  have rows: "extract_topk 1 (None # map (\<lambda>t. Some [(int t, Some 1, 0)]) [1..<n]) (n - 1) =
      Inr (map (\<lambda>t. ([0], [int t])) [1..<n])" for n
  proof -
    have "map_res (extract_entry 1) (map (\<lambda>t. Some [(int t, Some 1, 0)]) [1..<n]) =
        Inr (map (\<lambda>t. ([0], [int t])) [1..<n])"
      by (rule map_res_map) (rule entry)
    then show ?thesis by (simp add: extract_topk_def)
  qed
  show ?thesis
    unfolding engine_scores_def
  proof (intro allI conjI impI)
    fix ps show "length (probe_engine ps) = length ps" by (simp add: probe_engine_def)
    fix i assume i: "i < length ps"
    let ?n = "length (prompt_token_ids (ps ! i))"
    have "rows ! (length rows - length ys + j) = ([0], [int (length (xs @ take j ys))]) \<and> length ys \<le> length rows"
      if "prompt_token_ids (ps ! i) = xs @ ys" "xs \<noteq> []" "j < length ys" "rows = map (\<lambda>t. ([0], [int t])) [1..<?n]"
      for xs ys j and rows :: "topk_row list"
      using that by (cases xs) (simp_all add: min_def nth_append del: upt_Suc)
    moreover have "length ys \<le> ?n - 1" if "prompt_token_ids (ps ! i) = xs @ ys" "xs \<noteq> []" for xs ys
      using that by (cases xs) simp_all
    ultimately show "\<exists>e es rows. probe_engine ps ! i = Some (e # es) \<and> extract_topk 1 (e # es) (length es) = Inr rows \<and>
       (\<forall>xs ys. prompt_token_ids (ps ! i) = xs @ ys \<and> xs \<noteq> [] \<and> set ys \<inter> mm = {} \<longrightarrow>
          length ys \<le> length rows \<and>
          (\<forall>j < length ys. rows ! (length rows - length ys + j) =
             ([0], [int (length (prompt_token_ids ((ps ! i) \<lparr> prompt_token_ids := xs @ take j ys \<rparr>)))])))"
      using i rows[of ?n]
      by (intro exI[of _ None] exI[of _ "map (\<lambda>t. Some [(int t, Some 1, 0)]) [1..<?n]"]
          exI[of _ "map (\<lambda>t. ([0], [int t])) [1..<?n]"]) (simp add: probe_engine_def)
  qed
qed

corollary teacher_scores_aligned_witness:
  "\<exists>scores. teacher_score probe_engine 1 True None None 0 [[0, 5, 7, 2], [4, 6, 9, 0]]
       [[False, True, True, True], [True, True, True, False]] None None None
       (Some [[False, True, True], [False, True, False]]) = Inr scores
     \<and> scores ! 0 ! 1 = ([0], [1]) \<and> scores ! 0 ! 2 = ([0], [2]) \<and> scores ! 1 ! 2 = ([0], [0])"
proof -
  have eng: "engine_scores (\<lambda>p. ([0], [int (length (prompt_token_ids p))])) 1 (mm_ids None None) probe_engine"
    by (rule probe_engine_scores)
  have kept: "kept_tokens True ts None None = (ts, [0..<length ts])" for ts
    by (simp add: kept_tokens_def dedup_consecutive_mm_tokens_def)
  note teacher_scores_aligned[where engine = probe_engine and teacher = "\<lambda>p. ([0], [int (length (prompt_token_ids p))])"
      and topk = 1 and dd = True and img = None and vid = None and pad = 0 and eos = "Some 2"
      and max_new_tokens = 8 and m = 2 and pw = 2 and images = None and kwargs = None and mm_data = None
      and prompts = "[[0, 5], [4, 6]]" and completions = "[[7, 2], [9]]" and prompt_masks = "[[False, True], [True, True]]"
      and sequences = "[[0, 5, 7, 2], [4, 6, 9, 0]]" and cmask = "[[True, True], [True, False]]"
      and attention_mask = "[[False, True, True, True], [True, True, True, False]]"
      and response_mask = "[[False, True, True], [False, True, False]]"]
  note inst = this[OF _ _ _ _ _ _ _ _ _ _ _ _ _ eng]
  have "\<exists>scores. teacher_score probe_engine 1 True None None 0 [[0, 5, 7, 2], [4, 6, 9, 0]]
       [[False, True, True, True], [True, True, True, False]] None None None
       (Some [[False, True, True], [False, True, False]]) = Inr scores
     \<and> length scores = length [[0, 5], [4, 6 :: int]]
     \<and> (\<forall>i < length [[0, 5], [4, 6 :: int]]. \<forall>t < 2 + 2 - 1. scores ! i ! t =
         (if 2 - 1 \<le> t \<and> t < 2 - 1 + min 2 (length ([[7, 2], [9 :: int]] ! i))
          then ([0], [int (length (prompt_token_ids (build_prompt True None None
                 (or_fill ([] :: nat list) (length [[0, 5], [4, 6 :: int]]) None ! i)
                 (or_fill (None :: nat list option) (length [[0, 5], [4, 6 :: int]]) None ! i)
                 (or_fill None (length [[0, 5], [4, 6 :: int]]) None ! i)
                 (drop (first_active_index ([[False, True], [True, True]] ! i)) ([[0, 5], [4, 6]] ! i) @
                   take (t - (2 - 1)) ([[7, 2], [9]] ! i)))))])
          else (replicate 1 0, replicate 1 0)))"
    by (rule inst) (auto simp: assemble_rollout_def completion_width_def Let_def pad_completion_def completion_mask_def
        completion_mask_row_def before_or_at_first_eos_def sequence_attention_mask_def shift_completion_mask_def shift_mask_row_def
        well_stopped_def mm_ids_def)
  then show ?thesis
    by (elim exE conjE) (rule exI, intro conjI, assumption, auto simp: kept or_fill_def)
qed

text \<open>
  A padding token inside a completion (a student can sample it when it is not the
  end-of-sequence token) breaks the alignment.  It is no response token but lies inside the
  active span, and the scores of the last three tokens of the span are spread over the three
  response tokens: the first response token gets what belongs to the padding token.
\<close>

theorem teacher_scores_shift_at_padding:
  "completion_mask 0 (Some 2) [[5, 6, 7, 0, 8, 2]] 2 = [[True, False, True, True]] \<and>
   shift_completion_mask 5 [[True, False, True, True]] 2 = Inr [[False, True, False, True, True]] \<and>
   teacher_score probe_engine 1 True None None 0 [[5, 6, 7, 0, 8, 2]]
      (sequence_attention_mask [[True, True]] [[5, 6, 7, 0, 8, 2]] [[True, False, True, True]])
      None None None (Some [[False, True, False, True, True]]) =
   Inr [[([0], [0]), ([0], [3]), ([0], [0]), ([0], [4]), ([0], [5])]]"
proof -
  have "extract_topk 1 [None, Some [(1, Some 1, 0)], Some [(2, Some 1, 0)], Some [(3, Some 1, 0)],
      Some [(4, Some 1, 0)], Some [(5, Some 1, 0)]] 5 = Inr [([0], [1]), ([0], [2]), ([0], [3]), ([0], [4]), ([0], [5])]"
    by (simp add: extract_topk_def extract_entry_def place_item_def rank_slot_def)
  moreover have "response_shift_indices 5 0 [False, True, False, True, True] = [1, 3, 4]"
    by code_simp
  moreover have "[Suc 0..<6] = [1, 2, 3, 4, 5]" by (simp add: upt_rec)
  moreover have "[0..<Suc 0] = [0]" by simp
  ultimately show ?thesis
    by (simp add: completion_mask_def completion_mask_row_def before_or_at_first_eos_def shift_completion_mask_def
        shift_mask_row_def sequence_attention_mask_def teacher_score_def response_shift_start_def Let_def
        active_span_def probe_engine_def kept_tokens_def dedup_consecutive_mm_tokens_def place_output_def
        blank_row_def assign_rows_def numeral_eq_Suc del: upt_Suc)
qed

end
