(* ===== verification/Groupwise.thy ===== *)
theory Groupwise
  imports Complex_Main PyFunctional
begin

text \<open>
  \<open>as_torch_index\<close> of \<open>src/verl_new/verl/utils/groupwise.py\<close>: group labels of any type become numbers.  Labels are integers,
  floats and strings, alone in a tensor or an array or mixed in an array of objects; reals stand for floats (no NaN or infinity,
  integral values below \<open>2^63\<close>), and \<open>float_repr\<close> is Python's \<open>str\<close> of a float.  Of numpy the functions the source calls are written
  out: \<open>astype(np.int64)\<close>, which converts each element by \<open>int\<close>, and \<open>np.unique\<close> with the inverse, the rank of every element.
\<close>

section \<open>Labels\<close>

datatype group_label = Lab_int int | Lab_float real | Lab_str str

datatype group_labels =
    Torch_int "int list" | Torch_float "real list"
  | Np_int "int list" | Np_bool "bool list" | Np_float "real list" | Np_str "str list" | Np_object "group_label list"

text \<open>\<open>int(s)\<close>: blanks around, a sign, and decimal digits with single underscores between them (ASCII).\<close>

definition split_sign :: "str \<Rightarrow> bool \<times> str" where
  "split_sign s = (case s of [] \<Rightarrow> (False, [])
     | c # cs \<Rightarrow> if c = CHR ''-'' then (True, cs) else if c = CHR ''+'' then (False, cs) else (False, s))"

definition py_int :: "str \<Rightarrow> int option" where
  "py_int s =
     (let (neg, digs) = split_sign (strip s); groups = split_on ''_'' digs
      in if list_all (\<lambda>g. nat_of_digits g \<noteq> None) groups
         then map_option (\<lambda>n. if neg then - int n else int n) (nat_of_digits (concat groups)) else None)"

definition truncate_real :: "real \<Rightarrow> int" where
  "truncate_real x = (if 0 \<le> x then \<lfloor>x\<rfloor> else \<lceil>x\<rceil>)"

definition fits_int64 :: "int \<Rightarrow> bool" where
  "fits_int64 n \<longleftrightarrow> - (2 ^ 63) \<le> n \<and> n < 2 ^ 63"

text \<open>One element of \<open>astype(np.int64)\<close>; \<open>None\<close> stands for the exception.\<close>

definition to_int64 :: "group_label \<Rightarrow> int option" where
  "to_int64 l =
     (case (case l of Lab_int n \<Rightarrow> Some n | Lab_float x \<Rightarrow> Some (truncate_real x) | Lab_str s \<Rightarrow> py_int s) of
        None \<Rightarrow> None
      | Some n \<Rightarrow> if fits_int64 n then Some n else None)"

section \<open>Ranks\<close>

text \<open>Strings compare by code points.\<close>

fun str_less :: "str \<Rightarrow> str \<Rightarrow> bool" where
  "str_less [] [] = False"
| "str_less [] (d # ds) = True"
| "str_less (c # cs) [] = False"
| "str_less (c # cs) (d # ds) = ((of_char c :: nat) < of_char d \<or> c = d \<and> str_less cs ds)"

text \<open>\<open>np.unique(xs, return_inverse=True)[1]\<close>: how many different elements are smaller.\<close>

definition unique_inverse :: "('a \<Rightarrow> 'a \<Rightarrow> bool) \<Rightarrow> 'a list \<Rightarrow> int list" where
  "unique_inverse lt xs = map (\<lambda>x. int (length (remdups (filter (\<lambda>y. lt y x) xs)))) xs"

definition label_number :: "group_label \<Rightarrow> real option" where
  "label_number l = (case l of Lab_int n \<Rightarrow> Some (real_of_int n) | Lab_float x \<Rightarrow> Some x | Lab_str s \<Rightarrow> None)"

definition label_string :: "group_label \<Rightarrow> str option" where
  "label_string l = (case l of Lab_str s \<Rightarrow> Some s | _ \<Rightarrow> None)"

text \<open>Numbers and strings do not compare: \<open>TypeError\<close>.\<close>

definition object_ranks :: "group_label list \<Rightarrow> int list result" where
  "object_ranks ls =
     (case those (map label_number ls) of
        Some xs \<Rightarrow> Inr (unique_inverse (<) xs)
      | None \<Rightarrow> (case those (map label_string ls) of
                   Some ss \<Rightarrow> Inr (unique_inverse str_less ss)
                 | None \<Rightarrow> Inl TypeError))"

fun np_unique_inverse :: "group_labels \<Rightarrow> int list result" where
  "np_unique_inverse (Torch_int ns) = Inr (unique_inverse (<) ns)"
| "np_unique_inverse (Torch_float xs) = Inr (unique_inverse (<) xs)"
| "np_unique_inverse (Np_int ns) = Inr (unique_inverse (<) ns)"
| "np_unique_inverse (Np_bool bs) = Inr (unique_inverse (<) bs)"
| "np_unique_inverse (Np_float xs) = Inr (unique_inverse (<) xs)"
| "np_unique_inverse (Np_str ss) = Inr (unique_inverse str_less ss)"
| "np_unique_inverse (Np_object ls) = object_ranks ls"

section \<open>The index\<close>

definition label_repr :: "(real \<Rightarrow> str) \<Rightarrow> group_label \<Rightarrow> str" where
  "label_repr float_repr l = (case l of Lab_int n \<Rightarrow> str_of_int n | Lab_float x \<Rightarrow> float_repr x | Lab_str s \<Rightarrow> s)"

definition factorize :: "(real \<Rightarrow> str) \<Rightarrow> group_label list \<Rightarrow> int list" where
  "factorize float_repr ls =
     (case object_ranks ls of
        Inr ranks \<Rightarrow> ranks
      | Inl e \<Rightarrow> unique_inverse str_less (map (label_repr float_repr) ls))"

definition coerce_or_factorize :: "(real \<Rightarrow> str) \<Rightarrow> group_label list \<Rightarrow> int list" where
  "coerce_or_factorize float_repr ls = (case those (map to_int64 ls) of Some ns \<Rightarrow> ns | None \<Rightarrow> factorize float_repr ls)"

text \<open>\<open>np.allclose(x, np.rint(x), rtol=0.0, atol=1e-6)\<close>.\<close>

definition near_integers :: "real list \<Rightarrow> bool" where
  "near_integers xs = list_all (\<lambda>x. \<bar>x - real_of_int (round x)\<bar> \<le> 1 / 10 ^ 6) xs"

fun as_torch_index :: "(real \<Rightarrow> str) \<Rightarrow> group_labels \<Rightarrow> int list" where
  "as_torch_index float_repr (Torch_int ns) = ns"
| "as_torch_index float_repr (Torch_float xs) =
     (if near_integers xs then map round xs else factorize float_repr (map (Lab_str \<circ> float_repr) xs))"
| "as_torch_index float_repr (Np_int ns) = ns"
| "as_torch_index float_repr (Np_float xs) = (if near_integers xs then map round xs else map truncate_real xs)"
| "as_torch_index float_repr (Np_bool bs) = map of_bool bs"
| "as_torch_index float_repr (Np_str ss) = coerce_or_factorize float_repr (map Lab_str ss)"
| "as_torch_index float_repr (Np_object ls) = coerce_or_factorize float_repr ls"

section \<open>Which labels stay apart\<close>

text \<open>Numbers that are equal for equal labels and only for them, none negative.\<close>

definition labels_groups :: "int list \<Rightarrow> 'i list \<Rightarrow> bool" where
  "labels_groups g index \<longleftrightarrow> length g = length index \<and> (\<forall>n \<in> set g. 0 \<le> n) \<and>
     (\<forall>a < length index. \<forall>b < length index. g ! a = g ! b \<longleftrightarrow> index ! a = index ! b)"

lemma length_remdups_filter: "length (remdups (filter P xs)) = card {x \<in> set xs. P x}"
  by (simp add: length_remdups_card_conv)

lemma unique_inverse_groups:
  assumes trans: "\<And>x y z. lt x y \<Longrightarrow> lt y z \<Longrightarrow> lt x z" and irrefl: "\<And>x. \<not> lt x x"
    and total: "\<And>x y. x \<noteq> y \<Longrightarrow> lt x y \<or> lt y x"
  shows "labels_groups (unique_inverse lt xs) xs"
proof -
  have smaller: "card {y \<in> set xs. lt y x} < card {y \<in> set xs. lt y z}" if "lt x z" "x \<in> set xs" for x z
  proof (rule psubset_card_mono)
    have "x \<in> {y \<in> set xs. lt y z}" "x \<notin> {y \<in> set xs. lt y x}" using that irrefl by auto
    moreover have "{y \<in> set xs. lt y x} \<subseteq> {y \<in> set xs. lt y z}" using trans that(1) by blast
    ultimately show "{y \<in> set xs. lt y x} \<subset> {y \<in> set xs. lt y z}" by blast
  qed simp
  have "xs ! a = xs ! b" if "card {y \<in> set xs. lt y (xs ! a)} = card {y \<in> set xs. lt y (xs ! b)}" "a < length xs" "b < length xs" for a b
    using smaller[of "xs ! a" "xs ! b"] smaller[of "xs ! b" "xs ! a"] total[of "xs ! a" "xs ! b"] that by auto
  then show ?thesis by (auto simp: labels_groups_def unique_inverse_def length_remdups_filter)
qed

lemma str_less_irrefl: "\<not> str_less s s"
  by (induction s) simp_all

lemma str_less_trans: "str_less s t \<Longrightarrow> str_less t u \<Longrightarrow> str_less s u"
proof (induction s u arbitrary: t rule: str_less.induct)
  case (2 d ds)
  then show ?case by simp
next
  case (4 c cs d ds)
  then show ?case by (cases t) (auto dest: less_trans)
qed (auto elim: str_less.elims)

lemma str_less_total: "s \<noteq> t \<Longrightarrow> str_less s t \<or> str_less t s"
proof (induction s t rule: str_less.induct)
  case (4 c cs d ds)
  have "(of_char c :: nat) = of_char d \<Longrightarrow> c = d" by (metis char_of_char)
  with 4 show ?case by (auto simp: not_less_iff_gr_or_eq)
qed simp_all

lemma string_ranks: "labels_groups (unique_inverse str_less ss) ss"
  by (rule unique_inverse_groups[OF str_less_trans]) (auto simp: str_less_irrefl dest: str_less_total)

lemma those_map_Some: "those (map (Some \<circ> f) xs) = Some (map f xs)"
  by (induction xs) simp_all

lemma those_None: "those (map f xs) = None \<longleftrightarrow> (\<exists>x \<in> set xs. f x = None)"
  by (induction xs) (auto split: option.splits)

lemma object_ranks_strings: "ss \<noteq> [] \<Longrightarrow> object_ranks (map Lab_str ss) = Inr (unique_inverse str_less ss)"
  using those_None[of label_number "map Lab_str ss"] those_map_Some[of "\<lambda>s. s" ss]
  by (cases ss) (simp_all add: object_ranks_def label_number_def label_string_def comp_def)

text \<open>Strings, one of which is not the decimal notation of a 64-bit integer, are kept apart.\<close>

lemma as_torch_index_strings:
  assumes "s \<in> set ss" and "\<forall>n. py_int s = Some n \<longrightarrow> \<not> fits_int64 n"
  shows "labels_groups (as_torch_index float_repr (Np_object (map Lab_str ss))) ss"
    and "as_torch_index float_repr (Np_str ss) = as_torch_index float_repr (Np_object (map Lab_str ss))"
proof -
  have "to_int64 (Lab_str s) = None" using assms(2) by (auto simp: to_int64_def split: option.splits)
  then have "those (map to_int64 (map Lab_str ss)) = None" using assms(1) unfolding those_None by force
  moreover have "ss \<noteq> []" using assms(1) by auto
  ultimately show "labels_groups (as_torch_index float_repr (Np_object (map Lab_str ss))) ss"
    using string_ranks by (simp add: coerce_or_factorize_def factorize_def object_ranks_strings)
qed simp

text \<open>What the dictionary of the looping estimator compares: the elements of the array, a number being equal to any equal number.\<close>

definition label_key :: "group_label \<Rightarrow> real + str" where
  "label_key l = (case l of Lab_int n \<Rightarrow> Inl (real_of_int n) | Lab_float x \<Rightarrow> Inl x | Lab_str s \<Rightarrow> Inr s)"

fun group_keys :: "group_labels \<Rightarrow> (real + str) list" where
  "group_keys (Np_int ns) = map (\<lambda>n. Inl (real_of_int n)) ns"
| "group_keys (Np_bool bs) = map (\<lambda>b. Inl (of_bool b)) bs"
| "group_keys (Np_float xs) = map Inl xs"
| "group_keys (Np_str ss) = map Inr ss"
| "group_keys (Np_object ls) = map label_key ls"

text \<open>
  Arrays whose labels stay apart: truth values, integers that are not negative, floats with such values, and strings of which at least
  one is not the decimal notation of a 64-bit integer, as is every UUID.
\<close>

definition some_text :: "str list \<Rightarrow> bool" where
  "some_text ss \<longleftrightarrow> (\<exists>s \<in> set ss. \<forall>n. py_int s = Some n \<longrightarrow> \<not> fits_int64 n)"

fun kept_apart :: "group_labels \<Rightarrow> bool" where
  "kept_apart (Np_int ns) \<longleftrightarrow> (\<forall>n \<in> set ns. 0 \<le> n)"
| "kept_apart (Np_bool bs) \<longleftrightarrow> True"
| "kept_apart (Np_float xs) \<longleftrightarrow> (\<forall>x \<in> set xs. 0 \<le> x \<and> real_of_int (round x) = x)"
| "kept_apart (Np_str ss) \<longleftrightarrow> some_text ss"
| "kept_apart (Np_object ls) \<longleftrightarrow> (\<exists>ss. ls = map Lab_str ss \<and> some_text ss) \<or> (\<exists>ns. ls = map Lab_int ns \<and> (\<forall>n \<in> set ns. 0 \<le> n \<and> fits_int64 n))"
| "kept_apart _ \<longleftrightarrow> False"

lemma labels_groups_map: "labels_groups g xs \<Longrightarrow> inj_on f (set xs) \<Longrightarrow> labels_groups g (map f xs)"
  by (auto simp: labels_groups_def inj_on_eq_iff)

lemma integer_labels: "\<forall>n \<in> set ns. 0 \<le> n \<Longrightarrow> labels_groups ns (map (\<lambda>n. Inl (real_of_int n)) ns)"
  by (simp add: labels_groups_def)

lemma as_torch_index_groups:
  assumes "kept_apart labels"
  shows "labels_groups (as_torch_index float_repr labels) (group_keys labels)"
proof -
  have strings: "labels_groups (as_torch_index float_repr (Np_str ss)) (map Inr ss :: (real + str) list)" if "some_text ss" for ss
    using that as_torch_index_strings labels_groups_map[of _ ss Inr] unfolding some_text_def by (metis inj_Inr inj_on_subset subset_UNIV)
  show ?thesis
  proof (cases labels)
    case (Np_float xs)
    then have "\<forall>x \<in> set xs. 0 \<le> x \<and> real_of_int (round x) = x" using assms by simp
    then have int: "real_of_int (round x) = x" and pos: "0 \<le> x" if "x \<in> set xs" for x using that by blast+
    have near: "near_integers xs" using int by (simp add: near_integers_def list_all_iff)
    have nonneg: "\<forall>x \<in> set xs. 0 \<le> round x" using int pos by (metis of_int_0_le_iff)
    have inj: "inj_on round (set xs)" using int by (intro inj_on_inverseI[of _ real_of_int]) simp
    show ?thesis using Np_float near nonneg inj by (auto simp: labels_groups_def inj_on_eq_iff)
  next
    case (Np_object ls)
    then consider ss where "ls = map Lab_str ss" "some_text ss" | ns where "ls = map Lab_int ns" "\<forall>n \<in> set ns. 0 \<le> n \<and> fits_int64 n"
      using assms by auto
    then show ?thesis
    proof cases
      case 1
      then show ?thesis using strings[of ss] Np_object by (simp add: label_key_def comp_def)
    next
      case 2
      then have same: "map (\<lambda>n. to_int64 (Lab_int n)) ns = map (Some \<circ> (\<lambda>n. n)) ns" by (simp add: to_int64_def)
      have "those (map (\<lambda>n. to_int64 (Lab_int n)) ns) = Some ns" unfolding same those_map_Some by simp
      then show ?thesis using 2 Np_object integer_labels[of ns] by (simp add: label_key_def comp_def coerce_or_factorize_def)
    qed
  qed (use assms strings integer_labels in \<open>auto simp: labels_groups_def\<close>)
qed

end
