(* ===== verification/CoreAlgos.thy ===== *)
theory CoreAlgos
  imports Groupwise
begin

text \<open>
  \<open>verl/trainer/ppo/core_algos.py\<close> with the reductions it takes from
  \<open>verl/utils/torch_functional.py\<close> and \<open>verl/utils/groupwise.py\<close>: advantage estimators, loss
  aggregation, the clipped policy and value losses and the KL penalties.  A batch is the list
  of its rows; numbers are reals, so rounding, infinities and NaN are left out, and a quotient
  whose divisor can be zero is only used in theorems where it is not.
\<close>

type_synonym matrix = "real list list"

section \<open>Reductions\<close>

definition mzip :: "(real \<Rightarrow> real \<Rightarrow> real) \<Rightarrow> matrix \<Rightarrow> matrix \<Rightarrow> matrix" where
  "mzip f a b = map2 (map2 f) a b"

definition msum :: "matrix \<Rightarrow> real" where
  "msum m = sum_list (map sum_list m)"

definition row_sums :: "matrix \<Rightarrow> real list" where
  "row_sums m = map sum_list m"

text \<open>\<open>scores.unsqueeze(-1) * response_mask\<close>\<close>

definition spread :: "real list \<Rightarrow> matrix \<Rightarrow> matrix" where
  "spread scores msk = map2 (\<lambda>s row. map (\<lambda>m. s * m) row) scores msk"

definition masked_sum1 :: "real list \<Rightarrow> real list \<Rightarrow> real" where
  "masked_sum1 vals msk = sum_list (map2 (\<lambda>v m. (if m \<noteq> 0 then v else 0) * m) vals msk)"

definition masked_sum :: "matrix \<Rightarrow> matrix \<Rightarrow> real" where
  "masked_sum vals msk = sum_list (map2 masked_sum1 vals msk)"

definition masked_mean :: "matrix \<Rightarrow> matrix \<Rightarrow> real" where
  "masked_mean vals msk = masked_sum vals msk / (msum msk + 1 / 10 ^ 8)"

definition masked_var :: "matrix \<Rightarrow> matrix \<Rightarrow> real result" where
  "masked_var vals msk =
     (let mean = masked_mean vals msk;
          centered_values = map (map (\<lambda>v. v - mean)) vals;
          variance = masked_mean (map (map (\<lambda>v. v ^ 2)) centered_values) msk;
          mask_sum = msum msk
      in if mask_sum = 0 then Inl ValueError
         else if mask_sum = 1 then Inl ValueError
         else Inr (variance * (mask_sum / (mask_sum - 1))))"

definition masked_whiten :: "matrix \<Rightarrow> matrix \<Rightarrow> matrix result" where
  "masked_whiten vals msk =
     (let mean = masked_mean vals msk
      in bind_res (masked_var vals msk) (\<lambda>var.
         Inr (map (map (\<lambda>v. (v - mean) * (1 / sqrt (var + 1 / 10 ^ 8)))) vals)))"

definition clamp :: "real \<Rightarrow> real \<Rightarrow> real \<Rightarrow> real" where
  "clamp lo hi x = min (max x lo) hi"

definition clip_by_value :: "real \<Rightarrow> real \<Rightarrow> real \<Rightarrow> real" where
  "clip_by_value x tensor_min tensor_max = max (min x tensor_max) tensor_min"

section \<open>Registries and KL controllers\<close>

definition register_policy_loss :: "str \<Rightarrow> 'fn \<Rightarrow> (str, 'fn) dict \<Rightarrow> (str, 'fn) dict" where
  "register_policy_loss name func reg = AList.update name func reg"

definition get_policy_loss_fn :: "str \<Rightarrow> (str, 'fn) dict \<Rightarrow> 'fn result" where
  "get_policy_loss_fn name reg =
     (case map_of reg name of None \<Rightarrow> Inl ValueError | Some f \<Rightarrow> Inr f)"

definition register_adv_est :: "str \<Rightarrow> 'fn \<Rightarrow> (str, 'fn) dict \<Rightarrow> (str, 'fn) dict result" where
  "register_adv_est name fn reg =
     (case map_of reg name of
        Some g \<Rightarrow> if g \<noteq> fn then Inl ValueError else Inr (AList.update name fn reg)
      | None \<Rightarrow> Inr (AList.update name fn reg))"

definition get_adv_estimator_fn :: "str \<Rightarrow> (str, 'fn) dict \<Rightarrow> 'fn result" where
  "get_adv_estimator_fn name reg =
     (case map_of reg name of None \<Rightarrow> Inl ValueError | Some f \<Rightarrow> Inr f)"

datatype kl_controller =
    FixedKL real
  | AdaptiveKL real real real

text \<open>The value of a controller, and its update (value, target and horizon).\<close>

fun kl_value :: "kl_controller \<Rightarrow> real" where
  "kl_value (FixedKL v) = v"
| "kl_value (AdaptiveKL v target horizon) = v"

fun kl_update :: "real \<Rightarrow> real \<Rightarrow> kl_controller \<Rightarrow> kl_controller" where
  "kl_update current_kl n_steps (FixedKL v) = FixedKL v"
| "kl_update current_kl n_steps (AdaptiveKL v target horizon) =
     (let proportional_error = clamp (- (1 / 5)) (1 / 5) (current_kl / target - 1);
          mult = 1 + proportional_error * n_steps / horizon
      in AdaptiveKL (v * mult) target horizon)"

definition get_kl_controller :: "str \<Rightarrow> real \<Rightarrow> real \<Rightarrow> real \<Rightarrow> kl_controller result" where
  "get_kl_controller kind kl_coef target_kl horizon =
     (if kind = ''fixed'' then Inr (FixedKL kl_coef)
      else if kind = ''adaptive'' then asserting (horizon > 0) (Inr (AdaptiveKL kl_coef target_kl horizon))
      else Inl NotImplementedError)"

section \<open>Generalised advantage estimation\<close>

text \<open>
  The loop over the columns from the last to the first, for one row: the carried values are
  \<open>nextvalues\<close> and \<open>lastgaelam\<close>.  Stacking no columns at all raises.
\<close>

fun gae_row :: "real \<Rightarrow> real \<Rightarrow> (real \<times> real \<times> real) list \<Rightarrow> real \<times> real \<times> real list" where
  "gae_row gamma lam [] = (0, 0, [])"
| "gae_row gamma lam ((r, v, m) # rest) =
     (let (nextvalues, lastgaelam, advantages) = gae_row gamma lam rest;
          delta = r + gamma * nextvalues - v;
          lastgaelam_new = delta + gamma * lam * lastgaelam;
          nextvalues' = v * m + (1 - m) * nextvalues;
          lastgaelam' = lastgaelam_new * m + (1 - m) * lastgaelam
      in (nextvalues', lastgaelam', lastgaelam' # advantages))"

definition gae_advantages :: "real \<Rightarrow> real \<Rightarrow> (real \<times> real \<times> real) list \<Rightarrow> real list" where
  "gae_advantages gamma lam row = snd (snd (gae_row gamma lam row))"

definition compute_gae_advantage_return ::
  "matrix \<Rightarrow> matrix \<Rightarrow> matrix \<Rightarrow> real \<Rightarrow> real \<Rightarrow> (matrix \<times> matrix) result" where
  "compute_gae_advantage_return token_level_rewards vals response_mask gamma lam =
     (let advantages = map2 (\<lambda>rs (vs, ms). gae_advantages gamma lam (zip rs (zip vs ms)))
                         token_level_rewards (zip vals response_mask);
          returns = mzip (+) advantages vals
      in if list_ex (\<lambda>row. row = []) token_level_rewards then Inl RuntimeError
         else bind_res (masked_whiten advantages response_mask) (\<lambda>whitened. Inr (whitened, returns)))"

section \<open>Group-relative estimators\<close>

text \<open>\<open>id2score[index[i]].append(scores[i])\<close> over the batch.\<close>

definition group_scores :: "'i list \<Rightarrow> real list \<Rightarrow> ('i, real list) dict" where
  "group_scores index scores =
     foldl (\<lambda>d (i, s). AList.update i ((case map_of d i of None \<Rightarrow> [] | Some xs \<Rightarrow> xs) @ [s]) d)
       [] (zip index scores)"

definition mean_of :: "real list \<Rightarrow> real" where
  "mean_of xs = sum_list xs / length xs"

definition std_of :: "real list \<Rightarrow> real" where
  "std_of xs = sqrt (sum_list (map (\<lambda>x. (x - mean_of xs) ^ 2) xs) / (real (length xs) - 1))"

text \<open>Mean and deviation of a group; a single response has mean 0 and deviation 1.\<close>

definition group_stats :: "real list \<Rightarrow> (real \<times> real) result" where
  "group_stats xs =
     (if length xs = 1 then Inr (0, 1)
      else if length xs > 1 then Inr (mean_of xs, std_of xs)
      else Inl ValueError)"

definition all_group_stats :: "('i, real list) dict \<Rightarrow> ('i, real \<times> real) dict result" where
  "all_group_stats id2score =
     map_res (\<lambda>(idx, xs). bind_res (group_stats xs) (\<lambda>st. Inr (idx, st))) id2score"

definition compute_grpo_outcome_advantage ::
  "matrix \<Rightarrow> matrix \<Rightarrow> 'i list \<Rightarrow> real \<Rightarrow> bool \<Rightarrow> matrix result" where
  "compute_grpo_outcome_advantage token_level_rewards response_mask index epsilon norm_adv_by_std_in_grpo =
     (let scores = row_sums token_level_rewards
      in if length index < length scores then Inl IndexError
         else
           bind_res (all_group_stats (group_scores index scores)) (\<lambda>stats.
           bind_res (map_res (\<lambda>(s, i). bind_res (dict_index stats i) (\<lambda>(mean, std).
               Inr (if norm_adv_by_std_in_grpo then (s - mean) / (std + epsilon) else s - mean)))
             (zip scores index)) (\<lambda>scalars.
           Inr (spread scalars response_mask))))"

text \<open>
  \<open>group_mean_std\<close>: per-group sumsv by \<open>index_add_\<close>, the second pass over the centred scores, and
  the fallback for groups of one.
\<close>

definition index_add :: "nat \<Rightarrow> nat list \<Rightarrow> real list \<Rightarrow> real list" where
  "index_add G gidx xs = foldl (\<lambda>acc (g, x). acc[g := acc ! g + x]) (replicate G 0) (zip gidx xs)"

definition group_moments :: "nat \<Rightarrow> real list \<Rightarrow> nat list \<Rightarrow> real \<Rightarrow> real list \<times> real list \<times> real list" where
  "group_moments G scores gidx eps =
     (let count = index_add G gidx (map (\<lambda>_. 1) scores);
          s1 = index_add G gidx scores;
          mean = map2 (\<lambda>s c. s / max c 1) s1 count;
          centered = map2 (\<lambda>s g. s - mean ! g) scores gidx;
          var_num = index_add G gidx (map (\<lambda>x. x * x) centered);
          denom = map (\<lambda>c. max (c - 1) 1) count;
          std = map2 (\<lambda>v d. sqrt (max (v / d) eps)) var_num denom;
          single = map (\<lambda>c. c \<le> 1) count
      in (map2 (\<lambda>b m. if b then 0 else m) single mean,
          map2 (\<lambda>b s. if b then 1 else s) single std, count))"

text \<open>A tensor of negative size and an index out of range raise.\<close>

definition group_mean_std ::
  "real list \<Rightarrow> int list \<Rightarrow> real \<Rightarrow> (real list \<times> real list \<times> real list) result" where
  "group_mean_std scores gidx eps =
     (if length scores \<noteq> length gidx then Inl ValueError
      else (let G = (if gidx = [] then 0 else Max (set gidx) + 1)
            in if G = 0 then Inr ([], [], [])
               else if G < 0 then Inl RuntimeError
               else if \<exists>g \<in> set gidx. g < 0 then Inl IndexError
               else Inr (group_moments (nat G) scores (map nat gidx) eps)))"

definition compute_grpo_vectorized_outcome_advantage ::
  "(real \<Rightarrow> str) \<Rightarrow> matrix \<Rightarrow> matrix \<Rightarrow> group_labels \<Rightarrow> real \<Rightarrow> bool \<Rightarrow> matrix result" where
  "compute_grpo_vectorized_outcome_advantage float_repr token_level_rewards response_mask index epsilon norm_adv_by_std_in_grpo =
     (let scores = row_sums token_level_rewards;
          g = as_torch_index float_repr index
      in bind_res (group_mean_std scores g 0) (\<lambda>(mean_g, std_g, _).
         bind_res (map_res (\<lambda>(s, i).
             bind_res (py_index mean_g i) (\<lambda>m. bind_res (py_index std_g i) (\<lambda>d.
             Inr (if norm_adv_by_std_in_grpo then (s - m) / (d + epsilon) else s - m)))) (zip scores g)) (\<lambda>scalars.
         Inr (spread scalars response_mask))))"

text \<open>GDPO: every reward component is placed on the last valid token and normalised by itself.\<close>

definition place_scores :: "matrix \<Rightarrow> real list \<Rightarrow> int list \<Rightarrow> matrix result" where
  "place_scores response_mask scores positions =
     map_res (\<lambda>(row, s, p).
        let j = (if p < 0 then p + int (length row) else p)
        in if 0 \<le> j \<and> j < int (length row) then Inr ((map (\<lambda>_. 0) row)[nat j := s]) else Inl IndexError)
       (zip response_mask (zip scores positions))"

record gdpo_inputs =
  gdpo_reward_keys :: "str list"
  gdpo_reward_weights :: "real list option"
  gdpo_components :: "(str, real list) dict"
  gdpo_response_attention :: matrix

definition gdpo_score_list :: "matrix \<Rightarrow> gdpo_inputs \<Rightarrow> matrix list result" where
  "gdpo_score_list response_mask inp =
     asserting (gdpo_reward_keys inp \<noteq> [])
       (map_res (\<lambda>key.
          case map_of (gdpo_components inp) key of
            None \<Rightarrow> Inl AssertionError
          | Some rm_score \<Rightarrow>
              place_scores response_mask rm_score
                (map (\<lambda>row. \<lfloor>sum_list row\<rfloor> - 1) (gdpo_response_attention inp)))
          (gdpo_reward_keys inp))"

definition compute_gdpo_outcome_advantage ::
  "matrix \<Rightarrow> matrix \<Rightarrow> 'i list \<Rightarrow> real \<Rightarrow> bool \<Rightarrow> gdpo_inputs option \<Rightarrow> matrix result" where
  "compute_gdpo_outcome_advantage token_level_rewards response_mask index epsilon norm_adv_by_std_in_grpo inputs =
     bind_res (case inputs of
                 None \<Rightarrow> Inr ([token_level_rewards], None)
               | Some inp \<Rightarrow> bind_res (gdpo_score_list response_mask inp) (\<lambda>l. Inr (l, gdpo_reward_weights inp)))
      (\<lambda>(score_list, reward_weights).
     let weights = (case reward_weights of Some w \<Rightarrow> w | None \<Rightarrow> replicate (length score_list) 1)
     in bind_res (fold_res (\<lambda>acc (i, score).
            bind_res (compute_grpo_outcome_advantage score response_mask index epsilon norm_adv_by_std_in_grpo)
              (\<lambda>normalized. bind_res (py_index weights (int i)) (\<lambda>w.
               let weighted = map (map (\<lambda>x. w * x)) normalized
               in Inr (Some (case acc of None \<Rightarrow> weighted | Some a \<Rightarrow> mzip (+) a weighted)))))
           None (zip [0..<length score_list] score_list)) (\<lambda>total.
        case total of
          None \<Rightarrow> Inl TypeError
        | Some new_advantage \<Rightarrow>
            bind_res (masked_whiten new_advantage response_mask) (\<lambda>w. Inr (mzip (*) w response_mask))))"

definition group_means :: "('i, real list) dict \<Rightarrow> ('i, real) dict result" where
  "group_means id2score =
     map_res (\<lambda>(idx, xs).
        if length xs = 1 then Inr (idx, 0)
        else if length xs > 1 then Inr (idx, mean_of xs)
        else Inl ValueError) id2score"

definition compute_reinforce_plus_plus_baseline_outcome_advantage ::
  "matrix \<Rightarrow> matrix \<Rightarrow> 'i list \<Rightarrow> matrix result" where
  "compute_reinforce_plus_plus_baseline_outcome_advantage token_level_rewards response_mask index =
     (let scores = row_sums token_level_rewards
      in if length index < length scores then Inl IndexError
         else
           bind_res (group_means (group_scores index scores)) (\<lambda>id2mean.
           bind_res (map_res (\<lambda>(s, i). bind_res (dict_index id2mean i) (\<lambda>m. Inr (s - m))) (zip scores index)) (\<lambda>centered.
           let tiled = spread centered response_mask
           in bind_res (masked_whiten tiled response_mask) (\<lambda>w. Inr (mzip (*) w response_mask)))))"

definition compute_rloo_outcome_advantage :: "matrix \<Rightarrow> matrix \<Rightarrow> 'i list \<Rightarrow> matrix result" where
  "compute_rloo_outcome_advantage token_level_rewards response_mask index =
     (let scores = row_sums token_level_rewards;
          id2score = group_scores index scores
      in if length index < length scores then Inl IndexError
         else
           bind_res (group_means id2score) (\<lambda>id2mean.
           bind_res (map_res (\<lambda>(s, i).
               bind_res (dict_index id2score i) (\<lambda>xs. bind_res (dict_index id2mean i) (\<lambda>m.
               let response_num = real (length xs)
               in Inr (if response_num > 1
                       then s * response_num / (response_num - 1) - m * response_num / (response_num - 1)
                       else s)))) (zip scores index)) (\<lambda>scalars.
           Inr (spread scalars response_mask))))"

text \<open>\<open>torch.bincount\<close> with and without weights is the same sum per label.\<close>

definition compute_rloo_vectorized_outcome_advantage :: "matrix \<Rightarrow> matrix \<Rightarrow> group_labels \<Rightarrow> matrix result" where
  "compute_rloo_vectorized_outcome_advantage token_level_rewards response_mask index =
     (let scores = row_sums token_level_rewards
      in bind_res (np_unique_inverse index) (\<lambda>ranks.
         if length ranks \<noteq> length scores then Inl RuntimeError
         else
           (let g = map nat ranks;
                G = (if g = [] then 0 else Max (set g) + 1);
                counts = index_add G g (map (\<lambda>_. 1) scores);
                sumsv = index_add G g scores;
                adv = map2 (\<lambda>s i. ((counts ! i * s - sumsv ! i) / max (counts ! i - 1) 1) *
                                   (if counts ! i > 1 then 1 else 0)) scores g
            in Inr (spread adv response_mask))))"

text \<open>OPO: the baseline of a group is the length-weighted mean of its scores.\<close>

definition opo_baselines ::
  "('i, real list) dict \<Rightarrow> ('i, real list) dict \<Rightarrow> ('i, real) dict result" where
  "opo_baselines id2score id2len =
     map_res (\<lambda>(idx, xs).
        if length xs = 1 then Inr (idx, 0)
        else if length xs > 1 then
          bind_res (dict_index id2len idx) (\<lambda>ls. Inr (idx, sum_list (map2 (*) ls xs) / sum_list ls))
        else Inl ValueError) id2score"

definition compute_opo_outcome_advantage :: "matrix \<Rightarrow> matrix \<Rightarrow> 'i list \<Rightarrow> matrix result" where
  "compute_opo_outcome_advantage token_level_rewards response_mask index =
     (let response_length = row_sums response_mask;
          scores = row_sums token_level_rewards
      in if length index < length scores then Inl IndexError
         else
           bind_res (opo_baselines (group_scores index scores) (group_scores index response_length)) (\<lambda>id2bsl.
           bind_res (map_res (\<lambda>(s, i). bind_res (dict_index id2bsl i) (\<lambda>b. Inr (s - b))) (zip scores index)) (\<lambda>scalars.
           Inr (spread scalars response_mask))))"

definition compute_gpg_outcome_advantage :: "matrix \<Rightarrow> matrix \<Rightarrow> 'i list \<Rightarrow> real \<Rightarrow> matrix result" where
  "compute_gpg_outcome_advantage token_level_rewards response_mask index f_norm =
     (let scores = row_sums token_level_rewards;
          m = real (length (filter (\<lambda>s. s \<noteq> 0) scores));
          alpha = real (length scores) / max m 1
      in if length index < length scores then Inl IndexError
         else
           bind_res (all_group_stats (group_scores index scores)) (\<lambda>stats.
           bind_res (map_res (\<lambda>(s, i). bind_res (dict_index stats i) (\<lambda>(mean, std).
               Inr (alpha * (s - mean) / f_norm))) (zip scores index)) (\<lambda>scalars.
           Inr (spread scalars response_mask))))"

section \<open>Returns\<close>

text \<open>REINFORCE++: the discounted return, reset where the mask is zero.\<close>

fun discounted_row :: "real \<Rightarrow> (real \<times> real) list \<Rightarrow> real \<times> real list" where
  "discounted_row gamma [] = (0, [])"
| "discounted_row gamma ((r, m) # rest) =
     (let (running_return, returns) = discounted_row gamma rest;
          new_return = r + gamma * running_return
      in (new_return * m, new_return # returns))"

definition compute_reinforce_plus_plus_outcome_advantage ::
  "matrix \<Rightarrow> matrix \<Rightarrow> real \<Rightarrow> (matrix \<times> matrix) result" where
  "compute_reinforce_plus_plus_outcome_advantage token_level_rewards response_mask gamma =
     (let returns = map2 (\<lambda>rs ms. snd (discounted_row gamma (zip rs ms))) token_level_rewards response_mask
      in bind_res (masked_whiten returns response_mask) (\<lambda>w. Inr (mzip (*) w response_mask, returns)))"

fun suffix_sums :: "real list \<Rightarrow> real list" where
  "suffix_sums [] = []"
| "suffix_sums (x # xs) = (x + sum_list xs) # suffix_sums xs"

definition compute_remax_outcome_advantage ::
  "matrix \<Rightarrow> real list \<Rightarrow> matrix \<Rightarrow> matrix \<times> matrix" where
  "compute_remax_outcome_advantage token_level_rewards reward_baselines response_mask =
     (let returns = map suffix_sums (mzip (*) token_level_rewards response_mask)
      in (mzip (-) returns (spread reward_baselines response_mask), returns))"

definition compute_rewards :: "matrix \<Rightarrow> matrix \<Rightarrow> matrix \<Rightarrow> real \<Rightarrow> matrix" where
  "compute_rewards token_level_scores old_log_prob ref_log_prob kl_ratio =
     (let kl = mzip (-) old_log_prob ref_log_prob
      in mzip (\<lambda>s k. s - k * kl_ratio) token_level_scores kl)"

section \<open>Loss aggregation\<close>

definition nonempty_rows :: "matrix \<Rightarrow> real list" where
  "nonempty_rows loss_mask = map (\<lambda>c. if c > 0 then 1 else 0) (row_sums loss_mask)"

definition default_count :: "nat \<Rightarrow> real option \<Rightarrow> real \<Rightarrow> real result" where
  "default_count dp_size given otherwise =
     (case given of
        Some n \<Rightarrow> Inr n
      | None \<Rightarrow> if dp_size > 1 then Inl ValueError else Inr otherwise)"

definition agg_loss ::
  "matrix \<Rightarrow> matrix \<Rightarrow> str \<Rightarrow> nat \<Rightarrow> real option \<Rightarrow> real option \<Rightarrow> real option \<Rightarrow> real result" where
  "agg_loss loss_mat loss_mask loss_agg_mode dp_size batch_num_tokens global_batch_size loss_scale_factor =
     (if loss_agg_mode = ''token-mean'' then
        bind_res (default_count dp_size batch_num_tokens (msum loss_mask)) (\<lambda>n.
        Inr (masked_sum loss_mat loss_mask / n * real dp_size))
      else if loss_agg_mode \<in> {''seq-mean-token-sum'', ''seq-mean-token-sum-norm''} then
        (let seq_losses = row_sums (mzip (*) loss_mat loss_mask);
             seq_mask = nonempty_rows loss_mask
         in bind_res (default_count dp_size global_batch_size (sum_list seq_mask)) (\<lambda>n.
            let loss = masked_sum1 seq_losses seq_mask / n * real dp_size
            in Inr (if loss_agg_mode = ''seq-mean-token-sum-norm''
                    then loss / (case loss_scale_factor of
                                   Some f \<Rightarrow> f
                                 | None \<Rightarrow> (case loss_mask of [] \<Rightarrow> 0 | row # _ \<Rightarrow> real (length row)))
                    else loss)))
      else if loss_agg_mode = ''seq-mean-token-mean'' then
        (let seq_losses = map2 (\<lambda>s c. s / (c + 1 / 10 ^ 8)) (row_sums (mzip (*) loss_mat loss_mask)) (row_sums loss_mask);
             seq_mask = nonempty_rows loss_mask
         in bind_res (default_count dp_size global_batch_size (sum_list seq_mask)) (\<lambda>n.
            Inr (masked_sum1 seq_losses seq_mask / n * real dp_size)))
      else Inl ValueError)"

section \<open>Policy, value and KL losses\<close>

text \<open>The clipped loss of one token, and the two clip indicators.\<close>

definition ratio_of :: "real \<Rightarrow> real \<Rightarrow> real" where
  "ratio_of old_log_prob log_prob = exp (clamp (- 20) 20 (log_prob - old_log_prob))"

definition pg_losses1 :: "real \<Rightarrow> real \<Rightarrow> real \<Rightarrow> real" where
  "pg_losses1 old_log_prob log_prob adv = - adv * ratio_of old_log_prob log_prob"

definition pg_losses2 :: "real \<Rightarrow> real \<Rightarrow> real \<Rightarrow> real \<Rightarrow> real \<Rightarrow> real" where
  "pg_losses2 low high old_log_prob log_prob adv =
     - adv * clamp (1 - low) (1 + high) (ratio_of old_log_prob log_prob)"

definition pg_loss_token :: "real \<Rightarrow> real \<Rightarrow> real \<Rightarrow> real \<Rightarrow> real \<Rightarrow> real \<Rightarrow> real" where
  "pg_loss_token low high clip_ratio_c old_log_prob log_prob adv =
     (let clip_pg_losses1 = max (pg_losses1 old_log_prob log_prob adv) (pg_losses2 low high old_log_prob log_prob adv);
          pg_losses3 = - adv * clip_ratio_c;
          clip_pg_losses2 = min pg_losses3 clip_pg_losses1
      in if adv < 0 then clip_pg_losses2 else clip_pg_losses1)"

definition mzip3 :: "(real \<Rightarrow> real \<Rightarrow> real \<Rightarrow> real) \<Rightarrow> matrix \<Rightarrow> matrix \<Rightarrow> matrix \<Rightarrow> matrix" where
  "mzip3 f a b c = map2 (\<lambda>x (y, z). map2 (\<lambda>u (v, w). f u v w) x (zip y z)) a (zip b c)"

record pg_metrics =
  pg_clipfrac :: real
  ppo_kl :: real
  pg_clipfrac_lower :: real

definition policy_metrics ::
  "real \<Rightarrow> real \<Rightarrow> real \<Rightarrow> matrix \<Rightarrow> matrix \<Rightarrow> matrix \<Rightarrow> matrix \<Rightarrow> pg_metrics" where
  "policy_metrics low high clip_ratio_c old_log_prob log_prob advantages response_mask =
     \<lparr> pg_clipfrac = masked_mean (mzip3 (\<lambda>o1 l a. if pg_losses2 low high o1 l a > pg_losses1 o1 l a then 1 else 0)
                       old_log_prob log_prob advantages) response_mask,
       ppo_kl = masked_mean (mzip (\<lambda>o1 l. - clamp (- 20) 20 (l - o1)) old_log_prob log_prob) response_mask,
       pg_clipfrac_lower =
         masked_mean (mzip3 (\<lambda>o1 l a.
            (if max (pg_losses1 o1 l a) (pg_losses2 low high o1 l a) > - a * clip_ratio_c then 1 else 0) *
            (if a < 0 then 1 else 0)) old_log_prob log_prob advantages) response_mask \<rparr>"

definition compute_policy_loss ::
  "matrix \<Rightarrow> matrix \<Rightarrow> matrix \<Rightarrow> matrix \<Rightarrow> real \<Rightarrow> real option \<Rightarrow> real option \<Rightarrow> real \<Rightarrow> str \<Rightarrow>
   (real \<times> pg_metrics) result" where
  "compute_policy_loss old_log_prob log_prob advantages response_mask cliprange cliprange_low cliprange_high
      clip_ratio_c loss_agg_mode =
     asserting (clip_ratio_c > 1)
       (let low = (case cliprange_low of None \<Rightarrow> cliprange | Some x \<Rightarrow> x);
            high = (case cliprange_high of None \<Rightarrow> cliprange | Some x \<Rightarrow> x);
            pg_losses = mzip3 (pg_loss_token low high clip_ratio_c) old_log_prob log_prob advantages
        in bind_res (agg_loss pg_losses response_mask loss_agg_mode 1 None None None) (\<lambda>pg_loss.
           Inr (pg_loss, policy_metrics low high clip_ratio_c old_log_prob log_prob advantages response_mask)))"

record actor_config =
  cfg_clip_ratio :: real
  cfg_clip_ratio_low :: "real option"
  cfg_clip_ratio_high :: "real option"
  cfg_clip_ratio_c :: real
  cfg_dp_size :: nat
  cfg_batch_num_tokens :: "real option"
  cfg_global_batch_size :: "real option"
  cfg_loss_scale_factor :: "real option"

text \<open>\<open>agg_loss(..., **config.global_batch_info)\<close>\<close>

definition agg_with :: "actor_config \<Rightarrow> str \<Rightarrow> matrix \<Rightarrow> matrix \<Rightarrow> real result" where
  "agg_with c mode loss_mat loss_mask =
     agg_loss loss_mat loss_mask mode (cfg_dp_size c) (cfg_batch_num_tokens c) (cfg_global_batch_size c) (cfg_loss_scale_factor c)"

definition compute_policy_loss_vanilla ::
  "matrix \<Rightarrow> matrix \<Rightarrow> matrix \<Rightarrow> matrix \<Rightarrow> str \<Rightarrow> actor_config \<Rightarrow> matrix option \<Rightarrow>
   (real \<times> pg_metrics) result" where
  "compute_policy_loss_vanilla old_log_prob log_prob advantages response_mask loss_agg_mode config rollout_is_weights =
     asserting (cfg_clip_ratio_c config > 1)
       (let low = (case cfg_clip_ratio_low config of None \<Rightarrow> cfg_clip_ratio config | Some x \<Rightarrow> x);
            high = (case cfg_clip_ratio_high config of None \<Rightarrow> cfg_clip_ratio config | Some x \<Rightarrow> x);
            pg_losses = mzip3 (pg_loss_token low high (cfg_clip_ratio_c config)) old_log_prob log_prob advantages;
            weighted = (case rollout_is_weights of None \<Rightarrow> pg_losses | Some w \<Rightarrow> mzip (*) pg_losses w)
        in bind_res (agg_loss weighted response_mask loss_agg_mode (cfg_dp_size config)
                       (cfg_batch_num_tokens config) (cfg_global_batch_size config) (cfg_loss_scale_factor config)) (\<lambda>pg_loss.
           Inr (pg_loss, policy_metrics low high (cfg_clip_ratio_c config) old_log_prob log_prob advantages response_mask)))"

definition value_loss_token :: "real \<Rightarrow> real \<Rightarrow> real \<Rightarrow> real \<Rightarrow> real" where
  "value_loss_token cliprange_value vpred ret val =
     max ((vpred - ret) ^ 2) ((clip_by_value vpred (val - cliprange_value) (val + cliprange_value) - ret) ^ 2)"

definition compute_value_loss ::
  "matrix \<Rightarrow> matrix \<Rightarrow> matrix \<Rightarrow> matrix \<Rightarrow> real \<Rightarrow> str \<Rightarrow> (real \<times> real) result" where
  "compute_value_loss vpreds returns vals response_mask cliprange_value loss_agg_mode =
     bind_res (agg_loss (mzip3 (value_loss_token cliprange_value) vpreds returns vals) response_mask loss_agg_mode 1 None None None)
       (\<lambda>loss. Inr (1 / 2 * loss,
          masked_mean (mzip3 (\<lambda>p r v.
             if (clip_by_value p (v - cliprange_value) (v + cliprange_value) - r) ^ 2 > (p - r) ^ 2 then 1 else 0)
             vpreds returns vals) response_mask))"

definition kl_penalty_forward :: "real \<Rightarrow> real \<Rightarrow> str \<Rightarrow> real result" where
  "kl_penalty_forward logprob ref_logprob kind =
     (if kind \<in> {''kl'', ''k1''} then Inr (logprob - ref_logprob)
      else if kind = ''abs'' then Inr \<bar>logprob - ref_logprob\<bar>
      else if kind \<in> {''mse'', ''k2''} then Inr (1 / 2 * (logprob - ref_logprob) ^ 2)
      else if kind \<in> {''low_var_kl'', ''k3''} then
        (let kl = clamp (- 20) 20 (ref_logprob - logprob)
         in Inr (clamp (- 10) 10 (exp kl - kl - 1)))
      else Inl NotImplementedError)"

text \<open>
  With the suffix \<open>+\<close> the value is the forward one and the gradient that of \<open>k2\<close>; only the value is
  modelled (\<open>backward - backward.detach() + forward.detach()\<close>).
\<close>

definition kl_penalty :: "real \<Rightarrow> real \<Rightarrow> str \<Rightarrow> real result" where
  "kl_penalty logprob ref_logprob kind =
     (let base_kl_penalty = (if ends_with kind ''+'' then butlast kind else kind)
      in bind_res (kl_penalty_forward logprob ref_logprob base_kl_penalty) (\<lambda>forward_score.
         if \<not> ends_with kind ''+'' \<or> kind \<in> {''mse'', ''k2''} then Inr forward_score
         else let backward_score = 1 / 2 * (logprob - ref_logprob) ^ 2
              in Inr (backward_score - backward_score + forward_score)))"

section \<open>Groups\<close>

text \<open>The scores of the responses whose label is \<open>i\<close>, in batch order.\<close>

definition members :: "'i list \<Rightarrow> 'a list \<Rightarrow> 'i \<Rightarrow> 'a list" where
  "members index xs i = map snd (filter (\<lambda>(j, s). j = i) (zip index xs))"

named_theorems group_simps

lemma members_Nil [simp]: "members [] xs i = []" "members index [] i = []"
  by (simp_all add: members_def)

lemma members_Cons [simp]:
  "members (j # index) (x # xs) i = (if j = i then x # members index xs i else members index xs i)"
  by (simp add: members_def)

lemma members_positions:
  assumes "length xs = length index"
  shows "members index xs i = map (\<lambda>k. xs ! k) (filter (\<lambda>k. index ! k = i) [0..<length index])"
proof -
  have "zip index xs = map (\<lambda>k. (index ! k, xs ! k)) [0..<length index]"
    using assms by (intro nth_equalityI) simp_all
  then show ?thesis by (simp add: members_def filter_map comp_def)
qed

lemma members_empty_iff:
  "length xs = length index \<Longrightarrow> members index xs i = [] \<longleftrightarrow> i \<notin> set index"
  by (induction xs index rule: list_induct2) auto

lemma members_zip_empty_iff: "members index xs i = [] \<longleftrightarrow> i \<notin> fst ` set (zip index xs)"
  by (force simp: members_def filter_empty_conv)

lemma members_map2:
  "length xs = length index \<Longrightarrow> members index (map2 (\<lambda>s j. f s j) xs index) i = map (\<lambda>s. f s i) (members index xs i)"
  by (induction xs index rule: list_induct2) auto

lemma members_map: "members index (map f xs) i = map f (members index xs i)"
  by (induction index arbitrary: xs) (simp, case_tac xs, simp_all)

lemma group_scores_fold:
  "map_of (foldl (\<lambda>d (i, s). AList.update i ((case map_of d i of None \<Rightarrow> [] | Some xs \<Rightarrow> xs) @ [s]) d) d0 ps) i =
   (let xs = map snd (filter (\<lambda>(j, s). j = i) ps)
    in case map_of d0 i of None \<Rightarrow> if xs = [] then None else Some xs | Some ys \<Rightarrow> Some (ys @ xs))"
proof (induction ps arbitrary: d0)
  case Nil
  then show ?case by (simp split: option.splits)
next
  case (Cons p ps)
  obtain j s where p: "p = (j, s)" by (cases p)
  show ?case by (simp add: p Cons Let_def split: option.splits)
qed

lemma group_scores_lookup [group_simps]:
  "map_of (group_scores index scores) i =
     (if members index scores i = [] then None else Some (members index scores i))"
  by (simp add: group_scores_def members_def group_scores_fold Let_def)

lemma group_scores_keys:
  "distinct (map fst (foldl (\<lambda>d (i, s). AList.update i ((case map_of d i of None \<Rightarrow> [] | Some xs \<Rightarrow> xs) @ [s]) d) d0 ps))"
  if "distinct (map fst d0)"
  using that by (induction ps arbitrary: d0) (auto simp: distinct_update)

lemma group_scores_entry:
  assumes "(i, xs) \<in> set (group_scores index scores)"
  shows "xs = members index scores i \<and> xs \<noteq> []"
proof -
  have "distinct (map fst (group_scores index scores))"
    unfolding group_scores_def by (rule group_scores_keys) simp
  with assms have "map_of (group_scores index scores) i = Some xs" by simp
  then show ?thesis by (simp add: group_scores_lookup split: if_splits)
qed

text \<open>Per-group values of a dictionary whose groups are all non-empty.\<close>

lemma map_groups_lookup:
  assumes "\<And>i xs. (i, xs) \<in> set d \<Longrightarrow> F (i, xs) = Inr (i, g xs)"
  shows "map_res F d = Inr (map (\<lambda>(i, xs). (i, g xs)) d)"
    and "map_of (map (\<lambda>(i, xs). (i, g xs)) d) i = map_option g (map_of d i)"
  using assms by (auto intro!: map_res_all_ok) (induction d, auto)

definition stat_pair :: "real list \<Rightarrow> real \<times> real" where
  "stat_pair xs = (if length xs = 1 then (0, 1) else (mean_of xs, std_of xs))"

lemma group_stats_nonempty [group_simps]: "xs \<noteq> [] \<Longrightarrow> group_stats xs = Inr (stat_pair xs)"
  by (cases xs) (auto simp: group_stats_def stat_pair_def)

lemma all_group_stats_ok:
  "all_group_stats (group_scores index scores) =
     Inr (map (\<lambda>(i, xs). (i, stat_pair xs)) (group_scores index scores))"
  unfolding all_group_stats_def
  by (rule map_groups_lookup(1)) (auto dest: group_scores_entry simp: group_stats_nonempty)

lemma group_means_ok:
  "group_means (group_scores index scores) =
     Inr (map (\<lambda>(i, xs). (i, fst (stat_pair xs))) (group_scores index scores))"
  unfolding group_means_def
proof (rule map_groups_lookup(1)[where g = "\<lambda>xs. fst (stat_pair xs)"])
  fix i xs assume "(i, xs) \<in> set (group_scores index scores)"
  then have "xs \<noteq> []" by (rule group_scores_entry[THEN conjunct2])
  then show "(case (i, xs) of (idx, xs) \<Rightarrow>
        if length xs = 1 then Inr (idx, 0)
        else if length xs > 1 then Inr (idx, mean_of xs)
        else Inl ValueError) = Inr (i, fst (stat_pair xs))"
    by (cases xs) (auto simp: stat_pair_def)
qed

lemma dict_index_groups:
  assumes "map_of d i = Some xs"
  shows "dict_index (map (\<lambda>(i, xs). (i, g xs)) d) i = Inr (g xs)"
  using assms by (induction d) (auto simp: dict_index_def split: if_splits)

lemma group_scores_member:
  assumes "(s, i) \<in> set (zip scores index)"
  shows "map_of (group_scores index scores) i = Some (members index scores i)"
proof -
  have "(i, s) \<in> set (zip index scores)"
    using assms by (auto simp: in_set_zip)
  then have "members index scores i \<noteq> []"
    by (force simp: members_zip_empty_iff)
  then show ?thesis by (simp add: group_scores_lookup)
qed

definition grpo_scalar :: "real \<Rightarrow> bool \<Rightarrow> real list \<Rightarrow> real \<Rightarrow> real" where
  "grpo_scalar epsilon by_std xs s =
     (if by_std then (s - fst (stat_pair xs)) / (snd (stat_pair xs) + epsilon) else s - fst (stat_pair xs))"

text \<open>GRPO in closed form: every response is compared with its own group.\<close>

lemma grpo_closed:
  assumes "length index = length rewards"
  shows "compute_grpo_outcome_advantage rewards response_mask index epsilon by_std =
    Inr (spread (map2 (\<lambda>s i. grpo_scalar epsilon by_std (members index (row_sums rewards) i) s)
                      (row_sums rewards) index) response_mask)"
proof -
  let ?s = "row_sums rewards"
  have "map_res (\<lambda>(s, i). bind_res (dict_index (map (\<lambda>(i, xs). (i, stat_pair xs)) (group_scores index ?s)) i)
          (\<lambda>(mean, std). Inr (if by_std then (s - mean) / (std + epsilon) else s - mean))) (zip ?s index)
     = Inr (map (\<lambda>(s, i). grpo_scalar epsilon by_std (members index ?s i) s) (zip ?s index))"
    by (rule map_res_all_ok)
       (auto simp: dict_index_groups[OF group_scores_member] grpo_scalar_def split: prod.splits)
  then show ?thesis
    using assms by (simp add: compute_grpo_outcome_advantage_def Let_def all_group_stats_ok row_sums_def)
qed

definition rloo_scalar :: "real list \<Rightarrow> real \<Rightarrow> real" where
  "rloo_scalar xs s =
     (let n = real (length xs)
      in if n > 1 then s * n / (n - 1) - fst (stat_pair xs) * n / (n - 1) else s)"

lemma rloo_closed:
  assumes "length index = length rewards"
  shows "compute_rloo_outcome_advantage rewards response_mask index =
    Inr (spread (map2 (\<lambda>s i. rloo_scalar (members index (row_sums rewards) i) s)
                      (row_sums rewards) index) response_mask)"
proof -
  let ?s = "row_sums rewards"
  have "map_res (\<lambda>(s, i).
          bind_res (dict_index (group_scores index ?s) i) (\<lambda>xs.
          bind_res (dict_index (map (\<lambda>(i, xs). (i, fst (stat_pair xs))) (group_scores index ?s)) i) (\<lambda>m.
          Inr (if 1 < real (length xs)
               then s * real (length xs) / (real (length xs) - 1) - m * real (length xs) / (real (length xs) - 1)
               else s)))) (zip ?s index)
     = Inr (map (\<lambda>(s, i). rloo_scalar (members index ?s i) s) (zip ?s index))"
    by (rule map_res_all_ok)
       (auto simp: dict_index_groups[OF group_scores_member] rloo_scalar_def Let_def
          dict_index_Inr_iff[THEN iffD2, OF group_scores_member])
  then show ?thesis
    using assms by (simp add: compute_rloo_outcome_advantage_def Let_def group_means_ok row_sums_def)
qed

text \<open>Sums per label, and the labelling of groups by numbers.\<close>

lemma index_add_fold:
  fixes acc :: "real list"
  assumes "\<And>g x. (g, x) \<in> set ps \<Longrightarrow> g < length acc" and "k < length acc"
  shows "foldl (\<lambda>acc (g, x). acc[g := acc ! g + x]) acc ps ! k =
           acc ! k + sum_list (map snd (filter (\<lambda>(g, x). g = k) ps)) \<and>
         length (foldl (\<lambda>acc (g, x). acc[g := acc ! g + x]) acc ps) = length acc"
  using assms
proof (induction ps arbitrary: acc)
  case Nil
  then show ?case by simp
next
  case (Cons p ps)
  obtain g x where p: "p = (g, x)" by (cases p)
  have "g < length acc" using Cons.prems(1)[of g x] by (simp add: p)
  moreover have "\<And>g' x'. (g', x') \<in> set ps \<Longrightarrow> g' < length acc"
    using Cons.prems(1) by auto
  ultimately show ?case
    using Cons.IH[of "acc[g := acc ! g + x]"] Cons.prems(2)
    by (cases "g = k") (simp_all add: p nth_list_update add.assoc)
qed

lemma index_add_size: "length (index_add G gidx xs) = G"
proof -
  have "length (foldl (\<lambda>acc (g, x). acc[g := acc ! g + x]) acc ps) = length acc" for acc :: "real list" and ps
    by (induction ps arbitrary: acc) (simp_all split: prod.split)
  then show ?thesis by (simp add: index_add_def)
qed

lemma index_add_nth [group_simps]:
  assumes "set gidx \<subseteq> {..<G}" and "k < G"
  shows "index_add G gidx xs ! k = sum_list (members gidx xs k)"
  using assms index_add_fold[of "zip gidx xs" "replicate G 0" k]
  by (auto simp: index_add_def members_def dest: set_zip_leftD)

lemma length_index_add [group_simps]:
  assumes "set gidx \<subseteq> {..<G}"
  shows "length (index_add G gidx xs) = G"
proof (cases "G = 0")
  case True
  with assms show ?thesis by (simp add: index_add_def)
next
  case False
  with assms index_add_fold[of "zip gidx xs" "replicate G 0" 0] show ?thesis
    by (auto simp: index_add_def dest: set_zip_leftD)
qed

lemma labels_groups_members:
  assumes "labels_groups g index" and "length xs = length index" and "k < length index"
  shows "members (map nat g) xs (nat (g ! k)) = members index xs (index ! k)"
proof -
  have "filter (\<lambda>a. map nat g ! a = nat (g ! k)) [0..<length index] = filter (\<lambda>a. index ! a = index ! k) [0..<length index]"
  proof (rule filter_cong[OF refl])
    fix a assume "a \<in> set [0..<length index]"
    then have a: "a < length index" by simp
    then have "0 \<le> g ! a" "0 \<le> g ! k" using assms(1,3) by (simp_all add: labels_groups_def)
    then show "(map nat g ! a = nat (g ! k)) = (index ! a = index ! k)"
      using a assms(1,3) by (simp add: labels_groups_def eq_nat_nat_iff)
  qed
  with assms show ?thesis by (simp add: members_positions labels_groups_def)
qed

lemma sum_ones_members:
  "length xs = length index \<Longrightarrow> sum_list (members index (map (\<lambda>_. 1) xs) k) = real (length (members index xs k))"
  by (induction xs index rule: list_induct2) auto

lemma labels_below: "set (gidx :: nat list) \<subseteq> {..<Max (set gidx) + 1}"
proof
  fix x assume "x \<in> set gidx"
  then have "x \<le> Max (set gidx)" by simp
  then show "x \<in> {..<Max (set gidx) + 1}" by simp
qed

lemma sum_list_centered: "sum_list (map (\<lambda>x. (x - c) * (x - c)) xs) \<ge> (0::real)"
  by (induction xs) auto

text \<open>What \<open>group_moments\<close> returns for the label of a response.\<close>

lemma group_moments_closed:
  assumes len: "length scores = length gidx" and sub: "set gidx \<subseteq> {..<G}" and res: "group_moments G scores gidx 0 = (mean_g, std_g, cnt)"
  shows "\<forall>k \<in> set gidx. mean_g ! k = fst (stat_pair (members gidx scores k)) \<and> std_g ! k = snd (stat_pair (members gidx scores k))"
    and "length mean_g = G" "length std_g = G"
proof -
  define count where "count = index_add G gidx (map (\<lambda>_. 1) scores)"
  define mean where "mean = map2 (\<lambda>s c. s / max c 1) (index_add G gidx scores) count"
  define sq where "sq = map (\<lambda>x. x * x) (map2 (\<lambda>s g. s - mean ! g) scores gidx)"
  define std where "std = map2 (\<lambda>v d. sqrt (max (v / d) 0)) (index_add G gidx sq) (map (\<lambda>c. max (c - 1) 1) count)"
  have mean_g: "mean_g = map2 (\<lambda>b m. if b then 0 else m) (map (\<lambda>c. c \<le> 1) count) mean"
    and std_g: "std_g = map2 (\<lambda>b s. if b then 1 else s) (map (\<lambda>c. c \<le> 1) count) std"
    using res by (auto simp: group_moments_def Let_def std_def sq_def mean_def count_def)
  show "length mean_g = G" "length std_g = G"
    by (simp_all add: mean_g std_g mean_def std_def count_def index_add_size)
  have "mean_g ! k = fst (stat_pair (members gidx scores k)) \<and>
        std_g ! k = snd (stat_pair (members gidx scores k))" if k: "k \<in> set gidx" for k
  proof -
    let ?xs = "members gidx scores k"
    let ?n = "real (length ?xs)"
    have kG: "k < G" using sub k by auto
    have n1: "length ?xs \<ge> 1" using members_empty_iff[OF len, of k] k by (cases ?xs) auto
    have cnt: "count ! k = ?n" "length count = G"
      using sub kG len by (simp_all add: count_def group_simps sum_ones_members)
    have mean: "mean ! k = mean_of ?xs" "length mean = G"
      using sub kG cnt n1 by (simp_all add: mean_def group_simps mean_of_def max_def)
    have "members gidx sq k = map (\<lambda>x. x * x) (map (\<lambda>s. s - mean ! k) ?xs)"
      by (simp only: sq_def members_map[of _ "\<lambda>x. x * x"] members_map2[OF len, of "\<lambda>s g. s - mean ! g"])
    then have sqk: "members gidx sq k = map (\<lambda>x. (x - mean_of ?xs) * (x - mean_of ?xs)) ?xs"
      by (simp add: mean comp_def)
    have "0 \<le> sum_list (map (\<lambda>x. (x - mean_of ?xs) * (x - mean_of ?xs)) ?xs) / max (?n - 1) 1"
      by (rule divide_nonneg_pos[OF sum_list_centered]) simp
    then have std: "std ! k = sqrt (sum_list (map (\<lambda>x. (x - mean_of ?xs) ^ 2) ?xs) / max (?n - 1) 1)" "length std = G"
      using sub kG cnt
      by (simp_all add: std_def group_simps sqk power2_eq_square max_absorb1)
    show ?thesis
    proof (cases "length ?xs = 1")
      case True
      then show ?thesis using cnt mean std kG by (simp add: mean_g std_g stat_pair_def)
    next
      case False
      with n1 have "?n \<ge> 2" by linarith
      then show ?thesis
        using False cnt mean std kG by (simp add: mean_g std_g stat_pair_def std_of_def max_def)
    qed
  qed
  then show "\<forall>k \<in> set gidx. mean_g ! k = fst (stat_pair (members gidx scores k)) \<and> std_g ! k = snd (stat_pair (members gidx scores k))" by blast
qed

lemma spread_map2_cong:
  assumes "\<And>k. k < length xs \<Longrightarrow> f (xs ! k) (ys ! k) = g (xs ! k) (zs ! k)"
    and "length ys = length xs" and "length zs = length xs"
  shows "spread (map2 f xs ys) msk = spread (map2 g xs zs) msk"
proof -
  have "map2 f xs ys = map2 g xs zs" using assms by (intro nth_equalityI) simp_all
  then show ?thesis by simp
qed

lemma length_members: "length xs = length index \<Longrightarrow> length (members index xs i) = count_list index i"
  by (induction xs index rule: list_induct2) auto

lemma rloo_scalar_two:
  assumes "2 \<le> length xs"
  shows "rloo_scalar xs s =
     (real (length xs) * s - sum_list xs) / max (real (length xs) - 1) 1 * (if 1 < real (length xs) then 1 else 0)"
proof -
  have n: "real (length xs) \<ge> 2" using assms by simp
  then have "mean_of xs * real (length xs) = sum_list xs" by (simp add: mean_of_def)
  moreover have "length xs \<noteq> 1" using assms by linarith
  ultimately show ?thesis
    using n by (simp add: rloo_scalar_def Let_def stat_pair_def max_absorb1 diff_divide_distrib mult.commute)
qed

lemma grpo_vectorized_groups:
  assumes groups: "labels_groups (as_torch_index float_repr labels) index" and "length index = length token_level_rewards"
  shows "compute_grpo_vectorized_outcome_advantage float_repr token_level_rewards response_mask labels epsilon by_std =
         compute_grpo_outcome_advantage token_level_rewards response_mask index epsilon by_std"
proof -
  let ?s = "row_sums token_level_rewards" and ?g = "as_torch_index float_repr labels"
  have len: "length ?s = length ?g" "length index = length ?s" "length ?s = length token_level_rewards"
    using assms by (auto simp: labels_groups_def row_sums_def)
  have nonneg: "\<forall>g \<in> set ?g. 0 \<le> g" using groups by (simp add: labels_groups_def)
  show ?thesis
  proof (cases "?g = []")
    case True
    then show ?thesis using len
      by (simp add: compute_grpo_vectorized_outcome_advantage_def group_mean_std_def Let_def grpo_closed)
  next
    case False
    define G where "G = nat (Max (set ?g) + 1)"
    have top: "0 \<le> Max (set ?g)" "\<forall>g \<in> set ?g. g \<le> Max (set ?g)" using False nonneg Max_in[of "set ?g"] by auto
    have sub: "set (map nat ?g) \<subseteq> {..<G}" using top nonneg by (fastforce simp: G_def nat_less_iff)
    obtain mean_g std_g cnt where res: "group_moments G ?s (map nat ?g) 0 = (mean_g, std_g, cnt)" by (metis prod_cases3)
    have gms: "group_mean_std ?s ?g 0 = Inr (mean_g, std_g, cnt)"
    proof -
      have "Max (set ?g) + 1 \<noteq> 0" "\<not> Max (set ?g) + 1 < 0" "\<not> (\<exists>g \<in> set ?g. g < 0)" using top(1) nonneg by (linarith, linarith, simp add: linorder_not_less)
      then show ?thesis using len(1) False res unfolding group_mean_std_def Let_def G_def by (simp only: if_False not_False_eq_True not_True_eq_False simp_thms)
    qed
    note m = group_moments_closed[OF _ sub res, unfolded length_map, OF len(1)]
    have at: "py_index mean_g i = Inr (mean_g ! nat i)" "py_index std_g i = Inr (std_g ! nat i)" if "i \<in> set ?g" for i
      using that nonneg sub m(2,3) by (auto simp: py_index_def)
    have "map_res (\<lambda>(s, i). bind_res (py_index mean_g i) (\<lambda>m. bind_res (py_index std_g i) (\<lambda>d.
          Inr (if by_std then (s - m) / (d + epsilon) else s - m)))) (zip ?s ?g) =
        Inr (map2 (\<lambda>s i. if by_std then (s - mean_g ! nat i) / (std_g ! nat i + epsilon) else s - mean_g ! nat i) ?s ?g)"
      by (rule map_res_all_ok) (auto simp: at dest!: set_zip_rightD)
    moreover have "spread (map2 (\<lambda>s i. if by_std then (s - mean_g ! nat i) / (std_g ! nat i + epsilon) else s - mean_g ! nat i) ?s ?g) response_mask =
        spread (map2 (\<lambda>s i. grpo_scalar epsilon by_std (members index ?s i) s) ?s index) response_mask"
    proof (rule spread_map2_cong)
      fix k assume k: "k < length ?s"
      have mem: "members (map nat ?g) ?s (nat (?g ! k)) = members index ?s (index ! k)"
        by (rule labels_groups_members[OF groups]) (use len k in simp_all)
      have "nat (?g ! k) \<in> set (map nat ?g)" using k len by simp
      from bspec[OF m(1) this] show "(if by_std then (?s ! k - mean_g ! nat (?g ! k)) / (std_g ! nat (?g ! k) + epsilon) else ?s ! k - mean_g ! nat (?g ! k)) =
          grpo_scalar epsilon by_std (members index ?s (index ! k)) (?s ! k)"
        unfolding mem by (simp add: grpo_scalar_def)
    qed (use len in simp_all)
    ultimately show ?thesis
      using len by (simp add: compute_grpo_vectorized_outcome_advantage_def Let_def gms grpo_closed)
  qed
qed

text \<open>
  C28: the vectorised GRPO estimator is the same function as the looping one on group labels that \<open>as_torch_index\<close> keeps apart: arrays
  of integers that are not negative (as integers, truth values, or floats with such values), and arrays of strings at least one of
  which is not the notation of a 64-bit integer, such as the UUIDs of the trainer.  For every such batch the numbering
  of the labels, \<open>index_add\<close> and the second pass over the centred scores give each response the advantage of the dictionary
  loop, with and without division by the deviation, groups of one included.
\<close>

theorem grpo_vectorized_correct:
  assumes "kept_apart labels" and "length (group_keys labels) = length token_level_rewards"
  shows "compute_grpo_vectorized_outcome_advantage float_repr token_level_rewards response_mask labels epsilon by_std =
         compute_grpo_outcome_advantage token_level_rewards response_mask (group_keys labels) epsilon by_std"
  by (rule grpo_vectorized_groups[OF as_torch_index_groups[OF assms(1)] assms(2)])

theorem grpo_vectorized_correct_witness:
  "compute_grpo_vectorized_outcome_advantage (\<lambda>_. []) [[1], [2, 5], [3]] [[1], [1, 0], [1]]
      (Np_object (map Lab_str [''3f-a'', ''7c-b'', ''3f-a''])) (1 / 10) True =
   compute_grpo_outcome_advantage [[1], [2, 5], [3]] [[1], [1, 0], [1]] [Inr ''3f-a'' :: real + str, Inr ''7c-b'', Inr ''3f-a''] (1 / 10) True"
proof -
  have "py_int ''3f-a'' = None" by code_simp
  then have "some_text [''3f-a'', ''7c-b'', ''3f-a'']" by (auto simp: some_text_def)
  then have "kept_apart (Np_object (map Lab_str [''3f-a'', ''7c-b'', ''3f-a'']))" unfolding kept_apart.simps by blast
  from grpo_vectorized_correct[OF this, where token_level_rewards = "[[1], [2, 5], [3]]" and float_repr = "\<lambda>_. []" and response_mask = "[[1], [1, 0], [1]]" and epsilon = "1 / 10" and by_std = True] show ?thesis
    by (simp add: label_key_def)
qed

text \<open>
  Other labels can be merged: floats that are no integers lose their fraction, and strings that denote the same integer become equal.
  Two prompts then share a baseline that the looping estimator keeps apart.
\<close>

theorem as_torch_index_merges:
  "as_torch_index float_repr (Np_float [1 / 5, 7 / 10]) = [0, 0] \<and> as_torch_index float_repr (Np_object [Lab_str ''1'', Lab_str ''01'']) = [1, 1] \<and>
   compute_grpo_vectorized_outcome_advantage float_repr [[1], [3]] [[1], [1]] (Np_float [1 / 5, 7 / 10]) 0 False = Inr [[- 1], [1]] \<and>
   compute_grpo_outcome_advantage [[1], [3]] [[1], [1]] (group_keys (Np_float [1 / 5, 7 / 10])) 0 False = Inr [[1], [3]]"
proof -
  have "round (1 / 5 :: real) = 0" by (simp add: round_def floor_eq_iff)
  then have floats: "as_torch_index float_repr (Np_float [1 / 5, 7 / 10]) = [0, 0]"
    by (simp add: near_integers_def truncate_real_def floor_eq_iff)
  have "py_int ''1'' = Some 1" "py_int ''01'' = Some 1" by code_simp+
  then have strings: "as_torch_index float_repr (Np_object [Lab_str ''1'', Lab_str ''01'']) = [1, 1]"
    by (simp add: coerce_or_factorize_def to_int64_def fits_int64_def)
  have "group_mean_std [1, 3] [0, 0] 0 = Inr ([2], [sqrt 2], [2])"
    by (simp add: group_mean_std_def group_moments_def index_add_def Let_def)
  then have merged: "compute_grpo_vectorized_outcome_advantage float_repr [[1], [3]] [[1], [1]] (Np_float [1 / 5, 7 / 10]) 0 False = Inr [[- 1], [1]]"
    by (simp add: compute_grpo_vectorized_outcome_advantage_def floats row_sums_def py_index_def spread_def del: as_torch_index.simps)
  have "compute_grpo_outcome_advantage [[1], [3]] [[1], [1]] (group_keys (Np_float [1 / 5, 7 / 10])) 0 False = Inr [[1], [3]]"
    by (simp add: grpo_closed row_sums_def spread_def grpo_scalar_def stat_pair_def)
  with floats strings merged show ?thesis by blast
qed

text \<open>
  The vectorised leave-one-out estimator computes the looping one whenever every prompt
  has at least two responses: each response gets its score minus the mean of the others.
  It numbers the labels by \<open>np.unique\<close>; here they are strings.
\<close>

theorem rloo_vectorized_correct:
  assumes "length index = length token_level_rewards" and "\<And>i. i \<in> set index \<Longrightarrow> 2 \<le> count_list index i"
  shows "compute_rloo_vectorized_outcome_advantage token_level_rewards response_mask (Np_str index) =
         compute_rloo_outcome_advantage token_level_rewards response_mask index"
proof -
  let ?s = "row_sums token_level_rewards" and ?r = "unique_inverse str_less index"
  let ?g = "map nat ?r"
  note groups = string_ranks[of index]
  define G where "G = (if ?g = [] then 0 else Max (set ?g) + 1)"
  have len: "length ?s = length ?g" "length index = length ?s" "length ?s = length token_level_rewards"
    using assms(1) by (simp_all add: unique_inverse_def row_sums_def)
  have sub: "set ?g \<subseteq> {..<G}" using labels_below[of ?g] by (cases "?g = []") (simp_all add: G_def)
  have mem: "members ?g ?s (?g ! k) = members index ?s (index ! k)" if "k < length ?s" for k
    using labels_groups_members[OF groups, of ?s k] len that by simp
  have gk: "?g ! k < G" if "k < length ?s" for k
    using sub that len by (metis lessThan_iff nth_mem subsetD)
  have two: "2 \<le> length (members index ?s (index ! k))" if "k < length ?s" for k
    using assms(2)[of "index ! k"] that len by (simp add: length_members)
  have "spread (map2 (\<lambda>s i. (index_add G ?g (map (\<lambda>_. 1) ?s) ! i * s - index_add G ?g ?s ! i) /
                        max (index_add G ?g (map (\<lambda>_. 1) ?s) ! i - 1) 1 *
                        (if 1 < index_add G ?g (map (\<lambda>_. 1) ?s) ! i then 1 else 0)) ?s ?g) response_mask =
        spread (map2 (\<lambda>s i. rloo_scalar (members index ?s i) s) ?s index) response_mask"
  proof (rule spread_map2_cong)
    fix k assume k: "k < length ?s"
    let ?xs = "members index ?s (index ! k)"
    have cnt: "index_add G ?g (map (\<lambda>_. 1) ?s) ! (?g ! k) = real (length ?xs)"
      using index_add_nth[where xs = "map (\<lambda>_. 1) ?s" and k = "?g ! k", OF sub] gk[OF k] len by (simp add: sum_ones_members mem[OF k] del: nth_map)
    have tot: "index_add G ?g ?s ! (?g ! k) = sum_list ?xs"
      using index_add_nth[where xs = ?s and k = "?g ! k", OF sub] gk[OF k] by (simp add: mem[OF k] del: nth_map)
    show "(index_add G ?g (map (\<lambda>_. 1) ?s) ! (?g ! k) * ?s ! k - index_add G ?g ?s ! (?g ! k)) /
            max (index_add G ?g (map (\<lambda>_. 1) ?s) ! (?g ! k) - 1) 1 *
            (if 1 < index_add G ?g (map (\<lambda>_. 1) ?s) ! (?g ! k) then 1 else 0) =
          rloo_scalar ?xs (?s ! k)"
      unfolding cnt tot by (rule rloo_scalar_two[OF two[OF k], symmetric])
  qed (use len in simp_all)
  then show ?thesis
    using len by (simp add: compute_rloo_vectorized_outcome_advantage_def Let_def rloo_closed G_def)
qed

theorem rloo_vectorized_correct_witness:
  "compute_rloo_vectorized_outcome_advantage [[1], [3]] [[1, 1], [1, 0]] (Np_str [''a'', ''a'']) =
   compute_rloo_outcome_advantage [[1], [3]] [[1, 1], [1, 0]] [''a'', ''a'']"
  by (rule rloo_vectorized_correct) simp_all

text \<open>
  A prompt with one response separates the two: the loop keeps the raw score as the advantage,
  the vectorised form gives 0.
\<close>

theorem rloo_single_response_differs:
  "compute_rloo_outcome_advantage [[1]] [[1, 1]] [''a''] = Inr [[1, 1]] \<and>
   compute_rloo_vectorized_outcome_advantage [[1]] [[1, 1]] (Np_str [''a'']) = Inr [[0, 0]]"
proof
  show "compute_rloo_outcome_advantage [[1]] [[1, 1]] [''a''] = Inr [[1, 1]]"
    by (simp add: rloo_closed row_sums_def rloo_scalar_def spread_def)
  show "compute_rloo_vectorized_outcome_advantage [[1]] [[1, 1]] (Np_str [''a'']) = Inr [[0, 0]]"
    by (simp add: compute_rloo_vectorized_outcome_advantage_def unique_inverse_def str_less_irrefl row_sums_def spread_def index_add_def)
qed

section \<open>Loss aggregation over ranks\<close>

named_theorems agg_simps

lemma map2_concat:
  assumes "\<And>l m. (l, m) \<in> set parts \<Longrightarrow> length l = length m"
  shows "map2 f (concat (map fst parts)) (concat (map snd parts)) = concat (map (\<lambda>(l, m). map2 f l m) parts)"
  using assms by (induction parts) (auto simp del: zip_map_map)

lemma sum_map2_parts:
  fixes g :: "'a \<Rightarrow> 'b \<Rightarrow> real"
  assumes "\<And>l m. (l, m) \<in> set parts \<Longrightarrow> length l = length m"
  shows "sum_list (map2 g (concat (map fst parts)) (concat (map snd parts))) =
         sum_list (map (\<lambda>(l, m). sum_list (map2 g l m)) parts)"
proof -
  have "sum_list (concat (map h parts)) = sum_list (map (\<lambda>p. sum_list (h p)) parts)" for h :: "'a list \<times> 'b list \<Rightarrow> real list"
    by (induction parts) auto
  note this[of "\<lambda>(l, m). map2 g l m"]
  moreover have "map2 g (concat (map fst parts)) (concat (map snd parts)) = concat (map (\<lambda>(l, m). map2 g l m) parts)"
    by (rule map2_concat[OF assms])
  ultimately show ?thesis by (simp only:) (simp add: case_prod_unfold)
qed

lemma masked_sum_parts [agg_simps]:
  assumes "\<And>l m. (l, m) \<in> set parts \<Longrightarrow> length l = length m"
  shows "masked_sum (concat (map fst parts)) (concat (map snd parts)) = sum_list (map (\<lambda>(l, m). masked_sum l m) parts)"
  unfolding masked_sum_def by (rule sum_map2_parts[OF assms])

lemma masked_sum1_eq: "masked_sum1 vals (map (\<lambda>c. if c > 0 then 1 else 0) cs) = sum_list (map2 (\<lambda>v c. if c > 0 then v else 0) vals (cs :: real list))"
  by (induction vals cs rule: list_induct2') (auto simp: masked_sum1_def)

text \<open>The sum of the per-sequence losses over the sequences with a valid token.\<close>

definition seq_total :: "(real list \<Rightarrow> real list \<Rightarrow> real) \<Rightarrow> matrix \<Rightarrow> matrix \<Rightarrow> real" where
  "seq_total f l m = sum_list (map2 (\<lambda>x y. if sum_list y > 0 then f x y else 0) l m)"

lemma seq_total_parts [agg_simps]:
  assumes "\<And>l m. (l, m) \<in> set parts \<Longrightarrow> length l = length m"
  shows "seq_total f (concat (map fst parts)) (concat (map snd parts)) = sum_list (map (\<lambda>(l, m). seq_total f l m) parts)"
  unfolding seq_total_def by (rule sum_map2_parts[OF assms])

lemma masked_seq_sum:
  "masked_sum1 (row_sums (mzip (*) l m)) (nonempty_rows m) = seq_total (\<lambda>x y. sum_list (map2 (*) x y)) l m"
  unfolding nonempty_rows_def row_sums_def mzip_def masked_sum1_eq seq_total_def
  by (induction l m rule: list_induct2') auto

lemma masked_seq_mean:
  "masked_sum1 (map2 (\<lambda>s c. s / (c + e)) (row_sums (mzip (*) l m)) (row_sums m)) (nonempty_rows m) =
   seq_total (\<lambda>x y. sum_list (map2 (*) x y) / (sum_list y + e)) l m"
  unfolding nonempty_rows_def row_sums_def mzip_def masked_sum1_eq seq_total_def
  by (induction l m rule: list_induct2') auto

definition agg_modes :: "str set" where
  "agg_modes = {''token-mean'', ''seq-mean-token-sum'', ''seq-mean-token-sum-norm'', ''seq-mean-token-mean''}"

text \<open>With the global counts given, every mode is a sum over the rows, divided and scaled.\<close>

definition agg_total :: "str \<Rightarrow> matrix \<Rightarrow> matrix \<Rightarrow> real" where
  "agg_total mode l m =
     (if mode = ''token-mean'' then masked_sum l m
      else if mode = ''seq-mean-token-mean''
      then seq_total (\<lambda>x y. sum_list (map2 (*) x y) / (sum_list y + 1 / 10 ^ 8)) l m
      else seq_total (\<lambda>x y. sum_list (map2 (*) x y)) l m)"

definition agg_divisor :: "str \<Rightarrow> real \<Rightarrow> real \<Rightarrow> real \<Rightarrow> real" where
  "agg_divisor mode tokens batch scale =
     (if mode = ''token-mean'' then tokens
      else if mode = ''seq-mean-token-sum-norm'' then batch * scale else batch)"

lemma agg_loss_linear:
  assumes "mode \<in> agg_modes"
  shows "agg_loss l m mode dp (Some tokens) (Some batch) (Some scale) =
     Inr (agg_total mode l m / agg_divisor mode tokens batch scale * real dp)"
  using assms
  by (auto simp: agg_modes_def agg_loss_def default_count_def Let_def masked_seq_sum masked_seq_mean
      agg_total_def agg_divisor_def)

lemma agg_total_parts:
  assumes "\<And>l m. (l, m) \<in> set parts \<Longrightarrow> length l = length m"
  shows "agg_total mode (concat (map fst parts)) (concat (map snd parts)) =
         sum_list (map (\<lambda>(l, m). agg_total mode l m) parts)"
  by (simp add: agg_total_def masked_sum_parts[OF assms] seq_total_parts[OF assms])

text \<open>
  C34: the aggregated loss does not depend on how the rows are spread over data-parallel ranks:
  when every rank is given the global token count, batch size and scale factor, the mean over
  the ranks (what the gradient all-reduce forms) of the losses they compute is the loss of the whole
  batch on one rank, in each of the four modes and for any split into possibly empty parts.
\<close>

theorem agg_loss_dp_invariant:
  assumes "mode \<in> agg_modes" and "parts \<noteq> []"
    and "\<And>l m. (l, m) \<in> set parts \<Longrightarrow> length l = length m"
  shows "\<exists>losses. map_res (\<lambda>(l, m). agg_loss l m mode (length parts) (Some tokens) (Some batch) (Some scale)) parts = Inr losses
     \<and> agg_loss (concat (map fst parts)) (concat (map snd parts)) mode 1 (Some tokens) (Some batch) (Some scale)
       = Inr (sum_list losses / real (length parts))"
proof -
  let ?d = "agg_divisor mode tokens batch scale" and ?n = "real (length parts)"
  let ?loss = "\<lambda>(l, m). agg_total mode l m / ?d * ?n"
  have ok: "map_res (\<lambda>(l, m). agg_loss l m mode (length parts) (Some tokens) (Some batch) (Some scale)) parts
      = Inr (map ?loss parts)"
    by (rule map_res_all_ok) (auto simp: agg_loss_linear[OF assms(1)])
  have "sum_list (map (\<lambda>(l, m). agg_total mode l m / ?d * k) parts') =
        sum_list (map (\<lambda>(l, m). agg_total mode l m) parts') * (k / ?d)" for k :: real and parts'
    by (induction parts') (auto simp: add_divide_distrib distrib_left distrib_right mult.commute)
  from this[of ?n parts] have "sum_list (map ?loss parts) / ?n = agg_total mode (concat (map fst parts)) (concat (map snd parts)) / ?d"
    using assms(2) by (simp add: agg_total_parts[OF assms(3)])
  with ok show ?thesis by (simp add: agg_loss_linear[OF assms(1)])
qed

definition two_ranks :: "(matrix \<times> matrix) list" where
  "two_ranks = [([[1, 2]], [[1, 1]]), ([[5, 6]], [[1, 0]])]"

corollary agg_loss_dp_invariant_witness:
  "\<exists>losses. map_res (\<lambda>(l, m). agg_loss l m ''token-mean'' (length two_ranks) (Some 3) (Some 2) (Some 1)) two_ranks = Inr losses
     \<and> agg_loss (concat (map fst two_ranks)) (concat (map snd two_ranks)) ''token-mean'' 1 (Some 3) (Some 2) (Some 1)
       = Inr (sum_list losses / real (length two_ranks))"
  by (rule agg_loss_dp_invariant) (auto simp: agg_modes_def two_ranks_def)

section \<open>Advantages over the valid tokens\<close>

text \<open>
  The textbook definition over a sequence of rewards and values: the temporal-difference error
  of token \<open>k\<close>, with value 0 after the last token, and the discounted sum of the later errors.
\<close>

definition td_error :: "real \<Rightarrow> (real \<times> real) list \<Rightarrow> nat \<Rightarrow> real" where
  "td_error gamma tokens k =
     fst (tokens ! k) + gamma * (if Suc k < length tokens then snd (tokens ! Suc k) else 0) - snd (tokens ! k)"

definition gae_at :: "real \<Rightarrow> real \<Rightarrow> (real \<times> real) list \<Rightarrow> nat \<Rightarrow> real" where
  "gae_at gamma lam tokens t = (\<Sum>l < length tokens - t. (gamma * lam) ^ l * td_error gamma tokens (t + l))"

lemma td_error_Cons [simp]: "td_error gamma (x # xs) (Suc k) = td_error gamma xs k"
  by (simp add: td_error_def)

lemma gae_at_Cons [simp]: "gae_at gamma lam (x # xs) (Suc t) = gae_at gamma lam xs t"
  by (simp add: gae_at_def)

lemma gae_at_0:
  "gae_at gamma lam ((r, v) # xs) 0 =
     r + gamma * (case xs of [] \<Rightarrow> 0 | (_, v') # _ \<Rightarrow> v') - v + gamma * lam * gae_at gamma lam xs 0"
proof -
  have "gae_at gamma lam ((r, v) # xs) 0 =
      td_error gamma ((r, v) # xs) 0 + (\<Sum>l<length xs. (gamma * lam) ^ Suc l * td_error gamma ((r, v) # xs) (Suc l))"
    by (simp add: gae_at_def sum.lessThan_Suc_shift del: sum.lessThan_Suc td_error_Cons)
  also have "\<dots> = td_error gamma ((r, v) # xs) 0 + gamma * lam * gae_at gamma lam xs 0"
    by (simp add: gae_at_def sum_distrib_left mult.assoc)
  also have "td_error gamma ((r, v) # xs) 0 = r + gamma * (case xs of [] \<Rightarrow> 0 | (_, v') # _ \<Rightarrow> v') - v"
    by (cases xs) (simp_all add: td_error_def split: prod.split)
  finally show ?thesis .
qed

definition valid_tokens :: "(real \<times> real \<times> real) list \<Rightarrow> (real \<times> real) list" where
  "valid_tokens row = map (\<lambda>(r, v, m). (r, v)) (filter (\<lambda>(r, v, m). m \<noteq> 0) row)"

definition on_valid :: "'a list \<Rightarrow> (real \<times> real \<times> real) list \<Rightarrow> 'a list" where
  "on_valid xs row = map fst (filter (\<lambda>(x, r, v, m). m \<noteq> 0) (zip xs row))"

lemma valid_tokens_simps [simp]:
  "valid_tokens [] = []"
  "valid_tokens ((r, v, m) # row) = (if m = 0 then valid_tokens row else (r, v) # valid_tokens row)"
  by (simp_all add: valid_tokens_def)

lemma on_valid_simps [simp]:
  "on_valid [] row = []"
  "on_valid (x # xs) ((r, v, m) # row) = (if m = 0 then on_valid xs row else x # on_valid xs row)"
  by (simp_all add: on_valid_def)

lemma gae_row_valid:
  assumes "\<And>r v m. (r, v, m) \<in> set row \<Longrightarrow> m = 0 \<or> m = 1"
  shows "gae_row gamma lam row = (nv, lg, adv) \<Longrightarrow>
     nv = (case valid_tokens row of [] \<Rightarrow> 0 | (_, v) # _ \<Rightarrow> v) \<and>
     lg = gae_at gamma lam (valid_tokens row) 0 \<and>
     on_valid adv row = map (gae_at gamma lam (valid_tokens row)) [0..<length (valid_tokens row)]"
  using assms
proof (induction row arbitrary: nv lg adv)
  case Nil
  then show ?case by (simp add: gae_at_def)
next
  case (Cons x row)
  obtain r v m where x: "x = (r, v, m)" by (cases x)
  obtain nv' lg' adv' where rest: "gae_row gamma lam row = (nv', lg', adv')" by (cases "gae_row gamma lam row")
  have m: "m = 0 \<or> m = 1" using Cons.prems(2)[of r v m] by (simp add: x)
  have IH: "nv' = (case valid_tokens row of [] \<Rightarrow> 0 | (_, v) # _ \<Rightarrow> v)"
      "lg' = gae_at gamma lam (valid_tokens row) 0"
      "on_valid adv' row = map (gae_at gamma lam (valid_tokens row)) [0..<length (valid_tokens row)]"
    using Cons.IH[OF rest] Cons.prems(2) by auto
  show ?case
    using Cons.prems(1) m
    by (auto simp: x rest IH Let_def gae_at_0 map_upt_Suc simp del: upt_Suc)
qed

text \<open>
  C35: generalised advantage estimation skips observation tokens: for a 0/1 mask, the
  advantages the backward loop leaves on the valid tokens are the sums
  \<open>\<Sum>\<^sub>l (\<gamma>\<lambda>)\<^sup>l \<delta>\<^sub>t\<^sub>+\<^sub>l\<close> of the trajectory made of the valid tokens alone, so neither the rewards
  nor the values of masked tokens, wherever they stand, have any influence on them.
\<close>

theorem gae_on_valid_tokens:
  assumes "\<And>r v m. (r, v, m) \<in> set row \<Longrightarrow> m = 0 \<or> m = 1"
  shows "on_valid (gae_advantages gamma lam row) row =
         map (gae_at gamma lam (valid_tokens row)) [0..<length (valid_tokens row)]"
  using gae_row_valid[OF assms, where gamma = gamma and lam = lam] by (cases "gae_row gamma lam row") (simp add: gae_advantages_def)

corollary gae_on_valid_tokens_witness:
  "on_valid (gae_advantages 1 1 [(0, 2, 1), (7, 9, 0), (1, 3, 1)]) [(0, 2, 1), (7, 9, 0), (1, 3, 1)] =
   map (gae_at 1 1 (valid_tokens [(0, 2, 1), (7, 9, 0), (1, 3, 1)]))
     [0..<length (valid_tokens [(0, 2, 1), (7, 9, 0), (1, 3, 1)])]"
  by (rule gae_on_valid_tokens) auto

text \<open>
  REINFORCE++ resets its return at every masked token, not only after the end of the sequence: with
  an observation token in the middle the tokens before it lose the final reward, which the sums of ReMax keep.
\<close>

theorem reinforce_plus_plus_resets_at_observations:
  "snd (discounted_row 1 (zip [0, 0, 1] [1, 0, 1])) = [0, 1, 1] \<and>
   snd (compute_remax_outcome_advantage [[0, 0, 1]] [0] [[1, 0, 1]]) = [[1, 1, 1]]"
  by (simp_all add: compute_remax_outcome_advantage_def mzip_def Let_def)

section \<open>The clipped losses\<close>

text \<open>
  The dual-clip policy loss of a token.  With a non-negative advantage the ratio counts only up
  to \<open>1 + high\<close>; with a negative one it counts from \<open>1 - low\<close> up to \<open>clip_ratio_c\<close>, so the loss of a token
  is never above \<open>-A * clip_ratio_c\<close>.
\<close>

theorem pg_loss_token_correct:
  assumes "0 \<le> low" and "0 \<le> high" and "1 < clip_ratio_c"
  shows "pg_loss_token low high clip_ratio_c old_log_prob log_prob adv =
     (if 0 \<le> adv then - adv * min (ratio_of old_log_prob log_prob) (1 + high)
      else - adv * min clip_ratio_c (max (ratio_of old_log_prob log_prob) (1 - low)))"
proof (cases "0 \<le> adv")
  case True
  let ?r = "ratio_of old_log_prob log_prob"
  have "max (- adv * ?r) (- adv * clamp (1 - low) (1 + high) ?r) = - adv * min ?r (clamp (1 - low) (1 + high) ?r)"
    using True by (auto simp: max_def min_def mult_le_cancel_left)
  moreover have "min ?r (clamp (1 - low) (1 + high) ?r) = min ?r (1 + high)"
    using assms by (auto simp: clamp_def max_def min_def)
  ultimately show ?thesis
    using True by (simp add: pg_loss_token_def Let_def pg_losses1_def pg_losses2_def)
next
  case False
  let ?r = "ratio_of old_log_prob log_prob"
  have pos: "- adv > 0" using False by simp
  have mx: "max (- adv * a) (- adv * b) = - adv * max a b" for a b
    using pos by (auto simp: max_def mult_le_cancel_left)
  have mn: "min (- adv * a) (- adv * b) = - adv * min a b" for a b
    using pos by (auto simp: min_def mult_le_cancel_left)
  have "max ?r (clamp (1 - low) (1 + high) ?r) = max ?r (1 - low)"
    using assms by (auto simp: clamp_def max_def min_def)
  then show ?thesis
    using False by (simp add: pg_loss_token_def Let_def pg_losses1_def pg_losses2_def mx mn del: mult_minus_left)
qed

corollary pg_loss_token_correct_witness:
  "pg_loss_token (1 / 5) (1 / 5) 3 0 0 (- 1) = 1"
  using pg_loss_token_correct[of "1 / 5" "1 / 5" 3 0 0 "- 1"] by (simp add: ratio_of_def clamp_def)

lemma exp_gt_add_one: "x \<noteq> 0 \<Longrightarrow> 1 + x < exp x" for x :: real
proof (cases "x > - 2")
  case True
  assume "x \<noteq> 0"
  then have "1 + x < (1 + x / 2) ^ 2" by (simp add: power2_eq_square algebra_simps) (metis not_real_square_gt_zero)
  also have "\<dots> \<le> exp (x / 2) ^ 2" using True by (intro power_mono) (simp_all add: exp_ge_add_one_self)
  also have "\<dots> = exp x" by (simp flip: exp_double)
  finally show ?thesis .
next
  case False
  then show ?thesis using exp_gt_zero[of x] by linarith
qed

lemma kl_penalty_k3_values:
  "kl_penalty lp rp ''k3'' = Inr (clamp (- 10) 10 (exp (clamp (- 20) 20 (rp - lp)) - clamp (- 20) 20 (rp - lp) - 1))"
  "kl_penalty lp rp ''k3+'' = kl_penalty lp rp ''k3''"
  "kl_penalty lp rp ''low_var_kl'' = kl_penalty lp rp ''k3''"
  "kl_penalty lp rp ''low_var_kl+'' = kl_penalty lp rp ''k3''"
  by (simp_all add: kl_penalty_def kl_penalty_forward_def Let_def ends_with_def)

text \<open>
  The \<open>k3\<close> estimate of the KL divergence is never negative, is at most 10 and vanishes exactly
  where the two log-probabilities agree, with and without the straight-through suffix.
\<close>

theorem kl_penalty_k3_correct:
  assumes "kind \<in> {''low_var_kl'', ''k3'', ''low_var_kl+'', ''k3+''}"
  shows "\<exists>k. kl_penalty logprob ref_logprob kind = Inr k \<and> 0 \<le> k \<and> k \<le> 10 \<and> (k = 0 \<longleftrightarrow> logprob = ref_logprob)"
proof -
  define d where "d = clamp (- 20) 20 (ref_logprob - logprob)"
  have d0: "d = 0 \<longleftrightarrow> logprob = ref_logprob" by (auto simp: d_def clamp_def max_def min_def)
  have ge: "0 \<le> exp d - d - 1" using exp_ge_add_one_self[of d] by linarith
  have eq: "exp d - d - 1 = 0 \<longleftrightarrow> d = 0" using exp_gt_add_one[of d] by (cases "d = 0") auto
  have "kl_penalty logprob ref_logprob kind = Inr (clamp (- 10) 10 (exp d - d - 1))"
    using assms by (elim insertE emptyE) (simp_all only: kl_penalty_k3_values d_def)
  then show ?thesis using ge eq d0 by (auto simp: clamp_def max_def min_def)
qed

corollary kl_penalty_k3_correct_witness:
  "\<exists>k. kl_penalty (- 1) (- 2) ''k3+'' = Inr k \<and> 0 \<le> k \<and> k \<le> 10 \<and> (k = 0 \<longleftrightarrow> (- 1 :: real) = - 2)"
  by (rule kl_penalty_k3_correct) simp

end
