(* ===== verification/OpdLoss.thy ===== *)
theory OpdLoss
  imports OpdTeacher CoreAlgos
begin

text \<open>
  The training loss of on-policy distillation, \<open>src/CLightMLLM_new/src/method/opd.py\<close>: the forward KL
  divergence on the teacher's top-\<open>k\<close> tokens, its average over the data-parallel ranks and the step that
  puts rollout, teacher and student together.  The student, the two teachers and
  \<open>torch.topk\<close> (whose choice among ties is not specified) are arguments; numbers are reals.
\<close>

section \<open>Log-probabilities\<close>

definition log_softmax :: "real list \<Rightarrow> real list" where
  "log_softmax logits = map (\<lambda>x. x - ln (sum_list (map exp logits))) logits"

definition scale_logits :: "real \<Rightarrow> real list \<Rightarrow> real list" where
  "scale_logits temperature logits = map (\<lambda>x. x / temperature) logits"

definition gather :: "real list \<Rightarrow> int list \<Rightarrow> real list result" where
  "gather logps ids =
     map_res (\<lambda>i. if 0 \<le> i \<and> i < int (length logps) then Inr (logps ! nat i) else Inl RuntimeError) ids"

text \<open>The teacher of the \<open>hf\<close> backend at one position.\<close>

definition hf_teacher_topk :: "(nat \<Rightarrow> real list \<Rightarrow> int list) \<Rightarrow> nat \<Rightarrow> real \<Rightarrow> real list \<Rightarrow> topk_row result" where
  "hf_teacher_topk topk_of k temperature logits =
     (let teacher_logps = log_softmax (scale_logits temperature logits);
          ids = topk_of k teacher_logps
      in bind_res (gather teacher_logps ids) (\<lambda>lps. Inr (lps, ids)))"

section \<open>The loss of a token\<close>

record opd_args =
  opd_topk :: nat
  opd_temperature :: real
  opd_alpha :: real
  opd_log_prob_min_clamp :: "real option"
  opd_loss_max_clamp :: "real option"

definition clamp_min :: "real option \<Rightarrow> real \<Rightarrow> real" where
  "clamp_min lo x = (case lo of None \<Rightarrow> x | Some l \<Rightarrow> max x l)"

definition mass :: "real list \<Rightarrow> real" where
  "mass logps = sum_list (map exp logps)"

definition forward_kl :: "real list \<Rightarrow> real list \<Rightarrow> real" where
  "forward_kl teacher_logps student_logps = sum_list (map2 (\<lambda>t s. exp t * (t - s)) teacher_logps student_logps)"

definition topk_token_loss :: "opd_args \<Rightarrow> real list \<Rightarrow> real list \<Rightarrow> real" where
  "topk_token_loss args student_at_teacher_topk teacher_topk_logps =
     (let lo = opd_log_prob_min_clamp args;
          token_loss = max (forward_kl (map (clamp_min lo) teacher_topk_logps)
                                       (map (clamp_min lo) student_at_teacher_topk)) 0
      in case opd_loss_max_clamp args of
           None \<Rightarrow> token_loss
         | Some h \<Rightarrow> clamp (- h) h token_loss)"

record token_outputs =
  tok_loss :: real
  tok_student_mass :: real
  tok_teacher_mass :: real
  tok_overlap :: nat

definition topk_position ::
  "(nat \<Rightarrow> real list \<Rightarrow> int list) \<Rightarrow> opd_args \<Rightarrow> real list \<Rightarrow> topk_row \<Rightarrow> token_outputs result" where
  "topk_position topk_of args student_logits teacher =
     (let (teacher_logps, teacher_ids) = teacher;
          student_logps = log_softmax student_logits;
          student_ids = topk_of (length teacher_ids) student_logps
      in bind_res (gather student_logps teacher_ids) (\<lambda>at_teacher.
           Inr \<lparr> tok_loss = topk_token_loss args at_teacher teacher_logps,
                 tok_student_mass = mass at_teacher,
                 tok_teacher_mass = mass teacher_logps,
                 tok_overlap = length (filter (\<lambda>i. i \<in> set student_ids) teacher_ids) \<rparr>))"

text \<open>
  \<open>loss_num\<close> over the denominator; \<open>dens\<close> are the denominators of all ranks when the process
  group is initialised, and their sum is what the all-reduce leaves everywhere.
\<close>

definition rank_loss :: "real list option \<Rightarrow> real \<Rightarrow> real \<Rightarrow> real" where
  "rank_loss dens loss_num loss_den =
     (case dens of
        Some ds \<Rightarrow> loss_num * real (length ds) / max (sum_list ds) 1
      | None \<Rightarrow> loss_num / max loss_den 1)"

definition forward_kl_topk_loss ::
  "(nat \<Rightarrow> real list \<Rightarrow> int list) \<Rightarrow> opd_args \<Rightarrow> real list option \<Rightarrow> real list list list \<Rightarrow> topk_row list list \<Rightarrow>
   matrix \<Rightarrow> (real \<times> token_outputs list list) result" where
  "forward_kl_topk_loss topk_of args dens student_logits teacher response_mask =
     bind_res (map_res (\<lambda>(srow, trow). map_res (\<lambda>(s, t). topk_position topk_of args s t) (zip srow trow))
                 (zip student_logits teacher)) (\<lambda>outs.
       let loss_num = sum_list (map2 (\<lambda>orow mrow. sum_list (map2 (\<lambda>tok m. tok_loss tok * m) orow mrow)) outs response_mask)
       in Inr (rank_loss dens loss_num (msum response_mask), outs))"

definition opd_masked_mean :: "matrix \<Rightarrow> matrix \<Rightarrow> real" where
  "opd_masked_mean vals response_mask = msum (mzip (*) vals response_mask) / max (msum response_mask) 1"

section \<open>The training step\<close>

record opd_outcome =
  out_loss :: real
  out_all_reduces :: nat

text \<open>
  \<open>compute_loss\<close>: generate, mask, score with the teacher, run the student.  \<open>student\<close> gives the
  logits of every position, \<open>sft_loss\<close> is the model's own loss on the batch.  The number of
  explicit all-reduces is part of the outcome, since every rank has to issue the same ones.
\<close>

definition opd_compute_loss ::
  "(nat \<Rightarrow> real list \<Rightarrow> int list) \<Rightarrow> opd_args \<Rightarrow> real list option \<Rightarrow> int \<Rightarrow> int option \<Rightarrow> bool \<Rightarrow>
   int list list result \<Rightarrow> (int list list \<Rightarrow> bool list list \<Rightarrow> real list list list) \<Rightarrow> real \<Rightarrow>
   (int list list \<Rightarrow> bool list list \<Rightarrow> bool list list \<Rightarrow> topk_row list list result) \<Rightarrow>
   nat \<Rightarrow> bool list list \<Rightarrow> opd_outcome result" where
  "opd_compute_loss topk_of args dens pad eos has_teacher generated student sft_loss teacher_topk prompt_width prompt_masks =
     (if \<not> has_teacher then Inl ValueError
      else bind_res generated (\<lambda>sequences.
        let cmask = completion_mask pad eos sequences prompt_width;
            attention_mask = sequence_attention_mask prompt_masks sequences cmask;
            n = (case sequences of [] \<Rightarrow> 0 | row # _ \<Rightarrow> length row - 1)
        in bind_res (shift_completion_mask n cmask prompt_width) (\<lambda>rmask.
             if \<forall>row \<in> set rmask. True \<notin> set row then Inr \<lparr> out_loss = sft_loss * 0, out_all_reduces = 0 \<rparr>
             else
               let response_mask = map (map (\<lambda>b. if b then 1 else 0)) rmask;
                   student_logits = map (\<lambda>rows. map (scale_logits (opd_temperature args)) (butlast rows)) (student sequences attention_mask)
               in bind_res (teacher_topk sequences attention_mask rmask) (\<lambda>teacher.
                  bind_res (forward_kl_topk_loss topk_of args dens student_logits teacher response_mask) (\<lambda>(loss, outs).
                    let distill_loss = loss * (opd_temperature args) ^ 2
                    in Inr \<lparr> out_loss = opd_alpha args * distill_loss,
                             out_all_reduces = (case dens of None \<Rightarrow> 0 | Some _ \<Rightarrow> 1) \<rparr>)))))"

section \<open>Bounds of the token loss\<close>

lemma exp_tangent: "exp t - exp s \<le> exp t * (t - s)" for s t :: real
proof -
  have "exp t * (1 + (s - t)) \<le> exp t * exp (s - t)"
    by (intro mult_left_mono exp_ge_add_one_self) simp
  then show ?thesis by (simp add: exp_diff algebra_simps)
qed

lemma forward_kl_ge_mass:
  "length t = length s \<Longrightarrow> mass t - mass s \<le> forward_kl t s"
proof (induction t s rule: list_induct2)
  case (Cons x xs y ys)
  then show ?case using exp_tangent[of x y] by (simp add: mass_def forward_kl_def)
qed (simp add: mass_def forward_kl_def)

lemma forward_kl_self [simp]: "forward_kl t t = 0"
  by (induction t) (simp_all add: forward_kl_def)

text \<open>
  The loss of a token is never negative, never above the configured maximum, at least the
  teacher's mass minus the student's mass on the top-\<open>k\<close> tokens (after the lower clamp, and up to
  the maximum), and zero when the student agrees with the teacher there.  So the lower
  clamp at zero only acts where the student has more mass on these tokens than the teacher.
\<close>

theorem topk_token_loss_bounds:
  assumes "length student_at_teacher_topk = length teacher_topk_logps"
    and "\<And>h. opd_loss_max_clamp args = Some h \<Longrightarrow> 0 < h"
  shows "0 \<le> topk_token_loss args student_at_teacher_topk teacher_topk_logps \<and>
    (let gap = mass (map (clamp_min (opd_log_prob_min_clamp args)) teacher_topk_logps) -
               mass (map (clamp_min (opd_log_prob_min_clamp args)) student_at_teacher_topk);
         loss = topk_token_loss args student_at_teacher_topk teacher_topk_logps
     in case opd_loss_max_clamp args of None \<Rightarrow> gap \<le> loss | Some h \<Rightarrow> loss \<le> h \<and> min h gap \<le> loss) \<and>
    (student_at_teacher_topk = teacher_topk_logps \<longrightarrow>
       topk_token_loss args student_at_teacher_topk teacher_topk_logps = 0)"
proof -
  let ?lo = "clamp_min (opd_log_prob_min_clamp args)"
  have "mass (map ?lo teacher_topk_logps) - mass (map ?lo student_at_teacher_topk) \<le>
      forward_kl (map ?lo teacher_topk_logps) (map ?lo student_at_teacher_topk)"
    by (rule forward_kl_ge_mass) (use assms(1) in simp)
  then show ?thesis
    using assms(2) by (auto simp: topk_token_loss_def Let_def clamp_def max_def min_def split: option.splits)
qed

definition default_opd_args :: opd_args where
  "default_opd_args = \<lparr> opd_topk = 32, opd_temperature = 1, opd_alpha = 1,
     opd_log_prob_min_clamp = Some (- 10), opd_loss_max_clamp = Some 10 \<rparr>"

corollary topk_token_loss_bounds_witness:
  "0 \<le> topk_token_loss default_opd_args [- 2, - 3] [- 1, - 4] \<and> topk_token_loss default_opd_args [- 2, - 3] [- 1, - 4] \<le> 10"
  using topk_token_loss_bounds[of "[- 2, - 3]" "[- 1, - 4]" default_opd_args]
  by (simp add: default_opd_args_def Let_def)

section \<open>The average over the ranks\<close>

lemma map_res_concat:
  "map_res (map_res f) xss = Inr yss \<Longrightarrow> map_res f (concat xss) = Inr (concat yss)"
  by (induction xss arbitrary: yss) (auto simp: bind_res_Inr_iff map_res_append)

lemma zip_concat:
  "(\<And>l m. (l, m) \<in> set parts \<Longrightarrow> length l = length m) \<Longrightarrow>
   zip (concat (map fst parts)) (concat (map snd parts)) = concat (map (\<lambda>(l, m). zip l m) parts)"
  by (induction parts) auto

lemma msum_concat: "msum (concat ms) = sum_list (map msum ms)"
  by (induction ms) (auto simp: msum_def)

definition token_rows ::
  "(nat \<Rightarrow> real list \<Rightarrow> int list) \<Rightarrow> opd_args \<Rightarrow> real list list list \<Rightarrow> topk_row list list \<Rightarrow> token_outputs list list result" where
  "token_rows topk_of args student_logits teacher =
     map_res (\<lambda>(srow, trow). map_res (\<lambda>(s, t). topk_position topk_of args s t) (zip srow trow)) (zip student_logits teacher)"

definition loss_numerator :: "token_outputs list list \<Rightarrow> matrix \<Rightarrow> real" where
  "loss_numerator outs response_mask =
     sum_list (map2 (\<lambda>orow mrow. sum_list (map2 (\<lambda>tok m. tok_loss tok * m) orow mrow)) outs response_mask)"

lemma forward_kl_topk_loss_alt:
  "forward_kl_topk_loss topk_of args dens s t msk =
     bind_res (token_rows topk_of args s t) (\<lambda>outs. Inr (rank_loss dens (loss_numerator outs msk) (msum msk), outs))"
  by (simp add: forward_kl_topk_loss_def token_rows_def loss_numerator_def Let_def)

lemma rank_losses_mean:
  assumes "rs \<noteq> []"
  shows "sum_list (map (\<lambda>r. rank_loss (Some (map snd rs)) (fst r) (snd r)) rs) / real (length rs) =
         rank_loss None (sum_list (map fst rs)) (sum_list (map snd rs))"
proof -
  have "sum_list (map (\<lambda>r. fst r * c / d) rs') = sum_list (map fst rs') * c / d" for c d :: real and rs' :: "(real \<times> real) list"
    by (induction rs') (auto simp: distrib_right add_divide_distrib)
  then show ?thesis using assms by (simp add: rank_loss_def)
qed

lemma token_rows_concat:
  assumes "\<And>s t m. (s, t, m) \<in> set ranks \<Longrightarrow> length s = length t"
    and "map_res (\<lambda>(s, t, m). token_rows topk_of args s t) ranks = Inr outs"
  shows "token_rows topk_of args (concat (map fst ranks)) (concat (map (fst \<circ> snd) ranks)) = Inr (concat outs)"
  using assms
proof (induction ranks arbitrary: outs)
  case Nil
  then show ?case by (simp add: token_rows_def)
next
  case (Cons r ranks)
  obtain s t m where r: "r = (s, t, m)" by (cases r)
  have "length s = length t" using Cons.prems(1)[of s t m] by (simp add: r)
  moreover obtain o1 os where "token_rows topk_of args s t = Inr o1" "outs = o1 # os"
    "map_res (\<lambda>(s, t, m). token_rows topk_of args s t) ranks = Inr os"
    using Cons.prems(2) by (auto simp: r bind_res_Inr_iff)
  moreover from this
  have "token_rows topk_of args (concat (map fst ranks)) (concat (map (fst \<circ> snd) ranks)) = Inr (concat os)"
    by (intro Cons.IH) (use Cons.prems(1) in auto)
  ultimately show ?case by (simp add: r token_rows_def map_res_append comp_def)
qed

lemma rank_results:
  assumes "map_res (\<lambda>(s, t, m). forward_kl_topk_loss topk_of args D s t m) rs = Inr results"
    and "\<And>s t m. (s, t, m) \<in> set rs \<Longrightarrow> length s = length t \<and> length m = length s"
  shows "\<exists>outs. map_res (\<lambda>(s, t, m). token_rows topk_of args s t) rs = Inr outs \<and> length outs = length rs \<and>
      (\<forall>p \<in> set (zip outs rs). length (fst p) = length (snd (snd (snd p)))) \<and>
      results = map2 (\<lambda>o1 r. (rank_loss D (loss_numerator o1 (snd (snd r))) (msum (snd (snd r))), o1)) outs rs"
  using assms
proof (induction rs arbitrary: results)
  case Nil
  then show ?case by simp
next
  case (Cons r rs)
  obtain s t m where r: "r = (s, t, m)" by (cases r)
  have sh: "length s = length t" "length m = length s" using Cons.prems(2)[of s t m] by (auto simp: r)
  obtain o1 rest where o1: "token_rows topk_of args s t = Inr o1"
    and rest: "map_res (\<lambda>(s, t, m). forward_kl_topk_loss topk_of args D s t m) rs = Inr rest"
    and res: "results = (rank_loss D (loss_numerator o1 m) (msum m), o1) # rest"
    using Cons.prems(1) by (auto simp: r bind_res_Inr_iff forward_kl_topk_loss_alt)
  have len: "length o1 = length m"
    using map_res_length[OF o1[unfolded token_rows_def]] sh by simp
  obtain os where "map_res (\<lambda>(s, t, m). token_rows topk_of args s t) rs = Inr os" "length os = length rs"
    "\<forall>p \<in> set (zip os rs). length (fst p) = length (snd (snd (snd p)))"
    "rest = map2 (\<lambda>o1 r. (rank_loss D (loss_numerator o1 (snd (snd r))) (msum (snd (snd r))), o1)) os rs"
  proof -
    have "\<exists>outs. map_res (\<lambda>(s, t, m). token_rows topk_of args s t) rs = Inr outs \<and> length outs = length rs \<and>
      (\<forall>p \<in> set (zip outs rs). length (fst p) = length (snd (snd (snd p)))) \<and>
      rest = map2 (\<lambda>o1 r. (rank_loss D (loss_numerator o1 (snd (snd r))) (msum (snd (snd r))), o1)) outs rs"
      by (rule Cons.IH[OF rest]) (use Cons.prems(2) in auto)
    then show thesis using that by (elim exE conjE)
  qed
  with o1 len show ?case by (intro exI[of _ "o1 # os"]) (simp add: r res)
qed

lemma loss_numerator_concat:
  assumes "\<And>o1 m. (o1, m) \<in> set parts \<Longrightarrow> length o1 = length m"
  shows "loss_numerator (concat (map fst parts)) (concat (map snd parts)) =
         sum_list (map (\<lambda>(o1, m). loss_numerator o1 m) parts)"
  unfolding loss_numerator_def by (rule sum_map2_parts[OF assms])

text \<open>
  C2: the loss is a mean over the tokens of the whole batch, however the batch is spread over
  ranks.  With the process group initialised, the average over the ranks of their losses (what the
  gradient averaging forms) is the loss one process computes for all rows together, and the per-token
  outputs are the same.
\<close>

theorem opd_loss_global_mean:
  assumes "ranks \<noteq> []"
    and shapes: "\<And>s t m. (s, t, m) \<in> set ranks \<Longrightarrow> length s = length t \<and> length m = length s"
    and run: "map_res (\<lambda>(s, t, m). forward_kl_topk_loss topk_of args (Some (map (msum \<circ> snd \<circ> snd) ranks)) s t m) ranks = Inr results"
  shows "forward_kl_topk_loss topk_of args None (concat (map fst ranks)) (concat (map (fst \<circ> snd) ranks))
           (concat (map (snd \<circ> snd) ranks)) =
         Inr (sum_list (map fst results) / real (length ranks), concat (map snd results))"
proof -
  let ?dens = "map (msum \<circ> snd \<circ> snd) ranks"
  obtain outs where outs: "map_res (\<lambda>(s, t, m). token_rows topk_of args s t) ranks = Inr outs"
    "length outs = length ranks" "\<forall>p \<in> set (zip outs ranks). length (fst p) = length (snd (snd (snd p)))"
    and results: "results = map2 (\<lambda>o1 r. (rank_loss (Some ?dens) (loss_numerator o1 (snd (snd r))) (msum (snd (snd r))), o1)) outs ranks"
    using rank_results[OF run shapes] by blast
  define rs where "rs = map2 (\<lambda>o1 r. (loss_numerator o1 (snd (snd r)), msum (snd (snd r)))) outs ranks"
  have rows: "token_rows topk_of args (concat (map fst ranks)) (concat (map (fst \<circ> snd) ranks)) = Inr (concat outs)"
    by (rule token_rows_concat[OF _ outs(1)]) (use shapes in blast)
  have dens: "map snd rs = ?dens" using outs(2) by (auto simp: rs_def intro!: nth_equalityI)
  have fsts: "map fst results = map (\<lambda>r. rank_loss (Some (map snd rs)) (fst r) (snd r)) rs"
    unfolding dens by (simp add: results rs_def case_prod_unfold comp_def)
  have snds: "map snd results = outs" using outs(2) by (auto simp: results intro!: nth_equalityI)
  have num: "loss_numerator (concat outs) (concat (map (snd \<circ> snd) ranks)) = sum_list (map fst rs)"
  proof -
    have "map fst (zip outs (map (snd \<circ> snd) ranks)) = outs" "map snd (zip outs (map (snd \<circ> snd) ranks)) = map (snd \<circ> snd) ranks"
      using outs(2) by simp_all
    then show ?thesis
      using loss_numerator_concat[of "zip outs (map (snd \<circ> snd) ranks)"] outs(2,3)
      by (auto simp: rs_def zip_map2 case_prod_unfold comp_def)
  qed
  have den: "msum (concat (map (snd \<circ> snd) ranks)) = sum_list (map snd rs)"
    unfolding dens msum_concat by (simp add: comp_assoc)
  have "rs \<noteq> []" "length rs = length ranks" using assms(1) outs(2) by (auto simp: rs_def)
  then show ?thesis
    using rank_losses_mean[of rs] by (simp add: forward_kl_topk_loss_alt rows num den fsts snds)
qed

definition plain_opd_args :: "real \<Rightarrow> opd_args" where
  "plain_opd_args temperature = \<lparr> opd_topk = 1, opd_temperature = temperature, opd_alpha = 1,
     opd_log_prob_min_clamp = None, opd_loss_max_clamp = None \<rparr>"

definition two_rank_batch :: "(real list list list \<times> topk_row list list \<times> matrix) list" where
  "two_rank_batch = [([[[0, 0]]], [[([0], [1])]], [[1]]), ([[[0, 0], [0, 1]]], [[([0], [0]), ([0], [1])]], [[1, 1]])]"

corollary opd_loss_global_mean_witness:
  "\<exists>results. forward_kl_topk_loss (\<lambda>k lps. [0]) (plain_opd_args 1) None (concat (map fst two_rank_batch))
       (concat (map (fst \<circ> snd) two_rank_batch)) (concat (map (snd \<circ> snd) two_rank_batch)) =
     Inr (sum_list (map fst results) / real (length two_rank_batch), concat (map snd results))"
proof -
  have "\<exists>results. map_res (\<lambda>(s, t, m). forward_kl_topk_loss (\<lambda>k lps. [0]) (plain_opd_args 1)
      (Some (map (msum \<circ> snd \<circ> snd) two_rank_batch)) s t m) two_rank_batch = Inr results"
    by (simp add: two_rank_batch_def forward_kl_topk_loss_def topk_position_def gather_def log_softmax_def Let_def)
  then obtain results where "map_res (\<lambda>(s, t, m). forward_kl_topk_loss (\<lambda>k lps. [0]) (plain_opd_args 1)
      (Some (map (msum \<circ> snd \<circ> snd) two_rank_batch)) s t m) two_rank_batch = Inr results" ..
  note run = this
  show ?thesis
    by (rule exI, rule opd_loss_global_mean[OF _ _ run]) (auto simp: two_rank_batch_def)
qed

section \<open>Agreement with the teacher\<close>

lemma gather_length: "gather lps ids = Inr out \<Longrightarrow> length out = length ids"
  by (auto simp: gather_def map_res_length)

text \<open>
  With the \<open>hf\<close> teacher, a student whose logits are the teacher's has loss zero at every
  position and the same mass on the top-\<open>k\<close> tokens, for every temperature and every clamp.
\<close>

theorem opd_zero_at_teacher:
  assumes "hf_teacher_topk topk_of k temperature logits = Inr teacher"
    and "\<And>h. opd_loss_max_clamp args = Some h \<Longrightarrow> 0 < h"
  shows "\<exists>out. topk_position topk_of args (scale_logits temperature logits) teacher = Inr out \<and>
     tok_loss out = 0 \<and> tok_student_mass out = tok_teacher_mass out"
proof -
  from assms(1) obtain lps ids where t: "teacher = (lps, ids)"
    and g: "gather (log_softmax (scale_logits temperature logits)) ids = Inr lps"
    by (auto simp: hf_teacher_topk_def Let_def bind_res_Inr_iff)
  have "topk_token_loss args lps lps = 0"
    using assms(2) by (auto simp: topk_token_loss_def Let_def clamp_def split: option.splits)
  with g show ?thesis by (simp add: topk_position_def t Let_def)
qed

corollary opd_zero_at_teacher_witness:
  "\<exists>out. topk_position (\<lambda>k lps. [1]) default_opd_args (scale_logits 2 [0, 1])
      ([1 / 2 - ln (exp (1 / 2) + 1)], [1]) = Inr out \<and>
     tok_loss out = 0 \<and> tok_student_mass out = tok_teacher_mass out"
  by (rule opd_zero_at_teacher[of _ 1])
     (simp_all add: hf_teacher_topk_def gather_def log_softmax_def scale_logits_def Let_def default_opd_args_def add.commute)

text \<open>
  The remote teacher is always asked at temperature 1, while the student is scaled by
  \<open>opd_temperature\<close>: with temperature 2 a student that equals the teacher still has a positive loss.
\<close>

theorem remote_teacher_ignores_temperature:
  "hf_teacher_topk (\<lambda>k lps. [1]) 1 1 [0, ln 3] = Inr ([ln (3 / 4)], [1]) \<and>
   (\<exists>out. topk_position (\<lambda>k lps. [1]) (plain_opd_args 2) (scale_logits 2 [0, ln 3]) ([ln (3 / 4)], [1]) = Inr out \<and>
      0 < tok_loss out)"
proof -
  define s where "s = exp (ln 3 / 2 :: real)"
  have s: "1 < s" "s * s = 3" by (simp_all add: s_def flip: exp_add)
  have "4 < s * (1 + s)" using s by (simp add: distrib_left)
  then have "4 / (1 + s) < s" using s(1) by (simp add: divide_less_eq)
  then have "ln (4 / (1 + s)) < ln s" using s(1) by (subst ln_less_cancel_iff) simp_all
  then have "ln 4 - ln (1 + s) < ln 3 / 2"
    using s(1) by (simp add: ln_div) (simp add: s_def)
  then have "0 < ln (3 / 4) - (ln 3 / 2 - ln (1 + s))" by (simp add: ln_div)
  then show ?thesis
    by (simp add: hf_teacher_topk_def topk_position_def gather_def log_softmax_def scale_logits_def Let_def
        topk_token_loss_def plain_opd_args_def clamp_min_def forward_kl_def ln_div flip: s_def)
qed

section \<open>Collective operations\<close>

text \<open>
  The number of all-reduces a rank issues depends on its own rollout: a rank without any
  response token leaves the step before the all-reduce of the loss denominators, every other
  rank that finishes the step issues it.  Ranks that disagree on this wait for each other forever.
\<close>

theorem opd_all_reduces_depend_on_rollout:
  assumes "opd_compute_loss topk_of args (Some dens) pad eos has_teacher (Inr sequences) student sft_loss
      teacher_topk prompt_width prompt_masks = Inr outcome"
    and "shift_completion_mask (case sequences of [] \<Rightarrow> 0 | row # _ \<Rightarrow> length row - 1)
      (completion_mask pad eos sequences prompt_width) prompt_width = Inr rmask"
  shows "out_all_reduces outcome = (if \<exists>row \<in> set rmask. True \<in> set row then 1 else 0)"
proof (cases "\<exists>row \<in> set rmask. True \<in> set row")
  case True
  with assms show ?thesis
    by (auto simp: opd_compute_loss_def Let_def bind_res_Inr_iff split: if_splits)
next
  case False
  with assms show ?thesis
    by (auto simp: opd_compute_loss_def Let_def split: if_splits)
qed

corollary opd_all_reduces_depend_on_rollout_witness:
  "out_all_reduces \<lparr> out_loss = 0, out_all_reduces = 0 \<rparr> =
     (if \<exists>row \<in> set [[False, False]]. True \<in> set row then 1 else 0)"
  by (rule opd_all_reduces_depend_on_rollout[of "\<lambda>k lps. [0]" "plain_opd_args 1" "[0, 3]" 0 "Some 2" True "[[5, 6, 0]]"
        "\<lambda>s a. []" 1 "\<lambda>s a r. Inr []" 2 "[[True, True]]"])
     (simp_all add: opd_compute_loss_def Let_def completion_mask_def completion_mask_row_def
        before_or_at_first_eos_def shift_completion_mask_def shift_mask_row_def)

end
