(* ===== verification/VerlPadding.thy ===== *)
theory VerlPadding
  imports Prelude
begin

text \<open>
  Packed sequences.  verl trains without padding: the real tokens of a batch are packed into one
  sequence with cumulative lengths, and what the model returns for the packed tokens is cut back to the
  responses.  This theory models \<open>npu_flash_attn_utils.py\<close> (packing by an attention mask and its
  inverse), \<open>workers/utils/padding.py\<close> (the conversions between the padded and the packed batch) and the
  padding and slicing for sequence parallelism in \<open>utils/ulysses.py\<close>, all under \<open>src/verl_new/verl\<close>.
\<close>

named_theorems pad_simps

section \<open>Packing by a mask\<close>

text \<open>\<open>torch.nonzero(mask)\<close> of a flat mask, and the elements at these positions.\<close>

definition nonzero :: "nat list \<Rightarrow> nat list" where
  "nonzero msk = filter (\<lambda>i. msk ! i \<noteq> 0) [0..<length msk]"

definition index_first_axis :: "'a list \<Rightarrow> nat list \<Rightarrow> 'a list result" where
  "index_first_axis xs idx = map_res (\<lambda>i. if i < length xs then Inr (xs ! i) else Inl RuntimeError) idx"

text \<open>\<open>F.pad(torch.cumsum(lens), (1, 0))\<close>: where each sequence begins, and the total.\<close>

fun offsets_from :: "nat \<Rightarrow> nat list \<Rightarrow> nat list" where
  "offsets_from s [] = [s]"
| "offsets_from s (n # ns) = s # offsets_from (s + n) ns"

definition cu_seqlens_of :: "nat list \<Rightarrow> nat list" where
  "cu_seqlens_of lens = offsets_from 0 lens"

record 'a unpadded =
  up_hidden :: "'a list"
  up_indices :: "nat list"
  up_cu_seqlens :: "nat list"
  up_max_seqlen :: nat
  up_used :: "nat list"

definition unpad_input :: "'a list list \<Rightarrow> nat list list \<Rightarrow> nat list list option \<Rightarrow> 'a unpadded result" where
  "unpad_input hidden_states attention_mask unused_mask =
     (let all_masks = (case unused_mask of None \<Rightarrow> attention_mask | Some u \<Rightarrow> map2 (map2 (+)) attention_mask u);
          seqlens_in_batch = map sum_list all_masks;
          used_seqlens_in_batch = map sum_list attention_mask;
          idx = nonzero (concat all_masks)
      in if seqlens_in_batch = [] then Inl RuntimeError
         else bind_res (index_first_axis (concat hidden_states) idx) (\<lambda>hidden.
           Inr \<lparr> up_hidden = hidden, up_indices = idx, up_cu_seqlens = cu_seqlens_of seqlens_in_batch,
                 up_max_seqlen = foldl max 0 seqlens_in_batch, up_used = used_seqlens_in_batch \<rparr>))"

definition index_put_first_axis :: "'a \<Rightarrow> 'a list \<Rightarrow> nat list \<Rightarrow> nat \<Rightarrow> 'a list result" where
  "index_put_first_axis zero vals idx first_axis_dim =
     (if length vals \<noteq> length idx then Inl RuntimeError
      else if \<exists>i \<in> set idx. first_axis_dim \<le> i then Inl IndexError
      else Inr (foldl (\<lambda>out (i, x). out[i := x]) (replicate first_axis_dim zero) (zip idx vals)))"

definition pad_input :: "'a \<Rightarrow> 'a list \<Rightarrow> nat list \<Rightarrow> nat \<Rightarrow> nat \<Rightarrow> 'a list list result" where
  "pad_input zero hidden_states idx batch seqlen =
     bind_res (index_put_first_axis zero hidden_states idx (batch * seqlen)) (\<lambda>out.
       Inr (map (\<lambda>b. take seqlen (drop (b * seqlen) out)) [0..<batch]))"

section \<open>The packed batch\<close>

text \<open>A jagged nested tensor: all rows one after the other, and where they begin.\<close>

record 'a nested =
  nt_values :: "'a list"
  nt_offsets :: "nat list"

definition as_nested :: "'a list list \<Rightarrow> 'a nested" where
  "as_nested xss = \<lparr> nt_values = concat xss, nt_offsets = cu_seqlens_of (map length xss) \<rparr>"

fun len_diffs :: "nat list \<Rightarrow> nat list" where
  "len_diffs (a # b # ns) = (b - a) # len_diffs (b # ns)"
| "len_diffs ns = []"

definition nt_lens :: "'a nested \<Rightarrow> nat list" where
  "nt_lens t = len_diffs (nt_offsets t)"

text \<open>\<open>xs[mask]\<close> with a boolean mask.\<close>

definition select_mask :: "nat list \<Rightarrow> 'a list \<Rightarrow> 'a list" where
  "select_mask msk xs = map snd (filter (\<lambda>(m, x). m \<noteq> 0) (zip msk xs))"

text \<open>Position ids of one row: one per token, or four rows of them for a vision-language model.\<close>

datatype position_row = Flat_positions "nat list" | Rope_positions "nat list list"

fun valid_positions :: "nat list \<Rightarrow> position_row \<Rightarrow> position_row" where
  "valid_positions msk (Flat_positions ps) = Flat_positions (select_mask msk ps)"
| "valid_positions msk (Rope_positions pss) = Rope_positions (map (select_mask msk) pss)"

text \<open>The padded batch; a key that is missing is \<open>None\<close>.\<close>

record ('t, 'e) padded_batch =
  pb_input_ids :: "int list list option"
  pb_attention_mask :: "nat list list option"
  pb_response_mask :: "nat list list option"
  pb_position_ids :: "position_row list option"
  pb_routed_experts :: "'e list list option"
  pb_teacher_logprobs :: "'t list list option"
  pb_teacher_ids :: "int list list list option"

record ('t, 'e) packed_batch =
  kb_input_ids :: "int nested"
  kb_position_ids :: "position_row list"
  kb_attention_mask :: "nat list list"
  kb_response_mask :: "nat list list"
  kb_loss_mask :: "nat list list"
  kb_max_seq_len :: nat
  kb_max_response_len :: nat
  kb_indices :: "nat list"
  kb_routed_experts :: "'e nested option"
  kb_teacher_logprobs :: "'t nested option"
  kb_teacher_ids :: "int list nested option"

definition width :: "'a list list \<Rightarrow> nat" where
  "width xss = (case xss of [] \<Rightarrow> 0 | xs # _ \<Rightarrow> length xs)"

definition pack_rows :: "nat list \<Rightarrow> nat list \<Rightarrow> 'a list list \<Rightarrow> 'a nested result" where
  "pack_rows idx cu_seqlens xss =
     bind_res (index_first_axis (concat xss) idx) (\<lambda>vals. Inr \<lparr> nt_values = vals, nt_offsets = cu_seqlens \<rparr>)"

definition left_right_2_no_padding :: "('t, 'e) padded_batch \<Rightarrow> ('t, 'e) packed_batch result" where
  "left_right_2_no_padding d =
     (case (pb_input_ids d, pb_attention_mask d, pb_response_mask d, pb_position_ids d) of
        (Some input_ids, Some attention_mask, Some response_mask, Some position_ids) \<Rightarrow>
          bind_res (unpad_input input_ids attention_mask None) (\<lambda>up.
          let pack_opt = (\<lambda>x. case x of None \<Rightarrow> Inr None
                | Some xss \<Rightarrow> bind_res (pack_rows (up_indices up) (up_cu_seqlens up) xss) (\<lambda>t. Inr (Some t)))
          in bind_res (pack_opt (pb_routed_experts d)) (\<lambda>experts.
             bind_res (case (pb_teacher_logprobs d, pb_teacher_ids d) of
                  (Some lps, Some ids) \<Rightarrow>
                    bind_res (pack_rows (up_indices up) (up_cu_seqlens up) lps) (\<lambda>l.
                    bind_res (pack_rows (up_indices up) (up_cu_seqlens up) ids) (\<lambda>i. Inr (Some l, Some i)))
                | _ \<Rightarrow> Inr (None, None)) (\<lambda>(lps, ids).
             Inr \<lparr> kb_input_ids = \<lparr> nt_values = up_hidden up, nt_offsets = up_cu_seqlens up \<rparr>,
                   kb_position_ids = map2 valid_positions attention_mask position_ids,
                   kb_attention_mask = attention_mask, kb_response_mask = response_mask, kb_loss_mask = response_mask,
                   kb_max_seq_len = width input_ids, kb_max_response_len = width response_mask,
                   kb_indices = up_indices up, kb_routed_experts = experts,
                   kb_teacher_logprobs = lps, kb_teacher_ids = ids \<rparr>)))
      | _ \<Rightarrow> Inl AssertionError)"

section \<open>Cutting the responses out again\<close>

text \<open>How the lengths of prompts and responses are known: from nested tensors or from the padded attention mask.\<close>

datatype batch_layout =
    Nested_layout (prompt_offsets: "nat list") (response_offsets: "nat list") (stored_max: "nat option")
  | Padded_layout (layout_mask: "nat list list") (prompt_width: nat) (response_width: nat)

fun layout_lens :: "batch_layout \<Rightarrow> (nat list \<times> nat list \<times> nat) result" where
  "layout_lens (Nested_layout po ro mx) =
     (case mx of
        Some m \<Rightarrow> Inr (len_diffs po, len_diffs ro, m)
      | None \<Rightarrow> if len_diffs ro = [] then Inl RuntimeError else Inr (len_diffs po, len_diffs ro, foldl max 0 (len_diffs ro)))"
| "layout_lens (Padded_layout msk pw rw) =
     Inr (map (\<lambda>r. sum_list (take pw r)) msk, map (\<lambda>r. sum_list (drop pw r)) msk, rw)"

text \<open>\<open>F.pad(x, (0, n))\<close>: a negative amount crops, and cropping more than there is raises.\<close>

definition pad_right :: "'a \<Rightarrow> 'a list \<Rightarrow> int \<Rightarrow> 'a list result" where
  "pad_right zero xs n =
     (if int (length xs) + n < 0 then Inl RuntimeError
      else if n < 0 then Inr (take (nat (int (length xs) + n)) xs)
      else Inr (xs @ replicate (nat n) zero))"

text \<open>\<open>torch.stack\<close> of the rows.\<close>

definition stack :: "'a list list \<Rightarrow> 'a list list result" where
  "stack xss = (if xss = [] \<or> (\<exists>xs \<in> set xss. length xs \<noteq> length (hd xss)) then Inl RuntimeError else Inr xss)"

definition response_slice :: "'a list \<Rightarrow> nat \<Rightarrow> nat \<Rightarrow> 'a list" where
  "response_slice vals resp_len seq_offset =
     py_slice vals (Some (int seq_offset - int resp_len - 1)) (Some (int seq_offset - 1))"

definition no_padding_2_padding :: "'a \<Rightarrow> 'a list \<Rightarrow> batch_layout \<Rightarrow> 'a list list result" where
  "no_padding_2_padding zero vals layout =
     bind_res (layout_lens layout) (\<lambda>(prompt_lens, response_lens, max_response_len).
       let sequence_lens = map2 (+) prompt_lens response_lens;
           sequence_offsets = tl (cu_seqlens_of sequence_lens)
       in if sequence_offsets = [] then Inl IndexError
          else asserting (last sequence_offsets = length vals)
              (asserting (0 \<notin> set prompt_lens)
                (if length response_lens \<noteq> length sequence_offsets then Inl ValueError
                 else bind_res (map_res (\<lambda>(resp_len, seq_offset).
                          pad_right zero (response_slice vals resp_len seq_offset) (int max_response_len - int resp_len))
                        (zip response_lens sequence_offsets)) stack)))"

definition response_from_nested :: "'a nested \<Rightarrow> nat list \<Rightarrow> 'a nested result" where
  "response_from_nested t response_mask_offsets =
     (let response_lens = len_diffs response_mask_offsets
      in if length response_lens \<noteq> length (tl (nt_offsets t)) then Inl ValueError
         else Inr (as_nested (map2 (response_slice (nt_values t)) response_lens (tl (nt_offsets t)))))"

definition response_to_nested :: "'a list list \<Rightarrow> nat list \<Rightarrow> 'a nested result" where
  "response_to_nested tensor response_mask_offsets =
     bind_res (map_res (\<lambda>(i, row). bind_res (py_index (len_diffs response_mask_offsets) (int i)) (\<lambda>n. Inr (take n row)))
       (zip [0..<length tensor] tensor)) (\<lambda>rows. Inr (as_nested rows))"

definition build_attention_mask_from_nested :: "'a nested \<Rightarrow> nat option \<Rightarrow> nat list list" where
  "build_attention_mask_from_nested t max_seq_len =
     (let n = (case max_seq_len of Some m \<Rightarrow> m | None \<Rightarrow> foldl max 0 (nt_lens t))
      in map (\<lambda>l. map (\<lambda>p. if p < l then 1 else 0) [0..<n]) (nt_lens t))"

definition to_nested :: "'a list list \<Rightarrow> nat list list \<Rightarrow> 'a nested \<times> bool nested" where
  "to_nested embeds msk =
     (as_nested (map2 select_mask msk embeds),
      as_nested (map (\<lambda>row. let curr_mask = map (\<lambda>m. m \<noteq> 0) row in filter (\<lambda>b. b) curr_mask) msk))"

section \<open>Sequence parallelism\<close>

definition pad_tensor :: "'a \<Rightarrow> 'a list \<Rightarrow> nat \<Rightarrow> 'a list" where
  "pad_tensor zero xs padding_size = xs @ replicate padding_size zero"

definition unpad_tensor :: "'a list \<Rightarrow> nat \<Rightarrow> 'a list" where
  "unpad_tensor xs padding_size = py_slice xs (Some 0) (Some (- int padding_size))"

definition slice_input_tensor :: "'a \<Rightarrow> bool \<Rightarrow> nat \<Rightarrow> nat \<Rightarrow> 'a list \<Rightarrow> 'a list" where
  "slice_input_tensor zero padding sp_world_size sp_rank xs =
     (let dim_size = length xs;
          padded = (if padding \<and> dim_size mod sp_world_size \<noteq> 0
                    then pad_tensor zero xs (sp_world_size - dim_size mod sp_world_size) else xs);
          parts = length padded div sp_world_size
      in take ((sp_rank + 1) * parts - sp_rank * parts) (drop (sp_rank * parts) padded))"

definition ulysses_pad :: "'a \<Rightarrow> 'a list \<Rightarrow> nat list option \<Rightarrow> nat \<Rightarrow> ('a list \<times> nat list option \<times> nat) result" where
  "ulysses_pad pad_value input_ids position_ids sp_size =
     asserting (case position_ids of None \<Rightarrow> True | Some ps \<Rightarrow> length input_ids = length ps)
       (if sp_size \<le> 1 then Inr (input_ids, position_ids, 0)
        else let total_seq_len = length input_ids;
                 pad_size = (sp_size - total_seq_len mod sp_size) mod sp_size
             in Inr (if 0 < pad_size
                     then (input_ids @ replicate pad_size pad_value, map_option (\<lambda>ps. ps @ [0..<pad_size]) position_ids, pad_size)
                     else (input_ids, position_ids, pad_size)))"

definition ulysses_pad_and_slice_inputs ::
  "'a \<Rightarrow> nat \<Rightarrow> 'a list \<Rightarrow> nat list option \<Rightarrow> nat \<Rightarrow> bool \<Rightarrow> ('a list \<times> nat list option \<times> nat) result" where
  "ulysses_pad_and_slice_inputs pad_value sp_rank input_ids position_ids sp_size skip_position_ids =
     bind_res (ulysses_pad pad_value input_ids position_ids sp_size) (\<lambda>(ids, ps, pad_size).
       Inr (slice_input_tensor pad_value False sp_size sp_rank ids,
            (if skip_position_ids then ps else map_option (slice_input_tensor 0 False sp_size sp_rank) ps),
            pad_size))"

text \<open>\<open>Gather\<close> concatenates what the ranks hold.\<close>

definition gather_outputs_and_unpad :: "'a list list \<Rightarrow> nat option \<Rightarrow> 'a list" where
  "gather_outputs_and_unpad ranks padding_size =
     (let x = concat ranks
      in case padding_size of None \<Rightarrow> x | Some n \<Rightarrow> if n = 0 then x else unpad_tensor x n)"

section \<open>Packing and unpacking rows\<close>

lemma select_mask_Nil [simp, pad_simps]: "select_mask [] xs = []" "select_mask ms [] = []"
  by (simp_all add: select_mask_def)

lemma select_mask_Cons [simp, pad_simps]:
  "select_mask (m # ms) (x # xs) = (if m = 0 then [] else [x]) @ select_mask ms xs"
  by (simp add: select_mask_def)

lemma select_mask_append:
  "length ms = length xs \<Longrightarrow> select_mask (ms @ ms') (xs @ xs') = select_mask ms xs @ select_mask ms' xs'"
  by (induction ms xs rule: list_induct2) simp_all

lemma select_mask_concat:
  assumes "\<And>m x. (m, x) \<in> set (zip mss xss) \<Longrightarrow> length m = length x" and "length mss = length xss"
  shows "select_mask (concat mss) (concat xss) = concat (map2 select_mask mss xss)"
  using assms(2,1) by (induction mss xss rule: list_induct2) (auto simp: select_mask_append)

lemma select_mask_replicate [simp, pad_simps]:
  "select_mask (replicate n 0) xs = []" "c \<noteq> 0 \<Longrightarrow> select_mask (replicate n c) xs = take n xs"
  by (induction n arbitrary: xs; case_tac xs; simp)+

lemma nonzero_select:
  assumes "length msk = length xs"
  shows "index_first_axis xs (nonzero msk) = Inr (select_mask msk xs)"
proof -
  have "select_mask msk xs = map (\<lambda>i. xs ! i) (nonzero msk)"
    using assms
  proof (induction msk xs rule: list_induct2)
    case (Cons m ms x xs)
    have "nonzero (m # ms) = (if m = 0 then [] else [0]) @ map Suc (nonzero ms)"
      by (simp add: nonzero_def upt_conv_Cons filter_map comp_def flip: map_Suc_upt del: upt_Suc)
    then show ?case using Cons.IH by (simp add: comp_def)
  qed (simp add: nonzero_def)
  moreover have "i < length xs" if "i \<in> set (nonzero msk)" for i using that assms by (simp add: nonzero_def)
  ultimately show ?thesis
    unfolding index_first_axis_def by (simp add: map_res_all_ok)
qed

lemma length_offsets_from [simp, pad_simps]: "length (offsets_from s ns) = Suc (length ns)"
  by (induction s ns rule: offsets_from.induct) simp_all

lemma offsets_from_nth: "i \<le> length ns \<Longrightarrow> offsets_from s ns ! i = s + sum_list (take i ns)"
  by (induction s ns arbitrary: i rule: offsets_from.induct) (auto simp: nth_Cons split: nat.splits)

lemma cu_seqlens_nth: "i < length ns \<Longrightarrow> tl (cu_seqlens_of ns) ! i = sum_list (take (Suc i) ns)"
  by (simp add: cu_seqlens_of_def nth_tl offsets_from_nth)

lemma length_cu_seqlens [simp, pad_simps]: "length (cu_seqlens_of ns) = Suc (length ns)"
  by (simp add: cu_seqlens_of_def)

lemma last_cu_seqlens: "ns \<noteq> [] \<Longrightarrow> last (tl (cu_seqlens_of ns)) = sum_list ns"
proof -
  assume ne: "ns \<noteq> []"
  then have "tl (cu_seqlens_of ns) \<noteq> []" by (metis length_cu_seqlens length_tl diff_Suc_1 length_0_conv)
  then have "last (tl (cu_seqlens_of ns)) = tl (cu_seqlens_of ns) ! (length ns - 1)" by (simp add: last_conv_nth)
  also have "\<dots> = sum_list ns" using ne cu_seqlens_nth[of "length ns - 1" ns] by simp
  finally show ?thesis .
qed

lemma len_diffs_offsets [simp, pad_simps]: "len_diffs (cu_seqlens_of ns) = ns"
proof -
  have "len_diffs (offsets_from s ns) = ns" for s
  proof (induction s ns rule: offsets_from.induct)
    case (2 s n ns)
    then show ?case by (cases ns) simp_all
  qed simp
  then show ?thesis by (simp add: cu_seqlens_of_def)
qed

text \<open>The tokens before the end of part \<open>i\<close> of a concatenation.\<close>

lemma take_drop_concat:
  assumes i: "i < length parts" and r: "r < length (parts ! i)"
  shows "take r (drop (sum_list (take (Suc i) (map length parts)) - r - 1) (concat parts)) =
    take r (drop (length (parts ! i) - r - 1) (parts ! i))"
proof -
  have split: "concat parts = concat (take i parts) @ parts ! i @ concat (drop (Suc i) parts)"
    using i by (metis concat.simps(2) concat_append id_take_nth_drop)
  have "sum_list (take (Suc i) (map length parts)) = length (concat (take i parts)) + length (parts ! i)"
    using i by (simp add: take_Suc_conv_app_nth length_concat take_map)
  then have "drop (sum_list (take (Suc i) (map length parts)) - r - 1) (concat parts) =
      drop (length (parts ! i) - r - 1) (parts ! i) @ concat (drop (Suc i) parts)"
    using r unfolding split by (simp del: append_assoc add: append_assoc[symmetric])
  then show ?thesis using r by simp
qed

lemma response_slice_eq:
  assumes "r < off" and "off \<le> length vals"
  shows "response_slice vals r off = take r (drop (off - r - 1) vals)"
proof -
  have "slice_bound (length vals) (int off - int r - 1) = off - r - 1" "slice_bound (length vals) (int off - 1) = off - 1"
    using assms by (auto simp: slice_bound_def min_def)
  moreover have "off - 1 - (off - r - 1) = r" using assms(1) by simp
  ultimately show ?thesis by (simp only: response_slice_def py_slice_def Let_def option.case)
qed

lemma response_slice_concat:
  assumes "i < length parts" and "r < length (parts ! i)"
  shows "response_slice (concat parts) r (sum_list (take (Suc i) (map length parts))) =
    take r (drop (length (parts ! i) - r - 1) (parts ! i))"
proof -
  have le: "sum_list (take (Suc i) (map length parts)) \<le> length (concat parts)"
    using sum_list_append[of "take (Suc i) (map length parts)" "drop (Suc i) (map length parts)"] by (simp add: length_concat)
  have "length (parts ! i) \<le> sum_list (take (Suc i) (map length parts))"
    using assms(1) by (simp add: take_Suc_conv_app_nth)
  with assms(2) have lt: "r < sum_list (take (Suc i) (map length parts))" by simp
  show ?thesis unfolding response_slice_eq[OF lt le] by (rule take_drop_concat[OF assms])
qed

section \<open>Responses come back where they were\<close>

text \<open>The mask of a row with \<open>p\<close> prompt tokens padded on the left and \<open>r\<close> response tokens padded on the right.\<close>

definition left_right_mask :: "nat \<Rightarrow> nat \<Rightarrow> nat \<times> nat \<Rightarrow> nat list" where
  "left_right_mask pw rw pr =
     replicate (pw - fst pr) 0 @ replicate (fst pr) 1 @ replicate (snd pr) 1 @ replicate (rw - snd pr) 0"

definition lens_ok :: "nat \<Rightarrow> nat \<Rightarrow> (nat \<times> nat) list \<Rightarrow> bool" where
  "lens_ok pw rw lens \<longleftrightarrow> lens \<noteq> [] \<and> (\<forall>pr \<in> set lens. 1 \<le> fst pr \<and> fst pr \<le> pw \<and> snd pr \<le> rw)"

text \<open>The real tokens of a padded row.\<close>

definition real_part :: "nat \<Rightarrow> nat \<times> nat \<Rightarrow> 'a list \<Rightarrow> 'a list" where
  "real_part pw pr xs = take (fst pr + snd pr) (drop (pw - fst pr) xs)"

lemma lens_okD:
  "lens_ok pw rw lens \<Longrightarrow> i < length lens \<Longrightarrow> 1 \<le> fst (lens ! i) \<and> fst (lens ! i) \<le> pw \<and> snd (lens ! i) \<le> rw"
  by (simp add: lens_ok_def)

lemma left_right_mask_facts:
  assumes "fst pr \<le> pw" and "snd pr \<le> rw"
  shows "length (left_right_mask pw rw pr) = pw + rw"
    and "sum_list (take pw (left_right_mask pw rw pr)) = fst pr"
    and "sum_list (drop pw (left_right_mask pw rw pr)) = snd pr"
    and "sum_list (left_right_mask pw rw pr) = fst pr + snd pr"
  using assms by (simp_all add: left_right_mask_def sum_list_replicate)

lemma select_left_right:
  assumes "fst pr \<le> pw" and "snd pr \<le> rw" and "length xs = pw + rw"
  shows "select_mask (left_right_mask pw rw pr) xs = real_part pw pr xs"
proof -
  let ?a = "pw - fst pr" and ?n = "fst pr + snd pr"
  have xs: "xs = take ?a xs @ take ?n (drop ?a xs) @ drop ?n (drop ?a xs)" by (metis append_take_drop_id)
  have m: "left_right_mask pw rw pr = replicate ?a 0 @ replicate ?n 1 @ replicate (rw - snd pr) 0"
    by (simp add: left_right_mask_def replicate_add)
  show ?thesis
    unfolding m by (subst xs) (use assms in \<open>simp add: select_mask_append real_part_def\<close>)
qed

lemma pack_left_right:
  assumes ok: "lens_ok pw rw lens" and rows: "length rows = length lens" "\<forall>row \<in> set rows. length row = pw + rw"
  shows "pack_rows (nonzero (concat (map (left_right_mask pw rw) lens))) cu rows =
    Inr \<lparr> nt_values = concat (map2 (real_part pw) lens rows), nt_offsets = cu \<rparr>"
proof -
  let ?ms = "map (left_right_mask pw rw) lens"
  have fit: "length m = length x" if "(m, x) \<in> set (zip ?ms rows)" for m x
    using that rows ok by (auto simp: in_set_zip lens_ok_def left_right_mask_facts)
  have "map length ?ms = map length rows"
    using rows lens_okD[OF ok] by (intro nth_equalityI) (simp_all add: left_right_mask_facts)
  then have "length (concat ?ms) = length (concat rows)" by (simp only: length_concat)
  then have "index_first_axis (concat rows) (nonzero (concat ?ms)) = Inr (concat (map2 select_mask ?ms rows))"
    using select_mask_concat[of ?ms rows] fit rows(1) by (simp add: nonzero_select)
  moreover have "map2 select_mask ?ms rows = map2 (real_part pw) lens rows"
    using ok rows by (intro nth_equalityI) (auto simp: lens_ok_def select_left_right)
  ultimately show ?thesis by (simp add: pack_rows_def)
qed

lemma length_real_parts:
  assumes ok: "lens_ok pw rw lens" and rows: "length rows = length lens" "\<forall>row \<in> set rows. length row = pw + rw"
  shows "map length (map2 (real_part pw) lens rows) = map (\<lambda>pr. fst pr + snd pr) lens"
proof (rule nth_equalityI)
  fix i assume "i < length (map length (map2 (real_part pw) lens rows))"
  then have i: "i < length lens" by simp
  have "fst (lens ! i) + snd (lens ! i) \<le> pw + rw - (pw - fst (lens ! i))" using lens_okD[OF ok i] by linarith
  then show "map length (map2 (real_part pw) lens rows) ! i = map (\<lambda>pr. fst pr + snd pr) lens ! i"
    using i rows by (simp add: real_part_def)
qed (use rows in simp)

lemma response_of_part:
  assumes "1 \<le> fst pr" and "fst pr \<le> pw" and "snd pr \<le> rw" and "length xs = pw + rw"
  shows "take (snd pr) (drop (length (real_part pw pr xs) - snd pr - 1) (real_part pw pr xs)) =
    take (snd pr) (drop (pw - 1) xs)"
proof -
  have "pw - fst pr + (fst pr - 1) = pw - 1" using assms(1,2) by simp
  then show ?thesis using assms by (simp add: real_part_def min_def drop_take add.commute)
qed

lemma response_slices:
  assumes ok: "lens_ok pw rw lens" and rows: "length rows = length lens" "\<forall>row \<in> set rows. length row = pw + rw"
    and i: "i < length lens"
  shows "response_slice (concat (map2 (real_part pw) lens rows)) (snd (lens ! i))
      (tl (cu_seqlens_of (map (\<lambda>pr. fst pr + snd pr) lens)) ! i) =
    take (snd (lens ! i)) (drop (pw - 1) (rows ! i))"
proof -
  let ?parts = "map2 (real_part pw) lens rows"
  have pr: "1 \<le> fst (lens ! i)" "fst (lens ! i) \<le> pw" "snd (lens ! i) \<le> rw" "length (rows ! i) = pw + rw"
    using ok rows i by (simp_all add: lens_ok_def)
  note lens = length_real_parts[OF ok rows]
  have part: "?parts ! i = real_part pw (lens ! i) (rows ! i)" using i rows(1) by simp
  have "length (?parts ! i) = fst (lens ! i) + snd (lens ! i)"
    using arg_cong[OF lens, of "\<lambda>xs. xs ! i"] i rows(1) by simp
  then have lt: "snd (lens ! i) < length (?parts ! i)" using pr(1) by simp
  have "tl (cu_seqlens_of (map (\<lambda>pr. fst pr + snd pr) lens)) ! i = sum_list (take (Suc i) (map length ?parts))"
    unfolding lens using i by (simp add: cu_seqlens_nth)
  then have "response_slice (concat ?parts) (snd (lens ! i)) (tl (cu_seqlens_of (map (\<lambda>pr. fst pr + snd pr) lens)) ! i) =
      take (snd (lens ! i)) (drop (length (?parts ! i) - snd (lens ! i) - 1) (?parts ! i))"
    using response_slice_concat[of i ?parts "snd (lens ! i)"] i rows(1) lt by simp
  then show ?thesis unfolding part response_of_part[OF pr] .
qed

lemma stack_same_width: "xss \<noteq> [] \<Longrightarrow> (\<And>xs. xs \<in> set xss \<Longrightarrow> length xs = w) \<Longrightarrow> stack xss = Inr xss"
  by (simp add: stack_def)

lemma no_padding_2_padding_left_right:
  assumes ok: "lens_ok pw rw lens" and rows: "length rows = length lens" "\<forall>row \<in> set rows. length row = pw + rw"
  shows "no_padding_2_padding zero (concat (map2 (real_part pw) lens rows)) (Padded_layout (map (left_right_mask pw rw) lens) pw rw) =
    Inr (map2 (\<lambda>pr row. take (snd pr) (drop (pw - 1) row) @ replicate (rw - snd pr) zero) lens rows)"
proof -
  let ?vals = "concat (map2 (real_part pw) lens rows)" and ?offs = "tl (cu_seqlens_of (map (\<lambda>pr. fst pr + snd pr) lens))"
  let ?out = "map2 (\<lambda>pr row. take (snd pr) (drop (pw - 1) row) @ replicate (rw - snd pr) zero) lens rows"
  have pr: "1 \<le> fst (lens ! i) \<and> fst (lens ! i) \<le> pw \<and> snd (lens ! i) \<le> rw \<and> length (rows ! i) = pw + rw"
    if "i < length lens" for i
    using ok rows that by (simp add: lens_ok_def)
  have ne: "lens \<noteq> []" using ok by (simp add: lens_ok_def)
  have pl: "map (\<lambda>r. sum_list (take pw r)) (map (left_right_mask pw rw) lens) = map fst lens"
    and rl: "map (\<lambda>r. sum_list (drop pw r)) (map (left_right_mask pw rw) lens) = map snd lens"
    using ok by (auto simp: lens_ok_def left_right_mask_facts)
  have sl: "map2 (+) (map fst lens) (map snd lens) = map (\<lambda>pr. fst pr + snd pr) lens"
    by (rule nth_equalityI) (simp_all add: case_prod_beta)
  have len_offs: "length ?offs = length lens" by simp
  then have "?offs \<noteq> []" using ne by (metis length_0_conv)
  note offs = this len_offs
  have total: "last ?offs = length ?vals"
    using ne by (simp add: last_cu_seqlens length_concat length_real_parts[OF ok rows] del: map_map)
  have "map_res (\<lambda>(n, off). pad_right zero (response_slice ?vals n off) (int rw - int n)) (zip (map snd lens) ?offs) = Inr ?out"
  proof (rule map_resI)
    fix i assume "i < length (zip (map snd lens) ?offs)"
    then have i: "i < length lens" by simp
    have "nat (int rw - int (snd (lens ! i))) = rw - snd (lens ! i)" by simp
    then show "(\<lambda>(n, off). pad_right zero (response_slice ?vals n off) (int rw - int n)) (zip (map snd lens) ?offs ! i) = Inr (?out ! i)"
      using pr[OF i] i rows(1) offs(2) by (simp add: response_slices[OF ok rows i] pad_right_def)
  qed (use rows(1) offs in simp)
  moreover have "stack ?out = Inr ?out"
  proof -
    have "length (?out ! i) = rw" if "i < length lens" for i
      using pr[OF that] that rows(1) by (simp add: min_def)
    then have w: "length xs = rw" if xs: "xs \<in> set ?out" for xs
    proof -
      obtain i where "i < length ?out" "xs = ?out ! i" using xs unfolding in_set_conv_nth by blast
      with \<open>\<And>i. i < length lens \<Longrightarrow> length (?out ! i) = rw\<close>[of i] show ?thesis by simp
    qed
    have "length ?out = length lens" using rows(1) by simp
    then have "?out \<noteq> []" using ne by (metis length_0_conv)
    then show ?thesis by (rule stack_same_width) (rule w)
  qed
  moreover have "0 \<notin> fst ` set lens" using ok by (force simp: lens_ok_def)
  ultimately show ?thesis
    unfolding no_padding_2_padding_def layout_lens.simps bind_res_simps prod.case Let_def pl rl sl
    using offs total by simp
qed

text \<open>
  C26: packed training returns every response token's own output.  For rows with at least one prompt token,
  padded on the left, and responses padded on the right, cutting what a model returns for the packed tokens
  back to responses gives, for response token \<open>j\<close> of each row, the output at the position just before it
  (the one that predicts it), and zeros behind the response; the nested form gives the same without the zeros.
\<close>

theorem packed_responses_restored:
  assumes "lens_ok pw rw lens" and "length rows = length lens" and "\<forall>row \<in> set rows. length row = pw + rw"
    and "attention_mask = map (left_right_mask pw rw) lens"
  shows "\<exists>up. unpad_input rows attention_mask None = Inr up \<and>
    no_padding_2_padding zero (up_hidden up) (Padded_layout attention_mask pw rw) =
      Inr (map2 (\<lambda>pr row. map (\<lambda>j. row ! (pw + j - 1)) [0..<snd pr] @ replicate (rw - snd pr) zero) lens rows) \<and>
    response_from_nested \<lparr> nt_values = up_hidden up, nt_offsets = up_cu_seqlens up \<rparr> (cu_seqlens_of (map snd lens)) =
      Inr (as_nested (map2 (\<lambda>pr row. map (\<lambda>j. row ! (pw + j - 1)) [0..<snd pr]) lens rows))"
proof -
  note ok = assms(1) and rows = assms(2,3)
  let ?vals = "concat (map2 (real_part pw) lens rows)"
  let ?cu = "cu_seqlens_of (map (\<lambda>pr. fst pr + snd pr) lens)"
  have sums: "map sum_list attention_mask = map (\<lambda>pr. fst pr + snd pr) lens"
    using ok by (auto simp: assms(4) lens_ok_def left_right_mask_facts)
  have ne: "lens \<noteq> []" "attention_mask \<noteq> []" using ok by (simp_all add: lens_ok_def assms(4))
  have ifa: "index_first_axis (concat rows) (nonzero (concat attention_mask)) = Inr ?vals"
    using pack_left_right[OF ok rows, of "[]"] by (auto simp: pack_rows_def bind_res_Inr_iff assms(4))
  have up: "unpad_input rows attention_mask None =
      Inr \<lparr> up_hidden = ?vals, up_indices = nonzero (concat attention_mask), up_cu_seqlens = ?cu,
            up_max_seqlen = foldl max 0 (map sum_list attention_mask), up_used = map sum_list attention_mask \<rparr>"
    using ne by (simp add: unpad_input_def Let_def ifa flip: sums)
  have block: "take (snd pr) (drop (pw - 1) row) = map (\<lambda>j. row ! (pw + j - 1)) [0..<snd pr]"
    if "(pr, row) \<in> set (zip lens rows)" for pr row
  proof -
    from that obtain i where i: "i < length lens" "pr = lens ! i" "row = rows ! i" by (auto simp: in_set_zip)
    then show ?thesis using lens_okD[OF ok i(1)] rows by (intro nth_equalityI) auto
  qed
  have padded: "map2 (\<lambda>pr row. take (snd pr) (drop (pw - 1) row) @ replicate (rw - snd pr) zero) lens rows =
      map2 (\<lambda>pr row. map (\<lambda>j. row ! (pw + j - 1)) [0..<snd pr] @ replicate (rw - snd pr) zero) lens rows"
    using block by (intro map_cong refl) auto
  have "map2 (response_slice ?vals) (map snd lens) (tl ?cu) = map2 (\<lambda>pr row. map (\<lambda>j. row ! (pw + j - 1)) [0..<snd pr]) lens rows"
  proof (rule nth_equalityI)
    fix i assume "i < length (map2 (response_slice ?vals) (map snd lens) (tl ?cu))"
    then have i: "i < length lens" by simp
    then have "(lens ! i, rows ! i) \<in> set (zip lens rows)" using rows(1) by (auto simp: in_set_zip)
    then show "map2 (response_slice ?vals) (map snd lens) (tl ?cu) ! i =
        map2 (\<lambda>pr row. map (\<lambda>j. row ! (pw + j - 1)) [0..<snd pr]) lens rows ! i"
      using i rows(1) response_slices[OF ok rows i] by (simp add: block del: One_nat_def)
  qed (use rows in simp)
  then show ?thesis
    using up no_padding_2_padding_left_right[OF ok rows, of zero] unfolding padded assms(4)
    by (simp add: response_from_nested_def)
qed

theorem packed_responses_restored_witness:
  "\<exists>up. unpad_input [[0, 11, 12, 13, 14], [21, 22, 23, 0, 0]] [[0, 1, 1, 1, 1], [1, 1, 1, 0, 0]] None = Inr up \<and>
    no_padding_2_padding (0 :: nat) (up_hidden up) (Padded_layout [[0, 1, 1, 1, 1], [1, 1, 1, 0, 0]] 2 3) =
      Inr [[11, 12, 13], [22, 0, 0]]"
proof -
  have "[[0, 1, 1, 1, 1], [1, 1, 1, 0, 0]] = map (left_right_mask 2 3) [(1, 3), (2, 1)]" by code_simp
  moreover have "lens_ok 2 3 [(1, 3), (2, 1)]" by (simp add: lens_ok_def)
  ultimately show ?thesis
    using packed_responses_restored[of 2 3 "[(1, 3), (2, 1)]" "[[0, 11, 12, 13, 14], [21, 22, 23, 0, 0]]"
        "[[0, 1, 1, 1, 1], [1, 1, 1, 0, 0]]" "0 :: nat"]
    by (auto simp: upt_rec numeral_eq_Suc)
qed

section \<open>Padding again\<close>

lemma put_selected:
  "length xs \<le> length out \<Longrightarrow> (\<And>i. i \<in> set idx \<Longrightarrow> i < length xs) \<Longrightarrow>
   length (foldl (\<lambda>out (i, x). out[i := x]) out (zip idx (map (\<lambda>i. xs ! i) idx))) = length out \<and>
   (\<forall>j < length out. foldl (\<lambda>out (i, x). out[i := x]) out (zip idx (map (\<lambda>i. xs ! i) idx)) ! j =
      (if j \<in> set idx then xs ! j else out ! j))"
proof (induction idx arbitrary: out)
  case (Cons i idx)
  from Cons.IH[of "out[i := xs ! i]"] Cons.prems show ?case by (auto simp: nth_list_update)
qed simp

lemma take_drop_rows:
  "\<forall>row \<in> set rows. length row = n \<Longrightarrow> b < length rows \<Longrightarrow> take n (drop (b * n) (concat rows)) = rows ! b"
proof (induction rows arbitrary: b)
  case (Cons row rows)
  then show ?case by (cases b) (auto simp: add.commute)
qed simp

lemma map2_concat_rows:
  "length mss = length xss \<Longrightarrow> (\<And>m x. (m, x) \<in> set (zip mss xss) \<Longrightarrow> length m = length x) \<Longrightarrow>
   map2 h (concat mss) (concat xss) = concat (map2 (map2 h) mss xss)"
  by (induction mss xss rule: list_induct2) auto

text \<open>
  Padding undoes packing: for a batch of rows and a mask of the same shape, \<open>unpad_input\<close> succeeds and
  \<open>pad_input\<close> of what it returns restores every row, with the masked elements replaced by zeros.
\<close>

theorem pad_unpad_input:
  assumes "rows \<noteq> []" and "length attention_mask = length rows"
    and "\<forall>row \<in> set rows. length row = n" and "\<forall>m \<in> set attention_mask. length m = n"
  shows "\<exists>up. unpad_input rows attention_mask None = Inr up \<and>
    pad_input zero (up_hidden up) (up_indices up) (length rows) n =
      Inr (map2 (map2 (\<lambda>m x. if m \<noteq> 0 then x else zero)) attention_mask rows)"
proof -
  let ?msk = "concat attention_mask" and ?xs = "concat rows"
  let ?h = "\<lambda>m x. if m \<noteq> 0 then x else zero"
  let ?out = "foldl (\<lambda>out (i, x). out[i := x]) (replicate (length rows * n) zero)
      (zip (nonzero ?msk) (map (\<lambda>i. ?xs ! i) (nonzero ?msk)))"
  have len: "length ?xs = length rows * n" "length ?msk = length rows * n"
    using assms(2-4) by (simp_all add: length_concat sum_list_triv cong: map_cong)
  have idx: "i < length ?xs" if "i \<in> set (nonzero ?msk)" for i using that len by (simp add: nonzero_def)
  have nb: "\<not> (\<exists>i \<in> set (nonzero ?msk). length rows * n \<le> i)" using idx len(1) by (auto simp: not_le)
  have sel: "index_first_axis ?xs (nonzero ?msk) = Inr (map (\<lambda>i. ?xs ! i) (nonzero ?msk))"
    unfolding index_first_axis_def by (rule map_res_all_ok) (simp add: idx)
  have put: "length ?out = length rows * n" "\<And>j. j < length rows * n \<Longrightarrow> ?out ! j = (if j \<in> set (nonzero ?msk) then ?xs ! j else zero)"
    using put_selected[of ?xs "replicate (length rows * n) zero" "nonzero ?msk"] idx len by auto
  have "?out = map2 ?h ?msk ?xs"
    by (rule nth_equalityI) (use put len in \<open>auto simp: nonzero_def\<close>)
  also have "\<dots> = concat (map2 (map2 ?h) attention_mask rows)"
    by (rule map2_concat_rows) (use assms(2-4) in \<open>auto simp: in_set_zip\<close>)
  finally have out: "?out = concat (map2 (map2 ?h) attention_mask rows)" .
  have w: "\<forall>row \<in> set (map2 (map2 ?h) attention_mask rows). length row = n"
    using assms(2-4) by (auto simp: in_set_zip)
  have "map (\<lambda>b. take n (drop (b * n) ?out)) [0..<length rows] = map2 (map2 ?h) attention_mask rows"
    unfolding out using assms(2) take_drop_rows[OF w] by (intro nth_equalityI) auto
  then have "pad_input zero (map (\<lambda>i. ?xs ! i) (nonzero ?msk)) (nonzero ?msk) (length rows) n =
      Inr (map2 (map2 ?h) attention_mask rows)"
    using nb by (simp add: pad_input_def index_put_first_axis_def)
  moreover have "attention_mask \<noteq> []" using assms(1,2) by auto
  ultimately show ?thesis
    by (simp add: unpad_input_def Let_def sel)
qed

theorem pad_unpad_input_witness:
  "\<exists>up. unpad_input [[5, 6], [7, 8]] [[0, 1], [1, 0]] None = Inr up \<and>
    pad_input 0 (up_hidden up) (up_indices up) 2 2 = Inr [[0, 6], [7, 0 :: nat]]"
  using pad_unpad_input[of "[[5, 6], [7, 8]]" "[[0, 1], [1, 0]]" 2 "0 :: nat"] by (simp add: numeral_2_eq_2)

section \<open>Sequence-parallel ranks see the same tokens\<close>

lemma concat_slices: "concat (map (\<lambda>r. take k (drop (r * k) xs)) [0..<n]) = take (n * k) xs"
  by (induction n) (simp_all add: take_add add.commute[of k])

definition sp_padding :: "nat \<Rightarrow> nat \<Rightarrow> nat" where
  "sp_padding sp n = (sp - n mod sp) mod sp"

lemma sp_padding_dvd: "0 < sp \<Longrightarrow> sp dvd n + sp_padding sp n"
  unfolding sp_padding_def
  by (metis add_diff_inverse_nat dvd_eq_mod_eq_0 less_imp_not_less mod_add_eq mod_add_right_eq mod_less_divisor mod_mod_trivial mod_self)

lemma slice_of_multiple:
  assumes "0 < sp" and "sp dvd length xs"
  shows "slice_input_tensor zero p sp rank xs = take (length xs div sp) (drop (rank * (length xs div sp)) xs)"
  using assms by (simp add: slice_input_tensor_def Let_def)

lemma slice_padded:
  assumes "0 < sp"
  shows "slice_input_tensor zero True sp rank xs = slice_input_tensor zero False sp rank (xs @ replicate (sp_padding sp (length xs)) zero)"
proof (cases "length xs mod sp = 0")
  case True
  then show ?thesis using assms by (simp add: sp_padding_def slice_input_tensor_def)
next
  case False
  then have "sp_padding sp (length xs) = sp - length xs mod sp" using assms by (simp add: sp_padding_def)
  then show ?thesis using False by (simp add: slice_input_tensor_def pad_tensor_def Let_def)
qed

lemma slices_concat:
  assumes "0 < sp"
  shows "concat (map (\<lambda>rank. slice_input_tensor zero False sp rank (xs @ replicate (sp_padding sp (length xs)) zero)) [0..<sp]) =
    xs @ replicate (sp_padding sp (length xs)) zero"
proof -
  have "sp dvd length (xs @ replicate (sp_padding sp (length xs)) zero)" using sp_padding_dvd[OF assms] by simp
  then show ?thesis by (simp only: slice_of_multiple[OF assms] concat_slices) auto
qed

lemma length_slice:
  assumes "0 < sp" and "rank < sp" and "sp dvd length xs"
  shows "length (slice_input_tensor zero False sp rank xs) = length xs div sp"
proof -
  have "Suc rank * (length xs div sp) \<le> sp * (length xs div sp)" using assms(2) by (intro mult_right_mono) simp_all
  then have "Suc rank * (length xs div sp) \<le> length xs" using assms(3) by simp
  then show ?thesis by (simp add: slice_of_multiple[OF assms(1,3)])
qed

lemma ulysses_pad_eq:
  assumes "0 < sp"
  shows "ulysses_pad pad_value ids None sp =
    Inr (ids @ replicate (sp_padding sp (length ids)) pad_value, None, sp_padding sp (length ids))"
  using assms by (cases "sp \<le> 1") (auto simp: ulysses_pad_def sp_padding_def Let_def le_Suc_eq)

lemma map2_concat_slices:
  "(\<And>r. r < n \<Longrightarrow> length (f r) = length (g r)) \<Longrightarrow>
   concat (map (\<lambda>r. map2 h (f r) (g r)) [0..<n]) = map2 h (concat (map f [0..<n])) (concat (map g [0..<n]))"
proof (induction n)
  case (Suc n)
  have "length (concat (map f [0..<n])) = length (concat (map g [0..<n]))"
    using Suc.prems by (auto simp: length_concat intro!: arg_cong[of _ _ sum_list])
  then show ?case using Suc by simp
qed simp

text \<open>
  C27: sequence parallelism does not change a token-wise computation: the model's inputs are padded and sliced
  before the forward pass and the teacher's values inside the loss, with different paddings, yet on every rank both slices have the
  same length, and gathering what the ranks compute and dropping the padding gives, for every token, the value
  without parallelism.
\<close>

theorem sequence_parallel_exact:
  assumes "0 < sp" and "length ids = length vals"
  shows "\<exists>pad_size slice.
    (\<forall>rank < sp. ulysses_pad_and_slice_inputs pad_value rank ids None sp skip = Inr (slice rank, None, pad_size) \<and>
       length (slice rank) = length (slice_input_tensor zero True sp rank vals)) \<and>
    gather_outputs_and_unpad (map (\<lambda>rank. map2 f (slice rank) (slice_input_tensor zero True sp rank vals)) [0..<sp]) (Some pad_size) =
      map2 f ids vals"
proof -
  let ?k = "sp_padding sp (length ids)"
  let ?ids = "ids @ replicate ?k pad_value" and ?vals = "vals @ replicate ?k zero"
  let ?slice = "\<lambda>rank. slice_input_tensor pad_value False sp rank ?ids"
  have sv: "slice_input_tensor zero True sp rank vals = slice_input_tensor zero False sp rank ?vals" for rank
    using slice_padded[OF assms(1), of zero rank vals] assms(2) by simp
  have dvd: "sp dvd length ?ids" "sp dvd length ?vals" using sp_padding_dvd[OF assms(1), of "length ids"] assms(2) by simp_all
  have len: "length (?slice rank) = length (slice_input_tensor zero False sp rank ?vals)" if "rank < sp" for rank
    unfolding length_slice[OF assms(1) that dvd(1)] length_slice[OF assms(1) that dvd(2)] using assms(2) by simp
  have "concat (map (\<lambda>rank. map2 f (?slice rank) (slice_input_tensor zero False sp rank ?vals)) [0..<sp]) = map2 f ?ids ?vals"
    using map2_concat_slices[of sp ?slice, OF len] slices_concat[OF assms(1), of pad_value ids]
      slices_concat[OF assms(1), of zero vals] assms(2) by simp
  then have gathered: "concat (map (\<lambda>rank. map2 f (?slice rank) (slice_input_tensor zero True sp rank vals)) [0..<sp]) =
      map2 f ids vals @ replicate ?k (f pad_value zero)"
    using assms(2) by (simp add: sv zip_replicate1)
  have "gather_outputs_and_unpad (map (\<lambda>rank. map2 f (?slice rank) (slice_input_tensor zero True sp rank vals)) [0..<sp]) (Some ?k) =
      map2 f ids vals"
    unfolding gather_outputs_and_unpad_def gathered
    by (simp add: unpad_tensor_def py_slice_def Let_def slice_bound_def nat_add_distrib nat_diff_distrib flip: of_nat_add)
  moreover have "ulysses_pad_and_slice_inputs pad_value rank ids None sp skip = Inr (?slice rank, None, ?k)" for rank
    by (simp add: ulysses_pad_and_slice_inputs_def ulysses_pad_eq[OF assms(1)])
  ultimately show ?thesis
    using len by (intro exI[of _ ?k] exI[of _ ?slice]) (simp add: sv)
qed

theorem sequence_parallel_exact_witness:
  "\<exists>pad_size slice.
    gather_outputs_and_unpad (map (\<lambda>rank. map2 (+) (slice rank) (slice_input_tensor 0 True 2 rank [10, 20, 30])) [0..<2]) (Some pad_size) =
      [11, 22, 33 :: nat]"
proof -
  have "0 < (2 :: nat)" "length [1, 2, 3 :: nat] = length [10, 20, 30 :: nat]" by simp_all
  from sequence_parallel_exact[OF this, of 0 False 0 "(+)"] show ?thesis by auto
qed

end
