(* ===== verification/VerlDistillation.thy ===== *)
theory VerlDistillation
  imports OpdLoss VerlPadding
begin

text \<open>
  On-policy distillation as verl does it, the code the OPD learner reproduces:
  \<open>trainer/distillation/fsdp/losses.py\<close> (the top-\<open>k\<close> forward KL of a token and its chunked form),
  \<open>trainer/distillation/losses.py\<close> (the registry of losses, the estimators, clamping, aggregation and
  the combination with the policy loss), \<open>workers/utils/losses.py\<close> (the policy, value and supervised losses) and the
  validation of the configuration in \<open>workers/config/distillation.py\<close>, all under \<open>src/verl_new/verl\<close>.
  \<open>topk_of\<close> stands for \<open>torch.topk\<close>, whose choice among ties is not specified.
\<close>

section \<open>The forward KL on the teacher's top-k tokens\<close>

record topk_outputs =
  distillation_losses :: real
  student_mass :: real
  teacher_mass :: real
  overlap_count :: nat
  overlap_token_advantage :: real

definition logsumexp :: "real list \<Rightarrow> real" where
  "logsumexp logits = ln (sum_list (map exp logits))"

text \<open>\<open>_chunked_topk_log_probs\<close>: gather first, then subtract the normaliser, \<open>chunk_size\<close> tokens at a time.\<close>

definition chunk_starts :: "nat \<Rightarrow> nat \<Rightarrow> nat list" where
  "chunk_starts n chunk_size = map (\<lambda>b. b * chunk_size) [0..<(n + chunk_size - 1) div chunk_size]"

definition chunked_topk_log_probs :: "nat \<Rightarrow> real list list \<Rightarrow> int list list \<Rightarrow> real list list result" where
  "chunked_topk_log_probs chunk_size flat_logits flat_topk =
     (let n = length flat_logits
      in if n = 0 then Inr []
         else if chunk_size = 0 then Inl ValueError
         else bind_res (map_res (\<lambda>s.
                map_res (\<lambda>(logits, ids).
                    bind_res (gather logits ids) (\<lambda>chunk_topk_logits.
                      Inr (map (\<lambda>x. x - logsumexp logits) chunk_topk_logits)))
                  (zip (take chunk_size (drop s flat_logits)) (take chunk_size (drop s flat_topk))))
              (chunk_starts n chunk_size)) (\<lambda>out. Inr (concat out)))"

definition overlap_mask :: "int list \<Rightarrow> int list \<Rightarrow> bool list" where
  "overlap_mask teacher_ids student_ids = map (\<lambda>i. i \<in> set student_ids) teacher_ids"

definition overlap_advantage :: "bool list \<Rightarrow> real list \<Rightarrow> real" where
  "overlap_advantage msk token_kl =
     (let count = length (filter (\<lambda>b. b) msk)
      in if 0 < count then sum_list (map2 (\<lambda>b k. if b then - k else 0) msk token_kl) / real (max count 1) else 0)"

text \<open>One token, given the student's log-probabilities at the teacher's top-\<open>k\<close> and the student's own top-\<open>k\<close>.\<close>

definition forward_kl_topk_token :: "real option \<Rightarrow> real list \<Rightarrow> int list \<Rightarrow> topk_row \<Rightarrow> topk_outputs" where
  "forward_kl_topk_token log_prob_min_clamp student_topk_log_probs student_topk_ids teacher =
     (let teacher_topk_log_probs = fst teacher;
          s = map (clamp_min log_prob_min_clamp) student_topk_log_probs;
          t = map (clamp_min log_prob_min_clamp) teacher_topk_log_probs;
          msk = overlap_mask (snd teacher) student_topk_ids
      in \<lparr> distillation_losses = forward_kl t s,
           student_mass = mass student_topk_log_probs,
           teacher_mass = mass teacher_topk_log_probs,
           overlap_count = length (filter (\<lambda>b. b) msk),
           overlap_token_advantage = overlap_advantage msk (map2 (\<lambda>t s. exp t * (t - s)) t s) \<rparr>)"

record loss_config =
  loss_mode :: str
  loss_topk :: "nat option"
  use_task_rewards :: bool
  distillation_loss_coef :: real
  loss_max_clamp :: "real option"
  log_prob_min_clamp :: "real option"
  use_chunked_topk :: bool
  chunk_size :: nat
  use_policy_gradient :: bool
  policy_loss_mode :: str
  dl_clip_ratio :: real
  dl_clip_ratio_low :: real
  dl_clip_ratio_high :: real

text \<open>
  \<open>compute_forward_kl_topk\<close> of the FSDP backend on one rank: \<open>sp\<close> is the rank and size of the sequence-parallel
  group, if there is more than one, \<open>teacher\<close> the packed teacher rows and \<open>k\<close> their width.
\<close>

definition fsdp_forward_kl_topk ::
  "(nat \<Rightarrow> real list \<Rightarrow> int list) \<Rightarrow> loss_config \<Rightarrow> (nat \<times> nat) option \<Rightarrow> nat \<Rightarrow> topk_row list \<Rightarrow> real list list \<Rightarrow>
   topk_outputs list result" where
  "fsdp_forward_kl_topk topk_of config sp k teacher student_logits =
     (let rows = (case sp of None \<Rightarrow> teacher
            | Some (rank, world) \<Rightarrow> slice_input_tensor (replicate k 0, replicate k 0) True world rank teacher)
      in asserting (length rows = length student_logits)
         (if use_chunked_topk config
          then bind_res (chunked_topk_log_probs (chunk_size config) student_logits (map snd rows)) (\<lambda>s.
               Inr (map2 (\<lambda>(logits, row) s1. forward_kl_topk_token (log_prob_min_clamp config) s1 (topk_of k logits) row)
                      (zip student_logits rows) s))
          else map_res (\<lambda>(logits, row).
                 let student_log_probs = log_softmax logits
                 in bind_res (gather student_log_probs (snd row)) (\<lambda>s1.
                    Inr (forward_kl_topk_token (log_prob_min_clamp config) s1 (topk_of k student_log_probs) row)))
               (zip student_logits rows)))"

text \<open>\<open>compute_topk_loss\<close>: the backend by strategy; the Megatron one is an argument here.\<close>

definition compute_topk_loss ::
  "str \<Rightarrow> (unit \<Rightarrow> topk_outputs list result) \<Rightarrow> (unit \<Rightarrow> topk_outputs list result) \<Rightarrow> nat \<Rightarrow> topk_outputs list result" where
  "compute_topk_loss strategy fsdp megatron n =
     bind_res (if strategy \<in> {''fsdp'', ''veomni''} then fsdp ()
               else if strategy = ''megatron'' then megatron ()
               else Inl NotImplementedError) (\<lambda>outputs.
       asserting (length outputs = n) (Inr outputs))"

section \<open>The registry\<close>

record loss_settings =
  ls_names :: "str list"
  ls_use_topk :: bool
  ls_use_estimator :: bool

definition loss_settings_post_init :: "loss_settings \<Rightarrow> loss_settings result" where
  "loss_settings_post_init s =
     (if (if ls_use_topk s then 1 else 0) + (if ls_use_estimator s then 1 else 0) \<noteq> (1 :: nat) then Inl ValueError else Inr s)"

type_synonym 'fn loss_registry = "(str, 'fn) dict \<times> (str, loss_settings) dict"

definition register_distillation_loss :: "loss_settings \<Rightarrow> 'fn \<Rightarrow> 'fn loss_registry \<Rightarrow> 'fn loss_registry result" where
  "register_distillation_loss settings func reg =
     fold_res (\<lambda>(losses, all_settings) name.
         if map_of losses name \<noteq> None then Inl ValueError
         else Inr (AList.update name func losses, AList.update name settings all_settings))
       reg (ls_names settings)"

definition get_distillation_loss_fn :: "str \<Rightarrow> 'fn loss_registry \<Rightarrow> 'fn result" where
  "get_distillation_loss_fn loss_name reg = (case map_of (fst reg) loss_name of None \<Rightarrow> Inl ValueError | Some f \<Rightarrow> Inr f)"

definition get_distillation_loss_settings :: "str \<Rightarrow> 'fn loss_registry \<Rightarrow> loss_settings result" where
  "get_distillation_loss_settings loss_name reg = (case map_of (snd reg) loss_name of None \<Rightarrow> Inl ValueError | Some s \<Rightarrow> Inr s)"

datatype distillation_loss_fn = Forward_KL_topk | Reverse_KL_estimator

definition distillation_registry :: "distillation_loss_fn loss_registry result" where
  "distillation_registry =
     bind_res (register_distillation_loss
         \<lparr> ls_names = [''forward_kl_topk''], ls_use_topk = True, ls_use_estimator = False \<rparr> Forward_KL_topk ([], [])) (\<lambda>reg.
       register_distillation_loss
         \<lparr> ls_names = [''kl'', ''k1'', ''abs'', ''mse'', ''k2'', ''low_var_kl'', ''k3''], ls_use_topk = False,
           ls_use_estimator = True \<rparr> Reverse_KL_estimator reg)"

section \<open>The batch and its losses\<close>

text \<open>
  What a micro-batch and the model's outputs for it hold: per-token values are packed (\<open>packed\<close>), the
  others are padded to responses.  Nested tensors of the batch are given in their padded form.
\<close>

record model_output =
  mo_log_probs :: "real list"
  mo_entropy :: "real list option"
  mo_topk :: "topk_outputs list"

record micro_batch =
  mb_layout :: batch_layout
  mb_response_mask :: matrix
  mb_old_log_probs :: matrix
  mb_advantages :: matrix
  mb_ref_log_prob :: "matrix option"
  mb_rollout_is_weights :: "matrix option"
  mb_teacher_logprobs :: "real list"
  mb_dp_size :: nat
  mb_batch_num_tokens :: "real option"
  mb_global_batch_size :: "real option"

definition to_responses :: "micro_batch \<Rightarrow> real list \<Rightarrow> matrix result" where
  "to_responses d vals = no_padding_2_padding 0 vals (mb_layout d)"

definition shapes_agree :: "'a list list \<Rightarrow> 'b list list \<Rightarrow> bool" where
  "shapes_agree a b \<longleftrightarrow> map length a = map length b"

text \<open>\<open>x[mask]\<close> of two matrices.\<close>

definition selected :: "'a list list \<Rightarrow> matrix \<Rightarrow> 'a list" where
  "selected m msk = map snd (filter (\<lambda>(b, x). b \<noteq> 0) (zip (concat msk) (concat m)))"

definition min_of :: "real list \<Rightarrow> real result" where
  "min_of xs = (if xs = [] then Inl RuntimeError else Inr (foldl min (hd xs) xs))"

definition max_of :: "real list \<Rightarrow> real result" where
  "max_of xs = (if xs = [] then Inl RuntimeError else Inr (foldl max (hd xs) xs))"

definition compute_distillation_loss_range :: "matrix \<Rightarrow> matrix \<Rightarrow> (real \<times> real) result" where
  "compute_distillation_loss_range losses response_mask =
     (let xs = selected losses response_mask in bind_res (min_of xs) (\<lambda>lo. bind_res (max_of xs) (\<lambda>hi. Inr (lo, hi))))"

text \<open>
  The final step of the top-\<open>k\<close> loss.  The overlap diagnostics read \<open>topk\<close>; the extreme masses are taken
  over the response tokens and raise when there are none.
\<close>

definition final_forward_kl_topk :: "loss_config \<Rightarrow> model_output \<Rightarrow> micro_batch \<Rightarrow> matrix result" where
  "final_forward_kl_topk config out d =
     bind_res (to_responses d (map distillation_losses (mo_topk out))) (\<lambda>losses.
     bind_res (to_responses d (map student_mass (mo_topk out))) (\<lambda>s.
     bind_res (to_responses d (map teacher_mass (mo_topk out))) (\<lambda>t.
       asserting (shapes_agree losses (mb_response_mask d) \<and> loss_topk config \<noteq> None)
         (bind_res (min_of (selected s (mb_response_mask d))) (\<lambda>_.
          bind_res (min_of (selected t (mb_response_mask d))) (\<lambda>_.
          Inr (map (map (\<lambda>x. max x 0)) losses)))))))"

definition reverse_kl_estimator :: "loss_config \<Rightarrow> model_output \<Rightarrow> micro_batch \<Rightarrow> matrix result" where
  "reverse_kl_estimator config out d =
     bind_res (to_responses d (mo_log_probs out)) (\<lambda>student.
     bind_res (to_responses d (mb_teacher_logprobs d)) (\<lambda>teacher.
       asserting (shapes_agree teacher (mb_response_mask d) \<and> shapes_agree student (mb_response_mask d))
         (map_res (\<lambda>(s, t). map_res (\<lambda>(x, y). kl_penalty x y (loss_mode config)) (zip s t)) (zip student teacher))))"

fun run_distillation_loss :: "distillation_loss_fn \<Rightarrow> loss_config \<Rightarrow> model_output \<Rightarrow> micro_batch \<Rightarrow> matrix result" where
  "run_distillation_loss Forward_KL_topk = final_forward_kl_topk"
| "run_distillation_loss Reverse_KL_estimator = reverse_kl_estimator"

text \<open>
  \<open>distillation_loss\<close>.  The policy-gradient branch uses the vanilla policy loss with the clipping ratios of the
  distillation configuration, the negated losses as advantages and the actor's global counts.
\<close>

definition dl_actor_config :: "loss_config \<Rightarrow> actor_config \<Rightarrow> actor_config" where
  "dl_actor_config c a = a\<lparr> cfg_clip_ratio := dl_clip_ratio c, cfg_clip_ratio_low := Some (dl_clip_ratio_low c),
     cfg_clip_ratio_high := Some (dl_clip_ratio_high c), cfg_clip_ratio_c := 3 \<rparr>"

definition distillation_loss :: "str \<Rightarrow> actor_config \<Rightarrow> loss_config \<Rightarrow> model_output \<Rightarrow> micro_batch \<Rightarrow> real result" where
  "distillation_loss loss_agg_mode actor config out d =
     bind_res distillation_registry (\<lambda>reg.
     bind_res (get_distillation_loss_fn (loss_mode config) reg) (\<lambda>fn.
     bind_res (run_distillation_loss fn config out d) (\<lambda>losses.
     bind_res (compute_distillation_loss_range losses (mb_response_mask d)) (\<lambda>_.
       let clamped = (case loss_max_clamp config of None \<Rightarrow> losses | Some h \<Rightarrow> map (map (clamp (- h) h)) losses)
       in if use_policy_gradient config
          then bind_res (to_responses d (mo_log_probs out)) (\<lambda>log_prob.
               bind_res (compute_policy_loss_vanilla (mb_old_log_probs d) log_prob (map (map uminus) clamped)
                   (mb_response_mask d) loss_agg_mode (dl_actor_config config actor) (mb_rollout_is_weights d)) (\<lambda>(loss, _).
               Inr loss))
          else agg_loss clamped (mb_response_mask d) loss_agg_mode (cfg_dp_size actor) (cfg_batch_num_tokens actor)
                 (cfg_global_batch_size actor) (cfg_loss_scale_factor actor)))))"

section \<open>The policy loss and the combined loss\<close>

text \<open>
  The actor's configuration is kept between the micro-batches, and with it \<open>global_batch_info\<close>: the counts that
  \<open>agg_loss\<close> divides by.  It begins empty, and only \<open>ppo_loss\<close> writes it.
\<close>

record verl_actor =
  va_config :: actor_config
  va_loss_scale_factor :: "real option"
  va_loss_agg_mode :: str
  va_loss_mode :: str
  va_entropy_coeff :: real
  va_use_kl_loss :: bool
  va_kl_loss_type :: str
  va_kl_loss_coef :: real

definition fresh_info :: "actor_config \<Rightarrow> actor_config" where
  "fresh_info c = c\<lparr> cfg_dp_size := 1, cfg_batch_num_tokens := None, cfg_global_batch_size := None, cfg_loss_scale_factor := None \<rparr>"

definition set_info :: "verl_actor \<Rightarrow> micro_batch \<Rightarrow> verl_actor" where
  "set_info a d = a\<lparr> va_config := (va_config a)\<lparr> cfg_dp_size := mb_dp_size d, cfg_batch_num_tokens := mb_batch_num_tokens d,
     cfg_global_batch_size := mb_global_batch_size d, cfg_loss_scale_factor := va_loss_scale_factor a \<rparr> \<rparr>"

type_synonym policy_loss_fn =
  "matrix \<Rightarrow> matrix \<Rightarrow> matrix \<Rightarrow> matrix \<Rightarrow> str \<Rightarrow> actor_config \<Rightarrow> matrix option \<Rightarrow> (real \<times> pg_metrics) result"

definition ppo_loss ::
  "(str, policy_loss_fn) dict \<Rightarrow> verl_actor \<Rightarrow> model_output \<Rightarrow> micro_batch \<Rightarrow> (real \<times> verl_actor) result" where
  "ppo_loss policy_losses actor out d =
     bind_res (to_responses d (mo_log_probs out)) (\<lambda>log_prob.
     bind_res (case mo_entropy out of None \<Rightarrow> Inr None
               | Some e \<Rightarrow> bind_res (to_responses d e) (\<lambda>m. Inr (Some m))) (\<lambda>entropy.
       let actor' = set_info actor d;
           config = va_config actor';
           mode = va_loss_agg_mode actor
       in bind_res (get_policy_loss_fn (va_loss_mode actor) policy_losses) (\<lambda>policy_loss_fn.
          bind_res (policy_loss_fn (mb_old_log_probs d) log_prob (mb_advantages d) (mb_response_mask d) mode config
              (mb_rollout_is_weights d)) (\<lambda>(pg_loss, _).
          bind_res (case entropy of None \<Rightarrow> Inr pg_loss
                    | Some e \<Rightarrow> bind_res (agg_with config mode e (mb_response_mask d)) (\<lambda>entropy_loss.
                        Inr (pg_loss - va_entropy_coeff actor * entropy_loss))) (\<lambda>policy_loss.
          bind_res (if \<not> va_use_kl_loss actor then Inr policy_loss
                    else case mb_ref_log_prob d of
                      None \<Rightarrow> Inl KeyError
                    | Some ref \<Rightarrow>
                        bind_res (map_res (\<lambda>(l, r). map_res (\<lambda>(x, y). kl_penalty x y (va_kl_loss_type actor)) (zip l r)) (zip log_prob ref)) (\<lambda>kld.
                        bind_res (agg_with config mode kld (mb_response_mask d)) (\<lambda>kl_loss.
                        Inr (policy_loss + kl_loss * va_kl_loss_coef actor)))) (\<lambda>policy_loss.
          Inr (policy_loss, actor')))))))"

definition distillation_ppo_loss ::
  "(str, policy_loss_fn) dict \<Rightarrow> verl_actor \<Rightarrow> loss_config \<Rightarrow> model_output \<Rightarrow> micro_batch \<Rightarrow> (real \<times> verl_actor) result" where
  "distillation_ppo_loss policy_losses actor config out d =
     bind_res (distillation_loss (va_loss_agg_mode actor) (va_config actor) config out d) (\<lambda>distill_loss.
     bind_res (ppo_loss policy_losses actor out d) (\<lambda>(policy_loss, actor').
       let policy_loss = (if use_task_rewards config then policy_loss else 0);
           coef = (if use_task_rewards config then distillation_loss_coef config else 1)
       in Inr (policy_loss + distill_loss * coef, actor')))"

text \<open>The loop of \<open>forward_backward_batch\<close> over the micro-batches, each with the model's outputs for it.\<close>

fun run_micro_batches ::
  "(str, policy_loss_fn) dict \<Rightarrow> loss_config \<Rightarrow> verl_actor \<Rightarrow> (model_output \<times> micro_batch) list \<Rightarrow> (real list \<times> verl_actor) result" where
  "run_micro_batches policy_losses config actor [] = Inr ([], actor)"
| "run_micro_batches policy_losses config actor ((out, d) # mbs) =
     bind_res (distillation_ppo_loss policy_losses actor config out d) (\<lambda>(loss, actor').
     bind_res (run_micro_batches policy_losses config actor' mbs) (\<lambda>(losses, actor'').
     Inr (loss # losses, actor'')))"

section \<open>The supervised and the value loss\<close>

definition roll_left :: "'a list \<Rightarrow> 'a list" where
  "roll_left xs = (case xs of [] \<Rightarrow> [] | x # ys \<Rightarrow> ys @ [x])"

definition sft_loss_no_padding :: "real nested \<Rightarrow> real nested \<Rightarrow> real \<Rightarrow> nat \<Rightarrow> real" where
  "sft_loss_no_padding log_prob loss_mask batch_num_tokens dp_size =
     - masked_sum1 (nt_values log_prob) (roll_left (nt_values loss_mask)) / batch_num_tokens * real dp_size"

definition sft_loss_padded :: "matrix \<Rightarrow> matrix \<Rightarrow> real \<Rightarrow> nat \<Rightarrow> real" where
  "sft_loss_padded log_prob response_mask batch_num_tokens dp_size =
     - masked_sum log_prob response_mask / batch_num_tokens * real dp_size"

definition value_loss :: "str \<Rightarrow> real \<Rightarrow> real list \<Rightarrow> batch_layout \<Rightarrow> matrix \<Rightarrow> matrix \<Rightarrow> matrix \<Rightarrow> (real \<times> real \<times> real) result" where
  "value_loss loss_agg_mode cliprange_value outs layout vals returns response_mask =
     bind_res (no_padding_2_padding 0 outs layout) (\<lambda>vpreds.
     bind_res (compute_value_loss vpreds returns vals response_mask cliprange_value loss_agg_mode) (\<lambda>(vf_loss, clipfrac).
     Inr (vf_loss, clipfrac, masked_mean vpreds response_mask)))"

section \<open>The configuration\<close>

definition loss_config_post_init :: "loss_config \<Rightarrow> loss_settings result" where
  "loss_config_post_init c =
     bind_res distillation_registry (\<lambda>reg.
     bind_res (get_distillation_loss_settings (loss_mode c) reg) (\<lambda>settings.
       if policy_loss_mode c \<noteq> ''vanilla'' then Inl NotImplementedError
       else if \<not> use_policy_gradient c \<and> loss_mode c = ''k1'' then Inl ValueError
       else Inr settings))"

record teacher_config =
  tc_key :: "str option"
  tc_model_path :: "str option"
  tc_num_replicas :: "nat option"
  tc_tp :: nat
  tc_dp :: nat
  tc_pp :: nat
  tc_engine :: str
  tc_max_logprobs :: "nat option"
  tc_max_model_len :: "nat option"
  tc_prompt_length :: nat
  tc_response_length :: nat

definition per_replica_world_size :: "teacher_config \<Rightarrow> nat" where
  "per_replica_world_size t = tc_tp t * tc_dp t * tc_pp t"

definition teacher_world_size :: "teacher_config \<Rightarrow> nat result" where
  "teacher_world_size t = (case tc_num_replicas t of None \<Rightarrow> Inl TypeError | Some n \<Rightarrow> Inr (n * per_replica_world_size t))"

definition check_configured :: "teacher_config \<Rightarrow> unit result" where
  "check_configured t =
     (if tc_model_path t = None \<or> tc_key t = None \<or> tc_num_replicas t = None then Inl ValueError else Inr ())"

definition validate_topk_logprobs :: "bool \<Rightarrow> nat option \<Rightarrow> teacher_config \<Rightarrow> teacher_config result" where
  "validate_topk_logprobs use_topk topk t =
     (if \<not> use_topk then Inr t
      else case topk of
        None \<Rightarrow> Inl ValueError
      | Some k \<Rightarrow>
          if tc_engine t = ''vllm'' then
            (let max_logprobs = (case tc_max_logprobs t of None \<Rightarrow> k | Some m \<Rightarrow> m)
             in if max_logprobs < k then Inl ValueError else Inr (t\<lparr> tc_max_logprobs := Some max_logprobs \<rparr>))
          else if tc_engine t = ''sglang'' then Inr t
          else Inl NotImplementedError)"

definition validate_and_prepare :: "bool \<Rightarrow> nat option \<Rightarrow> teacher_config \<Rightarrow> teacher_config result" where
  "validate_and_prepare use_topk topk t =
     (let required_context_len = tc_prompt_length t + tc_response_length t + 1
      in if (case tc_max_model_len t of None \<Rightarrow> False | Some n \<Rightarrow> n < required_context_len) then Inl ValueError
         else validate_topk_logprobs use_topk topk
                (t\<lparr> tc_prompt_length := tc_prompt_length t + tc_response_length t, tc_response_length := 1 \<rparr>))"

definition resolve_teacher_models :: "nat \<Rightarrow> (str, teacher_config) dict \<Rightarrow> (str, teacher_config) dict result" where
  "resolve_teacher_models pool_size teachers =
     asserting (map_of teachers ''teacher_model'' \<noteq> None)
       (bind_res (if length teachers = 1
           then (let t = the (map_of teachers ''teacher_model''); per_replica = per_replica_world_size t
                 in if per_replica = 0 then Inl ZeroDivisionError
                    else if pool_size mod per_replica \<noteq> 0 then Inl ValueError
                    else Inr [(''teacher_model'', t\<lparr> tc_num_replicas := Some (pool_size div per_replica), tc_key := Some ''default'' \<rparr>)])
           else Inr (AList.delete ''teacher_model'' teachers)) (\<lambda>remaining.
         fold_res (\<lambda>resolved (_, t).
             bind_res (check_configured t) (\<lambda>_.
               if map_of resolved (the (tc_key t)) \<noteq> None then Inl ValueError
               else Inr (resolved @ [(the (tc_key t), t)]))) [] remaining))"

definition distillation_config_post_init ::
  "bool \<Rightarrow> nat \<Rightarrow> nat \<Rightarrow> loss_settings \<Rightarrow> nat option \<Rightarrow> (str, teacher_config) dict \<Rightarrow> (str, teacher_config) dict result" where
  "distillation_config_post_init enabled n_gpus_per_node nnodes settings topk teachers =
     (if \<not> enabled then Inr teachers
      else bind_res (resolve_teacher_models (n_gpus_per_node * nnodes) teachers) (\<lambda>resolved.
        bind_res (map_res (\<lambda>(k, t). bind_res (validate_and_prepare (ls_use_topk settings) topk t) (\<lambda>t'. Inr (k, t'))) resolved) (\<lambda>prepared.
        bind_res (map_res (\<lambda>(k, t). teacher_world_size t) prepared) (\<lambda>world_sizes.
          if sum_list world_sizes \<noteq> n_gpus_per_node * nnodes then Inl ValueError else Inr prepared))))"

section \<open>Chunking does not change the loss\<close>

lemma gather_map: "gather (map f xs) ids = bind_res (gather xs ids) (\<lambda>g. Inr (map f g))"
  unfolding gather_def by (induction ids) (auto simp: bind_res_def split: sum.splits)

lemma gather_log_softmax:
  "gather (log_softmax logits) ids = bind_res (gather logits ids) (\<lambda>g. Inr (map (\<lambda>x. x - logsumexp logits) g))"
  by (simp add: log_softmax_def logsumexp_def gather_map)

lemma map_res_bind_Inr: "map_res (\<lambda>x. bind_res (f x) (\<lambda>y. Inr (h x y))) xs = bind_res (map_res f xs) (\<lambda>ys. Inr (map2 h xs ys))"
  by (induction xs) (auto simp: bind_res_def split: sum.splits)

lemma map_res_concat_all: "map_res f (concat xss) = bind_res (map_res (map_res f) xss) (\<lambda>yss. Inr (concat yss))"
  by (induction xss) (auto simp: map_res_append bind_res_def split: sum.splits)

lemma map_res_bind_map: "map_res f (map g xs) = map_res (\<lambda>x. f (g x)) xs"
  by (induction xs) simp_all

lemma chunks_concat:
  assumes "0 < k"
  shows "concat (map (\<lambda>s. take k (drop s xs)) (chunk_starts (length xs) k)) = xs"
proof -
  let ?n = "(length xs + k - 1) div k"
  have "length xs \<le> ?n * k"
    using assms div_mult_mod_eq[of "length xs + k - 1" k] mod_less_divisor[OF assms, of "length xs + k - 1"] by linarith
  then show ?thesis by (simp add: chunk_starts_def comp_def concat_slices)
qed

lemma chunked_topk_log_probs_eq:
  assumes "0 < chunk" and "length flat_topk = length flat_logits"
  shows "chunked_topk_log_probs chunk flat_logits flat_topk =
    map_res (\<lambda>(logits, ids). gather (log_softmax logits) ids) (zip flat_logits flat_topk)"
proof (cases "flat_logits = []")
  case False
  let ?f = "\<lambda>(logits, ids). bind_res (gather logits ids) (\<lambda>g. Inr (map (\<lambda>x. x - logsumexp logits) g))"
  have "zip (take k (drop s flat_logits)) (take k (drop s flat_topk)) = take k (drop s (zip flat_logits flat_topk))" for s k
    by (simp add: take_zip drop_zip)
  then have "chunked_topk_log_probs chunk flat_logits flat_topk =
      map_res ?f (concat (map (\<lambda>s. take chunk (drop s (zip flat_logits flat_topk))) (chunk_starts (length flat_logits) chunk)))"
    using False assms(1) by (simp add: chunked_topk_log_probs_def Let_def map_res_concat_all) (simp add: map_res_bind_map)
  then show ?thesis
    using chunks_concat[OF assms(1), of "zip flat_logits flat_topk"] assms(2) by (simp add: gather_log_softmax)
qed (simp add: chunked_topk_log_probs_def)

text \<open>
  The chunked computation of the top-\<open>k\<close> loss is the plain one: for every chunk size but zero, and when
  \<open>torch.topk\<close> picks the same positions from logits and from logits minus a constant, the whole result is the same,
  diagnostics and errors included, also with sequence parallelism.
\<close>

theorem chunked_loss_is_plain:
  assumes "0 < chunk_size config" and "\<And>k l c. topk_of k (map (\<lambda>x. x - c) l) = topk_of k l"
  shows "fsdp_forward_kl_topk topk_of (config\<lparr> use_chunked_topk := True \<rparr>) sp k teacher student_logits =
    fsdp_forward_kl_topk topk_of (config\<lparr> use_chunked_topk := False \<rparr>) sp k teacher student_logits"
proof -
  define rows where "rows = (case sp of None \<Rightarrow> teacher
            | Some (rank, world) \<Rightarrow> slice_input_tensor (replicate k 0, replicate k 0) True world rank teacher)"
  let ?tok = "\<lambda>p s1. forward_kl_topk_token (log_prob_min_clamp config) s1 (topk_of k (log_softmax (fst p))) (snd p)"
  let ?zip = "zip student_logits rows"
  have topk: "topk_of k (log_softmax logits) = topk_of k logits" for logits
    unfolding log_softmax_def by (rule assms(2))
  have plain: "map_res (\<lambda>(logits, row). bind_res (gather (log_softmax logits) (snd row)) (\<lambda>s1.
        Inr (forward_kl_topk_token (log_prob_min_clamp config) s1 (topk_of k (log_softmax logits)) row))) ?zip =
      bind_res (map_res (\<lambda>p. gather (log_softmax (fst p)) (snd (snd p))) ?zip) (\<lambda>ys. Inr (map2 ?tok ?zip ys))"
    unfolding map_res_bind_Inr[symmetric] by (simp add: case_prod_unfold)
  have chunked: "chunked_topk_log_probs (chunk_size config) student_logits (map snd rows) =
      map_res (\<lambda>p. gather (log_softmax (fst p)) (snd (snd p))) ?zip" if "length rows = length student_logits"
    using chunked_topk_log_probs_eq[OF assms(1), of "map snd rows" student_logits] that
    by (simp add: zip_map2 map_res_bind_map case_prod_beta)
  show ?thesis
  proof (cases "length rows = length student_logits")
    case True
    then show ?thesis
      unfolding fsdp_forward_kl_topk_def Let_def rows_def[symmetric]
      by (simp add: plain[unfolded topk case_prod_unfold] chunked topk case_prod_unfold)
  next
    case False
    then show ?thesis unfolding fsdp_forward_kl_topk_def Let_def rows_def[symmetric] by simp
  qed
qed

definition plain_loss_config :: "str \<Rightarrow> real option \<Rightarrow> loss_config" where
  "plain_loss_config mode h = \<lparr> loss_mode = mode, loss_topk = Some 1, use_task_rewards = False, distillation_loss_coef = 1,
     loss_max_clamp = h, log_prob_min_clamp = None, use_chunked_topk = False, chunk_size = 2, use_policy_gradient = False,
     policy_loss_mode = ''vanilla'', dl_clip_ratio = 1 / 5, dl_clip_ratio_low = 1 / 5, dl_clip_ratio_high = 1 / 5 \<rparr>"

theorem chunked_loss_is_plain_witness:
  "fsdp_forward_kl_topk (\<lambda>k l. [0..int k - 1]) ((plain_loss_config ''forward_kl_topk'' None)\<lparr> use_chunked_topk := True \<rparr>) None 1
      [([0], [1]), ([- 1], [0]), ([- 2], [1])] [[0, 1], [2, 3], [4, 5]] =
    fsdp_forward_kl_topk (\<lambda>k l. [0..int k - 1]) ((plain_loss_config ''forward_kl_topk'' None)\<lparr> use_chunked_topk := False \<rparr>) None 1
      [([0], [1]), ([- 1], [0]), ([- 2], [1])] [[0, 1], [2, 3], [4, 5]]"
  by (rule chunked_loss_is_plain) (simp_all add: plain_loss_config_def)

section \<open>The same loss as the OPD learner\<close>

text \<open>The loss of a token before clamping, where every teacher id is a token of the vocabulary.\<close>

definition fits :: "real list \<Rightarrow> topk_row \<Rightarrow> bool" where
  "fits logits row \<longleftrightarrow> (\<forall>i \<in> set (snd row). 0 \<le> i \<and> i < int (length logits))"

definition picked_log_probs :: "real list \<Rightarrow> topk_row \<Rightarrow> real list" where
  "picked_log_probs logits row = map (\<lambda>i. log_softmax logits ! nat i) (snd row)"

definition token_kl :: "real option \<Rightarrow> real list \<Rightarrow> topk_row \<Rightarrow> real" where
  "token_kl lo logits row = forward_kl (map (clamp_min lo) (fst row)) (map (clamp_min lo) (picked_log_probs logits row))"

definition clamp_loss :: "real option \<Rightarrow> real \<Rightarrow> real" where
  "clamp_loss h x = (case h of None \<Rightarrow> max x 0 | Some b \<Rightarrow> clamp (- b) b (max x 0))"

lemma gather_fits: "fits logits row \<Longrightarrow> gather (log_softmax logits) (snd row) = Inr (picked_log_probs logits row)"
  unfolding gather_def picked_log_probs_def by (rule map_res_all_ok) (simp add: fits_def log_softmax_def)

lemma topk_position_fits:
  "fits logits row \<Longrightarrow> \<exists>out. topk_position topk_of args logits row = Inr out \<and>
     tok_loss out = clamp_loss (opd_loss_max_clamp args) (token_kl (opd_log_prob_min_clamp args) logits row)"
  by (auto simp: topk_position_def Let_def case_prod_beta gather_fits topk_token_loss_def token_kl_def clamp_loss_def
      split: option.split)

lemma fsdp_forward_fits:
  assumes "length teacher = length student_logits" and "\<And>i. i < length teacher \<Longrightarrow> fits (student_logits ! i) (teacher ! i)"
    and "\<not> use_chunked_topk config"
  shows "\<exists>outs. fsdp_forward_kl_topk topk_of config None k teacher student_logits = Inr outs \<and>
    map distillation_losses outs = map2 (token_kl (log_prob_min_clamp config)) student_logits teacher"
proof -
  let ?f = "\<lambda>(logits, row). forward_kl_topk_token (log_prob_min_clamp config) (picked_log_probs logits row)
      (topk_of k (log_softmax logits)) row"
  have "fsdp_forward_kl_topk topk_of config None k teacher student_logits = Inr (map ?f (zip student_logits teacher))"
  proof -
    have "map_res (\<lambda>(logits, row). bind_res (gather (log_softmax logits) (snd row)) (\<lambda>s1.
        Inr (forward_kl_topk_token (log_prob_min_clamp config) s1 (topk_of k (log_softmax logits)) row)))
        (zip student_logits teacher) = Inr (map ?f (zip student_logits teacher))"
    proof (rule map_res_all_ok)
      fix x assume "x \<in> set (zip student_logits teacher)"
      then obtain n where "n < length teacher" "fst x = student_logits ! n" "snd x = teacher ! n"
        using assms(1) by (auto simp: in_set_zip)
      then have "fits (fst x) (snd x)" using assms(2)[of n] by simp
      then show "(\<lambda>(logits, row). bind_res (gather (log_softmax logits) (snd row)) (\<lambda>s1.
        Inr (forward_kl_topk_token (log_prob_min_clamp config) s1 (topk_of k (log_softmax logits)) row))) x = Inr (?f x)"
        by (simp add: case_prod_unfold gather_fits)
    qed
    then show ?thesis using assms(1,3) by (simp add: fsdp_forward_kl_topk_def Let_def)
  qed
  moreover have "map distillation_losses (map ?f (zip student_logits teacher)) =
      map2 (token_kl (log_prob_min_clamp config)) student_logits teacher"
    by (simp add: comp_def case_prod_beta forward_kl_topk_token_def Let_def token_kl_def)
  ultimately show ?thesis by blast
qed

lemma map2_real_parts:
  assumes ok: "lens_ok pw rw lens" and a: "length as = length lens" "\<forall>row \<in> set as. length row = pw + rw"
    and b: "length bs = length lens" "\<forall>row \<in> set bs. length row = pw + rw"
  shows "map2 f (concat (map2 (real_part pw) lens as)) (concat (map2 (real_part pw) lens bs)) =
    concat (map2 (real_part pw) lens (map2 (map2 f) as bs))"
proof -
  let ?as = "map2 (real_part pw) lens as" and ?bs = "map2 (real_part pw) lens bs"
  have len: "length (?as ! i) = length (?bs ! i)" if "i < length lens" for i
    using that a b by (simp add: real_part_def)
  have "map2 f (concat ?as) (concat ?bs) = concat (map2 (map2 f) ?as ?bs)"
    by (rule map2_concat_rows) (use len a(1) b(1) in \<open>auto simp: in_set_zip\<close>)
  also have "map2 (map2 f) ?as ?bs = map2 (real_part pw) lens (map2 (map2 f) as bs)"
    using a(1) b(1) by (intro nth_equalityI) (simp_all add: real_part_def take_zip drop_zip take_map drop_map)
  finally show ?thesis .
qed

text \<open>Any packed values can be cut back, whatever they are.\<close>

lemma split_parts: "length vals = sum_list ns \<Longrightarrow> \<exists>parts. concat parts = vals \<and> map length parts = ns"
proof (induction ns arbitrary: vals)
  case (Cons n ns)
  then have "length (drop n vals) = sum_list ns" by simp
  from Cons.IH[OF this] obtain parts where "concat parts = drop n vals" "map length parts = ns" by blast
  then show ?case using Cons.prems by (intro exI[of _ "take n vals # parts"]) simp
qed simp

lemma no_padding_2_padding_total:
  assumes ok: "lens_ok pw rw lens" and len: "length vals = sum_list (map (\<lambda>pr. fst pr + snd pr) lens)"
  shows "\<exists>m. no_padding_2_padding zero vals (Padded_layout (map (left_right_mask pw rw) lens) pw rw) = Inr m \<and>
    map length m = replicate (length lens) rw"
proof -
  obtain parts where parts: "concat parts = vals" "map length parts = map (\<lambda>pr. fst pr + snd pr) lens"
    using split_parts[OF len] by blast
  have lp: "length parts = length lens" using parts(2) by (metis length_map)
  define rows where "rows = map2 (\<lambda>pr part. replicate (pw - fst pr) zero @ part @ replicate (rw - snd pr) zero) lens parts"
  have part: "length (parts ! i) = fst (lens ! i) + snd (lens ! i)" if "i < length lens" for i
    using that lp arg_cong[OF parts(2), of "\<lambda>xs. xs ! i"] by simp
  have row: "length (rows ! i) = pw + rw" if "i < length lens" for i
    using that lp part[OF that] lens_okD[OF ok that] by (simp add: rows_def)
  have l: "length rows = length lens" using lp by (simp add: rows_def)
  have rows: "\<forall>row \<in> set rows. length row = pw + rw" using row l by (auto simp: in_set_conv_nth)
  have "map2 (real_part pw) lens rows = parts"
    using lp part by (intro nth_equalityI) (auto simp: real_part_def rows_def)
  then have "no_padding_2_padding zero vals (Padded_layout (map (left_right_mask pw rw) lens) pw rw) =
      Inr (map2 (\<lambda>pr row. take (snd pr) (drop (pw - 1) row) @ replicate (rw - snd pr) zero) lens rows)" (is "_ = Inr ?m")
    using no_padding_2_padding_left_right[OF ok l rows, of zero] parts(1) by simp
  moreover have "map length ?m = replicate (length lens) rw"
  proof (rule nth_equalityI)
    fix i assume "i < length (map length ?m)"
    then have i: "i < length lens" by simp
    have "length (rows ! i) = pw + rw" by (rule row[OF i])
    then show "map length ?m ! i = replicate (length lens) rw ! i" using i l lens_okD[OF ok i] by simp
  qed (use l in simp)
  ultimately show ?thesis by blast
qed

text \<open>The response mask of a batch without tool calls.\<close>

definition response_block :: "nat \<Rightarrow> (nat \<times> nat) list \<Rightarrow> matrix" where
  "response_block rw lens = map (\<lambda>pr. replicate (snd pr) 1 @ replicate (rw - snd pr) 0) lens"

lemma response_block_shape: "lens_ok pw rw lens \<Longrightarrow> map length (response_block rw lens) = replicate (length lens) rw"
  by (intro nth_equalityI) (auto simp: response_block_def lens_okD)

lemma length_concat_shape: "map length xss = map length yss \<Longrightarrow> length (concat xss) = length (concat yss)"
  by (simp add: length_concat)

lemma selected_nonempty:
  assumes "lens_ok pw rw lens" and "map length m = replicate (length lens) rw" and "\<exists>pr \<in> set lens. 0 < snd pr"
  shows "selected m (response_block rw lens) \<noteq> []"
proof -
  have "map length (response_block rw lens) = map length m" using response_block_shape[OF assms(1)] assms(2) by simp
  then have len: "length (concat (response_block rw lens)) = length (concat m)" by (rule length_concat_shape)
  have "1 \<in> set (concat (response_block rw lens))" 
  proof -
    obtain pr where "pr \<in> set lens" "0 < snd pr" using assms(3) by blast
    then show ?thesis by (auto simp: response_block_def)
  qed
  then obtain i where "i < length (concat (response_block rw lens))" "concat (response_block rw lens) ! i = 1"
    unfolding in_set_conv_nth by blast
  then have "(1, concat m ! i) \<in> set (zip (concat (response_block rw lens)) (concat m))" using len by (auto simp: in_set_zip)
  then show ?thesis by (force simp: selected_def filter_empty_conv)
qed

lemma forward_kl_topk_registered:
  "bind_res distillation_registry (\<lambda>reg. bind_res (get_distillation_loss_fn ''forward_kl_topk'' reg) f) = f Forward_KL_topk"
  by (simp add: distillation_registry_def register_distillation_loss_def get_distillation_loss_fn_def)

lemma min_max_of_selected: "xs \<noteq> [] \<Longrightarrow> (\<exists>lo. min_of xs = Inr lo) \<and> (\<exists>hi. max_of xs = Inr hi)"
  by (simp add: min_of_def max_of_def)

lemma distillation_loss_supervised:
  assumes ok: "lens_ok pw rw lens" and resp: "\<exists>pr \<in> set lens. 0 < snd pr"
    and layout: "mb_layout d = Padded_layout (map (left_right_mask pw rw) lens) pw rw"
    and msk: "mb_response_mask d = response_block rw lens"
    and config: "loss_mode config = ''forward_kl_topk''" "\<not> use_policy_gradient config" "loss_topk config \<noteq> None"
    and outs: "length (mo_topk out) = sum_list (map (\<lambda>pr. fst pr + snd pr) lens)"
    and losses: "to_responses d (map distillation_losses (mo_topk out)) = Inr losses"
  shows "distillation_loss mode actor config out d =
    agg_with actor mode (map (map (clamp_loss (loss_max_clamp config))) losses) (response_block rw lens)"
proof -
  have resp_ok: "\<exists>m. to_responses d (map f (mo_topk out)) = Inr m \<and> map length m = replicate (length lens) rw" for f
    using no_padding_2_padding_total[OF ok, of "map f (mo_topk out)" 0] outs by (simp add: to_responses_def layout)
  obtain s where s: "to_responses d (map student_mass (mo_topk out)) = Inr s" "selected s (response_block rw lens) \<noteq> []"
    using resp_ok[of student_mass] selected_nonempty[OF ok _ resp] by blast
  obtain t where t: "to_responses d (map teacher_mass (mo_topk out)) = Inr t" "selected t (response_block rw lens) \<noteq> []"
    using resp_ok[of teacher_mass] selected_nonempty[OF ok _ resp] by blast
  have l: "map length losses = replicate (length lens) rw" using resp_ok[of distillation_losses] losses by simp
  let ?max = "map (map (\<lambda>x. max x 0)) losses"
  have "final_forward_kl_topk config out d = Inr ?max"
    using s t l config(3) min_max_of_selected[OF s(2)] min_max_of_selected[OF t(2)] response_block_shape[OF ok]
    by (auto simp: final_forward_kl_topk_def losses msk shapes_agree_def)
  moreover have "map length ?max = replicate (length lens) rw" using l by (simp add: comp_def)
  then have "selected ?max (response_block rw lens) \<noteq> []" by (rule selected_nonempty[OF ok _ resp])
  from min_max_of_selected[OF this] have "\<exists>lo hi. compute_distillation_loss_range ?max (response_block rw lens) = Inr (lo, hi)"
    by (auto simp: compute_distillation_loss_range_def Let_def)
  moreover have "(case loss_max_clamp config of None \<Rightarrow> ?max | Some h \<Rightarrow> map (map (clamp (- h) h)) ?max) =
      map (map (clamp_loss (loss_max_clamp config))) losses"
    by (simp add: clamp_loss_def comp_def split: option.split)
  ultimately show ?thesis
    using config(2) by (auto simp: distillation_loss_def config(1) forward_kl_topk_registered msk agg_with_def Let_def)
qed

text \<open>A weighted sum with block weights is the sum over the block.\<close>

lemma sum_block_tail: "sum_list (map2 (*) xs (replicate r 1 @ replicate k 0)) = sum_list (take r (xs :: real list))"
proof (induction r arbitrary: xs)
  case 0
  have "sum_list (map2 (*) xs (replicate k 0)) = 0"
    by (induction xs arbitrary: k) (case_tac k; simp)+
  then show ?case by simp
next
  case (Suc r)
  then show ?case by (cases xs) simp_all
qed

lemma sum_block: "sum_list (map2 (*) xs (replicate a 0 @ replicate r 1 @ replicate k 0)) = sum_list (take r (drop a (xs :: real list)))"
proof (induction a arbitrary: xs)
  case (Suc a)
  then show ?case by (cases xs) simp_all
qed (simp add: sum_block_tail)

definition response_total :: "(real \<Rightarrow> real) \<Rightarrow> nat \<Rightarrow> (nat \<times> nat) list \<Rightarrow> matrix \<Rightarrow> real" where
  "response_total g pw lens table = sum_list (map2 (\<lambda>pr row. sum_list (map g (take (snd pr) (drop (pw - 1) row)))) lens table)"

lemma response_total_cong:
  assumes "length as = length lens" and "length bs = length lens"
    and "\<And>i. i < length lens \<Longrightarrow> take (snd (lens ! i)) (drop (pw - 1) (as ! i)) = take (snd (lens ! i)) (drop (pw' - 1) (bs ! i))"
  shows "response_total g pw lens as = response_total g pw' lens bs"
  unfolding response_total_def using assms by (intro arg_cong[of _ _ sum_list] nth_equalityI) simp_all

lemma masked_sum1_times: "masked_sum1 vals msk = sum_list (map2 (*) vals msk)"
  by (induction vals msk rule: list_induct2') (auto simp: masked_sum1_def)

lemma masked_sum_block:
  assumes ok: "lens_ok pw rw lens" and table: "length table = length lens" "\<forall>row \<in> set table. length row = pw + rw"
  shows "masked_sum (map (map g) (map2 (\<lambda>pr row. take (snd pr) (drop (pw - 1) row) @ replicate (rw - snd pr) 0) lens table))
      (response_block rw lens) = response_total g pw lens table"
  unfolding masked_sum_def response_block_def response_total_def
proof (intro arg_cong[of _ _ sum_list] nth_equalityI)
  fix i assume "i < length (map2 masked_sum1
      (map (map g) (map2 (\<lambda>pr row. take (snd pr) (drop (pw - 1) row) @ replicate (rw - snd pr) 0) lens table))
      (map (\<lambda>pr. replicate (snd pr) 1 @ replicate (rw - snd pr) 0) lens))"
  then have i: "i < length lens" by simp
  then have "length (take (snd (lens ! i)) (drop (pw - 1) (table ! i))) = snd (lens ! i)"
    using table lens_okD[OF ok i] by simp
  then show "map2 masked_sum1
      (map (map g) (map2 (\<lambda>pr row. take (snd pr) (drop (pw - 1) row) @ replicate (rw - snd pr) 0) lens table))
      (map (\<lambda>pr. replicate (snd pr) 1 @ replicate (rw - snd pr) 0) lens) ! i =
    map2 (\<lambda>pr row. sum_list (map g (take (snd pr) (drop (pw - 1) row)))) lens table ! i"
    using i table(1) by (simp add: masked_sum1_times sum_block_tail sum_block_tail[where k = 0, simplified] sum_list_replicate del: length_take One_nat_def)
qed (use table in simp)

lemma map_res_ex:
  "(\<And>x. x \<in> set xs \<Longrightarrow> \<exists>y. f x = Inr y \<and> h y = g x) \<Longrightarrow> \<exists>ys. map_res f xs = Inr ys \<and> map h ys = map g xs"
proof (induction xs)
  case (Cons x xs)
  from Cons.prems obtain y where "f x = Inr y" "h y = g x" by auto
  moreover from Cons.IH Cons.prems obtain ys where "map_res f xs = Inr ys" "map h ys = map g xs" by auto
  ultimately show ?case by (intro exI[of _ "y # ys"]) simp
qed simp

text \<open>Two tables of logits and teacher rows fit: same shape, and every id is a token.\<close>

definition tables_fit :: "nat \<Rightarrow> nat \<Rightarrow> real list list list \<Rightarrow> topk_row list list \<Rightarrow> bool" where
  "tables_fit n w logits teacher \<longleftrightarrow> length logits = n \<and> length teacher = n \<and>
     (\<forall>i < n. length (logits ! i) = w \<and> length (teacher ! i) = w \<and> (\<forall>t < w. fits (logits ! i ! t) (teacher ! i ! t)))"

lemma token_rows_fit:
  assumes "tables_fit n w s t"
  shows "\<exists>outs. token_rows topk_of args s t = Inr outs \<and>
    map (map tok_loss) outs =
      map2 (map2 (\<lambda>l r. clamp_loss (opd_loss_max_clamp args) (token_kl (opd_log_prob_min_clamp args) l r))) s t"
proof -
  let ?g = "\<lambda>l r. clamp_loss (opd_loss_max_clamp args) (token_kl (opd_log_prob_min_clamp args) l r)"
  have row: "\<exists>out. map_res (\<lambda>(s, t). topk_position topk_of args s t) (zip sr tr) = Inr out \<and> map tok_loss out = map2 ?g sr tr"
    if "(sr, tr) \<in> set (zip s t)" for sr tr
  proof (rule map_res_ex)
    fix x assume "x \<in> set (zip sr tr)"
    obtain i where "i < length (zip s t)" "zip s t ! i = (sr, tr)" using \<open>(sr, tr) \<in> set (zip s t)\<close>
      unfolding in_set_conv_nth by blast
    then have "i < n" "sr = s ! i" "tr = t ! i" using assms by (auto simp: tables_fit_def)
    moreover obtain p where "p < length (zip sr tr)" "zip sr tr ! p = x"
      using \<open>x \<in> set (zip sr tr)\<close> unfolding in_set_conv_nth by blast
    ultimately have "p < w" "x = (s ! i ! p, t ! i ! p)" "fits (s ! i ! p) (t ! i ! p)"
      using assms by (auto simp: tables_fit_def)
    then have "fits (fst x) (snd x)" by simp
    then show "\<exists>y. (case x of (s, t) \<Rightarrow> topk_position topk_of args s t) = Inr y \<and> tok_loss y = (case x of (l, r) \<Rightarrow> ?g l r)"
      using topk_position_fits[of "fst x" "snd x" topk_of args] by (simp add: case_prod_beta)
  qed
  show ?thesis
    unfolding token_rows_def by (rule map_res_ex) (use row in \<open>auto split: prod.split\<close>)
qed

lemma loss_numerator_block:
  assumes "tables_fit n w s t" and "n = length lens"
    and "token_rows topk_of args s t = Inr outs"
    and outs: "map (map tok_loss) outs =
      map2 (map2 (\<lambda>l r. clamp_loss (opd_loss_max_clamp args) (token_kl (opd_log_prob_min_clamp args) l r))) s t"
  shows "loss_numerator outs (map (\<lambda>pr. replicate (pw - 1) 0 @ replicate (snd pr) 1 @ replicate (m - snd pr) 0) lens) =
    response_total (clamp_loss (opd_loss_max_clamp args)) pw lens (map2 (map2 (token_kl (opd_log_prob_min_clamp args))) s t)"
proof -
  let ?g = "clamp_loss (opd_loss_max_clamp args)" and ?kl = "token_kl (opd_log_prob_min_clamp args)"
  have len: "length outs = length lens" using arg_cong[OF outs, of length] assms(1,2) by (simp add: tables_fit_def)
  have row: "map tok_loss (outs ! i) = map ?g (map2 ?kl (s ! i) (t ! i))" if "i < length lens" for i
    using arg_cong[OF outs, of "\<lambda>xs. xs ! i"] that len assms(1,2) by (simp add: tables_fit_def comp_def case_prod_beta)
  have weigh: "sum_list (map2 (\<lambda>tok c. tok_loss tok * c) xs (replicate a 0 @ replicate r 1 @ replicate k 0)) =
      sum_list (take r (drop a (map tok_loss xs)))" for xs a r k
    using sum_block[of "map tok_loss xs" a r k] by (simp add: zip_map1 comp_def case_prod_unfold)
  show ?thesis
    unfolding loss_numerator_def response_total_def
  proof (intro arg_cong[of _ _ sum_list] nth_equalityI)
    fix i assume "i < length (map2 (\<lambda>orow mrow. sum_list (map2 (\<lambda>tok c. tok_loss tok * c) orow mrow)) outs
      (map (\<lambda>pr. replicate (pw - 1) 0 @ replicate (snd pr) 1 @ replicate (m - snd pr) 0) lens))"
    then have i: "i < length lens" by simp
    then show "map2 (\<lambda>orow mrow. sum_list (map2 (\<lambda>tok c. tok_loss tok * c) orow mrow)) outs
      (map (\<lambda>pr. replicate (pw - 1) 0 @ replicate (snd pr) 1 @ replicate (m - snd pr) 0) lens) ! i =
      map2 (\<lambda>pr row. sum_list (map ?g (take (snd pr) (drop (pw - 1) row)))) lens (map2 (map2 ?kl) s t) ! i"
      using len assms(1,2) by (simp add: weigh row tables_fit_def take_map drop_map del: One_nat_def map_map)
  qed (use len assms(1,2) in \<open>simp add: tables_fit_def\<close>)
qed

lemma tables_fit_shape:
  assumes "tables_fit n w as bs"
  shows "length as = n" "\<forall>row \<in> set as. length row = w" "length bs = n" "\<forall>row \<in> set bs. length row = w"
  using assms by (auto simp: tables_fit_def in_set_conv_nth)

lemma set_real_parts: "set (concat (map2 (real_part pw) lens rows)) \<subseteq> (\<Union>row \<in> set rows. set row)"
  by (auto simp: real_part_def dest!: in_set_takeD in_set_dropD dest: set_zip_rightD)

lemma packed_fits:
  assumes ok: "lens_ok pw rw lens" and fit: "tables_fit (length lens) (pw + rw) as bs"
    and i: "i < length (concat (map2 (real_part pw) lens bs))"
  shows "fits (concat (map2 (real_part pw) lens as) ! i) (concat (map2 (real_part pw) lens bs) ! i)"
proof -
  note shape = tables_fit_shape[OF fit]
  let ?as = "concat (map2 (real_part pw) lens as)" and ?bs = "concat (map2 (real_part pw) lens bs)"
  have len: "length ?bs = length ?as"
    by (rule length_concat_shape) (simp only: length_real_parts[OF ok shape(1,2)] length_real_parts[OF ok shape(3,4)])
  have all: "\<forall>row \<in> set (map2 (map2 fits) as bs). \<forall>b \<in> set row. b"
  proof (intro ballI)
    fix row b assume row: "row \<in> set (map2 (map2 fits) as bs)" and b: "b \<in> set row"
    from row obtain i where i: "i < length lens" "row = map2 fits (as ! i) (bs ! i)"
      using shape(1,3) by (auto simp: in_set_conv_nth)
    with b obtain t where "t < length (map2 fits (as ! i) (bs ! i))" "b = map2 fits (as ! i) (bs ! i) ! t"
      by (metis in_set_conv_nth)
    then show b using fit i(1) by (simp add: tables_fit_def)
  qed
  have "map2 fits ?as ?bs ! i \<in> set (map2 fits ?as ?bs)" using i len by (intro nth_mem) simp
  then have "map2 fits ?as ?bs ! i \<in> set (concat (map2 (real_part pw) lens (map2 (map2 fits) as bs)))"
    by (simp only: map2_real_parts[OF ok shape])
  then have "map2 fits ?as ?bs ! i" using all set_real_parts[of pw lens "map2 (map2 fits) as bs"] by blast
  then show ?thesis using i len by simp
qed

text \<open>
  C3: the OPD learner computes verl's supervised distillation loss.  For a batch without tool calls, packed and
  cut back by verl and padded (to widths of its own) by the learner, with the same logits and teacher rows before every
  response token, the same clamps, and the token count of all ranks in both, verl's loss on the top-\<open>k\<close>
  tokens with \<open>token-mean\<close> aggregation and the learner's loss both exist and are the same number.
\<close>

theorem opd_learner_matches_verl:
  assumes ok: "lens_ok pw rw lens" and resp: "\<exists>pr \<in> set lens. 0 < snd pr"
    and verl_tables: "tables_fit (length lens) (pw + rw) logits teacher"
    and packed: "mb_layout d = Padded_layout (map (left_right_mask pw rw) lens) pw rw" "mb_response_mask d = response_block rw lens"
    and config: "loss_mode config = ''forward_kl_topk''" "\<not> use_policy_gradient config" "\<not> use_chunked_topk config"
      "loss_topk config \<noteq> None" "loss_max_clamp config = opd_loss_max_clamp args" "log_prob_min_clamp config = opd_log_prob_min_clamp args"
    and counts: "cfg_dp_size actor = length dens" "cfg_batch_num_tokens actor = Some (sum_list dens)" "1 \<le> sum_list dens"
    and opd_tables: "tables_fit (length lens) (pw' + m - 1) opd_logits opd_teacher"
    and agree: "\<And>i. i < length lens \<Longrightarrow>
      take (snd (lens ! i)) (drop (pw - 1) (logits ! i)) = take (snd (lens ! i)) (drop (pw' - 1) (opd_logits ! i)) \<and>
      take (snd (lens ! i)) (drop (pw - 1) (teacher ! i)) = take (snd (lens ! i)) (drop (pw' - 1) (opd_teacher ! i))"
  shows "\<exists>outs loss toks.
    fsdp_forward_kl_topk topk_of config None k (concat (map2 (real_part pw) lens teacher))
      (concat (map2 (real_part pw) lens logits)) = Inr outs \<and>
    distillation_loss ''token-mean'' actor config (out\<lparr> mo_topk := outs \<rparr>) d = Inr loss \<and>
    forward_kl_topk_loss topk_of args (Some dens) opd_logits opd_teacher
      (map (\<lambda>pr. replicate (pw' - 1) 0 @ replicate (snd pr) 1 @ replicate (m - snd pr) 0) lens) = Inr (loss, toks)"
proof -
  let ?n = "length lens" and ?lo = "opd_log_prob_min_clamp args" and ?g = "clamp_loss (opd_loss_max_clamp args)"
  let ?kl = "map2 (map2 (token_kl ?lo)) logits teacher" and ?kl' = "map2 (map2 (token_kl ?lo)) opd_logits opd_teacher"
  have shape: "length logits = ?n" "\<forall>row \<in> set logits. length row = pw + rw" "length teacher = ?n" "\<forall>row \<in> set teacher. length row = pw + rw"
    using tables_fit_shape[OF verl_tables] by simp_all
  let ?tp = "concat (map2 (real_part pw) lens teacher)" and ?lp = "concat (map2 (real_part pw) lens logits)"
  have lens_eq: "length ?tp = length ?lp"
    by (rule length_concat_shape) (simp only: length_real_parts[OF ok shape(1,2)] length_real_parts[OF ok shape(3,4)])
  note fit = packed_fits[OF ok verl_tables]
  obtain outs where outs: "fsdp_forward_kl_topk topk_of config None k ?tp ?lp = Inr outs"
      "map distillation_losses outs = map2 (token_kl ?lo) ?lp ?tp"
    using fsdp_forward_fits[OF lens_eq fit config(3)] config(6) by metis
  have packed_kl: "map distillation_losses outs = concat (map2 (real_part pw) lens ?kl)"
    unfolding outs(2) by (rule map2_real_parts[OF ok shape])
  have kl_shape: "length ?kl = ?n" "\<forall>row \<in> set ?kl. length row = pw + rw"
    using shape by (auto simp: in_set_zip)
  have count: "length outs = sum_list (map (\<lambda>pr. fst pr + snd pr) lens)"
    using arg_cong[OF packed_kl, of length] unfolding length_map length_concat length_real_parts[OF ok kl_shape] .
  let ?m = "map2 (\<lambda>pr row. take (snd pr) (drop (pw - 1) row) @ replicate (rw - snd pr) 0) lens ?kl"
  have "to_responses d (map distillation_losses outs) = Inr ?m"
    using no_padding_2_padding_left_right[OF ok kl_shape, of 0] by (simp add: to_responses_def packed packed_kl)
  then have "distillation_loss ''token-mean'' actor config (out\<lparr> mo_topk := outs \<rparr>) d =
      agg_with actor ''token-mean'' (map (map ?g) ?m) (response_block rw lens)"
    using distillation_loss_supervised[OF ok resp packed config(1,2,4), of "out\<lparr> mo_topk := outs \<rparr>"] count config(5) by simp
  then have verl: "distillation_loss ''token-mean'' actor config (out\<lparr> mo_topk := outs \<rparr>) d =
      Inr (response_total ?g pw lens ?kl / sum_list dens * real (length dens))"
    using masked_sum_block[OF ok kl_shape, of ?g] by (simp add: agg_with_def agg_loss_def default_count_def counts del: One_nat_def)
  obtain toks where toks: "token_rows topk_of args opd_logits opd_teacher = Inr toks"
      "map (map tok_loss) toks = map2 (map2 (\<lambda>l r. ?g (token_kl ?lo l r))) opd_logits opd_teacher"
    using token_rows_fit[OF opd_tables] by blast
  have opd: "forward_kl_topk_loss topk_of args (Some dens) opd_logits opd_teacher
      (map (\<lambda>pr. replicate (pw' - 1) 0 @ replicate (snd pr) 1 @ replicate (m - snd pr) 0) lens) =
    Inr (response_total ?g pw' lens ?kl' / sum_list dens * real (length dens), toks)"
    using counts(3) loss_numerator_block[OF opd_tables refl toks, of pw' m]
    by (simp add: forward_kl_topk_loss_alt toks(1) rank_loss_def del: One_nat_def)
  have "response_total ?g pw lens ?kl = response_total ?g pw' lens ?kl'"
  proof (rule response_total_cong)
    fix i assume i: "i < ?n"
    have "take r (drop a (map2 f xs ys)) = map2 f (take r (drop a xs)) (take r (drop a ys))" for r a xs ys and f :: "real list \<Rightarrow> topk_row \<Rightarrow> real"
      by (simp add: take_map drop_map take_zip drop_zip)
    then show "take (snd (lens ! i)) (drop (pw - 1) (?kl ! i)) = take (snd (lens ! i)) (drop (pw' - 1) (?kl' ! i))"
      using i agree[OF i] shape opd_tables by (simp add: tables_fit_def del: One_nat_def)
  qed (use shape opd_tables in \<open>simp_all add: tables_fit_def\<close>)
  with outs(1) verl opd show ?thesis by auto
qed

definition example_actor :: "nat \<Rightarrow> real option \<Rightarrow> actor_config" where
  "example_actor dp tokens = \<lparr> cfg_clip_ratio = 1 / 5, cfg_clip_ratio_low = None, cfg_clip_ratio_high = None, cfg_clip_ratio_c = 3,
     cfg_dp_size = dp, cfg_batch_num_tokens = tokens, cfg_global_batch_size = None, cfg_loss_scale_factor = None \<rparr>"

definition example_batch :: "batch_layout \<Rightarrow> matrix \<Rightarrow> micro_batch" where
  "example_batch layout msk = \<lparr> mb_layout = layout, mb_response_mask = msk, mb_old_log_probs = [], mb_advantages = [],
     mb_ref_log_prob = None, mb_rollout_is_weights = None, mb_teacher_logprobs = [], mb_dp_size = 1,
     mb_batch_num_tokens = None, mb_global_batch_size = None \<rparr>"

definition empty_output :: model_output where
  "empty_output = \<lparr> mo_log_probs = [], mo_entropy = None, mo_topk = [] \<rparr>"

theorem opd_learner_matches_verl_witness:
  "\<exists>outs loss toks.
    fsdp_forward_kl_topk (\<lambda>k l. [0]) (plain_loss_config ''forward_kl_topk'' None) None 1 [([0], [1]), ([0], [0])] [[0, 1], [0, 0]] = Inr outs \<and>
    distillation_loss ''token-mean'' (example_actor 2 (Some 3)) (plain_loss_config ''forward_kl_topk'' None) (empty_output\<lparr> mo_topk := outs \<rparr>)
      (example_batch (Padded_layout [[0, 1, 1, 0]] 2 2) [[1, 0]]) = Inr loss \<and>
    forward_kl_topk_loss (\<lambda>k l. [0]) (plain_opd_args 1) (Some [1, 2]) [[[0, 1]]] [[([0], [1])]] [[1]] = Inr (loss, toks)"
proof -
  let ?lens = "[(1, 1)] :: (nat \<times> nat) list"
  let ?logits = "[[[], [0, 1], [0, 0], []]] :: real list list list" and ?teacher = "[[([], []), ([0], [1]), ([0], [0]), ([], [])]] :: topk_row list list"
  have four: "t < 4 \<longleftrightarrow> t = 0 \<or> t = 1 \<or> t = 2 \<or> t = (3 :: nat)" for t by auto
  have ok: "lens_ok 2 2 ?lens" by (simp add: lens_ok_def)
  have fit: "tables_fit (length ?lens) (2 + 2) ?logits ?teacher" by (simp add: tables_fit_def fits_def four)
  have fit': "tables_fit (length ?lens) (1 + 1 - 1) [[[0, 1]]] [[([0], [1])]]" by (simp add: tables_fit_def fits_def)
  have msk: "map (left_right_mask 2 2) ?lens = [[0, 1, 1, 0]]" "response_block 2 ?lens = [[1, 0]]"
    by (simp_all add: left_right_mask_def response_block_def)
  have parts: "concat (map2 (real_part 2) ?lens ?logits) = [[0, 1], [0, 0]]" "concat (map2 (real_part 2) ?lens ?teacher) = [([0], [1]), ([0], [0])]"
    by (simp_all add: real_part_def numeral_2_eq_2)
  have opd_mask: "map (\<lambda>pr. replicate (1 - 1) 0 @ replicate (snd pr) 1 @ replicate (1 - snd pr) 0) ?lens = [[1 :: real]]" by simp
  have layout: "mb_layout (example_batch (Padded_layout [[0, 1, 1, 0]] 2 2) [[1, 0]]) = Padded_layout (map (left_right_mask 2 2) ?lens) 2 2"
    "mb_response_mask (example_batch (Padded_layout [[0, 1, 1, 0]] 2 2) [[1, 0]]) = response_block 2 ?lens"
    unfolding msk by (simp_all add: example_batch_def)
  show ?thesis
    by (rule opd_learner_matches_verl[OF ok _ fit layout, where pw' = 1 and m = 1 and opd_logits = "[[[0, 1]]]"
          and opd_teacher = "[[([0], [1])]]", unfolded parts opd_mask])
       (use fit' in \<open>simp_all add: plain_loss_config_def plain_opd_args_def example_actor_def\<close>)
qed

section \<open>Stale counts\<close>

lemma distillation_ppo_loss_counts:
  assumes config: "loss_mode config = ''forward_kl_topk''" "\<not> use_policy_gradient config" "loss_topk config \<noteq> None" "\<not> use_task_rewards config"
    and ok: "lens_ok pw rw lens" and resp: "\<exists>pr \<in> set lens. 0 < snd pr"
    and packed: "mb_layout d = Padded_layout (map (left_right_mask pw rw) lens) pw rw" "mb_response_mask d = response_block rw lens"
    and outs: "length (mo_topk out) = sum_list (map (\<lambda>pr. fst pr + snd pr) lens)"
    and run: "distillation_ppo_loss policy_losses actor config out d = Inr (loss, actor')"
  shows "\<exists>losses. to_responses d (map distillation_losses (mo_topk out)) = Inr losses \<and>
    agg_with (va_config actor) (va_loss_agg_mode actor) (map (map (clamp_loss (loss_max_clamp config))) losses) (mb_response_mask d) = Inr loss \<and>
    actor' = set_info actor d"
proof -
  obtain losses where losses: "to_responses d (map distillation_losses (mo_topk out)) = Inr losses"
    using no_padding_2_padding_total[OF ok, of "map distillation_losses (mo_topk out)" 0] outs
    by (auto simp: to_responses_def packed(1))
  from run obtain dl p where dl: "distillation_loss (va_loss_agg_mode actor) (va_config actor) config out d = Inr dl"
    and p: "ppo_loss policy_losses actor out d = Inr (p, actor')" and loss: "loss = dl"
    using config(4) by (auto simp: distillation_ppo_loss_def bind_res_Inr_iff Let_def)
  have "actor' = set_info actor d"
    using p by (auto simp: ppo_loss_def bind_res_Inr_iff Let_def)
  with losses dl loss show ?thesis
    using distillation_loss_supervised[OF ok resp packed config(1-3) outs losses] by (simp add: packed(2))
qed

text \<open>A micro-batch without tool calls that has a response token, with the model's outputs for it.\<close>

definition plain_micro_batch :: "model_output \<times> micro_batch \<Rightarrow> bool" where
  "plain_micro_batch mb \<longleftrightarrow>
     (\<exists>pw rw lens. lens_ok pw rw lens \<and> (\<exists>pr \<in> set lens. 0 < snd pr) \<and>
        mb_layout (snd mb) = Padded_layout (map (left_right_mask pw rw) lens) pw rw \<and>
        mb_response_mask (snd mb) = response_block rw lens \<and>
        length (mo_topk (fst mb)) = sum_list (map (\<lambda>pr. fst pr + snd pr) lens))"

definition loss_with_counts :: "loss_config \<Rightarrow> verl_actor \<Rightarrow> model_output \<times> micro_batch \<Rightarrow> real result" where
  "loss_with_counts config counts mb =
     bind_res (to_responses (snd mb) (map distillation_losses (mo_topk (fst mb)))) (\<lambda>losses.
       agg_with (va_config counts) (va_loss_agg_mode counts) (map (map (clamp_loss (loss_max_clamp config))) losses) (mb_response_mask (snd mb)))"

lemma loss_with_counts_step:
  assumes config: "loss_mode config = ''forward_kl_topk''" "\<not> use_policy_gradient config" "loss_topk config \<noteq> None" "\<not> use_task_rewards config"
    and mb: "plain_micro_batch (out, d)" and run: "distillation_ppo_loss policy_losses actor config out d = Inr (loss, actor')"
  shows "loss_with_counts config actor (out, d) = Inr loss \<and> actor' = set_info actor d"
proof -
  obtain pw rw lens where "lens_ok pw rw lens" "\<exists>pr \<in> set lens. 0 < snd pr"
    "mb_layout d = Padded_layout (map (left_right_mask pw rw) lens) pw rw" "mb_response_mask d = response_block rw lens"
    "length (mo_topk out) = sum_list (map (\<lambda>pr. fst pr + snd pr) lens)"
    using mb unfolding plain_micro_batch_def fst_conv snd_conv by blast
  from distillation_ppo_loss_counts[OF config this run] show ?thesis by (auto simp: loss_with_counts_def)
qed

lemma set_info_again [simp]: "set_info (set_info a d) d' = set_info a d'"
  by (simp add: set_info_def)

text \<open>
  C17: the supervised distillation loss divides by the counts of the previous micro-batch: \<open>distillation_ppo_loss\<close> computes it
  before \<open>ppo_loss\<close> records the counts that come with the micro-batch.  In a run over micro-batches the first loss is computed with
  the counts the actor happened to have (none at the start of training, so it is averaged over its own tokens as if there were one rank),
  and every later one with those of its predecessor.
\<close>

theorem distillation_counts_are_stale:
  assumes "loss_mode config = ''forward_kl_topk''" and "\<not> use_policy_gradient config" and "loss_topk config \<noteq> None"
    and "\<not> use_task_rewards config"
    and "\<forall>mb \<in> set mbs. plain_micro_batch mb"
    and "run_micro_batches policy_losses config actor mbs = Inr (losses, actor')"
  shows "length losses = length mbs \<and>
    (\<forall>i < length mbs. loss_with_counts config (if i = 0 then actor else set_info actor (snd (mbs ! (i - 1)))) (mbs ! i) = Inr (losses ! i))"
  using assms(5,6)
proof (induction mbs arbitrary: actor losses)
  case (Cons mb mbs)
  obtain out d where mb: "mb = (out, d)" by (cases mb)
  from Cons.prems(2) obtain loss mid rest where one: "distillation_ppo_loss policy_losses actor config out d = Inr (loss, mid)"
    and more: "run_micro_batches policy_losses config mid mbs = Inr (rest, actor')" and losses: "losses = loss # rest"
    by (auto simp: mb bind_res_Inr_iff)
  have first: "loss_with_counts config actor (out, d) = Inr loss" "mid = set_info actor d"
    using loss_with_counts_step[OF assms(1-4) _ one] Cons.prems(1) mb by auto
  have "\<forall>mb \<in> set mbs. plain_micro_batch mb" using Cons.prems(1) by simp
  from Cons.IH[OF this more] have IH: "length rest = length mbs" "\<And>i. i < length mbs \<Longrightarrow>
      loss_with_counts config (if i = 0 then set_info actor d else set_info actor (snd (mbs ! (i - 1)))) (mbs ! i) = Inr (rest ! i)"
    unfolding first(2) set_info_again by blast+
  show ?case
  proof (intro conjI allI impI)
    fix i assume "i < length (mb # mbs)"
    then show "loss_with_counts config (if i = 0 then actor else set_info actor (snd ((mb # mbs) ! (i - 1)))) ((mb # mbs) ! i) = Inr (losses ! i)"
      using IH(2)[of "i - 1"] first(1) by (cases i) (auto simp: mb losses nth_Cons' split: if_splits)
  qed (simp add: losses IH(1))
qed simp

definition one_token_output :: "real \<Rightarrow> model_output" where
  "one_token_output x = \<lparr> mo_log_probs = [0, 0], mo_entropy = None,
     mo_topk = replicate 2 \<lparr> distillation_losses = x, student_mass = 1, teacher_mass = 1, overlap_count = 1, overlap_token_advantage = 0 \<rparr> \<rparr>"

definition one_token_batch :: micro_batch where
  "one_token_batch = (example_batch (Padded_layout [[1, 1]] 1 1) [[1]])\<lparr> mb_batch_num_tokens := Some 2 \<rparr>"

definition example_verl_actor :: verl_actor where
  "example_verl_actor = \<lparr> va_config = example_actor 1 None, va_loss_scale_factor = None, va_loss_agg_mode = ''token-mean'',
     va_loss_mode = ''vanilla'', va_entropy_coeff = 0, va_use_kl_loss = False, va_kl_loss_type = ''k3'', va_kl_loss_coef = 0 \<rparr>"

lemma example_run:
  "\<exists>losses actor'. run_micro_batches [(''vanilla'', compute_policy_loss_vanilla)] (plain_loss_config ''forward_kl_topk'' None) example_verl_actor
     [(one_token_output 3, one_token_batch), (one_token_output 5, one_token_batch)] = Inr (losses, actor')"
  by (simp add: distillation_ppo_loss_def distillation_loss_def plain_loss_config_def forward_kl_topk_registered final_forward_kl_topk_def
      to_responses_def one_token_batch_def one_token_output_def example_batch_def no_padding_2_padding_def cu_seqlens_of_def Let_def
      response_slice_def py_slice_def slice_bound_def pad_right_def stack_def numeral_2_eq_2 shapes_agree_def selected_def min_of_def max_of_def
      compute_distillation_loss_range_def agg_loss_def default_count_def example_verl_actor_def example_actor_def ppo_loss_def
      get_policy_loss_fn_def compute_policy_loss_vanilla_def set_info_def)

theorem distillation_counts_are_stale_witness:
  "\<exists>losses actor'. run_micro_batches [(''vanilla'', compute_policy_loss_vanilla)] (plain_loss_config ''forward_kl_topk'' None) example_verl_actor
     [(one_token_output 3, one_token_batch), (one_token_output 5, one_token_batch)] = Inr (losses, actor') \<and> losses = [3, 5 / 2]"
proof -
  let ?config = "plain_loss_config ''forward_kl_topk'' None" and ?mbs = "[(one_token_output 3, one_token_batch), (one_token_output 5, one_token_batch)]"
  obtain losses actor' where run: "run_micro_batches [(''vanilla'', compute_policy_loss_vanilla)] ?config example_verl_actor ?mbs = Inr (losses, actor')"
    using example_run by blast
  have "plain_micro_batch (one_token_output x, one_token_batch)" for x
    unfolding plain_micro_batch_def
    by (intro exI[of _ 1] exI[of _ "[(1, 1)]"])
       (simp add: lens_ok_def one_token_batch_def one_token_output_def example_batch_def left_right_mask_def response_block_def)
  then have "\<forall>mb \<in> set ?mbs. plain_micro_batch mb" by simp
  from distillation_counts_are_stale[OF _ _ _ _ this run]
  have l: "length losses = 2" "loss_with_counts ?config example_verl_actor (one_token_output 3, one_token_batch) = Inr (losses ! 0)"
    "loss_with_counts ?config (set_info example_verl_actor one_token_batch) (one_token_output 5, one_token_batch) = Inr (losses ! 1)"
    by (auto simp: plain_loss_config_def)
  have resp: "to_responses one_token_batch (map distillation_losses (mo_topk (one_token_output x))) = Inr [[x]]" for x
    by (simp add: to_responses_def one_token_batch_def one_token_output_def example_batch_def no_padding_2_padding_def cu_seqlens_of_def Let_def
      response_slice_def py_slice_def slice_bound_def pad_right_def stack_def numeral_2_eq_2)
  have "losses ! 0 = 3" "losses ! 1 = 5 / 2"
    using l(2,3) unfolding loss_with_counts_def fst_conv snd_conv resp bind_res_simps
    by (simp_all add: agg_with_def agg_loss_def default_count_def example_verl_actor_def
      example_actor_def set_info_def one_token_batch_def example_batch_def masked_sum_def masked_sum1_def msum_def clamp_loss_def plain_loss_config_def)
  then have "losses = [3, 5 / 2]" using l(1) by (intro nth_equalityI) (auto simp: less_Suc_eq numeral_2_eq_2)
  then show ?thesis using run by blast
qed

section \<open>A micro-batch without a response token\<close>

text \<open>
  Verl's distillation loss raises on a micro-batch in which no token of any response is trained on (the minimum over an empty
  selection), whatever the aggregation and the counts, where the OPD learner returns a loss of zero.
\<close>

theorem distillation_raises_without_response:
  assumes ok: "lens_ok pw rw lens" and "\<forall>pr \<in> set lens. snd pr = 0"
    and packed: "mb_layout d = Padded_layout (map (left_right_mask pw rw) lens) pw rw" "mb_response_mask d = response_block rw lens"
    and config: "loss_mode config = ''forward_kl_topk''" "loss_topk config \<noteq> None"
    and outs: "length (mo_topk out) = sum_list (map (\<lambda>pr. fst pr + snd pr) lens)"
  shows "distillation_ppo_loss policy_losses actor config out d = Inl RuntimeError"
proof -
  have resp_ok: "\<exists>m. to_responses d (map f (mo_topk out)) = Inr m \<and> map length m = replicate (length lens) rw" for f
    using no_padding_2_padding_total[OF ok, of "map f (mo_topk out)" 0] outs by (simp add: to_responses_def packed(1))
  then obtain losses s t where r: "to_responses d (map distillation_losses (mo_topk out)) = Inr losses"
    "map length losses = replicate (length lens) rw"
    "to_responses d (map student_mass (mo_topk out)) = Inr s" "to_responses d (map teacher_mass (mo_topk out)) = Inr t" by metis
  have "x = 0" if "x \<in> set (concat (response_block rw lens))" for x
    using that assms(2) by (auto simp: response_block_def split: if_splits)
  then have "selected m (response_block rw lens) = []" for m :: matrix
    by (auto simp: selected_def filter_empty_conv dest: set_zip_leftD)
  then have "final_forward_kl_topk config out d = Inl RuntimeError"
    using r config(2) response_block_shape[OF ok] by (simp add: final_forward_kl_topk_def packed(2) shapes_agree_def min_of_def)
  then show ?thesis
    by (simp add: distillation_ppo_loss_def distillation_loss_def config(1) forward_kl_topk_registered)
qed

theorem distillation_raises_without_response_witness:
  "distillation_ppo_loss [(''vanilla'', compute_policy_loss_vanilla)] example_verl_actor (plain_loss_config ''forward_kl_topk'' (Some 10))
     ((one_token_output 3)\<lparr> mo_topk := take 1 (mo_topk (one_token_output 3)) \<rparr>) (example_batch (Padded_layout [[1, 0]] 1 1) [[0]]) = Inl RuntimeError"
  by (rule distillation_raises_without_response[of 1 1 "[(1, 0)]"])
     (simp_all add: lens_ok_def example_batch_def left_right_mask_def response_block_def plain_loss_config_def one_token_output_def)

section \<open>Supervised loss on packed rows\<close>

lemma sum_list_concat_rows: "sum_list (concat xss) = sum_list (map sum_list (xss :: real list list))"
  by (induction xss) simp_all

lemma roll_left_rows: "roll_left (concat (map (\<lambda>t. 0 # t) ts)) = concat (map (\<lambda>t. t @ [0 :: real]) ts)"
proof -
  have "concat (map (\<lambda>t. 0 # t) ts) @ [0] = 0 # concat (map (\<lambda>t. t @ [0 :: real]) ts)"
    by (induction ts) simp_all
  then show ?thesis by (cases ts) (auto simp: roll_left_def split: list.split)
qed

text \<open>
  Rolling the packed loss mask as a whole trains every row on its own tokens: when no row begins with a trained token, the
  element that the roll takes from the next row (and, for the last row, from the first) is zero, and the loss is the mean over
  all ranks of the log-probabilities that predict the trained tokens.
\<close>

theorem sft_loss_shifts_within_rows:
  assumes "\<forall>m \<in> set masks. m \<noteq> [] \<and> hd m = 0" and "map length log_probs = map length masks"
  shows "sft_loss_no_padding (as_nested log_probs) (as_nested masks) n dp =
    - sum_list (map2 (\<lambda>lp m. sum_list (map (\<lambda>t. lp ! t * m ! Suc t) [0..<length m - 1])) log_probs masks) / n * real dp"
proof -
  have len: "length log_probs = length masks" using arg_cong[OF assms(2), of length] by simp
  have "0 # tl m = m" if "m \<in> set masks" for m
    using assms(1) that by (cases m) auto
  then have "map (\<lambda>t. 0 # t) (map tl masks) = masks"
    by (simp add: map_idI)
  then have roll: "roll_left (concat masks) = concat (map (\<lambda>m. tl m @ [0]) masks)"
    using roll_left_rows[of "map tl masks"] by (simp add: comp_def)
  have row: "length (log_probs ! i) = length (masks ! i)" "masks ! i \<noteq> []" if "i < length masks" for i
    using that arg_cong[OF assms(2), of "\<lambda>xs. xs ! i"] assms(1) len by simp_all
  have "map2 (*) (concat log_probs) (concat (map (\<lambda>m. tl m @ [0]) masks)) =
      concat (map2 (map2 (*)) log_probs (map (\<lambda>m. tl m @ [0]) masks))"
    by (rule map2_concat_rows) (use len row in \<open>auto simp: in_set_zip\<close>)
  then have "masked_sum1 (concat log_probs) (roll_left (concat masks)) =
      sum_list (map sum_list (map2 (map2 (*)) log_probs (map (\<lambda>m. tl m @ [0]) masks)))"
    by (simp only: roll masked_sum1_times sum_list_concat_rows)
  also have "map sum_list (map2 (map2 (*)) log_probs (map (\<lambda>m. tl m @ [0]) masks)) =
      map2 (\<lambda>lp m. sum_list (map (\<lambda>t. lp ! t * m ! Suc t) [0..<length m - 1])) log_probs masks"
  proof (rule nth_equalityI)
    fix i assume "i < length (map sum_list (map2 (map2 (*)) log_probs (map (\<lambda>m. tl m @ [0]) masks)))"
    then have i: "i < length masks" by simp
    obtain m ms where m: "masks ! i = m # ms" using row(2)[OF i] by (cases "masks ! i") auto
    have "map2 (*) (log_probs ! i) (ms @ [0]) = map (\<lambda>t. log_probs ! i ! t * (ms @ [0]) ! t) [0..<Suc (length ms)]"
      using row(1)[OF i] m by (intro nth_equalityI) (auto simp del: upt_Suc)
    moreover have "map (\<lambda>t. log_probs ! i ! t * (ms @ [0]) ! t) [0..<length ms] = map (\<lambda>t. log_probs ! i ! t * ms ! t) [0..<length ms]"
      by (simp add: nth_append)
    ultimately have "sum_list (map2 (*) (log_probs ! i) (ms @ [0])) = sum_list (map (\<lambda>t. log_probs ! i ! t * ms ! t) [0..<length ms])"
      by simp
    then show "map sum_list (map2 (map2 (*)) log_probs (map (\<lambda>m. tl m @ [0]) masks)) ! i =
        map2 (\<lambda>lp m. sum_list (map (\<lambda>t. lp ! t * m ! Suc t) [0..<length m - 1])) log_probs masks ! i"
      using i len m by simp
  qed (use len in simp)
  finally show ?thesis by (simp add: sft_loss_no_padding_def as_nested_def)
qed

theorem sft_loss_shifts_within_rows_witness:
  "sft_loss_no_padding (as_nested [[-1, -2, -3], [-4, -5]]) (as_nested [[0, 1, 1], [0, 1]]) 3 1 = 7 / 3"
  using sft_loss_shifts_within_rows[of "[[0, 1, 1], [0, 1]]" "[[-1, -2, -3], [-4, -5]]" 3 1] by (simp add: numeral_2_eq_2)

section \<open>Teachers fill their resource pool\<close>

lemma fold_teachers_keys:
  "fold_res (\<lambda>resolved (x, t). bind_res (check_configured t) (\<lambda>_.
       if map_of resolved (the (tc_key t)) \<noteq> None then Inl ValueError else Inr (resolved @ [(the (tc_key t), t)]))) r ts = Inr r' \<Longrightarrow>
   distinct (map fst r) \<Longrightarrow> distinct (map fst r') \<and> (\<forall>p \<in> set r' - set r. tc_num_replicas (snd p) \<noteq> None)"
proof (induction ts arbitrary: r)
  case (Cons p ts)
  obtain x t where p: "p = (x, t)" by (cases p)
  from Cons.prems(1) have c: "check_configured t = Inr ()" and new: "map_of r (the (tc_key t)) = None"
    and rest: "fold_res (\<lambda>resolved (x, t). bind_res (check_configured t) (\<lambda>_.
       if map_of resolved (the (tc_key t)) \<noteq> None then Inl ValueError else Inr (resolved @ [(the (tc_key t), t)])))
        (r @ [(the (tc_key t), t)]) ts = Inr r'"
    by (auto simp: p bind_res_Inr_iff split: if_splits)
  have "distinct (map fst (r @ [(the (tc_key t), t)]))" using Cons.prems(2) new by (simp add: map_of_eq_None_iff)
  from Cons.IH[OF rest this] c show ?case by (auto simp: check_configured_def split: if_splits)
qed auto

lemma resolve_teacher_models_ok:
  assumes "resolve_teacher_models pool ts = Inr resolved"
  shows "distinct (map fst resolved)"
  using assms fold_teachers_keys by (fastforce simp: resolve_teacher_models_def bind_res_Inr_iff)

lemma validate_and_prepare_ok:
  assumes "validate_and_prepare use_topk topk t = Inr t'"
  shows "tc_response_length t' = 1 \<and> (\<forall>n. tc_max_model_len t' = Some n \<longrightarrow> tc_prompt_length t' + 1 \<le> n) \<and>
    (use_topk \<and> tc_engine t' = ''vllm'' \<longrightarrow> (\<exists>k m. topk = Some k \<and> tc_max_logprobs t' = Some m \<and> k \<le> m)) \<and>
    (use_topk \<longrightarrow> topk \<noteq> None \<and> tc_engine t' \<in> {''vllm'', ''sglang''})"
  using assms by (auto simp: validate_and_prepare_def validate_topk_logprobs_def Let_def split: if_splits option.splits)

text \<open>
  An accepted configuration of teachers: the keys that samples are routed by are distinct, the replicas of all teachers together
  take exactly the GPUs of the pool, and every teacher is prepared to score: its context holds the student's prompt and response
  and one more token, it generates one token, and a vLLM teacher may return at least the \<open>topk\<close> log-probabilities the loss needs.
\<close>

theorem teachers_fill_their_pool:
  assumes "distillation_config_post_init True gpus nodes settings topk ts = Inr teachers"
  shows "distinct (map fst teachers) \<and>
    (\<exists>sizes. map_res (\<lambda>(k, t). teacher_world_size t) teachers = Inr sizes \<and> sum_list sizes = gpus * nodes) \<and>
    (\<forall>(key, t) \<in> set teachers. tc_response_length t = 1 \<and> (\<forall>n. tc_max_model_len t = Some n \<longrightarrow> tc_prompt_length t + 1 \<le> n) \<and>
       (ls_use_topk settings \<and> tc_engine t = ''vllm'' \<longrightarrow> (\<exists>k m. topk = Some k \<and> tc_max_logprobs t = Some m \<and> k \<le> m)))"
proof -
  obtain resolved sizes where resolved: "resolve_teacher_models (gpus * nodes) ts = Inr resolved"
    and prepared: "map_res (\<lambda>(k, t). bind_res (validate_and_prepare (ls_use_topk settings) topk t) (\<lambda>t'. Inr (k, t'))) resolved = Inr teachers"
    and sizes: "map_res (\<lambda>(k, t). teacher_world_size t) teachers = Inr sizes" "sum_list sizes = gpus * nodes"
    using assms by (auto simp: distillation_config_post_init_def bind_res_Inr_iff split: if_splits)
  have each: "fst (teachers ! i) = fst (resolved ! i) \<and>
      validate_and_prepare (ls_use_topk settings) topk (snd (resolved ! i)) = Inr (snd (teachers ! i))" if "i < length resolved" for i
    using map_res_nth[OF prepared that] by (cases "teachers ! i") (auto simp: case_prod_beta bind_res_Inr_iff)
  have len: "length teachers = length resolved" by (rule map_res_length[OF prepared])
  have "map fst teachers = map fst resolved" using each len by (intro nth_equalityI) simp_all
  then have "distinct (map fst teachers)" using resolve_teacher_models_ok[OF resolved] by simp
  moreover have "\<forall>(key, t) \<in> set teachers. tc_response_length t = 1 \<and> (\<forall>n. tc_max_model_len t = Some n \<longrightarrow> tc_prompt_length t + 1 \<le> n) \<and>
       (ls_use_topk settings \<and> tc_engine t = ''vllm'' \<longrightarrow> (\<exists>k m. topk = Some k \<and> tc_max_logprobs t = Some m \<and> k \<le> m))"
  proof safe
    fix key t assume "(key, t) \<in> set teachers"
    then obtain i where "i < length resolved" "teachers ! i = (key, t)" using len by (auto simp: in_set_conv_nth)
    with each[of i] have "validate_and_prepare (ls_use_topk settings) topk (snd (resolved ! i)) = Inr t" by simp
    from validate_and_prepare_ok[OF this] show "tc_response_length t = 1"
      and "\<And>n. tc_max_model_len t = Some n \<Longrightarrow> tc_prompt_length t + 1 \<le> n"
      and "ls_use_topk settings \<Longrightarrow> tc_engine t = ''vllm'' \<Longrightarrow> \<exists>k m. topk = Some k \<and> tc_max_logprobs t = Some m \<and> k \<le> m"
      by blast+
  qed
  ultimately show ?thesis using sizes by blast
qed

definition example_teacher :: teacher_config where
  "example_teacher = \<lparr> tc_key = None, tc_model_path = Some ''m'', tc_num_replicas = Some 0, tc_tp = 2, tc_dp = 1, tc_pp = 1,
     tc_engine = ''vllm'', tc_max_logprobs = None, tc_max_model_len = Some 20, tc_prompt_length = 8, tc_response_length = 8 \<rparr>"

theorem teachers_fill_their_pool_witness:
  "\<exists>teachers. distillation_config_post_init True 4 2 \<lparr> ls_names = [], ls_use_topk = True, ls_use_estimator = False \<rparr> (Some 5)
      [(''teacher_model'', example_teacher)] = Inr teachers \<and> distinct (map fst teachers)"
proof -
  have "\<exists>teachers. distillation_config_post_init True 4 2 \<lparr> ls_names = [], ls_use_topk = True, ls_use_estimator = False \<rparr> (Some 5)
      [(''teacher_model'', example_teacher)] = Inr teachers"
    by (simp add: distillation_config_post_init_def resolve_teacher_models_def example_teacher_def per_replica_world_size_def Let_def
        check_configured_def validate_and_prepare_def validate_topk_logprobs_def teacher_world_size_def)
  then obtain teachers where run: "distillation_config_post_init True 4 2 \<lparr> ls_names = [], ls_use_topk = True, ls_use_estimator = False \<rparr> (Some 5)
      [(''teacher_model'', example_teacher)] = Inr teachers" ..
  from teachers_fill_their_pool[OF run] run show ?thesis by blast
qed

end
