(* ===== verification/AgentLoop.thy ===== *)
theory AgentLoop
  imports LoadBalancer VerlDistillation
begin

text \<open>
  One request through verl's rollout: the limits and the outputs of \<open>vLLMHttpServer.generate\<close>
  (\<open>workers/rollout/vllm_rollout/vllm_async_server.py\<close>, \<open>utils.py\<close>), the single-turn agent
  (\<open>experimental/agent_loop/single_turn_agent_loop.py\<close>), the scoring of its tokens by a teacher
  (\<open>experimental/teacher_loop/teacher_manager.py\<close>), and the padding and batching of \<open>agent_loop.py\<close>.  The engine is an argument:
  what it answers to a prompt, a limit and the number of log-probabilities asked for.  Only text is modelled: no images, and positions
  of the text model.
\<close>

section \<open>The server\<close>

record server_config =
  sv_max_model_len :: int
  sv_prompt_length :: int
  sv_response_length :: int

record sampling =
  sp_max_tokens :: "int option"
  sp_max_new_tokens :: "int option"
  sp_logprobs :: bool
  sp_prompt_logprobs :: "nat option"

definition server_max_tokens :: "server_config \<Rightarrow> sampling \<Rightarrow> int list \<Rightarrow> int result" where
  "server_max_tokens cfg sp prompt_ids =
     (let max_possible_tokens = sv_max_model_len cfg - int (length prompt_ids);
          max_tokens = (case sp_max_tokens sp of
              Some m \<Rightarrow> m
            | None \<Rightarrow> (case sp_max_new_tokens sp of
                Some m \<Rightarrow> m
              | None \<Rightarrow> min (sv_response_length cfg) (sv_prompt_length cfg + sv_response_length cfg - int (length prompt_ids))))
      in if max_possible_tokens < 1 then Inl ValueError
         else (let m = max 1 (min max_tokens max_possible_tokens)
               in asserting (1 \<le> m \<and> m \<le> max_possible_tokens) (Inr m)))"

text \<open>A token of a log-probability dictionary with its rank (from 1) and its value.\<close>

type_synonym prompt_logprob = "int \<times> nat \<times> real"

definition set_rank :: "'a list \<Rightarrow> nat \<Rightarrow> 'a \<Rightarrow> 'a list" where
  "set_rank xs rank v = xs[(if rank = 0 then length xs - 1 else rank - 1) := v]"

definition prompt_row :: "nat \<Rightarrow> prompt_logprob list \<Rightarrow> (int option list \<times> real option list) result" where
  "prompt_row k entries =
     (if k = 0 then (case entries of [] \<Rightarrow> Inl IndexError | (t, _, lp) # _ \<Rightarrow> Inr ([Some t], [Some lp]))
      else asserting (length entries \<in> {k, k + 1})
        (Inr (foldl (\<lambda>(ids, lps) (t, rank, lp). if k < rank then (ids, lps) else (set_rank ids rank (Some t), set_rank lps rank (Some lp)))
               (replicate k None, replicate k None) entries)))"

text \<open>The first prompt token has no entry; the row of a token is the distribution of the next one, and the last row is a dummy.\<close>

definition extract_prompt_logprobs ::
  "prompt_logprob list option list \<Rightarrow> nat option \<Rightarrow> (int option list list \<times> real option list list) option result" where
  "extract_prompt_logprobs prompt_logprobs num_prompt_logprobs =
     (case num_prompt_logprobs of
        None \<Rightarrow> Inr None
      | Some k \<Rightarrow>
          bind_res (map_res (\<lambda>e. case e of None \<Rightarrow> Inl AttributeError | Some entries \<Rightarrow> prompt_row k entries) (tl prompt_logprobs)) (\<lambda>rows.
          Inr (Some (map fst rows @ [replicate (max k 1) (Some 0)], map snd rows @ [replicate (max k 1) (Some 0)]))))"

record engine_output =
  eo_token_ids :: "int list"
  eo_logprobs :: "(int, int) dict list"
  eo_prompt_logprobs :: "prompt_logprob list option list"
  eo_finish_reason :: "str option"
  eo_num_preempted :: "int option"

record server_output =
  so_tokens :: token_output
  so_prompt :: "(int option list list \<times> real option list list) option"

definition stop_reason_of :: "str option \<Rightarrow> str option" where
  "stop_reason_of finish_reason =
     (if finish_reason = Some ''abort'' then Some ''aborted''
      else if finish_reason \<in> {Some ''stop'', Some ''length''} then Some ''completed'' else finish_reason)"

text \<open>The log-probabilities of the generated tokens: \<open>enumerate\<close> runs over the dictionaries.\<close>

definition sampled_logprobs :: "int list \<Rightarrow> (int, int) dict list \<Rightarrow> int list result" where
  "sampled_logprobs ids logprobs =
     map_res (\<lambda>(i, d). bind_res (py_index ids (int i)) (\<lambda>t. dict_index d t)) (zip [0..<length logprobs] logprobs)"

definition vllm_generate ::
  "(int list \<Rightarrow> int \<Rightarrow> sampling \<Rightarrow> engine_output option) \<Rightarrow> server_config \<Rightarrow> int option \<Rightarrow> sampling \<Rightarrow> int list \<Rightarrow> server_output result" where
  "vllm_generate engine cfg steps sp prompt_ids =
     bind_res (server_max_tokens cfg sp prompt_ids) (\<lambda>max_tokens.
       case engine prompt_ids max_tokens sp of
         None \<Rightarrow> Inr \<lparr> so_tokens = \<lparr> token_ids = [], log_probs = None, routed_experts = None, stop_reason = Some ''aborted'', num_preempted = None,
                          global_steps = steps, min_global_steps = None, max_global_steps = None \<rparr>, so_prompt = None \<rparr>
       | Some eo \<Rightarrow>
           bind_res (extract_prompt_logprobs (eo_prompt_logprobs eo) (sp_prompt_logprobs sp)) (\<lambda>prompt.
           bind_res (if sp_logprobs sp then bind_res (sampled_logprobs (eo_token_ids eo) (eo_logprobs eo)) (\<lambda>l. Inr (Some l)) else Inr None) (\<lambda>lps.
           Inr \<lparr> so_tokens = \<lparr> token_ids = eo_token_ids eo, log_probs = lps, routed_experts = None, stop_reason = stop_reason_of (eo_finish_reason eo),
                   num_preempted = eo_num_preempted eo, global_steps = steps, min_global_steps = None, max_global_steps = None \<rparr>,
                 so_prompt = prompt \<rparr>)))"

section \<open>The single-turn agent\<close>

record agent_output =
  ao_prompt_ids :: "int list"
  ao_response_ids :: "int list"
  ao_response_mask :: "int list"
  ao_response_logprobs :: "int list option"
  ao_num_turns :: nat
  ao_reward_score :: "real option"

text \<open>The cap at the end of \<open>apply_chat_template\<close>: text is cut on the left, a prompt with images is refused.\<close>

definition cap_prompt :: "nat \<Rightarrow> bool \<Rightarrow> int list \<Rightarrow> int list result" where
  "cap_prompt p_len multimodal prompt_ids =
     (if p_len < length prompt_ids
      then if multimodal then Inl ValueError else Inr (py_slice prompt_ids (Some (- int p_len)) None)
      else Inr prompt_ids)"

definition truthy_list :: "'a list option \<Rightarrow> bool" where
  "truthy_list x = (case x of None \<Rightarrow> False | Some xs \<Rightarrow> xs \<noteq> [])"

definition single_turn_run :: "(int list \<Rightarrow> token_output result) \<Rightarrow> nat \<Rightarrow> nat \<Rightarrow> int list \<Rightarrow> agent_output result" where
  "single_turn_run generate p_len r_len templated =
     bind_res (cap_prompt p_len False templated) (\<lambda>prompt_ids.
     bind_res (generate prompt_ids) (\<lambda>out.
     Inr \<lparr> ao_prompt_ids = prompt_ids, ao_response_ids = take r_len (token_ids out),
           ao_response_mask = take r_len (replicate (length (token_ids out)) 1),
           ao_response_logprobs = (if truthy_list (log_probs out) then map_option (take r_len) (log_probs out) else None),
           ao_num_turns = 2, ao_reward_score = None \<rparr>))"

section \<open>The teacher\<close>

definition get_teacher_sampling_params :: "real \<Rightarrow> bool \<Rightarrow> nat \<Rightarrow> sampling result" where
  "get_teacher_sampling_params temperature use_topk topk =
     (if temperature \<noteq> 1 then Inl NotImplementedError
      else Inr \<lparr> sp_max_tokens = Some 1, sp_max_new_tokens = None, sp_logprobs = False,
                 sp_prompt_logprobs = Some (if use_topk then topk else 0) \<rparr>)"

definition resolve_teacher_key :: "(str, 't) dict \<Rightarrow> str option \<Rightarrow> str result" where
  "resolve_teacher_key teacher_model_configs routing_key =
     (if length teacher_model_configs = 1 then Inr (fst (hd teacher_model_configs))
      else case routing_key of
        None \<Rightarrow> Inl ValueError
      | Some k \<Rightarrow> if map_of teacher_model_configs k = None then Inl ValueError else Inr k)"

text \<open>\<open>torch.tensor\<close> of a nested list refuses a missing entry.\<close>

definition to_tensor :: "'a option list list \<Rightarrow> 'a list list result" where
  "to_tensor rows = (if \<exists>row \<in> set rows. None \<in> set row then Inl RuntimeError else Inr (map (map the) rows))"

record teacher_settings =
  ts_temperature :: "str \<Rightarrow> real"
  ts_use_topk :: bool
  ts_topk :: nat

type_synonym teacher_rows = "int list list \<times> real list list"

definition compute_teacher_logprobs_single ::
  "(str, 't) dict \<Rightarrow> teacher_settings \<Rightarrow> (str \<Rightarrow> sampling \<Rightarrow> int list \<Rightarrow> server_output result) \<Rightarrow> int list \<Rightarrow> str option \<Rightarrow> teacher_rows result" where
  "compute_teacher_logprobs_single configs settings generate sequence_ids routing_key =
     bind_res (resolve_teacher_key configs routing_key) (\<lambda>key.
     bind_res (get_teacher_sampling_params (ts_temperature settings key) (ts_use_topk settings) (ts_topk settings)) (\<lambda>sp.
     bind_res (generate key sp sequence_ids) (\<lambda>out.
       case so_prompt out of
         None \<Rightarrow> Inl KeyError
       | Some (ids, lps) \<Rightarrow>
           bind_res (to_tensor ids) (\<lambda>teacher_ids.
           bind_res (to_tensor lps) (\<lambda>teacher_logprobs.
           asserting (length teacher_ids = length teacher_logprobs \<and> length teacher_logprobs = length sequence_ids)
             (Inr (teacher_ids, teacher_logprobs)))))))"

text \<open>\<open>F.pad\<close> with rows before and after; the rows have the width of the first.\<close>

definition pad_rows :: "'a \<Rightarrow> nat \<Rightarrow> nat \<Rightarrow> 'a list list \<Rightarrow> 'a list list" where
  "pad_rows v n_before n_after rows =
     (let blank = replicate (case rows of [] \<Rightarrow> 0 | r # _ \<Rightarrow> length r) v in replicate n_before blank @ rows @ replicate n_after blank)"

definition pad_teacher_outputs :: "teacher_rows \<Rightarrow> nat \<Rightarrow> nat \<Rightarrow> nat \<Rightarrow> nat \<Rightarrow> int \<Rightarrow> teacher_rows" where
  "pad_teacher_outputs rows p_width r_width p_len r_len pad_token_id =
     (pad_rows pad_token_id (p_width - p_len) (r_width - r_len) (fst rows),
      pad_rows 0 (p_width - p_len) (r_width - r_len) (snd rows))"

section \<open>Padding of one output\<close>

text \<open>\<open>tokenizer.pad\<close> to a length does not cut longer inputs, and refuses to work without a padding token.\<close>

definition pad_token_ids :: "int option \<Rightarrow> nat \<Rightarrow> bool \<Rightarrow> int list \<Rightarrow> (int list \<times> int list) result" where
  "pad_token_ids pad_id max_len left tokens =
     (if tokens = [] then Inr (replicate max_len (case pad_id of None \<Rightarrow> 0 | Some p \<Rightarrow> p), replicate max_len 0)
      else case pad_id of
        None \<Rightarrow> Inl ValueError
      | Some p \<Rightarrow>
          (let n = max_len - length tokens; ones = replicate (length tokens) 1
           in Inr (if left then (replicate n p @ tokens, replicate n 0 @ ones) else (tokens @ replicate n p, ones @ replicate n 0))))"

fun running_sum :: "int \<Rightarrow> int list \<Rightarrow> int list" where
  "running_sum acc [] = []"
| "running_sum acc (x # xs) = (acc + x) # running_sum (acc + x) xs"

definition compute_position_id_with_mask :: "int list \<Rightarrow> int list" where
  "compute_position_id_with_mask msk = map (\<lambda>s. max (s - 1) 0) (running_sum 0 msk)"

record padded_output =
  po_prompt_ids :: "int list"
  po_response_ids :: "int list"
  po_input_ids :: "int list"
  po_position_ids :: "int list"
  po_response_mask :: "int list"
  po_attention_mask :: "int list"
  po_response_logprobs :: "int list option"
  po_teacher :: "teacher_rows option"
  po_reward_score :: "real option"
  po_num_turns :: nat

definition agent_loop_postprocess ::
  "int option \<Rightarrow> nat \<Rightarrow> nat \<Rightarrow> (int list \<Rightarrow> teacher_rows result) option \<Rightarrow> bool \<Rightarrow> agent_output \<Rightarrow> padded_output result" where
  "agent_loop_postprocess pad_id p_len r_len teacher validate out =
     bind_res (pad_token_ids pad_id p_len True (ao_prompt_ids out)) (\<lambda>(p_ids, p_att).
     bind_res (pad_token_ids pad_id r_len False (ao_response_ids out)) (\<lambda>(r_ids, r_att).
     bind_res (pad_token_ids pad_id r_len False (ao_response_mask out)) (\<lambda>(m_ids, _).
     if length m_ids \<noteq> length r_att then Inl RuntimeError
     else
       bind_res (case teacher of
           Some score \<Rightarrow> if validate then Inr None
             else bind_res (score (ao_prompt_ids out @ ao_response_ids out)) (\<lambda>rows.
                  Inr (Some (pad_teacher_outputs rows (length p_ids) (length r_ids) (length (ao_prompt_ids out)) (length (ao_response_ids out))
                               (case pad_id of None \<Rightarrow> 0 | Some p \<Rightarrow> p))))
         | None \<Rightarrow> Inr None) (\<lambda>padded_teacher.
       Inr \<lparr> po_prompt_ids = p_ids, po_response_ids = r_ids, po_input_ids = p_ids @ r_ids,
             po_position_ids = compute_position_id_with_mask (p_att @ r_att), po_response_mask = map2 (*) m_ids r_att,
             po_attention_mask = p_att @ r_att,
             po_response_logprobs = map_option (\<lambda>l. l @ replicate (r_len - length l) 0) (ao_response_logprobs out),
             po_teacher = padded_teacher, po_reward_score = ao_reward_score out, po_num_turns = ao_num_turns out \<rparr>))))"

section \<open>The batch of a worker\<close>

text \<open>\<open>torch.cat\<close> of rows along the batch.\<close>

definition cat_rows :: "'a list list \<Rightarrow> 'a list list result" where
  "cat_rows rows = (if rows = [] \<or> (\<exists>r \<in> set rows. length r \<noteq> length (hd rows)) then Inl RuntimeError else Inr rows)"

definition cat_optional :: "'a list option list \<Rightarrow> 'a list list option result" where
  "cat_optional rows =
     (if rows = [] \<or> hd rows = None then Inr None
      else if None \<in> set rows then Inl TypeError
      else bind_res (cat_rows (map the rows)) (\<lambda>r. Inr (Some r)))"

record agent_batch =
  ab_prompts :: "int list list"
  ab_responses :: "int list list"
  ab_response_mask :: "int list list"
  ab_attention_mask :: "int list list"
  ab_input_ids :: "int list list"
  ab_position_ids :: "int list list"
  ab_rollout_log_probs :: "int list list option"
  ab_teacher_logprobs :: "real list list list option"
  ab_teacher_ids :: "int list list list option"
  ab_rm_scores :: "real list list option"

text \<open>The score goes to the last valid response token; \<open>-1\<close>, for an empty response, is the last column.\<close>

definition place_score :: "nat \<Rightarrow> int list \<Rightarrow> int list \<Rightarrow> real \<Rightarrow> real list result" where
  "place_score p_width attention response_mask score =
     (let j = sum_list (drop p_width attention) - 1; n = int (length response_mask); k = (if j < 0 then j + n else j)
      in if 0 \<le> k \<and> k < n then Inr ((map (\<lambda>_. 0) response_mask)[nat k := score]) else Inl IndexError)"

definition postprocess_batch :: "padded_output list \<Rightarrow> agent_batch result" where
  "postprocess_batch inputs =
     bind_res (cat_rows (map po_prompt_ids inputs)) (\<lambda>prompts.
     bind_res (cat_rows (map po_response_ids inputs)) (\<lambda>responses.
     bind_res (cat_rows (map po_response_mask inputs)) (\<lambda>response_mask.
     bind_res (cat_rows (map po_attention_mask inputs)) (\<lambda>attention_mask.
     bind_res (cat_rows (map po_input_ids inputs)) (\<lambda>input_ids.
     bind_res (cat_rows (map po_position_ids inputs)) (\<lambda>position_ids.
     bind_res (cat_optional (map po_response_logprobs inputs)) (\<lambda>rollout_log_probs.
     bind_res (cat_optional (map (map_option snd \<circ> po_teacher) inputs)) (\<lambda>teacher_logprobs.
     bind_res (cat_optional (map (map_option fst \<circ> po_teacher) inputs)) (\<lambda>teacher_ids.
     bind_res (if \<forall>x \<in> set inputs. po_reward_score x \<noteq> None
               then bind_res (map_res (\<lambda>x. place_score (length (hd prompts)) (po_attention_mask x) (po_response_mask x) (the (po_reward_score x))) inputs)
                      (\<lambda>s. Inr (Some s))
               else Inr None) (\<lambda>rm_scores.
     Inr \<lparr> ab_prompts = prompts, ab_responses = responses, ab_response_mask = response_mask, ab_attention_mask = attention_mask,
           ab_input_ids = input_ids, ab_position_ids = position_ids, ab_rollout_log_probs = rollout_log_probs,
           ab_teacher_logprobs = teacher_logprobs, ab_teacher_ids = teacher_ids, ab_rm_scores = rm_scores \<rparr>))))))))))"

text \<open>\<open>get_trajectory_info\<close>: the number of a rollout within a run of equal indices.\<close>

fun rollout_numbers :: "'i option \<Rightarrow> nat \<Rightarrow> 'i list \<Rightarrow> nat list" where
  "rollout_numbers prev k [] = []"
| "rollout_numbers prev k (i # is) =
     (let n = (if prev = Some i then k + 1 else 0) in n # rollout_numbers (Some i) n is)"

definition get_trajectory_info :: "int \<Rightarrow> 'i list \<Rightarrow> bool \<Rightarrow> (int \<times> 'i \<times> nat \<times> bool) list" where
  "get_trajectory_info step index validate = map2 (\<lambda>i n. (step, i, n, validate)) index (rollout_numbers None 0 index)"

section \<open>Room for the teacher\<close>

lemma server_max_tokens_bounds:
  "server_max_tokens cfg sp prompt_ids = Inr m \<Longrightarrow> 1 \<le> m \<and> int (length prompt_ids) + m \<le> sv_max_model_len cfg"
  by (auto simp: server_max_tokens_def Let_def split: if_splits)

lemma teacher_prepared_length:
  "validate_and_prepare use_topk topk t = Inr t' \<Longrightarrow> tc_max_model_len t = Some n \<Longrightarrow>
   tc_prompt_length t + tc_response_length t + 1 \<le> n"
  by (auto simp: validate_and_prepare_def Let_def split: if_splits)

text \<open>
  A teacher whose configuration was accepted never runs out of context on a sequence of the student: every prompt and response
  within the configured lengths leaves the room of the one token that the request asks for.
\<close>

theorem accepted_teacher_has_room:
  assumes "validate_and_prepare use_topk topk t = Inr t'" and "tc_max_model_len t = Some n"
    and "length prompt \<le> tc_prompt_length t" and "length response \<le> tc_response_length t"
    and "get_teacher_sampling_params temperature use_topk' k = Inr sp" and "sv_max_model_len cfg = int n"
  shows "server_max_tokens cfg sp (prompt @ response) = Inr 1"
proof -
  have "length (prompt @ response) + 1 \<le> n" using teacher_prepared_length[OF assms(1,2)] assms(3,4) by simp
  moreover have "sp_max_tokens sp = Some 1" using assms(5) by (auto simp: get_teacher_sampling_params_def split: if_splits)
  ultimately show ?thesis using assms(6) by (simp add: server_max_tokens_def Let_def)
qed

section \<open>The rows of the teacher\<close>

lemma set_rank_length [simp]: "length (set_rank xs r v) = length xs"
  by (simp add: set_rank_def)

lemma set_rank_nth: "1 \<le> rank \<Longrightarrow> rank \<le> length xs \<Longrightarrow> r < length xs \<Longrightarrow> set_rank xs rank v ! r = (if rank = r + 1 then v else xs ! r)"
  by (auto simp: set_rank_def nth_list_update)

definition place_entry :: "nat \<Rightarrow> int option list \<times> real option list \<Rightarrow> prompt_logprob \<Rightarrow> int option list \<times> real option list" where
  "place_entry k = (\<lambda>(ids, lps) (t, rank, lp). if k < rank then (ids, lps) else (set_rank ids rank (Some t), set_rank lps rank (Some lp)))"

lemma place_entries:
  assumes "distinct (map (fst \<circ> snd) entries)" and "\<forall>e \<in> set entries. 1 \<le> fst (snd e)"
    and "length ids = k" "length lps = k" and "r < k"
  shows "fst (foldl (place_entry k) (ids, lps) entries) ! r =
      (case find (\<lambda>e. fst (snd e) = r + 1) entries of Some (t, _, _) \<Rightarrow> Some t | None \<Rightarrow> ids ! r) \<and>
    snd (foldl (place_entry k) (ids, lps) entries) ! r =
      (case find (\<lambda>e. fst (snd e) = r + 1) entries of Some (_, _, lp) \<Rightarrow> Some lp | None \<Rightarrow> lps ! r)"
  using assms
proof (induction entries arbitrary: ids lps)
  case (Cons e entries)
  obtain t rank lp where e: "e = (t, rank, lp)" by (cases e) auto
  let ?p = "place_entry k (ids, lps) e"
  have len: "length (fst ?p) = k" "length (snd ?p) = k" using Cons.prems(3,4) by (auto simp: place_entry_def e)
  have none: "rank = r + 1 \<Longrightarrow> find (\<lambda>e. fst (snd e) = r + 1) entries = None"
    using Cons.prems(1) by (force simp: e find_None_iff)
  have step: "fst ?p ! r = (if rank = r + 1 then Some t else ids ! r)" "snd ?p ! r = (if rank = r + 1 then Some lp else lps ! r)"
    using Cons.prems(2-5) by (auto simp: place_entry_def e set_rank_nth)
  have "foldl (place_entry k) (ids, lps) (e # entries) = foldl (place_entry k) (fst ?p, snd ?p) entries" by simp
  with Cons.IH[of "fst ?p" "snd ?p"] len Cons.prems(1,2,5) step none show ?case
    by (auto simp: e split: option.splits)
qed simp

text \<open>A dictionary of log-probabilities that lists the \<open>best\<close> tokens with ranks \<open>1\<close> to \<open>k\<close>, and perhaps the token itself.\<close>

definition ranked :: "nat \<Rightarrow> prompt_logprob list \<Rightarrow> (int \<times> real) list \<Rightarrow> bool" where
  "ranked k entries best \<longleftrightarrow> length best = k \<and> length entries \<in> {k, k + 1} \<and> distinct (map (fst \<circ> snd) entries) \<and>
     (\<forall>e \<in> set entries. 1 \<le> fst (snd e)) \<and> (\<forall>r < k. (fst (best ! r), r + 1, snd (best ! r)) \<in> set entries)"

lemma prompt_row_ranked:
  assumes "ranked k entries best" and "0 < k"
  shows "prompt_row k entries = Inr (map (Some \<circ> fst) best, map (Some \<circ> snd) best)"
proof -
  have r: "length best = k" "length entries \<in> {k, k + 1}" "distinct (map (fst \<circ> snd) entries)"
      "\<forall>e \<in> set entries. 1 \<le> fst (snd e)" "\<And>r. r < k \<Longrightarrow> (fst (best ! r), r + 1, snd (best ! r)) \<in> set entries"
    using assms(1) by (auto simp: ranked_def)
  let ?out = "foldl (place_entry k) (replicate k None, replicate k None) entries"
  have len: "length (fst (foldl (place_entry k) p es)) = length (fst p) \<and> length (snd (foldl (place_entry k) p es)) = length (snd p)" for p es
    by (induction es arbitrary: p) (auto simp: place_entry_def split: prod.splits)
  have found: "find (\<lambda>e. fst (snd e) = i + 1) entries = Some (fst (best ! i), i + 1, snd (best ! i))" if "i < k" for i
  proof -
    have "find (\<lambda>e. fst (snd e) = i + 1) entries \<noteq> None"
      using r(5)[OF that] unfolding find_None_iff by (metis fst_conv snd_conv)
    then obtain e where e: "find (\<lambda>e. fst (snd e) = i + 1) entries = Some e" by blast
    then have "e \<in> set entries" "fst (snd e) = i + 1" by (auto simp: find_Some_iff)
    then have "e = (fst (best ! i), i + 1, snd (best ! i))"
      using r(3) r(5)[OF that] by (auto simp: distinct_map inj_on_def)
    with e show ?thesis by simp
  qed
  have "fst ?out = map (Some \<circ> fst) best" "snd ?out = map (Some \<circ> snd) best"
    using place_entries[OF r(3,4), of "replicate k None" k "replicate k None"] len r(1) found
    by (auto intro!: nth_equalityI)
  then have "?out = (map (Some \<circ> fst) best, map (Some \<circ> snd) best)" by (metis prod.collapse)
  then show ?thesis using assms(2) r(2) by (simp add: prompt_row_def place_entry_def)
qed

text \<open>
  The engine's contract on a scoring request: an entry for every prompt token but the first, which describes the distribution of that
  token after those before it.  \<open>row\<close> is what the loss wants to know of it: the token itself, or the \<open>k\<close> best tokens.
\<close>

definition scores_prompts ::
  "(int list \<Rightarrow> int \<Rightarrow> sampling \<Rightarrow> engine_output option) \<Rightarrow> nat \<Rightarrow> (int list \<Rightarrow> int \<Rightarrow> (int \<times> real) list) \<Rightarrow> bool" where
  "scores_prompts engine k row \<longleftrightarrow> (\<forall>prompt m sp. sp_prompt_logprobs sp = Some k \<longrightarrow>
     (\<exists>eo. engine prompt m sp = Some eo \<and> length (eo_prompt_logprobs eo) = length prompt \<and>
       (\<forall>j. 1 \<le> j \<longrightarrow> j < length prompt \<longrightarrow> (\<exists>entries. eo_prompt_logprobs eo ! j = Some entries \<and>
          (if k = 0 then \<exists>rank rest. entries = (prompt ! j, rank, snd (hd (row (take j prompt) (prompt ! j)))) # rest \<and>
                         row (take j prompt) (prompt ! j) = [(prompt ! j, snd (hd (row (take j prompt) (prompt ! j))))]
           else ranked k entries (row (take j prompt) (prompt ! j)))))))"

lemma scored_rows:
  assumes law: "scores_prompts engine k row" and sp: "sp_prompt_logprobs sp = Some k" "\<not> sp_logprobs sp" and ne: "prompt \<noteq> []"
    and run: "vllm_generate engine cfg steps sp prompt = Inr out"
  shows "\<exists>ids lps. so_prompt out = Some (ids, lps) \<and> length ids = length prompt \<and> length lps = length prompt \<and>
    (\<forall>j. j + 1 < length prompt \<longrightarrow> ids ! j = map (Some \<circ> fst) (row (take (j + 1) prompt) (prompt ! (j + 1))) \<and>
       lps ! j = map (Some \<circ> snd) (row (take (j + 1) prompt) (prompt ! (j + 1)))) \<and>
    None \<notin> set (last ids) \<and> None \<notin> set (last lps)"
proof -
  obtain m where m: "server_max_tokens cfg sp prompt = Inr m" using run by (auto simp: vllm_generate_def bind_res_Inr_iff)
  obtain eo where eo: "engine prompt m sp = Some eo" "length (eo_prompt_logprobs eo) = length prompt"
      and entries: "\<And>j. 1 \<le> j \<Longrightarrow> j < length prompt \<Longrightarrow> \<exists>entries. eo_prompt_logprobs eo ! j = Some entries \<and>
          (if k = 0 then \<exists>rank rest. entries = (prompt ! j, rank, snd (hd (row (take j prompt) (prompt ! j)))) # rest \<and>
                         row (take j prompt) (prompt ! j) = [(prompt ! j, snd (hd (row (take j prompt) (prompt ! j))))]
           else ranked k entries (row (take j prompt) (prompt ! j)))"
    using law sp(1) unfolding scores_prompts_def by metis
  let ?f = "\<lambda>e. case e of None \<Rightarrow> Inl AttributeError | Some entries \<Rightarrow> prompt_row k entries"
  let ?rows = "map (\<lambda>j. (map (Some \<circ> fst) (row (take (j + 1) prompt) (prompt ! (j + 1))), map (Some \<circ> snd) (row (take (j + 1) prompt) (prompt ! (j + 1)))))
     [0..<length prompt - 1]"
  have rows: "map_res ?f (tl (eo_prompt_logprobs eo)) = Inr ?rows"
  proof (rule map_resI)
    fix i assume "i < length (tl (eo_prompt_logprobs eo))"
    then have i: "i + 1 < length prompt" using eo(2) by simp
    then have at_i: "?rows ! i = (map (Some \<circ> fst) (row (take (i + 1) prompt) (prompt ! (i + 1))), map (Some \<circ> snd) (row (take (i + 1) prompt) (prompt ! (i + 1))))"
      by (simp add: less_diff_conv)
    obtain es where es: "eo_prompt_logprobs eo ! (i + 1) = Some es"
        and c: "if k = 0 then \<exists>rank rest. es = (prompt ! (i + 1), rank, snd (hd (row (take (i + 1) prompt) (prompt ! (i + 1))))) # rest \<and>
                         row (take (i + 1) prompt) (prompt ! (i + 1)) = [(prompt ! (i + 1), snd (hd (row (take (i + 1) prompt) (prompt ! (i + 1)))))]
           else ranked k es (row (take (i + 1) prompt) (prompt ! (i + 1)))"
      using entries[of "i + 1"] i by auto
    have "prompt_row k es = Inr (?rows ! i)"
    proof (cases "k = 0")
      case True
      then obtain rank rest v where es': "es = (prompt ! (i + 1), rank, v) # rest"
          and r: "row (take (i + 1) prompt) (prompt ! (i + 1)) = [(prompt ! (i + 1), v)]" using c by auto
      have "?rows ! i = ([Some (prompt ! (i + 1))], [Some v])" unfolding at_i using r by simp
      then show ?thesis using True by (simp add: prompt_row_def es')
    next
      case False
      then show ?thesis unfolding at_i using c prompt_row_ranked[of k es] by simp
    qed
    then show "?f (tl (eo_prompt_logprobs eo) ! i) = Inr (?rows ! i)"
      using es eo(2) i by (simp add: nth_tl del: nth_map)
  qed (simp add: eo(2))
  have "so_prompt out = Some (map fst ?rows @ [replicate (max k 1) (Some 0)], map snd ?rows @ [replicate (max k 1) (Some 0)])"
    using run sp by (auto simp: vllm_generate_def m eo(1) extract_prompt_logprobs_def rows bind_res_Inr_iff)
  then show ?thesis using ne by (intro exI conjI) (auto simp: nth_append)
qed

section \<open>One row of the batch\<close>

lemma running_sum_length [simp]: "length (running_sum acc xs) = length xs"
  by (induction xs arbitrary: acc) simp_all

lemma running_sum_append: "running_sum acc (xs @ ys) = running_sum acc xs @ running_sum (acc + sum_list xs) ys"
  by (induction xs arbitrary: acc) (simp_all add: add.assoc)

lemma running_sum_zeros: "running_sum acc (replicate n 0) = replicate n acc"
  by (induction n arbitrary: acc) simp_all

lemma running_sum_ones: "running_sum acc (replicate n 1) = map (\<lambda>j. acc + int j + 1) [0..<n]"
proof (induction n arbitrary: acc)
  case (Suc n)
  show ?case by (auto simp: Suc map_upt_Suc simp del: upt_Suc)
qed simp

text \<open>A well-formed output of an agent: within the configured lengths, with a mask and log-probabilities for every response token.\<close>

definition agent_output_ok :: "nat \<Rightarrow> nat \<Rightarrow> agent_output \<Rightarrow> bool" where
  "agent_output_ok P R out \<longleftrightarrow> ao_prompt_ids out \<noteq> [] \<and> length (ao_prompt_ids out) \<le> P \<and> length (ao_response_ids out) \<le> R \<and>
     length (ao_response_mask out) = length (ao_response_ids out) \<and>
     (\<forall>l. ao_response_logprobs out = Some l \<longrightarrow> length l = length (ao_response_ids out))"

lemma pad_token_ids_ok:
  assumes "length tokens \<le> n"
  shows "pad_token_ids (Some pad) n left tokens = Inr
    (if left then (replicate (n - length tokens) pad @ tokens, replicate (n - length tokens) 0 @ replicate (length tokens) 1)
     else (tokens @ replicate (n - length tokens) pad, replicate (length tokens) 1 @ replicate (n - length tokens) 0))"
  using assms by (simp add: pad_token_ids_def Let_def)

lemma postprocess_row:
  assumes ok: "agent_output_ok P R out" and run: "agent_loop_postprocess (Some pad) P R teacher validate out = Inr row"
  defines "p \<equiv> length (ao_prompt_ids out)" and "r \<equiv> length (ao_response_ids out)"
  shows "po_input_ids row = replicate (P - p) pad @ ao_prompt_ids out @ ao_response_ids out @ replicate (R - r) pad"
    and "po_attention_mask row = replicate (P - p) 0 @ replicate (p + r) 1 @ replicate (R - r) 0"
    and "po_response_mask row = ao_response_mask out @ replicate (R - r) 0"
    and "po_position_ids row = replicate (P - p) 0 @ map int [0..<p + r] @ replicate (R - r) (int (p + r) - 1)"
    and "po_response_logprobs row = map_option (\<lambda>l. l @ replicate (R - r) 0) (ao_response_logprobs out)"
    and "po_prompt_ids row = replicate (P - p) pad @ ao_prompt_ids out" "po_response_ids row = ao_response_ids out @ replicate (R - r) pad"
    and "po_teacher row = None \<or> (\<exists>score rows. teacher = Some score \<and> score (ao_prompt_ids out @ ao_response_ids out) = Inr rows \<and>
      po_teacher row = Some (pad_teacher_outputs rows P R p r pad))"
proof -
  have le: "p \<le> P" "r \<le> R" "length (ao_response_mask out) = r" "0 < p" using ok by (auto simp: agent_output_ok_def p_def r_def)
  have m: "ao_response_mask out @ replicate (R - length (ao_response_mask out)) pad = ao_response_mask out @ replicate (R - r) pad" using le by simp
  note pads = pad_token_ids_ok[of "ao_prompt_ids out" P pad True] pad_token_ids_ok[of "ao_response_ids out" R pad False]
    pad_token_ids_ok[of "ao_response_mask out" R pad False]
  have att: "po_attention_mask row = (replicate (P - p) 0 @ replicate p 1) @ (replicate r 1 @ replicate (R - r) 0)"
      and pos: "po_position_ids row = compute_position_id_with_mask (po_attention_mask row)"
      and msk: "po_response_mask row = map2 (*) (ao_response_mask out @ replicate (R - r) pad) (replicate r 1 @ replicate (R - r) 0)"
      and rest: "po_input_ids row = (replicate (P - p) pad @ ao_prompt_ids out) @ (ao_response_ids out @ replicate (R - r) pad)"
        "po_response_logprobs row = map_option (\<lambda>l. l @ replicate (R - length l) 0) (ao_response_logprobs out)"
        "po_prompt_ids row = replicate (P - p) pad @ ao_prompt_ids out" "po_response_ids row = ao_response_ids out @ replicate (R - r) pad"
      and teach: "po_teacher row = None \<or> (\<exists>score rows. teacher = Some score \<and> score (ao_prompt_ids out @ ao_response_ids out) = Inr rows \<and>
        po_teacher row = Some (pad_teacher_outputs rows P R p r pad))"
    using run le pads unfolding agent_loop_postprocess_def
    by (auto simp: p_def[symmetric] r_def[symmetric] bind_res_Inr_iff split: option.splits if_splits)
  have att': "po_attention_mask row = replicate (P - p) 0 @ replicate (p + r) 1 @ replicate (R - r) 0"
    unfolding att by (simp add: replicate_add)
  then show "po_attention_mask row = replicate (P - p) 0 @ replicate (p + r) 1 @ replicate (R - r) 0" .
  show "po_input_ids row = replicate (P - p) pad @ ao_prompt_ids out @ ao_response_ids out @ replicate (R - r) pad" using rest(1) by simp
  have "map2 (*) ms (replicate (length ms) 1) = ms" for ms :: "int list" by (induction ms) simp_all
  then show "po_response_mask row = ao_response_mask out @ replicate (R - r) 0"
    unfolding msk using le(3) by (auto simp: zip_append map2_map_map zip_replicate)
  show "po_position_ids row = replicate (P - p) 0 @ map int [0..<p + r] @ replicate (R - r) (int (p + r) - 1)"
    unfolding pos att' compute_position_id_with_mask_def using le(4)
    by (simp add: running_sum_append running_sum_zeros running_sum_ones comp_def sum_list_replicate)
  show "po_response_logprobs row = map_option (\<lambda>l. l @ replicate (R - r) 0) (ao_response_logprobs out)"
    using rest(2) ok by (cases "ao_response_logprobs out") (auto simp: agent_output_ok_def r_def)
  show "po_prompt_ids row = replicate (P - p) pad @ ao_prompt_ids out" "po_response_ids row = ao_response_ids out @ replicate (R - r) pad"
    by (rule rest(3), rule rest(4))
  show "po_teacher row = None \<or> (\<exists>score rows. teacher = Some score \<and> score (ao_prompt_ids out @ ao_response_ids out) = Inr rows \<and>
      po_teacher row = Some (pad_teacher_outputs rows P R p r pad))" by (rule teach)
qed

lemma single_turn_output:
  assumes run: "single_turn_run generate P R templated = Inr out" and P: "0 < P" "templated \<noteq> []"
    and lps: "\<forall>p o1 l. generate p = Inr o1 \<longrightarrow> log_probs o1 = Some l \<longrightarrow> length l = length (token_ids o1)"
  shows "agent_output_ok P R out \<and> (\<exists>o1. generate (ao_prompt_ids out) = Inr o1 \<and> ao_response_ids out = take R (token_ids o1) \<and>
    ao_response_mask out = replicate (length (ao_response_ids out)) 1) \<and>
    ao_prompt_ids out = drop (length templated - P) templated"
proof -
  have cap: "cap_prompt P False templated = Inr (drop (length templated - P) templated)"
    using P(1) by (auto simp: cap_prompt_def py_slice_last)
  obtain o1 where o1: "generate (drop (length templated - P) templated) = Inr o1"
      and out: "ao_prompt_ids out = drop (length templated - P) templated" "ao_response_ids out = take R (token_ids o1)"
        "ao_response_mask out = take R (replicate (length (token_ids o1)) 1)"
        "ao_response_logprobs out = (if truthy_list (log_probs o1) then map_option (take R) (log_probs o1) else None)"
    using run by (auto simp: single_turn_run_def cap bind_res_Inr_iff)
  have "length l = length (ao_response_ids out)" if "ao_response_logprobs out = Some l" for l
    using that out lps o1 by (auto split: if_splits)
  moreover have "drop (length templated - P) templated \<noteq> []" using P by (cases templated) auto
  ultimately have "agent_output_ok P R out" using out by (auto simp: agent_output_ok_def)
  then show ?thesis using o1 out by (auto simp: take_replicate min_def)
qed

text \<open>
  The row of a single-turn sample: the prompt ends at the prompt width (cut on the left when it is longer), the generated tokens
  follow it, cut at the response length; exactly they are trained on, their positions count the tokens from zero, and their
  log-probabilities stand at the same places.
\<close>

theorem single_turn_row_correct:
  assumes run: "single_turn_run generate P R templated = Inr out"
    and row: "agent_loop_postprocess (Some pad) P R teacher validate out = Inr row"
    and "0 < P" "templated \<noteq> []"
    and lps: "\<forall>p o1 l. generate p = Inr o1 \<longrightarrow> log_probs o1 = Some l \<longrightarrow> length l = length (token_ids o1)"
  shows "\<exists>prompt o1 n. prompt = drop (length templated - P) templated \<and> generate prompt = Inr o1 \<and> n = min R (length (token_ids o1)) \<and>
    po_input_ids row = replicate (P - length prompt) pad @ prompt @ take n (token_ids o1) @ replicate (R - n) pad \<and>
    po_attention_mask row = replicate (P - length prompt) 0 @ replicate (length prompt + n) 1 @ replicate (R - n) 0 \<and>
    po_response_mask row = replicate n 1 @ replicate (R - n) 0 \<and>
    (\<forall>j < length prompt + n. po_position_ids row ! (P - length prompt + j) = int j) \<and>
    (\<forall>l. po_response_logprobs row = Some l \<longrightarrow> (\<exists>l0. log_probs o1 = Some l0 \<and> take n l = take n l0))"
proof -
  note out = single_turn_output[OF run assms(3,4) lps]
  then obtain o1 where o1: "generate (ao_prompt_ids out) = Inr o1" "ao_response_ids out = take R (token_ids o1)"
    "ao_response_mask out = replicate (length (ao_response_ids out)) 1" by blast
  have ok: "agent_output_ok P R out" using out by blast
  note r = postprocess_row[OF ok row]
  let ?p = "length (ao_prompt_ids out)" and ?n = "min R (length (token_ids o1))"
  have n: "length (ao_response_ids out) = ?n" using o1(2) by simp
  have "po_position_ids row ! (P - ?p + j) = int j" if "j < ?p + ?n" for j
    using that unfolding r(4) n by (simp add: nth_append)
  moreover have "\<exists>l0. log_probs o1 = Some l0 \<and> take ?n l = take ?n l0" if "po_response_logprobs row = Some l" for l
  proof -
    have "ao_response_logprobs out = (if truthy_list (log_probs o1) then map_option (take R) (log_probs o1) else None)"
      using run o1(1) out by (auto simp: single_turn_run_def bind_res_Inr_iff)
    then show ?thesis using that ok unfolding r(5)
      by (auto simp: agent_output_ok_def n min_def split: if_splits)
  qed
  ultimately show ?thesis using out o1 r(1-3) n by (intro exI[of _ "ao_prompt_ids out"] exI[of _ o1] exI[of _ ?n]) (auto simp: min_def)
qed

lemma pad_rows_nth: "j < length xs \<Longrightarrow> pad_rows v a n xs ! (a + j) = xs ! j"
  by (simp add: pad_rows_def Let_def nth_append)

text \<open>
  C6: the teacher's rows of a sample stand where the loss reads them: with a prompt that is not empty the row at the position before a
  response token describes the distribution of that token after the prompt and the response so far, the token itself or the \<open>k\<close>
  best tokens with rank order, whatever the padding.
\<close>

theorem teacher_rows_align:
  assumes law: "scores_prompts engine k row_of"
    and k: "k = (if ts_use_topk settings then ts_topk settings else 0)"
    and ok: "agent_output_ok P R out"
    and run: "agent_loop_postprocess (Some pad) P R
      (Some (\<lambda>seq. compute_teacher_logprobs_single configs settings (\<lambda>key sp p. vllm_generate engine cfg steps sp p) seq key)) False out = Inr row"
    and t: "t < length (ao_response_ids out)"
  shows "\<exists>ids lps. po_teacher row = Some (ids, lps) \<and>
    ids ! (P - 1 + t) = map fst (row_of (ao_prompt_ids out @ take t (ao_response_ids out)) (ao_response_ids out ! t)) \<and>
    lps ! (P - 1 + t) = map snd (row_of (ao_prompt_ids out @ take t (ao_response_ids out)) (ao_response_ids out ! t))"
proof -
  let ?seq = "ao_prompt_ids out @ ao_response_ids out" and ?p = "length (ao_prompt_ids out)"
  have p: "0 < ?p" "?p \<le> P" using ok by (auto simp: agent_output_ok_def)
  have "po_teacher row \<noteq> None"
    using run by (auto simp: agent_loop_postprocess_def bind_res_Inr_iff split: if_splits)
  then obtain ids lps where score: "compute_teacher_logprobs_single configs settings (\<lambda>key sp p. vllm_generate engine cfg steps sp p) ?seq key = Inr (ids, lps)"
      and padded: "po_teacher row = Some (pad_teacher_outputs (ids, lps) P R ?p (length (ao_response_ids out)) pad)"
    using postprocess_row(8)[OF ok run] by fastforce
  obtain sp srv ids0 lps0 where gen: "vllm_generate engine cfg steps sp ?seq = Inr srv" "sp_prompt_logprobs sp = Some k" "\<not> sp_logprobs sp"
      and t0: "so_prompt srv = Some (ids0, lps0)" "to_tensor ids0 = Inr ids" "to_tensor lps0 = Inr lps"
    using score by (auto simp: compute_teacher_logprobs_single_def get_teacher_sampling_params_def bind_res_Inr_iff k split: if_splits option.splits)
  have ne: "?seq \<noteq> []" using p by auto
  let ?j = "?p - 1 + t"
  have j1: "?j + 1 = ?p + t" using p by linarith
  then have j: "?j + 1 < length ?seq" using t by simp
  have row: "ids0 ! ?j = map (Some \<circ> fst) (row_of (take (?j + 1) ?seq) (?seq ! (?j + 1)))"
      "lps0 ! ?j = map (Some \<circ> snd) (row_of (take (?j + 1) ?seq) (?seq ! (?j + 1)))" and len: "length ids0 = length ?seq" "length lps0 = length ?seq"
    using scored_rows[OF law gen(2,3) ne gen(1)] t0(1) j by auto
  have seq: "take (?j + 1) ?seq = ao_prompt_ids out @ take t (ao_response_ids out)" "?seq ! (?j + 1) = ao_response_ids out ! t"
    unfolding j1 by (simp_all add: nth_append)
  have tensors: "ids = map (map the) ids0" "lps = map (map the) lps0" using t0(2,3) by (auto simp: to_tensor_def split: if_splits)
  then have vals: "ids ! ?j = map fst (row_of (ao_prompt_ids out @ take t (ao_response_ids out)) (ao_response_ids out ! t))"
      "lps ! ?j = map snd (row_of (ao_prompt_ids out @ take t (ao_response_ids out)) (ao_response_ids out ! t))"
    using row len j unfolding seq by (simp_all add: comp_def)
  have at_t: "P - 1 + t = (P - ?p) + ?j" using p by linarith
  have pad_at: "pad_rows v (P - ?p) n xs ! (P - 1 + t) = xs ! ?j" if "length xs = length ?seq" for v n and xs :: "'x list list"
    unfolding at_t by (rule pad_rows_nth) (use that j in simp)
  have lens: "length ids = length ?seq" "length lps = length ?seq" using len tensors by simp_all
  have "po_teacher row = Some (pad_rows pad (P - ?p) (R - length (ao_response_ids out)) ids, pad_rows 0 (P - ?p) (R - length (ao_response_ids out)) lps)"
    using padded by (simp add: pad_teacher_outputs_def)
  then show ?thesis using pad_at[OF lens(1)] pad_at[OF lens(2)] vals by metis
qed

lemma postprocess_score: "agent_loop_postprocess pad P R teacher validate out = Inr row \<Longrightarrow> po_reward_score row = ao_reward_score out"
  by (auto simp: agent_loop_postprocess_def bind_res_Inr_iff split: if_splits option.splits)

lemma place_score_row:
  assumes "attention = replicate a 0 @ replicate (b + r) 1 @ replicate c 0" "W = a + b" "length response_mask = r + c" "0 < r + c"
  shows "place_score W attention response_mask score = Inr ((replicate (r + c) 0)[(if r = 0 then c - 1 else r - 1) := score])"
proof -
  have att: "attention = (replicate a 0 @ replicate b 1) @ replicate r 1 @ replicate c 0" using assms(1) by (simp add: replicate_add)
  have "drop W attention = replicate r 1 @ replicate c 0" unfolding att using assms(2) by simp
  then have s: "sum_list (drop W attention) = int r" by (simp add: sum_list_replicate)
  have z: "map (\<lambda>_. 0) response_mask = replicate (r + c) (0 :: real)" using assms(3) by (simp add: map_replicate_const)
  show ?thesis using assms(3,4) by (auto simp: place_score_def s z Let_def nat_diff_distrib)
qed

text \<open>
  The score of a sample stands on its last response token; only the score of an empty response is in the last column, outside of
  what is attended to.
\<close>

theorem scores_on_last_token:
  assumes run: "postprocess_batch rows = Inr batch" and len: "length rows = length outs" and R: "0 < R"
    and rows: "\<forall>i < length outs. agent_output_ok P R (outs ! i) \<and> ao_reward_score (outs ! i) = Some (scores ! i) \<and>
      agent_loop_postprocess (Some pad) P R teacher validate (outs ! i) = Inr (rows ! i)"
  shows "\<exists>s. ab_rm_scores batch = Some s \<and> (\<forall>i < length outs.
    s ! i = (replicate R 0)[(if ao_response_ids (outs ! i) = [] then R - 1 else length (ao_response_ids (outs ! i)) - 1) := scores ! i])"
proof -
  have score: "po_reward_score (rows ! i) = Some (scores ! i)" if "i < length outs" for i
    using rows that postprocess_score by metis
  then have all: "\<forall>x \<in> set rows. po_reward_score x \<noteq> None" using len by (auto simp: in_set_conv_nth)
  obtain s where s: "ab_rm_scores batch = Some s"
      and m: "map_res (\<lambda>x. place_score (length (hd (map po_prompt_ids rows))) (po_attention_mask x) (po_response_mask x) (the (po_reward_score x))) rows = Inr s"
    using run all by (auto simp: postprocess_batch_def cat_rows_def bind_res_Inr_iff split: if_splits)
  have row: "s ! i = (replicate R 0)[(if ao_response_ids (outs ! i) = [] then R - 1 else length (ao_response_ids (outs ! i)) - 1) := scores ! i]"
    if i: "i < length outs" for i
  proof -
    let ?p = "length (ao_prompt_ids (outs ! i))" and ?r = "length (ao_response_ids (outs ! i))"
    have ok: "agent_output_ok P R (outs ! i)" and post: "agent_loop_postprocess (Some pad) P R teacher validate (outs ! i) = Inr (rows ! i)"
      using rows i by auto
    note r = postprocess_row[OF ok post]
    have le: "?p \<le> P" "?r \<le> R" "length (ao_response_mask (outs ! i)) = ?r" using ok by (auto simp: agent_output_ok_def)
    have "0 < length outs" using i by auto
    then have "agent_output_ok P R (outs ! 0)" "agent_loop_postprocess (Some pad) P R teacher validate (outs ! 0) = Inr (rows ! 0)"
      using rows by auto
    from postprocess_row(6)[OF this] this(1) have "length (po_prompt_ids (rows ! 0)) = P" by (simp add: agent_output_ok_def)
    then have W: "length (hd (map po_prompt_ids rows)) = P" using i len by (cases rows) auto
    have "place_score P (po_attention_mask (rows ! i)) (po_response_mask (rows ! i)) (scores ! i) =
        Inr ((replicate (?r + (R - ?r)) 0)[(if ?r = 0 then (R - ?r) - 1 else ?r - 1) := scores ! i])"
      using le R r(2,3) by (intro place_score_row[where a = "P - ?p" and b = ?p]) auto
    moreover have "place_score P (po_attention_mask (rows ! i)) (po_response_mask (rows ! i)) (scores ! i) = Inr (s ! i)"
      using map_res_nth[OF m, of i] i len score[OF i] W by simp
    ultimately show ?thesis using le by auto
  qed
  then show ?thesis using s by blast
qed

section \<open>Witnesses\<close>

definition example_sampled :: token_output where
  "example_sampled = fresh_output\<lparr> token_ids := [7, 8], log_probs := Some [3, 4] \<rparr>"

theorem single_turn_row_correct_witness:
  "\<exists>out row. single_turn_run (\<lambda>p. Inr example_sampled) 2 3 [1, 2, 5] = Inr out \<and>
    agent_loop_postprocess (Some 0) 2 3 None False out = Inr row \<and> po_input_ids row = [2, 5, 7, 8, 0] \<and> po_response_mask row = [1, 1, 0]"
proof -
  let ?out = "\<lparr> ao_prompt_ids = [2, 5], ao_response_ids = [7, 8], ao_response_mask = [1, 1], ao_response_logprobs = Some [3, 4], ao_num_turns = 2,
        ao_reward_score = None \<rparr>"
  have r: "single_turn_run (\<lambda>p. Inr example_sampled) 2 3 [1, 2, 5] = Inr ?out"
    by (simp add: single_turn_run_def cap_prompt_def example_sampled_def truthy_list_def fresh_output_def py_slice_def slice_bound_def numeral_2_eq_2 numeral_3_eq_3)
  obtain row where row: "agent_loop_postprocess (Some 0) 2 3 None False ?out = Inr row"
    by (simp add: agent_loop_postprocess_def pad_token_ids_def Let_def)
  have "\<forall>p o1 l. Inr example_sampled = Inr o1 \<longrightarrow> log_probs o1 = Some l \<longrightarrow> length l = length (token_ids o1)"
    by (simp add: example_sampled_def)
  from single_turn_row_correct[OF r row _ _ this]
  have "po_input_ids row = [2, 5, 7, 8, 0]" "po_response_mask row = [1, 1, 0]"
    by (auto simp: example_sampled_def numeral_2_eq_2 numeral_3_eq_3)
  then show ?thesis using r row by blast
qed

definition example_scorer :: teacher_config where
  "example_scorer = \<lparr> tc_key = None, tc_model_path = None, tc_num_replicas = Some 1, tc_tp = 1, tc_dp = 1, tc_pp = 1, tc_engine = ''vllm'',
     tc_max_logprobs = None, tc_max_model_len = Some 8, tc_prompt_length = 4, tc_response_length = 3 \<rparr>"

theorem accepted_teacher_has_room_witness:
  "server_max_tokens \<lparr> sv_max_model_len = 8, sv_prompt_length = 7, sv_response_length = 1 \<rparr>
     \<lparr> sp_max_tokens = Some 1, sp_max_new_tokens = None, sp_logprobs = False, sp_prompt_logprobs = Some 2 \<rparr> ([1, 2, 3, 4] @ [5, 6, 7]) = Inr 1"
proof -
  obtain t' where "validate_and_prepare True (Some 2) example_scorer = Inr t'"
    by (simp add: validate_and_prepare_def validate_topk_logprobs_def example_scorer_def)
  from accepted_teacher_has_room[OF this, where n = 8 and prompt = "[1, 2, 3, 4]" and response = "[5, 6, 7]"
      and temperature = 1 and use_topk' = True and k = 2] show ?thesis
    by (simp add: example_scorer_def get_teacher_sampling_params_def)
qed

definition example_engine :: "int list \<Rightarrow> int \<Rightarrow> sampling \<Rightarrow> engine_output option" where
  "example_engine p m sp = Some \<lparr> eo_token_ids = [0], eo_logprobs = [],
     eo_prompt_logprobs = map (\<lambda>j. if j = 0 then None else Some [(p ! j, 1, - real j)]) [0..<length p],
     eo_finish_reason = Some ''length'', eo_num_preempted = None \<rparr>"

lemma example_engine_scores: "scores_prompts example_engine 0 (\<lambda>p t. [(t, - real (length p))])"
  by (auto simp: scores_prompts_def example_engine_def)

theorem teacher_rows_align_witness:
  "\<exists>row ids lps. agent_loop_postprocess (Some 9) 3 3 (Some (\<lambda>seq. compute_teacher_logprobs_single [(''default'', ())]
      \<lparr> ts_temperature = (\<lambda>_. 1), ts_use_topk = False, ts_topk = 0 \<rparr>
      (\<lambda>key sp p. vllm_generate example_engine \<lparr> sv_max_model_len = 8, sv_prompt_length = 7, sv_response_length = 1 \<rparr> None sp p) seq None)) False
      \<lparr> ao_prompt_ids = [1, 2], ao_response_ids = [5, 6], ao_response_mask = [1, 1], ao_response_logprobs = None, ao_num_turns = 2,
        ao_reward_score = None \<rparr> = Inr row \<and>
    po_teacher row = Some (ids, lps) \<and> ids ! 3 = [6] \<and> lps ! 3 = [- 3]"
proof -
  let ?cfg = "\<lparr> sv_max_model_len = 8, sv_prompt_length = 7, sv_response_length = 1 \<rparr>"
  let ?settings = "\<lparr> ts_temperature = (\<lambda>_ :: str. 1 :: real), ts_use_topk = False, ts_topk = 0 \<rparr>"
  let ?out = "\<lparr> ao_prompt_ids = [1, 2], ao_response_ids = [5, 6], ao_response_mask = [1, 1], ao_response_logprobs = None, ao_num_turns = 2,
        ao_reward_score = None \<rparr>"
  let ?teach = "\<lambda>seq. compute_teacher_logprobs_single [(''default'', ())] ?settings (\<lambda>key sp p. vllm_generate example_engine ?cfg None sp p) seq None"
  obtain rows where "?teach [1, 2, 5, 6] = Inr rows"
    by (simp add: compute_teacher_logprobs_single_def resolve_teacher_key_def get_teacher_sampling_params_def vllm_generate_def server_max_tokens_def
        example_engine_def extract_prompt_logprobs_def prompt_row_def to_tensor_def upt_rec)
  then obtain row where r: "agent_loop_postprocess (Some 9) 3 3 (Some ?teach) False ?out = Inr row"
    by (auto simp: agent_loop_postprocess_def pad_token_ids_def Let_def)
  have ok: "agent_output_ok 3 3 ?out" by (simp add: agent_output_ok_def)
  from teacher_rows_align[OF example_engine_scores _ ok r, of 1] show ?thesis using r by auto
qed

theorem scores_on_last_token_witness:
  "\<exists>row batch s. postprocess_batch [row] = Inr batch \<and> ab_rm_scores batch = Some s \<and> s ! 0 = [0, 1 / 2, 0]"
proof -
  let ?out = "\<lparr> ao_prompt_ids = [1, 2], ao_response_ids = [5, 6], ao_response_mask = [1, 1], ao_response_logprobs = None, ao_num_turns = 2,
        ao_reward_score = Some (1 / 2) \<rparr>"
  obtain row where r: "agent_loop_postprocess (Some 9) 3 3 None False ?out = Inr row"
    by (simp add: agent_loop_postprocess_def pad_token_ids_def Let_def)
  have ok: "agent_output_ok 3 3 ?out" by (simp add: agent_output_ok_def)
  have sc: "po_reward_score row = Some (1 / 2)" "po_response_logprobs row = None" "po_teacher row = None" "po_prompt_ids row = [9, 1, 2]"
      "po_attention_mask row = [0, 1, 1, 1, 1, 0]" "po_response_mask row = [1, 1, 0]"
    using r by (auto simp: agent_loop_postprocess_def pad_token_ids_def Let_def numeral_3_eq_3)
  obtain batch where b: "postprocess_batch [row] = Inr batch"
    by (simp add: postprocess_batch_def cat_rows_def cat_optional_def sc place_score_def)
  from scores_on_last_token[OF b, of "[?out]" 3 3 "[1 / 2]" 9 None False] r ok
  have "\<exists>s. ab_rm_scores batch = Some s \<and> s ! 0 = [0, 1 / 2, 0]" by (auto simp: numeral_3_eq_3)
  then show ?thesis using b by blast
qed

end
