(* ===== verification/DataProto.thy ===== *)
theory DataProto
  imports PyFunctional
begin

text \<open>
  \<open>verl/protocol.py\<close>: the batch of tensors, arrays and meta data passed between workers.
  A tensor is the list of its rows along the batch dimension, a \<open>TensorDict\<close> a dictionary of
  tensors with its batch size, an object array the list of its entries.  How many rows
  \<open>TensorDict.chunk\<close> and \<open>numpy.array_split\<close> put in each piece is a parameter; the code
  relies on their pieces being equal when the division is exact (\<open>equal_chunks\<close>).
\<close>

section \<open>The data\<close>

record 'v tensordict =
  td_size :: nat
  td_items :: "(str, 'v list) dict"

record ('v, 'o) data_proto =
  dp_batch :: "'v tensordict option"
  dp_non_tensor :: "(str, 'o list) dict"
  dp_meta :: meta_dict

definition columns_have :: "nat \<Rightarrow> (str, 'x list) dict \<Rightarrow> bool" where
  "columns_have n d = list_all (\<lambda>(k, v). length v = n) d"

text \<open>\<open>TensorDict(source=..., batch_size=...)\<close> rejects a tensor of another batch size.\<close>

definition new_tensordict :: "(str, 'v list) dict \<Rightarrow> nat \<Rightarrow> 'v tensordict result" where
  "new_tensordict source n =
     (if columns_have n source then Inr \<lparr> td_size = n, td_items = source \<rparr> else Inl RuntimeError)"

text \<open>\<open>check_consistency\<close>, which \<open>__post_init__\<close> runs on every new object.\<close>

definition check_consistency :: "'v tensordict option \<Rightarrow> (str, 'o list) dict \<Rightarrow> bool" where
  "check_consistency b nt =
     (case b of None \<Rightarrow> True | Some td \<Rightarrow> columns_have (td_size td) nt)"

definition new_data_proto ::
  "'v tensordict option \<Rightarrow> (str, 'o list) dict \<Rightarrow> meta_dict \<Rightarrow> ('v, 'o) data_proto result" where
  "new_data_proto b nt m =
     asserting (check_consistency b nt)
       (Inr \<lparr> dp_batch = b, dp_non_tensor = nt, dp_meta = m \<rparr>)"

definition dp_len :: "('v, 'o) data_proto \<Rightarrow> nat" where
  "dp_len d =
     (case dp_batch d of
        Some td \<Rightarrow> td_size td
      | None \<Rightarrow> (case dp_non_tensor d of [] \<Rightarrow> 0 | (k, v) # _ \<Rightarrow> length v))"

record ('v, 'o) data_proto_item =
  it_batch :: "(str, 'v) dict option"
  it_non_tensor :: "(str, 'o) dict"
  it_meta :: meta_dict

definition index_column :: "int \<Rightarrow> (str, 'x list) dict \<Rightarrow> (str, 'x) dict result" where
  "index_column i = map_res (\<lambda>(k, v). bind_res (py_index v i) (\<lambda>x. Inr (k, x)))"

definition dp_item :: "('v, 'o) data_proto \<Rightarrow> int \<Rightarrow> ('v, 'o) data_proto_item result" where
  "dp_item d i =
     bind_res (case dp_batch d of
                 None \<Rightarrow> Inr None
               | Some td \<Rightarrow> bind_res (index_column i (td_items td)) (\<lambda>t. Inr (Some t))) (\<lambda>tensor_data.
     bind_res (index_column i (dp_non_tensor d)) (\<lambda>non_tensor_data.
     Inr \<lparr> it_batch = tensor_data, it_non_tensor = non_tensor_data, it_meta = dp_meta d \<rparr>))"

section \<open>Construction\<close>

datatype ('v, 'o) field = Tensor "'v list" | NdArray "'o list" | OtherField

definition auto_padding_key :: str where
  "auto_padding_key = ''_verl_auto_padding''"

text \<open>The loop that finds the batch size and checks that all tensors have it.\<close>

definition common_size :: "(str, 'v list) dict \<Rightarrow> nat option result" where
  "common_size tensors =
     fold_res (\<lambda>size (key, tensor).
        case size of
          None \<Rightarrow> Inr (Some (length tensor))
        | Some n \<Rightarrow> asserting (n = length tensor) (Inr (Some n))) None tensors"

definition from_dict ::
  "(str, 'v list) dict \<Rightarrow> (str, 'o list) dict \<Rightarrow> meta_dict \<Rightarrow> bool \<Rightarrow> ('v, 'o) data_proto result" where
  "from_dict tensors non_tensors meta_info auto_padding =
     bind_res (common_size tensors) (\<lambda>size.
     bind_res (case size of
                 None \<Rightarrow> Inr None
               | Some n \<Rightarrow> bind_res (new_tensordict tensors n) (\<lambda>td. Inr (Some td))) (\<lambda>tensor_dict.
     new_data_proto tensor_dict non_tensors
       (if auto_padding then AList.update auto_padding_key (PBool True) meta_info else meta_info)))"

definition from_single_dict ::
  "(str, ('v, 'o) field) dict \<Rightarrow> meta_dict \<Rightarrow> bool \<Rightarrow> ('v, 'o) data_proto result" where
  "from_single_dict data meta_info auto_padding =
     bind_res (fold_res (\<lambda>(tensors, non_tensors) (key, val).
        case val of
          Tensor v \<Rightarrow> Inr (AList.update key v tensors, non_tensors)
        | NdArray v \<Rightarrow> Inr (tensors, AList.update key v non_tensors)
        | OtherField \<Rightarrow> Inl ValueError) ([], []) data) (\<lambda>(tensors, non_tensors).
     from_dict tensors non_tensors meta_info auto_padding)"

section \<open>Selecting keys and rows\<close>

definition keep_keys :: "str list \<Rightarrow> (str, 'x) dict \<Rightarrow> (str, 'x) dict" where
  "keep_keys keys d = filter (\<lambda>(key, val). key \<in> set keys) d"

text \<open>\<open>TensorDict.select\<close> with a missing key is a \<open>KeyError\<close>; its result has the given order.\<close>

definition td_select :: "str list \<Rightarrow> 'v tensordict \<Rightarrow> 'v tensordict result" where
  "td_select keys td =
     bind_res (fold_res (\<lambda>source key.
         bind_res (dict_index (td_items td) key) (\<lambda>v. Inr (AList.update key v source))) [] keys)
       (\<lambda>items. Inr (td\<lparr> td_items := items \<rparr>))"

definition dp_select ::
  "('v, 'o) data_proto \<Rightarrow> str list option \<Rightarrow> str list option \<Rightarrow> str list option \<Rightarrow>
   ('v, 'o) data_proto result" where
  "dp_select d batch_keys non_tensor_batch_keys meta_info_keys =
     bind_res (case batch_keys of
                 None \<Rightarrow> Inr (dp_batch d)
               | Some keys \<Rightarrow>
                   (case dp_batch d of
                      None \<Rightarrow> Inl AttributeError
                    | Some td \<Rightarrow> bind_res (td_select keys td) (\<lambda>t. Inr (Some t)))) (\<lambda>sub_batch.
     new_data_proto sub_batch
       (case non_tensor_batch_keys of
          None \<Rightarrow> dp_non_tensor d | Some keys \<Rightarrow> keep_keys keys (dp_non_tensor d))
       (case meta_info_keys of None \<Rightarrow> dp_meta d | Some keys \<Rightarrow> keep_keys keys (dp_meta d)))"

text \<open>Indices are integers (negative ones count from the end) or a mask of the batch's length.\<close>

datatype indices = Positions "int list" | Mask "bool list"

definition pick :: "indices \<Rightarrow> 'x list \<Rightarrow> 'x list result" where
  "pick idxs xs =
     (case idxs of
        Positions is \<Rightarrow> map_res (py_index xs) is
      | Mask bs \<Rightarrow> if length bs = length xs then Inr (map fst (filter snd (zip xs bs)))
                   else Inl IndexError)"

definition pick_columns :: "indices \<Rightarrow> (str, 'x list) dict \<Rightarrow> (str, 'x list) dict result" where
  "pick_columns idxs = map_res (\<lambda>(k, v). bind_res (pick idxs v) (\<lambda>w. Inr (k, w)))"

definition picked_size :: "indices \<Rightarrow> nat" where
  "picked_size idxs =
     (case idxs of Positions is \<Rightarrow> length is | Mask bs \<Rightarrow> length (filter id bs))"

definition select_idxs :: "('v, 'o) data_proto \<Rightarrow> indices \<Rightarrow> ('v, 'o) data_proto result" where
  "select_idxs d idxs =
     bind_res (case dp_batch d of
                 None \<Rightarrow> Inr None
               | Some td \<Rightarrow>
                   bind_res (pick_columns idxs (td_items td)) (\<lambda>source.
                   bind_res (new_tensordict source (picked_size idxs)) (\<lambda>t. Inr (Some t)))) (\<lambda>selected_batch.
     bind_res (pick_columns idxs (dp_non_tensor d)) (\<lambda>selected_non_tensor.
     new_data_proto selected_batch selected_non_tensor (dp_meta d)))"

text \<open>\<open>xs[start:stop:step]\<close> for a positive step, and its effect on every column.\<close>

fun step_by :: "nat \<Rightarrow> nat \<Rightarrow> 'x list \<Rightarrow> 'x list" where
  "step_by s i [] = []"
| "step_by s 0 (x # xs) = x # step_by s (s - 1) xs"
| "step_by s (Suc i) (x # xs) = step_by s i xs"

definition slice_rows :: "int option \<Rightarrow> int option \<Rightarrow> nat option \<Rightarrow> 'x list \<Rightarrow> 'x list result" where
  "slice_rows a b s xs =
     (case s of
        None \<Rightarrow> Inr (py_slice xs a b)
      | Some k \<Rightarrow> if k = 0 then Inl ValueError else Inr (step_by k 0 (py_slice xs a b)))"

definition slice_columns ::
  "int option \<Rightarrow> int option \<Rightarrow> nat option \<Rightarrow> (str, 'x list) dict \<Rightarrow> (str, 'x list) dict result" where
  "slice_columns a b s = map_res (\<lambda>(k, v). bind_res (slice_rows a b s v) (\<lambda>w. Inr (k, w)))"

definition dp_slice ::
  "('v, 'o) data_proto \<Rightarrow> int option \<Rightarrow> int option \<Rightarrow> nat option \<Rightarrow> ('v, 'o) data_proto result" where
  "dp_slice d start stop step =
     bind_res (case dp_batch d of
                 None \<Rightarrow> Inr None
               | Some td \<Rightarrow>
                   bind_res (slice_rows start stop step [0..<td_size td]) (\<lambda>rows.
                   bind_res (slice_columns start stop step (td_items td)) (\<lambda>items.
                   Inr (Some \<lparr> td_size = length rows, td_items = items \<rparr>)))) (\<lambda>sliced_batch.
     bind_res (slice_columns start stop step (dp_non_tensor d)) (\<lambda>sliced_non_tensor.
     new_data_proto sliced_batch sliced_non_tensor (dp_meta d)))"

text \<open>\<open>pop\<close> moves the named entries into a new object; both objects are returned.\<close>

definition pop_keys ::
  "str list \<Rightarrow> (str, 'x) dict \<Rightarrow> ((str, 'x) dict \<times> (str, 'x) dict) result" where
  "pop_keys keys d =
     fold_res (\<lambda>(popped, rest) key.
        case map_of rest key of
          None \<Rightarrow> Inl AssertionError
        | Some v \<Rightarrow> Inr (AList.update key v popped, AList.delete key rest)) ([], d) keys"

definition dp_pop ::
  "('v, 'o) data_proto \<Rightarrow> str list \<Rightarrow> str list \<Rightarrow> str list \<Rightarrow>
   (('v, 'o) data_proto \<times> ('v, 'o) data_proto) result" where
  "dp_pop d batch_keys non_tensor_batch_keys meta_info_keys =
     bind_res (case dp_batch d of
                 None \<Rightarrow> if batch_keys = [] then Inr ([], None) else Inl AttributeError
               | Some td \<Rightarrow>
                   bind_res (pop_keys batch_keys (td_items td)) (\<lambda>(popped, rest).
                   Inr (popped, Some (td\<lparr> td_items := rest \<rparr>)))) (\<lambda>(tensors, batch').
     bind_res (pop_keys non_tensor_batch_keys (dp_non_tensor d)) (\<lambda>(non_tensors, non_tensor').
     bind_res (pop_keys meta_info_keys (dp_meta d)) (\<lambda>(meta_info, meta').
     bind_res (from_dict tensors non_tensors meta_info False) (\<lambda>result.
     Inr (result, d\<lparr> dp_batch := batch', dp_non_tensor := non_tensor', dp_meta := meta' \<rparr>)))))"

section \<open>Union\<close>

definition union_tensor_dict :: "'v tensordict \<Rightarrow> 'v tensordict \<Rightarrow> 'v tensordict result" where
  "union_tensor_dict tensor_dict1 tensor_dict2 =
     asserting (td_size tensor_dict1 = td_size tensor_dict2)
       (fold_res (\<lambda>t (key, val).
          case map_of (td_items t) key of
            None \<Rightarrow> Inr (t\<lparr> td_items := AList.update key val (td_items t) \<rparr>)
          | Some w \<Rightarrow> asserting (w = val) (Inr t)) tensor_dict1 (td_items tensor_dict2))"

definition union_numpy_dict ::
  "('o list \<Rightarrow> 'o list \<Rightarrow> bool) \<Rightarrow> (str, 'o list) dict \<Rightarrow> (str, 'o list) dict \<Rightarrow> (str, 'o list) dict result" where
  "union_numpy_dict deep_equal tensor_dict1 tensor_dict2 =
     fold_res (\<lambda>d (key, val).
        case map_of d key of
          None \<Rightarrow> Inr (AList.update key val d)
        | Some w \<Rightarrow> asserting (deep_equal w val) (Inr (AList.update key val d)))
       tensor_dict1 tensor_dict2"

definition dp_union ::
  "('o list \<Rightarrow> 'o list \<Rightarrow> bool) \<Rightarrow> ('v, 'o) data_proto \<Rightarrow> ('v, 'o) data_proto \<Rightarrow>
   ('v, 'o) data_proto result" where
  "dp_union deep_equal self other =
     (case (dp_batch self, dp_batch other) of
        (Some td1, Some td2) \<Rightarrow>
          bind_res (union_tensor_dict td1 td2) (\<lambda>td.
          bind_res (union_numpy_dict deep_equal (dp_non_tensor self) (dp_non_tensor other)) (\<lambda>nt.
          bind_res (union_two_dict (dp_meta self) (dp_meta other)) (\<lambda>m.
          Inr \<lparr> dp_batch = Some td, dp_non_tensor = nt, dp_meta = m \<rparr>)))
      | _ \<Rightarrow> Inl AttributeError)"

section \<open>Concatenation\<close>

definition td_cat :: "'v tensordict list \<Rightarrow> 'v tensordict result" where
  "td_cat tds =
     (let keys = dict_keys (td_items (hd tds))
      in if list_all (\<lambda>t. set (dict_keys (td_items t)) = set keys) tds
         then Inr \<lparr> td_size = sum_list (map td_size tds),
                    td_items = map (\<lambda>k. (k, concat (map (\<lambda>t. the (map_of (td_items t) k)) tds))) keys \<rparr>
         else Inl KeyError)"

text \<open>The merge of the \<open>meta_info\<close> dictionaries; \<open>metrics\<close> are collected apart.\<close>

definition metrics_key :: str where
  "metrics_key = ''metrics''"

definition merge_meta_item ::
  "meta_dict \<times> pyval list \<Rightarrow> str \<times> pyval \<Rightarrow> (meta_dict \<times> pyval list) result" where
  "merge_meta_item = (\<lambda>(merged, all_metrics) (k, v).
     if k = metrics_key then
       (case v of
          PNone \<Rightarrow> Inr (merged, all_metrics)
        | PList xs \<Rightarrow> Inr (merged, all_metrics @ xs)
        | v \<Rightarrow> Inr (merged, all_metrics @ [v]))
     else
       (case map_of merged k of
          Some w \<Rightarrow> asserting (py_eq w v) (Inr (merged, all_metrics))
        | None \<Rightarrow> Inr (AList.update k v merged, all_metrics)))"

text \<open>Every metrics entry must be a dictionary with the keys of the first one.\<close>

definition as_dict :: "pyval \<Rightarrow> meta_dict result" where
  "as_dict v = (case v of PDict d \<Rightarrow> Inr d | _ \<Rightarrow> Inl AttributeError)"

definition merge_meta :: "meta_dict list \<Rightarrow> meta_dict result" where
  "merge_meta metas =
     bind_res (fold_res (fold_res merge_meta_item) ([], []) metas) (\<lambda>(merged, all_metrics).
     if all_metrics = [] then Inr merged
     else bind_res (as_dict (hd all_metrics)) (\<lambda>first.
          bind_res (fold_res (\<lambda>output v. bind_res (as_dict v) (fold_res collect_item output))
                      (map (\<lambda>(k, v). (k, [])) first) all_metrics) (\<lambda>lists.
          Inr (AList.update metrics_key (PDict (map (\<lambda>(k, vs). (k, PList vs)) lists)) merged))))"

definition dp_concat :: "('v, 'o) data_proto list \<Rightarrow> ('v, 'o) data_proto result" where
  "dp_concat data =
     (case data of
        [] \<Rightarrow> Inl IndexError
      | first # _ \<Rightarrow>
          bind_res (if dp_batch first = None then Inr None
                    else bind_res (map_res (\<lambda>d. case dp_batch d of None \<Rightarrow> Inl TypeError | Some t \<Rightarrow> Inr t) data)
                           (\<lambda>tds. bind_res (td_cat tds) (\<lambda>t. Inr (Some t)))) (\<lambda>new_batch.
          bind_res (list_of_dict_to_dict_of_list (map dp_non_tensor data)) (\<lambda>lists.
          bind_res (merge_meta (map dp_meta data)) (\<lambda>merged_meta_info.
          new_data_proto new_batch (map (\<lambda>(k, vs). (k, concat vs)) lists) merged_meta_info))))"

section \<open>Padding\<close>

text \<open>The sizes taken by the padding loop; a batch that needs padding is not empty.\<close>

function pad_takes :: "nat \<Rightarrow> nat \<Rightarrow> nat list" where
  "pad_takes n remaining_pad =
     (if remaining_pad = 0 \<or> n = 0 then []
      else min remaining_pad n # pad_takes n (remaining_pad - min remaining_pad n))"
  by auto
termination by (relation "measure snd") auto

declare pad_takes.simps [simp del]

definition pad_dataproto_to_divisor ::
  "('v, 'o) data_proto \<Rightarrow> nat \<Rightarrow> (('v, 'o) data_proto \<times> nat) result" where
  "pad_dataproto_to_divisor data size_divisor =
     (if size_divisor = 0 then Inl ZeroDivisionError
      else if dp_len data mod size_divisor \<noteq> 0 then
        (let pad_size = size_divisor - dp_len data mod size_divisor
         in bind_res (map_res (\<lambda>take_size. dp_slice data None (Some (int take_size)) None)
                        (pad_takes (dp_len data) pad_size)) (\<lambda>padding_protos.
            bind_res (dp_concat (data # padding_protos)) (\<lambda>data_padded.
            Inr (data_padded, pad_size))))
      else Inr (data, 0))"

definition unpad_dataproto :: "('v, 'o) data_proto \<Rightarrow> nat \<Rightarrow> ('v, 'o) data_proto result" where
  "unpad_dataproto data pad_size =
     (if pad_size \<noteq> 0 then dp_slice data None (Some (- int pad_size)) None else Inr data)"

text \<open>\<open>DataProtoConfig.auto_padding\<close>: the environment variable or the class setting.\<close>

definition auto_padding :: "str option \<Rightarrow> bool \<Rightarrow> bool" where
  "auto_padding env cfg =
     (upper (case env of None \<Rightarrow> ''FALSE'' | Some v \<Rightarrow> v) \<in> {''TRUE'', ''1''} \<or> cfg)"

definition is_padding_enabled :: "bool \<Rightarrow> ('v, 'o) data_proto \<Rightarrow> bool" where
  "is_padding_enabled globally d =
     ((case map_of (dp_meta d) auto_padding_key of None \<Rightarrow> False | Some v \<Rightarrow> truthy v) \<or> globally)"

section \<open>Repetition\<close>

definition repeat_interleave :: "nat \<Rightarrow> 'x list \<Rightarrow> 'x list" where
  "repeat_interleave r xs = concat (map (replicate r) xs)"

definition tile :: "nat \<Rightarrow> 'x list \<Rightarrow> 'x list" where
  "tile r xs = concat (replicate r xs)"

definition map_columns :: "('x list \<Rightarrow> 'y list) \<Rightarrow> (str, 'x list) dict \<Rightarrow> (str, 'y list) dict" where
  "map_columns f = map (\<lambda>(k, v). (k, f v))"

definition dp_repeat :: "('v, 'o) data_proto \<Rightarrow> nat \<Rightarrow> bool \<Rightarrow> ('v, 'o) data_proto result" where
  "dp_repeat d repeat_times interleave =
     bind_res (case dp_batch d of
                 None \<Rightarrow> Inr None
               | Some td \<Rightarrow>
                   bind_res (new_tensordict
                     (if interleave then map_columns (repeat_interleave repeat_times) (td_items td)
                      else map_columns (tile repeat_times) (td_items td))
                     (td_size td * repeat_times)) (\<lambda>t. Inr (Some t))) (\<lambda>repeated_batch.
     new_data_proto repeated_batch
       (if interleave then map_columns (repeat_interleave repeat_times) (dp_non_tensor d)
        else map_columns (tile repeat_times) (dp_non_tensor d)) (dp_meta d))"

text \<open>
  Row \<open>i\<close> is repeated \<open>repeat_times[i]\<close> times; a single count is broadcast to all rows, any
  other number of counts must be the number of rows (the error is torch's or numpy's).
\<close>

definition repeat_each :: "py_error \<Rightarrow> nat list \<Rightarrow> 'x list \<Rightarrow> 'x list result" where
  "repeat_each err counts xs =
     (if length counts = length xs then Inr (concat (map2 replicate counts xs))
      else if length counts = 1 then Inr (repeat_interleave (hd counts) xs)
      else Inl err)"

definition repeat_columns ::
  "py_error \<Rightarrow> nat list \<Rightarrow> (str, 'x list) dict \<Rightarrow> (str, 'x list) dict result" where
  "repeat_columns err counts = map_res (\<lambda>(k, v). bind_res (repeat_each err counts v) (\<lambda>w. Inr (k, w)))"

definition sample_level_repeat :: "('v, 'o) data_proto \<Rightarrow> nat list \<Rightarrow> ('v, 'o) data_proto result" where
  "sample_level_repeat d repeat_times =
     bind_res (case dp_batch d of
                 None \<Rightarrow> Inr None
               | Some td \<Rightarrow>
                   bind_res (repeat_columns RuntimeError repeat_times (td_items td)) (\<lambda>source.
                   bind_res (new_tensordict source (sum_list repeat_times)) (\<lambda>t. Inr (Some t)))) (\<lambda>repeated_batch.
     bind_res (repeat_columns ValueError repeat_times (dp_non_tensor d)) (\<lambda>repeated_non_tensor_batch.
     new_data_proto repeated_batch repeated_non_tensor_batch (dp_meta d)))"

definition dp_reorder :: "('v, 'o) data_proto \<Rightarrow> int list \<Rightarrow> ('v, 'o) data_proto result" where
  "dp_reorder d idxs =
     (case dp_batch d of
        None \<Rightarrow> Inl TypeError
      | Some td \<Rightarrow>
          bind_res (pick_columns (Positions idxs) (td_items td)) (\<lambda>items.
          bind_res (pick_columns (Positions idxs) (dp_non_tensor d)) (\<lambda>nt.
          Inr (d\<lparr> dp_batch := Some \<lparr> td_size = length idxs, td_items = items \<rparr>, dp_non_tensor := nt \<rparr>))))"

definition dp_padding :: "('v, 'o) data_proto \<Rightarrow> nat \<Rightarrow> str \<Rightarrow> ('v, 'o) data_proto result" where
  "dp_padding d padding_size padding_candidate =
     (if padding_size = 0 then Inr d
      else
        bind_res (select_idxs d (Positions [if padding_candidate = ''first'' then 0 else int (dp_len d) - 1]))
          (\<lambda>candidate.
        bind_res (dp_repeat candidate padding_size True) (\<lambda>padding_part.
        bind_res (dp_concat [d, padding_part]) (\<lambda>padded_dp.
        Inr (d\<lparr> dp_batch := dp_batch padded_dp, dp_non_tensor := dp_non_tensor padded_dp \<rparr>)))))"

section \<open>Chunks\<close>

text \<open>\<open>pieces sizes xs\<close> cuts \<open>xs\<close> into consecutive pieces of the given sizes.\<close>

fun pieces :: "nat list \<Rightarrow> 'x list \<Rightarrow> 'x list list" where
  "pieces [] xs = []"
| "pieces (n # ns) xs = take n xs # pieces ns (drop n xs)"

text \<open>\<open>np.array_split(xs, indices)\<close>: the last piece is the rest.\<close>

fun array_split_at :: "nat \<Rightarrow> nat list \<Rightarrow> 'x list \<Rightarrow> 'x list list" where
  "array_split_at lo [] xs = [drop lo xs]"
| "array_split_at lo (i # is) xs = take (i - lo) (drop lo xs) # array_split_at i is xs"

fun cumsum_from :: "nat \<Rightarrow> nat list \<Rightarrow> nat list" where
  "cumsum_from a [] = []"
| "cumsum_from a (n # ns) = (a + n) # cumsum_from (a + n) ns"

text \<open>What the code relies on: an exact division gives equal pieces, as documented.\<close>

definition equal_chunks :: "(nat \<Rightarrow> nat \<Rightarrow> nat list) \<Rightarrow> bool" where
  "equal_chunks sizes \<longleftrightarrow> (\<forall>m k. 0 < k \<longrightarrow> sizes (k * m) k = replicate k m)"

definition td_chunk :: "(nat \<Rightarrow> nat \<Rightarrow> nat list) \<Rightarrow> 'v tensordict \<Rightarrow> nat \<Rightarrow> 'v tensordict list" where
  "td_chunk chunk_sizes td chunks =
     (let sizes = chunk_sizes (td_size td) chunks
      in map (\<lambda>i. \<lparr> td_size = sizes ! i,
                    td_items = map (\<lambda>(k, v). (k, pieces sizes v ! i)) (td_items td) \<rparr>) [0..<length sizes])"

definition chunk_column ::
  "(nat \<Rightarrow> nat \<Rightarrow> nat list) \<Rightarrow> nat list option \<Rightarrow> nat \<Rightarrow> 'x list \<Rightarrow> 'x list list result" where
  "chunk_column split_sizes bsz_in_batch chunks val =
     (let non_tensor_lst =
        (case bsz_in_batch of
           Some sizes \<Rightarrow> array_split_at 0 (butlast (cumsum_from 0 sizes)) val
         | None \<Rightarrow> pieces (split_sizes (length val) chunks) val)
      in asserting (length non_tensor_lst = chunks) (Inr non_tensor_lst))"

definition dp_chunk ::
  "(nat \<Rightarrow> nat \<Rightarrow> nat list) \<Rightarrow> (nat \<Rightarrow> nat \<Rightarrow> nat list) \<Rightarrow> bool \<Rightarrow>
   ('v, 'o) data_proto \<Rightarrow> nat \<Rightarrow> ('v, 'o) data_proto list result" where
  "dp_chunk chunk_sizes split_sizes globally d chunks =
     (if \<not> is_padding_enabled globally d \<and> chunks = 0 then Inl ZeroDivisionError else
      asserting (is_padding_enabled globally d \<or> dp_len d mod chunks = 0)
       (let batch_lst = (case dp_batch d of
                           None \<Rightarrow> replicate chunks None
                         | Some td \<Rightarrow> map Some (td_chunk chunk_sizes td chunks));
            bsz_in_batch = (case dp_batch d of
                              None \<Rightarrow> None
                            | Some td \<Rightarrow> Some (map td_size (td_chunk chunk_sizes td chunks)))
        in bind_res (map_res (\<lambda>(k, v). bind_res (chunk_column split_sizes bsz_in_batch chunks v)
                       (\<lambda>vs. Inr (k, vs))) (dp_non_tensor d)) (\<lambda>non_tensor_lists.
           map_res (\<lambda>i.
             bind_res (py_index batch_lst (int i)) (\<lambda>b.
             new_data_proto b (map (\<lambda>(k, vs). (k, vs ! i)) non_tensor_lists) (dp_meta d))) [0..<chunks])))"

definition dp_split :: "('v, 'o) data_proto \<Rightarrow> nat \<Rightarrow> ('v, 'o) data_proto list result" where
  "dp_split d split_size =
     (if split_size = 0 then Inl ValueError
      else map_res (\<lambda>j. dp_slice d (Some (int (j * split_size))) (Some (int (j * split_size + split_size))) None)
             [0..<(dp_len d + split_size - 1) div split_size])"

section \<open>Unfolding columns\<close>

text \<open>
  A row is itself a list.  \<open>reshape\<close> cuts each row into \<open>n_split\<close> consecutive parts and needs
  the length to be divisible; the other keys are repeated.
\<close>

definition unfold_rows :: "py_error \<Rightarrow> nat \<Rightarrow> 'x list list \<Rightarrow> 'x list list result" where
  "unfold_rows err n_split rows =
     (if n_split = 0 then Inl ZeroDivisionError
      else if list_all (\<lambda>r. n_split dvd length r) rows
      then Inr (concat (map (\<lambda>r. pieces (replicate n_split (length r div n_split)) r) rows))
      else Inl err)"

definition unfold_columns ::
  "py_error \<Rightarrow> nat \<Rightarrow> str list \<Rightarrow> (str, 'x list list) dict \<Rightarrow> (str, 'x list list) dict result" where
  "unfold_columns err n_split split_keys =
     map_res (\<lambda>(k, v).
       if k \<in> set split_keys then bind_res (unfold_rows err n_split v) (\<lambda>w. Inr (k, w))
       else Inr (k, repeat_interleave n_split v))"

definition unfold_column_chunks ::
  "('a list, 'b list) data_proto \<Rightarrow> nat \<Rightarrow> str list option \<Rightarrow> ('a list, 'b list) data_proto result" where
  "unfold_column_chunks d n_split split_keys =
     bind_res (case dp_batch d of
                 None \<Rightarrow> Inr None
               | Some td \<Rightarrow>
                   bind_res (unfold_columns RuntimeError n_split (case split_keys of None \<Rightarrow> [] | Some ks \<Rightarrow> ks) (td_items td)) (\<lambda>source.
                   bind_res (new_tensordict source (td_size td * n_split)) (\<lambda>t. Inr (Some t)))) (\<lambda>unfolded_batch.
     bind_res (case split_keys of
                 None \<Rightarrow> if dp_non_tensor d = [] then Inr [] else Inl TypeError
               | Some ks \<Rightarrow> unfold_columns ValueError n_split ks (dp_non_tensor d)) (\<lambda>repeated_non_tensor_batch.
     new_data_proto unfolded_batch repeated_non_tensor_batch (dp_meta d)))"

text \<open>\<open>collate_fn\<close>: items back into a batch (the meta data of the items is dropped).\<close>

definition collate_fn :: "('v, 'o) data_proto_item list \<Rightarrow> ('v, 'o) data_proto result" where
  "collate_fn x =
     bind_res (map_res (\<lambda>data. case it_batch data of None \<Rightarrow> Inl TypeError | Some b \<Rightarrow> Inr b) x) (\<lambda>batch.
     if batch = [] then Inl RuntimeError
     else if \<not> list_all (\<lambda>b. set (dict_keys b) = set (dict_keys (hd batch))) batch then Inl KeyError
     else bind_res (list_of_dict_to_dict_of_list (map it_non_tensor x)) (\<lambda>nt.
          new_data_proto
            (Some \<lparr> td_size = length batch,
                    td_items = map (\<lambda>k. (k, map (\<lambda>b. the (map_of b k)) batch)) (dict_keys (hd batch)) \<rparr>)
            nt []))"

section \<open>Row views\<close>

text \<open>
  The abstract meaning of an operation on rows: every column of a well-formed batch with
  \<open>n\<close> rows is re-indexed by the same list of row numbers.
\<close>

definition dp_ok :: "('v, 'o) data_proto \<Rightarrow> bool" where
  "dp_ok d \<longleftrightarrow>
     (case dp_batch d of None \<Rightarrow> True
      | Some td \<Rightarrow> columns_have (td_size td) (td_items td) \<and> dict_ok (td_items td)) \<and>
     columns_have (dp_len d) (dp_non_tensor d) \<and> dict_ok (dp_non_tensor d) \<and> meta_ok (dp_meta d)"

definition rows :: "nat list \<Rightarrow> 'x list \<Rightarrow> 'x list" where
  "rows is v = map (\<lambda>i. v ! i) is"

definition row_view :: "('v, 'o) data_proto \<Rightarrow> nat list \<Rightarrow> ('v, 'o) data_proto" where
  "row_view d is =
     \<lparr> dp_batch = map_option (\<lambda>td. \<lparr> td_size = length is, td_items = map_columns (rows is) (td_items td) \<rparr>)
                   (dp_batch d),
       dp_non_tensor = map_columns (rows is) (dp_non_tensor d),
       dp_meta = dp_meta d \<rparr>"

lemma length_rows [simp]: "length (rows is v) = length is"
  by (simp add: rows_def)

lemma rows_upt [simp]: "rows [0..<length v] v = v"
  by (simp add: rows_def map_nth)

lemma rows_append: "rows (is @ js) v = rows is v @ rows js v"
  by (simp add: rows_def)

lemma rows_concat: "rows (concat iss) v = concat (map (\<lambda>is. rows is v) iss)"
  by (induction iss) (simp_all add: rows_append, simp add: rows_def)

lemma rows_rows: "set js \<subseteq> {..<length is} \<Longrightarrow> rows js (rows is v) = rows (rows js is) v"
  by (auto simp: rows_def)

lemma rows_range: "m + k \<le> length v \<Longrightarrow> rows [m..<m + k] v = take k (drop m v)"
  by (rule nth_equalityI) (simp_all add: rows_def)

lemma map_columns_simps [simp]:
  "map_columns f [] = []" "map_columns f ((k, v) # d) = (k, f v) # map_columns f d"
  by (simp_all add: map_columns_def)

lemma map_fst_map_columns [simp]: "map fst (map_columns f d) = map fst d"
  by (simp add: map_columns_def comp_def case_prod_unfold)

lemma map_columns_Nil_iff [simp]: "map_columns f d = [] \<longleftrightarrow> d = []"
  by (simp add: map_columns_def)

lemma map_columns_id: "(\<And>k v. (k, v) \<in> set d \<Longrightarrow> f v = v) \<Longrightarrow> map_columns f d = d"
  unfolding map_columns_def by (rule map_idI) auto

lemma map_columns_comp: "map_columns f (map_columns g d) = map_columns (\<lambda>v. f (g v)) d"
  by (induction d) auto

lemma map_columns_cong:
  "(\<And>k v. (k, v) \<in> set d \<Longrightarrow> f v = g v) \<Longrightarrow> map_columns f d = map_columns g d"
  unfolding map_columns_def by (rule map_cong) auto

lemma dict_ok_map_columns [simp]: "dict_ok (map_columns f d) = dict_ok d"
  by (simp add: dict_ok_def)

lemma columns_have_map_columns [simp]:
  "columns_have n (map_columns f d) \<longleftrightarrow> (\<forall>(k, v) \<in> set d. length (f v) = n)"
  by (induction d) (auto simp: columns_have_def)

lemma columns_haveD: "columns_have n d \<Longrightarrow> (k, v) \<in> set d \<Longrightarrow> length v = n"
  by (auto simp: columns_have_def list_all_iff)

lemma map_of_map_columns: "map_of (map_columns f d) k = map_option f (map_of d k)"
  by (induction d) auto

lemma row_view_simps [simp]:
  "dp_batch (row_view d is) =
     map_option (\<lambda>td. \<lparr> td_size = length is, td_items = map_columns (rows is) (td_items td) \<rparr>) (dp_batch d)"
  "dp_non_tensor (row_view d is) = map_columns (rows is) (dp_non_tensor d)"
  "dp_meta (row_view d is) = dp_meta d"
  by (simp_all add: row_view_def)

text \<open>A batch without any column has no rows; otherwise the view has the rows asked for.\<close>

lemma dp_len_row_view:
  "set is \<subseteq> {..<dp_len d} \<Longrightarrow> dp_len (row_view d is) = length is"
  by (cases "dp_batch d"; cases "dp_non_tensor d") (auto simp: dp_len_def)

lemma dp_ok_row_view [intro]: "dp_ok d \<Longrightarrow> set is \<subseteq> {..<dp_len d} \<Longrightarrow> dp_ok (row_view d is)"
  using dp_len_row_view[of "is" d] by (auto simp: dp_ok_def split: option.splits)

lemma row_view_all:
  assumes "dp_ok d"
  shows "row_view d [0..<dp_len d] = d"
proof -
  have nt: "map_columns (rows [0..<dp_len d]) (dp_non_tensor d) = dp_non_tensor d"
    using assms by (intro map_columns_id) (metis columns_haveD dp_ok_def rows_upt)
  have b: "map_option (\<lambda>td. \<lparr> td_size = length [0..<dp_len d],
      td_items = map_columns (rows [0..<dp_len d]) (td_items td) \<rparr>) (dp_batch d) = dp_batch d"
  proof (cases "dp_batch d")
    case (Some td)
    then have len: "dp_len d = td_size td" by (simp add: dp_len_def)
    have "columns_have (td_size td) (td_items td)" using assms Some by (simp add: dp_ok_def)
    then have "map_columns (rows [0..<td_size td]) (td_items td) = td_items td"
      by (intro map_columns_id) (metis columns_haveD rows_upt)
    with Some len show ?thesis by simp
  qed simp
  show ?thesis unfolding row_view_def nt b by simp
qed

lemma row_view_row_view:
  "set js \<subseteq> {..<length is} \<Longrightarrow> row_view (row_view d is) js = row_view d (rows js is)"
  by (simp add: row_view_def option.map_comp comp_def map_columns_comp rows_rows)

lemma new_data_proto_row_view [simp]:
  "new_data_proto (dp_batch (row_view d is)) (dp_non_tensor (row_view d is)) (dp_meta d) = Inr (row_view d is)"
  by (simp add: new_data_proto_def check_consistency_def row_view_def split: option.split)

lemma columns_of_op:
  assumes "\<And>v. length v = n \<Longrightarrow> f v = Inr (rows is v)" and "columns_have n d"
  shows "map_res (\<lambda>(k, v). bind_res (f v) (\<lambda>w. Inr (k, w))) d = Inr (map_columns (rows is) d)"
  using assms(2) by (induction d) (auto simp: columns_have_def assms(1))

lemma dp_ok_columns:
  "dp_ok d \<Longrightarrow> columns_have (dp_len d) (dp_non_tensor d)"
  "dp_ok d \<Longrightarrow> dp_batch d = Some td \<Longrightarrow> columns_have (dp_len d) (td_items td)"
  "dp_batch d = Some td \<Longrightarrow> td_size td = dp_len d"
  by (auto simp: dp_ok_def dp_len_def)

section \<open>The operations as row views\<close>

lemma slice_rows_map: "slice_rows a b s (map f xs) = bind_res (slice_rows a b s xs) (\<lambda>ys. Inr (map f ys))"
proof -
  have "step_by k i (map f ys) = map f (step_by k i ys)" for k i ys
    by (induction k i ys rule: step_by.induct) auto
  then show ?thesis
    by (auto simp: slice_rows_def py_slice_def Let_def take_map drop_map split: option.splits)
qed

lemma slice_rows_view:
  assumes "slice_rows a b s [0..<length v] = Inr is"
  shows "slice_rows a b s v = Inr (rows is v)"
  using slice_rows_map[of a b s "\<lambda>i. v ! i" "[0..<length v]"] assms by (simp add: map_nth rows_def)

lemma dp_slice_view:
  assumes "dp_ok d" and "slice_rows a b s [0..<dp_len d] = Inr is"
  shows "dp_slice d a b s = Inr (row_view d is)"
proof -
  have op: "slice_rows a b s v = Inr (rows is v)" if "length v = dp_len d" for v :: "'x list"
    using slice_rows_view assms(2) that by metis
  have nt: "slice_columns a b s (dp_non_tensor d) = Inr (map_columns (rows is) (dp_non_tensor d))"
    unfolding slice_columns_def by (rule columns_of_op[OF op dp_ok_columns(1)[OF assms(1)]])
  have items: "slice_columns a b s (td_items td) = Inr (map_columns (rows is) (td_items td))"
    if "dp_batch d = Some td" for td
    unfolding slice_columns_def by (rule columns_of_op[OF op dp_ok_columns(2)[OF assms(1) that]])
  have size: "slice_rows a b s [0..<td_size td] = Inr is" if "dp_batch d = Some td" for td
    using dp_ok_columns(3)[OF that] assms(2) by simp
  show ?thesis
    using nt items size new_data_proto_row_view[of d "is"]
    by (cases "dp_batch d") (simp_all add: dp_slice_def)
qed

lemma dp_slice_take:
  assumes "dp_ok d" and "k \<le> dp_len d"
  shows "dp_slice d None (Some (int k)) None = Inr (row_view d [0..<k])"
  by (rule dp_slice_view[OF assms(1)]) (simp add: slice_rows_def py_slice_upto take_upt assms(2))

lemma dp_slice_range:
  assumes "dp_ok d" and "a \<le> dp_len d"
  shows "dp_slice d (Some (int a)) (Some (int b)) None = Inr (row_view d [a..<min b (dp_len d)])"
proof (rule dp_slice_view[OF assms(1)])
  have "take (min b n - a) [a..<n] = [a..<min b n]" if "a \<le> n" for n
    by (rule nth_equalityI) (use that in auto)
  then show "slice_rows (Some (int a)) (Some (int b)) None [0..<dp_len d] = Inr [a..<min b (dp_len d)]"
    using assms(2) by (simp add: slice_rows_def py_slice_def min_def)
qed

lemma pick_map: "pick is (map f xs) = bind_res (pick is xs) (\<lambda>ys. Inr (map f ys))"
proof (cases "is")
  case (Positions ps)
  have "map_res (py_index (map f xs)) ps = bind_res (map_res (py_index xs) ps) (\<lambda>ys. Inr (map f ys))"
  proof (induction ps)
    case (Cons p ps)
    have "py_index (map f xs) p = bind_res (py_index xs p) (\<lambda>y. Inr (f y))"
      by (auto simp: py_index_def Let_def)
    with Cons show ?case
      by (cases "py_index xs p"; cases "map_res (py_index xs) ps") simp_all
  qed simp
  with Positions show ?thesis by (simp add: pick_def)
next
  case (Mask bs)
  have "map fst (filter snd (zip (map f xs) bs)) = map f (map fst (filter snd (zip xs bs)))"
  proof (induction xs arbitrary: bs)
    case (Cons x xs)
    then show ?case by (cases bs) auto
  qed simp
  with Mask show ?thesis by (simp add: pick_def)
qed

lemma picked_size: "pick is xs = Inr ys \<Longrightarrow> picked_size is = length ys"
proof (cases "is")
  case (Mask bs)
  have "length bs = length xs \<Longrightarrow> length (filter id bs) = length (filter snd (zip xs bs))"
    by (induction bs xs rule: list_induct2) auto
  with Mask show "pick is xs = Inr ys \<Longrightarrow> picked_size is = length ys"
    by (auto simp: pick_def picked_size_def split: if_splits)
qed (auto simp: pick_def picked_size_def dest: map_res_length)

lemma select_idxs_view:
  assumes "dp_ok d" and "pick idxs [0..<dp_len d] = Inr is"
  shows "select_idxs d idxs = Inr (row_view d is)"
proof -
  have op: "pick idxs v = Inr (rows is v)" if "length v = dp_len d" for v :: "'x list"
    using pick_map[of idxs "\<lambda>i. v ! i" "[0..<length v]", unfolded map_nth] assms(2)[folded that]
    by (simp add: rows_def)
  have nt: "pick_columns idxs (dp_non_tensor d) = Inr (map_columns (rows is) (dp_non_tensor d))"
    unfolding pick_columns_def by (rule columns_of_op[OF op dp_ok_columns(1)[OF assms(1)]])
  have items: "pick_columns idxs (td_items td) = Inr (map_columns (rows is) (td_items td))"
    if "dp_batch d = Some td" for td
    unfolding pick_columns_def by (rule columns_of_op[OF op dp_ok_columns(2)[OF assms(1) that]])
  show ?thesis
    using nt items new_data_proto_row_view[of d "is"] picked_size[OF assms(2)]
    by (cases "dp_batch d") (simp_all add: select_idxs_def new_tensordict_def)
qed

lemma repeat_interleave_map: "repeat_interleave r (map f xs) = map f (repeat_interleave r xs)"
  by (induction xs) (simp_all add: repeat_interleave_def)

lemma tile_map: "tile r (map f xs) = map f (tile r xs)"
  by (induction r) (simp_all add: tile_def)

lemma length_repeat_interleave [simp]: "length (repeat_interleave r xs) = length xs * r"
  by (induction xs) (simp_all add: repeat_interleave_def)

lemma length_tile [simp]: "length (tile r xs) = length xs * r"
  by (induction r) (simp_all add: tile_def)

lemma repeat_interleave_rows: "repeat_interleave r v = rows (repeat_interleave r [0..<length v]) v"
  using repeat_interleave_map[of r "\<lambda>i. v ! i" "[0..<length v]"] by (simp add: map_nth rows_def)

lemma tile_rows: "tile r v = rows (tile r [0..<length v]) v"
  using tile_map[of r "\<lambda>i. v ! i" "[0..<length v]"] by (simp add: map_nth rows_def)

definition repeat_rows :: "nat \<Rightarrow> nat \<Rightarrow> bool \<Rightarrow> nat list" where
  "repeat_rows n r interleave = (if interleave then repeat_interleave r [0..<n] else tile r [0..<n])"

lemma dp_repeat_view:
  assumes "dp_ok d"
  shows "dp_repeat d r interleave = Inr (row_view d (repeat_rows (dp_len d) r interleave))"
proof -
  let ?op = "\<lambda>v. if interleave then repeat_interleave r v else tile r v"
  let ?is = "repeat_rows (dp_len d) r interleave"
  have cols: "(if interleave then map_columns (repeat_interleave r) c else map_columns (tile r) c)
      = map_columns (rows ?is) c" if c: "columns_have (dp_len d) c" for c :: "(str, 'x list) dict"
  proof -
    have "map_columns (repeat_interleave r) c = map_columns (rows (repeat_interleave r [0..<dp_len d])) c"
      "map_columns (tile r) c = map_columns (rows (tile r [0..<dp_len d])) c"
      by (intro map_columns_cong; metis columns_haveD[OF c] repeat_interleave_rows tile_rows)+
    then show ?thesis by (simp add: repeat_rows_def)
  qed
  have len: "length ?is = dp_len d * r" by (simp add: repeat_rows_def)
  note nt = cols[OF dp_ok_columns(1)[OF assms]]
  show ?thesis
  proof (cases "dp_batch d")
    case None
    with nt new_data_proto_row_view[of d ?is] show ?thesis by (simp add: dp_repeat_def)
  next
    case (Some td)
    have "new_tensordict (map_columns (rows ?is) (td_items td)) (td_size td * r) =
      Inr \<lparr> td_size = length ?is, td_items = map_columns (rows ?is) (td_items td) \<rparr>"
      using dp_ok_columns(3)[OF Some] len by (auto simp: new_tensordict_def)
    with Some nt cols[OF dp_ok_columns(2)[OF assms Some]] new_data_proto_row_view[of d ?is]
    show ?thesis by (simp add: dp_repeat_def)
  qed
qed

lemma repeat_each_map:
  "repeat_each e counts (map f xs) = bind_res (repeat_each e counts xs) (\<lambda>ys. Inr (map f ys))"
proof -
  have "concat (map2 replicate counts (map f xs)) = map f (concat (map2 replicate counts xs))"
  proof (induction counts arbitrary: xs)
    case (Cons c counts)
    then show ?case by (cases xs) simp_all
  qed simp
  then show ?thesis by (simp add: repeat_each_def repeat_interleave_map)
qed

lemma sample_level_repeat_view:
  assumes "dp_ok d" and "length counts = dp_len d"
  shows "sample_level_repeat d counts =
    Inr (row_view d (concat (map2 replicate counts [0..<dp_len d])))"
proof -
  let ?is = "concat (map2 replicate counts [0..<dp_len d])"
  have is_ok: "repeat_each e counts [0..<dp_len d] = Inr ?is" for e
    using assms(2) by (simp add: repeat_each_def)
  have op: "repeat_each e counts v = Inr (rows ?is v)" if "length v = dp_len d" for e and v :: "'x list"
    using repeat_each_map[of e counts "\<lambda>i. v ! i" "[0..<length v]", unfolded map_nth]
      is_ok[of e, folded that] unfolding that[symmetric] by (simp only: bind_res_simps rows_def)
  have nt: "repeat_columns e counts (dp_non_tensor d) = Inr (map_columns (rows ?is) (dp_non_tensor d))" for e
    unfolding repeat_columns_def by (rule columns_of_op[OF op dp_ok_columns(1)[OF assms(1)]])
  have items: "repeat_columns e counts (td_items td) = Inr (map_columns (rows ?is) (td_items td))"
    if "dp_batch d = Some td" for td e
    unfolding repeat_columns_def by (rule columns_of_op[OF op dp_ok_columns(2)[OF assms(1) that]])
  have "length counts = n \<Longrightarrow> length (concat (map2 replicate counts [k..<k + n])) = sum_list counts" for n k
  proof (induction counts arbitrary: n k)
    case (Cons c counts)
    then obtain m where m: "n = Suc m" "length counts = m" by (cases n) auto
    then have "[k..<k + n] = k # [Suc k..<Suc k + m]" by (simp add: upt_conv_Cons)
    with Cons.IH[OF m(2), of "Suc k"] show ?case by simp
  qed simp
  from this[OF assms(2), of 0] have len: "length ?is = sum_list counts" by simp
  show ?thesis
    using nt items new_data_proto_row_view[of d ?is] len
    by (cases "dp_batch d") (simp_all add: sample_level_repeat_def new_tensordict_def)
qed

section \<open>Concatenation of row views\<close>

lemma update_absent: "k \<notin> fst ` set d \<Longrightarrow> AList.update k v d = d @ [(k, v)]"
  by (induction d) auto

lemma update_middle: "k \<notin> fst ` set pre \<Longrightarrow> AList.update k w (pre @ (k, x) # post) = pre @ (k, w) # post"
  by (induction pre) auto

lemma map_of_middle: "k \<notin> fst ` set pre \<Longrightarrow> map_of (pre @ (k, x) # post) k = Some x"
  by (induction pre) auto

lemma fst_set_mapped: "fst ` set (map (\<lambda>(k, v). (k, h v)) d) = fst ` set d"
  by force

lemma collect_items:
  assumes "dict_ok (pre @ d)"
  shows "fold_res collect_item (map (\<lambda>(k, v). (k, h v @ [g v])) pre @ map (\<lambda>(k, v). (k, h v)) d)
           (map (\<lambda>(k, v). (k, g v)) d)
         = Inr (map (\<lambda>(k, v). (k, h v @ [g v])) (pre @ d))"
  using assms
proof (induction d arbitrary: pre)
  case (Cons p d)
  obtain k v where p: "p = (k, v)" by force
  let ?pre = "map (\<lambda>(k, v). (k, h v @ [g v])) pre"
  let ?post = "map (\<lambda>(k, v). (k, h v)) d"
  have "k \<notin> fst ` set pre" using Cons.prems p by (auto simp: dict_ok_def)
  then have fresh: "k \<notin> fst ` set ?pre" using fst_set_mapped[of "\<lambda>v. h v @ [g v]" pre] by simp
  have "collect_item (?pre @ (k, h v) # ?post) (k, g v) = Inr (?pre @ (k, h v @ [g v]) # ?post)"
    using map_of_middle[OF fresh, of "h v" ?post] update_middle[OF fresh, of "h v @ [g v]" "h v" ?post]
    by (simp add: collect_item_def)
  with Cons.IH[of "pre @ [(k, v)]"] Cons.prems p show ?case by simp
qed simp

lemma list_of_dict_uniform:
  assumes "dict_ok d" and "js \<noteq> []"
  shows "list_of_dict_to_dict_of_list (map (\<lambda>j. map (\<lambda>(k, v). (k, g j v)) d) js)
         = Inr (map (\<lambda>(k, v). (k, map (\<lambda>j. g j v) js)) d)"
proof -
  have step: "fold_res collect_item (map (\<lambda>(k, v). (k, h v)) d) (map (\<lambda>(k, v). (k, g j v)) d)
    = Inr (map (\<lambda>(k, v). (k, h v @ [g j v])) d)" for h j
    using collect_items[of "[]" d h "g j"] assms(1) by simp
  have all: "fold_res (\<lambda>output data. fold_res collect_item output data) (map (\<lambda>(k, v). (k, h v)) d)
      (map (\<lambda>j. map (\<lambda>(k, v). (k, g j v)) d) js) = Inr (map (\<lambda>(k, v). (k, h v @ map (\<lambda>j. g j v) js)) d)" for h
    by (induction js arbitrary: h) (simp_all add: step)
  obtain j js' where js: "js = j # js'" using assms(2) by (cases js) auto
  have init: "(\<lambda>(k, v). (k, [])) \<circ> (\<lambda>(k, v). (k, g j v)) = (\<lambda>(k, v). (k, []))"
    by (auto simp: fun_eq_iff)
  show ?thesis
    using all[of "\<lambda>_. []"] init unfolding list_of_dict_to_dict_of_list_def
    by (simp add: js init)
qed

lemma merge_meta_uniform:
  assumes ok: "meta_ok m" and no_metrics: "metrics_key \<notin> fst ` set m" and n: "0 < n"
  shows "merge_meta (replicate n m) = Inr m"
proof -
  have dist: "dict_ok m" using ok by (simp add: meta_ok_def)
  have first: "fold_res merge_meta_item (pre, []) suf = Inr (pre @ suf, [])"
    if "pre @ suf = m" for pre suf
    using that
  proof (induction suf arbitrary: pre)
    case (Cons p suf)
    obtain k v where p: "p = (k, v)" by force
    have "k \<noteq> metrics_key" using Cons.prems no_metrics p by auto
    moreover have "k \<notin> fst ` set pre"
      using dist p unfolding Cons.prems[symmetric] by (auto simp: dict_ok_def)
    moreover from this have "map_of pre k = None" by (simp add: map_of_eq_None_iff)
    ultimately have "merge_meta_item (pre, []) p = Inr (pre @ [p], [])"
      using p by (simp add: merge_meta_item_def update_absent)
    with Cons.IH[of "pre @ [p]"] Cons.prems show ?case by simp
  qed simp
  have item: "merge_meta_item (m, []) (k, v) = Inr (m, [])" if "(k, v) \<in> set m" for k v
  proof -
    have "map_of m k = Some v" using dist that by (simp add: dict_ok_def)
    moreover have "k \<noteq> metrics_key" using that no_metrics by force
    ultimately show ?thesis
      using meta_okD[OF ok that] by (simp add: merge_meta_item_def)
  qed
  have again: "fold_res merge_meta_item (m, []) suf = Inr (m, [])" if "set suf \<subseteq> set m" for suf
    using that by (induction suf) (auto simp: item)
  have rest: "fold_res (fold_res merge_meta_item) (m, []) (replicate k m) = Inr (m, [])" for k
    by (induction k) (simp_all add: again)
  obtain k where k: "n = Suc k" using n by (cases n) auto
  show ?thesis using first[of "[]" m] rest[of k] by (simp add: merge_meta_def k)
qed

lemma td_cat_views:
  assumes "dict_ok (td_items td)" and "iss \<noteq> []"
  shows "td_cat (map (\<lambda>is. \<lparr> td_size = length is, td_items = map_columns (rows is) (td_items td) \<rparr>) iss)
    = Inr \<lparr> td_size = length (concat iss), td_items = map_columns (rows (concat iss)) (td_items td) \<rparr>"
proof -
  let ?f = "\<lambda>is. \<lparr> td_size = length is, td_items = map_columns (rows is) (td_items td) \<rparr>"
  obtain i iss' where iss: "iss = i # iss'" using assms(2) by (cases iss) auto
  have keys: "dict_keys (td_items (hd (map ?f iss))) = map fst (td_items td)"
    by (simp add: iss dict_keys_def)
  have same: "list_all (\<lambda>t. set (dict_keys (td_items t)) = set (map fst (td_items td))) (map ?f iss)"
    by (simp add: list_all_length dict_keys_def del: set_map)
  have col: "concat (map (\<lambda>t. the (map_of (td_items t) k)) (map ?f iss)) = rows (concat iss) v"
    if "map_of (td_items td) k = Some v" for k v
    using that by (simp add: comp_def map_of_map_columns rows_concat)
  have items: "map (\<lambda>k. (k, concat (map (\<lambda>t. the (map_of (td_items t) k)) (map ?f iss)))) (map fst (td_items td))
      = map_columns (rows (concat iss)) (td_items td)"
  proof -
    have "concat (map (\<lambda>t. the (map_of (td_items t) k)) (map ?f iss)) = rows (concat iss) v"
      if "(k, v) \<in> set (td_items td)" for k v
      by (rule col) (use that assms(1) in \<open>simp add: dict_ok_def\<close>)
    then show ?thesis by (auto simp: map_columns_def)
  qed
  have size: "sum_list (map td_size (map ?f iss)) = length (concat iss)"
    by (simp add: comp_def length_concat)
  show ?thesis unfolding td_cat_def Let_def keys items size using same by simp
qed

lemma dp_concat_views:
  assumes "dp_ok d" and "iss \<noteq> []" and "metrics_key \<notin> fst ` set (dp_meta d)"
  shows "dp_concat (map (row_view d) iss) = Inr (row_view d (concat iss))"
proof -
  obtain i iss' where iss: "iss = i # iss'" using assms(2) by (cases iss) auto
  have ok_nt: "dict_ok (dp_non_tensor d)" and ok_meta: "meta_ok (dp_meta d)"
    using assms(1) by (simp_all add: dp_ok_def)
  have nt: "list_of_dict_to_dict_of_list (map dp_non_tensor (map (row_view d) iss)) =
      Inr (map (\<lambda>(k, v). (k, map (\<lambda>is. rows is v) iss)) (dp_non_tensor d))"
    using list_of_dict_uniform[OF ok_nt assms(2), of rows] by (simp add: comp_def map_columns_def)
  have nt': "map (\<lambda>(k, vs). (k, concat vs)) (map (\<lambda>(k, v). (k, map (\<lambda>is. rows is v) iss)) (dp_non_tensor d))
      = dp_non_tensor (row_view d (concat iss))"
    by (simp add: map_columns_def case_prod_unfold rows_concat)
  have "map dp_meta (map (row_view d) iss) = replicate (length iss) (dp_meta d)"
    by (simp add: comp_def map_replicate_const)
  then have meta: "merge_meta (map dp_meta (map (row_view d) iss)) = Inr (dp_meta d)"
    using merge_meta_uniform[OF ok_meta assms(3), of "length iss"] iss by simp
  have batch: "(if dp_batch (row_view d i) = None then Inr None
      else bind_res (map_res (\<lambda>d. case dp_batch d of None \<Rightarrow> Inl TypeError | Some t \<Rightarrow> Inr t) (map (row_view d) iss))
             (\<lambda>tds. bind_res (td_cat tds) (\<lambda>t. Inr (Some t)))) = Inr (dp_batch (row_view d (concat iss)))"
  proof (cases "dp_batch d")
    case (Some td)
    let ?f = "\<lambda>is. \<lparr> td_size = length is, td_items = map_columns (rows is) (td_items td) \<rparr>"
    have "map_res (\<lambda>d. case dp_batch d of None \<Rightarrow> Inl TypeError | Some t \<Rightarrow> Inr t) (map (row_view d) iss)
      = Inr (map ?f iss)"
      using Some by (induction iss) simp_all
    moreover have "dict_ok (td_items td)" using assms(1) Some by (simp add: dp_ok_def)
    ultimately show ?thesis using Some td_cat_views[OF _ assms(2), of td] by simp
  qed simp
  have cons: "(case map (row_view d) iss of [] \<Rightarrow> a | x # xs \<Rightarrow> b x xs) = b (row_view d i) (map (row_view d) iss')"
    for a b by (simp add: iss)
  show ?thesis
    unfolding dp_concat_def cons batch nt meta bind_res_simps nt'
    using new_data_proto_row_view[of d "concat iss"] by simp
qed

section \<open>Padding and chunks as row views\<close>

lemma pad_takes_sum: "0 < n \<Longrightarrow> sum_list (pad_takes n r) = r"
proof (induction n r rule: pad_takes.induct)
  case (1 n r)
  then show ?case by (subst pad_takes.simps) auto
qed

lemma pad_takes_le: "k \<in> set (pad_takes n r) \<Longrightarrow> k \<le> n"
proof (induction n r rule: pad_takes.induct)
  case (1 n r)
  show ?case
  proof (cases "r = 0 \<or> n = 0")
    case True
    with "1.prems" show ?thesis by (subst (asm) pad_takes.simps) simp
  next
    case False
    with "1.prems" have "k = min r n \<or> k \<in> set (pad_takes n (r - min r n))"
      by (subst (asm) pad_takes.simps) simp
    with "1.IH"[OF False] show ?thesis by auto
  qed
qed

definition padded_rows :: "nat \<Rightarrow> nat \<Rightarrow> nat list" where
  "padded_rows n pad = [0..<n] @ concat (map (\<lambda>k. [0..<k]) (pad_takes n pad))"

lemma padded_rows_subset: "set (padded_rows n pad) \<subseteq> {..<n}"
  by (auto simp: padded_rows_def dest: pad_takes_le)

lemma length_padded_rows: "0 < n \<Longrightarrow> length (padded_rows n pad) = n + pad"
  by (simp add: padded_rows_def length_concat comp_def pad_takes_sum)

lemma pad_dataproto_view:
  assumes "dp_ok d" and "metrics_key \<notin> fst ` set (dp_meta d)" and "0 < s" and "dp_len d mod s \<noteq> 0"
  shows "pad_dataproto_to_divisor d s =
    Inr (row_view d (padded_rows (dp_len d) (s - dp_len d mod s)), s - dp_len d mod s)"
proof -
  let ?takes = "pad_takes (dp_len d) (s - dp_len d mod s)"
  have protos: "map_res (\<lambda>take_size. dp_slice d None (Some (int take_size)) None) ?takes
      = Inr (map (\<lambda>k. row_view d [0..<k]) ?takes)"
    by (rule map_res_all_ok, rule dp_slice_take[OF assms(1)], rule pad_takes_le)
  have "dp_concat (row_view d [0..<dp_len d] # map (\<lambda>k. row_view d [0..<k]) ?takes)
      = Inr (row_view d (padded_rows (dp_len d) (s - dp_len d mod s)))"
    using dp_concat_views[OF assms(1) _ assms(2), of "[0..<dp_len d] # map (\<lambda>k. [0..<k]) ?takes"]
    by (simp add: comp_def padded_rows_def)
  then have "dp_concat (d # map (\<lambda>k. row_view d [0..<k]) ?takes)
      = Inr (row_view d (padded_rows (dp_len d) (s - dp_len d mod s)))"
    unfolding row_view_all[OF assms(1)] .
  with assms(3,4) protos show ?thesis by (simp add: pad_dataproto_to_divisor_def Let_def)
qed

lemma pad_unpad_main:
  assumes "dp_ok d" and "metrics_key \<notin> fst ` set (dp_meta d)" and "0 < s"
  shows "\<exists>p pad. pad_dataproto_to_divisor d s = Inr (p, pad) \<and> dp_ok p \<and> pad < s \<and>
    dp_len p = dp_len d + pad \<and> dp_len p mod s = 0 \<and> unpad_dataproto p pad = Inr d"
proof (cases "dp_len d mod s = 0")
  case True
  then show ?thesis using assms by (simp add: pad_dataproto_to_divisor_def unpad_dataproto_def)
next
  case False
  let ?n = "dp_len d" let ?pad = "s - dp_len d mod s"
  let ?is = "padded_rows ?n ?pad"
  have n: "0 < ?n" using False by (cases "dp_len d") simp_all
  have pad: "0 < ?pad" "?pad < s" using False assms(3) by (simp_all add: less_imp_diff_less)
  have len: "dp_len (row_view d ?is) = ?n + ?pad"
    using dp_len_row_view[OF padded_rows_subset, of d ?pad] length_padded_rows[OF n, of ?pad] by simp
  have ok: "dp_ok (row_view d ?is)" using dp_ok_row_view[OF assms(1) padded_rows_subset] .
  have "slice_rows None (Some (- int ?pad)) None [0..<?n + ?pad] = Inr [0..<?n]"
    using py_slice_but_last[OF pad(1), of "[0..<?n + ?pad]"] by (simp add: slice_rows_def take_upt)
  then have "unpad_dataproto (row_view d ?is) ?pad = Inr (row_view (row_view d ?is) [0..<?n])"
    using dp_slice_view[OF ok, of None "Some (- int ?pad)" None "[0..<?n]"] pad(1) len
    by (simp add: unpad_dataproto_def)
  also have "row_view (row_view d ?is) [0..<?n] = row_view d (rows [0..<?n] ?is)"
    by (rule row_view_row_view) (use length_padded_rows[OF n, of ?pad] in auto)
  also have "rows [0..<?n] ?is = [0..<?n]"
    by (rule nth_equalityI) (simp_all add: rows_def padded_rows_def nth_append)
  also have "row_view d [0..<?n] = d" by (rule row_view_all[OF assms(1)])
  finally have "unpad_dataproto (row_view d ?is) ?pad = Inr d" .
  moreover have "(?n + ?pad) mod s = 0"
  proof -
    have "?n + ?pad = (?n - ?n mod s) + s" using assms(3) mod_less_divisor[of s ?n] mod_less_eq_dividend[of ?n s] by linarith
    then show ?thesis by (metis dvd_minus_mod mod_add_self2 mod_eq_0_iff_dvd)
  qed
  then have "dp_len (row_view d ?is) mod s = 0" by (simp only: len)
  ultimately show ?thesis
    using pad_dataproto_view[OF assms False] ok len pad(2)
    by (intro exI[of _ "row_view d ?is"] exI[of _ ?pad] conjI)
qed

section \<open>Chunks and splits\<close>

lemma length_pieces [simp]: "length (pieces ns xs) = length ns"
  by (induction ns xs rule: pieces.induct) simp_all

lemma nth_pieces_replicate: "i < k \<Longrightarrow> pieces (replicate k m) v ! i = take m (drop (i * m) v)"
proof (induction k arbitrary: i v)
  case (Suc k)
  then show ?case by (cases i) (simp_all add: add.commute)
qed simp

lemma array_split_at_pieces:
  "sizes \<noteq> [] \<Longrightarrow> lo + sum_list sizes = length v \<Longrightarrow>
   array_split_at lo (butlast (cumsum_from lo sizes)) v = pieces sizes (drop lo v)"
proof (induction sizes arbitrary: lo)
  case (Cons n ns)
  show ?case
  proof (cases ns)
    case Nil
    with Cons.prems show ?thesis by simp
  next
    case (Cons m ms)
    then have "cumsum_from (lo + n) ns \<noteq> []" by simp
    moreover have "array_split_at (lo + n) (butlast (cumsum_from (lo + n) ns)) v = pieces ns (drop (lo + n) v)"
      using Cons.IH[of "lo + n"] Cons.prems Cons by (simp add: add.assoc)
    ultimately show ?thesis by (simp add: add.commute)
  qed
qed simp

lemma chunk_range: "i < k \<Longrightarrow> length v = k * m \<Longrightarrow> take m (drop (i * m) v) = rows [i * m..<i * m + m] v"
proof -
  assume "i < k" "length v = k * m"
  then have "i * m + m \<le> length v" using mult_le_mono1[of "Suc i" k m] by simp
  then show ?thesis by (simp add: rows_range)
qed

lemma dp_chunk_views:
  assumes ok: "dp_ok d" and k: "0 < k" and len: "dp_len d = k * m"
    and cs: "equal_chunks cs" and ss: "equal_chunks ss"
  shows "dp_chunk cs ss g d k = Inr (map (\<lambda>i. row_view d [i * m..<i * m + m]) [0..<k])"
proof -
  let ?b = "case dp_batch d of None \<Rightarrow> None | Some td \<Rightarrow> Some (map td_size (td_chunk cs td k))"
  let ?lst = "case dp_batch d of None \<Rightarrow> replicate k None | Some td \<Rightarrow> map Some (td_chunk cs td k)"
  have sizes: "cs (td_size td) k = replicate k m" if "dp_batch d = Some td" for td
    using cs k len dp_ok_columns(3)[OF that] by (simp add: equal_chunks_def)
  have cols: "chunk_column ss ?b k v = Inr (pieces (replicate k m) v)" if v: "length v = dp_len d" for v :: "'b list"
  proof (cases "dp_batch d")
    case None
    have "ss (length v) k = replicate k m" using ss k len v by (simp add: equal_chunks_def)
    with None show ?thesis by (simp add: chunk_column_def)
  next
    case (Some td)
    have "map td_size (td_chunk cs td k) = replicate k m"
      unfolding td_chunk_def Let_def sizes[OF Some] map_map comp_def
      by (rule nth_equalityI) simp_all
    moreover have "array_split_at 0 (butlast (cumsum_from 0 (replicate k m))) v = pieces (replicate k m) v"
      using array_split_at_pieces[of "replicate k m" 0 v] k v len by (simp add: sum_list_replicate)
    ultimately show ?thesis using Some by (simp add: chunk_column_def)
  qed
  have lists: "map_res (\<lambda>(k', v). bind_res (chunk_column ss ?b k v) (\<lambda>vs. Inr (k', vs))) (dp_non_tensor d)
      = Inr (map (\<lambda>(k', v). (k', pieces (replicate k m) v)) (dp_non_tensor d))"
    by (rule map_res_all_ok)
       (auto simp: cols columns_haveD[OF dp_ok_columns(1)[OF ok]])
  have lst: "py_index ?lst (int i) = Inr (dp_batch (row_view d [i * m..<i * m + m]))" if i: "i < k" for i
  proof (cases "dp_batch d")
    case None
    then show ?thesis using i by (simp add: py_index_def)
  next
    case (Some td)
    have "map (\<lambda>(k', v). (k', pieces (replicate k m) v ! i)) (td_items td)
      = map_columns (rows [i * m..<i * m + m]) (td_items td)"
      unfolding map_columns_def
    proof (rule map_cong[OF refl])
      fix p assume "p \<in> set (td_items td)"
      then have "length (snd p) = k * m"
        using columns_haveD[OF dp_ok_columns(2)[OF ok Some], of "fst p" "snd p"] len by simp
      then show "(case p of (k', v) \<Rightarrow> (k', pieces (replicate k m) v ! i)) =
        (case p of (k', v) \<Rightarrow> (k', rows [i * m..<i * m + m] v))"
        using i by (simp add: case_prod_unfold nth_pieces_replicate chunk_range)
    qed
    then show ?thesis using Some i by (simp add: td_chunk_def Let_def sizes[OF Some] py_index_def)
  qed
  have nt: "map (\<lambda>(k', vs). (k', vs ! i)) (map (\<lambda>(k', v). (k', pieces (replicate k m) v)) (dp_non_tensor d))
      = dp_non_tensor (row_view d [i * m..<i * m + m])" if i: "i < k" for i
  proof -
    have "length v = k * m" if "(k', v) \<in> set (dp_non_tensor d)" for k' v
      using columns_haveD[OF dp_ok_columns(1)[OF ok] that] len by simp
    then show ?thesis using i by (auto simp: map_columns_def nth_pieces_replicate chunk_range)
  qed
  have out: "map_res (\<lambda>i. bind_res (py_index ?lst (int i)) (\<lambda>b.
      new_data_proto b (map (\<lambda>(k', vs). (k', vs ! i))
        (map (\<lambda>(k', v). (k', pieces (replicate k m) v)) (dp_non_tensor d))) (dp_meta d))) [0..<k]
      = Inr (map (\<lambda>i. row_view d [i * m..<i * m + m]) [0..<k])"
    by (rule map_res_all_ok) (simp only: set_upt atLeastLessThan_iff lst nt bind_res_simps new_data_proto_row_view)
  have dvd: "dp_len d mod k = 0" using len by simp
  show ?thesis using k dvd unfolding dp_chunk_def Let_def lists bind_res_simps out by simp
qed

lemma concat_chunk_ranges: "concat (map (\<lambda>i. [i * m..<i * m + m]) [0..<k]) = [0..<k * m]"
proof (induction k)
  case (Suc k)
  have "[0..<k * m] @ [k * m..<k * m + m] = [0..<k * m + m]"
    by (metis le_add1 le0 upt_add_eq_append)
  with Suc show ?case by (simp add: add.commute)
qed simp

lemma chunk_concat_main:
  assumes "dp_ok d" and "metrics_key \<notin> fst ` set (dp_meta d)" and "0 < k" and "dp_len d mod k = 0"
    and "equal_chunks cs" and "equal_chunks ss"
  shows "\<exists>parts. dp_chunk cs ss g d k = Inr parts \<and> length parts = k \<and>
    (\<forall>p \<in> set parts. dp_ok p \<and> dp_len p = dp_len d div k) \<and> dp_concat parts = Inr d"
proof -
  let ?m = "dp_len d div k"
  let ?iss = "map (\<lambda>i. [i * ?m..<i * ?m + ?m]) [0..<k]"
  let ?parts = "map (row_view d) ?iss"
  have len: "dp_len d = k * ?m" using assms(4) by auto
  have sub: "set is \<subseteq> {..<dp_len d} \<and> length is = ?m" if "is \<in> set ?iss" for "is"
  proof -
    from that obtain i where i: "i < k" "is = [i * ?m..<i * ?m + ?m]"
      unfolding set_map set_upt image_iff by (metis atLeastLessThan_iff)
    then have "i * ?m + ?m \<le> k * ?m" using mult_le_mono1[of "Suc i" k ?m] by simp
    with i len show ?thesis by auto
  qed
  have "dp_ok p \<and> dp_len p = ?m" if "p \<in> set ?parts" for p
    using that sub dp_ok_row_view[OF assms(1)] dp_len_row_view by fastforce
  moreover have "dp_concat ?parts = Inr d"
    using dp_concat_views[OF assms(1) _ assms(2), of ?iss] assms(3) concat_chunk_ranges[of ?m k]
      row_view_all[OF assms(1)] len by simp
  moreover have "dp_chunk cs ss g d k = Inr ?parts"
    using dp_chunk_views[OF assms(1,3) len assms(5,6), of g] by (simp add: comp_def)
  moreover have "length ?parts = k" by simp
  ultimately show ?thesis by blast
qed

lemma concat_split_ranges:
  "concat (map (\<lambda>j. [j * s..<min (j * s + s) n]) [0..<c]) = [0..<min (c * s) n]"
proof (induction c)
  case (Suc c)
  show ?case
  proof (cases "c * s \<le> n")
    case True
    then have "[0..<c * s] @ [c * s..<min (c * s + s) n] = [0..<min (c * s + s) n]"
      using upt_add_eq_append[of 0 "c * s" "min (c * s + s) n - c * s"] by simp
    with Suc True show ?thesis by (simp add: add.commute min_def)
  next
    case False
    with Suc show ?thesis by (simp add: min_def)
  qed
qed simp

lemma split_concat_main:
  assumes "dp_ok d" and "metrics_key \<notin> fst ` set (dp_meta d)" and s: "0 < s" and n: "0 < dp_len d"
  shows "\<exists>parts. dp_split d s = Inr parts \<and> (\<forall>p \<in> set parts. dp_ok p \<and> 0 < dp_len p \<and> dp_len p \<le> s) \<and>
    dp_concat parts = Inr d"
proof -
  let ?n = "dp_len d" let ?c = "(dp_len d + s - 1) div s"
  let ?iss = "map (\<lambda>j. [j * s..<min (j * s + s) ?n]) [0..<?c]"
  have below: "j * s < ?n" if "j < ?c" for j
  proof -
    have "Suc j * s \<le> ?n + s - 1" using that by (metis Suc_leI less_eq_div_iff_mult_less_eq s)
    then show ?thesis using n s by simp
  qed
  have "?n + s - 1 < ?c * s + s" using s by (metis dividend_less_div_times add.commute)
  then have cover: "?n \<le> ?c * s" by linarith
  have "dp_slice d (Some (int (j * s))) (Some (int (j * s + s))) None = Inr (row_view d [j * s..<min (j * s + s) ?n])"
    if "j < ?c" for j
    using dp_slice_range[OF assms(1), of "j * s" "j * s + s"] below[OF that] by simp
  then have split: "dp_split d s = Inr (map (row_view d) ?iss)"
    using s map_res_all_ok[of "[0..<?c]"
        "\<lambda>j. dp_slice d (Some (int (j * s))) (Some (int (j * s + s))) None"
        "\<lambda>j. row_view d [j * s..<min (j * s + s) ?n]"]
    unfolding dp_split_def map_map comp_def by simp
  have sub: "set is \<subseteq> {..<?n} \<and> 0 < length is \<and> length is \<le> s" if "is \<in> set ?iss" for "is"
  proof -
    from that obtain j where "j < ?c" "is = [j * s..<min (j * s + s) ?n]"
      unfolding set_map set_upt image_iff by (metis atLeastLessThan_iff)
    with below[of j] s show ?thesis by auto
  qed
  have parts: "dp_ok p \<and> 0 < dp_len p \<and> dp_len p \<le> s" if "p \<in> set (map (row_view d) ?iss)" for p
  proof -
    from that obtain "is" where "is": "is \<in> set ?iss" "p = row_view d is"
      unfolding set_map[of "row_view d"] by (rule imageE)
    with sub[OF "is"(1)] show ?thesis using dp_ok_row_view[OF assms(1)] dp_len_row_view[of "is" d] by simp
  qed
  have "?iss \<noteq> []" using cover n by (cases ?c) auto
  then have "dp_concat (map (row_view d) ?iss) = Inr (row_view d [0..<min (?c * s) ?n])"
    using dp_concat_views[OF assms(1) _ assms(2), of ?iss] concat_split_ranges[of s ?n ?c] by simp
  also have "min (?c * s) ?n = ?n" using cover by simp
  also have "row_view d [0..<?n] = d" by (rule row_view_all[OF assms(1)])
  finally show ?thesis using split parts by blast
qed

section \<open>Unions\<close>

lemma union_fold:
  assumes "dict_ok d2"
  shows "fold_res (\<lambda>d (key, val). case map_of d key of None \<Rightarrow> Inr (AList.update key val d)
           | Some w \<Rightarrow> asserting (chk w val) (Inr (AList.update key val d))) d1 d2 = Inr d \<longleftrightarrow>
    (\<forall>(k, v) \<in> set d2. \<forall>w. map_of d1 k = Some w \<longrightarrow> chk w v) \<and>
    d = foldl (\<lambda>d (k, v). AList.update k v d) d1 d2"
  using assms
proof (induction d2 arbitrary: d1)
  case (Cons p d2)
  obtain k v where p: "p = (k, v)" by force
  have fresh: "k' \<noteq> k" if "(k', v') \<in> set d2" for k' v'
    using Cons.prems p that by (force simp: dict_ok_def)
  have ok: "dict_ok d2" using Cons.prems by (simp add: dict_ok_def)
  have same: "(\<forall>(k', v') \<in> set d2. \<forall>w. map_of (AList.update k v d1) k' = Some w \<longrightarrow> chk w v') \<longleftrightarrow>
    (\<forall>(k', v') \<in> set d2. \<forall>w. map_of d1 k' = Some w \<longrightarrow> chk w v')"
    using fresh by (auto simp: split: if_splits)
  show ?case
    using Cons.IH[OF ok, of "AList.update k v d1"] same by (auto simp: p split: option.splits)
qed auto

lemma map_of_foldl_update:
  "dict_ok d2 \<Longrightarrow> map_of (foldl (\<lambda>d (k, v). AList.update k v d) d1 d2) k =
   (case map_of d2 k of None \<Rightarrow> map_of d1 k | Some v \<Rightarrow> Some v)"
proof (induction d2 arbitrary: d1)
  case (Cons p d2)
  obtain k' v where p: "p = (k', v)" by force
  have "map_of d2 k' = None" using Cons.prems p by (simp add: dict_ok_def map_of_eq_None_iff)
  moreover have "dict_ok d2" using Cons.prems by (simp add: dict_ok_def)
  ultimately show ?case using Cons.IH[of "AList.update k' v d1"] by (auto simp: p split: option.splits)
qed simp

lemma union_tensor_fold:
  assumes "dict_ok d2"
  shows "fold_res (\<lambda>t (key, val). case map_of (td_items t) key of
             None \<Rightarrow> Inr (t\<lparr> td_items := AList.update key val (td_items t) \<rparr>)
           | Some w \<Rightarrow> asserting (w = val) (Inr t)) t1 d2 = Inr t \<longleftrightarrow>
    (\<forall>(k, v) \<in> set d2. \<forall>w. map_of (td_items t1) k = Some w \<longrightarrow> w = v) \<and>
    t = t1\<lparr> td_items := foldl (\<lambda>d (k, v). if map_of d k = None then AList.update k v d else d) (td_items t1) d2 \<rparr>"
  using assms
proof (induction d2 arbitrary: t1)
  case (Cons p d2)
  obtain k v where p: "p = (k, v)" by force
  have fresh: "k' \<noteq> k" if "(k', v') \<in> set d2" for k' v'
    using Cons.prems p that by (force simp: dict_ok_def)
  have ok: "dict_ok d2" using Cons.prems by (simp add: dict_ok_def)
  have same: "(\<forall>(k', v') \<in> set d2. \<forall>w. map_of (AList.update k v (td_items t1)) k' = Some w \<longrightarrow> w = v') \<longleftrightarrow>
    (\<forall>(k', v') \<in> set d2. \<forall>w. map_of (td_items t1) k' = Some w \<longrightarrow> w = v')"
    using fresh by (auto simp: split: if_splits)
  show ?case
    using Cons.IH[OF ok, of t1] Cons.IH[OF ok, of "t1\<lparr> td_items := AList.update k v (td_items t1) \<rparr>"] same
    by (auto simp: p split: option.splits)
qed auto

lemma map_of_foldl_add:
  "dict_ok d2 \<Longrightarrow> map_of (foldl (\<lambda>d (k, v). if map_of d k = None then AList.update k v d else d) d1 d2) k =
   (case map_of d1 k of None \<Rightarrow> map_of d2 k | Some v \<Rightarrow> Some v)"
proof (induction d2 arbitrary: d1)
  case Nil
  then show ?case by (simp split: option.split)
next
  case (Cons p d2)
  obtain k' v where p: "p = (k', v)" by force
  have "map_of d2 k' = None" using Cons.prems p by (simp add: dict_ok_def map_of_eq_None_iff)
  moreover have "dict_ok d2" using Cons.prems by (simp add: dict_ok_def)
  ultimately show ?case
    using Cons.IH[of "AList.update k' v d1"] Cons.IH[of d1] by (auto simp: p split: option.splits)
qed

definition no_conflict :: "('x \<Rightarrow> 'x \<Rightarrow> bool) \<Rightarrow> (str, 'x) dict \<Rightarrow> (str, 'x) dict \<Rightarrow> bool" where
  "no_conflict chk d1 d2 \<longleftrightarrow> (\<forall>k v w. map_of d2 k = Some v \<longrightarrow> map_of d1 k = Some w \<longrightarrow> chk w v)"

lemma no_conflict_set:
  "dict_ok d2 \<Longrightarrow> (\<forall>(k, v) \<in> set d2. \<forall>w. map_of d1 k = Some w \<longrightarrow> chk w v) \<longleftrightarrow> no_conflict chk d1 d2"
  by (auto simp: no_conflict_def dict_ok_def)

lemma dp_union_main:
  assumes "dp_batch a = Some ta" and "dp_batch b = Some tb" and "dp_ok a" and "dp_ok b"
  shows "(\<exists>u. dp_union eq a b = Inr u) \<longleftrightarrow>
      td_size ta = td_size tb \<and> no_conflict (=) (td_items ta) (td_items tb) \<and>
      no_conflict eq (dp_non_tensor a) (dp_non_tensor b) \<and>
      no_conflict (\<lambda>w v. py_eq v w) (dp_meta a) (dp_meta b)" (is "?A \<longleftrightarrow> ?B")
    and "dp_union eq a b = Inr u \<Longrightarrow>
      \<exists>tu. dp_batch u = Some tu \<and> td_size tu = td_size ta \<and>
        (\<forall>k. map_of (td_items tu) k = (case map_of (td_items ta) k of None \<Rightarrow> map_of (td_items tb) k | Some v \<Rightarrow> Some v)) \<and>
        (\<forall>k. map_of (dp_non_tensor u) k =
           (case map_of (dp_non_tensor b) k of None \<Rightarrow> map_of (dp_non_tensor a) k | Some v \<Rightarrow> Some v)) \<and>
        (\<forall>k. map_of (dp_meta u) k = (case map_of (dp_meta b) k of None \<Rightarrow> map_of (dp_meta a) k | Some v \<Rightarrow> Some v))"
proof -
  have ok: "dict_ok (td_items tb)" "dict_ok (dp_non_tensor b)" "dict_ok (dp_meta b)"
    using assms by (auto simp: dp_ok_def meta_ok_def)
  have t: "union_tensor_dict ta tb = Inr t \<longleftrightarrow> td_size ta = td_size tb \<and> no_conflict (=) (td_items ta) (td_items tb) \<and>
     t = ta\<lparr> td_items := foldl (\<lambda>d (k, v). if map_of d k = None then AList.update k v d else d) (td_items ta) (td_items tb) \<rparr>" for t
    unfolding union_tensor_dict_def asserting_Inr_iff union_tensor_fold[OF ok(1)] no_conflict_set[OF ok(1)] by blast
  have n: "union_numpy_dict eq (dp_non_tensor a) (dp_non_tensor b) = Inr nt \<longleftrightarrow>
     no_conflict eq (dp_non_tensor a) (dp_non_tensor b) \<and>
     nt = foldl (\<lambda>d (k, v). AList.update k v d) (dp_non_tensor a) (dp_non_tensor b)" for nt
    unfolding union_numpy_dict_def union_fold[OF ok(2)] no_conflict_set[OF ok(2)] by blast
  have m: "union_two_dict (dp_meta a) (dp_meta b) = Inr mt \<longleftrightarrow>
     no_conflict (\<lambda>w v. py_eq v w) (dp_meta a) (dp_meta b) \<and>
     mt = foldl (\<lambda>d (k, v). AList.update k v d) (dp_meta a) (dp_meta b)" for mt
    unfolding union_two_dict_def union_fold[OF ok(3), where chk = "\<lambda>w v. py_eq v w"]
      no_conflict_set[OF ok(3), where chk = "\<lambda>w v. py_eq v w"] by blast
  show "?A \<longleftrightarrow> ?B" unfolding dp_union_def assms(1,2) by (auto simp: bind_res_Inr_iff t n m)
  show "dp_union eq a b = Inr u \<Longrightarrow>
      \<exists>tu. dp_batch u = Some tu \<and> td_size tu = td_size ta \<and>
        (\<forall>k. map_of (td_items tu) k = (case map_of (td_items ta) k of None \<Rightarrow> map_of (td_items tb) k | Some v \<Rightarrow> Some v)) \<and>
        (\<forall>k. map_of (dp_non_tensor u) k =
           (case map_of (dp_non_tensor b) k of None \<Rightarrow> map_of (dp_non_tensor a) k | Some v \<Rightarrow> Some v)) \<and>
        (\<forall>k. map_of (dp_meta u) k = (case map_of (dp_meta b) k of None \<Rightarrow> map_of (dp_meta a) k | Some v \<Rightarrow> Some v))"
    unfolding dp_union_def assms(1,2)
    by (auto simp: bind_res_Inr_iff t n m map_of_foldl_add[OF ok(1)] map_of_foldl_update[OF ok(2)]
        map_of_foldl_update[OF ok(3)])
qed

section \<open>Repetition, row by row\<close>

lemma nth_repeat_interleave: "i < length xs * r \<Longrightarrow> repeat_interleave r xs ! i = xs ! (i div r)"
proof (induction xs arbitrary: i)
  case (Cons x xs)
  show ?case
  proof (cases "i < r")
    case False
    then have "0 < r \<and> i div r = Suc ((i - r) div r)"
      using Cons.prems by (cases r) (simp_all add: le_div_geq)
    with False Cons show ?thesis by (simp add: repeat_interleave_def nth_append)
  qed (simp add: repeat_interleave_def nth_append)
qed simp

lemma nth_tile: "i < length xs * r \<Longrightarrow> tile r xs ! i = xs ! (i mod length xs)"
proof (induction r arbitrary: i)
  case (Suc r)
  show ?case
  proof (cases "i < length xs")
    case False
    then have "(i - length xs) mod length xs = i mod length xs" by (simp add: le_mod_geq)
    with False Suc show ?thesis by (simp add: tile_def nth_append)
  qed (simp add: tile_def nth_append)
qed simp

lemma index_column_view:
  fixes c :: "(str, 'x list) dict"
  assumes "columns_have n c" and "i < length is" and "is ! i < n"
  shows "index_column (int i) (map_columns (rows is) c) = index_column (int (is ! i)) c"
proof -
  have "py_index (rows is v) (int i) = py_index v (int (is ! i))" if "length v = n" for v :: "'x list"
    using assms(2,3) that by (simp add: py_index_def rows_def)
  with assms(1) show ?thesis
    by (induction c) (auto simp: index_column_def columns_have_def)
qed

lemma dp_item_view:
  assumes "dp_ok d" and "set is \<subseteq> {..<dp_len d}" and "i < length is"
  shows "dp_item (row_view d is) (int i) = dp_item d (int (is ! i))"
proof -
  have i: "is ! i < dp_len d" using assms(2,3) nth_mem by blast
  note nt = index_column_view[OF dp_ok_columns(1)[OF assms(1)] assms(3) i]
  show ?thesis
  proof (cases "dp_batch d")
    case None
    with nt show ?thesis by (simp add: dp_item_def)
  next
    case (Some td)
    with nt index_column_view[OF dp_ok_columns(2)[OF assms(1) Some] assms(3) i]
    show ?thesis by (simp add: dp_item_def)
  qed
qed

lemma length_repeat_rows: "length (repeat_rows n r il) = n * r"
  by (simp add: repeat_rows_def)

lemma nth_repeat_rows:
  "i < n * r \<Longrightarrow> repeat_rows n r il ! i = (if il then i div r else i mod n)"
proof -
  assume i: "i < n * r"
  then have "i div r < n" by (simp add: less_mult_imp_div_less)
  moreover have "i mod n < n" using i by (cases n) simp_all
  ultimately show ?thesis
    using i nth_repeat_interleave[of i "[0..<n]" r] nth_tile[of i "[0..<n]" r] by (simp add: repeat_rows_def)
qed

lemma repeat_rows_subset: "set (repeat_rows n r il) \<subseteq> {..<n}"
proof
  fix x assume "x \<in> set (repeat_rows n r il)"
  then obtain i where i: "i < n * r" "x = repeat_rows n r il ! i"
    by (metis in_set_conv_nth length_repeat_rows)
  then have "x = (if il then i div r else i mod n)" using nth_repeat_rows by blast
  moreover have "i div r < n" "i mod n < n" using i(1) by (simp_all add: less_mult_imp_div_less) (cases n; simp)
  ultimately show "x \<in> {..<n}" by simp
qed

lemma map2_replicate_const: "map2 replicate (replicate (length xs) r) xs = map (replicate r) xs"
  by (induction xs) simp_all

lemma dp_repeat_main:
  assumes "dp_ok d"
  shows "\<exists>e. dp_repeat d r il = Inr e \<and> dp_ok e \<and> dp_len e = dp_len d * r \<and>
    (\<forall>i < dp_len e. dp_item e (int i) = dp_item d (int (if il then i div r else i mod dp_len d)))"
    and "sample_level_repeat d (replicate (dp_len d) r) = dp_repeat d r True"
proof -
  let ?is = "repeat_rows (dp_len d) r il"
  have len: "dp_len (row_view d ?is) = dp_len d * r"
    using dp_len_row_view[OF repeat_rows_subset, of d r il] by (simp add: length_repeat_rows)
  have item: "dp_item (row_view d ?is) (int i) = dp_item d (int (if il then i div r else i mod dp_len d))"
    if "i < dp_len d * r" for i
    using dp_item_view[OF assms repeat_rows_subset, of i r il] that nth_repeat_rows[OF that, of il]
    by (simp add: length_repeat_rows)
  show "\<exists>e. dp_repeat d r il = Inr e \<and> dp_ok e \<and> dp_len e = dp_len d * r \<and>
    (\<forall>i < dp_len e. dp_item e (int i) = dp_item d (int (if il then i div r else i mod dp_len d)))"
    using dp_repeat_view[OF assms, of r il] dp_ok_row_view[OF assms repeat_rows_subset, of r il] len item
    by metis
  show "sample_level_repeat d (replicate (dp_len d) r) = dp_repeat d r True"
    using sample_level_repeat_view[OF assms, of "replicate (dp_len d) r"] dp_repeat_view[OF assms, of r True]
      map2_replicate_const[of "[0..<dp_len d]" r]
    by (simp add: repeat_rows_def repeat_interleave_def)
qed

section \<open>Chunking with padding enabled\<close>

lemma length_td_chunk [simp]: "length (td_chunk cs td k) = length (cs (td_size td) k)"
  by (simp add: td_chunk_def Let_def)

lemma map_res_fails: "x \<in> set xs \<Longrightarrow> f x = Inl e \<Longrightarrow> \<exists>e'. map_res f xs = Inl e'"
proof (induction xs)
  case (Cons y ys)
  show ?case
  proof (cases "f y")
    case (Inr z)
    then have "x \<in> set ys" using Cons.prems by auto
    with Cons.IH Cons.prems(2) show ?thesis using Inr by auto
  qed simp
qed simp

lemma dp_chunk_fewer_pieces:
  assumes "dp_batch d = Some td" and "length (cs (td_size td) k) < k"
  shows "\<exists>e. dp_chunk cs ss g d k = Inl e"
proof -
  let ?lst = "map Some (td_chunk cs td k)"
  have last: "bind_res (py_index ?lst (int (k - 1))) f = Inl IndexError" for f :: "'a tensordict option \<Rightarrow> ('a, 'b) data_proto result"
    using assms(2) by (simp add: py_index_def)
  have "k - 1 \<in> set [0..<k]" using assms(2) by simp
  then have "\<exists>e. map_res (\<lambda>i. bind_res (py_index ?lst (int i)) (f i)) [0..<k] = Inl e"
    for f :: "nat \<Rightarrow> 'a tensordict option \<Rightarrow> ('a, 'b) data_proto result"
    by (rule map_res_fails) (rule last)
  then show ?thesis using assms(1)
    unfolding dp_chunk_def Let_def asserting_def bind_res_def by (auto split: sum.split)
qed

section \<open>Properties\<close>

text \<open>
  Padding a well-formed batch to a multiple of \<open>s > 0\<close> succeeds, adds fewer than \<open>s\<close> rows,
  gives a well-formed batch whose length is divisible, and unpadding with the returned size
  gives back the very same batch (when its meta data has no \<open>metrics\<close>, which concatenation
  rewrites).
\<close>

theorem pad_unpad_roundtrip:
  assumes "dp_ok d" and "metrics_key \<notin> fst ` set (dp_meta d)" and "0 < s"
  shows "\<exists>p pad. pad_dataproto_to_divisor d s = Inr (p, pad) \<and> dp_ok p \<and> pad < s \<and>
    dp_len p = dp_len d + pad \<and> dp_len p mod s = 0 \<and> unpad_dataproto p pad = Inr d"
  using pad_unpad_main[OF assms] .

definition example_proto :: "(int, int) data_proto" where
  "example_proto =
     \<lparr> dp_batch = Some \<lparr> td_size = 3, td_items = [(''ids'', [10, 20, 30])] \<rparr>,
       dp_non_tensor = [(''uid'', [1, 2, 3])], dp_meta = [(''step'', PInt 7)] \<rparr>"

theorem pad_unpad_roundtrip_witness:
  "\<exists>p pad. pad_dataproto_to_divisor example_proto 8 = Inr (p, pad) \<and> dp_ok p \<and> pad < 8 \<and>
    dp_len p = dp_len example_proto + pad \<and> dp_len p mod 8 = 0 \<and> unpad_dataproto p pad = Inr example_proto"
  by (rule pad_unpad_roundtrip)
     (simp_all add: example_proto_def dp_ok_def dp_len_def columns_have_def dict_ok_def meta_ok_def metrics_key_def)

text \<open>
  With padding not needed (the number of chunks divides the batch), \<open>chunk\<close> returns that
  many well-formed batches of equal size, and concatenating them gives back the batch.
\<close>

theorem chunk_concat_roundtrip:
  assumes "dp_ok d" and "metrics_key \<notin> fst ` set (dp_meta d)" and "0 < k" and "dp_len d mod k = 0"
    and "equal_chunks cs" and "equal_chunks ss"
  shows "\<exists>parts. dp_chunk cs ss g d k = Inr parts \<and> length parts = k \<and>
    (\<forall>p \<in> set parts. dp_ok p \<and> dp_len p = dp_len d div k) \<and> dp_concat parts = Inr d"
  using chunk_concat_main[OF assms] .

theorem chunk_concat_roundtrip_witness:
  "\<exists>parts. dp_chunk (\<lambda>n k. replicate k (n div k)) (\<lambda>n k. replicate k (n div k)) False example_proto 3 = Inr parts \<and>
    length parts = 3 \<and>
    (\<forall>p \<in> set parts. dp_ok p \<and> dp_len p = dp_len example_proto div 3) \<and> dp_concat parts = Inr example_proto"
  by (rule chunk_concat_roundtrip)
     (simp_all add: example_proto_def dp_ok_def dp_len_def columns_have_def dict_ok_def meta_ok_def metrics_key_def
        equal_chunks_def)

text \<open>
  \<open>split\<close> of a non-empty batch returns well-formed batches of at least one and at most
  \<open>split_size\<close> rows, whose concatenation is the batch.
\<close>

theorem split_concat_roundtrip:
  assumes "dp_ok d" and "metrics_key \<notin> fst ` set (dp_meta d)" and "0 < s" and "0 < dp_len d"
  shows "\<exists>parts. dp_split d s = Inr parts \<and> (\<forall>p \<in> set parts. dp_ok p \<and> 0 < dp_len p \<and> dp_len p \<le> s) \<and>
    dp_concat parts = Inr d"
  using split_concat_main[OF assms] .

theorem split_concat_roundtrip_witness:
  "\<exists>parts. dp_split example_proto 2 = Inr parts \<and>
    (\<forall>p \<in> set parts. dp_ok p \<and> 0 < dp_len p \<and> dp_len p \<le> 2) \<and> dp_concat parts = Inr example_proto"
  by (rule split_concat_roundtrip)
     (simp_all add: example_proto_def dp_ok_def dp_len_def columns_have_def dict_ok_def meta_ok_def metrics_key_def)

text \<open>
  \<open>repeat\<close> succeeds on a well-formed batch and multiplies its rows: item \<open>i\<close> of the result is
  item \<open>i div r\<close> of the batch when interleaved and item \<open>i mod n\<close> when stacked; repeating
  every sample \<open>r\<close> times with \<open>sample_level_repeat\<close> is the interleaved repetition.
\<close>

theorem repeat_rows_correct:
  assumes "dp_ok d"
  shows "(\<exists>e. dp_repeat d r interleave = Inr e \<and> dp_ok e \<and> dp_len e = dp_len d * r \<and>
      (\<forall>i < dp_len e. dp_item e (int i) = dp_item d (int (if interleave then i div r else i mod dp_len d)))) \<and>
    sample_level_repeat d (replicate (dp_len d) r) = dp_repeat d r True"
  using dp_repeat_main[OF assms] by blast

theorem repeat_rows_correct_witness:
  "(\<exists>e. dp_repeat example_proto 2 False = Inr e \<and> dp_ok e \<and> dp_len e = dp_len example_proto * 2 \<and>
      (\<forall>i < dp_len e. dp_item e (int i) =
         dp_item example_proto (int (if False then i div 2 else i mod dp_len example_proto)))) \<and>
    sample_level_repeat example_proto (replicate (dp_len example_proto) 2) = dp_repeat example_proto 2 True"
  by (rule repeat_rows_correct)
     (simp add: example_proto_def dp_ok_def dp_len_def columns_have_def dict_ok_def meta_ok_def)

text \<open>
  \<open>union\<close> of two well-formed batches with tensors raises no error exactly when the batch
  sizes agree and every key they share has equal tensors, equal arrays or equal meta data; the
  result looks up both batches, the first one's tensors and the second one's other values first.
\<close>

theorem union_correct:
  assumes "dp_batch a = Some ta" and "dp_batch b = Some tb" and "dp_ok a" and "dp_ok b"
  shows "((\<exists>u. dp_union eq a b = Inr u) \<longleftrightarrow>
      td_size ta = td_size tb \<and> no_conflict (=) (td_items ta) (td_items tb) \<and>
      no_conflict eq (dp_non_tensor a) (dp_non_tensor b) \<and>
      no_conflict (\<lambda>w v. py_eq v w) (dp_meta a) (dp_meta b)) \<and>
    (dp_union eq a b = Inr u \<longrightarrow>
      (\<exists>tu. dp_batch u = Some tu \<and> td_size tu = td_size ta \<and>
        (\<forall>k. map_of (td_items tu) k = (case map_of (td_items ta) k of None \<Rightarrow> map_of (td_items tb) k | Some v \<Rightarrow> Some v)) \<and>
        (\<forall>k. map_of (dp_non_tensor u) k =
           (case map_of (dp_non_tensor b) k of None \<Rightarrow> map_of (dp_non_tensor a) k | Some v \<Rightarrow> Some v)) \<and>
        (\<forall>k. map_of (dp_meta u) k = (case map_of (dp_meta b) k of None \<Rightarrow> map_of (dp_meta a) k | Some v \<Rightarrow> Some v))))"
  using dp_union_main[OF assms] by blast

definition example_other :: "(int, int) data_proto" where
  "example_other =
     \<lparr> dp_batch = Some \<lparr> td_size = 3, td_items = [(''mask'', [1, 1, 0]), (''ids'', [10, 20, 30])] \<rparr>,
       dp_non_tensor = [(''data_source'', [4, 5, 6])], dp_meta = [(''step'', PInt 7)] \<rparr>"

theorem union_correct_witness:
  "\<exists>u tu. dp_union (=) example_proto example_other = Inr u \<and> dp_batch u = Some tu \<and>
    map_of (td_items tu) ''mask'' = Some [1, 1, 0] \<and> map_of (dp_non_tensor u) ''uid'' = Some [1, 2, 3]"
proof -
  have ok: "dp_ok example_proto" "dp_ok example_other"
    by (simp_all add: example_proto_def example_other_def dp_ok_def dp_len_def columns_have_def dict_ok_def meta_ok_def)
  have b: "dp_batch example_proto = Some \<lparr> td_size = 3, td_items = [(''ids'', [10, 20, 30])] \<rparr>"
    "dp_batch example_other = Some \<lparr> td_size = 3, td_items = [(''mask'', [1, 1, 0]), (''ids'', [10, 20, 30])] \<rparr>"
    by (simp_all add: example_proto_def example_other_def)
  note u = union_correct[OF b ok, of "(=)"]
  have "\<exists>u. dp_union (=) example_proto example_other = Inr u"
    using u[THEN conjunct1] by (simp add: no_conflict_def example_proto_def example_other_def)
  then obtain v where v: "dp_union (=) example_proto example_other = Inr v" ..
  from u[of v, THEN conjunct2, THEN mp, OF v] v show ?thesis
    by (auto simp: example_proto_def example_other_def intro!: exI[of _ v])
qed

text \<open>
  Padding is not neutral for \<open>metrics\<close>: the concatenation inside
  \<open>pad_dataproto_to_divisor\<close> turns a dictionary of metrics into one of lists and counts it once
  per padding part, and unpadding does not undo it.
\<close>

theorem pad_unpad_rewrites_metrics:
  "let d = \<lparr> dp_batch = Some \<lparr> td_size = 3, td_items = [(''ids'', [10, 20, 30 :: int])] \<rparr>,
            dp_non_tensor = [] :: (str, int list) dict,
            dp_meta = [(metrics_key, PDict [(''loss'', PInt 5)])] \<rparr>
   in (case pad_dataproto_to_divisor d 4 of
         Inr (p, pad) \<Rightarrow> pad = 1 \<and>
           (case unpad_dataproto p pad of
              Inr u \<Rightarrow> dp_batch u = dp_batch d \<and>
                dp_meta u = [(metrics_key, PDict [(''loss'', PList [PInt 5, PInt 5])])]
            | Inl e \<Rightarrow> False)
       | Inl e \<Rightarrow> False)"
  by code_simp

text \<open>
  When the tensor library returns fewer pieces than asked for (as torch documents for
  sizes like 5 rows in 4 chunks), \<open>chunk\<close> raises an error, also with padding enabled, which
  skips the divisibility assertion.
\<close>

theorem chunk_fails_on_fewer_pieces:
  assumes "dp_batch d = Some td" and "length (cs (td_size td) k) < k"
  shows "\<exists>e. dp_chunk cs ss g d k = Inl e"
  using assms by (rule dp_chunk_fewer_pieces)

theorem chunk_fails_on_fewer_pieces_witness:
  "\<exists>e. dp_chunk (\<lambda>n k. [2, 1]) (\<lambda>n k. [1, 1, 1]) True example_proto 3 = Inl e"
  by (rule chunk_fails_on_fewer_pieces) (simp_all add: example_proto_def)

end
