(* ===== verification/Dispatch.thy ===== *)
theory Dispatch
  imports DataProto
begin

text \<open>
  \<open>verl/single_controller/base/decorator.py\<close>, the futures of \<open>verl/protocol.py\<close> and the call
  path \<open>func_generator\<close>/\<open>execute_all\<close> of \<open>verl/single_controller/ray/base.py\<close>: how the
  controller splits its arguments over the workers, pads them, collects the outputs and trims
  the padding again.  A remote reference is modelled by the value it resolves to, a worker
  by the function it computes.
\<close>

section \<open>Futures and chunkable arguments\<close>

record chunk_env =
  env_chunk_sizes :: "nat \<Rightarrow> nat \<Rightarrow> nat list"
  env_split_sizes :: "nat \<Rightarrow> nat \<Rightarrow> nat list"
  env_padding :: bool

definition chunk_in :: "chunk_env \<Rightarrow> ('v, 'o) data_proto \<Rightarrow> nat \<Rightarrow> ('v, 'o) data_proto list result" where
  "chunk_in env d chunks = dp_chunk (env_chunk_sizes env) (env_split_sizes env) (env_padding env) d chunks"

text \<open>\<open>fut_dispatch = Some (i, chunks)\<close> is the partial application that picks chunk \<open>i\<close>.\<close>

record ('v, 'o) proto_future =
  futures :: "('v, 'o) data_proto list"
  fut_dispatch :: "(nat \<times> nat) option"

definition future_concat :: "('v, 'o) data_proto list \<Rightarrow> ('v, 'o) proto_future" where
  "future_concat data = \<lparr> futures = data, fut_dispatch = None \<rparr>"

definition future_chunk :: "('v, 'o) proto_future \<Rightarrow> nat \<Rightarrow> ('v, 'o) proto_future list" where
  "future_chunk fut chunks =
     map (\<lambda>i. \<lparr> futures = futures fut, fut_dispatch = Some (i, chunks) \<rparr>) [0..<chunks]"

definition future_get :: "chunk_env \<Rightarrow> ('v, 'o) proto_future \<Rightarrow> ('v, 'o) data_proto result" where
  "future_get env fut =
     bind_res (dp_concat (futures fut)) (\<lambda>output.
     case fut_dispatch fut of
       None \<Rightarrow> Inr output
     | Some (i, chunks) \<Rightarrow> bind_res (chunk_in env output chunks) (\<lambda>cs. py_index cs (int i)))"

datatype ('v, 'o) arg =
    Proto "('v, 'o) data_proto"
  | Future "('v, 'o) proto_future"
  | OtherArg

definition is_chunkable :: "('v, 'o) arg \<Rightarrow> bool" where
  "is_chunkable a = (a \<noteq> OtherArg)"

definition arg_chunk :: "chunk_env \<Rightarrow> ('v, 'o) arg \<Rightarrow> nat \<Rightarrow> ('v, 'o) arg list result" where
  "arg_chunk env a chunks =
     (case a of
        Proto d \<Rightarrow> bind_res (chunk_in env d chunks) (\<lambda>cs. Inr (map Proto cs))
      | Future f \<Rightarrow> Inr (map Future (future_chunk f chunks))
      | OtherArg \<Rightarrow> Inl AttributeError)"

definition materialize_futures ::
  "chunk_env \<Rightarrow> ('v, 'o) arg list \<Rightarrow> ('v, 'o) arg list result" where
  "materialize_futures env =
     map_res (\<lambda>a. case a of Future f \<Rightarrow> bind_res (future_get env f) (\<lambda>d. Inr (Proto d)) | _ \<Rightarrow> Inr a)"

section \<open>Splitting the arguments\<close>

definition split_one :: "chunk_env \<Rightarrow> nat \<Rightarrow> ('v, 'o) arg \<Rightarrow> ('v, 'o) arg list result" where
  "split_one env chunks a =
     asserting (is_chunkable a)
       (bind_res (arg_chunk env a chunks) (\<lambda>cs. asserting (length cs = chunks) (Inr cs)))"

definition split_args_kwargs_data_proto ::
  "chunk_env \<Rightarrow> nat \<Rightarrow> ('v, 'o) arg list \<Rightarrow> (str, ('v, 'o) arg) dict \<Rightarrow>
   (('v, 'o) arg list list \<times> (str, ('v, 'o) arg list) dict) result" where
  "split_args_kwargs_data_proto env chunks args kwargs =
     bind_res (map_res (split_one env chunks) args) (\<lambda>splitted_args.
     bind_res (map_res (\<lambda>(key, val). bind_res (split_one env chunks val) (\<lambda>cs. Inr (key, cs))) kwargs)
       (\<lambda>splitted_kwargs. Inr (splitted_args, splitted_kwargs)))"

text \<open>
  Splitting with padding: the state is the common length and the padding size once the first
  padded argument fixed them, and a padded argument is changed in place, so its new value is
  returned beside its chunks.
\<close>

definition padding_and_split ::
  "chunk_env \<Rightarrow> nat \<Rightarrow> (nat \<times> nat) option \<Rightarrow> ('v, 'o) arg \<Rightarrow>
   ((nat \<times> nat) option \<times> ('v, 'o) arg \<times> ('v, 'o) arg list) result" where
  "padding_and_split env chunks st obj =
     (case obj of
        Proto d \<Rightarrow>
          if is_padding_enabled (env_padding env) d then
            bind_res (case st of
                None \<Rightarrow> if chunks = 0 then Inl ZeroDivisionError
                        else Inr (dp_len d, if dp_len d mod chunks > 0 then chunks - dp_len d mod chunks else 0)
              | Some (data_proto_len, padding_size) \<Rightarrow>
                  asserting (data_proto_len = dp_len d) (Inr (data_proto_len, padding_size))) (\<lambda>(n, p).
            bind_res (dp_padding d p '''') (\<lambda>d'.
            bind_res (arg_chunk env (Proto d') chunks) (\<lambda>cs.
            Inr (Some (n, p), Proto d', cs))))
          else bind_res (arg_chunk env obj chunks) (\<lambda>cs. Inr (st, obj, cs))
      | Future f \<Rightarrow> bind_res (arg_chunk env obj chunks) (\<lambda>cs. Inr (st, obj, cs))
      | OtherArg \<Rightarrow> Inl AssertionError)"

record ('v, 'o) dispatched =
  caller_args :: "('v, 'o) arg list"
  caller_kwargs :: "(str, ('v, 'o) arg) dict"
  split_args :: "('v, 'o) arg list list"
  split_kwargs :: "(str, ('v, 'o) arg list) dict"
  padding_count :: nat

definition split_with_auto_padding ::
  "chunk_env \<Rightarrow> nat \<Rightarrow> ('v, 'o) arg list \<Rightarrow> (str, ('v, 'o) arg) dict \<Rightarrow> ('v, 'o) dispatched result" where
  "split_with_auto_padding env chunks args kwargs =
     bind_res (fold_res (\<lambda>(st, out) a.
         bind_res (padding_and_split env chunks st a) (\<lambda>(st', a', cs). Inr (st', out @ [(a', cs)])))
       (None, []) args) (\<lambda>(st, out_args).
     bind_res (fold_res (\<lambda>(st, out) (key, a).
         bind_res (padding_and_split env chunks st a) (\<lambda>(st', a', cs). Inr (st', out @ [(key, a', cs)])))
       (st, []) kwargs) (\<lambda>(st', out_kwargs).
     Inr \<lparr> caller_args = map fst out_args, caller_kwargs = map (\<lambda>(k, a, cs). (k, a)) out_kwargs,
           split_args = map snd out_args, split_kwargs = map (\<lambda>(k, a, cs). (k, cs)) out_kwargs,
           padding_count = (case st' of None \<Rightarrow> 0 | Some (n, p) \<Rightarrow> p) \<rparr>))"

section \<open>Dispatch and collect functions\<close>

definition dispatch_one_to_all ::
  "nat \<Rightarrow> 'a list \<Rightarrow> (str, 'a) dict \<Rightarrow> 'a list list \<times> (str, 'a list) dict" where
  "dispatch_one_to_all world_size args kwargs =
     (map (replicate world_size) args, map (\<lambda>(k, v). (k, replicate world_size v)) kwargs)"

definition dummy_direct_rollout_call :: "'a result" where
  "dummy_direct_rollout_call = Inl NotImplementedError"

definition dispatch_all_to_all :: "'a \<Rightarrow> 'b \<Rightarrow> 'a \<times> 'b" where
  "dispatch_all_to_all args kwargs = (args, kwargs)"

definition collect_all_to_all :: "'a \<Rightarrow> 'a" where
  "collect_all_to_all output = output"

definition dispatch_dp_compute ::
  "nat \<Rightarrow> 'a list list \<Rightarrow> (str, 'a list) dict \<Rightarrow> ('a list list \<times> (str, 'a list) dict) result" where
  "dispatch_dp_compute world_size args kwargs =
     asserting (list_all (\<lambda>arg. length arg = world_size) args)
       (asserting (list_all (\<lambda>(k, v). length v = world_size) kwargs) (Inr (args, kwargs)))"

definition collect_dp_compute :: "nat \<Rightarrow> 'a list \<Rightarrow> 'a list result" where
  "collect_dp_compute world_size output = asserting (length output = world_size) (Inr output)"

text \<open>The outputs of the workers: values, or references when the call does not block.\<close>

datatype ('v, 'o) worker_output = Value "('v, 'o) data_proto" | Ref "('v, 'o) data_proto" | OtherOutput

fun is_value :: "('v, 'o) worker_output \<Rightarrow> bool" where
  "is_value (Value d) = True" | "is_value _ = False"

fun payload :: "('v, 'o) worker_output \<Rightarrow> ('v, 'o) data_proto result" where
  "payload (Value d) = Inr d" | "payload (Ref d) = Inr d" | "payload OtherOutput = Inl AttributeError"

definition is_concatable :: "('v, 'o) worker_output list \<Rightarrow> bool" where
  "is_concatable data = (case data of [] \<Rightarrow> False | x # _ \<Rightarrow> x \<noteq> OtherOutput)"

fun same_type :: "('v, 'o) worker_output \<Rightarrow> ('v, 'o) worker_output \<Rightarrow> bool" where
  "same_type (Value a) (Value b) = True"
| "same_type (Ref a) (Ref b) = True"
| "same_type OtherOutput OtherOutput = True"
| "same_type _ _ = False"

definition concat_data_proto_or_future :: "('v, 'o) worker_output list \<Rightarrow> ('v, 'o) arg result" where
  "concat_data_proto_or_future output =
     asserting (list_all (\<lambda>x. same_type x (hd output)) output)
       (if output = [] then Inl ValueError
        else bind_res (map_res payload output) (\<lambda>data.
          if is_value (hd output) then bind_res (dp_concat data) (\<lambda>d. Inr (Proto d))
          else Inr (Future (future_concat data))))"

definition collect_dp_compute_data_proto :: "nat \<Rightarrow> ('v, 'o) worker_output list \<Rightarrow> ('v, 'o) arg result" where
  "collect_dp_compute_data_proto world_size output =
     asserting (is_concatable output)
       (bind_res (collect_dp_compute world_size output) concat_data_proto_or_future)"

definition dispatch_dp_compute_data_proto ::
  "chunk_env \<Rightarrow> nat \<Rightarrow> ('v, 'o) arg list \<Rightarrow> (str, ('v, 'o) arg) dict \<Rightarrow> ('v, 'o) dispatched result" where
  "dispatch_dp_compute_data_proto env world_size args kwargs =
     split_with_auto_padding env world_size args kwargs"

definition dispatch_dp_compute_data_proto_with_func ::
  "chunk_env \<Rightarrow> nat \<Rightarrow> 'f \<Rightarrow> ('v, 'o) arg list \<Rightarrow> (str, ('v, 'o) arg) dict \<Rightarrow>
   ('f list \<times> ('v, 'o) arg list list \<times> (str, ('v, 'o) arg list) dict) result" where
  "dispatch_dp_compute_data_proto_with_func env world_size func args kwargs =
     bind_res (split_args_kwargs_data_proto env world_size args kwargs) (\<lambda>(splitted_args, splitted_kwargs).
     Inr (replicate world_size func, splitted_args, splitted_kwargs))"

text \<open>
  A mesh: worker \<open>i\<close> gets the chunk of its data-parallel rank.  The workers' object store
  (\<open>parallel_put\<close>) keeps the values in order and refuses an empty list.
\<close>

definition pick_ranks :: "nat list \<Rightarrow> nat \<Rightarrow> nat \<Rightarrow> 'a list \<Rightarrow> 'a list result" where
  "pick_ranks dp_rank_mapping dp_size world_size arg =
     asserting (length arg = dp_size)
       (map_res (\<lambda>i. bind_res (py_index dp_rank_mapping (int i)) (\<lambda>local_dp_rank.
          py_index arg (int local_dp_rank))) [0..<world_size])"

definition dispatch_nd_compute ::
  "nat list \<Rightarrow> nat \<Rightarrow> nat \<Rightarrow> 'a list list \<Rightarrow> (str, 'a list) dict \<Rightarrow>
   ('a list list \<times> (str, 'a list) dict) result" where
  "dispatch_nd_compute dp_rank_mapping dp_size world_size args kwargs =
     (if args = [] then Inl IndexError
      else asserting (list_all (\<lambda>a. a \<noteq> []) args \<and> list_all (\<lambda>(k, v). v \<noteq> []) kwargs)
        (bind_res (map_res (pick_ranks dp_rank_mapping dp_size world_size) args) (\<lambda>all_args.
         bind_res (map_res (\<lambda>(k, v). bind_res (pick_ranks dp_rank_mapping dp_size world_size v)
                     (\<lambda>w. Inr (k, w))) kwargs) (\<lambda>all_kwargs.
         Inr (all_args, all_kwargs)))))"

definition collect_nd_compute :: "bool list \<Rightarrow> nat \<Rightarrow> 'a list \<Rightarrow> 'a list result" where
  "collect_nd_compute collect_mask world_size output =
     asserting (length output = world_size)
       (bind_res (map_res (\<lambda>r. bind_res (py_index collect_mask (int r)) (\<lambda>b. Inr (r, b))) [0..<world_size])
         (\<lambda>flags. Inr (map (\<lambda>(r, b). output ! r) (filter snd flags))))"

definition dispatch_nd_compute_dataproto ::
  "chunk_env \<Rightarrow> nat list \<Rightarrow> nat \<Rightarrow> nat \<Rightarrow> ('v, 'o) arg list \<Rightarrow> (str, ('v, 'o) arg) dict \<Rightarrow>
   (('v, 'o) arg list list \<times> (str, ('v, 'o) arg list) dict) result" where
  "dispatch_nd_compute_dataproto env dp_rank_mapping dp_size world_size args kwargs =
     bind_res (split_args_kwargs_data_proto env dp_size args kwargs) (\<lambda>(splitted_args, splitted_kwargs).
     dispatch_nd_compute dp_rank_mapping dp_size world_size splitted_args splitted_kwargs)"

definition collect_nd_compute_dataproto ::
  "bool list \<Rightarrow> nat \<Rightarrow> ('v, 'o) worker_output list \<Rightarrow> ('v, 'o) arg result" where
  "collect_nd_compute_dataproto collect_mask world_size output =
     bind_res (collect_nd_compute collect_mask world_size output) (\<lambda>out.
     asserting (is_concatable out) (concat_data_proto_or_future out))"

text \<open>The worker group caches the rank mapping and the collect mask of a mesh on first use.\<close>

record worker_group =
  world_size :: nat
  dispatch_info :: "(str, nat list) dict"
  collect_info :: "(str, bool list) dict"

definition dispatch_lazy_compute_data_proto ::
  "chunk_env \<Rightarrow> (str \<Rightarrow> nat list) \<Rightarrow> str \<Rightarrow> worker_group \<Rightarrow>
   ('v, 'o) arg list \<Rightarrow> (str, ('v, 'o) arg) dict \<Rightarrow>
   (worker_group \<times> ('v, 'o) arg list list \<times> (str, ('v, 'o) arg list) dict) result" where
  "dispatch_lazy_compute_data_proto env query_dispatch_info mesh_name wg args kwargs =
     bind_res (case map_of (dispatch_info wg) mesh_name of
                 Some dp_rank_mapping \<Rightarrow> Inr (wg, dp_rank_mapping)
               | None \<Rightarrow>
                   asserting (length (query_dispatch_info mesh_name) = world_size wg)
                     (Inr (wg\<lparr> dispatch_info := AList.update mesh_name (query_dispatch_info mesh_name) (dispatch_info wg) \<rparr>,
                           query_dispatch_info mesh_name))) (\<lambda>(wg', dp_rank_mapping).
     if dp_rank_mapping = [] then Inl ValueError
     else bind_res (dispatch_nd_compute_dataproto env dp_rank_mapping (Max (set dp_rank_mapping) + 1)
                      (world_size wg') args kwargs) (\<lambda>(a, k). Inr (wg', a, k)))"

definition collect_lazy_compute_data_proto ::
  "(str \<Rightarrow> bool list) \<Rightarrow> str \<Rightarrow> worker_group \<Rightarrow> ('v, 'o) worker_output list \<Rightarrow>
   (worker_group \<times> ('v, 'o) arg) result" where
  "collect_lazy_compute_data_proto query_collect_info mesh_name wg output =
     asserting (map_of (dispatch_info wg) mesh_name \<noteq> None)
      (bind_res (case map_of (collect_info wg) mesh_name of
                  Some collect_mask \<Rightarrow> Inr (wg, collect_mask)
                | None \<Rightarrow>
                    asserting (length (query_collect_info mesh_name) = world_size wg)
                      (Inr (wg\<lparr> collect_info := AList.update mesh_name (query_collect_info mesh_name) (collect_info wg) \<rparr>,
                            query_collect_info mesh_name))) (\<lambda>(wg', collect_mask).
       bind_res (collect_nd_compute_dataproto collect_mask (world_size wg') output) (\<lambda>out. Inr (wg', out))))"

section \<open>The registry of dispatch modes\<close>

text \<open>
  A member of the enumeration is compared by identity, which its value determines: a value is
  never handed out twice.
\<close>

record 'fn dispatch_registry =
  dispatch_enum :: dynamic_enum
  mode_fns :: "(member, 'fn \<times> 'fn) dict"

definition register_dispatch_mode ::
  "str \<Rightarrow> 'fn \<Rightarrow> 'fn \<Rightarrow> 'fn dispatch_registry \<Rightarrow> 'fn dispatch_registry result" where
  "register_dispatch_mode dispatch_mode_name dispatch_fn collect_fn reg =
     bind_res (enum_register dispatch_mode_name (dispatch_enum reg)) (\<lambda>(dispatch_mode, cls).
     asserting (map_of (mode_fns reg) dispatch_mode = None)
       (Inr \<lparr> dispatch_enum = cls,
             mode_fns = AList.update dispatch_mode (dispatch_fn, collect_fn) (mode_fns reg) \<rparr>))"

definition update_dispatch_mode ::
  "member \<Rightarrow> 'fn \<Rightarrow> 'fn \<Rightarrow> 'fn dispatch_registry \<Rightarrow> 'fn dispatch_registry result" where
  "update_dispatch_mode dispatch_mode dispatch_fn collect_fn reg =
     asserting (map_of (mode_fns reg) dispatch_mode \<noteq> None)
       (Inr (reg\<lparr> mode_fns := AList.update dispatch_mode (dispatch_fn, collect_fn) (mode_fns reg) \<rparr>))"

definition get_predefined_dispatch_fn :: "member \<Rightarrow> 'fn dispatch_registry \<Rightarrow> ('fn \<times> 'fn) result" where
  "get_predefined_dispatch_fn dispatch_mode reg = dict_index (mode_fns reg) dispatch_mode"

definition predefined_modes :: "str list" where
  "predefined_modes =
     [''RANK_ZERO'', ''ONE_TO_ALL'', ''ALL_TO_ALL'', ''DP_COMPUTE'', ''DP_COMPUTE_PROTO'',
      ''DP_COMPUTE_PROTO_WITH_FUNC'', ''DP_COMPUTE_METRIC'', ''DIRECT_ROLLOUT_METHOD'']"

definition register_all :: "str list \<Rightarrow> dynamic_enum \<Rightarrow> dynamic_enum result" where
  "register_all names cls =
     fold_res (\<lambda>cls name. bind_res (enum_register name cls) (\<lambda>(m, cls'). Inr cls')) cls names"

definition init_predefined_dispatch_mode :: "dynamic_enum result" where
  "init_predefined_dispatch_mode = register_all predefined_modes empty_enum"

definition init_predefined_execute_mode :: "dynamic_enum result" where
  "init_predefined_execute_mode = register_all [''ALL'', ''RANK_ZERO''] empty_enum"

section \<open>A remote call\<close>

text \<open>
  \<open>execute_all\<close>: when every argument is a list with one entry per worker the entries are
  handed out, otherwise every worker gets the whole arguments.
\<close>

datatype 'a share = One 'a | Whole "'a list"

definition execute_all ::
  "nat \<Rightarrow> (nat \<Rightarrow> 'a share list \<Rightarrow> (str, 'a share) dict \<Rightarrow> 'r result) \<Rightarrow>
   'a list list \<Rightarrow> (str, 'a list) dict \<Rightarrow> 'r list result" where
  "execute_all n_workers worker args kwargs =
     (if list_all (\<lambda>a. length a = n_workers) args \<and> list_all (\<lambda>(k, v). length v = n_workers) kwargs
      then map_res (\<lambda>i. worker i (map (\<lambda>a. One (a ! i)) args) (map (\<lambda>(k, v). (k, One (v ! i))) kwargs)) [0..<n_workers]
      else map_res (\<lambda>i. worker i (map Whole args) (map (\<lambda>(k, v). (k, Whole v)) kwargs)) [0..<n_workers])"

text \<open>What a call returns: one collected value, or the list of the workers' outputs.\<close>

datatype ('v, 'o, 'r) collected = Collected "('v, 'o) arg" | Listed "'r list"

definition trim_padding :: "nat \<Rightarrow> ('v, 'o, 'r) collected \<Rightarrow> ('v, 'o, 'r) collected result" where
  "trim_padding padding_size output =
     (if padding_size > 0 then
        (case output of
           Collected (Proto d) \<Rightarrow>
             bind_res (select_idxs d (Positions (map int (py_slice [0..<dp_len d] None (Some (- int padding_size))))))
               (\<lambda>d'. Inr (Collected (Proto d')))
         | Listed rs \<Rightarrow> Inr (Listed (py_slice rs None (Some (- int padding_size))))
         | other \<Rightarrow> Inr other)
      else Inr output)"

text \<open>
  \<open>func_generator\<close> for a blocking method with padded data-parallel dispatch.  The result comes
  with the caller's arguments as the call leaves them.
\<close>

definition remote_call ::
  "chunk_env \<Rightarrow> nat \<Rightarrow>
   (nat \<Rightarrow> ('v, 'o) arg share list \<Rightarrow> (str, ('v, 'o) arg share) dict \<Rightarrow> 'r result) \<Rightarrow>
   (nat \<Rightarrow> 'r list \<Rightarrow> ('v, 'o, 'r) collected result) \<Rightarrow>
   ('v, 'o) arg list \<Rightarrow> (str, ('v, 'o) arg) dict \<Rightarrow>
   (('v, 'o) arg list \<times> ('v, 'o, 'r) collected) result" where
  "remote_call env n_workers worker collect args kwargs =
     bind_res (dispatch_dp_compute_data_proto env n_workers args kwargs) (\<lambda>dsp.
     bind_res (execute_all n_workers worker (split_args dsp) (split_kwargs dsp)) (\<lambda>output.
     bind_res (collect n_workers output) (\<lambda>out.
     bind_res (trim_padding (padding_count dsp) out) (\<lambda>final.
     Inr (caller_args dsp, final)))))"

text \<open>The two collect functions registered with this dispatch.\<close>

definition collect_proto :: "nat \<Rightarrow> ('v, 'o) data_proto list \<Rightarrow> ('v, 'o, ('v, 'o) data_proto) collected result" where
  "collect_proto n outputs =
     bind_res (collect_dp_compute_data_proto n (map Value outputs)) (\<lambda>a. Inr (Collected a))"

definition collect_metric :: "nat \<Rightarrow> 'r list \<Rightarrow> ('v, 'o, 'r) collected result" where
  "collect_metric n outputs = bind_res (collect_dp_compute n outputs) (\<lambda>rs. Inr (Listed rs))"

section \<open>Padded data-parallel calls\<close>

definition padded_is :: "nat \<Rightarrow> nat \<Rightarrow> nat list" where
  "padded_is n p = [0..<n] @ replicate p (n - 1)"

lemma padded_is_facts:
  "length (padded_is n p) = n + p" "0 < n \<or> p = 0 \<Longrightarrow> set (padded_is n p) \<subseteq> {..<n}"
  "rows [0..<n] (padded_is n p) = [0..<n]"
proof -
  show "rows [0..<n] (padded_is n p) = [0..<n]"
    by (rule nth_equalityI) (simp_all add: rows_def padded_is_def nth_append)
qed (auto simp: padded_is_def)

lemma dp_padding_view:
  assumes ok: "dp_ok d" and meta: "metrics_key \<notin> fst ` set (dp_meta d)" and n: "0 < dp_len d \<or> p = 0"
  shows "dp_padding d p '''' = Inr (row_view d (padded_is (dp_len d) p))"
proof (cases "p = 0")
  case True
  then show ?thesis using row_view_all[OF ok] by (simp add: dp_padding_def padded_is_def)
next
  case False
  let ?n = "dp_len d"
  have n0: "0 < ?n" using n False by simp
  have "pick (Positions [int ?n - 1]) [0..<?n] = Inr [?n - 1]"
    using n0 by (simp add: pick_def py_index_def nat_diff_distrib' Let_def)
  then have cand: "select_idxs d (Positions [int ?n - 1]) = Inr (row_view d [?n - 1])"
    by (rule select_idxs_view[OF ok])
  have sub: "set [?n - 1] \<subseteq> {..<?n}" using n0 by simp
  have ok1: "dp_ok (row_view d [?n - 1])" using dp_ok_row_view[OF ok sub] .
  have len1: "dp_len (row_view d [?n - 1]) = 1" using dp_len_row_view[OF sub] by simp
  have "repeat_rows 1 p True = replicate p 0" by (simp add: repeat_rows_def repeat_interleave_def)
  then have rep: "dp_repeat (row_view d [?n - 1]) p True = Inr (row_view (row_view d [?n - 1]) (replicate p 0))"
    using dp_repeat_view[OF ok1, of p True] len1 by simp
  have part: "row_view (row_view d [?n - 1]) (replicate p 0) = row_view d (replicate p (?n - 1))"
    by (subst row_view_row_view) (simp_all add: rows_def subset_eq)
  have "dp_concat [row_view d [0..<?n], row_view d (replicate p (?n - 1))] = Inr (row_view d (padded_is ?n p))"
    using dp_concat_views[OF ok _ meta, of "[[0..<?n], replicate p (?n - 1)]"] by (simp add: padded_is_def)
  then have cat: "dp_concat [d, row_view d (replicate p (?n - 1))] = Inr (row_view d (padded_is ?n p))"
    unfolding row_view_all[OF ok] .
  show ?thesis
    using False cand rep part cat unfolding dp_padding_def by (simp add: row_view_def)
qed

definition missing :: "nat \<Rightarrow> nat \<Rightarrow> nat" where
  "missing n w = (if n mod w > 0 then w - n mod w else 0)"

lemma missing_dvd: "0 < w \<Longrightarrow> (n + missing n w) mod w = 0"
proof (cases "n mod w > 0")
  case True
  assume w: "0 < w"
  have "n + (w - n mod w) = (n - n mod w) + w"
    using w mod_less_divisor[of w n] mod_less_eq_dividend[of n w] by linarith
  moreover have "(n - n mod w + w) mod w = 0" by (metis dvd_minus_mod mod_add_self2 mod_eq_0_iff_dvd)
  ultimately show ?thesis using True by (simp add: missing_def)
qed (simp add: missing_def)

lemma missing_zero: "0 < n \<or> missing n w = 0"
  by (cases n) (simp_all add: missing_def)

text \<open>A worker that treats every row by itself: on any selection of rows it returns that selection of one output.\<close>

definition rowwise :: "(('v, 'o) data_proto \<Rightarrow> ('v, 'o) data_proto result) \<Rightarrow>
   ('v, 'o) data_proto \<Rightarrow> ('v, 'o) data_proto \<Rightarrow> bool" where
  "rowwise f d out \<longleftrightarrow> dp_ok out \<and> dp_len out = dp_len d \<and> metrics_key \<notin> fst ` set (dp_meta out) \<and>
     (\<forall>is. set is \<subseteq> {..<dp_len d} \<longrightarrow> f (row_view d is) = Inr (row_view out is))"

definition chunk_rows :: "nat \<Rightarrow> nat list \<Rightarrow> nat list list" where
  "chunk_rows w is = map (\<lambda>i. rows [i * (length is div w)..<i * (length is div w) + length is div w] is) [0..<w]"

lemma concat_chunk_rows: "length is mod w = 0 \<Longrightarrow> 0 < w \<Longrightarrow> concat (chunk_rows w is) = is"
proof -
  assume "length is mod w = 0" "0 < w"
  then have len: "w * (length is div w) = length is" by auto
  have "concat (chunk_rows w is) = rows (concat (map (\<lambda>i. [i * (length is div w)..<i * (length is div w) + length is div w]) [0..<w])) is"
    by (simp add: rows_concat chunk_rows_def comp_def)
  also have "\<dots> = is" unfolding concat_chunk_ranges len by simp
  finally show ?thesis .
qed

lemma chunk_in_views:
  assumes ok: "dp_ok d" and w: "0 < w" and sub: "set is \<subseteq> {..<dp_len d}" and len: "length is mod w = 0"
    and cs: "equal_chunks (env_chunk_sizes env)" and ss: "equal_chunks (env_split_sizes env)"
  shows "chunk_in env (row_view d is) w = Inr (map (row_view d) (chunk_rows w is))"
proof -
  let ?m = "length is div w"
  have l: "dp_len (row_view d is) = w * ?m" using dp_len_row_view[OF sub] len by auto
  have "row_view (row_view d is) [i * ?m..<i * ?m + ?m] = row_view d (rows [i * ?m..<i * ?m + ?m] is)" if "i < w" for i
  proof (rule row_view_row_view)
    have "Suc i * ?m \<le> w * ?m" by (rule mult_le_mono1) (use that in simp)
    then show "set [i * ?m..<i * ?m + ?m] \<subseteq> {..<length is}" using l dp_len_row_view[OF sub] by auto
  qed
  then show ?thesis
    using dp_chunk_views[OF dp_ok_row_view[OF ok sub] w l cs ss, of "env_padding env"]
    by (simp add: chunk_in_def chunk_rows_def comp_def)
qed

lemma collect_views:
  assumes "dp_ok out" and "metrics_key \<notin> fst ` set (dp_meta out)" and "iss \<noteq> []"
  shows "concat_data_proto_or_future (map Value (map (row_view out) iss)) = Inr (Proto (row_view out (concat iss)))"
proof -
  obtain i iss' where iss: "iss = i # iss'" using assms(3) by (cases iss) auto
  have "map_res payload (map Value xs) = Inr xs" for xs :: "('a, 'b) data_proto list"
    by (induction xs) simp_all
  then show ?thesis
    using dp_concat_views[OF assms(1,3,2)]
    by (simp add: concat_data_proto_or_future_def iss list_all_iff del: map_map)
qed

lemma rows_below: "set js \<subseteq> {..<length is} \<Longrightarrow> set is \<subseteq> A \<Longrightarrow> set (rows js is) \<subseteq> A"
  by (auto simp: rows_def subset_eq)

lemma chunk_rows_below:
  assumes "0 < w" and "length is mod w = 0" and "set is \<subseteq> A" and "js \<in> set (chunk_rows w is)"
  shows "set js \<subseteq> A"
proof -
  have "concat (chunk_rows w is) = is" by (rule concat_chunk_rows[OF assms(2,1)])
  then have "set is = (\<Union>x \<in> set (chunk_rows w is). set x)" by (metis set_concat)
  with assms(3,4) show ?thesis by blast
qed

lemma worker_outputs:
  assumes "rowwise f d out" and "\<And>js. js \<in> set iss \<Longrightarrow> set js \<subseteq> {..<dp_len d}"
  shows "map_res (\<lambda>i. f (map (row_view d) iss ! i)) [0..<length iss] = Inr (map (row_view out) iss)"
proof -
  have "map_res (\<lambda>i. f (map (row_view d) iss ! i)) [0..<length iss] =
      Inr (map (\<lambda>i. row_view out (iss ! i)) [0..<length iss])"
    by (rule map_res_all_ok) (use assms in \<open>simp add: rowwise_def\<close>)
  also have "map (\<lambda>i. row_view out (iss ! i)) [0..<length iss] = map (row_view out) iss"
    by (rule nth_equalityI) simp_all
  finally show ?thesis .
qed

lemma trim_views:
  assumes ok: "dp_ok out" and sub: "set (padded_is (dp_len out) p) \<subseteq> {..<dp_len out}"
  shows "trim_padding p (Collected (Proto (row_view out (padded_is (dp_len out) p))))
    = Inr (Collected (Proto out))"
proof (cases "p = 0")
  case True
  then show ?thesis using row_view_all[OF ok] by (simp add: trim_padding_def padded_is_def)
next
  case False
  let ?n = "dp_len out" let ?v = "row_view out (padded_is (dp_len out) p)"
  have len: "dp_len ?v = ?n + p" using dp_len_row_view[OF sub] by (simp add: padded_is_facts)
  have idx: "py_slice [0..<dp_len ?v] None (Some (- int p)) = [0..<?n]"
    using py_slice_but_last[of p "[0..<dp_len ?v]"] False len by (simp add: take_upt)
  have "pick (Positions (map int [0..<?n])) [0..<dp_len ?v] = Inr [0..<?n]"
  proof -
    have "map_res (\<lambda>i. py_index [0..<dp_len ?v] (int i)) [0..<?n] = Inr (map (\<lambda>i. i) [0..<?n])"
      by (rule map_res_all_ok) (simp add: len py_index_def)
    moreover have "map_res f (map int xs) = map_res (\<lambda>i. f (int i)) xs" for f :: "int \<Rightarrow> nat result" and xs
      by (induction xs) simp_all
    ultimately show ?thesis by (simp add: pick_def)
  qed
  then have "select_idxs ?v (Positions (map int [0..<?n])) = Inr (row_view ?v [0..<?n])"
    by (rule select_idxs_view[OF dp_ok_row_view[OF ok sub]])
  also have "row_view ?v [0..<?n] = row_view out (rows [0..<?n] (padded_is ?n p))"
    by (rule row_view_row_view) (auto simp: padded_is_facts)
  also have "\<dots> = out" using row_view_all[OF ok] by (simp add: padded_is_facts)
  finally show ?thesis using False idx by (simp add: trim_padding_def)
qed

lemma remote_call_main:
  assumes ok: "dp_ok d" and meta: "metrics_key \<notin> fst ` set (dp_meta d)" and w: "0 < w"
    and pad: "is_padding_enabled (env_padding env) d"
    and cs: "equal_chunks (env_chunk_sizes env)" and ss: "equal_chunks (env_split_sizes env)"
    and f: "rowwise f d out"
    and worker: "\<forall>i < w. \<forall>x. worker i [One (Proto x)] [] = f x"
  shows "remote_call env w worker collect_proto [Proto d] [] =
    Inr ([Proto (row_view d (padded_is (dp_len d) (missing (dp_len d) w)))], Collected (Proto out))"
proof -
  let ?n = "dp_len d" let ?p = "missing (dp_len d) w" let ?is = "padded_is (dp_len d) (missing (dp_len d) w)"
  let ?iss = "chunk_rows w ?is"
  have sub: "set ?is \<subseteq> {..<?n}" by (rule padded_is_facts(2)[OF missing_zero])
  have len: "length ?is mod w = 0" using missing_dvd[OF w] by (simp add: padded_is_facts)
  have out: "dp_ok out" "dp_len out = ?n" "metrics_key \<notin> fst ` set (dp_meta out)" using f by (auto simp: rowwise_def)
  have iss: "length ?iss = w" by (simp add: chunk_rows_def)
  have split: "padding_and_split env w None (Proto d) =
      Inr (Some (?n, ?p), Proto (row_view d ?is), map Proto (map (row_view d) ?iss))"
    using pad w dp_padding_view[OF ok meta missing_zero, of w] chunk_in_views[OF ok w sub len cs ss]
    by (simp add: padding_and_split_def arg_chunk_def missing_def)
  have disp: "dispatch_dp_compute_data_proto env w [Proto d] [] =
      Inr \<lparr> caller_args = [Proto (row_view d ?is)], caller_kwargs = [],
            split_args = [map Proto (map (row_view d) ?iss)], split_kwargs = [], padding_count = ?p \<rparr>"
    by (simp add: dispatch_dp_compute_data_proto_def split_with_auto_padding_def split)
  have below: "js \<in> set ?iss \<Longrightarrow> set js \<subseteq> {..<?n}" for js
    by (rule chunk_rows_below[OF w len sub])
  have "map_res (\<lambda>i. worker i [One (map Proto (map (row_view d) ?iss) ! i)] []) [0..<w] =
      map_res (\<lambda>i. f (map (row_view d) ?iss ! i)) [0..<w]"
  proof -
    have "map_res g xs = map_res h xs" if "\<forall>x \<in> set xs. g x = h x" for g h :: "nat \<Rightarrow> ('a, 'b) data_proto result" and xs
      using that by (induction xs) auto
    then show ?thesis using worker iss by simp
  qed
  also have "\<dots> = Inr (map (row_view out) ?iss)"
    using worker_outputs[OF f, of ?iss] below iss by simp
  finally have exec: "execute_all w worker [map Proto (map (row_view d) ?iss)] [] = Inr (map (row_view out) ?iss)"
    using iss by (simp add: execute_all_def)
  have ne: "?iss \<noteq> []" using iss w by auto
  then have "is_concatable (map Value (map (row_view out) ?iss))"
    by (cases ?iss) (simp_all add: is_concatable_def)
  then have coll: "collect_proto w (map (row_view out) ?iss) = Inr (Collected (Proto (row_view out ?is)))"
    using collect_views[OF out(1,3) ne] iss concat_chunk_rows[OF len w]
    by (simp add: collect_proto_def collect_dp_compute_data_proto_def collect_dp_compute_def)
  have "trim_padding ?p (Collected (Proto (row_view out ?is))) =
      (Inr (Collected (Proto out)) :: ('a, 'b, ('a, 'b) data_proto) collected result)"
    using trim_views[OF out(1), of ?p] sub out(2) by simp
  then show ?thesis by (simp add: remote_call_def disp exec coll del: map_map)
qed

section \<open>Meshes\<close>

text \<open>
  The collect mask selects, in worker order, one worker for every data-parallel rank.
\<close>

definition mesh_ok :: "nat list \<Rightarrow> bool list \<Rightarrow> nat \<Rightarrow> nat \<Rightarrow> bool" where
  "mesh_ok mapping msk dp_size ws \<longleftrightarrow>
     length mapping = ws \<and> length msk = ws \<and> set mapping \<subseteq> {..<dp_size} \<and>
     map (\<lambda>i. mapping ! i) (filter (\<lambda>i. msk ! i) [0..<ws]) = [0..<dp_size]"

lemma pick_ranks_ok:
  assumes "mesh_ok mapping msk dp_size ws" and "length xs = dp_size"
  shows "pick_ranks mapping dp_size ws xs = Inr (map (\<lambda>i. xs ! (mapping ! i)) [0..<ws])"
proof -
  have "map_res (\<lambda>i. bind_res (py_index mapping (int i)) (\<lambda>r. py_index xs (int r))) [0..<ws]
    = Inr (map (\<lambda>i. xs ! (mapping ! i)) [0..<ws])"
  proof (rule map_res_all_ok)
    fix i assume "i \<in> set [0..<ws]"
    then have i: "i < length mapping" using assms(1) by (simp add: mesh_ok_def)
    then have "mapping ! i < length xs" using assms nth_mem[OF i] by (force simp: mesh_ok_def)
    with i show "bind_res (py_index mapping (int i)) (\<lambda>r. py_index xs (int r)) = Inr (xs ! (mapping ! i))"
      by (simp add: py_index_nat)
  qed
  with assms(2) show ?thesis by (simp add: pick_ranks_def)
qed

lemma collect_nd_ok:
  assumes "mesh_ok mapping msk dp_size ws" and "length xs = dp_size"
  shows "collect_nd_compute msk ws (map (\<lambda>i. f (xs ! (mapping ! i))) [0..<ws]) = Inr (map f xs)"
proof -
  have msk: "length msk = ws" and sel: "map (\<lambda>i. mapping ! i) (filter (\<lambda>i. msk ! i) [0..<ws]) = [0..<dp_size]"
    using assms(1) by (simp_all add: mesh_ok_def)
  have flags: "map_res (\<lambda>r. bind_res (py_index msk (int r)) (\<lambda>b. Inr (r, b))) [0..<ws]
      = Inr (map (\<lambda>r. (r, msk ! r)) [0..<ws])"
    by (rule map_res_all_ok) (simp add: py_index_nat msk)
  have filt: "filter snd (map (\<lambda>r. (r, msk ! r)) ks) = map (\<lambda>r. (r, msk ! r)) (filter (\<lambda>i. msk ! i) ks)" for ks
    by (induction ks) simp_all
  let ?out = "map (\<lambda>i. f (xs ! (mapping ! i))) [0..<ws]"
  have "map (\<lambda>(r, b). ?out ! r) (filter snd (map (\<lambda>r. (r, msk ! r)) [0..<ws]))
      = map (\<lambda>r. ?out ! r) (filter (\<lambda>i. msk ! i) [0..<ws])"
    by (simp add: filt comp_def)
  also have "\<dots> = map (\<lambda>r. f (xs ! (mapping ! r))) (filter (\<lambda>i. msk ! i) [0..<ws])"
    by (rule map_cong) auto
  also have "\<dots> = map (\<lambda>r. f (xs ! r)) (map (\<lambda>i. mapping ! i) (filter (\<lambda>i. msk ! i) [0..<ws]))"
    by (simp add: comp_def)
  also have "\<dots> = map f xs" unfolding sel using assms(2) by (intro nth_equalityI) simp_all
  finally show ?thesis by (simp add: collect_nd_compute_def flags)
qed

lemma nd_dispatch_main:
  assumes mesh: "mesh_ok mapping msk dp ws" and dp: "0 < dp"
    and ok: "dp_ok d" and len: "dp_len d mod dp = 0"
    and cs: "equal_chunks (env_chunk_sizes env)" and ss: "equal_chunks (env_split_sizes env)"
    and f: "rowwise f d out"
  shows "\<exists>shares outs. dispatch_nd_compute_dataproto env mapping dp ws [Proto d] [] = Inr ([map Proto shares], []) \<and>
    length shares = ws \<and> map_res f shares = Inr outs \<and>
    collect_nd_compute_dataproto msk ws (map Value outs) = Inr (Proto out)"
proof -
  let ?iss = "chunk_rows dp [0..<dp_len d]"
  let ?chunks = "map (row_view d) ?iss"
  have out: "dp_ok out" "dp_len out = dp_len d" "metrics_key \<notin> fst ` set (dp_meta out)"
    using f by (auto simp: rowwise_def)
  have leniss: "length ?iss = dp" by (simp add: chunk_rows_def)
  have len': "length [0..<dp_len d] mod dp = 0" using len by simp
  have "chunk_in env (row_view d [0..<dp_len d]) dp = Inr ?chunks"
    by (rule chunk_in_views[OF ok dp _ len' cs ss]) auto
  then have "chunk_in env d dp = Inr ?chunks" unfolding row_view_all[OF ok] .
  then have split: "split_args_kwargs_data_proto env dp [Proto d] [] = Inr ([map Proto ?chunks], [])"
    using leniss by (simp add: split_args_kwargs_data_proto_def split_one_def is_chunkable_def arg_chunk_def)
  let ?shares = "map (\<lambda>i. ?chunks ! (mapping ! i)) [0..<ws]"
  let ?outs = "map (\<lambda>i. row_view out (?iss ! (mapping ! i))) [0..<ws]"
  have below: "mapping ! i < dp" if "i < ws" for i
    using mesh that nth_mem[of i mapping] by (force simp: mesh_ok_def)
  have picked: "pick_ranks mapping dp ws (map Proto ?chunks) = Inr (map Proto ?shares)"
  proof -
    have "map (\<lambda>i. map Proto ?chunks ! (mapping ! i)) [0..<ws] = map Proto ?shares"
      by (rule nth_equalityI) (simp_all add: leniss below)
    with pick_ranks_ok[OF mesh, of "map Proto ?chunks"] leniss show ?thesis by simp
  qed
  have ne: "map Proto ?chunks \<noteq> []" using leniss dp by auto
  have disp: "dispatch_nd_compute_dataproto env mapping dp ws [Proto d] [] = Inr ([map Proto ?shares], [])"
    using ne picked by (simp add: dispatch_nd_compute_dataproto_def split dispatch_nd_compute_def del: map_map)
  have run: "map_res f ?shares = Inr ?outs"
  proof -
    have one: "f (?chunks ! (mapping ! i)) = Inr (row_view out (?iss ! (mapping ! i)))" if "i < ws" for i
    proof -
      have "?iss ! (mapping ! i) \<in> set ?iss" using below[OF that] leniss by (metis nth_mem)
      then have "set (?iss ! (mapping ! i)) \<subseteq> {..<dp_len d}"
        by (rule chunk_rows_below[OF dp len', rotated]) auto
      then show ?thesis using f below[OF that] leniss by (simp add: rowwise_def)
    qed
    have "map_res f (map g ks) = map_res (\<lambda>i. f (g i)) ks" for g :: "nat \<Rightarrow> ('a, 'b) data_proto" and ks
      by (induction ks) simp_all
    moreover have "map_res (\<lambda>i. f (?chunks ! (mapping ! i))) [0..<ws] = Inr ?outs"
      by (rule map_res_all_ok) (use one in simp)
    ultimately show ?thesis by simp
  qed
  have masked: "collect_nd_compute msk ws (map Value ?outs) = Inr (map Value (map (row_view out) ?iss))"
    using collect_nd_ok[OF mesh leniss, of "\<lambda>is. Value (row_view out is)"] by (simp add: comp_def)
  have ne': "?iss \<noteq> []" using leniss dp by auto
  have "concat ?iss = [0..<dp_len d]" by (rule concat_chunk_rows[OF len' dp])
  then have all: "row_view out (concat ?iss) = out" using row_view_all[OF out(1)] out(2) by simp
  have "is_concatable (map Value (map (row_view out) ?iss))"
    using ne' by (cases ?iss) (simp_all add: is_concatable_def)
  then have "collect_nd_compute_dataproto msk ws (map Value ?outs) = Inr (Proto out)"
    using collect_views[OF out(1,3) ne'] all masked by (simp add: collect_nd_compute_dataproto_def del: map_map)
  moreover have "length ?shares = ws" by simp
  ultimately show ?thesis using disp run by blast
qed

section \<open>Enumerations and the mode registry\<close>

definition enum_ok :: "dynamic_enum \<Rightarrow> bool" where
  "enum_ok cls \<longleftrightarrow> dict_ok (registry cls) \<and>
     (\<forall>k m. map_of (registry cls) k = Some m \<longrightarrow> mem_name m = k \<and> mem_value m < next_value cls) \<and>
     (\<forall>k k' m m'. map_of (registry cls) k = Some m \<longrightarrow> map_of (registry cls) k' = Some m' \<longrightarrow>
        mem_value m = mem_value m' \<longrightarrow> k = k')"

lemma enum_ok_empty: "enum_ok empty_enum"
  by (simp add: enum_ok_def empty_enum_def dict_ok_def)

lemma enum_register_Inr:
  "enum_register name cls = Inr (m, cls') \<longleftrightarrow>
    map_of (registry cls) (upper name) = None \<and> m = \<lparr> mem_name = upper name, mem_value = next_value cls \<rparr> \<and>
    cls' = cls\<lparr> registry := AList.update (upper name) m (registry cls), next_value := next_value cls + 1 \<rparr>"
  by (auto simp: enum_register_def Let_def)

lemma enum_remove_Inr:
  "enum_remove name cls = Inr (m, cls') \<longleftrightarrow>
    map_of (registry cls) (upper name) = Some m \<and>
    cls' = cls\<lparr> registry := AList.delete (upper name) (registry cls) \<rparr>"
  by (auto simp: enum_remove_def Let_def bind_res_Inr_iff dict_index_Inr_iff)

lemma enum_ok_step: "enum_step cls cls' \<Longrightarrow> enum_ok cls \<Longrightarrow> enum_ok cls'"
proof (induction rule: enum_step.induct)
  case (step_register name cls m cls')
  then show ?case unfolding enum_register_Inr enum_ok_def
    by (fastforce simp: dict_ok_update less_Suc_eq split: if_splits)
next
  case (step_remove name cls m cls')
  then show ?case unfolding enum_remove_Inr enum_ok_def
    by (auto simp: dict_ok_delete split: if_splits)
qed

text \<open>The registries reachable by registering, updating and removing enumeration members.\<close>

inductive registry_reach :: "'fn dispatch_registry \<Rightarrow> bool" where
  reach_init: "registry_reach \<lparr> dispatch_enum = empty_enum, mode_fns = [] \<rparr>"
| reach_register: "registry_reach reg \<Longrightarrow> register_dispatch_mode name f g reg = Inr reg' \<Longrightarrow> registry_reach reg'"
| reach_update: "registry_reach reg \<Longrightarrow> update_dispatch_mode mode f g reg = Inr reg' \<Longrightarrow> registry_reach reg'"
| reach_enum: "registry_reach reg \<Longrightarrow> enum_step (dispatch_enum reg) cls \<Longrightarrow>
    registry_reach (reg\<lparr> dispatch_enum := cls \<rparr>)"

definition registry_ok :: "'fn dispatch_registry \<Rightarrow> bool" where
  "registry_ok reg \<longleftrightarrow> enum_ok (dispatch_enum reg) \<and>
     (\<forall>m. map_of (mode_fns reg) m \<noteq> None \<longrightarrow> mem_value m < next_value (dispatch_enum reg))"

lemma enum_step_next: "enum_step cls cls' \<Longrightarrow> next_value cls \<le> next_value cls'"
  by (auto elim!: enum_stepE simp: enum_register_Inr enum_remove_Inr)

lemma registry_reach_ok: "registry_reach reg \<Longrightarrow> registry_ok reg"
proof (induction rule: registry_reach.induct)
  case reach_init
  then show ?case by (simp add: registry_ok_def enum_ok_empty)
next
  case (reach_register reg name f g reg')
  then obtain m cls where e: "enum_register name (dispatch_enum reg) = Inr (m, cls)"
    and r: "reg' = \<lparr> dispatch_enum = cls, mode_fns = AList.update m (f, g) (mode_fns reg) \<rparr>"
    by (auto simp: register_dispatch_mode_def bind_res_Inr_iff)
  have "enum_ok cls" using enum_ok_step[OF step_register[OF e]] reach_register.IH by (simp add: registry_ok_def)
  moreover have "mem_value m < next_value cls \<and> next_value (dispatch_enum reg) \<le> next_value cls"
    using e by (auto simp: enum_register_Inr)
  ultimately show ?case using reach_register.IH r by (auto simp: registry_ok_def intro: less_le_trans)
next
  case (reach_update reg mode f g reg')
  then show ?case by (auto simp: registry_ok_def update_dispatch_mode_def split: if_splits)
next
  case (reach_enum reg cls)
  then show ?case using enum_ok_step enum_step_next by (fastforce simp: registry_ok_def)
qed

lemma register_dispatch_mode_main:
  assumes "registry_reach reg"
  shows "(\<exists>reg'. register_dispatch_mode name f g reg = Inr reg') \<longleftrightarrow> \<not> enum_contains_name (upper name) (dispatch_enum reg)"
    and "register_dispatch_mode name f g reg = Inr reg' \<Longrightarrow>
      \<exists>m. enum_from_name name (dispatch_enum reg') = Some m \<and> get_predefined_dispatch_fn m reg' = Inr (f, g) \<and>
        (\<forall>m'. m' \<noteq> m \<longrightarrow> get_predefined_dispatch_fn m' reg' = get_predefined_dispatch_fn m' reg)"
proof -
  have ok: "registry_ok reg" by (rule registry_reach_ok[OF assms])
  have fresh: "map_of (mode_fns reg) \<lparr> mem_name = upper name, mem_value = next_value (dispatch_enum reg) \<rparr> = None"
  proof (rule ccontr)
    let ?m = "\<lparr> mem_name = upper name, mem_value = next_value (dispatch_enum reg) \<rparr>"
    assume "map_of (mode_fns reg) ?m \<noteq> None"
    then have "mem_value ?m < next_value (dispatch_enum reg)" using ok unfolding registry_ok_def by blast
    then show False by simp
  qed
  show "(\<exists>reg'. register_dispatch_mode name f g reg = Inr reg') \<longleftrightarrow> \<not> enum_contains_name (upper name) (dispatch_enum reg)"
    using fresh by (auto simp: register_dispatch_mode_def bind_res_Inr_iff enum_register_Inr enum_contains_name_def)
  show "register_dispatch_mode name f g reg = Inr reg' \<Longrightarrow>
      \<exists>m. enum_from_name name (dispatch_enum reg') = Some m \<and> get_predefined_dispatch_fn m reg' = Inr (f, g) \<and>
        (\<forall>m'. m' \<noteq> m \<longrightarrow> get_predefined_dispatch_fn m' reg' = get_predefined_dispatch_fn m' reg)"
    by (auto simp: register_dispatch_mode_def bind_res_Inr_iff enum_register_Inr enum_from_name_def
        dict_get_def get_predefined_dispatch_fn_def dict_index_def)
qed

section \<open>Properties\<close>

text \<open>
  C24: a blocking call with padded data-parallel dispatch computes what one worker would: if the
  method treats rows independently (with output \<open>out\<close> for the whole batch), splitting a padded
  batch over any number of workers, collecting and trimming returns exactly \<open>out\<close>; the
  caller's batch object is left padded.
\<close>

theorem padded_remote_call_correct:
  assumes "dp_ok d" and "metrics_key \<notin> fst ` set (dp_meta d)" and "0 < w"
    and "is_padding_enabled (env_padding env) d"
    and "equal_chunks (env_chunk_sizes env)" and "equal_chunks (env_split_sizes env)"
    and "rowwise f d out" and "\<forall>i < w. \<forall>x. worker i [One (Proto x)] [] = f x"
  shows "remote_call env w worker collect_proto [Proto d] [] =
    Inr ([Proto (row_view d (padded_is (dp_len d) (missing (dp_len d) w)))], Collected (Proto out))"
  by (rule remote_call_main[where f = f and worker = worker, OF assms])

definition example_env :: chunk_env where
  "example_env = \<lparr> env_chunk_sizes = \<lambda>n k. replicate k (n div k),
                  env_split_sizes = \<lambda>n k. replicate k (n div k), env_padding = True \<rparr>"

theorem padded_remote_call_correct_witness:
  "remote_call example_env 2 (\<lambda>i args kwargs. case args of [One (Proto x)] \<Rightarrow> Inr x | _ \<Rightarrow> Inl TypeError)
     collect_proto [Proto example_proto] [] =
    Inr ([Proto (row_view example_proto (padded_is (dp_len example_proto) (missing (dp_len example_proto) 2)))],
      Collected (Proto example_proto))"
proof (rule padded_remote_call_correct[where f = Inr])
  have ok: "dp_ok example_proto"
    by (simp add: example_proto_def dp_ok_def dp_len_def columns_have_def dict_ok_def meta_ok_def)
  show "dp_ok example_proto" by (rule ok)
  show "rowwise Inr example_proto example_proto"
    using ok by (simp add: rowwise_def metrics_key_def) (simp add: example_proto_def)
qed (simp_all add: example_proto_def example_env_def equal_chunks_def metrics_key_def is_padding_enabled_def)

text \<open>
  On a mesh, where several workers share a data-parallel rank and the collect mask selects
  one worker per rank in order, dispatching a batch, running a row-wise method on every worker
  and collecting the selected outputs returns the output for the whole batch.
\<close>

theorem mesh_dispatch_collect_correct:
  assumes "mesh_ok mapping msk dp ws" and "0 < dp" and "dp_ok d" and "dp_len d mod dp = 0"
    and "equal_chunks (env_chunk_sizes env)" and "equal_chunks (env_split_sizes env)"
    and "rowwise f d out"
  shows "\<exists>shares outs. dispatch_nd_compute_dataproto env mapping dp ws [Proto d] [] = Inr ([map Proto shares], []) \<and>
    length shares = ws \<and> map_res f shares = Inr outs \<and>
    collect_nd_compute_dataproto msk ws (map Value outs) = Inr (Proto out)"
  using nd_dispatch_main[OF assms] .

theorem mesh_dispatch_collect_correct_witness:
  "\<exists>shares outs. dispatch_nd_compute_dataproto example_env [0, 0, 1, 1, 2, 2] 3 6 [Proto example_proto] []
      = Inr ([map Proto shares], []) \<and>
    length shares = 6 \<and> map_res Inr shares = Inr outs \<and>
    collect_nd_compute_dataproto [True, False, True, False, False, True] 6 (map Value outs) = Inr (Proto example_proto)"
proof (rule mesh_dispatch_collect_correct)
  show "mesh_ok [0, 0, 1, 1, 2, 2] [True, False, True, False, False, True] 3 6"
    by (simp add: mesh_ok_def upt_rec)
  have ok: "dp_ok example_proto"
    by (simp add: example_proto_def dp_ok_def dp_len_def columns_have_def dict_ok_def meta_ok_def)
  show "dp_ok example_proto" by (rule ok)
  show "rowwise Inr example_proto example_proto"
    using ok by (simp add: rowwise_def metrics_key_def) (simp add: example_proto_def)
qed (simp_all add: example_proto_def example_env_def equal_chunks_def dp_len_def)

text \<open>
  With the metric mode the outputs are a list with one entry per worker, and trimming the
  padding from it drops whole workers: of 5 samples on 4 workers (padding 3) only the first
  worker's metric is returned.
\<close>

theorem metric_call_drops_workers:
  "let b = \<lparr> dp_batch = Some \<lparr> td_size = 5, td_items = [(''ids'', [1, 2, 3, 4, 5 :: int])] \<rparr>,
                 dp_non_tensor = [] :: (str, int list) dict, dp_meta = [] \<rparr>
   in (case remote_call example_env 4 (\<lambda>i args kwargs. case args of [One (Proto x)] \<Rightarrow> Inr (i, dp_len x) | _ \<Rightarrow> Inl TypeError)
              collect_metric [Proto b] [] of
         Inr (caller, Listed rs) \<Rightarrow> rs = [(0, 2)]
       | _ \<Rightarrow> False)"
  by code_simp

text \<open>
  The padded dispatch changes the caller's batch in place: after the call it has the padded
  length, and the union with the (trimmed) result fails on the batch sizes.
\<close>

theorem padded_call_breaks_union:
  "case remote_call example_env 2 (\<lambda>i args kwargs. case args of [One (Proto x)] \<Rightarrow> Inr x | _ \<Rightarrow> Inl TypeError)
          collect_proto [Proto example_proto] [] of
     Inr ([Proto caller], Collected (Proto out)) \<Rightarrow>
       dp_len caller = 4 \<and> dp_len out = 3 \<and> dp_union (=) caller out = Inl AssertionError
   | _ \<Rightarrow> False"
  by code_simp

text \<open>
  In every registry reachable by registering, updating and removing modes, a new mode is
  accepted exactly when its upper-cased name is not a member; it can then be looked up under
  that name, has the given functions, and no other mode's functions change.
\<close>

theorem register_dispatch_mode_correct:
  assumes "registry_reach reg"
  shows "((\<exists>reg'. register_dispatch_mode name f g reg = Inr reg') \<longleftrightarrow>
      \<not> enum_contains_name (upper name) (dispatch_enum reg)) \<and>
    (\<forall>reg'. register_dispatch_mode name f g reg = Inr reg' \<longrightarrow>
      (\<exists>m. enum_from_name name (dispatch_enum reg') = Some m \<and> get_predefined_dispatch_fn m reg' = Inr (f, g) \<and>
        (\<forall>m'. m' \<noteq> m \<longrightarrow> get_predefined_dispatch_fn m' reg' = get_predefined_dispatch_fn m' reg)))"
  using register_dispatch_mode_main[OF assms] by blast

definition empty_registry :: "nat dispatch_registry" where
  "empty_registry = \<lparr> dispatch_enum = empty_enum, mode_fns = [] \<rparr>"

theorem register_dispatch_mode_correct_witness:
  "\<exists>reg' m. register_dispatch_mode ''lazy'' (1 :: nat) (2 :: nat) empty_registry = Inr reg' \<and>
      enum_from_name ''lazy'' (dispatch_enum reg') = Some m \<and> get_predefined_dispatch_fn m reg' = Inr (1, 2)"
proof -
  have "registry_reach empty_registry"
    by (simp add: empty_registry_def registry_reach.reach_init)
  moreover have "\<not> enum_contains_name (upper ''lazy'') (dispatch_enum empty_registry)"
    by code_simp
  ultimately show ?thesis
    using register_dispatch_mode_correct[of empty_registry "''lazy''" 1 2] by blast
qed

end
