(* ===== verification/MessageQueue.thy ===== *)
theory MessageQueue
  imports Prelude "HOL-Library.Sublist"
begin

text \<open>
  \<open>verl/experimental/fully_async_policy/message_queue.py\<close>: the bounded queue between the
  rollouter and the trainer.  Each method holds the queue's lock, so it is one atomic step; a
  consumer that finds the queue empty waits on the condition and tries again once notified.
\<close>

section \<open>The queue\<close>

record 'a mqueue =
  max_queue_size :: nat
  mq_queue :: "'a list"
  val_queue :: "'a list"
  mq_running :: bool
  total_produced :: nat
  total_consumed :: nat
  dropped_samples :: nat

text \<open>\<open>deque(maxlen=m)\<close> refuses a negative bound, and appending to a full deque drops the left end.\<close>

definition mqueue_init :: "int option \<Rightarrow> 'a mqueue result" where
  "mqueue_init capacity =
     (case capacity of
        None \<Rightarrow> Inl ValueError
      | Some m \<Rightarrow> if m < 0 then Inl ValueError
          else Inr \<lparr> max_queue_size = nat m, mq_queue = [], val_queue = [], mq_running = True,
                     total_produced = 0, total_consumed = 0, dropped_samples = 0 \<rparr>)"

definition deque_append :: "nat \<Rightarrow> 'a list \<Rightarrow> 'a \<Rightarrow> 'a list" where
  "deque_append maxlen xs x = (let ys = xs @ [x] in drop (length ys - maxlen) ys)"

definition deque_popleft :: "'a list \<Rightarrow> ('a \<times> 'a list) result" where
  "deque_popleft xs = (case xs of [] \<Rightarrow> Inl IndexError | x # ys \<Rightarrow> Inr (x, ys))"

text \<open>The first component is the returned flag: false when the oldest sample was dropped.\<close>

definition put_sample :: "'a \<Rightarrow> 'a mqueue \<Rightarrow> (bool \<times> 'a mqueue) result" where
  "put_sample sample q =
     bind_res (if length (mq_queue q) \<ge> max_queue_size q then
                 bind_res (deque_popleft (mq_queue q)) (\<lambda>(x, rest).
                 Inr (True, q\<lparr> mq_queue := rest, dropped_samples := dropped_samples q + 1 \<rparr>))
               else Inr (False, q)) (\<lambda>(is_drop, q1).
     Inr (\<not> is_drop, q1\<lparr> mq_queue := deque_append (max_queue_size q1) (mq_queue q1) sample,
                         total_produced := total_produced q1 + 1 \<rparr>))"

text \<open>One attempt of \<open>get_sample\<close> with the lock held.\<close>

datatype 'a get_outcome = Blocked | Closed | Got 'a nat

definition try_get :: "'a mqueue \<Rightarrow> 'a get_outcome \<times> 'a mqueue" where
  "try_get q =
     (case mq_queue q of
        [] \<Rightarrow> if mq_running q then (Blocked, q) else (Closed, q)
      | data # rest \<Rightarrow>
          (Got data (length rest), q\<lparr> mq_queue := rest, total_consumed := total_consumed q + 1 \<rparr>))"

definition get_queue_size :: "'a mqueue \<Rightarrow> nat" where
  "get_queue_size q = length (mq_queue q)"

record mq_statistics =
  stat_queue_size :: nat
  stat_total_produced :: nat
  stat_total_consumed :: nat
  stat_dropped_samples :: nat
  stat_max_queue_size :: nat

definition get_statistics :: "'a mqueue \<Rightarrow> mq_statistics" where
  "get_statistics q =
     \<lparr> stat_queue_size = length (mq_queue q), stat_total_produced = total_produced q,
       stat_total_consumed = total_consumed q, stat_dropped_samples = dropped_samples q,
       stat_max_queue_size = max_queue_size q \<rparr>"

definition clear_queue :: "'a mqueue \<Rightarrow> 'a mqueue" where
  "clear_queue q = q\<lparr> mq_queue := [] \<rparr>"

definition shutdown :: "'a mqueue \<Rightarrow> 'a mqueue" where
  "shutdown q = q\<lparr> mq_running := False \<rparr>"

definition put_validate :: "'a \<Rightarrow> 'a mqueue \<Rightarrow> 'a mqueue" where
  "put_validate data q = q\<lparr> val_queue := val_queue q @ [data] \<rparr>"

definition get_validate :: "'a mqueue \<Rightarrow> 'a option \<times> 'a mqueue" where
  "get_validate q =
     (case val_queue q of [] \<Rightarrow> (None, q) | x # xs \<Rightarrow> (Some x, q\<lparr> val_queue := xs \<rparr>))"

section \<open>The queue with its waiting consumers\<close>

text \<open>
  \<open>waiting\<close> are the consumers blocked in \<open>wait()\<close>, \<open>notified\<close> those of them that a
  \<open>notify_all\<close> has woken since; only these can try again.  The logs record what an observer of the
  calls sees: the samples that were put and got, those that a put into a full queue dropped, and those
  that \<open>clear_queue\<close> removed, whose number the code prints and does not keep.
\<close>

record 'a mq_system =
  sys_queue :: "'a mqueue"
  waiting :: "nat set"
  notified :: "nat set"
  put_log :: "'a list"
  got_log :: "'a list"
  drop_log :: "'a list"
  clear_log :: "'a list"

definition notify_all :: "'a mq_system \<Rightarrow> 'a mq_system" where
  "notify_all s = s\<lparr> notified := waiting s \<rparr>"

text \<open>A consumer with the lock: it leaves with a result or (again) waits, not yet notified.\<close>

definition consume :: "nat \<Rightarrow> 'a mq_system \<Rightarrow> 'a get_outcome \<times> 'a mq_system" where
  "consume c s =
     (case try_get (sys_queue s) of
        (Blocked, q) \<Rightarrow> (Blocked, s\<lparr> waiting := insert c (waiting s), notified := notified s - {c} \<rparr>)
      | (Closed, q) \<Rightarrow> (Closed, s\<lparr> waiting := waiting s - {c}, notified := notified s - {c} \<rparr>)
      | (Got x n, q) \<Rightarrow>
          (Got x n, s\<lparr> sys_queue := q, waiting := waiting s - {c}, notified := notified s - {c},
                       got_log := got_log s @ [x] \<rparr>))"

inductive mq_step :: "'a mq_system \<Rightarrow> 'a mq_system \<Rightarrow> bool" where
  mq_put: "put_sample x (sys_queue s) = Inr (b, q) \<Longrightarrow>
    mq_step s (notify_all (s\<lparr> sys_queue := q, put_log := put_log s @ [x],
                              drop_log := drop_log s @ (if b then [] else take 1 (mq_queue (sys_queue s))) \<rparr>))"
| mq_get: "c \<notin> waiting s \<Longrightarrow> consume c s = (r, s') \<Longrightarrow> mq_step s s'"
| mq_wake: "c \<in> waiting s \<Longrightarrow> c \<in> notified s \<Longrightarrow> consume c s = (r, s') \<Longrightarrow> mq_step s s'"
| mq_clear: "mq_step s (s\<lparr> sys_queue := clear_queue (sys_queue s), clear_log := clear_log s @ mq_queue (sys_queue s) \<rparr>)"
| mq_shutdown: "mq_step s (notify_all (s\<lparr> sys_queue := shutdown (sys_queue s) \<rparr>))"
| mq_put_val: "mq_step s (s\<lparr> sys_queue := put_validate x (sys_queue s) \<rparr>)"
| mq_get_val: "get_validate (sys_queue s) = (r, q) \<Longrightarrow> mq_step s (s\<lparr> sys_queue := q \<rparr>)"

inductive_cases mq_stepE: "mq_step s s'"

definition mq_start :: "'a mqueue \<Rightarrow> 'a mq_system" where
  "mq_start q = \<lparr> sys_queue = q, waiting = {}, notified = {}, put_log = [], got_log = [], drop_log = [], clear_log = [] \<rparr>"

section \<open>Invariants\<close>

lemma put_sample_Inr:
  "put_sample x q = Inr (b, q') \<longleftrightarrow>
    0 < max_queue_size q \<and> length (mq_queue q) \<le> max_queue_size q \<and>
      b = (length (mq_queue q) < max_queue_size q) \<and>
      q' = q\<lparr> mq_queue := (if b then mq_queue q else tl (mq_queue q)) @ [x],
             total_produced := total_produced q + 1,
             dropped_samples := dropped_samples q + (if b then 0 else 1) \<rparr>"
  if "length (mq_queue q) \<le> max_queue_size q"
  using that
  by (cases "mq_queue q")
     (auto simp: put_sample_def deque_popleft_def deque_append_def bind_res_Inr_iff Let_def)

definition mq_inv :: "'a mq_system \<Rightarrow> bool" where
  "mq_inv s \<longleftrightarrow>
     length (mq_queue (sys_queue s)) \<le> max_queue_size (sys_queue s) \<and>
     subseq (got_log s @ mq_queue (sys_queue s)) (put_log s) \<and>
     total_produced (sys_queue s) = length (put_log s) \<and>
     total_consumed (sys_queue s) = length (got_log s) \<and>
     dropped_samples (sys_queue s) = length (drop_log s) \<and>
     mset (put_log s) = mset (got_log s) + mset (drop_log s) + mset (clear_log s) + mset (mq_queue (sys_queue s)) \<and>
     notified s \<subseteq> waiting s \<and>
     (mq_queue (sys_queue s) \<noteq> [] \<or> \<not> mq_running (sys_queue s) \<longrightarrow> notified s = waiting s)"

lemma subseq_drop_middle: "subseq (xs @ y # ys) zs \<Longrightarrow> subseq (xs @ ys) zs"
  by (meson subseq_order.trans list_emb_append_mono subseq_Cons' subseq_order.refl)

lemma subseq_prefix: "subseq (xs @ ys) zs \<Longrightarrow> subseq xs zs"
  using subseq_order.trans[of xs "xs @ ys" zs] by (simp add: prefix_imp_subseq)

lemma mq_inv_consume:
  assumes "mq_inv s" and "consume c s = (r, s')"
  shows "mq_inv s' \<or> (c \<in> waiting s \<and> c \<notin> notified s)"
proof (cases "mq_queue (sys_queue s)")
  case Nil
  then show ?thesis using assms
    by (auto simp: mq_inv_def consume_def try_get_def split: if_splits)
next
  case (Cons x xs)
  then show ?thesis using assms by (auto simp: mq_inv_def consume_def try_get_def)
qed

lemma mq_inv_step: "mq_step s s' \<Longrightarrow> mq_inv s \<Longrightarrow> mq_inv s'"
proof (induction rule: mq_step.induct)
  case (mq_put x s b q)
  have len: "length (mq_queue (sys_queue s)) \<le> max_queue_size (sys_queue s)"
    using mq_put(2) by (simp add: mq_inv_def)
  have put: "0 < max_queue_size (sys_queue s)" "b = (length (mq_queue (sys_queue s)) < max_queue_size (sys_queue s))"
    "q = (sys_queue s)\<lparr> mq_queue := (if b then mq_queue (sys_queue s) else tl (mq_queue (sys_queue s))) @ [x],
             total_produced := total_produced (sys_queue s) + 1,
             dropped_samples := dropped_samples (sys_queue s) + (if b then 0 else 1) \<rparr>"
    using mq_put(1) unfolding put_sample_Inr[OF len] by auto
  have sub: "subseq (got_log s @ mq_queue (sys_queue s)) (put_log s)" using mq_put(2) by (simp add: mq_inv_def)
  show ?case
  proof (cases b)
    case True
    have "subseq ((got_log s @ mq_queue (sys_queue s)) @ [x]) (put_log s @ [x])"
      by (rule list_emb_append_mono[OF sub]) simp
    then show ?thesis using mq_put(2) put True by (simp add: mq_inv_def notify_all_def)
  next
    case False
    with put len obtain y ys where q: "mq_queue (sys_queue s) = y # ys" by (cases "mq_queue (sys_queue s)") auto
    then have "subseq (got_log s @ ys) (put_log s)" using sub subseq_drop_middle by auto
    then have "subseq ((got_log s @ ys) @ [x]) (put_log s @ [x])" by (rule list_emb_append_mono) simp
    then show ?thesis using mq_put(2) put(1,3) False q by (simp add: mq_inv_def notify_all_def)
  qed
next
  case (mq_get c s r s')
  then show ?case using mq_inv_consume by blast
next
  case (mq_wake c s r s')
  then show ?case using mq_inv_consume by blast
next
  case (mq_clear s)
  then show ?case by (auto simp: mq_inv_def clear_queue_def dest: subseq_prefix)
next
  case (mq_shutdown s)
  then show ?case by (simp add: mq_inv_def shutdown_def notify_all_def)
next
  case (mq_put_val s x)
  then show ?case by (simp add: mq_inv_def put_validate_def)
next
  case (mq_get_val s r q)
  then show ?case by (auto simp: mq_inv_def get_validate_def split: list.splits)
qed

lemma mq_inv_start: "mqueue_init capacity = Inr q \<Longrightarrow> mq_inv (mq_start q)"
  by (auto simp: mqueue_init_def mq_start_def mq_inv_def split: option.splits if_splits)

lemma mq_inv_reach: "mq_step\<^sup>*\<^sup>* s s' \<Longrightarrow> mq_inv s \<Longrightarrow> mq_inv s'"
  by (induction rule: rtranclp_induct) (auto intro: mq_inv_step)

lemma consume_notified:
  assumes "mq_inv s" and "c \<in> waiting s" and "mq_queue (sys_queue s) \<noteq> [] \<or> \<not> mq_running (sys_queue s)"
  shows "c \<in> notified s \<and> (\<exists>r s'. consume c s = (r, s') \<and> r \<noteq> Blocked \<and> c \<notin> waiting s')"
  using assms by (cases "mq_queue (sys_queue s)") (auto simp: mq_inv_def consume_def try_get_def)

section \<open>Properties\<close>

text \<open>
  C33: in every state reachable by puts, gets, waits, clears and a shutdown, the queue is within its bound; what was got followed by
  what is queued is a subsequence of what was put, so that samples are delivered in order and at most once; every sample put was
  got, was dropped by a put into the full queue, was removed by \<open>clear_queue\<close>, or is queued, and exactly one of these; and the
  statistics count the samples put, got, dropped and queued.  The cleared ones are in no statistic: the counts add up if and only
  if \<open>clear_queue\<close> has removed no sample.
\<close>

theorem queue_accounting:
  assumes "mqueue_init capacity = Inr q" and "mq_step\<^sup>*\<^sup>* (mq_start q) s" and st: "st = get_statistics (sys_queue s)"
  shows "stat_queue_size st \<le> stat_max_queue_size st \<and>
    subseq (got_log s @ mq_queue (sys_queue s)) (put_log s) \<and>
    mset (put_log s) = mset (got_log s) + mset (drop_log s) + mset (clear_log s) + mset (mq_queue (sys_queue s)) \<and>
    stat_total_produced st = length (put_log s) \<and> stat_total_consumed st = length (got_log s) \<and>
    stat_dropped_samples st = length (drop_log s) \<and> stat_queue_size st = length (mq_queue (sys_queue s)) \<and>
    (stat_total_produced st = stat_total_consumed st + stat_dropped_samples st + stat_queue_size st \<longleftrightarrow> clear_log s = [])"
proof -
  have inv: "mq_inv s" by (rule mq_inv_reach[OF assms(2) mq_inv_start[OF assms(1)]])
  then have "length (put_log s) = length (got_log s) + length (drop_log s) + length (clear_log s) + length (mq_queue (sys_queue s))"
    by (auto simp: mq_inv_def dest: arg_cong[of _ _ size])
  then show ?thesis using inv by (auto simp: mq_inv_def get_statistics_def st)
qed

definition example_queue :: "nat mqueue" where
  "example_queue = \<lparr> max_queue_size = 1, mq_queue = [], val_queue = [], mq_running = True,
     total_produced = 0, total_consumed = 0, dropped_samples = 0 \<rparr>"

lemma example_put_twice:
  "mq_step\<^sup>*\<^sup>* (mq_start example_queue)
    \<lparr> sys_queue = example_queue\<lparr> mq_queue := [8], total_produced := 2, dropped_samples := 1 \<rparr>,
      waiting = {}, notified = {}, put_log = [7, 8], got_log = [], drop_log = [7], clear_log = [] \<rparr>"
proof -
  let ?s1 = "\<lparr> sys_queue = example_queue\<lparr> mq_queue := [7], total_produced := 1 \<rparr>,
      waiting = {}, notified = {}, put_log = [7], got_log = [], drop_log = [], clear_log = [] \<rparr>"
  let ?s2 = "\<lparr> sys_queue = example_queue\<lparr> mq_queue := [8], total_produced := 2, dropped_samples := 1 \<rparr>,
      waiting = {}, notified = {}, put_log = [7, 8], got_log = [], drop_log = [7], clear_log = [] \<rparr>"
  have a: "put_sample 7 (sys_queue (mq_start example_queue)) = Inr (True, sys_queue ?s1)"
    and b: "put_sample 8 (sys_queue ?s1) = Inr (False, sys_queue ?s2)"
    by (simp_all add: put_sample_def example_queue_def mq_start_def deque_append_def deque_popleft_def)
  have "mq_step (mq_start example_queue) ?s1" using mq_step.mq_put[OF a] by (simp add: mq_start_def notify_all_def)
  moreover have "mq_step ?s1 ?s2" using mq_step.mq_put[OF b] by (simp add: notify_all_def)
  ultimately show ?thesis by (meson rtranclp.rtrancl_refl rtranclp.rtrancl_into_rtrancl)
qed

theorem queue_accounting_witness:
  "let s = \<lparr> sys_queue = example_queue\<lparr> mq_queue := [], total_produced := 2, dropped_samples := 1 \<rparr>,
      waiting = {}, notified = {}, put_log = [7, 8], got_log = [], drop_log = [7], clear_log = [8] \<rparr>; st = get_statistics (sys_queue s)
   in stat_total_produced st = 2 \<and> stat_total_consumed st = 0 \<and> stat_dropped_samples st = 1 \<and> stat_queue_size st = 0 \<and>
     stat_total_produced st \<noteq> stat_total_consumed st + stat_dropped_samples st + stat_queue_size st"
proof -
  let ?s = "\<lparr> sys_queue = example_queue\<lparr> mq_queue := [8], total_produced := 2, dropped_samples := 1 \<rparr>,
      waiting = {}, notified = {}, put_log = [7, 8], got_log = [], drop_log = [7], clear_log = [] \<rparr>"
  let ?t = "\<lparr> sys_queue = example_queue\<lparr> mq_queue := [], total_produced := 2, dropped_samples := 1 \<rparr>,
      waiting = {}, notified = {}, put_log = [7, 8], got_log = [], drop_log = [7], clear_log = [8] \<rparr>"
  have "?t = ?s\<lparr> sys_queue := clear_queue (sys_queue ?s), clear_log := clear_log ?s @ mq_queue (sys_queue ?s) \<rparr>"
    by (simp add: clear_queue_def)
  then have step: "mq_step ?s ?t" using mq_step.mq_clear[of ?s] by (rule ssubst)
  have init: "mqueue_init (Some 1) = Inr example_queue" by (simp add: mqueue_init_def example_queue_def)
  note reach = rtranclp.rtrancl_into_rtrancl[OF example_put_twice step]
  from queue_accounting[OF init reach refl] show ?thesis
    by (simp add: get_statistics_def Let_def example_queue_def)
qed

text \<open>
  C39: no wake-up is lost: in every reachable state in which the queue has a sample or is shut
  down, each waiting consumer has been notified, and when it runs it leaves with a sample or
  with the end of the queue instead of waiting again.
\<close>

theorem no_lost_wakeup:
  assumes "mqueue_init capacity = Inr q" and "mq_step\<^sup>*\<^sup>* (mq_start q) s" and "c \<in> waiting s"
    and "mq_queue (sys_queue s) \<noteq> [] \<or> \<not> mq_running (sys_queue s)"
  shows "c \<in> notified s \<and> (\<exists>r s'. consume c s = (r, s') \<and> r \<noteq> Blocked \<and> c \<notin> waiting s')"
  by (rule consume_notified[OF mq_inv_reach[OF assms(2) mq_inv_start[OF assms(1)]] assms(3,4)])

theorem no_lost_wakeup_witness:
  "let s = notify_all \<lparr> sys_queue = shutdown example_queue, waiting = {3}, notified = {}, put_log = [], got_log = [], drop_log = [], clear_log = [] \<rparr>
   in 3 \<in> notified s \<and> (\<exists>r s'. consume 3 s = (r, s') \<and> r \<noteq> Blocked \<and> 3 \<notin> waiting s')"
proof -
  let ?s1 = "(mq_start example_queue)\<lparr> waiting := {3}, notified := {} \<rparr>"
  let ?s2 = "notify_all (?s1\<lparr> sys_queue := shutdown (sys_queue ?s1) \<rparr>)"
  have "consume 3 (mq_start example_queue) = (Blocked, ?s1)"
    by (simp add: consume_def try_get_def mq_start_def example_queue_def)
  then have "mq_step (mq_start example_queue) ?s1" by (rule mq_step.mq_get[rotated]) (simp add: mq_start_def)
  moreover have "mq_step ?s1 ?s2" by (rule mq_step.mq_shutdown)
  ultimately have reach: "mq_step\<^sup>*\<^sup>* (mq_start example_queue) ?s2"
    by (meson rtranclp.rtrancl_refl rtranclp.rtrancl_into_rtrancl)
  have init: "mqueue_init (Some 1) = Inr example_queue" by (simp add: mqueue_init_def example_queue_def)
  have "3 \<in> notified ?s2 \<and> (\<exists>r s'. consume 3 ?s2 = (r, s') \<and> r \<noteq> Blocked \<and> 3 \<notin> waiting s')"
    by (rule no_lost_wakeup[OF init reach]) (simp_all add: notify_all_def shutdown_def)
  then show ?thesis by (simp add: mq_start_def)
qed

text \<open>
  Putting into a queue within its bound raises only when the bound is zero (the empty deque
  cannot drop its oldest sample); otherwise the sample is appended, and a full queue drops its
  oldest sample and returns false.
\<close>

theorem put_sample_correct:
  assumes "length (mq_queue q) \<le> max_queue_size q"
  shows "put_sample x q =
    (if max_queue_size q = 0 then Inl IndexError
     else if length (mq_queue q) < max_queue_size q
     then Inr (True, q\<lparr> mq_queue := mq_queue q @ [x], total_produced := total_produced q + 1 \<rparr>)
     else Inr (False, q\<lparr> mq_queue := tl (mq_queue q) @ [x], total_produced := total_produced q + 1,
                        dropped_samples := dropped_samples q + 1 \<rparr>))"
  using assms
  by (cases "mq_queue q") (auto simp: put_sample_def deque_popleft_def deque_append_def Let_def)

theorem put_sample_correct_witness:
  "put_sample 5 (example_queue\<lparr> max_queue_size := 0 \<rparr>) = Inl IndexError"
  using put_sample_correct[of "example_queue\<lparr> max_queue_size := 0 \<rparr>" 5] by (simp add: example_queue_def)

end
