(* ===== verification/FullyAsync.thy ===== *)
theory FullyAsync
  imports Complex_Main MessageQueue LoadBalancer
begin

text \<open>
  The fully asynchronous trainer in \<open>src/verl_new/verl/experimental/fully_async_policy\<close>: the coroutines of the rollouter (feeding, the
  processor, one task per sample, the monitor), the message queue between the actors, and the trainer that collects batches and syncs the
  weights, as actions on one state, each the code between two suspension points; any interleaving of them is a run.  The counters of the
  trainer with its validation and checkpoints, and the hybrid replicas of the servers, follow as plain functions.
\<close>

section \<open>State\<close>

record fa_params =
  fp_required :: nat
  fp_sync_step :: nat
  fp_max_required :: nat
  fp_concurrent :: nat
  fp_total :: nat

text \<open>\<open>set_max_required_samples\<close> and \<open>required_samples\<close>; \<open>int\<close> truncates, here towards minus infinity as no factor is negative.\<close>

definition set_max_required_samples :: "nat \<Rightarrow> nat \<Rightarrow> real \<Rightarrow> nat \<Rightarrow> nat \<Rightarrow> nat \<Rightarrow> fa_params" where
  "set_max_required_samples mini_batch require_batches staleness_threshold sync_step replicas rollout_steps =
     (let required = mini_batch * require_batches;
          most = nat \<lfloor>real required * (staleness_threshold + 1) * real sync_step\<rfloor>
      in \<lparr> fp_required = required, fp_sync_step = sync_step, fp_max_required = most, fp_concurrent = min (replicas * 16) most, fp_total = rollout_steps \<rparr>)"

text \<open>Where the coroutines are suspended.  A sample is the number its feeder gave it.\<close>

datatype feeder = Feeding nat | Signalling | Fed

datatype processor = At_top | Pausing | Draining | Idle_wait | Taking | In_hand nat | Ending | Processor_stopped

datatype fa_trainer = Collecting | Training | Syncing | Trainer_stopped

text \<open>
  The tasks of \<open>active_tasks\<close> are the running ones and those that have finished but were not discarded yet.  \<open>fs_since\<close> counts the samples the
  trainer has taken since it last reset the rollouter.
\<close>

record fa_state =
  fs_feeder :: feeder
  fs_pending :: "nat option list"
  fs_proc :: processor
  fs_running :: "nat list"
  fs_finished :: "nat list"
  fs_paused :: bool
  fs_resume :: bool
  fs_staleness :: nat
  fs_queue :: "nat option mqueue"
  fs_dropped :: nat
  fs_trainer :: fa_trainer
  fs_batch :: "nat list"
  fs_local :: nat
  fs_version :: nat
  fs_trained :: "nat list"
  fs_since :: nat

definition fa_start :: "fa_params \<Rightarrow> fa_state" where
  "fa_start p =
     \<lparr> fs_feeder = Feeding 1, fs_pending = [], fs_proc = At_top, fs_running = [], fs_finished = [], fs_paused = False, fs_resume = True,
       fs_staleness = 0,
       fs_queue = \<lparr> max_queue_size = fp_max_required p, mq_queue = [], val_queue = [], mq_running = True, total_produced = 0, total_consumed = 0,
                    dropped_samples = 0 \<rparr>,
       fs_dropped = 0, fs_trainer = Collecting, fs_batch = [], fs_local = 1, fs_version = 0, fs_trained = [], fs_since = 0 \<rparr>"

section \<open>Actions\<close>

datatype fa_action =
    Feed | Check | Set_paused | Discard | Drain_empty | Resumed | Take | Submit | End_signal
  | Task_done nat | Monitor | Get | Train | Sync

text \<open>The pending queue holds at most 128 samples.\<close>

definition feed_samples :: "fa_params \<Rightarrow> fa_state \<Rightarrow> fa_state option" where
  "feed_samples p s =
     (if 128 \<le> length (fs_pending s) then None
      else (case fs_feeder s of
          Feeding g \<Rightarrow> Some (s\<lparr> fs_pending := fs_pending s @ [Some g], fs_feeder := if fp_total p \<le> g then Signalling else Feeding (g + 1) \<rparr>)
        | Signalling \<Rightarrow> Some (s\<lparr> fs_pending := fs_pending s @ [None], fs_feeder := Fed \<rparr>)
        | Fed \<Rightarrow> None))"

definition should_pause_generation :: "fa_params \<Rightarrow> fa_state \<Rightarrow> bool" where
  "should_pause_generation p s \<longleftrightarrow>
     fp_max_required p \<le> stat_queue_size (get_statistics (fs_queue s)) \<or> fp_max_required p \<le> fs_staleness s"

definition active_tasks :: "fa_state \<Rightarrow> nat list" where
  "active_tasks s = fs_running s @ fs_finished s"

text \<open>
  The processor, from one suspension to the next: the pause check, the drain that discards finished tasks until it is empty or
  interrupted, the next sample, the wait for a free slot, and its submission.  The pause check is one action at the point where the code
  compares the counters; the statistics of the queue arrive a moment earlier.
\<close>

definition pause_check :: "fa_params \<Rightarrow> fa_state \<Rightarrow> fa_state option" where
  "pause_check p s =
     (if fs_proc s = At_top then Some (s\<lparr> fs_proc := if fs_paused s \<or> should_pause_generation p s then Pausing else Taking \<rparr>) else None)"

definition set_paused :: "fa_state \<Rightarrow> fa_state option" where
  "set_paused s = (if fs_proc s = Pausing then Some (s\<lparr> fs_paused := True, fs_resume := False, fs_proc := Draining \<rparr>) else None)"

definition discard_finished :: "fa_params \<Rightarrow> fa_state \<Rightarrow> fa_state option" where
  "discard_finished p s =
     (if fs_finished s \<noteq> [] \<and>
         (case fs_proc s of Draining \<Rightarrow> True | Ending \<Rightarrow> True | In_hand i \<Rightarrow> fp_concurrent p \<le> length (active_tasks s) | _ \<Rightarrow> False)
      then Some (s\<lparr> fs_finished := [] \<rparr>) else None)"

definition drain_empty :: "fa_state \<Rightarrow> fa_state option" where
  "drain_empty s = (if fs_proc s = Draining \<and> active_tasks s = [] \<and> \<not> fs_resume s then Some (s\<lparr> fs_proc := Idle_wait \<rparr>) else None)"

definition resumed :: "fa_state \<Rightarrow> fa_state option" where
  "resumed s = (if (fs_proc s = Draining \<or> fs_proc s = Idle_wait) \<and> fs_resume s then Some (s\<lparr> fs_proc := At_top \<rparr>) else None)"

definition take_pending :: "fa_state \<Rightarrow> fa_state option" where
  "take_pending s =
     (case fs_pending s of
        [] \<Rightarrow> None
      | x # rest \<Rightarrow>
          if fs_proc s = Taking
          then Some (s\<lparr> fs_pending := rest, fs_staleness := fs_staleness s + 1, fs_proc := (case x of None \<Rightarrow> Ending | Some i \<Rightarrow> In_hand i) \<rparr>)
          else None)"

definition submit_sample :: "fa_params \<Rightarrow> fa_state \<Rightarrow> fa_state option" where
  "submit_sample p s =
     (case fs_proc s of
        In_hand i \<Rightarrow>
          if length (active_tasks s) < fp_concurrent p \<and> (fs_paused s \<longrightarrow> fs_resume s)
          then Some (s\<lparr> fs_running := fs_running s @ [i], fs_proc := At_top \<rparr>) else None
      | _ \<Rightarrow> None)"

definition end_signal :: "fa_state \<Rightarrow> fa_state option" where
  "end_signal s =
     (if fs_proc s = Ending \<and> active_tasks s = []
      then (case put_sample None (fs_queue s) of Inl e \<Rightarrow> None | Inr (b, q) \<Rightarrow> Some (s\<lparr> fs_queue := q, fs_proc := Processor_stopped \<rparr>))
      else None)"

text \<open>A task puts its sample into the queue; a full queue drops its oldest sample.\<close>

definition process_single_sample :: "nat \<Rightarrow> fa_state \<Rightarrow> fa_state option" where
  "process_single_sample i s =
     (if i \<in> set (fs_running s)
      then (case put_sample (Some i) (fs_queue s) of
          Inl e \<Rightarrow> None
        | Inr (b, q) \<Rightarrow> Some (s\<lparr> fs_queue := q, fs_running := remove1 i (fs_running s), fs_finished := fs_finished s @ [i],
                               fs_dropped := fs_dropped s + (if b then 0 else 1) \<rparr>))
      else None)"

definition monitor_loop :: "fa_params \<Rightarrow> fa_state \<Rightarrow> fa_state option" where
  "monitor_loop p s =
     (if fs_proc s \<noteq> Processor_stopped \<and> fs_paused s \<and> \<not> should_pause_generation p s
      then Some (s\<lparr> fs_paused := False, fs_resume := True \<rparr>) else None)"

text \<open>The trainer: one sample of the next batch, or the signal that ends the run.\<close>

definition get_samples_from_queue :: "fa_params \<Rightarrow> fa_state \<Rightarrow> fa_state option" where
  "get_samples_from_queue p s =
     (if fs_trainer s = Collecting
      then (case try_get (fs_queue s) of
          (Got (Some i) n, q) \<Rightarrow>
            Some (s\<lparr> fs_queue := q, fs_batch := fs_batch s @ [i], fs_since := fs_since s + 1,
                     fs_trainer := if length (fs_batch s) + 1 < fp_required p then Collecting else Training \<rparr>)
        | (Got None n, q) \<Rightarrow> Some (s\<lparr> fs_queue := q, fs_trainer := Trainer_stopped \<rparr>)
        | _ \<Rightarrow> None)
      else None)"

text \<open>\<open>_fit_update_local_step\<close> after the update of the actor.\<close>

definition update_local_step :: "nat \<Rightarrow> nat \<times> nat \<Rightarrow> nat \<times> nat" where
  "update_local_step sync_step = (\<lambda>(trigger, version). if trigger < sync_step then (trigger + 1, version) else (1, version + 1))"

definition fit_batch :: "fa_params \<Rightarrow> fa_state \<Rightarrow> fa_state option" where
  "fit_batch p s =
     (if fs_trainer s = Training
      then (let (trigger, version) = update_local_step (fp_sync_step p) (fs_local s, fs_version s)
            in Some (s\<lparr> fs_trained := fs_trained s @ fs_batch s, fs_batch := [], fs_local := trigger, fs_version := version,
                        fs_trainer := if trigger = 1 then Syncing else Collecting \<rparr>))
      else None)"

text \<open>
  One action.  The code reads the length of \<open>active_tasks\<close>, then awaits the length of the queue, holding the lock: nothing is submitted
  in between, a task that finishes there is counted twice, which only raises the counter, and the increment that is overwritten is that of
  the one sample the processor can take before it waits for the lock, as when it takes it just before this action.
\<close>

definition reset_staleness :: "fa_state \<Rightarrow> fa_state" where
  "reset_staleness s =
     s\<lparr> fs_paused := False, fs_resume := True, fs_staleness := length (active_tasks s) + get_queue_size (fs_queue s) \<rparr>"

definition sync_weights :: "fa_state \<Rightarrow> fa_state option" where
  "sync_weights s = (if fs_trainer s = Syncing then Some ((reset_staleness s)\<lparr> fs_trainer := Collecting, fs_since := 0 \<rparr>) else None)"

definition fa_act :: "fa_params \<Rightarrow> fa_action \<Rightarrow> fa_state \<Rightarrow> fa_state option" where
  "fa_act p a s =
     (case a of
        Feed \<Rightarrow> feed_samples p s
      | Check \<Rightarrow> pause_check p s
      | Set_paused \<Rightarrow> set_paused s
      | Discard \<Rightarrow> discard_finished p s
      | Drain_empty \<Rightarrow> drain_empty s
      | Resumed \<Rightarrow> resumed s
      | Take \<Rightarrow> take_pending s
      | Submit \<Rightarrow> submit_sample p s
      | End_signal \<Rightarrow> end_signal s
      | Task_done i \<Rightarrow> process_single_sample i s
      | Monitor \<Rightarrow> monitor_loop p s
      | Get \<Rightarrow> get_samples_from_queue p s
      | Train \<Rightarrow> fit_batch p s
      | Sync \<Rightarrow> sync_weights s)"

lemmas fa_act_defs = feed_samples_def pause_check_def set_paused_def discard_finished_def drain_empty_def resumed_def take_pending_def
  submit_sample_def end_signal_def process_single_sample_def monitor_loop_def get_samples_from_queue_def fit_batch_def sync_weights_def

inductive fa_reach :: "fa_params \<Rightarrow> fa_state \<Rightarrow> bool" for p where
  fa_init: "fa_reach p (fa_start p)"
| fa_step: "fa_reach p s \<Longrightarrow> fa_act p a s = Some s' \<Longrightarrow> fa_reach p s'"

fun fa_run :: "fa_params \<Rightarrow> fa_action list \<Rightarrow> fa_state \<Rightarrow> fa_state option" where
  "fa_run p [] s = Some s"
| "fa_run p (a # as) s = (case fa_act p a s of None \<Rightarrow> None | Some s' \<Rightarrow> fa_run p as s')"

lemma fa_run_reach: "fa_reach p s \<Longrightarrow> fa_run p as s = Some s' \<Longrightarrow> fa_reach p s'"
  by (induction as arbitrary: s) (auto split: option.splits intro: fa_step)

section \<open>Invariants\<close>

text \<open>The samples between the pending queue and the next sync: in the hand of the processor, running, queued, or taken since the last sync.\<close>

definition in_hand :: "fa_state \<Rightarrow> nat" where
  "in_hand s = (case fs_proc s of In_hand i \<Rightarrow> 1 | Ending \<Rightarrow> 1 | _ \<Rightarrow> 0)"

definition outstanding :: "fa_state \<Rightarrow> nat" where
  "outstanding s = length (fs_running s) + length (mq_queue (fs_queue s)) + in_hand s"

definition trainer_ok :: "fa_params \<Rightarrow> fa_trainer \<Rightarrow> nat \<Rightarrow> nat \<Rightarrow> nat list \<Rightarrow> bool" where
  "trainer_ok p trainer trigger since batch \<longleftrightarrow> 1 \<le> trigger \<and> trigger \<le> fp_sync_step p \<and>
     (case trainer of
        Collecting \<Rightarrow> since = fp_required p * (trigger - 1) + length batch \<and> length batch < fp_required p
      | Training \<Rightarrow> since = fp_required p * trigger \<and> length batch = fp_required p
      | Syncing \<Rightarrow> since = fp_required p * fp_sync_step p \<and> trigger = 1 \<and> batch = []
      | Trainer_stopped \<Rightarrow> length batch < fp_required p)"

definition trainer_counts :: "fa_params \<Rightarrow> fa_state \<Rightarrow> bool" where
  "trainer_counts p s \<longleftrightarrow> trainer_ok p (fs_trainer s) (fs_local s) (fs_since s) (fs_batch s)"

definition queue_bounded :: "fa_params \<Rightarrow> fa_state \<Rightarrow> bool" where
  "queue_bounded p s \<longleftrightarrow> max_queue_size (fs_queue s) = fp_max_required p \<and> length (mq_queue (fs_queue s)) \<le> fp_max_required p \<and> mq_running (fs_queue s)"

text \<open>\<open>slack\<close> is one where a sample in hand may be missing in the count of the last sync, and zero where that cannot happen.\<close>

definition staleness_inv :: "fa_params \<Rightarrow> nat \<Rightarrow> fa_state \<Rightarrow> bool" where
  "staleness_inv p slack s \<longleftrightarrow>
     outstanding s + fs_since s \<le> fs_staleness s + slack \<and> outstanding s + fs_since s \<le> fp_max_required p + slack \<and>
     (fs_proc s = Taking \<longrightarrow> outstanding s + fs_since s + 1 \<le> fp_max_required p + slack)"

lemma put_sample_bounded:
  assumes "queue_bounded p s" and "put_sample x (fs_queue s) = Inr (b, q)"
  shows "max_queue_size q = fp_max_required p" "mq_running q" "length (mq_queue q) \<le> fp_max_required p"
    "b = (length (mq_queue (fs_queue s)) < fp_max_required p)" "0 < fp_max_required p"
    "mq_queue q = (if b then mq_queue (fs_queue s) else tl (mq_queue (fs_queue s))) @ [x]"
    "length (mq_queue q) = length (mq_queue (fs_queue s)) + (if b then 1 else 0)"
proof -
  have len: "length (mq_queue (fs_queue s)) \<le> max_queue_size (fs_queue s)" using assms(1) by (simp add: queue_bounded_def)
  note put = iffD1[OF put_sample_Inr[OF len] assms(2)]
  show "max_queue_size q = fp_max_required p" "mq_running q" "length (mq_queue q) \<le> fp_max_required p"
    "b = (length (mq_queue (fs_queue s)) < fp_max_required p)" "0 < fp_max_required p"
    "mq_queue q = (if b then mq_queue (fs_queue s) else tl (mq_queue (fs_queue s))) @ [x]"
    "length (mq_queue q) = length (mq_queue (fs_queue s)) + (if b then 1 else 0)"
    using put assms(1) by (auto simp: queue_bounded_def)
qed

lemma try_get_cases:
  "try_get q = (r, q') \<Longrightarrow> (case r of Got x n \<Rightarrow> mq_queue q = x # mq_queue q' \<and> max_queue_size q' = max_queue_size q \<and> mq_running q' = mq_running q
     | _ \<Rightarrow> q' = q)"
  by (auto simp: try_get_def split: list.splits if_splits)

lemma queue_bounded_step:
  assumes "fa_act p a s = Some s'" and "queue_bounded p s"
  shows "queue_bounded p s'"
proof -
  have put: "queue_bounded p (s\<lparr> fs_queue := q \<rparr>)" if "put_sample x (fs_queue s) = Inr (b, q)" for x b q
    using put_sample_bounded[OF assms(2) that] by (simp add: queue_bounded_def)
  have get: "queue_bounded p (s\<lparr> fs_queue := q \<rparr>)" if "try_get (fs_queue s) = (Got x n, q)" for x n q
    using try_get_cases[OF that] assms(2) by (auto simp: queue_bounded_def)
  show ?thesis
  proof (cases a)
    case (Task_done i)
    then show ?thesis using assms put
      by (auto simp: fa_act_def process_single_sample_def queue_bounded_def split: if_splits sum.splits prod.splits)
  next
    case End_signal
    then show ?thesis using assms put by (auto simp: fa_act_def end_signal_def queue_bounded_def split: if_splits sum.splits prod.splits)
  next
    case Get
    then show ?thesis using assms get
      by (auto simp: fa_act_def get_samples_from_queue_def queue_bounded_def split: if_splits prod.splits get_outcome.splits option.splits)
  qed (use assms in \<open>auto simp: fa_act_def fa_act_defs queue_bounded_def reset_staleness_def Let_def
      split: if_splits list.splits feeder.splits processor.splits prod.splits\<close>)
qed

lemma trainer_counts_step:
  assumes "fa_act p a s = Some s'" and "trainer_counts p s" and R: "0 < fp_required p"
  shows "trainer_counts p s'"
proof (cases a)
  case Get
  moreover have "fp_required p * fs_local s = fp_required p * (fs_local s - 1) + fp_required p" if "1 \<le> fs_local s"
    using that by (cases "fs_local s") auto
  ultimately show ?thesis using assms
    by (auto simp: fa_act_def get_samples_from_queue_def trainer_counts_def trainer_ok_def split: if_splits prod.splits get_outcome.splits option.splits)
next
  case Train
  moreover have "fp_required p * fs_local s = fp_required p * fp_sync_step p" if "\<not> fs_local s < fp_sync_step p" "fs_local s \<le> fp_sync_step p"
    using that by simp
  ultimately show ?thesis using assms
    by (auto simp: fa_act_def fit_batch_def trainer_counts_def trainer_ok_def update_local_step_def split: if_splits)
next
  case Sync
  then show ?thesis using assms by (auto simp: fa_act_def sync_weights_def trainer_counts_def trainer_ok_def reset_staleness_def split: if_splits)
qed (use assms in \<open>auto simp: fa_act_def fa_act_defs trainer_counts_def split: if_splits list.splits feeder.splits processor.splits sum.splits prod.splits\<close>)

lemma staleness_inv_step:
  assumes act: "fa_act p a s = Some s'" and qb: "queue_bounded p s" and tc: "trainer_counts p s" and inv: "staleness_inv p slack s"
    and slack: "1 \<le> slack \<or> fp_max_required p \<le> fp_required p * fp_sync_step p"
  shows "staleness_inv p slack s'"
proof (cases a)
  case (Task_done i)
  then obtain b q where i: "i \<in> set (fs_running s)" and put: "put_sample (Some i) (fs_queue s) = Inr (b, q)"
    and s': "s' = s\<lparr> fs_queue := q, fs_running := remove1 i (fs_running s), fs_finished := fs_finished s @ [i],
                               fs_dropped := fs_dropped s + (if b then 0 else 1) \<rparr>"
    using act by (auto simp: fa_act_def process_single_sample_def split: if_splits sum.splits prod.splits)
  have "length (remove1 i (fs_running s)) + 1 = length (fs_running s)" using i by (simp add: length_remove1) (cases "fs_running s"; simp)
  then have "outstanding s' \<le> outstanding s" using put_sample_bounded(7)[OF qb put] by (simp add: s' outstanding_def in_hand_def)
  then show ?thesis using inv by (auto simp: staleness_inv_def s')
next
  case End_signal
  then obtain b q where e: "fs_proc s = Ending" "put_sample None (fs_queue s) = Inr (b, q)" "s' = s\<lparr> fs_queue := q, fs_proc := Processor_stopped \<rparr>"
    using act by (auto simp: fa_act_def end_signal_def split: if_splits sum.splits prod.splits)
  have "outstanding s' \<le> outstanding s" using put_sample_bounded(7)[OF qb e(2)] e(1) by (simp add: e(3) outstanding_def in_hand_def)
  then show ?thesis using inv by (auto simp: staleness_inv_def e(3))
next
  case Get
  then show ?thesis using act inv
    by (auto simp: fa_act_def get_samples_from_queue_def staleness_inv_def outstanding_def in_hand_def dest!: try_get_cases
        split: if_splits prod.splits get_outcome.splits option.splits)
next
  case Sync
  then have s': "s' = (reset_staleness s)\<lparr> fs_trainer := Collecting, fs_since := 0 \<rparr>" and "fs_trainer s = Syncing"
    using act by (auto simp: fa_act_def sync_weights_def split: if_splits)
  then have since: "fs_since s = fp_required p * fp_sync_step p" using tc by (simp add: trainer_counts_def trainer_ok_def)
  have "in_hand s \<le> 1" by (simp add: in_hand_def split: processor.split)
  moreover have "outstanding s = 0" if "slack = 0" using that slack inv since by (simp add: staleness_inv_def)
  ultimately show ?thesis using inv by (cases slack)
    (auto simp: staleness_inv_def s' reset_staleness_def outstanding_def in_hand_def active_tasks_def get_queue_size_def)
next
  case Check
  then show ?thesis using act inv
    by (auto simp: fa_act_def pause_check_def staleness_inv_def outstanding_def in_hand_def should_pause_generation_def split: if_splits)
next
  case Take
  then show ?thesis using act inv
    by (auto simp: fa_act_def take_pending_def staleness_inv_def outstanding_def in_hand_def split: if_splits list.splits option.splits)
next
  case Submit
  then show ?thesis using act inv
    by (auto simp: fa_act_def submit_sample_def staleness_inv_def outstanding_def in_hand_def split: if_splits processor.splits)
next
  case Feed
  then show ?thesis using act inv
    by (auto simp: fa_act_def feed_samples_def staleness_inv_def outstanding_def in_hand_def split: if_splits feeder.splits)
next
  case Set_paused
  then show ?thesis using act inv
    by (auto simp: fa_act_def set_paused_def staleness_inv_def outstanding_def in_hand_def split: if_splits)
next
  case Discard
  then show ?thesis using act inv by (auto simp: fa_act_def discard_finished_def staleness_inv_def outstanding_def in_hand_def split: if_splits)
next
  case Drain_empty
  then show ?thesis using act inv by (auto simp: fa_act_def drain_empty_def staleness_inv_def outstanding_def in_hand_def split: if_splits)
next
  case Resumed
  then show ?thesis using act inv by (auto simp: fa_act_def resumed_def staleness_inv_def outstanding_def in_hand_def split: if_splits)
next
  case Monitor
  then show ?thesis using act inv by (auto simp: fa_act_def monitor_loop_def staleness_inv_def outstanding_def in_hand_def split: if_splits)
next
  case Train
  then show ?thesis using act inv
    by (auto simp: fa_act_def fit_batch_def staleness_inv_def outstanding_def in_hand_def split: if_splits prod.splits)
qed

lemma fa_reach_inv:
  assumes "fa_reach p s" and R: "0 < fp_required p" and K: "0 < fp_sync_step p"
  shows "queue_bounded p s \<and> trainer_counts p s \<and> staleness_inv p 1 s \<and>
    (fp_max_required p = fp_required p * fp_sync_step p \<longrightarrow> staleness_inv p 0 s)"
  using assms(1)
proof induction
  case fa_init
  have "0 < fp_max_required p" if "fp_max_required p = fp_required p * fp_sync_step p" using that R K by simp
  then show ?case using R K
    by (auto simp: fa_start_def queue_bounded_def trainer_counts_def trainer_ok_def staleness_inv_def outstanding_def in_hand_def)
next
  case (fa_step s a s')
  then show ?case using queue_bounded_step[OF fa_step(2)] trainer_counts_step[OF fa_step(2) _ R]
      staleness_inv_step[OF fa_step(2)] by simp
qed

text \<open>
  C11: whatever the interleaving, when the trainer syncs its weights at most \<open>max_required_samples\<close> less the samples of a version, plus one,
  are outstanding: running, queued, or in the hand of the processor.  These are the samples that the next version finds stale.  With a
  threshold of zero there are none: the run is synchronous.
\<close>

theorem stale_samples_bounded:
  assumes "fa_reach p s" and "0 < fp_required p" and "0 < fp_sync_step p" and "fs_trainer s = Syncing"
  shows "outstanding s + fp_required p * fp_sync_step p \<le> fp_max_required p + 1 \<and>
    (fp_max_required p = fp_required p * fp_sync_step p \<longrightarrow> outstanding s = 0)"
  using fa_reach_inv[OF assms(1-3)] assms(4) by (auto simp: staleness_inv_def trainer_counts_def trainer_ok_def)

text \<open>
  The queue drops a sample only when the trainer has taken none since the last sync and all others of its quota are queued.
\<close>

theorem drops_only_over_quota:
  assumes "fa_reach p s" and "0 < fp_required p" and "0 < fp_sync_step p" and "fa_act p a s = Some s'" and "fs_dropped s' \<noteq> fs_dropped s"
  shows "fs_since s = 0 \<and> get_queue_size (fs_queue s) = fp_max_required p \<and> length (fs_running s) = 1 \<and> in_hand s = 0"
proof -
  have inv: "queue_bounded p s" "staleness_inv p 1 s" using fa_reach_inv[OF assms(1-3)] by auto
  obtain i b q where i: "a = Task_done i" "i \<in> set (fs_running s)" and put: "put_sample (Some i) (fs_queue s) = Inr (b, q)" and "\<not> b"
    using assms(4,5) by (cases a) (auto simp: fa_act_def fa_act_defs reset_staleness_def Let_def
        split: if_splits sum.splits prod.splits list.splits feeder.splits processor.splits get_outcome.splits option.splits)
  then have "length (mq_queue (fs_queue s)) = fp_max_required p"
    using put_sample_bounded(4)[OF inv(1) put] inv(1) by (simp add: queue_bounded_def)
  moreover have "1 \<le> length (fs_running s)" using i(2) by (cases "fs_running s") auto
  ultimately show ?thesis using inv(2) by (auto simp: staleness_inv_def outstanding_def get_queue_size_def)
qed

section \<open>Every sample once\<close>

fun somes :: "'a option list \<Rightarrow> 'a list" where
  "somes [] = []"
| "somes (None # xs) = somes xs"
| "somes (Some x # xs) = x # somes xs"

lemma somes_append [simp]: "somes (xs @ ys) = somes xs @ somes ys"
  by (induction xs rule: somes.induct) auto

lemma somes_map [simp]: "somes (map Some xs) = xs"
  by (induction xs) auto

definition hand_ids :: "processor \<Rightarrow> nat list" where
  "hand_ids pr = (case pr of In_hand i \<Rightarrow> [i] | _ \<Rightarrow> [])"

definition sample_ids :: "fa_state \<Rightarrow> nat multiset" where
  "sample_ids s = mset (fs_trained s) + mset (fs_batch s) + mset (somes (mq_queue (fs_queue s))) + mset (fs_running s) +
     mset (hand_ids (fs_proc s)) + mset (somes (fs_pending s))"

definition fed_count :: "fa_params \<Rightarrow> feeder \<Rightarrow> nat" where
  "fed_count p f = (case f of Feeding g \<Rightarrow> g - 1 | _ \<Rightarrow> max 1 (fp_total p))"

text \<open>The end signal follows the last sample on its way through both queues.\<close>

definition pending_ok :: "feeder \<Rightarrow> nat option list \<Rightarrow> processor \<Rightarrow> bool" where
  "pending_ok f pending pr \<longleftrightarrow>
     (if f = Fed then (if pr \<in> {Ending, Processor_stopped} then pending = [] else \<exists>xs. pending = map Some xs @ [None])
      else pr \<notin> {Ending, Processor_stopped} \<and> (\<exists>xs. pending = map Some xs))"

definition queue_ok :: "processor \<Rightarrow> nat list \<Rightarrow> nat option list \<Rightarrow> fa_trainer \<Rightarrow> bool" where
  "queue_ok pr running q trainer \<longleftrightarrow>
     (if pr = Processor_stopped then running = [] \<and> (if trainer = Trainer_stopped then q = [] else \<exists>ys. q = map Some ys @ [None])
      else trainer \<noteq> Trainer_stopped \<and> (\<exists>ys. q = map Some ys))"

definition ledger :: "fa_params \<Rightarrow> fa_state \<Rightarrow> bool" where
  "ledger p s \<longleftrightarrow> pending_ok (fs_feeder s) (fs_pending s) (fs_proc s) \<and>
     queue_ok (fs_proc s) (fs_running s) (mq_queue (fs_queue s)) (fs_trainer s) \<and>
     (\<forall>i. count (sample_ids s) i \<le> (if 1 \<le> i \<and> i \<le> fed_count p (fs_feeder s) then 1 else 0)) \<and>
     size (sample_ids s) + dropped_samples (fs_queue s) = fed_count p (fs_feeder s) \<and>
     (case fs_feeder s of Feeding g \<Rightarrow> 1 \<le> g \<and> g \<le> max 1 (fp_total p) | _ \<Rightarrow> True) \<and> fp_required p dvd length (fs_trained s)"

lemma put_sample_dropped:
  assumes "queue_bounded p s" and "put_sample x (fs_queue s) = Inr (b, q)"
  shows "dropped_samples q = dropped_samples (fs_queue s) + (if b then 0 else 1)" and "\<not> b \<Longrightarrow> mq_queue (fs_queue s) \<noteq> []"
proof -
  have len: "length (mq_queue (fs_queue s)) \<le> max_queue_size (fs_queue s)" using assms(1) by (simp add: queue_bounded_def)
  show "dropped_samples q = dropped_samples (fs_queue s) + (if b then 0 else 1)" "\<not> b \<Longrightarrow> mq_queue (fs_queue s) \<noteq> []"
    using iffD1[OF put_sample_Inr[OF len] assms(2)] assms(1) by (auto simp: queue_bounded_def)
qed

lemma ledger_feed:
  assumes "feed_samples p s = Some s'" and "ledger p s"
  shows "ledger p s'"
proof (cases "fs_feeder s")
  case (Feeding g)
  have g: "1 \<le> g" "g \<le> max 1 (fp_total p)" using assms(2) Feeding by (auto simp: ledger_def)
  let ?f = "if fp_total p \<le> g then Signalling else Feeding (g + 1)"
  have s': "s' = s\<lparr> fs_pending := fs_pending s @ [Some g], fs_feeder := ?f \<rparr>"
    using assms(1) Feeding by (auto simp: feed_samples_def split: if_splits)
  have fed: "fed_count p (fs_feeder s) = g - 1" "fed_count p ?f = g" using g Feeding by (auto simp: fed_count_def)
  have ids: "sample_ids s' = add_mset g (sample_ids s)" by (simp add: s' sample_ids_def)
  have count: "count (sample_ids s) i \<le> (if 1 \<le> i \<and> i \<le> g - 1 then 1 else 0)" for i using assms(2) unfolding ledger_def fed by blast
  have "count (sample_ids s') i \<le> (if 1 \<le> i \<and> i \<le> g then 1 else 0)" for i using count[of i] g(1) unfolding ids by (cases "i = g") (auto split: if_splits)
  moreover have "pending_ok ?f (fs_pending s @ [Some g]) (fs_proc s)"
    using assms(2) Feeding by (auto simp: ledger_def pending_ok_def) (metis list.simps(8,9) map_append)+
  ultimately show ?thesis using assms(2) g unfolding ledger_def ids fed by (auto simp: s' fed[simplified s'] ids)
next
  case Signalling
  then show ?thesis using assms
    by (auto simp: feed_samples_def ledger_def pending_ok_def sample_ids_def fed_count_def split: if_splits)
qed (use assms in \<open>simp add: feed_samples_def split: if_splits\<close>)

lemma count_le: "A \<subseteq># B \<Longrightarrow> \<forall>i. count B i \<le> f i \<Longrightarrow> \<forall>i. count A i \<le> f i"
  using mset_subset_eq_count order_trans by metis

text \<open>An action that only moves samples keeps the ledger when it keeps the order of both queues.\<close>

lemma ledger_move:
  assumes "ledger p s" and "fs_feeder s' = fs_feeder s" and "sample_ids s' = sample_ids s" and "dropped_samples (fs_queue s') = dropped_samples (fs_queue s)"
    and "pending_ok (fs_feeder s) (fs_pending s') (fs_proc s')"
    and "queue_ok (fs_proc s') (fs_running s') (mq_queue (fs_queue s')) (fs_trainer s')" and "fp_required p dvd length (fs_trained s')"
  shows "ledger p s'"
  using assms unfolding ledger_def by simp

lemma ledger_put:
  assumes "ledger p s" and qb: "queue_bounded p s" and put: "put_sample x (fs_queue s) = Inr (b, q)" and some: "\<exists>ys. mq_queue (fs_queue s) = map Some ys"
    and s': "fs_feeder s' = fs_feeder s" "fs_queue s' = q" "fs_trained s' = fs_trained s" "fs_batch s' = fs_batch s" "fs_pending s' = fs_pending s"
    and ids: "mset (somes [x]) + mset (fs_running s') + mset (hand_ids (fs_proc s')) = mset (fs_running s) + mset (hand_ids (fs_proc s))"
    and ok: "pending_ok (fs_feeder s) (fs_pending s) (fs_proc s')" "queue_ok (fs_proc s') (fs_running s') (mq_queue q) (fs_trainer s')"
  shows "ledger p s'"
proof -
  obtain ys where ys: "mq_queue (fs_queue s) = map Some ys" using some by blast
  note q = put_sample_bounded(6)[OF qb put] put_sample_dropped[OF qb put]
  have queued: "mset (somes (mq_queue q)) + (if b then {#} else {# hd ys #}) = mset ys + mset (somes [x])"
    using q(1,3) ys by (cases ys) auto
  have eq: "sample_ids s' + (if b then {#} else {# hd ys #}) = sample_ids s"
    using queued ids unfolding sample_ids_def s' ys somes_map by (simp add: ac_simps)
  have "sample_ids s' \<subseteq># sample_ids s" "size (sample_ids s') + (if b then 0 else 1) = size (sample_ids s)"
    unfolding eq[symmetric] by (cases b; simp)+
  moreover have "\<forall>i. count (sample_ids s) i \<le> (if 1 \<le> i \<and> i \<le> fed_count p (fs_feeder s) then 1 else 0)" using assms(1) by (simp add: ledger_def)
  note count_le[OF calculation(1) this]
  ultimately show ?thesis using assms(1) ok q(2) unfolding ledger_def s' by simp
qed

lemma Cons_map_end: "y # ys = map Some xs @ [None] \<longleftrightarrow> (xs = [] \<and> y = None \<and> ys = []) \<or> (\<exists>x xs'. xs = x # xs' \<and> y = Some x \<and> ys = map Some xs' @ [None])"
  by (cases xs) auto

lemma pending_next:
  assumes "pending_ok f (x # rest) Taking"
  shows "pending_ok f rest (case x of None \<Rightarrow> Ending | Some i \<Rightarrow> In_hand i)" and "x = None \<Longrightarrow> rest = []"
  using assms by (cases x; auto simp: pending_ok_def Cons_map_end Cons_eq_map_conv split: if_splits)+

lemma queue_next:
  assumes "queue_ok pr running (x # q) trainer"
  shows "case x of None \<Rightarrow> pr = Processor_stopped \<and> running = [] \<and> q = [] | Some i \<Rightarrow> trainer' \<noteq> Trainer_stopped \<longrightarrow> queue_ok pr running q trainer'"
  using assms by (cases x; auto simp: queue_ok_def Cons_map_end Cons_eq_map_conv split: if_splits)+

lemma ledger_step:
  assumes act: "fa_act p a s = Some s'" and led: "ledger p s" and qb: "queue_bounded p s" and tc: "trainer_counts p s"
  shows "ledger p s'"
proof (cases a)
  case Feed
  then show ?thesis using ledger_feed act led by (simp add: fa_act_def)
next
  case (Task_done i)
  then obtain b q where i: "i \<in> set (fs_running s)" and put: "put_sample (Some i) (fs_queue s) = Inr (b, q)"
    and s': "s' = s\<lparr> fs_queue := q, fs_running := remove1 i (fs_running s), fs_finished := fs_finished s @ [i],
                               fs_dropped := fs_dropped s + (if b then 0 else 1) \<rparr>"
    using act by (auto simp: fa_act_def process_single_sample_def split: if_splits sum.splits prod.splits)
  obtain ys where pr: "fs_proc s \<noteq> Processor_stopped" and ys: "mq_queue (fs_queue s) = map Some ys"
    using led i by (auto simp: ledger_def queue_ok_def split: if_splits)
  have "mq_queue q = map Some ((if b then ys else tl ys) @ [i])" using put_sample_bounded(6)[OF qb put] ys by (simp add: map_tl)
  then have "\<exists>zs. mq_queue q = map Some zs" by blast
  then show ?thesis using led i pr ys
    by (intro ledger_put[OF led qb put]) (auto simp: s' ledger_def queue_ok_def)
next
  case End_signal
  then obtain b q where e: "fs_proc s = Ending" "active_tasks s = []" and put: "put_sample None (fs_queue s) = Inr (b, q)"
    and s': "s' = s\<lparr> fs_queue := q, fs_proc := Processor_stopped \<rparr>"
    using act by (auto simp: fa_act_def end_signal_def split: if_splits sum.splits prod.splits)
  obtain ys where ys: "mq_queue (fs_queue s) = map Some ys" "fs_trainer s \<noteq> Trainer_stopped" using led e(1) by (auto simp: ledger_def queue_ok_def)
  have "mq_queue q = map Some (if b then ys else tl ys) @ [None]" using put_sample_bounded(6)[OF qb put] ys(1) by (simp add: map_tl)
  then have "\<exists>zs. mq_queue q = map Some zs @ [None]" by blast
  then show ?thesis using led e ys
    by (intro ledger_put[OF led qb put]) (auto simp: s' ledger_def queue_ok_def pending_ok_def hand_ids_def active_tasks_def split: if_splits)
next
  case Get
  then obtain x n q where c: "fs_trainer s = Collecting" and got: "try_get (fs_queue s) = (Got x n, q)"
    and s': "s' = (case x of None \<Rightarrow> s\<lparr> fs_queue := q, fs_trainer := Trainer_stopped \<rparr>
      | Some i \<Rightarrow> s\<lparr> fs_queue := q, fs_batch := fs_batch s @ [i], fs_since := fs_since s + 1,
                     fs_trainer := if length (fs_batch s) + 1 < fp_required p then Collecting else Training \<rparr>)"
    using act by (auto simp: fa_act_def get_samples_from_queue_def split: if_splits prod.splits get_outcome.splits option.splits)
  have q: "mq_queue (fs_queue s) = x # mq_queue q" "dropped_samples q = dropped_samples (fs_queue s)"
    using got by (auto simp: try_get_def split: list.splits if_splits)
  show ?thesis
  proof (cases x)
    case None
    then have "fs_proc s = Processor_stopped \<and> fs_running s = [] \<and> mq_queue q = []"
      using queue_next[of "fs_proc s" "fs_running s" x "mq_queue q" "fs_trainer s"] led q(1) by (simp add: ledger_def)
    then show ?thesis using led q None by (intro ledger_move[OF led]) (auto simp: s' ledger_def queue_ok_def sample_ids_def)
  next
    case (Some i)
    then have "fs_trainer s' \<noteq> Trainer_stopped" by (simp add: s')
    then have "queue_ok (fs_proc s) (fs_running s) (mq_queue q) (fs_trainer s')"
      using queue_next[of "fs_proc s" "fs_running s" x "mq_queue q" "fs_trainer s"] led q(1) Some by (simp add: ledger_def)
    then show ?thesis using led q Some by (intro ledger_move[OF led]) (auto simp: s' ledger_def sample_ids_def)
  qed
next
  case Train
  then show ?thesis using act led tc
    by (intro ledger_move[OF led]) (auto simp: fa_act_def fit_batch_def ledger_def sample_ids_def queue_ok_def trainer_counts_def trainer_ok_def
        split: if_splits prod.splits)
next
  case Take
  then obtain x rest where t: "fs_proc s = Taking" "fs_pending s = x # rest"
    and s': "s' = s\<lparr> fs_pending := rest, fs_staleness := fs_staleness s + 1, fs_proc := (case x of None \<Rightarrow> Ending | Some i \<Rightarrow> In_hand i) \<rparr>"
    using act by (auto simp: fa_act_def take_pending_def split: if_splits list.splits)
  have "pending_ok (fs_feeder s) (x # rest) Taking" using led t by (simp add: ledger_def)
  note pending_next[OF this]
  then show ?thesis using led t
    by (intro ledger_move[OF led]) (cases x; simp add: s' ledger_def sample_ids_def hand_ids_def queue_ok_def)+
next
  case Submit
  then obtain i where i: "fs_proc s = In_hand i" and s': "s' = s\<lparr> fs_running := fs_running s @ [i], fs_proc := At_top \<rparr>"
    using act by (auto simp: fa_act_def submit_sample_def split: if_splits processor.splits)
  then show ?thesis using led
    by (intro ledger_move[OF led]) (simp_all add: s' ledger_def sample_ids_def hand_ids_def queue_ok_def pending_ok_def)
next
  case Check
  then show ?thesis using act led
    by (intro ledger_move[OF led]) (auto simp: fa_act_def pause_check_def ledger_def sample_ids_def hand_ids_def queue_ok_def pending_ok_def split: if_splits)
next
  case Set_paused
  then show ?thesis using act led
    by (intro ledger_move[OF led]) (auto simp: fa_act_def set_paused_def ledger_def sample_ids_def hand_ids_def queue_ok_def pending_ok_def split: if_splits)
next
  case Discard
  then show ?thesis using act led
    by (intro ledger_move[OF led]) (auto simp: fa_act_def discard_finished_def ledger_def sample_ids_def hand_ids_def queue_ok_def pending_ok_def split: if_splits)
next
  case Drain_empty
  then show ?thesis using act led
    by (intro ledger_move[OF led]) (auto simp: fa_act_def drain_empty_def ledger_def sample_ids_def hand_ids_def queue_ok_def pending_ok_def split: if_splits)
next
  case Resumed
  then show ?thesis using act led
    by (intro ledger_move[OF led]) (auto simp: fa_act_def resumed_def ledger_def sample_ids_def hand_ids_def queue_ok_def pending_ok_def split: if_splits)
next
  case Monitor
  then show ?thesis using act led
    by (intro ledger_move[OF led]) (auto simp: fa_act_def monitor_loop_def ledger_def sample_ids_def hand_ids_def queue_ok_def pending_ok_def split: if_splits)
next
  case Sync
  then show ?thesis using act led
    by (intro ledger_move[OF led]) (auto simp: fa_act_def sync_weights_def reset_staleness_def ledger_def sample_ids_def hand_ids_def queue_ok_def pending_ok_def split: if_splits)
qed

lemma distinct_count_le: "\<forall>i. count (mset xs) i \<le> 1 \<Longrightarrow> distinct xs"
proof (induction xs)
  case (Cons x xs)
  have "count (mset xs) i \<le> 1" for i using order_trans[OF _ Cons.prems[rule_format, of i], of "count (mset xs) i"] by simp
  moreover have "count (mset xs) x = 0" using Cons.prems[rule_format, of x] by simp
  ultimately show ?case using Cons.IH by simp
qed simp

lemma fa_reach_ledger:
  assumes "fa_reach p s" and "0 < fp_required p" and "0 < fp_sync_step p"
  shows "ledger p s"
  using assms(1)
proof induction
  case fa_init
  show ?case by (simp add: ledger_def fa_start_def pending_ok_def queue_ok_def sample_ids_def hand_ids_def fed_count_def)
next
  case (fa_step s a s')
  then show ?case using ledger_step fa_reach_inv[OF fa_step(1) assms(2,3)] by blast
qed

lemma trained_once:
  assumes "fa_reach p s" and "0 < fp_required p" and "0 < fp_sync_step p"
  shows "distinct (fs_trained s @ fs_batch s)" and "set (fs_trained s @ fs_batch s) \<subseteq> {1..max 1 (fp_total p)}" and
    "fs_trainer s = Trainer_stopped \<Longrightarrow>
      length (fs_trained s) = fp_required p * ((max 1 (fp_total p) - dropped_samples (fs_queue s)) div fp_required p)"
proof -
  have led: "ledger p s" by (rule fa_reach_ledger[OF assms])
  have "mset (fs_trained s @ fs_batch s) \<subseteq># sample_ids s"
    unfolding sample_ids_def by (simp add: add.assoc)
  moreover have "\<forall>i. count (sample_ids s) i \<le> (if 1 \<le> i \<and> i \<le> fed_count p (fs_feeder s) then 1 else 0)" using led by (simp add: ledger_def)
  ultimately have count: "\<forall>i. count (mset (fs_trained s @ fs_batch s)) i \<le> (if 1 \<le> i \<and> i \<le> fed_count p (fs_feeder s) then 1 else 0)"
    by (rule count_le)
  have member: "count (mset (fs_trained s @ fs_batch s)) i \<noteq> 0 \<longleftrightarrow> i \<in> set (fs_trained s @ fs_batch s)" for i by (simp only: count_eq_zero_iff set_mset_mset not_not)
  have "\<forall>i. count (mset (fs_trained s @ fs_batch s)) i \<le> 1"
  proof
    fix i
    show "count (mset (fs_trained s @ fs_batch s)) i \<le> 1" using count[rule_format, of i] by (rule order_trans) simp
  qed
  then show "distinct (fs_trained s @ fs_batch s)" by (rule distinct_count_le)
  have "fed_count p (fs_feeder s) \<le> max 1 (fp_total p)" using led by (auto simp: ledger_def fed_count_def split: feeder.splits)
  then show "set (fs_trained s @ fs_batch s) \<subseteq> {1..max 1 (fp_total p)}"
    by (intro subsetI) (use count member in \<open>fastforce split: if_splits\<close>)
  show "length (fs_trained s) = fp_required p * ((max 1 (fp_total p) - dropped_samples (fs_queue s)) div fp_required p)"
    if stopped: "fs_trainer s = Trainer_stopped"
  proof -
    have "fs_proc s = Processor_stopped" "fs_running s = []" "mq_queue (fs_queue s) = []"
      using led stopped by (auto simp: ledger_def queue_ok_def split: if_splits)
    moreover from this have "fs_feeder s = Fed" "fs_pending s = []" using led by (auto simp: ledger_def pending_ok_def split: if_splits)
    ultimately have "length (fs_trained s) + length (fs_batch s) + dropped_samples (fs_queue s) = max 1 (fp_total p)"
      using led by (simp add: ledger_def sample_ids_def hand_ids_def fed_count_def)
    then have eq: "max 1 (fp_total p) - dropped_samples (fs_queue s) = length (fs_batch s) + length (fs_trained s)" by simp
    have "length (fs_batch s) < fp_required p"
      using fa_reach_inv[OF assms] stopped by (simp add: trainer_counts_def trainer_ok_def)
    moreover obtain k where k: "length (fs_trained s) = fp_required p * k" using led by (auto simp: ledger_def elim: dvdE)
    ultimately show ?thesis unfolding eq k by simp
  qed
qed

text \<open>
  C12: every sample is trained at most once; and when the trainer has received the end signal, all samples of the run have been trained but
  those the queue dropped and a last incomplete batch.
\<close>

theorem samples_trained_once:
  assumes "fa_reach p s" and "0 < fp_required p" and "0 < fp_sync_step p"
  shows "distinct (fs_trained s @ fs_batch s) \<and> set (fs_trained s @ fs_batch s) \<subseteq> {1..max 1 (fp_total p)} \<and>
    (fs_trainer s = Trainer_stopped \<longrightarrow>
      length (fs_trained s) = fp_required p * ((max 1 (fp_total p) - dropped_samples (fs_queue s)) div fp_required p))"
  by (intro conjI impI trained_once[OF assms])

section \<open>Runs that miscount\<close>

text \<open>Threshold one, one sample per batch and a sync after each: at most two samples are meant to be outstanding, one of them stale.\<close>

definition one_ahead :: fa_params where
  "one_ahead = set_max_required_samples 1 1 1 1 1 10"

lemma one_ahead_eval: "one_ahead = \<lparr> fp_required = 1, fp_sync_step = 1, fp_max_required = 2, fp_concurrent = 2, fp_total = 10 \<rparr>"
  by (simp add: one_ahead_def set_max_required_samples_def)

definition overtaking_run :: "fa_action list" where
  "overtaking_run =
     [Feed, Feed, Feed, Feed, Feed, Check, Take, Submit, Check, Take, Submit, Check, Set_paused, Task_done 1, Task_done 2, Discard, Get, Train,
      Sync, Resumed, Check, Take, Get, Train, Sync, Submit, Check, Take, Submit, Check, Take, Task_done 3, Discard, Submit, Get, Train]"

lemma overtaking_run_ends:
  "\<exists>s. fa_run one_ahead overtaking_run (fa_start one_ahead) = Some s \<and> fs_trainer s = Syncing \<and> outstanding s = 2"
proof -
  have "case fa_run one_ahead overtaking_run (fa_start one_ahead) of None \<Rightarrow> False | Some s \<Rightarrow> fs_trainer s = Syncing \<and> outstanding s = 2"
    unfolding one_ahead_eval by code_simp
  then show ?thesis by (auto split: option.splits)
qed

text \<open>
  The bound of stale samples is reached, and so the threshold is exceeded by one: a sync that runs while the processor holds a sample does
  not count it, and two stale samples are outstanding at a later sync where the threshold allows one.
\<close>

theorem threshold_exceeded_by_one:
  "\<exists>s. fa_reach one_ahead s \<and> fs_trainer s = Syncing \<and>
     real (outstanding s) = 1 * real (fp_required one_ahead) * real (fp_sync_step one_ahead) + 1"
  using overtaking_run_ends fa_run_reach[OF fa_init] by (force simp: one_ahead_eval)

text \<open>
  A state where both sides wait for each other: the rollouter is paused with nothing to finish, and the trainer waits for a sample.  No
  action but the feeder's is left, and the staleness that keeps the rollouter paused is only reset by a sync.
\<close>

definition stalled :: "fa_params \<Rightarrow> fa_state \<Rightarrow> bool" where
  "stalled p s \<longleftrightarrow> fs_proc s = Idle_wait \<and> active_tasks s = [] \<and> mq_queue (fs_queue s) = [] \<and> mq_running (fs_queue s) \<and> fs_paused s \<and> \<not> fs_resume s \<and>
     fp_max_required p \<le> fs_staleness s \<and> fs_trainer s = Collecting"

lemma stalled_step:
  assumes "fa_act p a s = Some s'" and "stalled p s"
  shows "a = Feed \<and> stalled p s' \<and> fs_trained s' = fs_trained s"
  using assms by (cases a) (auto simp: fa_act_def fa_act_defs stalled_def should_pause_generation_def active_tasks_def try_get_def
      split: if_splits list.splits feeder.splits)

definition half_ahead :: fa_params where
  "half_ahead = set_max_required_samples 1 1 (1 / 2) 4 1 10"

lemma half_ahead_eval: "half_ahead = \<lparr> fp_required = 1, fp_sync_step = 4, fp_max_required = 6, fp_concurrent = 6, fp_total = 10 \<rparr>"
  by (simp add: half_ahead_def set_max_required_samples_def)

definition stalling_run :: "fa_action list" where
  "stalling_run =
     [Feed, Feed, Feed, Feed, Feed, Feed, Check, Take, Submit, Check, Take, Submit, Check, Take, Submit, Check, Take, Submit,
      Task_done 1, Task_done 2, Task_done 3, Task_done 4, Get, Train, Get, Train, Get, Train, Get, Train, Sync,
      Check, Take, Submit, Check, Take, Submit, Check, Set_paused, Task_done 5, Task_done 6, Discard, Drain_empty, Get, Train, Get, Train]"

lemma stalling_run_ends:
  "\<exists>s. fa_run half_ahead stalling_run (fa_start half_ahead) = Some s \<and> stalled half_ahead s \<and> length (fs_trained s) = 6"
proof -
  have "case fa_run half_ahead stalling_run (fa_start half_ahead) of None \<Rightarrow> False | Some s \<Rightarrow> stalled half_ahead s \<and> length (fs_trained s) = 6"
    unfolding half_ahead_eval by code_simp
  then show ?thesis by (auto split: option.splits)
qed

text \<open>
  Tasks that have finished count as active until the processor discards them.  A sync that comes before it does counts their samples
  again, although the trainer has taken them; the rollouter can then pause with nothing left to do while the trainer waits for samples: of ten
  samples six are trained, and no later state trains another.
\<close>

theorem finished_tasks_can_stall:
  "\<exists>s. fa_reach half_ahead s \<and> stalled half_ahead s \<and> fp_total half_ahead = 10 \<and>
     (\<forall>as s'. fa_run half_ahead as s = Some s' \<longrightarrow> stalled half_ahead s' \<and> length (fs_trained s') = 6)"
proof -
  obtain s where s: "fa_run half_ahead stalling_run (fa_start half_ahead) = Some s" "stalled half_ahead s" "length (fs_trained s) = 6"
    using stalling_run_ends by blast
  have "stalled half_ahead s' \<and> length (fs_trained s') = 6" if "fa_run half_ahead as s = Some s'" for as s'
    using that s(2,3)
  proof (induction as arbitrary: s)
    case (Cons a as)
    then show ?case using stalled_step by (auto split: option.splits)
  qed simp
  then show ?thesis using s fa_run_reach[OF fa_init s(1)] by (auto simp: half_ahead_eval)
qed

section \<open>Syncs, validations and checkpoints of the trainer\<close>

datatype ft_event = Trained_step | Synced_to nat | Validated_at nat | Saved_at nat

record ft_config =
  fc_sync_step :: nat
  fc_test_freq :: int
  fc_save_freq :: int

record ft_state =
  ft_local :: nat
  ft_version :: nat
  ft_last_ckpt :: nat
  ft_log :: "ft_event list"

definition ft_note :: "ft_event \<Rightarrow> ft_state \<Rightarrow> ft_state" where
  "ft_note e s = s\<lparr> ft_log := ft_log s @ [e] \<rparr>"

definition fit_update_local_step :: "ft_config \<Rightarrow> ft_state \<Rightarrow> ft_state" where
  "fit_update_local_step cfg s =
     (let (trigger, version) = update_local_step (fc_sync_step cfg) (ft_local s, ft_version s)
      in s\<lparr> ft_local := trigger, ft_version := version \<rparr>)"

definition fit_update_weights :: "ft_state \<Rightarrow> ft_state" where
  "fit_update_weights s = (if ft_local s \<noteq> 1 then s else ft_note (Synced_to (ft_version s)) s)"

definition fit_validate :: "ft_config \<Rightarrow> bool \<Rightarrow> ft_state \<Rightarrow> ft_state" where
  "fit_validate cfg val_before_train s =
     (if ft_local s \<noteq> 1 then s
      else (let need = 0 < fc_test_freq cfg \<and> int (ft_version s) mod fc_test_freq cfg = 0 \<and> 0 < ft_version s
            in if \<not> need \<and> \<not> val_before_train then s else ft_note (Validated_at (ft_version s)) s))"

definition fit_save_checkpoint :: "ft_config \<Rightarrow> bool \<Rightarrow> bool \<Rightarrow> ft_state \<Rightarrow> ft_state" where
  "fit_save_checkpoint cfg esi_close force s =
     (if ft_version s = ft_last_ckpt s then s
      else if 0 < fc_save_freq cfg \<and> (force \<or> int (ft_version s) mod fc_save_freq cfg = 0 \<or> esi_close)
      then (ft_note (Saved_at (ft_version s)) s)\<lparr> ft_last_ckpt := ft_version s \<rparr>
      else s)"

definition fit_step :: "ft_config \<Rightarrow> ft_state \<Rightarrow> bool \<Rightarrow> ft_state" where
  "fit_step cfg s esi_close =
     fit_save_checkpoint cfg esi_close False (fit_validate cfg False (fit_update_weights (fit_update_local_step cfg (ft_note Trained_step s))))"

text \<open>After the queue has ended; \<open>% 0\<close> raises.\<close>

definition fit_finish :: "ft_config \<Rightarrow> bool \<Rightarrow> ft_state \<Rightarrow> ft_state result" where
  "fit_finish cfg esi_close s =
     (if fc_test_freq cfg = 0 then Inl ZeroDivisionError
      else (let s1 = (if int (ft_version s) mod fc_test_freq cfg \<noteq> 0 \<or> 1 < ft_local s then fit_validate cfg False (fit_update_weights s) else s)
            in Inr (fit_save_checkpoint cfg esi_close True s1)))"

definition fa_fit :: "ft_config \<Rightarrow> bool list \<Rightarrow> bool \<Rightarrow> ft_state \<Rightarrow> ft_state result" where
  "fa_fit cfg esis final_esi s = fit_finish cfg final_esi (foldl (fit_step cfg) s esis)"

lemma fit_step_counts:
  "ft_local (fit_step cfg s e) = fst (update_local_step (fc_sync_step cfg) (ft_local s, ft_version s))"
  "ft_version (fit_step cfg s e) = snd (update_local_step (fc_sync_step cfg) (ft_local s, ft_version s))"
  by (simp_all add: fit_step_def fit_save_checkpoint_def fit_validate_def fit_update_weights_def fit_update_local_step_def ft_note_def Let_def
      case_prod_unfold)

lemma fit_steps_both:
  assumes "0 < fc_sync_step cfg" and "ft_local s = 1"
  shows "ft_local (foldl (fit_step cfg) s esis) = 1 + length esis mod fc_sync_step cfg \<and>
    ft_version (foldl (fit_step cfg) s esis) = ft_version s + length esis div fc_sync_step cfg"
proof (induction esis rule: rev_induct)
  case (snoc e es)
  have "length es mod fc_sync_step cfg < fc_sync_step cfg" using assms(1) by simp
  then show ?case using snoc by (auto simp: fit_step_counts update_local_step_def mod_Suc div_Suc)
qed (use assms in simp)

lemmas fit_steps_counts = conjunct1[OF fit_steps_both] conjunct2[OF fit_steps_both]

text \<open>
  What happens after the last batch.  The weights are only synced when no step is left over since the last sync, where they are synced
  already; a validation is never run; and a checkpoint is only written for a version that has none.
\<close>

theorem no_final_validation:
  "fit_finish cfg esi_close s =
     (if fc_test_freq cfg = 0 then Inl ZeroDivisionError
      else (let synced = (if int (ft_version s) mod fc_test_freq cfg \<noteq> 0 \<and> ft_local s = 1 then [Synced_to (ft_version s)] else []);
                saved = (if ft_version s \<noteq> ft_last_ckpt s \<and> 0 < fc_save_freq cfg then [Saved_at (ft_version s)] else [])
            in Inr (s\<lparr> ft_last_ckpt := if saved = [] then ft_last_ckpt s else ft_version s, ft_log := ft_log s @ synced @ saved \<rparr>)))"
  by (auto simp: fit_finish_def fit_save_checkpoint_def fit_validate_def fit_update_weights_def ft_note_def Let_def)

lemma left_over_steps:
  assumes "ft_last_ckpt s = ft_version s" and "ft_local s + length esis \<le> fc_sync_step cfg" and "1 \<le> ft_local s"
  shows "ft_log (foldl (fit_step cfg) s esis) = ft_log s @ replicate (length esis) Trained_step \<and>
    ft_last_ckpt (foldl (fit_step cfg) s esis) = ft_version s \<and> ft_version (foldl (fit_step cfg) s esis) = ft_version s \<and>
    ft_local (foldl (fit_step cfg) s esis) = ft_local s + length esis"
  using assms(2)
proof (induction esis rule: rev_induct)
  case (snoc e es)
  let ?t = "foldl (fit_step cfg) s es"
  have IH: "ft_log ?t = ft_log s @ replicate (length es) Trained_step" "ft_last_ckpt ?t = ft_version s" "ft_version ?t = ft_version s"
      "ft_local ?t = ft_local s + length es"
    using snoc by auto
  have "ft_local ?t < fc_sync_step cfg" using IH(4) snoc.prems by simp
  then have "update_local_step (fc_sync_step cfg) (ft_local ?t, ft_version ?t) = (ft_local ?t + 1, ft_version ?t)" by (simp add: update_local_step_def)
  then have "fit_step cfg ?t e = ?t\<lparr> ft_local := ft_local ?t + 1, ft_log := ft_log ?t @ [Trained_step] \<rparr>"
    using IH assms(3) by (simp add: fit_step_def fit_update_local_step_def fit_update_weights_def fit_validate_def fit_save_checkpoint_def ft_note_def)
  then show ?case using IH by (simp add: replicate_append_same)
qed (use assms in simp)

lemma last_ckpt_le:
  assumes "0 < fc_sync_step cfg" and "ft_last_ckpt s \<le> ft_version s"
  shows "ft_last_ckpt (foldl (fit_step cfg) s esis) \<le> ft_version (foldl (fit_step cfg) s esis)"
proof (induction esis rule: rev_induct)
  case (snoc e es)
  let ?t = "foldl (fit_step cfg) s es"
  have "ft_last_ckpt (fit_step cfg ?t e) \<in> {ft_last_ckpt ?t, ft_version (fit_step cfg ?t e)}"
    by (simp add: fit_step_def fit_save_checkpoint_def fit_validate_def fit_update_weights_def fit_update_local_step_def ft_note_def Let_def case_prod_unfold)
  moreover have "ft_version ?t \<le> ft_version (fit_step cfg ?t e)" by (simp add: fit_step_counts update_local_step_def)
  ultimately show ?case using snoc by auto
qed (use assms in simp)

text \<open>
  C40: updates that are lost.  When the number of batches is no multiple of the synchronisation step and the last version was saved, the
  updates after it are neither synced nor saved: the run ends with them.
\<close>

theorem left_over_updates_lost:
  assumes K: "0 < fc_sync_step cfg" and start: "ft_local s = 1" "ft_last_ckpt s \<le> ft_version s" and freq: "0 < fc_save_freq cfg" "fc_test_freq cfg \<noteq> 0"
    and q: "q = length esis div fc_sync_step cfg" "0 < q" "int (ft_version s + q) mod fc_save_freq cfg = 0"
    and r: "r = length esis mod fc_sync_step cfg" "0 < r"
  shows "\<exists>s' before. fa_fit cfg esis final_esi s = Inr s' \<and> ft_log s' = before @ [Saved_at (ft_version s + q)] @ replicate r Trained_step"
proof -
  let ?K = "fc_sync_step cfg"
  define es where "es = take (q * ?K - 1) esis"
  define e where "e = esis ! (q * ?K - 1)"
  define rest where "rest = drop (q * ?K) esis"
  have n: "length esis = q * ?K + r" using q(1) r(1) by simp
  have pos: "0 < q * ?K" using q(2) K by simp
  have "q * ?K - 1 < length esis" using n pos r(2) by simp
  then have split: "esis = es @ [e] @ rest" using id_take_nth_drop[of "q * ?K - 1" esis] pos by (simp add: es_def e_def rest_def)
  have len: "length es = q * ?K - 1" "length rest = r" using n pos by (simp_all add: es_def rest_def)
  let ?t = "foldl (fit_step cfg) s es" and ?u = "foldl (fit_step cfg) s (es @ [e])"
  have counts: "ft_local ?u = 1" "ft_version ?u = ft_version s + q"
    using fit_steps_counts[OF K start(1), of "es @ [e]"] len(1) pos by auto
  have up: "update_local_step ?K (ft_local ?t, ft_version ?t) = (1, ft_version s + q)"
    using counts fit_step_counts[of cfg ?t e] by (metis foldl_Cons foldl_Nil foldl_append prod.collapse)
  have "ft_version ?t < ft_version s + q" using up fit_steps_counts(1)[OF K start(1), of es] by (auto simp: update_local_step_def split: if_splits)
  then have "ft_last_ckpt ?t \<noteq> ft_version s + q" using last_ckpt_le[OF K start(2), of es] by simp
  then have saved: "ft_last_ckpt ?u = ft_version s + q" "\<exists>before. ft_log ?u = before @ [Saved_at (ft_version s + q)]"
    using up q(3) freq(1)
    by (auto simp: fit_step_def fit_update_local_step_def fit_update_weights_def fit_validate_def fit_save_checkpoint_def ft_note_def Let_def)
  have "ft_local ?u + length rest \<le> ?K" using counts len(2) r(1) mod_less_divisor[OF K, of "length esis"] by simp
  from left_over_steps[OF _ this] counts saved(1)
  have steps: "ft_log (foldl (fit_step cfg) ?u rest) = ft_log ?u @ replicate r Trained_step" "ft_last_ckpt (foldl (fit_step cfg) ?u rest) = ft_version s + q"
      "ft_version (foldl (fit_step cfg) ?u rest) = ft_version s + q" "ft_local (foldl (fit_step cfg) ?u rest) = 1 + r"
    using len(2) by simp_all
  have "fa_fit cfg esis final_esi s = fit_finish cfg final_esi (foldl (fit_step cfg) ?u rest)" by (simp add: fa_fit_def split)
  also have "\<dots> = Inr (foldl (fit_step cfg) ?u rest)"
    using steps freq(2) r(2) by (simp add: fit_finish_def fit_update_weights_def fit_validate_def fit_save_checkpoint_def)
  finally show ?thesis using steps(1) saved(2) by auto
qed

section \<open>Hybrid replicas\<close>

text \<open>A replica is its address and its handle.  \<open>hm_balancer\<close> is the shared balancer of requests.\<close>

type_synonym 'h replica = "str \<times> 'h"

record ('c, 'h) hybrid_manager =
  hm_hybrid :: "(str, 'h replica) dict"
  hm_alive :: "(str, 'h replica) dict"
  hm_alive_addresses :: "(str, str) dict"
  hm_rollout :: "'h replica list"
  hm_addresses :: "str list"
  hm_handles :: "'h list"
  hm_balancer :: "('c, 'h) balancer"

definition to_activate :: "str list \<Rightarrow> ('c, 'h) hybrid_manager \<Rightarrow> (str \<times> 'h replica) list" where
  "to_activate resource_ids m =
     concat (map (\<lambda>rid. if map_of (hm_alive m) rid \<noteq> None then []
                       else (case map_of (hm_hybrid m) rid of None \<Rightarrow> [] | Some rep \<Rightarrow> [(rid, rep)])) resource_ids)"

definition track_replica :: "('c, 'h) hybrid_manager \<Rightarrow> str \<times> 'h replica \<Rightarrow> ('c, 'h) hybrid_manager" where
  "track_replica m x =
     (let (rid, rep) = x; (addr, handle) = rep
      in m\<lparr> hm_handles := if addr \<in> set (hm_addresses m) then hm_handles m else hm_handles m @ [handle],
            hm_addresses := if addr \<in> set (hm_addresses m) then hm_addresses m else hm_addresses m @ [addr],
            hm_rollout := if rep \<in> set (hm_rollout m) then hm_rollout m else hm_rollout m @ [rep],
            hm_alive := AList.update rid rep (hm_alive m), hm_alive_addresses := AList.update rid addr (hm_alive_addresses m) \<rparr>)"

definition add_replicas :: "str list \<Rightarrow> ('c, 'h) hybrid_manager \<Rightarrow> nat \<times> ('c, 'h) hybrid_manager" where
  "add_replicas resource_ids m =
     (let valid = to_activate resource_ids m;
          servers_to_add = foldl (\<lambda>d (rid, addr, handle). AList.update addr handle d) [] valid
      in if servers_to_add = [] then (0, m)
         else (length valid, foldl track_replica (m\<lparr> hm_balancer := add_servers servers_to_add (hm_balancer m) \<rparr>) valid))"

definition index_of :: "'a \<Rightarrow> 'a list \<Rightarrow> nat" where
  "index_of x xs = length (takeWhile (\<lambda>y. y \<noteq> x) xs)"

definition remove_at :: "nat \<Rightarrow> 'a list \<Rightarrow> 'a list" where
  "remove_at i xs = take i xs @ drop (i + 1) xs"

text \<open>A resource named twice is missing the second time: the loop raises and is caught with the state it has reached.\<close>

fun untrack_replicas :: "str list \<Rightarrow> ('c, 'h) hybrid_manager \<Rightarrow> bool \<times> ('c, 'h) hybrid_manager" where
  "untrack_replicas [] m = (True, m)"
| "untrack_replicas (rid # rids) m =
     (case (map_of (hm_alive_addresses m) rid, map_of (hm_alive m) rid) of
        (Some addr, Some rep) \<Rightarrow>
          untrack_replicas rids
            (m\<lparr> hm_handles := if addr \<in> set (hm_addresses m) then remove_at (index_of addr (hm_addresses m)) (hm_handles m) else hm_handles m,
               hm_addresses := if addr \<in> set (hm_addresses m) then remove_at (index_of addr (hm_addresses m)) (hm_addresses m) else hm_addresses m,
               hm_rollout := remove1 rep (hm_rollout m), hm_alive := AList.delete rid (hm_alive m),
               hm_alive_addresses := AList.delete rid (hm_alive_addresses m) \<rparr>)
      | _ \<Rightarrow> (False, m))"

definition remove_replicas :: "str list \<Rightarrow> ('c, 'h) hybrid_manager \<Rightarrow> nat \<times> ('c, 'h) hybrid_manager" where
  "remove_replicas resource_ids m =
     (let valid = filter (\<lambda>rid. map_of (hm_alive m) rid \<noteq> None) resource_ids;
          server_ids = concat (map (\<lambda>rid. case map_of (hm_alive_addresses m) rid of None \<Rightarrow> [] | Some a \<Rightarrow> [a]) valid)
      in if server_ids = [] then (0, m)
         else (case untrack_replicas valid (m\<lparr> hm_balancer := remove_servers server_ids (hm_balancer m) \<rparr>) of
             (ok, m1) \<Rightarrow> (if ok then length valid else 0, m1)))"

definition get_active_server_count :: "('c, 'h) hybrid_manager \<Rightarrow> nat" where
  "get_active_server_count m = length (hm_rollout m) + length (hm_alive m)"

definition get_num_hybrid_replicas :: "('c, 'h) hybrid_manager \<Rightarrow> nat" where
  "get_num_hybrid_replicas m = length (hm_alive m)"

text \<open>The replicas to activate are registered and sleeping, and no server of the balancer or the manager has their addresses.\<close>

definition unknown :: "('c, 'h) hybrid_manager \<Rightarrow> str \<Rightarrow> str \<Rightarrow> bool" where
  "unknown m rid addr \<longleftrightarrow> rid \<notin> fst ` set (hm_alive m) \<and> rid \<notin> fst ` set (hm_alive_addresses m) \<and>
     addr \<notin> set (hm_addresses m) \<and> addr \<notin> fst ` set (hm_rollout m)"

definition sleeping :: "(str \<times> 'h replica) list \<Rightarrow> ('c, 'h) hybrid_manager \<Rightarrow> bool" where
  "sleeping reps m \<longleftrightarrow> distinct (map fst reps) \<and> distinct (map (fst \<circ> snd) reps) \<and> length (hm_handles m) = length (hm_addresses m) \<and>
     (\<forall>x \<in> set reps. map_of (hm_hybrid m) (fst x) = Some (snd x) \<and> unknown m (fst x) (fst (snd x)) \<and>
        fst (snd x) \<notin> fst ` set (servers (hm_balancer m)) \<and> fst (snd x) \<notin> fst ` set (inflight_requests (hm_balancer m)))"

text \<open>The manager with further replicas at the ends of its lists.\<close>

definition with_replicas :: "(str \<times> 'h replica) list \<Rightarrow> ('c, 'h) hybrid_manager \<Rightarrow> ('c, 'h) hybrid_manager" where
  "with_replicas reps m = m\<lparr> hm_handles := hm_handles m @ map (snd \<circ> snd) reps, hm_addresses := hm_addresses m @ map (fst \<circ> snd) reps,
     hm_rollout := hm_rollout m @ map snd reps, hm_alive := hm_alive m @ reps,
     hm_alive_addresses := hm_alive_addresses m @ map (\<lambda>(rid, addr, h). (rid, addr)) reps \<rparr>"

lemma foldl_update_fresh:
  "distinct (map fst xs) \<Longrightarrow> fst ` set xs \<inter> fst ` set d = {} \<Longrightarrow> foldl (\<lambda>d (k, v). AList.update k v d) d xs = d @ xs"
proof (induction xs arbitrary: d)
  case (Cons x xs)
  then show ?case by (cases x) (force simp: update_fresh)
qed simp

lemma unknown_with:
  assumes "unknown m (fst y) (fst (snd y))" and "fst y \<noteq> fst x" and "fst (snd y) \<noteq> fst (snd x)"
  shows "unknown (with_replicas [x] m) (fst y) (fst (snd y))"
  using assms by (simp add: unknown_def with_replicas_def case_prod_unfold)

lemma track_all:
  assumes "distinct (map fst reps)" and "distinct (map (fst \<circ> snd) reps)" and "\<forall>x \<in> set reps. unknown m (fst x) (fst (snd x))"
  shows "foldl track_replica m reps = with_replicas reps m"
  using assms
proof (induction reps arbitrary: m)
  case (Cons x reps)
  have x: "unknown m (fst x) (fst (snd x))" using Cons.prems(3) by simp
  then have "snd x \<notin> set (hm_rollout m)" by (auto simp: unknown_def)
  then have one: "track_replica m x = with_replicas [x] m"
    using x by (simp add: unknown_def track_replica_def with_replicas_def update_fresh Let_def case_prod_unfold)
  have "\<forall>y \<in> set reps. unknown (with_replicas [x] m) (fst y) (fst (snd y))"
  proof
    fix y assume y: "y \<in> set reps"
    then have "fst y \<noteq> fst x" "fst (snd y) \<noteq> fst (snd x)" using Cons.prems(1,2) by (auto simp: rev_image_eqI)
    then show "unknown (with_replicas [x] m) (fst y) (fst (snd y))" using Cons.prems(3) y by (intro unknown_with) auto
  qed
  then have "foldl track_replica (with_replicas [x] m) reps = with_replicas reps (with_replicas [x] m)"
    using Cons.prems by (intro Cons.IH) auto
  then show ?case using one by (simp add: with_replicas_def)
qed (simp add: with_replicas_def)

lemma remove_at_append [simp]: "remove_at (length xs) (xs @ y # ys) = xs @ ys"
  by (simp add: remove_at_def)

lemma index_of_append: "x \<notin> set xs \<Longrightarrow> index_of x (xs @ x # ys) = length xs"
  by (induction xs) (auto simp: index_of_def)

lemma delete_append:
  assumes "k \<notin> fst ` set d" and "k \<notin> fst ` set d'"
  shows "AList.delete k (d @ (k, v) # d') = d @ d'"
proof -
  have "filter (\<lambda>(k', _). k \<noteq> k') xs = xs" if "k \<notin> fst ` set xs" for xs :: "('a \<times> 'b) list" using that by (intro filter_True) force
  then show ?thesis using assms by (simp add: AList.delete_eq)
qed

lemma untrack_all:
  assumes "distinct (map fst reps)" and "distinct (map (fst \<circ> snd) reps)" and "\<forall>x \<in> set reps. unknown m (fst x) (fst (snd x))"
    and "length (hm_handles m) = length (hm_addresses m)"
  shows "untrack_replicas (map fst reps) (with_replicas reps m) = (True, m)"
  using assms
proof (induction reps)
  case (Cons x reps)
  obtain rid addr h where x: "x = (rid, addr, h)" by (metis prod.exhaust)
  have u: "unknown m rid addr" using Cons.prems(3) by (simp add: x)
  have new: "rid \<notin> fst ` set reps" "addr \<notin> (fst \<circ> snd) ` set reps" using Cons.prems(1,2) by (simp_all add: x)
  have "map_of (hm_alive_addresses (with_replicas (x # reps) m)) rid = Some addr" "map_of (hm_alive (with_replicas (x # reps) m)) rid = Some (addr, h)"
    using map_of_eq_None_iff[of "hm_alive m" rid] map_of_eq_None_iff[of "hm_alive_addresses m" rid] u
    by (simp_all add: with_replicas_def x map_add_def unknown_def)
  moreover have "remove1 (addr, h) (hm_rollout m @ (addr, h) # map snd reps) = hm_rollout m @ map snd reps"
    using u by (subst remove1_append) (force simp: unknown_def)
  moreover have "AList.delete rid (hm_alive_addresses m @ (rid, addr) # map (\<lambda>(rid, addr, h). (rid, addr)) reps) =
      hm_alive_addresses m @ map (\<lambda>(rid, addr, h). (rid, addr)) reps"
    using u new(1) by (intro delete_append) (auto simp: unknown_def rev_image_eqI)
  moreover have "AList.delete rid (hm_alive m @ (rid, addr, h) # reps) = hm_alive m @ reps"
    using u new(1) by (intro delete_append) (auto simp: unknown_def)
  moreover have "index_of addr (hm_addresses m @ addr # map (fst \<circ> snd) reps) = length (hm_handles m)"
    using u Cons.prems(4) by (simp add: index_of_append unknown_def)
  moreover have "remove_at (length (hm_handles m)) (hm_addresses m @ addr # map (fst \<circ> snd) reps) = hm_addresses m @ map (fst \<circ> snd) reps"
    unfolding Cons.prems(4) by simp
  ultimately have "untrack_replicas (map fst (x # reps)) (with_replicas (x # reps) m) = untrack_replicas (map fst reps) (with_replicas reps m)"
    by (simp add: x) (simp add: with_replicas_def)
  then show ?case using Cons by simp
qed (simp add: with_replicas_def)

lemma add_servers_fresh:
  assumes "distinct (map fst srv)" and "\<forall>x \<in> set srv. fst x \<notin> fst ` set (servers lb) \<and> fst x \<notin> fst ` set (inflight_requests lb)"
  shows "add_servers srv lb = lb\<lparr> inflight_requests := inflight_requests lb @ map (\<lambda>x. (fst x, 0)) srv, servers := servers lb @ srv \<rparr>"
  using assms
proof (induction srv arbitrary: lb)
  case (Cons x srv)
  let ?lb = "lb\<lparr> inflight_requests := inflight_requests lb @ [(fst x, 0)], servers := servers lb @ [x] \<rparr>"
  have "add_servers (x # srv) lb = add_servers srv ?lb" using Cons.prems(2) by (cases x) (simp add: add_servers_def update_fresh)
  also have "\<dots> = ?lb\<lparr> inflight_requests := inflight_requests ?lb @ map (\<lambda>x. (fst x, 0)) srv, servers := servers ?lb @ srv \<rparr>"
    using Cons.prems by (intro Cons.IH) (auto simp: rev_image_eqI)
  finally show ?case by simp
qed (simp add: add_servers_def)

lemma remove_servers_last:
  assumes "distinct (map fst srv)" and "\<forall>x \<in> set srv. fst x \<notin> fst ` set (servers lb) \<and> fst x \<notin> fst ` set (inflight_requests lb)"
  shows "remove_servers (map fst srv) (lb\<lparr> inflight_requests := inflight_requests lb @ map (\<lambda>x. (fst x, 0)) srv, servers := servers lb @ srv \<rparr>) = lb"
  using assms
proof (induction srv)
  case (Cons x srv)
  obtain sid h where x: "x = (sid, h)" by (cases x)
  have "AList.delete sid (inflight_requests lb @ (sid, 0) # map (\<lambda>x. (fst x, 0)) srv) = inflight_requests lb @ map (\<lambda>x. (fst x, 0)) srv"
    using Cons.prems by (intro delete_append) (auto simp: x image_image)
  moreover have "AList.delete sid (servers lb @ (sid, h) # srv) = servers lb @ srv"
    using Cons.prems by (intro delete_append) (auto simp: x)
  ultimately have "remove_servers (map fst (x # srv)) (lb\<lparr> inflight_requests := inflight_requests lb @ map (\<lambda>x. (fst x, 0)) (x # srv), servers := servers lb @ x # srv \<rparr>) =
      remove_servers (map fst srv) (lb\<lparr> inflight_requests := inflight_requests lb @ map (\<lambda>x. (fst x, 0)) srv, servers := servers lb @ srv \<rparr>)"
    by (simp add: remove_servers_def x)
  then show ?case using Cons by simp
qed (simp add: remove_servers_def)

text \<open>
  The hybrid replicas that serve a validation leave no trace: with their addresses new to the balancer and the manager, removing what was
  added gives back the balancer and the manager as they were.  In between every one of them counts as two active servers.
\<close>

theorem hybrid_replicas_restored:
  assumes "sleeping reps m" and "reps \<noteq> []"
  shows "\<exists>m1. add_replicas (map fst reps) m = (length reps, m1) \<and> remove_replicas (map fst reps) m1 = (length reps, m) \<and>
    get_active_server_count m1 = get_active_server_count m + 2 * length reps"
proof -
  let ?srv = "map snd reps"
  have d: "distinct (map fst reps)" "distinct (map (fst \<circ> snd) reps)" "length (hm_handles m) = length (hm_addresses m)"
    and each: "\<forall>x \<in> set reps. map_of (hm_hybrid m) (fst x) = Some (snd x) \<and> unknown m (fst x) (fst (snd x))"
    and fresh: "\<forall>x \<in> set ?srv. fst x \<notin> fst ` set (servers (hm_balancer m)) \<and> fst x \<notin> fst ` set (inflight_requests (hm_balancer m))"
    using assms(1) by (auto simp: sleeping_def)
  define lb where "lb = add_servers ?srv (hm_balancer m)"
  define m1 where "m1 = with_replicas reps (m\<lparr> hm_balancer := lb \<rparr>)"
  have "map_of (hm_alive m) (fst x) = None" if "x \<in> set reps" for x
    using each that by (auto simp: unknown_def map_of_eq_None_iff)
  then have rows: "map (\<lambda>rid. if map_of (hm_alive m) rid \<noteq> None then [] else (case map_of (hm_hybrid m) rid of None \<Rightarrow> [] | Some rep \<Rightarrow> [(rid, rep)])) (map fst reps) =
      map (\<lambda>x. [x]) reps" using each by (simp add: comp_def)
  then have valid: "to_activate (map fst reps) m = reps" unfolding to_activate_def rows concat_map_singleton by simp
  have "foldl (\<lambda>d (k, v). AList.update k v d) [] ?srv = ?srv" using foldl_update_fresh[of ?srv "[]"] d(2) by simp
  then have srv: "foldl (\<lambda>d (rid, addr, handle). AList.update addr handle d) [] reps = ?srv" by (simp add: foldl_map case_prod_unfold)
  have "foldl track_replica (m\<lparr> hm_balancer := lb \<rparr>) reps = m1"
    unfolding m1_def using d each by (intro track_all) (auto simp: unknown_def)
  then have add: "add_replicas (map fst reps) m = (length reps, m1)"
    using assms(2) unfolding add_replicas_def valid Let_def srv by (simp add: lb_def)
  have alive: "map_of (hm_alive m1) (fst x) \<noteq> None" "map_of (hm_alive_addresses m1) (fst x) = Some (fst (snd x))" if x: "x \<in> set reps" for x
  proof -
    show "map_of (hm_alive m1) (fst x) \<noteq> None" using x by (auto simp: m1_def with_replicas_def map_of_eq_None_iff)
    have "map_of (hm_alive_addresses m) (fst x) = None" using each x by (auto simp: unknown_def map_of_eq_None_iff)
    moreover have "map_of (map (\<lambda>(rid, addr, h). (rid, addr)) reps) (fst x) = Some (fst (snd x))"
      using d(1) x by (intro map_of_is_SomeI) (auto simp: comp_def case_prod_unfold intro: rev_image_eqI)
    ultimately show "map_of (hm_alive_addresses m1) (fst x) = Some (fst (snd x))" by (simp add: m1_def with_replicas_def map_add_def)
  qed
  have valid': "filter (\<lambda>rid. map_of (hm_alive m1) rid \<noteq> None) (map fst reps) = map fst reps" using alive(1) by (intro filter_True) auto
  have "map (\<lambda>rid. case map_of (hm_alive_addresses m1) rid of None \<Rightarrow> [] | Some a \<Rightarrow> [a]) (map fst reps) = map (\<lambda>a. [a]) (map fst ?srv)"
    using alive(2) by simp
  then have ids: "concat (map (\<lambda>rid. case map_of (hm_alive_addresses m1) rid of None \<Rightarrow> [] | Some a \<Rightarrow> [a]) (map fst reps)) = map fst ?srv"
    by (simp only: concat_map_singleton map_ident)
  have dsrv: "distinct (map fst ?srv)" using d(2) by (simp add: comp_def)
  have "remove_servers (map fst ?srv) lb = hm_balancer m"
    unfolding lb_def add_servers_fresh[OF dsrv fresh] by (rule remove_servers_last[OF dsrv fresh])
  then have "m1\<lparr> hm_balancer := remove_servers (map fst ?srv) (hm_balancer m1) \<rparr> = with_replicas reps m" by (simp add: m1_def with_replicas_def)
  moreover have "untrack_replicas (map fst reps) (with_replicas reps m) = (True, m)" using d each by (intro untrack_all) auto
  ultimately have "remove_replicas (map fst reps) m1 = (length reps, m)"
    using assms(2) unfolding remove_replicas_def Let_def valid' ids by simp
  moreover have "get_active_server_count m1 = get_active_server_count m + 2 * length reps"
    by (simp add: get_active_server_count_def m1_def with_replicas_def)
  ultimately show ?thesis using add by blast
qed

section \<open>Witnesses\<close>

theorem stale_samples_bounded_witness:
  "\<exists>s. fa_reach one_ahead s \<and> fs_trainer s = Syncing \<and> outstanding s + 1 \<le> 2 + 1"
proof -
  obtain s where s: "fa_reach one_ahead s" "fs_trainer s = Syncing" using overtaking_run_ends fa_run_reach[OF fa_init] by blast
  from stale_samples_bounded[OF s(1) _ _ s(2)] show ?thesis using s by (auto simp: one_ahead_eval)
qed

definition dropping_run :: "fa_action list" where
  "dropping_run =
     [Feed, Feed, Feed, Feed, Feed, Check, Take, Submit, Check, Take, Submit, Check, Set_paused, Task_done 1, Task_done 2, Discard, Get, Train,
      Sync, Resumed, Check, Take, Get, Train, Sync, Submit, Check, Take, Submit, Check, Take, Task_done 3, Discard, Submit, Task_done 4]"

theorem drops_only_over_quota_witness:
  "\<exists>s s'. fa_reach one_ahead s \<and> fa_act one_ahead (Task_done 5) s = Some s' \<and> fs_dropped s' \<noteq> fs_dropped s \<and> get_queue_size (fs_queue s) = 2"
proof -
  have "case fa_run one_ahead dropping_run (fa_start one_ahead) of None \<Rightarrow> False
    | Some s \<Rightarrow> (case fa_act one_ahead (Task_done 5) s of None \<Rightarrow> False | Some s' \<Rightarrow> fs_dropped s' \<noteq> fs_dropped s)"
    unfolding one_ahead_eval by code_simp
  then obtain s s' where s: "fa_run one_ahead dropping_run (fa_start one_ahead) = Some s" "fa_act one_ahead (Task_done 5) s = Some s'"
    "fs_dropped s' \<noteq> fs_dropped s"
    by (auto split: option.splits)
  have reach: "fa_reach one_ahead s" using fa_run_reach[OF fa_init s(1)] .
  from drops_only_over_quota[OF reach _ _ s(2,3)] show ?thesis using reach s by (auto simp: one_ahead_eval)
qed

definition finishing_run :: "fa_action list" where
  "finishing_run = [Feed, Feed, Feed, Check, Take, Submit, Task_done 1, Get, Check, Take, Submit, Task_done 2, Check, Take, Discard, End_signal, Get, Train, Get]"

definition two_samples :: fa_params where
  "two_samples = \<lparr> fp_required = 2, fp_sync_step = 2, fp_max_required = 4, fp_concurrent = 4, fp_total = 2 \<rparr>"

theorem samples_trained_once_witness:
  "\<exists>s. fa_reach two_samples s \<and> fs_trainer s = Trainer_stopped \<and> length (fs_trained s) = 2"
proof -
  have "case fa_run two_samples finishing_run (fa_start two_samples) of None \<Rightarrow> False
    | Some s \<Rightarrow> fs_trainer s = Trainer_stopped \<and> dropped_samples (fs_queue s) = 0"
    unfolding two_samples_def by code_simp
  then obtain s where s: "fa_run two_samples finishing_run (fa_start two_samples) = Some s" "fs_trainer s = Trainer_stopped"
    "dropped_samples (fs_queue s) = 0"
    by (auto split: option.splits)
  have reach: "fa_reach two_samples s" using fa_run_reach[OF fa_init s(1)] .
  from samples_trained_once[OF reach] s(2) have "length (fs_trained s) = 2" using s(3) by (simp add: two_samples_def)
  then show ?thesis using reach s(2) by blast
qed

theorem left_over_updates_lost_witness:
  "\<exists>s' before. fa_fit \<lparr> fc_sync_step = 2, fc_test_freq = 1, fc_save_freq = 1 \<rparr> [False, False, False] False
     \<lparr> ft_local = 1, ft_version = 0, ft_last_ckpt = 0, ft_log = [] \<rparr> = Inr s' \<and> ft_log s' = before @ [Saved_at (0 + 1)] @ replicate 1 Trained_step"
  using left_over_updates_lost[of "\<lparr> fc_sync_step = 2, fc_test_freq = 1, fc_save_freq = 1 \<rparr>" "\<lparr> ft_local = 1, ft_version = 0, ft_last_ckpt = 0, ft_log = [] \<rparr>"
      1 "[False, False, False]" 1 False] by simp

theorem hybrid_replicas_restored_witness:
  "let m = \<lparr> hm_hybrid = [(''hybrid_0'', (''a'', 7 :: nat))], hm_alive = [], hm_alive_addresses = [], hm_rollout = [(''b'', 8)], hm_addresses = [''b''],
            hm_handles = [8], hm_balancer = \<lparr> servers = [(''b'', 8)], inflight_requests = [(''b'', 3)], request_id_to_server = () \<rparr> \<rparr>
   in \<exists>m1. add_replicas (map fst [(''hybrid_0'', (''a'', 7))]) m = (1, m1) \<and> remove_replicas (map fst [(''hybrid_0'', (''a'', 7 :: nat))]) m1 = (1, m)"
proof -
  let ?m = "\<lparr> hm_hybrid = [(''hybrid_0'', (''a'', 7 :: nat))], hm_alive = [], hm_alive_addresses = [], hm_rollout = [(''b'', 8)], hm_addresses = [''b''],
            hm_handles = [8], hm_balancer = \<lparr> servers = [(''b'', 8)], inflight_requests = [(''b'', 3)], request_id_to_server = () \<rparr> \<rparr>"
  have "sleeping [(''hybrid_0'', (''a'', 7))] ?m" by (simp add: sleeping_def unknown_def)
  from hybrid_replicas_restored[OF this] show ?thesis unfolding Let_def by auto
qed

end
