(* ===== verification/Hparams.thy ===== *)
theory Hparams
  imports OpdLoss PyStrings
begin

text \<open>
  The configuration of a run and the stages of continual training:
  \<open>src/CLightMLLM_new/src/hparams.py\<close> and the driver in \<open>train.py\<close>.  The fields that validation reads are
  modelled; numbers are reals and integers.
\<close>

section \<open>Validated arguments\<close>

definition lower_char :: "char \<Rightarrow> char" where
  "lower_char c = (let n = of_char c :: nat in if 65 \<le> n \<and> n \<le> 90 then char_of (n + 32) else c)"

definition lower :: "str \<Rightarrow> str" where
  "lower s = map lower_char s"

datatype torch_dtype = Float16 | BFloat16 | Float32

definition TORCH_DTYPES :: "(str, torch_dtype) dict" where
  "TORCH_DTYPES =
     [(''float16'', Float16), (''fp16'', Float16), (''bfloat16'', BFloat16), (''bf16'', BFloat16),
      (''float32'', Float32), (''fp32'', Float32)]"

definition parse_torch_dtype :: "str \<Rightarrow> torch_dtype result" where
  "parse_torch_dtype v = (case map_of TORCH_DTYPES (lower v) of Some d \<Rightarrow> Inr d | None \<Rightarrow> Inl ValueError)"

record method_args =
  m_name :: str
  m_lwf_alpha :: real
  m_lwf_temperature :: real
  m_rollout_max_new_tokens :: int
  m_rollout_num_generations :: int
  m_rollout_temperature :: real
  m_rollout_top_p :: real
  m_rollout_top_k :: "int option"
  m_student_server_port :: int
  m_student_server_timeout :: real
  m_sync_bucket_size_mb :: int
  m_sync_dtype :: "str option"
  m_grpo_kl_coef :: real
  m_grpo_reference_model :: bool
  m_opd_teacher_model :: "str option"
  m_opd_teacher_backend :: str
  m_opd_alpha :: real
  m_opd_temperature :: real
  m_opd_topk :: int
  m_opd_log_prob_min_clamp :: "real option"
  m_opd_loss_max_clamp :: "real option"
  m_teacher_server_port :: int
  m_teacher_server_timeout :: real

text \<open>\<open>if bad: raise ValueError\<close>, one after the other.\<close>

definition reject_if :: "bool \<Rightarrow> 'a result \<Rightarrow> 'a result" where
  "reject_if bad k = (if bad then Inl ValueError else k)"

definition method_post_init :: "method_args \<Rightarrow> method_args result" where
  "method_post_init a =
     reject_if (m_name a \<notin> {''base'', ''lwf'', ''grpo'', ''opd''}) (
     reject_if (m_lwf_alpha a < 0) (
     reject_if (m_lwf_temperature a \<le> 0) (
     reject_if (m_rollout_max_new_tokens a \<le> 0) (
     reject_if (m_rollout_num_generations a \<le> 0) (
     reject_if (m_rollout_temperature a \<le> 0) (
     reject_if (\<not> (0 < m_rollout_top_p a \<and> m_rollout_top_p a \<le> 1)) (
     reject_if (case m_rollout_top_k a of None \<Rightarrow> False | Some k \<Rightarrow> k \<le> 0) (
     reject_if (m_student_server_port a \<le> 0) (
     reject_if (m_student_server_timeout a \<le> 0) (
     reject_if (m_sync_bucket_size_mb a \<le> 0) (
     bind_res (case m_sync_dtype a of
                 None \<Rightarrow> Inr ()
               | Some d \<Rightarrow> if lower d \<in> {''none'', ''null''} then Inr ()
                           else bind_res (parse_torch_dtype (lower d)) (\<lambda>_. Inr ())) (\<lambda>_.
     reject_if (m_grpo_kl_coef a < 0) (
     reject_if (m_opd_alpha a < 0) (
     reject_if (m_opd_temperature a \<le> 0) (
     reject_if (m_opd_topk a \<le> 0) (
     reject_if (case m_opd_loss_max_clamp a of None \<Rightarrow> False | Some h \<Rightarrow> h \<le> 0) (
     reject_if (m_teacher_server_port a \<le> 0) (
     reject_if (m_teacher_server_timeout a \<le> 0) (
     Inr a)))))))))))))))))))"

text \<open>What the OPD learner reads of it.\<close>

definition opd_args_of :: "method_args \<Rightarrow> opd_args" where
  "opd_args_of a =
     \<lparr>opd_topk = nat (m_opd_topk a), opd_temperature = m_opd_temperature a, opd_alpha = m_opd_alpha a,
      opd_log_prob_min_clamp = m_opd_log_prob_min_clamp a, opd_loss_max_clamp = m_opd_loss_max_clamp a\<rparr>"

section \<open>The stages of a run\<close>

definition csv :: "str \<Rightarrow> str list" where
  "csv v = filter (\<lambda>item. item \<noteq> []) (map strip (split_on '','' v))"

record stage =
  stage_name :: str
  stage_dataset :: "str list"

datatype stage_arg = BareStage str | StageArgs str "str list"

text \<open>\<open>CLStageArguments.__post_init__\<close> and \<open>build_stage\<close>.\<close>

definition build_stage :: "stage_arg \<Rightarrow> stage result" where
  "build_stage arg =
     (let (name, dataset) = (case arg of BareStage s \<Rightarrow> (s, csv s) | StageArgs n ds \<Rightarrow> (n, ds))
      in reject_if (dataset = []) (Inr \<lparr>stage_name = name, stage_dataset = dataset\<rparr>))"

definition path_join :: "str \<Rightarrow> str \<Rightarrow> str" where
  "path_join a b =
     (if starts_with b ''/'' then b
      else if a = [] \<or> ends_with a ''/'' then a @ b else a @ ''/'' @ b)"

record run_args =
  r_save_dir :: str
  r_run_name :: str
  r_model_path :: "str option"
  r_export :: bool
  r_merge_lora :: bool
  r_lora :: bool

record stage_run =
  sr_dataset :: "str list"
  sr_model_path :: "str option"
  sr_save_dir :: str
  sr_run_name :: str
  sr_output_dir :: str
  sr_teacher_path :: "str option"
  sr_reference_path :: "str option"

definition resolve_aux_model_paths :: "method_args \<Rightarrow> str option \<Rightarrow> nat \<Rightarrow> str option \<times> str option" where
  "resolve_aux_model_paths a current stage_idx =
     (if m_name a = ''lwf'' \<and> 1 < stage_idx then (current, None)
      else if m_name a = ''opd'' \<and> m_opd_teacher_backend a = ''hf'' then
        ((case m_opd_teacher_model a of Some p \<Rightarrow> if p = [] then current else Some p | None \<Rightarrow> current), None)
      else if m_name a = ''grpo'' \<and> (m_grpo_reference_model a \<or> 0 < m_grpo_kl_coef a) then (None, current)
      else (None, None))"

fun run_stages :: "run_args \<Rightarrow> method_args \<Rightarrow> nat \<Rightarrow> str option \<Rightarrow> stage list \<Rightarrow> stage_run list" where
  "run_stages r a idx current [] = []"
| "run_stages r a idx current (st # stages) =
     (let (teacher, reference) = resolve_aux_model_paths a current idx;
          save_dir = path_join (r_save_dir r) (stage_name st);
          output_dir = path_join save_dir ''model''
      in \<lparr>sr_dataset = stage_dataset st, sr_model_path = current, sr_save_dir = save_dir,
          sr_run_name = (if r_run_name r = [] then stage_name st else r_run_name r @ ''_'' @ stage_name st),
          sr_output_dir = output_dir, sr_teacher_path = teacher, sr_reference_path = reference\<rparr>
         # run_stages r a (Suc idx) (Some output_dir) stages)"

definition training_run :: "run_args \<Rightarrow> method_args \<Rightarrow> stage_arg list \<Rightarrow> stage_run list result" where
  "training_run r args stage_args =
     bind_res (map_res build_stage stage_args) (\<lambda>stages.
     bind_res (method_post_init args) (\<lambda>a.
     reject_if (stages = []) (
     reject_if (1 < length stages \<and> \<not> r_export r) (
     reject_if (1 < length stages \<and> r_lora r \<and> \<not> r_merge_lora r) (
     Inr (run_stages r a 1 (r_model_path r) stages))))))"

section \<open>Facts\<close>

lemma reject_if_Inr [simp]: "reject_if b k = Inr y \<longleftrightarrow> \<not> b \<and> k = Inr y"
  by (simp add: reject_if_def)

lemma lower_char_idem: "lower_char (lower_char c) = lower_char c"
proof -
  have "of_char c < (256 :: nat)" by simp
  then show ?thesis by (auto simp: lower_char_def Let_def)
qed

lemma lower_idem [simp]: "lower (lower s) = lower s"
  by (simp add: lower_def lower_char_idem)

lemma parse_torch_dtype_ok:
  "(\<exists>d. parse_torch_dtype v = Inr d) \<longleftrightarrow> lower v \<in> fst ` set TORCH_DTYPES"
  by (metis (no_types, lifting) dom_map_of_conv_image_fst domIff option.case_eq_if parse_torch_dtype_def sum.distinct(1))

lemma parse_torch_dtype_error: "parse_torch_dtype v = Inl e \<Longrightarrow> e = ValueError"
  by (auto simp: parse_torch_dtype_def split: option.splits)

lemma method_post_init_same: "method_post_init a = Inr b \<Longrightarrow> b = a"
  by (simp add: method_post_init_def bind_res_Inr_iff)

text \<open>What an accepted configuration gives the OPD loss; the lower clamp and the teacher's backend are not checked.\<close>

lemma accepted_opd_args:
  assumes "method_post_init a = Inr b"
  shows "0 < opd_temperature (opd_args_of b) \<and> 0 < opd_topk (opd_args_of b) \<and> 0 \<le> opd_alpha (opd_args_of b) \<and>
    (\<forall>h. opd_loss_max_clamp (opd_args_of b) = Some h \<longrightarrow> 0 < h)"
  using assms method_post_init_same[OF assms]
  by (auto simp: method_post_init_def bind_res_Inr_iff opd_args_of_def)

lemma build_stage_dataset: "build_stage arg = Inr st \<Longrightarrow> stage_dataset st \<noteq> []"
  by (auto simp: build_stage_def Let_def split: stage_arg.splits)

lemma run_stages_length [simp]: "length (run_stages r a idx current stages) = length stages"
  by (induction r a idx current stages rule: run_stages.induct) (simp_all add: Let_def split: prod.splits)

lemma run_stages_nth:
  "i < length stages \<Longrightarrow>
   (let sr = run_stages r a idx current stages ! i;
        start = (if i = 0 then current else Some (sr_output_dir (run_stages r a idx current stages ! (i - 1))))
    in sr_dataset sr = stage_dataset (stages ! i) \<and> sr_model_path sr = start \<and>
       (sr_teacher_path sr, sr_reference_path sr) = resolve_aux_model_paths a start (idx + i))"
proof (induction r a idx current stages arbitrary: i rule: run_stages.induct)
  case (1 r a idx current)
  then show ?case by simp
next
  case (2 r a idx current st stages)
  show ?case
  proof (cases i)
    case 0
    then show ?thesis by (simp add: Let_def split: prod.splits)
  next
    case (Suc j)
    obtain t f where tf: "resolve_aux_model_paths a current idx = (t, f)" by fastforce
    show ?thesis using "2.IH"[OF tf[symmetric] refl refl, where i = j] "2.prems"
      by (cases j) (simp_all add: Suc tf Let_def)
  qed
qed

text \<open>
  The stages of a run form a chain: the first trains the configured model, every later one the model its predecessor exported, on
  its own non-empty list of datasets; learning without forgetting distils from exactly the model a stage starts from, but not on
  the first stage, and GRPO's reference is the model each stage starts from.
\<close>

theorem stages_chain:
  assumes "training_run r args stage_args = Inr runs"
  shows "length runs = length stage_args \<and> runs \<noteq> [] \<and> sr_model_path (runs ! 0) = r_model_path r \<and>
    (\<forall>i < length runs. sr_dataset (runs ! i) \<noteq> [] \<and>
       (0 < i \<longrightarrow> sr_model_path (runs ! i) = Some (sr_output_dir (runs ! (i - 1)))) \<and>
       (m_name args = ''lwf'' \<longrightarrow> sr_teacher_path (runs ! i) = (if i = 0 then None else sr_model_path (runs ! i))) \<and>
       (m_name args = ''grpo'' \<longrightarrow> 0 < m_grpo_kl_coef args \<longrightarrow> sr_reference_path (runs ! i) = sr_model_path (runs ! i)))"
proof -
  obtain stages where st: "map_res build_stage stage_args = Inr stages"
    and ne: "stages \<noteq> []" and runs: "runs = run_stages r args 1 (r_model_path r) stages"
    using assms by (auto simp: training_run_def bind_res_Inr_iff dest!: method_post_init_same split: if_splits)
  have len: "length stages = length stage_args" using st by (rule map_res_length)
  have ds: "stage_dataset (stages ! i) \<noteq> []" if "i < length stages" for i
    using map_res_nth[OF st, of i] that len build_stage_dataset by metis
  have one: "sr_dataset (runs ! i) \<noteq> [] \<and>
       (0 < i \<longrightarrow> sr_model_path (runs ! i) = Some (sr_output_dir (runs ! (i - 1)))) \<and>
       (m_name args = ''lwf'' \<longrightarrow> sr_teacher_path (runs ! i) = (if i = 0 then None else sr_model_path (runs ! i))) \<and>
       (m_name args = ''grpo'' \<longrightarrow> 0 < m_grpo_kl_coef args \<longrightarrow> sr_reference_path (runs ! i) = sr_model_path (runs ! i))"
    if i: "i < length runs" for i
  proof -
    have il: "i < length stages" using i by (simp add: runs)
    have f: "sr_dataset (runs ! i) = stage_dataset (stages ! i)"
      "sr_model_path (runs ! i) = (if i = 0 then r_model_path r else Some (sr_output_dir (runs ! (i - 1))))"
      "(sr_teacher_path (runs ! i), sr_reference_path (runs ! i)) = resolve_aux_model_paths args (sr_model_path (runs ! i)) (1 + i)"
      using run_stages_nth[OF il, of r args 1 "r_model_path r"] unfolding Let_def runs[symmetric] by (elim conjE, simp)+
    have "sr_teacher_path (runs ! i) = (if i = 0 then None else sr_model_path (runs ! i))" if "m_name args = ''lwf''"
      using f(3) that unfolding resolve_aux_model_paths_def by (cases "i = 0") auto
    moreover have "sr_reference_path (runs ! i) = sr_model_path (runs ! i)" if "m_name args = ''grpo''" "0 < m_grpo_kl_coef args"
      using f(3) that unfolding resolve_aux_model_paths_def by auto
    moreover have "0 < i \<longrightarrow> sr_model_path (runs ! i) = Some (sr_output_dir (runs ! (i - 1)))" using f(2) by simp
    ultimately show ?thesis using ds[OF il] f(1) by simp
  qed
  have "sr_model_path (runs ! 0) = r_model_path r"
    using run_stages_nth[of 0 stages r args 1 "r_model_path r"] ne by (simp add: runs Let_def)
  moreover have "length runs = length stage_args" using len by (simp add: runs)
  moreover have "runs \<noteq> []" using ne by (cases stages) (simp_all add: runs Let_def split: prod.splits)
  ultimately show ?thesis using one by blast
qed

definition example_method :: "str \<Rightarrow> method_args" where
  "example_method name =
     \<lparr>m_name = name, m_lwf_alpha = 1, m_lwf_temperature = 2, m_rollout_max_new_tokens = 64, m_rollout_num_generations = 1,
      m_rollout_temperature = 7 / 10, m_rollout_top_p = 9 / 10, m_rollout_top_k = None, m_student_server_port = 29588,
      m_student_server_timeout = 3600, m_sync_bucket_size_mb = 2048, m_sync_dtype = Some ''none'', m_grpo_kl_coef = 0,
      m_grpo_reference_model = False, m_opd_teacher_model = None, m_opd_teacher_backend = ''hf'', m_opd_alpha = 1,
      m_opd_temperature = 1, m_opd_topk = 32, m_opd_log_prob_min_clamp = Some (-10), m_opd_loss_max_clamp = Some 10,
      m_teacher_server_port = 29577, m_teacher_server_timeout = 600\<rparr>"

lemma example_method_ok: "name \<in> {''base'', ''lwf'', ''grpo'', ''opd''} \<Longrightarrow> method_post_init (example_method name) = Inr (example_method name)"
  by (auto simp: method_post_init_def reject_if_def example_method_def lower_def lower_char_def)

text \<open>Two stages of learning without forgetting.\<close>

theorem stages_chain_witness:
  "\<exists>runs. training_run \<lparr>r_save_dir = ''out'', r_run_name = ''run'', r_model_path = Some ''base'', r_export = True, r_merge_lora = False, r_lora = False\<rparr>
      (example_method ''lwf'') [BareStage ''a'', StageArgs ''second'' [''b'']] = Inr runs \<and>
    length runs = 2 \<and> sr_teacher_path (runs ! 1) = Some (sr_output_dir (runs ! 0)) \<and> sr_output_dir (runs ! 0) = ''out/a/model''"
proof -
  let ?r = "\<lparr>r_save_dir = ''out'', r_run_name = ''run'', r_model_path = Some ''base'', r_export = True, r_merge_lora = False, r_lora = False\<rparr>"
  have c: "csv ''a'' = [''a'']" by code_simp
  have name: "m_name (example_method ''lwf'') = ''lwf''" by (simp add: example_method_def)
  define stages where "stages = [\<lparr>stage_name = ''a'', stage_dataset = [''a'']\<rparr>, \<lparr>stage_name = ''second'', stage_dataset = [''b'']\<rparr>]"
  have st: "map_res build_stage [BareStage ''a'', StageArgs ''second'' [''b'']] = Inr stages"
    by (simp add: build_stage_def c reject_if_def stages_def)
  define runs where "runs = run_stages ?r (example_method ''lwf'') 1 (Some ''base'') stages"
  have run: "training_run ?r (example_method ''lwf'') [BareStage ''a'', StageArgs ''second'' [''b'']] = Inr runs"
    unfolding training_run_def st runs_def using example_method_ok[of "''lwf''"]
    by (simp add: stages_def reject_if_def)
  have out: "sr_output_dir (runs ! 0) = ''out/a/model''"
    by (simp add: runs_def stages_def Let_def path_join_def ends_with_def split: prod.splits)
  from stages_chain[OF run] show ?thesis using run out name
    by (auto simp: dest!: spec[of _ 1])
qed

end
