(* ===== verification/KarmarkarKarp.thy ===== *)
theory KarmarkarKarp
  imports Heapq "HOL-Library.Product_Lexorder" "HOL-Library.List_Lexorder"
begin

text \<open>
  The largest differencing method of \<open>karmarkar_karp\<close> in
  \<open>src/verl_new/verl/utils/seqlen_balancing.py\<close>: the nested classes \<open>Set\<close> and \<open>State\<close>
  with their orders, the heap of states and the merging loop.  Values are \<open>int\<close> and indices
  \<open>nat\<close>.  The facts show that the loop returns, that its result is a partition of the
  indices, how far the loads can be apart, and when no partition is empty.
\<close>

section \<open>Karmarkar-Karp: the classes Set and State\<close>

record kk_set =
  set_sum :: int
  set_items :: "(nat \<times> int) list"

definition kk_set_new :: kk_set where
  "kk_set_new = \<lparr>set_sum = 0, set_items = []\<rparr>"

definition kk_set_add :: "kk_set \<Rightarrow> nat \<Rightarrow> int \<Rightarrow> kk_set" where
  "kk_set_add s idx val =
     s\<lparr>set_items := set_items s @ [(idx, val)], set_sum := set_sum s + val\<rparr>"

definition kk_set_merge :: "kk_set \<Rightarrow> kk_set \<Rightarrow> kk_set" where
  "kk_set_merge s other = foldl (\<lambda>s (idx, val). kk_set_add s idx val) s (set_items other)"

definition kk_set_lt :: "kk_set \<Rightarrow> kk_set \<Rightarrow> bool" where
  "kk_set_lt s t =
     (if set_sum s \<noteq> set_sum t then set_sum s < set_sum t
      else if length (set_items s) \<noteq> length (set_items t)
      then length (set_items s) < length (set_items t)
      else set_items s < set_items t)"

record kk_state =
  state_k :: nat
  state_sets :: "kk_set list"

text \<open>
  \<open>State(items, k)\<close>: one item per set, the other sets empty, largest set first.  The code
  raises when there are more items than sets.
\<close>

definition kk_state_new :: "(nat \<times> int) list \<Rightarrow> nat \<Rightarrow> kk_state result" where
  "kk_state_new items k =
     asserting (length items = 1 \<or> length items = k)
       (if k < length items then Inl IndexError
        else Inr \<lparr>state_k = k,
                  state_sets = sorted_desc kk_set_lt
                    (map (\<lambda>(idx, seqlen). kk_set_add kk_set_new idx seqlen) items
                     @ replicate (k - length items) kk_set_new)\<rparr>)"

definition kk_get_partitions :: "kk_state \<Rightarrow> nat list list" where
  "kk_get_partitions st = map (\<lambda>s. map fst (set_items s)) (state_sets st)"

text \<open>\<open>merge\<close> pairs the largest set of one state with the smallest of the other.\<close>

definition kk_state_merge :: "kk_state \<Rightarrow> kk_state \<Rightarrow> kk_state" where
  "kk_state_merge st other =
     st\<lparr>state_sets := sorted_desc kk_set_lt
          (map (\<lambda>i. kk_set_merge (state_sets st ! i) (state_sets other ! (state_k st - 1 - i)))
               [0..<state_k st])\<rparr>"

definition kk_spread :: "kk_state \<Rightarrow> int" where
  "kk_spread st = set_sum (hd (state_sets st)) - set_sum (last (state_sets st))"

definition kk_state_lt :: "kk_state \<Rightarrow> kk_state \<Rightarrow> bool" where
  "kk_state_lt a b =
     (if kk_spread a \<noteq> kk_spread b then kk_spread a > kk_spread b
      else kk_set_lt (hd (state_sets b)) (hd (state_sets a)))"

section \<open>Karmarkar-Karp: the algorithm\<close>

text \<open>The states pushed before the loop: one per block of \<open>k\<close> items, or one per item.\<close>

definition kk_initial :: "(int \<times> nat) list \<Rightarrow> nat \<Rightarrow> bool \<Rightarrow> kk_state list result" where
  "kk_initial sorted_list k equal_size =
     (let itemss = (if equal_size
                    then map (\<lambda>b. map (\<lambda>i. (snd (sorted_list ! (b * k + i)), fst (sorted_list ! (b * k + i))))
                                      [0..<k])
                             [0..<length sorted_list div k]
                    else map (\<lambda>(seqlen, idx). [(idx, seqlen)]) sorted_list)
      in fold_res (\<lambda>pq items. bind_res (kk_state_new items k)
                                (\<lambda>st. Inr (heappush kk_state_lt pq st)))
                  [] itemss)"

function kk_loop :: "kk_state list \<Rightarrow> kk_state list" where
  "kk_loop pq =
     (if 2 \<le> length pq
      then let (state0, pq1) = heappop kk_state_lt pq;
               (state1, pq2) = heappop kk_state_lt pq1
           in kk_loop (heappush kk_state_lt pq2 (kk_state_merge state0 state1))
      else pq)"
  by pat_completeness auto
termination
proof (relation "measure length", goal_cases)
  case 1
  then show ?case by simp
next
  case (2 pq x state0 pq1 y state1 pq2)
  then have "pq2 = snd (heappop kk_state_lt (snd (heappop kk_state_lt pq)))"
    by (metis prod.collapse snd_conv)
  with 2(1) show ?case by (simp add: heapq.length_pop_pop_push)
qed

declare kk_loop.simps [simp del]

definition karmarkar_karp :: "int list \<Rightarrow> nat \<Rightarrow> bool \<Rightarrow> nat list list result" where
  "karmarkar_karp seqlen_list k_partitions equal_size =
     (let n = length seqlen_list;
          sorted_list = sort (zip seqlen_list [0..<n])
      in if equal_size \<and> k_partitions = 0 then Inl ZeroDivisionError
         else asserting (equal_size \<longrightarrow> n mod k_partitions = 0)
           (bind_res (kk_initial sorted_list k_partitions equal_size)
             (\<lambda>pq. case kk_loop pq of
                [] \<Rightarrow> Inl IndexError
              | final_state # _ \<Rightarrow>
                  (let partitions = kk_get_partitions final_state
                   in asserting (equal_size \<longrightarrow>
                        (\<forall>p \<in> set partitions. length p * k_partitions = n))
                      (Inr partitions)))))"

section \<open>Facts about sets and states\<close>

definition set_ok :: "kk_set \<Rightarrow> bool" where
  "set_ok s \<longleftrightarrow> set_sum s = sum_list (map snd (set_items s))"

lemma kk_set_merge_items: "set_items (kk_set_merge s t) = set_items s @ set_items t"
proof -
  have "set_items (foldl (\<lambda>s (idx, val). kk_set_add s idx val) s xs) = set_items s @ xs" for xs
    by (induction xs arbitrary: s) (auto simp: kk_set_add_def)
  then show ?thesis by (simp add: kk_set_merge_def)
qed

lemma kk_set_merge_sum: "set_sum (kk_set_merge s t) = set_sum s + sum_list (map snd (set_items t))"
proof -
  have "set_sum (foldl (\<lambda>s (idx, val). kk_set_add s idx val) s xs) = set_sum s + sum_list (map snd xs)" for xs
    by (induction xs arbitrary: s) (auto simp: kk_set_add_def)
  then show ?thesis by (simp add: kk_set_merge_def)
qed

lemma set_ok_merge: "set_ok s \<Longrightarrow> set_ok t \<Longrightarrow> set_ok (kk_set_merge s t)"
  by (simp add: set_ok_def kk_set_merge_items kk_set_merge_sum)

lemma kk_set_merge_sum_ok: "set_ok t \<Longrightarrow> set_sum (kk_set_merge s t) = set_sum s + set_sum t"
  by (simp add: set_ok_def kk_set_merge_sum)

text \<open>The order on sets refines the pair of sum and size.\<close>

definition set_key :: "kk_set \<Rightarrow> int \<times> nat" where
  "set_key s = (set_sum s, length (set_items s))"

lemma set_key_lt: "set_key a < set_key b \<Longrightarrow> kk_set_lt a b"
  by (auto simp: set_key_def kk_set_lt_def less_prod_def)

lemma kk_set_lt_key: "kk_set_lt a b \<Longrightarrow> set_key a \<le> set_key b"
  by (auto simp: set_key_def kk_set_lt_def less_eq_prod_def split: if_splits)

lemmas sets_sorted = sorted_desc_key[where key = set_key and lt = kk_set_lt, OF set_key_lt kk_set_lt_key]

lemma sorted_sums: "sorted_wrt (\<lambda>a b. set_sum b \<le> set_sum a) (sorted_desc kk_set_lt xs)"
  by (rule sorted_wrt_mono_rel[OF _ sets_sorted]) (auto simp: set_key_def less_eq_prod_def)

definition state_items :: "kk_state \<Rightarrow> (nat \<times> int) list" where
  "state_items st = concat (map set_items (state_sets st))"

text \<open>
  What holds of every state of the queue: \<open>k\<close> sets in descending order of their sums, each sum
  is that of the set's items, and two sums differ by \<open>B\<close> at most.
\<close>

definition state_ok :: "nat \<Rightarrow> int \<Rightarrow> kk_state \<Rightarrow> bool" where
  "state_ok k B st \<longleftrightarrow>
     state_k st = k \<and> length (state_sets st) = k
     \<and> sorted_wrt (\<lambda>a b. set_sum b \<le> set_sum a) (state_sets st)
     \<and> (\<forall>s \<in> set (state_sets st). set_ok s)
     \<and> (\<forall>s \<in> set (state_sets st). \<forall>t \<in> set (state_sets st). set_sum s - set_sum t \<le> B)"

text \<open>The sets before they are sorted again.\<close>

definition merged_sets :: "nat \<Rightarrow> kk_set list \<Rightarrow> kk_set list \<Rightarrow> kk_set list" where
  "merged_sets k xs ys = map (\<lambda>i. kk_set_merge (xs ! i) (ys ! (k - 1 - i))) [0..<k]"

lemma kk_state_merge_alt:
  "kk_state_merge st other =
     st\<lparr>state_sets := sorted_desc kk_set_lt (merged_sets (state_k st) (state_sets st) (state_sets other))\<rparr>"
  by (simp add: kk_state_merge_def merged_sets_def)

lemma merged_sets_nth:
  "i < k \<Longrightarrow> merged_sets k xs ys ! i = kk_set_merge (xs ! i) (ys ! (k - 1 - i))"
  by (simp add: merged_sets_def)

lemma length_merged_sets [simp]: "length (merged_sets k xs ys) = k"
  by (simp add: merged_sets_def)

lemma merged_sets_map2: 
  "length xs = k \<Longrightarrow> length ys = k \<Longrightarrow> merged_sets k xs ys = map2 kk_set_merge xs (rev ys)"
  by (rule nth_equalityI) (auto simp: merged_sets_nth rev_nth)

lemma mset_merged_items:
  assumes "length xs = k" and "length ys = k"
  shows "mset (concat (map set_items (merged_sets k xs ys)))
           = mset (concat (map set_items xs)) + mset (concat (map set_items ys))"
proof -
  have "length xs = length zs \<Longrightarrow> mset (concat (map set_items (map2 kk_set_merge xs zs)))
          = mset (concat (map set_items xs)) + mset (concat (map set_items zs))" for zs
    by (induction xs zs rule: list_induct2) (auto simp: kk_set_merge_items)
  from this[of "rev ys"] assms show ?thesis
    by (simp add: merged_sets_map2 mset_concat rev_map[symmetric])
qed

lemma sorted_desc_concat: "mset (concat (map f (sorted_desc lt xs))) = mset (concat (map f xs))"
  by (simp add: mset_concat flip: sum_mset_sum_list)

lemma state_items_merge:
  assumes "state_ok k B a" and "state_ok k B b"
  shows "mset (state_items (kk_state_merge a b)) = mset (state_items a) + mset (state_items b)"
  using assms mset_merged_items[of "state_sets a" k "state_sets b"]
  by (simp add: state_items_def kk_state_merge_alt sorted_desc_concat state_ok_def)

text \<open>The sums of the merged sets: a descending and an ascending list are added.\<close>

lemma merged_sums_spread:
  assumes a: "state_ok k B a" and b: "state_ok k B b" and "i < k" and "j < k"
  shows "set_sum (merged_sets k (state_sets a) (state_sets b) ! i)
           - set_sum (merged_sets k (state_sets a) (state_sets b) ! j) \<le> B"
proof -
  have mono: "set_sum (state_sets c ! q) \<le> set_sum (state_sets c ! p)"
    if "state_ok k B c" and "p \<le> q" and "q < k" for c p q
    using that by (cases "p = q") (auto simp: state_ok_def sorted_wrt_iff_nth_less)
  have gap: "set_sum (state_sets c ! p) - set_sum (state_sets c ! q) \<le> B"
    if "state_ok k B c" and "p < k" and "q < k" for c p q
    using that by (auto simp: state_ok_def)
  have sum: "set_sum (merged_sets k (state_sets a) (state_sets b) ! p)
               = set_sum (state_sets a ! p) + set_sum (state_sets b ! (k - 1 - p))" if "p < k" for p
    using that b by (simp add: merged_sets_nth kk_set_merge_sum_ok state_ok_def)
  show ?thesis
  proof (cases "i \<le> j")
    case True
    then have "k - 1 - j \<le> k - 1 - i" and "k - 1 - i < k" using assms(3) by auto
    from mono[OF b this] gap[OF a \<open>i < k\<close> \<open>j < k\<close>] assms(3,4)
    show ?thesis by (simp add: sum)
  next
    case False
    with mono[OF a, of j i] gap[OF b, of "k - 1 - i" "k - 1 - j"] assms(3,4)
    show ?thesis by (simp add: sum)
  qed
qed

lemma state_ok_merge:
  assumes a: "state_ok k B a" and b: "state_ok k B b"
  shows "state_ok k B (kk_state_merge a b)"
proof -
  let ?m = "merged_sets k (state_sets a) (state_sets b)"
  have "set_ok (?m ! i)" if "i < k" for i
    using that a b by (simp add: merged_sets_nth state_ok_def set_ok_merge)
  then have "\<forall>s\<in>set ?m. set_ok s" by (auto simp: in_set_conv_nth)
  moreover have "\<forall>s\<in>set ?m. \<forall>t\<in>set ?m. set_sum s - set_sum t \<le> B"
    using merged_sums_spread[OF a b] by (auto simp: in_set_conv_nth)
  ultimately show ?thesis
    using a by (simp add: state_ok_def kk_state_merge_alt sorted_sums)
qed

section \<open>The loop\<close>

lemma kk_loop_step:
  "2 \<le> length pq \<Longrightarrow> kk_loop pq =
     kk_loop (heappush kk_state_lt (snd (heappop kk_state_lt (snd (heappop kk_state_lt pq))))
       (kk_state_merge (fst (heappop kk_state_lt pq)) (fst (heappop kk_state_lt (snd (heappop kk_state_lt pq))))))"
  by (subst kk_loop.simps) (simp add: Let_def split_beta)

lemma kk_loop_invariant:
  assumes "pq \<noteq> []" and "\<forall>s \<in> set pq. P s"
    and "\<And>a b. P a \<Longrightarrow> P b \<Longrightarrow> P (kk_state_merge a b)"
    and "\<And>a b. P a \<Longrightarrow> P b \<Longrightarrow> f (kk_state_merge a b) = f a + (f b :: 'm :: comm_monoid_add)"
  shows "\<exists>st. kk_loop pq = [st] \<and> P st \<and> f st = (\<Sum>s\<in>#mset pq. f s)"
  using assms(1,2)
proof (induction "length pq" arbitrary: pq rule: less_induct)
  case less
  show ?case
  proof (cases "2 \<le> length pq")
    case False
    with less.prems obtain s where "pq = [s]"
      by (cases pq rule: remdups_adj.cases) auto
    with less.prems show ?thesis by (simp add: kk_loop.simps)
  next
    case True
    let ?a = "fst (heappop kk_state_lt pq)" and ?r = "snd (heappop kk_state_lt pq)"
    let ?b = "fst (heappop kk_state_lt ?r)" and ?r2 = "snd (heappop kk_state_lt ?r)"
    let ?m = "kk_state_merge ?a ?b"
    let ?q = "heappush kk_state_lt ?r2 ?m"
    have ms: "mset pq = {#?a, ?b#} + mset ?r2"
      using heapq.pop_pop[OF True, of kk_state_lt] by simp
    then have "set pq = {?a, ?b} \<union> set ?r2"
      by (metis set_mset_add_mset_insert set_mset_empty set_mset_mset set_mset_union)
    with less.prems(2) have P: "P ?a" "P ?b" "\<forall>s\<in>set ?r2. P s" by auto
    have q: "mset ?q = add_mset ?m (mset ?r2)" by (rule heapq.mset_push)
    have "\<forall>s\<in>set ?q. P s" using P assms(3) by (auto simp: heapq.set_push)
    moreover have "length ?q < length pq" using True by (simp add: heapq.length_pop_pop_push)
    moreover have "?q \<noteq> []" using q by auto
    ultimately obtain st where "kk_loop ?q = [st]" "P st" "f st = (\<Sum>s\<in>#mset ?q. f s)"
      using less.hyps by blast
    then show ?thesis
      using ms q P assms(4) kk_loop_step[OF True] by (auto simp: add.assoc)
  qed
qed

section \<open>Sets of equal size, and sets that are not empty\<close>

definition sizes_eq :: "kk_state \<Rightarrow> bool" where
  "sizes_eq st \<longleftrightarrow> (\<exists>c. \<forall>s \<in> set (state_sets st). length (set_items s) = c)"

lemma sizes_eq_merge:
  assumes "state_ok k B a" and "state_ok k B b" and "sizes_eq a" and "sizes_eq b"
  shows "sizes_eq (kk_state_merge a b)"
proof -
  from assms(3,4) obtain c d where "\<forall>s \<in> set (state_sets a). length (set_items s) = c"
    and "\<forall>s \<in> set (state_sets b). length (set_items s) = d" by (auto simp: sizes_eq_def)
  with assms(1,2) have "length (set_items (merged_sets k (state_sets a) (state_sets b) ! i)) = c + d"
    if "i < k" for i
    using that by (simp add: merged_sets_nth kk_set_merge_items state_ok_def)
  then have "\<forall>s \<in> set (merged_sets k (state_sets a) (state_sets b)). length (set_items s) = c + d"
    by (auto simp: in_set_conv_nth)
  with assms(1) show ?thesis by (auto simp: sizes_eq_def kk_state_merge_alt state_ok_def)
qed

abbreviation filled :: "kk_set \<Rightarrow> bool" where
  "filled s \<equiv> set_items s \<noteq> []"

text \<open>
  With values that are not negative the empty sets come last, and there are no more of them
  than necessary.
\<close>

definition spread_out :: "nat \<Rightarrow> kk_state \<Rightarrow> bool" where
  "spread_out k st \<longleftrightarrow>
     (\<forall>s \<in> set (state_sets st). \<forall>(i, v) \<in> set (set_items s). 0 \<le> v)
     \<and> sorted_wrt (\<lambda>a b. filled b \<longrightarrow> filled a) (state_sets st)
     \<and> length (filter filled (state_sets st)) = min k (length (state_items st))"

lemma sorted_filled:
  assumes "\<forall>s \<in> set xs. set_ok s" and "\<forall>s \<in> set xs. \<forall>(i, v) \<in> set (set_items s). 0 \<le> v"
  shows "sorted_wrt (\<lambda>a b. filled b \<longrightarrow> filled a) (sorted_desc kk_set_lt xs)"
proof -
  have "sorted_wrt (\<lambda>a b. set_key b \<le> set_key a) (sorted_desc kk_set_lt xs)" by (rule sets_sorted)
  moreover have "filled b \<longrightarrow> filled a"
    if "a \<in> set xs" "b \<in> set xs" "set_key b \<le> set_key a" for a b
  proof (rule ccontr)
    assume "\<not> ?thesis"
    then have "set_items a = []" and "set_items b \<noteq> []" by auto
    moreover from this(1) that assms(1) have "set_sum a = 0" by (simp add: set_ok_def)
    moreover have "0 \<le> set_sum b"
      using that(2) assms by (fastforce simp: set_ok_def intro!: sum_list_nonneg)
    ultimately show False
      using that(3) by (auto simp: set_key_def less_eq_prod_def)
  qed
  ultimately show ?thesis
    by (auto intro: sorted_wrt_mono_rel[rotated])
qed

lemma filled_prefix:
  assumes "sorted_wrt (\<lambda>a b. P b \<longrightarrow> P a) xs" and "i < length xs"
  shows "P (xs ! i) \<longleftrightarrow> i < length (filter P xs)"
  using assms
proof (induction xs arbitrary: i)
  case Nil
  then show ?case by simp
next
  case (Cons x xs)
  show ?case
  proof (cases "P x")
    case True
    with Cons show ?thesis by (cases i) auto
  next
    case False
    with Cons.prems have "filter P xs = []" by (auto simp: filter_empty_conv)
    with False Cons.prems show ?thesis
      by (cases i) (auto simp: filter_empty_conv)
  qed
qed

lemma length_filter_index: "length (filter P xs) = length (filter (\<lambda>i. P (xs ! i)) [0..<length xs])"
  by (simp add: length_filter_conv_card) (rule arg_cong[where f = card], auto)

lemma count_two_ends:
  assumes "p \<le> k" and "q \<le> k"
  shows "length (filter (\<lambda>i. i < p \<or> k - 1 - i < q) [0..<k]) = min k (p + q)"
proof -
  have "length (filter (\<lambda>i. i < p \<or> k - 1 - i < q) [0..<k]) = card {i. i < k \<and> (i < p \<or> k - 1 - i < q)}"
    by (simp add: length_filter_conv_card) (rule arg_cong[where f = card], auto)
  also have "{i. i < k \<and> (i < p \<or> k - 1 - i < q)} = {..<p} \<union> {max p (k - q)..<k}"
    using assms by auto
  also have "card \<dots> = min k (p + q)"
    using assms by (subst card_Un_disjoint) auto
  finally show ?thesis .
qed

lemma spread_out_merge:
  assumes a: "state_ok k B a" and b: "state_ok k B b" and "spread_out k a" and "spread_out k b"
  shows "spread_out k (kk_state_merge a b)"
proof -
  let ?m = "merged_sets k (state_sets a) (state_sets b)"
  let ?p = "min k (length (state_items a))" and ?q = "min k (length (state_items b))"
  have idx: "filled (state_sets c ! i) \<longleftrightarrow> i < min k (length (state_items c))"
    if "state_ok k B c" and "spread_out k c" and "i < k" for c i
    using that filled_prefix[of filled "state_sets c" i] by (simp add: spread_out_def state_ok_def)
  have "length (filter filled ?m) = length (filter (\<lambda>i. filled (?m ! i)) [0..<k])"
    using length_filter_index[of filled ?m] by simp
  also have "filter (\<lambda>i. filled (?m ! i)) [0..<k] = filter (\<lambda>i. i < ?p \<or> k - 1 - i < ?q) [0..<k]"
    using assms idx[of a] idx[of b] by (intro filter_cong) (auto simp: merged_sets_nth kk_set_merge_items)
  also have "length \<dots> = min k (?p + ?q)" by (rule count_two_ends) auto
  also have "\<dots> = min k (length (state_items (kk_state_merge a b)))"
    using arg_cong[OF state_items_merge[OF a b], of size] by simp
  finally have "length (filter filled ?m) = min k (length (state_items (kk_state_merge a b)))" .
  then have count: "length (filter filled (state_sets (kk_state_merge a b)))
                      = min k (length (state_items (kk_state_merge a b)))"
    using a by (simp add: kk_state_merge_alt state_ok_def)
       (metis mset_filter mset_sorted_desc size_mset)
  have "\<forall>(i, v) \<in> set (set_items (?m ! j)). 0 \<le> v" if "j < k" for j
    using that assms by (fastforce simp: merged_sets_nth kk_set_merge_items spread_out_def state_ok_def
        dest!: nth_mem)
  then have nonneg: "\<forall>s \<in> set ?m. \<forall>(i, v) \<in> set (set_items s). 0 \<le> v"
    by (metis in_set_conv_nth length_merged_sets)
  moreover have "\<forall>s \<in> set ?m. set_ok s"
    using state_ok_merge[OF a b] a by (simp add: state_ok_def kk_state_merge_alt)
  ultimately have "sorted_wrt (\<lambda>a b. filled b \<longrightarrow> filled a) (sorted_desc kk_set_lt ?m)"
    by (intro sorted_filled)
  with nonneg count a show ?thesis
    by (simp add: spread_out_def kk_state_merge_alt state_ok_def)
qed

section \<open>The initial states\<close>

lemma kk_state_new_ok:
  assumes "0 < k" and "length items = 1 \<or> length items = k"
    and B: "\<forall>x \<in> set (map snd items @ replicate (k - length items) 0).
              \<forall>y \<in> set (map snd items @ replicate (k - length items) 0). x - y \<le> B"
  shows "\<exists>st. kk_state_new items k = Inr st \<and> state_ok k B st \<and> mset (state_items st) = mset items
           \<and> (length items = k \<longrightarrow> sizes_eq st)
           \<and> ((\<forall>(i, v) \<in> set items. 0 \<le> v) \<longrightarrow> spread_out k st)"
proof -
  let ?init = "map (\<lambda>(idx, seqlen). kk_set_add kk_set_new idx seqlen) items
                 @ replicate (k - length items) kk_set_new"
  define st where "st = \<lparr>state_k = k, state_sets = sorted_desc kk_set_lt ?init\<rparr>"
  have le: "length items \<le> k" using assms by auto
  then have new: "kk_state_new items k = Inr st"
    using assms(2) by (simp add: kk_state_new_def st_def)
  have items: "concat (map set_items ?init) = items"
    by (induction items) (auto simp: kk_set_add_def kk_set_new_def concat_replicate_trivial)
  have msi: "mset (state_items st) = mset items"
    unfolding st_def state_items_def using items by (simp add: sorted_desc_concat)
  have ok: "\<forall>s \<in> set ?init. set_ok s" 
    by (auto simp: set_ok_def kk_set_add_def kk_set_new_def)
  have "set_sum ` set ?init \<subseteq> set (map snd items @ replicate (k - length items) 0)"
    by (force simp: kk_set_add_def kk_set_new_def)
  then have "\<forall>s \<in> set ?init. \<forall>t \<in> set ?init. set_sum s - set_sum t \<le> B"
    using B by blast
  with ok le have sok: "state_ok k B st"
    unfolding state_ok_def st_def by (simp add: sorted_sums)
  have "sizes_eq st" if "length items = k"
    unfolding sizes_eq_def st_def using that
    by (intro exI[of _ 1]) (auto simp: kk_set_add_def kk_set_new_def)
  moreover have "spread_out k st" if nn: "\<forall>(i, v) \<in> set items. 0 \<le> v"
  proof -
    have nn': "\<forall>s \<in> set ?init. \<forall>(i, v) \<in> set (set_items s). 0 \<le> v"
      using nn by (auto simp: kk_set_add_def kk_set_new_def)
    have "filter filled ?init = map (\<lambda>(idx, seqlen). kk_set_add kk_set_new idx seqlen) items"
      by (auto simp: kk_set_add_def kk_set_new_def filter_empty_conv filter_id_conv)
    then have "length (filter filled ?init) = length items" by simp
    then have "length (filter filled (state_sets st)) = length items"
      unfolding st_def by (metis mset_filter mset_sorted_desc size_mset kk_state.select_convs(2))
    moreover have "length (state_items st) = length items" using msi by (metis size_mset)
    ultimately show ?thesis
      using nn' sorted_filled[OF ok nn'] le by (simp add: spread_out_def st_def)
  qed
  ultimately show ?thesis using new sok msi by blast
qed

lemma kk_initial_fold:
  assumes "\<And>items. items \<in> set itemss \<Longrightarrow>
             \<exists>st. kk_state_new items k = Inr st \<and> P st \<and> mset (state_items st) = mset items"
  shows "\<exists>pq. fold_res (\<lambda>pq items. bind_res (kk_state_new items k) (\<lambda>st. Inr (heappush kk_state_lt pq st)))
                q itemss = Inr pq
           \<and> (\<forall>s \<in> set pq. s \<in> set q \<or> P s) \<and> length pq = length q + length itemss
           \<and> (\<Sum>s\<in>#mset pq. mset (state_items s)) = (\<Sum>s\<in>#mset q. mset (state_items s)) + mset (concat itemss)"
  using assms
proof (induction itemss arbitrary: q)
  case Nil
  then show ?case by simp
next
  case (Cons items itemss)
  from Cons.prems[of items] obtain st where st: "kk_state_new items k = Inr st" "P st"
      "mset (state_items st) = mset items" by auto
  from Cons.IH[of "heappush kk_state_lt q st"] Cons.prems show ?case
    using st by (force simp: heapq.set_push heapq.length_push heapq.mset_push)
qed

section \<open>Correctness of Karmarkar-Karp\<close>

text \<open>The workload a partition gives its rank.\<close>

definition partition_load :: "int list \<Rightarrow> nat list \<Rightarrow> int" where
  "partition_load xs p = (\<Sum>i\<leftarrow>p. xs ! i)"

definition kk_good :: "nat \<Rightarrow> bool \<Rightarrow> bool \<Rightarrow> int \<Rightarrow> kk_state \<Rightarrow> bool" where
  "kk_good k eq nonneg B st \<longleftrightarrow>
     state_ok k B st \<and> (eq \<longrightarrow> sizes_eq st) \<and> (nonneg \<longrightarrow> spread_out k st)"

lemma kk_good_merge: "kk_good k eq nn B a \<Longrightarrow> kk_good k eq nn B b \<Longrightarrow> kk_good k eq nn B (kk_state_merge a b)"
  by (auto simp: kk_good_def state_ok_merge sizes_eq_merge spread_out_merge)

lemma concat_blocks: "concat (map (\<lambda>b. map (\<lambda>i. f (b * k + i)) [0..<k]) [0..<m]) = map f [0..<m * k]"
proof (induction m)
  case 0
  then show ?case by simp
next
  case (Suc m)
  have "[0..<Suc m * k] = [0..<m * k] @ map (\<lambda>i. m * k + i) [0..<k]"
    using upt_add_eq_append[of 0 "m * k" k] map_add_upt[of "m * k" k] by (simp add: add.commute)
  with Suc show ?case by simp
qed

lemma kk_initial_good:
  assumes "0 < k" and "equal_size \<longrightarrow> k dvd length ys" and "ys \<noteq> []"
    and B: "\<And>x y. x \<in> fst ` set ys \<Longrightarrow> y \<in> fst ` set ys \<Longrightarrow> x - y \<le> B"
    and B': "\<And>x. \<not> equal_size \<Longrightarrow> x \<in> fst ` set ys \<Longrightarrow> \<bar>x\<bar> \<le> B"
  shows "\<exists>pq. kk_initial ys k equal_size = Inr pq \<and> pq \<noteq> []
           \<and> (\<forall>s \<in> set pq. kk_good k equal_size (\<forall>x \<in> fst ` set ys. 0 \<le> x) B s)
           \<and> (\<Sum>s\<in>#mset pq. mset (state_items s)) = mset (map (\<lambda>(v, i). (i, v)) ys)"
proof -
  let ?sw = "\<lambda>(v, i). (i, v)"
  let ?nn = "\<forall>x \<in> fst ` set ys. 0 \<le> x"
  define itemss where "itemss =
     (if equal_size
      then map (\<lambda>b. map (\<lambda>i. (snd (ys ! (b * k + i)), fst (ys ! (b * k + i)))) [0..<k]) [0..<length ys div k]
      else map (\<lambda>(v, i). [(i, v)]) ys)"
  have concat: "concat itemss = map ?sw ys"
  proof (cases equal_size)
    case True
    with assms(2) have "length ys div k * k = length ys" by simp
    then have "concat itemss = map (\<lambda>j. (snd (ys ! j), fst (ys ! j))) [0..<length ys]"
      using True concat_blocks[of "\<lambda>j. (snd (ys ! j), fst (ys ! j))" k "length ys div k"]
      by (simp add: itemss_def)
    also have "\<dots> = map ?sw ys" by (rule nth_equalityI) (auto simp: split_beta)
    finally show ?thesis .
  next
    case False
    have "concat (map (\<lambda>(v, i). [(i, v)]) ys) = map ?sw ys" by (induction ys) auto
    with False show ?thesis by (simp add: itemss_def)
  qed
  have sub: "set items \<subseteq> ?sw ` set ys" if "items \<in> set itemss" for items
    using that arg_cong[OF concat, of set] by auto
  have len: "length items = (if equal_size then k else 1)" if "items \<in> set itemss" for items
    using that by (auto simp: itemss_def split: if_splits)
  have new: "\<exists>st. kk_state_new items k = Inr st \<and> kk_good k equal_size ?nn B st
               \<and> mset (state_items st) = mset items" if "items \<in> set itemss" for items
  proof -
    have "snd ` set items \<subseteq> snd ` ?sw ` set ys" by (rule image_mono[OF sub[OF that]])
    then have vals: "set (map snd items) \<subseteq> fst ` set ys"
      by (simp add: image_image split_beta)
    have gap: "x - y \<le> B" if "x \<in> set (map snd items @ replicate (k - length items) 0)"
        "y \<in> set (map snd items @ replicate (k - length items) 0)" for x y
    proof (cases equal_size)
      case True
      with that(1,2) len[OF \<open>items \<in> set itemss\<close>]
      have "x \<in> set (map snd items)" and "y \<in> set (map snd items)" by auto
      with vals show ?thesis by (blast intro: B)
    next
      case False
      then obtain v where "map snd items = [v]" "v \<in> fst ` set ys"
        using len[OF \<open>items \<in> set itemss\<close>] vals by (cases items) auto
      moreover have "\<bar>v\<bar> \<le> B" by (rule B'[OF False \<open>v \<in> fst ` set ys\<close>])
      ultimately show ?thesis using that by auto
    qed
    have "length items = 1 \<or> length items = k" using len[OF that] by (simp split: if_splits)
    from kk_state_new_ok[OF assms(1) this] gap
    obtain st where "kk_state_new items k = Inr st" "state_ok k B st"
      "mset (state_items st) = mset items" "length items = k \<longrightarrow> sizes_eq st"
      "(\<forall>(i, v) \<in> set items. 0 \<le> v) \<longrightarrow> spread_out k st" by blast
    moreover have "\<forall>(i, v) \<in> set items. 0 \<le> v" if "?nn" using that sub[OF \<open>items \<in> set itemss\<close>] by force
    ultimately show ?thesis using len[OF that] by (auto simp: kk_good_def)
  qed
  have "itemss \<noteq> []" using concat assms(3) by (cases itemss) auto
  with kk_initial_fold[OF new, of itemss "[]"] concat show ?thesis
    by (force simp: kk_initial_def itemss_def Let_def split del: if_split)
qed

lemma karmarkar_karp_main:
  assumes "0 < k" and "xs \<noteq> []" and "equal_size \<longrightarrow> k dvd length xs"
    and "\<And>x y. x \<in> set xs \<Longrightarrow> y \<in> set xs \<Longrightarrow> x - y \<le> B"
    and "\<And>x. \<not> equal_size \<Longrightarrow> x \<in> set xs \<Longrightarrow> \<bar>x\<bar> \<le> B"
  shows "\<exists>ps. karmarkar_karp xs k equal_size = Inr ps \<and> length ps = k
           \<and> mset (concat ps) = mset [0..<length xs]
           \<and> (\<forall>p \<in> set ps. \<forall>q \<in> set ps. partition_load xs p - partition_load xs q \<le> B)
           \<and> (equal_size \<longrightarrow> (\<forall>p \<in> set ps. length p * k = length xs))
           \<and> ((\<forall>x \<in> set xs. 0 \<le> x) \<and> k \<le> length xs \<longrightarrow> (\<forall>p \<in> set ps. p \<noteq> []))"
proof -
  let ?n = "length xs"
  let ?nn = "\<forall>x \<in> set xs. 0 \<le> x"
  let ?ys = "sort (zip xs [0..<?n])"
  have fst_ys: "fst ` set ?ys = set xs"
    by (simp flip: set_map)
  have ys_ne: "?ys \<noteq> []" using assms(2) by (metis length_0_conv length_sort length_zip length_upt diff_zero min.idem)
  obtain pq where pq: "kk_initial ?ys k equal_size = Inr pq" "pq \<noteq> []"
      "\<forall>s \<in> set pq. kk_good k equal_size ?nn B s"
      "(\<Sum>s\<in>#mset pq. mset (state_items s)) = mset (map (\<lambda>(v, i). (i, v)) ?ys)"
    using kk_initial_good[of k equal_size ?ys B, unfolded fst_ys, OF assms(1) _ ys_ne assms(4,5)] assms(3)
    by (auto simp del: set_sort mset_map)
  obtain st where st: "kk_loop pq = [st]" "kk_good k equal_size ?nn B st"
      "mset (state_items st) = mset (map (\<lambda>(v, i). (i, v)) ?ys)"
  proof -
    have "\<exists>st. kk_loop pq = [st] \<and> kk_good k equal_size ?nn B st
            \<and> mset (state_items st) = (\<Sum>s\<in>#mset pq. mset (state_items s))"
    proof (rule kk_loop_invariant[OF pq(2,3)])
      show "mset (state_items (kk_state_merge a b)) = mset (state_items a) + mset (state_items b)"
        if "kk_good k equal_size ?nn B a" "kk_good k equal_size ?nn B b" for a b
        using that by (auto simp: kk_good_def intro: state_items_merge)
    qed (rule kk_good_merge)
    with pq(4) that show ?thesis by auto
  qed
  let ?ps = "kk_get_partitions st"
  from st(2) have ok: "state_ok k B st" by (simp add: kk_good_def)
  have len_ps: "length ?ps = k" using ok by (simp add: kk_get_partitions_def state_ok_def)
  have ms: "mset (state_items st) = mset (map (\<lambda>(v, i). (i, v)) (zip xs [0..<?n]))"
    using st(3) by (metis mset_map mset_sort)
  have concat: "concat ?ps = map fst (state_items st)"
    by (simp add: kk_get_partitions_def state_items_def map_concat comp_def)
  have perm: "mset (concat ?ps) = mset [0..<?n]"
  proof -
    have "mset (concat ?ps) = image_mset fst (mset (state_items st))" by (simp add: concat)
    also have "\<dots> = mset (map snd (zip xs [0..<?n]))"
      unfolding ms by (simp add: image_mset.compositionality comp_def split_beta flip: mset_map)
    finally show ?thesis by simp
  qed
  have val: "v = xs ! i" if "(i, v) \<in> set (state_items st)" for i v
  proof -
    from that ms have "(i, v) \<in> set (map (\<lambda>(v, i). (i, v)) (zip xs [0..<?n]))"
      by (metis set_mset_mset)
    then show ?thesis by (auto simp: set_zip)
  qed
  have load: "partition_load xs (map fst (set_items s)) = set_sum s" if "s \<in> set (state_sets st)" for s
  proof -
    have "snd p = xs ! fst p" if "p \<in> set (set_items s)" for p
      using that \<open>s \<in> _\<close> val[of "fst p" "snd p"] by (auto simp: state_items_def)
    then have "map snd (set_items s) = map (\<lambda>i. xs ! i) (map fst (set_items s))" by simp
    with ok that show ?thesis by (simp add: partition_load_def state_ok_def set_ok_def del: map_map)
  qed
  have balance: "\<forall>p \<in> set ?ps. \<forall>q \<in> set ?ps. partition_load xs p - partition_load xs q \<le> B"
    using ok by (auto simp: kk_get_partitions_def load state_ok_def)
  have len_items: "length (state_items st) = ?n" using arg_cong[OF ms, of size] by simp
  have sizes: "\<forall>p \<in> set ?ps. length p * k = ?n" if "equal_size"
  proof -
    from st(2) that obtain c where c: "\<forall>s \<in> set (state_sets st). length (set_items s) = c"
      by (auto simp: kk_good_def sizes_eq_def)
    then have "length (state_items st) = length (state_sets st) * c"
      unfolding state_items_def by (simp add: length_concat comp_def sum_list_triv cong: map_cong)
    with c ok len_items show ?thesis
      by (auto simp: kk_get_partitions_def state_ok_def mult.commute)
  qed
  have filled: "\<forall>p \<in> set ?ps. p \<noteq> []" if "?nn" "k \<le> ?n"
  proof -
    have "length (filter filled (state_sets st)) = length (state_sets st)"
      using st(2) that ok len_items by (simp add: kk_good_def spread_out_def state_ok_def)
    then have "\<forall>s \<in> set (state_sets st). filled s" by (auto dest: length_filter_less[where P = filled])
    then show ?thesis by (auto simp: kk_get_partitions_def)
  qed
  have guard: "(equal_size \<and> k = 0) = False" using assms(1) by simp
  have guard_dvd: "(equal_size \<longrightarrow> ?n mod k = 0) = True" using assms(3) by auto
  have guard_sizes: "(equal_size \<longrightarrow> (\<forall>p \<in> set ?ps. length p * k = ?n)) = True"
    using sizes by blast
  have "karmarkar_karp xs k equal_size = Inr ?ps"
    unfolding karmarkar_karp_def
    by (simp only: Let_def pq(1) st(1) bind_res_simps list.case guard guard_dvd guard_sizes if_False asserting_simps)
  with len_ps perm balance sizes filled show ?thesis by blast
qed

end
