(* ===== verification/Learners.thy ===== *)
theory Learners
  imports Hparams
begin

text \<open>
  The other learners: group-relative policy optimisation in \<open>src/CLightMLLM_new/src/method/grpo.py\<close>, learning
  without forgetting in \<open>lwf.py\<close> and the optimizer's parameter groups in \<open>base.py\<close>.  Models and
  the tokenizer are arguments, numbers are reals.
\<close>

section \<open>Rewards against a reference text\<close>

text \<open>\<open>re.sub(r"\s+", " ", s.strip().lower())\<close> and \<open>s.split()\<close>.\<close>

fun collapse_spaces :: "bool \<Rightarrow> str \<Rightarrow> str" where
  "collapse_spaces after [] = []"
| "collapse_spaces after (c # cs) =
     (if is_space c then (if after then collapse_spaces True cs else CHR '' '' # collapse_spaces True cs)
      else c # collapse_spaces False cs)"

definition normalize_text :: "str \<Rightarrow> str" where
  "normalize_text s = collapse_spaces False (lower (strip s))"

fun split_words :: "str \<Rightarrow> str \<Rightarrow> str list" where
  "split_words w [] = (if w = [] then [] else [w])"
| "split_words w (c # cs) =
     (if is_space c then (if w = [] then split_words [] cs else w # split_words [] cs)
      else split_words (w @ [c]) cs)"

definition text_tokens :: "str \<Rightarrow> str list" where
  "text_tokens s = (let ws = split_words [] s in if ws \<noteq> [] then ws else map (\<lambda>c. [c]) s)"

definition reference_match_reward :: "str \<Rightarrow> str \<Rightarrow> real" where
  "reference_match_reward prediction0 reference0 =
     (let prediction = normalize_text prediction0;
          reference = normalize_text reference0
      in if prediction = [] \<or> reference = [] then 0
         else if prediction = reference then 1
         else let pred = set (text_tokens prediction);
                  ref = set (text_tokens reference);
                  overlap = card (pred \<inter> ref)
              in if overlap = 0 then 0
                 else let precision = real overlap / real (max (card pred) 1);
                          recall = real overlap / real (max (card ref) 1)
                      in 2 * precision * recall / max (precision + recall) (1 / 10 ^ 12))"

datatype reward_type = ReferenceMatch | LengthReward | NoReward

text \<open>\<open>grpo_compute_rewards\<close>: \<open>decode\<close> is the tokenizer's \<open>batch_decode\<close> of one row.\<close>

definition grpo_compute_rewards ::
  "reward_type \<Rightarrow> (int list \<Rightarrow> str) \<Rightarrow> int \<Rightarrow> int option \<Rightarrow> nat \<Rightarrow> str list option \<Rightarrow> int list list \<Rightarrow> nat \<Rightarrow> real list" where
  "grpo_compute_rewards kind decode pad eos max_new_tokens reference_text sequences prompt_width =
     (case kind of
        NoReward \<Rightarrow> replicate (length sequences) 0
      | LengthReward \<Rightarrow>
          map (\<lambda>m. real (length (filter id m)) / max (real max_new_tokens) 1)
            (completion_mask pad eos sequences prompt_width)
      | ReferenceMatch \<Rightarrow>
          (let completions = map (\<lambda>row. decode (drop prompt_width row)) sequences;
               references = (case reference_text of
                               None \<Rightarrow> replicate (length completions) []
                             | Some [] \<Rightarrow> replicate (length completions) []
                             | Some rs \<Rightarrow> rs)
           in map2 reference_match_reward completions references))"

section \<open>Advantages\<close>

definition column_mean :: "real list list \<Rightarrow> nat \<Rightarrow> real" where
  "column_mean rewards j = sum_list (map (\<lambda>r. r ! j) rewards) / real (length rewards)"

definition column_std :: "real list list \<Rightarrow> nat \<Rightarrow> real" where
  "column_std rewards j =
     sqrt (sum_list (map (\<lambda>r. (r ! j - column_mean rewards j)\<^sup>2) rewards) / real (length rewards))"

text \<open>One row per generation, one column per prompt.\<close>

definition group_advantages :: "real list list \<Rightarrow> real list list" where
  "group_advantages rewards =
     (if length rewards = 1 then rewards
      else map (\<lambda>r. map (\<lambda>j. (r ! j - column_mean rewards j) / max (column_std rewards j) (1 / 10 ^ 6))
                      [0..<length r]) rewards)"

section \<open>Learning without forgetting\<close>

definition kl_div :: "real list \<Rightarrow> real list \<Rightarrow> real" where
  "kl_div log_student teacher = sum_list (map2 (\<lambda>q p. p * (ln p - q)) log_student teacher)"

definition softmax :: "real list \<Rightarrow> real list" where
  "softmax logits = map (\<lambda>x. exp x / sum_list (map exp logits)) logits"

definition lwf_token_loss :: "real \<Rightarrow> real list \<Rightarrow> real list \<Rightarrow> real" where
  "lwf_token_loss temperature student_logits teacher_logits =
     kl_div (log_softmax (scale_logits temperature student_logits)) (softmax (scale_logits temperature teacher_logits))"

text \<open>The mask: without labels the attention mask, shifted by one.\<close>

definition lwf_mask :: "int list list option \<Rightarrow> bool list list \<Rightarrow> bool list list" where
  "lwf_mask labels attention_mask =
     (case labels of
        None \<Rightarrow> map (drop 1) attention_mask
      | Some rows \<Rightarrow> map (\<lambda>row. map (\<lambda>l. l \<noteq> -100) (drop 1 row)) rows)"

definition distill_loss ::
  "real \<Rightarrow> real list list list \<Rightarrow> real list list list \<Rightarrow> int list list option \<Rightarrow> bool list list \<Rightarrow> real" where
  "distill_loss temperature student_logits teacher_logits labels attention_mask =
     (let msk = lwf_mask labels attention_mask;
          losses = map2 (\<lambda>s t. map2 (lwf_token_loss temperature) (butlast s) (butlast t)) student_logits teacher_logits;
          picked = concat (map2 (map2 (\<lambda>l m. if m then l else 0)) losses msk)
      in sum_list picked * temperature\<^sup>2 / max (real (length (filter id (concat msk)))) 1)"

definition lwf_compute_loss :: "real \<Rightarrow> real \<Rightarrow> real \<Rightarrow> real list list list \<Rightarrow> real list list list option \<Rightarrow> int list list option \<Rightarrow> bool list list \<Rightarrow> real" where
  "lwf_compute_loss alpha temperature sft_loss student_logits teacher_logits labels attention_mask =
     (case teacher_logits of
        None \<Rightarrow> sft_loss
      | Some t \<Rightarrow> if alpha \<le> 0 then sft_loss
                  else sft_loss + alpha * distill_loss temperature student_logits t labels attention_mask)"

section \<open>The optimizer's groups\<close>

record model_param =
  p_name :: str
  p_ndim :: nat
  p_requires_grad :: bool

definition no_decay_marks :: "str list" where
  "no_decay_marks = [''bias'', ''norm.weight'', ''layernorm.weight'']"

definition param_no_decay :: "model_param \<Rightarrow> bool" where
  "param_no_decay p \<longleftrightarrow> p_ndim p \<le> 1 \<or> list_ex (\<lambda>mark. contains (lower (p_name p)) mark) no_decay_marks"

fun param_groups :: "model_param list \<Rightarrow> model_param list \<times> model_param list" where
  "param_groups [] = ([], [])"
| "param_groups (p # ps) =
     (let (decay, no_decay) = param_groups ps
      in if \<not> p_requires_grad p then (decay, no_decay)
         else if param_no_decay p then (decay, p # no_decay) else (p # decay, no_decay))"

section \<open>Facts about rewards\<close>

lemma split_words_nonempty: "w \<noteq> [] \<Longrightarrow> split_words w s \<noteq> []"
  by (induction w s rule: split_words.induct) auto

lemma split_words_some: "\<exists>c \<in> set s. \<not> is_space c \<Longrightarrow> split_words w s \<noteq> []"
  by (induction w s rule: split_words.induct) (auto simp: split_words_nonempty)

lemma text_tokens_nonempty: "s \<noteq> [] \<Longrightarrow> text_tokens s \<noteq> []"
  by (auto simp: text_tokens_def Let_def)

text \<open>The value of two token sets.\<close>

definition f1 :: "'a set \<Rightarrow> 'a set \<Rightarrow> real" where
  "f1 pred ref =
     (if card (pred \<inter> ref) = 0 then 0
      else let precision = real (card (pred \<inter> ref)) / real (max (card pred) 1);
               recall = real (card (pred \<inter> ref)) / real (max (card ref) 1)
           in 2 * precision * recall / max (precision + recall) (1 / 10 ^ 12))"

lemma harmonic_ratio:
  fixes a n m :: real
  assumes "0 < a" and "0 < n" and "0 < m"
  shows "2 * (a / n) * (a / m) / (a / n + a / m) = 2 * a / (n + m)"
proof -
  have "a / n + a / m = a * (n + m) / (n * m)" using assms by (simp add: field_simps)
  moreover have "2 * (a / n) * (a / m) = 2 * a * a / (n * m)" by simp
  moreover have "0 < n * m" "0 < n + m" using assms by simp_all
  ultimately show ?thesis using assms by simp
qed

lemma f1_closed:
  assumes "finite pred" and "finite ref" and o: "card (pred \<inter> ref) \<noteq> 0"
  shows "f1 pred ref \<le> 2 * real (card (pred \<inter> ref)) / real (card pred + card ref) \<and> 0 < f1 pred ref"
proof -
  let ?o = "real (card (pred \<inter> ref))" and ?n = "real (card pred)" and ?m = "real (card ref)"
  have le: "card (pred \<inter> ref) \<le> card pred" "card (pred \<inter> ref) \<le> card ref"
    using assms(1,2) by (auto intro: card_mono)
  then have pos: "0 < ?o" "0 < ?n" "0 < ?m" "max (card pred) 1 = card pred" "max (card ref) 1 = card ref"
    using o by auto
  have s: "0 < ?o / ?n + ?o / ?m" using pos by (intro add_pos_pos divide_pos_pos)
  have "f1 pred ref = 2 * (?o / ?n) * (?o / ?m) / max (?o / ?n + ?o / ?m) (1 / 10 ^ 12)"
    using o pos by (simp add: f1_def Let_def)
  moreover have "2 * (?o / ?n) * (?o / ?m) / max (?o / ?n + ?o / ?m) (1 / 10 ^ 12)
      \<le> 2 * (?o / ?n) * (?o / ?m) / (?o / ?n + ?o / ?m)"
    using s pos by (intro divide_left_mono) auto
  moreover have "2 * (?o / ?n) * (?o / ?m) / (?o / ?n + ?o / ?m) = 2 * ?o / (?n + ?m)"
    by (rule harmonic_ratio[OF pos(1-3)])
  moreover have "0 < 2 * (?o / ?n) * (?o / ?m) / max (?o / ?n + ?o / ?m) (1 / 10 ^ 12)"
    using s pos(1-3) by (intro divide_pos_pos mult_pos_pos) auto
  ultimately show ?thesis by simp
qed

lemma f1_bounds:
  assumes "finite pred" and "finite ref"
  shows "0 \<le> f1 pred ref \<and> f1 pred ref \<le> 1 \<and> (f1 pred ref = 0 \<longleftrightarrow> pred \<inter> ref = {}) \<and> (f1 pred ref = 1 \<longrightarrow> pred = ref)"
proof (cases "card (pred \<inter> ref) = 0")
  case True
  then have "pred \<inter> ref = {}" using assms by simp
  then show ?thesis by (simp add: f1_def)
next
  case False
  note c = f1_closed[OF assms False]
  have le: "card (pred \<inter> ref) \<le> card pred" "card (pred \<inter> ref) \<le> card ref" and pos: "0 < card (pred \<inter> ref)"
    using assms False by (auto intro: card_mono)
  have "2 * real (card (pred \<inter> ref)) / real (card pred + card ref) \<le> 1"
    using le pos by (simp add: divide_le_eq)
  moreover have "pred = ref" if "f1 pred ref = 1"
  proof -
    have "1 \<le> 2 * real (card (pred \<inter> ref)) / real (card pred + card ref)" using c that by simp
    then have "real (card pred + card ref) \<le> 2 * real (card (pred \<inter> ref))" using le pos by (simp add: le_divide_eq)
    then have "card (pred \<inter> ref) = card pred" "card (pred \<inter> ref) = card ref" using le by linarith+
    then have "pred \<inter> ref = pred" "pred \<inter> ref = ref"
      using card_subset_eq[OF assms(1) Int_lower1] card_subset_eq[OF assms(2) Int_lower2] by blast+
    then show ?thesis by simp
  qed
  ultimately show ?thesis using c False by auto
qed

lemma f1_commute: "f1 pred ref = f1 ref pred"
  by (simp add: f1_def Let_def Int_commute mult.commute mult.left_commute add.commute)

lemma reference_match_f1:
  "reference_match_reward a b =
     (if normalize_text a = [] \<or> normalize_text b = [] then 0 else if normalize_text a = normalize_text b then 1
      else f1 (set (text_tokens (normalize_text a))) (set (text_tokens (normalize_text b))))"
  by (simp add: reference_match_reward_def f1_def Let_def)

text \<open>
  The reference reward is a score: it lies between 0 and 1, does not depend on which text is the reference, is 0 exactly when one text is blank
  or they share no token, and is 1 only when their sets of tokens are the same.
\<close>

theorem reference_match_reward_score:
  "0 \<le> reference_match_reward a b \<and> reference_match_reward a b \<le> 1 \<and>
   reference_match_reward a b = reference_match_reward b a \<and>
   (reference_match_reward a b = 0 \<longleftrightarrow>
      normalize_text a = [] \<or> normalize_text b = [] \<or>
      set (text_tokens (normalize_text a)) \<inter> set (text_tokens (normalize_text b)) = {}) \<and>
   (reference_match_reward a b = 1 \<longrightarrow> set (text_tokens (normalize_text a)) = set (text_tokens (normalize_text b)))"
proof -
  let ?A = "set (text_tokens (normalize_text a))" and ?B = "set (text_tokens (normalize_text b))"
  have f: "0 \<le> f1 ?A ?B" "f1 ?A ?B \<le> 1" "f1 ?A ?B = 0 \<longleftrightarrow> ?A \<inter> ?B = {}" "f1 ?A ?B = 1 \<longrightarrow> ?A = ?B"
    using f1_bounds[of ?A ?B] by simp_all
  have ne: "?A \<noteq> {}" if "normalize_text a \<noteq> []" using text_tokens_nonempty[OF that] by simp
  have sym: "reference_match_reward a b = reference_match_reward b a"
    unfolding reference_match_f1[of a b] reference_match_f1[of b a] by (auto simp: f1_commute[of ?A ?B])
  consider "normalize_text a = [] \<or> normalize_text b = []" | "normalize_text a \<noteq> []" "normalize_text a = normalize_text b"
    | "normalize_text a \<noteq> []" "normalize_text b \<noteq> []" "normalize_text a \<noteq> normalize_text b" by blast
  then show ?thesis
  proof cases
    case 1
    then have "reference_match_reward a b = 0" by (auto simp: reference_match_f1)
    with 1 sym show ?thesis by auto
  next
    case 2
    then have "reference_match_reward a b = 1" by (simp add: reference_match_f1)
    with 2 ne sym show ?thesis by auto
  next
    case 3
    then have "reference_match_reward a b = f1 ?A ?B" by (simp add: reference_match_f1)
    with 3 f sym show ?thesis by auto
  qed
qed

theorem reference_match_reward_score_witness:
  "reference_match_reward ''A  cat'' ''dog'' = 0 \<and> reference_match_reward ''A  cat'' '' a cat '' = 1"
proof -
  have "set (text_tokens (normalize_text ''A  cat'')) \<inter> set (text_tokens (normalize_text ''dog'')) = {}" by code_simp
  moreover have "normalize_text ''A  cat'' = normalize_text '' a cat ''" "normalize_text ''A  cat'' \<noteq> []" by code_simp+
  ultimately show ?thesis
    using reference_match_reward_score[of "''A  cat''" "''dog''"] reference_match_reward_score[of "''A  cat''" "'' a cat ''"]
    by (simp add: reference_match_f1)
qed

text \<open>
  The character tokens that the reward falls back to for text without spaces are never used: a normalised text that is not empty has a
  word, so unspaced text is compared as one token and differing texts without spaces get no partial credit.
\<close>

theorem unspaced_text_gets_no_partial_credit:
  assumes "\<forall>c \<in> set (normalize_text a). \<not> is_space c" and "\<forall>c \<in> set (normalize_text b). \<not> is_space c"
    and "normalize_text a \<noteq> normalize_text b"
  shows "reference_match_reward a b = 0"
proof (cases "normalize_text a = [] \<or> normalize_text b = []")
  case True
  then show ?thesis by (auto simp: reference_match_f1)
next
  case False
  have words: "split_words w s = (if w @ s = [] then [] else [w @ s])" if "\<forall>c \<in> set s. \<not> is_space c" for w s
    using that by (induction w s rule: split_words.induct) auto
  have "text_tokens (normalize_text a) = [normalize_text a]" "text_tokens (normalize_text b) = [normalize_text b]"
    using False words[OF assms(1), of "[]"] words[OF assms(2), of "[]"] by (simp_all add: text_tokens_def)
  then show ?thesis using False assms(3) by (simp add: reference_match_f1 f1_def)
qed

theorem unspaced_text_gets_no_partial_credit_witness: "reference_match_reward ''abcdef'' ''abcdeg'' = 0"
  by (rule unspaced_text_gets_no_partial_credit) code_simp+

section \<open>Advantages of a group\<close>

lemma sum_list_divide: "sum_list (map (\<lambda>x. f x / c) xs) = sum_list (map f xs) / (c :: real)"
  by (induction xs) (simp_all add: add_divide_distrib)

lemma column_centered:
  assumes "rewards \<noteq> []"
  shows "sum_list (map (\<lambda>r. r ! j - column_mean rewards j) rewards) = 0"
proof -
  have "sum_list (map (\<lambda>r. r ! j - column_mean rewards j) rewards) =
      sum_list (map (\<lambda>r. r ! j) rewards) - real (length rewards) * column_mean rewards j"
    by (simp add: sum_list_subtractf sum_list_triv)
  then show ?thesis using assms by (simp add: column_mean_def)
qed

lemma group_advantages_nth:
  assumes "length rewards \<noteq> 1" and "i < length rewards" and "j < length (rewards ! i)"
  shows "group_advantages rewards ! i ! j =
    (rewards ! i ! j - column_mean rewards j) / max (column_std rewards j) (1 / 10 ^ 6)"
  using assms by (simp add: group_advantages_def)

lemma column_std_square:
  "(column_std rewards j)\<^sup>2 =
   sum_list (map (\<lambda>r. (r ! j - column_mean rewards j)\<^sup>2) rewards) / real (length rewards)" (is "_ = ?q / _")
  and column_std_nonneg: "0 \<le> column_std rewards j"
proof -
  have "0 \<le> ?q" by (rule sum_list_nonneg) auto
  then show "(column_std rewards j)\<^sup>2 = ?q / real (length rewards)" and "0 \<le> column_std rewards j"
    by (simp_all add: column_std_def)
qed

lemma group_advantages_column:
  assumes "length rewards \<noteq> 1" and "\<forall>r \<in> set rewards. length r = n" and "j < n"
  shows "map (\<lambda>r. r ! j) (group_advantages rewards) =
    map (\<lambda>r. (r ! j - column_mean rewards j) / max (column_std rewards j) (1 / 10 ^ 6)) rewards"
  using assms by (simp add: group_advantages_def)

lemma column_shift:
  assumes "rewards \<noteq> []" and "\<forall>r \<in> set rewards. j < length r"
  shows "column_mean (map (map (\<lambda>x. x + shift)) rewards) j = column_mean rewards j + shift"
    and "column_std (map (map (\<lambda>x. x + shift)) rewards) j = column_std rewards j"
proof -
  let ?rs = "map (map (\<lambda>x. x + shift)) rewards"
  have nth: "map (\<lambda>r. r ! j) ?rs = map (\<lambda>r. r ! j + shift) rewards" using assms(2) by simp
  show m: "column_mean ?rs j = column_mean rewards j + shift"
    unfolding column_mean_def nth using assms(1) by (simp add: sum_list_addf sum_list_triv add_divide_distrib)
  have sqs: "map (\<lambda>r. (r ! j - (column_mean rewards j + shift))\<^sup>2) ?rs = map (\<lambda>r. (r ! j - column_mean rewards j)\<^sup>2) rewards"
    using assms(2) by simp
  show "column_std ?rs j = column_std rewards j" unfolding column_std_def m sqs length_map ..
qed

text \<open>
  GRPO's advantages are relative to the group: with at least two generations of every prompt, the advantages of a prompt sum to zero over its
  generations, their mean square is at most one, and exactly one when the rewards differ by more than the floor of the deviation, and adding a constant to
  a prompt's rewards does not change them; a single generation keeps its plain reward.
\<close>

theorem group_advantages_normalised:
  assumes "2 \<le> length rewards" and "\<forall>r \<in> set rewards. length r = n" and "j < n"
  shows "sum_list (map (\<lambda>r. r ! j) (group_advantages rewards)) = 0 \<and>
    sum_list (map (\<lambda>r. (r ! j)\<^sup>2) (group_advantages rewards)) / real (length rewards) \<le> 1 \<and>
    (1 / 10 ^ 6 \<le> column_std rewards j \<longrightarrow>
       sum_list (map (\<lambda>r. (r ! j)\<^sup>2) (group_advantages rewards)) / real (length rewards) = 1) \<and>
    (\<forall>shift. map (\<lambda>r. r ! j) (group_advantages (map (map (\<lambda>x. x + shift)) rewards)) = map (\<lambda>r. r ! j) (group_advantages rewards))"
proof -
  let ?s = "max (column_std rewards j) (1 / 10 ^ 6)" and ?rs = "\<lambda>shift. map (map (\<lambda>x. x + shift)) rewards"
  have ne: "rewards \<noteq> []" and n1: "length rewards \<noteq> 1" using assms(1) by auto
  have j: "\<forall>r \<in> set rewards. j < length r" using assms(2,3) by simp
  note c = group_advantages_column[OF n1 assms(2,3)]
  have zero: "sum_list (map (\<lambda>r. r ! j) (group_advantages rewards)) = 0"
    unfolding c using column_centered[OF ne, of j] by (simp add: sum_list_divide)
  have "sum_list (map (\<lambda>r. (r ! j)\<^sup>2) (group_advantages rewards)) = sum_list (map (\<lambda>x. x\<^sup>2) (map (\<lambda>r. r ! j) (group_advantages rewards)))"
    by (simp add: comp_def)
  then have sq: "sum_list (map (\<lambda>r. (r ! j)\<^sup>2) (group_advantages rewards)) / real (length rewards) = (column_std rewards j)\<^sup>2 / ?s\<^sup>2"
    unfolding c column_std_square by (simp add: comp_def power_divide sum_list_divide)
  have le: "(column_std rewards j)\<^sup>2 / ?s\<^sup>2 \<le> 1"
    using column_std_nonneg[of rewards j] by (simp add: divide_le_eq power_mono)
  have eq: "1 / 10 ^ 6 \<le> column_std rewards j \<longrightarrow> (column_std rewards j)\<^sup>2 / ?s\<^sup>2 = 1" by (auto simp: max_def)
  have "map (\<lambda>r. r ! j) (group_advantages (?rs shift)) = map (\<lambda>r. r ! j) (group_advantages rewards)" for shift
  proof -
    have "length (?rs shift) \<noteq> 1" "\<forall>r \<in> set (?rs shift). length r = n" using n1 assms(2) by auto
    from group_advantages_column[OF this assms(3)] show ?thesis
      unfolding column_shift[OF ne j] c using j by simp
  qed
  then show ?thesis using zero le eq by (simp add: sq)
qed

theorem group_advantages_normalised_witness:
  "sum_list (map (\<lambda>r. r ! 0) (group_advantages [[1], [0], [1 / 2]])) = 0"
  using group_advantages_normalised[of "[[1], [0], [1 / 2]]" 1 0] by simp

section \<open>The loss of learning without forgetting\<close>

lemma sum_exp_pos: "logits \<noteq> [] \<Longrightarrow> 0 < sum_list (map exp (logits :: real list))"
  by (induction logits rule: list_nonempty_induct) (auto intro: add_pos_pos)

lemma softmax_sum: "logits \<noteq> [] \<Longrightarrow> sum_list (softmax logits) = 1"
proof -
  assume ne: "logits \<noteq> []"
  then have "0 < sum_list (map exp logits)" by (rule sum_exp_pos)
  then show ?thesis by (simp add: softmax_def sum_list_divide)
qed

lemma exp_log_softmax: "logits \<noteq> [] \<Longrightarrow> map exp (log_softmax logits) = softmax logits"
proof -
  assume ne: "logits \<noteq> []"
  then have "0 < sum_list (map exp logits)" by (rule sum_exp_pos)
  then show ?thesis by (simp add: log_softmax_def softmax_def exp_diff)
qed

lemma gibbs_step:
  assumes "length q = length p" and "\<forall>x \<in> set p. 0 < x"
  shows "sum_list p - sum_list (map exp q) \<le> kl_div q p"
  using assms
proof (induction q p rule: list_induct2)
  case Nil
  then show ?case by (simp add: kl_div_def)
next
  case (Cons b q a p)
  have a: "0 < a" using Cons.prems by simp
  have "b - ln a \<le> exp b / a - 1"
    using ln_le_minus_one[of "exp b / a"] a by (simp add: ln_div)
  then have "a * (b - ln a) \<le> a * (exp b / a - 1)" using a by (intro mult_left_mono) auto
  also have "\<dots> = exp b - a" using a by (simp add: algebra_simps)
  finally have "a - exp b \<le> a * (ln a - b)" by (simp add: algebra_simps)
  with Cons.IH Cons.prems show ?case by (simp add: kl_div_def)
qed

lemma softmax_pos: "x \<in> set (softmax logits) \<Longrightarrow> 0 < x"
proof -
  assume "x \<in> set (softmax logits)"
  then have ne: "logits \<noteq> []" and x: "\<exists>l. x = exp l / sum_list (map exp logits)" by (auto simp: softmax_def)
  have "0 < sum_list (map exp logits)" using ne by (rule sum_exp_pos)
  with x show ?thesis by auto
qed

lemma lwf_token_loss_nonneg:
  assumes "length s = length t"
  shows "0 \<le> lwf_token_loss temperature s t"
proof (cases "s = []")
  case True
  then show ?thesis by (simp add: lwf_token_loss_def kl_div_def log_softmax_def scale_logits_def)
next
  case False
  let ?s = "scale_logits temperature s" and ?t = "scale_logits temperature t"
  have ne: "?s \<noteq> []" "?t \<noteq> []" using False assms by (auto simp: scale_logits_def)
  have "length (log_softmax ?s) = length (softmax ?t)" using assms by (simp add: log_softmax_def softmax_def scale_logits_def)
  then have "sum_list (softmax ?t) - sum_list (map exp (log_softmax ?s)) \<le> kl_div (log_softmax ?s) (softmax ?t)"
    by (rule gibbs_step) (auto dest: softmax_pos)
  then show ?thesis unfolding exp_log_softmax[OF ne(1)] softmax_sum[OF ne(1)] softmax_sum[OF ne(2)]
    by (simp add: lwf_token_loss_def)
qed

lemma lwf_token_loss_same: "lwf_token_loss temperature s s = 0"
proof (cases "s = []")
  case True
  then show ?thesis by (simp add: lwf_token_loss_def kl_div_def log_softmax_def scale_logits_def)
next
  case False
  let ?s = "scale_logits temperature s"
  have ne: "?s \<noteq> []" using False by (simp add: scale_logits_def)
  have "kl_div q (map exp q) = 0" for q by (induction q) (simp_all add: kl_div_def)
  from this[of "log_softmax ?s"] show ?thesis unfolding exp_log_softmax[OF ne] by (simp add: lwf_token_loss_def)
qed

lemma sum_list_zeros: "\<forall>x \<in> set xs. x = (0 :: real) \<Longrightarrow> sum_list xs = 0"
  by (induction xs) auto

lemma picked_element:
  assumes "x \<in> set (concat (map2 (map2 (\<lambda>l m. if m then l else 0)) losses msk))"
  shows "\<exists>row \<in> set losses. \<exists>l \<in> set row. x = l \<or> x = (0 :: real)"
proof -
  obtain z where z: "z \<in> set (zip losses msk)" "x \<in> set (case z of (row, ms) \<Rightarrow> map2 (\<lambda>l m. if m then l else 0) row ms)"
    using assms by fastforce
  obtain row ms where zz: "z = (row, ms)" by (cases z)
  obtain y where y: "y \<in> set (zip row ms)" "x = (case y of (l, m) \<Rightarrow> if m then l else 0)" using z(2) zz by auto
  obtain l m where "y = (l, m)" by (cases y)
  with y z(1) zz show ?thesis by (auto dest!: set_zip_leftD)
qed

lemma picked_nonneg:
  assumes "\<forall>row \<in> set losses. \<forall>l \<in> set row. (0 :: real) \<le> l"
  shows "0 \<le> sum_list (concat (map2 (map2 (\<lambda>l m. if m then l else 0)) losses msk))"
  by (rule sum_list_nonneg) (use assms picked_element in fastforce)

lemma picked_zero:
  assumes "\<forall>row \<in> set losses. \<forall>l \<in> set row. l = (0 :: real)"
  shows "sum_list (concat (map2 (map2 (\<lambda>l m. if m then l else 0)) losses msk)) = 0"
proof -
  have "\<forall>x \<in> set (concat (map2 (map2 (\<lambda>l m. if m then l else 0)) losses msk)). x = 0"
    using assms picked_element by fastforce
  then show ?thesis by (rule sum_list_zeros)
qed

text \<open>
  The distillation loss of learning without forgetting is a divergence: whatever the temperature, the labels and the masks, it is never negative, it
  vanishes when the student's logits are the teacher's, so the total loss is never below the supervised one and equals it there.
\<close>

theorem lwf_loss_divergence:
  assumes "list_all2 (list_all2 (\<lambda>s t. length s = length t)) student teacher"
  shows "sft_loss \<le> lwf_compute_loss alpha temperature sft_loss student (Some teacher) labels attention_mask \<and>
    0 \<le> distill_loss temperature student teacher labels attention_mask \<and>
    lwf_compute_loss alpha temperature sft_loss student (Some student) labels attention_mask = sft_loss"
proof -
  let ?losses = "map2 (\<lambda>s t. map2 (lwf_token_loss temperature) (butlast s) (butlast t)) student teacher"
  have "0 \<le> l" if row: "row \<in> set ?losses" and l: "l \<in> set row" for row l
  proof -
    obtain s t where st: "(s, t) \<in> set (zip student teacher)" "row = map2 (lwf_token_loss temperature) (butlast s) (butlast t)"
      using row by auto
    have al: "list_all2 (\<lambda>a b. length a = length b) s t" using assms st(1) by (auto simp: list_all2_iff)
    obtain a b where ab: "(a, b) \<in> set (zip (butlast s) (butlast t))" "l = lwf_token_loss temperature a b"
      using l st(2) by auto
    have "length s = length t" using al by (rule list_all2_lengthD)
    then have "set (zip (butlast s) (butlast t)) \<subseteq> set (zip s t)"
      by (simp add: butlast_conv_take flip: take_zip) (rule set_take_subset)
    then have "length a = length b" using ab(1) al by (auto simp: list_all2_iff)
    then show ?thesis using lwf_token_loss_nonneg ab(2) by simp
  qed
  then have nn: "0 \<le> distill_loss temperature student teacher labels attention_mask"
    using picked_nonneg[of ?losses] by (simp add: distill_loss_def Let_def)
  have "l = 0" if "row \<in> set (map2 (\<lambda>s t. map2 (lwf_token_loss temperature) (butlast s) (butlast t)) student student)" "l \<in> set row" for row l
    using that by (auto simp: zip_same_conv_map lwf_token_loss_same)
  then have "distill_loss temperature student student labels attention_mask = 0"
    using picked_zero[of "map2 (\<lambda>s t. map2 (lwf_token_loss temperature) (butlast s) (butlast t)) student student"]
    by (simp add: distill_loss_def Let_def)
  with nn show ?thesis by (simp add: lwf_compute_loss_def)
qed

theorem lwf_loss_divergence_witness:
  "lwf_compute_loss 1 2 5 [[[1, 2], [0, 3]]] (Some [[[1, 2], [0, 3]]]) None [[True, True]] = 5"
  using lwf_loss_divergence[of "[[[1, 2], [0, 3]]]" "[[[1, 2], [0, 3]]]" 5 1 2 None "[[True, True]]"] by simp

section \<open>The optimizer's groups partition the trainable parameters\<close>

lemma param_groups_partition:
  "param_groups ps =
     (filter (\<lambda>p. p_requires_grad p \<and> \<not> param_no_decay p) ps, filter (\<lambda>p. p_requires_grad p \<and> param_no_decay p) ps)"
  by (induction ps) (auto simp: Let_def split: prod.splits)

end
