(* ===== verification/MathReward.thy ===== *)
theory MathReward
  imports PyStrings
begin

text \<open>
  \<open>verl/utils/reward_score/math_reward.py\<close> and \<open>gsm8k.py\<close>: extraction of the boxed answer,
  normalisation of LaTeX answers and their comparison, and the number extraction of GSM8K.
  \<open>bs\<close> is the backslash.  An exception inside the normalisation is a value, because
  \<open>is_equiv\<close> and \<open>compute_score\<close> catch it.
\<close>

section \<open>Boxed answers\<close>

abbreviation bs :: char where
  "bs \<equiv> CHR 0x5C"

definition boxed_tag :: str where "boxed_tag = bs # ''boxed''"
definition boxed_space :: str where "boxed_space = bs # ''boxed ''"
definition boxed_brace :: str where "boxed_brace = bs # ''boxed{''"
definition fbox_tag :: str where "fbox_tag = bs # ''fbox''"

text \<open>The scan for the brace that closes the first one; the count may go below zero.\<close>

fun brace_end :: "str \<Rightarrow> nat \<Rightarrow> int \<Rightarrow> nat option" where
  "brace_end [] i n = None"
| "brace_end (c # cs) i n =
     (let n1 = (if c = CHR ''{'' then n + 1 else n)
      in if c = CHR ''}'' then (if n1 - 1 = 0 then Some i else brace_end cs (i + 1) (n1 - 1))
         else brace_end cs (i + 1) n1)"

definition last_boxed_only_string :: "str \<Rightarrow> str option" where
  "last_boxed_only_string string =
     (let idx = rfind_sub string boxed_tag
      in if contains string boxed_space then
           Some (boxed_space @ hd (split_on ''$'' (last (split_on boxed_space string))))
         else
           (case (case idx of None \<Rightarrow> rfind_sub string fbox_tag | Some i \<Rightarrow> Some i) of
              None \<Rightarrow> None
            | Some i \<Rightarrow>
                (case brace_end (drop i string) i 0 of
                   None \<Rightarrow> None
                 | Some right_brace_idx \<Rightarrow> Some (take (right_brace_idx + 1 - i) (drop i string)))))"

definition remove_boxed :: "str \<Rightarrow> str result" where
  "remove_boxed s =
     (if contains s boxed_space then
        asserting (take (length boxed_space) s = boxed_space) (Inr (drop (length boxed_space) s))
      else
        asserting (take (length boxed_brace) s = boxed_brace)
          (bind_res (py_index s (- 1)) (\<lambda>c.
           asserting (c = CHR ''}'') (Inr (py_slice s (Some (int (length boxed_brace))) (Some (- 1)))))))"

section \<open>Normalisation\<close>

definition frac_tag :: str where "frac_tag = bs # ''frac''"
definition sqrt_tag :: str where "sqrt_tag = bs # ''sqrt''"

text \<open>The loop over the parts after each \<open>frac\<close>; \<open>None\<close> is the early return of the input.\<close>

fun fix_fracs_loop :: "str \<Rightarrow> str list \<Rightarrow> str option result" where
  "fix_fracs_loop new_str [] = Inr (Some new_str)"
| "fix_fracs_loop new_str (substr # rest) =
     (case substr of
        [] \<Rightarrow> Inl IndexError
      | a # after_a \<Rightarrow>
          if a = CHR ''{'' then fix_fracs_loop (new_str @ frac_tag @ substr) rest
          else (case after_a of
                  [] \<Rightarrow> Inr None
                | b # post_substr \<Rightarrow>
                    if b \<noteq> CHR ''{'' then
                      fix_fracs_loop (new_str @ frac_tag @ ''{'' @ [a] @ ''}{'' @ [b] @ ''}'' @ post_substr) rest
                    else
                      fix_fracs_loop (new_str @ frac_tag @ ''{'' @ [a] @ ''}'' @ [b] @ post_substr) rest))"

definition fix_fracs :: "str \<Rightarrow> str result" where
  "fix_fracs string =
     (let substrs = split_on frac_tag string
      in bind_res (fix_fracs_loop (hd substrs) (tl substrs)) (\<lambda>r.
         Inr (case r of None \<Rightarrow> string | Some new_str \<Rightarrow> new_str)))"

text \<open>
  \<open>int(s)\<close> on an optional sign and decimal digits.  Python also accepts blanks, a plus sign and
  underscores, but then the comparison with the printed numbers fails and the input is
  returned, as it is here when the parse fails.
\<close>

definition int_of_str :: "str \<Rightarrow> int option" where
  "int_of_str s =
     (case s of
        [] \<Rightarrow> None
      | c # cs \<Rightarrow> if c = CHR ''-'' then map_option (\<lambda>n. - int n) (nat_of_digits cs)
                  else map_option int (nat_of_digits s))"

definition fix_a_slash_b :: "str \<Rightarrow> str" where
  "fix_a_slash_b string =
     (case split_on ''/'' string of
        [a, b] \<Rightarrow>
          (case (int_of_str a, int_of_str b) of
             (Some i, Some j) \<Rightarrow>
               if string = str_of_int i @ ''/'' @ str_of_int j
               then frac_tag @ ''{'' @ str_of_int i @ ''}{'' @ str_of_int j @ ''}''
               else string
           | _ \<Rightarrow> string)
      | _ \<Rightarrow> string)"

definition remove_right_units :: "str \<Rightarrow> str result" where
  "remove_right_units string =
     (let tag = bs # ''text{ ''
      in if contains string tag then
           (case split_on tag string of [a, b] \<Rightarrow> Inr a | _ \<Rightarrow> Inl AssertionError)
         else Inr string)"

fun fix_sqrt_loop :: "str \<Rightarrow> str list \<Rightarrow> str result" where
  "fix_sqrt_loop new_string [] = Inr new_string"
| "fix_sqrt_loop new_string (part # rest) =
     (case part of
        [] \<Rightarrow> Inl IndexError
      | a # cs \<Rightarrow>
          if a \<noteq> CHR ''{'' then fix_sqrt_loop (new_string @ sqrt_tag @ ''{'' @ [a] @ ''}'' @ cs) rest
          else fix_sqrt_loop (new_string @ sqrt_tag @ part) rest)"

definition fix_sqrt :: "str \<Rightarrow> str result" where
  "fix_sqrt string =
     (if \<not> contains string sqrt_tag then Inr string
      else let splits = split_on sqrt_tag string in fix_sqrt_loop (hd splits) (tl splits))"

text \<open>The replacements before and after the units are removed, in the order of the code.\<close>

definition strip_prefix_rules :: "(str \<times> str) list" where
  "strip_prefix_rules =
     [([CHR 0x0A], ''''), (bs # ''!'', ''''), ([bs, bs], [bs]), (''tfrac'', ''frac''), (''dfrac'', ''frac''),
      (bs # ''left'', ''''), (bs # ''right'', ''''), (''^{'' @ bs # ''circ}'', ''''), (''^'' @ bs # ''circ'', ''''),
      (bs # ''$'', '''')]"

definition strip_suffix_rules :: "(str \<times> str) list" where
  "strip_suffix_rules =
     [([bs, bs] @ ''%'', ''''), (bs # ''%'', ''''), ('' .'', '' 0.''), (''{.'', ''{0.'')]"

definition apply_rules :: "(str \<times> str) list \<Rightarrow> str \<Rightarrow> str" where
  "apply_rules rules string = foldl (\<lambda>s (old, new). replace old new s) string rules"

definition drop_equation :: "str \<Rightarrow> str" where
  "drop_equation string =
     (case split_on ''='' string of
        [l, r] \<Rightarrow> if length l \<le> 2 then r else string
      | _ \<Rightarrow> string)"

definition strip_string :: "str \<Rightarrow> str result" where
  "strip_string string =
     bind_res (remove_right_units (apply_rules strip_prefix_rules string)) (\<lambda>s1.
     let s2 = apply_rules strip_suffix_rules s1
     in if length s2 = 0 then Inr s2
        else
          bind_res (fix_sqrt (drop_equation (if hd s2 = CHR ''.'' then ''0'' @ s2 else s2))) (\<lambda>s3.
          bind_res (fix_fracs (replace '' '' '''' s3)) (\<lambda>s4.
          Inr (fix_a_slash_b (if s4 = ''0.5'' then frac_tag @ ''{1}{2}'' else s4)))))"

section \<open>Comparison and score\<close>

definition is_equiv :: "str option \<Rightarrow> str option \<Rightarrow> bool" where
  "is_equiv str1 str2 =
     (case (str1, str2) of
        (None, None) \<Rightarrow> True
      | (Some s1, Some s2) \<Rightarrow>
          (case strip_string s1 of
             Inl e \<Rightarrow> s1 = s2
           | Inr ss1 \<Rightarrow> (case strip_string s2 of Inl e \<Rightarrow> s1 = s2 | Inr ss2 \<Rightarrow> ss1 = ss2))
      | _ \<Rightarrow> False)"

definition math_compute_score :: "str \<Rightarrow> str option \<Rightarrow> int" where
  "math_compute_score solution_str ground_truth =
     (case last_boxed_only_string solution_str of
        None \<Rightarrow> 0
      | Some boxed \<Rightarrow>
          (case remove_boxed boxed of
             Inl e \<Rightarrow> 0
           | Inr answer \<Rightarrow> if is_equiv (Some answer) ground_truth then 1 else 0))"

section \<open>GSM8K\<close>

text \<open>The regular expression \<open>-?[0-9.,]+\<close> at the front of a string, with the rest.\<close>

definition num_char :: "char \<Rightarrow> bool" where
  "num_char c = (is_digit c \<or> c = CHR ''.'' \<or> c = CHR '','')"

definition match_number :: "str \<Rightarrow> (str \<times> str) option" where
  "match_number s =
     (case s of
        [] \<Rightarrow> None
      | c # cs \<Rightarrow>
          if c = CHR ''-'' then
            (if takeWhile num_char cs = [] then None
             else Some (c # takeWhile num_char cs, dropWhile num_char cs))
          else
            (if takeWhile num_char s = [] then None
             else Some (takeWhile num_char s, dropWhile num_char s)))"

lemma match_number_shorter: "match_number s = Some (t, rest) \<Longrightarrow> s = t @ rest \<and> t \<noteq> []"
  by (cases s) (auto simp: match_number_def split: if_splits)

text \<open>\<open>re.findall\<close> of a literal prefix followed by a number (the group is the number).\<close>

function find_numbers :: "str \<Rightarrow> str \<Rightarrow> str list" where
  "find_numbers prefix s =
     (if starts_with s prefix then
        (case match_number (drop (length prefix) s) of
           Some (t, rest) \<Rightarrow> t # find_numbers prefix rest
         | None \<Rightarrow> (case s of [] \<Rightarrow> [] | c # cs \<Rightarrow> find_numbers prefix cs))
      else (case s of [] \<Rightarrow> [] | c # cs \<Rightarrow> find_numbers prefix cs))"
  by auto
termination
proof (relation "measure (\<lambda>(prefix, s). length s)")
  fix prefix s :: str and x t rest
  assume "match_number (drop (length prefix) s) = Some x" "(t, rest) = x"
  then have "drop (length prefix) s = t @ rest" "t \<noteq> []" using match_number_shorter by blast+
  then have "length rest < length (drop (length prefix) s)" by (cases t) auto
  then show "((prefix, rest), prefix, s) \<in> measure (\<lambda>(prefix, s). length s)" by simp
qed auto

declare find_numbers.simps [simp del]

definition SOLUTION_CLIP_CHARS :: nat where
  "SOLUTION_CLIP_CHARS = 300"

datatype extract_method = Strict | Flexible

text \<open>The loop of the flexible method: the last candidate that is not invalid, else the first one.\<close>

fun last_valid :: "str list \<Rightarrow> str option" where
  "last_valid [] = None"
| "last_valid [a] = Some a"
| "last_valid (a # rest) = (if a \<notin> {'''', ''.''} then Some a else last_valid rest)"

definition extract_solution :: "extract_method \<Rightarrow> str \<Rightarrow> str option" where
  "extract_solution how solution_str =
     (let clipped = (if length solution_str > SOLUTION_CLIP_CHARS
                     then py_slice solution_str (Some (- int SOLUTION_CLIP_CHARS)) None else solution_str)
      in case how of
           Strict \<Rightarrow>
             (let solutions = find_numbers ''#### '' clipped
              in if solutions = [] then None
                 else Some (replace ''$'' '''' (replace '','' '''' (last solutions))))
         | Flexible \<Rightarrow> last_valid (rev (find_numbers '''' clipped)))"

definition gsm8k_compute_score :: "str \<Rightarrow> str \<Rightarrow> extract_method \<Rightarrow> int \<Rightarrow> int \<Rightarrow> int" where
  "gsm8k_compute_score solution_str ground_truth how format_score score =
     (case extract_solution how solution_str of
        None \<Rightarrow> 0
      | Some answer \<Rightarrow> if answer = ground_truth then score else format_score)"

section \<open>Facts about the extraction\<close>

lemma rfind_sub_None: "rfind_sub s p = None \<longleftrightarrow> \<not> contains s p"
proof (induction s)
  case (Cons x xs)
  then show ?case by (auto simp: contains_def split: option.splits)
qed (simp add: contains_def)

lemma rfind_sub_last:
  assumes "p \<noteq> []" and "\<not> contains (tl (p @ t)) p"
  shows "rfind_sub (u @ p @ t) p = Some (length u)"
proof (induction u)
  case Nil
  obtain x xs where p: "p = x # xs" using assms(1) by (cases p) auto
  then have "rfind_sub (xs @ t) p = None" using assms(2) rfind_sub_None by auto
  moreover have "starts_with (p @ t) p" by simp
  ultimately show ?case using p by (auto simp: split: option.splits)
qed simp

definition brace_depth :: "char \<Rightarrow> int" where
  "brace_depth c = (if c = CHR ''{'' then 1 else if c = CHR ''}'' then - 1 else 0)"

text \<open>Braces are balanced: no prefix closes more than it opens, and all are closed.\<close>

definition balanced :: "str \<Rightarrow> bool" where
  "balanced s \<longleftrightarrow> (\<forall>k. 0 \<le> sum_list (map brace_depth (take k s))) \<and> sum_list (map brace_depth s) = 0"

lemma brace_end_body:
  "(\<And>k. 1 \<le> n + sum_list (map brace_depth (take k body))) \<Longrightarrow> n + sum_list (map brace_depth body) = 1 \<Longrightarrow>
   brace_end (body @ CHR ''}'' # rest) i n = Some (i + length body)"
proof (induction body arbitrary: i n)
  case (Cons c body)
  let ?m = "n + brace_depth c"
  have pos: "1 \<le> ?m" using Cons.prems(1)[of 1] by simp
  have pre: "1 \<le> ?m + sum_list (map brace_depth (take k body))" for k
    using Cons.prems(1)[of "Suc k"] by simp
  have tot: "?m + sum_list (map brace_depth body) = 1" using Cons.prems(2) by simp
  have "brace_end (body @ CHR ''}'' # rest) (Suc i) ?m = Some (Suc i + length body)"
    by (rule Cons.IH[OF pre tot])
  moreover have "brace_end ((c # body) @ CHR ''}'' # rest) i n = brace_end (body @ CHR ''}'' # rest) (Suc i) ?m"
    using pos by (auto simp: brace_depth_def Let_def)
  ultimately show ?case by simp
qed simp

lemma boxed_lengths [simp]: "length boxed_brace = 7" "length boxed_space = 7" "length boxed_tag = 6"
  by (simp_all add: boxed_brace_def boxed_space_def boxed_tag_def)

lemma brace_end_boxed: "brace_end (boxed_brace @ s) i 0 = brace_end s (i + 7) 1"
  by (simp add: boxed_brace_def eval_nat_numeral)

lemma last_boxed_braces:
  assumes "balanced body" and "\<not> contains (pre @ boxed_brace @ body @ ''}'' @ post) boxed_space"
    and "\<not> contains (''boxed{'' @ body @ ''}'' @ post) boxed_tag"
  shows "last_boxed_only_string (pre @ boxed_brace @ body @ ''}'' @ post) = Some (boxed_brace @ body @ ''}'')"
proof -
  let ?t = "''{'' @ body @ ''}'' @ post"
  have split: "boxed_brace @ body @ ''}'' @ post = boxed_tag @ ?t" by (simp add: boxed_brace_def boxed_tag_def)
  have "\<not> contains (tl (boxed_tag @ ?t)) boxed_tag" using assms(3) by (simp add: boxed_tag_def)
  then have "rfind_sub (pre @ boxed_tag @ ?t) boxed_tag = Some (length pre)"
    by (intro rfind_sub_last) (simp_all add: boxed_tag_def)
  then have idx: "rfind_sub (pre @ boxed_brace @ body @ ''}'' @ post) boxed_tag = Some (length pre)"
    unfolding split .
  have "brace_end (boxed_brace @ body @ ''}'' @ post) (length pre) 0 = Some (length pre + 7 + length body)"
    unfolding brace_end_boxed
    using brace_end_body[of 1 body post "length pre + 7"] assms(1) by (simp add: balanced_def)
  moreover have "take (7 + length body + 1) (boxed_brace @ body @ ''}'' @ post) = boxed_brace @ body @ ''}''"
    by simp
  ultimately show ?thesis using idx assms(2) by (simp add: last_boxed_only_string_def Let_def)
qed

lemma remove_boxed_braces:
  assumes "\<not> contains (boxed_brace @ body @ ''}'') boxed_space"
  shows "remove_boxed (boxed_brace @ body @ ''}'') = Inr body"
proof -
  let ?s = "boxed_brace @ body @ ''}''"
  have "py_index ?s (- 1) = Inr (CHR ''}'')"
    by (simp add: py_index_def nat_add_distrib nth_append)
  moreover have "py_slice ?s (Some (int (length boxed_brace))) (Some (- 1)) = body"
    by (simp add: py_slice_def slice_bound_def nat_add_distrib)
  ultimately show ?thesis using assms by (simp add: remove_boxed_def)
qed

text \<open>What the comparison compares: the normal form, or the raw string when there is none.\<close>

definition equiv_key :: "str \<Rightarrow> str + str" where
  "equiv_key s = (case strip_string s of Inl e \<Rightarrow> Inl s | Inr n \<Rightarrow> Inr n)"

lemma is_equiv_key: "is_equiv (Some a) (Some b) \<longleftrightarrow> equiv_key a = equiv_key b"
  by (auto simp: is_equiv_def equiv_key_def split: sum.splits)

lemma is_equiv_None: "is_equiv None b \<longleftrightarrow> b = None" "is_equiv a None \<longleftrightarrow> a = None"
  by (auto simp: is_equiv_def split: option.splits)

section \<open>Facts about the numbers\<close>

definition number_text :: "str \<Rightarrow> bool" where
  "number_text n \<longleftrightarrow> n \<noteq> [] \<and> (list_all num_char n \<or> (hd n = CHR ''-'' \<and> tl n \<noteq> [] \<and> list_all num_char (tl n)))"

lemma takeWhile_all: "list_all P s \<Longrightarrow> takeWhile P s = s \<and> dropWhile P s = []"
  by (induction s) auto

lemma num_char_minus [simp]: "\<not> num_char (CHR ''-'')" "\<not> num_char (CHR ''#'')"
  by (simp_all add: num_char_def is_digit_def)

lemma match_number_text: "number_text n \<Longrightarrow> match_number n = Some (n, [])"
  by (cases n)
     (auto simp: number_text_def match_number_def takeWhile_all takeWhile_eq_Nil_iff list_all_iff)

lemma match_number_chars:
  assumes "match_number s = Some (t, rest)" and "c \<in> set t"
  shows "c \<noteq> CHR ''#''"
proof -
  have "num_char c \<or> c = CHR ''-''"
    using assms by (cases s) (auto simp: match_number_def split: if_splits dest: set_takeWhileD)
  then show ?thesis by auto
qed

lemma find_numbers_Nil [simp]: "p \<noteq> [] \<Longrightarrow> find_numbers p [] = []"
  by (subst find_numbers.simps) (cases p; simp)

lemma find_numbers_skip:
  "\<not> starts_with (c # cs) p \<or> match_number (drop (length p) (c # cs)) = None \<Longrightarrow>
   find_numbers p (c # cs) = find_numbers p cs"
  by (subst find_numbers.simps) auto

lemma find_numbers_hit:
  "starts_with s p \<Longrightarrow> match_number (drop (length p) s) = Some (t, rest) \<Longrightarrow>
   find_numbers p s = t # find_numbers p rest"
  by (subst find_numbers.simps) simp

lemma find_numbers_marker:
  assumes "number_text n"
  shows "\<exists>xs. find_numbers ''#### '' (u @ ''#### '' @ n) = xs @ [n]"
proof (induction "length u" arbitrary: u rule: less_induct)
  case less
  let ?m = "''#### ''" let ?s = "u @ ?m @ n"
  show ?case
  proof (cases u)
    case Nil
    have "find_numbers ?m ?s = n # find_numbers ?m []"
      by (rule find_numbers_hit) (simp_all add: Nil match_number_text[OF assms])
    then show ?thesis by (intro exI[of _ "[]"]) simp
  next
    case (Cons c cs)
    have skip: "\<exists>xs. find_numbers ?m (cs @ ?m @ n) = xs @ [n]" using less[of cs] Cons by simp
    show ?thesis
    proof (cases "starts_with ?s ?m")
      case False
      then have "find_numbers ?m ?s = find_numbers ?m (cs @ ?m @ n)"
        using find_numbers_skip[of c "cs @ ?m @ n" ?m] unfolding Cons append_Cons by blast
      with skip show ?thesis by simp
    next
      case True
      then obtain r where r: "?s = ?m @ r" by (auto simp: starts_with_iff)
      have five: "5 \<le> length u"
      proof (rule ccontr)
        assume "\<not> 5 \<le> length u"
        then have u: "length u < 5" "0 < length u" using Cons by auto
        have "?s ! 4 = CHR '' ''" unfolding r by (simp add: nth_append)
        moreover have "?s ! 4 = (?m @ n) ! (4 - length u)" using u by (simp add: nth_append)
        moreover have "(?m @ n) ! (4 - length u) = CHR ''#''"
        proof -
          have "4 - length u = 0 \<or> 4 - length u = 1 \<or> 4 - length u = 2 \<or> 4 - length u = 3" using u by linarith
          then show ?thesis by (elim disjE) simp_all
        qed
        ultimately show False by simp
      qed
      have dr: "drop 5 ?s = r" unfolding r by simp
      show ?thesis
      proof (cases "match_number r")
        case None
        have "drop (length ?m) ?s = r" unfolding r by simp
        then have "match_number (drop (length ?m) (c # cs @ ?m @ n)) = None"
          using None unfolding Cons append_Cons by simp
        then have "find_numbers ?m ?s = find_numbers ?m (cs @ ?m @ n)"
          unfolding Cons append_Cons by (rule find_numbers_skip[OF disjI2])
        with skip show ?thesis by simp
      next
        case (Some p)
        obtain t rest where t: "match_number r = Some (t, rest)" using Some by (cases p) auto
        have rt: "r = t @ rest" "t \<noteq> []" using match_number_shorter[OF t] by auto
        have ur: "r = drop 5 u @ ?m @ n" using dr five by simp
        have "length t \<le> length (drop 5 u)"
        proof (rule ccontr)
          assume long: "\<not> length t \<le> length (drop 5 u)"
          then have "t ! length (drop 5 u) = r ! length (drop 5 u)" using rt by (simp add: nth_append)
          also have "\<dots> = CHR ''#''" unfolding ur by (simp add: nth_append)
          finally have "CHR ''#'' \<in> set t" using long nth_mem[of "length (drop 5 u)" t] by simp
          with match_number_chars[OF t] show False by blast
        qed
        then have rest: "rest = drop (length t) (drop 5 u) @ ?m @ n"
          using rt(1) ur by (metis append_eq_append_conv_if append_eq_conv_conj drop_append diff_is_0_eq' drop0)
        have short: "length (drop (length t) (drop 5 u)) < length u" using five by simp
        obtain xs where "find_numbers ?m rest = xs @ [n]"
          using less[OF short] rest by auto
        moreover have "find_numbers ?m ?s = t # find_numbers ?m rest"
        proof (rule find_numbers_hit[OF True])
          have "drop (length ?m) ?s = r" unfolding r by simp
          with t show "match_number (drop (length ?m) ?s) = Some (t, rest)" by simp
        qed
        ultimately show ?thesis by (intro exI[of _ "t # xs"]) simp
      qed
    qed
  qed
qed

lemma clip_marker:
  assumes "length n \<le> 295"
  shows "\<exists>v. (if length (u @ ''#### '' @ n) > 300 then drop (length (u @ ''#### '' @ n) - 300) (u @ ''#### '' @ n)
     else u @ ''#### '' @ n) = v @ ''#### '' @ n"
proof (cases "length (u @ ''#### '' @ n) > 300")
  case True
  then have "length (u @ ''#### '' @ n) - 300 \<le> length u" using assms by simp
  then show ?thesis using True by auto
qed auto

section \<open>Properties\<close>

text \<open>
  A solution whose last box is \<open>\boxed{body}\<close> with balanced braces, and that has no box of the
  form \<open>\boxed \<close> with a blank, scores 1 exactly when \<open>body\<close> is equivalent to the ground truth.
\<close>

theorem boxed_answer_scored:
  assumes "balanced body" and "\<not> contains (pre @ boxed_brace @ body @ ''}'' @ post) boxed_space"
    and "\<not> contains (''boxed{'' @ body @ ''}'' @ post) boxed_tag"
  shows "last_boxed_only_string (pre @ boxed_brace @ body @ ''}'' @ post) = Some (boxed_brace @ body @ ''}'') \<and>
    remove_boxed (boxed_brace @ body @ ''}'') = Inr body \<and>
    math_compute_score (pre @ boxed_brace @ body @ ''}'' @ post) ground_truth =
      (if is_equiv (Some body) ground_truth then 1 else 0)"
proof -
  note last = last_boxed_braces[OF assms]
  have "\<not> contains (boxed_brace @ body @ ''}'') boxed_space"
  proof
    assume "contains (boxed_brace @ body @ ''}'') boxed_space"
    then obtain u v where "boxed_brace @ body @ ''}'' = u @ boxed_space @ v" by (auto simp: contains_iff)
    then have "pre @ boxed_brace @ body @ ''}'' @ post = (pre @ u) @ boxed_space @ (v @ post)"
      by (metis append.assoc)
    with assms(2) show False unfolding contains_iff by blast
  qed
  note rem = remove_boxed_braces[OF this]
  show ?thesis using last rem by (simp add: math_compute_score_def)
qed

theorem boxed_answer_scored_witness:
  "math_compute_score (''so '' @ boxed_brace @ ''x^{2}'' @ ''}'' @ '' holds'') (Some ''x^{2} '') = 1"
proof -
  have "balanced ''x^{2}''"
  proof -
    have "0 \<le> sum_list (map brace_depth (take k ''x^{2}''))" for k
      by (cases "k < 5") (auto simp: less_Suc_eq numeral_eq_Suc brace_depth_def)
    then show ?thesis by (simp add: balanced_def brace_depth_def)
  qed
  from boxed_answer_scored[OF this, of "''so ''" "'' holds''" "Some ''x^{2} ''"]
  have "math_compute_score (''so '' @ boxed_brace @ ''x^{2}'' @ ''}'' @ '' holds'') (Some ''x^{2} '') =
     (if is_equiv (Some ''x^{2}'') (Some ''x^{2} '') then 1 else 0)"
    by (simp add: contains_def boxed_brace_def boxed_space_def boxed_tag_def)
  moreover have "is_equiv (Some ''x^{2}'') (Some ''x^{2} '')" by code_simp
  ultimately show ?thesis by simp
qed

text \<open>
  The comparison of answers is an equivalence relation, although an answer whose normalisation
  raises is compared literally.
\<close>

theorem is_equiv_equivalence:
  "is_equiv a a \<and> (is_equiv a b \<longleftrightarrow> is_equiv b a) \<and> \<not> (is_equiv a b \<and> is_equiv b c \<and> \<not> is_equiv a c)"
  by (cases a; cases b; cases c) (auto simp: is_equiv_key is_equiv_None)

text \<open>
  As soon as the solution has a box with a blank, \<open>last_boxed_only_string\<close> ignores later boxes
  with braces: of \<open>\boxed 1 so \boxed{2}\<close> it returns the text from the first box on, and a
  correct final answer 2 scores 0.
\<close>

theorem blank_box_shadows_last:
  "last_boxed_only_string (boxed_space @ ''1 so '' @ boxed_brace @ ''2}'') =
     Some (boxed_space @ ''1 so '' @ boxed_brace @ ''2}'') \<and>
   math_compute_score (boxed_space @ ''1 so '' @ boxed_brace @ ''2}'') (Some ''2'') = 0 \<and>
   math_compute_score (''so '' @ boxed_brace @ ''2}'') (Some ''2'') = 1"
  by code_simp

text \<open>
  The strict GSM8K extraction of a solution that ends with the marker and a number of at most
  295 characters returns that number without its commas, however long the text before it.
\<close>

theorem gsm8k_strict_extracts_last:
  assumes "number_text n" and "length n \<le> 295"
  shows "extract_solution Strict (u @ ''#### '' @ n) = Some (replace ''$'' '''' (replace '','' '''' n))"
proof -
  let ?s = "u @ ''#### '' @ n"
  obtain v where v: "(if length ?s > 300 then drop (length ?s - 300) ?s else ?s) = v @ ''#### '' @ n"
    using clip_marker[OF assms(2)] by blast
  have slice: "py_slice ?s (Some (- int SOLUTION_CLIP_CHARS)) None = drop (length ?s - 300) ?s"
    using py_slice_last[of 300 ?s] by (simp add: SOLUTION_CLIP_CHARS_def)
  have clip: "(if length ?s > SOLUTION_CLIP_CHARS then py_slice ?s (Some (- int SOLUTION_CLIP_CHARS)) None else ?s)
      = v @ ''#### '' @ n"
    unfolding slice using v by (simp add: SOLUTION_CLIP_CHARS_def)
  obtain xs where "find_numbers ''#### '' (v @ ''#### '' @ n) = xs @ [n]"
    using find_numbers_marker[OF assms(1)] by blast
  then show ?thesis unfolding extract_solution_def Let_def clip by simp
qed

theorem gsm8k_strict_extracts_last_witness:
  "extract_solution Strict (''2+3 #### 4 or '' @ ''#### '' @ ''-1,205'') = Some (replace ''$'' '''' (replace '','' '''' ''-1,205''))"
  by (rule gsm8k_strict_extracts_last) (simp_all add: number_text_def num_char_def is_digit_def)

text \<open>
  The flexible GSM8K extraction returns an invalid candidate when there is no valid one: a text
  whose only "number" is a full stop gets the format score instead of 0.
\<close>

theorem gsm8k_flexible_returns_invalid:
  "extract_solution Flexible ''I do not know.'' = Some ''.'' \<and>
   gsm8k_compute_score ''I do not know.'' ''5'' Flexible 1 10 = 1 \<and>
   gsm8k_compute_score ''I do not know'' ''5'' Flexible 1 10 = 0"
  by code_simp

end
