(* ===== verification/MultiTrajectory.thy ===== *)
theory MultiTrajectory
  imports CoreAlgos MathReward AgentLoop
begin

text \<open>
  Batches of trajectories in the asynchronous trainers: the keys \<open>uid_session_index\<close> of an agent's outputs and the fields stored under
  them (\<open>AgentLoopOutput.output_as_dict\<close>), the advantages of agents with several outputs (\<open>src/verl_new/verl/trainer/ppo/v1/utils.py\<close>), and the
  padding of a batch to a multiple (\<open>trainer/ppo/padding_utils.py\<close> and \<open>_get_required_batch_multiple\<close> of \<open>trainer_base.py\<close>).
\<close>

section \<open>Keys\<close>

definition trajectory_key :: "str \<Rightarrow> nat \<Rightarrow> nat \<Rightarrow> str" where
  "trajectory_key uid session_id i = uid @ ''_'' @ str_of_nat session_id @ ''_'' @ str_of_nat i"

text \<open>\<open>key.rsplit("_", 2)\<close>\<close>

definition rsplit2 :: "str \<Rightarrow> str list" where
  "rsplit2 s =
     (case rfind_sub s ''_'' of
        None \<Rightarrow> [s]
      | Some i \<Rightarrow>
          (case rfind_sub (take i s) ''_'' of
             None \<Rightarrow> [take i s, drop (i + 1) s]
           | Some j \<Rightarrow> [take j s, drop (j + 1) (take i s), drop (i + 1) s]))"

definition split_key :: "str \<Rightarrow> (str \<times> int) result" where
  "split_key key =
     (case rsplit2 key of
        [uid, session_id, index] \<Rightarrow>
          (case int_of_str index of None \<Rightarrow> Inl ValueError | Some n \<Rightarrow> Inr (uid @ ''_'' @ session_id, n))
      | _ \<Rightarrow> Inl AssertionError)"

section \<open>Advantages of several outputs\<close>

text \<open>\<open>final_sessions\<close>: for every session its greatest index and the row that has it.\<close>

definition final_sessions :: "(str \<times> int) list \<Rightarrow> (str, int \<times> nat) dict" where
  "final_sessions ks =
     foldl (\<lambda>d (i, session_key, index).
              case map_of d session_key of
                None \<Rightarrow> AList.update session_key (index, i) d
              | Some (index0, _) \<Rightarrow> if index0 < index then AList.update session_key (index, i) d else d)
       [] (enumerate 0 ks)"

definition final_rows :: "(str \<times> int) list \<Rightarrow> nat list" where
  "final_rows ks = map (snd \<circ> snd) (final_sessions ks)"

definition local_index :: "(str \<times> int) list \<Rightarrow> str \<Rightarrow> nat" where
  "local_index ks session_key = length (takeWhile (\<lambda>k. k \<noteq> session_key) (map fst (final_sessions ks)))"

text \<open>\<open>argmax\<close> is the first position of the greatest entry; an empty row has none.\<close>

definition row_argmax :: "real list \<Rightarrow> nat result" where
  "row_argmax row = (if row = [] then Inl IndexError else Inr (hd (filter (\<lambda>j. row ! j = Max (set row)) [0..<length row])))"

definition compute_advantage_for_multi_trajectories ::
  "matrix \<Rightarrow> matrix \<Rightarrow> 'i list \<Rightarrow> str list \<Rightarrow> real \<Rightarrow> bool \<Rightarrow> matrix result" where
  "compute_advantage_for_multi_trajectories rewards response_mask index batch_keys epsilon by_std =
     bind_res (map_res split_key batch_keys) (\<lambda>ks.
       let final_mask = map ((!) response_mask) (final_rows ks)
       in bind_res (compute_grpo_outcome_advantage (map ((!) rewards) (final_rows ks)) final_mask (map ((!) index) (final_rows ks)) epsilon by_std) (\<lambda>adv.
          bind_res (map_res row_argmax final_mask) (\<lambda>first_nnz.
          let final_scores = map2 (!) adv first_nnz
          in Inr (map2 (\<lambda>(session_key, _) row. map (\<lambda>x. final_scores ! local_index ks session_key * x) row) ks response_mask))))"

section \<open>Stored fields\<close>

record 'd tq_row =
  tr_prompts :: "int list"
  tr_responses :: "int list"
  tr_input_ids :: "int list"
  tr_attention_mask :: "int list"
  tr_position_ids :: "int list"
  tr_response_mask :: "int list"
  tr_rm_scores :: "real list option"
  tr_rollout_log_probs :: "int list option"
  tr_teacher :: "teacher_rows option"
  tr_num_turns :: nat
  tr_rest :: 'd

text \<open>
  \<open>output_as_dict\<close> with the fields that \<open>_agent_loop_postprocess\<close> adds; the score is written at position \<open>-1\<close> of the response.
\<close>

definition output_as_dict :: "agent_output \<Rightarrow> teacher_rows option \<Rightarrow> 'd \<Rightarrow> 'd tq_row result" where
  "output_as_dict out teacher rest =
     (let n = length (ao_prompt_ids out) + length (ao_response_ids out); zeros = map (\<lambda>_. 0) (ao_response_mask out) :: real list
      in bind_res (case ao_reward_score out of
           None \<Rightarrow> Inr None
         | Some r \<Rightarrow> if zeros = [] then Inl IndexError else Inr (Some (zeros[length zeros - 1 := r]))) (\<lambda>scores.
         Inr \<lparr> tr_prompts = ao_prompt_ids out, tr_responses = ao_response_ids out, tr_input_ids = ao_prompt_ids out @ ao_response_ids out,
               tr_attention_mask = replicate n 1, tr_position_ids = compute_position_id_with_mask (replicate n 1),
               tr_response_mask = ao_response_mask out, tr_rm_scores = scores, tr_rollout_log_probs = ao_response_logprobs out,
               tr_teacher = teacher, tr_num_turns = ao_num_turns out, tr_rest = rest \<rparr>))"

section \<open>Padding to a multiple\<close>

record batch_tag =
  bt_prompt_len :: nat
  bt_response_len :: nat
  bt_seq_len :: nat
  bt_padding :: bool
  bt_steps :: int

text \<open>The template takes over every field of its source that it does not name, the rows of the teacher among them.\<close>

definition construct_minimal_padding_template :: "'d tq_row \<Rightarrow> batch_tag \<Rightarrow> int \<Rightarrow> 'd tq_row \<times> batch_tag" where
  "construct_minimal_padding_template source_td source_tag eos_id =
     (source_td\<lparr> tr_prompts := [eos_id], tr_responses := [eos_id], tr_input_ids := [eos_id, eos_id],
                 tr_attention_mask := [1, 1], tr_position_ids := compute_position_id_with_mask [1, 1], tr_response_mask := [0],
                 tr_rm_scores := Some [0], tr_rollout_log_probs := Some [0], tr_num_turns := 0 \<rparr>,
      source_tag\<lparr> bt_padding := True, bt_prompt_len := 1, bt_response_len := 1, bt_seq_len := 2 \<rparr>)"

text \<open>\<open>with_uid\<close> writes what the padding changes in the remaining fields: its identifier and session, the loss mask, no images, zero experts.\<close>

definition upsample_batch_to_divisible_size ::
  "(str \<Rightarrow> nat \<Rightarrow> 'd \<Rightarrow> 'd) \<Rightarrow> str \<Rightarrow> nat \<Rightarrow> int \<Rightarrow> (str \<times> 'd tq_row \<times> batch_tag) list \<Rightarrow> (str \<times> 'd tq_row \<times> batch_tag) list result" where
  "upsample_batch_to_divisible_size with_uid pad_uid batch_multiple eos_id batch =
     (if batch_multiple = 0 then Inl ZeroDivisionError
      else
        (let remainder = length batch mod batch_multiple
         in if remainder = 0 then Inr batch
            else
              (let (_, source_td, source_tag) = hd batch;
                   (sample, tag) = construct_minimal_padding_template source_td source_tag eos_id
               in Inr (batch @ map (\<lambda>i. (trajectory_key pad_uid i 0, sample\<lparr> tr_rest := with_uid pad_uid i (tr_rest sample) \<rparr>, tag))
                                   [0..<batch_multiple - remainder]))))"

record multiple_config =
  mc_critic :: "nat option"
  mc_actor :: nat
  mc_n :: nat
  mc_critic_warmup :: int

definition get_required_batch_multiple :: "multiple_config \<Rightarrow> int \<Rightarrow> nat \<Rightarrow> nat" where
  "get_required_batch_multiple cfg steps dp_size =
     (let m1 = (case mc_critic cfg of None \<Rightarrow> dp_size | Some b \<Rightarrow> lcm dp_size (b * mc_n cfg))
      in if mc_critic_warmup cfg \<le> steps then lcm m1 (mc_actor cfg * mc_n cfg) else m1)"

section \<open>Keys are read as they were written\<close>

lemma rfind_sub_single: "c \<notin> set y \<Longrightarrow> rfind_sub (x @ c # y) [c] = Some (length x)"
proof (induction x)
  case Nil
  have "c \<notin> set y \<Longrightarrow> rfind_sub y [c] = None" by (induction y) (auto simp: starts_with_iff)
  then show ?case using Nil by simp
qed simp

lemma str_of_nat_digits: "str_of_nat n \<noteq> [] \<and> list_all is_digit (str_of_nat n) \<and> foldl (\<lambda>n c. 10 * n + digit_val c) 0 (str_of_nat n) = n"
proof (induction n rule: str_of_nat.induct)
  case (1 n)
  have digit: "is_digit (char_of (48 + d))" "digit_val (char_of (48 + d)) = d" if "d < 10" for d :: nat
    using that by (simp_all add: is_digit_def digit_val_def)
  show ?case
  proof (cases "n < 10")
    case True
    then show ?thesis using digit by (subst (1 2 3) str_of_nat.simps) simp
  next
    case False
    then show ?thesis using 1 digit[of "n mod 10"] by (subst (1 2 3) str_of_nat.simps) simp
  qed
qed

lemma underscore_not_digit: "list_all is_digit s \<Longrightarrow> CHR ''_'' \<notin> set s" "list_all is_digit s \<Longrightarrow> s \<noteq> [] \<Longrightarrow> hd s \<noteq> CHR ''-''"
  by (auto simp: list_all_iff is_digit_def) (cases s; auto)

lemma int_of_str_of_nat: "int_of_str (str_of_nat n) = Some (int n)"
proof -
  have d: "str_of_nat n \<noteq> []" "list_all is_digit (str_of_nat n)" "foldl (\<lambda>n c. 10 * n + digit_val c) 0 (str_of_nat n) = n"
    using str_of_nat_digits by auto
  then obtain c cs where c: "str_of_nat n = c # cs" by (cases "str_of_nat n") auto
  then have "c \<noteq> CHR ''-''" using underscore_not_digit(2)[OF d(2,1)] by simp
  then show ?thesis using d by (simp add: int_of_str_def nat_of_digits_def c)
qed

lemma rsplit2_key:
  assumes "CHR ''_'' \<notin> set a" "CHR ''_'' \<notin> set b"
  shows "rsplit2 (uid @ ''_'' @ a @ ''_'' @ b) = [uid, a, b]"
proof -
  have "rfind_sub ((uid @ ''_'' @ a) @ CHR ''_'' # b) ''_'' = Some (length (uid @ ''_'' @ a))" by (rule rfind_sub_single[OF assms(2)])
  moreover have "rfind_sub (uid @ CHR ''_'' # a) ''_'' = Some (length uid)" by (rule rfind_sub_single[OF assms(1)])
  ultimately show ?thesis by (simp add: rsplit2_def)
qed

lemma split_trajectory_key: "split_key (trajectory_key uid session_id i) = Inr (uid @ ''_'' @ str_of_nat session_id, int i)"
  using rsplit2_key[of "str_of_nat session_id" "str_of_nat i" uid] str_of_nat_digits underscore_not_digit(1)
  by (simp add: split_key_def trajectory_key_def int_of_str_of_nat)

lemma session_key_inj:
  assumes "uid @ ''_'' @ str_of_nat s = uid' @ ''_'' @ str_of_nat s'"
  shows "uid = uid' \<and> s = s'"
proof -
  have "CHR ''_'' \<notin> set (str_of_nat n)" for n using str_of_nat_digits underscore_not_digit(1) by blast
  then have "rfind_sub (uid @ CHR ''_'' # str_of_nat s) ''_'' = Some (length uid)" "rfind_sub (uid' @ CHR ''_'' # str_of_nat s') ''_'' = Some (length uid')"
    by (rule rfind_sub_single)+
  then have "length uid = length uid'" using assms by simp
  with assms have "uid = uid'" "str_of_nat s = str_of_nat s'" by auto
  moreover then have "int s = int s'" using int_of_str_of_nat by (metis option.inject)
  ultimately show ?thesis by simp
qed

text \<open>
  The key of a trajectory is read as it was written, whatever underscores the identifier of its prompt has, and the session keys of
  two trajectories are equal only for the same prompt and session.
\<close>

theorem trajectory_keys_roundtrip:
  "split_key (trajectory_key uid session_id i) = Inr (uid @ ''_'' @ str_of_nat session_id, int i) \<and>
   (uid @ ''_'' @ str_of_nat session_id = uid' @ ''_'' @ str_of_nat session_id' \<longleftrightarrow> uid = uid' \<and> session_id = session_id')"
  using split_trajectory_key session_key_inj by blast

section \<open>The final output of a session\<close>

definition last_of_session :: "(str \<times> int) list \<Rightarrow> nat \<Rightarrow> bool" where
  "last_of_session ks j \<longleftrightarrow> j < length ks \<and> (\<forall>k < length ks. fst (ks ! k) = fst (ks ! j) \<longrightarrow>
     snd (ks ! k) \<le> snd (ks ! j) \<and> (k < j \<longrightarrow> snd (ks ! k) < snd (ks ! j)))"

lemma final_sessions_snoc:
  "final_sessions (ks @ [(s, n)]) =
     (case map_of (final_sessions ks) s of
        None \<Rightarrow> AList.update s (n, length ks) (final_sessions ks)
      | Some (n0, _) \<Rightarrow> if n0 < n then AList.update s (n, length ks) (final_sessions ks) else final_sessions ks)"
  unfolding final_sessions_def by (simp add: enumerate_append_eq split: option.split)

lemma final_sessions_keys: "distinct (map fst (final_sessions ks)) \<and> fst ` set (final_sessions ks) = fst ` set ks"
proof (induction ks rule: rev_induct)
  case (snoc x ks)
  obtain s n where x: "x = (s, n)" by (cases x)
  have "map_of (final_sessions ks) s = Some v \<Longrightarrow> s \<in> fst ` set ks" for v
    using snoc by (metis map_of_eq_None_iff option.distinct(1))
  then show ?case using snoc unfolding x final_sessions_snoc
    by (auto simp: distinct_update set_keys_update dom_update split: option.splits)
qed (simp add: final_sessions_def)

lemma final_sessions_lookup: "map_of (final_sessions ks) s = Some (n, r) \<Longrightarrow> last_of_session ks r \<and> ks ! r = (s, n)"
proof (induction ks arbitrary: s n r rule: rev_induct)
  case (snoc x ks)
  obtain s0 n0 where x: "x = (s0, n0)" by (cases x)
  have none: "\<forall>k < length ks. fst (ks ! k) \<noteq> s" if "map_of (final_sessions ks) s = None" for s
    using that final_sessions_keys[of ks] by (force simp: map_of_eq_None_iff)
  show ?case
  proof (cases "s = s0")
    case False
    then have "map_of (final_sessions ks) s = Some (n, r)"
      using snoc.prems unfolding x final_sessions_snoc by (auto split: option.splits if_splits)
    from snoc.IH[OF this] False show ?thesis by (auto simp: last_of_session_def x nth_append less_Suc_eq)
  next
    case True
    show ?thesis
    proof (cases "map_of (final_sessions ks) s0")
      case None
      then have "n = n0" "r = length ks" using snoc.prems True unfolding x final_sessions_snoc by auto
      then show ?thesis using none[OF None] True by (auto simp: last_of_session_def x nth_append less_Suc_eq)
    next
      case (Some v)
      obtain n1 r1 where v: "v = (n1, r1)" by (cases v)
      note IH = snoc.IH[OF Some[unfolded v]]
      show ?thesis
      proof (cases "n1 < n0")
        case less: True
        then have "n = n0" "r = length ks" using snoc.prems True Some v unfolding x final_sessions_snoc by auto
        then show ?thesis using IH True less by (fastforce simp: last_of_session_def x nth_append less_Suc_eq)
      next
        case False
        then have "n = n1" "r = r1" using snoc.prems True Some v unfolding x final_sessions_snoc by auto
        then show ?thesis using IH True False by (auto simp: last_of_session_def x nth_append less_Suc_eq)
      qed
    qed
  qed
qed (simp add: final_sessions_def)

lemma last_of_session_unique:
  assumes "last_of_session ks i" "last_of_session ks j" "fst (ks ! i) = fst (ks ! j)"
  shows "i = j"
  using assms unfolding last_of_session_def by (metis linorder_neqE_nat order_less_imp_not_less order_le_less_trans less_irrefl)

lemma final_rows_facts:
  shows "set (final_rows ks) = {j. last_of_session ks j}" and "distinct (final_rows ks)"
    and "length (final_rows ks) = length (final_sessions ks)"
    and "l < length (final_rows ks) \<Longrightarrow> fst (ks ! (final_rows ks ! l)) = fst (final_sessions ks ! l)"
proof -
  have d: "distinct (map fst (final_sessions ks))" and keys: "fst ` set (final_sessions ks) = fst ` set ks"
    using final_sessions_keys by auto
  have entry: "last_of_session ks r \<and> ks ! r = (s, n)" if "(s, n, r) \<in> set (final_sessions ks)" for s n r
    using that d by (intro final_sessions_lookup) simp
  show len: "length (final_rows ks) = length (final_sessions ks)" by (simp add: final_rows_def)
  show at: "fst (ks ! (final_rows ks ! l)) = fst (final_sessions ks ! l)" if "l < length (final_rows ks)" for l
  proof -
    obtain s n r where e: "final_sessions ks ! l = (s, n, r)" by (metis prod.exhaust)
    then have "(s, n, r) \<in> set (final_sessions ks)" using that len by (metis nth_mem)
    then show ?thesis using entry e that len by (auto simp: final_rows_def)
  qed
  show "set (final_rows ks) = {j. last_of_session ks j}"
  proof (intro equalityI subsetI)
    fix j assume "j \<in> {j. last_of_session ks j}"
    then have j: "last_of_session ks j" by simp
    then have "fst (ks ! j) \<in> fst ` set (final_sessions ks)" using keys by (auto simp: last_of_session_def)
    then obtain n r where e: "(fst (ks ! j), n, r) \<in> set (final_sessions ks)" by auto
    then have "r = j" using entry[OF e] j last_of_session_unique by (metis fst_conv)
    then show "j \<in> set (final_rows ks)" using e by (force simp: final_rows_def)
  qed (auto simp: final_rows_def entry)
  have "map (\<lambda>j. fst (ks ! j)) (final_rows ks) = map fst (final_sessions ks)"
    using len at by (intro nth_equalityI) (auto simp: final_rows_def)
  then have "distinct (map (\<lambda>j. fst (ks ! j)) (final_rows ks))" using d by simp
  then show "distinct (final_rows ks)" by (simp add: distinct_map)
qed

lemma takeWhile_index: "x \<in> set xs \<Longrightarrow> length (takeWhile (\<lambda>y. y \<noteq> x) xs) < length xs \<and> xs ! length (takeWhile (\<lambda>y. y \<noteq> x) xs) = x"
  by (induction xs) auto

lemma local_index_row:
  assumes "s \<in> fst ` set ks"
  shows "local_index ks s < length (final_rows ks) \<and> fst (ks ! (final_rows ks ! local_index ks s)) = s"
proof -
  have "s \<in> set (map fst (final_sessions ks))" using assms final_sessions_keys[of ks] by simp
  from takeWhile_index[OF this]
  have "local_index ks s < length (final_sessions ks)" "map fst (final_sessions ks) ! local_index ks s = s"
    unfolding local_index_def by simp_all
  then show ?thesis using final_rows_facts(3)[of ks] final_rows_facts(4)[where ks = ks] by simp
qed

section \<open>Advantages of several outputs\<close>

lemma members_rows: "members (map f F) (map g F) u = map g (filter (\<lambda>j. f j = u) F)"
  by (induction F) auto

lemma row_argmax_ok:
  assumes "row \<noteq> []"
  shows "\<exists>j. row_argmax row = Inr j \<and> j < length row \<and> row ! j = Max (set row)"
proof -
  have "Max (set row) \<in> set row" using assms by simp
  then have "filter (\<lambda>j. row ! j = Max (set row)) [0..<length row] \<noteq> []" by (auto simp: filter_empty_conv in_set_conv_nth)
  from hd_in_set[OF this] show ?thesis using assms by (auto simp: row_argmax_def)
qed

text \<open>The advantage of the final output in row \<open>j\<close> within the final outputs \<open>F\<close> of all sessions.\<close>

definition final_advantage :: "matrix \<Rightarrow> 'i list \<Rightarrow> real \<Rightarrow> bool \<Rightarrow> nat list \<Rightarrow> nat \<Rightarrow> real" where
  "final_advantage rewards index epsilon by_std F j =
     grpo_scalar epsilon by_std (map (\<lambda>k. sum_list (rewards ! k)) (filter (\<lambda>k. index ! k = index ! j) F)) (sum_list (rewards ! j))"

lemma multi_trajectory_closed:
  assumes keys: "map_res split_key batch_keys = Inr ks" and len: "length response_mask = length batch_keys" "length index = length batch_keys"
      "length rewards = length batch_keys" and rows: "\<forall>row \<in> set response_mask. row \<noteq> []"
  shows "compute_advantage_for_multi_trajectories rewards response_mask index batch_keys epsilon by_std =
    Inr (map (\<lambda>i. let j = final_rows ks ! local_index ks (fst (ks ! i))
                  in map (\<lambda>x. final_advantage rewards index epsilon by_std (final_rows ks) j * Max (set (response_mask ! j)) * x) (response_mask ! i))
           [0..<length batch_keys])"
proof -
  let ?F = "final_rows ks" and ?n = "length batch_keys"
  let ?fm = "map ((!) response_mask) ?F"
  have ks: "length ks = ?n" using map_res_length[OF keys] by simp
  have F: "j < ?n" if "j \<in> set ?F" for j using that final_rows_facts(1)[of ks] ks by (auto simp: last_of_session_def)
  define am where "am j = (THE m. row_argmax (response_mask ! j) = Inr m)" for j
  have am: "row_argmax (response_mask ! j) = Inr (am j) \<and> am j < length (response_mask ! j) \<and> response_mask ! j ! am j = Max (set (response_mask ! j))"
    if "j \<in> set ?F" for j
  proof -
    have "response_mask ! j \<noteq> []" using rows F[OF that] len by simp
    from row_argmax_ok[OF this] show ?thesis by (auto simp: am_def)
  qed
  have arg: "map_res row_argmax ?fm = Inr (map am ?F)" using am by (intro map_res_map) simp
  have rs: "row_sums (map ((!) rewards) ?F) = map (\<lambda>j. sum_list (rewards ! j)) ?F" by (simp add: row_sums_def comp_def)
  have adv: "compute_grpo_outcome_advantage (map ((!) rewards) ?F) ?fm (map ((!) index) ?F) epsilon by_std =
      Inr (spread (map (final_advantage rewards index epsilon by_std ?F) ?F) ?fm)"
    by (simp add: grpo_closed rs members_rows final_advantage_def[abs_def] map2_map_map)
  let ?scores = "map2 (!) (spread (map (final_advantage rewards index epsilon by_std ?F) ?F) ?fm) (map am ?F)"
  have score: "?scores ! l = final_advantage rewards index epsilon by_std ?F (?F ! l) * Max (set (response_mask ! (?F ! l)))" if "l < length ?F" for l
    using that am[of "?F ! l"] by (simp add: spread_def)
  have "compute_advantage_for_multi_trajectories rewards response_mask index batch_keys epsilon by_std =
      Inr (map2 (\<lambda>(s, _) row. map (\<lambda>x. ?scores ! local_index ks s * x) row) ks response_mask)"
    unfolding compute_advantage_for_multi_trajectories_def keys bind_res_simps Let_def adv arg by simp
  also have "map2 (\<lambda>(s, _) row. map (\<lambda>x. ?scores ! local_index ks s * x) row) ks response_mask =
      map (\<lambda>i. let j = ?F ! local_index ks (fst (ks ! i))
               in map (\<lambda>x. final_advantage rewards index epsilon by_std ?F j * Max (set (response_mask ! j)) * x) (response_mask ! i)) [0..<?n]"
  proof (rule nth_equalityI)
    fix i assume "i < length (map2 (\<lambda>(s, _) row. map (\<lambda>x. ?scores ! local_index ks s * x) row) ks response_mask)"
    then have i: "i < ?n" using ks len by simp
    then have "fst (ks ! i) \<in> fst ` set ks" using ks by simp
    from local_index_row[OF this] i ks len score show "map2 (\<lambda>(s, _) row. map (\<lambda>x. ?scores ! local_index ks s * x) row) ks response_mask ! i =
        map (\<lambda>i. let j = ?F ! local_index ks (fst (ks ! i))
               in map (\<lambda>x. final_advantage rewards index epsilon by_std ?F j * Max (set (response_mask ! j)) * x) (response_mask ! i)) [0..<?n] ! i"
      by (simp add: case_prod_unfold Let_def)
  qed (use ks len in simp)
  finally show ?thesis .
qed

lemma max_mask: "set row \<subseteq> {0, 1} \<Longrightarrow> row \<noteq> [] \<Longrightarrow> Max (set row) = (if 1 \<in> set row then 1 else (0 :: real))"
  by (cases row) (auto intro!: Max_eqI)

text \<open>
  C21: with agents of several outputs only the final output of each session (that of the greatest index) takes part in the comparison:
  it gets its group-relative advantage among the final outputs of the same prompt, and every other output of the session gets the same
  on its own tokens.  A session whose final output has no trained token gets nothing.
\<close>

theorem multi_trajectory_advantages:
  assumes "map_res split_key batch_keys = Inr ks" and "length response_mask = length batch_keys" "length index = length batch_keys"
      "length rewards = length batch_keys" and rows: "\<forall>row \<in> set response_mask. row \<noteq> [] \<and> set row \<subseteq> {0, 1}"
  shows "\<exists>adv F. compute_advantage_for_multi_trajectories rewards response_mask index batch_keys epsilon by_std = Inr adv \<and>
    distinct F \<and> set F = {j. last_of_session ks j} \<and>
    (\<forall>i < length batch_keys. \<exists>j \<in> set F. fst (ks ! j) = fst (ks ! i) \<and>
       adv ! i = map (\<lambda>x. (if 1 \<in> set (response_mask ! j)
         then grpo_scalar epsilon by_std (map (\<lambda>k. sum_list (rewards ! k)) (filter (\<lambda>k. index ! k = index ! j) F)) (sum_list (rewards ! j))
         else 0) * x) (response_mask ! i))"
proof -
  let ?F = "final_rows ks"
  have ks: "length ks = length batch_keys" using map_res_length[OF assms(1)] by simp
  have "\<exists>j \<in> set ?F. fst (ks ! j) = fst (ks ! i) \<and> (let j = ?F ! local_index ks (fst (ks ! i))
          in map (\<lambda>x. final_advantage rewards index epsilon by_std ?F j * Max (set (response_mask ! j)) * x) (response_mask ! i)) =
       map (\<lambda>x. (if 1 \<in> set (response_mask ! j)
         then grpo_scalar epsilon by_std (map (\<lambda>k. sum_list (rewards ! k)) (filter (\<lambda>k. index ! k = index ! j) ?F)) (sum_list (rewards ! j))
         else 0) * x) (response_mask ! i)" if i: "i < length batch_keys" for i
  proof -
    let ?j = "?F ! local_index ks (fst (ks ! i))"
    have "fst (ks ! i) \<in> fst ` set ks" using i ks by simp
    from local_index_row[OF this] have j: "?j \<in> set ?F" "fst (ks ! ?j) = fst (ks ! i)" by simp_all
    then have "?j < length response_mask" using final_rows_facts(1)[of ks] ks assms(2) by (auto simp: last_of_session_def)
    then have "Max (set (response_mask ! ?j)) = (if 1 \<in> set (response_mask ! ?j) then 1 else 0)"
      using rows by (intro max_mask) auto
    then show ?thesis using j by (intro bexI[of _ ?j]) (simp_all add: Let_def final_advantage_def)
  qed
  note rows_ok = this
  define adv where "adv = map (\<lambda>i. let j = ?F ! local_index ks (fst (ks ! i))
      in map (\<lambda>x. final_advantage rewards index epsilon by_std ?F j * Max (set (response_mask ! j)) * x) (response_mask ! i)) [0..<length batch_keys]"
  have "compute_advantage_for_multi_trajectories rewards response_mask index batch_keys epsilon by_std = Inr adv"
    unfolding adv_def by (rule multi_trajectory_closed[OF assms(1-4)]) (use rows in blast)
  moreover have "\<forall>i < length batch_keys. \<exists>j \<in> set ?F. fst (ks ! j) = fst (ks ! i) \<and>
       adv ! i = map (\<lambda>x. (if 1 \<in> set (response_mask ! j)
         then grpo_scalar epsilon by_std (map (\<lambda>k. sum_list (rewards ! k)) (filter (\<lambda>k. index ! k = index ! j) ?F)) (sum_list (rewards ! j))
         else 0) * x) (response_mask ! i)"
    using rows_ok by (simp add: adv_def)
  ultimately show ?thesis using final_rows_facts(1,2)[of ks] by blast
qed

section \<open>Padding to a multiple\<close>

lemma required_multiple_dvd:
  "dp_size dvd get_required_batch_multiple cfg steps dp_size"
  "mc_critic cfg = Some b \<Longrightarrow> b * mc_n cfg dvd get_required_batch_multiple cfg steps dp_size"
  "mc_critic_warmup cfg \<le> steps \<Longrightarrow> mc_actor cfg * mc_n cfg dvd get_required_batch_multiple cfg steps dp_size"
  by (auto simp: get_required_batch_multiple_def Let_def intro: dvd_trans split: option.splits)

lemma upsample_cases:
  assumes "upsample_batch_to_divisible_size with_uid pad_uid n eos_id batch = Inr batch'"
  shows "\<exists>k. batch' = batch @ map (\<lambda>i. (trajectory_key pad_uid i 0,
        (fst (construct_minimal_padding_template (fst (snd (hd batch))) (snd (snd (hd batch))) eos_id))
          \<lparr> tr_rest := with_uid pad_uid i (tr_rest (fst (snd (hd batch)))) \<rparr>,
        snd (construct_minimal_padding_template (fst (snd (hd batch))) (snd (snd (hd batch))) eos_id))) [0..<k] \<and>
    n dvd length batch' \<and> k < n \<and> (k = 0 \<longleftrightarrow> n dvd length batch)"
proof (cases "length batch mod n = 0")
  case True
  then show ?thesis using assms by (intro exI[of _ 0]) (auto simp: upsample_batch_to_divisible_size_def Let_def split: if_splits)
next
  case False
  have n: "0 < n" using assms by (cases "n = 0") (simp_all add: upsample_batch_to_divisible_size_def)
  define k where "k = n - length batch mod n"
  have "(length batch + k) mod n = 0"
    using n by (metis k_def add.commute le_add_diff_inverse2 mod_add_left_eq mod_less_divisor mod_self order_less_imp_le)
  moreover have "k < n" "k \<noteq> 0" using n False mod_less_divisor[OF n, of "length batch"] unfolding k_def by linarith+
  moreover have "batch' = batch @ map (\<lambda>i. (trajectory_key pad_uid i 0,
        (fst (construct_minimal_padding_template (fst (snd (hd batch))) (snd (snd (hd batch))) eos_id))
          \<lparr> tr_rest := with_uid pad_uid i (tr_rest (fst (snd (hd batch)))) \<rparr>,
        snd (construct_minimal_padding_template (fst (snd (hd batch))) (snd (snd (hd batch))) eos_id))) [0..<k]"
    using assms n False unfolding k_def
    by (simp add: upsample_batch_to_divisible_size_def Let_def construct_minimal_padding_template_def case_prod_unfold)
  ultimately show ?thesis using False by (intro exI[of _ k]) (simp add: mod_eq_0_iff_dvd)
qed

text \<open>
  The batch of an update is padded to a multiple of the number of workers and of the mini-batches of critic and actor, with less than
  that multiple of added samples; the samples of the batch stay in front, and an added sample trains on no token, has no reward and is
  marked as padding.
\<close>

theorem upsampled_batch_divides:
  assumes "upsample_batch_to_divisible_size with_uid pad_uid (get_required_batch_multiple cfg steps dp_size) eos_id batch = Inr batch'"
  shows "dp_size dvd length batch' \<and> (\<forall>b. mc_critic cfg = Some b \<longrightarrow> b * mc_n cfg dvd length batch') \<and>
    (mc_critic_warmup cfg \<le> steps \<longrightarrow> mc_actor cfg * mc_n cfg dvd length batch') \<and>
    take (length batch) batch' = batch \<and> length batch' < length batch + get_required_batch_multiple cfg steps dp_size \<and>
    (\<forall>(key, row, tag) \<in> set (drop (length batch) batch'). tr_response_mask row = [0] \<and> tr_rm_scores row = Some [0] \<and> bt_padding tag \<and>
       (\<exists>i. key = trajectory_key pad_uid i 0))"
proof -
  let ?n = "get_required_batch_multiple cfg steps dp_size"
  obtain k where k: "batch' = batch @ map (\<lambda>i. (trajectory_key pad_uid i 0,
        (fst (construct_minimal_padding_template (fst (snd (hd batch))) (snd (snd (hd batch))) eos_id))
          \<lparr> tr_rest := with_uid pad_uid i (tr_rest (fst (snd (hd batch)))) \<rparr>,
        snd (construct_minimal_padding_template (fst (snd (hd batch))) (snd (snd (hd batch))) eos_id))) [0..<k]"
      "?n dvd length batch'" "k < ?n"
    using upsample_cases[OF assms] by blast
  have "\<forall>d. d dvd ?n \<longrightarrow> d dvd length batch'" using k(2) dvd_trans by blast
  then show ?thesis using k(3) required_multiple_dvd[where cfg = cfg and steps = steps and dp_size = dp_size]
    by (auto simp: k(1) construct_minimal_padding_template_def)
qed

text \<open>
  C23: what padding does not clear.  With distillation the first sample of a batch has a row of the teacher for each of its tokens; an
  added sample has two tokens and all of these rows, so that after padding the rows of the teacher no longer fit the packed tokens,
  although they did before.
\<close>

theorem padding_misaligns_teacher:
  assumes "upsample_batch_to_divisible_size with_uid pad_uid n eos_id batch = Inr batch'" and pad: "\<not> n dvd length batch" "batch \<noteq> []"
    and fit: "\<forall>(key, row, tag) \<in> set batch. \<exists>ids lps. tr_teacher row = Some (ids, lps) \<and> length lps = length (tr_input_ids row)"
    and long: "2 < length (tr_input_ids (fst (snd (hd batch))))"
  shows "(\<Sum>(key, row, tag) \<leftarrow> batch. length (snd (the (tr_teacher row)))) = (\<Sum>(key, row, tag) \<leftarrow> batch. length (tr_input_ids row)) \<and>
    (\<Sum>(key, row, tag) \<leftarrow> batch'. length (tr_input_ids row)) < (\<Sum>(key, row, tag) \<leftarrow> batch'. length (snd (the (tr_teacher row))))"
proof -
  let ?src = "fst (snd (hd batch))"
  obtain k where k: "batch' = batch @ map (\<lambda>i. (trajectory_key pad_uid i 0,
        (fst (construct_minimal_padding_template ?src (snd (snd (hd batch))) eos_id)) \<lparr> tr_rest := with_uid pad_uid i (tr_rest ?src) \<rparr>,
        snd (construct_minimal_padding_template ?src (snd (snd (hd batch))) eos_id))) [0..<k]" "k \<noteq> 0"
    using upsample_cases[OF assms(1)] pad(1) by blast
  have same: "(\<Sum>(key, row, tag) \<leftarrow> batch. length (snd (the (tr_teacher row)))) = (\<Sum>(key, row, tag) \<leftarrow> batch. length (tr_input_ids row))"
    using fit by (intro arg_cong[where f = sum_list] map_cong) auto
  have "hd batch \<in> set batch" using pad(2) by simp
  from bspec[OF fit this] have "length (snd (the (tr_teacher ?src))) = length (tr_input_ids ?src)" by (auto simp: case_prod_unfold)
  then have "k * 2 < k * length (snd (the (tr_teacher ?src)))" using long k(2) by simp
  moreover have "(\<Sum>i \<leftarrow> [0..<k]. Suc (Suc 0)) = k * 2" "(\<Sum>i \<leftarrow> [0..<k]. length (snd (the (tr_teacher ?src)))) = k * length (snd (the (tr_teacher ?src)))"
    by (simp_all add: sum_list_triv)
  ultimately show ?thesis using same by (simp add: k(1) construct_minimal_padding_template_def comp_def)
qed

text \<open>A score cannot be stored for an empty response: the write at its last token raises.\<close>

theorem empty_response_has_no_score:
  "(ao_response_mask out = [] \<longrightarrow> output_as_dict out teacher rest = (case ao_reward_score out of Some r \<Rightarrow> Inl IndexError
     | None \<Rightarrow> Inr \<lparr> tr_prompts = ao_prompt_ids out, tr_responses = ao_response_ids out, tr_input_ids = ao_prompt_ids out @ ao_response_ids out,
         tr_attention_mask = replicate (length (ao_prompt_ids out) + length (ao_response_ids out)) 1,
         tr_position_ids = compute_position_id_with_mask (replicate (length (ao_prompt_ids out) + length (ao_response_ids out)) 1),
         tr_response_mask = [], tr_rm_scores = None, tr_rollout_log_probs = ao_response_logprobs out, tr_teacher = teacher,
         tr_num_turns = ao_num_turns out, tr_rest = rest \<rparr>)) \<and>
   (ao_response_mask out \<noteq> [] \<longrightarrow> (\<exists>row. output_as_dict out teacher rest = Inr row \<and>
      tr_rm_scores row = map_option (\<lambda>r. replicate (length (ao_response_mask out) - 1) 0 @ [r]) (ao_reward_score out)))"
proof -
  have "(map (\<lambda>_. 0 :: real) ms)[length ms - 1 := r] = replicate (length ms - 1) 0 @ [r]" if "ms \<noteq> []" for ms :: "int list" and r
    using that by (intro nth_equalityI) (auto simp: nth_append nth_list_update)
  then show ?thesis by (auto simp: output_as_dict_def Let_def split: option.splits)
qed

lemma final_sessions_pads:
  "distinct (map fst ps) \<Longrightarrow> fst ` set ps \<inter> fst ` set ks = {} \<Longrightarrow>
   final_sessions (ks @ ps) = final_sessions ks @ map2 (\<lambda>i (s, n). (s, n, i)) [length ks..<length ks + length ps] ps"
proof (induction ps rule: rev_induct)
  case (snoc x ps)
  obtain s n where x: "x = (s, n)" by (cases x)
  have IH: "final_sessions (ks @ ps) = final_sessions ks @ map2 (\<lambda>i (s, n). (s, n, i)) [length ks..<length ks + length ps] ps"
    using snoc by auto
  have fresh: "s \<notin> fst ` set (final_sessions (ks @ ps))" using snoc.prems final_sessions_keys[of "ks @ ps"] by (auto simp: x)
  then have "map_of (final_sessions (ks @ ps)) s = None" by (simp add: map_of_eq_None_iff)
  then have "final_sessions ((ks @ ps) @ [x]) = final_sessions (ks @ ps) @ [(s, n, length (ks @ ps))]"
    unfolding x final_sessions_snoc using update_fresh[OF fresh] by simp
  then show ?case unfolding IH by (simp add: x)
qed simp

text \<open>
  C22: the added samples do not disturb the others: with an identifier of their own, and on a mask of zeros, the advantages of the batch are
  those without padding, followed by zeros.
\<close>

theorem padding_keeps_advantages:
  assumes keys: "map_res split_key batch_keys = Inr ks" and len: "length response_mask = length batch_keys" "length index = length batch_keys"
      "length rewards = length batch_keys" and rows: "\<forall>row \<in> set response_mask. row \<noteq> []"
    and own: "pad_uid \<notin> set index" "\<forall>s \<in> fst ` set ks. \<forall>i. s \<noteq> pad_uid @ ''_'' @ str_of_nat i" and w: "0 < w"
  shows "\<exists>adv. compute_advantage_for_multi_trajectories rewards response_mask index batch_keys epsilon by_std = Inr adv \<and>
    compute_advantage_for_multi_trajectories (rewards @ replicate k zr) (response_mask @ replicate k (replicate w 0)) (index @ replicate k pad_uid)
      (batch_keys @ map (\<lambda>i. trajectory_key pad_uid i 0) [0..<k]) epsilon by_std = Inr (adv @ replicate k (replicate w 0))"
proof -
  let ?n = "length batch_keys" and ?ps = "map (\<lambda>i. (pad_uid @ ''_'' @ str_of_nat i, 0 :: int)) [0..<k]"
  let ?ks' = "ks @ ?ps" and ?rw = "rewards @ replicate k zr" and ?mk = "response_mask @ replicate k (replicate w 0)"
  let ?ix = "index @ replicate k pad_uid"
  have ks: "length ks = ?n" using map_res_length[OF keys] by simp
  have keys': "map_res split_key (batch_keys @ map (\<lambda>i. trajectory_key pad_uid i 0) [0..<k]) = Inr ?ks'"
    using map_res_map[of "[0..<k]" split_key "\<lambda>i. trajectory_key pad_uid i 0" "\<lambda>i. (pad_uid @ ''_'' @ str_of_nat i, 0)"] split_trajectory_key
    by (simp add: map_res_append keys)
  have "inj_on (\<lambda>i. pad_uid @ ''_'' @ str_of_nat i) {0..<k}" using session_key_inj by (intro inj_onI) blast
  then have "distinct (map fst ?ps)" by (simp add: distinct_map comp_def)
  moreover have "fst ` set ?ps \<inter> fst ` set ks = {}" using own(2) by fastforce
  ultimately have fs: "final_sessions ?ks' = final_sessions ks @ map2 (\<lambda>i (s, n). (s, n, i)) [?n..<?n + k] ?ps"
    using final_sessions_pads[of ?ps ks] ks by simp
  have F': "final_rows ?ks' = final_rows ks @ [?n..<?n + k]"
    unfolding final_rows_def fs by (simp add: comp_def case_prod_unfold map_fst_zip)
  have F: "j < ?n" if "j \<in> set (final_rows ks)" for j using that final_rows_facts(1)[of ks] ks by (auto simp: last_of_session_def)
  define row where "row = (\<lambda>rw mk (ix :: str list) ks i. let j = final_rows ks ! local_index ks (fst (ks ! i))
      in map (\<lambda>x. final_advantage rw ix epsilon by_std (final_rows ks) j * Max (set (mk ! j)) * x) ((mk :: matrix) ! i))"
  have adv: "compute_advantage_for_multi_trajectories rewards response_mask index batch_keys epsilon by_std = Inr (map (row rewards response_mask index ks) [0..<?n])"
    unfolding row_def by (rule multi_trajectory_closed[OF keys len rows])
  have adv': "compute_advantage_for_multi_trajectories ?rw ?mk ?ix (batch_keys @ map (\<lambda>i. trajectory_key pad_uid i 0) [0..<k]) epsilon by_std =
      Inr (map (row ?rw ?mk ?ix ?ks') [0..<?n + k])"
  proof -
    have rows': "\<forall>row \<in> set ?mk. row \<noteq> []" using rows w by auto
    from multi_trajectory_closed[OF keys' _ _ _ this, of ?ix ?rw epsilon by_std] len show ?thesis unfolding row_def by simp
  qed
  have real: "row ?rw ?mk ?ix ?ks' i = row rewards response_mask index ks i" if i: "i < ?n" for i
  proof -
    let ?s = "fst (ks ! i)"
    have s: "?s \<in> fst ` set ks" using i ks by simp
    then have "?s \<in> set (map fst (final_sessions ks))" using final_sessions_keys[of ks] by simp
    then have loc: "local_index ?ks' ?s = local_index ks ?s" unfolding local_index_def fs map_append by (subst takeWhile_append1) auto
    let ?j = "final_rows ks ! local_index ks ?s"
    have l: "local_index ks ?s < length (final_rows ks)" using local_index_row[OF s] by simp
    then have j: "?j < ?n" using F nth_mem by blast
    have filt: "filter (\<lambda>k. ?ix ! k = ?ix ! ?j) (final_rows ?ks') = filter (\<lambda>k. index ! k = index ! ?j) (final_rows ks)"
    proof -
      have "index ! ?j \<noteq> pad_uid" using own(1) j len by (metis nth_mem)
      then have "filter (\<lambda>k. ?ix ! k = ?ix ! ?j) [?n..<?n + k] = []" using j len by (auto simp: filter_empty_conv nth_append)
      moreover have "filter (\<lambda>k. ?ix ! k = ?ix ! ?j) (final_rows ks) = filter (\<lambda>k. index ! k = index ! ?j) (final_rows ks)"
        using F j len by (intro filter_cong) (auto simp: nth_append)
      ultimately show ?thesis unfolding F' filter_append by simp
    qed
    have maps: "map (\<lambda>k. sum_list (?rw ! k)) (filter (\<lambda>k. index ! k = index ! ?j) (final_rows ks)) =
        map (\<lambda>k. sum_list (rewards ! k)) (filter (\<lambda>k. index ! k = index ! ?j) (final_rows ks))"
      using F len by (intro map_cong) (auto simp: nth_append)
    have rj: "?rw ! ?j = rewards ! ?j" using j len by (simp add: nth_append)
    have fa: "final_advantage ?rw ?ix epsilon by_std (final_rows ?ks') ?j = final_advantage rewards index epsilon by_std (final_rows ks) ?j"
      unfolding final_advantage_def filt maps rj ..
    have here: "final_rows ?ks' ! local_index ks ?s = ?j" unfolding F' using l by (simp add: nth_append)
    have same: "?ks' ! i = ks ! i" "?mk ! ?j = response_mask ! ?j" "?mk ! i = response_mask ! i" using i j len ks by (simp_all add: nth_append)
    show ?thesis unfolding row_def Let_def same loc here fa ..
  qed
  have pads: "row ?rw ?mk ?ix ?ks' i = replicate w 0" if "?n \<le> i" "i < ?n + k" for i
    using that len by (simp add: row_def Let_def nth_append)
  have "map (row ?rw ?mk ?ix ?ks') [0..<?n + k] = map (row rewards response_mask index ks) [0..<?n] @ replicate k (replicate w 0)"
    using real pads by (intro nth_equalityI) (auto simp: nth_append)
  then show ?thesis using adv adv' by simp
qed

section \<open>Witnesses\<close>

abbreviation example_keys :: "str list" where
  "example_keys \<equiv> [trajectory_key ''a'' 0 0, trajectory_key ''a'' 0 1, trajectory_key ''a'' 1 0]"

abbreviation example_sessions :: "(str \<times> int) list" where
  "example_sessions \<equiv> [(''a'' @ ''_'' @ str_of_nat 0, 0), (''a'' @ ''_'' @ str_of_nat 0, 1), (''a'' @ ''_'' @ str_of_nat 1, 0)]"

lemma example_keys_split: "map_res split_key example_keys = Inr example_sessions"
  by (simp add: split_trajectory_key)

theorem multi_trajectory_advantages_witness:
  "\<exists>adv. compute_advantage_for_multi_trajectories [[0], [1], [0]] [[1], [1], [1]] [0 :: nat, 0, 0] example_keys 1 True = Inr adv \<and> adv ! 0 = adv ! 1"
proof -
  let ?mk = "[[1], [1], [1]] :: matrix" and ?rw = "[[0], [1], [0]] :: matrix" and ?ix = "[0 :: nat, 0, 0]"
  define s where "s F j = (if 1 \<in> set (?mk ! j) then grpo_scalar 1 True (map (\<lambda>k. sum_list (?rw ! k)) (filter (\<lambda>k. ?ix ! k = ?ix ! j) F))
      (sum_list (?rw ! j)) else 0)" for F j
  have "\<exists>adv F. compute_advantage_for_multi_trajectories ?rw ?mk ?ix example_keys 1 True = Inr adv \<and> distinct F \<and>
      set F = {j. last_of_session example_sessions j} \<and>
      (\<forall>i < length example_keys. \<exists>j \<in> set F. fst (example_sessions ! j) = fst (example_sessions ! i) \<and> adv ! i = map (\<lambda>x. s F j * x) (?mk ! i))"
    unfolding s_def by (rule multi_trajectory_advantages[OF example_keys_split]) auto
  then obtain adv F where adv: "compute_advantage_for_multi_trajectories ?rw ?mk ?ix example_keys 1 True = Inr adv"
    and F: "set F = {j. last_of_session example_sessions j}"
    and rows: "\<forall>i < length example_keys. \<exists>j \<in> set F. fst (example_sessions ! j) = fst (example_sessions ! i) \<and> adv ! i = map (\<lambda>x. s F j * x) (?mk ! i)"
    by blast
  obtain j0 j1 where j: "j0 \<in> set F" "j1 \<in> set F" "fst (example_sessions ! j0) = fst (example_sessions ! 0)"
      "fst (example_sessions ! j1) = fst (example_sessions ! 1)"
    and rows01: "adv ! 0 = map (\<lambda>x. s F j0 * x) [1]" "adv ! 1 = map (\<lambda>x. s F j1 * x) [1]"
    using rows[rule_format, of 0] rows[rule_format, of 1] by auto
  have "j0 = j1" using j F by (intro last_of_session_unique[of example_sessions]) auto
  then show ?thesis using adv rows01 by auto
qed

abbreviation example_row :: "unit tq_row" where
  "example_row \<equiv> \<lparr> tr_prompts = [1, 2], tr_responses = [3], tr_input_ids = [1, 2, 3], tr_attention_mask = [1, 1, 1], tr_position_ids = [0, 1, 2],
     tr_response_mask = [1], tr_rm_scores = Some [1], tr_rollout_log_probs = None, tr_teacher = Some ([[1], [2], [3]], [[0], [0], [0]]),
     tr_num_turns = 2, tr_rest = () \<rparr>"

abbreviation example_upsampled :: "(str \<times> unit tq_row \<times> batch_tag) list" where
  "example_upsampled \<equiv> [(trajectory_key ''a'' 0 0, example_row, \<lparr> bt_prompt_len = 2, bt_response_len = 1, bt_seq_len = 3, bt_padding = False, bt_steps = 1 \<rparr>)]"

theorem upsampled_batch_divides_witness:
  "\<exists>batch'. upsample_batch_to_divisible_size (\<lambda>_ _ d. d) ''pad'' (get_required_batch_multiple \<lparr> mc_critic = None, mc_actor = 1, mc_n = 1, mc_critic_warmup = 0 \<rparr> 1 2)
     0 example_upsampled = Inr batch' \<and> 2 dvd length batch'"
proof -
  let ?cfg = "\<lparr> mc_critic = None, mc_actor = 1, mc_n = 1, mc_critic_warmup = 0 \<rparr>"
  obtain batch' where b: "upsample_batch_to_divisible_size (\<lambda>_ _ d. d) ''pad'' (get_required_batch_multiple ?cfg 1 2) 0 example_upsampled = Inr batch'"
    by (simp add: upsample_batch_to_divisible_size_def get_required_batch_multiple_def construct_minimal_padding_template_def)
  with upsampled_batch_divides[OF b] show ?thesis by blast
qed

theorem padding_misaligns_teacher_witness:
  "\<exists>batch'. upsample_batch_to_divisible_size (\<lambda>_ _ d. d) ''pad'' 2 0 example_upsampled = Inr batch' \<and>
     (\<Sum>(key, row, tag) \<leftarrow> batch'. length (tr_input_ids row)) < (\<Sum>(key, row, tag) \<leftarrow> batch'. length (snd (the (tr_teacher row))))"
proof -
  obtain batch' where b: "upsample_batch_to_divisible_size (\<lambda>_ _ d. d) ''pad'' 2 0 example_upsampled = Inr batch'"
    by (simp add: upsample_batch_to_divisible_size_def construct_minimal_padding_template_def)
  from padding_misaligns_teacher[OF b] show ?thesis using b by simp
qed

theorem empty_response_has_no_score_witness:
  "output_as_dict \<lparr> ao_prompt_ids = [1], ao_response_ids = [], ao_response_mask = [], ao_response_logprobs = None, ao_num_turns = 2, ao_reward_score = Some 1 \<rparr>
     None () = Inl IndexError"
  using empty_response_has_no_score[of "\<lparr> ao_prompt_ids = [1], ao_response_ids = [], ao_response_mask = [], ao_response_logprobs = None, ao_num_turns = 2,
      ao_reward_score = Some 1 \<rparr>" None "()"] by simp

theorem padding_keeps_advantages_witness:
  "\<exists>adv. compute_advantage_for_multi_trajectories [[0], [1], [0]] [[1], [1], [1]] [''a'', ''a'', ''a''] example_keys 1 True = Inr adv \<and>
    compute_advantage_for_multi_trajectories ([[0], [1], [0]] @ replicate 1 [0]) ([[1], [1], [1]] @ replicate 1 (replicate 1 0))
      ([''a'', ''a'', ''a''] @ replicate 1 ''pad'') (example_keys @ map (\<lambda>i. trajectory_key ''pad'' i 0) [0..<1]) 1 True =
      Inr (adv @ replicate 1 (replicate 1 0))"
  by (rule padding_keeps_advantages[OF example_keys_split]) auto

end
