(* ===== verification/WeightTransfer.thy ===== *)
theory WeightTransfer
  imports PyStrings
begin

text \<open>
  The transfer of the student's weights to the rollout engine:
  \<open>src/CLightMLLM_new/src/method/bucketed_weight_transfer.py\<close> (sender and receiver over a REQ/REP socket and one
  shared buffer), the preparation of the weights in \<open>vllm_student.py\<close> and their names in \<open>opd.py\<close>.  The
  sender waits for the acknowledgement of every message, so the receiver reads the buffer as it is
  when the message is sent: a message carries that snapshot.  Bytes are of any type.
\<close>

named_theorems transfer_simps

section \<open>Tensors, messages and the shared buffer\<close>

record 'b tensor =
  t_shape :: "nat list"
  t_dtype :: str
  t_itemsize :: nat
  t_floating :: bool
  t_bytes :: "'b list"

definition nbytes :: "'b tensor \<Rightarrow> nat" where
  "nbytes w = length (t_bytes w)"

definition tensor_ok :: "'b tensor \<Rightarrow> bool" where
  "tensor_ok w \<longleftrightarrow> 0 < t_itemsize w \<and> nbytes w = prod_list (t_shape w) * t_itemsize w"

text \<open>\<open>TensorMetadata\<close>; the data type is the header of the tensor without its bytes.\<close>

record 'b tensor_metadata =
  m_header :: "'b tensor"
  m_offset :: nat
  m_handle :: "'b tensor option"

definition header_of :: "'b tensor \<Rightarrow> 'b tensor" where
  "header_of w = w\<lparr>t_bytes := []\<rparr>"

record 'b bucket_message =
  bucket_meta :: "(str, 'b tensor_metadata) dict"
  is_last :: bool
  snapshot :: "'b list"

definition store_bytes :: "'b list \<Rightarrow> nat \<Rightarrow> 'b list \<Rightarrow> 'b list" where
  "store_bytes buffer offset bs = take offset buffer @ bs @ drop (offset + length bs) buffer"

section \<open>The sender\<close>

record 'b sender =
  snd_offset :: nat
  snd_meta :: "(str, 'b tensor_metadata) dict"
  snd_buffer :: "'b list"
  snd_log :: "'b bucket_message list"

definition send_bucket :: "bool \<Rightarrow> 'b sender \<Rightarrow> 'b sender" where
  "send_bucket final st =
     st\<lparr>snd_log := snd_log st @ [\<lparr>bucket_meta = snd_meta st, is_last = final, snapshot = snd_buffer st\<rparr>],
        snd_meta := [], snd_offset := 0\<rparr>"

definition direct_send_large_weight :: "str \<Rightarrow> 'b tensor \<Rightarrow> 'b sender \<Rightarrow> 'b sender" where
  "direct_send_large_weight name weight st =
     st\<lparr>snd_log := snd_log st @
          [\<lparr>bucket_meta = [(name, \<lparr>m_header = header_of weight, m_offset = 0, m_handle = Some weight\<rparr>)],
            is_last = False, snapshot = snd_buffer st\<rparr>]\<rparr>"

definition send_weight :: "bool \<Rightarrow> nat \<Rightarrow> 'b sender \<Rightarrow> str \<times> 'b tensor \<Rightarrow> 'b sender result" where
  "send_weight use_shm bucket_size st0 item =
     (let (name, weight) = item;
          st = (if bucket_size < snd_offset st0 + nbytes weight \<and> snd_meta st0 \<noteq> [] then send_bucket False st0 else st0)
      in if bucket_size < snd_offset st + nbytes weight
         then if use_shm then Inl RuntimeError else Inr (direct_send_large_weight name weight st)
         else Inr (st\<lparr>snd_meta := AList.update name \<lparr>m_header = header_of weight, m_offset = snd_offset st, m_handle = None\<rparr> (snd_meta st),
                      snd_buffer := store_bytes (snd_buffer st) (snd_offset st) (t_bytes weight),
                      snd_offset := snd_offset st + nbytes weight\<rparr>))"

definition async_send_weights ::
  "bool \<Rightarrow> nat \<Rightarrow> 'b list \<Rightarrow> (str \<times> 'b tensor) list \<Rightarrow> 'b bucket_message list result" where
  "async_send_weights use_shm bucket_size buffer weights =
     bind_res (fold_res (send_weight use_shm bucket_size)
                 \<lparr>snd_offset = 0, snd_meta = [], snd_buffer = buffer, snd_log = []\<rparr> weights)
       (\<lambda>st. Inr (snd_log (send_bucket True st)))"

section \<open>The receiver\<close>

text \<open>
  \<open>buffer[offset : offset + size].view(dtype).view(shape)\<close>: the offset has to be a multiple of the
  size of the elements, and the bytes have to be there.
\<close>

definition view_tensor :: "'b list \<Rightarrow> 'b tensor_metadata \<Rightarrow> 'b tensor result" where
  "view_tensor buffer meta =
     (let h = m_header meta;
          size = t_itemsize h * prod_list (t_shape h);
          bs = take size (drop (m_offset meta) buffer)
      in if m_offset meta mod t_itemsize h \<noteq> 0 \<or> length bs \<noteq> size then Inl RuntimeError
         else Inr (h\<lparr>t_bytes := bs\<rparr>))"

definition receive_bucket :: "'b bucket_message \<Rightarrow> (str \<times> 'b tensor) list result" where
  "receive_bucket msg =
     map_res (\<lambda>(name, meta).
        case m_handle meta of
          Some t \<Rightarrow> Inr (name, t)
        | None \<Rightarrow> bind_res (view_tensor (snapshot msg) meta) (\<lambda>t. Inr (name, t))) (bucket_meta msg)"

text \<open>The buckets handed to the engine, and whether the last message was seen.\<close>

fun receive_weights :: "'b bucket_message list \<Rightarrow> ((str \<times> 'b tensor) list list \<times> bool) result" where
  "receive_weights [] = Inr ([], False)"
| "receive_weights (msg # msgs) =
     bind_res (receive_bucket msg) (\<lambda>b.
       if is_last msg then Inr ([b], True)
       else bind_res (receive_weights msgs) (\<lambda>(bs, fin). Inr (b # bs, fin)))"

section \<open>Which weights are sent\<close>

function strip_prefixes :: "str \<Rightarrow> str \<Rightarrow> str" where
  "strip_prefixes p name =
     (if p \<noteq> [] \<and> starts_with name p then strip_prefixes p (drop (length p) name) else name)"
  by pat_completeness auto
termination
  by (relation "measure (\<lambda>(p, name). length name)") (auto simp: str_simps)

declare strip_prefixes.simps [simp del]

lemma strip_prefixes_le: "length (strip_prefixes p name) \<le> length name"
  by (induction p name rule: strip_prefixes.induct) (subst strip_prefixes.simps, auto)

text \<open>The outer loop: both prefixes again, until nothing changes.\<close>

function strip_wrappers :: "str \<Rightarrow> str" where
  "strip_wrappers name =
     (let n = strip_prefixes ''module.'' (strip_prefixes ''_fsdp_wrapped_module.'' name)
      in if length n < length name then strip_wrappers n else name)"
  by pat_completeness auto
termination
  by (relation "measure length") auto

declare strip_wrappers.simps [simp del]

definition normalize_summoned_param_name :: "str \<Rightarrow> str" where
  "normalize_summoned_param_name name = replace ''._fsdp_wrapped_module.'' ''.'' (strip_wrappers name)"

definition student_model_weight_items :: "(str \<times> 'b tensor) list \<Rightarrow> (str \<times> 'b tensor) list" where
  "student_model_weight_items named_parameters =
     rev (foldl (\<lambda>weights (name, param).
            let normalized = normalize_summoned_param_name name
            in if normalized \<in> fst ` set weights then weights else (normalized, param) # weights) [] named_parameters)"

text \<open>
  The conversion of a weight before it is sent: floating-point weights to the sync type, given by its
  element size and the conversion.  Moves between devices do not change the bytes.
\<close>

definition prepare_weight :: "(nat \<times> ('b tensor \<Rightarrow> 'b tensor)) option \<Rightarrow> 'b tensor \<Rightarrow> 'b tensor" where
  "prepare_weight sync_dtype w =
     (case sync_dtype of Some (itemsize, cast) \<Rightarrow> if t_floating w then cast w else w | None \<Rightarrow> w)"

definition estimated_ipc_nbytes :: "(nat \<times> ('b tensor \<Rightarrow> 'b tensor)) option \<Rightarrow> 'b tensor \<Rightarrow> nat" where
  "estimated_ipc_nbytes sync_dtype w =
     prod_list (t_shape w) *
     (case sync_dtype of Some (itemsize, cast) \<Rightarrow> if t_floating w then itemsize else t_itemsize w | None \<Rightarrow> t_itemsize w)"

fun largest_weight :: "(nat \<times> ('b tensor \<Rightarrow> 'b tensor)) option \<Rightarrow> (str \<times> nat) option \<Rightarrow> (str \<times> 'b tensor) list \<Rightarrow> (str \<times> nat) option" where
  "largest_weight sync_dtype best [] = best"
| "largest_weight sync_dtype best ((name, w) # ws) =
     (let n = estimated_ipc_nbytes sync_dtype w
      in largest_weight sync_dtype
           (case best of None \<Rightarrow> Some (name, n) | Some (bn, b) \<Rightarrow> if b < n then Some (name, n) else Some (bn, b)) ws)"

definition send_weight_items_ipc ::
  "bool \<Rightarrow> nat \<Rightarrow> (nat \<times> ('b tensor \<Rightarrow> 'b tensor)) option \<Rightarrow> 'b list \<Rightarrow> (str \<times> 'b tensor) list \<Rightarrow>
   'b bucket_message list result" where
  "send_weight_items_ipc use_shm bucket_size sync_dtype buffer weights =
     (case if use_shm then largest_weight sync_dtype None weights else None of
        Some (_, n) \<Rightarrow>
          if bucket_size < n then Inl ValueError
          else async_send_weights use_shm bucket_size buffer (map (\<lambda>(name, w). (name, prepare_weight sync_dtype w)) weights)
      | None \<Rightarrow>
          async_send_weights use_shm bucket_size buffer (map (\<lambda>(name, w). (name, prepare_weight sync_dtype w)) weights))"

section \<open>The invariant of the sender\<close>

text \<open>The metadata of the weights that wait in the bucket, packed from an offset on.\<close>

fun packed_meta :: "nat \<Rightarrow> (str \<times> 'b tensor) list \<Rightarrow> (str, 'b tensor_metadata) dict" where
  "packed_meta k [] = []"
| "packed_meta k ((name, w) # ws) =
     (name, \<lparr>m_header = header_of w, m_offset = k, m_handle = None\<rparr>) # packed_meta (k + nbytes w) ws"

definition total_nbytes :: "(str \<times> 'b tensor) list \<Rightarrow> nat" where
  "total_nbytes ws = sum_list (map (\<lambda>(name, w). nbytes w) ws)"

definition packed_bytes :: "(str \<times> 'b tensor) list \<Rightarrow> 'b list" where
  "packed_bytes ws = concat (map (\<lambda>(name, w). t_bytes w) ws)"

text \<open>Every element size divides every weight's size, so packing keeps every weight aligned.\<close>

definition aligned_weights :: "(str \<times> 'b tensor) list \<Rightarrow> bool" where
  "aligned_weights ws \<longleftrightarrow>
     (\<forall>w \<in> snd ` set ws. tensor_ok w) \<and>
     (\<forall>w \<in> snd ` set ws. \<forall>w' \<in> snd ` set ws. t_itemsize w dvd nbytes w')"

lemma packed_simps [simp, transfer_simps]:
  "total_nbytes [] = 0" "total_nbytes ((n, w) # ws) = nbytes w + total_nbytes ws"
  "packed_bytes [] = []" "packed_bytes ((n, w) # ws) = t_bytes w @ packed_bytes ws"
  by (simp_all add: total_nbytes_def packed_bytes_def)

lemma packed_append [simp, transfer_simps]:
  "total_nbytes (us @ ws) = total_nbytes us + total_nbytes ws"
  "packed_bytes (us @ ws) = packed_bytes us @ packed_bytes ws"
  by (simp_all add: total_nbytes_def packed_bytes_def)

lemma length_packed_bytes [simp, transfer_simps]: "length (packed_bytes ws) = total_nbytes ws"
  by (induction ws) (auto simp: nbytes_def)

lemma packed_meta_append [transfer_simps]:
  "packed_meta k (us @ ws) = packed_meta k us @ packed_meta (k + total_nbytes us) ws"
  by (induction us arbitrary: k) (auto simp: add.assoc)

lemma packed_meta_keys [simp, transfer_simps]: "map fst (packed_meta k ws) = map fst ws"
  by (induction ws arbitrary: k) auto

lemma packed_meta_Nil [simp, transfer_simps]: "packed_meta k ws = [] \<longleftrightarrow> ws = []"
  by (cases ws) auto

declare update_fresh [transfer_simps]

lemma header_of_simps [simp, transfer_simps]:
  "t_itemsize (header_of w) = t_itemsize w" "t_shape (header_of w) = t_shape w"
  "(header_of w)\<lparr>t_bytes := t_bytes w\<rparr> = w"
  by (simp_all add: header_of_def)

lemma store_bytes_take [transfer_simps]:
  "k + length bs \<le> length buffer \<Longrightarrow> take (k + length bs) (store_bytes buffer k bs) = take k buffer @ bs"
  by (simp add: store_bytes_def)

lemma store_bytes_length [simp, transfer_simps]:
  "k + length bs \<le> length buffer \<Longrightarrow> length (store_bytes buffer k bs) = length buffer"
  by (simp add: store_bytes_def)

lemma view_tensor_packed:
  assumes ok: "tensor_ok w" and dv: "t_itemsize w dvd k"
    and bytes: "take (nbytes w) (drop k buffer) = t_bytes w"
  shows "view_tensor buffer \<lparr>m_header = header_of w, m_offset = k, m_handle = None\<rparr> = Inr w"
proof -
  have size: "t_itemsize w * prod_list (t_shape w) = nbytes w" using ok by (simp add: tensor_ok_def mult.commute)
  have "length (t_bytes w) = nbytes w" by (simp add: nbytes_def)
  then show ?thesis using dv unfolding view_tensor_def Let_def by (simp del: length_take add: size bytes)
qed

text \<open>What the receiver rebuilds from a packed bucket.\<close>

lemma receive_packed:
  assumes "aligned_weights ws" and "\<forall>w \<in> snd ` set ws. t_itemsize w dvd k"
    and "take (total_nbytes ws) (drop k buffer) = packed_bytes ws"
  shows "map_res (\<lambda>(name, meta).
           case m_handle meta of Some t \<Rightarrow> Inr (name, t)
           | None \<Rightarrow> bind_res (view_tensor buffer meta) (\<lambda>t. Inr (name, t))) (packed_meta k ws) = Inr ws"
  using assms
proof (induction ws arbitrary: k)
  case Nil
  then show ?case by simp
next
  case (Cons a ws)
  obtain name w where a: "a = (name, w)" by (cases a)
  have ok: "tensor_ok w" and al: "aligned_weights ws" and dvs: "\<forall>x \<in> snd ` set ws. t_itemsize x dvd nbytes w"
    and dk: "t_itemsize w dvd k"
    using Cons.prems(1,2) by (auto simp: a aligned_weights_def)
  have both: "take (nbytes w) (drop k buffer) @ take (total_nbytes ws) (drop (nbytes w) (drop k buffer))
      = t_bytes w @ packed_bytes ws"
    using Cons.prems(3) by (simp add: a take_add)
  have len: "length (take (nbytes w) (drop k buffer)) = length (t_bytes w)"
    using arg_cong[OF Cons.prems(3), of length] by (simp add: a nbytes_def)
  from both len have here: "take (nbytes w) (drop k buffer) = t_bytes w"
    and rest: "take (total_nbytes ws) (drop (k + nbytes w) buffer) = packed_bytes ws"
    by (simp_all add: add.commute)
  have "\<forall>x \<in> snd ` set ws. t_itemsize x dvd (k + nbytes w)"
    using Cons.prems(2) dvs by (auto simp: a)
  from Cons.IH[OF al this rest] view_tensor_packed[OF ok dk here] show ?case by (simp add: a)
qed

lemma receive_pending:
  assumes "aligned_weights ws" and "bucket_meta msg = packed_meta 0 ws"
    and "take (total_nbytes ws) (snapshot msg) = packed_bytes ws"
  shows "receive_bucket msg = Inr ws"
  using receive_packed[of ws 0 "snapshot msg"] assms by (simp add: receive_bucket_def)

text \<open>
  The invariant: what was sent rebuilds to a prefix of the weights, and the rest is packed at the
  start of the buffer.
\<close>

definition sender_inv :: "nat \<Rightarrow> (str \<times> 'b tensor) list \<Rightarrow> 'b sender \<Rightarrow> bool" where
  "sender_inv bucket_size processed st \<longleftrightarrow>
     length (snd_buffer st) = bucket_size \<and>
     (\<exists>pending buckets.
        snd_meta st = packed_meta 0 pending \<and> snd_offset st = total_nbytes pending \<and>
        snd_offset st \<le> bucket_size \<and>
        take (snd_offset st) (snd_buffer st) = packed_bytes pending \<and>
        (\<forall>msg \<in> set (snd_log st). \<not> is_last msg) \<and>
        map_res receive_bucket (snd_log st) = Inr buckets \<and>
        processed = concat buckets @ pending)"

lemma sender_inv_start [transfer_simps]:
  "length buffer = bucket_size \<Longrightarrow>
   sender_inv bucket_size [] \<lparr>snd_offset = 0, snd_meta = [], snd_buffer = buffer, snd_log = []\<rparr>"
  by (simp add: sender_inv_def)

lemma aligned_append: "aligned_weights (us @ ws) \<Longrightarrow> aligned_weights us \<and> aligned_weights ws"
  by (auto simp: aligned_weights_def)

lemma send_bucket_inv:
  assumes "sender_inv bucket_size processed st" and "aligned_weights processed"
  shows "sender_inv bucket_size processed (send_bucket False st)"
proof -
  obtain pending buckets where p:
    "length (snd_buffer st) = bucket_size"
    "snd_meta st = packed_meta 0 pending" "snd_offset st = total_nbytes pending" "snd_offset st \<le> bucket_size"
    "take (snd_offset st) (snd_buffer st) = packed_bytes pending"
    "\<forall>msg \<in> set (snd_log st). \<not> is_last msg"
    "map_res receive_bucket (snd_log st) = Inr buckets" "processed = concat buckets @ pending"
    using assms(1) unfolding sender_inv_def by (elim conjE exE)
  have "aligned_weights pending" using assms(2) aligned_append unfolding p(8) by blast
  then have "receive_bucket \<lparr>bucket_meta = snd_meta st, is_last = False, snapshot = snd_buffer st\<rparr> = Inr pending"
    by (rule receive_pending) (use p in simp_all)
  then have "map_res receive_bucket (snd_log (send_bucket False st)) = Inr (buckets @ [pending])"
    by (simp add: send_bucket_def map_res_append p(7))
  then show ?thesis unfolding sender_inv_def
    by (intro conjI exI[of _ "[]"] exI[of _ "buckets @ [pending]"])
       (use p in \<open>auto simp: send_bucket_def\<close>)
qed

lemma direct_send_inv:
  assumes "sender_inv bucket_size processed st" and "snd_meta st = []"
  shows "sender_inv bucket_size (processed @ [(name, w)]) (direct_send_large_weight name w st)"
proof -
  obtain pending buckets where p:
    "length (snd_buffer st) = bucket_size"
    "snd_meta st = packed_meta 0 pending" "snd_offset st = total_nbytes pending" "snd_offset st \<le> bucket_size"
    "take (snd_offset st) (snd_buffer st) = packed_bytes pending"
    "\<forall>msg \<in> set (snd_log st). \<not> is_last msg"
    "map_res receive_bucket (snd_log st) = Inr buckets" "processed = concat buckets @ pending"
    using assms(1) unfolding sender_inv_def by (elim conjE exE)
  have "pending = []" using p(2) assms(2) by (metis packed_meta_Nil)
  moreover have "map_res receive_bucket (snd_log (direct_send_large_weight name w st)) = Inr (buckets @ [[(name, w)]])"
    by (simp add: direct_send_large_weight_def map_res_append p(7) receive_bucket_def)
  ultimately show ?thesis unfolding sender_inv_def
    by (intro conjI exI[of _ "[]"] exI[of _ "buckets @ [[(name, w)]]"])
       (use p in \<open>auto simp: direct_send_large_weight_def\<close>)
qed

lemma pack_weight_inv:
  assumes "sender_inv bucket_size processed st" and "name \<notin> fst ` set processed"
    and "snd_offset st + nbytes w \<le> bucket_size"
  shows "sender_inv bucket_size (processed @ [(name, w)])
    (st\<lparr>snd_meta := AList.update name \<lparr>m_header = header_of w, m_offset = snd_offset st, m_handle = None\<rparr> (snd_meta st),
        snd_buffer := store_bytes (snd_buffer st) (snd_offset st) (t_bytes w),
        snd_offset := snd_offset st + nbytes w\<rparr>)"
proof -
  obtain pending buckets where p:
    "length (snd_buffer st) = bucket_size"
    "snd_meta st = packed_meta 0 pending" "snd_offset st = total_nbytes pending" "snd_offset st \<le> bucket_size"
    "take (snd_offset st) (snd_buffer st) = packed_bytes pending"
    "\<forall>msg \<in> set (snd_log st). \<not> is_last msg"
    "map_res receive_bucket (snd_log st) = Inr buckets" "processed = concat buckets @ pending"
    using assms(1) unfolding sender_inv_def by (elim conjE exE)
  have keys: "fst ` set (packed_meta 0 pending) = fst ` set pending"
    by (metis list.set_map packed_meta_keys)
  have "name \<notin> fst ` set (snd_meta st)" using assms(2) by (simp add: p(2,8) keys image_Un)
  then have meta: "AList.update name \<lparr>m_header = header_of w, m_offset = snd_offset st, m_handle = None\<rparr> (snd_meta st)
      = packed_meta 0 (pending @ [(name, w)])"
    by (simp add: update_fresh packed_meta_append p(2,3))
  have bytes: "take (snd_offset st + nbytes w) (store_bytes (snd_buffer st) (snd_offset st) (t_bytes w)) = packed_bytes (pending @ [(name, w)])"
    using store_bytes_take[of "snd_offset st" "t_bytes w" "snd_buffer st"] assms(3) p(1,5) by (simp add: nbytes_def)
  have len: "length (store_bytes (snd_buffer st) (snd_offset st) (t_bytes w)) = bucket_size"
    using assms(3) p(1) by (simp add: nbytes_def)
  show ?thesis unfolding sender_inv_def
    by (intro conjI exI[of _ "pending @ [(name, w)]"] exI[of _ buckets])
       (use p assms(3) meta bytes len in \<open>simp_all\<close>)
qed

lemma send_weight_inv:
  assumes inv: "sender_inv bucket_size processed st0" and al: "aligned_weights processed"
    and fresh: "fst item \<notin> fst ` set processed"
    and run: "send_weight use_shm bucket_size st0 item = Inr st'"
  shows "sender_inv bucket_size (processed @ [item]) st'"
proof -
  obtain name w where it: "item = (name, w)" by (cases item)
  define st where "st = (if bucket_size < snd_offset st0 + nbytes w \<and> snd_meta st0 \<noteq> [] then send_bucket False st0 else st0)"
  have st: "sender_inv bucket_size processed st" using inv send_bucket_inv[OF inv al] by (simp add: st_def)
  show ?thesis
  proof (cases "bucket_size < snd_offset st + nbytes w")
    case True
    then have "snd_meta st = []" by (auto simp: st_def send_bucket_def split: if_splits)
    moreover have "st' = direct_send_large_weight name w st"
      using run True by (auto simp: send_weight_def it simp flip: st_def split: if_splits)
    ultimately show ?thesis using direct_send_inv[OF st] by (simp add: it)
  next
    case False
    then have "st' = st\<lparr>snd_meta := AList.update name \<lparr>m_header = header_of w, m_offset = snd_offset st, m_handle = None\<rparr> (snd_meta st),
        snd_buffer := store_bytes (snd_buffer st) (snd_offset st) (t_bytes w),
        snd_offset := snd_offset st + nbytes w\<rparr>"
      using run by (auto simp: send_weight_def it simp flip: st_def split: if_splits)
    then show ?thesis using pack_weight_inv[OF st, of name w] fresh False by (simp add: it)
  qed
qed

lemma send_weights_inv:
  assumes "sender_inv bucket_size processed st" and "aligned_weights (processed @ ws)"
    and "distinct (map fst (processed @ ws))"
    and "fold_res (send_weight use_shm bucket_size) st ws = Inr st'"
  shows "sender_inv bucket_size (processed @ ws) st'"
  using assms
proof (induction ws arbitrary: processed st)
  case Nil
  then show ?case by simp
next
  case (Cons a ws)
  obtain st1 where one: "send_weight use_shm bucket_size st a = Inr st1"
    and rest: "fold_res (send_weight use_shm bucket_size) st1 ws = Inr st'"
    using Cons.prems(4) by (auto simp: bind_res_Inr_iff)
  have "aligned_weights processed" using Cons.prems(2) aligned_append by blast
  moreover have "fst a \<notin> fst ` set processed" using Cons.prems(3) by auto
  ultimately have "sender_inv bucket_size (processed @ [a]) st1"
    using send_weight_inv[OF Cons.prems(1) _ _ one] by blast
  from Cons.IH[OF this _ _ rest] Cons.prems(2,3) show ?case by simp
qed

lemma receive_weights_log:
  "map_res receive_bucket msgs = Inr buckets \<Longrightarrow> \<forall>msg \<in> set msgs. \<not> is_last msg \<Longrightarrow>
   receive_bucket final = Inr b \<Longrightarrow> is_last final \<Longrightarrow>
   receive_weights (msgs @ [final]) = Inr (buckets @ [b], True) \<and> length buckets = length msgs"
  by (induction msgs arbitrary: buckets) (auto simp: bind_res_Inr_iff)

lemma async_send_weights_received:
  assumes "length buffer = bucket_size" and "aligned_weights ws" and "distinct (map fst ws)"
    and "async_send_weights use_shm bucket_size buffer ws = Inr msgs"
  shows "\<exists>buckets. receive_weights msgs = Inr (buckets, True) \<and> concat buckets = ws \<and> length buckets = length msgs"
proof -
  obtain st where run: "fold_res (send_weight use_shm bucket_size)
      \<lparr>snd_offset = 0, snd_meta = [], snd_buffer = buffer, snd_log = []\<rparr> ws = Inr st"
    and msgs: "msgs = snd_log (send_bucket True st)"
    using assms(4) by (auto simp: async_send_weights_def bind_res_Inr_iff)
  have "sender_inv bucket_size ws st"
    using send_weights_inv[OF sender_inv_start[OF assms(1)], of ws use_shm st] assms(2,3) run by simp
  then obtain pending buckets where p:
    "snd_meta st = packed_meta 0 pending" "snd_offset st = total_nbytes pending"
    "take (snd_offset st) (snd_buffer st) = packed_bytes pending"
    "\<forall>msg \<in> set (snd_log st). \<not> is_last msg"
    "map_res receive_bucket (snd_log st) = Inr buckets" "ws = concat buckets @ pending"
    unfolding sender_inv_def by (elim conjE exE)
  have "aligned_weights pending" using assms(2) aligned_append unfolding p(6) by blast
  then have "receive_bucket \<lparr>bucket_meta = snd_meta st, is_last = True, snapshot = snd_buffer st\<rparr> = Inr pending"
    by (rule receive_pending) (use p in simp_all)
  from receive_weights_log[OF p(5,4) this] show ?thesis
    by (auto simp: msgs send_bucket_def p(6))
qed

section \<open>When sending succeeds\<close>

definition bucket_reset :: "'b sender \<Rightarrow> bool" where
  "bucket_reset st \<longleftrightarrow> (snd_meta st = [] \<longrightarrow> snd_offset st = 0)"

lemma update_not_Nil [simp, transfer_simps]: "AList.update k v d \<noteq> []"
  by (cases d) auto

lemma send_weight_total:
  assumes "bucket_reset st" and "use_shm \<longrightarrow> nbytes (snd item) \<le> bucket_size"
  shows "\<exists>st'. send_weight use_shm bucket_size st item = Inr st' \<and> bucket_reset st'"
  using assms by (cases item)
    (auto simp: send_weight_def Let_def bucket_reset_def send_bucket_def direct_send_large_weight_def)

lemma send_weights_total:
  assumes "bucket_reset st" and "use_shm \<longrightarrow> (\<forall>w \<in> snd ` set ws. nbytes w \<le> bucket_size)"
  shows "\<exists>st'. fold_res (send_weight use_shm bucket_size) st ws = Inr st'"
  using assms
proof (induction ws arbitrary: st)
  case Nil
  then show ?case by simp
next
  case (Cons a ws)
  then obtain st1 where "send_weight use_shm bucket_size st a = Inr st1" "bucket_reset st1"
    using send_weight_total[of st use_shm a bucket_size] by auto
  with Cons.IH[of st1] Cons.prems(2) show ?case by auto
qed

lemma async_send_weights_total:
  assumes "use_shm \<longrightarrow> (\<forall>w \<in> snd ` set ws. nbytes w \<le> bucket_size)"
  shows "\<exists>msgs. async_send_weights use_shm bucket_size buffer ws = Inr msgs"
  using send_weights_total[of "\<lparr>snd_offset = 0, snd_meta = [], snd_buffer = buffer, snd_log = []\<rparr>", OF _ assms]
  by (auto simp: async_send_weights_def bucket_reset_def)

lemma largest_weight_bound:
  "(\<exists>m. largest_weight sync_dtype best ws = Some m \<and> bucket_size < snd m) \<longleftrightarrow>
   (\<exists>m. best = Some m \<and> bucket_size < snd m) \<or> (\<exists>w \<in> snd ` set ws. bucket_size < estimated_ipc_nbytes sync_dtype w)"
proof (induction sync_dtype best ws rule: largest_weight.induct)
  case (1 sync_dtype best)
  then show ?case by simp
next
  case (2 sync_dtype best name w ws)
  show ?case using 2[OF refl] by (auto simp: Let_def split: option.splits if_splits prod.splits)
qed

text \<open>
  What the conversion of the weights to the sync type promises: the shape stays, the elements have the
  type's size.
\<close>

definition cast_sound :: "(nat \<times> ('b tensor \<Rightarrow> 'b tensor)) option \<Rightarrow> bool" where
  "cast_sound sync_dtype \<longleftrightarrow>
     (case sync_dtype of None \<Rightarrow> True
      | Some (itemsize, cast) \<Rightarrow> 0 < itemsize \<and>
          (\<forall>w. tensor_ok w \<longrightarrow> tensor_ok (cast w) \<and> t_shape (cast w) = t_shape w \<and> t_itemsize (cast w) = itemsize))"

lemma prepare_weight_nbytes:
  assumes "cast_sound sync_dtype" and "tensor_ok w"
  shows "tensor_ok (prepare_weight sync_dtype w)"
    and "nbytes (prepare_weight sync_dtype w) = estimated_ipc_nbytes sync_dtype w"
proof (atomize(full), cases sync_dtype)
  case None
  then show "tensor_ok (prepare_weight sync_dtype w) \<and> nbytes (prepare_weight sync_dtype w) = estimated_ipc_nbytes sync_dtype w"
    using assms(2) by (simp add: prepare_weight_def estimated_ipc_nbytes_def tensor_ok_def)
next
  case (Some s)
  obtain n c where s: "s = (n, c)" by (cases s)
  have "tensor_ok (c w) \<and> t_shape (c w) = t_shape w \<and> t_itemsize (c w) = n"
    using assms by (simp add: cast_sound_def Some s)
  then show "tensor_ok (prepare_weight sync_dtype w) \<and> nbytes (prepare_weight sync_dtype w) = estimated_ipc_nbytes sync_dtype w"
    using assms(2) by (simp add: prepare_weight_def estimated_ipc_nbytes_def Some s tensor_ok_def)
qed

definition prepared_weights ::
  "(nat \<times> ('b tensor \<Rightarrow> 'b tensor)) option \<Rightarrow> (str \<times> 'b tensor) list \<Rightarrow> (str \<times> 'b tensor) list" where
  "prepared_weights sync_dtype ws = map (\<lambda>(name, w). (name, prepare_weight sync_dtype w)) ws"

lemma prepared_weights_snd [transfer_simps]:
  "snd ` set (prepared_weights sync_dtype ws) = prepare_weight sync_dtype ` snd ` set ws"
  by (force simp: prepared_weights_def)

lemma prepared_weights_names [simp, transfer_simps]: "map fst (prepared_weights sync_dtype ws) = map fst ws"
  by (induction ws) (auto simp: prepared_weights_def)

text \<open>The early check raises exactly for a bucket that is too small, and then nothing was sent.\<close>

lemma send_weight_items_ipc_outcome:
  "send_weight_items_ipc use_shm bucket_size sync_dtype buffer ws =
     (if use_shm \<and> (\<exists>w \<in> snd ` set ws. bucket_size < estimated_ipc_nbytes sync_dtype w) then Inl ValueError
      else async_send_weights use_shm bucket_size buffer (prepared_weights sync_dtype ws))"
proof -
  have "(\<exists>m. largest_weight sync_dtype None ws = Some m \<and> bucket_size < snd m) \<longleftrightarrow>
      (\<exists>w \<in> snd ` set ws. bucket_size < estimated_ipc_nbytes sync_dtype w)"
    using largest_weight_bound[of sync_dtype None ws bucket_size] by auto
  then show ?thesis
    by (cases "largest_weight sync_dtype None ws")
       (auto simp: send_weight_items_ipc_def prepared_weights_def split: prod.splits)
qed

section \<open>Names of the weights\<close>

lemma student_model_weight_items_step:
  defines "f \<equiv> \<lambda>weights (name, param :: 'b tensor). let normalized = normalize_summoned_param_name name
     in if normalized \<in> fst ` set weights then weights else (normalized, param) # weights"
  assumes "distinct (map fst acc)"
  shows "distinct (map fst (foldl f acc ps)) \<and>
    (\<forall>k. map_of (foldl f acc ps) k =
      (case map_of acc k of Some w \<Rightarrow> Some w
       | None \<Rightarrow> map_of (map (\<lambda>(n, w). (normalize_summoned_param_name n, w)) ps) k))"
  using assms(2)
proof (induction ps arbitrary: acc)
  case Nil
  then show ?case by (simp split: option.splits)
next
  case (Cons p ps)
  obtain n w where p: "p = (n, w)" by (cases p)
  show ?case
  proof (cases "normalize_summoned_param_name n \<in> fst ` set acc")
    case True
    then obtain v where "map_of acc (normalize_summoned_param_name n) = Some v"
      by (metis domD dom_map_of_conv_image_fst)
    with Cons.IH[OF Cons.prems] True show ?thesis by (auto simp: p f_def split: option.splits)
  next
    case False
    then have "map_of acc (normalize_summoned_param_name n) = None"
      by (simp add: map_of_eq_None_iff)
    moreover have "distinct (map fst ((normalize_summoned_param_name n, w) # acc))" using Cons.prems False by simp
    ultimately show ?thesis using Cons.IH[of "(normalize_summoned_param_name n, w) # acc"] False
      by (auto simp: p f_def split: option.splits)
  qed
qed

lemma student_model_weight_items_distinct:
  "distinct (map fst (student_model_weight_items ps))"
  using student_model_weight_items_step[of "[]" ps]
  by (simp add: student_model_weight_items_def rev_map[symmetric])

lemma map_of_rev_distinct: "distinct (map fst d) \<Longrightarrow> map_of (rev d) = map_of d"
  by (rule map_of_inject_set[THEN iffD2]) (auto simp: rev_map[symmetric])

lemma student_model_weight_items_first:
  "map_of (student_model_weight_items ps) k =
   map_of (map (\<lambda>(n, w). (normalize_summoned_param_name n, w)) ps) k"
  using student_model_weight_items_step[of "[]" ps]
  by (simp add: student_model_weight_items_def map_of_rev_distinct)

section \<open>A whole transfer\<close>

lemma synced_weights_sent:
  assumes "length buffer = bucket_size"
    and "cast_sound sync_dtype"
    and "\<forall>w \<in> snd ` set params. tensor_ok w"
    and "aligned_weights (prepared_weights sync_dtype (student_model_weight_items params))"
    and "use_shm \<longrightarrow> (\<forall>w \<in> snd ` set params. estimated_ipc_nbytes sync_dtype w \<le> bucket_size)"
  shows "\<exists>msgs buckets.
    send_weight_items_ipc use_shm bucket_size sync_dtype buffer (student_model_weight_items params) = Inr msgs \<and>
    receive_weights msgs = Inr (buckets, True) \<and>
    concat buckets = prepared_weights sync_dtype (student_model_weight_items params) \<and>
    length buckets = length msgs \<and>
    distinct (map fst (concat buckets)) \<and>
    (\<forall>k. map_of (concat buckets) k =
       map_option (prepare_weight sync_dtype)
         (map_of (map (\<lambda>(n, w). (normalize_summoned_param_name n, w)) params) k))"
proof -
  let ?items = "student_model_weight_items params"
  have sub: "snd ` set ?items \<subseteq> snd ` set params"
  proof
    fix w assume "w \<in> snd ` set ?items"
    then obtain k where "map_of ?items k = Some w"
      using student_model_weight_items_distinct[of params] by (auto intro: map_of_is_SomeI)
    then have "map_of (map (\<lambda>(n, w). (normalize_summoned_param_name n, w)) params) k = Some w"
      by (simp add: student_model_weight_items_first)
    then show "w \<in> snd ` set params" by (force dest: map_of_SomeD)
  qed
  have fits: "\<not> (use_shm \<and> (\<exists>w \<in> snd ` set ?items. bucket_size < estimated_ipc_nbytes sync_dtype w))"
    using assms(5) sub by (meson leD subsetD)
  have "nbytes (prepare_weight sync_dtype w) \<le> bucket_size" if "use_shm" and w: "w \<in> snd ` set ?items" for w
  proof -
    have p: "w \<in> snd ` set params" using sub w by (rule subsetD)
    have "nbytes (prepare_weight sync_dtype w) = estimated_ipc_nbytes sync_dtype w"
      by (rule prepare_weight_nbytes(2)[OF assms(2) bspec[OF assms(3) p]])
    also have "\<dots> \<le> bucket_size" by (rule bspec[OF mp[OF assms(5) that(1)] p])
    finally show ?thesis .
  qed
  then have "use_shm \<longrightarrow> (\<forall>w \<in> snd ` set (prepared_weights sync_dtype ?items). nbytes w \<le> bucket_size)"
    by (simp add: prepared_weights_snd)
  then obtain msgs where msgs:
    "async_send_weights use_shm bucket_size buffer (prepared_weights sync_dtype ?items) = Inr msgs"
    using async_send_weights_total[of use_shm "prepared_weights sync_dtype ?items" bucket_size buffer] by blast
  obtain buckets where "receive_weights msgs = Inr (buckets, True)" "concat buckets = prepared_weights sync_dtype ?items"
      "length buckets = length msgs"
    using async_send_weights_received[OF assms(1,4) _ msgs] student_model_weight_items_distinct[of params] by auto
  moreover have "send_weight_items_ipc use_shm bucket_size sync_dtype buffer ?items = Inr msgs"
    using msgs fits by (simp only: send_weight_items_ipc_outcome if_False)
  moreover have "map_of (prepared_weights sync_dtype ?items) k = map_option (prepare_weight sync_dtype) (map_of ?items k)" for k
    by (simp add: prepared_weights_def map_of_map)
  ultimately show ?thesis
    using student_model_weight_items_distinct[of params] student_model_weight_items_first[of params]
    by (intro exI[of _ msgs] exI[of _ buckets]) simp
qed

section \<open>Properties\<close>

text \<open>
  C10: a weight sync that is set up right succeeds and loads the model: with weights whose sizes are
  multiples of every element size, and with shared memory a bucket that holds the largest of them, every message
  is sent, the receiver rebuilds every bucket, sees the last one, and the engine is handed each
  normalised parameter once, in the model's order, with the bytes of the converted weight.
\<close>

theorem synced_weights_received:
  assumes "length buffer = bucket_size"
    and "cast_sound sync_dtype"
    and "\<forall>w \<in> snd ` set params. tensor_ok w"
    and "aligned_weights (prepared_weights sync_dtype (student_model_weight_items params))"
    and "use_shm \<longrightarrow> (\<forall>w \<in> snd ` set params. estimated_ipc_nbytes sync_dtype w \<le> bucket_size)"
  shows "\<exists>msgs buckets.
    send_weight_items_ipc use_shm bucket_size sync_dtype buffer (student_model_weight_items params) = Inr msgs \<and>
    receive_weights msgs = Inr (buckets, True) \<and>
    concat buckets = prepared_weights sync_dtype (student_model_weight_items params) \<and>
    distinct (map fst (concat buckets)) \<and>
    (\<forall>k. map_of (concat buckets) k =
       map_option (prepare_weight sync_dtype)
         (map_of (map (\<lambda>(n, w). (normalize_summoned_param_name n, w)) params) k))"
  using synced_weights_sent[OF assms] by blast

text \<open>Two bf16 parameters under wrapped names, the second one tied to the first, and one that needs no cast.\<close>

definition example_params :: "(str \<times> nat tensor) list" where
  "example_params =
     [(''_fsdp_wrapped_module.lm.w'', \<lparr>t_shape = [1, 2], t_dtype = ''f32'', t_itemsize = 2, t_floating = True, t_bytes = [1, 2, 3, 4]\<rparr>),
      (''module.lm.w'', \<lparr>t_shape = [1], t_dtype = ''bf16'', t_itemsize = 2, t_floating = True, t_bytes = [9, 9]\<rparr>),
      (''lm._fsdp_wrapped_module.b'', \<lparr>t_shape = [3], t_dtype = ''bf16'', t_itemsize = 2, t_floating = True, t_bytes = [5, 6, 7, 8, 9, 10]\<rparr>)]"

lemma example_items:
  "student_model_weight_items example_params =
     [(''lm.w'', \<lparr>t_shape = [1, 2], t_dtype = ''f32'', t_itemsize = 2, t_floating = True, t_bytes = [1, 2, 3, 4]\<rparr>),
      (''lm.b'', \<lparr>t_shape = [3], t_dtype = ''bf16'', t_itemsize = 2, t_floating = True, t_bytes = [5, 6, 7, 8, 9, 10]\<rparr>)]"
  by (code_simp)

theorem synced_weights_received_witness:
  "\<exists>msgs buckets.
    send_weight_items_ipc True 8 None (replicate 8 0) (student_model_weight_items example_params) = Inr msgs \<and>
    receive_weights msgs = Inr (buckets, True) \<and>
    length (concat buckets) = 2 \<and>
    map_of (concat buckets) ''lm.w'' = map_of (map (\<lambda>(n, w). (normalize_summoned_param_name n, w)) example_params) ''lm.w''"
proof -
  have prep: "prepared_weights None (student_model_weight_items example_params) = student_model_weight_items example_params"
    by (simp add: prepared_weights_def prepare_weight_def)
  have "length (replicate 8 (0::nat)) = 8" by simp
  moreover have "cast_sound (None :: (nat \<times> (nat tensor \<Rightarrow> nat tensor)) option)" by (simp add: cast_sound_def)
  moreover have "\<forall>w \<in> snd ` set example_params. tensor_ok w"
    by (simp add: example_params_def tensor_ok_def nbytes_def)
  moreover have "aligned_weights (prepared_weights None (student_model_weight_items example_params))"
    unfolding prep by (simp add: example_items aligned_weights_def tensor_ok_def nbytes_def)
  moreover have "True \<longrightarrow> (\<forall>w \<in> snd ` set example_params. estimated_ipc_nbytes None w \<le> 8)"
    by (simp add: example_params_def estimated_ipc_nbytes_def)
  ultimately obtain msgs buckets where r:
    "send_weight_items_ipc True 8 None (replicate 8 0) (student_model_weight_items example_params) = Inr msgs"
    "receive_weights msgs = Inr (buckets, True)"
    "concat buckets = prepared_weights None (student_model_weight_items example_params)"
    "\<forall>k. map_of (concat buckets) k = map_option (prepare_weight None)
       (map_of (map (\<lambda>(n, w). (normalize_summoned_param_name n, w)) example_params) k)"
    using synced_weights_received[of "replicate 8 0" 8 None example_params True] by auto
  have "length (concat buckets) = 2" unfolding r(3) prep by (simp add: example_items)
  moreover have "prepare_weight None = (\<lambda>w :: nat tensor. w)" by (rule ext) (simp add: prepare_weight_def)
  ultimately show ?thesis using r(1,2,4) by (intro exI[of _ msgs] exI[of _ buckets]) (simp add: option.map_ident)
qed

text \<open>
  Over shared memory the early check is exact: sending raises if and only if some weight, counted
  after the conversion, does not fit the bucket, and then it raises \<open>ValueError\<close> before the first
  message; over CUDA IPC sending never raises.
\<close>

theorem send_raises_iff_weight_too_large:
  assumes "cast_sound sync_dtype" and "\<forall>w \<in> snd ` set ws. tensor_ok w"
  shows "(\<forall>e. send_weight_items_ipc True bucket_size sync_dtype buffer ws = Inl e \<longleftrightarrow>
            e = ValueError \<and> (\<exists>w \<in> snd ` set ws. bucket_size < estimated_ipc_nbytes sync_dtype w)) \<and>
         (\<exists>msgs. send_weight_items_ipc False bucket_size sync_dtype buffer ws = Inr msgs)"
proof -
  have total: "\<exists>msgs. async_send_weights shm bucket_size buffer (prepared_weights sync_dtype ws) = Inr msgs"
    if "shm \<longrightarrow> (\<forall>w \<in> snd ` set ws. estimated_ipc_nbytes sync_dtype w \<le> bucket_size)" for shm
    by (rule async_send_weights_total)
       (use that assms(2) in \<open>auto simp: prepared_weights_snd prepare_weight_nbytes(2)[OF assms(1)]\<close>)
  show ?thesis
  proof (cases "\<exists>w \<in> snd ` set ws. bucket_size < estimated_ipc_nbytes sync_dtype w")
    case True
    with total[of False] show ?thesis by (auto simp: send_weight_items_ipc_outcome)
  next
    case False
    with total[of True] total[of False] show ?thesis by (auto simp: send_weight_items_ipc_outcome not_less)
  qed
qed

theorem send_raises_iff_weight_too_large_witness:
  "send_weight_items_ipc True 3 None [0, 0, 0] (student_model_weight_items example_params) = Inl ValueError"
proof -
  have "cast_sound (None :: (nat \<times> (nat tensor \<Rightarrow> nat tensor)) option)" by (simp add: cast_sound_def)
  moreover have "\<forall>w \<in> snd ` set (student_model_weight_items example_params). tensor_ok w"
    by (simp add: example_items tensor_ok_def nbytes_def)
  moreover have "\<exists>w \<in> snd ` set (student_model_weight_items example_params). 3 < estimated_ipc_nbytes None w"
    by (simp add: example_items estimated_ipc_nbytes_def)
  ultimately show ?thesis
    using send_raises_iff_weight_too_large[of None "student_model_weight_items example_params" 3 "[0, 0, 0]"] by blast
qed

text \<open>
  Without a common element size the receiver can fail: when two weights share a bucket and the
  element size of the second does not divide the byte size of the first, its view of the buffer starts
  between two elements and the receiver raises, although the sender did nothing it checks for.
\<close>

theorem mixed_dtypes_break_receiver:
  assumes "tensor_ok w1" and "tensor_ok w2" and "n1 \<noteq> n2"
    and "nbytes w1 + nbytes w2 \<le> bucket_size" and "length buffer = bucket_size"
    and "\<not> t_itemsize w2 dvd nbytes w1"
  shows "\<exists>msgs. async_send_weights use_shm bucket_size buffer [(n1, w1), (n2, w2)] = Inr msgs \<and>
    receive_weights msgs = Inl RuntimeError"
proof -
  have first: "view_tensor buf \<lparr>m_header = header_of w1, m_offset = 0, m_handle = None\<rparr> = Inl RuntimeError
      \<or> (\<exists>t. view_tensor buf \<lparr>m_header = header_of w1, m_offset = 0, m_handle = None\<rparr> = Inr t)" for buf
    by (simp add: view_tensor_def Let_def)
  have second: "view_tensor buf \<lparr>m_header = header_of w2, m_offset = nbytes w1, m_handle = None\<rparr> = Inl RuntimeError" for buf
    using assms(6) by (simp add: view_tensor_def Let_def dvd_eq_mod_eq_0)
  obtain msgs where msgs: "async_send_weights use_shm bucket_size buffer [(n1, w1), (n2, w2)] = Inr msgs"
    and one: "\<exists>buf. msgs = [\<lparr>bucket_meta = [(n1, \<lparr>m_header = header_of w1, m_offset = 0, m_handle = None\<rparr>),
        (n2, \<lparr>m_header = header_of w2, m_offset = nbytes w1, m_handle = None\<rparr>)], is_last = True, snapshot = buf\<rparr>]"
    using assms(3,4) by (auto simp: async_send_weights_def send_weight_def Let_def send_bucket_def)
  obtain buf where buf: "msgs = [\<lparr>bucket_meta = [(n1, \<lparr>m_header = header_of w1, m_offset = 0, m_handle = None\<rparr>),
        (n2, \<lparr>m_header = header_of w2, m_offset = nbytes w1, m_handle = None\<rparr>)], is_last = True, snapshot = buf\<rparr>]"
    using one by blast
  have "receive_weights msgs = Inl RuntimeError"
    using first[of buf] second[of buf] by (auto simp: buf receive_bucket_def)
  with msgs show ?thesis by blast
qed

theorem mixed_dtypes_break_receiver_witness:
  "\<exists>msgs. async_send_weights True 16 (replicate 16 0)
     [(''bias'', \<lparr>t_shape = [3], t_dtype = ''bf16'', t_itemsize = 2, t_floating = True, t_bytes = replicate 6 (1 :: nat)\<rparr>),
      (''scale'', \<lparr>t_shape = [1], t_dtype = ''f32'', t_itemsize = 4, t_floating = True, t_bytes = [7, 8, 9, 10]\<rparr>)] = Inr msgs \<and>
    receive_weights msgs = Inl RuntimeError"
proof (rule mixed_dtypes_break_receiver)
  have "\<not> (4 :: nat) dvd 6" by presburger
  then show "\<not> t_itemsize \<lparr>t_shape = [1], t_dtype = ''f32'', t_itemsize = 4, t_floating = True, t_bytes = [7, 8, 9, 10 :: nat]\<rparr>
      dvd nbytes \<lparr>t_shape = [3], t_dtype = ''bf16'', t_itemsize = 2, t_floating = True, t_bytes = replicate 6 (1 :: nat)\<rparr>"
    by (simp add: nbytes_def)
qed (simp_all add: tensor_ok_def nbytes_def)

end
