(* ===== verification/StudentServer.thy ===== *)
theory StudentServer
  imports WeightTransfer
begin

text \<open>
  The shared rollout server of the student, \<open>src/CLightMLLM_new/tools/serve_vllm_student.py\<close>, with the
  client in \<open>src/method/vllm_student.py\<close>: generation and weight synchronisation over one engine, one
  session at a time, the receiver thread of a session running beside the handlers.  Parameters are the
  engine's \<open>load_weights\<close> and generation, and torch's conversion to the type of a buffer.
\<close>

named_theorems server_simps

section \<open>Loading a bucket into the engine\<close>

text \<open>The parameters of the engine are opaque; its registered buffers are a dictionary.\<close>

record ('p, 'b) engine =
  parameters :: 'p
  named_buffers :: "(str, 'b tensor) dict"

fun copy_buffers ::
  "('b tensor \<Rightarrow> 'b tensor \<Rightarrow> 'b tensor) \<Rightarrow> (str, 'b tensor) dict \<Rightarrow> (str \<times> 'b tensor) list \<Rightarrow>
   (str, 'b tensor) dict \<times> py_error option" where
  "copy_buffers convert bufs [] = (bufs, None)"
| "copy_buffers convert bufs ((name, tensor) # us) =
     (case map_of bufs name of
        None \<Rightarrow> copy_buffers convert bufs us
      | Some target \<Rightarrow>
          if t_shape target \<noteq> t_shape tensor then (bufs, Some ValueError)
          else copy_buffers convert (AList.update name (convert target tensor) bufs) us)"

definition load_weights_into_model ::
  "('p \<Rightarrow> (str \<times> 'b tensor) list \<Rightarrow> 'p \<times> py_error option) \<Rightarrow> ('b tensor \<Rightarrow> 'b tensor \<Rightarrow> 'b tensor) \<Rightarrow>
   (str \<times> 'b tensor) list \<Rightarrow> ('p, 'b) engine \<Rightarrow> ('p, 'b) engine \<times> py_error option" where
  "load_weights_into_model load_weights convert weights eng =
     (let param_updates = filter (\<lambda>(name, tensor). map_of (named_buffers eng) name = None) weights;
          buffer_updates = filter (\<lambda>(name, tensor). map_of (named_buffers eng) name \<noteq> None) weights;
          (ps, err) = (if param_updates = [] then (parameters eng, None) else load_weights (parameters eng) param_updates);
          eng1 = eng\<lparr>parameters := ps\<rparr>
      in case err of Some e \<Rightarrow> (eng1, Some e)
         | None \<Rightarrow> (let (bufs, err') = copy_buffers convert (named_buffers eng) buffer_updates
                    in (eng1\<lparr>named_buffers := bufs\<rparr>, err')))"

section \<open>The state of the server\<close>

text \<open>The receiver thread of a session: alive, or ended with what it left in \<open>result_box\<close>.\<close>

datatype receiver_thread = Receiving | Loaded | Broken py_error

record 'b session =
  session_id :: nat
  session_use_shm :: bool
  receiver :: receiver_thread
  channel :: "'b bucket_message option"

text \<open>
  \<open>starting\<close>: the handler of \<open>start_weight_sync\<close> sleeps, holding the lock.  The other handlers that take
  the lock run in one step.
\<close>

record ('p, 'b) student_state =
  rollout_engine :: "('p, 'b) engine"
  default_use_shm :: bool
  weight_version :: nat
  active_sync_session :: "'b session option"
  starting :: bool

datatype response =
    Pong nat bool
  | SyncStarted nat bool nat
  | SyncFinished nat
  | SyncAborted nat
  | NoActiveSession nat
  | Failure py_error

definition is_alive :: "'b session \<Rightarrow> bool" where
  "is_alive session \<longleftrightarrow> receiver session = Receiving"

section \<open>The handlers\<close>

definition handle_ping :: "('p, 'b) student_state \<Rightarrow> response" where
  "handle_ping s = Pong (weight_version s) (active_sync_session s \<noteq> None)"

text \<open>The sequences with the version they are reported under, or the error answer.\<close>

definition handle_generate :: "(('p, 'b) engine \<Rightarrow> 'o result) \<Rightarrow> ('p, 'b) student_state \<Rightarrow> ('o \<times> nat) result" where
  "handle_generate generate s =
     (if active_sync_session s \<noteq> None then Inl RuntimeError
      else bind_res (generate (rollout_engine s)) (\<lambda>sequences. Inr (sequences, weight_version s)))"

text \<open>\<open>start_weight_sync\<close> up to the sleep; \<open>Some\<close> is an immediate answer.\<close>

definition start_weight_sync ::
  "nat \<Rightarrow> bool option \<Rightarrow> ('p, 'b) student_state \<Rightarrow> response option \<times> ('p, 'b) student_state" where
  "start_weight_sync uuid requested_use_shm s =
     (if active_sync_session s \<noteq> None then (Some (Failure RuntimeError), s)
      else (None, s\<lparr>active_sync_session :=
              Some \<lparr>session_id = uuid,
                    session_use_shm = (case requested_use_shm of None \<Rightarrow> default_use_shm s | Some b \<Rightarrow> b),
                    receiver = Receiving, channel = None\<rparr>,
              starting := True\<rparr>))"

text \<open>What follows the sleep.\<close>

definition start_weight_sync_reply :: "('p, 'b) student_state \<Rightarrow> response \<times> ('p, 'b) student_state" where
  "start_weight_sync_reply s =
     (case active_sync_session s of
        None \<Rightarrow> (Failure AttributeError, s\<lparr>starting := False\<rparr>)
      | Some session \<Rightarrow>
          (case receiver session of
             Broken e \<Rightarrow> (Failure RuntimeError, s\<lparr>active_sync_session := None, starting := False\<rparr>)
           | _ \<Rightarrow> (SyncStarted (session_id session) (session_use_shm session) (weight_version s), s\<lparr>starting := False\<rparr>)))"

text \<open>\<open>thread.join(timeout)\<close> has returned: the thread has ended or the time is over.\<close>

definition abort_weight_sync :: "nat \<Rightarrow> ('p, 'b) student_state \<Rightarrow> response \<times> ('p, 'b) student_state" where
  "abort_weight_sync sid s =
     (case active_sync_session s of
        None \<Rightarrow> (NoActiveSession (weight_version s), s)
      | Some session \<Rightarrow>
          if sid \<noteq> session_id session then (Failure RuntimeError, s)
          else if is_alive session then (Failure TimeoutError, s)
          else (SyncAborted (weight_version s), s\<lparr>active_sync_session := None\<rparr>))"

definition finish_weight_sync :: "nat \<Rightarrow> ('p, 'b) student_state \<Rightarrow> response \<times> ('p, 'b) student_state" where
  "finish_weight_sync sid s =
     (case active_sync_session s of
        None \<Rightarrow> (Failure RuntimeError, s)
      | Some session \<Rightarrow>
          if sid \<noteq> session_id session then (Failure RuntimeError, s)
          else if is_alive session then (Failure TimeoutError, s)
          else if receiver session \<noteq> Loaded then (Failure RuntimeError, s\<lparr>active_sync_session := None\<rparr>)
          else (SyncFinished (weight_version s + 1),
                s\<lparr>active_sync_session := None, weight_version := weight_version s + 1\<rparr>))"

section \<open>The receiver thread\<close>

text \<open>One message: rebuild the bucket, load it, acknowledge; the last one ends the thread.\<close>

definition receiver_takes ::
  "('p \<Rightarrow> (str \<times> 'b tensor) list \<Rightarrow> 'p \<times> py_error option) \<Rightarrow> ('b tensor \<Rightarrow> 'b tensor \<Rightarrow> 'b tensor) \<Rightarrow>
   'b bucket_message \<Rightarrow> 'b session \<Rightarrow> ('p, 'b) student_state \<Rightarrow> py_error option \<times> ('p, 'b) student_state" where
  "receiver_takes load_weights convert msg session s =
     (case receive_bucket msg of
        Inl e \<Rightarrow> (Some e, s\<lparr>active_sync_session := Some (session\<lparr>receiver := Broken e\<rparr>)\<rparr>)
      | Inr weights \<Rightarrow>
          (let (eng, err) = load_weights_into_model load_weights convert weights (rollout_engine s)
           in (err, s\<lparr>rollout_engine := eng,
                 active_sync_session := Some
                   (case err of
                      Some e \<Rightarrow> session\<lparr>receiver := Broken e\<rparr>
                    | None \<Rightarrow> session\<lparr>channel := None, receiver := (if is_last msg then Loaded else Receiving)\<rparr>)\<rparr>)))"

section \<open>The server as a transition system\<close>

datatype ('p, 'b, 'o) event =
    Generated "('p, 'b) engine" "('o \<times> nat) result"
  | StartRequested nat
  | StartAnswered response
  | AbortAnswered nat response
  | FinishAnswered nat response
  | Sent "'b bucket_message"
  | Taken "py_error option"
  | ReceiverBroke py_error

inductive server_step ::
  "('p \<Rightarrow> (str \<times> 'b tensor) list \<Rightarrow> 'p \<times> py_error option) \<Rightarrow> ('b tensor \<Rightarrow> 'b tensor \<Rightarrow> 'b tensor) \<Rightarrow>
   ('p, 'b) student_state \<Rightarrow> ('p, 'b, 'o) event \<Rightarrow> ('p, 'b) student_state \<Rightarrow> bool"
  for load_weights convert where
  Generate: "\<not> starting s \<Longrightarrow>
    server_step load_weights convert s (Generated (rollout_engine s) (handle_generate generate s)) s"
| Start: "\<not> starting s \<Longrightarrow> start_weight_sync uuid shm s = (None, s') \<Longrightarrow>
    server_step load_weights convert s (StartRequested uuid) s'"
| StartRefused: "\<not> starting s \<Longrightarrow> start_weight_sync uuid shm s = (Some r, s') \<Longrightarrow>
    server_step load_weights convert s (StartAnswered r) s'"
| StartReply: "starting s \<Longrightarrow> start_weight_sync_reply s = (r, s') \<Longrightarrow>
    server_step load_weights convert s (StartAnswered r) s'"
| Abort: "\<not> starting s \<Longrightarrow> abort_weight_sync sid s = (r, s') \<Longrightarrow>
    server_step load_weights convert s (AbortAnswered sid r) s'"
| Finish: "\<not> starting s \<Longrightarrow> finish_weight_sync sid s = (r, s') \<Longrightarrow>
    server_step load_weights convert s (FinishAnswered sid r) s'"
| Send: "active_sync_session s = Some session \<Longrightarrow> channel session = None \<Longrightarrow>
    server_step load_weights convert s (Sent msg) (s\<lparr>active_sync_session := Some (session\<lparr>channel := Some msg\<rparr>)\<rparr>)"
| Take: "active_sync_session s = Some session \<Longrightarrow> channel session = Some msg \<Longrightarrow> is_alive session \<Longrightarrow>
    receiver_takes load_weights convert msg session s = (err, s') \<Longrightarrow>
    server_step load_weights convert s (Taken err) s'"
| Break: "active_sync_session s = Some session \<Longrightarrow> is_alive session \<Longrightarrow>
    server_step load_weights convert s (ReceiverBroke e)
      (s\<lparr>active_sync_session := Some (session\<lparr>receiver := Broken e\<rparr>)\<rparr>)"

inductive server_run ::
  "('p \<Rightarrow> (str \<times> 'b tensor) list \<Rightarrow> 'p \<times> py_error option) \<Rightarrow> ('b tensor \<Rightarrow> 'b tensor \<Rightarrow> 'b tensor) \<Rightarrow>
   ('p, 'b) student_state \<Rightarrow> ('p, 'b, 'o) event list \<Rightarrow> ('p, 'b) student_state \<Rightarrow> bool"
  for load_weights convert s0 where
  run_start: "server_run load_weights convert s0 [] s0"
| run_step: "server_run load_weights convert s0 evs s \<Longrightarrow> server_step load_weights convert s ev s' \<Longrightarrow>
    server_run load_weights convert s0 (evs @ [ev]) s'"

inductive_cases GeneratedE: "server_step load_weights convert s (Generated eng r) s'"

lemma not_running: "r \<noteq> Receiving \<Longrightarrow> r \<noteq> Loaded \<Longrightarrow> \<exists>e. r = Broken e"
  by (cases r) auto

lemmas handler_defs =
  handle_generate_def start_weight_sync_def start_weight_sync_reply_def abort_weight_sync_def
  finish_weight_sync_def receiver_takes_def is_alive_def

section \<open>The client\<close>

text \<open>\<open>_checked_response\<close>.\<close>

definition checked_response :: "response \<Rightarrow> response result" where
  "checked_response r = (case r of Failure e \<Rightarrow> Inl RuntimeError | _ \<Rightarrow> Inr r)"

text \<open>The receiver takes the messages one by one; \<open>None\<close>: it broke, and the sender waits for ever.\<close>

fun deliver_all ::
  "('p \<Rightarrow> (str \<times> 'b tensor) list \<Rightarrow> 'p \<times> py_error option) \<Rightarrow> ('b tensor \<Rightarrow> 'b tensor \<Rightarrow> 'b tensor) \<Rightarrow>
   'b bucket_message list \<Rightarrow> ('p, 'b) student_state \<Rightarrow> ('p, 'b) student_state option" where
  "deliver_all load_weights convert [] s = Some s"
| "deliver_all load_weights convert (msg # msgs) s =
     (case active_sync_session s of
        None \<Rightarrow> None
      | Some session \<Rightarrow>
          if \<not> is_alive session \<or> channel session \<noteq> None then None
          else (case receiver_takes load_weights convert msg (session\<lparr>channel := Some msg\<rparr>)
                       (s\<lparr>active_sync_session := Some (session\<lparr>channel := Some msg\<rparr>)\<rparr>) of
                  (Some e, s') \<Rightarrow> None
                | (None, s') \<Rightarrow> deliver_all load_weights convert msgs s'))"

text \<open>
  \<open>sync_weight_items_ipc\<close> against a server whose receiver starts: the version after the sync or the
  exception, \<open>None\<close> when the client hangs, and the state it leaves.
\<close>

definition sync_weight_items_ipc ::
  "('p \<Rightarrow> (str \<times> 'b tensor) list \<Rightarrow> 'p \<times> py_error option) \<Rightarrow> ('b tensor \<Rightarrow> 'b tensor \<Rightarrow> 'b tensor) \<Rightarrow>
   nat \<Rightarrow> bool option \<Rightarrow> nat \<Rightarrow> (nat \<times> ('b tensor \<Rightarrow> 'b tensor)) option \<Rightarrow> 'b list \<Rightarrow> (str \<times> 'b tensor) list \<Rightarrow>
   ('p, 'b) student_state \<Rightarrow> nat result option \<times> ('p, 'b) student_state" where
  "sync_weight_items_ipc load_weights convert uuid use_shm bucket_size sync_dtype buffer weights s =
     (case start_weight_sync uuid use_shm s of
        (Some r, s1) \<Rightarrow> (Some (bind_res (checked_response r) (\<lambda>_. Inl RuntimeError)), s1)
      | (None, s1) \<Rightarrow>
          (case start_weight_sync_reply s1 of
             (SyncStarted sid resolved_use_shm v, s2) \<Rightarrow>
               (case send_weight_items_ipc resolved_use_shm bucket_size sync_dtype buffer weights of
                  Inl e \<Rightarrow>
                    (case abort_weight_sync sid s2 of
                       (r, s3) \<Rightarrow> (Some (bind_res (checked_response r) (\<lambda>_. Inl e)), s3))
                | Inr msgs \<Rightarrow>
                    (case deliver_all load_weights convert msgs s2 of
                       None \<Rightarrow> (None, s2)
                     | Some s3 \<Rightarrow>
                         (case finish_weight_sync sid s3 of
                            (SyncFinished v', s4) \<Rightarrow> (Some (Inr v'), s4)
                          | (_, s4) \<Rightarrow> (Some (Inl RuntimeError), s4))))
           | (_, s2) \<Rightarrow> (Some (Inl RuntimeError), s2)))"

section \<open>Versions\<close>

definition idle :: "('p, 'b) student_state \<Rightarrow> bool" where
  "idle s \<longleftrightarrow> active_sync_session s = None \<and> \<not> starting s"

definition finished_count :: "('p, 'b, 'o) event list \<Rightarrow> nat" where
  "finished_count evs = length (filter (\<lambda>ev. case ev of FinishAnswered sid (SyncFinished v) \<Rightarrow> True | _ \<Rightarrow> False) evs)"

text \<open>A receiver breaks, or a session is given up although its receiver has ended.\<close>

definition sync_fails :: "('p, 'b, 'o) event \<Rightarrow> bool" where
  "sync_fails ev = (case ev of ReceiverBroke e \<Rightarrow> True | Taken (Some e) \<Rightarrow> True | AbortAnswered sid (SyncAborted v) \<Rightarrow> True | _ \<Rightarrow> False)"

lemma finished_count_simps [simp, server_simps]:
  "finished_count [] = 0"
  "finished_count (evs @ [ev]) =
     finished_count evs + (case ev of FinishAnswered sid (SyncFinished v) \<Rightarrow> 1 | _ \<Rightarrow> 0)"
  by (auto simp: finished_count_def split: event.splits response.splits)

lemma receiver_takes_version [simp, server_simps]:
  "receiver_takes load_weights convert msg session s = (err, s') \<Longrightarrow>
   weight_version s' = weight_version s \<and> starting s' = starting s \<and>
   (\<exists>session'. active_sync_session s' = Some session' \<and> session_id session' = session_id session \<and>
      (err = None \<longrightarrow> (\<forall>e. receiver session' \<noteq> Broken e)))"
  by (auto simp: receiver_takes_def Let_def split: sum.splits prod.splits option.splits)

lemma server_step_version:
  "server_step load_weights convert s ev s' \<Longrightarrow>
   weight_version s' = weight_version s + (case ev of FinishAnswered sid (SyncFinished v) \<Rightarrow> 1 | _ \<Rightarrow> 0)"
  by (induction rule: server_step.induct)
     (auto simp: start_weight_sync_def start_weight_sync_reply_def abort_weight_sync_def finish_weight_sync_def
        dest: receiver_takes_version
        split: option.splits if_splits receiver_thread.splits)

text \<open>
  What the generations so far have seen: none ran under a later version than the current one, those under
  the current version ran on the current weights unless a session is open, and equal versions mean equal
  weights.
\<close>

definition generations_ok :: "('p, 'b, 'o) event list \<Rightarrow> ('p, 'b) student_state \<Rightarrow> bool" where
  "generations_ok evs s \<longleftrightarrow>
     (\<forall>eng seqs v. Generated eng (Inr (seqs, v)) \<in> set evs \<longrightarrow>
        v \<le> weight_version s \<and> (v = weight_version s \<longrightarrow> active_sync_session s = None \<longrightarrow> eng = rollout_engine s)) \<and>
     (\<forall>eng seqs v eng' seqs'. Generated eng (Inr (seqs, v)) \<in> set evs \<longrightarrow> Generated eng' (Inr (seqs', v)) \<in> set evs \<longrightarrow> eng = eng')"

definition receiver_sound :: "('p, 'b) student_state \<Rightarrow> bool" where
  "receiver_sound s \<longleftrightarrow> (\<forall>session e. active_sync_session s = Some session \<longrightarrow> receiver session \<noteq> Broken e)"

lemma receiver_sound_step:
  "server_step load_weights convert s ev s' \<Longrightarrow> receiver_sound s \<Longrightarrow> \<not> sync_fails ev \<Longrightarrow> receiver_sound s'"
  by (induction rule: server_step.induct)
     (auto simp: receiver_sound_def sync_fails_def start_weight_sync_def start_weight_sync_reply_def abort_weight_sync_def
        finish_weight_sync_def dest!: receiver_takes_version
        split: option.splits if_splits receiver_thread.splits)

text \<open>A step keeps the weights and the version, keeps a session open, or raises the version.\<close>

lemma server_step_weights:
  "server_step load_weights convert s ev s' \<Longrightarrow> receiver_sound s \<Longrightarrow> \<not> sync_fails ev \<Longrightarrow>
   active_sync_session s' = None \<Longrightarrow>
   rollout_engine s' = rollout_engine s \<and> active_sync_session s = None \<and> weight_version s' = weight_version s
   \<or> weight_version s' = Suc (weight_version s)"
  by (induction rule: server_step.induct)
     (auto simp: receiver_sound_def sync_fails_def start_weight_sync_def start_weight_sync_reply_def abort_weight_sync_def
        finish_weight_sync_def is_alive_def dest!: receiver_takes_version not_running
        split: option.splits if_splits receiver_thread.splits)

lemma generated_step:
  "server_step load_weights convert s (Generated eng (Inr (seqs, v))) s' \<Longrightarrow>
   eng = rollout_engine s \<and> v = weight_version s \<and> active_sync_session s = None \<and> s' = s"
  by (erule GeneratedE) (auto simp: handle_generate_def bind_res_def split: if_splits sum.splits)

lemma generations_ok_step:
  assumes ok: "generations_ok evs s" and step: "server_step load_weights convert s ev s'"
    and sound: "receiver_sound s" and clean: "\<not> sync_fails ev"
  shows "generations_ok (evs @ [ev]) s'"
proof (cases "\<exists>eng seqs v. ev = Generated eng (Inr (seqs, v))")
  case True
  then obtain eng seqs v where ev: "ev = Generated eng (Inr (seqs, v))" by blast
  have now: "eng = rollout_engine s" "v = weight_version s" "active_sync_session s = None" "s' = s"
    using generated_step[OF step[unfolded ev]] by simp_all
  have old: "e = eng" if "Generated e (Inr (q, v)) \<in> set evs" for e q
    using ok that now(1-3) unfolding generations_ok_def by metis
  have le: "w \<le> weight_version s" if "Generated e (Inr (q, w)) \<in> set evs" for e q w
    using ok that unfolding generations_ok_def by blast
  have pair: "e = e'" if "Generated e (Inr (q, w)) \<in> set evs" "Generated e' (Inr (q', w)) \<in> set evs" for e e' q q' w
    using ok that unfolding generations_ok_def by blast
  have mem: "Generated e (Inr (q, w)) \<in> set (evs @ [ev]) \<longleftrightarrow>
      Generated e (Inr (q, w)) \<in> set evs \<or> (e = eng \<and> q = seqs \<and> w = v)" for e q w
    by (auto simp: ev)
  show ?thesis unfolding generations_ok_def mem now(4)
  proof (intro conjI allI impI)
    fix e q w
    assume g: "Generated e (Inr (q, w)) \<in> set evs \<or> e = eng \<and> q = seqs \<and> w = v"
    show "w \<le> weight_version s" using g le now(2) by blast
    assume "w = weight_version s"
    then show "e = rollout_engine s" using g old now(1,2) by blast
  next
    fix e q w e' q'
    assume "Generated e (Inr (q, w)) \<in> set evs \<or> e = eng \<and> q = seqs \<and> w = v"
      and "Generated e' (Inr (q', w)) \<in> set evs \<or> e' = eng \<and> q' = seqs \<and> w = v"
    then show "e = e'" using old pair by blast
  qed
next
  case False
  then have same: "Generated eng (Inr (seqs, v)) \<in> set (evs @ [ev]) \<longleftrightarrow> Generated eng (Inr (seqs, v)) \<in> set evs" for eng seqs v
    by auto
  have le: "weight_version s \<le> weight_version s'" using server_step_version[OF step] by simp
  have keep: "eng = rollout_engine s'" if g: "Generated eng (Inr (seqs, v)) \<in> set evs" and v: "v = weight_version s'"
    and a: "active_sync_session s' = None" for eng seqs v
  proof -
    have "v \<le> weight_version s" using ok g unfolding generations_ok_def by blast
    with server_step_weights[OF step sound clean a] v
    have "rollout_engine s' = rollout_engine s" "active_sync_session s = None" "weight_version s' = weight_version s" by auto
    then show ?thesis using ok g v unfolding generations_ok_def by metis
  qed
  have old: "v \<le> weight_version s" if "Generated eng (Inr (seqs, v)) \<in> set evs" for eng seqs v
    using ok that unfolding generations_ok_def by blast
  have pair: "\<forall>eng seqs v eng' seqs'. Generated eng (Inr (seqs, v)) \<in> set evs \<longrightarrow>
      Generated eng' (Inr (seqs', v)) \<in> set evs \<longrightarrow> eng = eng'"
    using ok unfolding generations_ok_def by (elim conjE)
  show ?thesis unfolding generations_ok_def same
    by (intro conjI allI impI pair) (use old le keep in \<open>blast intro: order_trans\<close>)+
qed

lemma run_generations:
  assumes "server_run load_weights convert s0 evs s"
  shows "idle s0 \<longrightarrow> (\<forall>ev \<in> set evs. \<not> sync_fails ev) \<longrightarrow> generations_ok evs s \<and> receiver_sound s"
  using assms
proof (induction rule: server_run.induct)
  case run_start
  then show ?case by (simp add: generations_ok_def receiver_sound_def idle_def)
next
  case (run_step evs s ev s')
  show ?case
  proof (intro impI)
    assume i: "idle s0" and cl: "\<forall>ev' \<in> set (evs @ [ev]). \<not> sync_fails ev'"
    then have ok: "generations_ok evs s" "receiver_sound s" and c: "\<not> sync_fails ev"
      using run_step.IH by simp_all
    then show "generations_ok (evs @ [ev]) s' \<and> receiver_sound s'"
      using generations_ok_step[OF ok(1) run_step.hyps(2) ok(2) c] receiver_sound_step[OF run_step.hyps(2) ok(2) c] by blast
  qed
qed

lemma run_version:
  "server_run load_weights convert s0 evs s \<Longrightarrow> weight_version s = weight_version s0 + finished_count evs"
  by (induction rule: server_run.induct) (simp_all add: server_step_version)

section \<open>A receiver that nothing is sent to\<close>

definition stuck :: "('p, 'b) student_state \<Rightarrow> bool" where
  "stuck s \<longleftrightarrow> (\<exists>session. active_sync_session s = Some session \<and> receiver session = Receiving \<and> channel session = None) \<and> \<not> starting s"

definition from_receiver :: "('p, 'b, 'o) event \<Rightarrow> bool" where
  "from_receiver ev = (case ev of Sent m \<Rightarrow> True | ReceiverBroke e \<Rightarrow> True | _ \<Rightarrow> False)"

text \<open>Every answer to a request, a generation included, is an error.\<close>

definition refused :: "('p, 'b, 'o) event \<Rightarrow> bool" where
  "refused ev =
     (case ev of Generated eng r \<Rightarrow> r = Inl RuntimeError | StartAnswered r \<Rightarrow> r = Failure RuntimeError
      | AbortAnswered sid r \<Rightarrow> r = Failure RuntimeError \<or> r = Failure TimeoutError
      | FinishAnswered sid r \<Rightarrow> r = Failure RuntimeError \<or> r = Failure TimeoutError
      | _ \<Rightarrow> False)"

lemma stuck_step:
  "server_step load_weights convert s ev s' \<Longrightarrow> stuck s \<Longrightarrow> \<not> from_receiver ev \<Longrightarrow> s' = s \<and> refused ev"
  by (induction rule: server_step.induct)
     (auto simp: stuck_def from_receiver_def refused_def handle_generate_def start_weight_sync_def abort_weight_sync_def
        finish_weight_sync_def is_alive_def split: if_splits)

lemma stuck_run:
  assumes "server_run load_weights convert s evs s'" and "stuck s" and "\<forall>ev \<in> set evs. \<not> from_receiver ev"
  shows "s' = s \<and> (\<forall>ev \<in> set evs. refused ev)"
  using assms by (induction rule: server_run.induct) (auto dest: stuck_step)

section \<open>Delivering the messages\<close>

text \<open>
  What the client relies on of the engine: loading by name does not fail, and loading in two calls is
  loading at once.
\<close>

definition loads_by_name :: "('p \<Rightarrow> (str \<times> 'b tensor) list \<Rightarrow> 'p \<times> py_error option) \<Rightarrow> bool" where
  "loads_by_name load_weights \<longleftrightarrow>
     (\<forall>p ws. snd (load_weights p ws) = None) \<and> (\<forall>p. fst (load_weights p []) = p) \<and>
     (\<forall>p us ws. fst (load_weights (fst (load_weights p us)) ws) = fst (load_weights p (us @ ws)))"

lemma load_weights_into_model_params:
  assumes "loads_by_name load_weights" and "\<forall>name \<in> fst ` set ws. map_of (named_buffers eng) name = None"
  shows "load_weights_into_model load_weights convert ws eng = (eng\<lparr>parameters := fst (load_weights (parameters eng) ws)\<rparr>, None)"
proof -
  have f: "filter (\<lambda>(name, tensor). map_of (named_buffers eng) name = None) ws = ws"
    "filter (\<lambda>(name, tensor). map_of (named_buffers eng) name \<noteq> None) ws = []"
    using assms(2) by (auto simp: filter_id_conv filter_empty_conv)
  have lw: "load_weights (parameters eng) ws = (fst (load_weights (parameters eng) ws), None)"
    and none: "fst (load_weights (parameters eng) []) = parameters eng"
    using assms(1) by (auto simp: loads_by_name_def intro: prod_eqI)
  show ?thesis
  proof (cases "ws = []")
    case True
    then show ?thesis by (simp add: load_weights_into_model_def none)
  next
    case False
    then show ?thesis unfolding load_weights_into_model_def Let_def f
      by (subst lw) (simp del: fst_conv snd_conv)
  qed
qed

lemma receiver_takes_ok:
  assumes "loads_by_name load_weights" and "receive_bucket msg = Inr ws"
    and "\<forall>name \<in> fst ` set ws. map_of (named_buffers (rollout_engine s)) name = None"
  shows "receiver_takes load_weights convert msg session s =
    (None, s\<lparr>rollout_engine := rollout_engine s\<lparr>parameters := fst (load_weights (parameters (rollout_engine s)) ws)\<rparr>,
             active_sync_session := Some (session\<lparr>channel := None, receiver := (if is_last msg then Loaded else Receiving)\<rparr>)\<rparr>)"
  by (simp add: receiver_takes_def assms(2) load_weights_into_model_params[OF assms(1,3)])

text \<open>
  A weight whose name is one of the engine's buffers is copied into it, in the buffer's own type, when the shapes agree; the others are
  parameters.
\<close>

definition copied_buffers ::
  "('b tensor \<Rightarrow> 'b tensor \<Rightarrow> 'b tensor) \<Rightarrow> (str, 'b tensor) dict \<Rightarrow> (str \<times> 'b tensor) list \<Rightarrow> (str, 'b tensor) dict" where
  "copied_buffers convert bufs ws =
     foldl (\<lambda>d (name, w). case map_of d name of None \<Rightarrow> d | Some b \<Rightarrow> AList.update name (convert b w) d) bufs ws"

definition buffers_fit :: "(str, 'b tensor) dict \<Rightarrow> (str \<times> 'b tensor) list \<Rightarrow> bool" where
  "buffers_fit bufs ws \<longleftrightarrow> (\<forall>(name, w) \<in> set ws. \<forall>b. map_of bufs name = Some b \<longrightarrow> t_shape b = t_shape w)"

lemma copied_buffers_simps [simp]:
  "copied_buffers convert bufs [] = bufs"
  "copied_buffers convert bufs ((name, w) # ws) =
     copied_buffers convert (case map_of bufs name of None \<Rightarrow> bufs | Some b \<Rightarrow> AList.update name (convert b w) bufs) ws"
  "copied_buffers convert bufs (us @ ws) = copied_buffers convert (copied_buffers convert bufs us) ws"
  by (simp_all add: copied_buffers_def)

lemma copied_buffers_other: "name \<notin> fst ` set ws \<Longrightarrow> map_of (copied_buffers convert bufs ws) name = map_of bufs name"
  by (induction ws arbitrary: bufs) (auto split: option.splits)

lemma copied_buffers_keys: "map_of (copied_buffers convert bufs ws) name = None \<longleftrightarrow> map_of bufs name = None"
proof (induction ws arbitrary: bufs)
  case (Cons p ws)
  obtain n w where p: "p = (n, w)" by force
  show ?case unfolding p copied_buffers_simps Cons.IH by (simp split: option.split)
qed simp

lemma copied_buffers_at:
  "distinct (map fst ws) \<Longrightarrow> (name, w) \<in> set ws \<Longrightarrow> map_of bufs name = Some b \<Longrightarrow>
   map_of (copied_buffers convert bufs ws) name = Some (convert b w)"
proof (induction ws arbitrary: bufs)
  case (Cons p ws)
  obtain n v where p: "p = (n, v)" by force
  show ?case
  proof (cases "n = name")
    case True
    with Cons.prems p have "v = w" "name \<notin> fst ` set ws" by (force, simp)
    then show ?thesis using True Cons.prems(3) by (simp add: p copied_buffers_other)
  next
    case False
    with Cons.prems p show ?thesis by (auto intro!: Cons.IH split: option.split)
  qed
qed simp

lemma buffers_fit_rest:
  assumes "buffers_fit bufs (us @ ws)" and "distinct (map fst (us @ ws))"
  shows "buffers_fit (copied_buffers convert bufs us) ws"
  unfolding buffers_fit_def
proof (intro ballI allI impI, clarify)
  fix name w b assume m: "(name, w) \<in> set ws" "map_of (copied_buffers convert bufs us) name = Some b"
  then have "name \<notin> fst ` set us" using assms(2) by force
  then have "map_of bufs name = Some b" using m(2) by (simp add: copied_buffers_other)
  then show "t_shape b = t_shape w" using bspec[OF assms(1)[unfolded buffers_fit_def], of "(name, w)"] m(1) by simp
qed

lemma copy_buffers_ok:
  assumes "distinct (map fst us)" and "buffers_fit bufs us"
  shows "copy_buffers convert bufs us = (copied_buffers convert bufs us, None)"
  using assms
proof (induction us arbitrary: bufs)
  case (Cons p us)
  obtain n w where p: "p = (n, w)" by force
  have d: "distinct (map fst us)" using Cons.prems(1) by simp
  have fit: "buffers_fit (copied_buffers convert bufs [(n, w)]) us"
    by (rule buffers_fit_rest) (use Cons.prems in \<open>simp_all add: p\<close>)
  note rest = Cons.IH[OF d fit]
  show ?case
  proof (cases "map_of bufs n")
    case None
    then show ?thesis using rest by (simp add: p)
  next
    case (Some b)
    then have "t_shape b = t_shape w" using Cons.prems(2) by (simp add: buffers_fit_def p)
    then show ?thesis using rest Some by (simp add: p)
  qed
qed simp

lemma copied_buffers_filter:
  "copied_buffers convert bufs (filter (\<lambda>(name, w). map_of bufs name \<noteq> None) ws) = copied_buffers convert bufs ws"
proof -
  have "copied_buffers convert d (filter (\<lambda>(name, w). map_of bufs name \<noteq> None) ws) = copied_buffers convert d ws"
    if "\<forall>name. map_of d name = None \<longleftrightarrow> map_of bufs name = None" for d
    using that
  proof (induction ws arbitrary: d)
    case (Cons p ws)
    obtain n w where p: "p = (n, w)" by force
    show ?case
    proof (cases "map_of d n")
      case None
      moreover from this have "map_of bufs n = None" using Cons.prems by blast
      ultimately show ?thesis using Cons.IH[OF Cons.prems] by (simp add: p)
    next
      case (Some b)
      then have "\<forall>name. map_of (AList.update n (convert b w) d) name = None \<longleftrightarrow> map_of bufs name = None"
        by (metis (mono_tags, lifting) Cons.prems fun_upd_apply option.distinct(1) update_conv')
      moreover have "map_of bufs n \<noteq> None" using Some Cons.prems by (metis option.distinct(1))
      ultimately show ?thesis using Some Cons.IH by (auto simp: p)
    qed
  qed simp
  then show ?thesis by simp
qed

definition loaded_engine ::
  "('p \<Rightarrow> (str \<times> 'b tensor) list \<Rightarrow> 'p \<times> py_error option) \<Rightarrow> ('b tensor \<Rightarrow> 'b tensor \<Rightarrow> 'b tensor) \<Rightarrow>
   (str \<times> 'b tensor) list \<Rightarrow> ('p, 'b) engine \<Rightarrow> ('p, 'b) engine" where
  "loaded_engine load_weights convert ws eng =
     eng\<lparr>parameters := fst (load_weights (parameters eng) (filter (\<lambda>(name, w). map_of (named_buffers eng) name = None) ws)),
         named_buffers := copied_buffers convert (named_buffers eng) ws\<rparr>"

lemma load_weights_into_model_ok:
  assumes "loads_by_name load_weights" and "distinct (map fst ws)" and "buffers_fit (named_buffers eng) ws"
  shows "load_weights_into_model load_weights convert ws eng = (loaded_engine load_weights convert ws eng, None)"
proof -
  let ?us = "filter (\<lambda>(name, w). map_of (named_buffers eng) name = None) ws"
  let ?bs = "filter (\<lambda>(name, w). map_of (named_buffers eng) name \<noteq> None) ws"
  have "load_weights p us = (fst (load_weights p us), None)" and none: "fst (load_weights p []) = p" for p us
    using assms(1) by (auto simp: loads_by_name_def intro: prod_eqI)
  then have ps: "(if ?us = [] then (parameters eng, None) else load_weights (parameters eng) ?us) = (fst (load_weights (parameters eng) ?us), None)"
    by (metis (mono_tags, lifting))
  have "distinct (map fst ?bs)" "buffers_fit (named_buffers eng) ?bs"
    using assms(2,3) by (auto simp: distinct_map_filter buffers_fit_def)
  from copy_buffers_ok[OF this] show ?thesis
    unfolding load_weights_into_model_def Let_def ps copied_buffers_filter[of convert "named_buffers eng" ws, symmetric] loaded_engine_def by simp
qed

lemma loaded_engine_append:
  assumes "loads_by_name load_weights"
  shows "loaded_engine load_weights convert ws (loaded_engine load_weights convert us eng) = loaded_engine load_weights convert (us @ ws) eng"
  using assms by (simp add: loaded_engine_def copied_buffers_keys loads_by_name_def)

lemma loaded_engine_params:
  assumes "\<forall>name \<in> fst ` set ws. map_of (named_buffers eng) name = None"
  shows "loaded_engine load_weights convert ws eng = eng\<lparr>parameters := fst (load_weights (parameters eng) ws)\<rparr>"
proof -
  have "copied_buffers convert (named_buffers eng) ws = named_buffers eng"
    using assms by (induction ws) auto
  moreover have "filter (\<lambda>(name, w). map_of (named_buffers eng) name = None) ws = ws" using assms by (auto simp: filter_id_conv)
  ultimately show ?thesis by (simp add: loaded_engine_def)
qed

text \<open>The state after a session's messages have been loaded.\<close>

definition after_loading ::
  "('p \<Rightarrow> (str \<times> 'b tensor) list \<Rightarrow> 'p \<times> py_error option) \<Rightarrow> ('b tensor \<Rightarrow> 'b tensor \<Rightarrow> 'b tensor) \<Rightarrow> (str \<times> 'b tensor) list \<Rightarrow>
   'b session \<Rightarrow> ('p, 'b) student_state \<Rightarrow> ('p, 'b) student_state" where
  "after_loading load_weights convert ws session s =
     s\<lparr>rollout_engine := loaded_engine load_weights convert ws (rollout_engine s),
       active_sync_session := Some (session\<lparr>receiver := Loaded\<rparr>)\<rparr>"

lemma deliver_all_loads:
  assumes "loads_by_name load_weights"
    and "receive_weights msgs = Inr (buckets, True)" and "length buckets = length msgs"
    and "distinct (map fst (concat buckets))" and "buffers_fit (named_buffers (rollout_engine s)) (concat buckets)"
    and "active_sync_session s = Some session" and "receiver session = Receiving" and "channel session = None"
  shows "deliver_all load_weights convert msgs s = Some (after_loading load_weights convert (concat buckets) session s)"
  using assms(2-)
proof (induction msgs arbitrary: buckets s session)
  case Nil
  then show ?case by simp
next
  case (Cons msg msgs)
  obtain b where b: "receive_bucket msg = Inr b"
    using Cons.prems(1) by (auto simp: bind_res_Inr_iff)
  let ?s = "s\<lparr>active_sync_session := Some (session\<lparr>channel := Some msg\<rparr>)\<rparr>"
  obtain bs where bs: "concat buckets = b @ concat bs" "buckets = b # bs"
    using Cons.prems(1) b by (auto simp: bind_res_Inr_iff split: if_splits)
  have d: "distinct (map fst b)" and f: "buffers_fit (named_buffers (rollout_engine s)) b"
    using Cons.prems(3,4) by (auto simp: bs buffers_fit_def)
  have take: "receiver_takes load_weights convert msg (session\<lparr>channel := Some msg\<rparr>) ?s =
      (None, ?s\<lparr>rollout_engine := loaded_engine load_weights convert b (rollout_engine s),
             active_sync_session := Some (session\<lparr>channel := None, receiver := (if is_last msg then Loaded else Receiving)\<rparr>)\<rparr>)"
    by (simp add: receiver_takes_def b load_weights_into_model_ok[OF assms(1) d f])
  show ?case
  proof (cases "is_last msg")
    case True
    then have "bs = []" using Cons.prems(1) b bs by simp
    then have "msgs = []" using Cons.prems(2) bs by simp
    then show ?thesis using Cons.prems(5-7) True \<open>bs = []\<close> bs
      by (simp add: take is_alive_def after_loading_def)
  next
    case False
    have rest: "receive_weights msgs = Inr (bs, True)"
      using Cons.prems(1) b False bs by (auto simp: bind_res_Inr_iff)
    let ?s' = "?s\<lparr>rollout_engine := loaded_engine load_weights convert b (rollout_engine s),
        active_sync_session := Some (session\<lparr>channel := None, receiver := Receiving\<rparr>)\<rparr>"
    have "buffers_fit (named_buffers (loaded_engine load_weights convert b (rollout_engine s))) (concat bs)"
      using buffers_fit_rest[of _ b "concat bs"] Cons.prems(3,4) by (simp add: bs loaded_engine_def)
    then have "deliver_all load_weights convert msgs ?s' =
        Some (after_loading load_weights convert (concat bs) (session\<lparr>channel := None, receiver := Receiving\<rparr>) ?s')"
      using Cons.prems by (intro Cons.IH[OF rest]) (simp_all add: bs)
    then show ?thesis using Cons.prems(5-7) False
      by (simp add: take is_alive_def after_loading_def bs loaded_engine_append[OF assms(1)])
  qed
qed

section \<open>Runs\<close>

lemma run_one: "server_step load_weights convert s ev s' \<Longrightarrow> server_run load_weights convert s [ev] s'"
  using run_step[OF run_start] by (metis append_Nil)

lemma run_trans:
  assumes "server_run load_weights convert s1 evs2 s2" and "server_run load_weights convert s0 evs1 s1"
  shows "server_run load_weights convert s0 (evs1 @ evs2) s2"
  using assms(1)
proof (induction rule: server_run.induct)
  case run_start
  then show ?case using assms(2) by simp
next
  case (run_step evs s ev s')
  from server_run.run_step[OF run_step.IH run_step.hyps(2)] show ?case by simp
qed

lemma deliver_all_run:
  "deliver_all load_weights convert msgs s = Some s' \<Longrightarrow>
   \<exists>evs :: ('p, 'b, 'o) event list. server_run load_weights convert s evs s'"
proof (induction msgs arbitrary: s)
  case Nil
  then have "server_run load_weights convert s [] s'" using run_start by simp
  then show ?case by blast
next
  case (Cons msg msgs)
  obtain session where a: "active_sync_session s = Some session" "is_alive session" "channel session = None"
    using Cons.prems by (auto split: option.splits if_splits)
  let ?session = "session\<lparr>channel := Some msg\<rparr>"
  let ?s = "s\<lparr>active_sync_session := Some ?session\<rparr>"
  obtain s1 where take: "receiver_takes load_weights convert msg ?session ?s = (None, s1)"
    and rest: "deliver_all load_weights convert msgs s1 = Some s'"
    using Cons.prems a by (auto split: prod.splits option.splits)
  have send: "server_step load_weights convert s (Sent msg) ?s" using a by (intro Send) auto
  have "is_alive ?session" using a(2) by (simp add: is_alive_def)
  then have "server_step load_weights convert ?s (Taken None) s1" using take by (intro Take[where session = ?session]) auto
  then show ?case using Cons.IH[OF rest] run_trans[OF _ run_trans[OF run_one run_one[OF send]]] by blast
qed

lemma deliver_all_starting:
  "deliver_all load_weights convert msgs s = Some s' \<Longrightarrow> starting s' = starting s"
  by (induction msgs arbitrary: s) (auto dest!: receiver_takes_version split: option.splits if_splits prod.splits)

definition resolved_shm :: "bool option \<Rightarrow> ('p, 'b) student_state \<Rightarrow> bool" where
  "resolved_shm shm s = (case shm of None \<Rightarrow> default_use_shm s | Some b \<Rightarrow> b)"

definition opened :: "nat \<Rightarrow> bool option \<Rightarrow> ('p, 'b) student_state \<Rightarrow> ('p, 'b) student_state" where
  "opened uuid shm s = s\<lparr>active_sync_session :=
     Some \<lparr>session_id = uuid, session_use_shm = resolved_shm shm s, receiver = Receiving, channel = None\<rparr>\<rparr>"

lemma start_runs:
  assumes "idle s"
  shows "start_weight_sync uuid shm s = (None, opened uuid shm s\<lparr>starting := True\<rparr>)"
    and "start_weight_sync_reply (opened uuid shm s\<lparr>starting := True\<rparr>) =
      (SyncStarted uuid (resolved_shm shm s) (weight_version s), opened uuid shm s)"
    and "stuck (opened uuid shm s)"
    and "\<exists>evs :: ('p, 'b, 'o) event list. server_run load_weights convert s evs (opened uuid shm s)"
proof -
  have i: "active_sync_session s = None" "\<not> starting s" using assms(1) by (simp_all add: idle_def)
  show start: "start_weight_sync uuid shm s = (None, opened uuid shm s\<lparr>starting := True\<rparr>)"
    by (simp add: start_weight_sync_def i opened_def resolved_shm_def)
  show reply: "start_weight_sync_reply (opened uuid shm s\<lparr>starting := True\<rparr>) =
      (SyncStarted uuid (resolved_shm shm s) (weight_version s), opened uuid shm s)"
    using i(2) by (simp add: start_weight_sync_reply_def opened_def)
  show "stuck (opened uuid shm s)" using i(2) by (simp add: stuck_def opened_def)
  have "server_step load_weights convert (opened uuid shm s\<lparr>starting := True\<rparr>)
      (StartAnswered (SyncStarted uuid (resolved_shm shm s) (weight_version s))) (opened uuid shm s)"
    by (intro StartReply reply) simp
  then show "\<exists>evs :: ('p, 'b, 'o) event list. server_run load_weights convert s evs (opened uuid shm s)"
    using run_trans[OF run_one run_one[OF Start[OF i(2) start]]] by blast
qed

section \<open>A whole sync\<close>

lemma sync_loads_engine:
  assumes "idle s" and "loads_by_name load_weights"
    and "buffers_fit (named_buffers (rollout_engine s)) (prepared_weights sync_dtype (student_model_weight_items params))"
    and "length buffer = bucket_size" and "cast_sound sync_dtype"
    and "\<forall>w \<in> snd ` set params. tensor_ok w"
    and "aligned_weights (prepared_weights sync_dtype (student_model_weight_items params))"
    and "\<forall>w \<in> snd ` set params. estimated_ipc_nbytes sync_dtype w \<le> bucket_size"
  shows "sync_weight_items_ipc load_weights convert uuid use_shm bucket_size sync_dtype buffer
           (student_model_weight_items params) s =
    (Some (Inr (weight_version s + 1)),
     s\<lparr>rollout_engine := loaded_engine load_weights convert (prepared_weights sync_dtype (student_model_weight_items params)) (rollout_engine s),
       weight_version := weight_version s + 1\<rparr>)"
proof -
  define shm where "shm = (case use_shm of None \<Rightarrow> default_use_shm s | Some b \<Rightarrow> b)"
  define session :: "'b session" where
    "session = \<lparr>session_id = uuid, session_use_shm = shm, receiver = Receiving, channel = None\<rparr>"
  define s2 where "s2 = s\<lparr>active_sync_session := Some session\<rparr>"
  have i: "active_sync_session s = None" "\<not> starting s" using assms(1) by (simp_all add: idle_def)
  have start: "start_weight_sync uuid use_shm s = (None, s2\<lparr>starting := True\<rparr>)"
    by (simp add: start_weight_sync_def i session_def shm_def s2_def)
  have reply: "start_weight_sync_reply (s2\<lparr>starting := True\<rparr>) = (SyncStarted uuid shm (weight_version s), s2)"
    using i(2) by (simp add: start_weight_sync_reply_def s2_def session_def)
  have fits: "shm \<longrightarrow> (\<forall>w \<in> snd ` set params. estimated_ipc_nbytes sync_dtype w \<le> bucket_size)"
    using assms(8) by (rule impI)
  obtain msgs buckets where m:
    "send_weight_items_ipc shm bucket_size sync_dtype buffer (student_model_weight_items params) = Inr msgs"
    "receive_weights msgs = Inr (buckets, True)"
    "concat buckets = prepared_weights sync_dtype (student_model_weight_items params)"
    "length buckets = length msgs"
    using synced_weights_sent[OF assms(4-7) fits] by (elim exE conjE)
  have names: "distinct (map fst (concat buckets))" unfolding m(3) by (simp add: student_model_weight_items_distinct)
  have "deliver_all load_weights convert msgs s2 = Some (after_loading load_weights convert (concat buckets) session s2)"
    by (rule deliver_all_loads[OF assms(2) m(2,4) names]) (use assms(3) in \<open>simp_all add: m(3) s2_def session_def\<close>)
  moreover have "finish_weight_sync uuid (after_loading load_weights convert (concat buckets) session s2) =
      (SyncFinished (weight_version s + 1),
       s\<lparr>rollout_engine := loaded_engine load_weights convert (concat buckets) (rollout_engine s), weight_version := weight_version s + 1\<rparr>)"
    using i(1) by (simp add: finish_weight_sync_def after_loading_def is_alive_def s2_def session_def)
  ultimately show ?thesis
    by (simp add: sync_weight_items_ipc_def start reply m(1) m(3))
qed

text \<open>Without buffers among the weights only parameters change.\<close>

lemma sync_loads_server:
  assumes "idle s" and "loads_by_name load_weights"
    and "\<forall>name \<in> fst ` set (student_model_weight_items params). map_of (named_buffers (rollout_engine s)) name = None"
    and "length buffer = bucket_size" and "cast_sound sync_dtype"
    and "\<forall>w \<in> snd ` set params. tensor_ok w"
    and "aligned_weights (prepared_weights sync_dtype (student_model_weight_items params))"
    and "\<forall>w \<in> snd ` set params. estimated_ipc_nbytes sync_dtype w \<le> bucket_size"
  shows "sync_weight_items_ipc load_weights convert uuid use_shm bucket_size sync_dtype buffer
           (student_model_weight_items params) s =
    (Some (Inr (weight_version s + 1)),
     s\<lparr>rollout_engine := rollout_engine s
          \<lparr>parameters := fst (load_weights (parameters (rollout_engine s))
                               (prepared_weights sync_dtype (student_model_weight_items params)))\<rparr>,
       weight_version := weight_version s + 1\<rparr>)"
proof -
  let ?ws = "prepared_weights sync_dtype (student_model_weight_items params)"
  have "fst ` set ?ws = fst ` set (student_model_weight_items params)" by (metis prepared_weights_names list.set_map)
  then have none: "\<forall>name \<in> fst ` set ?ws. map_of (named_buffers (rollout_engine s)) name = None" using assms(3) by simp
  then have "buffers_fit (named_buffers (rollout_engine s)) ?ws" by (force simp: buffers_fit_def)
  from sync_loads_engine[OF assms(1,2) this assms(4-8)] show ?thesis by (simp add: loaded_engine_params[OF none])
qed

section \<open>An engine and a server to run the properties on\<close>

definition dict_load ::
  "(str \<rightharpoonup> 'b tensor) \<Rightarrow> (str \<times> 'b tensor) list \<Rightarrow> (str \<rightharpoonup> 'b tensor) \<times> py_error option" where
  "dict_load p ws = (p ++ map_of (rev ws), None)"

definition example_server :: "(str \<rightharpoonup> nat tensor, nat) student_state" where
  "example_server =
     \<lparr>rollout_engine = \<lparr>parameters = Map.empty, named_buffers = []\<rparr>, default_use_shm = True,
      weight_version = 0, active_sync_session = None, starting = False\<rparr>"

lemma dict_load_by_name [simp, server_simps]: "loads_by_name dict_load"
  by (simp add: loads_by_name_def dict_load_def)

lemma example_server_idle [simp, server_simps]: "idle example_server"
  by (simp add: idle_def example_server_def)

definition example_message :: "bool \<Rightarrow> nat bucket_message" where
  "example_message final =
     \<lparr>bucket_meta = [(''w'', \<lparr>m_header = \<lparr>t_shape = [1], t_dtype = ''u8'', t_itemsize = 1, t_floating = False, t_bytes = []\<rparr>,
                               m_offset = 0, m_handle = None\<rparr>)],
      is_last = final, snapshot = [7]\<rparr>"

lemma example_message_bucket:
  "receive_bucket (example_message final) =
     Inr [(''w'', \<lparr>t_shape = [1], t_dtype = ''u8'', t_itemsize = 1, t_floating = False, t_bytes = [7]\<rparr>)]"
  by (simp add: receive_bucket_def example_message_def view_tensor_def)

lemma example_load:
  "load_weights_into_model dict_load (\<lambda>a b. b) [(''w'', t)] (rollout_engine example_server) =
     (\<lparr>parameters = [''w'' \<mapsto> t], named_buffers = []\<rparr>, None)"
  by (simp add: load_weights_into_model_def dict_load_def example_server_def)

section \<open>Properties\<close>

text \<open>
  C19: the version counts the completed syncs, and as long as no receiver breaks and no session is aborted, the version reported
  with a generation identifies the weights it ran on: two generations reported under the same version ran on the same
  weights, however requests, syncs and the receiver thread interleave.
\<close>

theorem version_identifies_weights:
  assumes "idle s0" and "server_run load_weights convert s0 evs s" and "\<forall>ev \<in> set evs. \<not> sync_fails ev"
  shows "weight_version s = weight_version s0 + finished_count evs \<and>
    (\<forall>eng seqs v eng' seqs'. Generated eng (Inr (seqs, v)) \<in> set evs \<longrightarrow>
       Generated eng' (Inr (seqs', v)) \<in> set evs \<longrightarrow> eng = eng')"
proof
  show "weight_version s = weight_version s0 + finished_count evs" by (rule run_version[OF assms(2)])
  have "generations_ok evs s" using run_generations[OF assms(2)] assms(1,3) by blast
  then show "\<forall>eng seqs v eng' seqs'. Generated eng (Inr (seqs, v)) \<in> set evs \<longrightarrow>
       Generated eng' (Inr (seqs', v)) \<in> set evs \<longrightarrow> eng = eng'"
    unfolding generations_ok_def by (rule conjunct2)
qed

text \<open>A generation, a whole sync, a generation.\<close>

theorem version_identifies_weights_witness:
  "\<exists>(evs :: ((str \<rightharpoonup> nat tensor), nat, unit) event list) s.
     server_run dict_load (\<lambda>a b. b) example_server evs s \<and> weight_version s = 1 \<and>
     (\<exists>eng eng' r r'. Generated eng (Inr (r, 0)) \<in> set evs \<and> Generated eng' (Inr (r', 1)) \<in> set evs \<and> eng \<noteq> eng')"
proof -
  let ?gen = "\<lambda>eng :: (str \<rightharpoonup> nat tensor, nat) engine. Inr () :: unit result"
  let ?t = "\<lparr>t_shape = [1], t_dtype = ''u8'', t_itemsize = 1, t_floating = False, t_bytes = [7 :: nat]\<rparr>"
  let ?session = "\<lparr>session_id = 5, session_use_shm = True, receiver = Receiving, channel = None\<rparr>"
  let ?s0 = example_server
  let ?s1 = "?s0\<lparr>active_sync_session := Some ?session, starting := True\<rparr>"
  let ?s2 = "?s0\<lparr>active_sync_session := Some ?session\<rparr>"
  let ?s3 = "?s0\<lparr>active_sync_session := Some (?session\<lparr>channel := Some (example_message True)\<rparr>)\<rparr>"
  let ?eng = "\<lparr>parameters = [''w'' \<mapsto> ?t], named_buffers = []\<rparr>"
  let ?s4 = "?s0\<lparr>rollout_engine := ?eng, active_sync_session := Some (?session\<lparr>receiver := Loaded\<rparr>)\<rparr>"
  let ?s5 = "?s0\<lparr>rollout_engine := ?eng, weight_version := 1\<rparr>"
  let ?step = "server_step dict_load (\<lambda>a b. b)"
  have idle0: "\<not> starting ?s0" "active_sync_session ?s0 = None" "weight_version ?s0 = 0" "default_use_shm ?s0"
    by (simp_all add: example_server_def)
  have g0: "?step ?s0 (Generated (rollout_engine ?s0) (Inr ((), 0))) ?s0"
    using Generate[OF idle0(1), of dict_load "\<lambda>a b. b" ?gen] by (simp add: handle_generate_def idle0)
  have a1: "?step ?s0 (StartRequested 5) ?s1"
    by (rule Start[where shm = None]) (simp_all add: idle0 start_weight_sync_def)
  have a2: "?step ?s1 (StartAnswered (SyncStarted 5 True 0)) ?s2"
    by (rule StartReply) (simp_all add: idle0 start_weight_sync_reply_def)
  have a3: "?step ?s2 (Sent (example_message True)) ?s3"
    using Send[of ?s2 ?session dict_load "\<lambda>a b. b" "example_message True"] by simp
  have "receiver_takes dict_load (\<lambda>a b. b) (example_message True) (?session\<lparr>channel := Some (example_message True)\<rparr>) ?s3 = (None, ?s4)"
    by (simp add: receiver_takes_def example_message_bucket example_load) (simp add: example_message_def)
  then have a4: "?step ?s3 (Taken None) ?s4"
    by (intro Take[where session = "?session\<lparr>channel := Some (example_message True)\<rparr>"]) (simp_all add: is_alive_def)
  have a5: "?step ?s4 (FinishAnswered 5 (SyncFinished 1)) ?s5"
    by (rule Finish) (simp_all add: idle0 finish_weight_sync_def is_alive_def)
  have g5: "?step ?s5 (Generated ?eng (Inr ((), 1))) ?s5"
    using Generate[of ?s5 dict_load "\<lambda>a b. b" ?gen] by (simp add: handle_generate_def idle0)
  note run = run_step[OF run_step[OF run_step[OF run_step[OF run_step[OF run_step[OF run_one[OF g0] a1] a2] a3] a4] a5] g5, unfolded append_Cons append_Nil]
  have clean: "\<forall>ev \<in> set [Generated (rollout_engine ?s0) (Inr ((), 0)), StartRequested 5, StartAnswered (SyncStarted 5 True 0),
      Sent (example_message True), Taken None, FinishAnswered 5 (SyncFinished 1), Generated ?eng (Inr ((), 1))]. \<not> sync_fails ev"
    by (simp add: sync_fails_def)
  have "weight_version ?s5 = 1" by simp
  moreover have "rollout_engine ?s0 \<noteq> ?eng" by (simp add: example_server_def fun_eq_iff)
  ultimately show ?thesis
    using run version_identifies_weights[OF example_server_idle run clean]
    by (intro exI conjI) (assumption | simp)+
qed



text \<open>
  The client's sync is one of the server's runs: whatever it returns, also when it raises or
  hangs, the state it leaves is reached by requests, messages and steps of the receiver.
\<close>

theorem sync_is_a_run:
  fixes s :: "('p, 'b) student_state"
  assumes "idle s"
    and "sync_weight_items_ipc load_weights convert uuid use_shm bucket_size sync_dtype buffer weights s = (r, s')"
  shows "\<exists>evs :: ('p, 'b, 'o) event list. server_run load_weights convert s evs s'"
proof -
  define shm where "shm = resolved_shm use_shm s"
  define s1 where "s1 = opened uuid use_shm s"
  note st = start_runs[OF assms(1), where uuid = uuid and shm = use_shm, folded shm_def s1_def]
  obtain evs :: "('p, 'b, 'o) event list" where evs: "server_run load_weights convert s evs s1" using st(4) by blast
  have ns: "\<not> starting s1" using st(3) by (simp add: stuck_def)
  show ?thesis
  proof (cases "send_weight_items_ipc shm bucket_size sync_dtype buffer weights")
    case (Inl e)
    obtain q where "abort_weight_sync uuid s1 = (q, s')"
      using assms(2) by (auto simp: sync_weight_items_ipc_def st(1,2) Inl split: prod.splits)
    from run_trans[OF run_one[OF Abort[OF ns this]] evs] show ?thesis by blast
  next
    case (Inr msgs)
    show ?thesis
    proof (cases "deliver_all load_weights convert msgs s1")
      case None
      then have "s' = s1" using assms(2) by (simp add: sync_weight_items_ipc_def st(1,2) Inr)
      then show ?thesis using evs by blast
    next
      case (Some s3)
      obtain evs' :: "('p, 'b, 'o) event list" where r3: "server_run load_weights convert s (evs @ evs') s3"
        using deliver_all_run[OF Some] run_trans[OF _ evs] by blast
      obtain q where fin: "finish_weight_sync uuid s3 = (q, s')"
        using assms(2) by (auto simp: sync_weight_items_ipc_def st(1,2) Inr Some split: prod.splits response.splits)
      have "\<not> starting s3" using deliver_all_starting[OF Some] ns by simp
      from run_trans[OF run_one[OF Finish[OF this fin]] r3] show ?thesis by blast
    qed
  qed
qed

theorem sync_is_a_run_witness:
  "\<exists>(evs :: (str \<rightharpoonup> nat tensor, nat, unit) event list) r s'.
     sync_weight_items_ipc dict_load (\<lambda>a b. b) 5 None 8 None (replicate 8 0) (student_model_weight_items example_params) example_server = (r, s') \<and>
     server_run dict_load (\<lambda>a b. b) example_server evs s'"
proof -
  obtain r s' where "sync_weight_items_ipc dict_load (\<lambda>a b. b) 5 None 8 None (replicate 8 0)
      (student_model_weight_items example_params) example_server = (r, s')" by (rule prod.exhaust)
  with sync_is_a_run[OF example_server_idle this, where ?'o = unit] show ?thesis by blast
qed

text \<open>
  An error before the first message leaves the server unusable: the receiver thread of the session waits for a
  sender that never comes, so the client's abort times out, the client raises, and from then on every request that takes the
  lock, a generation included, is answered with an error.
\<close>

theorem sender_error_wedges_server:
  fixes s :: "('p, 'b) student_state"
  assumes "idle s"
    and "send_weight_items_ipc (resolved_shm use_shm s) bucket_size sync_dtype buffer weights = Inl e"
  shows "\<exists>s'. sync_weight_items_ipc load_weights convert uuid use_shm bucket_size sync_dtype buffer weights s = (Some (Inl RuntimeError), s') \<and>
    (\<forall>(evs :: ('p, 'b, 'o) event list) s''. server_run load_weights convert s' evs s'' \<longrightarrow>
       (\<forall>ev \<in> set evs. \<not> from_receiver ev) \<longrightarrow> (\<forall>ev \<in> set evs. refused ev))"
proof -
  note st = start_runs[OF assms(1), where uuid = uuid and shm = use_shm]
  let ?s = "opened uuid use_shm s"
  have "abort_weight_sync uuid ?s = (Failure TimeoutError, ?s)"
    by (simp add: opened_def abort_weight_sync_def is_alive_def)
  then have "sync_weight_items_ipc load_weights convert uuid use_shm bucket_size sync_dtype buffer weights s = (Some (Inl RuntimeError), ?s)"
    by (simp add: sync_weight_items_ipc_def st(1,2) assms(2) checked_response_def)
  then show ?thesis using stuck_run[OF _ st(3)] by blast
qed

text \<open>A bucket of two bytes is too small for the largest weight.\<close>

theorem sender_error_wedges_server_witness:
  "fst (sync_weight_items_ipc dict_load (\<lambda>a b. b) 5 None 2 None [0, 0] (student_model_weight_items example_params) example_server)
     = Some (Inl RuntimeError)"
proof -
  have "\<exists>w \<in> snd ` set (student_model_weight_items example_params). 2 < estimated_ipc_nbytes None w"
    by (simp add: example_items estimated_ipc_nbytes_def)
  then have "send_weight_items_ipc (resolved_shm None example_server) 2 None [0, 0] (student_model_weight_items example_params) = Inl ValueError"
    by (simp add: send_weight_items_ipc_outcome resolved_shm_def example_server_def)
  from sender_error_wedges_server[OF example_server_idle this, where ?'o = unit, of dict_load "\<lambda>a b. b" 5]
  show ?thesis by auto
qed

text \<open>
  A sync that fails half way is not undone: after a bucket was loaded and the receiver broke, the finish answers with an error and
  closes the session, and the engine serves the partly loaded weights under the version of the old ones.
\<close>

theorem failed_sync_serves_mixed_weights:
  fixes s :: "('p, 'b) student_state"
  assumes "idle s" and "loads_by_name load_weights"
    and "receive_bucket msg = Inr ws" and "\<not> is_last msg"
    and "\<forall>name \<in> fst ` set ws. map_of (named_buffers (rollout_engine s)) name = None"
  shows "\<exists>(evs :: ('p, 'b, 'o) event list) s'. server_run load_weights convert s evs s' \<and> idle s' \<and>
    FinishAnswered uuid (Failure RuntimeError) \<in> set evs \<and>
    parameters (rollout_engine s') = fst (load_weights (parameters (rollout_engine s)) ws) \<and>
    weight_version s' = weight_version s"
proof -
  let ?session = "\<lparr>session_id = uuid, session_use_shm = default_use_shm s, receiver = Receiving, channel = None\<rparr>"
  let ?eng = "rollout_engine s\<lparr>parameters := fst (load_weights (parameters (rollout_engine s)) ws)\<rparr>"
  let ?s1 = "s\<lparr>active_sync_session := Some ?session\<rparr>"
  let ?s2 = "?s1\<lparr>active_sync_session := Some (?session\<lparr>channel := Some msg\<rparr>)\<rparr>"
  let ?s3 = "?s2\<lparr>rollout_engine := ?eng, active_sync_session := Some ?session\<rparr>"
  let ?s4 = "?s3\<lparr>active_sync_session := Some (?session\<lparr>receiver := Broken RuntimeError\<rparr>)\<rparr>"
  let ?s5 = "?s4\<lparr>active_sync_session := None\<rparr>"
  have i: "\<not> starting s" using assms(1) by (simp add: idle_def)
  obtain evs :: "('p, 'b, 'o) event list" where r1: "server_run load_weights convert s evs ?s1"
    using start_runs(4)[OF assms(1), where uuid = uuid and shm = None] by (auto simp: opened_def resolved_shm_def)
  have "server_step load_weights convert ?s1 (Sent msg) ?s2" by (rule Send) simp_all
  note r2 = run_step[OF r1 this]
  have "receiver_takes load_weights convert msg (?session\<lparr>channel := Some msg\<rparr>) ?s2 = (None, ?s3)"
    using receiver_takes_ok[OF assms(2,3), of ?s2 convert "?session\<lparr>channel := Some msg\<rparr>"] assms(4,5) by simp
  then have "server_step load_weights convert ?s2 (Taken None) ?s3"
    by (intro Take[where session = "?session\<lparr>channel := Some msg\<rparr>"]) (simp_all add: is_alive_def)
  note r3 = run_step[OF r2 this]
  have "server_step load_weights convert ?s3 (ReceiverBroke RuntimeError) ?s4"
    by (rule Break) (simp_all add: is_alive_def)
  note r4 = run_step[OF r3 this]
  have "server_step load_weights convert ?s4 (FinishAnswered uuid (Failure RuntimeError)) ?s5"
    by (rule Finish) (simp_all add: i finish_weight_sync_def is_alive_def)
  note r5 = run_step[OF r4 this]
  have "idle ?s5" "parameters (rollout_engine ?s5) = fst (load_weights (parameters (rollout_engine s)) ws)"
    "weight_version ?s5 = weight_version s"
    using i by (simp_all add: idle_def)
  with r5 show ?thesis by (intro exI conjI) (assumption | simp)+
qed

theorem failed_sync_serves_mixed_weights_witness:
  "\<exists>(evs :: (str \<rightharpoonup> nat tensor, nat, unit) event list) s'. server_run dict_load (\<lambda>a b. b) example_server evs s' \<and>
    idle s' \<and> weight_version s' = weight_version example_server \<and>
    parameters (rollout_engine s') \<noteq> parameters (rollout_engine example_server)"
proof -
  let ?t = "\<lparr>t_shape = [1], t_dtype = ''u8'', t_itemsize = 1, t_floating = False, t_bytes = [7 :: nat]\<rparr>"
  have "\<forall>name \<in> fst ` set [(''w'', ?t)]. map_of (named_buffers (rollout_engine example_server)) name = None"
    by (simp add: example_server_def)
  moreover have "\<not> is_last (example_message False)" by (simp add: example_message_def)
  ultimately obtain evs :: "(str \<rightharpoonup> nat tensor, nat, unit) event list" and s' where r:
    "server_run dict_load (\<lambda>a b. b) example_server evs s'" "idle s'" "weight_version s' = weight_version example_server"
    "parameters (rollout_engine s') = fst (dict_load (parameters (rollout_engine example_server)) [(''w'', ?t)])"
    using failed_sync_serves_mixed_weights[OF example_server_idle dict_load_by_name example_message_bucket,
        where ?'o = unit, of False "\<lambda>a b. b" 5] by blast
  have "parameters (rollout_engine s') \<noteq> parameters (rollout_engine example_server)"
    unfolding r(4) by (simp add: dict_load_def example_server_def fun_eq_iff)
  with r show ?thesis by blast
qed

end
