(* ===== verification/OnPolicy.thy ===== *)
theory OnPolicy
  imports StudentServer
begin

text \<open>
  The training loop around the rollout server: \<open>on_train_batch_end\<close> and \<open>_sync_remote_student_rollout\<close> of
  \<open>src/CLightMLLM_new/src/method/opd.py\<close> on rank 0.  What the loop needs of a weight synchronisation is the locale
  \<open>weight_sync\<close>; the student server's client provides it.
\<close>

section \<open>The loop\<close>

record ('w, 's) opd_state =
  model_weights :: 'w
  global_step :: nat
  last_sync_step :: int
  rollout_server :: 's

text \<open>\<open>sync\<close> is \<open>sync_weight_items_ipc\<close>; its exception ends the run.\<close>

definition on_train_batch_end ::
  "('w \<Rightarrow> 's \<Rightarrow> 's result) \<Rightarrow> bool \<Rightarrow> ('w, 's) opd_state \<Rightarrow> ('w, 's) opd_state result" where
  "on_train_batch_end sync sync_after_optimizer_step st =
     (if \<not> sync_after_optimizer_step then Inr st
      else if int (global_step st) \<le> last_sync_step st then Inr st
      else bind_res (sync (model_weights st) (rollout_server st)) (\<lambda>s.
             Inr (st\<lparr>rollout_server := s, last_sync_step := int (global_step st)\<rparr>)))"

text \<open>
  One batch of the trainer: \<open>Some w\<close> is an optimizer step to the weights \<open>w\<close>, \<open>None\<close> a batch whose gradient is only
  accumulated.
\<close>

definition train_batch ::
  "('w \<Rightarrow> 's \<Rightarrow> 's result) \<Rightarrow> bool \<Rightarrow> ('w, 's) opd_state \<Rightarrow> 'w option \<Rightarrow> ('w, 's) opd_state result" where
  "train_batch sync enabled st upd =
     on_train_batch_end sync enabled
       (case upd of None \<Rightarrow> st | Some w \<Rightarrow> st\<lparr>model_weights := w, global_step := Suc (global_step st)\<rparr>)"

text \<open>The states at the start of the batches, where the rollouts are generated, and the last one.\<close>

fun train_loop ::
  "('w \<Rightarrow> 's \<Rightarrow> 's result) \<Rightarrow> bool \<Rightarrow> ('w, 's) opd_state \<Rightarrow> 'w option list \<Rightarrow> ('w, 's) opd_state list result" where
  "train_loop sync enabled st [] = Inr [st]"
| "train_loop sync enabled st (u # us) =
     bind_res (train_batch sync enabled st u) (\<lambda>st'. bind_res (train_loop sync enabled st' us) (\<lambda>sts. Inr (st # sts)))"

definition opd_start :: "'w \<Rightarrow> nat \<Rightarrow> 's \<Rightarrow> ('w, 's) opd_state" where
  "opd_start w step s = \<lparr>model_weights = w, global_step = step, last_sync_step = -1, rollout_server = s\<rparr>"

section \<open>What the loop needs of a synchronisation\<close>

locale weight_sync =
  fixes sync :: "'w \<Rightarrow> 's \<Rightarrow> 's result"
    and ready :: "'s \<Rightarrow> bool"
    and valid :: "'w \<Rightarrow> bool"
    and holds :: "'s \<Rightarrow> 'w \<Rightarrow> bool"
  assumes sync_ok: "ready s \<Longrightarrow> valid w \<Longrightarrow> \<exists>s'. sync w s = Inr s' \<and> ready s' \<and> holds s' w"
begin

definition synced :: "('w, 's) opd_state \<Rightarrow> bool" where
  "synced st \<longleftrightarrow> last_sync_step st = int (global_step st) \<and> holds (rollout_server st) (model_weights st)"

definition loop_inv :: "('w, 's) opd_state \<Rightarrow> bool" where
  "loop_inv st \<longleftrightarrow> ready (rollout_server st) \<and> valid (model_weights st) \<and> (synced st \<or> last_sync_step st < int (global_step st))"

lemma train_batch_synced:
  assumes "loop_inv st" and "\<forall>w. upd = Some w \<longrightarrow> valid w"
  shows "\<exists>st'. train_batch sync True st upd = Inr st' \<and> loop_inv st' \<and> synced st'"
proof (cases upd)
  case None
  show ?thesis
  proof (cases "int (global_step st) \<le> last_sync_step st")
    case True
    with assms(1) None show ?thesis by (auto simp: train_batch_def on_train_batch_end_def loop_inv_def)
  next
    case False
    obtain s' where "sync (model_weights st) (rollout_server st) = Inr s'" "ready s'" "holds s' (model_weights st)"
      using sync_ok assms(1) unfolding loop_inv_def by blast
    with False None assms(1) show ?thesis
      by (simp add: train_batch_def on_train_batch_end_def loop_inv_def synced_def)
  qed
next
  case (Some w)
  obtain s' where "sync w (rollout_server st) = Inr s'" "ready s'" "holds s' w"
    using sync_ok assms Some unfolding loop_inv_def by blast
  moreover have "\<not> int (Suc (global_step st)) \<le> last_sync_step st"
    using assms(1) by (auto simp: loop_inv_def synced_def)
  ultimately show ?thesis using Some assms by (simp add: train_batch_def on_train_batch_end_def loop_inv_def synced_def)
qed

lemma train_loop_synced:
  assumes "loop_inv st" and "\<forall>w. Some w \<in> set upds \<longrightarrow> valid w"
  shows "\<exists>sts. train_loop sync True st upds = Inr (st # sts) \<and> length sts = length upds \<and> (\<forall>st' \<in> set sts. synced st')"
  using assms
proof (induction upds arbitrary: st)
  case Nil
  then show ?case by simp
next
  case (Cons u us)
  obtain st1 where one: "train_batch sync True st u = Inr st1" "loop_inv st1" "synced st1"
    using train_batch_synced[OF Cons.prems(1), of u] Cons.prems(2) by auto
  obtain sts where "train_loop sync True st1 us = Inr (st1 # sts)" "length sts = length us" "\<forall>st' \<in> set sts. synced st'"
    using Cons.IH[OF one(2)] Cons.prems(2) by auto
  with one show ?case by simp
qed

lemma on_policy_from_start:
  assumes "ready s" and "valid w" and "\<forall>w'. Some w' \<in> set upds \<longrightarrow> valid w'"
  shows "\<exists>sts. train_loop sync True (opd_start w step s) upds = Inr (opd_start w step s # sts) \<and> length sts = length upds \<and>
    (\<forall>st \<in> set sts. holds (rollout_server st) (model_weights st))"
proof -
  have "loop_inv (opd_start w step s)" using assms(1,2) by (simp add: loop_inv_def opd_start_def)
  from train_loop_synced[OF this assms(3)] show ?thesis by (auto simp: synced_def)
qed

end

section \<open>The student server provides it\<close>

text \<open>
  An engine whose parameters are read by name: a load replaces the named ones and keeps the rest.  The client's fixed
  settings come with it.
\<close>

locale student_engine =
  fixes load_weights :: "'p \<Rightarrow> (str \<times> 'b tensor) list \<Rightarrow> 'p \<times> py_error option"
    and reads :: "'p \<Rightarrow> str \<Rightarrow> 'b tensor option"
    and convert :: "'b tensor \<Rightarrow> 'b tensor \<Rightarrow> 'b tensor"
    and use_shm :: "bool option"
    and buffer :: "'b list"
    and sync_dtype :: "(nat \<times> ('b tensor \<Rightarrow> 'b tensor)) option"
    and shapes :: "(str, nat list) dict"
  assumes by_name: "loads_by_name load_weights"
    and reads_load: "distinct (map fst ws) \<Longrightarrow>
      reads (fst (load_weights p ws)) k = (case map_of ws k of Some t \<Rightarrow> Some t | None \<Rightarrow> reads p k)"
    and convert_shape: "t_shape b = t_shape w \<Longrightarrow> t_shape (convert b w) = t_shape b"
    and cast: "cast_sound sync_dtype"

text \<open>The client's sync as the loop uses it: a hang or an exception is an error.\<close>

definition client_sync ::
  "('p \<Rightarrow> (str \<times> 'b tensor) list \<Rightarrow> 'p \<times> py_error option) \<Rightarrow> ('b tensor \<Rightarrow> 'b tensor \<Rightarrow> 'b tensor) \<Rightarrow> bool option \<Rightarrow>
   'b list \<Rightarrow> (nat \<times> ('b tensor \<Rightarrow> 'b tensor)) option \<Rightarrow> (str \<times> 'b tensor) list \<Rightarrow> ('p, 'b) student_state \<Rightarrow> ('p, 'b) student_state result" where
  "client_sync load_weights convert use_shm buffer sync_dtype params s =
     (case sync_weight_items_ipc load_weights convert (weight_version s) use_shm (length buffer) sync_dtype buffer
             (student_model_weight_items params) s of
        (Some (Inr v), s') \<Rightarrow> Inr s'
      | _ \<Rightarrow> Inl RuntimeError)"

text \<open>The buffers that the engine has registered, with their shapes; a weight of one of their names must have its shape.\<close>

definition buffer_shapes :: "(str, 'b tensor) dict \<Rightarrow> (str, nat list) dict" where
  "buffer_shapes bufs = map (\<lambda>(name, b). (name, t_shape b)) bufs"

definition server_ready :: "(str, nat list) dict \<Rightarrow> ('p, 'b) student_state \<Rightarrow> bool" where
  "server_ready shapes s \<longleftrightarrow> idle s \<and> buffer_shapes (named_buffers (rollout_engine s)) = shapes"

definition weights_valid ::
  "'b list \<Rightarrow> (nat \<times> ('b tensor \<Rightarrow> 'b tensor)) option \<Rightarrow> (str, nat list) dict \<Rightarrow> (str \<times> 'b tensor) list \<Rightarrow> bool" where
  "weights_valid buffer sync_dtype shapes params \<longleftrightarrow>
     (\<forall>w \<in> snd ` set params. tensor_ok w \<and> estimated_ipc_nbytes sync_dtype w \<le> length buffer) \<and>
     aligned_weights (prepared_weights sync_dtype (student_model_weight_items params)) \<and>
     (\<forall>(name, w) \<in> set (prepared_weights sync_dtype (student_model_weight_items params)).
        \<forall>sh. map_of shapes name = Some sh \<longrightarrow> t_shape w = sh)"

text \<open>
  Every parameter of the model is in the engine, converted, under its normalised name: in the buffer of that name, in the buffer's
  type, if there is one, and otherwise among the parameters.
\<close>

definition engine_holds ::
  "('p \<Rightarrow> str \<Rightarrow> 'b tensor option) \<Rightarrow> ('b tensor \<Rightarrow> 'b tensor \<Rightarrow> 'b tensor) \<Rightarrow> (nat \<times> ('b tensor \<Rightarrow> 'b tensor)) option \<Rightarrow>
   ('p, 'b) student_state \<Rightarrow> (str \<times> 'b tensor) list \<Rightarrow> bool" where
  "engine_holds reads convert sync_dtype s params \<longleftrightarrow>
     (\<forall>(name, w) \<in> set (student_model_weight_items params).
        case map_of (named_buffers (rollout_engine s)) name of
          None \<Rightarrow> reads (parameters (rollout_engine s)) name = Some (prepare_weight sync_dtype w)
        | Some b \<Rightarrow> \<exists>target. t_shape target = t_shape b \<and> b = convert target (prepare_weight sync_dtype w))"

lemma map_of_buffer_shapes: "map_of (buffer_shapes bufs) name = map_option t_shape (map_of bufs name)"
  by (induction bufs) (auto simp: buffer_shapes_def)

lemma buffer_shapes_update:
  "map_of bufs name = Some b \<Longrightarrow> t_shape c = t_shape b \<Longrightarrow> buffer_shapes (AList.update name c bufs) = buffer_shapes bufs"
  by (induction bufs) (auto simp: buffer_shapes_def split: if_splits)

context student_engine
begin

lemma copied_shapes:
  assumes "distinct (map fst ws)" and "buffers_fit bufs ws"
  shows "buffer_shapes (copied_buffers convert bufs ws) = buffer_shapes bufs"
  using assms
proof (induction ws arbitrary: bufs)
  case (Cons p ws)
  obtain n w where p: "p = (n, w)" by force
  have d: "distinct (map fst ws)" using Cons.prems(1) by simp
  have "buffers_fit (copied_buffers convert bufs [(n, w)]) ws"
    by (rule buffers_fit_rest) (use Cons.prems in \<open>simp_all add: p\<close>)
  note rest = Cons.IH[OF d this]
  show ?case
  proof (cases "map_of bufs n")
    case None
    then show ?thesis using rest by (simp add: p)
  next
    case (Some b)
    then have "t_shape b = t_shape w" using Cons.prems(2) by (simp add: buffers_fit_def p)
    then show ?thesis using rest Some buffer_shapes_update[OF Some convert_shape] by (simp add: p)
  qed
qed simp

lemma valid_fits:
  "server_ready shapes s \<Longrightarrow> weights_valid buffer sync_dtype shapes params \<Longrightarrow>
   buffers_fit (named_buffers (rollout_engine s)) (prepared_weights sync_dtype (student_model_weight_items params))"
  by (fastforce simp: server_ready_def weights_valid_def buffers_fit_def map_of_buffer_shapes)

end

sublocale student_engine \<subseteq> sync: weight_sync
  "client_sync load_weights convert use_shm buffer sync_dtype" "server_ready shapes"
  "weights_valid buffer sync_dtype shapes" "engine_holds reads convert sync_dtype"
proof
  fix s :: "('p, 'b) student_state" and params :: "(str \<times> 'b tensor) list"
  assume r: "server_ready shapes s" and v: "weights_valid buffer sync_dtype shapes params"
  let ?items = "student_model_weight_items params" and ?eng = "rollout_engine s"
  let ?ws = "prepared_weights sync_dtype ?items"
  let ?s' = "s\<lparr>rollout_engine := loaded_engine load_weights convert ?ws ?eng, weight_version := weight_version s + 1\<rparr>"
  note fits = valid_fits[OF r v]
  have run: "client_sync load_weights convert use_shm buffer sync_dtype params s = Inr ?s'"
    using sync_loads_engine[OF _ by_name fits _ cast, where buffer = buffer and bucket_size = "length buffer" and uuid = "weight_version s" and use_shm = use_shm and convert = convert] r v
    by (simp add: client_sync_def server_ready_def weights_valid_def)
  have d: "distinct (map fst ?ws)" using student_model_weight_items_distinct[of params] by simp
  have "case map_of (named_buffers (rollout_engine ?s')) name of
          None \<Rightarrow> reads (parameters (rollout_engine ?s')) name = Some (prepare_weight sync_dtype w)
        | Some b \<Rightarrow> \<exists>target. t_shape target = t_shape b \<and> b = convert target (prepare_weight sync_dtype w)"
    if "(name, w) \<in> set ?items" for name w
  proof -
    have mem: "(name, prepare_weight sync_dtype w) \<in> set ?ws" using that by (force simp: prepared_weights_def)
    show ?thesis
    proof (cases "map_of (named_buffers ?eng) name")
      case None
      let ?us = "filter (\<lambda>(name, w). map_of (named_buffers ?eng) name = None) ?ws"
      have "distinct (map fst ?us)" using d by (simp add: distinct_map_filter)
      moreover have "(name, prepare_weight sync_dtype w) \<in> set ?us" using mem None by simp
      ultimately have "reads (fst (load_weights (parameters ?eng) ?us)) name = Some (prepare_weight sync_dtype w)"
        by (simp add: reads_load map_of_is_SomeI del: set_filter)
      then show ?thesis using None by (simp add: loaded_engine_def copied_buffers_keys[THEN iffD2])
    next
      case (Some b)
      then have "t_shape b = t_shape (prepare_weight sync_dtype w)" using fits mem by (auto simp: buffers_fit_def)
      then show ?thesis using copied_buffers_at[OF d mem Some, of convert] convert_shape by (auto simp: loaded_engine_def)
    qed
  qed
  then have "engine_holds reads convert sync_dtype ?s' params" unfolding engine_holds_def by blast
  moreover have "server_ready shapes ?s'"
    using r copied_shapes[OF d fits] by (simp add: server_ready_def idle_def loaded_engine_def)
  ultimately show "\<exists>s'. client_sync load_weights convert use_shm buffer sync_dtype params s = Inr s' \<and>
      server_ready shapes s' \<and> engine_holds reads convert sync_dtype s' params" using run by blast
qed

interpretation dict_engine: student_engine dict_load "\<lambda>p. p" "\<lambda>target t. t" None "replicate 8 (0 :: nat)" None "[(''lm.b'', [3])]"
proof
  fix ws :: "(str \<times> nat tensor) list" and p k
  assume "distinct (map fst ws)"
  then show "fst (dict_load p ws) k = (case map_of ws k of Some t \<Rightarrow> Some t | None \<Rightarrow> p k)"
    by (simp add: dict_load_def map_add_def map_of_rev_distinct)
qed (simp_all add: cast_sound_def)

context student_engine
begin

lemma rollouts_on_policy:
  assumes "server_ready shapes s" and "weights_valid buffer sync_dtype shapes w"
    and "\<forall>w'. Some w' \<in> set upds \<longrightarrow> weights_valid buffer sync_dtype shapes w'"
  shows "\<exists>sts. train_loop (client_sync load_weights convert use_shm buffer sync_dtype) True (opd_start w step s) upds
      = Inr (opd_start w step s # sts) \<and> length sts = length upds \<and>
    (\<forall>st \<in> set sts. engine_holds reads convert sync_dtype (rollout_server st) (model_weights st))"
  by (rule sync.on_policy_from_start[OF assms])

end

section \<open>Properties\<close>

text \<open>
  C4: rollouts are on-policy: with synchronisation after the optimizer steps, against an idle student server whose engine
  loads by name, a run of any optimizer steps and accumulated batches goes through, and at the start of every batch
  but the first the engine that generates its rollouts holds exactly the learner's current weights, those with the name of a
  registered buffer of the engine in that buffer, in its type.  The weights are well-formed, fit the bucket and the alignment of the
  transfer, and have the shape of the buffer of their name if there is one; a conversion keeps the shape.
\<close>

theorem rollouts_are_on_policy:
  assumes "loads_by_name load_weights"
    and "\<And>ws p k. distinct (map fst ws) \<Longrightarrow>
      reads (fst (load_weights p ws)) k = (case map_of ws k of Some t \<Rightarrow> Some t | None \<Rightarrow> reads p k)"
    and "\<And>b w. t_shape b = t_shape w \<Longrightarrow> t_shape (convert b w) = t_shape b"
    and "cast_sound sync_dtype" and "server_ready shapes s" and "weights_valid buffer sync_dtype shapes w"
    and "\<forall>w'. Some w' \<in> set upds \<longrightarrow> weights_valid buffer sync_dtype shapes w'"
  shows "\<exists>sts. train_loop (client_sync load_weights convert use_shm buffer sync_dtype) True (opd_start w step s) upds
      = Inr (opd_start w step s # sts) \<and> length sts = length upds \<and>
    (\<forall>st \<in> set sts. engine_holds reads convert sync_dtype (rollout_server st) (model_weights st))"
  by (rule student_engine.rollouts_on_policy[OF student_engine.intro[OF assms(1-4)] assms(5-7)])

text \<open>A server with one of the two weights as a buffer.\<close>

definition buffered_server :: "(str \<rightharpoonup> nat tensor, nat) student_state" where
  "buffered_server = example_server\<lparr>rollout_engine := \<lparr>parameters = Map.empty,
     named_buffers = [(''lm.b'', \<lparr>t_shape = [3], t_dtype = ''bf16'', t_itemsize = 2, t_floating = True, t_bytes = [0, 0, 0, 0, 0, 0]\<rparr>)]\<rparr>\<rparr>"

theorem rollouts_are_on_policy_witness:
  "\<exists>sts. train_loop (client_sync dict_load (\<lambda>target t. t) None (replicate 8 (0 :: nat)) None) True
      (opd_start example_params 0 buffered_server) [None, Some example_params]
      = Inr (opd_start example_params 0 buffered_server # sts) \<and> length sts = 2"
proof -
  have v: "weights_valid (replicate 8 (0 :: nat)) None [(''lm.b'', [3])] example_params"
    unfolding weights_valid_def
    by (simp add: example_items prepared_weights_def prepare_weight_def aligned_weights_def)
       (simp add: example_params_def tensor_ok_def nbytes_def estimated_ipc_nbytes_def)
  have r: "server_ready [(''lm.b'', [3])] buffered_server"
    by (simp add: server_ready_def buffered_server_def buffer_shapes_def idle_def example_server_def)
  from rollouts_are_on_policy[OF dict_load_by_name _ _ _ r v, of "\<lambda>p. p" "\<lambda>target t. t" "[None, Some example_params]" None 0] v
  show ?thesis by (auto simp: cast_sound_def dict_load_def map_add_def map_of_rev_distinct)
qed

end
