(* ===== verification/RolloutCorr.thy ===== *)
theory RolloutCorr
  imports CoreAlgos
begin

text \<open>
  Correction of the gap between the policy that generated a rollout and the one that is trained,
  \<open>src/verl_new/verl/trainer/ppo/rollout_corr_helper.py\<close>: the parsing of thresholds, importance weights (truncated, or
  zeroed outside an interval), the rejection mask, the diagnostics (whose divisions can raise), and the functions that apply
  them to a batch.  Numbers are reals; infinities that the code masks in are never selected here.  With \<open>torch.distributed\<close> the
  mean of the weights is taken over all ranks: \<open>others\<close> is the sum and the count that the other ranks bring.
\<close>

section \<open>Numbers in strings\<close>

text \<open>\<open>float(s)\<close> for decimal notation, with sign, point and exponent; no \<open>inf\<close>, \<open>nan\<close> or digit groups.\<close>

definition digits_value :: "str \<Rightarrow> nat" where
  "digits_value s = foldl (\<lambda>n c. 10 * n + (of_char c - 48)) 0 s"

definition unsigned_float :: "str \<Rightarrow> real option" where
  "unsigned_float s =
     (case split_on ''.'' s of
        [a] \<Rightarrow> if a \<noteq> [] \<and> list_all is_digit a then Some (real (digits_value a)) else None
      | [a, b] \<Rightarrow> if a @ b \<noteq> [] \<and> list_all is_digit (a @ b) then Some (real (digits_value (a @ b)) / 10 ^ length b) else None
      | _ \<Rightarrow> None)"

definition signed :: "(str \<Rightarrow> real option) \<Rightarrow> str \<Rightarrow> real option" where
  "signed f s = (case s of c # r \<Rightarrow>
       if c = CHR ''-'' then map_option uminus (f r) else if c = CHR ''+'' then f r else f s
     | [] \<Rightarrow> None)"

definition scale10 :: "real \<Rightarrow> str \<Rightarrow> real option" where
  "scale10 m x =
     (case x of c # r \<Rightarrow>
        (let digs = (if c = CHR ''-'' \<or> c = CHR ''+'' then r else x)
         in if digs \<noteq> [] \<and> list_all is_digit digs
            then Some (if c = CHR ''-'' then m / 10 ^ digits_value digs else m * 10 ^ digits_value digs) else None)
      | [] \<Rightarrow> None)"

definition py_float :: "str \<Rightarrow> real option" where
  "py_float s =
     (case split_on ''e'' (map (\<lambda>c. if c = CHR ''E'' then CHR ''e'' else c) (strip s)) of
        [m] \<Rightarrow> signed unsigned_float m
      | [m, x] \<Rightarrow> (case signed unsigned_float m of None \<Rightarrow> None | Some r \<Rightarrow> scale10 r x)
      | _ \<Rightarrow> None)"

definition float_or_error :: "str \<Rightarrow> real result" where
  "float_or_error s = (case py_float s of None \<Rightarrow> Inl ValueError | Some x \<Rightarrow> Inr x)"

text \<open>\<open>spec.split('_', 1)\<close> where there is an underscore.\<close>

definition split_underscore :: "str \<Rightarrow> str \<times> str" where
  "split_underscore s = (takeWhile (\<lambda>c. c \<noteq> CHR ''_'') s, tl (dropWhile (\<lambda>c. c \<noteq> CHR ''_'') s))"

section \<open>Thresholds\<close>

datatype threshold_spec = No_threshold | Bool_threshold bool | Num_threshold real | Str_threshold str

definition check_is_bounds :: "real \<Rightarrow> real option \<Rightarrow> (real \<times> real option) result" where
  "check_is_bounds hi lo =
     (if hi \<le> 0 then Inl ValueError
      else case lo of
        None \<Rightarrow> Inr (hi, None)
      | Some l \<Rightarrow> if l \<le> 0 then Inl ValueError else if hi < l then Inl ValueError else Inr (hi, Some l))"

fun parse_rollout_is_threshold :: "threshold_spec \<Rightarrow> (real \<times> real option) result" where
  "parse_rollout_is_threshold (Bool_threshold b) = Inl TypeError"
| "parse_rollout_is_threshold (Num_threshold x) = check_is_bounds x None"
| "parse_rollout_is_threshold (Str_threshold s) =
     (let spec = strip s
      in if spec = [] then Inl ValueError
         else if CHR ''_'' \<in> set spec
         then (let (lower_str, upper_str) = split_underscore spec
               in bind_res (float_or_error lower_str) (\<lambda>l. bind_res (float_or_error upper_str) (\<lambda>u. check_is_bounds u (Some l))))
         else bind_res (float_or_error spec) (\<lambda>u. check_is_bounds u None))"
| "parse_rollout_is_threshold No_threshold = Inl TypeError"

text \<open>A number is kept as such: \<open>float(str(x))\<close> is \<open>x\<close>.\<close>

datatype raw_spec = Raw_num real | Raw_str str

fun raw_specs :: "threshold_spec \<Rightarrow> raw_spec list result" where
  "raw_specs No_threshold = Inl ValueError"
| "raw_specs (Bool_threshold b) = Inr [Raw_str (if b then ''True'' else ''False'')]"
| "raw_specs (Num_threshold x) = Inr [Raw_num x]"
| "raw_specs (Str_threshold s) = Inr (map Raw_str (filter (\<lambda>p. p \<noteq> []) (map strip (split_on '','' s))))"

fun raw_float :: "raw_spec \<Rightarrow> real result" where
  "raw_float (Raw_num x) = Inr x"
| "raw_float (Raw_str s) = float_or_error s"

fun has_underscore :: "raw_spec \<Rightarrow> bool" where
  "has_underscore (Raw_num x) = False"
| "has_underscore (Raw_str s) = (CHR ''_'' \<in> set s)"

fun raw_bounds :: "raw_spec \<Rightarrow> (real \<times> real) result" where
  "raw_bounds (Raw_num x) = (if x = 0 then Inl ZeroDivisionError else Inr (1 / x, x))"
| "raw_bounds (Raw_str s) =
     (if CHR ''_'' \<in> set s
      then (let (lower_str, upper_str) = split_underscore s
            in bind_res (float_or_error lower_str) (\<lambda>l. bind_res (float_or_error upper_str) (\<lambda>u. Inr (l, u))))
      else bind_res (float_or_error s) (\<lambda>u. if u = 0 then Inl ZeroDivisionError else Inr (1 / u, u)))"

text \<open>Per option a lower bound, which only the \<open>k1\<close> options have, and an upper bound.\<close>

type_synonym rs_bounds = "real option \<times> real"

definition parse_rs_option :: "str \<Rightarrow> raw_spec \<Rightarrow> rs_bounds result" where
  "parse_rs_option option spec =
     (if ends_with option ''k1''
      then bind_res (raw_bounds spec) (\<lambda>(lo, hi).
             if lo \<le> 0 \<or> hi \<le> 0 then Inl ValueError else Inr (Some lo, hi))
      else if has_underscore spec then Inl ValueError
      else bind_res (raw_float spec) (\<lambda>hi. if hi \<le> 0 then Inl ValueError else Inr (None, hi)))"

definition parse_rollout_rs_thresholds :: "str list \<Rightarrow> threshold_spec \<Rightarrow> (str, rs_bounds) dict result" where
  "parse_rollout_rs_thresholds options spec =
     bind_res (raw_specs spec) (\<lambda>specs.
       if specs = [] then Inl ValueError
       else if length specs \<notin> {1, length options} then Inl ValueError
       else (let specs' = (if length specs = 1 \<and> 1 < length options then replicate (length options) (hd specs) else specs)
             in fold_res (\<lambda>d (opt, s). bind_res (parse_rs_option opt s) (\<lambda>b. Inr (AList.update opt b d))) [] (zip options specs')))"

section \<open>Reductions of a row\<close>

definition any_valid :: "matrix \<Rightarrow> bool" where
  "any_valid msk \<longleftrightarrow> (\<exists>row \<in> set msk. \<exists>m \<in> set row. m \<noteq> 0)"

definition row_masked_mean :: "real list \<Rightarrow> real list \<Rightarrow> real" where
  "row_masked_mean vals msk = masked_sum1 vals msk / (sum_list msk + 1 / 10 ^ 8)"

definition valid_of :: "'a list \<Rightarrow> real list \<Rightarrow> 'a list" where
  "valid_of vals msk = map fst (filter (\<lambda>(v, m). m \<noteq> 0) (zip vals msk))"

definition row_masked_max :: "real list \<Rightarrow> real list \<Rightarrow> real" where
  "row_masked_max vals msk = (let xs = valid_of vals msk in if xs = [] then 0 else Max (set xs))"

definition all_valid :: "matrix \<Rightarrow> matrix \<Rightarrow> real list" where
  "all_valid vals msk = concat (map2 valid_of vals msk)"

definition indicator :: "bool \<Rightarrow> real" where
  "indicator b = (if b then 1 else 0)"

definition fraction :: "('a \<Rightarrow> bool) \<Rightarrow> 'a list \<Rightarrow> real" where
  "fraction P xs = mean_of (map (\<lambda>x. indicator (P x)) xs)"

definition masked_fraction :: "(real \<Rightarrow> bool) \<Rightarrow> matrix \<Rightarrow> matrix \<Rightarrow> real" where
  "masked_fraction P vals msk = masked_mean (map (map (\<lambda>x. indicator (P x))) vals) msk"

text \<open>The spread of clamped values: the root of the mean of squares less the square of the mean, not below zero.\<close>

definition clamped_std :: "real \<Rightarrow> real \<Rightarrow> matrix \<Rightarrow> matrix \<Rightarrow> real" where
  "clamped_std lo hi vals msk =
     (if 1 < msum msk
      then (let c = map (map (clamp lo hi)) vals; mean = masked_mean c msk
            in sqrt (max (masked_mean (map (map (\<lambda>x. x ^ 2)) c) msk - mean ^ 2) 0))
      else 0)"

section \<open>The rejection mask\<close>

type_synonym metrics = "(str, real) dict"

definition SUPPORTED_ROLLOUT_RS_OPTIONS :: "str list" where
  "SUPPORTED_ROLLOUT_RS_OPTIONS =
     [''token_k1'', ''token_k2'', ''token_k3'', ''seq_sum_k1'', ''seq_sum_k2'', ''seq_sum_k3'',
      ''seq_mean_k1'', ''seq_mean_k2'', ''seq_mean_k3'', ''seq_max_k2'', ''seq_max_k3'']"

definition TOKEN_LEVEL_ROLLOUT_RS_OPTIONS :: "str list" where
  "TOKEN_LEVEL_ROLLOUT_RS_OPTIONS = [''token_k1'', ''token_k2'', ''token_k3'']"

text \<open>The divergence estimate of a token, from the clamped log-ratio.\<close>

definition k_stat :: "str \<Rightarrow> real \<Rightarrow> real" where
  "k_stat option log_ratio =
     (let s = clamp (- 20) 20 log_ratio
      in if ends_with option ''k1'' then - s else if ends_with option ''k2'' then 1 / 2 * s ^ 2 else exp s - 1 - s)"

definition seq_stat :: "str \<Rightarrow> real list \<Rightarrow> real list \<Rightarrow> real" where
  "seq_stat option vals msk =
     (if starts_with option ''seq_sum'' then masked_sum1 vals msk
      else if starts_with option ''seq_mean'' then row_masked_mean vals msk
      else row_masked_max vals msk)"

definition passes :: "str \<Rightarrow> rs_bounds \<Rightarrow> real \<Rightarrow> bool" where
  "passes option bounds v =
     (if ends_with option ''k1'' then ln (the (fst bounds)) \<le> v \<and> v \<le> ln (snd bounds) else v \<le> snd bounds)"

text \<open>The statistic every token is judged by, and the tokens that stay.\<close>

definition option_stat :: "str \<Rightarrow> matrix \<Rightarrow> matrix \<Rightarrow> matrix" where
  "option_stat option log_ratio response_mask =
     map2 (\<lambda>lr m. let ks = map (k_stat option) lr
                  in if option \<in> set TOKEN_LEVEL_ROLLOUT_RS_OPTIONS then ks else replicate (length m) (seq_stat option ks m))
       log_ratio response_mask"

definition option_keep :: "str \<Rightarrow> rs_bounds \<Rightarrow> matrix \<Rightarrow> matrix \<Rightarrow> bool list list" where
  "option_keep option bounds log_ratio response_mask =
     map (map (passes option bounds)) (option_stat option log_ratio response_mask)"

definition upper_limit :: "str \<Rightarrow> rs_bounds \<Rightarrow> real" where
  "upper_limit option bounds = (if ends_with option ''k1'' then ln (snd bounds) else snd bounds)"

definition lower_limit :: "str \<Rightarrow> rs_bounds \<Rightarrow> real" where
  "lower_limit option bounds = (if ends_with option ''k1'' then ln (the (fst bounds)) else 0)"

text \<open>\<open>compute_rs_metrics\<close>: raises when no token is valid.\<close>

definition compute_rs_metrics :: "str \<Rightarrow> matrix \<Rightarrow> matrix \<Rightarrow> bool \<Rightarrow> real list \<Rightarrow> real \<Rightarrow> real \<Rightarrow> bool \<Rightarrow> metrics result" where
  "compute_rs_metrics option_name stat response_mask sequence_level seq_vals hi lo apply_lower =
     (if \<not> any_valid response_mask then Inl ValueError
      else
       (let prefix = ''rollout_rs_'' @ option_name;
            seq_valid = map fst (filter (\<lambda>(v, m). 0 < sum_list m) (zip seq_vals response_mask));
            by_seq = (sequence_level \<and> seq_valid \<noteq> []);
            tokens = all_valid stat response_mask;
            pool = (if by_seq then seq_valid else tokens);
            frac = (\<lambda>P. if by_seq then fraction P seq_valid else masked_fraction P stat response_mask)
        in Inr ([(prefix @ ''_mean'', masked_mean stat response_mask),
                 (prefix @ ''_max'', Max (set pool)), (prefix @ ''_min'', Min (set pool)),
                 (prefix @ ''_fraction_high'', frac (\<lambda>x. hi < x)),
                 (prefix @ ''_fraction_low'', if apply_lower then frac (\<lambda>x. x < lo) else 0),
                 (prefix @ ''_std'', clamped_std (if apply_lower then lo else 0) hi stat response_mask)] @
                (if seq_valid \<noteq> []
                 then [(prefix @ ''_seq_mean'', mean_of seq_valid),
                       (prefix @ ''_seq_std'', if 1 < length seq_valid then std_of seq_valid else 0),
                       (prefix @ ''_seq_max'', Max (set seq_valid)), (prefix @ ''_seq_min'', Min (set seq_valid)),
                       (prefix @ ''_seq_max_deviation'', Max (abs ` set seq_valid)),
                       (prefix @ ''_seq_fraction_high'', fraction (\<lambda>x. hi < x) seq_valid)] @
                      (if apply_lower then [(prefix @ ''_seq_fraction_low'', fraction (\<lambda>x. x < lo) seq_valid)] else [])
                 else map (\<lambda>s. (prefix @ s, 0))
                        [''_seq_mean'', ''_seq_std'', ''_seq_max'', ''_seq_min'', ''_seq_max_deviation'',
                         ''_seq_fraction_high'', ''_seq_fraction_low'']))))"

definition update_metrics :: "metrics \<Rightarrow> metrics \<Rightarrow> metrics" where
  "update_metrics d new = foldl (\<lambda>d (k, v). AList.update k v d) d new"

text \<open>One option: the tokens that stay among those kept so far, and its metrics.\<close>

definition rs_option_step :: "matrix \<Rightarrow> matrix \<Rightarrow> (str, rs_bounds) dict \<Rightarrow> matrix \<times> metrics \<Rightarrow> str \<Rightarrow> (matrix \<times> metrics) result" where
  "rs_option_step log_ratio response_mask thresholds state option =
     bind_res (dict_index thresholds option) (\<lambda>bounds.
       let keep = option_keep option bounds log_ratio response_mask;
           stat = option_stat option log_ratio response_mask;
           seq_level = (option \<notin> set TOKEN_LEVEL_ROLLOUT_RS_OPTIONS);
           seq_vals = (if seq_level then map2 (\<lambda>lr m. seq_stat option (map (k_stat option) lr) m) log_ratio response_mask
                       else map2 row_masked_mean stat response_mask);
           keep_mask = map (map indicator) keep;
           seq_keep = map2 (\<lambda>ks m. list_all2 (\<lambda>k x. k \<or> x = 0) ks m) keep response_mask;
           valid_seqs = filter (\<lambda>(k, m). 0 < sum_list m) (zip seq_keep response_mask)
       in bind_res (compute_rs_metrics option stat response_mask seq_level seq_vals (upper_limit option bounds)
                     (lower_limit option bounds) (ends_with option ''k1'')) (\<lambda>option_metrics.
          Inr (mzip (*) (fst state) keep_mask,
               update_metrics (snd state) (option_metrics @
                 [(''rollout_rs_'' @ option @ ''_masked_fraction'', masked_mean (map (map (\<lambda>x. 1 - x)) keep_mask) response_mask),
                  (''rollout_rs_'' @ option @ ''_seq_masked_fraction'',
                   if valid_seqs = [] then 0 else fraction (\<lambda>(k, m). \<not> k) valid_seqs)]))))"

definition compute_rollout_rejection_mask ::
  "matrix \<Rightarrow> matrix \<Rightarrow> str option \<Rightarrow> threshold_spec \<Rightarrow> (matrix \<times> metrics) result" where
  "compute_rollout_rejection_mask log_ratio response_mask rollout_rs threshold =
     (case rollout_rs of
        None \<Rightarrow> Inl ValueError
      | Some rs \<Rightarrow>
          if threshold = No_threshold then Inl ValueError
          else if log_ratio = [] then Inr (response_mask, [])
          else
            (let option_modes = filter (\<lambda>o1. o1 \<noteq> []) (map strip (split_on '','' rs))
             in if option_modes = [] then Inl ValueError
                else if \<exists>o1 \<in> set option_modes. o1 \<notin> set SUPPORTED_ROLLOUT_RS_OPTIONS then Inl ValueError
                else
                  (let options = rev (remdups (rev option_modes))
                   in bind_res (parse_rollout_rs_thresholds options threshold) (\<lambda>thresholds.
                      bind_res (fold_res (rs_option_step log_ratio response_mask thresholds)
                                  (map (map (\<lambda>_. 1)) response_mask, []) options) (\<lambda>(final_mask, ms).
                      Inr (mzip (*) response_mask final_mask,
                           update_metrics ms
                             [(''rollout_rs_masked_fraction'', masked_mean (map (map (\<lambda>x. 1 - x)) final_mask) response_mask),
                              (''rollout_rs_seq_masked_fraction'',
                               fraction (\<lambda>(f, m). \<exists>(x, y) \<in> set (zip f m). y \<noteq> 0 \<and> \<not> (1 / 2 < x)) (zip final_mask response_mask))]))))))"

section \<open>Importance weights\<close>

text \<open>The ratios of tokens, or of whole sequences spread over their tokens; zero on padding.\<close>

definition raw_weights :: "str \<Rightarrow> matrix \<Rightarrow> matrix \<Rightarrow> matrix" where
  "raw_weights rollout_is log_ratio response_mask =
     (if rollout_is = ''token''
      then mzip (\<lambda>x m. exp (clamp (- 20) 20 x) * m) log_ratio response_mask
      else map2 (\<lambda>lr m. map (\<lambda>y. exp (clamp (- 20) 20 (masked_sum1 lr m)) * y) m) log_ratio response_mask)"

definition applied_weight :: "real \<times> real option \<Rightarrow> real \<Rightarrow> real" where
  "applied_weight bounds w =
     (case snd bounds of
        None \<Rightarrow> min w (fst bounds)
      | Some lo \<Rightarrow> if lo \<le> w \<and> w \<le> fst bounds then w else 0)"

text \<open>\<open>compute_is_metrics\<close>: raises without a valid token, and when every applied weight is zero (\<open>1.0 / 0.0\<close>).\<close>

definition compute_is_metrics ::
  "matrix \<Rightarrow> matrix \<Rightarrow> matrix \<Rightarrow> matrix \<Rightarrow> str \<Rightarrow> real \<Rightarrow> real option \<Rightarrow> metrics result" where
  "compute_is_metrics weights raw log_ratio response_mask rollout_is hi lower =
     (if \<not> any_valid response_mask then Inl ValueError
      else
       (let lo = (case lower of None \<Rightarrow> 1 / hi | Some l \<Rightarrow> l);
            seq_sums = map2 masked_sum1 log_ratio response_mask;
            level = (if rollout_is = ''sequence''
              then [(''rollout_is_max'', exp (min (Max (set seq_sums)) 20)), (''rollout_is_min'', exp (Min (set seq_sums))),
                    (''rollout_is_mean'', masked_mean weights response_mask),
                    (''rollout_is_ratio_fraction_high'', fraction (\<lambda>x. ln hi < x) seq_sums),
                    (''rollout_is_ratio_fraction_low'', fraction (\<lambda>x. x < ln lo) seq_sums)]
              else [(''rollout_is_mean'', masked_mean weights response_mask),
                    (''rollout_is_ratio_fraction_high'', masked_fraction (\<lambda>x. hi < x) raw response_mask),
                    (''rollout_is_ratio_fraction_low'', masked_fraction (\<lambda>x. x < lo) raw response_mask),
                    (''rollout_is_max'', Max (set (all_valid weights response_mask))),
                    (''rollout_is_min'', Min (set (all_valid weights response_mask)))]);
            ess_weights = map (map (clamp 0 hi)) weights;
            ess_mean = masked_mean ess_weights response_mask;
            mean_square = masked_mean (map (map (\<lambda>w. (w / (ess_mean + 1 / 10 ^ 8)) ^ 2)) ess_weights) response_mask;
            seq_mean = map2 row_masked_mean weights response_mask
        in if mean_square = 0 then Inl ZeroDivisionError
           else Inr (level @
             [(''rollout_is_std'', clamped_std 0 hi weights response_mask),
              (''rollout_is_eff_sample_size'', 1 / mean_square),
              (''rollout_is_seq_mean'', mean_of seq_mean),
              (''rollout_is_seq_std'', if 1 < length seq_mean then std_of seq_mean else 0),
              (''rollout_is_seq_max'', Max (set seq_mean)), (''rollout_is_seq_min'', Min (set seq_mean)),
              (''rollout_is_seq_max_deviation'', Max ((\<lambda>x. \<bar>x - 1\<bar>) ` set seq_mean)),
              (''rollout_is_seq_fraction_high'', fraction (\<lambda>x. hi < x) seq_mean),
              (''rollout_is_seq_fraction_low'', fraction (\<lambda>x. x < lo) seq_mean)])))"

text \<open>The mean that batch normalisation divides by, with what the other ranks bring when there are any.\<close>

definition weights_mean :: "str \<Rightarrow> (real \<times> real) option \<Rightarrow> matrix \<Rightarrow> matrix \<Rightarrow> real" where
  "weights_mean rollout_is others weights response_mask =
     (if rollout_is = ''token''
      then (case others of
              Some (s, n) \<Rightarrow> (msum (mzip (*) weights response_mask) + s) / (msum response_mask + n)
            | None \<Rightarrow> masked_mean weights response_mask)
      else (let seq_weights = map2 row_masked_mean weights response_mask;
                seq_mask = nonempty_rows response_mask;
                total = sum_list (map2 (*) seq_weights seq_mask)
            in case others of
                 Some (s, n) \<Rightarrow> (total + s) / (sum_list seq_mask + n)
               | None \<Rightarrow> total / max (sum_list seq_mask) (1 / 10 ^ 8)))"

definition normalise_weights :: "real \<Rightarrow> matrix \<times> metrics \<Rightarrow> matrix \<times> metrics" where
  "normalise_weights mean wm =
     (if 1 / 10 ^ 8 < mean
      then (map (map (\<lambda>w. w / mean)) (fst wm), update_metrics (snd wm) [(''rollout_is_batch_norm_factor'', mean)])
      else (fst wm, update_metrics (snd wm) [(''rollout_is_batch_norm_factor'', 1)]))"

definition compute_rollout_correction_weights ::
  "(real \<times> real) option \<Rightarrow> matrix \<Rightarrow> matrix \<Rightarrow> str \<Rightarrow> threshold_spec \<Rightarrow> bool \<Rightarrow> (matrix \<times> metrics) result" where
  "compute_rollout_correction_weights others log_ratio response_mask rollout_is threshold batch_normalize =
     (if rollout_is \<notin> {''token'', ''sequence''} then Inl ValueError
      else bind_res (parse_rollout_is_threshold threshold) (\<lambda>bounds.
        let raw = raw_weights rollout_is log_ratio response_mask;
            weights = map (map (applied_weight bounds)) raw
        in bind_res (compute_is_metrics weights raw log_ratio response_mask rollout_is (fst bounds) (snd bounds)) (\<lambda>ms.
           let ms' = (case snd bounds of None \<Rightarrow> ms
                      | Some lo \<Rightarrow> update_metrics ms
                          [(''rollout_is_oob_ratio'', masked_fraction (\<lambda>w. w < lo \<or> fst bounds < w) raw response_mask)]);
               mean = weights_mean rollout_is others weights response_mask
           in Inr (if batch_normalize then normalise_weights mean (weights, ms') else (weights, ms')))))"

section \<open>Diagnostics and the whole correction\<close>

definition compute_offpolicy_metrics :: "matrix \<Rightarrow> matrix option \<Rightarrow> matrix \<Rightarrow> metrics result" where
  "compute_offpolicy_metrics old_log_prob rollout_log_prob response_mask =
     asserting (any_valid response_mask)
      (let mean_training = map2 row_masked_mean old_log_prob response_mask;
           training = [(''training_ppl'', mean_of (map (\<lambda>x. exp (- x)) mean_training)),
                       (''training_log_ppl'', mean_of (map uminus mean_training))]
       in Inr (case rollout_log_prob of
            None \<Rightarrow> training
          | Some rollout \<Rightarrow>
             (let log_ratio = mzip (-) old_log_prob rollout;
                  mean_rollout = map2 row_masked_mean rollout response_mask;
                  log_ppl_diff = map2 (-) mean_rollout mean_training;
                  seq_sums = map2 masked_sum1 log_ratio response_mask
              in training @
                [(''kl'', masked_mean (mzip (-) rollout old_log_prob) response_mask),
                 (''k3_kl'', masked_mean (map (map (\<lambda>x. exp x - x - 1)) log_ratio) response_mask),
                 (''rollout_ppl'', mean_of (map (\<lambda>x. exp (- x)) mean_rollout)),
                 (''rollout_log_ppl'', mean_of (map uminus mean_rollout)),
                 (''log_ppl_diff'', mean_of log_ppl_diff), (''log_ppl_abs_diff'', mean_of (map abs log_ppl_diff)),
                 (''log_ppl_diff_max'', Max (set log_ppl_diff)), (''log_ppl_diff_min'', Min (set log_ppl_diff)),
                 (''ppl_ratio'', mean_of (map exp log_ppl_diff)),
                 (''chi2_token'', masked_mean (map (map (\<lambda>x. exp (clamp (- 20) 20 x) ^ 2)) log_ratio) response_mask - 1),
                 (''chi2_seq'', mean_of (map (\<lambda>x. exp (2 * clamp (- 20) 20 x)) seq_sums) - 1)])))"

record correction_config =
  rc_rollout_is :: "str option"
  rc_is_threshold :: threshold_spec
  rc_batch_normalize :: bool
  rc_rollout_rs :: "str option"
  rc_rs_threshold :: threshold_spec
  rc_loss_type :: str

definition shapes_equal :: "matrix \<Rightarrow> matrix \<Rightarrow> bool" where
  "shapes_equal a b \<longleftrightarrow> map length a = map length b"

definition compute_rollout_correction_and_rejection_mask ::
  "(real \<times> real) option \<Rightarrow> correction_config \<Rightarrow> matrix \<Rightarrow> matrix \<Rightarrow> matrix \<Rightarrow> (matrix option \<times> matrix \<times> metrics) result" where
  "compute_rollout_correction_and_rejection_mask others config old_log_prob rollout_log_prob response_mask =
     (if \<not> any_valid response_mask then Inl ValueError
      else if \<not> shapes_equal old_log_prob rollout_log_prob then Inl ValueError
      else if \<not> shapes_equal old_log_prob response_mask then Inl ValueError
      else
       (let log_ratio = mzip (-) old_log_prob rollout_log_prob
        in bind_res (case rc_rollout_is config of
               Some level \<Rightarrow>
                 if rc_is_threshold config = No_threshold then Inr (None, [])
                 else bind_res (compute_rollout_correction_weights others log_ratio response_mask level
                        (rc_is_threshold config) (rc_batch_normalize config)) (\<lambda>(w, ms). Inr (Some w, ms))
             | None \<Rightarrow> Inr (None, [])) (\<lambda>(weights, is_metrics).
           bind_res (case rc_rollout_rs config of
               None \<Rightarrow> Inr (response_mask, [])
             | Some rs \<Rightarrow> if rc_rs_threshold config = No_threshold then Inl ValueError
                          else compute_rollout_rejection_mask log_ratio response_mask (Some rs) (rc_rs_threshold config)) (\<lambda>(modified, rs_metrics).
           bind_res (compute_offpolicy_metrics old_log_prob (Some rollout_log_prob) response_mask) (\<lambda>off.
           Inr (weights, modified,
                map (\<lambda>(k, v). (''rollout_corr/'' @ k, v)) (update_metrics (update_metrics is_metrics rs_metrics) off)))))))"

text \<open>The tensors of the batch that the correction reads and writes; \<open>union\<close> refuses weights that differ from those already there.\<close>

record corr_batch =
  cb_old_log_probs :: "matrix option"
  cb_rollout_log_probs :: "matrix option"
  cb_response_mask :: matrix
  cb_rollout_is_weights :: "matrix option"

definition compute_rollout_correction_and_add_to_batch ::
  "(real \<times> real) option \<Rightarrow> correction_config \<Rightarrow> corr_batch \<Rightarrow> (corr_batch \<times> metrics) result" where
  "compute_rollout_correction_and_add_to_batch others config batch =
     (case (cb_old_log_probs batch, cb_rollout_log_probs batch) of
        (Some old, Some rollout) \<Rightarrow>
          bind_res (compute_rollout_correction_and_rejection_mask others config old rollout (cb_response_mask batch)) (\<lambda>(weights, modified, ms).
            let batch' = batch\<lparr> cb_response_mask := modified \<rparr>
            in case weights of
                 None \<Rightarrow> Inr (batch', ms)
               | Some w \<Rightarrow> asserting (cb_rollout_is_weights batch' \<in> {None, Some w})
                             (Inr (batch'\<lparr> cb_rollout_is_weights := Some w \<rparr>, ms)))
      | _ \<Rightarrow> Inl KeyError)"

definition compute_rollout_corr_metrics_from_logprobs :: "matrix \<Rightarrow> matrix \<Rightarrow> matrix \<Rightarrow> metrics result" where
  "compute_rollout_corr_metrics_from_logprobs log_prob rollout_log_prob response_mask =
     bind_res (compute_offpolicy_metrics log_prob (Some rollout_log_prob) response_mask) (\<lambda>ms.
       Inr (map (\<lambda>(k, v). (''rollout_corr/'' @ k, v)) ms))"

record policy_loss_config =
  plc_loss_mode :: str
  plc_rollout_correction :: "correction_config option"

definition apply_bypass_mode :: "corr_batch \<Rightarrow> correction_config option \<Rightarrow> policy_loss_config \<Rightarrow> (corr_batch \<times> policy_loss_config) result" where
  "apply_bypass_mode batch rollout_corr_config plc =
     (case cb_rollout_log_probs batch of
        None \<Rightarrow> Inl ValueError
      | Some lp \<Rightarrow> Inr (batch\<lparr> cb_old_log_probs := Some lp \<rparr>,
                        plc\<lparr> plc_rollout_correction := rollout_corr_config, plc_loss_mode := ''bypass_mode'' \<rparr>))"

section \<open>What is rejected\<close>

named_theorems corr_simps

lemma mzip_nth [corr_simps]:
  "i < length a \<Longrightarrow> i < length b \<Longrightarrow> t < length (a ! i) \<Longrightarrow> t < length (b ! i) \<Longrightarrow> mzip f a b ! i ! t = f (a ! i ! t) (b ! i ! t)"
  by (simp add: mzip_def)

lemma shapes_equalD [corr_simps]:
  assumes "shapes_equal a b"
  shows "length a = length b" and "i < length b \<Longrightarrow> length (a ! i) = length (b ! i)"
proof -
  show "length a = length b" using arg_cong[OF assms[unfolded shapes_equal_def], of length] by simp
  then show "length (a ! i) = length (b ! i)" if "i < length b"
    using arg_cong[OF assms[unfolded shapes_equal_def], of "\<lambda>xs. xs ! i"] that by simp
qed

lemma shapes_equal_mzip:
  assumes "shapes_equal a b"
  shows "shapes_equal (mzip f a b) b"
proof -
  note d = shapes_equalD[OF assms]
  show ?thesis unfolding shapes_equal_def by (rule nth_equalityI) (simp_all add: mzip_def d)
qed

lemma option_stat_shape:
  assumes "shapes_equal log_ratio response_mask"
  shows "map length (option_stat opt log_ratio response_mask) = map length response_mask"
    and "map length (option_keep opt b log_ratio response_mask) = map length response_mask"
proof -
  show "map length (option_stat opt log_ratio response_mask) = map length response_mask"
    using shapes_equalD[OF assms] by (intro nth_equalityI) (simp_all add: option_stat_def Let_def)
  then show "map length (option_keep opt b log_ratio response_mask) = map length response_mask"
    by (simp add: option_keep_def comp_def)
qed

text \<open>Token \<open>t\<close> of row \<open>i\<close> passes an option.\<close>

definition stays :: "matrix \<Rightarrow> matrix \<Rightarrow> (str, rs_bounds) dict \<Rightarrow> nat \<Rightarrow> nat \<Rightarrow> str \<Rightarrow> bool" where
  "stays log_ratio response_mask thresholds i t opt \<longleftrightarrow>
     (\<exists>b. map_of thresholds opt = Some b \<and> passes opt b (option_stat opt log_ratio response_mask ! i ! t))"

lemma rs_option_step_Inr:
  assumes "rs_option_step log_ratio response_mask thresholds (c, ms) opt = Inr (c1, ms1)"
  shows "\<exists>b. map_of thresholds opt = Some b \<and> c1 = mzip (*) c (map (map indicator) (option_keep opt b log_ratio response_mask))"
  using assms unfolding rs_option_step_def Let_def bind_res_Inr_iff dict_index_Inr_iff fst_conv by blast

lemma rs_options_fold:
  assumes "fold_res (rs_option_step log_ratio response_mask thresholds) (c, ms) opts = Inr (c', ms')"
    and "shapes_equal log_ratio response_mask" and "shapes_equal c response_mask"
  shows "shapes_equal c' response_mask \<and> (\<forall>i < length response_mask. \<forall>t < length (response_mask ! i).
    c' ! i ! t = c ! i ! t * indicator (\<forall>opt \<in> set opts. stays log_ratio response_mask thresholds i t opt))"
  using assms(1,3)
proof (induction opts arbitrary: c ms)
  case (Cons opt opts)
  from Cons.prems(1) obtain c1 ms1 where step: "rs_option_step log_ratio response_mask thresholds (c, ms) opt = Inr (c1, ms1)"
      and rest: "fold_res (rs_option_step log_ratio response_mask thresholds) (c1, ms1) opts = Inr (c', ms')"
    by (auto simp: bind_res_Inr_iff)
  from rs_option_step_Inr[OF step] obtain b where b: "map_of thresholds opt = Some b"
      and c1: "c1 = mzip (*) c (map (map indicator) (option_keep opt b log_ratio response_mask))" by blast
  let ?keep = "option_keep opt b log_ratio response_mask"
  have shape: "shapes_equal (map (map indicator) ?keep) response_mask"
    using option_stat_shape(2)[OF assms(2)] by (simp add: shapes_equal_def comp_def)
  then have c1_shape: "shapes_equal c1 response_mask"
    unfolding c1 using shapes_equal_mzip Cons.prems(2) by (metis shapes_equal_def)
  have "c1 ! i ! t = c ! i ! t * indicator (stays log_ratio response_mask thresholds i t opt)"
    if "i < length response_mask" "t < length (response_mask ! i)" for i t
    using that shapes_equalD[OF shape] shapes_equalD[OF Cons.prems(2)]
      shapes_equalD[of "option_stat opt log_ratio response_mask" response_mask] option_stat_shape(1)[OF assms(2), of opt]
    by (simp add: c1 mzip_nth stays_def b option_keep_def shapes_equal_def)
  with Cons.IH[OF rest c1_shape] show ?case by (simp add: indicator_def)
qed (auto simp: indicator_def)

lemma set_first_occurrences: "set (rev (remdups (rev xs))) = set xs"
  by simp

text \<open>The threshold of an option is the one at its place, or the only one.\<close>

lemma thresholds_fold:
  assumes "fold_res (\<lambda>d (opt, s). bind_res (parse_rs_option opt s) (\<lambda>b. Inr (AList.update opt b d))) d0 ps = Inr d" and "distinct (map fst ps)"
  shows "(\<forall>(opt, s) \<in> set ps. \<exists>b. parse_rs_option opt s = Inr b \<and> map_of d opt = Some b) \<and>
    (\<forall>opt. opt \<notin> fst ` set ps \<longrightarrow> map_of d opt = map_of d0 opt)"
  using assms
proof (induction ps arbitrary: d0)
  case (Cons p ps)
  obtain opt s where p: "p = (opt, s)" by force
  obtain b where b: "parse_rs_option opt s = Inr b"
      and rest: "fold_res (\<lambda>d (opt, s). bind_res (parse_rs_option opt s) (\<lambda>b. Inr (AList.update opt b d))) (AList.update opt b d0) ps = Inr d"
    using Cons.prems(1) by (auto simp: p bind_res_Inr_iff)
  from Cons.IH[OF rest] Cons.prems(2) have ih: "\<forall>(o1, s1) \<in> set ps. \<exists>b. parse_rs_option o1 s1 = Inr b \<and> map_of d o1 = Some b"
      "\<forall>o1. o1 \<notin> fst ` set ps \<longrightarrow> map_of d o1 = map_of (AList.update opt b d0) o1" and new: "opt \<notin> fst ` set ps"
    by (auto simp: p)
  have "map_of d opt = Some b" using ih(2) new by simp
  then show ?case using ih b by (auto simp: p)
qed simp

lemma thresholds_at:
  assumes "parse_rollout_rs_thresholds options threshold = Inr d" and "distinct options"
  shows "\<exists>specs. raw_specs threshold = Inr specs \<and> length specs \<in> {1, length options} \<and>
    (\<forall>j < length options. \<exists>b. parse_rs_option (options ! j) (specs ! (if length specs = 1 then 0 else j)) = Inr b \<and> map_of d (options ! j) = Some b)"
proof -
  obtain specs where specs: "raw_specs threshold = Inr specs" "specs \<noteq> []" "length specs \<in> {1, length options}"
    and fold: "fold_res (\<lambda>d (opt, s). bind_res (parse_rs_option opt s) (\<lambda>b. Inr (AList.update opt b d))) []
      (zip options (if length specs = 1 \<and> 1 < length options then replicate (length options) (hd specs) else specs)) = Inr d"
    using assms(1) by (auto simp: parse_rollout_rs_thresholds_def bind_res_Inr_iff Let_def split: if_splits)
  let ?specs = "if length specs = 1 \<and> 1 < length options then replicate (length options) (hd specs) else specs"
  have "distinct (map fst (zip options ?specs))" using assms(2) by (simp add: map_fst_zip_take distinct_take)
  note f = conjunct1[OF thresholds_fold[OF fold this]]
  have "\<exists>b. parse_rs_option (options ! j) (specs ! (if length specs = 1 then 0 else j)) = Inr b \<and> map_of d (options ! j) = Some b"
    if j: "j < length options" for j
  proof -
    have len: "j < length ?specs" using j specs(3) by auto
    have "?specs ! j = specs ! (if length specs = 1 then 0 else j)" using j specs(2,3) by (cases j) (auto simp: hd_conv_nth)
    moreover have "(options ! j, ?specs ! j) \<in> set (zip options ?specs)" using j len by (auto simp: set_zip)
    ultimately show ?thesis using f by fastforce
  qed
  then show ?thesis using specs(1,3) by blast
qed

lemma parse_rs_option_bounds:
  "parse_rs_option opt spec = Inr (lo, hi) \<Longrightarrow> 0 < hi \<and> (ends_with opt ''k1'' \<longrightarrow> (\<exists>l. lo = Some l \<and> 0 < l))"
  by (auto simp: parse_rs_option_def bind_res_Inr_iff split: if_splits)

text \<open>
  The criteria, written out: the three divergence estimates of the clamped log-ratio of a token, what an option makes of them over the
  valid tokens of the row, and its bounds.  Those of the \<open>k1\<close> options are on the exponential of the estimate.
\<close>

definition divergence :: "nat \<Rightarrow> real \<Rightarrow> real" where
  "divergence k x = (let c = max (- 20) (min 20 x) in if k = 1 then - c else if k = 2 then c * c / 2 else exp c - (1 + c))"

definition live_tokens :: "real list \<Rightarrow> nat set" where
  "live_tokens m = {u. u < length m \<and> m ! u \<noteq> 0}"

definition token_divergence :: "nat \<Rightarrow> real list \<Rightarrow> real list \<Rightarrow> nat \<Rightarrow> real" where
  "token_divergence k lr m t = divergence k (lr ! t)"

definition sum_divergence :: "nat \<Rightarrow> real list \<Rightarrow> real list \<Rightarrow> nat \<Rightarrow> real" where
  "sum_divergence k lr m t = (\<Sum>u \<in> live_tokens m. m ! u * divergence k (lr ! u))"

definition mean_divergence :: "nat \<Rightarrow> real list \<Rightarrow> real list \<Rightarrow> nat \<Rightarrow> real" where
  "mean_divergence k lr m t = sum_divergence k lr m t / ((\<Sum>u \<in> live_tokens m. m ! u) + 1 / 10 ^ 8)"

definition max_divergence :: "nat \<Rightarrow> real list \<Rightarrow> real list \<Rightarrow> nat \<Rightarrow> real" where
  "max_divergence k lr m t = (if live_tokens m = {} then 0 else Max ((\<lambda>u. divergence k (lr ! u)) ` live_tokens m))"

definition trusted :: "str \<Rightarrow> rs_bounds \<Rightarrow> real list \<Rightarrow> real list \<Rightarrow> nat \<Rightarrow> bool" where
  "trusted opt bounds lr m t \<longleftrightarrow>
     (case bounds of (lo, hi) \<Rightarrow>
        (opt = ''token_k1'' \<longrightarrow> the lo \<le> exp (token_divergence 1 lr m t) \<and> exp (token_divergence 1 lr m t) \<le> hi) \<and>
        (opt = ''token_k2'' \<longrightarrow> token_divergence 2 lr m t \<le> hi) \<and> (opt = ''token_k3'' \<longrightarrow> token_divergence 3 lr m t \<le> hi) \<and>
        (opt = ''seq_sum_k1'' \<longrightarrow> the lo \<le> exp (sum_divergence 1 lr m t) \<and> exp (sum_divergence 1 lr m t) \<le> hi) \<and>
        (opt = ''seq_sum_k2'' \<longrightarrow> sum_divergence 2 lr m t \<le> hi) \<and> (opt = ''seq_sum_k3'' \<longrightarrow> sum_divergence 3 lr m t \<le> hi) \<and>
        (opt = ''seq_mean_k1'' \<longrightarrow> the lo \<le> exp (mean_divergence 1 lr m t) \<and> exp (mean_divergence 1 lr m t) \<le> hi) \<and>
        (opt = ''seq_mean_k2'' \<longrightarrow> mean_divergence 2 lr m t \<le> hi) \<and> (opt = ''seq_mean_k3'' \<longrightarrow> mean_divergence 3 lr m t \<le> hi) \<and>
        (opt = ''seq_max_k2'' \<longrightarrow> max_divergence 2 lr m t \<le> hi) \<and> (opt = ''seq_max_k3'' \<longrightarrow> max_divergence 3 lr m t \<le> hi))"

lemma k_stat_divergence:
  "ends_with opt ''k1'' \<Longrightarrow> k_stat opt x = divergence 1 x"
  "\<not> ends_with opt ''k1'' \<Longrightarrow> ends_with opt ''k2'' \<Longrightarrow> k_stat opt x = divergence 2 x"
  "\<not> ends_with opt ''k1'' \<Longrightarrow> \<not> ends_with opt ''k2'' \<Longrightarrow> k_stat opt x = divergence 3 x"
proof -
  have "clamp (- 20) 20 x = max (- 20) (min 20 x)" by (simp add: clamp_def min_def max_def)
  then show "ends_with opt ''k1'' \<Longrightarrow> k_stat opt x = divergence 1 x"
    "\<not> ends_with opt ''k1'' \<Longrightarrow> ends_with opt ''k2'' \<Longrightarrow> k_stat opt x = divergence 2 x"
    "\<not> ends_with opt ''k1'' \<Longrightarrow> \<not> ends_with opt ''k2'' \<Longrightarrow> k_stat opt x = divergence 3 x"
    by (simp_all add: k_stat_def divergence_def Let_def power2_eq_square)
qed

lemma masked_sum1_valid:
  assumes "length vals = length m"
  shows "masked_sum1 vals m = (\<Sum>u \<in> live_tokens m. m ! u * vals ! u)"
proof -
  have "masked_sum1 vals m = (\<Sum>u < length m. if m ! u \<noteq> 0 then m ! u * vals ! u else 0)"
    unfolding masked_sum1_def sum_list_sum_nth using assms by (auto simp: atLeast0LessThan intro!: sum.cong)
  also have "\<dots> = (\<Sum>u \<in> live_tokens m. m ! u * vals ! u)"
    unfolding live_tokens_def by (intro sum.mono_neutral_cong_right) auto
  finally show ?thesis .
qed

lemma row_masked_mean_valid:
  assumes "length vals = length m"
  shows "row_masked_mean vals m = (\<Sum>u \<in> live_tokens m. m ! u * vals ! u) / ((\<Sum>u \<in> live_tokens m. m ! u) + 1 / 10 ^ 8)"
proof -
  have "sum_list m = (\<Sum>u \<in> live_tokens m. m ! u)"
    unfolding sum_list_sum_nth live_tokens_def by (intro sum.mono_neutral_cong_right) auto
  then show ?thesis by (simp add: row_masked_mean_def masked_sum1_valid[OF assms])
qed

lemma row_masked_max_valid:
  assumes "length vals = length m"
  shows "row_masked_max vals m = (if live_tokens m = {} then 0 else Max ((\<lambda>u. vals ! u) ` live_tokens m))"
proof -
  have "set (valid_of vals m) = (\<lambda>u. vals ! u) ` live_tokens m"
    unfolding valid_of_def live_tokens_def using assms by (auto simp: set_zip image_iff) (metis fst_conv snd_conv)
  moreover from this have "valid_of vals m = [] \<longleftrightarrow> live_tokens m = {}" by (metis image_is_empty set_empty)
  ultimately show ?thesis by (simp add: row_masked_max_def Let_def)
qed

lemma trusted_iff:
  assumes "shapes_equal log_ratio response_mask" and i: "i < length response_mask" and t: "t < length (response_mask ! i)"
    and opt: "opt \<in> set SUPPORTED_ROLLOUT_RS_OPTIONS" and b: "0 < snd b" "ends_with opt ''k1'' \<longrightarrow> (\<exists>l. fst b = Some l \<and> 0 < l)"
  shows "passes opt b (option_stat opt log_ratio response_mask ! i ! t) \<longleftrightarrow> trusted opt b (log_ratio ! i) (response_mask ! i) t"
proof -
  let ?lr = "log_ratio ! i" and ?m = "response_mask ! i"
  have len: "length log_ratio = length response_mask" "length ?lr = length ?m" using shapes_equalD[OF assms(1)] i by simp_all
  have stat: "option_stat opt log_ratio response_mask ! i ! t =
      (if opt \<in> set TOKEN_LEVEL_ROLLOUT_RS_OPTIONS then k_stat opt (?lr ! t) else seq_stat opt (map (k_stat opt) ?lr) ?m)"
    using i t len by (simp add: option_stat_def Let_def)
  have below: "u \<in> live_tokens ?m \<Longrightarrow> u < length ?lr" for u using len by (simp add: live_tokens_def)
  have lens: "length (map (k_stat opt) ?lr) = length ?m" using len by simp
  have sums: "masked_sum1 (map (k_stat opt) ?lr) ?m = (\<Sum>u \<in> live_tokens ?m. ?m ! u * k_stat opt (?lr ! u))"
      "row_masked_mean (map (k_stat opt) ?lr) ?m = (\<Sum>u \<in> live_tokens ?m. ?m ! u * k_stat opt (?lr ! u)) / ((\<Sum>u \<in> live_tokens ?m. ?m ! u) + 1 / 10 ^ 8)"
    unfolding masked_sum1_valid[OF lens] row_masked_mean_valid[OF lens] using below by (simp_all cong: sum.cong)
  have mx: "row_masked_max (map (k_stat opt) ?lr) ?m =
      (if live_tokens ?m = {} then 0 else Max ((\<lambda>u. k_stat opt (?lr ! u)) ` live_tokens ?m))"
    unfolding row_masked_max_valid[OF lens] using below by (simp cong: image_cong)
  have bounds: "ln lo \<le> v \<longleftrightarrow> lo \<le> exp v" "v \<le> ln hi \<longleftrightarrow> exp v \<le> hi" if "0 < lo" "0 < hi" for lo hi v :: real
    using that exp_le_cancel_iff[of "ln lo" v] exp_le_cancel_iff[of v "ln hi"] by simp_all
  obtain lo hi where bb: "b = (lo, hi)" by force
  note facts = k_stat_divergence passes_def trusted_def token_divergence_def sum_divergence_def mean_divergence_def max_divergence_def
    TOKEN_LEVEL_ROLLOUT_RS_OPTIONS_def ends_with_def
  have "opt = ''token_k1'' \<or> opt = ''token_k2'' \<or> opt = ''token_k3'' \<or> opt = ''seq_sum_k1'' \<or> opt = ''seq_sum_k2'' \<or> opt = ''seq_sum_k3''
    \<or> opt = ''seq_mean_k1'' \<or> opt = ''seq_mean_k2'' \<or> opt = ''seq_mean_k3'' \<or> opt = ''seq_max_k2'' \<or> opt = ''seq_max_k3''"
    using opt unfolding SUPPORTED_ROLLOUT_RS_OPTIONS_def by (simp only: list.set insert_iff empty_iff simp_thms)
  then show ?thesis unfolding stat seq_stat_def sums mx
    by (elim disjE; use b in \<open>auto simp: facts bb bounds\<close>)
qed

lemma rejection_mask_parts:
  assumes "compute_rollout_rejection_mask log_ratio response_mask (Some rs) threshold = Inr (modified, ms)"
    and "shapes_equal log_ratio response_mask" and "response_mask \<noteq> []"
    and "opts = filter (\<lambda>o1. o1 \<noteq> []) (map strip (split_on '','' rs))"
  shows "set opts \<subseteq> set SUPPORTED_ROLLOUT_RS_OPTIONS \<and> opts \<noteq> [] \<and>
    (\<exists>thresholds. parse_rollout_rs_thresholds (rev (remdups (rev opts))) threshold = Inr thresholds \<and>
      (\<forall>i < length response_mask. \<forall>t < length (response_mask ! i).
        modified ! i ! t = (if \<forall>opt \<in> set opts. stays log_ratio response_mask thresholds i t opt
                            then response_mask ! i ! t else 0)))"
proof -
  have ne: "log_ratio \<noteq> []" using assms(2,3) shapes_equalD(1)[OF assms(2)] by auto
  from assms(1) obtain thresholds final ms1 where
      ok: "opts \<noteq> []" "set opts \<subseteq> set SUPPORTED_ROLLOUT_RS_OPTIONS"
      and thr: "parse_rollout_rs_thresholds (rev (remdups (rev opts))) threshold = Inr thresholds"
      and fold: "fold_res (rs_option_step log_ratio response_mask thresholds) (map (map (\<lambda>_. 1)) response_mask, [])
        (rev (remdups (rev opts))) = Inr (final, ms1)"
      and modified: "modified = mzip (*) response_mask final"
    unfolding compute_rollout_rejection_mask_def option.case assms(4)[symmetric]
    using ne by (auto simp: bind_res_Inr_iff Let_def split: if_splits)
  have ones: "shapes_equal (map (map (\<lambda>_. 1)) response_mask) response_mask" by (simp add: shapes_equal_def comp_def)
  note f = rs_options_fold[OF fold assms(2) ones]
  have "modified ! i ! t = (if \<forall>opt \<in> set opts. stays log_ratio response_mask thresholds i t opt then response_mask ! i ! t else 0)"
    if "i < length response_mask" "t < length (response_mask ! i)" for i t
    using that f shapes_equalD[of final response_mask] by (simp add: modified mzip_nth indicator_def)
  then show ?thesis using ok thr by blast
qed

text \<open>
  C29: a token keeps its weight in the mask exactly when it passes every requested option, and is set to zero otherwise.  The
  options are those of the comma-separated list, in the order of their first occurrence, and the bounds of each are read from the
  threshold at its place, or from the only one.  Of the clamped log-ratio \<open>x\<close> of training to rollout probability of a token, \<open>k1\<close> is
  \<open>- x\<close>, \<open>k2\<close> is \<open>x\<^sup>2 / 2\<close> and \<open>k3\<close> is \<open>exp x - 1 - x\<close>; a token is judged by its own value, or with all of its row by the sum, the mean
  or the maximum over the valid tokens; \<open>k2\<close> and \<open>k3\<close> have an upper bound, and the exponential of \<open>k1\<close> lies between the two bounds, so
  that these bound the inverse of the ratio, not the ratio as the documentation of the function says.
\<close>

theorem rejection_mask_correct:
  assumes run: "compute_rollout_rejection_mask log_ratio response_mask (Some rs) threshold = Inr (modified, ms)"
    and shape: "shapes_equal log_ratio response_mask" and "response_mask \<noteq> []"
    and opts: "opts = rev (remdups (rev (filter (\<lambda>o1. o1 \<noteq> []) (map strip (split_on '','' rs)))))"
  shows "opts \<noteq> [] \<and> set opts \<subseteq> set SUPPORTED_ROLLOUT_RS_OPTIONS \<and>
    (\<exists>specs bounds. raw_specs threshold = Inr specs \<and> length specs \<in> {1, length opts} \<and>
      (\<forall>j < length opts. parse_rs_option (opts ! j) (specs ! (if length specs = 1 then 0 else j)) = Inr (bounds (opts ! j))) \<and>
      (\<forall>i < length response_mask. \<forall>t < length (response_mask ! i).
        modified ! i ! t = (if \<forall>opt \<in> set opts. trusted opt (bounds opt) (log_ratio ! i) (response_mask ! i) t
                            then response_mask ! i ! t else 0)))"
proof -
  have set_opts: "set opts = set (filter (\<lambda>o1. o1 \<noteq> []) (map strip (split_on '','' rs)))" unfolding opts by (rule set_first_occurrences)
  obtain thresholds where ok: "opts \<noteq> []" "set opts \<subseteq> set SUPPORTED_ROLLOUT_RS_OPTIONS"
    and thr: "parse_rollout_rs_thresholds opts threshold = Inr thresholds"
    and mask: "\<forall>i < length response_mask. \<forall>t < length (response_mask ! i).
        modified ! i ! t = (if \<forall>opt \<in> set opts. stays log_ratio response_mask thresholds i t opt then response_mask ! i ! t else 0)"
    using rejection_mask_parts[OF run shape assms(3) refl] set_opts unfolding opts by (metis (no_types, lifting) set_empty)
  define bounds where "bounds = (\<lambda>opt. the (map_of thresholds opt))"
  have "distinct opts" by (simp add: opts)
  from thresholds_at[OF thr this] obtain specs where specs: "raw_specs threshold = Inr specs" "length specs \<in> {1, length opts}"
    and at: "\<forall>j < length opts. \<exists>b. parse_rs_option (opts ! j) (specs ! (if length specs = 1 then 0 else j)) = Inr b \<and> map_of thresholds (opts ! j) = Some b"
    by blast
  have parsed: "\<forall>j < length opts. parse_rs_option (opts ! j) (specs ! (if length specs = 1 then 0 else j)) = Inr (bounds (opts ! j))"
    using at by (auto simp: bounds_def)
  have "stays log_ratio response_mask thresholds i t opt \<longleftrightarrow> trusted opt (bounds opt) (log_ratio ! i) (response_mask ! i) t"
    if o: "opt \<in> set opts" and i: "i < length response_mask" and t: "t < length (response_mask ! i)" for i t opt
  proof -
    obtain j where j: "j < length opts" "opt = opts ! j" using o by (auto simp: in_set_conv_nth)
    obtain b where b: "parse_rs_option opt (specs ! (if length specs = 1 then 0 else j)) = Inr b" "map_of thresholds opt = Some b"
      using at j by blast
    have "0 < snd b" "ends_with opt ''k1'' \<longrightarrow> (\<exists>l. fst b = Some l \<and> 0 < l)"
      using parse_rs_option_bounds[of opt _ "fst b" "snd b"] b(1) by simp_all
    from trusted_iff[OF shape i t _ this] o ok(2) show ?thesis by (auto simp: stays_def b(2) bounds_def)
  qed
  then have "\<forall>i < length response_mask. \<forall>t < length (response_mask ! i).
      modified ! i ! t = (if \<forall>opt \<in> set opts. trusted opt (bounds opt) (log_ratio ! i) (response_mask ! i) t then response_mask ! i ! t else 0)"
    using mask by auto
  with ok specs parsed show ?thesis by blast
qed

lemma option_stat_token:
  assumes "shapes_equal log_ratio response_mask" and "i < length response_mask" and "t < length (response_mask ! i)"
  shows "option_stat ''token_k1'' log_ratio response_mask ! i ! t = - clamp (- 20) 20 (log_ratio ! i ! t)"
proof -
  have "ends_with ''token_k1'' ''k1''" by (simp add: ends_with_def)
  then show ?thesis
    using assms shapes_equalD[OF assms(1)] by (simp add: option_stat_def k_stat_def TOKEN_LEVEL_ROLLOUT_RS_OPTIONS_def)
qed

lemma token_k1_split: "filter (\<lambda>o1. o1 \<noteq> []) (map strip (split_on '','' ''token_k1'')) = [''token_k1'']"
  by (simp add: split_on.simps[of "'',''" "''token_k1''"] strip_def is_space_def)

text \<open>
  The bounds of \<open>token_k1\<close> are bounds of the inverse ratio: with bounds \<open>lo\<close> and \<open>hi\<close> a token stays exactly when the ratio of its
  probabilities under training and rollout lies between \<open>1/hi\<close> and \<open>1/lo\<close>.
\<close>

theorem token_k1_bounds_invert_ratio:
  assumes "compute_rollout_rejection_mask log_ratio response_mask (Some ''token_k1'') (Str_threshold spec) = Inr (modified, ms)"
    and "shapes_equal log_ratio response_mask"
    and bounds: "parse_rollout_rs_thresholds [''token_k1''] (Str_threshold spec) = Inr [(''token_k1'', (Some lo, hi))]" "0 < lo" "0 < hi"
    and i: "i < length response_mask" and t: "t < length (response_mask ! i)" and x: "\<bar>log_ratio ! i ! t\<bar> \<le> 20"
  shows "modified ! i ! t = (if 1 / hi \<le> exp (log_ratio ! i ! t) \<and> exp (log_ratio ! i ! t) \<le> 1 / lo then response_mask ! i ! t else 0)"
proof -
  let ?x = "log_ratio ! i ! t"
  have ne: "response_mask \<noteq> []" using i by auto
  have "ends_with ''token_k1'' ''k1''" by (simp add: ends_with_def)
  then have "stays log_ratio response_mask [(''token_k1'', (Some lo, hi))] i t ''token_k1'' \<longleftrightarrow> ln lo \<le> - ?x \<and> - ?x \<le> ln hi"
    using option_stat_token[OF assms(2) i t] x by (simp add: stays_def passes_def clamp_def)
  also have "\<dots> \<longleftrightarrow> lo \<le> exp (- ?x) \<and> exp (- ?x) \<le> hi"
    using bounds(2,3) ln_le_cancel_iff[of lo "exp (- ?x)"] by (simp add: ln_ge_iff)
  also have "\<dots> \<longleftrightarrow> 1 / hi \<le> exp ?x \<and> exp ?x \<le> 1 / lo"
    using bounds(2,3) by (auto simp: exp_minus field_simps)
  finally have iff: "stays log_ratio response_mask [(''token_k1'', (Some lo, hi))] i t ''token_k1'' \<longleftrightarrow> 1 / hi \<le> exp ?x \<and> exp ?x \<le> 1 / lo" .
  show ?thesis
    using rejection_mask_parts[OF assms(1,2) ne token_k1_split[symmetric]] bounds(1) i t iff by auto
qed

section \<open>Bounds of the weights\<close>

definition binary :: "matrix \<Rightarrow> bool" where
  "binary msk \<longleftrightarrow> (\<forall>row \<in> set msk. \<forall>m \<in> set row. m = 0 \<or> m = 1)"

lemma raw_weights_nth:
  assumes "shapes_equal log_ratio response_mask" and "i < length response_mask" and "t < length (response_mask ! i)"
  shows "\<exists>e > 0. raw_weights level log_ratio response_mask ! i ! t = e * response_mask ! i ! t"
proof (cases "level = ''token''")
  case True
  then show ?thesis
    using assms shapes_equalD[OF assms(1)]
    by (intro exI[of _ "exp (clamp (- 20) 20 (log_ratio ! i ! t))"]) (simp add: raw_weights_def mzip_nth)
next
  case False
  then show ?thesis
    using assms shapes_equalD[OF assms(1)]
    by (intro exI[of _ "exp (clamp (- 20) 20 (masked_sum1 (log_ratio ! i) (response_mask ! i)))"]) (simp add: raw_weights_def)
qed

lemma raw_weights_shape:
  assumes "shapes_equal log_ratio response_mask"
  shows "map length (raw_weights level log_ratio response_mask) = map length response_mask"
  using shapes_equalD[OF assms] by (cases "level = ''token''"; intro nth_equalityI) (simp_all add: raw_weights_def mzip_def)

lemma parse_is_bounds:
  assumes "parse_rollout_is_threshold spec = Inr (hi, lo)"
  shows "0 < hi \<and> (\<forall>l. lo = Some l \<longrightarrow> 0 < l \<and> l \<le> hi)"
proof -
  have "check_is_bounds a b = Inr (hi, lo) \<Longrightarrow> ?thesis" for a b
    by (auto simp: check_is_bounds_def split: if_splits option.splits)
  then show ?thesis
    using assms by (cases spec) (auto simp: bind_res_Inr_iff case_prod_unfold Let_def split: if_splits)
qed

lemma unnormalised_weights:
  assumes "compute_rollout_correction_weights others log_ratio response_mask level spec False = Inr (weights, ms)"
  shows "\<exists>bounds. parse_rollout_is_threshold spec = Inr bounds \<and>
    weights = map (map (applied_weight bounds)) (raw_weights level log_ratio response_mask)"
  using assms by (auto simp: compute_rollout_correction_weights_def bind_res_Inr_iff Let_def split: if_splits)

text \<open>
  The importance weights are bounded: not negative, at most the upper threshold, zero on padding, and with a lower threshold
  either zero or at least that threshold.
\<close>

theorem correction_weights_bounded:
  assumes w: "compute_rollout_correction_weights others log_ratio response_mask level spec False = Inr (weights, ms)"
    and shape: "shapes_equal log_ratio response_mask" and bin: "binary response_mask"
    and i: "i < length response_mask" and t: "t < length (response_mask ! i)"
  shows "\<exists>hi lo. parse_rollout_is_threshold spec = Inr (hi, lo) \<and> 0 < hi \<and>
    0 \<le> weights ! i ! t \<and> weights ! i ! t \<le> hi \<and> (response_mask ! i ! t = 0 \<longrightarrow> weights ! i ! t = 0) \<and>
    (\<forall>l. lo = Some l \<longrightarrow> weights ! i ! t = 0 \<or> l \<le> weights ! i ! t)"
proof -
  obtain hi lo where b: "parse_rollout_is_threshold spec = Inr (hi, lo)"
      and weights: "weights = map (map (applied_weight (hi, lo))) (raw_weights level log_ratio response_mask)"
    using unnormalised_weights[OF w] by auto
  obtain e where e: "0 < e" "raw_weights level log_ratio response_mask ! i ! t = e * response_mask ! i ! t"
    using raw_weights_nth[OF shape i t] by blast
  have m: "response_mask ! i ! t = 0 \<or> response_mask ! i ! t = 1" using bin nth_mem[OF i] nth_mem[OF t] unfolding binary_def by blast
  note sh = shapes_equalD[of "raw_weights level log_ratio response_mask" response_mask]
  have "weights ! i ! t = applied_weight (hi, lo) (e * response_mask ! i ! t)"
    using sh raw_weights_shape[OF shape, of level] i t e(2) by (simp add: weights shapes_equal_def)
  then show ?thesis
    using b parse_is_bounds[OF b] m e(1) by (auto simp: applied_weight_def split: option.split)
qed

section \<open>A batch whose weights are all zeroed\<close>

lemma masked_sum1_zeros: "\<forall>v \<in> set vals. v = 0 \<Longrightarrow> masked_sum1 vals msk = 0"
  unfolding masked_sum1_def by (induction vals msk rule: list_induct2') auto

lemma masked_mean_zeros: "\<forall>row \<in> set vals. \<forall>v \<in> set row. v = 0 \<Longrightarrow> masked_mean vals msk = 0"
proof -
  assume "\<forall>row \<in> set vals. \<forall>v \<in> set row. v = 0"
  then have "masked_sum vals msk = 0"
    unfolding masked_sum_def by (induction vals msk rule: list_induct2') (auto simp: masked_sum1_zeros)
  then show ?thesis by (simp add: masked_mean_def)
qed

text \<open>
  The weights of a batch cannot be computed when the lower threshold zeroes all of them: the effective sample size in the
  diagnostics is \<open>1.0 / 0.0\<close>, which raises.
\<close>

theorem zeroed_weights_raise:
  assumes level: "level \<in> {''token'', ''sequence''}" and bounds: "parse_rollout_is_threshold spec = Inr (hi, Some lo)"
    and "any_valid response_mask"
    and out: "\<forall>row \<in> set (raw_weights level log_ratio response_mask). \<forall>w \<in> set row. w < lo \<or> hi < w"
  shows "compute_rollout_correction_weights others log_ratio response_mask level spec batch_norm = Inl ZeroDivisionError"
proof -
  let ?w = "map (map (applied_weight (hi, Some lo))) (raw_weights level log_ratio response_mask)"
  have "0 < hi" using parse_is_bounds[OF bounds] by simp
  have zero: "\<forall>row \<in> set ?w. \<forall>w \<in> set row. w = 0"
    using out by (fastforce simp: applied_weight_def)
  define ess where "ess = map (map (clamp 0 hi)) ?w"
  have "\<forall>row \<in> set ess. \<forall>w \<in> set row. w = 0"
    unfolding ess_def using zero \<open>0 < hi\<close> by (fastforce simp: clamp_def)
  then have "masked_mean (map (map (\<lambda>w. (w / (c + 1 / 10 ^ 8)) ^ 2)) ess) response_mask = 0" for c
    by (intro masked_mean_zeros) (auto simp: power2_eq_square)
  then have "compute_is_metrics ?w (raw_weights level log_ratio response_mask) log_ratio response_mask level hi (Some lo) = Inl ZeroDivisionError"
    unfolding compute_is_metrics_def Let_def ess_def[symmetric] using assms(3) by simp
  then show ?thesis
    using level unfolding compute_rollout_correction_weights_def bounds bind_res_simps Let_def fst_conv snd_conv by auto
qed

section \<open>Normalised weights\<close>

lemma masked_sum_div: "masked_sum (map (map (\<lambda>w. w / c)) vals) msk = masked_sum vals msk / c"
proof -
  have row: "masked_sum1 (map (\<lambda>w. w / c) v) m = masked_sum1 v m / c" for v m
    unfolding masked_sum1_def by (induction v m rule: list_induct2') (auto simp: add_divide_distrib)
  show ?thesis unfolding masked_sum_def by (induction vals msk rule: list_induct2') (auto simp: row add_divide_distrib)
qed

lemma masked_mean_div: "masked_mean (map (map (\<lambda>w. w / c)) vals) msk = masked_mean vals msk / c"
  by (simp add: masked_mean_def masked_sum_div)

text \<open>
  Batch normalisation gives token weights with mean one, unless their mean was almost zero, in which case they are unchanged.
\<close>

theorem normalised_weights_mean_one:
  assumes "compute_rollout_correction_weights None log_ratio response_mask ''token'' spec True = Inr (weights, ms)"
  shows "masked_mean weights response_mask = 1 \<or> masked_mean weights response_mask \<le> 1 / 10 ^ 8"
proof -
  have "\<exists>w0 ms0. normalise_weights (masked_mean w0 response_mask) (w0, ms0) = (weights, ms)"
    using assms by (auto simp: compute_rollout_correction_weights_def bind_res_Inr_iff Let_def weights_mean_def)
  then obtain w0 ms0 where w0: "normalise_weights (masked_mean w0 response_mask) (w0, ms0) = (weights, ms)" by blast
  show ?thesis
  proof (cases "1 / 10 ^ 8 < masked_mean w0 response_mask")
    case True
    then have "masked_mean w0 response_mask \<noteq> 0" by auto
    then have "masked_mean (map (map (\<lambda>w. w / masked_mean w0 response_mask)) w0) response_mask = 1"
      unfolding masked_mean_div by simp
    then show ?thesis using True w0 by (simp add: normalise_weights_def)
  next
    case False
    then show ?thesis using w0 by (simp add: normalise_weights_def)
  qed
qed

section \<open>Witnesses\<close>

lemma k1_bounds_example: "parse_rollout_rs_thresholds [''token_k1''] (Str_threshold ''0.5_4'') = Inr [(''token_k1'', (Some (1 / 2), 4))]"
  by (simp add: parse_rollout_rs_thresholds_def parse_rs_option_def strip_def is_space_def split_on.simps ends_with_def Let_def
      split_underscore_def float_or_error_def py_float_def signed_def unsigned_float_def digits_value_def is_digit_def)

lemma rejection_example:
  "\<exists>modified ms. compute_rollout_rejection_mask [[ln 3]] [[1]] (Some ''token_k1'') (Str_threshold ''0.5_4'') = Inr (modified, ms)"
  by (simp add: compute_rollout_rejection_mask_def token_k1_split SUPPORTED_ROLLOUT_RS_OPTIONS_def k1_bounds_example
      rs_option_step_def compute_rs_metrics_def any_valid_def Let_def dict_index_def)

theorem rejection_mask_correct_witness:
  "\<exists>modified ms lo hi. compute_rollout_rejection_mask [[ln 3]] [[1]] (Some ''token_k1'') (Str_threshold ''0.5_4'') = Inr (modified, ms) \<and>
    modified ! 0 ! 0 = (if trusted ''token_k1'' (lo, hi) [ln 3] [1] 0 then 1 else 0)"
proof -
  obtain modified ms where r: "compute_rollout_rejection_mask [[ln 3]] [[1]] (Some ''token_k1'') (Str_threshold ''0.5_4'') = Inr (modified, ms)"
    using rejection_example by blast
  have "shapes_equal [[ln 3]] [[1]]" by (simp add: shapes_equal_def)
  from rejection_mask_correct[OF r this _ refl] obtain bounds :: "str \<Rightarrow> rs_bounds" where
    "modified ! 0 ! 0 = (if trusted ''token_k1'' (bounds ''token_k1'') [ln 3] [1] 0 then 1 else 0)"
    by (auto simp: token_k1_split cong: if_cong)
  with r show ?thesis by (metis surj_pair)
qed

theorem token_k1_bounds_invert_ratio_witness:
  "\<exists>modified ms. compute_rollout_rejection_mask [[ln 3]] [[1]] (Some ''token_k1'') (Str_threshold ''0.5_4'') = Inr (modified, ms) \<and>
    modified ! 0 ! 0 = 0"
proof -
  obtain modified ms where r: "compute_rollout_rejection_mask [[ln 3]] [[1]] (Some ''token_k1'') (Str_threshold ''0.5_4'') = Inr (modified, ms)"
    using rejection_example by blast
  have "ln (3 :: real) \<le> 20" using ln_le_minus_one[of 3] by simp
  then have "modified ! 0 ! 0 = (if 1 / 4 \<le> exp (ln 3 :: real) \<and> exp (ln 3 :: real) \<le> 1 / (1 / 2) then 1 else 0)"
    using token_k1_bounds_invert_ratio[OF r _ k1_bounds_example, of 0 0] by (simp add: shapes_equal_def)
  then show ?thesis using r by simp
qed

lemma weights_example:
  "\<exists>weights ms. compute_rollout_correction_weights None [[0]] [[1]] ''token'' (Num_threshold 2) norm_w = Inr (weights, ms)"
  by (simp add: compute_rollout_correction_weights_def check_is_bounds_def compute_is_metrics_def any_valid_def Let_def raw_weights_def
      applied_weight_def mzip_def clamp_def masked_mean_def masked_sum_def masked_sum1_def msum_def split: prod.split)

theorem correction_weights_bounded_witness:
  "\<exists>weights ms. compute_rollout_correction_weights None [[0]] [[1]] ''token'' (Num_threshold 2) False = Inr (weights, ms) \<and>
    0 \<le> weights ! 0 ! 0 \<and> weights ! 0 ! 0 \<le> 2"
proof -
  obtain weights ms where r: "compute_rollout_correction_weights None [[0]] [[1]] ''token'' (Num_threshold 2) False = Inr (weights, ms)"
    using weights_example by blast
  from correction_weights_bounded[OF r, of 0 0] have "0 \<le> weights ! 0 ! 0 \<and> weights ! 0 ! 0 \<le> 2"
    by (auto simp: shapes_equal_def binary_def check_is_bounds_def)
  with r show ?thesis by blast
qed

theorem zeroed_weights_raise_witness:
  "compute_rollout_correction_weights None [[0]] [[1]] ''token'' (Str_threshold ''2_4'') False = Inl ZeroDivisionError"
proof (rule zeroed_weights_raise)
  show "parse_rollout_is_threshold (Str_threshold ''2_4'') = Inr (4, Some 2)"
    by (simp add: strip_def is_space_def split_on.simps Let_def check_is_bounds_def
      split_underscore_def float_or_error_def py_float_def signed_def unsigned_float_def digits_value_def is_digit_def)
qed (simp_all add: any_valid_def raw_weights_def mzip_def clamp_def)

theorem normalised_weights_mean_one_witness:
  "\<exists>weights ms. compute_rollout_correction_weights None [[0]] [[1]] ''token'' (Num_threshold 2) True = Inr (weights, ms) \<and>
    (masked_mean weights [[1]] = 1 \<or> masked_mean weights [[1]] \<le> 1 / 10 ^ 8)"
  using weights_example[of True] normalised_weights_mean_one by blast

end
