(* ===== verification/PolicyLosses.thy ===== *)
theory PolicyLosses
  imports RolloutCorr DataProto
begin

text \<open>
  The policy losses of \<open>src/verl_new/verl/trainer/ppo/core_algos.py\<close> beside the clipped one: DPPO, GSPO, SAPO, GPG, Clip-Cov, KL-Cov,
  GMPO, CISPO, REINFORCE and the bypass mode that corrects for the rollout policy, with the entropy loss and the resampling of PF-PPO.
  A token's loss has two arguments for its log-probability: \<open>x\<close>, through which gradients flow, and \<open>d\<close>, its detached value; the
  code's value is the one with both equal.  \<open>torch.randperm\<close>, \<open>torch.topk\<close> and \<open>torch.multinomial\<close> are arguments.
\<close>

definition clip_low :: "actor_config \<Rightarrow> real" where
  "clip_low c = (case cfg_clip_ratio_low c of None \<Rightarrow> cfg_clip_ratio c | Some x \<Rightarrow> x)"

definition clip_high :: "actor_config \<Rightarrow> real" where
  "clip_high c = (case cfg_clip_ratio_high c of None \<Rightarrow> cfg_clip_ratio c | Some x \<Rightarrow> x)"

text \<open>\<open>if rollout_is_weights is not None: pg_losses = pg_losses * rollout_is_weights\<close>\<close>

definition apply_weights :: "matrix option \<Rightarrow> matrix \<Rightarrow> matrix" where
  "apply_weights w losses = (case w of None \<Rightarrow> losses | Some ws \<Rightarrow> mzip (*) losses ws)"

definition loss_metrics :: "real \<Rightarrow> real \<Rightarrow> real \<Rightarrow> metrics" where
  "loss_metrics clipfrac kl clipfrac_lower =
     [(''actor/pg_clipfrac'', clipfrac), (''actor/ppo_kl'', kl), (''actor/pg_clipfrac_lower'', clipfrac_lower)]"

definition clamped_kl :: "matrix \<Rightarrow> matrix \<Rightarrow> matrix \<Rightarrow> real" where
  "clamped_kl old_log_prob log_prob response_mask =
     masked_mean (mzip (\<lambda>o1 l. - clamp (- 20) 20 (l - o1)) old_log_prob log_prob) response_mask"

definition plain_kl :: "matrix \<Rightarrow> matrix \<Rightarrow> matrix \<Rightarrow> real" where
  "plain_kl old_log_prob log_prob response_mask = masked_mean (mzip (\<lambda>o1 l. - (l - o1)) old_log_prob log_prob) response_mask"

section \<open>DPPO\<close>

definition truncated_ratio :: "real \<Rightarrow> real \<Rightarrow> real \<Rightarrow> real" where
  "truncated_ratio clip_ratio_c o1 d = min (ratio_of o1 d) clip_ratio_c"

definition valid_tv :: "real \<Rightarrow> real \<Rightarrow> real \<Rightarrow> real \<Rightarrow> real \<Rightarrow> bool" where
  "valid_tv low high o1 d adv = (if 0 < adv then exp d - exp o1 \<le> high else - low \<le> exp d - exp o1)"

definition binary_kl :: "real \<Rightarrow> real \<Rightarrow> real" where
  "binary_kl o1 d = exp o1 * (o1 - d) + (1 - exp o1) * ln ((1 - exp o1 + 1 / 10 ^ 8) / (1 - exp d + 1 / 10 ^ 8))"

definition valid_kl :: "real \<Rightarrow> real \<Rightarrow> real \<Rightarrow> real \<Rightarrow> real \<Rightarrow> bool" where
  "valid_kl low high o1 d adv =
     (if 0 < adv then binary_kl o1 d \<le> high \<or> exp d \<le> exp o1 else binary_kl o1 d \<le> low \<or> exp o1 \<le> exp d)"

definition dppo_token :: "(real \<Rightarrow> real \<Rightarrow> real \<Rightarrow> bool) \<Rightarrow> real \<Rightarrow> real \<Rightarrow> real \<Rightarrow> real \<Rightarrow> real \<Rightarrow> real" where
  "dppo_token valid clip_ratio_c o1 d x adv = - adv * truncated_ratio clip_ratio_c o1 d * x * indicator (valid o1 d adv)"

definition compute_policy_loss_dppo ::
  "(real \<Rightarrow> real \<Rightarrow> real \<Rightarrow> bool) \<Rightarrow> matrix \<Rightarrow> matrix \<Rightarrow> matrix \<Rightarrow> matrix \<Rightarrow> str \<Rightarrow> actor_config \<Rightarrow> matrix option \<Rightarrow> (real \<times> metrics) result" where
  "compute_policy_loss_dppo valid old_log_prob log_prob advantages response_mask loss_agg_mode config rollout_is_weights =
     (let c = cfg_clip_ratio_c config;
          pg_losses = mzip3 (\<lambda>o1 l a. dppo_token valid c o1 l l a) old_log_prob log_prob advantages
      in bind_res (agg_with config loss_agg_mode (apply_weights rollout_is_weights pg_losses) response_mask) (\<lambda>pg_loss.
         Inr (pg_loss, loss_metrics
           (masked_mean (mzip3 (\<lambda>o1 l a. 1 - indicator (valid o1 l a)) old_log_prob log_prob advantages) response_mask)
           (clamped_kl old_log_prob log_prob response_mask)
           (masked_mean (mzip3 (\<lambda>o1 l a. indicator (c < ratio_of o1 l) * indicator (valid o1 l a)) old_log_prob log_prob advantages) response_mask))))"

definition compute_policy_loss_dppo_tv ::
  "matrix \<Rightarrow> matrix \<Rightarrow> matrix \<Rightarrow> matrix \<Rightarrow> str \<Rightarrow> actor_config \<Rightarrow> matrix option \<Rightarrow> (real \<times> metrics) result" where
  "compute_policy_loss_dppo_tv old_log_prob log_prob advantages response_mask loss_agg_mode config rollout_is_weights =
     compute_policy_loss_dppo (valid_tv (clip_low config) (clip_high config))
       old_log_prob log_prob advantages response_mask loss_agg_mode config rollout_is_weights"

definition compute_policy_loss_dppo_kl ::
  "matrix \<Rightarrow> matrix \<Rightarrow> matrix \<Rightarrow> matrix \<Rightarrow> str \<Rightarrow> actor_config \<Rightarrow> matrix option \<Rightarrow> (real \<times> metrics) result" where
  "compute_policy_loss_dppo_kl old_log_prob log_prob advantages response_mask loss_agg_mode config rollout_is_weights =
     compute_policy_loss_dppo (valid_kl (clip_low config) (clip_high config))
       old_log_prob log_prob advantages response_mask loss_agg_mode config rollout_is_weights"

section \<open>GSPO and SAPO\<close>

text \<open>The length-normalised log-ratio of a sequence, and the ratio each of its tokens gets.\<close>

definition seq_log_ratio :: "real list \<Rightarrow> real list \<Rightarrow> real list \<Rightarrow> real" where
  "seq_log_ratio old_row row msk =
     sum_list (map2 (\<lambda>(o1, l) m. (l - o1) * m) (zip old_row row) msk) / max (sum_list msk) 1"

definition gspo_ratio :: "real \<Rightarrow> real \<Rightarrow> real \<Rightarrow> real" where
  "gspo_ratio seq_ratio d x = exp (min (x - d + seq_ratio) 10)"

definition gspo_losses1 :: "real \<Rightarrow> real \<Rightarrow> real \<Rightarrow> real \<Rightarrow> real" where
  "gspo_losses1 seq_ratio d x adv = - adv * gspo_ratio seq_ratio d x"

definition gspo_losses2 :: "real \<Rightarrow> real \<Rightarrow> real \<Rightarrow> real \<Rightarrow> real \<Rightarrow> real \<Rightarrow> real" where
  "gspo_losses2 low high seq_ratio d x adv = - adv * clamp (1 - low) (1 + high) (gspo_ratio seq_ratio d x)"

definition gspo_token :: "real \<Rightarrow> real \<Rightarrow> real \<Rightarrow> real \<Rightarrow> real \<Rightarrow> real \<Rightarrow> real" where
  "gspo_token low high seq_ratio d x adv = max (gspo_losses1 seq_ratio d x adv) (gspo_losses2 low high seq_ratio d x adv)"

definition per_row :: "(real \<Rightarrow> real \<Rightarrow> real \<Rightarrow> real) \<Rightarrow> real list \<Rightarrow> matrix \<Rightarrow> matrix \<Rightarrow> matrix" where
  "per_row f cs log_prob advantages = map2 (\<lambda>c (ls, as). map2 (f c) ls as) cs (zip log_prob advantages)"

definition compute_policy_loss_gspo ::
  "matrix \<Rightarrow> matrix \<Rightarrow> matrix \<Rightarrow> matrix \<Rightarrow> str \<Rightarrow> actor_config \<Rightarrow> matrix option \<Rightarrow> (real \<times> metrics) result" where
  "compute_policy_loss_gspo old_log_prob log_prob advantages response_mask loss_agg_mode config rollout_is_weights =
     (let low = clip_low config; high = clip_high config;
          seq = map2 (\<lambda>o1 (l, m). seq_log_ratio o1 l m) old_log_prob (zip log_prob response_mask);
          pg_losses = per_row (\<lambda>c l a. gspo_token low high c l l a) seq log_prob advantages
      in bind_res (agg_with config ''seq-mean-token-mean'' (apply_weights rollout_is_weights pg_losses) response_mask) (\<lambda>pg_loss.
         Inr (pg_loss, loss_metrics
           (masked_mean (per_row (\<lambda>c l a. indicator (gspo_losses1 c l l a < gspo_losses2 low high c l l a)) seq log_prob advantages) response_mask)
           (plain_kl old_log_prob log_prob response_mask) 0)))"

definition sigmoid :: "real \<Rightarrow> real" where
  "sigmoid y = 1 / (1 + exp (- y))"

definition gate_function :: "real \<Rightarrow> real \<Rightarrow> real" where
  "gate_function x tau = sigmoid (tau * (x - 1)) * (4 / tau)"

definition sapo_token :: "real \<Rightarrow> real \<Rightarrow> real \<Rightarrow> real \<Rightarrow> real \<Rightarrow> real" where
  "sapo_token tau_pos tau_neg o1 x adv = - gate_function (ratio_of o1 x) (if 0 < adv then tau_pos else tau_neg) * adv"

definition compute_policy_loss_sapo ::
  "real \<Rightarrow> real \<Rightarrow> matrix \<Rightarrow> matrix \<Rightarrow> matrix \<Rightarrow> matrix \<Rightarrow> str \<Rightarrow> actor_config \<Rightarrow> matrix option \<Rightarrow> (real \<times> metrics) result" where
  "compute_policy_loss_sapo tau_pos tau_neg old_log_prob log_prob advantages response_mask loss_agg_mode config rollout_is_weights =
     (let pg_losses = mzip3 (sapo_token tau_pos tau_neg) old_log_prob log_prob advantages
      in bind_res (agg_with config ''seq-mean-token-mean'' (apply_weights rollout_is_weights pg_losses) response_mask) (\<lambda>pg_loss.
         Inr (pg_loss, loss_metrics 0 (clamped_kl old_log_prob log_prob response_mask) 0)))"

section \<open>GPG, CISPO, REINFORCE\<close>

definition gpg_token :: "real \<Rightarrow> real \<Rightarrow> real" where
  "gpg_token x adv = - x * adv"

definition compute_policy_loss_gpg ::
  "matrix \<Rightarrow> matrix \<Rightarrow> matrix \<Rightarrow> matrix \<Rightarrow> str \<Rightarrow> actor_config \<Rightarrow> matrix option \<Rightarrow> (real \<times> metrics) result" where
  "compute_policy_loss_gpg old_log_prob log_prob advantages response_mask loss_agg_mode config rollout_is_weights =
     bind_res (agg_with config loss_agg_mode (apply_weights rollout_is_weights (mzip gpg_token log_prob advantages)) response_mask) (\<lambda>pg_loss.
       Inr (pg_loss, []))"

definition cispo_weight :: "real \<Rightarrow> real \<Rightarrow> real \<Rightarrow> real \<Rightarrow> real" where
  "cispo_weight low high o1 d = clamp (1 - low) (1 + high) (ratio_of o1 d)"

definition cispo_token :: "real \<Rightarrow> real \<Rightarrow> real \<Rightarrow> real \<Rightarrow> real \<Rightarrow> real \<Rightarrow> real" where
  "cispo_token low high o1 d x adv = - cispo_weight low high o1 d * adv * x"

definition compute_policy_loss_cispo ::
  "matrix \<Rightarrow> matrix \<Rightarrow> matrix \<Rightarrow> matrix \<Rightarrow> str \<Rightarrow> actor_config \<Rightarrow> matrix option \<Rightarrow> (real \<times> metrics) result" where
  "compute_policy_loss_cispo old_log_prob log_prob advantages response_mask loss_agg_mode config rollout_is_weights =
     (let low = clip_low config; high = clip_high config;
          pg_losses = mzip3 (\<lambda>o1 l a. cispo_token low high o1 l l a) old_log_prob log_prob advantages
      in bind_res (agg_with config loss_agg_mode (apply_weights rollout_is_weights pg_losses) response_mask) (\<lambda>pg_loss.
         Inr (pg_loss, loss_metrics
           (masked_mean (mzip (\<lambda>o1 l. indicator (ratio_of o1 l \<noteq> cispo_weight low high o1 l)) old_log_prob log_prob) response_mask)
           (clamped_kl old_log_prob log_prob response_mask) 0)))"

definition reinforce_token :: "real \<Rightarrow> real \<Rightarrow> real" where
  "reinforce_token x adv = - adv * x"

definition compute_policy_loss_reinforce ::
  "matrix \<Rightarrow> matrix \<Rightarrow> matrix \<Rightarrow> matrix \<Rightarrow> str \<Rightarrow> actor_config \<Rightarrow> matrix option \<Rightarrow> (real \<times> metrics) result" where
  "compute_policy_loss_reinforce rollout_log_prob log_prob advantages response_mask loss_agg_mode config rollout_is_weights =
     bind_res (agg_with config loss_agg_mode (apply_weights rollout_is_weights (mzip reinforce_token log_prob advantages)) response_mask) (\<lambda>pg_loss.
       Inr (pg_loss, [(''actor/ppo_kl'', plain_kl rollout_log_prob log_prob response_mask)]))"

section \<open>Losses that single out tokens by covariance\<close>

record cov_config = policy_loss_config +
  plc_clip_cov_ratio :: "real option"
  plc_clip_cov_lb :: "real option"
  plc_clip_cov_ub :: "real option"
  plc_kl_cov_ratio :: "real option"
  plc_ppo_kl_coef :: "real option"

definition or_default :: "real \<Rightarrow> real option \<Rightarrow> real" where
  "or_default d x = (case x of None \<Rightarrow> d | Some y \<Rightarrow> y)"

text \<open>The entries of a mask in row-major order, as \<open>torch.nonzero\<close> and boolean indexing list them.\<close>

definition entries :: "matrix \<Rightarrow> (nat \<times> nat) list" where
  "entries msk = concat (map (\<lambda>i. map (Pair i) [0..<length (msk ! i)]) [0..<length msk])"

definition entry :: "'a list list \<Rightarrow> nat \<times> nat \<Rightarrow> 'a" where
  "entry a p = a ! fst p ! snd p"

text \<open>The losses without a clamp of the log-ratio.\<close>

definition unclamped_losses1 :: "real \<Rightarrow> real \<Rightarrow> real \<Rightarrow> real" where
  "unclamped_losses1 o1 l adv = - adv * exp (l - o1)"

definition unclamped_losses2 :: "real \<Rightarrow> real \<Rightarrow> real \<Rightarrow> real \<Rightarrow> real \<Rightarrow> real" where
  "unclamped_losses2 low high o1 l adv = - adv * clamp (1 - low) (1 + high) (exp (l - o1))"

definition covariance :: "matrix \<Rightarrow> matrix \<Rightarrow> matrix \<Rightarrow> nat \<times> nat \<Rightarrow> real" where
  "covariance advantages log_prob response_mask p =
     (entry advantages p - masked_mean advantages response_mask) * (entry log_prob p - masked_mean log_prob response_mask)"

text \<open>Padding and the tokens that clipping cuts have covariance \<open>-inf\<close>, which is below every bound.\<close>

definition clip_cov_candidates ::
  "real \<Rightarrow> real \<Rightarrow> real \<Rightarrow> real \<Rightarrow> matrix \<Rightarrow> matrix \<Rightarrow> matrix \<Rightarrow> matrix \<Rightarrow> (nat \<times> nat) list" where
  "clip_cov_candidates low high lb ub old_log_prob log_prob advantages response_mask =
     filter (\<lambda>p. 0 < entry response_mask p \<and>
                 \<not> unclamped_losses1 (entry old_log_prob p) (entry log_prob p) (entry advantages p)
                     < unclamped_losses2 low high (entry old_log_prob p) (entry log_prob p) (entry advantages p) \<and>
                 lb < covariance advantages log_prob response_mask p \<and> covariance advantages log_prob response_mask p < ub)
       (entries response_mask)"

definition set_entry :: "'a list list \<Rightarrow> nat \<times> nat \<Rightarrow> 'a \<Rightarrow> 'a list list" where
  "set_entry a p v = a[fst p := (a ! fst p)[snd p := v]]"

definition ones_like :: "matrix \<Rightarrow> matrix" where
  "ones_like = map (map (\<lambda>_. 1))"

text \<open>The factors \<open>corr\<close>: zero for at most \<open>clip_num\<close> candidates, taken in the order of the permutation.\<close>

definition clip_cov_corr :: "(nat \<Rightarrow> nat list) \<Rightarrow> real \<Rightarrow> matrix \<Rightarrow> (nat \<times> nat) list \<Rightarrow> matrix" where
  "clip_cov_corr randperm ratio response_mask candidates =
     (let clip_num = max (nat \<lfloor>ratio * msum response_mask\<rfloor>) 1;
          perm = randperm (length candidates);
          chosen = map ((!) candidates) (take (min clip_num (length candidates)) perm)
      in foldl (\<lambda>m p. set_entry m p 0) (ones_like response_mask) (if candidates = [] then [] else chosen))"

definition compute_policy_loss_clip_cov ::
  "(nat \<Rightarrow> nat list) \<Rightarrow> cov_config \<Rightarrow> matrix \<Rightarrow> matrix \<Rightarrow> matrix \<Rightarrow> matrix \<Rightarrow> str \<Rightarrow> actor_config \<Rightarrow> matrix option \<Rightarrow>
   (real \<times> metrics) result" where
  "compute_policy_loss_clip_cov randperm plc old_log_prob log_prob advantages response_mask loss_agg_mode config rollout_is_weights =
     (let ratio = or_default (1 / 5000) (plc_clip_cov_ratio plc);
          low = clip_low config; high = clip_high config;
          ub = or_default 5 (plc_clip_cov_ub plc); lb = or_default 1 (plc_clip_cov_lb plc)
      in asserting (0 < ratio)
       (let corr = clip_cov_corr randperm ratio response_mask
                     (clip_cov_candidates low high lb ub old_log_prob log_prob advantages response_mask);
            losses = mzip3 (\<lambda>o1 l a. max (unclamped_losses1 o1 l a) (unclamped_losses2 low high o1 l a)) old_log_prob log_prob advantages
        in bind_res (agg_with config loss_agg_mode (apply_weights rollout_is_weights (mzip (*) losses corr)) response_mask) (\<lambda>pg_loss.
           Inr (pg_loss, [(''actor/pg_clipfrac'', masked_fraction (\<lambda>c. c = 0) corr response_mask),
                          (''actor/ppo_kl'', plain_kl old_log_prob log_prob response_mask)]))))"

definition valid_entries :: "matrix \<Rightarrow> (nat \<times> nat) list" where
  "valid_entries response_mask = filter (\<lambda>p. 0 < entry response_mask p) (entries response_mask)"

definition valid_covariances :: "matrix \<Rightarrow> matrix \<Rightarrow> (nat \<times> nat) list \<Rightarrow> real list" where
  "valid_covariances advantages log_prob valid =
     (let adv = map (entry advantages) valid; logp = map (entry log_prob) valid
      in map2 (\<lambda>a l. (a - mean_of adv) * (l - mean_of logp)) adv logp)"

definition kl_cov_losses :: "real \<Rightarrow> matrix \<Rightarrow> matrix \<Rightarrow> matrix \<Rightarrow> (nat \<times> nat) list \<Rightarrow> matrix" where
  "kl_cov_losses coef old_log_prob log_prob advantages large =
     foldl (\<lambda>m p. set_entry m p (unclamped_losses1 (entry old_log_prob p) (entry log_prob p) (entry advantages p) +
                                  coef * \<bar>entry log_prob p - entry old_log_prob p\<bar>))
       (mzip3 unclamped_losses1 old_log_prob log_prob advantages) large"

text \<open>\<open>torch.topk\<close> raises when asked for more than there are; \<open>topk k xs\<close> are the indices it returns otherwise.\<close>

definition large_cov_entries ::
  "(nat \<Rightarrow> real list \<Rightarrow> nat list) \<Rightarrow> real \<Rightarrow> matrix \<Rightarrow> matrix \<Rightarrow> matrix \<Rightarrow> (nat \<times> nat) list result" where
  "large_cov_entries topk ratio log_prob advantages response_mask =
     (let valid = valid_entries response_mask;
          k = max 1 (nat \<lfloor>real (length valid) * ratio\<rfloor>)
      in if valid = [] then Inr []
         else if length valid < k then Inl RuntimeError
         else Inr (map ((!) valid) (topk k (valid_covariances advantages log_prob valid))))"

definition compute_policy_loss_kl_cov ::
  "(nat \<Rightarrow> real list \<Rightarrow> nat list) \<Rightarrow> cov_config \<Rightarrow> matrix \<Rightarrow> matrix \<Rightarrow> matrix \<Rightarrow> matrix \<Rightarrow> str \<Rightarrow> actor_config \<Rightarrow>
   matrix option \<Rightarrow> (real \<times> metrics) result" where
  "compute_policy_loss_kl_cov topk plc old_log_prob log_prob advantages response_mask loss_agg_mode config rollout_is_weights =
     (let ratio = or_default (1 / 5000) (plc_kl_cov_ratio plc);
          coef = or_default 1 (plc_ppo_kl_coef plc)
      in asserting (0 < ratio)
       (bind_res (large_cov_entries topk ratio log_prob advantages response_mask) (\<lambda>large.
        bind_res (agg_with config loss_agg_mode
                    (apply_weights rollout_is_weights (kl_cov_losses coef old_log_prob log_prob advantages large)) response_mask) (\<lambda>pg_loss.
        Inr (pg_loss, [(''actor/ppo_kl'', masked_mean (mzip (\<lambda>o1 l. \<bar>l - o1\<bar>) old_log_prob log_prob) response_mask)])))))"

section \<open>GMPO\<close>

definition gmpo_log_ratio :: "real \<Rightarrow> real \<Rightarrow> real \<Rightarrow> real \<Rightarrow> real \<Rightarrow> real" where
  "gmpo_log_ratio low high o1 l adv = sgn adv * min (sgn adv * (l - o1)) (sgn adv * clamp (- low) high (l - o1))"

text \<open>Means over the valid tokens of a row, with the code's \<open>1e-8\<close>.\<close>

definition row_mean :: "real list \<Rightarrow> real list \<Rightarrow> real" where
  "row_mean vals msk = sum_list (map2 (*) vals msk) / (sum_list msk + 1 / 10 ^ 8)"

definition gmpo_row :: "real \<Rightarrow> real \<Rightarrow> real list \<Rightarrow> real list \<Rightarrow> real list \<Rightarrow> real list \<Rightarrow> real list option \<Rightarrow> real" where
  "gmpo_row low high old_row row adv msk weights =
     (let ratio = exp (row_mean (map2 (\<lambda>o1 (l, a). gmpo_log_ratio low high o1 l a) old_row (zip row adv)) msk);
          loss = - row_mean adv msk * ratio
      in case weights of
           None \<Rightarrow> loss
         | Some ws \<Rightarrow> loss * exp (row_mean (map (\<lambda>w. ln (w + 1 / 10 ^ 10)) ws) msk))"

definition gmpo_losses ::
  "real \<Rightarrow> real \<Rightarrow> matrix \<Rightarrow> matrix \<Rightarrow> matrix \<Rightarrow> matrix \<Rightarrow> matrix option \<Rightarrow> real list" where
  "gmpo_losses low high old_log_prob log_prob advantages response_mask rollout_is_weights =
     map (\<lambda>i. gmpo_row low high (old_log_prob ! i) (log_prob ! i) (advantages ! i) (response_mask ! i)
                (map_option (\<lambda>ws. ws ! i) rollout_is_weights)) [0..<length response_mask]"

definition compute_policy_loss_geo_mean ::
  "matrix \<Rightarrow> matrix \<Rightarrow> matrix \<Rightarrow> matrix \<Rightarrow> str \<Rightarrow> actor_config \<Rightarrow> matrix option \<Rightarrow> (real \<times> metrics) result" where
  "compute_policy_loss_geo_mean old_log_prob log_prob advantages response_mask loss_agg_mode config rollout_is_weights =
     (let low = clip_low config; high = clip_high config;
          clipped = (\<lambda>o1 l. l - o1 \<noteq> clamp (- low) high (l - o1))
      in Inr (mean_of (gmpo_losses low high old_log_prob log_prob advantages response_mask rollout_is_weights),
              loss_metrics
                (masked_mean (mzip3 (\<lambda>o1 l a. indicator (clipped o1 l \<and> 0 < a)) old_log_prob log_prob advantages) response_mask)
                (plain_kl old_log_prob log_prob response_mask)
                (masked_mean (mzip3 (\<lambda>o1 l a. indicator (clipped o1 l \<and> a < 0)) old_log_prob log_prob advantages) response_mask)))"

section \<open>The bypass mode\<close>

definition metrics_dict :: "pg_metrics \<Rightarrow> metrics" where
  "metrics_dict m = loss_metrics (pg_clipfrac m) (ppo_kl m) (pg_clipfrac_lower m)"

definition compute_policy_loss_bypass_mode ::
  "(real \<times> real) option \<Rightarrow> cov_config \<Rightarrow> matrix \<Rightarrow> matrix \<Rightarrow> matrix \<Rightarrow> matrix \<Rightarrow> str \<Rightarrow> actor_config \<Rightarrow> matrix option \<Rightarrow>
   (real \<times> metrics) result" where
  "compute_policy_loss_bypass_mode others plc old_log_prob log_prob advantages response_mask loss_agg_mode config rollout_is_weights =
     (case plc_rollout_correction plc of
        None \<Rightarrow> Inl ValueError
      | Some rc \<Rightarrow>
          bind_res (compute_rollout_correction_and_rejection_mask others rc log_prob old_log_prob response_mask)
            (\<lambda>(weights, effective_mask, rollout_metrics).
          bind_res (if rc_loss_type rc = ''reinforce''
                    then compute_policy_loss_reinforce old_log_prob log_prob advantages effective_mask loss_agg_mode config weights
                    else if rc_loss_type rc = ''ppo_clip''
                    then bind_res (compute_policy_loss_vanilla old_log_prob log_prob advantages effective_mask loss_agg_mode config None)
                           (\<lambda>(loss, ms). Inr (loss, metrics_dict ms))
                    else Inl ValueError) (\<lambda>(pg_loss, ms).
          Inr (pg_loss, update_metrics ms rollout_metrics))))"

text \<open>The registered losses, as \<open>get_policy_loss_fn\<close> finds them, with the settings of SAPO and the sources of randomness.\<close>

record loss_env =
  le_randperm :: "nat \<Rightarrow> nat list"
  le_topk :: "nat \<Rightarrow> real list \<Rightarrow> nat list"
  le_others :: "(real \<times> real) option"
  le_tau_pos :: real
  le_tau_neg :: real

type_synonym registered_loss =
  "matrix \<Rightarrow> matrix \<Rightarrow> matrix \<Rightarrow> matrix \<Rightarrow> str \<Rightarrow> actor_config \<Rightarrow> matrix option \<Rightarrow> (real \<times> metrics) result"

definition POLICY_LOSS_REGISTRY :: "loss_env \<Rightarrow> cov_config \<Rightarrow> (str, registered_loss) dict" where
  "POLICY_LOSS_REGISTRY env plc =
     [(''vanilla'', \<lambda>o1 l a m mode c w. bind_res (compute_policy_loss_vanilla o1 l a m mode c w) (\<lambda>(loss, ms). Inr (loss, metrics_dict ms))),
      (''dppo_tv'', compute_policy_loss_dppo_tv), (''dppo_kl'', compute_policy_loss_dppo_kl), (''gspo'', compute_policy_loss_gspo),
      (''sapo'', compute_policy_loss_sapo (le_tau_pos env) (le_tau_neg env)), (''gpg'', compute_policy_loss_gpg),
      (''clip_cov'', compute_policy_loss_clip_cov (le_randperm env) plc),
      (''kl_cov'', compute_policy_loss_kl_cov (le_topk env) plc), (''geo_mean'', compute_policy_loss_geo_mean),
      (''cispo'', compute_policy_loss_cispo), (''bypass_mode'', compute_policy_loss_bypass_mode (le_others env) plc)]"

section \<open>Resampling of PF-PPO\<close>

text \<open>\<open>weight_pow\<close> is not negative: a negative power of a zero score is infinite.\<close>

definition compute_weights :: "real list \<Rightarrow> str \<Rightarrow> real \<Rightarrow> real list result" where
  "compute_weights scores reweight_method weight_pow =
     (if reweight_method = ''pow'' then Inr (map (\<lambda>s. if weight_pow = 0 then 1 else \<bar>s\<bar> powr weight_pow) scores)
      else if reweight_method = ''max_min''
      then if scores = [] then Inl RuntimeError
           else Inr (map (\<lambda>s. if s = Max (set scores) \<or> s = Min (set scores) then 1 else 0) scores)
      else if reweight_method = ''max_random''
      then if scores = [] then Inl RuntimeError
           else Inr (map (\<lambda>s. if s = Max (set scores) then 4 / 10 else 1 / 10) scores)
      else Inl ValueError)"

definition sampling_weights :: "real list \<Rightarrow> str \<Rightarrow> real \<Rightarrow> real list result" where
  "sampling_weights scores reweight_method weight_pow =
     bind_res (compute_weights scores reweight_method weight_pow) (\<lambda>ws. Inr (map (\<lambda>w. max (w + 1 / 10 ^ 8) (1 / 10 ^ 8)) ws))"

definition select_rows :: "nat list \<Rightarrow> 'x list \<Rightarrow> 'x list" where
  "select_rows idxs xs = map ((!) xs) idxs"

definition resample_meta :: "nat \<Rightarrow> nat list \<Rightarrow> pyval \<Rightarrow> pyval" where
  "resample_meta batch_size idxs v =
     (case v of PList xs \<Rightarrow> if length xs = batch_size then PList (select_rows idxs xs) else v | _ \<Rightarrow> v)"

text \<open>\<open>multinomial weights n\<close> are the \<open>n\<close> indices drawn, and \<open>row_sum\<close> the sum of a row of rewards.\<close>

definition compute_pf_ppo_reweight_data ::
  "(real list \<Rightarrow> nat \<Rightarrow> nat list) \<Rightarrow> ('v \<Rightarrow> real) \<Rightarrow> ('v, 'o) data_proto \<Rightarrow> str \<Rightarrow> real \<Rightarrow> ('v, 'o) data_proto result" where
  "compute_pf_ppo_reweight_data multinomial row_sum data reweight_method weight_pow =
     (case dp_batch data of
        None \<Rightarrow> Inl TypeError
      | Some td \<Rightarrow>
          bind_res (dict_index (td_items td) ''token_level_scores'') (\<lambda>rows.
          bind_res (sampling_weights (map row_sum rows) reweight_method weight_pow) (\<lambda>weights.
          let batch_size = length rows; idxs = multinomial weights batch_size
          in bind_res (new_tensordict (map_columns (select_rows idxs) (td_items td)) (td_size td)) (\<lambda>td'.
             Inr \<lparr> dp_batch = Some td', dp_non_tensor = map_columns (select_rows idxs) (dp_non_tensor data),
                   dp_meta = map (\<lambda>(k, v). (k, resample_meta batch_size idxs v)) (dp_meta data) \<rparr>))))"

section \<open>On-policy gradients\<close>

named_theorems gradient_intros

lemma surrogate_gradient [gradient_intros]:
  "((\<lambda>x. - adv * exp (x - l)) has_real_derivative - adv) (at l)"
  by (auto intro!: derivative_eq_intros)

text \<open>Close to the old policy no clamp and no clip of the ratio is active.\<close>

definition unclipped :: "real \<Rightarrow> real \<Rightarrow> real \<Rightarrow> real \<Rightarrow> real set" where
  "unclipped low high c l =
     {x. - 20 < x - l} \<inter> {x. x - l < 10} \<inter> {x. 1 - low < exp (x - l)} \<inter> {x. exp (x - l) < 1 + high} \<inter> {x. exp (x - l) < c}"

lemma unclipped_open: "open (unclipped low high c l)"
  unfolding unclipped_def by (intro open_Int open_Collect_less continuous_intros)

lemma unclipped_self: "0 < low \<Longrightarrow> 0 < high \<Longrightarrow> 1 < c \<Longrightarrow> l \<in> unclipped low high c l"
  by (simp add: unclipped_def)

lemma near_old_gradient:
  assumes "0 < low" "0 < high" "1 < c" and "\<And>x. x \<in> unclipped low high c l \<Longrightarrow> f x = - adv * exp (x - l)"
  shows "(f has_real_derivative - adv) (at l)"
proof (rule has_field_derivative_transform_within_open[OF surrogate_gradient unclipped_open])
  show "l \<in> unclipped low high c l" using assms(1-3) by (rule unclipped_self)
  show "- adv * exp (x - l) = f x" if "x \<in> unclipped low high c l" for x using assms(4)[OF that] by simp
qed

lemma unclippedD:
  assumes "x \<in> unclipped low high c l"
  shows "ratio_of l x = exp (x - l)" "clamp (1 - low) (1 + high) (exp (x - l)) = exp (x - l)" "exp (x - l) < c" "x - l < 10"
  using assms by (auto simp: unclipped_def ratio_of_def clamp_def)

lemma pg_loss_token_near_old:
  assumes "x \<in> unclipped low high c l"
  shows "pg_loss_token low high c l x adv = - adv * exp (x - l)"
proof -
  note d = unclippedD[OF assms]
  have "adv < 0 \<Longrightarrow> min (- adv * c) (- adv * exp (x - l)) = - adv * exp (x - l)"
    using mult_left_mono[of "exp (x - l)" c "- adv"] d(3) by (intro min.absorb2) auto
  then show ?thesis by (simp add: pg_loss_token_def pg_losses1_def pg_losses2_def d Let_def del: mult_minus_left)
qed

lemma vanilla_gradient:
  assumes "0 < low" "0 < high" "1 < c"
  shows "((\<lambda>x. pg_loss_token low high c l x adv) has_real_derivative - adv) (at l)"
  by (rule near_old_gradient[OF assms pg_loss_token_near_old])

lemma gspo_gradient:
  assumes "0 < low" "0 < high"
  shows "((\<lambda>x. gspo_token low high 0 l x adv) has_real_derivative - adv) (at l)"
proof (rule near_old_gradient[OF assms, of 2])
  show "gspo_token low high 0 l x adv = - adv * exp (x - l)" if "x \<in> unclipped low high 2 l" for x
    using unclippedD(2,4)[OF that] by (simp add: gspo_token_def gspo_losses1_def gspo_losses2_def gspo_ratio_def min_def)
qed simp

lemma sapo_gradient:
  assumes "tau_pos \<noteq> 0" "tau_neg \<noteq> 0"
  shows "((\<lambda>x. sapo_token tau_pos tau_neg l x adv) has_real_derivative - adv) (at l)"
proof -
  let ?t = "if 0 < adv then tau_pos else tau_neg"
  have t: "?t \<noteq> 0" using assms by simp
  have "((\<lambda>x. - (1 / (1 + exp (- (?t * (exp (x - l) - 1)))) * (4 / ?t)) * adv) has_real_derivative - adv) (at l)"
    using t by (auto intro!: derivative_eq_intros simp: field_simps)
  then show ?thesis
    by (rule has_field_derivative_transform_within_open[OF _ unclipped_open[of 1 1 2 l] unclipped_self])
       (use unclippedD in \<open>auto simp: sapo_token_def gate_function_def sigmoid_def\<close>)
qed

lemma dppo_gradient:
  assumes "1 < c" "valid l l adv"
  shows "((\<lambda>x. dppo_token valid c l l x adv) has_real_derivative - adv) (at l)"
  using assms by (auto intro!: derivative_eq_intros simp: dppo_token_def truncated_ratio_def ratio_of_def indicator_def clamp_def)

lemma valid_on_policy: "0 \<le> low \<Longrightarrow> 0 \<le> high \<Longrightarrow> valid_tv low high l l adv \<and> valid_kl low high l l adv"
  by (simp add: valid_tv_def valid_kl_def)

lemma linear_gradients:
  assumes "0 < low" "0 < high"
  shows "((\<lambda>x. gpg_token x adv) has_real_derivative - adv) (at l)"
    and "((\<lambda>x. cispo_token low high l l x adv) has_real_derivative - adv) (at l)"
    and "((\<lambda>x. reinforce_token x adv) has_real_derivative - adv) (at l)"
  using assms by (auto intro!: derivative_eq_intros
    simp: gpg_token_def cispo_token_def cispo_weight_def reinforce_token_def ratio_of_def clamp_def)

text \<open>
  C30: on the first update after a rollout, when the policy is still the one that generated the tokens, the clipped loss, both DPPO
  losses, GSPO, SAPO, GPG, CISPO and REINFORCE all have the plain policy gradient \<open>-advantage\<close> in the log-probability of a token.
\<close>

theorem on_policy_gradients_agree:
  assumes "0 < low" "0 < high" "1 < c" "tau_pos \<noteq> 0" "tau_neg \<noteq> 0"
  shows "\<forall>f \<in> {\<lambda>x. pg_loss_token low high c l x adv, \<lambda>x. dppo_token (valid_tv low high) c l l x adv,
      \<lambda>x. dppo_token (valid_kl low high) c l l x adv, \<lambda>x. gspo_token low high 0 l x adv, \<lambda>x. sapo_token tau_pos tau_neg l x adv,
      \<lambda>x. gpg_token x adv, \<lambda>x. cispo_token low high l l x adv, \<lambda>x. reinforce_token x adv}.
    (f has_real_derivative - adv) (at l)"
  using vanilla_gradient[OF assms(1-3)] gspo_gradient[OF assms(1,2)] sapo_gradient[OF assms(4,5)]
    dppo_gradient[OF assms(3)] valid_on_policy[of low high l adv] linear_gradients[OF assms(1,2)] assms(1,2) by simp

theorem on_policy_gradients_agree_witness:
  "((\<lambda>x. sapo_token 1 1 0 x (- 1)) has_real_derivative - (- 1)) (at 0)"
  using on_policy_gradients_agree[of "1 / 5" "1 / 5" 3 1 1 0 "- 1"] by simp

section \<open>Tokens singled out by covariance\<close>

definition inside :: "'a list list \<Rightarrow> nat \<times> nat \<Rightarrow> bool" where
  "inside a p \<longleftrightarrow> fst p < length a \<and> snd p < length (a ! fst p)"

lemma entries_set: "p \<in> set (entries msk) \<longleftrightarrow> inside msk p"
  by (cases p) (force simp: entries_def inside_def)

lemma distinct_pairs: "distinct xs \<Longrightarrow> distinct (concat (map (\<lambda>i. map (Pair i) [0..<g i]) xs))"
  by (induction xs) (auto simp: distinct_map inj_on_def)

lemma entries_distinct: "distinct (entries msk)"
  unfolding entries_def by (rule distinct_pairs) simp

lemma inside_shape: "shapes_equal a b \<Longrightarrow> inside a p \<longleftrightarrow> inside b p"
  using shapes_equalD[of a b] by (auto simp: inside_def)

lemma set_entry_shape: "map length (set_entry a p v) = map length a"
  by (cases "fst p < length a"; rule nth_equalityI) (auto simp: set_entry_def nth_list_update)

lemma entry_set_entry: "inside a p \<Longrightarrow> entry (set_entry a p v) q = (if q = p then v else entry a q)"
  by (cases p; cases q) (auto simp: set_entry_def entry_def inside_def nth_list_update)

lemma foldl_set_entry:
  assumes "\<forall>p \<in> set ps. inside a p"
  shows "shapes_equal (foldl (\<lambda>m p. set_entry m p (v p)) a ps) a \<and>
    entry (foldl (\<lambda>m p. set_entry m p (v p)) a ps) q = (if q \<in> set ps then v q else entry a q)"
  using assms
proof (induction ps arbitrary: a)
  case (Cons p ps)
  have sh: "shapes_equal (set_entry a p (v p)) a" by (simp add: shapes_equal_def set_entry_shape)
  then have "\<forall>p' \<in> set ps. inside (set_entry a p (v p)) p'" using Cons.prems inside_shape by auto
  from Cons.IH[OF this] sh Cons.prems show ?case by (auto simp: shapes_equal_def entry_set_entry)
qed (simp add: shapes_equal_def)

lemma entry_mzip: "inside a p \<Longrightarrow> shapes_equal b a \<Longrightarrow> entry (mzip f a b) p = f (entry a p) (entry b p)"
  using shapes_equalD[of b a] by (simp add: entry_def inside_def mzip_nth)

lemma entry_mzip3:
  assumes "inside a p" "shapes_equal b a" "shapes_equal c a"
  shows "entry (mzip3 f a b c) p = f (entry a p) (entry b p) (entry c p)"
  using assms shapes_equalD[of b a] shapes_equalD[of c a] by (simp add: entry_def inside_def mzip3_def)

lemma mzip3_shape:
  assumes "shapes_equal b a" "shapes_equal c a"
  shows "shapes_equal (mzip3 f a b c) a"
proof -
  note d = shapes_equalD[OF assms(1)] shapes_equalD[OF assms(2)]
  show ?thesis unfolding shapes_equal_def by (rule nth_equalityI) (simp_all add: mzip3_def d)
qed

lemma shapes_equal_sym: "shapes_equal a b \<Longrightarrow> shapes_equal b a"
  and shapes_equal_trans: "shapes_equal a b \<Longrightarrow> shapes_equal b c \<Longrightarrow> shapes_equal a c"
  by (simp_all add: shapes_equal_def)

definition is_permutation_source :: "(nat \<Rightarrow> nat list) \<Rightarrow> bool" where
  "is_permutation_source randperm \<longleftrightarrow> (\<forall>n. distinct (randperm n) \<and> set (randperm n) = {..<n})"

lemma picked_entries:
  assumes "distinct cands" "distinct idxs" "\<forall>i \<in> set idxs. i < length cands"
  shows "card (set (map ((!) cands) idxs)) = length idxs" and "set (map ((!) cands) idxs) \<subseteq> set cands"
proof -
  have "distinct (map ((!) cands) idxs)"
    using assms by (auto simp: distinct_map inj_on_def nth_eq_iff_index_eq)
  then show "card (set (map ((!) cands) idxs)) = length idxs" using distinct_card by fastforce
  show "set (map ((!) cands) idxs) \<subseteq> set cands" using assms(3) by auto
qed

lemma clip_cov_corr_entries:
  assumes "is_permutation_source randperm" and "distinct cands" and "\<forall>p \<in> set cands. inside msk p"
  shows "\<exists>D \<subseteq> set cands. card D = min (max (nat \<lfloor>ratio * msum msk\<rfloor>) 1) (length cands) \<and>
    shapes_equal (clip_cov_corr randperm ratio msk cands) msk \<and>
    (\<forall>p. inside msk p \<longrightarrow> entry (clip_cov_corr randperm ratio msk cands) p = (if p \<in> D then 0 else 1))"
proof -
  let ?k = "min (max (nat \<lfloor>ratio * msum msk\<rfloor>) 1) (length cands)"
  let ?idxs = "take ?k (randperm (length cands))" and ?chosen = "map ((!) cands) (take ?k (randperm (length cands)))"
  have perm: "distinct (randperm (length cands))" "set (randperm (length cands)) = {..<length cands}"
    using assms(1) by (auto simp: is_permutation_source_def)
  have len: "length (randperm (length cands)) = length cands" using distinct_card[OF perm(1)] perm(2) by simp
  have idxs: "distinct ?idxs" "\<forall>i \<in> set ?idxs. i < length cands" using perm by (auto dest: in_set_takeD)
  have ones: "shapes_equal (ones_like msk) msk" "\<And>p. inside msk p \<Longrightarrow> entry (ones_like msk) p = 1"
    by (auto simp: shapes_equal_def ones_like_def comp_def entry_def inside_def)
  have D: "set ?chosen \<subseteq> set cands" by (rule picked_entries(2)[OF assms(2) idxs])
  then have "\<forall>p \<in> set ?chosen. inside (ones_like msk) p" using assms(3) inside_shape[OF ones(1)] by blast
  note f = foldl_set_entry[OF this, of "\<lambda>_. 0"]
  have c: "clip_cov_corr randperm ratio msk cands = foldl (\<lambda>m p. set_entry m p 0) (ones_like msk) ?chosen"
    by (simp add: clip_cov_corr_def Let_def)
  have "card (set ?chosen) = ?k" using picked_entries(1)[OF assms(2) idxs] len by simp
  moreover have "shapes_equal (clip_cov_corr randperm ratio msk cands) msk"
    unfolding c using f ones(1) shapes_equal_trans by blast
  moreover have "entry (clip_cov_corr randperm ratio msk cands) p = (if p \<in> set ?chosen then 0 else 1)" if "inside msk p" for p
    unfolding c using f ones(2)[OF that] by metis
  ultimately show ?thesis using D by blast
qed

text \<open>
  Clip-Cov removes from the loss at most \<open>max(1, int(ratio * valid))\<close> tokens, all of them valid, not clipped, and with a
  covariance strictly between the bounds; every other token has the clipped surrogate loss.
\<close>

theorem clip_cov_removes_few:
  assumes run: "compute_policy_loss_clip_cov randperm plc old_log_prob log_prob advantages response_mask mode config None = Inr (loss, ms)"
    and rnd: "is_permutation_source randperm"
    and shapes: "shapes_equal old_log_prob response_mask" "shapes_equal log_prob response_mask" "shapes_equal advantages response_mask"
  shows "\<exists>D losses. agg_with config mode losses response_mask = Inr loss \<and> shapes_equal losses response_mask \<and>
    card D \<le> max (nat \<lfloor>or_default (1 / 5000) (plc_clip_cov_ratio plc) * msum response_mask\<rfloor>) 1 \<and>
    (\<forall>p \<in> D. inside response_mask p \<and> 0 < entry response_mask p \<and>
       or_default 1 (plc_clip_cov_lb plc) < covariance advantages log_prob response_mask p \<and>
       covariance advantages log_prob response_mask p < or_default 5 (plc_clip_cov_ub plc)) \<and>
    (\<forall>p. inside response_mask p \<longrightarrow> entry losses p =
       (if p \<in> D then 0
        else max (unclamped_losses1 (entry old_log_prob p) (entry log_prob p) (entry advantages p))
               (unclamped_losses2 (clip_low config) (clip_high config) (entry old_log_prob p) (entry log_prob p) (entry advantages p))))"
proof -
  let ?ratio = "or_default (1 / 5000) (plc_clip_cov_ratio plc)"
  let ?cands = "clip_cov_candidates (clip_low config) (clip_high config) (or_default 1 (plc_clip_cov_lb plc))
    (or_default 5 (plc_clip_cov_ub plc)) old_log_prob log_prob advantages response_mask"
  let ?f = "\<lambda>o1 l a. max (unclamped_losses1 o1 l a) (unclamped_losses2 (clip_low config) (clip_high config) o1 l a)"
  let ?base = "mzip3 ?f old_log_prob log_prob advantages"
  have cands: "distinct ?cands" "\<forall>p \<in> set ?cands. inside response_mask p"
    using entries_distinct by (auto simp: clip_cov_candidates_def entries_set)
  obtain D where D: "D \<subseteq> set ?cands" "card D = min (max (nat \<lfloor>?ratio * msum response_mask\<rfloor>) 1) (length ?cands)"
      "shapes_equal (clip_cov_corr randperm ?ratio response_mask ?cands) response_mask"
      "\<And>p. inside response_mask p \<Longrightarrow> entry (clip_cov_corr randperm ?ratio response_mask ?cands) p = (if p \<in> D then 0 else 1)"
    using clip_cov_corr_entries[OF rnd cands] by blast
  have eq: "shapes_equal log_prob old_log_prob" "shapes_equal advantages old_log_prob"
    using shapes shapes_equal_trans shapes_equal_sym by blast+
  have base: "shapes_equal ?base response_mask" using mzip3_shape[OF eq] shapes(1) by (rule shapes_equal_trans)
  have base_entry: "entry ?base p = ?f (entry old_log_prob p) (entry log_prob p) (entry advantages p)" if "inside response_mask p" for p
    using that inside_shape[OF shapes(1)] entry_mzip3[OF _ eq] by blast
  let ?corr = "clip_cov_corr randperm ?ratio response_mask ?cands"
  have corr_base: "shapes_equal ?corr ?base" using D(3) base shapes_equal_trans shapes_equal_sym by blast
  have agg: "agg_with config mode (mzip (*) ?base ?corr) response_mask = Inr loss"
    using run by (auto simp: compute_policy_loss_clip_cov_def Let_def bind_res_Inr_iff apply_weights_def)
  have "entry (mzip (*) ?base ?corr) p = (if p \<in> D then 0 else ?f (entry old_log_prob p) (entry log_prob p) (entry advantages p))"
    if "inside response_mask p" for p
    using that entry_mzip[OF _ corr_base] inside_shape[OF base] base_entry D(4) by simp
  moreover have "shapes_equal (mzip (*) ?base ?corr) response_mask"
    using shapes_equal_mzip[OF shapes_equal_sym[OF corr_base]] D(3) by (rule shapes_equal_trans)
  ultimately show ?thesis using agg D(1,2)
    by (intro exI[of _ D] exI[of _ "mzip (*) ?base ?corr"]) (auto simp: clip_cov_candidates_def entries_set)
qed

definition topk_source :: "(nat \<Rightarrow> real list \<Rightarrow> nat list) \<Rightarrow> bool" where
  "topk_source topk \<longleftrightarrow> (\<forall>k xs. k \<le> length xs \<longrightarrow> distinct (topk k xs) \<and> length (topk k xs) = k \<and>
     (\<forall>i \<in> set (topk k xs). i < length xs \<and> (\<forall>j < length xs. j \<notin> set (topk k xs) \<longrightarrow> xs ! j \<le> xs ! i)))"

definition valid_covariance :: "matrix \<Rightarrow> matrix \<Rightarrow> matrix \<Rightarrow> nat \<times> nat \<Rightarrow> real" where
  "valid_covariance advantages log_prob response_mask p =
     (let valid = valid_entries response_mask
      in (entry advantages p - mean_of (map (entry advantages) valid)) * (entry log_prob p - mean_of (map (entry log_prob) valid)))"

lemma valid_covariances_nth:
  "i < length (valid_entries msk) \<Longrightarrow>
   valid_covariances adv lp (valid_entries msk) ! i = valid_covariance adv lp msk (valid_entries msk ! i)"
  by (simp add: valid_covariances_def valid_covariance_def Let_def)

lemma large_cov_entries_chosen:
  assumes law: "topk_source topk" and "large_cov_entries topk ratio log_prob advantages msk = Inr large"
  shows "set large \<subseteq> set (valid_entries msk) \<and>
    card (set large) = (if valid_entries msk = [] then 0 else max 1 (nat \<lfloor>real (length (valid_entries msk)) * ratio\<rfloor>)) \<and>
    (\<forall>p \<in> set large. \<forall>q \<in> set (valid_entries msk) - set large.
       valid_covariance advantages log_prob msk q \<le> valid_covariance advantages log_prob msk p)"
proof (cases "valid_entries msk = []")
  case True
  then show ?thesis using assms(2) by (simp add: large_cov_entries_def Let_def)
next
  case False
  let ?valid = "valid_entries msk" and ?xs = "valid_covariances advantages log_prob (valid_entries msk)"
  define k where "k = max 1 (nat \<lfloor>real (length ?valid) * ratio\<rfloor>)"
  have k: "k \<le> length ?valid" and large: "large = map ((!) ?valid) (topk k ?xs)"
    using assms(2) False unfolding large_cov_entries_def Let_def k_def[symmetric] by (auto split: if_splits)
  have len: "length ?xs = length ?valid" by (simp add: valid_covariances_def Let_def)
  note t = law[unfolded topk_source_def, rule_format, of k ?xs, unfolded len, OF k]
  have d: "distinct ?valid" unfolding valid_entries_def by (simp add: entries_distinct)
  have idxs: "distinct (topk k ?xs)" "\<forall>i \<in> set (topk k ?xs). i < length ?valid" using t by blast+
  note p = picked_entries[OF d idxs]
  have "valid_covariance advantages log_prob msk q \<le> valid_covariance advantages log_prob msk p"
    if p: "p \<in> set large" and q: "q \<in> set ?valid - set large" for p q
  proof -
    obtain i where i: "i \<in> set (topk k ?xs)" "p = ?valid ! i" using p large by auto
    obtain j where j: "j < length ?valid" "q = ?valid ! j" using q by (auto simp: in_set_conv_nth)
    have "j \<notin> set (topk k ?xs)" using q j large by auto
    then have "?xs ! j \<le> ?xs ! i" using t i(1) j(1) by blast
    then show ?thesis using i j idxs(2) by (simp add: valid_covariances_nth)
  qed
  then show ?thesis using p t False by (simp add: large k_def)
qed

text \<open>
  KL-Cov adds the penalty to exactly \<open>max(1, int(n * ratio))\<close> of the \<open>n\<close> valid tokens, and these have the largest
  covariances; no other token of the loss changes.
\<close>

theorem kl_cov_penalises_largest:
  assumes run: "compute_policy_loss_kl_cov topk plc old_log_prob log_prob advantages response_mask mode config None = Inr (loss, ms)"
    and law: "topk_source topk"
    and shapes: "shapes_equal old_log_prob response_mask" "shapes_equal log_prob response_mask" "shapes_equal advantages response_mask"
    and valid: "valid = valid_entries response_mask"
  shows "\<exists>D losses. agg_with config mode losses response_mask = Inr loss \<and> D \<subseteq> set valid \<and>
    card D = (if valid = [] then 0 else max 1 (nat \<lfloor>real (length valid) * or_default (1 / 5000) (plc_kl_cov_ratio plc)\<rfloor>)) \<and>
    (\<forall>p \<in> D. \<forall>q \<in> set valid - D.
       valid_covariance advantages log_prob response_mask q \<le> valid_covariance advantages log_prob response_mask p) \<and>
    (\<forall>p. inside response_mask p \<longrightarrow> entry losses p =
       unclamped_losses1 (entry old_log_prob p) (entry log_prob p) (entry advantages p) +
       (if p \<in> D then or_default 1 (plc_ppo_kl_coef plc) * \<bar>entry log_prob p - entry old_log_prob p\<bar> else 0))"
proof -
  let ?ratio = "or_default (1 / 5000) (plc_kl_cov_ratio plc)" and ?coef = "or_default 1 (plc_ppo_kl_coef plc)"
  obtain large where large: "large_cov_entries topk ?ratio log_prob advantages response_mask = Inr large"
      and agg: "agg_with config mode (kl_cov_losses ?coef old_log_prob log_prob advantages large) response_mask = Inr loss"
    using run by (auto simp: compute_policy_loss_kl_cov_def Let_def bind_res_Inr_iff apply_weights_def)
  note c = large_cov_entries_chosen[OF law large]
  let ?base = "mzip3 unclamped_losses1 old_log_prob log_prob advantages"
  have eq: "shapes_equal log_prob old_log_prob" "shapes_equal advantages old_log_prob"
    using shapes shapes_equal_trans shapes_equal_sym by blast+
  have base: "shapes_equal ?base response_mask" using mzip3_shape[OF eq] shapes(1) by (rule shapes_equal_trans)
  have "\<forall>p \<in> set large. inside ?base p"
    using c inside_shape[OF base] by (auto simp: valid_entries_def entries_set)
  note f = foldl_set_entry[OF this]
  have "entry (kl_cov_losses ?coef old_log_prob log_prob advantages large) p =
      unclamped_losses1 (entry old_log_prob p) (entry log_prob p) (entry advantages p) +
      (if p \<in> set large then ?coef * \<bar>entry log_prob p - entry old_log_prob p\<bar> else 0)" if "inside response_mask p" for p
    using that inside_shape[OF shapes(1)] entry_mzip3[OF _ eq] by (simp add: kl_cov_losses_def f)
  with agg c show ?thesis unfolding valid by blast
qed

section \<open>GMPO over micro-batches\<close>

lemma gmpo_losses_append:
  assumes "length o1 = length m1" "length l1 = length m1" "length a1 = length m1"
  shows "gmpo_losses low high (o1 @ o2) (l1 @ l2) (a1 @ a2) (m1 @ m2) None =
    gmpo_losses low high o1 l1 a1 m1 None @ gmpo_losses low high o2 l2 a2 m2 None"
  using assms by (intro nth_equalityI) (auto simp: gmpo_losses_def nth_append)

type_synonym micro_rows = "matrix \<times> matrix \<times> matrix \<times> matrix"

definition micro_shape :: "nat \<Rightarrow> micro_rows \<Rightarrow> bool" where
  "micro_shape b p = (case p of (o1, l, a, m) \<Rightarrow> length o1 = b \<and> length l = b \<and> length a = b \<and> length m = b)"

lemma gmpo_losses_concat:
  assumes "\<forall>p \<in> set parts. micro_shape b p"
  shows "gmpo_losses low high (concat (map fst parts)) (concat (map (\<lambda>(_, l, _). l) parts)) (concat (map (\<lambda>(_, _, a, _). a) parts))
      (concat (map (\<lambda>(_, _, _, m). m) parts)) None =
    concat (map (\<lambda>(o1, l, a, m). gmpo_losses low high o1 l a m None) parts)"
  using assms
proof (induction parts)
  case (Cons p parts)
  then show ?case by (cases p) (simp add: micro_shape_def gmpo_losses_append)
qed (simp add: gmpo_losses_def)

lemma sum_of_means:
  assumes "\<forall>xs \<in> set xss. length xs = b" "0 < b"
  shows "sum_list (map mean_of xss) = real (length xss) * mean_of (concat xss)"
proof -
  have "length (concat xss) = length xss * b" using assms(1) by (induction xss) auto
  moreover have "sum_list (map mean_of xss) = sum_list (concat xss) / b"
    using assms(1) by (induction xss) (auto simp: mean_of_def add_divide_distrib)
  ultimately show ?thesis using assms(2) by (cases "xss = []") (auto simp: mean_of_def)
qed

text \<open>
  The GMPO loss averages over the rows it is given and ignores the global counts, so the losses of \<open>k\<close> micro-batches, whose
  gradients add up, are together \<open>k\<close> times the loss of the batch.
\<close>

theorem geo_mean_scales_with_micro_batches:
  assumes "\<forall>p \<in> set parts. micro_shape b p" and "0 < b"
    and micro: "map_res (\<lambda>(o1, l, a, m). compute_policy_loss_geo_mean o1 l a m mode config None) parts = Inr results"
    and whole: "compute_policy_loss_geo_mean (concat (map fst parts)) (concat (map (\<lambda>(_, l, _). l) parts))
      (concat (map (\<lambda>(_, _, a, _). a) parts)) (concat (map (\<lambda>(_, _, _, m). m) parts)) mode config None = Inr (loss, ms)"
  shows "sum_list (map fst results) = real (length parts) * loss"
proof -
  let ?losses = "\<lambda>(o1, l, a, m). gmpo_losses (clip_low config) (clip_high config) o1 l a m None"
  have "map fst results = map mean_of (map ?losses parts)"
    using micro by (induction parts arbitrary: results)
      (auto simp: bind_res_Inr_iff compute_policy_loss_geo_mean_def Let_def)
  moreover have "loss = mean_of (concat (map ?losses parts))"
    using whole gmpo_losses_concat[OF assms(1)] by (simp add: compute_policy_loss_geo_mean_def Let_def)
  moreover have "\<forall>xs \<in> set (map ?losses parts). length xs = b"
    using assms(1) by (auto simp: micro_shape_def gmpo_losses_def)
  ultimately show ?thesis using sum_of_means[OF _ assms(2), of "map ?losses parts"] by simp
qed

section \<open>The bypass mode\<close>

text \<open>
  In bypass mode the clipped loss sees the rollout only through its ratio and the tokens that rejection leaves: whatever
  importance weights are configured, when the call returns the loss is that of \<open>vanilla\<close> on the mask of the same rejection without
  weights, and only the diagnostics can differ.
\<close>

theorem bypass_ppo_clip_ignores_weights:
  assumes run: "compute_policy_loss_bypass_mode others plc old_log_prob log_prob advantages response_mask mode config w = Inr (loss, ms)"
    and rc: "plc_rollout_correction plc = Some rc" "rc_loss_type rc = ''ppo_clip''"
  shows "\<exists>effective_mask m1 m2.
    compute_rollout_correction_and_rejection_mask others (rc\<lparr> rc_rollout_is := None \<rparr>) log_prob old_log_prob response_mask = Inr (None, effective_mask, m1) \<and>
    compute_policy_loss_vanilla old_log_prob log_prob advantages effective_mask mode config None = Inr (loss, m2)"
proof -
  obtain weights em rm where c: "compute_rollout_correction_and_rejection_mask others rc log_prob old_log_prob response_mask = Inr (weights, em, rm)"
      and l: "\<exists>m2. compute_policy_loss_vanilla old_log_prob log_prob advantages em mode config None = Inr (loss, m2)"
    using run rc by (auto simp: compute_policy_loss_bypass_mode_def bind_res_Inr_iff)
  have "\<exists>m1. compute_rollout_correction_and_rejection_mask others (rc\<lparr> rc_rollout_is := None \<rparr>) log_prob old_log_prob response_mask =
      Inr (None, em, m1)"
    using c unfolding compute_rollout_correction_and_rejection_mask_def
    by (auto simp: bind_res_Inr_iff Let_def split: if_splits option.splits)
  with l show ?thesis by blast
qed

section \<open>Resampled rows stay together\<close>

text \<open>
  The resampled batch consists of whole rows of the given one: one list of indices selects the rows of every tensor and of every
  column of the batch.  A list in the meta data is resampled along with it whenever its length happens to be the batch size.
\<close>

theorem resampling_keeps_rows:
  assumes "compute_pf_ppo_reweight_data multinomial row_sum data method p = Inr out"
    and draws: "\<And>ws n. length (multinomial ws n) = n"
  shows "\<exists>td td' idxs. dp_batch data = Some td \<and> dp_batch out = Some td' \<and> td_size td' = td_size td \<and> length idxs = td_size td \<and>
    (\<forall>k col. map_of (td_items td) k = Some col \<longrightarrow> map_of (td_items td') k = Some (select_rows idxs col)) \<and>
    (\<forall>k col. map_of (dp_non_tensor data) k = Some col \<longrightarrow> map_of (dp_non_tensor out) k = Some (select_rows idxs col))"
proof -
  have cols: "map_of (map_columns f d) k = map_option f (map_of d k)" for f :: "'x list \<Rightarrow> 'y list" and d k
    by (induction d) (auto simp: map_columns_def)
  obtain td rows ws td' where td: "dp_batch data = Some td" and rows: "map_of (td_items td) ''token_level_scores'' = Some rows"
      and new: "new_tensordict (map_columns (select_rows (multinomial ws (length rows))) (td_items td)) (td_size td) = Inr td'"
      and out: "dp_batch out = Some td'" "dp_non_tensor out = map_columns (select_rows (multinomial ws (length rows))) (dp_non_tensor data)"
    using assms(1) unfolding compute_pf_ppo_reweight_data_def
    by (auto simp: bind_res_Inr_iff Let_def dict_index_Inr_iff split: option.splits)
  let ?idxs = "multinomial ws (length rows)"
  have td': "td_size td' = td_size td" "td_items td' = map_columns (select_rows ?idxs) (td_items td)"
      "columns_have (td_size td) (map_columns (select_rows ?idxs) (td_items td))"
    using new by (auto simp: new_tensordict_def split: if_splits)
  have "map_of (map_columns (select_rows ?idxs) (td_items td)) ''token_level_scores'' = Some (select_rows ?idxs rows)"
    using rows by (simp add: cols)
  then have "length (select_rows ?idxs rows) = td_size td"
    using td'(3) map_of_SomeD unfolding columns_have_def list_all_iff by fastforce
  then have "length ?idxs = td_size td" by (simp add: select_rows_def)
  then show ?thesis using td out td'(1,2) by (auto simp: cols)
qed

section \<open>Witnesses\<close>

lemma agg_with_token_mean:
  "cfg_dp_size c = 1 \<Longrightarrow> cfg_batch_num_tokens c = None \<Longrightarrow>
   agg_with c ''token-mean'' losses msk = Inr (masked_sum losses msk / msum msk)"
  by (simp add: agg_with_def agg_loss_def default_count_def)

definition example_config :: actor_config where
  "example_config = \<lparr> cfg_clip_ratio = 1 / 5, cfg_clip_ratio_low = None, cfg_clip_ratio_high = None, cfg_clip_ratio_c = 3, cfg_dp_size = 1,
     cfg_batch_num_tokens = None, cfg_global_batch_size = None, cfg_loss_scale_factor = None \<rparr>"

definition example_correction :: correction_config where
  "example_correction = \<lparr> rc_rollout_is = Some ''token'', rc_is_threshold = Num_threshold 2, rc_batch_normalize = False, rc_rollout_rs = None,
     rc_rs_threshold = No_threshold, rc_loss_type = ''ppo_clip'' \<rparr>"

definition example_cov :: cov_config where
  "example_cov = \<lparr> plc_loss_mode = ''clip_cov'', plc_rollout_correction = Some example_correction, plc_clip_cov_ratio = None, plc_clip_cov_lb = None,
     plc_clip_cov_ub = None, plc_kl_cov_ratio = None, plc_ppo_kl_coef = None \<rparr>"

lemma example_agg: "agg_with example_config ''token-mean'' losses msk = Inr (masked_sum losses msk / msum msk)"
  by (rule agg_with_token_mean) (simp_all add: example_config_def)

theorem clip_cov_removes_few_witness:
  "\<exists>D losses loss. agg_with example_config ''token-mean'' losses [[1, 1]] = Inr loss \<and> card D \<le> 1 \<and>
    (\<forall>p \<in> D. inside [[1 :: real, 1]] p)"
proof -
  obtain loss ms where r: "compute_policy_loss_clip_cov (\<lambda>n. [0..<n]) example_cov [[- 3, - 1]] [[- 3, - 1]] [[0, 4]] [[1, 1]] ''token-mean''
      example_config None = Inr (loss, ms)"
    by (simp add: compute_policy_loss_clip_cov_def or_default_def example_cov_def example_agg Let_def)
  have rnd: "is_permutation_source (\<lambda>n. [0..<n])" by (auto simp: is_permutation_source_def)
  have sh: "shapes_equal [[- 3, - 1]] [[1, 1]]" "shapes_equal [[0, 4]] [[1, 1]]" by (simp_all add: shapes_equal_def)
  have "max (nat \<lfloor>or_default (1 / 5000) (plc_clip_cov_ratio example_cov) * msum [[1, 1]]\<rfloor>) 1 = 1"
    by (simp add: or_default_def example_cov_def msum_def)
  with clip_cov_removes_few[OF r rnd sh(1) sh(1) sh(2)] show ?thesis by metis
qed

definition stable_topk :: "nat \<Rightarrow> real list \<Rightarrow> nat list" where
  "stable_topk k xs = take k (sort_key (\<lambda>i. - xs ! i) [0..<length xs])"

lemma stable_topk_source: "topk_source stable_topk"
proof -
  have "xs ! j \<le> xs ! i" if i: "i \<in> set (stable_topk k xs)" and j: "j < length xs" "j \<notin> set (stable_topk k xs)" for i j k and xs :: "real list"
  proof -
    let ?s = "sort_key (\<lambda>i. - xs ! i) [0..<length xs]"
    have "set ?s = set (take k ?s) \<union> set (drop k ?s)" by (metis append_take_drop_id set_append)
    moreover have "j \<in> set ?s" using j(1) by simp
    ultimately have "j \<in> set (drop k ?s)" using j(2) by (simp add: stable_topk_def)
    moreover have "sorted (map (\<lambda>i. - xs ! i) (take k ?s) @ map (\<lambda>i. - xs ! i) (drop k ?s))"
      using sorted_sort_key[of "\<lambda>i. - xs ! i" "[0..<length xs]"] unfolding map_append[symmetric] append_take_drop_id .
    ultimately show ?thesis using i by (force simp: sorted_append stable_topk_def)
  qed
  moreover have "i < length xs" if "i \<in> set (stable_topk k xs)" for i k xs
    using that by (auto simp: stable_topk_def dest: in_set_takeD)
  ultimately show ?thesis by (auto simp: topk_source_def stable_topk_def)
qed

theorem kl_cov_penalises_largest_witness:
  "\<exists>D losses loss. agg_with example_config ''token-mean'' losses [[1, 1]] = Inr loss \<and> card D = 1 \<and>
    D \<subseteq> set (valid_entries [[1, 1]])"
proof -
  have v: "valid_entries [[1, 1]] = [(0, 0), (0, 1)]" by (simp add: valid_entries_def entries_def entry_def upt_rec)
  obtain loss ms where r: "compute_policy_loss_kl_cov stable_topk example_cov [[- 3, - 1]] [[- 3, - 1]] [[0, 4]] [[1, 1]] ''token-mean''
      example_config None = Inr (loss, ms)"
    by (simp add: compute_policy_loss_kl_cov_def or_default_def example_cov_def example_agg large_cov_entries_def Let_def v)
  from kl_cov_penalises_largest[OF r stable_topk_source _ _ _ refl] show ?thesis
    by (auto simp: shapes_equal_def v or_default_def example_cov_def)
qed

theorem geo_mean_scales_with_micro_batches_witness:
  "\<exists>r1 r2 loss ms. map_res (\<lambda>(o1, l, a, m). compute_policy_loss_geo_mean o1 l a m ''token-mean'' example_config None)
      [([[0]], [[0]], [[1]], [[1]]), ([[0]], [[0]], [[2]], [[1]])] = Inr [r1, r2] \<and>
    compute_policy_loss_geo_mean [[0], [0]] [[0], [0]] [[1], [2]] [[1], [1]] ''token-mean'' example_config None = Inr (loss, ms) \<and>
    fst r1 + fst r2 = 2 * loss"
proof -
  let ?f = "\<lambda>o1 l a m. compute_policy_loss_geo_mean o1 l a m ''token-mean'' example_config None"
  obtain r1 r2 loss ms where r: "?f [[0]] [[0]] [[1]] [[1]] = Inr r1" "?f [[0]] [[0]] [[2]] [[1]] = Inr r2"
      "?f [[0], [0]] [[0], [0]] [[1], [2]] [[1], [1]] = Inr (loss, ms)"
    by (simp add: compute_policy_loss_geo_mean_def Let_def)
  have m: "map_res (\<lambda>(o1, l, a, m). ?f o1 l a m) [([[0]], [[0]], [[1]], [[1]]), ([[0]], [[0]], [[2]], [[1]])] = Inr [r1, r2]"
    by (simp add: r)
  have "sum_list (map fst [r1, r2]) = real (length [([[0]], [[0]], [[1]], [[1]]) :: micro_rows, ([[0]], [[0]], [[2]], [[1]])]) * loss"
    by (rule geo_mean_scales_with_micro_batches[OF _ _ m, of 1]) (simp_all add: micro_shape_def r(3))
  then show ?thesis using m r(3) by auto
qed

lemma example_bypass:
  "\<exists>loss ms. compute_policy_loss_bypass_mode None example_cov [[0]] [[0]] [[1]] [[1]] ''token-mean'' example_config None = Inr (loss, ms)"
proof -
  obtain weights wms where "compute_rollout_correction_weights None [[0]] [[1]] ''token'' (Num_threshold 2) False = Inr (weights, wms)"
    using weights_example by blast
  then show ?thesis
    by (simp add: compute_policy_loss_bypass_mode_def example_cov_def example_correction_def compute_rollout_correction_and_rejection_mask_def
        any_valid_def shapes_equal_def mzip_def compute_offpolicy_metrics_def compute_policy_loss_vanilla_def agg_loss_def default_count_def
        example_config_def Let_def)
qed

theorem bypass_ppo_clip_ignores_weights_witness:
  "\<exists>loss effective_mask m2. compute_policy_loss_vanilla [[0]] [[0]] [[1]] effective_mask ''token-mean'' example_config None = Inr (loss, m2)"
proof -
  obtain loss ms where r: "compute_policy_loss_bypass_mode None example_cov [[0]] [[0]] [[1]] [[1]] ''token-mean'' example_config None = Inr (loss, ms)"
    using example_bypass by blast
  show ?thesis
    using bypass_ppo_clip_ignores_weights[OF r, of example_correction] by (auto simp: example_cov_def example_correction_def)
qed

theorem resampling_keeps_rows_witness:
  "\<exists>out td'. compute_pf_ppo_reweight_data (\<lambda>ws n. [n - 1] @ replicate (n - 1) 0) id
      \<lparr> dp_batch = Some \<lparr> td_size = 2, td_items = [(''token_level_scores'', [1 :: real, 2])] \<rparr>,
        dp_non_tensor = [(''uid'', [''a'', ''b''])], dp_meta = [] \<rparr> ''pow'' 2 = Inr out \<and>
    dp_batch out = Some td' \<and> td_size td' = 2"
proof -
  let ?d = "\<lparr> dp_batch = Some \<lparr> td_size = 2, td_items = [(''token_level_scores'', [1 :: real, 2])] \<rparr>,
        dp_non_tensor = [(''uid'', [''a'', ''b''])], dp_meta = [] \<rparr>"
  let ?multi = "\<lambda>(ws :: real list) n. (if n = 0 then [] else [n - 1] @ replicate (n - 1) (0 :: nat))"
  obtain out where r: "compute_pf_ppo_reweight_data ?multi id ?d ''pow'' 2 = Inr out"
    by (simp add: compute_pf_ppo_reweight_data_def dict_index_def sampling_weights_def compute_weights_def Let_def new_tensordict_def
        columns_have_def map_columns_def select_rows_def)
  have "length (?multi ws n) = n" for ws n by simp
  from resampling_keeps_rows[OF r this] r show ?thesis
    by (auto simp: compute_pf_ppo_reweight_data_def dict_index_def sampling_weights_def compute_weights_def Let_def new_tensordict_def
        columns_have_def map_columns_def select_rows_def)
qed

end
