(* ===== verification/ReplayBuffer.thy ===== *)
theory ReplayBuffer
  imports PyStrings Complex_Main
begin

text \<open>
  The replay buffer of the asynchronous trainers, \<open>src/verl_new/verl/trainer/ppo/v1/replay_buffer.py\<close>: the metadata it reads from the
  transfer queue, the two strategies for trajectories that span too many training steps, and the choice of the oldest finished prompts.
  The queue is a service outside of the repository: it is given as what each poll of it lists, and clearing keys removes them.  The
  order in which Python iterates over a set is an argument.
\<close>

section \<open>The queue\<close>

text \<open>The tag of a key: a prompt with its status, or a trajectory; \<open>None\<close> is a missing entry.\<close>

record tq_tag =
  tg_prompt :: bool
  tg_status :: str
  tg_steps :: "int option"

type_synonym tq_store = "(str, (str, tq_tag) dict) dict"

definition kv_clear :: "str \<Rightarrow> str list \<Rightarrow> tq_store \<Rightarrow> tq_store" where
  "kv_clear partition_id ks store =
     map (\<lambda>(p, items). (p, if p = partition_id then filter (\<lambda>(k, _). k \<notin> set ks) items else items)) store"

section \<open>The buffer\<close>

datatype strategy = Drop | Wait

record replay_buffer =
  rb_strategy :: strategy
  rb_threshold :: int
  rb_sync_step :: int

definition replay_buffer_init :: "int \<Rightarrow> str \<Rightarrow> int \<Rightarrow> replay_buffer result" where
  "replay_buffer_init threshold strat sync_step =
     asserting (0 < threshold) (asserting (strat \<in> {''drop'', ''wait''})
       (Inr \<lparr> rb_strategy = (if strat = ''drop'' then Drop else Wait), rb_threshold = threshold, rb_sync_step = sync_step \<rparr>))"

text \<open>The metadata of one partition.\<close>

record rb_meta =
  rm_partition :: "(str, tq_tag) dict"
  rm_pending :: "str list"
  rm_running :: "str list"
  rm_finished :: "str list"
  rm_failure :: "str list"
  rm_steps :: "(str, int) dict"

definition empty_meta :: rb_meta where
  "empty_meta = \<lparr> rm_partition = [], rm_pending = [], rm_running = [], rm_finished = [], rm_failure = [], rm_steps = [] \<rparr>"

definition sync_item :: "rb_meta \<Rightarrow> str \<times> tq_tag \<Rightarrow> rb_meta result" where
  "sync_item m item =
     (case item of (key, tag) \<Rightarrow>
        if tg_prompt tag
        then case tg_steps tag of
               None \<Rightarrow> Inl KeyError
             | Some g \<Rightarrow>
                 (let m1 = m\<lparr> rm_steps := AList.update key g (rm_steps m) \<rparr>
                  in if tg_status tag = ''pending'' then Inr (m1\<lparr> rm_pending := List.insert key (rm_pending m1) \<rparr>)
                     else if tg_status tag = ''running'' then Inr (m1\<lparr> rm_running := List.insert key (rm_running m1) \<rparr>)
                     else if tg_status tag = ''finished'' then Inr (m1\<lparr> rm_finished := List.insert key (rm_finished m1) \<rparr>)
                     else if tg_status tag = ''failure'' then Inr (m1\<lparr> rm_failure := List.insert key (rm_failure m1) \<rparr>)
                     else Inl ValueError)
        else Inr (m\<lparr> rm_partition := AList.update key tag (rm_partition m) \<rparr>))"

definition sync_metadata_from_transfer_queue :: "tq_store option \<Rightarrow> (str, rb_meta) dict result" where
  "sync_metadata_from_transfer_queue data =
     (case data of
        None \<Rightarrow> Inr []
      | Some store \<Rightarrow> map_res (\<lambda>(p, items). bind_res (fold_res sync_item empty_meta items) (\<lambda>m. Inr (p, m))) store)"

definition partition_meta :: "(str, rb_meta) dict \<Rightarrow> str \<Rightarrow> rb_meta" where
  "partition_meta d p = (case map_of d p of None \<Rightarrow> empty_meta | Some m \<Rightarrow> m)"

text \<open>The model versions between a step of the data loader and the current one.\<close>

definition version_lag :: "replay_buffer \<Rightarrow> int \<Rightarrow> int \<Rightarrow> real" where
  "version_lag rb g p = real_of_int (g - p + 1) / real_of_int (rb_sync_step rb)"

definition has_enough_samples :: "replay_buffer \<Rightarrow> int \<Rightarrow> rb_meta \<Rightarrow> nat \<Rightarrow> bool result" where
  "has_enough_samples rb g m batch_size =
     bind_res (if rb_strategy rb = Wait
               then bind_res (map_res (dict_index (rm_steps m)) (rm_pending m @ rm_running m)) (\<lambda>steps.
                    if steps \<noteq> [] \<and> rb_sync_step rb = 0 then Inl ZeroDivisionError
                    else Inr (\<exists>p \<in> set steps. real_of_int (rb_threshold rb) \<le> version_lag rb g p))
               else Inr False) (\<lambda>blocked.
     Inr (\<not> blocked \<and> batch_size \<le> length (rm_finished m) + length (rm_failure m)))"

record dropped_metrics =
  dm_count :: nat
  dm_mean :: real
  dm_max :: real
  dm_min :: real

definition drop_max_off_policy_samples ::
  "replay_buffer \<Rightarrow> int \<Rightarrow> (str \<times> tq_tag) list \<Rightarrow> ((str \<times> tq_tag) list \<times> str list \<times> dropped_metrics option) result" where
  "drop_max_off_policy_samples rb g batch =
     (if rb_strategy rb \<noteq> Drop then Inr (batch, [], None)
      else bind_res (map_res (\<lambda>(k, t). case tg_steps t of
               None \<Rightarrow> Inl KeyError
             | Some p \<Rightarrow> if rb_sync_step rb = 0 then Inl ZeroDivisionError else Inr ((k, t), version_lag rb g p)) batch) (\<lambda>rows.
        let kept = filter (\<lambda>(_, s). \<not> real_of_int (rb_threshold rb) < s) rows;
            dropped = filter (\<lambda>(_, s). real_of_int (rb_threshold rb) < s) rows;
            stale = map snd dropped
        in Inr (map fst kept, map (fst \<circ> fst) dropped,
                if dropped = [] then None
                else Some \<lparr> dm_count = length dropped, dm_mean = sum_list stale / real (length stale), dm_max = Max (set stale), dm_min = Min (set stale) \<rparr>)))"

text \<open>\<open>key.split("_")[0]\<close>.\<close>

definition uid_of :: "str \<Rightarrow> str" where
  "uid_of key = hd (split_on ''_'' key)"

record rb_sample =
  rs_prompts :: "str list"
  rs_batch :: "(str \<times> tq_tag) list"
  rs_dropped :: "str list"
  rs_metrics :: "dropped_metrics option"

definition select_prompts :: "(str list \<Rightarrow> str list) \<Rightarrow> rb_meta \<Rightarrow> nat \<Rightarrow> str list" where
  "select_prompts set_order m batch_size =
     take batch_size (sort_key (\<lambda>key. case map_of (rm_steps m) key of None \<Rightarrow> 0 | Some g \<Rightarrow> g)
       (set_order (remdups (rm_finished m @ rm_failure m))))"

definition sample_ready :: "replay_buffer \<Rightarrow> (str list \<Rightarrow> str list) \<Rightarrow> int \<Rightarrow> rb_meta \<Rightarrow> nat \<Rightarrow> rb_sample result" where
  "sample_ready rb set_order g m batch_size =
     (let selected = select_prompts set_order m batch_size
      in bind_res (drop_max_off_policy_samples rb g (filter (\<lambda>(k, t). uid_of k \<in> set selected) (rm_partition m)))
           (\<lambda>(batch, dropped, metrics).
              Inr \<lparr> rs_prompts = selected, rs_batch = batch, rs_dropped = dropped, rs_metrics = metrics \<rparr>))"

text \<open>
  \<open>sample\<close> with the answers of the queue to its polls; the result has the number of the poll it was taken from.  \<open>None\<close> means that the
  fuel was used up in waiting.
\<close>

fun sample ::
  "nat \<Rightarrow> nat \<Rightarrow> (nat \<Rightarrow> tq_store option) \<Rightarrow> replay_buffer \<Rightarrow> (str list \<Rightarrow> str list) \<Rightarrow> int \<Rightarrow> str \<Rightarrow> nat \<Rightarrow> (nat \<times> rb_sample) result option" where
  "sample 0 n polls rb set_order g partition_id batch_size = None"
| "sample (Suc fuel) n polls rb set_order g partition_id batch_size =
     (case sync_metadata_from_transfer_queue (polls n) of
        Inl e \<Rightarrow> Some (Inl e)
      | Inr d \<Rightarrow>
          (case has_enough_samples rb g (partition_meta d partition_id) batch_size of
             Inl e \<Rightarrow> Some (Inl e)
           | Inr False \<Rightarrow> sample fuel (n + 1) polls rb set_order g partition_id batch_size
           | Inr True \<Rightarrow> Some (bind_res (sample_ready rb set_order g (partition_meta d partition_id) batch_size) (\<lambda>s. Inr (n, s)))))"

section \<open>What the metadata says\<close>

definition prompts_in :: "str set \<Rightarrow> (str \<times> tq_tag) list \<Rightarrow> str set" where
  "prompts_in sts items = {k. \<exists>t. (k, t) \<in> set items \<and> tg_prompt t \<and> tg_status t \<in> sts}"

lemma sync_items_meta:
  assumes "fold_res sync_item empty_meta items = Inr m" and "distinct (map fst items)"
  shows "rm_partition m = filter (\<lambda>(k, t). \<not> tg_prompt t) items \<and>
    set (rm_pending m) = prompts_in {''pending''} items \<and> set (rm_running m) = prompts_in {''running''} items \<and>
    set (rm_finished m) = prompts_in {''finished''} items \<and> set (rm_failure m) = prompts_in {''failure''} items \<and>
    distinct (rm_finished m) \<and> distinct (rm_failure m) \<and>
    (\<forall>k g. map_of (rm_steps m) k = Some g \<longleftrightarrow> (\<exists>t. (k, t) \<in> set items \<and> tg_prompt t \<and> tg_steps t = Some g)) \<and>
    (\<forall>(k, t) \<in> set items. tg_prompt t \<longrightarrow> tg_steps t \<noteq> None)"
  using assms
proof (induction items arbitrary: m rule: rev_induct)
  case Nil
  then show ?case by (auto simp: empty_meta_def prompts_in_def)
next
  case (snoc x items)
  obtain key tag where x: "x = (key, tag)" by (cases x)
  obtain m0 where m0: "fold_res sync_item empty_meta items = Inr m0" and m: "sync_item m0 x = Inr m"
    using snoc.prems(1) by (auto simp: fold_res_append bind_res_Inr_iff)
  note IH = snoc.IH[OF m0]
  have fresh: "key \<notin> fst ` set items" "distinct (map fst items)" using snoc.prems(2) by (auto simp: x)
  have "key \<notin> fst ` set (rm_partition m0)" using IH fresh by auto
  then show ?case using IH[OF fresh(2)] m fresh(1)
    by (auto simp: sync_item_def x prompts_in_def update_fresh Let_def rev_image_eqI split: if_splits option.splits)
qed

text \<open>What a poll lists in a partition, with no key twice, and the step of a prompt.\<close>

definition listed :: "tq_store option \<Rightarrow> str \<Rightarrow> (str \<times> tq_tag) list" where
  "listed data p = (case data of None \<Rightarrow> [] | Some store \<Rightarrow> (case map_of store p of None \<Rightarrow> [] | Some items \<Rightarrow> items))"

definition store_ok :: "tq_store option \<Rightarrow> bool" where
  "store_ok data \<longleftrightarrow> (\<forall>store. data = Some store \<longrightarrow> (\<forall>(p, items) \<in> set store. dict_ok items))"

definition step_of :: "(str \<times> tq_tag) list \<Rightarrow> str \<Rightarrow> int" where
  "step_of items k = (case map_of items k of None \<Rightarrow> 0 | Some t \<Rightarrow> (case tg_steps t of None \<Rightarrow> 0 | Some g \<Rightarrow> g))"

abbreviation sampleable :: "(str \<times> tq_tag) list \<Rightarrow> str set" where
  "sampleable \<equiv> prompts_in {''finished'', ''failure''}"

lemma listed_distinct: "store_ok data \<Longrightarrow> distinct (map fst (listed data p))"
  by (auto simp: store_ok_def listed_def dict_ok_def split: option.splits dest!: map_of_SomeD)

lemma partition_meta_listed:
  assumes "sync_metadata_from_transfer_queue data = Inr d"
  shows "fold_res sync_item empty_meta (listed data p) = Inr (partition_meta d p)"
proof (cases data)
  case None
  then show ?thesis using assms by (simp add: sync_metadata_from_transfer_queue_def listed_def partition_meta_def)
next
  case (Some store)
  have "map_res (\<lambda>(p, items). bind_res (fold_res sync_item empty_meta items) (\<lambda>m. Inr (p, m))) store = Inr d \<Longrightarrow>
      fold_res sync_item empty_meta (case map_of store p of None \<Rightarrow> [] | Some items \<Rightarrow> items) = Inr (partition_meta d p)"
  proof (induction store arbitrary: d)
    case (Cons x store)
    then show ?case by (cases x) (auto simp: bind_res_Inr_iff partition_meta_def)
  qed (simp add: partition_meta_def)
  then show ?thesis using assms by (simp add: sync_metadata_from_transfer_queue_def listed_def Some)
qed

lemma sample_returned:
  "sample fuel n polls rb set_order g p batch_size = Some (Inr (j, s)) \<Longrightarrow>
   \<exists>d. sync_metadata_from_transfer_queue (polls j) = Inr d \<and> has_enough_samples rb g (partition_meta d p) batch_size = Inr True \<and>
     sample_ready rb set_order g (partition_meta d p) batch_size = Inr s"
  by (induction fuel n polls rb set_order g p batch_size rule: sample.induct)
    (auto simp: bind_res_Inr_iff split: sum.splits bool.splits)

section \<open>The oldest finished prompts\<close>

lemma sorted_take_drop:
  assumes "x \<in> set (take n (sort_key f xs))" and "y \<in> set (drop n (sort_key f xs))"
  shows "f x \<le> f y"
proof -
  have "sorted (map f (take n (sort_key f xs)) @ map f (drop n (sort_key f xs)))"
    by (simp flip: map_append)
  then show ?thesis using assms unfolding sorted_append by auto
qed

lemma select_prompts_correct:
  assumes m: "fold_res sync_item empty_meta items = Inr m" and dist: "distinct (map fst items)"
    and law: "\<forall>xs. mset (set_order xs) = mset xs" and enough: "batch_size \<le> length (rm_finished m) + length (rm_failure m)"
  shows "length (select_prompts set_order m batch_size) = batch_size \<and> distinct (select_prompts set_order m batch_size) \<and>
    set (select_prompts set_order m batch_size) \<subseteq> sampleable items \<and>
    (\<forall>p \<in> set (select_prompts set_order m batch_size). \<forall>q \<in> sampleable items. q \<notin> set (select_prompts set_order m batch_size) \<longrightarrow>
       step_of items p \<le> step_of items q)"
proof -
  note meta = sync_items_meta[OF m dist]
  let ?key = "\<lambda>key. case map_of (rm_steps m) key of None \<Rightarrow> 0 | Some g \<Rightarrow> g"
  let ?all = "set_order (remdups (rm_finished m @ rm_failure m))"
  have fin: "set (rm_finished m) = prompts_in {''finished''} items" and fail: "set (rm_failure m) = prompts_in {''failure''} items"
    using meta by auto
  have "prompts_in {''finished''} items \<inter> prompts_in {''failure''} items = {}"
  proof -
    have "t = t'" if "(k, t) \<in> set items" "(k, t') \<in> set items" for k t t' by (rule eq_key_imp_eq_value[OF dist that])
    then show ?thesis unfolding prompts_in_def by fastforce
  qed
  then have same: "remdups (rm_finished m @ rm_failure m) = rm_finished m @ rm_failure m"
    using meta fin fail by (intro distinct_remdups_id) auto
  have ms: "mset ?all = mset (rm_finished m @ rm_failure m)" using law unfolding same by blast
  have "distinct (rm_finished m @ rm_failure m)" using distinct_remdups same by metis
  then have d: "distinct ?all" using ms mset_eq_imp_distinct_iff by blast
  have len: "length ?all = length (rm_finished m) + length (rm_failure m)" using ms by (metis length_append mset_eq_length)
  have all: "set ?all = sampleable items" using mset_eq_setD[OF ms] fin fail by (auto simp: prompts_in_def)
  have key: "?key k = step_of items k" if k: "k \<in> sampleable items" for k
  proof -
    obtain t where t: "(k, t) \<in> set items" "tg_prompt t" using k by (auto simp: prompts_in_def)
    moreover obtain g where g: "tg_steps t = Some g" using meta t by fastforce
    ultimately have "map_of (rm_steps m) k = Some g" using meta by blast
    moreover have "map_of items k = Some t" using t(1) dist by simp
    ultimately show ?thesis using g by (simp add: step_of_def)
  qed
  have "step_of items p \<le> step_of items q"
    if "p \<in> set (select_prompts set_order m batch_size)" "q \<in> sampleable items" "q \<notin> set (select_prompts set_order m batch_size)" for p q
  proof -
    let ?sorted = "sort_key ?key ?all"
    have "q \<in> set (take batch_size ?sorted) \<union> set (drop batch_size ?sorted)"
      using that(2) all set_append[of "take batch_size ?sorted" "drop batch_size ?sorted"] by simp
    then have qd: "q \<in> set (drop batch_size ?sorted)" using that(3) by (simp add: select_prompts_def)
    have pt: "p \<in> set (take batch_size ?sorted)" using that(1) by (simp only: select_prompts_def)
    from sorted_take_drop[OF pt qd] have "?key p \<le> ?key q" .
    moreover have "p \<in> sampleable items" using in_set_takeD[OF pt] unfolding set_sort all .
    ultimately show ?thesis using key that(2) by simp
  qed
  moreover have "set (select_prompts set_order m batch_size) \<subseteq> sampleable items"
    unfolding select_prompts_def using set_take_subset[of batch_size "sort_key ?key ?all"] unfolding set_sort all .
  ultimately show ?thesis using d len enough by (auto simp: select_prompts_def)
qed

text \<open>
  C15: \<open>sample\<close> takes exactly \<open>batch_size\<close> prompts, all of them finished or failed at the poll it returns from, and the oldest ones: no
  prompt that could have been taken and was not is from an earlier step of the data loader.
\<close>

theorem sample_takes_oldest_prompts:
  assumes run: "sample fuel 0 polls rb set_order g p batch_size = Some (Inr (j, s))"
    and ok: "store_ok (polls j)" and law: "\<forall>xs. mset (set_order xs) = mset xs"
  shows "length (rs_prompts s) = batch_size \<and> distinct (rs_prompts s) \<and> set (rs_prompts s) \<subseteq> sampleable (listed (polls j) p) \<and>
    (\<forall>k \<in> set (rs_prompts s). \<forall>q \<in> sampleable (listed (polls j) p) - set (rs_prompts s).
       step_of (listed (polls j) p) k \<le> step_of (listed (polls j) p) q)"
proof -
  obtain d where d: "sync_metadata_from_transfer_queue (polls j) = Inr d"
      and enough: "has_enough_samples rb g (partition_meta d p) batch_size = Inr True"
      and s: "sample_ready rb set_order g (partition_meta d p) batch_size = Inr s"
    using sample_returned[OF run] by blast
  let ?m = "partition_meta d p"
  have "rs_prompts s = select_prompts set_order ?m batch_size"
    using s by (auto simp: sample_ready_def Let_def bind_res_Inr_iff)
  moreover have "batch_size \<le> length (rm_finished ?m) + length (rm_failure ?m)"
    using enough by (auto simp: has_enough_samples_def bind_res_Inr_iff)
  ultimately show ?thesis
    using select_prompts_correct[OF partition_meta_listed[OF d] listed_distinct[OF ok] law, of batch_size] by auto
qed

section \<open>Staleness\<close>

definition taken_trajectories :: "(str \<times> tq_tag) list \<Rightarrow> str list \<Rightarrow> (str \<times> tq_tag) list" where
  "taken_trajectories items prompts = filter (\<lambda>(k, t). \<not> tg_prompt t \<and> uid_of k \<in> set prompts) items"

definition lag_of :: "replay_buffer \<Rightarrow> int \<Rightarrow> tq_tag \<Rightarrow> real" where
  "lag_of rb g t = version_lag rb g (the (tg_steps t))"

lemma drop_stale_correct:
  assumes "drop_max_off_policy_samples rb g batch = Inr (kept, dropped, metrics)"
  shows "if rb_strategy rb = Drop
    then kept = filter (\<lambda>(k, t). lag_of rb g t \<le> real_of_int (rb_threshold rb)) batch \<and>
      dropped = map fst (filter (\<lambda>(k, t). real_of_int (rb_threshold rb) < lag_of rb g t) batch) \<and>
      (batch \<noteq> [] \<longrightarrow> rb_sync_step rb \<noteq> 0)
    else kept = batch \<and> dropped = []"
proof (cases "rb_strategy rb = Drop")
  case True
  let ?f = "\<lambda>(k, t). case tg_steps t of None \<Rightarrow> Inl KeyError
     | Some p \<Rightarrow> if rb_sync_step rb = 0 then Inl ZeroDivisionError else Inr ((k, t), version_lag rb g p)"
  obtain rows where rows: "map_res ?f batch = Inr rows"
      and out: "kept = map fst (filter (\<lambda>(_, s). \<not> real_of_int (rb_threshold rb) < s) rows)"
        "dropped = map (fst \<circ> fst) (filter (\<lambda>(_, s). real_of_int (rb_threshold rb) < s) rows)"
    using assms True by (auto simp: drop_max_off_policy_samples_def bind_res_Inr_iff Let_def)
  have "rows = map (\<lambda>(k, t). ((k, t), lag_of rb g t)) batch \<and> (batch \<noteq> [] \<longrightarrow> rb_sync_step rb \<noteq> 0)" using rows
    by (induction batch arbitrary: rows) (auto simp: bind_res_Inr_iff lag_of_def split: option.splits if_splits)
  then show ?thesis using True by (auto simp: out filter_map comp_def case_prod_unfold not_less)
qed (use assms in \<open>simp add: drop_max_off_policy_samples_def\<close>)

text \<open>
  The batch is the trajectories of the chosen prompts, in the order of the queue, all of them and no others; under the strategy
  \<open>drop\<close> those and only those are removed that lag more model versions behind than the threshold allows.
\<close>

theorem sample_batch_correct:
  assumes run: "sample fuel 0 polls rb set_order g p batch_size = Some (Inr (j, s))" and ok: "store_ok (polls j)"
  shows "rs_batch s = filter (\<lambda>(k, t). rb_strategy rb = Drop \<longrightarrow> lag_of rb g t \<le> real_of_int (rb_threshold rb))
      (taken_trajectories (listed (polls j) p) (rs_prompts s)) \<and>
    set (rs_dropped s) = fst ` set (taken_trajectories (listed (polls j) p) (rs_prompts s)) - fst ` set (rs_batch s)"
proof -
  obtain d where d: "sync_metadata_from_transfer_queue (polls j) = Inr d"
      and s: "sample_ready rb set_order g (partition_meta d p) batch_size = Inr s"
    using sample_returned[OF run] by blast
  let ?items = "listed (polls j) p" and ?m = "partition_meta d p"
  let ?taken = "taken_trajectories ?items (rs_prompts s)"
  have dist: "distinct (map fst ?items)" by (rule listed_distinct[OF ok])
  have "filter (\<lambda>(k, t). uid_of k \<in> set (rs_prompts s)) (rm_partition ?m) = ?taken"
    using sync_items_meta[OF partition_meta_listed[OF d] dist] by (simp add: taken_trajectories_def case_prod_unfold conj_commute)
  then have run': "drop_max_off_policy_samples rb g ?taken = Inr (rs_batch s, rs_dropped s, rs_metrics s)"
    using s by (auto simp: sample_ready_def Let_def bind_res_Inr_iff)
  have dt: "distinct (map fst ?taken)" unfolding taken_trajectories_def by (rule distinct_map_filter[OF dist])
  show ?thesis
  proof (cases "rb_strategy rb")
    case Drop
    then have eq: "rs_batch s = filter (\<lambda>(k, t). lag_of rb g t \<le> real_of_int (rb_threshold rb)) ?taken"
        "rs_dropped s = map fst (filter (\<lambda>(k, t). real_of_int (rb_threshold rb) < lag_of rb g t) ?taken)"
      using drop_stale_correct[OF run'] by simp_all
    have "k \<notin> fst ` set (rs_batch s)" if "(k, t) \<in> set ?taken" "real_of_int (rb_threshold rb) < lag_of rb g t" for k t
      using that eq_key_imp_eq_value[OF dt] by (fastforce simp: eq(1))
    moreover have "k \<in> fst ` set (rs_batch s)" if "(k, t) \<in> set ?taken" "\<not> real_of_int (rb_threshold rb) < lag_of rb g t" for k t
      using that by (force simp: eq(1))
    ultimately have "set (rs_dropped s) = fst ` set ?taken - fst ` set (rs_batch s)"
      unfolding eq(2) by (intro set_eqI) force
    then show ?thesis using eq(1) Drop by simp
  next
    case Wait
    then show ?thesis using drop_stale_correct[OF run'] by (simp add: case_prod_unfold)
  qed
qed

text \<open>
  Under the strategy \<open>wait\<close> a batch is only returned at a poll at which no pending or running prompt has reached the threshold, so the
  trainer cannot step away from a trajectory that is still generated.
\<close>

theorem wait_holds_for_stale_prompts:
  assumes run: "sample fuel 0 polls rb set_order g p batch_size = Some (Inr (j, s))" and ok: "store_ok (polls j)"
    and "rb_strategy rb = Wait" and k: "k \<in> prompts_in {''pending'', ''running''} (listed (polls j) p)"
  shows "version_lag rb g (step_of (listed (polls j) p) k) < real_of_int (rb_threshold rb)"
proof -
  obtain d where d: "sync_metadata_from_transfer_queue (polls j) = Inr d"
      and enough: "has_enough_samples rb g (partition_meta d p) batch_size = Inr True"
    using sample_returned[OF run] by blast
  let ?m = "partition_meta d p" and ?items = "listed (polls j) p"
  have dist: "distinct (map fst ?items)" by (rule listed_distinct[OF ok])
  note meta = sync_items_meta[OF partition_meta_listed[OF d] dist]
  obtain steps where steps: "map_res (dict_index (rm_steps ?m)) (rm_pending ?m @ rm_running ?m) = Inr steps"
      and le: "\<forall>q \<in> set steps. version_lag rb g q < real_of_int (rb_threshold rb)"
    using enough assms(3) by (auto simp: has_enough_samples_def bind_res_Inr_iff not_le split: if_splits)
  obtain t where t: "(k, t) \<in> set ?items" "tg_prompt t" using k by (auto simp: prompts_in_def)
  obtain q where q: "tg_steps t = Some q" using meta t by fastforce
  have "k \<in> set (rm_pending ?m @ rm_running ?m)" using meta k by (auto simp: prompts_in_def)
  then obtain i where i: "i < length (rm_pending ?m @ rm_running ?m)" "(rm_pending ?m @ rm_running ?m) ! i = k"
    unfolding in_set_conv_nth by blast
  then have "map_of (rm_steps ?m) k = Some (steps ! i)" using map_res_nth[OF steps] by (auto simp: dict_index_Inr_iff)
  moreover have "map_of (rm_steps ?m) k = Some q" using meta t q by blast
  ultimately have "q \<in> set steps" using i map_res_length[OF steps] by auto
  moreover have "step_of ?items k = q" using t q dist by (simp add: step_of_def)
  ultimately show ?thesis using le by auto
qed

section \<open>No prompt twice, and an end to waiting\<close>

lemma kv_clear_prompts: "k \<in> set ks \<Longrightarrow> k \<notin> fst ` set (listed (Some (kv_clear p ks store)) p)"
  by (induction store) (auto simp: kv_clear_def listed_def split: option.splits)

text \<open>
  What was sampled is not sampled again.  Once the prompts of a sample are cleared from the queue and not registered again, a later
  sample has none of these prompts and shares no trajectory with the first.
\<close>

theorem samples_share_nothing:
  assumes run1: "sample fuel1 0 polls1 rb set_order g1 p n1 = Some (Inr (i, s1))" and run2: "sample fuel2 0 polls2 rb set_order g2 p n2 = Some (Inr (j, s2))"
    and ok: "store_ok (polls1 i)" "store_ok (polls2 j)" and law: "\<forall>xs. mset (set_order xs) = mset xs"
    and cleared: "\<forall>k \<in> set (rs_prompts s1). \<forall>t. (k, t) \<in> set (listed (polls2 j) p) \<longrightarrow> \<not> tg_prompt t"
  shows "set (rs_prompts s1) \<inter> set (rs_prompts s2) = {} \<and> fst ` set (rs_batch s1) \<inter> fst ` set (rs_batch s2) = {}"
proof -
  obtain d where d: "sync_metadata_from_transfer_queue (polls2 j) = Inr d"
      and enough: "has_enough_samples rb g2 (partition_meta d p) n2 = Inr True"
      and s: "sample_ready rb set_order g2 (partition_meta d p) n2 = Inr s2"
    using sample_returned[OF run2] by blast
  have "rs_prompts s2 = select_prompts set_order (partition_meta d p) n2"
    using s by (auto simp: sample_ready_def Let_def bind_res_Inr_iff)
  moreover have "n2 \<le> length (rm_finished (partition_meta d p)) + length (rm_failure (partition_meta d p))"
    using enough by (auto simp: has_enough_samples_def bind_res_Inr_iff)
  ultimately have "set (rs_prompts s2) \<subseteq> sampleable (listed (polls2 j) p)"
    using select_prompts_correct[OF partition_meta_listed[OF d] listed_distinct[OF ok(2)] law, of n2] by auto
  then have prompts: "set (rs_prompts s1) \<inter> set (rs_prompts s2) = {}" using cleared by (fastforce simp: prompts_in_def)
  have "uid_of k \<in> set (rs_prompts s)" if run: "sample fuel 0 polls rb set_order g p n = Some (Inr (i, s))" and "store_ok (polls i)" and k: "k \<in> fst ` set (rs_batch s)"
    for fuel polls g n i s k
  proof -
    obtain d where d: "sync_metadata_from_transfer_queue (polls i) = Inr d" and s: "sample_ready rb set_order g (partition_meta d p) n = Inr s"
      using sample_returned[OF run] by blast
    obtain metrics where "drop_max_off_policy_samples rb g (filter (\<lambda>(k, t). uid_of k \<in> set (rs_prompts s)) (rm_partition (partition_meta d p))) =
        Inr (rs_batch s, rs_dropped s, metrics)"
      using s by (auto simp: sample_ready_def Let_def bind_res_Inr_iff)
    from drop_stale_correct[OF this] show ?thesis using k by (auto split: if_splits)
  qed
  from this[OF run1 ok(1)] this[OF run2 ok(2)] prompts show ?thesis by blast
qed

text \<open>
  C16: under the strategy \<open>drop\<close> waiting ends: as soon as a poll lists enough finished or failed prompts, \<open>sample\<close> returns, at that poll or
  an earlier one, with a batch or an error.
\<close>

theorem drop_sampling_returns:
  assumes "rb_strategy rb = Drop" and ok: "store_ok (polls n)" and enough: "batch_size \<le> card (sampleable (listed (polls n) p))"
  shows "\<exists>r. sample (n + 1) 0 polls rb set_order g p batch_size = Some r"
proof -
  have "sample (fuel + 1) k polls rb set_order g p batch_size \<noteq> None" if "k + fuel = n" for fuel k
    using that
  proof (induction fuel arbitrary: k)
    case 0
    show ?case
    proof (cases "sync_metadata_from_transfer_queue (polls k)")
      case (Inr d)
      let ?m = "partition_meta d p" and ?items = "listed (polls k) p"
      have "distinct (map fst ?items)" using ok 0 by (simp add: listed_distinct)
      note meta = sync_items_meta[OF partition_meta_listed[OF Inr] this]
      have "sampleable ?items = set (rm_finished ?m) \<union> set (rm_failure ?m)" using meta by (auto simp: prompts_in_def)
      then have "card (sampleable ?items) \<le> card (set (rm_finished ?m)) + card (set (rm_failure ?m))" by (simp add: card_Un_le)
      also have "\<dots> = length (rm_finished ?m) + length (rm_failure ?m)" using meta distinct_card[of "rm_finished ?m"] distinct_card[of "rm_failure ?m"] by linarith
      finally have "batch_size \<le> length (rm_finished ?m) + length (rm_failure ?m)" using enough 0 by simp
      then show ?thesis using Inr assms(1) by (simp add: has_enough_samples_def)
    qed simp
  next
    case (Suc fuel)
    from Suc.IH[of "k + 1"] Suc.prems show ?case by (auto split: sum.splits bool.splits)
  qed
  from this[of 0 n] show ?thesis by auto
qed

section \<open>Witnesses\<close>

definition example_listing :: tq_store where
  "example_listing = [(''train'',
     [(''a'', \<lparr> tg_prompt = True, tg_status = ''finished'', tg_steps = Some 3 \<rparr>),
      (''a_0_0'', \<lparr> tg_prompt = False, tg_status = ''success'', tg_steps = Some 3 \<rparr>),
      (''b'', \<lparr> tg_prompt = True, tg_status = ''failure'', tg_steps = Some 1 \<rparr>),
      (''b_0_0'', \<lparr> tg_prompt = False, tg_status = ''success'', tg_steps = Some 1 \<rparr>),
      (''c'', \<lparr> tg_prompt = True, tg_status = ''running'', tg_steps = Some 3 \<rparr>)])]"

definition example_buffer :: "strategy \<Rightarrow> replay_buffer" where
  "example_buffer st = \<lparr> rb_strategy = st, rb_threshold = 2, rb_sync_step = 1 \<rparr>"

lemma example_listing_ok: "store_ok (Some example_listing)"
  by (simp add: store_ok_def example_listing_def dict_ok_def)

lemma example_uids: "uid_of ''a_0_0'' = ''a''" "uid_of ''b_0_0'' = ''b''"
  by (simp_all add: uid_of_def split_on.simps)

lemma example_sample:
  "\<exists>s. sample 1 0 (\<lambda>_. Some example_listing) (example_buffer st) id 3 ''train'' 1 = Some (Inr (0, s)) \<and> rs_prompts s = [''b'']"
proof -
  obtain d where d: "sync_metadata_from_transfer_queue (Some example_listing) = Inr d" "partition_meta d ''train'' =
      \<lparr> rm_partition = [(''a_0_0'', \<lparr> tg_prompt = False, tg_status = ''success'', tg_steps = Some 3 \<rparr>),
                        (''b_0_0'', \<lparr> tg_prompt = False, tg_status = ''success'', tg_steps = Some 1 \<rparr>)],
        rm_pending = [], rm_running = [''c''], rm_finished = [''a''], rm_failure = [''b''], rm_steps = [(''a'', 3), (''b'', 1), (''c'', 3)] \<rparr>"
    by (simp add: sync_metadata_from_transfer_queue_def example_listing_def sync_item_def empty_meta_def partition_meta_def)
  then show ?thesis
    by (auto simp: has_enough_samples_def dict_index_def version_lag_def example_buffer_def sample_ready_def select_prompts_def
        drop_max_off_policy_samples_def Let_def split: option.splits)
qed

theorem sample_takes_oldest_prompts_witness: "step_of (listed (Some example_listing) ''train'') ''b'' \<le> step_of (listed (Some example_listing) ''train'') ''a''"
proof -
  obtain s where s: "sample 1 0 (\<lambda>_. Some example_listing) (example_buffer Drop) id 3 ''train'' 1 = Some (Inr (0, s))" "rs_prompts s = [''b'']"
    using example_sample by blast
  have "''a'' \<in> sampleable (listed (Some example_listing) ''train'')" by (auto simp: prompts_in_def listed_def example_listing_def)
  then show ?thesis using sample_takes_oldest_prompts[OF s(1)] example_listing_ok s(2) by auto
qed

theorem sample_batch_correct_witness:
  "\<exists>s. sample 1 0 (\<lambda>_. Some example_listing) (example_buffer Drop) id 3 ''train'' 1 = Some (Inr (0, s)) \<and> rs_batch s = [] \<and> set (rs_dropped s) = {''b_0_0''}"
proof -
  obtain s where s: "sample 1 0 (\<lambda>_. Some example_listing) (example_buffer Drop) id 3 ''train'' 1 = Some (Inr (0, s))" "rs_prompts s = [''b'']"
    using example_sample by blast
  have taken: "taken_trajectories (listed (Some example_listing) ''train'') [''b''] =
      [(''b_0_0'', \<lparr> tg_prompt = False, tg_status = ''success'', tg_steps = Some 1 \<rparr>)]"
    by (simp add: taken_trajectories_def listed_def example_listing_def example_uids)
  show ?thesis using sample_batch_correct[OF s(1)] example_listing_ok s
    by (auto simp: taken lag_of_def version_lag_def example_buffer_def)
qed

theorem wait_holds_for_stale_prompts_witness: "version_lag (example_buffer Wait) 3 (step_of (listed (Some example_listing) ''train'') ''c'') < 2"
proof -
  obtain s where s: "sample 1 0 (\<lambda>_. Some example_listing) (example_buffer Wait) id 3 ''train'' 1 = Some (Inr (0, s))"
    using example_sample by blast
  have "''c'' \<in> prompts_in {''pending'', ''running''} (listed (Some example_listing) ''train'')" by (auto simp: prompts_in_def listed_def example_listing_def)
  from wait_holds_for_stale_prompts[OF s _ _ this] example_listing_ok show ?thesis by (simp add: example_buffer_def)
qed

theorem samples_share_nothing_witness:
  "\<exists>s1 s2. sample 1 0 (\<lambda>_. Some example_listing) (example_buffer Drop) id 3 ''train'' 1 = Some (Inr (0, s1)) \<and>
    sample 1 0 (\<lambda>_. Some (kv_clear ''train'' [''b''] example_listing)) (example_buffer Drop) id 3 ''train'' 1 = Some (Inr (0, s2)) \<and>
    set (rs_prompts s1) \<inter> set (rs_prompts s2) = {}"
proof -
  obtain s1 where s1: "sample 1 0 (\<lambda>_. Some example_listing) (example_buffer Drop) id 3 ''train'' 1 = Some (Inr (0, s1))" "rs_prompts s1 = [''b'']"
    using example_sample by blast
  let ?after = "kv_clear ''train'' [''b''] example_listing"
  have after: "?after = [(''train'', filter (\<lambda>(k, t). k \<noteq> ''b'') (snd (hd example_listing)))]"
    by (simp add: kv_clear_def example_listing_def)
  obtain s2 where s2: "sample 1 0 (\<lambda>_. Some ?after) (example_buffer Drop) id 3 ''train'' 1 = Some (Inr (0, s2))"
    unfolding after
    by (simp add: example_listing_def sync_metadata_from_transfer_queue_def sync_item_def empty_meta_def partition_meta_def has_enough_samples_def
        example_buffer_def sample_ready_def drop_max_off_policy_samples_def select_prompts_def example_uids Let_def)
  have "store_ok (Some ?after)" unfolding after by (simp add: store_ok_def example_listing_def dict_ok_def)
  moreover have "\<forall>k \<in> set (rs_prompts s1). \<forall>t. (k, t) \<in> set (listed (Some ?after) ''train'') \<longrightarrow> \<not> tg_prompt t"
    unfolding after using s1(2) by (auto simp: listed_def example_listing_def)
  ultimately show ?thesis using samples_share_nothing[OF s1(1) s2] example_listing_ok s1(1) s2 by auto
qed

theorem drop_sampling_returns_witness: "\<exists>r. sample 1 0 (\<lambda>_. Some example_listing) (example_buffer Drop) id 3 ''train'' 2 = Some r"
proof -
  have "prompts_in sts items = set (map fst (filter (\<lambda>(k, t). tg_prompt t \<and> tg_status t \<in> sts) items))" for sts items
    by (force simp: prompts_in_def)
  then have "sampleable (listed (Some example_listing) ''train'') = {''a'', ''b''}" by (simp add: listed_def example_listing_def del: set_filter)
  then have "\<exists>r. sample (0 + 1) 0 (\<lambda>_. Some example_listing) (example_buffer Drop) id 3 ''train'' 2 = Some r"
    by (intro drop_sampling_returns) (simp_all only: example_listing_ok example_buffer_def replay_buffer.simps, simp)
  then show ?thesis by simp
qed

end
