(* ===== verification/Rpc.thy ===== *)
theory Rpc
  imports Prelude "HOL-Library.Word"
begin

text \<open>
  The length-prefixed messages between the trainer and the student and teacher servers:
  \<open>src/CLightMLLM_new/src/method/rpc.py\<close>.  The bytes on the socket arrive in chunks of any size, so
  \<open>recv(n)\<close> returns between one and \<open>n\<close> bytes, and nothing at all once the peer has closed.  The
  pickling of a message is a parameter.
\<close>

named_theorems rpc_simps

type_synonym bytes = "8 word list"

section \<open>The socket\<close>

text \<open>The chunks still to arrive; \<open>recv(n)\<close> never crosses the end of a chunk.\<close>

type_synonym sock = "bytes list"

fun sock_recv :: "nat \<Rightarrow> sock \<Rightarrow> bytes \<times> sock" where
  "sock_recv n [] = ([], [])"
| "sock_recv n (c # cs) = (take n c, if length c \<le> n then cs else drop n c # cs)"

definition chunks_ok :: "sock \<Rightarrow> bool" where
  "chunks_ok s \<longleftrightarrow> [] \<notin> set s"

function recv_exact :: "nat \<Rightarrow> sock \<Rightarrow> (bytes \<times> sock) result" where
  "recv_exact remaining s =
     (if remaining = 0 then Inr ([], s)
      else let (chunk, s') = sock_recv remaining s
           in if chunk = [] then Inl ConnectionError
              else bind_res (recv_exact (remaining - length chunk) s') (\<lambda>(rest, s''). Inr (chunk @ rest, s'')))"
  by pat_completeness auto
termination
  by (relation "measure fst") auto

declare recv_exact.simps [simp del]

section \<open>The header and the messages\<close>

text \<open>\<open>struct.Struct("!Q")\<close>: eight bytes, the most significant first; a larger number is an error.\<close>

fun be_bytes :: "nat \<Rightarrow> nat \<Rightarrow> bytes" where
  "be_bytes 0 n = []"
| "be_bytes (Suc k) n = be_bytes k (n div 256) @ [of_nat (n mod 256)]"

definition be_value :: "bytes \<Rightarrow> nat" where
  "be_value bs = foldl (\<lambda>acc b. acc * 256 + unat b) 0 bs"

definition header_pack :: "nat \<Rightarrow> bytes result" where
  "header_pack n = (if n < 2 ^ 64 then Inr (be_bytes 8 n) else Inl ValueError)"

definition header_unpack :: "bytes \<Rightarrow> nat" where
  "header_unpack bs = be_value bs"

definition send_message :: "('m \<Rightarrow> bytes) \<Rightarrow> 'm \<Rightarrow> bytes result" where
  "send_message dumps msg =
     (let payload = dumps msg in bind_res (header_pack (length payload)) (\<lambda>h. Inr (h @ payload)))"

definition recv_message :: "(bytes \<Rightarrow> 'm result) \<Rightarrow> sock \<Rightarrow> ('m \<times> sock) result" where
  "recv_message loads s =
     bind_res (recv_exact 8 s) (\<lambda>(header, s1).
       bind_res (recv_exact (header_unpack header) s1) (\<lambda>(payload, s2).
         bind_res (loads payload) (\<lambda>msg. Inr (msg, s2))))"

section \<open>Receiving an exact number of bytes\<close>

lemma chunks_ok_simps [simp, rpc_simps]:
  "chunks_ok []" "chunks_ok (c # cs) \<longleftrightarrow> c \<noteq> [] \<and> chunks_ok cs"
  by (auto simp: chunks_ok_def)

lemma recv_exact_0 [simp, rpc_simps]: "recv_exact 0 s = Inr ([], s)"
  by (subst recv_exact.simps) simp

lemma recv_exact_correct:
  "chunks_ok s \<Longrightarrow>
   (if length (concat s) < n then recv_exact n s = Inl ConnectionError
    else \<exists>s'. recv_exact n s = Inr (take n (concat s), s') \<and> concat s' = drop n (concat s) \<and> chunks_ok s')"
proof (induction n s rule: recv_exact.induct)
  case (1 n s)
  show ?case
  proof (cases "n = 0")
    case True
    with 1(2) show ?thesis by simp
  next
    case n: False
    show ?thesis
    proof (cases s)
      case Nil
      with n show ?thesis by (simp add: recv_exact.simps[of n])
    next
      case (Cons c cs)
      let ?s' = "if length c \<le> n then cs else drop n c # cs"
      have c: "c \<noteq> []" "chunks_ok cs" using 1(2) Cons by simp_all
      then have ok: "chunks_ok ?s'" by auto
      have ne: "take n c \<noteq> []" using c n by simp
      have len: "length (concat s) = length (take n c) + length (concat ?s')" by (simp add: Cons)
      have ih: "if length (concat ?s') < n - length (take n c) then recv_exact (n - length (take n c)) ?s' = Inl ConnectionError
        else \<exists>s''. recv_exact (n - length (take n c)) ?s' = Inr (take (n - length (take n c)) (concat ?s'), s'') \<and>
          concat s'' = drop (n - length (take n c)) (concat ?s') \<and> chunks_ok s''"
        by (rule 1(1)[OF n _ refl ne ok]) (simp add: Cons)
      have step: "recv_exact n s = bind_res (recv_exact (n - length (take n c)) ?s') (\<lambda>(rest, s''). Inr (take n c @ rest, s''))"
        using n ne by (subst recv_exact.simps) (simp add: Cons)
      show ?thesis
      proof (cases "length (concat s) < n")
        case True
        with ih len step show ?thesis by (simp split: if_splits)
      next
        case False
        then have "\<not> length (concat ?s') < n - length (take n c)" using len by linarith
        then obtain s'' where "recv_exact (n - length (take n c)) ?s' = Inr (take (n - length (take n c)) (concat ?s'), s'')"
          "concat s'' = drop (n - length (take n c)) (concat ?s')" "chunks_ok s''"
          using ih by (simp only: if_False) blast
        moreover have "take n (concat s) = take n c @ take (n - length (take n c)) (concat ?s')" by (simp add: Cons)
        moreover have "drop n (concat s) = drop (n - length (take n c)) (concat ?s')" by (simp add: Cons)
        ultimately show ?thesis using False by (simp add: step)
      qed
    qed
  qed
qed

lemma recv_exact_enough:
  assumes "chunks_ok s" and "concat s = bs @ rest"
  shows "\<exists>s'. recv_exact (length bs) s = Inr (bs, s') \<and> concat s' = rest \<and> chunks_ok s'"
  using recv_exact_correct[OF assms(1), of "length bs"] assms(2) by simp

lemma length_be_bytes [simp, rpc_simps]: "length (be_bytes k n) = k"
  by (induction k arbitrary: n) auto

lemma be_value_be_bytes [rpc_simps]: "n < 256 ^ k \<Longrightarrow> be_value (be_bytes k n) = n"
proof (induction k arbitrary: n)
  case 0
  then show ?case by (simp add: be_value_def)
next
  case (Suc k)
  have "unat (of_nat (n mod 256) :: 8 word) = n mod 256"
    by (simp add: unat_of_nat)
  moreover have "be_value (be_bytes k (n div 256)) = n div 256"
    using Suc.prems by (intro Suc.IH) (simp add: less_mult_imp_div_less mult.commute)
  ultimately show ?case by (simp add: be_value_def)
qed

text \<open>
  Messages survive the wire: whatever the boundaries of the chunks in which the bytes of a sequence of
  messages arrive, and whatever follows them, receiving once returns the first message and leaves exactly the bytes
  behind it; a connection closed in the middle of a message raises \<open>ConnectionError\<close> and never returns a
  truncated message.
\<close>

theorem rpc_roundtrip:
  assumes "\<And>m. loads (dumps m) = Inr m"
    and "length (dumps msg) < 2 ^ 64" and "chunks_ok s"
  shows "\<exists>wire. send_message dumps msg = Inr wire \<and>
    (\<forall>rest. concat s = wire @ rest \<longrightarrow>
       (\<exists>s'. recv_message loads s = Inr (msg, s') \<and> concat s' = rest \<and> chunks_ok s')) \<and>
    (\<forall>k. k < length wire \<longrightarrow> concat s = take k wire \<longrightarrow> recv_message loads s = Inl ConnectionError)"
proof -
  define h where "h = be_bytes 8 (length (dumps msg))"
  have h: "length h = 8" "header_unpack h = length (dumps msg)"
    using assms(2) by (simp_all add: h_def header_unpack_def be_value_be_bytes)
  have wire: "send_message dumps msg = Inr (h @ dumps msg)"
    using assms(2) by (simp add: send_message_def header_pack_def h_def Let_def)
  have whole: "\<exists>s'. recv_message loads s = Inr (msg, s') \<and> concat s' = rest \<and> chunks_ok s'"
    if c: "concat s = (h @ dumps msg) @ rest" for rest
  proof -
    obtain s1 where s1: "recv_exact 8 s = Inr (h, s1)" "concat s1 = dumps msg @ rest" "chunks_ok s1"
      using recv_exact_enough[OF assms(3), of h "dumps msg @ rest"] c h by auto
    obtain s2 where "recv_exact (length (dumps msg)) s1 = Inr (dumps msg, s2)" "concat s2 = rest" "chunks_ok s2"
      using recv_exact_enough[OF s1(3,2)] by blast
    then show ?thesis using s1(1) h(2) assms(1) by (simp add: recv_message_def)
  qed
  have cut: "recv_message loads s = Inl ConnectionError"
    if k: "k < length (h @ dumps msg)" and c: "concat s = take k (h @ dumps msg)" for k
  proof (cases "k < 8")
    case True
    then have "length (concat s) < 8" using c by simp
    then show ?thesis using recv_exact_correct[OF assms(3), of 8] by (simp add: recv_message_def)
  next
    case False
    then have "concat s = h @ take (k - 8) (dumps msg)" using c h(1) by simp
    then obtain s1 where s1: "recv_exact 8 s = Inr (h, s1)" "concat s1 = take (k - 8) (dumps msg)" "chunks_ok s1"
      using recv_exact_enough[OF assms(3)] h(1) by metis
    have "length (concat s1) < length (dumps msg)" using s1(2) k h(1) False by simp
    then have "recv_exact (length (dumps msg)) s1 = Inl ConnectionError"
      using recv_exact_correct[OF s1(3), of "length (dumps msg)"] by simp
    then show ?thesis using s1(1) h(2) by (simp add: recv_message_def)
  qed
  show ?thesis using wire whole cut by blast
qed

text \<open>Three bytes, in chunks that split the header and the payload.\<close>

theorem rpc_roundtrip_witness:
  "\<exists>s'. recv_message (\<lambda>b. Inr b) [[0, 0, 0], [0, 0, 0, 0, 3, 7], [8, 9, 1], [2]] = Inr ([7, 8, 9], s') \<and> concat s' = [1, 2]"
proof -
  have w: "send_message (\<lambda>m :: bytes. m) [7, 8, 9] = Inr ([0, 0, 0, 0, 0, 0, 0, 3] @ [7, 8, 9])"
  proof -
    have "be_bytes (Suc (Suc (Suc (Suc (Suc (Suc (Suc (Suc 0)))))))) 3 = [0, 0, 0, 0, 0, 0, 0, 3]" by simp
    then have "be_bytes 8 3 = [0, 0, 0, 0, 0, 0, 0, 3]" by (simp only: eval_nat_numeral BitM.simps One_nat_def)
    moreover have "length [7, 8, 9 :: 8 word] = 3" by simp
    ultimately show ?thesis by (simp only: send_message_def header_pack_def Let_def) simp
  qed
  have c: "concat [[0, 0, 0], [0, 0, 0, 0, 3, 7], [8, 9, 1], [2]] =
      ([0, 0, 0, 0, 0, 0, 0, 3] @ [7, 8, 9]) @ [1, 2 :: 8 word]" by simp
  show ?thesis
    using rpc_roundtrip[of "\<lambda>b. Inr b" "\<lambda>m. m" "[7, 8, 9]" "[[0, 0, 0], [0, 0, 0, 0, 3, 7], [8, 9, 1], [2 :: 8 word]]"]
    unfolding w c by auto
qed

end
