(* ===== verification/SeqlenBalancing.thy ===== *)
theory SeqlenBalancing
  imports KarmarkarKarp Complex_Main
begin

text \<open>
  \<open>src/verl_new/verl/utils/seqlen_balancing.py\<close>: the partition of a batch into groups of
  balanced workload (Karmarkar-Karp differencing and the greedy strategy), the checked entry
  point, the micro-batches of dynamic batching and the way back to the original order.
  Sequence lengths and workloads are \<open>int\<close> (the code uses Python ints and 64-bit tensors,
  whose overflow is out of reach of real lengths and is not modelled); indices are \<open>nat\<close>.
\<close>

section \<open>Workload\<close>

definition calculate_workload :: "int list \<Rightarrow> int list" where
  "calculate_workload seqlen_list = map (\<lambda>s. 24576 * s + s ^ 2) seqlen_list"

section \<open>The checked entry point\<close>

definition check_and_sort_partitions :: "nat \<Rightarrow> nat \<Rightarrow> nat list list \<Rightarrow> nat list list result" where
  "check_and_sort_partitions n k_partitions partitions =
     asserting (length partitions = k_partitions)
       (asserting (\<forall>p \<in> set partitions. 0 < length p)
         (asserting (set (concat partitions) = set [0..<n])
           (Inr (map sort partitions))))"

definition get_seqlen_balanced_partitions :: "int list \<Rightarrow> nat \<Rightarrow> bool \<Rightarrow> nat list list result" where
  "get_seqlen_balanced_partitions seqlen_list k_partitions equal_size =
     asserting (k_partitions \<le> length seqlen_list)
       (bind_res (karmarkar_karp seqlen_list k_partitions equal_size)
          (check_and_sort_partitions (length seqlen_list) k_partitions))"

section \<open>The greedy strategy\<close>

text \<open>The inner loop: the first index with the least sum (\<open>None\<close> when there is none).\<close>

fun argmin_from :: "nat \<Rightarrow> int list \<Rightarrow> nat option \<Rightarrow> int \<Rightarrow> nat option" where
  "argmin_from j [] best m = best"
| "argmin_from j (s # ss) best m =
     (if best = None \<or> s < m then argmin_from (Suc j) ss (Some j) s
      else argmin_from (Suc j) ss best m)"

definition greedy_step ::
  "nat list list \<times> int list \<Rightarrow> int \<times> nat \<Rightarrow> (nat list list \<times> int list) result" where
  "greedy_step st item =
     (case st of (partitions, totals) \<Rightarrow> case item of (seqlen, i) \<Rightarrow>
        (case argmin_from 0 totals None 0 of
           None \<Rightarrow> Inl TypeError
         | Some j \<Rightarrow> Inr (partitions[j := partitions ! j @ [i]], totals[j := totals ! j + seqlen])))"

definition greedy_partition :: "int list \<Rightarrow> nat \<Rightarrow> bool \<Rightarrow> nat list list result" where
  "greedy_partition seqlen_list k_partitions equal_size =
     (let n = length seqlen_list;
          bias = (if equal_size then sum_list seqlen_list + 1 else 0);
          items = map (\<lambda>(seqlen, i). (seqlen + bias, i)) (zip seqlen_list [0..<n])
      in bind_res (fold_res greedy_step (replicate k_partitions [], replicate k_partitions 0) items)
           (\<lambda>(partitions, _).
              asserting (equal_size \<longrightarrow> (\<forall>p \<in> set partitions. length p * k_partitions = n))
                (Inr partitions)))"

section \<open>Integer helpers\<close>

definition ceildiv :: "int \<Rightarrow> int \<Rightarrow> int result" where
  "ceildiv a b = (if b = 0 then Inl ZeroDivisionError else Inr (- (a div (- b))))"

definition roundup_divisible :: "int \<Rightarrow> int \<Rightarrow> int result" where
  "roundup_divisible a b = (if b = 0 then Inl ZeroDivisionError else Inr (((a + b - 1) div b) * b))"

section \<open>Imbalance metrics\<close>

text \<open>
  \<open>log_seqlen_unbalance\<close>: the sums of consecutive batches of \<open>len // k\<close> items and the sums of
  the partitions.  \<open>min\<close> and \<open>max\<close> of an empty sequence raise, as does a step of zero.
\<close>

function batch_sums :: "nat \<Rightarrow> int list \<Rightarrow> int list" where
  "batch_sums b xs = (if xs = [] \<or> b = 0 then [] else sum_list (take b xs) # batch_sums b (drop b xs))"
  by pat_completeness auto
termination
  by (relation "measure (\<lambda>(b, xs). length xs)") auto

declare batch_sums.simps [simp del]

record unbalance =
  ub_min :: int
  ub_max :: int
  ub_minmax_diff :: int
  ub_balanced_min :: int
  ub_balanced_max :: int
  ub_mean :: rat

definition log_seqlen_unbalance :: "int list \<Rightarrow> nat list list \<Rightarrow> unbalance result" where
  "log_seqlen_unbalance seqlen_list partitions =
     (let k = length partitions
      in if k = 0 then Inl ZeroDivisionError
         else if length seqlen_list div k = 0 then Inl ValueError
         else let totals = batch_sums (length seqlen_list div k) seqlen_list
              in bind_res (map_res (map_res (\<lambda>i. py_index seqlen_list (int i))) partitions)
                   (\<lambda>vals. let balanced = map sum_list vals
                           in Inr \<lparr>ub_min = Min (set totals), ub_max = Max (set totals),
                                   ub_minmax_diff = Max (set totals) - Min (set totals),
                                   ub_balanced_min = Min (set balanced),
                                   ub_balanced_max = Max (set balanced),
                                   ub_mean = Fract (sum_list totals) (int k)\<rparr>))"

section \<open>Micro-batches\<close>

text \<open>
  The lengths of the samples come from the offsets of a nested tensor or from the rows of the
  attention mask, whose width is the maximal length then.
\<close>

datatype seq_layout =
    Nested_offsets "int list"
  | Attention_mask nat "int list list"

fun diffs :: "int list \<Rightarrow> int list" where
  "diffs (a # b # xs) = (b - a) # diffs (b # xs)"
| "diffs xs = []"

fun seq_lens :: "seq_layout \<Rightarrow> int list" where
  "seq_lens (Nested_offsets offsets) = diffs offsets"
| "seq_lens (Attention_mask width rows) = map sum_list rows"

fun max_seq_len :: "seq_layout \<Rightarrow> int result" where
  "max_seq_len (Nested_offsets offsets) =
     (if diffs offsets = [] then Inl ValueError else Inr (Max (set (diffs offsets))))"
| "max_seq_len (Attention_mask width rows) = Inr (int width)"

text \<open>
  The number of micro-batches.  \<open>dp_counts\<close> are the counts the other members of the
  data-parallel group contribute to the MAX all-reduce, \<open>None\<close> when there is no reduction
  (not initialised, no group, or \<open>same_micro_num_in_dp\<close> off).
\<close>

definition num_micro_batches ::
  "int list \<Rightarrow> int \<Rightarrow> nat \<Rightarrow> int option \<Rightarrow> int list option \<Rightarrow> int option \<Rightarrow> int result" where
  "num_micro_batches lens max_token_len num_groups min_num dp_counts divided_by =
     bind_res (ceildiv (sum_list lens) max_token_len)
       (\<lambda>c. let n0 = min (int num_groups) c;
                n1 = (case min_num of None \<Rightarrow> n0 | Some m \<Rightarrow> max m n0);
                n2 = (case dp_counts of None \<Rightarrow> n1 | Some others \<Rightarrow> foldl max n1 others)
            in bind_res (case divided_by of None \<Rightarrow> Inr n2 | Some d \<Rightarrow> roundup_divisible n2 d)
                 (\<lambda>n3. asserting (n3 \<le> int num_groups) (Inr n3)))"

text \<open>The workloads that are partitioned: one per group of \<open>g\<close> consecutive samples.\<close>

definition group_workloads :: "nat \<Rightarrow> int list \<Rightarrow> int list" where
  "group_workloads g lens =
     map (\<lambda>j. sum_list (take g (drop (j * g) (calculate_workload lens)))) [0..<length lens div g]"

definition samples_of_groups :: "nat \<Rightarrow> nat list \<Rightarrow> nat list" where
  "samples_of_groups g p = concat (map (\<lambda>j. [j * g..<j * g + g]) p)"

text \<open>\<open>partition[::g]\<close>, and the two halves \<open>xs[::2]\<close> and \<open>xs[1::2]\<close>.\<close>

definition every :: "nat \<Rightarrow> 'a list \<Rightarrow> 'a list" where
  "every g xs = map (\<lambda>i. xs ! (i * g)) [0..<(length xs + g - 1) div g]"

definition interleave_ends :: "'a list \<Rightarrow> 'a list" where
  "interleave_ends xs = rev (every 2 xs) @ every 2 (tl xs)"

text \<open>The key of the descending sort: the workload of the partition, then its first index.\<close>

definition micro_key :: "nat \<Rightarrow> int list \<Rightarrow> nat list \<Rightarrow> int \<times> nat" where
  "micro_key g workloads p =
     ((if 1 < g then (\<Sum>i\<leftarrow>every g p. workloads ! (i div g)) else (\<Sum>i\<leftarrow>p. workloads ! i)),
      (case p of [] \<Rightarrow> 0 | i # _ \<Rightarrow> i))"

definition balance_bubbles :: "nat \<Rightarrow> int list \<Rightarrow> nat list list \<Rightarrow> nat list list" where
  "balance_bubbles g workloads parts =
     interleave_ends (sorted_desc (\<lambda>p q. micro_key g workloads p < micro_key g workloads q) parts)"

definition micro_bsz_idx ::
  "int list \<Rightarrow> int \<Rightarrow> nat \<Rightarrow> bool \<Rightarrow> nat list list result" where
  "micro_bsz_idx lens n g balance =
     (let workloads = (if 1 < g then group_workloads g lens else calculate_workload lens)
      in bind_res (get_seqlen_balanced_partitions workloads (nat n) False)
           (\<lambda>parts. let idx = (if 1 < g then map (samples_of_groups g) parts else parts)
                    in Inr (if balance then balance_bubbles g workloads idx else idx)))"

text \<open>
  \<open>index_select_tensor_dict\<close> on the rows of the batch, and the whole function: the
  micro-batches and the indices of their rows.
\<close>

definition index_select_rows :: "'r list \<Rightarrow> nat list \<Rightarrow> 'r list result" where
  "index_select_rows rows idx = map_res (\<lambda>i. py_index rows (int i)) idx"

definition rearrange_micro_batches ::
  "'r list \<Rightarrow> seq_layout \<Rightarrow> int \<Rightarrow> int list option \<Rightarrow> int option \<Rightarrow> int option \<Rightarrow> bool \<Rightarrow> nat
     \<Rightarrow> ('r list list \<times> nat list list) result" where
  "rearrange_micro_batches rows layout max_token_len dp_counts divided_by min_num balance g =
     bind_res (max_seq_len layout) (\<lambda>longest.
       asserting (longest \<le> max_token_len)
         (let lens = seq_lens layout; batch_size = length lens
          in if g = 0 then Inl ZeroDivisionError
             else asserting (batch_size mod g = 0)
               (bind_res (num_micro_batches lens max_token_len (batch_size div g) min_num dp_counts divided_by)
                  (\<lambda>n. bind_res (micro_bsz_idx lens n g balance)
                     (\<lambda>idx. bind_res (map_res (index_select_rows rows) idx)
                        (\<lambda>batches. Inr (batches, idx)))))))"

section \<open>Back to the original order\<close>

definition get_reverse_idx :: "nat list \<Rightarrow> nat list result" where
  "get_reverse_idx idx_map =
     fold_res (\<lambda>rev_map (i, idx). if idx < length rev_map then Inr (rev_map[idx := i]) else Inl IndexError)
       idx_map (zip [0..<length idx_map] idx_map)"

definition restore_dynamic_batch :: "'r list \<Rightarrow> nat list list \<Rightarrow> 'r list result" where
  "restore_dynamic_batch rows batch_idx_list =
     (let indices = concat batch_idx_list
      in asserting (length indices = length rows)
           (bind_res (get_reverse_idx indices) (index_select_rows rows)))"

section \<open>Groups of samples with the same uid\<close>

text \<open>The scan for runs of equal uids; a uid may be Python's \<open>None\<close>, like the initial value.\<close>

type_synonym 'u uid_scan = "(nat list \<times> int) list \<times> 'u option \<times> nat list \<times> int"

definition uid_scan_step :: "'u uid_scan \<Rightarrow> nat \<times> int \<times> 'u option \<Rightarrow> 'u uid_scan" where
  "uid_scan_step st item =
     (case st of (groups, current_uid, current_indices, current_seqlen) \<Rightarrow>
      case item of (i, seqlen, uid) \<Rightarrow>
        if uid \<noteq> current_uid
        then (if current_indices \<noteq> [] then groups @ [(current_indices, current_seqlen)] else groups,
              uid, [i], seqlen)
        else (groups, current_uid, current_indices @ [i], current_seqlen + seqlen))"

definition uid_groups :: "int list \<Rightarrow> 'u option list \<Rightarrow> (nat list \<times> int) list" where
  "uid_groups seqlen_list uid_list =
     (case foldl uid_scan_step ([], None, [], 0)
             (zip [0..<length seqlen_list] (zip seqlen_list uid_list)) of
        (groups, _, current_indices, current_seqlen) \<Rightarrow>
          if current_indices \<noteq> [] then groups @ [(current_indices, current_seqlen)] else groups)"

definition get_group_balanced_partitions ::
  "int list \<Rightarrow> 'u option list \<Rightarrow> nat \<Rightarrow> nat list list result" where
  "get_group_balanced_partitions seqlen_list uid_list k_partitions =
     asserting (length seqlen_list = length uid_list)
       (let groups = uid_groups seqlen_list uid_list
        in asserting (k_partitions \<le> length groups)
          (let workloads = map (\<lambda>(indices, _).
                 sum_list (calculate_workload (map (\<lambda>i. seqlen_list ! i) indices))) groups
           in bind_res (get_seqlen_balanced_partitions workloads k_partitions True)
                (\<lambda>parts. Inr (map (\<lambda>p. sort (concat (map (\<lambda>j. fst (groups ! j)) p))) parts))))"

section \<open>Facts about the checked entry point\<close>

lemma karmarkar_karp_zero: "karmarkar_karp xs 0 False = Inl IndexError"
proof -
  have "kk_state_new [x] 0 = Inl IndexError" for x by (simp add: kk_state_new_def)
  then show ?thesis
    by (cases "sort (zip xs [0..<length xs])")
       (auto simp: karmarkar_karp_def kk_initial_def Let_def kk_loop.simps)
qed

lemma sort_Nil_iff [simp]: "sort p = [] \<longleftrightarrow> p = []" "[] = sort p \<longleftrightarrow> p = []"
  by (metis length_0_conv length_sort)+

lemma abs_le_sum_abs: "x \<in> set xs \<Longrightarrow> \<bar>x\<bar> \<le> (\<Sum>z\<leftarrow>xs. \<bar>z :: int\<bar>)"
proof (induction xs)
  case (Cons y ys)
  have "0 \<le> (\<Sum>z\<leftarrow>ys. \<bar>z\<bar>)" by (rule sum_list_nonneg) auto
  with Cons show ?case by auto
qed simp

lemma karmarkar_karp_Nil: "karmarkar_karp [] k equal_size \<noteq> Inr ps"
  by (auto simp: karmarkar_karp_def kk_initial_def Let_def kk_loop.simps res_simps asserting_def)

lemma karmarkar_karp_perm:
  assumes "karmarkar_karp xs k equal_size = Inr ps"
  shows "length ps = k \<and> mset (concat ps) = mset [0..<length xs]"
proof -
  have "xs \<noteq> []" using assms karmarkar_karp_Nil by blast
  moreover have "k \<noteq> 0"
  proof
    assume "k = 0"
    with assms show False
      by (cases equal_size) (simp_all add: karmarkar_karp_zero, simp add: karmarkar_karp_def Let_def)
  qed
  moreover have "equal_size \<longrightarrow> k dvd length xs"
    using assms by (auto simp: karmarkar_karp_def Let_def res_simps split: if_splits)
  moreover have "x - y \<le> 2 * (\<Sum>z\<leftarrow>xs. \<bar>z\<bar>)" if "x \<in> set xs" "y \<in> set xs" for x y
    using abs_le_sum_abs[OF that(1)] abs_le_sum_abs[OF that(2)] by linarith
  moreover have "\<bar>x\<bar> \<le> 2 * (\<Sum>z\<leftarrow>xs. \<bar>z\<bar>)" if "x \<in> set xs" for x
    using abs_le_sum_abs[OF that] by linarith
  ultimately obtain ps' where "karmarkar_karp xs k equal_size = Inr ps'" "length ps' = k"
      "mset (concat ps') = mset [0..<length xs]"
    using karmarkar_karp_main[of k xs equal_size "2 * (\<Sum>z\<leftarrow>xs. \<bar>z\<bar>)"] by blast
  with assms show ?thesis by simp
qed

lemma mset_concat_map_sort [simp]: "mset (concat (map sort ps)) = mset (concat ps)"
  by (simp add: mset_concat comp_def)

lemma partition_load_sort [simp]: "partition_load xs (sort p) = partition_load xs p"
  unfolding partition_load_def by (rule sum_list_mset_eq) simp

lemma balanced_partitions_Inr:
  assumes "get_seqlen_balanced_partitions xs k equal_size = Inr ps"
  shows "length ps = k \<and> mset (concat ps) = mset [0..<length xs] \<and> (\<forall>p \<in> set ps. p \<noteq> [] \<and> sorted p)"
  using assms karmarkar_karp_perm[of xs k equal_size]
  by (auto simp: get_seqlen_balanced_partitions_def check_and_sort_partitions_def res_simps
      simp flip: set_empty)

lemma balanced_partitions_main:
  assumes "0 < k" and "k \<le> length xs" and "\<forall>x \<in> set xs. 0 \<le> x" and "equal_size \<longrightarrow> k dvd length xs"
  shows "\<exists>ps. get_seqlen_balanced_partitions xs k equal_size = Inr ps
           \<and> length ps = k \<and> mset (concat ps) = mset [0..<length xs]
           \<and> (\<forall>p \<in> set ps. p \<noteq> [] \<and> sorted p)
           \<and> (\<forall>p \<in> set ps. \<forall>q \<in> set ps. partition_load xs p - partition_load xs q
                \<le> (if equal_size then Max (set xs) - Min (set xs) else Max (set xs)))
           \<and> (equal_size \<longrightarrow> (\<forall>p \<in> set ps. length p * k = length xs))"
proof -
  let ?B = "if equal_size then Max (set xs) - Min (set xs) else Max (set xs)"
  have ne: "xs \<noteq> []" using assms(1,2) by auto
  have gap: "x - y \<le> ?B" if "x \<in> set xs" "y \<in> set xs" for x y
  proof -
    have "0 \<le> y" using assms(3) that by blast
    with Max_ge[OF finite_set that(1)] Min_le[OF finite_set that(2)] show ?thesis by simp
  qed
  have top: "\<bar>x\<bar> \<le> ?B" if "\<not> equal_size" "x \<in> set xs" for x
    using Max_ge[OF finite_set that(2)] that assms(3) by simp
  obtain ps where ps: "karmarkar_karp xs k equal_size = Inr ps" "length ps = k"
      "mset (concat ps) = mset [0..<length xs]"
      "\<forall>p \<in> set ps. \<forall>q \<in> set ps. partition_load xs p - partition_load xs q \<le> ?B"
      "equal_size \<longrightarrow> (\<forall>p \<in> set ps. length p * k = length xs)"
      "(\<forall>x \<in> set xs. 0 \<le> x) \<and> k \<le> length xs \<longrightarrow> (\<forall>p \<in> set ps. p \<noteq> [])"
    using karmarkar_karp_main[OF assms(1) ne assms(4) gap top] by blast
  have ne_ps: "\<forall>p \<in> set ps. p \<noteq> []" using ps(6) assms(2,3) by blast
  have "set (concat ps) = set [0..<length xs]" using ps(3) by (metis set_mset_mset)
  then have "get_seqlen_balanced_partitions xs k equal_size = Inr (map sort ps)"
    using ps(1,2) ne_ps assms(2)
    by (simp add: get_seqlen_balanced_partitions_def check_and_sort_partitions_def asserting_def del: set_concat)
  moreover have "\<forall>p \<in> set (map sort ps). p \<noteq> [] \<and> sorted p"
    using ne_ps by auto
  ultimately show ?thesis using ps(2-5) by (intro exI[of _ "map sort ps"]) simp
qed

section \<open>Facts about micro-batches\<close>

lemma every_two_simps [simp]:
  "every 2 [] = []" "every 2 [x] = [x]" "every 2 (x # y # zs) = x # every 2 zs"
proof -
  show "every 2 (x # y # zs) = x # every 2 zs"
    by (simp add: every_def map_upt_Suc del: upt_Suc)
qed (simp_all add: every_def)

lemma mset_every_two: "mset (every 2 xs) + mset (every 2 (tl xs)) = mset xs"
proof (induction xs rule: induct_list012)
  case (3 x y zs)
  then show ?case by (cases zs) auto
qed auto

lemma mset_interleave_ends: "mset (interleave_ends xs) = mset xs"
  using mset_every_two[of xs] by (simp add: interleave_ends_def)

lemma mset_balance_bubbles: "mset (balance_bubbles g w parts) = mset parts"
  by (simp add: balance_bubbles_def mset_interleave_ends)

lemma concat_mset_cong: "mset xss = mset yss \<Longrightarrow> mset (concat xss) = mset (concat yss)"
  by (metis mset_concat mset_map sum_mset_sum_list)

lemma concat_samples_of_groups:
  "concat (map (samples_of_groups g) parts) = concat (map (\<lambda>j. [j * g..<j * g + g]) (concat parts))"
  by (induction parts) (auto simp: samples_of_groups_def)

lemma concat_group_ranges: "concat (map (\<lambda>j. [j * g..<j * g + g]) [0..<m]) = [0..<m * g]"
proof (induction m)
  case (Suc m)
  have "[0..<Suc m * g] = [0..<m * g] @ [m * g..<m * g + g]"
    using upt_add_eq_append[of 0 "m * g" g] by (simp add: add.commute)
  with Suc show ?case by simp
qed simp

lemma length_group_workloads [simp]: "length (group_workloads g lens) = length lens div g"
  by (simp add: group_workloads_def)

lemma length_calculate_workload [simp]: "length (calculate_workload lens) = length lens"
  by (simp add: calculate_workload_def)

lemma calculate_workload_nonneg: "\<forall>s \<in> set lens. 0 \<le> s \<Longrightarrow> x \<in> set (calculate_workload lens) \<Longrightarrow> 0 \<le> x"
  by (auto simp: calculate_workload_def)

lemma group_workloads_nonneg:
  "\<forall>s \<in> set lens. 0 \<le> s \<Longrightarrow> x \<in> set (group_workloads g lens) \<Longrightarrow> 0 \<le> x"
  unfolding group_workloads_def
  by (clarsimp intro!: sum_list_nonneg)
     (metis calculate_workload_nonneg in_set_takeD in_set_dropD)

lemma micro_bsz_idx_perm:
  assumes "micro_bsz_idx lens n g balance = Inr idx" and "0 < g" and "g dvd length lens"
  shows "mset (concat idx) = mset [0..<length lens] \<and> (\<forall>p \<in> set idx. p \<noteq> []) \<and> length idx = nat n"
proof -
  let ?w = "if 1 < g then group_workloads g lens else calculate_workload lens"
  obtain parts where parts: "get_seqlen_balanced_partitions ?w (nat n) False = Inr parts"
    and idx: "idx = (let i = if 1 < g then map (samples_of_groups g) parts else parts
                     in if balance then balance_bubbles g ?w i else i)"
    using assms(1) by (auto simp: micro_bsz_idx_def res_simps Let_def)
  let ?i = "if 1 < g then map (samples_of_groups g) parts else parts"
  from balanced_partitions_Inr[OF parts] have perm: "mset (concat parts) = mset [0..<length ?w]"
    and ne: "\<forall>p \<in> set parts. p \<noteq> []" and len: "length parts = nat n" by auto
  have "mset (concat ?i) = mset [0..<length lens]"
  proof (cases "1 < g")
    case True
    have "mset (concat ?i) = mset (concat (map (\<lambda>j. [j * g..<j * g + g]) (concat parts)))"
      using True by (simp add: concat_samples_of_groups)
    also have "\<dots> = mset (concat (map (\<lambda>j. [j * g..<j * g + g]) [0..<length lens div g]))"
    proof (rule concat_mset_cong)
      have "mset (concat parts) = mset [0..<length lens div g]" using perm True by simp
      then show "mset (map (\<lambda>j. [j * g..<j * g + g]) (concat parts))
                   = mset (map (\<lambda>j. [j * g..<j * g + g]) [0..<length lens div g])"
        by (simp only: mset_map)
    qed
    finally show ?thesis using assms(3) by (simp add: concat_group_ranges)
  next
    case False
    with perm show ?thesis by simp
  qed
  moreover have "\<forall>p \<in> set ?i. p \<noteq> []"
    using ne assms(2) by (auto simp: samples_of_groups_def)
  moreover have same: "mset idx = mset ?i"
    by (simp add: idx Let_def mset_balance_bubbles)
  moreover have "length idx = length parts" using arg_cong[OF same, of size] by (simp split: if_splits)
  moreover have "set idx = set ?i" using same by (metis set_mset_mset)
  ultimately show ?thesis using len concat_mset_cong[OF same] by simp
qed

section \<open>Facts about the way back\<close>

lemma reverse_idx_fold:
  assumes "distinct idx" and "set idx \<subseteq> {..<length r}" and "j \<le> length idx"
  shows "\<exists>r'. fold_res (\<lambda>rev_map (i, k). if k < length rev_map then Inr (rev_map[k := i]) else Inl IndexError)
              r (zip [0..<j] (take j idx)) = Inr r'
            \<and> length r' = length r \<and> (\<forall>i < j. r' ! (idx ! i) = i)"
  using assms(3)
proof (induction j)
  case 0
  then show ?case by simp
next
  case (Suc j)
  then obtain r' where r': "fold_res (\<lambda>rev_map (i, k). if k < length rev_map then Inr (rev_map[k := i]) else Inl IndexError)
              r (zip [0..<j] (take j idx)) = Inr r'" "length r' = length r" "\<forall>i < j. r' ! (idx ! i) = i" by auto
  have "idx ! j \<in> set idx" using Suc.prems by simp
  then have lt: "idx ! j < length r" using assms(2) by auto
  have "take (Suc j) idx = take j idx @ [idx ! j]" using Suc.prems by (simp add: take_Suc_conv_app_nth)
  then have "zip [0..<Suc j] (take (Suc j) idx) = zip [0..<j] (take j idx) @ [(j, idx ! j)]"
    using Suc.prems by simp
  moreover have "(r'[idx ! j := j]) ! (idx ! i) = i" if "i < Suc j" for i
    using that r'(2,3) lt Suc.prems assms(1) by (cases "i = j") (auto simp: nth_eq_iff_index_eq)
  ultimately show ?case using r' lt by (simp add: fold_res_append)
qed

lemma get_reverse_idx_perm:
  assumes "mset idx = mset [0..<n]"
  shows "\<exists>r. get_reverse_idx idx = Inr r \<and> length r = n \<and> (\<forall>i < n. r ! (idx ! i) = i)"
proof -
  have len: "length idx = n" using arg_cong[OF assms, of size] by simp
  have "distinct idx" using assms by (metis distinct_upt mset_eq_imp_distinct_iff)
  moreover have "set idx \<subseteq> {..<n}" using assms by (metis atLeast_upt mset_eq_setD order_refl)
  ultimately show ?thesis
    using reverse_idx_fold[of idx idx n] len by (simp add: get_reverse_idx_def)
qed

lemma index_select_rows_ok:
  "\<forall>i \<in> set idx. i < length rows \<Longrightarrow> index_select_rows rows idx = Inr (map (\<lambda>i. rows ! i) idx)"
  unfolding index_select_rows_def by (rule map_res_all_ok) (simp add: py_index_nat)

lemma map_index_select_rows:
  "\<forall>i \<in> set (concat idx). i < length rows \<Longrightarrow>
     map_res (index_select_rows rows) idx = Inr (map (map (\<lambda>i. rows ! i)) idx)"
  by (rule map_res_all_ok) (auto intro!: index_select_rows_ok)

lemma restore_dynamic_batch_perm:
  assumes "mset (concat idx) = mset [0..<length rows]"
  shows "restore_dynamic_batch (map (\<lambda>i. rows ! i) (concat idx)) idx = Inr rows"
proof -
  let ?c = "concat idx" and ?n = "length rows"
  have len: "length ?c = ?n" using arg_cong[OF assms, of size] by simp
  obtain r where r: "get_reverse_idx ?c = Inr r" "length r = ?n" "\<forall>i < ?n. r ! (?c ! i) = i"
    using get_reverse_idx_perm[OF assms] by blast
  have set_c: "set ?c = {..<?n}" using assms by (metis atLeast_upt mset_eq_setD)
  have inv: "r ! m < ?n \<and> ?c ! (r ! m) = m" if "m < ?n" for m
  proof -
    from that set_c obtain i where "i < ?n" "?c ! i = m" using len by (metis in_set_conv_nth lessThan_iff)
    with r(3) show ?thesis by auto
  qed
  have "\<forall>i \<in> set r. i < ?n" using inv r(2) by (auto simp: in_set_conv_nth)
  then have "index_select_rows (map (\<lambda>i. rows ! i) ?c) r = Inr (map (\<lambda>i. map (\<lambda>i. rows ! i) ?c ! i) r)"
    by (intro index_select_rows_ok) (simp add: len)
  also have "map (\<lambda>i. map (\<lambda>i. rows ! i) ?c ! i) r = rows"
    by (rule nth_equalityI) (use r(2) inv len in \<open>auto\<close>)
  finally show ?thesis by (simp add: restore_dynamic_batch_def Let_def len r(1))
qed

lemma rearrange_micro_batches_Inr:
  assumes "rearrange_micro_batches rows layout max_token_len dp_counts divided_by min_num balance g
             = Inr (batches, idx)" and "length rows = length (seq_lens layout)"
  shows "mset (concat idx) = mset [0..<length rows] \<and> (\<forall>p \<in> set idx. p \<noteq> [])
           \<and> batches = map (map (\<lambda>i. rows ! i)) idx"
proof -
  obtain n where g: "0 < g" "g dvd length (seq_lens layout)"
    and idx: "micro_bsz_idx (seq_lens layout) n g balance = Inr idx"
    and sel: "map_res (index_select_rows rows) idx = Inr batches"
    using assms(1) by (auto simp: rearrange_micro_batches_def res_simps Let_def split: if_splits)
  from micro_bsz_idx_perm[OF idx g] assms(2)
  have perm: "mset (concat idx) = mset [0..<length rows]" and ne: "\<forall>p \<in> set idx. p \<noteq> []" by auto
  have "set (concat idx) = {..<length rows}" using perm by (metis atLeast_upt mset_eq_setD)
  then have "batches = map (map (\<lambda>i. rows ! i)) idx"
    using sel map_index_select_rows[of idx rows] by auto
  with perm ne show ?thesis by blast
qed

text \<open>When the function succeeds: no data-parallel reduction and no forced counts.\<close>

lemma ceildiv_bounds:
  assumes "0 < b"
  shows "\<exists>c. ceildiv a b = Inr c \<and> a \<le> c * b \<and> (c - 1) * b < a"
proof (intro exI conjI)
  have eq: "(- b) * (a div - b) + a mod - b = a" by (rule mult_div_mod_eq)
  have "- b < a mod - b" and "a mod - b \<le> 0"
    using neg_mod_bound[of "- b" a] neg_mod_sign[of "- b" a] assms by auto
  with eq show "a \<le> - (a div - b) * b" and "(- (a div - b) - 1) * b < a"
    by (simp_all add: algebra_simps)
  show "ceildiv a b = Inr (- (a div - b))" using assms by (simp add: ceildiv_def)
qed

lemma num_micro_batches_plain:
  assumes "0 < sum_list lens" and "0 < max_token_len" and "0 < num_groups"
  shows "\<exists>n. num_micro_batches lens max_token_len num_groups None None None = Inr n
           \<and> 1 \<le> n \<and> n \<le> int num_groups"
proof -
  obtain c where c: "ceildiv (sum_list lens) max_token_len = Inr c" "sum_list lens \<le> c * max_token_len"
    using ceildiv_bounds[OF assms(2)] by blast
  have "0 < c" using c(2) assms(1,2) by (smt (verit) mult_nonpos_nonneg)
  then show ?thesis using c(1) assms(3) by (auto simp: num_micro_batches_def)
qed

lemma micro_bsz_idx_ok:
  assumes "1 \<le> n" and "n \<le> int (length lens div g)" and "0 < g" and "\<forall>s \<in> set lens. 0 \<le> s"
  shows "\<exists>idx. micro_bsz_idx lens n g balance = Inr idx"
proof -
  let ?w = "if 1 < g then group_workloads g lens else calculate_workload lens"
  have len_w: "length ?w = length lens div g" using assms(3) by (cases "1 < g") (auto simp: not_less le_Suc_eq)
  have nonneg: "\<forall>x \<in> set ?w. 0 \<le> x"
  proof (cases "1 < g")
    case True
    then show ?thesis by (auto intro: group_workloads_nonneg[OF assms(4)])
  next
    case False
    then show ?thesis by (auto intro: calculate_workload_nonneg[OF assms(4)])
  qed
  have "0 < nat n" and "nat n \<le> length ?w" using assms(1,2) unfolding len_w by auto
  from balanced_partitions_main[OF this nonneg, of False]
  obtain ps where "get_seqlen_balanced_partitions ?w (nat n) False = Inr ps" by auto
  then show ?thesis unfolding micro_bsz_idx_def Let_def by simp
qed

lemma rearrange_micro_batches_ok:
  assumes "length rows = length (seq_lens layout)" and "max_seq_len layout = Inr longest"
    and "longest \<le> max_token_len" and "0 < max_token_len" and "0 < g" and "g dvd length rows"
    and "\<forall>s \<in> set (seq_lens layout). 0 \<le> s" and "0 < sum_list (seq_lens layout)"
  shows "\<exists>batches idx. rearrange_micro_batches rows layout max_token_len None None None balance g
           = Inr (batches, idx)"
proof -
  let ?lens = "seq_lens layout"
  have "?lens \<noteq> []" using assms(8) by auto
  then have "0 < length ?lens div g" using assms(1,5,6) by (auto simp: div_greater_zero_iff dvd_imp_le)
  then obtain n where n: "num_micro_batches ?lens max_token_len (length ?lens div g) None None None = Inr n"
      "1 \<le> n" "n \<le> int (length ?lens div g)"
    using num_micro_batches_plain[OF assms(8,4)] by blast
  obtain idx where idx: "micro_bsz_idx ?lens n g balance = Inr idx"
    using micro_bsz_idx_ok[OF n(2,3) assms(5,7)] by blast
  have "mset (concat idx) = mset [0..<length rows]"
    using micro_bsz_idx_perm[OF idx assms(5)] assms(1,6) by simp
  then have "set (concat idx) = {..<length rows}" by (metis atLeast_upt mset_eq_setD)
  then have "map_res (index_select_rows rows) idx = Inr (map (map (\<lambda>i. rows ! i)) idx)"
    by (intro map_index_select_rows) auto
  with n(1) idx assms show ?thesis
    by (auto simp: rearrange_micro_batches_def Let_def asserting_def)
qed

section \<open>Facts about the greedy strategy\<close>

lemma argmin_from_spec:
  assumes "argmin_from j0 ss best m = Some j" and "best = None \<or> (\<exists>b. best = Some b \<and> b < j0)"
  shows "(best = Some j \<and> (\<forall>s \<in> set ss. m \<le> s))
       \<or> (j0 \<le> j \<and> j < j0 + length ss \<and> (\<forall>s \<in> set ss. ss ! (j - j0) \<le> s)
           \<and> (best \<noteq> None \<longrightarrow> ss ! (j - j0) < m))"
  using assms
proof (induction ss arbitrary: j0 best m)
  case Nil
  then show ?case by auto
next
  case (Cons s ss)
  show ?case
  proof (cases "best = None \<or> s < m")
    case True
    with Cons.prems have "argmin_from (Suc j0) ss (Some j0) s = Some j" by simp
    from Cons.IH[OF this] True show ?thesis by (fastforce simp: nth_Cons')
  next
    case False
    with Cons.prems have "argmin_from (Suc j0) ss best m = Some j" by auto
    from Cons.IH[OF this] Cons.prems(2) False show ?thesis by (fastforce simp: nth_Cons')
  qed
qed

lemma argmin_from_exists: "best \<noteq> None \<or> ss \<noteq> [] \<Longrightarrow> \<exists>j. argmin_from j0 ss best m = Some j"
  by (induction ss arbitrary: j0 best m) auto

lemma argmin_least:
  assumes "ss \<noteq> []"
  shows "\<exists>j. argmin_from 0 ss None 0 = Some j \<and> j < length ss \<and> (\<forall>s \<in> set ss. ss ! j \<le> s)"
proof -
  from assms obtain j where "argmin_from 0 ss None 0 = Some j"
    using argmin_from_exists[of None ss 0 0] by auto
  with argmin_from_spec[OF this] show ?thesis by auto
qed

lemma sum_list_below:
  "\<forall>y \<in> set ls. y \<le> m \<Longrightarrow> x \<in> set ls \<Longrightarrow> x < m \<Longrightarrow> sum_list ls < length ls * (m :: nat)"
proof (induction ls)
  case (Cons y ls)
  have "sum_list ls \<le> length ls * m" using Cons.prems(1)
    by (induction ls) (auto intro: add_mono)
  with Cons show ?case by (cases "x \<in> set ls") (auto intro: add_le_less_mono)
qed simp

lemma sum_list_above:
  "\<forall>y \<in> set ls. m \<le> y \<Longrightarrow> x \<in> set ls \<Longrightarrow> m < x \<Longrightarrow> length ls * (m :: nat) < sum_list ls"
proof (induction ls)
  case (Cons y ls)
  have "length ls * m \<le> sum_list ls" using Cons.prems(1)
    by (induction ls) (auto intro: add_mono)
  with Cons show ?case by (cases "x \<in> set ls") (auto intro: add_le_less_mono)
qed simp

lemma nearly_equal_sum:
  assumes "\<forall>x \<in> set ls. \<forall>y \<in> set ls. x \<le> y + 1" and "sum_list ls = length ls * m" and "x \<in> set ls"
  shows "x = (m :: nat)"
proof (rule ccontr)
  assume "x \<noteq> m"
  then consider "x < m" | "m < x" by linarith
  then show False
  proof cases
    case 1
    then have "\<forall>y \<in> set ls. y \<le> m" using assms(1,3) by fastforce
    from sum_list_below[OF this assms(3) 1] assms(2) show False by simp
  next
    case 2
    then have "\<forall>y \<in> set ls. m \<le> y" using assms(1,3) by fastforce
    from sum_list_above[OF this assms(3) 2] assms(2) show False by simp
  qed
qed

text \<open>
  After \<open>t\<close> items: the first \<open>t\<close> indices are distributed, and a sum is the load plus the bias
  for every item.
\<close>

definition greedy_inv :: "int list \<Rightarrow> int \<Rightarrow> nat \<Rightarrow> nat \<Rightarrow> nat list list \<times> int list \<Rightarrow> bool" where
  "greedy_inv xs bias k t st \<longleftrightarrow>
     length (fst st) = k \<and> length (snd st) = k \<and> mset (concat (fst st)) = mset [0..<t]
     \<and> (\<forall>j < k. snd st ! j = bias * int (length (fst st ! j)) + partition_load xs (fst st ! j))"

lemma mset_concat_update:
  "j < length ps \<Longrightarrow> mset (concat (ps[j := ps ! j @ [i]])) = add_mset i (mset (concat ps))"
proof (induction ps arbitrary: j)
  case (Cons p ps)
  then show ?case by (cases j) auto
qed simp

lemma greedy_step_inv:
  assumes "greedy_inv xs bias k t st" and "0 < k"
  shows "\<exists>st' j. greedy_step st (xs ! t + bias, t) = Inr st' \<and> greedy_inv xs bias k (Suc t) st'
           \<and> j < k \<and> (\<forall>i < k. snd st ! j \<le> snd st ! i)
           \<and> fst st' = (fst st)[j := fst st ! j @ [t]]"
proof -
  have "snd st \<noteq> []" using assms by (auto simp: greedy_inv_def)
  from argmin_least[OF this] assms(1) obtain j
    where j: "argmin_from 0 (snd st) None 0 = Some j" "j < k" "\<forall>s \<in> set (snd st). snd st ! j \<le> s"
    by (auto simp: greedy_inv_def)
  let ?st = "((fst st)[j := fst st ! j @ [t]], (snd st)[j := snd st ! j + (xs ! t + bias)])"
  have "greedy_step st (xs ! t + bias, t) = Inr ?st" using j(1) by (simp add: greedy_step_def split_beta)
  moreover have "greedy_inv xs bias k (Suc t) ?st"
    using assms(1) j(2)
    by (auto simp: greedy_inv_def mset_concat_update nth_list_update partition_load_def algebra_simps)
  moreover have "length (snd st) = k" using assms(1) by (simp add: greedy_inv_def)
  then have "\<forall>i < k. snd st ! j \<le> snd st ! i" using j(3) by (simp add: nth_mem)
  ultimately show ?thesis using j(2) by auto
qed

lemma partition_load_concat: "partition_load xs (concat ps) = sum_list (map (partition_load xs) ps)"
  by (induction ps) (auto simp: partition_load_def)

lemma partition_load_mset: "mset p = mset q \<Longrightarrow> partition_load xs p = partition_load xs q"
  unfolding partition_load_def by (rule sum_list_mset_eq) simp

lemma partition_load_upt: "t \<le> length xs \<Longrightarrow> partition_load xs [0..<t] = sum_list (take t xs)"
  unfolding partition_load_def by (rule arg_cong[where f = sum_list]) (simp add: list_eq_iff_nth_eq)

lemma member_le_sum_list_int:
  "\<forall>y \<in> set ys. 0 \<le> y \<Longrightarrow> x \<in> set ys \<Longrightarrow> x \<le> sum_list (ys :: int list)"
proof (induction ys)
  case (Cons y ys)
  have "0 \<le> sum_list ys" using Cons.prems(1) by (intro sum_list_nonneg) auto
  with Cons show ?case by auto
qed simp

lemma greedy_loads:
  assumes "greedy_inv xs bias k t st" and "\<forall>x \<in> set xs. 0 \<le> x" and "t \<le> length xs" and "j < k"
  shows "0 \<le> partition_load xs (fst st ! j) \<and> partition_load xs (fst st ! j) \<le> sum_list xs"
proof -
  have set: "set (concat (fst st)) = {0..<t}" using assms(1) unfolding greedy_inv_def
    by (metis atLeastLessThan_upt mset_eq_setD)
  have nn: "0 \<le> partition_load xs p" if "p \<in> set (fst st)" for p
  proof -
    have "i < length xs" if "i \<in> set p" for i
    proof -
      have "i \<in> set (concat (fst st))" using that \<open>p \<in> set (fst st)\<close> by auto
      then show ?thesis unfolding set using assms(3) by simp
    qed
    then show ?thesis
      unfolding partition_load_def using assms(2) by (intro sum_list_nonneg) (auto simp: nth_mem)
  qed
  have mem: "fst st ! j \<in> set (fst st)" using assms(1,4) by (simp add: greedy_inv_def)
  have "partition_load xs (fst st ! j) \<le> sum_list (map (partition_load xs) (fst st))"
    using mem nn by (intro member_le_sum_list_int) auto
  also have "\<dots> = partition_load xs (concat (fst st))" by (simp add: partition_load_concat)
  also have "\<dots> = partition_load xs [0..<t]" using assms(1) unfolding greedy_inv_def
    by (intro partition_load_mset) blast
  also have "\<dots> = sum_list (take t xs)" by (rule partition_load_upt[OF assms(3)])
  also have "\<dots> \<le> sum_list (take t xs) + sum_list (drop t xs)"
    using assms(2) by (auto intro!: sum_list_nonneg dest: in_set_dropD)
  also have "\<dots> = sum_list xs" by (metis append_take_drop_id sum_list_append)
  finally show ?thesis using nn mem by blast
qed

definition nearly_equal :: "nat list list \<Rightarrow> bool" where
  "nearly_equal ps \<longleftrightarrow> (\<forall>p \<in> set ps. \<forall>q \<in> set ps. length p \<le> length q + 1)"

lemma greedy_fold:
  assumes "0 < k" and "t \<le> length xs"
  shows "\<exists>st. fold_res greedy_step (replicate k [], replicate k 0)
               (map (\<lambda>i. (xs ! i + bias, i)) [0..<t]) = Inr st
           \<and> greedy_inv xs bias k t st
           \<and> ((\<forall>x \<in> set xs. 0 \<le> x) \<and> bias = sum_list xs + 1 \<longrightarrow> nearly_equal (fst st))"
  using assms(2)
proof (induction t)
  case 0
  then show ?case by (auto simp: greedy_inv_def nearly_equal_def partition_load_def concat_replicate_trivial)
next
  case (Suc t)
  then have "t \<le> length xs" by simp
  from Suc.IH[OF this] obtain st where st: "fold_res greedy_step (replicate k [], replicate k 0)
               (map (\<lambda>i. (xs ! i + bias, i)) [0..<t]) = Inr st" "greedy_inv xs bias k t st"
      "(\<forall>x \<in> set xs. 0 \<le> x) \<and> bias = sum_list xs + 1 \<longrightarrow> nearly_equal (fst st)" by blast
  from greedy_step_inv[OF st(2) assms(1)] obtain st' j
    where st': "greedy_step st (xs ! t + bias, t) = Inr st'" "greedy_inv xs bias k (Suc t) st'"
      "j < k" "\<forall>i < k. snd st ! j \<le> snd st ! i" "fst st' = (fst st)[j := fst st ! j @ [t]]" by blast
  have "nearly_equal (fst st')" if "\<forall>x \<in> set xs. 0 \<le> x" and bias: "bias = sum_list xs + 1"
  proof -
    have len: "length (fst st) = k" using st(2) by (simp add: greedy_inv_def)
    have least: "length (fst st ! j) \<le> length (fst st ! i)" if "i < k" for i
    proof (rule ccontr)
      let ?a = "length (fst st ! i)" and ?b = "length (fst st ! j)"
      assume "\<not> ?thesis"
      then have "int ?a + 1 \<le> int ?b" by simp
      moreover have "0 < bias" 
        using bias \<open>\<forall>x \<in> set xs. 0 \<le> x\<close> by (simp add: add_nonneg_pos sum_list_nonneg)
      ultimately have "bias * (int ?a + 1) \<le> bias * int ?b" by (intro mult_left_mono) auto
      moreover have "snd st ! j \<le> snd st ! i" using st'(4) that by blast
      ultimately show False
        using greedy_loads[OF st(2) \<open>\<forall>x \<in> set xs. 0 \<le> x\<close> _ that]
          greedy_loads[OF st(2) \<open>\<forall>x \<in> set xs. 0 \<le> x\<close> _ st'(3)] Suc.prems st(2) that st'(3) bias
        by (simp add: greedy_inv_def algebra_simps)
    qed
    have "nearly_equal (fst st)" using st(3) that by blast
    then have near: "length (fst st ! a) \<le> length (fst st ! b) + 1" if "a < k" "b < k" for a b
      using that len by (simp add: nearly_equal_def)
    have "length (fst st' ! a) \<le> length (fst st' ! b) + 1" if "a < k" "b < k" for a b
      using that near[OF that] least[OF that(2)] len st'(3) unfolding st'(5)
      by (auto simp: nth_list_update)
    then show ?thesis
      unfolding nearly_equal_def using st'(2) by (auto simp: greedy_inv_def in_set_conv_nth)
  qed
  with st st' show ?case by (auto simp: fold_res_append)
qed

lemma greedy_partition_main:
  assumes "0 < k" and "equal_size \<longrightarrow> k dvd length xs \<and> (\<forall>x \<in> set xs. 0 \<le> x)"
  shows "\<exists>ps. greedy_partition xs k equal_size = Inr ps \<and> length ps = k
           \<and> mset (concat ps) = mset [0..<length xs]
           \<and> (equal_size \<longrightarrow> (\<forall>p \<in> set ps. length p * k = length xs))"
proof -
  let ?bias = "if equal_size then sum_list xs + 1 else 0" and ?n = "length xs"
  have items: "map (\<lambda>(s, i). (s + ?bias, i)) (zip xs [0..<?n]) = map (\<lambda>i. (xs ! i + ?bias, i)) [0..<?n]"
    by (rule nth_equalityI) auto
  obtain st where st: "fold_res greedy_step (replicate k [], replicate k 0)
               (map (\<lambda>i. (xs ! i + ?bias, i)) [0..<?n]) = Inr st" "greedy_inv xs ?bias k ?n st"
      "(\<forall>x \<in> set xs. 0 \<le> x) \<and> ?bias = sum_list xs + 1 \<longrightarrow> nearly_equal (fst st)"
    using greedy_fold[OF assms(1) order_refl, of xs ?bias] by blast
  have sizes: "equal_size \<longrightarrow> (\<forall>p \<in> set (fst st). length p * k = ?n)"
  proof
    assume eq: "equal_size"
    with assms(2) obtain m where m: "?n = k * m" by (auto simp: dvd_def)
    have near: "nearly_equal (fst st)" using st(3) assms(2) eq by auto
    have "length (concat (fst st)) = ?n"
      using st(2) unfolding greedy_inv_def by (metis length_upt minus_nat.diff_0 size_mset)
    then have "sum_list (map length (fst st)) = length (map length (fst st)) * m"
      using st(2) m by (simp add: greedy_inv_def length_concat)
    then have "length p = m" if "p \<in> set (fst st)" for p
      using nearly_equal_sum[of "map length (fst st)" m "length p"] that near
      by (auto simp: nearly_equal_def)
    then show "\<forall>p \<in> set (fst st). length p * k = ?n" using m by (simp add: mult.commute)
  qed
  have "greedy_partition xs k equal_size = Inr (fst st)"
    unfolding greedy_partition_def Let_def items st(1) using sizes
    by (simp add: split_beta asserting_def)
  with st(2) sizes show ?thesis unfolding greedy_inv_def by blast
qed

section \<open>Facts about uid groups\<close>

definition scan_inv :: "'u option list \<Rightarrow> nat \<Rightarrow> 'u uid_scan \<Rightarrow> bool" where
  "scan_inv uids t st \<longleftrightarrow>
     (case st of (groups, cur, ci, _) \<Rightarrow>
        concat (map fst groups) @ ci = [0..<t]
        \<and> (0 < t \<longrightarrow> ci \<noteq> [] \<and> last ci = t - 1 \<and> uids ! (t - 1) = cur)
        \<and> (\<forall>i. Suc i < t \<and> uids ! i = uids ! Suc i \<longrightarrow>
              (\<exists>g \<in> insert ci (set (map fst groups)). i \<in> set g \<and> Suc i \<in> set g))
        \<and> (\<forall>g \<in> set (map fst groups). g \<noteq> [])
        \<and> (t = 0 \<longrightarrow> cur = None \<and> ci = []))"

lemma scan_inv_step:
  assumes "scan_inv uids t st"
  shows "scan_inv uids (Suc t) (uid_scan_step st (t, s, uids ! t))"
proof -
  obtain groups cur ci cs where st: "st = (groups, cur, ci, cs)" by (cases st)
  have cat: "concat (map fst groups) @ ci = [0..<t]" using assms by (simp add: scan_inv_def st)
  show ?thesis
  proof (cases "uids ! t = cur")
    case True
    then have "uid_scan_step st (t, s, uids ! t) = (groups, cur, ci @ [t], cs + s)"
      by (simp add: uid_scan_step_def st)
    moreover have "\<exists>g \<in> insert (ci @ [t]) (set (map fst groups)). i \<in> set g \<and> Suc i \<in> set g"
      if "Suc i < Suc t" "uids ! i = uids ! Suc i" for i
    proof (cases "Suc i = t")
      case True
      with assms that have "i \<in> set ci" by (auto simp: scan_inv_def st)
      with True show ?thesis by auto
    next
      case False
      with assms that have "\<exists>g \<in> insert ci (set (map fst groups)). i \<in> set g \<and> Suc i \<in> set g"
        by (auto simp: scan_inv_def st)
      then show ?thesis by auto
    qed
    ultimately show ?thesis using assms True cat by (auto simp: scan_inv_def st)
  next
    case False
    let ?groups = "if ci \<noteq> [] then groups @ [(ci, cs)] else groups"
    have step: "uid_scan_step st (t, s, uids ! t) = (?groups, uids ! t, [t], s)"
      using False by (simp add: uid_scan_step_def st)
    have "\<exists>g \<in> insert [t] (set (map fst ?groups)). i \<in> set g \<and> Suc i \<in> set g"
      if "Suc i < Suc t" "uids ! i = uids ! Suc i" for i
    proof -
      have "Suc i \<noteq> t" using assms that False by (auto simp: scan_inv_def st)
      with assms that have "\<exists>g \<in> insert ci (set (map fst groups)). i \<in> set g \<and> Suc i \<in> set g"
        by (auto simp: scan_inv_def st)
      then show ?thesis by auto
    qed
    with assms cat show ?thesis unfolding step by (auto simp: scan_inv_def st)
  qed
qed

lemma scan_inv_all:
  assumes "length seqlens = length uids" and "t \<le> length uids"
  shows "scan_inv uids t (foldl uid_scan_step ([], None, [], 0)
           (map (\<lambda>i. (i, seqlens ! i, uids ! i)) [0..<t]))"
  using assms(2)
proof (induction t)
  case 0
  then show ?case by (simp add: scan_inv_def)
next
  case (Suc t)
  then show ?case using scan_inv_step by fastforce
qed

lemma uid_groups_props:
  assumes "length seqlens = length uids"
  defines "G \<equiv> map fst (uid_groups seqlens uids)"
  shows "concat G = [0..<length uids]" and "\<forall>g \<in> set G. g \<noteq> []"
    and "\<And>i. Suc i < length uids \<Longrightarrow> uids ! i = uids ! Suc i \<Longrightarrow> \<exists>g \<in> set G. i \<in> set g \<and> Suc i \<in> set g"
proof -
  have "zip [0..<length seqlens] (zip seqlens uids) = map (\<lambda>i. (i, seqlens ! i, uids ! i)) [0..<length uids]"
    by (rule nth_equalityI) (use assms in auto)
  then have inv: "scan_inv uids (length uids)
      (foldl uid_scan_step ([], None, [], 0) (zip [0..<length seqlens] (zip seqlens uids)))"
    using scan_inv_all[OF assms(1) order_refl] by simp
  obtain groups cur ci cs where st: "foldl uid_scan_step ([], None, [], 0)
      (zip [0..<length seqlens] (zip seqlens uids)) = (groups, cur, ci, cs)" by (metis prod_cases4)
  have G: "G = (if ci \<noteq> [] then map fst groups @ [ci] else map fst groups)"
    by (simp add: G_def uid_groups_def st)
  from inv show "concat G = [0..<length uids]" "\<forall>g \<in> set G. g \<noteq> []" unfolding st G scan_inv_def by auto
  from inv show "\<exists>g \<in> set G. i \<in> set g \<and> Suc i \<in> set g"
    if "Suc i < length uids" "uids ! i = uids ! Suc i" for i
    using that unfolding st G scan_inv_def by auto
qed

text \<open>Two samples of one contiguous run are in the same group.\<close>

lemma uid_groups_run:
  assumes len: "length seqlens = length uids" and "i \<le> j" and "j < length uids"
    and "\<And>l. i \<le> l \<Longrightarrow> l \<le> j \<Longrightarrow> uids ! l = uids ! i"
    and "g \<in> set (map fst (uid_groups seqlens uids))"
  shows "i \<in> set g \<longleftrightarrow> j \<in> set g"
  using assms(2-4)
proof (induction rule: dec_induct)
  case base
  then show ?case by simp
next
  case (step m)
  let ?G = "map fst (uid_groups seqlens uids)"
  have "uids ! m = uids ! Suc m" using step.prems(2)[of m] step.prems(2)[of "Suc m"] step.hyps by simp
  then obtain h where h: "h \<in> set ?G" "m \<in> set h" "Suc m \<in> set h"
    using uid_groups_props(3)[OF len] step.prems(1) by blast
  have "distinct (concat ?G)" using uid_groups_props(1)[OF len] by simp
  then have "set h \<inter> set g = {}" if "h \<noteq> g"
    using that h(1) assms(5) unfolding distinct_concat_iff by blast
  then have "m \<in> set g \<longleftrightarrow> Suc m \<in> set g" using h by (cases "h = g") auto
  moreover have "i \<in> set g \<longleftrightarrow> m \<in> set g"
    using step.IH step.prems(1) step.prems(2)[OF _ le_SucI] by (meson Suc_lessD)
  ultimately show ?case by simp
qed

definition contiguous_uids :: "'u option list \<Rightarrow> bool" where
  "contiguous_uids uids \<longleftrightarrow>
     (\<forall>i j l. i \<le> j \<and> j \<le> l \<and> l < length uids \<and> uids ! i = uids ! l \<longrightarrow> uids ! j = uids ! i)"

lemma uid_groups_same_uid:
  assumes "length seqlens = length uids" and "contiguous_uids uids"
    and "i < length uids" and "j < length uids" and "uids ! i = uids ! j"
    and "g \<in> set (map fst (uid_groups seqlens uids))" and "i \<in> set g"
  shows "j \<in> set g"
proof (cases "i \<le> j")
  case True
  have "uids ! l = uids ! i" if "i \<le> l" "l \<le> j" for l
    using assms(2)[unfolded contiguous_uids_def, rule_format, of i l j] assms(4,5) that by simp
  from uid_groups_run[OF assms(1) True assms(4) this assms(6)] assms(7) show ?thesis by simp
next
  case False
  then have "j \<le> i" by simp
  have "uids ! l = uids ! j" if "j \<le> l" "l \<le> i" for l
    using assms(2)[unfolded contiguous_uids_def, rule_format, of j l i] assms(3,5) that by simp
  from uid_groups_run[OF assms(1) \<open>j \<le> i\<close> assms(3) this assms(6)] assms(7) show ?thesis by simp
qed

lemma group_partitions_main:
  assumes len: "length seqlens = length uids" and nn: "\<forall>s \<in> set seqlens. 0 \<le> s"
    and k: "0 < k" "k \<le> length (uid_groups seqlens uids)" "k dvd length (uid_groups seqlens uids)"
  shows "\<exists>ps. get_group_balanced_partitions seqlens uids k = Inr ps \<and> length ps = k
           \<and> mset (concat ps) = mset [0..<length uids] \<and> (\<forall>p \<in> set ps. sorted p \<and> p \<noteq> [])
           \<and> (contiguous_uids uids \<longrightarrow>
                (\<forall>p \<in> set ps. \<forall>i \<in> set p. \<forall>j < length uids. uids ! j = uids ! i \<longrightarrow> j \<in> set p))"
proof -
  let ?gs = "uid_groups seqlens uids"
  let ?G = "map fst ?gs"
  let ?w = "map (\<lambda>(indices, _). sum_list (calculate_workload (map (\<lambda>i. seqlens ! i) indices))) ?gs"
  have concat_G: "concat ?G = [0..<length uids]" by (rule uid_groups_props(1)[OF len])
  have in_range: "i < length uids" if "g \<in> set ?G" "i \<in> set g" for g i
  proof -
    have "i \<in> set (concat ?G)" using that by auto
    then show ?thesis unfolding concat_G by simp
  qed
  have "0 \<le> x" if "x \<in> set ?w" for x
  proof -
    from that obtain g c where g: "(g, c) \<in> set ?gs" and x: "x = sum_list (calculate_workload (map (\<lambda>i. seqlens ! i) g))"
      by auto
    from g have "g \<in> set ?G" by (simp add: rev_image_eqI)
    from in_range[OF this] have "\<forall>s \<in> set (map (\<lambda>i. seqlens ! i) g). 0 \<le> s"
      using len nn by simp
    then have "\<forall>y \<in> set (calculate_workload (map (\<lambda>i. seqlens ! i) g)). 0 \<le> y"
      using calculate_workload_nonneg by blast
    with x show ?thesis by (simp add: sum_list_nonneg)
  qed
  then have nn_w: "\<forall>x \<in> set ?w. 0 \<le> x" by blast
  have "k \<le> length ?w" "True \<longrightarrow> k dvd length ?w" using k(2,3) by auto
  from balanced_partitions_main[OF k(1) this(1) nn_w this(2)]
  obtain parts where parts: "get_seqlen_balanced_partitions ?w k True = Inr parts" "length parts = k"
      "mset (concat parts) = mset [0..<length ?gs]" "\<forall>p \<in> set parts. p \<noteq> [] \<and> sorted p" by auto
  let ?f = "\<lambda>p. concat (map (\<lambda>j. fst (?gs ! j)) p)"
  let ?ps = "map (\<lambda>p. sort (?f p)) parts"
  have res: "get_group_balanced_partitions seqlens uids k = Inr ?ps"
    using parts(1) len k(2) by (simp add: get_group_balanced_partitions_def Let_def)
  have "mset (concat ?ps) = mset (concat (map ?f parts))" 
    using mset_concat_map_sort[of "map ?f parts"] by (simp add: comp_def)
  also have "concat (map ?f parts) = concat (map (\<lambda>j. fst (?gs ! j)) (concat parts))"
    by (induction parts) auto
  also have "mset \<dots> = mset (concat (map (\<lambda>j. fst (?gs ! j)) [0..<length ?gs]))"
    using parts(3) by (intro concat_mset_cong) (simp only: mset_map)
  also have "map (\<lambda>j. fst (?gs ! j)) [0..<length ?gs] = ?G" by (rule nth_equalityI) auto
  finally have perm: "mset (concat ?ps) = mset [0..<length uids]" using concat_G by simp
  have idx: "j < length ?gs" if "p \<in> set parts" "j \<in> set p" for p j
  proof -
    have "j \<in> set (concat parts)" using that by auto
    then show ?thesis using parts(3) by (metis atLeast_upt lessThan_iff mset_eq_setD)
  qed
  have ne: "p \<noteq> []" if ps: "p \<in> set ?ps" for p
  proof -
    from ps obtain q where q: "q \<in> set parts" "p = sort (?f q)" by auto
    then have "q \<noteq> []" using parts(4) by blast
    then obtain j where "j \<in> set q" by (cases q) auto
    with idx[OF q(1) this] uid_groups_props(2)[OF len] q(2) show ?thesis by auto
  qed
  have "j \<in> set p" if "contiguous_uids uids" "p \<in> set ?ps" "i \<in> set p" "j < length uids" "uids ! j = uids ! i" for p i j
  proof -
    from that(2) obtain q where q: "q \<in> set parts" "p = sort (?f q)" by auto
    with that(3) obtain m where m: "m \<in> set q" "i \<in> set (fst (?gs ! m))" by auto
    have g: "fst (?gs ! m) \<in> set ?G" using idx[OF q(1) m(1)] by simp
    from uid_groups_same_uid[OF len that(1) in_range[OF g m(2)] that(4) that(5)[symmetric] g m(2)]
    show ?thesis using q(2) m(1) by auto
  qed
  with res parts(2) perm ne show ?thesis by (intro exI[of _ ?ps]) auto
qed

section \<open>Properties\<close>

text \<open>
  C38: for workloads that are not negative, \<open>get_seqlen_balanced_partitions\<close> returns exactly
  when it is asked for at least one partition, at most as many partitions as items, and, with
  \<open>equal_size\<close>, a number that divides the number of items; in particular none of its
  internal assertions can fail then.
\<close>

theorem balanced_partitions_returns_iff:
  assumes "\<forall>x \<in> set xs. 0 \<le> x"
  shows "(\<exists>ps. get_seqlen_balanced_partitions xs k equal_size = Inr ps)
           \<longleftrightarrow> 0 < k \<and> k \<le> length xs \<and> (equal_size \<longrightarrow> k dvd length xs)"
proof
  assume "\<exists>ps. get_seqlen_balanced_partitions xs k equal_size = Inr ps"
  then obtain ps where "k \<le> length xs" and ps: "karmarkar_karp xs k equal_size = Inr ps"
    by (auto simp: get_seqlen_balanced_partitions_def res_simps)
  moreover have "equal_size \<longrightarrow> k \<noteq> 0 \<and> k dvd length xs"
    using ps by (auto simp: karmarkar_karp_def Let_def res_simps split: if_splits)
  moreover have "k \<noteq> 0"
    using ps karmarkar_karp_zero[of xs] calculation(3) by (cases "k = 0"; cases equal_size) auto
  ultimately show "0 < k \<and> k \<le> length xs \<and> (equal_size \<longrightarrow> k dvd length xs)" by blast
next
  assume "0 < k \<and> k \<le> length xs \<and> (equal_size \<longrightarrow> k dvd length xs)"
  with balanced_partitions_main[of k xs equal_size] assms
  show "\<exists>ps. get_seqlen_balanced_partitions xs k equal_size = Inr ps" by blast
qed

theorem balanced_partitions_returns_iff_witness:
  "\<not> (\<exists>ps. get_seqlen_balanced_partitions [5, 0, 7] 2 True = Inr ps)
   \<and> (\<exists>ps. get_seqlen_balanced_partitions [5, 0, 7] 2 False = Inr ps)"
  using balanced_partitions_returns_iff[of "[5, 0, 7]" 2 True]
    balanced_partitions_returns_iff[of "[5, 0, 7]" 2 False] by simp

text \<open>
  C20: the result is a partition of the indices into \<open>k\<close> sorted, non-empty groups whose loads
  differ by at most the largest workload (by at most the range of the workloads with
  \<open>equal_size\<close>, where all groups also have the same number of items).
\<close>

theorem balanced_partitions_correct:
  assumes "0 < k" and "k \<le> length xs" and "\<forall>x \<in> set xs. 0 \<le> x" and "equal_size \<longrightarrow> k dvd length xs"
  shows "\<exists>ps. get_seqlen_balanced_partitions xs k equal_size = Inr ps
           \<and> length ps = k \<and> mset (concat ps) = mset [0..<length xs]
           \<and> (\<forall>p \<in> set ps. p \<noteq> [] \<and> sorted p)
           \<and> (\<forall>p \<in> set ps. \<forall>q \<in> set ps. partition_load xs p - partition_load xs q
                \<le> (if equal_size then Max (set xs) - Min (set xs) else Max (set xs)))
           \<and> (equal_size \<longrightarrow> (\<forall>p \<in> set ps. length p * k = length xs))"
  by (rule balanced_partitions_main[OF assms])

theorem balanced_partitions_correct_witness:
  "\<exists>ps. get_seqlen_balanced_partitions [3, 9, 4, 8] 2 False = Inr ps
     \<and> length ps = 2 \<and> mset (concat ps) = mset [0..<length [3, 9, 4, 8 :: int]]
     \<and> (\<forall>p \<in> set ps. p \<noteq> [] \<and> sorted p)
     \<and> (\<forall>p \<in> set ps. \<forall>q \<in> set ps. partition_load [3, 9, 4, 8] p - partition_load [3, 9, 4, 8] q
          \<le> (if False then Max (set [3, 9, 4, 8]) - Min (set [3, 9, 4, 8]) else Max (set [3, 9, 4, 8])))
     \<and> (False \<longrightarrow> (\<forall>p \<in> set ps. length p * 2 = length [3, 9, 4, 8 :: int]))"
  by (rule balanced_partitions_correct) simp_all

text \<open>
  \<open>greedy_partition\<close> distributes all the items, and with \<open>equal_size\<close> the large bias it adds
  to every workload makes all groups equally large, so that its closing assertion never fails.
\<close>

theorem greedy_partition_correct:
  assumes "0 < k" and "equal_size \<longrightarrow> k dvd length xs \<and> (\<forall>x \<in> set xs. 0 \<le> x)"
  shows "\<exists>ps. greedy_partition xs k equal_size = Inr ps \<and> length ps = k
           \<and> mset (concat ps) = mset [0..<length xs]
           \<and> (equal_size \<longrightarrow> (\<forall>p \<in> set ps. length p * k = length xs))"
  by (rule greedy_partition_main[OF assms])

theorem greedy_partition_correct_witness:
  "\<exists>ps. greedy_partition [1, 1, 1, 50] 2 True = Inr ps \<and> length ps = 2
     \<and> mset (concat ps) = mset [0..<length [1, 1, 1, 50 :: int]]
     \<and> (True \<longrightarrow> (\<forall>p \<in> set ps. length p * 2 = length [1, 1, 1, 50 :: int]))"
  by (rule greedy_partition_correct) simp_all

text \<open>
  The micro-batches of dynamic batching, put one after the other and restored with the
  returned index lists, are the batch in its original order; no micro-batch is empty.
\<close>

theorem micro_batches_restore:
  assumes "rearrange_micro_batches rows layout max_token_len dp_counts divided_by min_num balance g
             = Inr (batches, idx)"
    and "length rows = length (seq_lens layout)"
  shows "restore_dynamic_batch (concat batches) idx = Inr rows \<and> (\<forall>b \<in> set batches. b \<noteq> [])"
proof -
  from rearrange_micro_batches_Inr[OF assms]
  have perm: "mset (concat idx) = mset [0..<length rows]" and ne: "\<forall>p \<in> set idx. p \<noteq> []"
    and b: "batches = map (map (\<lambda>i. rows ! i)) idx" by auto
  have "concat batches = map (\<lambda>i. rows ! i) (concat idx)" by (simp add: b map_concat comp_def)
  with restore_dynamic_batch_perm[OF perm] ne show ?thesis by (auto simp: b)
qed

theorem micro_batches_restore_witness:
  "rearrange_micro_batches [''a'', ''b'', ''c''] (Nested_offsets [0, 2, 9, 12]) 8 None None None True 1
     = Inr ([[''b''], [''a'', ''c'']], [[1], [0, 2]])
   \<and> restore_dynamic_batch (concat [[''b''], [''a'', ''c'']]) [[1], [0, 2]] = Inr [''a'', ''b'', ''c'']"
proof -
  have run: "rearrange_micro_batches [''a'', ''b'', ''c''] (Nested_offsets [0, 2, 9, 12]) 8 None None None True 1
     = Inr ([[''b''], [''a'', ''c'']], [[1], [0, 2]])" by code_simp
  from micro_batches_restore[OF run] run show ?thesis by simp
qed

text \<open>
  Without a data-parallel reduction or a forced number of micro-batches the function
  returns whenever the batch is not empty of tokens, the groups divide it and the maximal length
  fits: the partitioning it calls cannot raise.
\<close>

theorem micro_batches_returns:
  assumes "length rows = length (seq_lens layout)" and "max_seq_len layout = Inr longest"
    and "longest \<le> max_token_len" and "0 < max_token_len" and "0 < g" and "g dvd length rows"
    and "\<forall>s \<in> set (seq_lens layout). 0 \<le> s" and "0 < sum_list (seq_lens layout)"
  shows "\<exists>batches idx. rearrange_micro_batches rows layout max_token_len None None None balance g
           = Inr (batches, idx)"
  by (rule rearrange_micro_batches_ok[OF assms])

theorem micro_batches_returns_witness:
  "\<exists>batches idx. rearrange_micro_batches [''a'', ''b''] (Attention_mask 3 [[1, 1, 0], [1, 1, 1]])
     4 None None None True 2 = Inr (batches, idx)"
  using micro_batches_returns[of "[''a'', ''b'']" "Attention_mask 3 [[1, 1, 0], [1, 1, 1]]" 3 4 2 True] by simp

text \<open>
  \<open>max_token_len\<close> bounds a single sequence and fixes the number of micro-batches, not the
  tokens of a micro-batch: three sequences of three tokens with a limit of five tokens make two
  micro-batches, one of which has six tokens.
\<close>

theorem micro_batch_exceeds_max_token_len:
  "rearrange_micro_batches [3, 3, 3 :: int] (Nested_offsets [0, 3, 6, 9]) 5 None None None True 1
     = Inr ([[3, 3], [3]], [[0, 1], [2]])
   \<and> sum_list [3, 3 :: int] > 5"
  by code_simp

text \<open>
  \<open>get_group_balanced_partitions\<close> distributes all the samples and, when equal uids are
  contiguous, never splits the samples of one uid over two partitions.
\<close>

theorem group_partitions_keep_uids:
  assumes "length seqlens = length uids" and "\<forall>s \<in> set seqlens. 0 \<le> s"
    and "0 < k" and "k \<le> length (uid_groups seqlens uids)" and "k dvd length (uid_groups seqlens uids)"
    and "contiguous_uids uids"
  shows "\<exists>ps. get_group_balanced_partitions seqlens uids k = Inr ps \<and> length ps = k
           \<and> mset (concat ps) = mset [0..<length uids]
           \<and> (\<forall>p \<in> set ps. \<forall>i \<in> set p. \<forall>j < length uids. uids ! j = uids ! i \<longrightarrow> j \<in> set p)"
  using group_partitions_main[OF assms(1-5)] assms(6) by blast

theorem group_partitions_keep_uids_witness:
  "\<exists>ps. get_group_balanced_partitions [4, 4, 9, 9] [Some 1, Some 1, None, Some (2 :: nat)] 3 = Inr ps
     \<and> length ps = 3"
proof -
  have groups: "length (uid_groups [4, 4, 9, 9] [Some 1, Some 1, None, Some (2 :: nat)]) = 3"
    by code_simp
  have contig: "contiguous_uids [Some 1, Some 1, None, Some (2 :: nat)]"
    by (auto simp: contiguous_uids_def nth_Cons' numeral_eq_Suc less_Suc_eq split: if_splits)
  show ?thesis
    using group_partitions_keep_uids[OF _ _ _ _ _ contig, of "[4, 4, 9, 9]" 3] groups by auto
qed

end
