(* ===== verification/SftEncoding.thy ===== *)
theory SftEncoding
  imports PyStrings OpdRollout
begin

text \<open>
  The data side of the trainer, \<open>src/CLightMLLM_new/src/data/module.py\<close>: the conversion of dataset rows
  to prompts and responses, the chat template, the tokenisation with its truncation, the batches that
  are kept, and the collator's dummy image and prompt padding.  The tokenizer's
  \<open>encode\<close>, its \<open>pad\<close> and the plugin's processing of the images are parameters.
\<close>

named_theorems sft_simps

section \<open>Truncation\<close>

definition IGNORE_INDEX :: int where
  "IGNORE_INDEX = -100"

definition infer_lengths :: "nat \<Rightarrow> nat \<Rightarrow> nat \<Rightarrow> nat \<times> nat" where
  "infer_lengths source_len target_len cutoff_len =
     (let max_target_len =
            (if target_len * 2 < cutoff_len then cutoff_len
             else if source_len * 2 < cutoff_len then cutoff_len - source_len
             else cutoff_len * target_len div (source_len + target_len));
          new_target_len = min max_target_len target_len;
          new_source_len = min (cutoff_len - new_target_len) source_len
      in (new_source_len, new_target_len))"

section \<open>The chat template\<close>

text \<open>A template's elements: text with \<open>{{content}}\<close>, a set of special tokens, a token by name.\<close>

datatype template_element = Content str | Special "str list" | Named str

record chat_template =
  user_elements :: "template_element list"
  assistant_elements :: "template_element list"
  system_elements :: "template_element list"
  prefix_elements :: "template_element list"
  default_system :: str
  efficient_eos :: bool

text \<open>\<open>fix_special_tokens\<close> has run: the end-of-sequence token is set.\<close>

record tokenizer =
  tok_encode :: "str \<Rightarrow> int list"
  bos_token_id :: "int option"
  eos_token_id :: int
  convert_token :: "str \<Rightarrow> int"

record message =
  msg_role :: str
  msg_content :: str

definition format_elements :: "template_element list \<Rightarrow> str \<Rightarrow> template_element list" where
  "format_elements elements content =
     map (\<lambda>e. case e of Content s \<Rightarrow> Content (replace ''{{content}}'' content s) | _ \<Rightarrow> e) elements"

definition encode_element :: "tokenizer \<Rightarrow> template_element \<Rightarrow> int list" where
  "encode_element tok e =
     (case e of
        Content s \<Rightarrow> if s = [] then [] else tok_encode tok s
      | Special names \<Rightarrow>
          (if ''bos_token'' \<in> set names then (case bos_token_id tok of Some b \<Rightarrow> [b] | None \<Rightarrow> []) else []) @
          (if ''eos_token'' \<in> set names then [eos_token_id tok] else [])
      | Named t \<Rightarrow> [convert_token tok t])"

definition encode_elements :: "tokenizer \<Rightarrow> template_element list \<Rightarrow> int list" where
  "encode_elements tok elements = concat (map (encode_element tok) elements)"

definition encode_message :: "tokenizer \<Rightarrow> chat_template \<Rightarrow> str \<Rightarrow> nat \<Rightarrow> message \<Rightarrow> int list result" where
  "encode_message tok tmpl system idx msg =
     (let lead = (if idx = 0 then prefix_elements tmpl @ (if system \<noteq> [] then format_elements (system_elements tmpl) system else [])
                  else [])
      in if msg_role msg = ''user'' then
           Inr (encode_elements tok (lead @ format_elements (user_elements tmpl) (msg_content msg)))
         else if msg_role msg = ''assistant'' then
           Inr (encode_elements tok (lead @ format_elements (assistant_elements tmpl) (msg_content msg)))
         else Inl ValueError)"

definition encode_messages :: "tokenizer \<Rightarrow> chat_template \<Rightarrow> message list \<Rightarrow> str option \<Rightarrow> int list list result" where
  "encode_messages tok tmpl messages system =
     (let sys = (case system of None \<Rightarrow> default_system tmpl | Some s \<Rightarrow> if s = [] then default_system tmpl else s)
      in map_res (\<lambda>(idx, msg). encode_message tok tmpl sys idx msg) (zip [0..<length messages] messages))"

fun pair_up :: "'a list \<Rightarrow> ('a \<times> 'a) list result" where
  "pair_up [] = Inr []"
| "pair_up [x] = Inl IndexError"
| "pair_up (x # y # zs) = bind_res (pair_up zs) (\<lambda>ps. Inr ((x, y) # ps))"

definition encode_multiturn ::
  "tokenizer \<Rightarrow> chat_template \<Rightarrow> message list \<Rightarrow> str option \<Rightarrow> (int list \<times> int list) list result" where
  "encode_multiturn tok tmpl messages system = bind_res (encode_messages tok tmpl messages system) pair_up"

section \<open>Supervised examples\<close>

text \<open>The loop over the turns, with the tokens used so far.\<close>

fun encode_pairs :: "nat \<Rightarrow> nat \<Rightarrow> (int list \<times> int list) list \<Rightarrow> int list \<times> int list" where
  "encode_pairs cutoff_len total_length [] = ([], [])"
| "encode_pairs cutoff_len total_length ((source_ids, target_ids) # pairs) =
     (if cutoff_len \<le> total_length then ([], [])
      else let (source_len, target_len) = infer_lengths (length source_ids) (length target_ids) (cutoff_len - total_length);
               source_ids' = take source_len source_ids;
               target_ids' = take target_len target_ids;
               (input_ids, labels) = encode_pairs cutoff_len (total_length + (source_len + target_len)) pairs
           in (source_ids' @ target_ids' @ input_ids,
               replicate source_len IGNORE_INDEX @ target_ids' @ labels))"

text \<open>The plugin's \<open>process_messages\<close>: the images of the example and its messages.\<close>

type_synonym 'img plugin = "'img list \<Rightarrow> message list \<Rightarrow> message list result"

definition encode_sft_example ::
  "'img plugin \<Rightarrow> tokenizer \<Rightarrow> chat_template \<Rightarrow> nat \<Rightarrow> message list \<Rightarrow> message list \<Rightarrow> str option \<Rightarrow> 'img list \<Rightarrow>
   (int list \<times> int list) result" where
  "encode_sft_example process tok tmpl cutoff_len prompt response system images =
     bind_res (process images (prompt @ response)) (\<lambda>messages.
       bind_res (encode_multiturn tok tmpl messages system) (\<lambda>encoded_pairs.
         let (input_ids, labels) = encode_pairs cutoff_len (if efficient_eos tmpl then 1 else 0) encoded_pairs;
             tail = (if efficient_eos tmpl then [eos_token_id tok] else [])
         in Inr (input_ids @ tail, labels @ tail)))"

definition encode_prompt_example ::
  "'img plugin \<Rightarrow> tokenizer \<Rightarrow> chat_template \<Rightarrow> message list \<Rightarrow> str option \<Rightarrow> 'img list \<Rightarrow> int list result" where
  "encode_prompt_example process tok tmpl prompt system images =
     bind_res (process images prompt) (\<lambda>messages.
       bind_res (encode_messages tok tmpl messages system) (\<lambda>encoded. Inr (concat encoded)))"

record 'img example =
  ex_prompt :: "message list"
  ex_response :: "message list"
  ex_system :: "str option"
  ex_images :: "'img list option"

record 'img model_input =
  mi_input_ids :: "int list"
  mi_attention_mask :: "bool list"
  mi_labels :: "int list"
  mi_images :: "'img list option"
  mi_prompt_input_ids :: "int list"
  mi_prompt_attention_mask :: "bool list"
  mi_reference_text :: str

record data_args =
  cutoff_len :: nat
  max_prompt_length :: nat
  filter_overlong_prompts :: bool

text \<open>One row of the batch: \<open>None\<close> is a row that is dropped.\<close>

definition preprocess_example ::
  "'img plugin \<Rightarrow> tokenizer \<Rightarrow> chat_template \<Rightarrow> data_args \<Rightarrow> 'img example \<Rightarrow> 'img model_input option result" where
  "preprocess_example process tok tmpl args ex =
     (let images = (case ex_images ex of None \<Rightarrow> [] | Some xs \<Rightarrow> xs)
      in if length (ex_prompt ex) mod 2 \<noteq> 1 \<or> length (ex_response ex) \<noteq> 1 then Inr None
         else bind_res (encode_prompt_example process tok tmpl (ex_prompt ex) (ex_system ex) images) (\<lambda>prompt_ids.
           if filter_overlong_prompts args \<and> max_prompt_length args < length prompt_ids then Inr None
           else bind_res (encode_sft_example process tok tmpl (cutoff_len args) (ex_prompt ex) (ex_response ex)
                            (ex_system ex) images) (\<lambda>(input_ids, labels).
             Inr (Some \<lparr>mi_input_ids = input_ids, mi_attention_mask = replicate (length input_ids) True,
                        mi_labels = labels, mi_images = ex_images ex,
                        mi_prompt_input_ids = prompt_ids, mi_prompt_attention_mask = replicate (length prompt_ids) True,
                        mi_reference_text = msg_content (hd (ex_response ex))\<rparr>))))"

definition preprocess_batch ::
  "'img plugin \<Rightarrow> tokenizer \<Rightarrow> chat_template \<Rightarrow> data_args \<Rightarrow> 'img example list \<Rightarrow> 'img model_input list result" where
  "preprocess_batch process tok tmpl args examples =
     bind_res (map_res (preprocess_example process tok tmpl args) examples) (\<lambda>rows. Inr (List.map_filter id rows))"

section \<open>Dataset rows\<close>

record raw_turn =
  turn_tag :: str
  turn_content :: str

record dataset_attr =
  user_tag :: str
  assistant_tag :: str
  system_tag :: str
  system_column :: bool

text \<open>\<open>split_system\<close>; the system column is an argument.\<close>

definition split_system :: "dataset_attr \<Rightarrow> str option \<Rightarrow> raw_turn list \<Rightarrow> str option \<times> raw_turn list" where
  "split_system attr system_value raw_turns =
     (case raw_turns of
        t # ts \<Rightarrow> if system_tag attr \<noteq> [] \<and> turn_tag t = system_tag attr then (Some (turn_content t), ts)
                  else if system_column attr then (system_value, raw_turns) else (Some [], raw_turns)
      | [] \<Rightarrow> if system_column attr then (system_value, raw_turns) else (Some [], raw_turns))"

definition expected_role :: "nat \<Rightarrow> str" where
  "expected_role i = (if i mod 2 = 0 then ''user'' else ''assistant'')"

definition expected_tag :: "dataset_attr \<Rightarrow> nat \<Rightarrow> str" where
  "expected_tag attr i = (if i mod 2 = 0 then user_tag attr else assistant_tag attr)"

definition align_turns :: "dataset_attr \<Rightarrow> raw_turn list \<Rightarrow> message list" where
  "align_turns attr raw_turns =
     (if list_all (\<lambda>(i, t). turn_tag t = expected_tag attr i) (zip [0..<length raw_turns] raw_turns)
         \<and> length raw_turns mod 2 = 0
      then map (\<lambda>(i, t). \<lparr>msg_role = expected_role i, msg_content = turn_content t\<rparr>) (zip [0..<length raw_turns] raw_turns)
      else [])"

definition split_prompt_response :: "message list \<Rightarrow> message list \<times> message list" where
  "split_prompt_response dialogue = (if dialogue = [] then ([], []) else (butlast dialogue, [last dialogue]))"

definition sharegpt_convert ::
  "dataset_attr \<Rightarrow> ('img list option \<Rightarrow> 'img list option) \<Rightarrow> str option \<Rightarrow> 'img list option \<Rightarrow> raw_turn list \<Rightarrow> 'img example" where
  "sharegpt_convert attr normalize_images system_value images raw_turns =
     (let (sys, turns) = split_system attr system_value raw_turns;
          (prompt, response) = split_prompt_response (align_turns attr turns)
      in \<lparr>ex_prompt = prompt, ex_response = response, ex_system = sys, ex_images = normalize_images images\<rparr>)"

text \<open>
  \<open>VERLPromptConverter\<close>: the content of a turn is a string or a list of items; its turns are dictionaries
  or bare contents.
\<close>

datatype content_item = TextItem str | ImageItem | OtherItem str
datatype turn_text = Plain str | Items "content_item list"
datatype prompt_turn = RoleTurn str turn_text | BareTurn turn_text

definition normalize_content :: "turn_text \<Rightarrow> str" where
  "normalize_content c =
     (case c of
        Plain s \<Rightarrow> s
      | Items items \<Rightarrow> concat (map (\<lambda>i. case i of TextItem s \<Rightarrow> s | ImageItem \<Rightarrow> ''<image>'' | OtherItem s \<Rightarrow> s) items))"

fun normalize_turns :: "str \<Rightarrow> prompt_turn list \<Rightarrow> str \<times> message list" where
  "normalize_turns system [] = (system, [])"
| "normalize_turns system (t # ts) =
     (let (role, content) = (case t of RoleTurn r c \<Rightarrow> (r, normalize_content c) | BareTurn c \<Rightarrow> (''user'', normalize_content c))
      in if role = ''system'' then normalize_turns content ts
         else let (s, prompt) = normalize_turns system ts
              in (s, if role = ''user'' \<or> role = ''assistant'' then \<lparr>msg_role = role, msg_content = content\<rparr> # prompt else prompt))"

definition normalize_prompt :: "prompt_turn list option \<Rightarrow> str \<times> message list" where
  "normalize_prompt raw_prompt = (case raw_prompt of None \<Rightarrow> ([], []) | Some turns \<Rightarrow> normalize_turns [] turns)"

definition verl_convert :: "'img list option \<Rightarrow> prompt_turn list option \<Rightarrow> 'img example" where
  "verl_convert images raw_prompt =
     (let (sys, prompt) = normalize_prompt raw_prompt
      in \<lparr>ex_prompt = prompt, ex_response = [\<lparr>msg_role = ''assistant'', msg_content = []\<rparr>],
          ex_system = Some sys, ex_images = images\<rparr>)"

section \<open>The collator\<close>

text \<open>A batch without images gets a masked dummy image on its first row; \<open>fake_ids\<close> are its tokens.\<close>

definition inject_dummy_image ::
  "bool \<Rightarrow> 'img \<Rightarrow> int list \<Rightarrow> 'img model_input list \<Rightarrow> 'img list list \<Rightarrow> bool \<times> 'img model_input list \<times> 'img list list" where
  "inject_dummy_image has_image_token fake_image fake_ids features images_per_sample =
     (if \<not> has_image_token then (False, features, images_per_sample)
      else if sum_list (map length images_per_sample) \<noteq> 0 \<or> features = [] then (False, features, images_per_sample)
      else let f = hd features;
               f' = f\<lparr>mi_input_ids := mi_input_ids f @ fake_ids,
                      mi_attention_mask := mi_attention_mask f @ replicate (length fake_ids) False,
                      mi_labels := mi_labels f @ replicate (length fake_ids) IGNORE_INDEX,
                      mi_prompt_input_ids := mi_prompt_input_ids f @ fake_ids,
                      mi_prompt_attention_mask := mi_prompt_attention_mask f @ replicate (length fake_ids) False\<rparr>
           in (True, f' # tl features, images_per_sample[0 := [fake_image]]))"

text \<open>
  The prompt half of the collated batch; \<open>pad_left\<close> is the tokenizer's \<open>pad\<close>
  on the left, \<open>regularize\<close> the plugin's \<open>regularize_images\<close>.
\<close>

definition collate_prompts ::
  "((int list \<times> bool list) list \<Rightarrow> (int list \<times> bool list) list) \<Rightarrow> ('img list \<Rightarrow> 'pil list) \<Rightarrow> bool \<Rightarrow> 'img \<Rightarrow> int list \<Rightarrow>
   'img model_input list \<Rightarrow> 'pil gen_batch" where
  "collate_prompts pad_left regularize has_image_token fake_image fake_ids features =
     (let images_per_sample = map (\<lambda>f. case mi_images f of None \<Rightarrow> [] | Some xs \<Rightarrow> xs) features;
          (_, fs, images) = inject_dummy_image has_image_token fake_image fake_ids features images_per_sample;
          padded = pad_left (map (\<lambda>f. (mi_prompt_input_ids f, mi_prompt_attention_mask f)) fs)
      in \<lparr>prompt_input_ids = map fst padded, prompt_attention_mask = map snd padded, vllm_images = Some (map (\<lambda>is. if is = [] then [] else regularize is) images)\<rparr>)"

section \<open>Facts about the truncation\<close>

lemma infer_lengths_split:
  fixes source_len target_len cutoff :: nat
  assumes "\<not> target_len * 2 < cutoff" and "\<not> source_len * 2 < cutoff" and "cutoff \<le> source_len + target_len"
  shows "cutoff * target_len div (source_len + target_len) \<le> target_len"
    and "cutoff \<le> source_len + cutoff * target_len div (source_len + target_len)"
    and "cutoff * target_len div (source_len + target_len) \<le> cutoff"
proof -
  let ?q = "cutoff * target_len div (source_len + target_len)"
  show "?q \<le> target_len"
  proof (cases "source_len + target_len = 0")
    case False
    have "cutoff * target_len \<le> (source_len + target_len) * target_len" using assms(3) by (rule mult_le_mono1)
    then have "?q \<le> (source_len + target_len) * target_len div (source_len + target_len)" by (rule div_le_mono)
    with False show ?thesis by simp
  qed simp
  have "?q \<le> cutoff * (source_len + target_len) div (source_len + target_len)"
    by (intro div_le_mono mult_le_mono2) simp
  then show "?q \<le> cutoff" by (auto split: if_splits)
  show "cutoff \<le> source_len + ?q"
  proof (rule ccontr)
    assume "\<not> cutoff \<le> source_len + ?q"
    then have lt: "source_len + ?q < cutoff" by simp
    then have pos: "0 < source_len + target_len" using assms(3) by simp
    have "cutoff * target_len < (?q + 1) * (source_len + target_len)"
      using dividend_less_times_div[OF pos, of "cutoff * target_len"] by (simp add: algebra_simps)
    also have "\<dots> \<le> (cutoff - source_len) * (source_len + target_len)"
      using lt by (intro mult_le_mono1) simp
    finally have "cutoff * target_len + source_len * (source_len + target_len) < cutoff * (source_len + target_len)"
      using lt by (simp add: diff_mult_distrib)
    then have "source_len * (source_len + target_len) < source_len * cutoff" by (simp add: algebra_simps)
    then show False using assms(3) by simp
  qed
qed

lemma infer_lengths_correct:
  assumes "infer_lengths source_len target_len cutoff = (ns, nt)"
  shows "ns \<le> source_len \<and> nt \<le> target_len \<and> ns + nt = min cutoff (source_len + target_len)"
proof -
  consider "target_len * 2 < cutoff" | "\<not> target_len * 2 < cutoff" "source_len * 2 < cutoff"
    | "\<not> target_len * 2 < cutoff" "\<not> source_len * 2 < cutoff" by blast
  then show ?thesis
  proof cases
    case 1
    then show ?thesis using assms by (auto simp: infer_lengths_def Let_def)
  next
    case 2
    then show ?thesis using assms by (auto simp: infer_lengths_def Let_def)
  next
    case 3
    then have c: "cutoff \<le> source_len + target_len" by simp
    show ?thesis using assms 3 infer_lengths_split[OF 3 c] c by (auto simp: infer_lengths_def Let_def)
  qed
qed

lemma infer_lengths_fits:
  assumes "source_len + target_len \<le> cutoff"
  shows "infer_lengths source_len target_len cutoff = (source_len, target_len)"
  using infer_lengths_correct[of source_len target_len cutoff] assms
  by (cases "infer_lengths source_len target_len cutoff") fastforce

definition pair_total :: "(int list \<times> int list) list \<Rightarrow> nat" where
  "pair_total pairs = sum_list (map (\<lambda>(s, t). length s + length t) pairs)"

definition whole_ids :: "(int list \<times> int list) list \<Rightarrow> int list" where
  "whole_ids pairs = concat (map (\<lambda>(s, t). s @ t) pairs)"

definition whole_labels :: "(int list \<times> int list) list \<Rightarrow> int list" where
  "whole_labels pairs = concat (map (\<lambda>(s, t). replicate (length s) IGNORE_INDEX @ t) pairs)"

lemma whole_simps [simp, sft_simps]:
  "pair_total [] = 0" "pair_total ((s, t) # ps) = length s + length t + pair_total ps"
  "whole_ids [] = []" "whole_ids ((s, t) # ps) = s @ t @ whole_ids ps"
  "whole_labels [] = []" "whole_labels ((s, t) # ps) = replicate (length s) IGNORE_INDEX @ t @ whole_labels ps"
  by (simp_all add: pair_total_def whole_ids_def whole_labels_def)

definition label_ok :: "int \<Rightarrow> int \<Rightarrow> bool" where
  "label_ok l t \<longleftrightarrow> l = IGNORE_INDEX \<or> l = t"

lemma label_ok_masked [sft_simps]: "length xs = n \<Longrightarrow> list_all2 label_ok (replicate n IGNORE_INDEX) xs"
  by (auto simp: list_all2_conv_all_nth label_ok_def)

lemma label_ok_kept [sft_simps]: "list_all2 label_ok xs xs"
  by (auto simp: list_all2_conv_all_nth label_ok_def)

lemma encode_pairs_correct:
  assumes "encode_pairs cutoff used pairs = (ids, labels)"
  shows "list_all2 label_ok labels ids \<and> length ids = min (cutoff - used) (pair_total pairs)"
  using assms
proof (induction cutoff used pairs arbitrary: ids labels rule: encode_pairs.induct)
  case (1 cutoff used)
  then show ?case by simp
next
  case (2 cutoff used s t pairs)
  show ?case
  proof (cases "cutoff \<le> used")
    case True
    with 2 show ?thesis by simp
  next
    case False
    obtain ns nt where il: "infer_lengths (length s) (length t) (cutoff - used) = (ns, nt)" by fastforce
    obtain ids' labels' where rec: "encode_pairs cutoff (used + (ns + nt)) pairs = (ids', labels')" by fastforce
    have ih: "list_all2 label_ok labels' ids' \<and> length ids' = min (cutoff - (used + (ns + nt))) (pair_total pairs)"
      by (rule "2.IH"[OF False il[symmetric] refl refl refl rec])
    have eqs: "ids = take ns s @ take nt t @ ids'" "labels = replicate ns IGNORE_INDEX @ take nt t @ labels'"
      using "2.prems" False by (simp_all add: il rec Let_def)
    have b: "ns \<le> length s" "nt \<le> length t" "ns + nt = min (cutoff - used) (length s + length t)"
      using infer_lengths_correct[OF il] by simp_all
    have "list_all2 label_ok labels ids"
      unfolding eqs using b ih by (intro list_all2_appendI label_ok_masked label_ok_kept) simp_all
    moreover have "length ids = min (cutoff - used) (pair_total ((s, t) # pairs))"
      using b ih False by (simp add: eqs)
    ultimately show ?thesis ..
  qed
qed

lemma encode_pairs_fits:
  "used + pair_total pairs \<le> cutoff \<Longrightarrow> encode_pairs cutoff used pairs = (whole_ids pairs, whole_labels pairs)"
proof (induction cutoff used pairs rule: encode_pairs.induct)
  case (1 cutoff used)
  then show ?case by simp
next
  case (2 cutoff used s t pairs)
  have zero: "whole_ids ps = [] \<and> whole_labels ps = []" if "pair_total ps = 0" for ps
    using that by (induction ps) auto
  show ?case
  proof (cases "cutoff \<le> used")
    case True
    have "used + (length s + length t + pair_total pairs) \<le> cutoff" using 2(2) by simp
    with True have "length s + length t + pair_total pairs = 0" by linarith
    with True zero[of pairs] show ?thesis by simp
  next
    case False
    then have il: "infer_lengths (length s) (length t) (cutoff - used) = (length s, length t)"
      using 2(2) by (intro infer_lengths_fits) simp
    have "encode_pairs cutoff (used + (length s + length t)) pairs = (whole_ids pairs, whole_labels pairs)"
      by (rule "2.IH"[OF False il[symmetric] refl refl refl]) (use 2(2) in simp)
    with False il show ?thesis by simp
  qed
qed

text \<open>
  C31: truncation keeps the example consistent: the input and the labels have the same length, which is the smaller of the
  cutoff and the whole example, every label is either ignored or the token at its position, and an
  example that fits is kept whole, with exactly its sources ignored.
\<close>

theorem sft_example_correct:
  assumes "process images (prompt @ response) = Inr messages"
    and "encode_multiturn tok tmpl messages system = Inr pairs"
    and "1 \<le> cutoff"
  shows "\<exists>ids labels. encode_sft_example process tok tmpl cutoff prompt response system images = Inr (ids, labels) \<and>
    length labels = length ids \<and>
    length ids = min cutoff (pair_total pairs + (if efficient_eos tmpl then 1 else 0)) \<and>
    (\<forall>i < length ids. labels ! i = IGNORE_INDEX \<or> labels ! i = ids ! i) \<and>
    (pair_total pairs + (if efficient_eos tmpl then 1 else 0) \<le> cutoff \<longrightarrow>
       ids = whole_ids pairs @ (if efficient_eos tmpl then [eos_token_id tok] else []) \<and>
       labels = whole_labels pairs @ (if efficient_eos tmpl then [eos_token_id tok] else []))"
proof -
  let ?k = "if efficient_eos tmpl then 1 else 0 :: nat"
  let ?tail = "if efficient_eos tmpl then [eos_token_id tok] else []"
  obtain ids0 labels0 where e: "encode_pairs cutoff ?k pairs = (ids0, labels0)" by fastforce
  have run: "encode_sft_example process tok tmpl cutoff prompt response system images = Inr (ids0 @ ?tail, labels0 @ ?tail)"
    by (simp add: encode_sft_example_def assms(1,2) e Let_def)
  have c: "list_all2 label_ok labels0 ids0" "length ids0 = min (cutoff - ?k) (pair_total pairs)"
    using encode_pairs_correct[OF e] by simp_all
  have all: "list_all2 label_ok (labels0 @ ?tail) (ids0 @ ?tail)"
    by (intro list_all2_appendI c(1) label_ok_kept)
  have fit: "ids0 = whole_ids pairs \<and> labels0 = whole_labels pairs" if "pair_total pairs + ?k \<le> cutoff"
    using encode_pairs_fits[of ?k pairs cutoff] that e by (simp add: add.commute)
  show ?thesis
  proof (intro exI conjI)
    show "length (labels0 @ ?tail) = length (ids0 @ ?tail)" using all by (rule list_all2_lengthD)
    show "length (ids0 @ ?tail) = min cutoff (pair_total pairs + ?k)" using c(2) assms(3) by auto
    show "\<forall>i < length (ids0 @ ?tail). (labels0 @ ?tail) ! i = IGNORE_INDEX \<or> (labels0 @ ?tail) ! i = (ids0 @ ?tail) ! i"
      using all unfolding list_all2_conv_all_nth label_ok_def by simp
  qed (use run fit in auto)
qed

text \<open>A tokenizer that takes characters as tokens, and a template without extra text.\<close>

definition char_tokenizer :: tokenizer where
  "char_tokenizer = \<lparr>tok_encode = map of_char, bos_token_id = None, eos_token_id = 0, convert_token = (\<lambda>s. 1)\<rparr>"

definition bare_template :: chat_template where
  "bare_template =
     \<lparr>user_elements = [Content ''{{content}}''], assistant_elements = [Content ''{{content}}'', Special [''eos_token'']],
      system_elements = [Content ''{{content}}''], prefix_elements = [], default_system = [], efficient_eos = False\<rparr>"

theorem sft_example_correct_witness:
  "\<exists>ids labels. encode_sft_example (\<lambda>images messages. Inr messages) char_tokenizer bare_template 5
      [\<lparr>msg_role = ''user'', msg_content = ''abcd''\<rparr>] [\<lparr>msg_role = ''assistant'', msg_content = ''xy''\<rparr>] None ([] :: nat list)
        = Inr (ids, labels) \<and> length labels = length ids \<and> length ids = 5"
proof -
  have "encode_multiturn char_tokenizer bare_template
      [\<lparr>msg_role = ''user'', msg_content = ''abcd''\<rparr>, \<lparr>msg_role = ''assistant'', msg_content = ''xy''\<rparr>] None =
      Inr [([97, 98, 99, 100], [120, 121, 0])]"
    by code_simp
  from sft_example_correct[of "\<lambda>images messages. Inr messages" "[] :: nat list"
      "[\<lparr>msg_role = ''user'', msg_content = ''abcd''\<rparr>]" "[\<lparr>msg_role = ''assistant'', msg_content = ''xy''\<rparr>]", OF _ this, of 5]
  show ?thesis by (auto simp: bare_template_def)
qed

section \<open>Batches\<close>

text \<open>The plugin keeps the messages' roles and does not raise.\<close>

definition plugin_total :: "'img plugin \<Rightarrow> bool" where
  "plugin_total process \<longleftrightarrow>
     (\<forall>images msgs. \<exists>msgs'. process images msgs = Inr msgs' \<and> map msg_role msgs' = map msg_role msgs)"

definition chat_roles :: "message list \<Rightarrow> bool" where
  "chat_roles msgs \<longleftrightarrow> (\<forall>m \<in> set msgs. msg_role m = ''user'' \<or> msg_role m = ''assistant'')"

lemma chat_roles_map: "map msg_role msgs' = map msg_role msgs \<Longrightarrow> chat_roles msgs' = chat_roles msgs"
proof -
  assume "map msg_role msgs' = map msg_role msgs"
  then have "msg_role ` set msgs' = msg_role ` set msgs" by (metis list.set_map)
  moreover have "chat_roles ms \<longleftrightarrow> (\<forall>r \<in> msg_role ` set ms. r = ''user'' \<or> r = ''assistant'')" for ms
    by (auto simp: chat_roles_def)
  ultimately show ?thesis by metis
qed

lemma encode_messages_total:
  assumes "chat_roles msgs"
  shows "\<exists>encoded. encode_messages tok tmpl msgs system = Inr encoded \<and> length encoded = length msgs"
proof -
  have "\<exists>y. (\<lambda>(idx, msg). encode_message tok tmpl sys idx msg) x = Inr y"
    if "x \<in> set (zip [0..<length msgs] msgs)" for x sys
  proof -
    obtain i m where "x = (i, m)" "m \<in> set msgs" using \<open>x \<in> _\<close> by (metis in_set_zipE surj_pair)
    then show ?thesis using assms by (auto simp: chat_roles_def encode_message_def Let_def)
  qed
  then show ?thesis unfolding encode_messages_def Let_def
    using map_res_total map_res_length by (metis (no_types, lifting) length_map length_upt length_zip min.idem minus_nat.diff_0)
qed

lemma pair_up_even: "even (length xs) \<Longrightarrow> \<exists>ps. pair_up xs = Inr ps \<and> whole_ids ps = concat xs"
  by (induction xs rule: pair_up.induct) auto

lemma encode_multiturn_total:
  assumes "chat_roles msgs" and "even (length msgs)"
  shows "\<exists>encoded pairs. encode_messages tok tmpl msgs system = Inr encoded \<and>
    encode_multiturn tok tmpl msgs system = Inr pairs \<and> whole_ids pairs = concat encoded"
proof -
  obtain encoded where e: "encode_messages tok tmpl msgs system = Inr encoded" "length encoded = length msgs"
    using encode_messages_total[OF assms(1)] by blast
  obtain ps where "pair_up encoded = Inr ps" "whole_ids ps = concat encoded"
    using pair_up_even[of encoded] e(2) assms(2) by auto
  then show ?thesis using e(1) by (simp add: encode_multiturn_def)
qed

definition row_ok :: "data_args \<Rightarrow> 'img model_input \<Rightarrow> bool" where
  "row_ok args r \<longleftrightarrow>
     length (mi_labels r) = length (mi_input_ids r) \<and>
     mi_attention_mask r = replicate (length (mi_input_ids r)) True \<and>
     length (mi_input_ids r) \<le> cutoff_len args \<and>
     mi_prompt_attention_mask r = replicate (length (mi_prompt_input_ids r)) True \<and>
     (filter_overlong_prompts args \<longrightarrow> length (mi_prompt_input_ids r) \<le> max_prompt_length args) \<and>
     (\<forall>i < length (mi_input_ids r). mi_labels r ! i = IGNORE_INDEX \<or> mi_labels r ! i = mi_input_ids r ! i)"

lemma encode_sft_total:
  assumes "plugin_total process" and "chat_roles (prompt @ response)" and "even (length (prompt @ response))" and "1 \<le> cutoff"
  shows "\<exists>ids labels. encode_sft_example process tok tmpl cutoff prompt response system images = Inr (ids, labels) \<and>
    list_all2 label_ok labels ids \<and> length ids \<le> cutoff"
proof -
  obtain msgs where m: "process images (prompt @ response) = Inr msgs" "map msg_role msgs = map msg_role (prompt @ response)"
    using assms(1) unfolding plugin_total_def by blast
  have "length msgs = length (prompt @ response)" using m(2) by (rule map_eq_imp_length_eq)
  then obtain pairs where pairs: "encode_multiturn tok tmpl msgs system = Inr pairs"
    using encode_multiturn_total[of msgs tok tmpl system] chat_roles_map[OF m(2)] assms(2,3) by auto
  obtain ids labels where e: "encode_pairs cutoff (if efficient_eos tmpl then 1 else 0) pairs = (ids, labels)" by fastforce
  have c: "list_all2 label_ok labels ids" "length ids = min (cutoff - (if efficient_eos tmpl then 1 else 0)) (pair_total pairs)"
    using encode_pairs_correct[OF e] by simp_all
  let ?tail = "if efficient_eos tmpl then [eos_token_id tok] else []"
  have "encode_sft_example process tok tmpl cutoff prompt response system images = Inr (ids @ ?tail, labels @ ?tail)"
    by (simp add: encode_sft_example_def m(1) pairs e Let_def)
  moreover have "list_all2 label_ok (labels @ ?tail) (ids @ ?tail)" by (intro list_all2_appendI c(1) label_ok_kept)
  moreover have "length (ids @ ?tail) \<le> cutoff" using c(2) assms(4) by auto
  ultimately show ?thesis by blast
qed

lemma preprocess_example_ok:
  assumes "plugin_total process" and "chat_roles (ex_prompt ex @ ex_response ex)" and "1 \<le> cutoff_len args"
  shows "\<exists>r. preprocess_example process tok tmpl args ex = Inr r \<and> (\<forall>row. r = Some row \<longrightarrow> row_ok args row)"
proof (cases "length (ex_prompt ex) mod 2 \<noteq> 1 \<or> length (ex_response ex) \<noteq> 1")
  case True
  then show ?thesis by (auto simp: preprocess_example_def)
next
  case False
  let ?images = "case ex_images ex of None \<Rightarrow> [] | Some xs \<Rightarrow> xs"
  obtain msgs where m: "process ?images (ex_prompt ex) = Inr msgs" "map msg_role msgs = map msg_role (ex_prompt ex)"
    using assms(1) unfolding plugin_total_def by blast
  have "chat_roles (ex_prompt ex)" using assms(2) by (simp add: chat_roles_def)
  then obtain encoded where en: "encode_messages tok tmpl msgs (ex_system ex) = Inr encoded"
    using encode_messages_total[of msgs] chat_roles_map[OF m(2)] by blast
  then have p: "encode_prompt_example process tok tmpl (ex_prompt ex) (ex_system ex) ?images = Inr (concat encoded)"
    by (simp add: encode_prompt_example_def m(1))
  have "even (length (ex_prompt ex @ ex_response ex))" using False by (auto simp: mod2_eq_if split: if_splits)
  from encode_sft_total[OF assms(1,2) this assms(3)]
  obtain ids labels where s: "encode_sft_example process tok tmpl (cutoff_len args) (ex_prompt ex) (ex_response ex) (ex_system ex) ?images
      = Inr (ids, labels)" "list_all2 label_ok labels ids" "length ids \<le> cutoff_len args" by blast
  have l: "length labels = length ids" "\<forall>i < length ids. labels ! i = IGNORE_INDEX \<or> labels ! i = ids ! i"
    using s(2) by (auto simp: list_all2_conv_all_nth label_ok_def)
  show ?thesis using False p s(1,3) l
    by (auto simp: preprocess_example_def Let_def row_ok_def)
qed

lemma sharegpt_roles: "chat_roles (ex_prompt (sharegpt_convert attr norm sv images turns) @ ex_response (sharegpt_convert attr norm sv images turns))"
proof -
  have al: "chat_roles (align_turns attr ts)" for ts
    by (auto simp: chat_roles_def align_turns_def expected_role_def split: if_splits)
  have "fst (split_prompt_response d) @ snd (split_prompt_response d) = d" for d
    by (simp add: split_prompt_response_def)
  with al show ?thesis by (simp add: sharegpt_convert_def split: prod.splits) (metis fst_conv snd_conv)
qed

text \<open>
  Preprocessing ShareGPT rows never raises, whatever the tags and the number of their turns: malformed and over-long rows
  are dropped, and every row that is kept has labels and masks of its input's length, at most the cutoff's number of
  tokens, and a prompt within its limit.
\<close>

theorem sharegpt_rows_preprocessed:
  assumes "plugin_total process" and "1 \<le> cutoff_len args"
  shows "\<exists>rows. preprocess_batch process tok tmpl args
      (map (\<lambda>(sv, images, turns). sharegpt_convert attr norm sv images turns) raw) = Inr rows \<and>
    length rows \<le> length raw \<and> (\<forall>r \<in> set rows. row_ok args r)"
proof -
  let ?exs = "map (\<lambda>(sv, images, turns). sharegpt_convert attr norm sv images turns) raw"
  have one: "\<exists>r. preprocess_example process tok tmpl args ex = Inr r \<and> (\<forall>row. r = Some row \<longrightarrow> row_ok args row)"
    if "ex \<in> set ?exs" for ex
    using that preprocess_example_ok[OF assms(1) sharegpt_roles assms(2)] by auto
  then have "\<exists>rs. map_res (preprocess_example process tok tmpl args) ?exs = Inr rs" by (intro map_res_total) blast
  then obtain rs where rs: "map_res (preprocess_example process tok tmpl args) ?exs = Inr rs" by blast
  have len: "length rs = length ?exs" using rs by (rule map_res_length)
  have ok: "row_ok args row" if "Some row \<in> set rs" for row
  proof -
    obtain i where i: "i < length rs" "rs ! i = Some row" using \<open>Some row \<in> set rs\<close> by (auto simp: in_set_conv_nth)
    then have "preprocess_example process tok tmpl args (?exs ! i) = Inr (Some row)"
      using map_res_nth[OF rs, of i] len by simp
    then show ?thesis using one[of "?exs ! i"] i(1) len by (metis nth_mem sum.inject(2))
  qed
  have "length (List.map_filter id rs) \<le> length rs" by (induction rs) (auto simp: List.map_filter_simps split: option.split)
  moreover have "row_ok args r" if "r \<in> set (List.map_filter id rs)" for r
    using that ok by (auto simp: List.map_filter_def)
  ultimately show ?thesis using rs len by (simp add: preprocess_batch_def)
qed

definition example_attr :: dataset_attr where
  "example_attr = \<lparr>user_tag = ''human'', assistant_tag = ''gpt'', system_tag = ''system'', system_column = False\<rparr>"

lemma identity_plugin_total [sft_simps]: "plugin_total (\<lambda>images messages. Inr messages)"
  by (simp add: plugin_total_def)

text \<open>A good row and one whose turns are in the wrong order.\<close>

theorem sharegpt_rows_preprocessed_witness:
  "\<exists>rows. preprocess_batch (\<lambda>images messages. Inr messages) char_tokenizer bare_template
      \<lparr>cutoff_len = 5, max_prompt_length = 4, filter_overlong_prompts = True\<rparr>
      (map (\<lambda>(sv, images, turns). sharegpt_convert example_attr (\<lambda>x. x) sv images turns)
        [(None, None :: nat list option, [\<lparr>turn_tag = ''human'', turn_content = ''abcd''\<rparr>, \<lparr>turn_tag = ''gpt'', turn_content = ''xy''\<rparr>]),
         (None, None, [\<lparr>turn_tag = ''gpt'', turn_content = ''xy''\<rparr>])]) = Inr rows \<and> length rows \<le> 2"
  using sharegpt_rows_preprocessed[OF identity_plugin_total,
      of "\<lparr>cutoff_len = 5, max_prompt_length = 4, filter_overlong_prompts = True\<rparr>" char_tokenizer bare_template
         example_attr "\<lambda>x. x"
         "[(None, None :: nat list option, [\<lparr>turn_tag = ''human'', turn_content = ''abcd''\<rparr>, \<lparr>turn_tag = ''gpt'', turn_content = ''xy''\<rparr>]),
           (None, None, [\<lparr>turn_tag = ''gpt'', turn_content = ''xy''\<rparr>])]"]
  by (auto simp del: list.map)

section \<open>The prompt of an example\<close>

lemma encode_messages_append:
  assumes "encode_messages tok tmpl (us @ vs) system = Inr encoded"
  shows "\<exists>a b. encode_messages tok tmpl us system = Inr a \<and> encoded = a @ b"
proof -
  have "zip [0..<length (us @ vs)] (us @ vs) = zip [0..<length us] us @ zip [length us..<length us + length vs] vs"
    by (simp add: upt_add_eq_append[OF le0] zip_append)
  then show ?thesis using assms
    by (auto simp: encode_messages_def Let_def map_res_append bind_res_Inr_iff)
qed

lemma pair_up_concat: "pair_up xs = Inr ps \<Longrightarrow> whole_ids ps = concat xs"
  by (induction xs arbitrary: ps rule: pair_up.induct) (auto simp: bind_res_Inr_iff)

lemma pair_total_length: "length (whole_ids ps) = pair_total ps"
  by (induction ps) auto

text \<open>
  The example that the supervised loss sees continues the prompt that rollouts start from: when the plugin treats the prompt's messages
  alike with and without the response, every kept row that was not cut at the cutoff begins with exactly
  its prompt tokens.
\<close>

theorem prompt_begins_example:
  assumes "process images (ex_prompt ex @ ex_response ex) = Inr (p' @ r')" and "process images (ex_prompt ex) = Inr p'"
    and "images = (case ex_images ex of None \<Rightarrow> [] | Some xs \<Rightarrow> xs)"
    and "preprocess_example process tok tmpl args ex = Inr (Some row)"
    and "length (mi_input_ids row) < cutoff_len args"
  shows "\<exists>rest. mi_input_ids row = mi_prompt_input_ids row @ rest"
proof -
  let ?k = "if efficient_eos tmpl then 1 else 0 :: nat"
  let ?tail = "if efficient_eos tmpl then [eos_token_id tok] else []"
  obtain prompt_ids ids labels where
    pr: "encode_prompt_example process tok tmpl (ex_prompt ex) (ex_system ex) images = Inr prompt_ids"
    and sft: "encode_sft_example process tok tmpl (cutoff_len args) (ex_prompt ex) (ex_response ex) (ex_system ex) images = Inr (ids, labels)"
    and row: "mi_input_ids row = ids" "mi_prompt_input_ids row = prompt_ids"
    using assms(4) unfolding preprocess_example_def assms(3)[symmetric] Let_def
    by (auto simp: bind_res_Inr_iff split: if_splits)
  obtain pairs where pairs: "encode_multiturn tok tmpl (p' @ r') (ex_system ex) = Inr pairs"
    using sft by (auto simp: encode_sft_example_def assms(1) bind_res_Inr_iff)
  obtain encoded where en: "encode_messages tok tmpl (p' @ r') (ex_system ex) = Inr encoded" "pair_up encoded = Inr pairs"
    using pairs by (auto simp: encode_multiturn_def bind_res_Inr_iff)
  obtain a b where ab: "encode_messages tok tmpl p' (ex_system ex) = Inr a" "encoded = a @ b"
    using encode_messages_append[OF en(1)] by blast
  have prompt: "prompt_ids = concat a" using pr by (simp add: encode_prompt_example_def assms(2) ab(1))
  obtain ids0 labels0 where e: "encode_pairs (cutoff_len args) ?k pairs = (ids0, labels0)" by fastforce
  have ids: "ids = ids0 @ ?tail"
    using sft by (simp add: encode_sft_example_def assms(1) pairs e Let_def)
  have "length ids0 = min (cutoff_len args - ?k) (pair_total pairs)" using encode_pairs_correct[OF e] by simp
  with assms(5) have "?k + pair_total pairs \<le> cutoff_len args" by (auto simp: row(1) ids split: if_splits)
  then have "ids0 = whole_ids pairs" using encode_pairs_fits[of ?k pairs "cutoff_len args"] e by simp
  then have "ids0 = concat a @ concat b" using pair_up_concat[OF en(2)] ab(2) by simp
  then show ?thesis by (simp add: row ids prompt)
qed

theorem prompt_begins_example_witness:
  "\<exists>row rest. preprocess_example (\<lambda>images messages. Inr messages) char_tokenizer bare_template
      \<lparr>cutoff_len = 50, max_prompt_length = 4, filter_overlong_prompts = True\<rparr>
      \<lparr>ex_prompt = [\<lparr>msg_role = ''user'', msg_content = ''abcd''\<rparr>], ex_response = [\<lparr>msg_role = ''assistant'', msg_content = ''xy''\<rparr>],
       ex_system = None, ex_images = (None :: nat list option)\<rparr> = Inr (Some row) \<and>
    mi_input_ids row = mi_prompt_input_ids row @ rest"
proof -
  let ?ex = "\<lparr>ex_prompt = [\<lparr>msg_role = ''user'', msg_content = ''abcd''\<rparr>], ex_response = [\<lparr>msg_role = ''assistant'', msg_content = ''xy''\<rparr>],
       ex_system = None, ex_images = (None :: nat list option)\<rparr>"
  let ?args = "\<lparr>cutoff_len = 50, max_prompt_length = 4, filter_overlong_prompts = True\<rparr>"
  let ?row = "\<lparr>mi_input_ids = [97, 98, 99, 100, 120, 121, 0], mi_attention_mask = replicate 7 True,
    mi_labels = [-100, -100, -100, -100, 120, 121, 0], mi_images = (None :: nat list option), mi_prompt_input_ids = [97, 98, 99, 100],
    mi_prompt_attention_mask = replicate 4 True, mi_reference_text = ''xy''\<rparr>"
  have run: "preprocess_example (\<lambda>images messages. Inr messages) char_tokenizer bare_template ?args ?ex = Inr (Some ?row)"
    by code_simp
  have "(\<lambda>images messages. Inr messages) [] (ex_prompt ?ex @ ex_response ?ex) = Inr ([\<lparr>msg_role = ''user'', msg_content = ''abcd''\<rparr>]
      @ [\<lparr>msg_role = ''assistant'', msg_content = ''xy''\<rparr>])" by simp
  from prompt_begins_example[OF this _ _ run] show ?thesis using run by auto
qed

section \<open>The dummy image\<close>

text \<open>What the tokenizer promises of padding on the left: a row is moved to the right behind masked padding.\<close>

definition pads_left :: "((int list \<times> bool list) list \<Rightarrow> (int list \<times> bool list) list) \<Rightarrow> bool" where
  "pads_left pad \<longleftrightarrow>
     (\<forall>rows. length (pad rows) = length rows \<and>
        (\<forall>i < length rows. \<exists>k t. pad rows ! i = (replicate k t @ fst (rows ! i), replicate k False @ snd (rows ! i))))"

lemma map_constant: "(\<And>x. x \<in> set xs \<Longrightarrow> f x = c) \<Longrightarrow> map f xs = replicate (length xs) c"
  by (induction xs) auto

lemma first_active_padded [simp, sft_simps]:
  "first_active_index (replicate k False @ True # msk) = k"
  by (induction k) auto

text \<open>Left padding is undone before the engine sees a prompt: each row is sent as it was before padding, with its own images.\<close>

lemma padded_row_active:
  assumes "pads_left pad" and "i < length rows" and "\<exists>rest. snd (rows ! i) = True # rest"
  shows "drop (first_active_index (snd (pad rows ! i))) (fst (pad rows ! i)) = fst (rows ! i)"
proof -
  obtain k t where "pad rows ! i = (replicate k t @ fst (rows ! i), replicate k False @ snd (rows ! i))"
    using assms(1,2) unfolding pads_left_def by blast
  then show ?thesis using assms(3) by auto
qed

lemma student_prompts_padded:
  assumes pad: "pads_left pad" and images: "length images = length rows"
    and active: "\<forall>r \<in> set rows. \<exists>rest. snd r = True # rest"
  shows "student_prompts img vid
      \<lparr>prompt_input_ids = map fst (pad rows), prompt_attention_mask = map snd (pad rows), vllm_images = Some images\<rparr> =
    Inr (map (\<lambda>(r, imgs). (fst (dedup_consecutive_mm_tokens (fst r) img vid), imgs)) (zip rows images))"
proof -
  let ?prompt = "\<lambda>ids. fst (dedup_consecutive_mm_tokens ids img vid)"
  have len: "length (pad rows) = length rows" using pad by (simp add: pads_left_def)
  define xs where "xs = zip [0..<length rows] (zip (map fst (pad rows)) (map snd (pad rows)))"
  have xs: "length xs = length rows" "\<And>i. i < length rows \<Longrightarrow> xs ! i = (i, fst (pad rows ! i), snd (pad rows ! i))"
    by (simp_all add: xs_def len)
  have "student_prompts img vid \<lparr>prompt_input_ids = map fst (pad rows), prompt_attention_mask = map snd (pad rows), vllm_images = Some images\<rparr> =
      map_res (\<lambda>(i, ids, msk). bind_res (py_index images (int i)) (\<lambda>imgs. Inr (?prompt (drop (first_active_index msk) ids), imgs))) xs"
    by (cases images) (use images len in \<open>auto simp: student_prompts_def xs_def\<close>)
  also have "\<dots> = Inr (map (\<lambda>(i, ids, msk). (?prompt (drop (first_active_index msk) ids), images ! i)) xs)"
    by (rule map_res_all_ok) (auto simp: in_set_conv_nth xs py_index_nat images)
  also have "map (\<lambda>(i, ids, msk). (?prompt (drop (first_active_index msk) ids), images ! i)) xs =
      map (\<lambda>(r, imgs). (?prompt (fst r), imgs)) (zip rows images)"
    by (rule nth_equalityI) (simp_all add: xs images padded_row_active[OF pad] active case_prod_beta)
  finally show ?thesis .
qed

lemma map2_no_images: "map2 h (map r fs) (replicate (length fs) z) = map (\<lambda>g. h (r g) z) fs"
  by (induction fs) simp_all

lemma collate_without_images:
  assumes "features = f # fs" and "\<forall>g \<in> set features. mi_images g = None"
  shows "collate_prompts pad regularize True fake_image fake_ids features =
    (let rows = (mi_prompt_input_ids f @ fake_ids, mi_prompt_attention_mask f @ replicate (length fake_ids) False)
           # map (\<lambda>g. (mi_prompt_input_ids g, mi_prompt_attention_mask g)) fs
     in \<lparr>prompt_input_ids = map fst (pad rows), prompt_attention_mask = map snd (pad rows),
         vllm_images = Some (regularize [fake_image] # replicate (length fs) [])\<rparr>)"
proof -
  have "map (\<lambda>g. case mi_images g of None \<Rightarrow> [] | Some xs \<Rightarrow> xs) features = replicate (length features) []"
    by (rule map_constant) (use assms(2) in simp)
  then show ?thesis
    by (simp add: collate_prompts_def inject_dummy_image_def Let_def assms(1) sum_list_replicate comp_def)
qed

text \<open>
  The dummy image is sent to the rollout engine: the collator masks its tokens at the end of the first prompt, and the rollout only
  strips masked tokens at the beginning, so on a batch without images the engine is asked to continue the
  first prompt followed by the dummy image's tokens, with the blank image attached, while the other prompts are sent as they are.
\<close>

theorem dummy_image_reaches_engine:
  assumes "pads_left pad" and "features \<noteq> []"
    and "\<forall>f \<in> set features. mi_images f = None \<and> mi_prompt_input_ids f \<noteq> [] \<and>
           mi_prompt_attention_mask f = replicate (length (mi_prompt_input_ids f)) True"
  shows "student_prompts image_token_id video_token_id (collate_prompts pad regularize True fake_image fake_ids features) =
    Inr ((fst (dedup_consecutive_mm_tokens (mi_prompt_input_ids (hd features) @ fake_ids) image_token_id video_token_id),
          regularize [fake_image])
         # map (\<lambda>f. (fst (dedup_consecutive_mm_tokens (mi_prompt_input_ids f) image_token_id video_token_id), [])) (tl features))"
    (is "_ = Inr ?out")
proof -
  obtain f fs where fs: "features = f # fs" using assms(2) by (cases features) auto
  let ?rows = "(mi_prompt_input_ids f @ fake_ids, mi_prompt_attention_mask f @ replicate (length fake_ids) False)
      # map (\<lambda>g. (mi_prompt_input_ids g, mi_prompt_attention_mask g)) fs"
  let ?images = "regularize [fake_image] # replicate (length fs) []"
  have all_true: "\<exists>rest. mi_prompt_attention_mask g = True # rest" if "g \<in> set features" for g
    using that assms(3) by (cases "mi_prompt_input_ids g") auto
  have active: "\<forall>r \<in> set ?rows. \<exists>rest. snd r = True # rest"
    using all_true unfolding fs by fastforce
  have batch: "collate_prompts pad regularize True fake_image fake_ids features =
      \<lparr>prompt_input_ids = map fst (pad ?rows), prompt_attention_mask = map snd (pad ?rows), vllm_images = Some ?images\<rparr>"
    using collate_without_images[OF fs, of pad regularize fake_image fake_ids] assms(3) by (simp add: Let_def)
  show ?thesis
    unfolding batch using student_prompts_padded[OF assms(1) _ active, of ?images image_token_id video_token_id]
    by (simp add: fs map2_no_images)
qed

text \<open>Padding to a common width with zeros, as the collator does it.\<close>

definition pad_rows_left :: "(int list \<times> bool list) list \<Rightarrow> (int list \<times> bool list) list" where
  "pad_rows_left rows =
     (let n = foldl max 0 (map (\<lambda>r. length (fst r)) rows)
      in map (\<lambda>r. (replicate (n - length (fst r)) 0 @ fst r, replicate (n - length (fst r)) False @ snd r)) rows)"

theorem dummy_image_reaches_engine_witness:
  "student_prompts (Some 99) None (collate_prompts pad_rows_left (\<lambda>is. is) True (7 :: nat) [98, 99, 99, 97]
     [\<lparr>mi_input_ids = [], mi_attention_mask = [], mi_labels = [], mi_images = None, mi_prompt_input_ids = [1, 2],
       mi_prompt_attention_mask = [True, True], mi_reference_text = []\<rparr>,
      \<lparr>mi_input_ids = [], mi_attention_mask = [], mi_labels = [], mi_images = None, mi_prompt_input_ids = [3],
       mi_prompt_attention_mask = [True], mi_reference_text = []\<rparr>]) =
   Inr [([1, 2, 98, 99, 97], [7]), ([3], [])]"
proof -
  have pads: "pads_left pad_rows_left"
    unfolding pads_left_def pad_rows_left_def Let_def by auto
  let ?f = "\<lparr>mi_input_ids = [], mi_attention_mask = [], mi_labels = [], mi_images = None :: nat list option, mi_prompt_input_ids = [1, 2],
       mi_prompt_attention_mask = [True, True], mi_reference_text = []\<rparr>"
  let ?g = "\<lparr>mi_input_ids = [], mi_attention_mask = [], mi_labels = [], mi_images = None :: nat list option, mi_prompt_input_ids = [3],
       mi_prompt_attention_mask = [True], mi_reference_text = []\<rparr>"
  have "\<forall>f \<in> set [?f, ?g]. mi_images f = None \<and> mi_prompt_input_ids f \<noteq> [] \<and>
           mi_prompt_attention_mask f = replicate (length (mi_prompt_input_ids f)) True" by simp
  from dummy_image_reaches_engine[OF pads _ this, of "Some 99" None "\<lambda>is. is" 7 "[98, 99, 99, 97]"]
  show ?thesis by (simp add: dedup_consecutive_mm_tokens_def)
qed

end
