(* ===== verification/TokenBaseline.thy ===== *)
theory TokenBaseline
  imports PolicyLosses
begin

text \<open>
  Advantages of \<open>src/verl_new/verl/trainer/ppo/core_algos.py\<close> that treat the responses of a prompt together: Pass@k, where only the
  best response of a grp is rewarded, and the optimal token baseline with its variant for several turns.  \<open>topk\<close> is
  \<open>torch.topk\<close>; masks are of zeros and ones where the theorems say so.
\<close>

definition positions_of :: "'i list \<Rightarrow> nat \<Rightarrow> 'i \<Rightarrow> nat list" where
  "positions_of index n g = filter (\<lambda>i. index ! i = g) [0..<n]"

section \<open>Pass@k\<close>

definition passk_group :: "(nat \<Rightarrow> real list \<Rightarrow> nat list) \<Rightarrow> bool \<Rightarrow> real \<Rightarrow> real list \<Rightarrow> nat list \<Rightarrow> (nat \<times> real) result" where
  "passk_group topk norm_adv eps scores indices =
     (let rewards = map ((!) scores) indices
      in if length rewards < 2 then Inl ValueError
         else (let idx = topk 2 rewards;
                   advantage = rewards ! (idx ! 0) - rewards ! (idx ! 1)
               in Inr (indices ! (idx ! 0), if norm_adv then advantage / (std_of rewards + eps) else advantage)))"

definition compute_grpo_passk_outcome_advantage ::
  "(nat \<Rightarrow> real list \<Rightarrow> nat list) \<Rightarrow> matrix \<Rightarrow> matrix \<Rightarrow> 'i list \<Rightarrow> real \<Rightarrow> bool \<Rightarrow> (matrix \<times> matrix) result" where
  "compute_grpo_passk_outcome_advantage topk token_level_rewards response_mask index epsilon norm_adv_by_std_in_grpo =
     (let scores = row_sums token_level_rewards; bsz = length scores
      in if length index < bsz then Inl IndexError
         else bind_res (fold_res (\<lambda>advantages g.
                bind_res (passk_group topk norm_adv_by_std_in_grpo epsilon scores (positions_of index bsz g)) (\<lambda>(i_max, a).
                Inr (advantages[i_max := a]))) (replicate bsz 0) (map fst (group_scores index scores))) (\<lambda>advantages.
              let out = spread advantages response_mask in Inr (out, out)))"

section \<open>Optimal token baseline\<close>

fun cumsum :: "real \<Rightarrow> real list \<Rightarrow> real list" where
  "cumsum acc [] = []"
| "cumsum acc (x # xs) = (acc + x) # cumsum (acc + x) xs"

definition token_returns :: "matrix \<Rightarrow> matrix \<Rightarrow> matrix" where
  "token_returns token_level_rewards response_mask = map suffix_sums (mzip (*) token_level_rewards response_mask)"

definition w_per_timestep :: "matrix \<Rightarrow> matrix \<Rightarrow> matrix option \<Rightarrow> matrix" where
  "w_per_timestep old_log_probs sum_pi_squared rollout_is_weights =
     (let w = mzip (\<lambda>l s. 1 - 2 * exp l + s) old_log_probs sum_pi_squared
      in case rollout_is_weights of None \<Rightarrow> w | Some r \<Rightarrow> mzip (\<lambda>x y. x * y ^ 2) w r)"

definition w_cumulative :: "matrix \<Rightarrow> matrix \<Rightarrow> matrix \<Rightarrow> matrix option \<Rightarrow> matrix" where
  "w_cumulative old_log_probs sum_pi_squared response_mask rollout_is_weights =
     map (cumsum 0) (mzip (*) (w_per_timestep old_log_probs sum_pi_squared rollout_is_weights) response_mask)"

text \<open>\<open>(R * W).sum(dim=0) / (W.sum(dim=0) + epsilon)\<close> at step \<open>t\<close>, over the rows of a group.\<close>

definition step_baseline :: "real \<Rightarrow> matrix \<Rightarrow> matrix \<Rightarrow> nat list \<Rightarrow> nat \<Rightarrow> real" where
  "step_baseline eps R W grp t =
     sum_list (map (\<lambda>j. R ! j ! t * W ! j ! t) grp) / (sum_list (map (\<lambda>j. W ! j ! t) grp) + eps)"

text \<open>The only longest trajectory of a group, if there is one, with the length of the second longest.\<close>

definition zero_tail :: "nat list \<Rightarrow> nat list \<Rightarrow> (nat \<times> nat) option" where
  "zero_tail lens grp =
     (let ls = map ((!) lens) grp; srt = sort ls; mx = srt ! (length srt - 1); second = srt ! (length srt - 2);
          longest = filter (\<lambda>i. lens ! i = mx) grp
      in if length longest = 1 \<and> second < mx then Some (hd longest, second) else None)"

definition zero_from :: "nat \<Rightarrow> real list \<Rightarrow> real list" where
  "zero_from k xs = take k xs @ replicate (length xs - k) 0"

text \<open>The baseline of row \<open>i\<close> in its group: zero when the group has one row only.\<close>

definition row_baseline :: "bool \<Rightarrow> real \<Rightarrow> nat \<Rightarrow> matrix \<Rightarrow> matrix \<Rightarrow> nat list \<Rightarrow> nat list \<Rightarrow> nat \<Rightarrow> real list" where
  "row_baseline handle_zero_tail eps T R W lens grp i =
     (if length grp = 1 then replicate T 0
      else (let b = map (step_baseline eps R W grp) [0..<T]
            in if handle_zero_tail
               then (case zero_tail lens grp of
                       Some (j, second) \<Rightarrow> if j = i then zero_from second b else b
                     | None \<Rightarrow> b)
               else b))"

definition row_lengths :: "matrix \<Rightarrow> nat list" where
  "row_lengths response_mask = map (\<lambda>row. nat \<lfloor>sum_list row\<rfloor>) response_mask"

definition row_width :: "matrix \<Rightarrow> nat" where
  "row_width m = (case m of [] \<Rightarrow> 0 | row # _ \<Rightarrow> length row)"

definition compute_optimal_token_baseline_advantage ::
  "matrix \<Rightarrow> matrix \<Rightarrow> 'i list \<Rightarrow> matrix \<Rightarrow> matrix \<Rightarrow> matrix option \<Rightarrow> bool \<Rightarrow> real \<Rightarrow> (matrix \<times> matrix) result" where
  "compute_optimal_token_baseline_advantage token_level_rewards response_mask index old_log_probs sum_pi_squared rollout_is_weights
      handle_zero_tail epsilon =
     (let n = length token_level_rewards; T = row_width token_level_rewards;
          returns = token_returns token_level_rewards response_mask;
          w = w_cumulative old_log_probs sum_pi_squared response_mask rollout_is_weights;
          lens = row_lengths response_mask
      in if length index < n then Inl IndexError
         else (let baselines = map (\<lambda>i. row_baseline handle_zero_tail epsilon T returns (mzip (*) w response_mask) lens
                                          (positions_of index n (index ! i)) i) [0..<n]
               in Inr (mzip (*) (mzip (-) returns baselines) response_mask, returns)))"

section \<open>Optimal token baseline over several turns\<close>

text \<open>The values at the tokens of the mask moved to the front of a row of zeros, and back.\<close>

definition compact_row :: "nat \<Rightarrow> real list \<Rightarrow> real list \<Rightarrow> real list" where
  "compact_row len vals msk = (let v = valid_of vals msk in v @ replicate (len - length v) 0)"

fun scatter :: "real list \<Rightarrow> real list \<Rightarrow> real list" where
  "scatter vs [] = []"
| "scatter vs (m # ms) = (if m \<noteq> 0 then (case vs of v # vs' \<Rightarrow> v # scatter vs' ms | [] \<Rightarrow> 0 # scatter [] ms) else 0 # scatter vs ms)"

definition compute_multi_turn_optimal_token_baseline_advantage ::
  "matrix \<Rightarrow> matrix \<Rightarrow> 'i list \<Rightarrow> matrix \<Rightarrow> matrix \<Rightarrow> matrix option \<Rightarrow> bool \<Rightarrow> real \<Rightarrow> (matrix \<times> matrix) result" where
  "compute_multi_turn_optimal_token_baseline_advantage token_level_rewards response_mask index old_log_probs sum_pi_squared
      rollout_is_weights handle_zero_tail epsilon =
     (let n = length response_mask;
          returns = token_returns token_level_rewards response_mask;
          w = w_cumulative old_log_probs sum_pi_squared response_mask rollout_is_weights;
          lens = row_lengths response_mask;
          L = (if lens = [] then 0 else Max (set lens));
          all_w = map2 (compact_row L) w response_mask;
          all_returns = map2 (compact_row L) returns response_mask;
          members = (\<lambda>g. filter (\<lambda>i. lens ! i \<noteq> 0) (positions_of index n g))
      in if \<exists>i < n. lens ! i \<noteq> 0 \<and> length index \<le> i then Inl IndexError
         else (let baselines = map (\<lambda>i. if lens ! i = 0 then replicate L 0
                                        else row_baseline handle_zero_tail epsilon L all_returns all_w lens (members (index ! i)) i) [0..<n];
                   advantages = map2 scatter (mzip (-) all_returns baselines) response_mask
               in Inr (mzip (*) advantages response_mask, returns)))"

section \<open>The two baselines agree on one turn\<close>

definition prefix_row :: "nat \<Rightarrow> nat \<Rightarrow> real list" where
  "prefix_row T k = replicate k 1 @ replicate (T - k) 0"

lemma prefix_row_nth [simp]: "k \<le> T \<Longrightarrow> t < T \<Longrightarrow> prefix_row T k ! t = (if t < k then 1 else 0)"
  by (simp add: prefix_row_def nth_append)

lemma prefix_row_length [simp]: "k \<le> T \<Longrightarrow> length (prefix_row T k) = T"
  by (simp add: prefix_row_def)

lemma prefix_row_sum: "sum_list (prefix_row T k) = real k"
  by (simp add: prefix_row_def sum_list_replicate)

lemma valid_of_zeros: "valid_of vs (replicate m 0) = []"
  by (auto simp: valid_of_def filter_empty_conv set_zip)

lemma valid_of_prefix: "length vals = T \<Longrightarrow> k \<le> T \<Longrightarrow> valid_of vals (prefix_row T k) = take k vals"
proof (induction k arbitrary: vals T)
  case 0
  then show ?case by (simp add: prefix_row_def valid_of_zeros)
next
  case (Suc k)
  then obtain v vs T' where v: "vals = v # vs" "T = Suc T'" by (cases vals; cases T) auto
  with Suc.prems have "valid_of vs (prefix_row T' k) = take k vs" by (intro Suc.IH) auto
  then show ?case by (simp add: v prefix_row_def valid_of_def)
qed

lemma compact_prefix:
  assumes "length vals = T" "k \<le> T" "k \<le> L" "t < L"
  shows "compact_row L vals (prefix_row T k) ! t = (if t < k then vals ! t else 0)"
  using assms by (simp add: compact_row_def valid_of_prefix nth_append)

lemma scatter_zeros: "scatter vs (replicate m 0) = replicate m 0"
  by (induction m arbitrary: vs) simp_all

lemma scatter_prefix: "k \<le> length vs \<Longrightarrow> scatter vs (replicate k 1 @ replicate m 0) = take k vs @ replicate m 0"
proof (induction k arbitrary: vs)
  case (Suc k)
  then show ?case by (cases vs) simp_all
qed (simp add: scatter_zeros)

lemma sort_zeros_first:
  fixes lens :: "nat list"
  defines "G' \<equiv> \<lambda>G. filter (\<lambda>i. lens ! i \<noteq> 0) G"
  shows "sort (map ((!) lens) G) = replicate (length G - length (G' G)) 0 @ sort (map ((!) lens) (G' G))"
proof (rule properties_for_sort)
  have "mset (replicate (length G - length (G' G)) 0) + mset (map ((!) lens) (G' G)) = mset (map ((!) lens) G)"
  proof (induction G)
    case (Cons i G)
    have "length (G' G) \<le> length G" by (simp add: G'_def)
    with Cons show ?case by (auto simp: G'_def Suc_diff_le simp del: mset_replicate)
  qed (simp add: G'_def)
  then show "mset (replicate (length G - length (G' G)) 0 @ sort (map ((!) lens) (G' G))) = mset (map ((!) lens) G)" by simp
  show "sorted (replicate (length G - length (G' G)) 0 @ sort (map ((!) lens) (G' G)))"
    by (auto simp: sorted_append sorted_replicate)
qed

lemma nth_from_back: "1 \<le> c \<Longrightarrow> c \<le> length ys \<Longrightarrow> (xs @ ys) ! (length (xs @ ys) - c) = ys ! (length ys - c)"
  by (auto simp: nth_append)

lemma zero_tail_nonempty:
  fixes lens :: "nat list"
  assumes G': "G' = filter (\<lambda>i. lens ! i \<noteq> 0) G" and len: "2 \<le> length G'"
  shows "zero_tail lens G = zero_tail lens G'"
proof -
  let ?s = "sort (map ((!) lens) G)" and ?s' = "sort (map ((!) lens) G')"
  have le: "length G' \<le> length G" by (simp add: G')
  have s: "?s = replicate (length G - length G') 0 @ ?s'" unfolding G' by (rule sort_zeros_first)
  have last: "?s ! (length ?s - 1) = ?s' ! (length ?s' - 1)" "?s ! (length ?s - 2) = ?s' ! (length ?s' - 2)"
    unfolding s using len by (intro nth_from_back; simp)+
  have "?s' ! (length ?s' - 1) \<in> set ?s'" using len by (intro nth_mem) simp
  then have "?s' ! (length ?s' - 1) \<noteq> 0" by (auto simp: G')
  then have "filter (\<lambda>i. lens ! i = ?s' ! (length ?s' - 1)) G = filter (\<lambda>i. lens ! i = ?s' ! (length ?s' - 1)) G'"
    by (auto simp: G' intro: filter_cong)
  then show ?thesis unfolding zero_tail_def Let_def last by simp
qed

lemma zero_tail_single:
  fixes lens :: "nat list"
  assumes G': "filter (\<lambda>i. lens ! i \<noteq> 0) G = [i]" and len: "2 \<le> length G"
  shows "zero_tail lens G = Some (i, 0)"
proof -
  have i: "lens ! i \<noteq> 0" using G' by (metis (mono_tags) filter_eq_Cons_iff)
  have s: "sort (map ((!) lens) G) = replicate (length G - 1) 0 @ [lens ! i]"
    using sort_zeros_first[of lens G] unfolding G' by simp
  have "filter (\<lambda>j. lens ! j = lens ! i) G = filter (\<lambda>j. lens ! j = lens ! i) (filter (\<lambda>j. lens ! j \<noteq> 0) G)"
    using i by (auto intro: filter_cong)
  then have "filter (\<lambda>j. lens ! j = lens ! i) G = [i]" unfolding G' by simp
  then show ?thesis using len i by (auto simp: zero_tail_def Let_def s nth_append)
qed

lemma step_baseline_same:
  assumes "G' = filter (\<lambda>i. lens ! i \<noteq> 0) G" and "t < L"
    and rows: "\<And>j. j \<in> set G \<Longrightarrow> W2 ! j ! t = (if t < lens ! j then W ! j ! t else 0) \<and>
      allR ! j ! t = (if t < lens ! j then R ! j ! t else 0) \<and> allW ! j ! t = (if t < lens ! j then W ! j ! t else 0)"
  shows "step_baseline eps R W2 G t = step_baseline eps allR allW G' t"
proof -
  have drop_empty: "sum_list (map f (filter P G)) = sum_list (map f G)" if "\<And>j. j \<in> set G \<Longrightarrow> \<not> P j \<Longrightarrow> f j = 0" for f :: "nat \<Rightarrow> real" and P
    using that by (induction G) auto
  have "sum_list (map (\<lambda>j. allR ! j ! t * allW ! j ! t) G') = sum_list (map (\<lambda>j. allR ! j ! t * allW ! j ! t) G)"
    unfolding assms(1) by (rule drop_empty) (simp add: rows)
  also have "\<dots> = sum_list (map (\<lambda>j. R ! j ! t * W2 ! j ! t) G)"
    by (rule arg_cong[of _ _ sum_list], rule map_cong) (simp_all add: rows)
  finally have num: "sum_list (map (\<lambda>j. allR ! j ! t * allW ! j ! t) G') = \<dots>" .
  have "sum_list (map (\<lambda>j. allW ! j ! t) G') = sum_list (map (\<lambda>j. allW ! j ! t) G)"
    unfolding assms(1) by (rule drop_empty) (simp add: rows)
  also have "\<dots> = sum_list (map (\<lambda>j. W2 ! j ! t) G)"
    by (rule arg_cong[of _ _ sum_list], rule map_cong) (simp_all add: rows)
  finally show ?thesis by (simp add: step_baseline_def num)
qed

lemma zero_from_nth: "t < length xs \<Longrightarrow> zero_from k xs ! t = (if t < k then xs ! t else 0)"
  by (simp add: zero_from_def nth_append min_def)

lemma row_baseline_nth:
  assumes "t < T"
  shows "row_baseline True eps T R W lens G i ! t =
    (if length G = 1 \<or> (\<exists>second. zero_tail lens G = Some (i, second) \<and> second \<le> t) then 0 else step_baseline eps R W G t)"
  using assms by (auto simp: row_baseline_def Let_def zero_from_nth split: option.splits)

lemma row_baseline_same:
  assumes G': "G' = filter (\<lambda>i. lens ! i \<noteq> 0) G" and i: "i \<in> set G" and t: "t < lens ! i" "t < T" "t < L"
    and rows: "\<And>j. j \<in> set G \<Longrightarrow> W2 ! j ! t = (if t < lens ! j then W ! j ! t else 0) \<and>
      allR ! j ! t = (if t < lens ! j then R ! j ! t else 0) \<and> allW ! j ! t = (if t < lens ! j then W ! j ! t else 0)"
  shows "row_baseline True eps T R W2 lens G i ! t = row_baseline True eps L allR allW lens G' i ! t"
proof -
  have i': "i \<in> set G'" using i t(1) by (simp add: G')
  note step = step_baseline_same[OF G' t(3) rows, of eps]
  consider "length G' = 1" "length G = 1" | "length G' = 1" "2 \<le> length G" | "2 \<le> length G'"
    using i' i by (cases G; cases "tl G"; cases G'; cases "tl G'") (auto simp: Suc_le_eq)
  then show ?thesis
  proof cases
    case 2
    then have "G' = [i]" using i' by (cases G') auto
    then have "zero_tail lens G = Some (i, 0)" using zero_tail_single[of lens G i] G' 2(2) by simp
    then show ?thesis using 2 t by (simp add: row_baseline_nth)
  next
    case 3
    have "length G' \<le> length G" unfolding G' by (rule length_filter_le)
    with 3 have "length G \<noteq> 1" "length G' \<noteq> 1" by auto
    then show ?thesis using zero_tail_nonempty[OF G' 3] t step by (auto simp: row_baseline_nth)
  qed (use t in \<open>simp add: row_baseline_nth\<close>)
qed

lemma suffix_sums_length [simp]: "length (suffix_sums xs) = length xs"
  by (induction xs) simp_all

lemma cumsum_length [simp]: "length (cumsum acc xs) = length xs"
  by (induction xs arbitrary: acc) simp_all

lemma shapes_of:
  assumes "shapes_equal a m"
  shows "length a = length m" "\<And>i. i < length m \<Longrightarrow> length (a ! i) = length (m ! i)"
  using shapes_equalD[OF assms] by auto

lemma returns_shape: "shapes_equal rw m \<Longrightarrow> shapes_equal (token_returns rw m) m"
  using shapes_equal_mzip[of rw m "(*)"] by (simp add: token_returns_def shapes_equal_def comp_def)

lemma w_cumulative_shape:
  assumes "shapes_equal old m" "shapes_equal spi m" "case ris of None \<Rightarrow> True | Some r \<Rightarrow> shapes_equal r m"
  shows "shapes_equal (w_cumulative old spi m ris) m"
proof -
  have "shapes_equal (mzip f old spi) m" for f
    using shapes_equal_mzip[of old spi f] assms(1,2) by (simp add: shapes_equal_def)
  then have "shapes_equal (w_per_timestep old spi ris) m"
    using assms(3) shapes_equal_mzip by (auto simp: w_per_timestep_def shapes_equal_def split: option.splits)
  then show ?thesis using shapes_equal_mzip[of _ m "(*)"] by (simp add: w_cumulative_def shapes_equal_def comp_def)
qed

definition one_turn :: "nat \<Rightarrow> matrix \<Rightarrow> bool" where
  "one_turn T m \<longleftrightarrow> (\<forall>row \<in> set m. \<exists>k \<le> T. row = prefix_row T k)"

lemma one_turn_rows:
  assumes "one_turn T m" and "i < length m"
  shows "row_lengths m ! i \<le> T" "m ! i = prefix_row T (row_lengths m ! i)"
proof -
  obtain k where k: "k \<le> T" "m ! i = prefix_row T k" using assms nth_mem unfolding one_turn_def by blast
  moreover have "row_lengths m ! i = k" using assms(2) by (simp add: row_lengths_def k(2) prefix_row_sum)
  ultimately show "row_lengths m ! i \<le> T" "m ! i = prefix_row T (row_lengths m ! i)" by simp_all
qed

lemma compact_rows_nth:
  assumes "one_turn T m" "shapes_equal a m" "j < length m" "L = Max (set (row_lengths m))" "t < L"
  shows "map2 (compact_row L) a m ! j ! t = (if t < row_lengths m ! j then a ! j ! t else 0)"
proof -
  note r = one_turn_rows[OF assms(1,3)]
  have "row_lengths m ! j \<in> set (row_lengths m)" using assms(3) by (intro nth_mem) (simp add: row_lengths_def)
  then have "row_lengths m ! j \<le> L" unfolding assms(4) by (intro Max_ge) auto
  moreover have "length (a ! j) = T" using shapes_of(2)[OF assms(2,3)] r by (metis prefix_row_length)
  ultimately show ?thesis
    using compact_prefix[of "a ! j" T "row_lengths m ! j" L t] r assms(3,5) shapes_of(1)[OF assms(2)] by simp
qed

lemma row_baseline_length: "length (row_baseline h eps T R W lens G i) = T"
  by (auto simp: row_baseline_def Let_def zero_from_def split: option.splits)

lemma same_advantage:
  fixes eps :: real
  assumes m: "one_turn T m" and R: "shapes_equal R m" and W: "shapes_equal W m" and i: "i < length m" and t: "t < T"
    and L: "L = Max (set (row_lengths m))" and G: "\<forall>j \<in> set G. j < length m" "i \<in> set G"
    and G': "G' = filter (\<lambda>j. row_lengths m ! j \<noteq> 0) G"
  defines "lens \<equiv> row_lengths m"
  defines "Bm \<equiv> (if lens ! i = 0 then replicate L 0 else row_baseline True eps L (map2 (compact_row L) R m) (map2 (compact_row L) W m) lens G' i)"
  shows "(R ! i ! t - row_baseline True eps T R (mzip (*) W m) lens G i ! t) * m ! i ! t =
    scatter (map2 (-) (map2 (compact_row L) R m ! i) Bm) (m ! i) ! t * m ! i ! t"
proof -
  note r = one_turn_rows[OF m]
  have mi: "m ! i = prefix_row T (lens ! i)" "lens ! i \<le> T" using r[OF i] by (simp_all add: lens_def)
  show ?thesis
  proof (cases "t < lens ! i")
    case False
    then show ?thesis using t mi by simp
  next
    case True
    have "lens ! i \<in> set (row_lengths m)" using i unfolding lens_def by (intro nth_mem) (simp add: row_lengths_def)
    then have iL: "lens ! i \<le> L" unfolding L by (intro Max_ge) auto
    then have tL: "t < L" using True by simp
    have rows: "mzip (*) W m ! j ! t = (if t < lens ! j then W ! j ! t else 0) \<and>
        map2 (compact_row L) R m ! j ! t = (if t < lens ! j then R ! j ! t else 0) \<and>
        map2 (compact_row L) W m ! j ! t = (if t < lens ! j then W ! j ! t else 0)" if "j \<in> set G" for j
    proof -
      have j: "j < length m" using that G(1) by blast
      note rj = r[OF j]
      have len: "length (m ! j) = T" using rj by (metis prefix_row_length)
      then have "length (W ! j) = T" using shapes_of(2)[OF W j] by simp
      then have "mzip (*) W m ! j ! t = W ! j ! t * m ! j ! t"
        using j t len shapes_of(1)[OF W] by (simp add: mzip_nth)
      moreover have "m ! j ! t = (if t < lens ! j then 1 else 0)"
        unfolding lens_def by (subst rj(2)) (rule prefix_row_nth[OF rj(1) t])
      ultimately show ?thesis
        using compact_rows_nth[OF m R j L tL] compact_rows_nth[OF m W j L tL] unfolding lens_def[symmetric] by simp
    qed
    have same: "row_baseline True eps T R (mzip (*) W m) lens G i ! t = Bm ! t"
      using row_baseline_same[OF G'[folded lens_def] G(2) True t tL rows] True by (simp add: Bm_def)
    have lenB: "length Bm = L" by (simp add: Bm_def row_baseline_length)
    have lenR: "length (map2 (compact_row L) R m ! i) = L"
    proof -
      have "length (R ! i) = T" using shapes_of(2)[OF R i] mi by (metis prefix_row_length)
      then show ?thesis using i mi iL shapes_of(1)[OF R] by (simp add: compact_row_def valid_of_prefix)
    qed
    have "scatter (map2 (-) (map2 (compact_row L) R m ! i) Bm) (m ! i) ! t = map2 (compact_row L) R m ! i ! t - Bm ! t"
      unfolding mi(1) prefix_row_def using scatter_prefix[of "lens ! i"] lenB lenR iL True tL
      by (simp add: nth_append)
    then show ?thesis using same rows[OF G(2)] True by simp
  qed
qed

text \<open>
  On responses of one turn (a mask that is a prefix of the row) the optimal token baseline for several turns, which gathers
  the trained tokens of a row first, is the plain one: same advantages and returns, for empty responses and groups of one too.
\<close>

theorem multi_turn_baseline_is_single:
  assumes m: "one_turn T response_mask" "response_mask \<noteq> []" and T: "row_width token_level_rewards = T"
    and shapes: "shapes_equal token_level_rewards response_mask" "shapes_equal old_log_probs response_mask"
      "shapes_equal sum_pi_squared response_mask" "case weights of None \<Rightarrow> True | Some r \<Rightarrow> shapes_equal r response_mask"
    and "length response_mask \<le> length index"
  shows "compute_multi_turn_optimal_token_baseline_advantage token_level_rewards response_mask index old_log_probs sum_pi_squared weights True eps =
    compute_optimal_token_baseline_advantage token_level_rewards response_mask index old_log_probs sum_pi_squared weights True eps"
proof -
  let ?m = response_mask and ?lens = "row_lengths response_mask"
  let ?R = "token_returns token_level_rewards ?m" and ?W = "w_cumulative old_log_probs sum_pi_squared ?m weights"
  let ?G = "\<lambda>i. positions_of index (length ?m) (index ! i)" and ?L = "Max (set ?lens)"
  note R = returns_shape[OF shapes(1)] and W = w_cumulative_shape[OF shapes(2-4)]
  have n: "length token_level_rewards = length ?m" by (rule shapes_of(1)[OF shapes(1)])
  have ne: "?lens \<noteq> []" using m(2) by (simp add: row_lengths_def)
  let ?B1 = "map (\<lambda>i. row_baseline True eps T ?R (mzip (*) ?W ?m) ?lens (?G i) i) [0..<length ?m]"
  let ?B2 = "map (\<lambda>i. if ?lens ! i = 0 then replicate ?L 0 else row_baseline True eps ?L (map2 (compact_row ?L) ?R ?m)
      (map2 (compact_row ?L) ?W ?m) ?lens (filter (\<lambda>j. ?lens ! j \<noteq> 0) (?G i)) i) [0..<length ?m]"
  have rowlen: "length (?R ! i) = T" "length (?m ! i) = T" if "i < length ?m" for i
    using shapes_of(2)[OF R that] one_turn_rows[OF m(1) that] by (metis prefix_row_length)+
  have scatter_len: "length (scatter vs row) = length row" for vs row
    by (induction vs row rule: scatter.induct) (auto split: list.splits)
  have "mzip (*) (mzip (-) ?R ?B1) ?m = mzip (*) (map2 scatter (mzip (-) (map2 (compact_row ?L) ?R ?m) ?B2) ?m) ?m"
  proof (rule nth_equalityI, goal_cases)
    case 1
    then show ?case using shapes_of(1)[OF R] by (simp add: mzip_def)
  next
    case (2 i)
    then have i: "i < length ?m" by (simp add: mzip_def)
    have G: "\<forall>j \<in> set (?G i). j < length ?m" "i \<in> set (?G i)" using i by (auto simp: positions_of_def)
    show ?case
    proof (rule nth_equalityI, goal_cases)
      case 1
      then show ?case using i rowlen shapes_of(1)[OF R] by (simp add: mzip_def scatter_len row_baseline_length)
    next
      case (2 t)
      then have t: "t < T" using i rowlen shapes_of(1)[OF R] by (simp add: mzip_def row_baseline_length)
      from same_advantage[OF m(1) R W i t refl G refl, of eps] show ?case
        using i t rowlen shapes_of(1)[OF R] by (simp add: mzip_def scatter_len row_baseline_length cong: if_cong)
    qed
  qed
  then show ?thesis
    unfolding compute_multi_turn_optimal_token_baseline_advantage_def compute_optimal_token_baseline_advantage_def Let_def
    using n ne assms(8) T by auto
qed

section \<open>The baseline is optimal\<close>

lemma quadratic_minimum:
  fixes c n D b :: real
  assumes "0 < D"
  shows "D * (n / D) ^ 2 - 2 * n * (n / D) \<le> D * b ^ 2 - 2 * n * b"
proof -
  have "D * b ^ 2 - 2 * n * b - (D * (n / D) ^ 2 - 2 * n * (n / D)) = D * (b - n / D) ^ 2"
    using assms by (simp add: power2_eq_square field_simps)
  moreover have "0 \<le> D * (b - n / D) ^ 2" using assms by simp
  ultimately show ?thesis by linarith
qed

lemma weighted_square_sum:
  "sum_list (map (\<lambda>j. w j * (r j - b) ^ 2) xs) =
   sum_list (map (\<lambda>j. w j * r j ^ 2) xs) - 2 * sum_list (map (\<lambda>j. r j * w j) xs) * b + sum_list (map w xs) * (b :: real) ^ 2"
  by (induction xs) (simp_all add: power2_eq_square algebra_simps)

lemma step_baseline_minimises:
  assumes "0 < eps" and "\<And>j. j \<in> set grp \<Longrightarrow> 0 \<le> W ! j ! t"
  shows "sum_list (map (\<lambda>j. W ! j ! t * (R ! j ! t - step_baseline eps R W grp t) ^ 2) grp) + eps * step_baseline eps R W grp t ^ 2
    \<le> sum_list (map (\<lambda>j. W ! j ! t * (R ! j ! t - b) ^ 2) grp) + eps * b ^ 2"
proof -
  let ?n = "sum_list (map (\<lambda>j. R ! j ! t * W ! j ! t) grp)" and ?D = "sum_list (map (\<lambda>j. W ! j ! t) grp) + eps"
  have "0 \<le> sum_list (map (\<lambda>j. W ! j ! t) grp)" using assms(2) by (intro sum_list_nonneg) auto
  then have "0 < ?D" using assms(1) by simp
  from quadratic_minimum[OF this, of ?n b] show ?thesis
    unfolding weighted_square_sum step_baseline_def by (simp add: algebra_simps)
qed

lemma cumsum_nonneg: "0 \<le> acc \<Longrightarrow> \<forall>x \<in> set xs. 0 \<le> x \<Longrightarrow> \<forall>y \<in> set (cumsum acc xs). 0 \<le> y"
proof (induction xs arbitrary: acc)
  case (Cons x xs)
  then have "0 \<le> acc + x" by simp
  from Cons.IH[OF this] Cons.prems show ?case by simp
qed simp

definition entrywise :: "(real \<Rightarrow> real \<Rightarrow> bool) \<Rightarrow> matrix \<Rightarrow> matrix \<Rightarrow> bool" where
  "entrywise P a b \<longleftrightarrow> (\<forall>(x, y) \<in> set (zip a b). \<forall>(u, v) \<in> set (zip x y). P u v)"

lemma w_per_timestep_nonneg:
  assumes "entrywise (\<lambda>l s. exp l ^ 2 \<le> s) old spi" and "row \<in> set (w_per_timestep old spi None)" and "x \<in> set row"
  shows "0 \<le> x"
proof -
  obtain l s where x: "x = 1 - 2 * exp l + s" and s: "exp l ^ 2 \<le> s"
    using assms by (fastforce simp: w_per_timestep_def mzip_def entrywise_def)
  have "0 \<le> (1 - exp l) ^ 2" by simp
  also have "\<dots> = 1 - 2 * exp l + exp l ^ 2" by (simp add: power2_eq_square algebra_simps)
  finally show ?thesis using x s by simp
qed

lemma w_cumulative_nonneg:
  assumes "entrywise (\<lambda>l s. exp l ^ 2 \<le> s) old spi" and "binary m" and "row \<in> set (w_cumulative old spi m None)"
  shows "\<forall>y \<in> set row. 0 \<le> y"
proof -
  obtain a b where ab: "a \<in> set (w_per_timestep old spi None)" "b \<in> set m" "row = cumsum 0 (map2 (*) a b)"
    using assms(3) by (auto simp: w_cumulative_def mzip_def dest: set_zip_leftD set_zip_rightD)
  have "\<forall>x \<in> set (map2 (*) a b). 0 \<le> x"
  proof
    fix x assume "x \<in> set (map2 (*) a b)"
    then obtain u v where uv: "(u, v) \<in> set (zip a b)" "x = u * v" by auto
    then have "0 \<le> u" "v = 0 \<or> v = 1"
      using w_per_timestep_nonneg[OF assms(1) ab(1)] assms(2) ab(2) unfolding binary_def by (auto dest: set_zip_leftD set_zip_rightD)
    then show "0 \<le> x" using uv(2) by auto
  qed
  then show ?thesis unfolding ab(3) by (intro cumsum_nonneg) simp_all
qed

text \<open>
  For a prompt with several responses the optimal token baseline subtracts, at every trained token, one number per step, and
  this number minimises the squared error of the returns weighted by the accumulated path variance (with the small \<open>epsilon\<close> as
  a penalty on its size); the weights are not negative since the sum of squared probabilities is at least that of the token.
\<close>

theorem token_baseline_optimal:
  assumes run: "compute_optimal_token_baseline_advantage rewards response_mask index old_log_probs sum_pi_squared None False eps = Inr (adv, returns)"
    and shapes: "shapes_equal rewards response_mask" "shapes_equal old_log_probs response_mask" "shapes_equal sum_pi_squared response_mask"
    and "0 < eps" and pi: "entrywise (\<lambda>l s. exp l ^ 2 \<le> s) old_log_probs sum_pi_squared" and bin: "binary response_mask"
    and i: "i < length response_mask" and t: "t < row_width rewards" "\<forall>row \<in> set response_mask. length row = row_width rewards"
    and grp: "grp = positions_of index (length response_mask) (index ! i)" "length grp \<noteq> 1"
    and W: "W = mzip (*) (w_cumulative old_log_probs sum_pi_squared response_mask None) response_mask"
  shows "\<exists>b. adv ! i ! t = (returns ! i ! t - b) * response_mask ! i ! t \<and>
    (\<forall>c. sum_list (map (\<lambda>j. W ! j ! t * (returns ! j ! t - b) ^ 2) grp) + eps * b ^ 2
       \<le> sum_list (map (\<lambda>j. W ! j ! t * (returns ! j ! t - c) ^ 2) grp) + eps * c ^ 2)"
proof -
  let ?R = "token_returns rewards response_mask" and ?T = "row_width rewards" and ?n = "length response_mask"
  have n: "length rewards = ?n" by (rule shapes_of(1)[OF shapes(1)])
  let ?B = "map (\<lambda>i. row_baseline False eps ?T ?R W (row_lengths response_mask) (positions_of index ?n (index ! i)) i) [0..<?n]"
  have out: "adv = mzip (*) (mzip (-) ?R ?B) response_mask" "returns = ?R"
    using run unfolding compute_optimal_token_baseline_advantage_def Let_def n W[symmetric] by (auto split: if_splits)
  note R = returns_shape[OF shapes(1)] and Wc = w_cumulative_shape[OF shapes(2,3), of None, simplified]
  have len: "length (response_mask ! i) = ?T" "length (?R ! i) = ?T" "length (?R) = ?n"
    using t(2) nth_mem[OF i] shapes_of[OF R] i by auto
  have "?B ! i ! t = step_baseline eps ?R W grp t"
    using i t(1) grp(2) by (simp add: row_baseline_def grp(1)[symmetric])
  then have adv: "adv ! i ! t = (returns ! i ! t - step_baseline eps ?R W grp t) * response_mask ! i ! t"
    unfolding out using i t(1) len by (simp add: mzip_def row_baseline_length)
  have "0 \<le> W ! j ! t" if "j \<in> set grp" for j
  proof -
    have j: "j < ?n" using that by (simp add: grp(1) positions_of_def)
    let ?w = "w_cumulative old_log_probs sum_pi_squared response_mask None"
    have l: "length (?w ! j) = ?T" "length (response_mask ! j) = ?T" "length ?w = ?n"
      using shapes_of[OF Wc] j t(2) nth_mem[OF j] by auto
    have "0 \<le> ?w ! j ! t" using w_cumulative_nonneg[OF pi bin, of "?w ! j"] j l t(1) by simp
    moreover have "0 \<le> response_mask ! j ! t"
      using bin nth_mem[OF j] nth_mem[of t "response_mask ! j"] l t(1) unfolding binary_def by fastforce
    ultimately show ?thesis unfolding W using j l t(1) by (simp add: mzip_nth)
  qed
  note opt = step_baseline_minimises[OF assms(5), where grp = grp and W = W and t = t and R = ?R, OF this]
  show ?thesis using adv opt unfolding out(2) by blast
qed

section \<open>Pass@k rewards the best response only\<close>

definition sorted_topk :: "(nat \<Rightarrow> real list \<Rightarrow> nat list) \<Rightarrow> bool" where
  "sorted_topk topk \<longleftrightarrow> topk_source topk \<and> (\<forall>k xs. k \<le> length xs \<longrightarrow> sorted_wrt (\<lambda>i j. xs ! j \<le> xs ! i) (topk k xs))"

lemma top_two:
  assumes "sorted_topk topk" and "2 \<le> length xs"
  obtains a b where "topk 2 xs = [a, b]" "a \<noteq> b" "a < length xs" "b < length xs" "xs ! b \<le> xs ! a"
    "\<And>j. j < length xs \<Longrightarrow> j \<noteq> a \<Longrightarrow> xs ! j \<le> xs ! b"
proof -
  have t: "distinct (topk 2 xs)" "length (topk 2 xs) = 2" "sorted_wrt (\<lambda>i j. xs ! j \<le> xs ! i) (topk 2 xs)"
      "\<And>i. i \<in> set (topk 2 xs) \<Longrightarrow> i < length xs"
      "\<And>i j. i \<in> set (topk 2 xs) \<Longrightarrow> j < length xs \<Longrightarrow> j \<notin> set (topk 2 xs) \<Longrightarrow> xs ! j \<le> xs ! i"
    using assms unfolding sorted_topk_def topk_source_def by blast+
  obtain a b where ab: "topk 2 xs = [a, b]" using t(2) by (auto simp: numeral_2_eq_2 length_Suc_conv)
  have "xs ! j \<le> xs ! b" if "j < length xs" "j \<noteq> a" for j
    using t(5)[of b j] that ab by (cases "j = b") auto
  then show ?thesis using that[of a b] t ab by auto
qed

lemma passk_group_best:
  assumes law: "sorted_topk topk" and run: "passk_group topk nrm eps scores indices = Inr (best, a)" and dist: "distinct indices"
  shows "best \<in> set indices \<and> (\<forall>j \<in> set indices. scores ! j \<le> scores ! best) \<and>
    a = (scores ! best - Max ((!) scores ` (set indices - {best}))) / (if nrm then std_of (map ((!) scores) indices) + eps else 1)"
proof -
  let ?xs = "map ((!) scores) indices"
  have len: "2 \<le> length ?xs" using run by (auto simp: passk_group_def Let_def split: if_splits)
  obtain p q where pq: "topk 2 ?xs = [p, q]" "p \<noteq> q" "p < length indices" "q < length indices" "?xs ! q \<le> ?xs ! p"
      and top: "\<And>j. j < length indices \<Longrightarrow> j \<noteq> p \<Longrightarrow> ?xs ! j \<le> ?xs ! q"
    using top_two[OF law len] by auto
  have out: "best = indices ! p" "a = (?xs ! p - ?xs ! q) / (if nrm then std_of ?xs + eps else 1)"
    using run len by (auto simp: passk_group_def Let_def pq(1))
  have second: "scores ! j \<le> scores ! (indices ! q)" if j: "j \<in> set indices" "j \<noteq> best" for j
  proof -
    obtain k where k: "k < length indices" "j = indices ! k" using j(1) by (auto simp: in_set_conv_nth)
    then have "k \<noteq> p" using j(2) out(1) by blast
    from top[OF k(1) this] show ?thesis using k pq(4) by simp
  qed
  have q: "indices ! q \<in> set indices - {best}"
    using dist pq(2-4) by (auto simp: out(1) nth_eq_iff_index_eq)
  have "Max ((!) scores ` (set indices - {best})) = scores ! (indices ! q)"
    using q second by (intro Max_eqI) auto
  moreover have "scores ! j \<le> scores ! best" if "j \<in> set indices" for j
    using that second pq(3-5) by (cases "j = best") (force simp: out(1))+
  ultimately show ?thesis using pq(3,4) by (simp add: out)
qed

lemma fold_res_rewards:
  assumes "fold_res (\<lambda>adv g. bind_res (f g) (\<lambda>(i, a). Inr (adv[i := a]))) adv0 gs = Inr adv" and "distinct gs"
    and "\<And>g p. g \<in> set gs \<Longrightarrow> f g = Inr p \<Longrightarrow> fst p < length adv0 \<and> label (fst p) = g"
  shows "length adv = length adv0 \<and> (\<forall>g \<in> set gs. \<exists>i a. f g = Inr (i, a) \<and> adv ! i = a \<and> (\<forall>j. label j = g \<longrightarrow> j \<noteq> i \<longrightarrow> adv ! j = adv0 ! j)) \<and>
    (\<forall>j. label j \<notin> set gs \<longrightarrow> adv ! j = adv0 ! j)"
  using assms
proof (induction gs arbitrary: adv0)
  case (Cons g gs)
  obtain i a where g: "f g = Inr (i, a)" and rest: "fold_res (\<lambda>adv g. bind_res (f g) (\<lambda>(i, a). Inr (adv[i := a]))) (adv0[i := a]) gs = Inr adv"
    using Cons.prems(1) by (auto simp: bind_res_Inr_iff)
  have i: "i < length adv0" "label i = g" using Cons.prems(3)[of g "(i, a)"] g by auto
  have "length adv = length (adv0[i := a]) \<and>
      (\<forall>g \<in> set gs. \<exists>k b. f g = Inr (k, b) \<and> adv ! k = b \<and> (\<forall>j. label j = g \<longrightarrow> j \<noteq> k \<longrightarrow> adv ! j = adv0[i := a] ! j)) \<and>
      (\<forall>j. label j \<notin> set gs \<longrightarrow> adv ! j = adv0[i := a] ! j)"
    using Cons.prems by (intro Cons.IH[OF rest]) auto
  then show ?case using Cons.prems(2) g i by (auto simp: nth_list_update)
qed simp

text \<open>
  Under Pass@k only the best response of a prompt gets an advantage, its lead over the second best (over the deviation of the
  group when normalised); all other responses of the prompt get zero.
\<close>

theorem passk_rewards_best:
  assumes run: "compute_grpo_passk_outcome_advantage topk rewards response_mask index eps nrm = Inr (out, out')"
    and law: "sorted_topk topk" and g: "g \<in> set (take (length rewards) index)"
    and grp: "grp = positions_of index (length rewards) g" and scores: "scores = row_sums rewards"
  shows "\<exists>adv best. out = spread adv response_mask \<and> out' = out \<and> best \<in> set grp \<and> (\<forall>j \<in> set grp. scores ! j \<le> scores ! best) \<and>
    adv ! best = (scores ! best - Max ((!) scores ` (set grp - {best}))) / (if nrm then std_of (map ((!) scores) grp) + eps else 1) \<and>
    (\<forall>j \<in> set grp - {best}. adv ! j = 0)"
proof -
  let ?n = "length rewards" and ?gs = "map fst (group_scores index scores)"
  have n: "length scores = ?n" by (simp add: scores row_sums_def)
  let ?f = "\<lambda>g. passk_group topk nrm eps scores (positions_of index ?n g)"
  obtain adv where fold: "fold_res (\<lambda>adv g. bind_res (?f g) (\<lambda>(i, a). Inr (adv[i := a]))) (replicate ?n 0) ?gs = Inr adv"
      and out: "out = spread adv response_mask" "out' = out"
    using run unfolding compute_grpo_passk_outcome_advantage_def Let_def scores[symmetric] n by (auto simp: bind_res_Inr_iff split: if_splits)
  have dist: "distinct ?gs" unfolding group_scores_def by (rule group_scores_keys) simp
  have pos: "distinct (positions_of index ?n h)" for h by (simp add: positions_of_def)
  have best: "fst p < length (replicate ?n (0 :: real)) \<and> index ! fst p = h" if "?f h = Inr p" for h p
    using passk_group_best[OF law _ pos, of nrm eps scores h "fst p" "snd p"] that by (simp add: positions_of_def)
  note r = fold_res_rewards[OF fold dist, of "\<lambda>i. index ! i", OF best]
  have "members index scores g \<noteq> []"
  proof -
    have "fst ` set (zip index scores) = set (map fst (zip index scores))" by simp
    also have "\<dots> = set (take (length scores) index)" unfolding map_fst_zip_take by (simp add: min_def)
    finally show ?thesis using g n by (simp add: members_zip_empty_iff)
  qed
  then have "g \<in> set ?gs"
    using group_scores_lookup[of index scores g] by (force dest!: map_of_SomeD split: if_splits)
  then obtain i a where ia: "?f g = Inr (i, a)" "adv ! i = a" "\<forall>j. index ! j = g \<longrightarrow> j \<noteq> i \<longrightarrow> adv ! j = replicate ?n 0 ! j"
    using r by blast
  have "\<forall>j \<in> set grp - {i}. adv ! j = 0" using ia(3) by (auto simp: grp positions_of_def)
  then show ?thesis using passk_group_best[OF law ia(1) pos] ia(2) out unfolding grp by blast
qed

section \<open>Witnesses\<close>

theorem multi_turn_baseline_is_single_witness:
  "compute_multi_turn_optimal_token_baseline_advantage [[1, 1], [0, 0], [0, 0]] [[1, 1], [1, 0], [0, 0]] ''aab'' [[0, 0], [0, 0], [0, 0]]
      [[1, 1], [1, 1], [0, 0]] None True 1 =
   compute_optimal_token_baseline_advantage [[1, 1], [0, 0], [0, 0]] [[1, 1], [1, 0], [0, 0]] ''aab'' [[0, 0], [0, 0], [0, 0]]
      [[1, 1], [1, 1], [0, 0]] None True 1"
proof (rule multi_turn_baseline_is_single)
  have "prefix_row 2 0 = [0, 0]" "prefix_row 2 1 = [1, 0]" "prefix_row 2 2 = [1, 1]"
    by (simp_all add: prefix_row_def numeral_2_eq_2)
  then show "one_turn 2 [[1, 1], [1, 0], [0, 0]]"
    unfolding one_turn_def by (metis empty_iff empty_set le_refl one_le_numeral set_ConsD zero_le)
qed (simp_all add: row_width_def shapes_equal_def)

theorem token_baseline_optimal_witness:
  "\<exists>adv returns b. compute_optimal_token_baseline_advantage [[1], [0]] [[1], [1]] ''aa'' [[0], [0]] [[1], [1]] None False 1 = Inr (adv, returns) \<and>
    adv ! 0 ! 0 = returns ! 0 ! 0 - b"
proof -
  obtain adv returns where r: "compute_optimal_token_baseline_advantage [[1], [0]] [[1], [1]] ''aa'' [[0], [0]] [[1], [1]] None False 1 = Inr (adv, returns)"
    by (simp add: compute_optimal_token_baseline_advantage_def Let_def)
  have grp: "length (positions_of ''aa'' 2 (CHR ''a'')) \<noteq> 1" by (simp add: positions_of_def upt_rec)
  have "\<exists>b. adv ! 0 ! 0 = (returns ! 0 ! 0 - b) * [[1 :: real], [1]] ! 0 ! 0"
    using token_baseline_optimal[OF r, where i = 0 and t = 0, OF _ _ _ _ _ _ _ _ _ refl _ refl] grp
    by (force simp: shapes_equal_def entrywise_def binary_def row_width_def numeral_2_eq_2)
  then show ?thesis using r by auto
qed

lemma stable_topk_sorted: "sorted_topk stable_topk"
proof -
  have "sorted_wrt (\<lambda>i j. xs ! j \<le> xs ! i) (stable_topk k xs)" for k and xs :: "real list"
  proof -
    have "sorted (map (\<lambda>i. - xs ! i) (sort_key (\<lambda>i. - xs ! i) [0..<length xs]))" by (rule sorted_sort_key)
    then have "sorted_wrt (\<lambda>i j. xs ! j \<le> xs ! i) (sort_key (\<lambda>i. - xs ! i) [0..<length xs])"
      by (simp add: sorted_map)
    then show ?thesis unfolding stable_topk_def by (rule sorted_wrt_take)
  qed
  then show ?thesis using stable_topk_source by (simp add: sorted_topk_def)
qed

theorem passk_rewards_best_witness:
  "\<exists>out adv best. compute_grpo_passk_outcome_advantage stable_topk [[3], [1]] [[1], [1]] ''aa'' (1 / 10) False = Inr (out, out) \<and>
    out = spread adv [[1], [1]] \<and> adv ! best = 2 \<and> best < (2 :: nat)"
proof -
  have gs: "map fst (group_scores ''aa'' (row_sums [[3], [1]])) = ''a''"
    by (simp add: group_scores_def row_sums_def)
  obtain out where r: "compute_grpo_passk_outcome_advantage stable_topk [[3], [1]] [[1], [1]] ''aa'' (1 / 10) False = Inr (out, out)"
    unfolding compute_grpo_passk_outcome_advantage_def Let_def gs
    by (simp add: passk_group_def positions_of_def row_sums_def upt_rec Let_def)
  have scores: "row_sums [[3], [1]] = [3, 1 :: real]" by (simp add: row_sums_def)
  have grp: "positions_of ''aa'' (length [[3 :: real], [1]]) (CHR ''a'') = [0, 1]" by (simp add: positions_of_def upt_rec)
  from passk_rewards_best[OF r stable_topk_sorted, of "CHR ''a''", OF _ grp[symmetric] scores[symmetric]] obtain adv best where
    "out = spread adv [[1], [1]]" "best \<in> {0, 1 :: nat}" "[3, 1 :: real] ! 0 \<le> [3, 1] ! best" "[3, 1 :: real] ! 1 \<le> [3, 1] ! best"
    "adv ! best = [3, 1] ! best - Max ((!) [3, 1] ` ({0, 1} - {best}))"
    by (auto simp del: One_nat_def)
  moreover from this have "best = 0" by auto
  moreover have "{0, 1} - {0} = {1 :: nat}" by auto
  ultimately show ?thesis using r by (intro exI[of _ out] exI[of _ adv] exI[of _ best]) auto
qed

end
