(* ===== verification/ToolAgent.thy ===== *)
theory ToolAgent
  imports AgentLoop
begin

text \<open>
  The agent that calls tools, \<open>src/verl_new/verl/experimental/agent_loop/tool_agent_loop.py\<close>: the state machine of a trajectory, in
  which generation and the answers of tools alternate, and the call of one tool with its resources.  The server, the parser of
  tool calls, the chat template, the tokenizer and the tools are arguments; what they answer may depend on the turn.
\<close>

section \<open>Calling a tool\<close>

record function_call =
  fc_name :: str
  fc_arguments :: str

text \<open>The images of an answer (\<open>None\<close> entries are skipped later), and whether it has a video.\<close>

record 'm tool_response =
  tr_text :: "str option"
  tr_images :: "'m option list"
  tr_video :: bool

text \<open>A stateless function, or a tool that is created, executed and released; what runs may raise.\<close>

datatype ('a, 'm) tool =
    Function_tool "'a \<Rightarrow> ('m tool_response \<times> real option) result"
  | Base_tool "str result" "str \<Rightarrow> 'a \<Rightarrow> ('m tool_response \<times> real option) result" "str \<Rightarrow> unit result"

datatype tool_event = Created str | Released str

record 'a tool_texts =
  tx_loads :: "str \<Rightarrow> 'a option"
  tx_unknown :: "str \<Rightarrow> str list \<Rightarrow> str"
  tx_invalid :: "str \<Rightarrow> str"
  tx_error :: "str \<Rightarrow> py_error \<Rightarrow> str"
  tx_limit :: nat
  tx_side :: str

definition text_response :: "str \<Rightarrow> 'm tool_response" where
  "text_response s = \<lparr> tr_text = Some s, tr_images = [], tr_video = False \<rparr>"

definition truncate_text :: "nat \<Rightarrow> str \<Rightarrow> str \<Rightarrow> str" where
  "truncate_text n side s =
     (if n < length s
      then if side = ''left'' then ''(truncated)...'' @ py_slice s (Some (- int n)) None
           else if side = ''right'' then py_slice s None (Some (int n)) @ ''...(truncated)''
           else py_slice s None (Some (int (n div 2))) @ ''...(truncated)...'' @ py_slice s (Some (- int (n div 2))) None
      else s)"

definition truncate_response :: "nat \<Rightarrow> str \<Rightarrow> 'm tool_response \<Rightarrow> 'm tool_response" where
  "truncate_response n side r = r\<lparr> tr_text := map_option (truncate_text n side) (tr_text r) \<rparr>"

text \<open>
  The call with its log of created and released instances.  The \<open>finally\<close> clause releases an instance whose id is not empty, and an
  exception there leaves the function.
\<close>

definition release_instance :: "('a, 'm) tool \<Rightarrow> str option \<Rightarrow> tool_event list \<times> unit result" where
  "release_instance t inst =
     (case (t, inst) of
        (Base_tool _ _ rel, Some i) \<Rightarrow> if i = [] then ([], Inr ()) else ([Released i], rel i)
      | _ \<Rightarrow> ([], Inr ()))"

definition run_tool :: "('a, 'm) tool \<Rightarrow> 'a \<Rightarrow> tool_event list \<times> str option \<times> ('m tool_response \<times> real option) result" where
  "run_tool t args =
     (case t of
        Function_tool f \<Rightarrow> ([], None, f args)
      | Base_tool create exec rel \<Rightarrow>
          (case create of
             Inl e \<Rightarrow> ([], None, Inl e)
           | Inr i \<Rightarrow> ([Created i], Some i, exec i args)))"

definition call_tool ::
  "'a tool_texts \<Rightarrow> (str, ('a, 'm) tool) dict \<Rightarrow> function_call \<Rightarrow> tool_event list \<times> ('m tool_response \<times> real option) result" where
  "call_tool tx active_tools tool_call =
     (case map_of active_tools (fc_name tool_call) of
        None \<Rightarrow> ([], Inr (text_response (tx_unknown tx (fc_name tool_call) (dict_keys active_tools)), Some 0))
      | Some t \<Rightarrow>
          (case tx_loads tx (fc_arguments tool_call) of
             None \<Rightarrow> ([], Inr (text_response (tx_invalid tx (fc_name tool_call)), Some 0))
           | Some args \<Rightarrow>
               (case run_tool t args of (created, inst, r) \<Rightarrow>
                  (case release_instance t inst of (released, done) \<Rightarrow>
                     (created @ released,
                      bind_res done (\<lambda>_. case r of
                          Inl e \<Rightarrow> Inr (text_response (tx_error tx (fc_name tool_call) e), Some 0)
                        | Inr (resp, reward) \<Rightarrow> Inr (truncate_response (tx_limit tx) (tx_side tx) resp, reward)))))))"

section \<open>The trajectory\<close>

datatype agent_state = PENDING | GENERATING | PROCESSING_TOOLS | TERMINATED

text \<open>The message of a tool: text, or parts with an image and perhaps a text.\<close>

datatype content = Text str | Parts "str option"

record 'm agent_data =
  ad_messages :: "content list"
  ad_images :: "'m list option"
  ad_prompt_ids :: "int list"
  ad_response_ids :: "int list"
  ad_response_mask :: "int list"
  ad_response_logprobs :: "int list"
  ad_tool_rewards :: "real list"
  ad_user_turns :: nat
  ad_assistant_turns :: nat
  ad_tool_calls :: "function_call list"
  ad_num_preempted :: "int option"
  ad_extra_set :: bool
  ad_min_steps :: "int option"
  ad_max_steps :: "int option"

text \<open>
  The environment of a trajectory; \<open>ev_template\<close> includes the cap of the prompt length.  Limits of zero are no limits.
\<close>

record 'm agent_env =
  ev_generate :: "nat \<Rightarrow> int list \<Rightarrow> token_output result"
  ev_parse :: "int list \<Rightarrow> function_call list result"
  ev_call :: "nat \<Rightarrow> function_call \<Rightarrow> ('m tool_response \<times> real option) result"
  ev_template :: "content list \<Rightarrow> 'm list option \<Rightarrow> bool \<Rightarrow> int list result"
  ev_encode :: "str \<Rightarrow> int list"
  ev_repr :: "str option \<Rightarrow> str"
  ev_image_processor :: bool
  ev_format :: str
  ev_response_length :: nat
  ev_max_user_turns :: nat
  ev_max_assistant_turns :: nat
  ev_max_parallel_calls :: nat

definition initial_data :: "'m list option \<Rightarrow> 'm agent_data" where
  "initial_data images = \<lparr> ad_messages = [], ad_images = images, ad_prompt_ids = [], ad_response_ids = [], ad_response_mask = [],
     ad_response_logprobs = [], ad_tool_rewards = [], ad_user_turns = 0, ad_assistant_turns = 0, ad_tool_calls = [],
     ad_num_preempted = None, ad_extra_set = False, ad_min_steps = None, ad_max_steps = None \<rparr>"

text \<open>The request of the trajectory is fixed; its prompt is \<open>prompt\<close>, or the error of the template.\<close>

definition handle_pending_state :: "int list result \<Rightarrow> 'm agent_data \<Rightarrow> (agent_state \<times> 'm agent_data) result" where
  "handle_pending_state prompt ad = bind_res prompt (\<lambda>p. Inr (GENERATING, ad\<lparr> ad_prompt_ids := p \<rparr>))"

text \<open>The bookkeeping of one answer: the first sets the extra fields (a server always sends some), later ones move the last step only, unless
  it is zero.\<close>

definition record_steps :: "token_output \<Rightarrow> 'm agent_data \<Rightarrow> 'm agent_data" where
  "record_steps out ad =
     (let ad1 = ad\<lparr> ad_num_preempted := Some (case ad_num_preempted ad of
                      None \<Rightarrow> (case num_preempted out of None \<Rightarrow> - 1 | Some n \<Rightarrow> n)
                    | Some k \<Rightarrow> k + (case num_preempted out of None \<Rightarrow> 0 | Some n \<Rightarrow> n)) \<rparr>
      in if \<not> ad_extra_set ad1
         then ad1\<lparr> ad_extra_set := True,
                   ad_min_steps := min_global_steps out, ad_max_steps := max_global_steps out \<rparr>
         else (case max_global_steps out of
                 Some s \<Rightarrow> if s = 0 then ad1 else ad1\<lparr> ad_max_steps := Some s \<rparr>
               | None \<Rightarrow> ad1))"

definition add_response :: "token_output \<Rightarrow> 'm agent_data \<Rightarrow> 'm agent_data" where
  "add_response out ad =
     ad\<lparr> ad_assistant_turns := ad_assistant_turns ad + 1, ad_response_ids := token_ids out,
         ad_prompt_ids := ad_prompt_ids ad @ token_ids out,
         ad_response_mask := ad_response_mask ad @ replicate (length (token_ids out)) 1,
         ad_response_logprobs := (case log_probs out of
             Some l \<Rightarrow> if l \<noteq> [] then ad_response_logprobs ad @ l else ad_response_logprobs ad
           | None \<Rightarrow> ad_response_logprobs ad) \<rparr>"

definition handle_generating_state :: "'m agent_env \<Rightarrow> 'm agent_data \<Rightarrow> (agent_state \<times> 'm agent_data) result" where
  "handle_generating_state ev ad =
     bind_res (ev_generate ev (ad_assistant_turns ad) (ad_prompt_ids ad)) (\<lambda>out.
       let ad1 = add_response out (record_steps out ad)
       in if ev_response_length ev \<le> length (ad_response_mask ad1) then Inr (TERMINATED, ad1)
          else if ev_max_assistant_turns ev \<noteq> 0 \<and> ev_max_assistant_turns ev \<le> ad_assistant_turns ad1 then Inr (TERMINATED, ad1)
          else if ev_max_user_turns ev \<noteq> 0 \<and> ev_max_user_turns ev \<le> ad_user_turns ad1 then Inr (TERMINATED, ad1)
          else bind_res (ev_parse ev (ad_response_ids ad1)) (\<lambda>calls.
                 Inr (if calls \<noteq> [] then PROCESSING_TOOLS else TERMINATED, ad1\<lparr> ad_tool_calls := calls \<rparr>)))"

text \<open>One answer of a tool: its message, its images and its reward.\<close>

definition truthy_text :: "str option \<Rightarrow> bool" where
  "truthy_text t \<longleftrightarrow> (case t of None \<Rightarrow> False | Some s \<Rightarrow> s \<noteq> [])"

definition process_response ::
  "'m agent_env \<Rightarrow> content list \<times> 'm list \<times> real list \<Rightarrow> 'm tool_response \<times> real option \<Rightarrow> (content list \<times> 'm list \<times> real list) result" where
  "process_response ev st resp =
     (case (st, resp) of ((msgs, imgs, rewards), (r, reward)) \<Rightarrow>
        if (tr_images r \<noteq> [] \<or> tr_video r) \<and> \<not> ev_image_processor ev then Inl ValueError
        else if tr_video r then Inl NotImplementedError
        else Inr (msgs @ [if tr_images r \<noteq> [] then Parts (if truthy_text (tr_text r) then tr_text r else None)
                          else Text (case tr_text r of None \<Rightarrow> [] | Some s \<Rightarrow> s)],
                  imgs @ map the (filter (\<lambda>i. i \<noteq> None) (tr_images r)),
                  rewards @ (case reward of None \<Rightarrow> [] | Some x \<Rightarrow> [x])))"

fun content_text :: "content \<Rightarrow> str" where
  "content_text (Text s) = s"
| "content_text (Parts None) = []"
| "content_text (Parts (Some s)) = s"

definition gpt_oss_text :: "(str option \<Rightarrow> str) \<Rightarrow> content list \<Rightarrow> str list \<Rightarrow> str" where
  "gpt_oss_text repr msgs names =
     concat (map2 (\<lambda>m n. ''<|start|>functions.'' @ n @ '' to=assistant<|channel|>commentary<|message|>'' @
                         (case m of Text s \<Rightarrow> s | Parts t \<Rightarrow> repr t) @ ''<|end|>'') msgs names) @ ''<|start|>assistant''"

definition gemma_text :: "content list \<Rightarrow> str list \<Rightarrow> str" where
  "gemma_text msgs names =
     concat (map2 (\<lambda>m n. ''<|tool_response>response:'' @ n @ ''{value:<|\"|>'' @ content_text m @ ''<|\"|>}<tool_response|>'') msgs names)"

definition response_tokens :: "'m agent_env \<Rightarrow> content list \<Rightarrow> 'm list \<Rightarrow> str list \<Rightarrow> int list result" where
  "response_tokens ev msgs images names =
     (if ev_format ev = ''gpt-oss'' then Inr (ev_encode ev (gpt_oss_text (ev_repr ev) msgs names))
      else if ev_format ev = ''gemma4'' then Inr (ev_encode ev (gemma_text msgs names))
      else ev_template ev msgs (if images = [] then None else Some images) True)"

definition handle_processing_tools_state :: "'m agent_env \<Rightarrow> 'm agent_data \<Rightarrow> (agent_state \<times> 'm agent_data) result" where
  "handle_processing_tools_state ev ad =
     (let calls = take (ev_max_parallel_calls ev) (ad_tool_calls ad)
      in bind_res (map_res (ev_call ev (ad_assistant_turns ad)) calls) (\<lambda>responses.
         bind_res (fold_res (process_response ev) ([], [], []) responses) (\<lambda>(msgs, images, rewards).
         let ad1 = ad\<lparr> ad_tool_rewards := ad_tool_rewards ad @ rewards, ad_messages := ad_messages ad @ msgs \<rparr>
         in bind_res (response_tokens ev msgs images (map fc_name calls)) (\<lambda>ids.
              if ev_response_length ev \<le> length (ad_response_mask ad1) + length ids then Inr (TERMINATED, ad1)
              else Inr (GENERATING,
                ad1\<lparr> ad_images := (if images = [] then ad_images ad1
                                   else Some ((case ad_images ad1 of None \<Rightarrow> [] | Some is \<Rightarrow> is) @ images)),
                     ad_prompt_ids := ad_prompt_ids ad1 @ ids,
                     ad_response_mask := ad_response_mask ad1 @ replicate (length ids) 0,
                     ad_response_logprobs := (if ad_response_logprobs ad1 = [] then [] else ad_response_logprobs ad1 @ replicate (length ids) 0),
                     ad_user_turns := ad_user_turns ad1 + 1 \<rparr>)))))"

definition agent_step :: "'m agent_env \<Rightarrow> int list result \<Rightarrow> agent_state \<times> 'm agent_data \<Rightarrow> (agent_state \<times> 'm agent_data) result" where
  "agent_step ev prompt s =
     (case fst s of
        PENDING \<Rightarrow> handle_pending_state prompt (snd s)
      | GENERATING \<Rightarrow> handle_generating_state ev (snd s)
      | PROCESSING_TOOLS \<Rightarrow> handle_processing_tools_state ev (snd s)
      | TERMINATED \<Rightarrow> Inr s)"

text \<open>The loop with fuel; \<open>None\<close> means that it was too little.\<close>

fun agent_loop :: "nat \<Rightarrow> 'm agent_env \<Rightarrow> int list result \<Rightarrow> agent_state \<times> 'm agent_data \<Rightarrow> 'm agent_data result option" where
  "agent_loop fuel ev prompt (TERMINATED, ad) = Some (Inr ad)"
| "agent_loop 0 ev prompt s = None"
| "agent_loop (Suc fuel) ev prompt s = (case agent_step ev prompt s of Inl e \<Rightarrow> Some (Inl e) | Inr s' \<Rightarrow> agent_loop fuel ev prompt s')"

definition finalize :: "nat \<Rightarrow> 'm agent_data \<Rightarrow> agent_output" where
  "finalize response_len ad =
     \<lparr> ao_prompt_ids = py_slice (ad_prompt_ids ad) None (Some (int (length (ad_prompt_ids ad) - length (ad_response_mask ad)))),
       ao_response_ids = take response_len (py_slice (ad_prompt_ids ad) (Some (- int (length (ad_response_mask ad)))) None),
       ao_response_mask = take response_len (ad_response_mask ad),
       ao_response_logprobs = (if ad_response_logprobs ad = [] then None else Some (take response_len (ad_response_logprobs ad))),
       ao_num_turns = ad_user_turns ad + ad_assistant_turns ad + 1, ao_reward_score = None \<rparr>"

definition tool_agent_run :: "nat \<Rightarrow> 'm agent_env \<Rightarrow> int list result \<Rightarrow> 'm list option \<Rightarrow> agent_output result option" where
  "tool_agent_run fuel ev prompt images =
     map_option (\<lambda>r. bind_res r (\<lambda>ad. Inr (finalize (ev_response_length ev) ad))) (agent_loop fuel ev prompt (PENDING, initial_data images))"

section \<open>Runs of the loop\<close>

text \<open>The states of a trajectory whose prompt is \<open>prompt\<close>, as a step relation.\<close>

inductive agent_reach :: "'m agent_env \<Rightarrow> int list \<Rightarrow> 'm list option \<Rightarrow> agent_state \<times> 'm agent_data \<Rightarrow> bool"
  for ev prompt images where
    reach_start: "agent_reach ev prompt images (PENDING, initial_data images)"
  | reach_step: "agent_reach ev prompt images s \<Longrightarrow> agent_step ev (Inr prompt) s = Inr s' \<Longrightarrow> agent_reach ev prompt images s'"

lemma agent_loop_reaches:
  "agent_loop fuel ev (Inr prompt) s = Some (Inr ad) \<Longrightarrow> agent_reach ev prompt images s \<Longrightarrow> agent_reach ev prompt images (TERMINATED, ad)"
  by (induction fuel ev "Inr prompt :: int list result" s rule: agent_loop.induct) (auto split: sum.splits intro: reach_step)

lemma tool_agent_run_reaches:
  "tool_agent_run fuel ev (Inr prompt) images = Some (Inr out) \<Longrightarrow>
   \<exists>ad. agent_reach ev prompt images (TERMINATED, ad) \<and> out = finalize (ev_response_length ev) ad"
  using agent_loop_reaches[OF _ reach_start] by (fastforce simp: tool_agent_run_def bind_res_Inr_iff)

text \<open>What the two working states do, as the reasons for their outcomes.\<close>

lemma generating_cases:
  assumes "handle_generating_state ev ad = Inr (st, ad')"
  obtains out calls where "ev_generate ev (ad_assistant_turns ad) (ad_prompt_ids ad) = Inr out"
    and "ad' = add_response out (record_steps out ad)\<lparr> ad_tool_calls := calls \<rparr>"
    and "st = TERMINATED \<or> st = PROCESSING_TOOLS \<and> calls \<noteq> [] \<and> ev_parse ev (token_ids out) = Inr calls \<and>
      length (ad_response_mask ad') < ev_response_length ev \<and>
      (ev_max_assistant_turns ev = 0 \<or> ad_assistant_turns ad' < ev_max_assistant_turns ev) \<and>
      (ev_max_user_turns ev = 0 \<or> ad_user_turns ad' < ev_max_user_turns ev)"
proof -
  obtain out where out: "ev_generate ev (ad_assistant_turns ad) (ad_prompt_ids ad) = Inr out"
    using assms by (auto simp: handle_generating_state_def bind_res_Inr_iff)
  define ad1 where "ad1 = add_response out (record_steps out ad)"
  have ids: "ad_response_ids ad1 = token_ids out" by (simp add: ad1_def add_response_def)
  let ?stop = "ev_response_length ev \<le> length (ad_response_mask ad1) \<or>
    (ev_max_assistant_turns ev \<noteq> 0 \<and> ev_max_assistant_turns ev \<le> ad_assistant_turns ad1) \<or>
    (ev_max_user_turns ev \<noteq> 0 \<and> ev_max_user_turns ev \<le> ad_user_turns ad1)"
  have run: "handle_generating_state ev ad = (if ?stop then Inr (TERMINATED, ad1) else bind_res (ev_parse ev (token_ids out)) (\<lambda>calls.
      Inr (if calls \<noteq> [] then PROCESSING_TOOLS else TERMINATED, ad1\<lparr> ad_tool_calls := calls \<rparr>)))"
    by (simp add: handle_generating_state_def out Let_def ids flip: ad1_def)
  show thesis
  proof (cases ?stop)
    case True
    then have "st = TERMINATED" "ad' = ad1\<lparr> ad_tool_calls := ad_tool_calls ad1 \<rparr>" using assms unfolding run by auto
    then show ?thesis using that[OF out, of "ad_tool_calls ad1"] unfolding ad1_def by blast
  next
    case False
    then obtain calls where calls: "ev_parse ev (token_ids out) = Inr calls" "ad' = ad1\<lparr> ad_tool_calls := calls \<rparr>"
        "st = (if calls \<noteq> [] then PROCESSING_TOOLS else TERMINATED)"
      using assms unfolding run by (auto simp: bind_res_Inr_iff)
    then show ?thesis using False by (intro that[OF out, of calls]) (auto simp: ad1_def split: if_splits)
  qed
qed

lemma processing_cases:
  assumes "handle_processing_tools_state ev ad = Inr (st, ad')"
  obtains rewards msgs where "st = TERMINATED" "ad' = ad\<lparr> ad_tool_rewards := rewards, ad_messages := msgs \<rparr>"
    | rewards msgs images ids where "st = GENERATING" "length (ad_response_mask ad) + length ids < ev_response_length ev"
      "ad' = ad\<lparr> ad_tool_rewards := rewards, ad_messages := msgs, ad_images := images, ad_prompt_ids := ad_prompt_ids ad @ ids,
         ad_response_mask := ad_response_mask ad @ replicate (length ids) 0,
         ad_response_logprobs := (if ad_response_logprobs ad = [] then [] else ad_response_logprobs ad @ replicate (length ids) 0),
         ad_user_turns := ad_user_turns ad + 1 \<rparr>"
proof -
  obtain responses ms imgs rs ids where ids: "response_tokens ev ms imgs (map fc_name (take (ev_max_parallel_calls ev) (ad_tool_calls ad))) = Inr ids"
    and "fold_res (process_response ev) ([], [], []) responses = Inr (ms, imgs, rs)"
    and "map_res (ev_call ev (ad_assistant_turns ad)) (take (ev_max_parallel_calls ev) (ad_tool_calls ad)) = Inr responses"
    using assms by (auto simp: handle_processing_tools_state_def Let_def bind_res_Inr_iff)
  then have run: "handle_processing_tools_state ev ad =
     (if ev_response_length ev \<le> length (ad_response_mask ad) + length ids
      then Inr (TERMINATED, ad\<lparr> ad_tool_rewards := ad_tool_rewards ad @ rs, ad_messages := ad_messages ad @ ms \<rparr>)
      else Inr (GENERATING, ad\<lparr> ad_tool_rewards := ad_tool_rewards ad @ rs, ad_messages := ad_messages ad @ ms,
         ad_images := (if imgs = [] then ad_images ad else Some ((case ad_images ad of None \<Rightarrow> [] | Some is \<Rightarrow> is) @ imgs)),
         ad_prompt_ids := ad_prompt_ids ad @ ids, ad_response_mask := ad_response_mask ad @ replicate (length ids) 0,
         ad_response_logprobs := (if ad_response_logprobs ad = [] then [] else ad_response_logprobs ad @ replicate (length ids) 0),
         ad_user_turns := ad_user_turns ad + 1 \<rparr>))"
    by (simp add: handle_processing_tools_state_def Let_def)
  show thesis
  proof (cases "ev_response_length ev \<le> length (ad_response_mask ad) + length ids")
    case True
    then show ?thesis using assms unfolding run
      by (intro that(1)[where rewards = "ad_tool_rewards ad @ rs" and msgs = "ad_messages ad @ ms"]) simp_all
  next
    case False
    then show ?thesis using assms unfolding run 
      by (intro that(2)[where ids = ids and rewards = "ad_tool_rewards ad @ rs" and msgs = "ad_messages ad @ ms" and
            images = "if imgs = [] then ad_images ad else Some ((case ad_images ad of None \<Rightarrow> [] | Some is \<Rightarrow> is) @ imgs)"])
        (simp_all add: not_le)
  qed
qed

lemma bookkeeping [simp]:
  "ad_prompt_ids (record_steps out ad) = ad_prompt_ids ad" "ad_response_mask (record_steps out ad) = ad_response_mask ad"
  "ad_response_logprobs (record_steps out ad) = ad_response_logprobs ad" "ad_user_turns (record_steps out ad) = ad_user_turns ad"
  "ad_assistant_turns (record_steps out ad) = ad_assistant_turns ad"
  by (auto simp: record_steps_def Let_def split: option.splits)

section \<open>Every trained token was sampled\<close>

text \<open>An answer has a log-probability for every token, and a parser finds no calls in an empty answer.\<close>

definition answers_logged :: "'m agent_env \<Rightarrow> bool" where
  "answers_logged ev \<longleftrightarrow> (\<forall>turn p out. ev_generate ev turn p = Inr out \<longrightarrow>
     length (case log_probs out of None \<Rightarrow> [] | Some l \<Rightarrow> l) = length (token_ids out))"

definition no_calls_in_nothing :: "'m agent_env \<Rightarrow> bool" where
  "no_calls_in_nothing ev \<longleftrightarrow> (\<forall>calls. ev_parse ev [] = Inr calls \<longrightarrow> calls = [])"

definition sampled_at :: "'m agent_env \<Rightarrow> int list \<Rightarrow> int list \<Rightarrow> int list \<Rightarrow> nat \<Rightarrow> bool" where
  "sampled_at ev prompt resp lps i \<longleftrightarrow> (\<exists>turn j out l. j \<le> i \<and> i < j + length (token_ids out) \<and>
     ev_generate ev turn (prompt @ take j resp) = Inr out \<and> resp ! i = token_ids out ! (i - j) \<and>
     log_probs out = Some l \<and> lps ! i = l ! (i - j))"

definition sampled_trajectory :: "'m agent_env \<Rightarrow> int list \<Rightarrow> 'm agent_data \<Rightarrow> bool" where
  "sampled_trajectory ev prompt ad \<longleftrightarrow> (\<exists>resp. ad_prompt_ids ad = prompt @ resp \<and> length (ad_response_mask ad) = length resp \<and>
     length (ad_response_logprobs ad) = length resp \<and>
     (\<forall>i < length resp. ad_response_mask ad ! i = 0 \<or> ad_response_mask ad ! i = 1 \<and> sampled_at ev prompt resp (ad_response_logprobs ad) i))"

lemma sampled_at_append:
  "sampled_at ev prompt resp lps i \<Longrightarrow> i < length resp \<Longrightarrow> length lps = length resp \<Longrightarrow> sampled_at ev prompt (resp @ x) (lps @ y) i"
  unfolding sampled_at_def by (fastforce simp: nth_append)

lemma generated_sampled:
  assumes traj: "sampled_trajectory ev prompt ad" and law: "answers_logged ev"
    and gen: "ev_generate ev (ad_assistant_turns ad) (ad_prompt_ids ad) = Inr out"
  shows "sampled_trajectory ev prompt (add_response out (record_steps out ad)\<lparr> ad_tool_calls := calls \<rparr>)"
proof -
  obtain resp where r: "ad_prompt_ids ad = prompt @ resp" "length (ad_response_mask ad) = length resp"
      "length (ad_response_logprobs ad) = length resp"
      and old: "\<And>i. i < length resp \<Longrightarrow> ad_response_mask ad ! i = 0 \<or> ad_response_mask ad ! i = 1 \<and> sampled_at ev prompt resp (ad_response_logprobs ad) i"
    using traj by (auto simp: sampled_trajectory_def)
  define l where "l = (case log_probs out of None \<Rightarrow> [] | Some l \<Rightarrow> l)"
  have l: "length l = length (token_ids out)" using law gen by (auto simp: answers_logged_def l_def)
  have lps: "ad_response_logprobs (add_response out (record_steps out ad)) = ad_response_logprobs ad @ l"
    by (auto simp: add_response_def l_def split: option.splits)
  have new: "sampled_at ev prompt (resp @ token_ids out) (ad_response_logprobs ad @ l) i"
    if "length resp \<le> i" "i < length resp + length (token_ids out)" for i
  proof -
    have "log_probs out = Some l" using that l by (auto simp: l_def split: option.splits)
    then show ?thesis unfolding sampled_at_def using that gen r
      by (intro exI[of _ "ad_assistant_turns ad"] exI[of _ "length resp"] exI[of _ out] exI[of _ l]) (auto simp: nth_append)
  qed
  have "sampled_at ev prompt (resp @ token_ids out) (ad_response_logprobs ad @ l) i"
    if "i < length resp" "ad_response_mask ad ! i \<noteq> 0" for i
    using that old r by (auto intro: sampled_at_append)
  then have "\<forall>i < length (resp @ token_ids out). (ad_response_mask ad @ replicate (length (token_ids out)) 1) ! i = 0 \<or>
      (ad_response_mask ad @ replicate (length (token_ids out)) 1) ! i = 1 \<and>
      sampled_at ev prompt (resp @ token_ids out) (ad_response_logprobs ad @ l) i"
    using old new r by (auto simp: nth_append)
  then show ?thesis unfolding sampled_trajectory_def
    by (intro exI[of _ "resp @ token_ids out"]) (simp add: lps r l, simp add: add_response_def r)
qed

lemma tool_answer_sampled:
  assumes traj: "sampled_trajectory ev prompt ad" and "ad_response_mask ad \<noteq> []"
    and ad': "ad_prompt_ids ad' = ad_prompt_ids ad @ ids" "ad_response_mask ad' = ad_response_mask ad @ replicate (length ids) 0"
      "ad_response_logprobs ad' = (if ad_response_logprobs ad = [] then [] else ad_response_logprobs ad @ replicate (length ids) 0)"
  shows "sampled_trajectory ev prompt ad'"
proof -
  obtain resp where r: "ad_prompt_ids ad = prompt @ resp" "length (ad_response_mask ad) = length resp"
      "length (ad_response_logprobs ad) = length resp"
      and old: "\<And>i. i < length resp \<Longrightarrow> ad_response_mask ad ! i = 0 \<or> ad_response_mask ad ! i = 1 \<and> sampled_at ev prompt resp (ad_response_logprobs ad) i"
    using traj by (auto simp: sampled_trajectory_def)
  have lps: "ad_response_logprobs ad' = ad_response_logprobs ad @ replicate (length ids) 0" using ad'(3) r assms(2) by auto
  have "sampled_at ev prompt (resp @ ids) (ad_response_logprobs ad') i" if "i < length resp" "ad_response_mask ad ! i \<noteq> 0" for i
    unfolding lps using that old r by (auto intro: sampled_at_append)
  then show ?thesis unfolding sampled_trajectory_def using old
    by (intro exI[of _ "resp @ ids"]) (auto simp: ad'(1,2) lps r nth_append)
qed

definition agent_state_ok :: "'m agent_env \<Rightarrow> int list \<Rightarrow> agent_state \<times> 'm agent_data \<Rightarrow> bool" where
  "agent_state_ok ev prompt s \<longleftrightarrow>
     (case fst s of
        PENDING \<Rightarrow> \<exists>images. snd s = initial_data images
      | PROCESSING_TOOLS \<Rightarrow> sampled_trajectory ev prompt (snd s) \<and> ad_response_mask (snd s) \<noteq> []
      | _ \<Rightarrow> sampled_trajectory ev prompt (snd s))"

lemma agent_reach_ok:
  assumes laws: "answers_logged ev" "no_calls_in_nothing ev"
  shows "agent_reach ev prompt images s \<Longrightarrow> agent_state_ok ev prompt s"
proof (induction rule: agent_reach.induct)
  case reach_start
  show ?case by (auto simp: agent_state_ok_def)
next
  case (reach_step s s')
  obtain st ad st' ad' where s: "s = (st, ad)" "s' = (st', ad')" by (metis prod.exhaust)
  show ?case
  proof (cases st)
    case PENDING
    then obtain images where "ad = initial_data images" using reach_step.IH by (auto simp: agent_state_ok_def s)
    then have "ad' = (initial_data images)\<lparr> ad_prompt_ids := prompt \<rparr>" "st' = GENERATING"
      using reach_step.hyps(2) PENDING by (auto simp: agent_step_def handle_pending_state_def s)
    then show ?thesis by (simp add: agent_state_ok_def s sampled_trajectory_def initial_data_def)
  next
    case GENERATING
    then have run: "handle_generating_state ev ad = Inr (st', ad')" and ok: "sampled_trajectory ev prompt ad"
      using reach_step.hyps(2) reach_step.IH by (auto simp: agent_step_def agent_state_ok_def s)
    from generating_cases[OF run] obtain out calls where out: "ev_generate ev (ad_assistant_turns ad) (ad_prompt_ids ad) = Inr out"
      and ad': "ad' = add_response out (record_steps out ad)\<lparr> ad_tool_calls := calls \<rparr>"
      and st': "st' = TERMINATED \<or> st' = PROCESSING_TOOLS \<and> calls \<noteq> [] \<and> ev_parse ev (token_ids out) = Inr calls" by metis
    have "st' = PROCESSING_TOOLS \<Longrightarrow> token_ids out \<noteq> []" using st' laws(2) by (auto simp: no_calls_in_nothing_def)
    then have "st' = PROCESSING_TOOLS \<Longrightarrow> ad_response_mask ad' \<noteq> []" by (simp add: ad' add_response_def)
    then show ?thesis using generated_sampled[OF ok laws(1) out, of calls] st' by (auto simp: agent_state_ok_def s ad')
  next
    case PROCESSING_TOOLS
    then have run: "handle_processing_tools_state ev ad = Inr (st', ad')" and ok: "sampled_trajectory ev prompt ad" "ad_response_mask ad \<noteq> []"
      using reach_step.hyps(2) reach_step.IH by (auto simp: agent_step_def agent_state_ok_def s)
    from run show ?thesis
    proof (cases rule: processing_cases)
      case (1 rewards msgs)
      then show ?thesis using ok(1) by (simp add: agent_state_ok_def s sampled_trajectory_def)
    next
      case (2 rewards msgs images ids)
      have "sampled_trajectory ev prompt ad'" by (rule tool_answer_sampled[OF ok, where ids = ids]) (simp_all add: 2(3))
      then show ?thesis using 2(1) by (simp add: agent_state_ok_def s)
    qed
  next
    case TERMINATED
    then show ?thesis using reach_step by (simp add: agent_step_def s)
  qed
qed


section \<open>Turns and termination\<close>

definition turns_ok :: "'m agent_env \<Rightarrow> agent_state \<times> 'm agent_data \<Rightarrow> bool" where
  "turns_ok ev s \<longleftrightarrow>
     (let u = ad_user_turns (snd s); a = ad_assistant_turns (snd s); U = ev_max_user_turns ev; A = ev_max_assistant_turns ev
      in case fst s of
           PENDING \<Rightarrow> u = 0 \<and> a = 0
         | GENERATING \<Rightarrow> a = u \<and> (A = 0 \<or> a < A) \<and> (U = 0 \<or> u \<le> U)
         | PROCESSING_TOOLS \<Rightarrow> a = u + 1 \<and> (A = 0 \<or> a < A) \<and> (U = 0 \<or> u < U)
         | TERMINATED \<Rightarrow> a = u + 1 \<and> (A = 0 \<or> a \<le> A) \<and> (U = 0 \<or> u \<le> U))"

lemma agent_reach_turns: "agent_reach ev prompt images s \<Longrightarrow> turns_ok ev s"
proof (induction rule: agent_reach.induct)
  case reach_start
  show ?case by (simp add: turns_ok_def initial_data_def)
next
  case (reach_step s s')
  obtain st ad st' ad' where s: "s = (st, ad)" "s' = (st', ad')" by (metis prod.exhaust)
  show ?case
  proof (cases st)
    case PENDING
    then show ?thesis using reach_step.hyps(2) reach_step.IH by (auto simp: agent_step_def handle_pending_state_def s turns_ok_def Let_def)
  next
    case GENERATING
    then have "handle_generating_state ev ad = Inr (st', ad')" using reach_step.hyps(2) by (simp add: agent_step_def s)
    then show ?thesis
    proof (cases rule: generating_cases)
      case (1 out calls)
      have "ad_user_turns ad' = ad_user_turns ad" "ad_assistant_turns ad' = ad_assistant_turns ad + 1"
        by (simp_all add: 1(2) add_response_def)
      then show ?thesis using 1(3) reach_step.IH GENERATING by (auto simp: s turns_ok_def Let_def)
    qed
  next
    case PROCESSING_TOOLS
    then have "handle_processing_tools_state ev ad = Inr (st', ad')" using reach_step.hyps(2) by (simp add: agent_step_def s)
    then show ?thesis
      by (cases rule: processing_cases) (use reach_step.IH PROCESSING_TOOLS in \<open>auto simp: s turns_ok_def Let_def\<close>)
  next
    case TERMINATED
    then show ?thesis using reach_step by (simp add: agent_step_def s)
  qed
qed

text \<open>
  The number of turns of a trajectory is twice that of its answers (the prompt and every answer, a tool's reply between any two),
  and the answers respect the limits: at most the configured assistant turns, and at most one more than the configured user turns.
\<close>

theorem tool_turns_bounded:
  assumes "tool_agent_run fuel ev (Inr prompt) images = Some (Inr out)"
  shows "\<exists>answers. ao_num_turns out = 2 * answers \<and> 1 \<le> answers \<and>
    (ev_max_assistant_turns ev = 0 \<or> answers \<le> ev_max_assistant_turns ev) \<and>
    (ev_max_user_turns ev = 0 \<or> answers \<le> ev_max_user_turns ev + 1)"
proof -
  obtain ad where "agent_reach ev prompt images (TERMINATED, ad)" and out: "out = finalize (ev_response_length ev) ad"
    using tool_agent_run_reaches[OF assms] by blast
  then have "turns_ok ev (TERMINATED, ad)" using agent_reach_turns by blast
  then show ?thesis by (intro exI[of _ "ad_assistant_turns ad"]) (auto simp: out finalize_def turns_ok_def Let_def)
qed

definition steps_left :: "'m agent_env \<Rightarrow> agent_state \<times> 'm agent_data \<Rightarrow> nat" where
  "steps_left ev s = (let n = 2 * (ev_response_length ev - length (ad_response_mask (snd s)))
     in case fst s of GENERATING \<Rightarrow> n + 1 | TERMINATED \<Rightarrow> 0 | _ \<Rightarrow> n + 2)"

lemma agent_step_decreases:
  assumes law: "no_calls_in_nothing ev" and step: "agent_step ev prompt (st, ad) = Inr (st', ad')" and st: "st \<noteq> TERMINATED"
  shows "steps_left ev (st', ad') < steps_left ev (st, ad)"
proof (cases st)
  case PENDING
  then show ?thesis using step by (auto simp: agent_step_def handle_pending_state_def steps_left_def Let_def bind_res_Inr_iff)
next
  case GENERATING
  then have "handle_generating_state ev ad = Inr (st', ad')" using step by (simp add: agent_step_def)
  then show ?thesis
  proof (cases rule: generating_cases)
    case (1 out calls)
    have len: "length (ad_response_mask ad') = length (ad_response_mask ad) + length (token_ids out)" by (simp add: 1(2) add_response_def)
    show ?thesis
    proof (cases "st' = TERMINATED")
      case False
      define n where "n = length (token_ids out)"
      have "token_ids out \<noteq> []" using False 1(3) law by (auto simp: no_calls_in_nothing_def)
      then have "0 < n" by (simp add: n_def)
      moreover have "st' = PROCESSING_TOOLS" "length (ad_response_mask ad) + n < ev_response_length ev" using False 1(3) len by (auto simp: n_def)
      ultimately show ?thesis by (simp add: steps_left_def Let_def GENERATING len flip: n_def)
    qed (simp add: steps_left_def Let_def GENERATING)
  qed
next
  case PROCESSING_TOOLS
  then have "handle_processing_tools_state ev ad = Inr (st', ad')" using step by (simp add: agent_step_def)
  then show ?thesis by (cases rule: processing_cases) (use PROCESSING_TOOLS in \<open>auto simp: steps_left_def Let_def\<close>)
qed (use st in simp)

lemma agent_loop_returns: "no_calls_in_nothing ev \<Longrightarrow> steps_left ev (st, ad) \<le> fuel \<Longrightarrow> agent_loop fuel ev prompt (st, ad) \<noteq> None"
proof (induction fuel arbitrary: st ad)
  case 0
  then show ?case by (cases st) (auto simp: steps_left_def Let_def)
next
  case (Suc fuel)
  show ?case
  proof (cases "st = TERMINATED")
    case False
    have "agent_loop fuel ev prompt s' \<noteq> None" if "agent_step ev prompt (st, ad) = Inr s'" for s'
    proof -
      have "steps_left ev (fst s', snd s') < steps_left ev (st, ad)" using agent_step_decreases[OF Suc.prems(1) _ False, of prompt ad "fst s'" "snd s'"] that by simp
      then have "agent_loop fuel ev prompt (fst s', snd s') \<noteq> None" using Suc.IH[OF Suc.prems(1), of "fst s'" "snd s'"] Suc.prems(2) by linarith
      then show ?thesis by simp
    qed
    then show ?thesis using False by (cases st) (auto split: sum.splits)
  qed simp
qed

text \<open>
  C37: the state machine ends.  If a parser finds no tool call in an empty answer, every round adds a token, and twice the response
  length plus two steps are enough for a result or an error, also without limits on the turns.
\<close>

theorem tool_agent_terminates:
  assumes "no_calls_in_nothing ev"
  shows "\<exists>r. tool_agent_run (2 * ev_response_length ev + 2) ev prompt images = Some r"
proof -
  have "steps_left ev (PENDING, initial_data images) \<le> 2 * ev_response_length ev + 2" by (simp add: steps_left_def Let_def initial_data_def)
  from agent_loop_returns[OF assms this, of prompt] show ?thesis by (auto simp: tool_agent_run_def)
qed

section \<open>An empty answer\<close>

text \<open>
  When the first answer is empty, as for an aborted request, the slice from \<open>-0\<close> takes the whole prompt as the response, with an
  empty mask; the padding then fills the mask with the padding token, so the loss weights the copied prompt by that token's number.
\<close>

theorem empty_answer_trains_on_prompt:
  assumes gen: "ev_generate ev 0 prompt = Inr o1" and empty: "token_ids o1 = []" "\<not> truthy_list (log_probs o1)" and parse: "ev_parse ev [] = Inr []"
    and len: "prompt \<noteq> []" "length prompt \<le> P" "length prompt \<le> ev_response_length ev"
  shows "\<exists>out row. tool_agent_run 2 ev (Inr prompt) images = Some (Inr out) \<and>
    agent_loop_postprocess (Some pad) P (ev_response_length ev) None validate out = Inr row \<and>
    ao_prompt_ids out = prompt \<and> ao_response_ids out = prompt \<and> ao_response_mask out = [] \<and>
    po_response_mask row = replicate (length prompt) pad @ replicate (ev_response_length ev - length prompt) 0"
proof -
  let ?R = "ev_response_length ev"
  let ?ad0 = "(initial_data images)\<lparr> ad_prompt_ids := prompt \<rparr>"
  define ad1 where "ad1 = add_response o1 (record_steps o1 ?ad0)"
  have ad1: "ad_prompt_ids ad1 = prompt" "ad_response_mask ad1 = []" "ad_response_logprobs ad1 = []" "ad_response_ids ad1 = []"
    using empty(2) by (auto simp: ad1_def add_response_def empty(1) initial_data_def truthy_list_def split: option.splits)
  have "0 < ?R" using len by (cases prompt) auto
  have first: "ev_generate ev (ad_assistant_turns ?ad0) (ad_prompt_ids ?ad0) = Inr o1" using gen by (simp add: initial_data_def)
  have "handle_generating_state ev ?ad0 = Inr (TERMINATED, ad1) \<or> handle_generating_state ev ?ad0 = Inr (TERMINATED, ad1\<lparr> ad_tool_calls := [] \<rparr>)"
    using parse \<open>0 < ?R\<close> unfolding handle_generating_state_def first Let_def bind_res_simps ad1_def[symmetric] ad1 by simp
  then obtain ad where ad: "handle_generating_state ev ?ad0 = Inr (TERMINATED, ad)"
      "ad_prompt_ids ad = prompt" "ad_response_mask ad = []" "ad_response_logprobs ad = []"
    using ad1 by (elim disjE) simp_all
  have run: "tool_agent_run 2 ev (Inr prompt) images = Some (Inr (finalize ?R ad))"
    by (simp add: tool_agent_run_def numeral_2_eq_2 agent_step_def handle_pending_state_def ad(1))
  have out: "ao_prompt_ids (finalize ?R ad) = prompt" "ao_response_ids (finalize ?R ad) = prompt" "ao_response_mask (finalize ?R ad) = []"
    using len py_slice_upto[of prompt "length prompt"] py_slice_minus_zero[of prompt] by (simp_all add: finalize_def ad)
  obtain row where row: "agent_loop_postprocess (Some pad) P ?R None validate (finalize ?R ad) = Inr row"
      "po_response_mask row = map2 (*) (replicate ?R pad) (replicate (length prompt) 1 @ replicate (?R - length prompt) 0)"
    using len by (simp add: agent_loop_postprocess_def out pad_token_ids_ok pad_token_ids_def Let_def)
  have "replicate ?R pad = replicate (length prompt) pad @ replicate (?R - length prompt) pad"
    using len by (simp flip: replicate_add)
  then have "po_response_mask row = replicate (length prompt) pad @ replicate (?R - length prompt) 0"
    unfolding row(2) by (simp add: zip_append zip_replicate)
  then show ?thesis using run row(1) out by blast
qed

section \<open>Tools\<close>

text \<open>
  A tool instance that was created is released, once and last, whether its execution returns or raises (only an instance with an
  empty identifier is forgotten); and the only exception that leaves a tool call is one of the release itself, all others become the
  text of the answer.
\<close>

theorem tool_instances_released:
  assumes "call_tool tx tools c = (events, r)"
  shows "(events = [] \<or> (\<exists>i. i \<noteq> [] \<and> events = [Created i, Released i]) \<or> events = [Created []]) \<and>
    (\<forall>e. r = Inl e \<longrightarrow> (\<exists>create exec rel i. map_of tools (fc_name c) = Some (Base_tool create exec rel) \<and> create = Inr i \<and>
       events = [Created i, Released i] \<and> rel i = Inl e))"
  using assms
  by (auto simp: call_tool_def run_tool_def release_instance_def bind_res_Inl_iff split: option.splits tool.splits sum.splits if_splits prod.splits)

text \<open>
  The text of a tool's answer is cut to the limit and a note; below two characters the middle cut keeps nothing of the head but,
  by the slice from \<open>-0\<close>, all of the tail.
\<close>

theorem truncated_text_bounded:
  assumes "2 \<le> n"
  shows "length (truncate_text n side s) \<le> n + 17 \<and> (length s \<le> n \<longrightarrow> truncate_text n side s = s) \<and>
    (m < 2 \<and> m < length s \<longrightarrow> truncate_text m ''middle'' s = ''...(truncated)...'' @ s)"
proof (intro conjI impI)
  have "0 < n div 2" using assms by simp
  then show "length (truncate_text n side s) \<le> n + 17" using assms by (auto simp: truncate_text_def py_slice_upto py_slice_last)
  show "truncate_text n side s = s" if "length s \<le> n" using that by (simp add: truncate_text_def)
  show "truncate_text m ''middle'' s = ''...(truncated)...'' @ s" if "m < 2 \<and> m < length s"
    using that py_slice_minus_zero[of s] py_slice_upto[of s 0] by (simp add: truncate_text_def)
qed

section \<open>Witnesses\<close>

definition example_agent :: "unit agent_env" where
  "example_agent = \<lparr> ev_generate = (\<lambda>turn p. Inr (fresh_output\<lparr> token_ids := [7 + int turn], log_probs := Some [70 + int turn] \<rparr>)),
     ev_parse = (\<lambda>ids. Inr (if ids = [7] then [\<lparr> fc_name = ''f'', fc_arguments = ''1'' \<rparr>] else [])),
     ev_call = (\<lambda>_ _. Inr (text_response ''r'', None)), ev_template = (\<lambda>_ _ _. Inr [5]), ev_encode = (\<lambda>_. [5]), ev_repr = (\<lambda>_. []),
     ev_image_processor = False, ev_format = ''hermes'', ev_response_length = 4, ev_max_user_turns = 0, ev_max_assistant_turns = 2,
     ev_max_parallel_calls = 1 \<rparr>"

lemma example_agent_laws: "answers_logged example_agent" "no_calls_in_nothing example_agent"
  by (auto simp: answers_logged_def no_calls_in_nothing_def example_agent_def)

lemmas agent_eval = tool_agent_run_def agent_step_def handle_pending_state_def handle_generating_state_def handle_processing_tools_state_def
  add_response_def record_steps_def initial_data_def response_tokens_def process_response_def text_response_def truthy_text_def fresh_output_def
  example_agent_def Let_def eval_nat_numeral finalize_def py_slice_def slice_bound_def

lemma example_tool_run:
  "\<exists>out. tool_agent_run 10 example_agent (Inr [1, 2]) None = Some (Inr out) \<and> ao_response_ids out = [7, 5, 8] \<and> ao_response_mask out = [1, 0, 1]"
  by (simp add: agent_eval)


theorem tool_turns_bounded_witness:
  "\<exists>out. tool_agent_run 10 example_agent (Inr [1, 2]) None = Some (Inr out) \<and> ao_num_turns out \<le> 4"
proof -
  obtain out where "tool_agent_run 10 example_agent (Inr [1, 2]) None = Some (Inr out)" using example_tool_run by blast
  with tool_turns_bounded[OF this] show ?thesis by (auto simp: example_agent_def)
qed

theorem tool_agent_terminates_witness: "\<exists>r. tool_agent_run 10 example_agent (Inr [1, 2]) None = Some r"
  using tool_agent_terminates[OF example_agent_laws(2), of "Inr [1, 2]" None] by (simp add: example_agent_def)

theorem empty_answer_trains_on_prompt_witness:
  "\<exists>out row. tool_agent_run 2 (example_agent\<lparr> ev_generate := (\<lambda>_ _. Inr fresh_output) \<rparr>) (Inr [1, 2]) None = Some (Inr out) \<and>
    agent_loop_postprocess (Some 9) 3 4 None False out = Inr row \<and> po_response_mask row = [9, 9, 0, 0]"
proof -
  let ?ev = "example_agent\<lparr> ev_generate := (\<lambda>_ _. Inr fresh_output) \<rparr>"
  have "ev_generate ?ev 0 [1, 2] = Inr fresh_output" "ev_parse ?ev [] = Inr []" by (simp_all add: example_agent_def)
  from empty_answer_trains_on_prompt[OF this(1) _ _ this(2), where P = 3 and images = None and pad = 9 and validate = False] show ?thesis
    by (auto simp: fresh_output_def truthy_list_def example_agent_def numeral_2_eq_2)
qed

definition example_texts :: "unit tool_texts" where
  "example_texts = \<lparr> tx_loads = (\<lambda>_. Some ()), tx_unknown = (\<lambda>_ _. []), tx_invalid = (\<lambda>_. []), tx_error = (\<lambda>_ _. ''error''), tx_limit = 4,
     tx_side = ''left'' \<rparr>"

theorem tool_instances_released_witness:
  "\<exists>events r. call_tool example_texts [(''f'', Base_tool (Inr ''i'') (\<lambda>_ _. Inl ValueError) (\<lambda>_. Inr ()))]
      \<lparr> fc_name = ''f'', fc_arguments = ''1'' \<rparr> = (events, r :: (unit tool_response \<times> real option) result) \<and>
    events = [Created ''i'', Released ''i'']"
proof -
  let ?run = "call_tool example_texts [(''f'', Base_tool (Inr ''i'') (\<lambda>_ _. Inl ValueError) (\<lambda>_. Inr ()))]
      \<lparr> fc_name = ''f'', fc_arguments = ''1'' \<rparr> :: _ \<times> (unit tool_response \<times> real option) result"
  have "Created ''i'' \<in> set (fst ?run)" by (simp add: call_tool_def run_tool_def release_instance_def example_texts_def)
  moreover obtain events r where "?run = (events, r)" by fastforce
  ultimately show ?thesis using tool_instances_released[of _ _ _ events r] by fastforce
qed

theorem truncated_text_bounded_witness: "length (truncate_text 4 ''middle'' ''abcdefgh'') \<le> 21"
  using truncated_text_bounded[of 4 "''middle''" "''abcdefgh''" 0] by simp

end
