(* ===== verification/TrainerV1.thy ===== *)
theory TrainerV1
  imports ReplayBuffer
begin

text \<open>
  The loop of the trainers in \<open>src/verl_new/verl/trainer/ppo/v1\<close>: \<open>fit\<close> and \<open>step\<close> of \<open>trainer_base.py\<close> with the hooks of the
  synchronous, the colocated asynchronous and the separate asynchronous trainer.  The state is the step, the number of updates the policy has
  had, and which version of it the rollout servers have; every event is logged.  Losses, metrics and files are left out; a validation
  is an event.
\<close>

section \<open>State and events\<close>

datatype trainer_kind = Trainer_sync | Trainer_colocate_async | Trainer_separate_async

datatype engine_mode = Mode_trainer | Mode_rollout

text \<open>What serves a request: the version of the hybrid replicas (\<open>None\<close> while they sleep), of the standalone ones, and of the trainer.\<close>

record serving =
  sv_hybrid :: "nat option"
  sv_standalone :: nat
  sv_trainer :: nat

datatype v1_event =
    Add_batch int | Sampled int serving | Updated int | Saved int | Validated int serving

record v1_config =
  vc_kind :: trainer_kind
  vc_warmup :: nat
  vc_sync_step :: int
  vc_total_steps :: int
  vc_total_epochs :: int
  vc_loader_len :: int
  vc_save_freq :: int
  vc_test_freq :: int
  vc_critic_warmup :: int
  vc_val_before :: bool
  vc_val_only :: bool

record v1_state =
  v1_steps :: int
  v1_serving :: serving
  v1_mode :: engine_mode
  v1_log :: "v1_event list"

definition log_event :: "v1_event \<Rightarrow> v1_state \<Rightarrow> v1_state" where
  "log_event e s = s\<lparr> v1_log := v1_log s @ [e] \<rparr>"

section \<open>Weights and hooks\<close>

definition update_hybrid :: "v1_state \<Rightarrow> v1_state" where
  "update_hybrid s = s\<lparr> v1_serving := (v1_serving s)\<lparr> sv_hybrid := Some (sv_trainer (v1_serving s)) \<rparr> \<rparr>"

definition sleep_hybrid :: "v1_state \<Rightarrow> v1_state" where
  "sleep_hybrid s = s\<lparr> v1_serving := (v1_serving s)\<lparr> sv_hybrid := None \<rparr> \<rparr>"

definition update_standalone :: "v1_state \<Rightarrow> v1_state" where
  "update_standalone s = s\<lparr> v1_serving := (v1_serving s)\<lparr> sv_standalone := sv_trainer (v1_serving s) \<rparr> \<rparr>"

definition add_batch_to_generate :: "v1_state \<Rightarrow> v1_state" where
  "add_batch_to_generate s = log_event (Add_batch (v1_steps s)) s"

definition switch_to_rollout :: "v1_state \<Rightarrow> v1_state" where
  "switch_to_rollout s = (update_hybrid s)\<lparr> v1_mode := Mode_rollout \<rparr>"

definition switch_to_trainer :: "v1_state \<Rightarrow> v1_state" where
  "switch_to_trainer s = (sleep_hybrid s)\<lparr> v1_mode := Mode_trainer \<rparr>"

definition on_init_end :: "v1_config \<Rightarrow> v1_state \<Rightarrow> v1_state" where
  "on_init_end cfg s =
     (case vc_kind cfg of
        Trainer_sync \<Rightarrow> update_hybrid s
      | Trainer_colocate_async \<Rightarrow> update_hybrid s
      | Trainer_separate_async \<Rightarrow> update_hybrid (update_standalone s))"

definition on_train_begin :: "v1_config \<Rightarrow> v1_state \<Rightarrow> v1_state" where
  "on_train_begin cfg s = (if vc_kind cfg = Trainer_sync then s else (add_batch_to_generate ^^ vc_warmup cfg) s)"

definition on_validate_begin :: "v1_config \<Rightarrow> v1_state \<Rightarrow> v1_state" where
  "on_validate_begin cfg s =
     (if vc_kind cfg = Trainer_separate_async \<and> v1_mode s = Mode_trainer then switch_to_rollout s else s)"

text \<open>\<open>should_switch_to_rollout\<close> is not implemented and always \<open>False\<close>.\<close>

definition should_switch_to_rollout :: bool where
  "should_switch_to_rollout = False"

definition on_sample_begin :: "v1_config \<Rightarrow> v1_state \<Rightarrow> v1_state" where
  "on_sample_begin cfg s =
     (if vc_kind cfg = Trainer_separate_async \<and> v1_mode s = Mode_trainer \<and> should_switch_to_rollout then switch_to_rollout s else s)"

definition on_sample_end :: "v1_config \<Rightarrow> v1_state \<Rightarrow> v1_state" where
  "on_sample_end cfg s =
     (case vc_kind cfg of
        Trainer_sync \<Rightarrow> sleep_hybrid s
      | Trainer_colocate_async \<Rightarrow> sleep_hybrid s
      | Trainer_separate_async \<Rightarrow> if v1_mode s = Mode_rollout then switch_to_trainer s else s)"

definition on_step_end :: "v1_config \<Rightarrow> v1_state \<Rightarrow> v1_state" where
  "on_step_end cfg s =
     (case vc_kind cfg of
        Trainer_sync \<Rightarrow> update_hybrid s
      | Trainer_colocate_async \<Rightarrow> update_hybrid s
      | Trainer_separate_async \<Rightarrow> if v1_steps s mod vc_sync_step cfg = 0 then update_standalone s else s)"

section \<open>The loop\<close>

definition update_actor :: "v1_state \<Rightarrow> v1_state" where
  "update_actor s =
     log_event (Updated (v1_steps s)) (s\<lparr> v1_serving := (v1_serving s)\<lparr> sv_trainer := sv_trainer (v1_serving s) + 1 \<rparr> \<rparr>)"

definition v1_step :: "v1_config \<Rightarrow> v1_state \<Rightarrow> v1_state" where
  "v1_step cfg s =
     (let s1 = on_sample_begin cfg (add_batch_to_generate s);
          s2 = on_sample_end cfg (log_event (Sampled (v1_steps s1) (v1_serving s1)) s1)
      in if vc_critic_warmup cfg \<le> v1_steps s2 then update_actor s2 else s2)"

definition due :: "int \<Rightarrow> bool \<Rightarrow> int \<Rightarrow> bool" where
  "due freq is_last_step g \<longleftrightarrow> 0 < freq \<and> (is_last_step \<or> g mod freq = 0)"

definition validate :: "v1_config \<Rightarrow> v1_state \<Rightarrow> v1_state" where
  "validate cfg s = (let s1 = on_validate_begin cfg s in log_event (Validated (v1_steps s1) (v1_serving s1)) s1)"

definition fit_iteration :: "v1_config \<Rightarrow> v1_state \<Rightarrow> v1_state" where
  "fit_iteration cfg s =
     (let is_last_step = vc_total_steps cfg \<le> v1_steps s;
          s1 = v1_step cfg s;
          s2 = (if due (vc_save_freq cfg) is_last_step (v1_steps s1) then log_event (Saved (v1_steps s1)) s1 else s1);
          s3 = on_step_end cfg s2;
          s4 = (if due (vc_test_freq cfg) is_last_step (v1_steps s3) then validate cfg s3 else s3)
      in s4\<lparr> v1_steps := v1_steps s4 + 1 \<rparr>)"

lemma hooks_steps [simp]:
  "v1_steps (log_event e s) = v1_steps s" "v1_steps (update_hybrid s) = v1_steps s" "v1_steps (sleep_hybrid s) = v1_steps s"
  "v1_steps (update_standalone s) = v1_steps s" "v1_steps (add_batch_to_generate s) = v1_steps s" "v1_steps (switch_to_rollout s) = v1_steps s"
  "v1_steps (switch_to_trainer s) = v1_steps s" "v1_steps (on_init_end cfg s) = v1_steps s" "v1_steps (on_validate_begin cfg s) = v1_steps s"
  "v1_steps (on_sample_begin cfg s) = v1_steps s" "v1_steps (on_sample_end cfg s) = v1_steps s" "v1_steps (on_step_end cfg s) = v1_steps s"
  "v1_steps (update_actor s) = v1_steps s" "v1_steps (v1_step cfg s) = v1_steps s" "v1_steps (validate cfg s) = v1_steps s"
  by (simp_all add: log_event_def update_hybrid_def sleep_hybrid_def update_standalone_def add_batch_to_generate_def switch_to_rollout_def
      switch_to_trainer_def on_init_end_def on_validate_begin_def on_sample_begin_def on_sample_end_def on_step_end_def update_actor_def v1_step_def
      validate_def Let_def split: trainer_kind.split)

lemma fit_iteration_steps [simp]: "v1_steps (fit_iteration cfg s) = v1_steps s + 1"
  by (simp add: fit_iteration_def Let_def)

text \<open>The loop condition reads the epoch that the last iteration computed; the last step returns from the loop.\<close>

function fit_loop :: "v1_config \<Rightarrow> int \<Rightarrow> v1_state \<Rightarrow> v1_state" where
  "fit_loop cfg current_epoch s =
     (if current_epoch < vc_total_epochs cfg \<and> v1_steps s \<le> vc_total_steps cfg
      then (let s1 = fit_iteration cfg s
            in if vc_total_steps cfg \<le> v1_steps s then s1
               else fit_loop cfg ((v1_steps s1 - 1) div vc_loader_len cfg) s1)
      else s)"
  by auto
termination
  by (relation "measure (\<lambda>(cfg, e, s). nat (vc_total_steps cfg + 1 - v1_steps s))") auto

declare fit_loop.simps [simp del]

definition fit :: "v1_config \<Rightarrow> v1_state \<Rightarrow> v1_state" where
  "fit cfg s =
     (let s1 = (if vc_val_before cfg then validate cfg s else s)
      in if vc_val_before cfg \<and> vc_val_only cfg then s1
         else (let current_epoch = v1_steps s1 div vc_loader_len cfg
               in fit_loop cfg current_epoch (on_train_begin cfg (s1\<lparr> v1_steps := v1_steps s1 + 1 \<rparr>))))"

text \<open>A trainer after loading the checkpoint of a step, with a policy that counts as version 0.\<close>

definition v1_start :: "v1_config \<Rightarrow> int \<Rightarrow> v1_state" where
  "v1_start cfg g = on_init_end cfg \<lparr> v1_steps = g, v1_serving = \<lparr> sv_hybrid = None, sv_standalone = 0, sv_trainer = 0 \<rparr>, v1_mode = Mode_rollout, v1_log = [] \<rparr>"

section \<open>Invariants of the loop\<close>

lemmas hook_defs = log_event_def update_hybrid_def sleep_hybrid_def update_standalone_def add_batch_to_generate_def switch_to_rollout_def
  switch_to_trainer_def on_validate_begin_def on_sample_begin_def on_sample_end_def on_step_end_def update_actor_def v1_step_def validate_def
  should_switch_to_rollout_def fit_iteration_def

text \<open>A property of the state that every iteration keeps, for the states of the whole loop.\<close>

lemma fit_loop_invariant:
  assumes "P s" and "\<And>s. P s \<Longrightarrow> v1_steps s \<le> vc_total_steps cfg \<Longrightarrow> P (fit_iteration cfg s)"
  shows "P (fit_loop cfg e s)"
  using assms
proof (induction cfg e s rule: fit_loop.induct)
  case (1 cfg e s)
  then show ?case by (subst fit_loop.simps) (auto simp: Let_def)
qed

lemma warmup_state:
  "(add_batch_to_generate ^^ n) s = s\<lparr> v1_log := v1_log s @ replicate n (Add_batch (v1_steps s)) \<rparr>"
  by (induction n) (simp_all add: add_batch_to_generate_def log_event_def replicate_append_same)

text \<open>\<open>updates_until cfg g x\<close>: the updates of the policy in the steps \<open>g + 1\<close> to \<open>x\<close>, which begin after the warm-up of the critic.\<close>

definition updates_until :: "v1_config \<Rightarrow> int \<Rightarrow> int \<Rightarrow> nat" where
  "updates_until cfg g x = nat (x - max g (vc_critic_warmup cfg - 1))"

lemma updates_until_step: "g < h \<Longrightarrow> updates_until cfg g h = updates_until cfg g (h - 1) + (if vc_critic_warmup cfg \<le> h then 1 else 0)"
  by (auto simp: updates_until_def)

lemma updates_until_start [simp]: "x \<le> g \<Longrightarrow> updates_until cfg g x = 0"
  by (simp add: updates_until_def)

lemma updates_until_mono: "x \<le> y \<Longrightarrow> updates_until cfg g x \<le> updates_until cfg g y"
  by (simp add: updates_until_def)

text \<open>What an event of a trainer whose rollout shares its devices has to satisfy.\<close>

definition colocated_served :: "v1_config \<Rightarrow> int \<Rightarrow> v1_event \<Rightarrow> bool" where
  "colocated_served cfg g e \<longleftrightarrow> (case e of
      Sampled h sv \<Rightarrow> sv_trainer sv = updates_until cfg g (h - 1) \<and> sv_hybrid sv = Some (sv_trainer sv)
    | Validated h sv \<Rightarrow> sv_trainer sv = updates_until cfg g h \<and> sv_hybrid sv = Some (sv_trainer sv)
    | _ \<Rightarrow> True)"

definition colocated_ok :: "v1_config \<Rightarrow> int \<Rightarrow> v1_state \<Rightarrow> bool" where
  "colocated_ok cfg g s \<longleftrightarrow> g < v1_steps s \<and> sv_trainer (v1_serving s) = updates_until cfg g (v1_steps s - 1) \<and>
     sv_hybrid (v1_serving s) = Some (sv_trainer (v1_serving s)) \<and> (\<forall>e \<in> set (v1_log s). colocated_served cfg g e)"

lemma colocated_iteration:
  "vc_kind cfg \<noteq> Trainer_separate_async \<Longrightarrow> colocated_ok cfg g s \<Longrightarrow> colocated_ok cfg g (fit_iteration cfg s)"
  by (cases "vc_kind cfg") (auto simp: colocated_ok_def colocated_served_def hook_defs Let_def updates_until_step)

text \<open>
  With rollout servers of its own, the trainer updates them at the multiples of the synchronisation step only; the servers on its own
  devices are current or asleep.
\<close>

definition last_sync :: "v1_config \<Rightarrow> int \<Rightarrow> int" where
  "last_sync cfg x = x div vc_sync_step cfg * vc_sync_step cfg"

lemma last_sync_step:
  assumes "0 < vc_sync_step cfg"
  shows "last_sync cfg h = (if h mod vc_sync_step cfg = 0 then h else last_sync cfg (h - 1))"
proof (cases "h mod vc_sync_step cfg = 0")
  case False
  let ?S = "vc_sync_step cfg"
  have "0 < h mod ?S" using False pos_mod_sign[OF assms, of h] by simp
  then have "h - 1 = ?S * (h div ?S) + (h mod ?S - 1)" "0 \<le> h mod ?S - 1" "h mod ?S - 1 < ?S"
    using pos_mod_bound[OF assms, of h] by simp_all
  then have "(h - 1) div ?S = h div ?S" by (rule int_div_pos_eq)
  then show ?thesis using False by (simp add: last_sync_def)
qed (auto simp: last_sync_def)

lemma last_sync_le: "0 < vc_sync_step cfg \<Longrightarrow> last_sync cfg x \<le> x"
  unfolding last_sync_def by (simp add: minus_mod_eq_div_mult [symmetric])

text \<open>A step that ends with a validation, which wakes the servers on the trainer's devices until the next batch has been sampled.\<close>

definition validated_at :: "v1_config \<Rightarrow> int \<Rightarrow> bool" where
  "validated_at cfg j \<longleftrightarrow> due (vc_test_freq cfg) (vc_total_steps cfg \<le> j) j"

definition separate_served :: "v1_config \<Rightarrow> int \<Rightarrow> v1_event \<Rightarrow> bool" where
  "separate_served cfg g e \<longleftrightarrow> (case e of
      Sampled h sv \<Rightarrow> sv_trainer sv = updates_until cfg g (h - 1) \<and> sv_standalone sv = updates_until cfg g (last_sync cfg (h - 1)) \<and>
        (sv_hybrid sv = None \<or> sv_hybrid sv = Some (sv_trainer sv) \<and> (h = g + 1 \<or> validated_at cfg (h - 1)))
    | Validated h sv \<Rightarrow> sv_trainer sv = updates_until cfg g h \<and> sv_standalone sv = updates_until cfg g (last_sync cfg h) \<and>
        sv_hybrid sv = Some (sv_trainer sv)
    | _ \<Rightarrow> True)"

definition separate_ok :: "v1_config \<Rightarrow> int \<Rightarrow> v1_state \<Rightarrow> bool" where
  "separate_ok cfg g s \<longleftrightarrow> g < v1_steps s \<and> sv_trainer (v1_serving s) = updates_until cfg g (v1_steps s - 1) \<and>
     sv_standalone (v1_serving s) = updates_until cfg g (last_sync cfg (v1_steps s - 1)) \<and>
     sv_hybrid (v1_serving s) = (if v1_mode s = Mode_rollout then Some (sv_trainer (v1_serving s)) else None) \<and>
     (v1_mode s = Mode_rollout \<longrightarrow> v1_steps s = g + 1 \<or> validated_at cfg (v1_steps s - 1)) \<and>
     (\<forall>e \<in> set (v1_log s). separate_served cfg g e)"

lemma separate_iteration:
  assumes kind: "vc_kind cfg = Trainer_separate_async" and S: "0 < vc_sync_step cfg" and ok: "separate_ok cfg g s"
  shows "separate_ok cfg g (fit_iteration cfg s)"
proof -
  let ?h = "v1_steps s" and ?s1 = "v1_step cfg s"
  have g: "g < ?h" using ok by (simp add: separate_ok_def)
  have one: "sv_standalone (v1_serving ?s1) = updates_until cfg g (last_sync cfg (?h - 1))" "sv_trainer (v1_serving ?s1) = updates_until cfg g ?h"
      "v1_mode ?s1 = Mode_trainer" "sv_hybrid (v1_serving ?s1) = None" "\<forall>e \<in> set (v1_log ?s1). separate_served cfg g e"
    using ok kind updates_until_step[OF g, of cfg]
    by (auto simp: hook_defs Let_def separate_ok_def separate_served_def intro: engine_mode.exhaust)
  define s3 where "s3 = on_step_end cfg (if due (vc_save_freq cfg) (vc_total_steps cfg \<le> v1_steps s) ?h then log_event (Saved ?h) ?s1 else ?s1)"
  have three: "sv_trainer (v1_serving s3) = updates_until cfg g ?h" "sv_standalone (v1_serving s3) = updates_until cfg g (last_sync cfg ?h)"
      "v1_steps s3 = ?h" "v1_mode s3 = Mode_trainer" "sv_hybrid (v1_serving s3) = None" "\<forall>e \<in> set (v1_log s3). separate_served cfg g e"
    using one kind last_sync_step[OF S, of ?h] by (auto simp: s3_def on_step_end_def log_event_def update_standalone_def separate_served_def)
  have "fit_iteration cfg s = (if due (vc_test_freq cfg) (vc_total_steps cfg \<le> v1_steps s) ?h then validate cfg s3 else s3)\<lparr> v1_steps := ?h + 1 \<rparr>"
    by (simp add: fit_iteration_def Let_def s3_def)
  then show ?thesis using three kind g
    by (auto simp: separate_ok_def validated_at_def validate_def on_validate_begin_def switch_to_rollout_def update_hybrid_def log_event_def Let_def separate_served_def)
qed

text \<open>An invariant of the iterations holds for a whole run when it holds before the first step and warm-up batches and validation keep it.\<close>

lemma fit_invariant:
  assumes "P (on_train_begin cfg (s\<lparr> v1_steps := v1_steps s + 1 \<rparr>))" and "P (on_train_begin cfg ((validate cfg s)\<lparr> v1_steps := v1_steps s + 1 \<rparr>))"
    and "\<And>s. P s \<Longrightarrow> v1_steps s \<le> vc_total_steps cfg \<Longrightarrow> P (fit_iteration cfg s)"
  shows "fit cfg s = validate cfg s \<and> vc_val_before cfg \<or> P (fit cfg s)"
  using assms fit_loop_invariant[of P, OF _ assms(3)] by (simp add: fit_def Let_def)

text \<open>
  With trainer and rollout on the same devices, every batch is sampled and every validation is run while the servers have exactly the
  current weights: those after all updates of the steps before it (for a validation, of its step as well).
\<close>

theorem colocated_servers_are_current:
  assumes "vc_kind cfg \<noteq> Trainer_separate_async" and "e \<in> set (v1_log (fit cfg (v1_start cfg g)))"
  shows "case e of
      Sampled h sv \<Rightarrow> sv_trainer sv = updates_until cfg g (h - 1) \<and> sv_hybrid sv = Some (sv_trainer sv)
    | Validated h sv \<Rightarrow> sv_trainer sv = updates_until cfg g h \<and> sv_hybrid sv = Some (sv_trainer sv)
    | _ \<Rightarrow> True"
proof -
  let ?s = "v1_start cfg g"
  have first: "colocated_ok cfg g (on_train_begin cfg (?s\<lparr> v1_steps := v1_steps ?s + 1 \<rparr>))"
      "colocated_ok cfg g (on_train_begin cfg ((validate cfg ?s)\<lparr> v1_steps := v1_steps ?s + 1 \<rparr>))"
      "\<forall>e \<in> set (v1_log (validate cfg ?s)). colocated_served cfg g e"
    using assms(1) by (cases "vc_kind cfg"; auto simp: v1_start_def on_init_end_def colocated_ok_def colocated_served_def on_train_begin_def
        warmup_state hook_defs Let_def)+
  from fit_invariant[where P = "colocated_ok cfg g", OF first(1,2) colocated_iteration[OF assms(1)]]
  have "\<forall>e \<in> set (v1_log (fit cfg ?s)). colocated_served cfg g e" using first(3) by (auto simp: colocated_ok_def)
  from bspec[OF this assms(2)] show ?thesis by (simp add: colocated_served_def)
qed

lemma separate_fit:
  assumes "vc_kind cfg = Trainer_separate_async" and S: "0 < vc_sync_step cfg"
  shows "\<forall>e \<in> set (v1_log (fit cfg (v1_start cfg g))). separate_served cfg g e"
proof -
  let ?s = "v1_start cfg g"
  have first: "separate_ok cfg g (on_train_begin cfg (?s\<lparr> v1_steps := v1_steps ?s + 1 \<rparr>))"
      "separate_ok cfg g (on_train_begin cfg ((validate cfg ?s)\<lparr> v1_steps := v1_steps ?s + 1 \<rparr>))"
      "\<forall>e \<in> set (v1_log (validate cfg ?s)). separate_served cfg g e"
    using assms(1) last_sync_le[OF S, of g] by (auto simp: v1_start_def on_init_end_def separate_ok_def separate_served_def on_train_begin_def
        warmup_state hook_defs Let_def)
  from fit_invariant[where P = "separate_ok cfg g", OF first(1,2) separate_iteration[OF assms]] show ?thesis
    using first(3) by (auto simp: separate_ok_def)
qed

text \<open>
  C36: with rollout servers of its own, the asynchronous trainer samples with weights that lag behind its own by at most the steps since the
  last multiple of \<open>parameter_sync_step\<close>.  A validation uses the current servers and the lagging ones together: at a step that is
  no such multiple, and after an update since it, they differ.
\<close>

theorem separate_servers_lag:
  assumes "vc_kind cfg = Trainer_separate_async" and S: "0 < vc_sync_step cfg" and "e \<in> set (v1_log (fit cfg (v1_start cfg g)))"
  shows "case e of
      Sampled h sv \<Rightarrow> sv_trainer sv = updates_until cfg g (h - 1) \<and> sv_standalone sv \<le> sv_trainer sv \<and>
        int (sv_trainer sv - sv_standalone sv) \<le> (h - 1) mod vc_sync_step cfg
    | Validated h sv \<Rightarrow> sv_trainer sv = updates_until cfg g h \<and> sv_hybrid sv = Some (sv_trainer sv) \<and>
        (sv_standalone sv < sv_trainer sv \<longleftrightarrow> last_sync cfg h < h \<and> max g (vc_critic_warmup cfg - 1) < h)
    | _ \<Rightarrow> True"
proof -
  have served: "separate_served cfg g e" using separate_fit[OF assms(1,2)] assms(3) by blast
  have le: "last_sync cfg x \<le> x" for x by (rule last_sync_le[OF S])
  have diff: "x - last_sync cfg x = x mod vc_sync_step cfg" for x by (simp add: last_sync_def minus_div_mult_eq_mod)
  have "int (updates_until cfg g x - updates_until cfg g (last_sync cfg x)) \<le> x mod vc_sync_step cfg" for x
    using le[of x] diff[of x] unfolding updates_until_def by linarith
  moreover have "updates_until cfg g (last_sync cfg x) < updates_until cfg g x \<longleftrightarrow> last_sync cfg x < x \<and> max g (vc_critic_warmup cfg - 1) < x" for x
    using le[of x] by (auto simp: updates_until_def)
  moreover have "updates_until cfg g (last_sync cfg x) \<le> updates_until cfg g x" for x using updates_until_mono[OF le] .
  ultimately show ?thesis using served by (auto simp: separate_served_def of_nat_diff split: v1_event.splits)
qed

section \<open>The schedule of a run\<close>

text \<open>The events without what the servers have.\<close>

definition unserved :: "v1_event \<Rightarrow> v1_event" where
  "unserved e = (let sv = \<lparr> sv_hybrid = None, sv_standalone = 0, sv_trainer = 0 \<rparr> in
     case e of Sampled h _ \<Rightarrow> Sampled h sv | Validated h _ \<Rightarrow> Validated h sv | _ \<Rightarrow> e)"

definition schedule :: "v1_state \<Rightarrow> v1_event list" where
  "schedule s = map unserved (v1_log s)"

definition step_events :: "v1_config \<Rightarrow> int \<Rightarrow> v1_event list" where
  "step_events cfg h = (let sv = \<lparr> sv_hybrid = None, sv_standalone = 0, sv_trainer = 0 \<rparr>; is_last_step = vc_total_steps cfg \<le> h in
     [Add_batch h, Sampled h sv] @ (if vc_critic_warmup cfg \<le> h then [Updated h] else []) @
     (if due (vc_save_freq cfg) is_last_step h then [Saved h] else []) @ (if due (vc_test_freq cfg) is_last_step h then [Validated h sv] else []))"

lemma schedule_log [simp]: "schedule (log_event e s) = schedule s @ [unserved e]"
  by (simp add: schedule_def log_event_def)

lemma schedule_same [simp]:
  "schedule (update_hybrid s) = schedule s" "schedule (sleep_hybrid s) = schedule s" "schedule (update_standalone s) = schedule s"
  "schedule (switch_to_rollout s) = schedule s" "schedule (switch_to_trainer s) = schedule s" "schedule (on_validate_begin cfg s) = schedule s"
  "schedule (on_sample_begin cfg s) = schedule s" "schedule (on_sample_end cfg s) = schedule s" "schedule (on_step_end cfg s) = schedule s"
  "schedule (on_init_end cfg s) = schedule s" "schedule (s\<lparr> v1_steps := h \<rparr>) = schedule s" "schedule (s\<lparr> v1_serving := sv \<rparr>) = schedule s"
  by (simp_all add: schedule_def update_hybrid_def sleep_hybrid_def update_standalone_def switch_to_rollout_def switch_to_trainer_def
      on_validate_begin_def on_sample_begin_def on_sample_end_def on_step_end_def on_init_end_def split: trainer_kind.split)

lemma iteration_events: "schedule (fit_iteration cfg s) = schedule s @ step_events cfg (v1_steps s)"
  by (simp add: fit_iteration_def v1_step_def add_batch_to_generate_def update_actor_def validate_def step_events_def unserved_def Let_def)

text \<open>The last step of a run: that of the configuration, or the last one of the epochs when it comes first.\<close>

definition final_step :: "v1_config \<Rightarrow> int" where
  "final_step cfg = min (vc_total_steps cfg) (vc_total_epochs cfg * vc_loader_len cfg)"

lemma epoch_less:
  fixes x l n :: int
  assumes "0 < l"
  shows "x div l < n \<longleftrightarrow> x < n * l"
proof -
  have x: "x = x div l * l + x mod l" "0 \<le> x mod l" "x mod l < l" using assms by simp_all
  have "x div l * l + l \<le> n * l" if "x div l < n" using mult_right_mono[of "x div l + 1" n l] that assms by (simp add: distrib_right)
  moreover have "n * l \<le> x div l * l" if "n \<le> x div l" using mult_right_mono[OF that, of l] assms by simp
  ultimately show ?thesis using x by linarith
qed

lemma loop_events:
  assumes "0 < vc_loader_len cfg" and "e = (v1_steps s - 1) div vc_loader_len cfg"
  shows "schedule (fit_loop cfg e s) = schedule s @ concat (map (step_events cfg) [v1_steps s..final_step cfg])"
  using assms
proof (induction cfg e s rule: fit_loop.induct)
  case (1 cfg e s)
  let ?s' = "fit_iteration cfg s"
  have run: "e < vc_total_epochs cfg \<and> v1_steps s \<le> vc_total_steps cfg \<longleftrightarrow> v1_steps s \<le> final_step cfg"
    using 1(2,3) epoch_less[OF 1(2)] by (auto simp: final_step_def)
  show ?case
  proof (cases "v1_steps s \<le> final_step cfg")
    case False
    then have no: "\<not> (e < vc_total_epochs cfg \<and> v1_steps s \<le> vc_total_steps cfg)" and none: "[v1_steps s..final_step cfg] = []"
      using run by auto
    show ?thesis unfolding fit_loop.simps[of cfg e s] if_not_P[OF no] none by simp
  next
    case True
    have more: "[v1_steps s..final_step cfg] = v1_steps s # [v1_steps s + 1..final_step cfg]" using True by (rule upto_rec1)
    have body: "fit_loop cfg e s = (if vc_total_steps cfg \<le> v1_steps s then ?s' else fit_loop cfg ((v1_steps ?s' - 1) div vc_loader_len cfg) ?s')"
      using True run by (subst fit_loop.simps) (simp only: if_True Let_def)
    show ?thesis
    proof (cases "vc_total_steps cfg \<le> v1_steps s")
      case fin: True
      then have "[v1_steps s + 1..final_step cfg] = []" by (simp add: final_step_def)
      then show ?thesis using fin unfolding body by (simp add: more iteration_events)
    next
      case False
      from 1(1)[OF _ refl False] run True 1(2)
      have "schedule (fit_loop cfg ((v1_steps ?s' - 1) div vc_loader_len cfg) ?s') =
          schedule ?s' @ concat (map (step_events cfg) [v1_steps ?s'..final_step cfg])" by blast
      then show ?thesis using False unfolding body by (simp add: more iteration_events)
    qed
  qed
qed

lemma warmup_events: "schedule (on_train_begin cfg s) = schedule s @ (if vc_kind cfg = Trainer_sync then [] else replicate (vc_warmup cfg) (Add_batch (v1_steps s)))"
  by (simp add: on_train_begin_def warmup_state schedule_def unserved_def map_replicate_const)

lemma warmup_steps [simp]: "v1_steps (on_train_begin cfg s) = v1_steps s"
  by (simp add: on_train_begin_def warmup_state)

lemma validate_events: "schedule (validate cfg s) = schedule s @ [unserved (Validated (v1_steps s) undefined)]"
  by (simp add: validate_def Let_def unserved_def)

lemma fit_schedule:
  assumes "0 < vc_loader_len cfg"
  shows "schedule (fit cfg (v1_start cfg g)) =
    (if vc_val_before cfg then [Validated g \<lparr> sv_hybrid = None, sv_standalone = 0, sv_trainer = 0 \<rparr>] else []) @
    (if vc_val_before cfg \<and> vc_val_only cfg then []
     else (if vc_kind cfg = Trainer_sync then [] else replicate (vc_warmup cfg) (Add_batch (g + 1))) @
       concat (map (step_events cfg) [g + 1..final_step cfg]))"
proof -
  have start: "v1_steps (v1_start cfg g) = g" "schedule (v1_start cfg g) = []"
    by (simp_all add: v1_start_def) (simp add: schedule_def)
  show ?thesis using start loop_events[OF assms refl, of "on_train_begin cfg (s\<lparr> v1_steps := g + 1 \<rparr>)" for s]
    by (simp add: fit_def Let_def warmup_events validate_events unserved_def)
qed

text \<open>
  C14: what a run does, in order: a validation if it is asked for; the warm-up batches of the asynchronous trainers; then for every step from
  the one after the checkpoint up to \<open>final_step\<close> one batch is added, one is sampled, the policy is updated unless the critic is
  still warming up, and the step is saved and validated where it is due.  The loop ends after those steps.
\<close>

theorem fit_follows_schedule:
  assumes "0 < vc_loader_len cfg"
  shows "schedule (fit cfg (v1_start cfg g)) =
    (if vc_val_before cfg then [Validated g \<lparr> sv_hybrid = None, sv_standalone = 0, sv_trainer = 0 \<rparr>] else []) @
    (if vc_val_before cfg \<and> vc_val_only cfg then []
     else (if vc_kind cfg = Trainer_sync then [] else replicate (vc_warmup cfg) (Add_batch (g + 1))) @
       concat (map (step_events cfg) [g + 1..final_step cfg]))"
  by (rule fit_schedule[OF assms])

lemma sampled_steps:
  assumes "0 < vc_loader_len cfg" and "\<not> (vc_val_before cfg \<and> vc_val_only cfg)" and "g < k" "k \<le> final_step cfg"
  shows "\<exists>sv. Sampled k sv \<in> set (v1_log (fit cfg (v1_start cfg g)))"
proof -
  let ?sv = "\<lparr> sv_hybrid = None, sv_standalone = 0, sv_trainer = 0 \<rparr>"
  have "Sampled k ?sv \<in> set (step_events cfg k)" by (simp add: step_events_def Let_def)
  then have "Sampled k ?sv \<in> set (schedule (fit cfg (v1_start cfg g)))"
    using assms(2-) unfolding fit_schedule[OF assms(1)] by auto
  then obtain e where e: "e \<in> set (v1_log (fit cfg (v1_start cfg g)))" "unserved e = Sampled k ?sv" unfolding schedule_def by auto
  then show ?thesis by (auto simp: unserved_def Let_def split: v1_event.splits)
qed

section \<open>The replay buffer and the versions of a trajectory\<close>

lemma kept_versions:
  assumes "vc_kind cfg = Trainer_separate_async" and S: "0 < vc_sync_step cfg" and "p \<le> h"
    and rb: "rb_sync_step rb = vc_sync_step cfg" and kept: "version_lag rb h p \<le> real_of_int t"
  shows "finite {sv_standalone sv | k sv. Sampled k sv \<in> set (v1_log (fit cfg (v1_start cfg g))) \<and> p \<le> k \<and> k \<le> h}" and
    "card {sv_standalone sv | k sv. Sampled k sv \<in> set (v1_log (fit cfg (v1_start cfg g))) \<and> p \<le> k \<and> k \<le> h} \<le> nat (t + 1)"
proof -
  let ?S = "vc_sync_step cfg"
  let ?f = "\<lambda>q. updates_until cfg g (q * ?S)"
  have sub: "{sv_standalone sv | k sv. Sampled k sv \<in> set (v1_log (fit cfg (v1_start cfg g))) \<and> p \<le> k \<and> k \<le> h} \<subseteq> ?f ` {(p - 1) div ?S..(h - 1) div ?S}"
  proof
    fix v assume "v \<in> {sv_standalone sv | k sv. Sampled k sv \<in> set (v1_log (fit cfg (v1_start cfg g))) \<and> p \<le> k \<and> k \<le> h}"
    then obtain k sv where k: "v = sv_standalone sv" "Sampled k sv \<in> set (v1_log (fit cfg (v1_start cfg g)))" "p \<le> k" "k \<le> h" by blast
    from bspec[OF separate_fit[OF assms(1,2)] k(2)] have "v = ?f ((k - 1) div ?S)" using k(1) by (simp add: separate_served_def last_sync_def)
    then show "v \<in> ?f ` {(p - 1) div ?S..(h - 1) div ?S}" using k(3,4) zdiv_mono1[OF _ S] by auto
  qed
  have "real_of_int (h - p + 1) \<le> real_of_int (t * ?S)" using rb kept S by (simp add: version_lag_def divide_le_eq)
  then have "h - p + 1 \<le> t * ?S" by (simp only: of_int_le_iff)
  then have "h - 1 \<le> p - 1 + t * ?S" by simp
  then have "(h - 1) div ?S \<le> (p - 1) div ?S + t" using zdiv_mono1[of "h - 1" "p - 1 + t * ?S" ?S] S by simp
  then have "card {(p - 1) div ?S..(h - 1) div ?S} \<le> nat (t + 1)" by simp
  then show "card {sv_standalone sv | k sv. Sampled k sv \<in> set (v1_log (fit cfg (v1_start cfg g))) \<and> p \<le> k \<and> k \<le> h} \<le> nat (t + 1)"
    using card_mono[OF _ sub] card_image_le[of "{(p - 1) div ?S..(h - 1) div ?S}" ?f] by fastforce
  show "finite {sv_standalone sv | k sv. Sampled k sv \<in> set (v1_log (fit cfg (v1_start cfg g))) \<and> p \<le> k \<and> k \<le> h}" by (rule finite_subset[OF sub]) simp
qed

text \<open>
  The versions of the weights that serve while the batches of the steps from \<open>p\<close> to \<open>h\<close> are sampled: those of the standalone servers,
  and those of the servers on the trainer's devices while they are awake.
\<close>

definition versions_met :: "v1_event list \<Rightarrow> int \<Rightarrow> int \<Rightarrow> nat set" where
  "versions_met events p h =
     {v. \<exists>k sv. Sampled k sv \<in> set events \<and> p \<le> k \<and> k \<le> h \<and> (v = sv_standalone sv \<or> sv_hybrid sv = Some v)}"

lemma hybrid_version:
  assumes "vc_kind cfg = Trainer_separate_async" and S: "0 < vc_sync_step cfg"
    and ev: "Sampled k sv \<in> set (v1_log (fit cfg (v1_start cfg g)))" and v: "sv_hybrid sv = Some v"
  shows "v = sv_standalone sv \<or> v = updates_until cfg g (k - 1) \<and> validated_at cfg (k - 1) \<and> (k - 1) mod vc_sync_step cfg \<noteq> 0"
proof -
  from bspec[OF separate_fit[OF assms(1,2)] ev] v have served: "v = updates_until cfg g (k - 1)"
      "sv_standalone sv = updates_until cfg g (last_sync cfg (k - 1))" "k = g + 1 \<or> validated_at cfg (k - 1)"
    by (auto simp: separate_served_def)
  show ?thesis
  proof (cases "k = g + 1 \<or> (k - 1) mod vc_sync_step cfg = 0")
    case True
    have "last_sync cfg (k - 1) \<le> k - 1" by (rule last_sync_le[OF S])
    with True have "v = sv_standalone sv" using served(1,2) last_sync_step[OF S, of "k - 1"] by auto
    then show ?thesis ..
  next
    case False
    then show ?thesis using served(1,3) by simp
  qed
qed

text \<open>
  C13: which weights can have taken part in a trajectory of the separate trainer.  When the replay buffer keeps a trajectory of step \<open>p\<close> at
  step \<open>h\<close> (its version lag is at most the threshold \<open>t\<close>), the servers that generate at the sampling of the steps from \<open>p\<close> to \<open>h\<close>, the
  standalone ones and those on the trainer's devices while they are awake, had at most \<open>t + 1\<close> different weights, one more than the
  threshold, and one more for every step from \<open>p - 1\<close> to \<open>h - 1\<close> that ended with a validation between two synchronisations.
\<close>

theorem kept_trajectory_versions:
  assumes "vc_kind cfg = Trainer_separate_async" and S: "0 < vc_sync_step cfg" and "p \<le> h"
    and rb: "rb_sync_step rb = vc_sync_step cfg" "version_lag rb h p \<le> real_of_int t"
  shows "card (versions_met (v1_log (fit cfg (v1_start cfg g))) p h)
    \<le> nat (t + 1) + card {j \<in> {p - 1..h - 1}. validated_at cfg j \<and> j mod vc_sync_step cfg \<noteq> 0}"
proof -
  let ?log = "v1_log (fit cfg (v1_start cfg g))" and ?J = "{j \<in> {p - 1..h - 1}. validated_at cfg j \<and> j mod vc_sync_step cfg \<noteq> 0}"
  let ?V = "{sv_standalone sv | k sv. Sampled k sv \<in> set ?log \<and> p \<le> k \<and> k \<le> h}"
  have "finite ?J" by (rule finite_subset[of _ "{p - 1..h - 1}"]) auto
  moreover have "versions_met ?log p h \<subseteq> ?V \<union> updates_until cfg g ` ?J"
  proof
    fix v assume "v \<in> versions_met ?log p h"
    then obtain k sv where k: "Sampled k sv \<in> set ?log" "p \<le> k" "k \<le> h" "v = sv_standalone sv \<or> sv_hybrid sv = Some v"
      by (auto simp: versions_met_def)
    then have "v = sv_standalone sv \<or> v = updates_until cfg g (k - 1) \<and> k - 1 \<in> ?J"
      using hybrid_version[OF assms(1,2) k(1)] by auto
    then show "v \<in> ?V \<union> updates_until cfg g ` ?J" using k(1-3) by blast
  qed
  ultimately have "card (versions_met ?log p h) \<le> card ?V + card (updates_until cfg g ` ?J)"
    using kept_versions(1)[OF assms(1-3) rb] by (intro order_trans[OF card_mono card_Un_le]) auto
  also have "\<dots> \<le> nat (t + 1) + card ?J"
    using kept_versions(2)[OF assms(1-3) rb] card_image_le[OF \<open>finite ?J\<close>] by (rule add_mono)
  finally show ?thesis .
qed

lemma threshold_versions:
  assumes kind: "vc_kind cfg = Trainer_separate_async" and S: "2 \<le> vc_sync_step cfg" and t: "1 \<le> t" and rb: "rb_sync_step rb = vc_sync_step cfg"
    and p: "p = vc_sync_step cfg" and h: "h = p + t * vc_sync_step cfg - 1" and "h \<le> final_step cfg" "0 < vc_loader_len cfg"
    and "vc_critic_warmup cfg \<le> 1" "\<not> vc_val_only cfg"
  shows "version_lag rb h p = real_of_int t" and
    "card {sv_standalone sv | k sv. Sampled k sv \<in> set (v1_log (fit cfg (v1_start cfg 0))) \<and> p \<le> k \<and> k \<le> h} = nat (t + 1)"
proof -
  let ?S = "vc_sync_step cfg" and ?V = "{sv_standalone sv | k sv. Sampled k sv \<in> set (v1_log (fit cfg (v1_start cfg 0))) \<and> p \<le> k \<and> k \<le> h}"
  have pos: "0 < ?S" using S by simp
  show lag: "version_lag rb h p = real_of_int t" using pos by (simp add: version_lag_def rb h p)
  have "max 0 (vc_critic_warmup cfg - 1) = 0" using assms(9) by simp
  then have upd: "updates_until cfg 0 x = nat x" for x by (simp add: updates_until_def)
  have reached: "nat (q * ?S) \<in> ?V" if q: "q \<in> {0..t}" for q
  proof -
    define k where "k = (if q = 0 then ?S else q * ?S + 1)"
    have qS: "q * ?S \<le> t * ?S" "q \<noteq> 0 \<Longrightarrow> 1 * ?S \<le> q * ?S" "1 * ?S \<le> t * ?S" using q t pos by (auto intro!: mult_right_mono)
    have k: "p \<le> k" "k \<le> h"
    proof -
      show "p \<le> k" using qS(2) unfolding k_def p by (cases "q = 0") auto
      show "k \<le> h"
      proof (cases "q = 0")
        case True
        have "?S \<le> ?S + t * ?S - 1" using qS(3) S by linarith
        then show ?thesis unfolding k_def p h using True by simp
      next
        case False
        have "q * ?S + 1 \<le> ?S + t * ?S - 1" using qS(1) S by linarith
        then show ?thesis unfolding k_def p h using False by simp
      qed
    qed
    obtain sv where sv: "Sampled k sv \<in> set (v1_log (fit cfg (v1_start cfg 0)))"
      using sampled_steps[of cfg 0 k] assms(7,8,10) k pos p by force
    have "0 < k" using k(1) p pos by simp
    have "(k - 1) div ?S = q" using pos S by (cases "q = 0") (simp_all add: k_def)
    then have "sv_standalone sv = nat (q * ?S)"
      using bspec[OF separate_fit[OF kind pos] sv] by (simp add: separate_served_def last_sync_def upd)
    then show ?thesis using sv k by (intro CollectI exI[of _ k] exI[of _ sv]) simp
  qed
  then have "(\<lambda>q. nat (q * ?S)) ` {0..t} \<subseteq> ?V" by blast
  moreover have "inj_on (\<lambda>q. nat (q * ?S)) {0..t}"
    using pos by (intro inj_onI) (simp add: nat_eq_iff)
  ultimately have "nat (t + 1) \<le> card ?V" if "finite ?V" using card_mono[OF that, of "(\<lambda>q. nat (q * ?S)) ` {0..t}"] by (simp add: card_image)
  moreover have "card ?V \<le> nat (t + 1)" and "finite ?V"
    using kept_versions[OF kind pos _ rb, of p h t 0] lag t pos by (auto simp: p h)
  ultimately show "card ?V = nat (t + 1)" by simp
qed

text \<open>
  The bound is reached: with a synchronisation step of at least two, a run with the defaults of the other options samples a
  trajectory of step \<open>S\<close> at step \<open>S + t * S - 1\<close>, whose version lag is the threshold \<open>t\<close>, after the servers have had \<open>t + 1\<close>
  different weights.
\<close>

theorem threshold_undercounts_versions:
  assumes kind: "vc_kind cfg = Trainer_separate_async" and S: "2 \<le> vc_sync_step cfg" and t: "1 \<le> t" and rb: "rb_sync_step rb = vc_sync_step cfg"
    and p: "p = vc_sync_step cfg" and h: "h = p + t * vc_sync_step cfg - 1" and "h \<le> final_step cfg" "0 < vc_loader_len cfg"
    and "vc_critic_warmup cfg \<le> 1" "\<not> vc_val_only cfg"
  shows "version_lag rb h p = real_of_int t \<and>
    card {sv_standalone sv | k sv. Sampled k sv \<in> set (v1_log (fit cfg (v1_start cfg 0))) \<and> p \<le> k \<and> k \<le> h} = nat (t + 1)"
  by (intro conjI threshold_versions[OF assms])

section \<open>Witnesses\<close>

definition example_v1 :: "trainer_kind \<Rightarrow> v1_config" where
  "example_v1 kind = \<lparr> vc_kind = kind, vc_warmup = 1, vc_sync_step = 2, vc_total_steps = 4, vc_total_epochs = 2, vc_loader_len = 2, vc_save_freq = 4,
     vc_test_freq = 3, vc_critic_warmup = 0, vc_val_before = False, vc_val_only = False \<rparr>"

lemma example_sampled_step: "\<exists>sv. Sampled 3 sv \<in> set (v1_log (fit (example_v1 kind) (v1_start (example_v1 kind) 0)))"
  by (rule sampled_steps) (simp_all add: example_v1_def final_step_def)

theorem colocated_servers_are_current_witness:
  "\<exists>sv. Sampled 3 sv \<in> set (v1_log (fit (example_v1 Trainer_sync) (v1_start (example_v1 Trainer_sync) 0))) \<and>
     sv_hybrid sv = Some 2"
proof -
  obtain sv where sv: "Sampled 3 sv \<in> set (v1_log (fit (example_v1 Trainer_sync) (v1_start (example_v1 Trainer_sync) 0)))"
    using example_sampled_step by blast
  from colocated_servers_are_current[OF _ sv] have "sv_hybrid sv = Some 2" by (simp add: example_v1_def updates_until_def)
  with sv show ?thesis by blast
qed

theorem separate_servers_lag_witness:
  "\<exists>sv. Sampled 3 sv \<in> set (v1_log (fit (example_v1 Trainer_separate_async) (v1_start (example_v1 Trainer_separate_async) 0))) \<and>
     sv_trainer sv = 2 \<and> sv_standalone sv = 2"
proof -
  obtain sv where sv: "Sampled 3 sv \<in> set (v1_log (fit (example_v1 Trainer_separate_async) (v1_start (example_v1 Trainer_separate_async) 0)))"
    using example_sampled_step by blast
  from separate_servers_lag[OF _ _ sv] have "sv_trainer sv = 2" "sv_standalone sv = 2" by (simp_all add: example_v1_def updates_until_def)
  with sv show ?thesis by blast
qed

theorem fit_follows_schedule_witness:
  "schedule (fit (example_v1 Trainer_sync) (v1_start (example_v1 Trainer_sync) 3)) =
     [Add_batch 4, Sampled 4 \<lparr> sv_hybrid = None, sv_standalone = 0, sv_trainer = 0 \<rparr>, Updated 4, Saved 4,
      Validated 4 \<lparr> sv_hybrid = None, sv_standalone = 0, sv_trainer = 0 \<rparr>]"
  using fit_follows_schedule[of "example_v1 Trainer_sync" 3] by (simp add: example_v1_def final_step_def step_events_def due_def Let_def)

abbreviation example_threshold :: replay_buffer where
  "example_threshold \<equiv> \<lparr> rb_strategy = Drop, rb_threshold = 1, rb_sync_step = 2 \<rparr>"

theorem kept_trajectory_versions_witness:
  "card (versions_met (v1_log (fit (example_v1 Trainer_separate_async\<lparr> vc_test_freq := 1 \<rparr>)
     (v1_start (example_v1 Trainer_separate_async\<lparr> vc_test_freq := 1 \<rparr>) 0))) 2 3) \<le> 3"
proof -
  let ?c = "example_v1 Trainer_separate_async\<lparr> vc_test_freq := 1 \<rparr>"
  have "{2 - 1..3 - 1} = {1, 2 :: int}" by auto
  then have "{j \<in> {2 - 1..3 - 1}. validated_at ?c j \<and> j mod vc_sync_step ?c \<noteq> 0} = {1}"
    by (auto simp: validated_at_def due_def example_v1_def)
  with kept_trajectory_versions[of ?c 2 3 example_threshold 1 0] show ?thesis
    by (simp add: example_v1_def version_lag_def)
qed

theorem threshold_undercounts_versions_witness:
  "card {sv_standalone sv | k sv. Sampled k sv \<in> set (v1_log (fit (example_v1 Trainer_separate_async) (v1_start (example_v1 Trainer_separate_async) 0))) \<and>
     2 \<le> k \<and> k \<le> 3} = nat (1 + 1)"
  by (rule threshold_undercounts_versions[where rb = example_threshold, THEN conjunct2]) (simp_all add: example_v1_def final_step_def)

end
