(* ===== verification/VocabParallel.thy ===== *)
theory VocabParallel
  imports VerlDistillation
begin

text \<open>
  The distillation loss under Megatron, \<open>src/verl_new/verl/trainer/distillation/megatron/losses.py\<close>: the
  vocabulary is split over the ranks of a tensor-parallel group, every rank computes its share of the loss, and the
  shares are summed by \<open>all_reduce\<close>.  The backward pass is written by hand.  One token position is modelled, with a
  list of the ranks' shards of its logits; \<open>all_reduce\<close> is the sum (or maximum) over that list.  Two functions of
  Megatron are arguments: \<open>local_max\<close> for \<open>calculate_logits_max\<close>, of which nothing is assumed, and
  \<open>vocab_range\<close> for \<open>VocabUtility.vocab_range_from_per_partition_vocab_size\<close>.  \<open>topk_of\<close> is \<open>torch.topk\<close>.
\<close>

named_theorems vp_simps

section \<open>The forward pass\<close>

definition all_reduce_sum :: "real list \<Rightarrow> real" where
  "all_reduce_sum xs = sum_list xs"

definition all_reduce_rows :: "nat \<Rightarrow> real list list \<Rightarrow> real list" where
  "all_reduce_rows k rows = map (\<lambda>t. sum_list (map (\<lambda>row. row ! t) rows)) [0..<k]"

definition vocab_parallel_log_softmax :: "(real list \<Rightarrow> real) \<Rightarrow> real list list \<Rightarrow> real list list" where
  "vocab_parallel_log_softmax local_max shards =
     (let local_maxes = map local_max shards;
          logits_max = foldl max (hd local_maxes) local_maxes;
          vp_logits = map (map (\<lambda>x. x - logits_max)) shards;
          sum_exp_logits = all_reduce_sum (map (\<lambda>row. sum_list (map exp row)) vp_logits)
      in map (map (\<lambda>x. x - ln sum_exp_logits)) vp_logits)"

text \<open>\<open>x[~mask] = 0\<close>.\<close>

definition zero_outside :: "bool list \<Rightarrow> real list \<Rightarrow> real list" where
  "zero_outside msk xs = map2 (\<lambda>b x. if b then x else 0) msk xs"

text \<open>What a rank holds of one token: its share of the loss, and what it saves for the backward pass.\<close>

record vp_share =
  vp_in_vocab :: "bool list"
  vp_local_ids :: "nat list"
  vp_target_probs :: "real list"
  vp_target_logps :: "real list"
  vp_source_logps :: "real list"
  vp_active :: "bool list"
  vp_source_probs :: "real list"

definition vp_local :: "real option \<Rightarrow> int \<times> int \<Rightarrow> topk_row \<Rightarrow> real list \<Rightarrow> vp_share result" where
  "vp_local lo vr target logps =
     (let in_vocab = map (\<lambda>i. fst vr \<le> i \<and> i < snd vr) (snd target);
          local_ids = map2 (\<lambda>b i. if b then i - fst vr else 0) in_vocab (snd target);
          target_logps = map (clamp_min lo) (fst target);
          target_probs = map exp target_logps
      in bind_res (map_res (py_index logps) local_ids) (\<lambda>source.
           Inr \<lparr> vp_in_vocab = in_vocab, vp_local_ids = map nat local_ids,
                 vp_target_probs = zero_outside in_vocab target_probs,
                 vp_target_logps = zero_outside in_vocab target_logps,
                 vp_source_logps = zero_outside in_vocab (map (clamp_min lo) source),
                 vp_active = (case lo of None \<Rightarrow> in_vocab
                              | Some c \<Rightarrow> map2 (\<lambda>b s. b \<and> c < s) in_vocab source),
                 vp_source_probs = map exp logps \<rparr>))"

definition vp_kl :: "vp_share \<Rightarrow> real list" where
  "vp_kl r = map2 (*) (vp_target_probs r) (map2 (-) (vp_target_logps r) (vp_source_logps r))"

definition target_topk_mass :: "real option \<Rightarrow> topk_row \<Rightarrow> real" where
  "target_topk_mass lo target = sum_list (map (\<lambda>x. exp (clamp_min lo x)) (fst target))"

definition target_active_mass :: "real option \<Rightarrow> topk_row \<Rightarrow> vp_share list \<Rightarrow> real" where
  "target_active_mass lo target ranks =
     (case lo of
        None \<Rightarrow> target_topk_mass None target
      | Some _ \<Rightarrow> all_reduce_sum (map (\<lambda>r. sum_list (zero_outside (vp_active r) (vp_target_probs r))) ranks))"

text \<open>\<open>torch.topk\<close> raises when it is asked for more elements than there are.\<close>

definition torch_topk :: "(nat \<Rightarrow> real list \<Rightarrow> int list) \<Rightarrow> nat \<Rightarrow> real list \<Rightarrow> int list result" where
  "torch_topk topk_of k xs = (if length xs < k then Inl RuntimeError else Inr (topk_of k xs))"

text \<open>The student's global top-\<open>k\<close> from the candidates of every rank.\<close>

definition local_candidates ::
  "(nat \<Rightarrow> real list \<Rightarrow> int list) \<Rightarrow> nat \<Rightarrow> int \<Rightarrow> real list \<Rightarrow> (real list \<times> int list) result" where
  "local_candidates topk_of k vocab_start logps =
     bind_res (torch_topk topk_of (min k (length logps)) logps) (\<lambda>ids.
     bind_res (gather logps ids) (\<lambda>lps. Inr (lps, map (\<lambda>i. i + vocab_start) ids)))"

definition student_topk_ids :: "(nat \<Rightarrow> real list \<Rightarrow> int list) \<Rightarrow> nat \<Rightarrow> int list \<Rightarrow> real list list \<Rightarrow> int list result" where
  "student_topk_ids topk_of k starts logps =
     bind_res (map_res (\<lambda>(s, l). local_candidates topk_of k s l) (zip starts logps)) (\<lambda>gathered.
       let lps = concat (map fst gathered); ids = concat (map snd gathered)
       in bind_res (torch_topk topk_of k lps) (\<lambda>pos. map_res (py_index ids) pos))"

definition vp_forward ::
  "(nat \<Rightarrow> real list \<Rightarrow> int list) \<Rightarrow> (real list \<Rightarrow> real) \<Rightarrow> (nat \<Rightarrow> nat \<Rightarrow> nat \<Rightarrow> int \<times> int) \<Rightarrow> real option \<Rightarrow>
   topk_row \<Rightarrow> real list list \<Rightarrow> (topk_outputs \<times> vp_share list) result" where
  "vp_forward topk_of local_max vocab_range lo target shards =
     (let logps = vocab_parallel_log_softmax local_max shards;
          ranges = map (\<lambda>r. vocab_range (length (shards ! r)) r (length shards)) [0..<length shards];
          k = length (snd target)
      in bind_res (map_res (\<lambda>(vr, l). vp_local lo vr target l) (zip ranges logps)) (\<lambda>ranks.
         bind_res (student_topk_ids topk_of k (map fst ranges) logps) (\<lambda>student_ids.
           let msk = overlap_mask (snd target) student_ids
           in Inr (\<lparr> distillation_losses = all_reduce_sum (map (\<lambda>r. sum_list (vp_kl r)) ranks),
                     student_mass = all_reduce_sum (map (\<lambda>r. sum_list (zero_outside (vp_in_vocab r) (map exp (vp_source_logps r)))) ranks),
                     teacher_mass = target_topk_mass lo target,
                     overlap_count = length (filter (\<lambda>b. b) msk),
                     overlap_token_advantage = overlap_advantage msk (all_reduce_rows k (map vp_kl ranks)) \<rparr>,
                   ranks))))"

section \<open>The backward pass\<close>

text \<open>\<open>scatter_add_\<close>: every element of \<open>src\<close> is added where its index says, repeats accumulate.\<close>

definition scatter_add :: "real list \<Rightarrow> nat list \<Rightarrow> real list \<Rightarrow> real list" where
  "scatter_add xs idx source = foldl (\<lambda>out (i, x). out[i := out ! i + x]) xs (zip idx source)"

definition vp_backward :: "real \<Rightarrow> real \<Rightarrow> vp_share \<Rightarrow> real list" where
  "vp_backward grad_loss active_mass r =
     (let grad_input = map (\<lambda>p. p * active_mass) (vp_source_probs r);
          sub = zero_outside (vp_active r) (vp_target_probs r)
      in map (\<lambda>g. g * grad_loss) (scatter_add grad_input (vp_local_ids r) (map uminus sub)))"

section \<open>Sharded log-probabilities\<close>

definition sharded :: "nat \<Rightarrow> 'a list list \<Rightarrow> bool" where
  "sharded n rows \<longleftrightarrow> 0 < n \<and> rows \<noteq> [] \<and> (\<forall>row \<in> set rows. length row = n)"

lemma shardedD [vp_simps]:
  "sharded n rows \<Longrightarrow> r < length rows \<Longrightarrow> length (rows ! r) = n"
  "sharded n rows \<Longrightarrow> 0 < n"
  by (simp_all add: sharded_def)

lemma concat_shards [vp_simps]:
  assumes "\<forall>row \<in> set rows. length row = n"
  shows "length (concat rows) = length rows * n"
    and "r < length rows \<Longrightarrow> j < n \<Longrightarrow> concat rows ! (r * n + j) = rows ! r ! j"
proof -
  show "length (concat rows) = length rows * n" using assms by (induction rows) simp_all
  show "concat rows ! (r * n + j) = rows ! r ! j" if "r < length rows" "j < n"
    using assms that
  proof (induction rows arbitrary: r)
    case (Cons row rows)
    then show ?case by (cases r) (simp_all add: nth_append)
  qed simp
qed

lemma shard_index:
  assumes "i < w * n" and "0 < (n :: nat)"
  shows "i div n < w" and "i mod n < n" and "i div n * n + i mod n = i"
  using assms by (simp_all add: less_mult_imp_div_less)

lemma owner_iff:
  assumes "0 < n"
  shows "int (r * n) \<le> int i \<and> int i < int (r * n + n) \<longleftrightarrow> r = i div n"
proof -
  have "r * n \<le> i \<and> i < r * n + n \<longleftrightarrow> r = i div n"
    using assms by (metis add.commute div_nat_eqI dividend_less_times_div div_times_less_eq_dividend mult.commute mult_Suc)
  then show ?thesis by linarith
qed

lemma sum_exp_pos_list: "xs \<noteq> [] \<Longrightarrow> 0 < sum_list (map exp (xs :: real list))"
  by (induction xs rule: list_nonempty_induct) (auto simp: add_pos_pos)

lemma vocab_parallel_log_softmax_eq:
  assumes "sharded n shards"
  shows "vocab_parallel_log_softmax local_max shards = map (map (\<lambda>x. x - logsumexp (concat shards))) shards"
proof -
  define mx where "mx = foldl max (hd (map local_max shards)) (map local_max shards)"
  let ?S = "sum_list (map exp (concat shards))"
  have "concat shards \<noteq> []" using assms by (cases shards) (auto simp: sharded_def)
  then have pos: "0 < ?S" by (rule sum_exp_pos_list)
  have row: "sum_list (map exp (map (\<lambda>x. x - mx) row)) = exp (- mx) * sum_list (map exp row)" for row
    by (induction row) (simp_all add: exp_diff exp_minus divide_inverse algebra_simps)
  have rows: "sum_list (map (\<lambda>row. sum_list (map exp row)) (map (map (\<lambda>x. x - mx)) rows)) = exp (- mx) * sum_list (map exp (concat rows))" for rows
    by (induction rows) (simp_all add: row algebra_simps del: map_map)
  have "all_reduce_sum (map (\<lambda>row. sum_list (map exp row)) (map (map (\<lambda>x. x - mx)) shards)) = exp (- mx) * ?S"
    by (simp only: all_reduce_sum_def rows)
  then have "ln (all_reduce_sum (map (\<lambda>row. sum_list (map exp row)) (map (map (\<lambda>x. x - mx)) shards))) = logsumexp (concat shards) - mx"
    using pos by (simp add: logsumexp_def ln_mult)
  then show ?thesis
    by (simp add: vocab_parallel_log_softmax_def Let_def mx_def[symmetric] comp_def)
qed

corollary vocab_parallel_log_softmax_shards:
  assumes "sharded n shards"
  shows "concat (vocab_parallel_log_softmax local_max shards) = log_softmax (concat shards)"
    and "sharded n (vocab_parallel_log_softmax local_max shards)"
    and "length (vocab_parallel_log_softmax local_max shards) = length shards"
  using assms by (simp_all add: vocab_parallel_log_softmax_eq[OF assms] map_concat log_softmax_def logsumexp_def sharded_def)

section \<open>The share of a rank\<close>

text \<open>The teacher's ids are tokens of the vocabulary, and Megatron numbers the shards in order.\<close>

definition target_ok :: "nat \<Rightarrow> topk_row \<Rightarrow> bool" where
  "target_ok V target \<longleftrightarrow> length (fst target) = length (snd target) \<and> (\<forall>i \<in> set (snd target). 0 \<le> i \<and> i < int V)"

definition in_order :: "(nat \<Rightarrow> nat \<Rightarrow> nat \<Rightarrow> int \<times> int) \<Rightarrow> bool" where
  "in_order vocab_range \<longleftrightarrow> (\<forall>n r w. vocab_range n r w = (int (r * n), int (r * n + n)))"

definition id_of :: "topk_row \<Rightarrow> nat \<Rightarrow> nat" where
  "id_of target t = nat (snd target ! t)"

definition active_at :: "real option \<Rightarrow> real \<Rightarrow> bool" where
  "active_at lo x = (case lo of None \<Rightarrow> True | Some c \<Rightarrow> c < x)"

definition q_of :: "real option \<Rightarrow> topk_row \<Rightarrow> nat \<Rightarrow> real" where
  "q_of lo target t = exp (clamp_min lo (fst target ! t))"

text \<open>Element \<open>t\<close> of what rank \<open>r\<close> holds.\<close>

definition share_spec :: "real option \<Rightarrow> nat \<Rightarrow> topk_row \<Rightarrow> real list \<Rightarrow> nat \<Rightarrow> vp_share \<Rightarrow> bool" where
  "share_spec lo n target logps r share \<longleftrightarrow>
     (let k = length (snd target); mine = (\<lambda>t. id_of target t div n = r)
      in vp_in_vocab share = map mine [0..<k] \<and>
         vp_local_ids share = map (\<lambda>t. if mine t then id_of target t - r * n else 0) [0..<k] \<and>
         vp_target_probs share = map (\<lambda>t. if mine t then q_of lo target t else 0) [0..<k] \<and>
         vp_target_logps share = map (\<lambda>t. if mine t then clamp_min lo (fst target ! t) else 0) [0..<k] \<and>
         vp_source_logps share = map (\<lambda>t. if mine t then clamp_min lo (logps ! id_of target t) else 0) [0..<k] \<and>
         (\<forall>t < k. mine t \<longrightarrow> vp_active share ! t = active_at lo (logps ! id_of target t)) \<and>
         (\<forall>t < k. \<not> mine t \<longrightarrow> \<not> vp_active share ! t) \<and> length (vp_active share) = k \<and>
         vp_source_probs share = map exp (take n (drop (r * n) logps)))"

lemma take_drop_shard:
  assumes "\<forall>row \<in> set rows. length row = n" and "r < length rows"
  shows "take n (drop (r * n) (concat rows)) = rows ! r"
proof (rule nth_equalityI)
  have "r * n + n \<le> length rows * n" using assms(2) by (metis mult_Suc add.commute mult_le_mono1 Suc_leI)
  then show len: "length (take n (drop (r * n) (concat rows))) = length (rows ! r)"
    by (simp add: concat_shards(1)[OF assms(1)] assms)
  fix j assume "j < length (take n (drop (r * n) (concat rows)))"
  then show "take n (drop (r * n) (concat rows)) ! j = rows ! r ! j"
    using assms len concat_shards[OF assms(1)] by simp
qed

lemma vp_local_spec:
  assumes rows: "sharded n rows" and r: "r < length rows" and ok: "target_ok (length rows * n) target"
  shows "\<exists>share. vp_local lo (int (r * n), int (r * n + n)) target (rows ! r) = Inr share \<and>
    share_spec lo n target (concat rows) r share"
proof -
  let ?k = "length (snd target)" and ?mine = "\<lambda>t. id_of target t div n = r"
  have n: "0 < n" and len: "length (rows ! r) = n" using rows r by (simp_all add: vp_simps)
  have id: "snd target ! t = int (id_of target t)" "id_of target t < length rows * n" if "t < ?k" for t
    using ok nth_mem[OF that] by (auto simp: target_ok_def id_of_def nat_less_iff)
  have mine: "int (r * n) \<le> snd target ! t \<and> snd target ! t < int (r * n + n) \<longleftrightarrow> ?mine t" if "t < ?k" for t
    using owner_iff[OF n, of r "id_of target t"] id[OF that] by auto
  have in_vocab: "map (\<lambda>i. int (r * n) \<le> i \<and> i < int (r * n + n)) (snd target) = map ?mine [0..<?k]"
    by (intro nth_equalityI) (use mine in simp_all)
  have local: "map2 (\<lambda>b i. if b then i - int (r * n) else 0) (map ?mine [0..<?k]) (snd target) =
      map (\<lambda>t. int (if ?mine t then id_of target t - r * n else 0)) [0..<?k]"
  proof (rule nth_equalityI)
    fix t assume "t < length (map2 (\<lambda>b i. if b then i - int (r * n) else 0) (map ?mine [0..<?k]) (snd target))"
    then have t: "t < ?k" by simp
    have "r * n \<le> id_of target t" if "?mine t" using that by (metis div_times_less_eq_dividend)
    then show "map2 (\<lambda>b i. if b then i - int (r * n) else 0) (map ?mine [0..<?k]) (snd target) ! t =
        map (\<lambda>t. int (if ?mine t then id_of target t - r * n else 0)) [0..<?k] ! t"
      using t id(1)[OF t] by (simp add: of_nat_diff)
  qed simp
  have below: "(if ?mine t then id_of target t - r * n else 0) < n" for t
    using n by (auto simp: minus_mult_div_eq_mod mult.commute[of _ n])
  have src: "rows ! r ! (if ?mine t then id_of target t - r * n else 0) = concat rows ! id_of target t" if "?mine t" for t
  proof -
    have "id_of target t = r * n + (id_of target t - r * n)" using that by (metis le_add_diff_inverse div_times_less_eq_dividend)
    moreover have "id_of target t - r * n < n" using below[of t] that by simp
    ultimately show ?thesis
      using concat_shards(2)[of rows n r "id_of target t - r * n"] rows r that by (simp add: sharded_def)
  qed
  let ?src = "\<lambda>t. rows ! r ! (if ?mine t then id_of target t - r * n else 0)"
  have gathered: "map_res (py_index (rows ! r)) (map (\<lambda>t. int (if ?mine t then id_of target t - r * n else 0)) [0..<?k]) =
      Inr (map ?src [0..<?k])"
    unfolding map_res_bind_map by (rule map_res_all_ok) (use below len in \<open>simp add: py_index_nat\<close>)
  show ?thesis
    unfolding vp_local_def Let_def fst_conv snd_conv in_vocab local gathered bind_res_simps share_spec_def
    using ok src take_drop_shard[of rows n r] rows r
    by (auto simp: zero_outside_def target_ok_def q_of_def active_at_def comp_def sharded_def intro!: nth_equalityI split: option.split)
qed

section \<open>The sums over the ranks\<close>

definition vp_setup :: "nat \<Rightarrow> (nat \<Rightarrow> nat \<Rightarrow> nat \<Rightarrow> int \<times> int) \<Rightarrow> real list list \<Rightarrow> topk_row \<Rightarrow> bool" where
  "vp_setup n vocab_range shards target \<longleftrightarrow> sharded n shards \<and> in_order vocab_range \<and> target_ok (length shards * n) target"

definition shares_spec :: "real option \<Rightarrow> nat \<Rightarrow> topk_row \<Rightarrow> real list list \<Rightarrow> vp_share list \<Rightarrow> bool" where
  "shares_spec lo n target shards ranks \<longleftrightarrow> length ranks = length shards \<and>
     (\<forall>r < length shards. share_spec lo n target (log_softmax (concat shards)) r (ranks ! r))"

lemma vp_ranks:
  assumes "vp_setup n vocab_range shards target"
  shows "\<exists>ranks. map_res (\<lambda>(vr, l). vp_local lo vr target l)
      (zip (map (\<lambda>r. vocab_range (length (shards ! r)) r (length shards)) [0..<length shards])
        (vocab_parallel_log_softmax local_max shards)) = Inr ranks \<and> shares_spec lo n target shards ranks"
proof -
  let ?l = "vocab_parallel_log_softmax local_max shards"
  have sh: "sharded n shards" and range: "vocab_range n r w = (int (r * n), int (r * n + n))" for r w
    using assms by (simp_all add: vp_setup_def in_order_def)
  note l = vocab_parallel_log_softmax_shards[OF sh, of local_max]
  have each: "\<exists>share. vp_local lo (vocab_range (length (shards ! r)) r (length shards)) target (?l ! r) = Inr share \<and>
      share_spec lo n target (log_softmax (concat shards)) r share" if "r < length shards" for r
    using vp_local_spec[OF l(2), of r target lo] that assms l(1,3) sh by (simp add: vp_setup_def vp_simps range)
  define f where "f r = vp_local lo (vocab_range (length (shards ! r)) r (length shards)) target (?l ! r)" for r
  have "zip (map (\<lambda>r. vocab_range (length (shards ! r)) r (length shards)) [0..<length shards]) ?l =
      map (\<lambda>r. (vocab_range (length (shards ! r)) r (length shards), ?l ! r)) [0..<length shards]"
    using l(3) by (intro nth_equalityI) simp_all
  then have "map_res (\<lambda>(vr, l). vp_local lo vr target l) (zip (map (\<lambda>r. vocab_range (length (shards ! r)) r (length shards)) [0..<length shards]) ?l) =
      map_res f [0..<length shards]"
    by (simp add: map_res_bind_map f_def[abs_def])
  moreover obtain g where "\<forall>r < length shards. f r = Inr (g r) \<and> share_spec lo n target (log_softmax (concat shards)) r (g r)"
    using each unfolding f_def by metis
  moreover from this have "map_res f [0..<length shards] = Inr (map g [0..<length shards])"
    by (intro map_res_all_ok) simp
  ultimately show ?thesis by (simp add: shares_spec_def)
qed

lemma sum_owner:
  fixes X :: real
  assumes "i < w * n" and "0 < n"
  shows "sum_list (map (\<lambda>r. if i div n = r then X else 0) [0..<w]) = X"
  using shard_index(1)[OF assms] by (simp add: interv_sum_list_conv_sum_set_nat)

lemma sum_over_ranks:
  fixes h :: "nat \<Rightarrow> real"
  assumes "\<And>r. r < w \<Longrightarrow> f (ranks ! r) = map (\<lambda>t. if id_of target t div n = r then h t else 0) [0..<k]"
    and "length ranks = w" and "0 < n" and "\<And>t. t < k \<Longrightarrow> id_of target t < w * n"
  shows "sum_list (map (\<lambda>r. sum_list (f r)) ranks) = sum_list (map h [0..<k])"
    and "all_reduce_rows k (map f ranks) = map h [0..<k]"
proof -
  have ranks: "ranks = map (\<lambda>r. ranks ! r) [0..<w]" using assms(2) by (simp add: map_nth flip: assms(2))
  have "sum_list (map (\<lambda>r. sum_list (f r)) ranks) = (\<Sum>r<w. \<Sum>t<k. if id_of target t div n = r then h t else 0)"
  proof -
    have "sum_list (map (\<lambda>r. sum_list (f r)) ranks) = (\<Sum>r<w. sum_list (f (ranks ! r)))"
      by (subst ranks) (simp add: comp_def interv_sum_list_conv_sum_set_nat atLeast0LessThan)
    then show ?thesis by (simp add: assms(1) interv_sum_list_conv_sum_set_nat atLeast0LessThan)
  qed
  also have "\<dots> = (\<Sum>t<k. \<Sum>r<w. if id_of target t div n = r then h t else 0)" by (rule sum.swap)
  also have "\<dots> = (\<Sum>t<k. h t)"
    using shard_index(1)[OF assms(4,3)] by (intro sum.cong) simp_all
  finally show "sum_list (map (\<lambda>r. sum_list (f r)) ranks) = sum_list (map h [0..<k])"
    by (simp add: interv_sum_list_conv_sum_set_nat atLeast0LessThan)
  have "sum_list (map (\<lambda>r. f r ! t) ranks) = h t" if "t < k" for t
  proof -
    have "map (\<lambda>r. f r ! t) ranks = map (\<lambda>r. if id_of target t div n = r then h t else 0) [0..<w]"
      using that assms(2) by (intro nth_equalityI) (simp_all add: assms(1))
    then show ?thesis using sum_owner[OF assms(4)[OF that] assms(3)] by simp
  qed
  then show "all_reduce_rows k (map f ranks) = map h [0..<k]"
    by (simp add: all_reduce_rows_def comp_def)
qed

text \<open>The term of one teacher token, and whether it has a gradient.\<close>

definition kl_term :: "real option \<Rightarrow> topk_row \<Rightarrow> real list \<Rightarrow> nat \<Rightarrow> real" where
  "kl_term lo target logps t = q_of lo target t * (clamp_min lo (fst target ! t) - clamp_min lo (logps ! id_of target t))"

lemma vp_setup_ids:
  assumes "vp_setup n vocab_range shards target"
  shows "0 < n" and "t < length (snd target) \<Longrightarrow> id_of target t < length shards * n"
    and "length (fst target) = length (snd target)" and "length (concat shards) = length shards * n"
proof -
  show "id_of target t < length shards * n" if "t < length (snd target)"
    using assms nth_mem[OF that] by (auto simp: vp_setup_def target_ok_def id_of_def nat_less_iff)
qed (use assms in \<open>auto simp: vp_setup_def target_ok_def sharded_def concat_shards\<close>)

lemma shares_sums:
  assumes ok: "vp_setup n vocab_range shards target" and ranks: "shares_spec lo n target shards ranks"
  defines "k \<equiv> length (snd target)" and "logps \<equiv> log_softmax (concat shards)"
  shows "all_reduce_sum (map (\<lambda>r. sum_list (vp_kl r)) ranks) = sum_list (map (kl_term lo target logps) [0..<k])"
    and "all_reduce_rows k (map vp_kl ranks) = map (kl_term lo target logps) [0..<k]"
    and "all_reduce_sum (map (\<lambda>r. sum_list (zero_outside (vp_in_vocab r) (map exp (vp_source_logps r)))) ranks) =
      sum_list (map (\<lambda>t. exp (clamp_min lo (logps ! id_of target t))) [0..<k])"
    and "target_active_mass lo target ranks = sum_list (map (\<lambda>t. if active_at lo (logps ! id_of target t) then q_of lo target t else 0) [0..<k])"
proof -
  note ids = vp_setup_ids[OF ok]
  have spec: "share_spec lo n target logps r (ranks ! r)" if "r < length shards" for r
    using ranks that by (simp add: shares_spec_def logps_def)
  have len: "length ranks = length shards" using ranks by (simp add: shares_spec_def)
  have kl: "vp_kl (ranks ! r) = map (\<lambda>t. if id_of target t div n = r then kl_term lo target logps t else 0) [0..<k]"
    if "r < length shards" for r
    using spec[OF that] by (intro nth_equalityI) (simp_all add: vp_kl_def share_spec_def Let_def k_def kl_term_def)
  have sm: "zero_outside (vp_in_vocab (ranks ! r)) (map exp (vp_source_logps (ranks ! r))) =
      map (\<lambda>t. if id_of target t div n = r then exp (clamp_min lo (logps ! id_of target t)) else 0) [0..<k]" if "r < length shards" for r
    using spec[OF that] by (intro nth_equalityI) (simp_all add: zero_outside_def share_spec_def Let_def k_def)
  have am: "zero_outside (vp_active (ranks ! r)) (vp_target_probs (ranks ! r)) =
      map (\<lambda>t. if id_of target t div n = r then if active_at lo (logps ! id_of target t) then q_of lo target t else 0 else 0) [0..<k]"
    if "r < length shards" for r
    using spec[OF that] by (intro nth_equalityI) (simp_all add: zero_outside_def share_spec_def Let_def k_def)
  have id: "id_of target t < length shards * n" if "t < k" for t using ids(2) that by (simp add: k_def)
  show "all_reduce_sum (map (\<lambda>r. sum_list (vp_kl r)) ranks) = sum_list (map (kl_term lo target logps) [0..<k])"
    and "all_reduce_rows k (map vp_kl ranks) = map (kl_term lo target logps) [0..<k]"
    unfolding all_reduce_sum_def by (rule sum_over_ranks[OF kl len ids(1) id]; assumption)+
  show "all_reduce_sum (map (\<lambda>r. sum_list (zero_outside (vp_in_vocab r) (map exp (vp_source_logps r)))) ranks) =
      sum_list (map (\<lambda>t. exp (clamp_min lo (logps ! id_of target t))) [0..<k])"
    unfolding all_reduce_sum_def by (rule sum_over_ranks(1)[OF sm len ids(1) id])
  show "target_active_mass lo target ranks = sum_list (map (\<lambda>t. if active_at lo (logps ! id_of target t) then q_of lo target t else 0) [0..<k])"
  proof (cases lo)
    case None
    have "map (\<lambda>x. exp (clamp_min None x)) (fst target) = map (q_of None target) [0..<k]"
      using ids(3) by (intro nth_equalityI) (simp_all add: k_def q_of_def)
    then show ?thesis by (simp add: None target_active_mass_def target_topk_mass_def active_at_def)
  next
    case (Some c)
    then show ?thesis
      using sum_over_ranks(1)[OF am len ids(1) id] by (simp add: target_active_mass_def all_reduce_sum_def)
  qed
qed

section \<open>The global top-k from the candidates of the ranks\<close>

text \<open>What \<open>torch.topk\<close> promises: \<open>k\<close> distinct positions whose elements are not below any other.\<close>

definition is_topk :: "nat \<Rightarrow> real list \<Rightarrow> int list \<Rightarrow> bool" where
  "is_topk k xs ids \<longleftrightarrow> distinct ids \<and> length ids = k \<and> (\<forall>i \<in> set ids. 0 \<le> i \<and> i < int (length xs)) \<and>
     (\<forall>i \<in> set ids. \<forall>j < length xs. int j \<notin> set ids \<longrightarrow> xs ! j \<le> xs ! nat i)"

definition topk_law :: "(nat \<Rightarrow> real list \<Rightarrow> int list) \<Rightarrow> bool" where
  "topk_law topk_of \<longleftrightarrow> (\<forall>k xs. k \<le> length xs \<longrightarrow> is_topk k xs (topk_of k xs))"

text \<open>With distinct elements the choice is determined.\<close>

lemma is_topk_unique:
  assumes "is_topk k xs ids" and "is_topk k xs ids'" and "distinct xs"
  shows "set ids = set ids'"
proof -
  have sub: "set a \<subseteq> set b" if a: "is_topk k xs a" and b: "is_topk k xs b" for a b
  proof
    fix i assume i: "i \<in> set a"
    show "i \<in> set b"
    proof (rule ccontr)
      assume "i \<notin> set b"
      have card: "card (set a) = card (set b)" using a b by (simp add: is_topk_def distinct_card)
      then obtain j where j: "j \<in> set b" "j \<notin> set a"
        using i \<open>i \<notin> set b\<close> card_seteq[of "set a" "set b"] by (metis List.finite_set order_refl subsetI)
      have range: "0 \<le> i" "nat i < length xs" "0 \<le> j" "nat j < length xs" using a b i j by (auto simp: is_topk_def)
      have "xs ! nat j \<le> xs ! nat i" using a i j range by (auto simp: is_topk_def)
      moreover have "xs ! nat i \<le> xs ! nat j" using b \<open>i \<notin> set b\<close> j range by (auto simp: is_topk_def)
      ultimately show False using assms(3) range i j by (metis antisym nth_eq_iff_index_eq nat_eq_iff)
    qed
  qed
  show ?thesis using sub[OF assms(1,2)] sub[OF assms(2,1)] by blast
qed

text \<open>The candidates of shard \<open>r\<close>, as tokens of the whole vocabulary.\<close>

definition candidates :: "(nat \<Rightarrow> real list \<Rightarrow> int list) \<Rightarrow> nat \<Rightarrow> nat \<Rightarrow> real list list \<Rightarrow> nat \<Rightarrow> int list" where
  "candidates topk_of k n rows r = map (\<lambda>i. i + int (r * n)) (topk_of (min k n) (rows ! r))"

lemma candidate_facts:
  assumes law: "topk_law topk_of" and rows: "sharded n rows" and r: "r < length rows"
  shows "distinct (candidates topk_of k n rows r)" "length (candidates topk_of k n rows r) = min k n"
    and "g \<in> set (candidates topk_of k n rows r) \<Longrightarrow> 0 \<le> g \<and> g < int (length rows * n) \<and> nat g div n = r"
    and "g \<in> set (candidates topk_of k n rows r) \<Longrightarrow> h < length rows * n \<Longrightarrow> h div n = r \<Longrightarrow>
      int h \<notin> set (candidates topk_of k n rows r) \<Longrightarrow> concat rows ! h \<le> concat rows ! nat g"
proof -
  let ?ids = "topk_of (min k n) (rows ! r)"
  have n: "0 < n" "length (rows ! r) = n" using rows r by (simp_all add: vp_simps)
  have top: "is_topk (min k n) (rows ! r) ?ids" using law n by (simp add: topk_law_def)
  then show "distinct (candidates topk_of k n rows r)" "length (candidates topk_of k n rows r) = min k n"
    by (simp_all add: candidates_def is_topk_def distinct_map inj_on_def)
  have shape: "\<exists>i. g = int (r * n + i) \<and> int i \<in> set ?ids \<and> i < n" if "g \<in> set (candidates topk_of k n rows r)" for g
  proof -
    from that obtain i where i: "i \<in> set ?ids" "g = i + int (r * n)" by (auto simp: candidates_def)
    then have "0 \<le> i" "i < int n" using top n by (auto simp: is_topk_def)
    then show ?thesis using i by (intro exI[of _ "nat i"]) auto
  qed
  have le: "r * n + n \<le> length rows * n" using r by (metis mult_Suc add.commute mult_le_mono1 Suc_leI)
  show "0 \<le> g \<and> g < int (length rows * n) \<and> nat g div n = r" if g: "g \<in> set (candidates topk_of k n rows r)"
  proof -
    obtain i where i: "g = int (r * n + i)" "i < n" using shape[OF g] by blast
    then have "r * n + i < length rows * n" using le by simp
    moreover have "(r * n + i) div n = r" using i n by simp
    ultimately show ?thesis unfolding i(1) by (metis nat_int of_nat_0_le_iff of_nat_less_iff)
  qed
  show "concat rows ! h \<le> concat rows ! nat g"
    if g: "g \<in> set (candidates topk_of k n rows r)" and h: "h < length rows * n" "h div n = r"
      "int h \<notin> set (candidates topk_of k n rows r)"
  proof -
    obtain i where i: "g = int (r * n + i)" "int i \<in> set ?ids" "i < n" using shape[OF g] by blast
    have h': "h = r * n + h mod n" "h mod n < n" using h(2) n by auto
    have "int (h mod n) \<notin> set ?ids"
    proof
      assume "int (h mod n) \<in> set ?ids"
      then have "int (h mod n) + int (r * n) \<in> set (candidates topk_of k n rows r)" by (simp add: candidates_def)
      moreover have "int (h mod n) + int (r * n) = int h" using h'(1) by linarith
      ultimately show False using h(3) by simp
    qed
    moreover have "\<forall>i \<in> set ?ids. \<forall>j < n. int j \<notin> set ?ids \<longrightarrow> rows ! r ! j \<le> rows ! r ! nat i"
      using top n(2) by (simp add: is_topk_def)
    ultimately have "rows ! r ! (h mod n) \<le> rows ! r ! nat (int i)" using i(2) h'(2) by blast
    moreover have "nat g = r * n + i" by (simp only: i(1) nat_int)
    ultimately show ?thesis
      using concat_shards(2)[of rows n r "h mod n"] concat_shards(2)[of rows n r i] rows r i h' by (simp add: sharded_def)
  qed
qed

text \<open>All candidates, in the order of the ranks.\<close>

definition all_candidates :: "(nat \<Rightarrow> real list \<Rightarrow> int list) \<Rightarrow> nat \<Rightarrow> nat \<Rightarrow> real list list \<Rightarrow> int list" where
  "all_candidates topk_of k n rows = concat (map (candidates topk_of k n rows) [0..<length rows])"

lemma distinct_concat_owned:
  assumes "\<And>r. r < w \<Longrightarrow> distinct (c r)" and "\<And>r g. r < w \<Longrightarrow> g \<in> set (c r) \<Longrightarrow> own g = r"
  shows "distinct (concat (map c [0..<w]))"
  using assms
proof (induction w)
  case (Suc w)
  have "set (concat (map c [0..<w])) \<inter> set (c w) = {}"
  proof (rule ccontr)
    assume "set (concat (map c [0..<w])) \<inter> set (c w) \<noteq> {}"
    then obtain g r where "r < w" "g \<in> set (c r)" "g \<in> set (c w)" by auto
    then show False using Suc.prems(2)[of r g] Suc.prems(2)[of w g] by simp
  qed
  then show ?case using Suc by (auto simp: less_Suc_eq)
qed simp

lemma all_candidates_facts:
  assumes law: "topk_law topk_of" and rows: "sharded n rows"
  shows "distinct (all_candidates topk_of k n rows)" "length (all_candidates topk_of k n rows) = length rows * min k n"
    and "g \<in> set (all_candidates topk_of k n rows) \<Longrightarrow> 0 \<le> g \<and> g < int (length rows * n)"
proof -
  note c = candidate_facts[OF law rows, where k = k]
  show "distinct (all_candidates topk_of k n rows)"
    unfolding all_candidates_def by (rule distinct_concat_owned[where own = "\<lambda>g. nat g div n"]) (use c(1,3) in blast)+
  show "length (all_candidates topk_of k n rows) = length rows * min k n"
  proof -
    have "map (length \<circ> candidates topk_of k n rows) [0..<length rows] = map (\<lambda>r. min k n) [0..<length rows]" using c(2) by simp
    then show ?thesis by (simp only: all_candidates_def length_concat map_map) (simp add: sum_list_triv)
  qed
  show "0 \<le> g \<and> g < int (length rows * n)" if "g \<in> set (all_candidates topk_of k n rows)"
    using that c(3) by (auto simp: all_candidates_def)
qed

text \<open>The best of the candidates are the best of all.\<close>

lemma topk_of_candidates:
  assumes law: "topk_law topk_of" and rows: "sharded n rows" and k: "k \<le> length rows * n"
    and pos: "is_topk k (map (\<lambda>g. concat rows ! nat g) (all_candidates topk_of k n rows)) pos"
  shows "is_topk k (concat rows) (map (\<lambda>p. all_candidates topk_of k n rows ! nat p) pos)" (is "is_topk k ?xs ?res")
proof -
  let ?G = "all_candidates topk_of k n rows"
  note G = all_candidates_facts[OF law rows, where k = k]
  have n: "0 < n" and xs: "length ?xs = length rows * n" using rows by (simp_all add: sharded_def concat_shards)
  have p: "distinct pos" "length pos = k" "\<And>p. p \<in> set pos \<Longrightarrow> 0 \<le> p \<and> nat p < length ?G"
    using pos by (auto simp: is_topk_def)
  have dist: "distinct ?res"
    using p(1) G(1) p(3) by (auto simp: distinct_map inj_on_def nth_eq_iff_index_eq eq_nat_nat_iff)
  have range: "0 \<le> g \<and> g < int (length ?xs)" if "g \<in> set ?res" for g
  proof -
    have "g \<in> set ?G" using that p(3) by auto
    then show ?thesis using G(3) xs by simp
  qed
  have known: "?xs ! h \<le> ?xs ! nat g" if g: "g \<in> set ?res" and h: "int h \<in> set ?G" "int h \<notin> set ?res" for g h
  proof -
    obtain a where a: "a \<in> set pos" "g = ?G ! nat a" using g by auto
    obtain b where b: "b < length ?G" "?G ! b = int h" using h(1) by (auto simp: in_set_conv_nth)
    have "int b \<notin> set pos" using h(2) b by force
    then have "map (\<lambda>g. ?xs ! nat g) ?G ! b \<le> map (\<lambda>g. ?xs ! nat g) ?G ! nat a"
      using pos a b(1) by (simp add: is_topk_def del: nth_map)
    then show ?thesis using a b p(3)[OF a(1)] by simp
  qed
  have "?xs ! h \<le> ?xs ! nat g" if g: "g \<in> set ?res" and h: "h < length ?xs" "int h \<notin> set ?res" for g h
  proof (cases "int h \<in> set ?G")
    case False
    let ?r = "h div n"
    have r: "?r < length rows" using h(1) xs n by (simp add: less_mult_imp_div_less)
    note c = candidate_facts[OF law rows r, where k = k]
    have sub: "set (candidates topk_of k n rows ?r) \<subseteq> set ?G" using r by (auto simp: all_candidates_def)
    then have out: "int h \<notin> set (candidates topk_of k n rows ?r)" using False by blast
    have le: "?xs ! h \<le> ?xs ! nat e" if "e \<in> set (candidates topk_of k n rows ?r)" for e
      using c(4)[OF that _ refl out] h(1) xs by simp
    have "k < n"
    proof (rule ccontr)
      assume "\<not> k < n"
      then have "card (set (candidates topk_of k n rows ?r)) = n" using c(1,2) by (simp add: distinct_card)
      moreover have "set (candidates topk_of k n rows ?r) \<subseteq> (\<lambda>i. int (?r * n + i)) ` {..<n}"
      proof
        fix e assume e: "e \<in> set (candidates topk_of k n rows ?r)"
        obtain m where m: "e = int m" using c(3)[OF e] by (metis nonneg_int_cases)
        then have "m div n = ?r" using c(3)[OF e] by simp
        then have eq: "m = ?r * n + m mod n" by (metis div_mult_mod_eq)
        have "m mod n \<in> {..<n}" using n by simp
        then show "e \<in> (\<lambda>i. int (?r * n + i)) ` {..<n}"
          unfolding m by (rule image_eqI[rotated]) (rule arg_cong[OF eq])
      qed
      ultimately have "set (candidates topk_of k n rows ?r) = (\<lambda>i. int (?r * n + i)) ` {..<n}"
        using card_image_le[of "{..<n}" "\<lambda>i. int (?r * n + i)"] by (intro card_seteq) simp_all
      moreover have "int h = int (?r * n + h mod n)" by simp
      ultimately show False using out n by (metis image_eqI lessThan_iff mod_less_divisor)
    qed
    then have card: "card (set (candidates topk_of k n rows ?r)) = card (set ?res)"
      using c(1,2) dist p(2) by (simp add: distinct_card del: set_map)
    show ?thesis
    proof (cases "set (candidates topk_of k n rows ?r) \<subseteq> set ?res")
      case True
      then have "set (candidates topk_of k n rows ?r) = set ?res"
        using card by (intro card_subset_eq) simp_all
      then show ?thesis using le g by blast
    next
      case f: False
      then obtain e where e: "e \<in> set (candidates topk_of k n rows ?r)" "e \<notin> set ?res" by blast
      then have "?xs ! h \<le> ?xs ! nat e" "0 \<le> e" using le c(3) by simp_all
      moreover have "?xs ! nat e \<le> ?xs ! nat g" using known[OF g, of "nat e"] e sub \<open>0 \<le> e\<close> by auto
      ultimately show ?thesis by linarith
    qed
  qed (use known g h in blast)
  then show ?thesis using dist range p(2) by (simp add: is_topk_def del: set_map)
qed

lemma local_candidates_ok:
  assumes law: "topk_law topk_of" and rows: "sharded n rows" and r: "r < length rows"
  shows "local_candidates topk_of k (int (r * n)) (rows ! r) =
    Inr (map (\<lambda>g. concat rows ! nat g) (candidates topk_of k n rows r), candidates topk_of k n rows r)"
proof -
  let ?ids = "topk_of (min k n) (rows ! r)"
  have n: "length (rows ! r) = n" using rows r by (simp add: vp_simps)
  have top: "is_topk (min k n) (rows ! r) ?ids" using law n by (simp add: topk_law_def)
  then have "gather (rows ! r) ?ids = Inr (map (\<lambda>i. rows ! r ! nat i) ?ids)"
    unfolding gather_def by (intro map_res_all_ok) (auto simp: is_topk_def)
  moreover have "concat rows ! nat (i + int (r * n)) = rows ! r ! nat i" if "i \<in> set ?ids" for i
  proof -
    have i: "0 \<le> i" "nat i < n" using top that n by (auto simp: is_topk_def)
    then have "nat (i + int (r * n)) = r * n + nat i" by (simp add: nat_add_distrib del: of_nat_mult)
    then show ?thesis using concat_shards(2)[of rows n r "nat i"] rows r i by (simp add: sharded_def)
  qed
  ultimately show ?thesis by (simp add: local_candidates_def torch_topk_def n candidates_def)
qed

lemma student_topk_ids_ok:
  assumes law: "topk_law topk_of" and rows: "sharded n rows" and k: "k \<le> length rows * n"
  shows "\<exists>ids. student_topk_ids topk_of k (map (\<lambda>r. int (r * n)) [0..<length rows]) rows = Inr ids \<and> is_topk k (concat rows) ids"
proof -
  let ?G = "all_candidates topk_of k n rows" and ?lp = "\<lambda>g. concat rows ! nat g"
  let ?c = "candidates topk_of k n rows"
  have "zip (map (\<lambda>r. int (r * n)) [0..<length rows]) rows = map (\<lambda>r. (int (r * n), rows ! r)) [0..<length rows]"
    by (intro nth_equalityI) simp_all
  then have "map_res (\<lambda>(s, l). local_candidates topk_of k s l) (zip (map (\<lambda>r. int (r * n)) [0..<length rows]) rows) =
      Inr (map (\<lambda>r. (map ?lp (?c r), ?c r)) [0..<length rows])"
    unfolding map_res_bind_map[symmetric] by (simp add: map_res_bind_map del: of_nat_mult)
      (rule map_res_all_ok, use local_candidates_ok[OF law rows] in simp)
  moreover have "concat (map fst (map (\<lambda>r. (map ?lp (?c r), ?c r)) [0..<length rows])) = map ?lp ?G"
    by (simp add: all_candidates_def map_concat comp_def)
  moreover have "concat (map snd (map (\<lambda>r. (map ?lp (?c r), ?c r)) [0..<length rows])) = ?G"
    by (simp add: all_candidates_def comp_def)
  ultimately have eq: "student_topk_ids topk_of k (map (\<lambda>r. int (r * n)) [0..<length rows]) rows =
      bind_res (torch_topk topk_of k (map ?lp ?G)) (\<lambda>pos. map_res (py_index ?G) pos)"
    unfolding student_topk_ids_def by (simp only: bind_res_simps Let_def)
  have "k \<le> length rows * min k n"
    using k rows by (cases rows) (auto simp: min_def sharded_def)
  then have le: "k \<le> length (map ?lp ?G)" using all_candidates_facts(2)[OF law rows, of k] by simp
  then have pos: "is_topk k (map ?lp ?G) (topk_of k (map ?lp ?G))" using law by (simp add: topk_law_def)
  have "map_res (py_index ?G) (topk_of k (map ?lp ?G)) = Inr (map (\<lambda>p. ?G ! nat p) (topk_of k (map ?lp ?G)))"
    by (rule map_res_all_ok) (use pos in \<open>auto simp: is_topk_def py_index_def\<close>)
  then show ?thesis
    unfolding eq torch_topk_def using le topk_of_candidates[OF law rows k pos] by simp
qed

section \<open>The same loss as on one device\<close>

lemma kl_terms:
  assumes "length (fst target) = length (snd target)"
  shows "map2 (\<lambda>t s. exp t * (t - s)) (map (clamp_min lo) (fst target)) (map (clamp_min lo) (picked_log_probs zs target)) =
    map (kl_term lo target (log_softmax zs)) [0..<length (snd target)]"
  by (intro nth_equalityI) (use assms in \<open>simp_all add: kl_term_def q_of_def picked_log_probs_def id_of_def\<close>)

lemma vp_forward_value:
  assumes ok: "vp_setup n vocab_range shards target" and law: "topk_law topk_of"
    and k: "length (snd target) \<le> length shards * n"
  shows "\<exists>ids ranks. is_topk (length (snd target)) (log_softmax (concat shards)) ids \<and>
    shares_spec lo n target shards ranks \<and>
    vp_forward topk_of local_max vocab_range lo target shards =
      Inr ((forward_kl_topk_token lo (picked_log_probs (concat shards) target) ids target)
        \<lparr> student_mass := mass (map (clamp_min lo) (picked_log_probs (concat shards) target)),
          teacher_mass := mass (map (clamp_min lo) (fst target)) \<rparr>, ranks)"
proof -
  let ?k = "length (snd target)" and ?lsm = "log_softmax (concat shards)" and ?l = "vocab_parallel_log_softmax local_max shards"
  have sh: "sharded n shards" and range: "vocab_range m r w = (int (r * m), int (r * m + m))" for m r w
    using ok by (simp_all add: vp_setup_def in_order_def)
  note l = vocab_parallel_log_softmax_shards[OF sh, of local_max] and len = vp_setup_ids[OF ok]
  obtain ranks where ranks: "map_res (\<lambda>(vr, l). vp_local lo vr target l)
      (zip (map (\<lambda>r. vocab_range (length (shards ! r)) r (length shards)) [0..<length shards]) ?l) = Inr ranks"
      "shares_spec lo n target shards ranks" using vp_ranks[OF ok] by metis
  obtain ids where ids: "student_topk_ids topk_of ?k (map (\<lambda>r. int (r * n)) [0..<length shards]) ?l = Inr ids"
      "is_topk ?k ?lsm ids"
    using student_topk_ids_ok[OF law l(2), of ?k] k l(1,3) by auto
  have starts: "map fst (map (\<lambda>r. vocab_range (length (shards ! r)) r (length shards)) [0..<length shards]) =
      map (\<lambda>r. int (r * n)) [0..<length shards]"
    using sh by (intro nth_equalityI) (simp_all add: range vp_simps)
  note sums = shares_sums[OF ok ranks(2)]
  let ?s = "map (clamp_min lo) (picked_log_probs (concat shards) target)" and ?t = "map (clamp_min lo) (fst target)"
  have s: "?s = map (\<lambda>t. clamp_min lo (?lsm ! id_of target t)) [0..<?k]"
    by (intro nth_equalityI) (simp_all add: picked_log_probs_def id_of_def)
  have "mass ?s = sum_list (map (\<lambda>t. exp (clamp_min lo (?lsm ! id_of target t))) [0..<?k])"
    unfolding s by (simp add: mass_def comp_def)
  moreover have "mass ?t = target_topk_mass lo target" by (simp add: mass_def target_topk_mass_def comp_def)
  ultimately have "vp_forward topk_of local_max vocab_range lo target shards =
      Inr ((forward_kl_topk_token lo (picked_log_probs (concat shards) target) ids target)
        \<lparr> student_mass := mass ?s, teacher_mass := mass ?t \<rparr>, ranks)"
    unfolding vp_forward_def Let_def ranks(1) bind_res_simps starts ids(1) sums
    by (simp add: forward_kl_topk_token_def Let_def forward_kl_def kl_terms[OF len(3)])
  then show ?thesis using ids(2) ranks(2) by blast
qed

section \<open>The backward pass is the gradient\<close>

lemma sum_list_update_real: "v < length xs \<Longrightarrow> sum_list (xs[v := x]) = sum_list xs - xs ! v + (x :: real)"
  by (induction xs arbitrary: v) (auto simp: nth_Cons list_update.simps split: nat.split)

lemma log_softmax_update:
  assumes "v < length zs" and "i < length zs"
  shows "log_softmax (zs[v := x]) ! i =
    (if i = v then x else zs ! i) - ln (sum_list (map exp zs) - exp (zs ! v) + exp x)"
  using assms by (simp add: log_softmax_def map_update sum_list_update_real nth_list_update)

lemma log_softmax_deriv:
  assumes "v < length zs" and "i < length zs"
  shows "((\<lambda>x. log_softmax (zs[v := x]) ! i) has_real_derivative (if i = v then 1 else 0) - exp (log_softmax zs ! v)) (at (zs ! v))"
proof -
  let ?S = "sum_list (map exp zs)"
  have pos: "0 < ?S" using assms(1) by (intro sum_exp_pos_list) auto
  have d: "exp (log_softmax zs ! v) = exp (zs ! v) / ?S"
    using assms(1) pos by (simp add: log_softmax_def exp_diff)
  have "((\<lambda>x. (if i = v then x else zs ! i) - ln (?S - exp (zs ! v) + exp x)) has_real_derivative
      (if i = v then 1 else 0) - exp (zs ! v) / ?S) (at (zs ! v))"
    using pos by (cases "i = v") (auto intro!: derivative_eq_intros)
  then show ?thesis using assms by (simp add: log_softmax_update d)
qed

lemma max_deriv:
  assumes "y \<noteq> (c :: real)"
  shows "((\<lambda>y. max y c) has_real_derivative (if c < y then 1 else 0)) (at y)"
proof (cases "c < y")
  case True
  have "eventually (\<lambda>z. max z c = z) (nhds y)"
    using eventually_nhds_in_open[of "{c<..}" y] True by (auto elim!: eventually_mono)
  then show ?thesis using True DERIV_cong_ev[of y y "\<lambda>z. max z c" "\<lambda>z. z" 1 1] by simp
next
  case False
  have "eventually (\<lambda>z. max z c = c) (nhds y)"
    using eventually_nhds_in_open[of "{..<c}" y] False assms by (auto elim!: eventually_mono)
  then show ?thesis using False DERIV_cong_ev[of y y "\<lambda>z. max z c" "\<lambda>z. c" 0 0] by simp
qed

lemma clamp_deriv:
  assumes "(f has_real_derivative D) (at a)" and "lo \<noteq> Some (f a)"
  shows "((\<lambda>x. clamp_min lo (f x)) has_real_derivative (if active_at lo (f a) then D else 0)) (at a)"
proof (cases lo)
  case None
  then show ?thesis using assms by (simp add: clamp_min_def active_at_def)
next
  case (Some c)
  then have "((\<lambda>y. max y c) has_real_derivative (if c < f a then 1 else 0)) (at (f a))"
    using assms(2) by (intro max_deriv) auto
  from DERIV_chain2[OF this assms(1)] show ?thesis
    by (cases "c < f a") (simp_all add: Some clamp_min_def active_at_def)
qed

lemma scatter_add_fold:
  assumes "\<forall>p \<in> set ps. fst p < length xs" and "j < length xs"
  shows "foldl (\<lambda>out (i, x). out[i := out ! i + x]) xs ps ! j = xs ! j + sum_list (map (\<lambda>(i, x). if i = j then x else 0) ps) \<and>
    length (foldl (\<lambda>out (i, x). out[i := out ! i + x]) xs ps) = length (xs :: real list)"
  using assms by (induction ps arbitrary: xs) (auto simp: nth_list_update)

lemma concat_update_shard:
  assumes "\<forall>row \<in> set rows. length row = n" and "r < length rows" and "j < n"
  shows "concat (rows[r := (rows ! r)[j := x]]) = (concat rows)[r * n + j := x]"
  using assms
proof (induction rows arbitrary: r)
  case (Cons row rows)
  then show ?case by (cases r) (simp_all add: list_update_append)
qed simp

lemma sharded_update: "sharded n rows \<Longrightarrow> r < length rows \<Longrightarrow> sharded n (rows[r := (rows ! r)[j := x]])"
  by (auto simp: sharded_def dest!: in_set_takeD set_update_subset_insert[THEN subsetD])

text \<open>Element \<open>j\<close> of the gradient of rank \<open>r\<close>.\<close>

lemma vp_backward_nth:
  assumes ok: "vp_setup n vocab_range shards target" and ranks: "shares_spec lo n target shards ranks"
    and r: "r < length shards" and j: "j < n"
  defines "k \<equiv> length (snd target)" and "logps \<equiv> log_softmax (concat shards)"
  shows "vp_backward g (target_active_mass lo target ranks) (ranks ! r) ! j =
    (exp (logps ! (r * n + j)) * sum_list (map (\<lambda>t. if active_at lo (logps ! id_of target t) then q_of lo target t else 0) [0..<k]) -
     sum_list (map (\<lambda>t. if id_of target t = r * n + j \<and> active_at lo (logps ! id_of target t) then q_of lo target t else 0) [0..<k])) * g"
proof -
  have spec: "share_spec lo n target logps r (ranks ! r)" using ranks r by (simp add: shares_spec_def logps_def)
  note ids = vp_setup_ids[OF ok]
  let ?act = "\<lambda>t. active_at lo (logps ! id_of target t)" and ?mine = "\<lambda>t. id_of target t div n = r"
  have active: "vp_active (ranks ! r) = map (\<lambda>t. ?mine t \<and> ?act t) [0..<k]"
    using spec by (intro nth_equalityI) (auto simp: share_spec_def Let_def k_def)
  have src: "zero_outside (vp_active (ranks ! r)) (vp_target_probs (ranks ! r)) = map (\<lambda>t. if ?mine t \<and> ?act t then q_of lo target t else 0) [0..<k]"
    using spec by (intro nth_equalityI) (auto simp: active zero_outside_def share_spec_def Let_def k_def)
  have local: "vp_local_ids (ranks ! r) = map (\<lambda>t. if ?mine t then id_of target t - r * n else 0) [0..<k]"
    using spec by (simp add: share_spec_def Let_def k_def)
  have V: "r * n + n \<le> length (concat shards)" using r ids(4) by (metis mult_Suc add.commute mult_le_mono1 Suc_leI)
  then have len: "length (vp_source_probs (ranks ! r)) = n" "vp_source_probs (ranks ! r) ! j = exp (logps ! (r * n + j))"
    using spec j by (simp_all add: share_spec_def Let_def logps_def log_softmax_def)
  have below: "(if ?mine t then id_of target t - r * n else 0) < n" for t
    using ids(1) by (auto simp: minus_mult_div_eq_mod mult.commute[of _ n])
  have hit: "(if (if ?mine t then id_of target t - r * n else 0) = j then - (if ?mine t \<and> ?act t then q_of lo target t else 0) else 0) =
      - (if id_of target t = r * n + j \<and> ?act t then q_of lo target t else 0)" for t
  proof (cases "?mine t")
    case True
    then have "r * n \<le> id_of target t" by (metis div_times_less_eq_dividend)
    then have "id_of target t - r * n = j \<longleftrightarrow> id_of target t = r * n + j" by linarith
    moreover have "(r * n + j) div n = r" using j by simp
    ultimately show ?thesis using True by simp
  next
    case False
    then have "id_of target t \<noteq> r * n + j" using j by auto
    then show ?thesis using False by simp
  qed
  let ?m = "target_active_mass lo target ranks"
  let ?ps = "zip (vp_local_ids (ranks ! r)) (map uminus (zero_outside (vp_active (ranks ! r)) (vp_target_probs (ranks ! r))))"
  have ps: "?ps = map (\<lambda>t. (if ?mine t then id_of target t - r * n else 0, - (if ?mine t \<and> ?act t then q_of lo target t else 0))) [0..<k]"
    unfolding src local by (intro nth_equalityI) simp_all
  have "scatter_add (map (\<lambda>p. p * ?m) (vp_source_probs (ranks ! r))) (vp_local_ids (ranks ! r))
      (map uminus (zero_outside (vp_active (ranks ! r)) (vp_target_probs (ranks ! r)))) ! j =
    exp (logps ! (r * n + j)) * ?m - sum_list (map (\<lambda>t. if id_of target t = r * n + j \<and> ?act t then q_of lo target t else 0) [0..<k])"
    unfolding scatter_add_def ps
    using scatter_add_fold[of "map (\<lambda>t. (if ?mine t then id_of target t - r * n else 0, - (if ?mine t \<and> ?act t then q_of lo target t else 0))) [0..<k]"
        "map (\<lambda>p. p * ?m) (vp_source_probs (ranks ! r))" j] below len j
    by (simp add: comp_def hit uminus_sum_list_map[symmetric, unfolded comp_def])
  moreover have "length (scatter_add (map (\<lambda>p. p * ?m) (vp_source_probs (ranks ! r))) (vp_local_ids (ranks ! r))
      (map uminus (zero_outside (vp_active (ranks ! r)) (vp_target_probs (ranks ! r))))) = n"
    unfolding scatter_add_def ps
    using scatter_add_fold[of "map (\<lambda>t. (if ?mine t then id_of target t - r * n else 0, - (if ?mine t \<and> ?act t then q_of lo target t else 0))) [0..<k]"
        "map (\<lambda>p. p * ?m) (vp_source_probs (ranks ! r))" j] below len j by simp
  ultimately show ?thesis
    using j shares_sums(4)[OF ok ranks] by (simp add: vp_backward_def Let_def k_def logps_def)
qed

lemma mass_clamped:
  "mass xs \<le> mass (map (clamp_min (Some c)) xs) \<and>
    (mass (map (clamp_min (Some c)) xs) = mass xs \<longleftrightarrow> (\<forall>x \<in> set xs. c \<le> x))"
proof (induction xs)
  case (Cons x xs)
  have sums: "mass (x # xs) = exp x + mass xs" "mass (map (clamp_min (Some c)) (x # xs)) = exp (max x c) + mass (map (clamp_min (Some c)) xs)"
    by (simp_all add: mass_def clamp_min_def)
  have "exp x \<le> exp (max x c)" "exp (max x c) = exp x \<longleftrightarrow> c \<le> x" by auto
  then show ?case using Cons.IH unfolding sums set_simps ball_simps by (smt (verit))
qed (simp add: mass_def)

lemma fsdp_one_token:
  assumes "vp_setup n vocab_range shards target" and "\<not> use_chunked_topk config"
  shows "fsdp_forward_kl_topk topk_of config None k [target] [concat shards] =
    Inr [forward_kl_topk_token (log_prob_min_clamp config) (picked_log_probs (concat shards) target)
      (topk_of k (log_softmax (concat shards))) target]"
proof -
  have "fits (concat shards) target"
    using assms(1) vp_setup_ids(4)[OF assms(1)] by (auto simp: vp_setup_def target_ok_def fits_def)
  then show ?thesis using assms(2) by (simp add: fsdp_forward_kl_topk_def gather_fits)
qed

lemma distinct_log_softmax: "distinct zs \<Longrightarrow> distinct (log_softmax zs)"
  by (simp add: log_softmax_def distinct_map inj_on_def)

text \<open>
  C8: tensor parallelism does not change the loss: for any logits, ties included, split over any number of ranks of one shard size, and
  any teacher ids of the vocabulary, Megatron's forward pass returns, and the sum of its shares is the loss that FSDP computes from the whole
  row.  Its two masses are those of the clamped log-probabilities, where FSDP takes the unclamped ones.  The overlap
  diagnostics depend on which of several equal logits \<open>torch.topk\<close> takes: when no two logits are equal they agree too, so that the
  outputs differ in the masses only.
\<close>

theorem vocab_parallel_matches_fsdp:
  assumes ok: "vp_setup n vocab_range shards target" and law: "topk_law topk_of"
    and k: "length (snd target) \<le> length shards * n"
    and config: "\<not> use_chunked_topk config" "log_prob_min_clamp config = lo"
  shows "\<exists>full out ranks. fsdp_forward_kl_topk topk_of config None (length (snd target)) [target] [concat shards] = Inr [full] \<and>
    vp_forward topk_of local_max vocab_range lo target shards = Inr (out, ranks) \<and>
    distillation_losses out = distillation_losses full \<and>
    student_mass out = mass (map (clamp_min lo) (picked_log_probs (concat shards) target)) \<and>
    teacher_mass out = mass (map (clamp_min lo) (fst target)) \<and>
    (distinct (concat shards) \<longrightarrow> out = full\<lparr> student_mass := student_mass out, teacher_mass := teacher_mass out \<rparr>)"
proof -
  let ?k = "length (snd target)" and ?lsm = "log_softmax (concat shards)"
  let ?token = "\<lambda>ids. forward_kl_topk_token lo (picked_log_probs (concat shards) target) ids target"
  obtain ids ranks where v: "is_topk ?k ?lsm ids" "vp_forward topk_of local_max vocab_range lo target shards =
      Inr ((?token ids)\<lparr> student_mass := mass (map (clamp_min lo) (picked_log_probs (concat shards) target)),
          teacher_mass := mass (map (clamp_min lo) (fst target)) \<rparr>, ranks)"
    using vp_forward_value[OF ok law k] by metis
  have full: "fsdp_forward_kl_topk topk_of config None ?k [target] [concat shards] = Inr [?token (topk_of ?k ?lsm)]"
    using fsdp_one_token[OF ok config(1)] config(2) by simp
  have loss: "distillation_losses (?token xs) = distillation_losses (?token ys)" for xs ys
    by (simp add: forward_kl_topk_token_def Let_def)
  have "is_topk ?k ?lsm (topk_of ?k ?lsm)"
    using law k vp_setup_ids(4)[OF ok] by (simp add: topk_law_def log_softmax_def)
  then have "set ids = set (topk_of ?k ?lsm)" if "distinct (concat shards)"
    using is_topk_unique[OF v(1) _ distinct_log_softmax[OF that]] by blast
  then have "?token ids = ?token (topk_of ?k ?lsm)" if "distinct (concat shards)"
    using that by (simp add: forward_kl_topk_token_def overlap_mask_def)
  then show ?thesis using v(2) full loss[of ids "topk_of ?k ?lsm"] by fastforce
qed

text \<open>An executable \<open>torch.topk\<close>: the first \<open>k\<close> positions of a stable sort.\<close>

definition sort_topk :: "nat \<Rightarrow> real list \<Rightarrow> int list" where
  "sort_topk k xs = map int (take k (sort_key (\<lambda>i. - xs ! i) [0..<length xs]))"

lemma sort_topk_law: "topk_law sort_topk"
  unfolding topk_law_def
proof (intro allI impI)
  fix k and xs :: "real list" assume k: "k \<le> length xs"
  define ps where "ps = sort_key (\<lambda>i. - xs ! i) [0..<length xs]"
  have ps: "distinct ps" "set ps = {..<length xs}" "length ps = length xs" by (auto simp: ps_def)
  have sorted: "sorted (map (\<lambda>i. - xs ! i) ps)" by (simp add: ps_def)
  have "xs ! j \<le> xs ! i" if i: "i \<in> set (take k ps)" and j: "j < length xs" "j \<notin> set (take k ps)" for i j
  proof -
    have "set ps = set (take k ps) \<union> set (drop k ps)" by (metis append_take_drop_id set_append)
    then have "j \<in> set (drop k ps)" using ps(2) j by auto
    moreover have "\<forall>a \<in> set (take k ps). \<forall>b \<in> set (drop k ps). - xs ! a \<le> - xs ! b"
    proof -
      have "sorted (map (\<lambda>i. - xs ! i) (take k ps @ drop k ps))" using sorted by simp
      then show ?thesis by (simp add: sorted_append del: append_take_drop_id)
    qed
    ultimately show ?thesis using i by fastforce
  qed
  moreover have "i < length xs" if "i \<in> set (take k ps)" for i using that ps(2) in_set_takeD by fastforce
  ultimately show "is_topk k xs (sort_topk k xs)"
    using k ps by (auto simp: is_topk_def sort_topk_def ps_def[symmetric] distinct_map distinct_take inj_image_mem_iff[OF inj_of_nat])
qed

theorem vocab_parallel_matches_fsdp_witness:
  "\<exists>full out ranks. fsdp_forward_kl_topk sort_topk (plain_loss_config ''forward_kl_topk'' None) None 2 [([- 1, - 2], [3, 0])] [[0, 1, 1, 0]] = Inr [full] \<and>
    vp_forward sort_topk hd (\<lambda>n r w. (int (r * n), int (r * n + n))) None ([- 1, - 2], [3, 0]) [[0, 1], [1, 0]] = Inr (out, ranks) \<and>
    distillation_losses out = distillation_losses full"
proof -
  have "vp_setup 2 (\<lambda>n r w. (int (r * n), int (r * n + n))) [[0, 1], [1, 0]] ([- 1, - 2], [3, 0])"
    by (simp add: vp_setup_def sharded_def in_order_def target_ok_def)
  from vocab_parallel_matches_fsdp[OF this sort_topk_law, of "plain_loss_config ''forward_kl_topk'' None" None hd] show ?thesis
    by (simp add: plain_loss_config_def numeral_2_eq_2) blast
qed

text \<open>
  Megatron reports masses that count clamped tokens: the student's and the teacher's mass on the teacher's top-\<open>k\<close> are at least
  those FSDP reports for the same token, and larger as soon as one of the tokens has a log-probability below the clamp.
\<close>

theorem megatron_masses_count_clamped_tokens:
  assumes ok: "vp_setup n vocab_range shards target" and law: "topk_law topk_of"
    and k: "length (snd target) \<le> length shards * n"
    and config: "\<not> use_chunked_topk config" "log_prob_min_clamp config = Some c"
  shows "\<exists>full out ranks. fsdp_forward_kl_topk topk_of config None (length (snd target)) [target] [concat shards] = Inr [full] \<and>
    vp_forward topk_of local_max vocab_range (Some c) target shards = Inr (out, ranks) \<and>
    student_mass full \<le> student_mass out \<and> teacher_mass full \<le> teacher_mass out \<and>
    (student_mass out = student_mass full \<longleftrightarrow> (\<forall>x \<in> set (picked_log_probs (concat shards) target). c \<le> x)) \<and>
    (teacher_mass out = teacher_mass full \<longleftrightarrow> (\<forall>x \<in> set (fst target). c \<le> x))"
proof -
  let ?p = "picked_log_probs (concat shards) target"
  obtain ids ranks where v: "vp_forward topk_of local_max vocab_range (Some c) target shards =
      Inr ((forward_kl_topk_token (Some c) ?p ids target)
        \<lparr> student_mass := mass (map (clamp_min (Some c)) ?p), teacher_mass := mass (map (clamp_min (Some c)) (fst target)) \<rparr>, ranks)"
    using vp_forward_value[OF ok law k] by metis
  show ?thesis
    unfolding v fsdp_one_token[OF ok config(1)]
    using mass_clamped[of ?p c] mass_clamped[of "fst target" c] by (simp add: forward_kl_topk_token_def Let_def)
qed

theorem megatron_masses_count_clamped_tokens_witness:
  "\<exists>full out ranks. fsdp_forward_kl_topk sort_topk ((plain_loss_config ''forward_kl_topk'' None)\<lparr> log_prob_min_clamp := Some (- 1) \<rparr>) None 1
      [([- 2], [1])] [[0, 1]] = Inr [full] \<and>
    vp_forward sort_topk hd (\<lambda>n r w. (int (r * n), int (r * n + n))) (Some (- 1)) ([- 2], [1]) [[0], [1]] = Inr (out, ranks) \<and>
    teacher_mass out \<noteq> teacher_mass full"
  using megatron_masses_count_clamped_tokens[of 1 "\<lambda>n r w. (int (r * n), int (r * n + n))" "[[0], [1]]" "([- 2], [1])" sort_topk
      "(plain_loss_config ''forward_kl_topk'' None)\<lparr> log_prob_min_clamp := Some (- 1) \<rparr>" "- 1" hd] sort_topk_law
  by (auto simp: vp_setup_def sharded_def in_order_def target_ok_def plain_loss_config_def)

text \<open>
  C5: the backward pass written by hand is the gradient: unless a teacher token's log-probability sits exactly on the clamp, element
  \<open>j\<close> of what rank \<open>r\<close> returns is the derivative of the summed loss, times the incoming gradient, by logit \<open>j\<close> of that rank.
\<close>

theorem vocab_parallel_gradient:
  assumes ok: "vp_setup n vocab_range shards target" and law: "topk_law topk_of"
    and k: "length (snd target) \<le> length shards * n" and r: "r < length shards" and j: "j < n"
    and off: "\<forall>i \<in> set (snd target). lo \<noteq> Some (log_softmax (concat shards) ! nat i)"
  shows "\<exists>loss out ranks. vp_forward topk_of local_max vocab_range lo target shards = Inr (out, ranks) \<and>
    (\<forall>x. \<exists>out' ranks'. vp_forward topk_of local_max vocab_range lo target (shards[r := (shards ! r)[j := x]]) = Inr (out', ranks') \<and>
      distillation_losses out' = loss x) \<and>
    ((\<lambda>x. g * loss x) has_real_derivative vp_backward g (target_active_mass lo target ranks) (ranks ! r) ! j) (at (shards ! r ! j))"
proof -
  let ?k = "length (snd target)" and ?zs = "concat shards" and ?v = "r * n + j"
  let ?act = "\<lambda>t. active_at lo (log_softmax ?zs ! id_of target t)" and ?q = "q_of lo target"
  have sh: "sharded n shards" using ok by (simp add: vp_setup_def)
  then have rows: "\<forall>row \<in> set shards. length row = n" by (simp add: sharded_def)
  note ids = vp_setup_ids[OF ok]
  define X where "X = (\<Sum>t<?k. ?q t * - (if ?act t then (if id_of target t = ?v then 1 else 0) - exp (log_softmax ?zs ! ?v) else 0))"
  define loss where "loss x = sum_list (map (kl_term lo target (log_softmax (?zs[?v := x]))) [0..<?k])" for x
  obtain out ranks where v: "vp_forward topk_of local_max vocab_range lo target shards = Inr (out, ranks)"
      "shares_spec lo n target shards ranks"
    using vp_forward_value[OF ok law k] by metis
  have each: "\<exists>out' ranks'. vp_forward topk_of local_max vocab_range lo target (shards[r := (shards ! r)[j := x]]) = Inr (out', ranks') \<and>
      distillation_losses out' = loss x" for x
  proof -
    let ?s = "shards[r := (shards ! r)[j := x]]"
    have "vp_setup n vocab_range ?s target"
      using ok sharded_update[OF sh r] by (simp add: vp_setup_def)
    from vp_forward_value[OF this law, of lo local_max] k show ?thesis
      by (auto simp: loss_def concat_update_shard[OF rows r j] forward_kl_topk_token_def Let_def forward_kl_def kl_terms[OF ids(3)])
  qed
  have v_lt: "?v < length ?zs" "?zs ! ?v = shards ! r ! j"
  proof -
    have "r * n + n \<le> length shards * n" using r by (metis mult_Suc add.commute mult_le_mono1 Suc_leI)
    then show "?v < length ?zs" using j ids(4) by simp
  qed (rule concat_shards(2)[OF rows r j])
  have lt: "id_of target t < length ?zs" if "t < ?k" for t using ids(2)[OF that] ids(4) by simp
  have "((\<lambda>x. kl_term lo target (log_softmax (?zs[?v := x])) t) has_real_derivative
      ?q t * - (if ?act t then (if id_of target t = ?v then 1 else 0) - exp (log_softmax ?zs ! ?v) else 0)) (at (?zs ! ?v))" if t: "t < ?k" for t
  proof -
    have "lo \<noteq> Some (log_softmax (?zs[?v := ?zs ! ?v]) ! id_of target t)" using off nth_mem[OF t] by (auto simp: id_of_def)
    from DERIV_cmult[OF DERIV_diff[OF DERIV_const clamp_deriv[OF log_softmax_deriv[OF v_lt(1) lt[OF t]] this]],
        of "?q t" "clamp_min lo (fst target ! t)"] show ?thesis by (simp add: kl_term_def)
  qed
  then have D: "(loss has_real_derivative X) (at (?zs ! ?v))"
    unfolding loss_def X_def by (auto simp: interv_sum_list_conv_sum_set_nat atLeast0LessThan intro!: derivative_intros)
  have "g * X = vp_backward g (target_active_mass lo target ranks) (ranks ! r) ! j"
    unfolding vp_backward_nth[OF ok v(2) r j] X_def
    by (auto simp: interv_sum_list_conv_sum_set_nat atLeast0LessThan sum_distrib_left sum_subtractf[symmetric] algebra_simps intro!: sum.cong)
  with DERIV_cmult[OF D, of g]
  have "((\<lambda>x. g * loss x) has_real_derivative vp_backward g (target_active_mass lo target ranks) (ranks ! r) ! j) (at (?zs ! ?v))"
    by (simp only:)
  then show ?thesis using v each unfolding v_lt(2) by blast
qed

lemma log_softmax_two: "log_softmax [0, 0] = [- ln 2, - ln 2]"
  by (simp add: log_softmax_def)

theorem vocab_parallel_gradient_witness:
  "\<exists>loss out ranks. vp_forward sort_topk hd (\<lambda>n r w. (int (r * n), int (r * n + n))) (Some (- 1)) ([- 2], [1]) [[0], [0]] = Inr (out, ranks) \<and>
    ((\<lambda>x. 3 * loss x) has_real_derivative vp_backward 3 (target_active_mass (Some (- 1)) ([- 2], [1]) ranks) (ranks ! 0) ! 0) (at 0)"
proof -
  have off: "\<forall>i \<in> set (snd ([- 2], [1 :: int])). Some (- 1) \<noteq> Some (log_softmax (concat [[0], [0]]) ! nat i)"
    using ln_2_less_1 by (simp add: log_softmax_two)
  have ok: "vp_setup 1 (\<lambda>n r w. (int (r * n), int (r * n + n))) [[0], [0]] ([- 2], [1])"
    by (simp add: vp_setup_def sharded_def in_order_def target_ok_def)
  have n: "length (snd ([- 2 :: real], [1 :: int])) \<le> length [[0 :: real], [0]] * 1" "0 < length [[0 :: real], [0]]" "0 < (1 :: nat)" by simp_all
  from vocab_parallel_gradient[OF ok sort_topk_law n off, of hd 3] show ?thesis by auto
qed

end
