(* ===== verification/Spec2Isabelle.thy ===== *)
theory Spec2Isabelle
  imports Prelude PyStrings PyFunctional Heapq AgentLoop CoreAlgos DataProto Dispatch FullyAsync Groupwise Hparams
    KarmarkarKarp Learners LoadBalancer MathReward MessageQueue MultiTrajectory OnPolicy OpdLoss OpdRollout OpdTeacher
    PolicyLosses ReplayBuffer RolloutCorr Rpc SeqlenBalancing SftEncoding StudentServer TokenBaseline ToolAgent
    TrainerV1 VerlDistillation VerlPadding VocabParallel WeightTransfer
begin

text \<open>
  A model of the on-policy distillation workspace in \<open>src/\<close>.

  \<^bold>\<open>The program.\<close>  Two code bases share one task.  \<open>src/CLightMLLM_new\<close> (\<open>C/\<close> below) trains a student model on its own rollouts
  against the token distributions of a teacher: the trainer samples responses on a rollout server, asks a teacher server for the
  top-\<open>k\<close> log-probabilities of the same tokens, takes a forward KL loss on the response positions, and after the optimizer step sends
  the student's weights back to the rollout server.  \<open>src/verl_new/verl\<close> (\<open>V/\<close> below) is the distributed reinforcement learning framework
  whose distillation the first code base reproduces: agents generate trajectories through a load balancer, a batch (\<open>DataProto\<close>) is
  balanced, dispatched to workers, packed without padding, scored by losses and advantages, and its pieces are collected again.

  \<^bold>\<open>Theories and code.\<close>  Every theory opens with a text that names its files; the definitions keep the names of the code and follow
  its order.
  \<^item> \<^theory_text>\<open>Prelude\<close>, \<^theory_text>\<open>PyStrings\<close>, \<^theory_text>\<open>PyFunctional\<close>, \<^theory_text>\<open>Heapq\<close>: Python's exceptions as values (\<open>result\<close>, \<open>Inl\<close> the exception),
    dictionaries as association lists in order of insertion, indexing, slicing and stable sorts; \<open>str\<close> methods; the dictionary helpers and
    the dynamic enumerations of \<open>V/utils/py_functional.py\<close>; \<open>heapq\<close> as an interpretation of a locale of priority queues.
  \<^item> The OPD trainer.  \<^theory_text>\<open>SftEncoding\<close>: \<open>C/src/data/module.py\<close>, from dataset rows to batches.  \<^theory_text>\<open>Hparams\<close>: \<open>C/src/hparams.py\<close> and
    the stages of \<open>C/train.py\<close>.  \<^theory_text>\<open>OpdRollout\<close>: \<open>C/src/method/rollout.py\<close> and the rollout half of \<open>vllm_student.py\<close>.
    \<^theory_text>\<open>OpdTeacher\<close>: \<open>vllm_teacher.py\<close>.  \<^theory_text>\<open>OpdLoss\<close>: \<open>opd.py\<close>.  \<^theory_text>\<open>Learners\<close>: the other learners.  \<^theory_text>\<open>WeightTransfer\<close>:
    \<open>bucketed_weight_transfer.py\<close>.  \<^theory_text>\<open>StudentServer\<close>: \<open>C/tools/serve_vllm_student.py\<close> with its client and the sender's side.
    \<^theory_text>\<open>Rpc\<close>: \<open>rpc.py\<close>.  \<^theory_text>\<open>OnPolicy\<close> composes them: the training loop around the server.
  \<^item> Distillation in verl.  \<^theory_text>\<open>VerlPadding\<close>: packed sequences and their slices over a sequence-parallel group.  \<^theory_text>\<open>VerlDistillation\<close>:
    the losses on FSDP, the collection of their metrics and counts, the configuration of the teachers.  \<^theory_text>\<open>VocabParallel\<close>: the loss and its
    gradient with the vocabulary divided over Megatron ranks.
  \<^item> Reinforcement learning in verl.  \<^theory_text>\<open>CoreAlgos\<close>, \<^theory_text>\<open>PolicyLosses\<close>, \<^theory_text>\<open>TokenBaseline\<close>: advantages, baselines and policy losses of
    \<open>V/trainer/ppo/core_algos.py\<close>.  \<^theory_text>\<open>Groupwise\<close>: \<open>V/utils/groupwise.py\<close>, how labels of groups become integers and which it keeps
    apart.  \<^theory_text>\<open>RolloutCorr\<close>: importance weights and rejection masks of \<open>rollout_corr_helper.py\<close>.
    \<^theory_text>\<open>MathReward\<close>: rule-based rewards.
  \<^item> The distributed parts.  \<^theory_text>\<open>DataProto\<close>: \<open>V/protocol.py\<close>.  \<^theory_text>\<open>Dispatch\<close>: \<open>V/single_controller/base/decorator.py\<close>.
    \<^theory_text>\<open>KarmarkarKarp\<close>, \<^theory_text>\<open>SeqlenBalancing\<close>: \<open>V/utils/seqlen_balancing.py\<close>.  \<^theory_text>\<open>LoadBalancer\<close>: \<open>V/workers/rollout/llm_server.py\<close>, the
    balancer and the client that resumes aborted requests.  \<^theory_text>\<open>MessageQueue\<close>: the bounded sample queue.  \<^theory_text>\<open>AgentLoop\<close>: a request
    through the vLLM server, the single-turn agent, the teacher's rows and the padded batch.  \<^theory_text>\<open>ToolAgent\<close>: the state machine of the
    agent that calls tools.
  \<^item> \<^theory_text>\<open>ReplayBuffer\<close>: \<open>V/trainer/ppo/v1/replay_buffer.py\<close>, the metadata of the transfer queue, both off-policy strategies and the polling
  \<open>sample\<close>: it takes the oldest finished prompts with all their trajectories, once each; with the strategy \<open>drop\<close> it returns at the first
  poll that lists enough prompts.
  \<^item> \<^theory_text>\<open>MultiTrajectory\<close>: \<open>V/trainer/ppo/v1/utils.py\<close> and \<open>V/trainer/ppo/padding_utils.py\<close>, the keys of trajectories, advantages of agents with
  several outputs, and the padding of a batch to the multiple that the updates need, with what the padding leaves alone and what it breaks.
  \<^item> \<^theory_text>\<open>TrainerV1\<close>: the loop of the trainers in \<open>V/trainer/ppo/v1\<close>: the schedule of batches, samples, updates, checkpoints and validations, and
  which version of the weights the servers have at each of them; with the replay buffer, how many versions a kept trajectory can span.
  \<^item> \<^theory_text>\<open>FullyAsync\<close>: \<open>V/experimental/fully_async_policy\<close>, the coroutines of the rollouter, the queue and the trainer as actions on one state; in
  every interleaving the stale samples at a sync are bounded and no sample is trained twice.  Its last parts are the counters of the
  trainer at the end of a run and the hybrid replicas of a validation.

  \<^bold>\<open>What the lemmas show.\<close>  For each component: an invariant of its state kept by every operation (the balancer's counts, the queue,
  the dynamic enumerations, the server's versions, a tool trajectory); the functional behaviour of its operations with their errors; the
  equality of vectorised, chunked, packed or distributed code with its plain form (GRPO, the chunked KL, packed rows, the vocabulary
  in shards, the balanced micro-batches); round trips (messages, weights, padding, dispatch and collect); bounds; and termination of
  loops.  The properties that span components say that the tokens a loss is taken on are those the current student sampled
  (\<^theory_text>\<open>OnPolicy\<close>, \<^theory_text>\<open>ToolAgent\<close>), that a teacher's row stands at the token it describes (\<^theory_text>\<open>OpdTeacher\<close>, \<^theory_text>\<open>AgentLoop\<close>), that
  the learner's loss is verl's loss (\<^theory_text>\<open>VerlDistillation\<close>), and that a sync leaves the server with the weights of the trainer
  (\<^theory_text>\<open>WeightTransfer\<close>, \<^theory_text>\<open>StudentServer\<close>).  Where the code does something else than it means to, a theorem states what it does.

  \<^bold>\<open>Parameters and named hypotheses.\<close>  Code outside of \<open>src/\<close> is an argument, and what is relied on has a name: \<open>cache_laws\<close> (a
  bounded cache keeps what it returns), \<open>engine_scores\<close> and \<open>scores_prompts\<close> (an engine's prompt log-probabilities describe the tokens
  they stand for), \<open>answers_logged\<close> and \<open>no_calls_in_nothing\<close> (a server logs every token, a parser finds nothing in nothing),
  \<open>topk_law\<close>, \<open>topk_source\<close> and \<open>is_permutation_source\<close> (\<open>torch.topk\<close> and \<open>torch.randperm\<close>), \<open>in_order\<close> (vocabulary shards are
  contiguous and in rank order), \<open>pads_left\<close> and \<open>plugin_total\<close> (the tokenizer's padding and the image plugin), \<open>loads_by_name\<close> and
  \<open>cast_sound\<close> (a model loads tensors by their names, a cast keeps shape and size).  Each is used by a property together with a witness
  on a concrete instance.  The sums that other ranks contribute to an all-reduce are arguments too.

  \<^bold>\<open>Numbers, bounds and fuel.\<close>  Floats are reals, except where a claim is about the values that do not exist there; log-probabilities
  that are only moved are integers.  Token numbers, lengths and counters are \<open>int\<close> or \<open>nat\<close> as Python's integers have no width; bytes are
  8-bit words, the length prefix of a message is its eight bytes in big-endian order.  Strings are ASCII.  Loops that may run forever have
  fuel or an option: the resuming client (enough fuel is one more than the tokens left to generate, when no abort comes without
  progress), the tool agent (twice the response length plus two); both have a termination theorem.

  \<^bold>\<open>Not modelled.\<close>  The engines (vLLM, SGLang, FSDP, Megatron), Triton kernels and model architectures, process and port management,
  Ray actors, checkpoint and dataset files, logging and profiling, and images and videos beyond their number and place: their behaviour is
  not in the repository or is input and output.  The trainers that only connect the modelled functions are modelled where they decide
  something (the rollout and sync schedule, the staleness of counts), not as programs.

  \<^bold>\<open>Plan.\<close>  Parts that could be added in the same way are the reward managers, the retention of checkpoints, the metrics of a validation and of a
  step, and the packing of sequences under context parallelism.
\<close>

end
